(* ===== verification/Prelude.thy ===== *)
theory Prelude
  imports Main "HOL-Library.AList"
begin

text \<open>
  The prelude of the development: the vocabulary every component shares.

  \<^item> Results: a Go function that returns \<open>(T, error)\<close> is a value of the sum type
    \<open>error + T\<close>; \<open>Inl\<close> is a non-nil error.
  \<^item> Go maps: an association list with distinct keys. Its order is one possible
    iteration order of the Go map, which the language leaves open, so a theorem about an
    arbitrary list is a theorem about every iteration order. The interface the components
    rely on is the locale \<open>go_map\<close>, interpreted on these lists as \<open>gm\<close>.
  \<^item> Byte strings: a Go string is the list of its bytes; \<open>toLower\<close> and
    \<open>trimSpace\<close> act on the ASCII range, and their users say when that is the whole of
    what the code does.
\<close>

named_theorems go_simps \<open>equations that evaluate the shared Go vocabulary\<close>

section \<open>Results\<close>

definition is_ok :: "'e + 'a \<Rightarrow> bool" where
  "is_ok r = (case r of Inl _ \<Rightarrow> False | Inr _ \<Rightarrow> True)"

lemma is_ok_simps [simp, go_simps]:
  "is_ok (Inr x)" "\<not> is_ok (Inl e)"
  by (simp_all add: is_ok_def)

lemma is_ok_iff: "is_ok r \<longleftrightarrow> (\<exists>x. r = Inr x)"
  by (cases r) (auto simp: is_ok_def)

section \<open>Go maps\<close>

type_synonym ('k, 'v) gomap = "('k \<times> 'v) list"

definition gm_get :: "('k, 'v) gomap \<Rightarrow> 'k \<Rightarrow> 'v option" where
  "gm_get m k = map_of m k"

definition gm_put :: "'k \<Rightarrow> 'v \<Rightarrow> ('k, 'v) gomap \<Rightarrow> ('k, 'v) gomap" where
  "gm_put k v m = AList.update k v m"

definition gm_del :: "'k \<Rightarrow> ('k, 'v) gomap \<Rightarrow> ('k, 'v) gomap" where
  "gm_del k m = filter (\<lambda>p. fst p \<noteq> k) m"

definition gm_ok :: "('k, 'v) gomap \<Rightarrow> bool" where
  "gm_ok m = distinct (map fst m)"

abbreviation (input) gm_keys :: "('k, 'v) gomap \<Rightarrow> 'k set" where
  "gm_keys m \<equiv> fst ` set m"

lemma gm_get_empty [simp, go_simps]: "gm_get [] k = None"
  by (simp add: gm_get_def)

lemma gm_get_put [simp]: "gm_get (gm_put k v m) j = (if j = k then Some v else gm_get m j)"
  by (simp add: gm_get_def gm_put_def update_conv')

lemma gm_get_del [simp]: "gm_get (gm_del k m) j = (if j = k then None else gm_get m j)"
  unfolding gm_get_def gm_del_def by (induction m) auto

lemma gm_ok_empty [simp]: "gm_ok []"
  by (simp add: gm_ok_def)

lemma gm_ok_put [simp]: "gm_ok m \<Longrightarrow> gm_ok (gm_put k v m)"
  by (simp add: gm_ok_def gm_put_def distinct_update)

lemma gm_ok_del [simp]: "gm_ok m \<Longrightarrow> gm_ok (gm_del k m)"
  by (simp add: gm_ok_def gm_del_def distinct_map_filter)

lemma gm_keys_put [simp]: "gm_keys (gm_put k v m) = insert k (gm_keys m)"
  unfolding gm_put_def by (induction m) auto

lemma gm_keys_del [simp]: "gm_keys (gm_del k m) = gm_keys m - {k}"
  unfolding gm_del_def by auto

lemma gm_get_None_iff: "gm_get m k = None \<longleftrightarrow> k \<notin> gm_keys m"
  by (simp add: gm_get_def map_of_eq_None_iff)

lemma gm_get_SomeD: "gm_get m k = Some v \<Longrightarrow> (k, v) \<in> set m"
  by (simp add: gm_get_def map_of_SomeD)

lemma gm_get_Some_iff: "gm_ok m \<Longrightarrow> gm_get m k = Some v \<longleftrightarrow> (k, v) \<in> set m"
  by (simp add: gm_get_def gm_ok_def)

text \<open>The length of a map is the number of its keys.\<close>

lemma gm_length_put:
  "length (gm_put k v m) = (if k \<in> gm_keys m then length m else Suc (length m))"
  unfolding gm_put_def by (induction m) auto

lemma gm_length_del_le [simp]: "length (gm_del k m) \<le> length m"
  by (simp add: gm_del_def)

lemma gm_put_set:
  "gm_ok m \<Longrightarrow> set (gm_put k v m) = insert (k, v) {p \<in> set m. fst p \<noteq> k}"
  unfolding gm_put_def gm_ok_def by (induction m) (auto simp: image_iff)

lemma gm_del_set [simp]: "set (gm_del k m) = {p \<in> set m. fst p \<noteq> k}"
  by (auto simp: gm_del_def)

lemma gm_put_ball:
  "gm_ok m \<Longrightarrow> \<forall>p \<in> set m. fst p \<noteq> k \<longrightarrow> P p \<Longrightarrow> P (k, v) \<Longrightarrow> \<forall>p \<in> set (gm_put k v m). P p"
  by (auto simp: gm_put_set)

text \<open>What a component relies on when it uses a Go map.\<close>

locale go_map =
  fixes empty :: "'m"
    and get :: "'m \<Rightarrow> 'k \<Rightarrow> 'v option"
    and put :: "'k \<Rightarrow> 'v \<Rightarrow> 'm \<Rightarrow> 'm"
    and del :: "'k \<Rightarrow> 'm \<Rightarrow> 'm"
    and ok :: "'m \<Rightarrow> bool"
  assumes get_empty: "get empty k = None"
    and get_put: "ok m \<Longrightarrow> get (put k v m) j = (if j = k then Some v else get m j)"
    and get_del: "ok m \<Longrightarrow> get (del k m) j = (if j = k then None else get m j)"
    and ok_empty: "ok empty"
    and ok_put: "ok m \<Longrightarrow> ok (put k v m)"
    and ok_del: "ok m \<Longrightarrow> ok (del k m)"
begin

lemma get_put_same: "ok m \<Longrightarrow> get (put k v m) k = Some v"
  by (simp add: get_put)

lemma get_put_put: "ok m \<Longrightarrow> get (put k w (put k v m)) = get (put k w m)"
  by (simp add: get_put ok_put fun_eq_iff)

lemma put_commute: "ok m \<Longrightarrow> j \<noteq> k \<Longrightarrow> get (put j v (put k w m)) = get (put k w (put j v m))"
  by (simp add: get_put ok_put fun_eq_iff)

lemma del_commute: "ok m \<Longrightarrow> get (del j (del k m)) = get (del k (del j m))"
  by (simp add: get_del ok_del fun_eq_iff)

lemma ok_fold_put: "ok m \<Longrightarrow> ok (fold (\<lambda>k. put k (f k)) ks m)"
  by (induction ks arbitrary: m) (simp_all add: ok_put)

lemma get_fold_put:
  "ok m \<Longrightarrow> get (fold (\<lambda>k. put k (f k)) ks m) j = (if j \<in> set ks then Some (f j) else get m j)"
  by (induction ks arbitrary: m) (auto simp: get_put ok_put)

lemma ok_fold_del: "ok m \<Longrightarrow> ok (fold del ks m)"
  by (induction ks arbitrary: m) (simp_all add: ok_del)

lemma get_fold_del:
  "ok m \<Longrightarrow> get (fold del ks m) j = (if j \<in> set ks then None else get m j)"
  by (induction ks arbitrary: m) (auto simp: get_del ok_del)

end

interpretation gm: go_map "[]" gm_get gm_put gm_del gm_ok
  by unfold_locales (auto split: if_splits)

section \<open>State machines\<close>

text \<open>
  What a state machine with an inductive invariant promises: the invariant holds at the start
  and every step keeps it. A component's concurrent behaviour is a step relation whose
  interpretation of this locale carries its safety properties to every reachable state.
\<close>

locale invariant_system =
  fixes start :: "'s"
    and step :: "'s \<Rightarrow> 's \<Rightarrow> bool"
    and inv :: "'s \<Rightarrow> bool"
  assumes inv_start: "inv start"
    and inv_step: "inv s \<Longrightarrow> step s t \<Longrightarrow> inv t"
begin

lemma inv_steps: "inv s \<Longrightarrow> step\<^sup>*\<^sup>* s t \<Longrightarrow> inv t"
  by (rotate_tac, induction rule: rtranclp_induct) (auto intro: inv_step)

lemma reachable_inv: "step\<^sup>*\<^sup>* start s \<Longrightarrow> inv s"
  using inv_start by (rule inv_steps)

lemma reachable_always:
  "(\<And>s. inv s \<Longrightarrow> P s) \<Longrightarrow> step\<^sup>*\<^sup>* start s \<Longrightarrow> P s"
  by (blast dest: reachable_inv)

end

section \<open>Byte strings\<close>

definition lowerChar :: "char \<Rightarrow> char" where
  "lowerChar c = (if 65 \<le> (of_char c :: nat) \<and> (of_char c :: nat) \<le> 90
                  then char_of ((of_char c :: nat) + 32) else c)"

definition toLower :: "string \<Rightarrow> string" where
  "toLower s = map lowerChar s"

text \<open>The ASCII part of \<open>unicode.IsSpace\<close>: tab, newline, vertical tab, form feed,
  carriage return and space.\<close>

definition isSpaceByte :: "char \<Rightarrow> bool" where
  "isSpaceByte c = ((of_char c :: nat) \<in> {9, 10, 11, 12, 13, 32})"

definition trimLeftBy :: "(char \<Rightarrow> bool) \<Rightarrow> string \<Rightarrow> string" where
  "trimLeftBy p s = dropWhile p s"

definition trimBy :: "(char \<Rightarrow> bool) \<Rightarrow> string \<Rightarrow> string" where
  "trimBy p s = rev (dropWhile p (rev (dropWhile p s)))"

definition trimSpace :: "string \<Rightarrow> string" where
  "trimSpace s = trimBy isSpaceByte s"

definition isLowerByte :: "char \<Rightarrow> bool" where
  "isLowerByte c = (97 \<le> (of_char c :: nat) \<and> (of_char c :: nat) \<le> 122)"

definition isUpperByte :: "char \<Rightarrow> bool" where
  "isUpperByte c = (65 \<le> (of_char c :: nat) \<and> (of_char c :: nat) \<le> 90)"

definition isDigitByte :: "char \<Rightarrow> bool" where
  "isDigitByte c = (48 \<le> (of_char c :: nat) \<and> (of_char c :: nat) \<le> 57)"

lemma set_dropWhile_subset: "set (dropWhile p s) \<subseteq> set s"
  by (auto dest: set_dropWhileD)

lemma set_trimBy: "set (trimBy p s) \<subseteq> set s"
  unfolding trimBy_def
  using set_dropWhile_subset [of p "rev (dropWhile p s)"] set_dropWhile_subset [of p s]
  by (simp add: subset_trans)

lemma length_trimBy_le: "length (trimBy p s) \<le> length s"
  unfolding trimBy_def by (metis length_dropWhile_le length_rev order_trans)

text \<open>Trimming keeps a string that neither starts nor ends in a trimmed byte.\<close>

lemma dropWhile_id: "s = [] \<or> \<not> p (hd s) \<Longrightarrow> dropWhile p s = s"
  by (cases s) auto

lemma dropWhile_hd: "dropWhile p s = [] \<or> \<not> p (hd (dropWhile p s))"
  by (induction s) auto

lemma dropWhile_suffix: "\<exists>u. s = u @ dropWhile p s"
  by (metis takeWhile_dropWhile_id)

lemma trimBy_ends:
  assumes "trimBy p s \<noteq> []"
  shows "\<not> p (hd (trimBy p s))" and "\<not> p (last (trimBy p s))"
proof -
  let ?d = "dropWhile p s" and ?e = "dropWhile p (rev (dropWhile p s))"
  from assms have ne: "?e \<noteq> []" by (simp add: trimBy_def)
  obtain u where u: "rev ?d = u @ ?e" using dropWhile_suffix by blast
  then have d: "?d = rev ?e @ rev u" by (metis rev_append rev_rev_ident)
  then have "hd ?d = hd (rev ?e)" using ne by (metis hd_append2 rev_is_Nil_conv)
  moreover from ne have "?d \<noteq> []" by (cases "?d") simp_all
  ultimately show "\<not> p (hd (trimBy p s))"
    using dropWhile_hd [of p s] by (auto simp: trimBy_def)
  show "\<not> p (last (trimBy p s))"
    using dropWhile_hd [of p "rev ?d"] ne by (auto simp: trimBy_def last_rev)
qed

lemma trimBy_id: "s = [] \<or> \<not> p (hd s) \<and> \<not> p (last s) \<Longrightarrow> trimBy p s = s"
  by (cases "s = []") (auto simp: trimBy_def dropWhile_id hd_rev)

lemma trimBy_idem: "trimBy p (trimBy p s) = trimBy p s"
  by (metis trimBy_ends trimBy_id)

end
