(* ===== verification/LocalGate.thy ===== *)
theory LocalGate
  imports Prelude "HOL-Library.Multiset"
begin

text \<open>
  The in-process reader/writer gate of \<open>internal/runlock/local_gate.go\<close>: a FIFO queue of
  waiters in front of a count of active readers and one active writer. Every method takes the
  gate's mutex, so one method is one step. A waiter's \<open>ready\<close> channel is closed exactly when
  its \<open>granted\<close> flag is set; both are the membership of its number in \<open>readyIDs\<close>.
  The step relation \<open>gate_step\<close> interleaves the calls of any number of goroutines; the
  components outside the gate record (calls that hold a lease, calls that wait in the
  \<open>select\<close> of \<open>acquire\<close>) are the goroutines' own states.
\<close>

section \<open>The gate and its methods\<close>

datatype mode = Shared | Exclusive

record localWaiter =
  w_id :: nat
  w_mode :: mode

record localGate =
  activeReaders :: int
  activeWriter :: bool
  waiters :: "localWaiter list"
  readyIDs :: "nat list"

definition emptyGate :: localGate where
  "emptyGate = \<lparr>activeReaders = 0, activeWriter = False, waiters = [], readyIDs = []\<rparr>"

definition canGrant :: "localGate \<Rightarrow> mode \<Rightarrow> bool" where
  "canGrant g m = (case m of Shared \<Rightarrow> \<not> activeWriter g
                   | Exclusive \<Rightarrow> \<not> activeWriter g \<and> activeReaders g = 0)"

definition markGranted :: "mode \<Rightarrow> localGate \<Rightarrow> localGate" where
  "markGranted m g = (case m of Shared \<Rightarrow> g\<lparr>activeReaders := activeReaders g + 1\<rparr>
                      | Exclusive \<Rightarrow> g\<lparr>activeWriter := True\<rparr>)"

definition markReleased :: "mode \<Rightarrow> localGate \<Rightarrow> localGate" where
  "markReleased m g = (case m of Shared \<Rightarrow> g\<lparr>activeReaders := activeReaders g - 1\<rparr>
                       | Exclusive \<Rightarrow> g\<lparr>activeWriter := False\<rparr>)"

text \<open>The loop of \<open>grantWaiters\<close>, on the queue it has still to look at.\<close>

fun grantLoop :: "localWaiter list \<Rightarrow> localGate \<Rightarrow> localGate" where
  "grantLoop [] g = g\<lparr>waiters := []\<rparr>"
| "grantLoop (w # ws) g =
     (if \<not> canGrant g (w_mode w) then g\<lparr>waiters := w # ws\<rparr>
      else let g' = (markGranted (w_mode w) g)\<lparr>waiters := ws, readyIDs := w_id w # readyIDs g\<rparr>
           in if w_mode w = Exclusive then g' else grantLoop ws g')"

definition grantWaiters :: "localGate \<Rightarrow> localGate" where
  "grantWaiters g = grantLoop (waiters g) g"

definition tryAcquire :: "mode \<Rightarrow> localGate \<Rightarrow> localGate \<times> bool" where
  "tryAcquire m g = (if waiters g \<noteq> [] \<or> \<not> canGrant g m then (g, False)
                     else (markGranted m g, True))"

text \<open>
  \<open>acquire\<close> up to its \<open>select\<close>: either the lease is granted at once, or the call's waiter is
  queued and the call waits.
\<close>

datatype acquired = Granted | Waiting

definition acquire_enter :: "nat \<Rightarrow> mode \<Rightarrow> localGate \<Rightarrow> localGate \<times> acquired" where
  "acquire_enter n m g =
     (if waiters g = [] \<and> canGrant g m then (markGranted m g, Granted)
      else (grantWaiters (g\<lparr>waiters := waiters g @ [\<lparr>w_id = n, w_mode = m\<rparr>]\<rparr>), Waiting))"

text \<open>The \<open>ctx.Done()\<close> branch of the \<open>select\<close>: a grant that raced the cancellation is handed
  back, an ungranted waiter leaves the queue.\<close>

definition acquire_cancel :: "nat \<Rightarrow> mode \<Rightarrow> localGate \<Rightarrow> localGate" where
  "acquire_cancel n m g =
     (if n \<in> set (readyIDs g) then grantWaiters (markReleased m g)
      else grantWaiters (g\<lparr>waiters := filter (\<lambda>w. w_id w \<noteq> n) (waiters g)\<rparr>))"

definition release_lease :: "mode \<Rightarrow> localGate \<Rightarrow> localGate" where
  "release_lease m g = grantWaiters (markReleased m g)"

section \<open>Goroutines around one gate\<close>

record gateSys =
  gate :: localGate
  leases :: "(nat \<times> mode) list"
  blocked :: "(nat \<times> mode) list"
  nextID :: nat

definition init_sys :: gateSys where
  "init_sys = \<lparr>gate = emptyGate, leases = [], blocked = [], nextID = 0\<rparr>"

text \<open>
  One step: a \<open>tryAcquire\<close>, an \<open>acquire\<close> entering, a waiting \<open>acquire\<close> whose \<open>ready\<close> channel is
  closed returning its lease, one whose context ends, or a lease's first \<open>release\<close> (later ones do
  nothing: \<open>sync.Once\<close>).
\<close>

inductive gate_step :: "gateSys \<Rightarrow> gateSys \<Rightarrow> bool" where
  step_try: "tryAcquire m (gate s) = (g, b) \<Longrightarrow>
     gate_step s (s\<lparr>gate := g, leases := (if b then (nextID s, m) # leases s else leases s),
                    nextID := Suc (nextID s)\<rparr>)"
| step_enter: "acquire_enter (nextID s) m (gate s) = (g, a) \<Longrightarrow>
     gate_step s (s\<lparr>gate := g,
                    leases := (if a = Granted then (nextID s, m) # leases s else leases s),
                    blocked := (if a = Waiting then (nextID s, m) # blocked s else blocked s),
                    nextID := Suc (nextID s)\<rparr>)"
| step_ready: "(n, m) \<in> set (blocked s) \<Longrightarrow> n \<in> set (readyIDs (gate s)) \<Longrightarrow>
     gate_step s (s\<lparr>leases := (n, m) # leases s, blocked := remove1 (n, m) (blocked s)\<rparr>)"
| step_cancel: "(n, m) \<in> set (blocked s) \<Longrightarrow>
     gate_step s (s\<lparr>gate := acquire_cancel n m (gate s), blocked := remove1 (n, m) (blocked s)\<rparr>)"
| step_release: "(n, m) \<in> set (leases s) \<Longrightarrow>
     gate_step s (s\<lparr>gate := release_lease m (gate s), leases := remove1 (n, m) (leases s)\<rparr>)"

section \<open>The gate against the leases it has granted\<close>

text \<open>\<open>gate_holds g H\<close>: the counters of \<open>g\<close> are those of the modes \<open>H\<close> granted and not yet given back.\<close>

definition gate_holds :: "localGate \<Rightarrow> mode multiset \<Rightarrow> bool" where
  "gate_holds g H \<longleftrightarrow> activeReaders g = int (count H Shared)
     \<and> (activeWriter g \<longleftrightarrow> 0 < count H Exclusive)
     \<and> count H Exclusive \<le> 1
     \<and> (0 < count H Exclusive \<longrightarrow> count H Shared = 0)"

definition head_blocked :: "localGate \<Rightarrow> bool" where
  "head_blocked g \<longleftrightarrow> (case waiters g of [] \<Rightarrow> True | w # _ \<Rightarrow> \<not> canGrant g (w_mode w))"

lemma gate_holds_grant:
  "gate_holds g H \<Longrightarrow> canGrant g m \<Longrightarrow> gate_holds (markGranted m g) (add_mset m H)"
  by (cases m) (auto simp: gate_holds_def canGrant_def markGranted_def not_in_iff)

lemma gate_holds_release:
  "gate_holds g (add_mset m H) \<Longrightarrow> gate_holds (markReleased m g) H"
  by (cases m) (auto simp: gate_holds_def markReleased_def)

lemma gate_holds_frame [simp]:
  "gate_holds (g\<lparr>waiters := ws\<rparr>) H = gate_holds g H"
  "gate_holds (g\<lparr>readyIDs := ns\<rparr>) H = gate_holds g H"
  by (simp_all add: gate_holds_def)

lemma markGranted_frame [simp]:
  "waiters (markGranted m g) = waiters g" "readyIDs (markGranted m g) = readyIDs g"
  "waiters (markReleased m g) = waiters g" "readyIDs (markReleased m g) = readyIDs g"
  by (cases m; simp add: markGranted_def markReleased_def)+

lemma canGrant_frame [simp]:
  "canGrant (g\<lparr>waiters := ws\<rparr>) m = canGrant g m" "canGrant (g\<lparr>readyIDs := ns\<rparr>) m = canGrant g m"
  by (cases m; simp add: canGrant_def)+

text \<open>The loop grants a prefix of the queue and stops in front of a waiter it cannot grant.\<close>

lemma grantLoop_prefix:
  assumes "gate_holds g H"
  obtains us vs where "ws = us @ vs" and "waiters (grantLoop ws g) = vs"
    and "set (readyIDs (grantLoop ws g)) = w_id ` set us \<union> set (readyIDs g)"
    and "gate_holds (grantLoop ws g) (H + mset (map w_mode us))"
    and "head_blocked (grantLoop ws g)"
proof -
  have "\<exists>us vs. ws = us @ vs \<and> waiters (grantLoop ws g) = vs
      \<and> set (readyIDs (grantLoop ws g)) = w_id ` set us \<union> set (readyIDs g)
      \<and> gate_holds (grantLoop ws g) (H + mset (map w_mode us)) \<and> head_blocked (grantLoop ws g)"
    using assms
  proof (induction ws g arbitrary: H rule: grantLoop.induct)
    case (1 g)
    then show ?case by (simp add: head_blocked_def)
  next
    case (2 w ws g)
    let ?g = "(markGranted (w_mode w) g)\<lparr>waiters := ws, readyIDs := w_id w # readyIDs g\<rparr>"
    show ?case
    proof (cases "canGrant g (w_mode w)")
      case False
      then show ?thesis
        using "2.prems" by (intro exI [of _ "[]"] exI [of _ "w # ws"]) (simp add: head_blocked_def)
    next
      case True
      have h: "gate_holds ?g (add_mset (w_mode w) H)"
        using gate_holds_grant [OF "2.prems" True] by simp
      show ?thesis
      proof (cases "w_mode w = Exclusive")
        case ex: True
        have "\<not> canGrant ?g m" for m
          using ex by (cases m) (simp_all add: canGrant_def markGranted_def)
        then have "head_blocked ?g" by (simp add: head_blocked_def split: list.split)
        with True ex h show ?thesis
          by (intro exI [of _ "[w]"] exI [of _ ws]) (simp add: Let_def)
      next
        case sh: False
        from "2.IH" [OF _ refl sh h] True obtain us vs where
          "ws = us @ vs" "waiters (grantLoop ws ?g) = vs"
          "set (readyIDs (grantLoop ws ?g)) = w_id ` set us \<union> set (readyIDs ?g)"
          "gate_holds (grantLoop ws ?g) (add_mset (w_mode w) H + mset (map w_mode us))"
          "head_blocked (grantLoop ws ?g)" by auto
        with True sh show ?thesis
          by (intro exI [of _ "w # us"] exI [of _ vs]) (auto simp: Let_def)
      qed
    qed
  qed
  with that show ?thesis by blast
qed

section \<open>The invariant of the interleaved system\<close>

text \<open>A call holds the gate when it has its lease, or when its waiter is granted and it has yet
  to wake up.\<close>

definition holders :: "gateSys \<Rightarrow> mode multiset" where
  "holders s = mset (map snd (leases s))
     + mset (map snd (filter (\<lambda>p. fst p \<in> set (readyIDs (gate s))) (blocked s)))"

definition queued :: "gateSys \<Rightarrow> (nat \<times> mode) list" where
  "queued s = filter (\<lambda>p. fst p \<notin> set (readyIDs (gate s))) (blocked s)"

definition sys_wf :: "gateSys \<Rightarrow> bool" where
  "sys_wf s \<longleftrightarrow> distinct (map fst (leases s @ blocked s))
     \<and> (\<forall>n \<in> fst ` set (leases s @ blocked s) \<union> set (readyIDs (gate s)). n < nextID s)
     \<and> mset (map (\<lambda>w. (w_id w, w_mode w)) (waiters (gate s))) = mset (queued s)
     \<and> gate_holds (gate s) (holders s)"

definition gate_inv :: "gateSys \<Rightarrow> bool" where
  "gate_inv s \<longleftrightarrow> sys_wf s \<and> head_blocked (gate s)"

lemma mset_filter_split:
  "mset (filter (\<lambda>x. P x \<or> Q x) xs) = mset (filter Q xs) + filter_mset P (mset (filter (\<lambda>x. \<not> Q x) xs))"
  by (induction xs) auto

lemma filter_prefix_ids:
  assumes "distinct (map fst (us @ vs))"
  shows "filter (\<lambda>p. fst p \<in> fst ` set us) (us @ vs) = us"
    and "filter (\<lambda>p. fst p \<notin> fst ` set us) (us @ vs) = vs"
proof -
  from assms have "filter (\<lambda>p. fst p \<in> fst ` set us) vs = []"
    and "filter (\<lambda>p. fst p \<notin> fst ` set us) vs = vs"
    by (auto simp: filter_empty_conv filter_id_conv)
  then show "filter (\<lambda>p. fst p \<in> fst ` set us) (us @ vs) = us"
    and "filter (\<lambda>p. fst p \<notin> fst ` set us) (us @ vs) = vs"
    by (auto simp: filter_id_conv filter_empty_conv)
qed

text \<open>Waking the queue turns a well-formed state into one that satisfies the invariant.\<close>

lemma grantWaiters_inv:
  assumes wf: "sys_wf s"
  shows "gate_inv (s\<lparr>gate := grantWaiters (gate s)\<rparr>)"
proof -
  let ?g = "gate s" and ?g' = "grantWaiters (gate s)"
  let ?k = "\<lambda>w :: localWaiter. (w_id w, w_mode w)"
  from wf have holds: "gate_holds ?g (holders s)" by (simp add: sys_wf_def)
  obtain us vs where ws: "waiters ?g = us @ vs" and vs: "waiters ?g' = vs"
    and ready: "set (readyIDs ?g') = w_id ` set us \<union> set (readyIDs ?g)"
    and holds': "gate_holds ?g' (holders s + mset (map w_mode us))"
    and head: "head_blocked ?g'"
    using grantLoop_prefix [OF holds, of "waiters ?g"] unfolding grantWaiters_def by metis
  let ?us = "map ?k us" and ?vs = "map ?k vs"
  have ids: "w_id ` set us = fst ` set ?us" by (simp add: image_image)
  from wf ws have q: "mset (?us @ ?vs) = mset (queued s)" by (simp add: sys_wf_def)
  have "distinct (map fst (queued s))"
    using wf by (auto simp: sys_wf_def queued_def distinct_map_filter)
  with q have d: "distinct (map fst (?us @ ?vs))"
    by (metis mset_eq_imp_distinct_iff mset_map)
  have part: "filter_mset (\<lambda>p. fst p \<in> fst ` set ?us) (mset (queued s)) = mset ?us"
    "filter_mset (\<lambda>p. fst p \<notin> fst ` set ?us) (mset (queued s)) = mset ?vs"
    using arg_cong [OF filter_prefix_ids(1) [OF d], of mset]
      arg_cong [OF filter_prefix_ids(2) [OF d], of mset]
    unfolding mset_filter q by simp_all
  let ?t = "s\<lparr>gate := ?g'\<rparr>"
  have "mset (queued ?t) = filter_mset (\<lambda>p. fst p \<notin> fst ` set ?us) (mset (queued s))"
    unfolding queued_def using ready ids
    by (simp add: filter_filter_mset flip: mset_filter) (rule arg_cong [of _ _ "\<lambda>f. mset (filter f _)"], auto)
  then have q': "mset (map ?k (waiters ?g')) = mset (queued ?t)"
    using part vs by simp
  have "mset (filter (\<lambda>p. fst p \<in> set (readyIDs ?g')) (blocked s))
      = mset (filter (\<lambda>p. fst p \<in> set (readyIDs ?g)) (blocked s)) + mset ?us"
    using mset_filter_split [of "\<lambda>p. fst p \<in> fst ` set ?us" "\<lambda>p. fst p \<in> set (readyIDs ?g)" "blocked s"]
      part(1) ready ids by (simp add: queued_def)
  from arg_cong [OF this, of "image_mset snd"]
  have "holders ?t = holders s + image_mset snd (mset ?us)"
    by (simp add: holders_def add.assoc)
  then have "gate_holds ?g' (holders ?t)" using holds' by (simp add: multiset.map_comp comp_def)
  moreover have "n < nextID s" if "n \<in> w_id ` set us" for n
  proof -
    from that ids have "n \<in> fst ` set_mset (mset (?us @ ?vs))" by (auto simp: image_iff)
    then show ?thesis using wf unfolding q by (auto simp: sys_wf_def queued_def)
  qed
  ultimately show ?thesis
    using wf q' head ready unfolding gate_inv_def sys_wf_def by auto
qed

section \<open>Every step keeps the invariant\<close>

lemma canGrant_empty_queue: "waiters g = [] \<Longrightarrow> head_blocked g"
  by (simp add: head_blocked_def)

lemma gate_inv_try:
  assumes inv: "gate_inv s" and tr: "tryAcquire m (gate s) = (g, b)"
  shows "gate_inv (s\<lparr>gate := g, leases := (if b then (nextID s, m) # leases s else leases s),
                     nextID := Suc (nextID s)\<rparr>)"
proof (cases b)
  case False
  with tr have "g = gate s" by (auto simp: tryAcquire_def split: if_splits)
  with inv False show ?thesis
    by (auto simp: gate_inv_def sys_wf_def holders_def queued_def less_Suc_eq)
next
  case True
  with tr have g: "g = markGranted m (gate s)" and w: "waiters (gate s) = []"
    and c: "canGrant (gate s) m" by (auto simp: tryAcquire_def split: if_splits)
  from inv have "gate_holds (gate s) (holders s)" by (simp add: gate_inv_def sys_wf_def)
  from gate_holds_grant [OF this c] True inv w g show ?thesis
    by (auto simp: gate_inv_def sys_wf_def holders_def queued_def less_Suc_eq canGrant_empty_queue)
qed

lemma gate_inv_enter:
  assumes inv: "gate_inv s" and enter: "acquire_enter (nextID s) m (gate s) = (g, a)"
  shows "gate_inv (s\<lparr>gate := g,
                    leases := (if a = Granted then (nextID s, m) # leases s else leases s),
                    blocked := (if a = Waiting then (nextID s, m) # blocked s else blocked s),
                    nextID := Suc (nextID s)\<rparr>)"
proof (cases "waiters (gate s) = [] \<and> canGrant (gate s) m")
  case True
  with enter have "tryAcquire m (gate s) = (g, True)" and "a = Granted"
    by (auto simp: acquire_enter_def tryAcquire_def)
  with gate_inv_try [OF inv this(1)] show ?thesis by simp
next
  case False
  let ?g = "(gate s)\<lparr>waiters := waiters (gate s) @ [\<lparr>w_id = nextID s, w_mode = m\<rparr>]\<rparr>"
  let ?s = "s\<lparr>gate := ?g, blocked := (nextID s, m) # blocked s, nextID := Suc (nextID s)\<rparr>"
  from False enter have g: "g = grantWaiters ?g" and a: "a = Waiting"
    by (auto simp: acquire_enter_def)
  have new: "nextID s \<notin> set (readyIDs (gate s))"
    "nextID s \<notin> fst ` set (leases s @ blocked s)"
    using inv by (auto simp: gate_inv_def sys_wf_def)
  have "sys_wf ?s"
    using inv new unfolding gate_inv_def sys_wf_def holders_def queued_def
    by (auto simp: less_Suc_eq)
  from grantWaiters_inv [OF this] show ?thesis using g a by (cases s) simp
qed

lemma mset_map_remove1:
  "x \<in> set xs \<Longrightarrow> mset (map f xs) = add_mset (f x) (mset (map f (remove1 x xs)))"
  by (induction xs) auto

lemma filter_remove1_mset:
  "x \<in> set xs \<Longrightarrow> P x \<Longrightarrow> mset (filter P xs) = add_mset x (mset (filter P (remove1 x xs)))"
  by (induction xs) auto

lemma filter_remove1_out: "\<not> P x \<Longrightarrow> filter P (remove1 x xs) = filter P xs"
  by (induction xs) auto

lemma gate_inv_ready:
  assumes inv: "gate_inv s" and n: "(n, m) \<in> set (blocked s)" "n \<in> set (readyIDs (gate s))"
  shows "gate_inv (s\<lparr>leases := (n, m) # leases s, blocked := remove1 (n, m) (blocked s)\<rparr>)"
    (is "gate_inv ?t")
proof -
  let ?P = "\<lambda>p :: nat \<times> mode. fst p \<in> set (readyIDs (gate s))"
  have "mset (filter ?P (blocked s)) = add_mset (n, m) (mset (filter ?P (remove1 (n, m) (blocked s))))"
    using n by (intro filter_remove1_mset) auto
  from arg_cong [OF this, of "image_mset snd"] have h: "holders ?t = holders s"
    by (simp add: holders_def)
  have q: "queued ?t = queued s"
    using n by (simp add: queued_def filter_remove1_out)
  have "mset (leases s @ blocked s) = mset ((n, m) # leases s @ remove1 (n, m) (blocked s))"
    using n by simp
  then have "mset (map fst (leases s @ blocked s)) = mset (map fst ((n, m) # leases s @ remove1 (n, m) (blocked s)))"
    by (metis mset_map)
  then have d: "distinct (map fst (leases s @ blocked s))
      = distinct (map fst ((n, m) # leases s @ remove1 (n, m) (blocked s)))"
    and i: "fst ` set (leases s @ blocked s) = fst ` set ((n, m) # leases s @ remove1 (n, m) (blocked s))"
    by (metis mset_eq_imp_distinct_iff, metis mset_eq_setD set_map)
  show ?thesis
    using inv d i h q unfolding gate_inv_def sys_wf_def by simp
qed

lemma remove1_filter_fst:
  "distinct (map fst xs) \<Longrightarrow> (n, m) \<in> set xs \<Longrightarrow> remove1 (n, m) xs = filter (\<lambda>p. fst p \<noteq> n) xs"
proof (induction xs)
  case (Cons p ps)
  show ?case
  proof (cases "p = (n, m)")
    case True
    with Cons.prems have "\<forall>q \<in> set ps. fst q \<noteq> n" by auto
    with True show ?thesis by (simp add: filter_id_conv)
  next
    case False
    with Cons have "(n, m) \<in> set ps" "fst p \<noteq> n" by (auto simp: image_iff)
    with False Cons show ?thesis by simp
  qed
qed simp

text \<open>Giving a grant back leaves the counters of the remaining holders.\<close>

lemma gate_inv_release:
  assumes inv: "gate_inv s" and n: "(n, m) \<in> set (leases s)"
  shows "gate_inv (s\<lparr>gate := release_lease m (gate s), leases := remove1 (n, m) (leases s)\<rparr>)"
proof -
  let ?s = "s\<lparr>gate := markReleased m (gate s), leases := remove1 (n, m) (leases s)\<rparr>"
  have "mset (map snd (leases s)) = add_mset m (mset (map snd (remove1 (n, m) (leases s))))"
    using mset_map_remove1 [OF n, of snd] by simp
  then have h: "holders s = add_mset m (holders ?s)" by (simp add: holders_def)
  have "gate_holds (gate ?s) (holders ?s)"
    using inv gate_holds_release [of "gate s" m "holders ?s"] h
    by (simp add: gate_inv_def sys_wf_def)
  moreover have d: "distinct (map fst (leases s))" using inv by (simp add: gate_inv_def sys_wf_def)
  ultimately have "sys_wf ?s"
    using inv unfolding gate_inv_def sys_wf_def queued_def
    by (auto simp: remove1_filter_fst [OF d n] distinct_map_filter)
  from grantWaiters_inv [OF this] show ?thesis by (cases s) (simp add: release_lease_def)
qed

lemma gate_inv_cancel:
  assumes inv: "gate_inv s" and n: "(n, m) \<in> set (blocked s)"
  shows "gate_inv (s\<lparr>gate := acquire_cancel n m (gate s), blocked := remove1 (n, m) (blocked s)\<rparr>)"
proof (cases "n \<in> set (readyIDs (gate s))")
  case True
  \<comment> \<open>the grant raced the cancellation: taking the lease and giving it back is the same step\<close>
  let ?t = "s\<lparr>leases := (n, m) # leases s, blocked := remove1 (n, m) (blocked s)\<rparr>"
  from gate_inv_ready [OF inv n True] have "gate_inv ?t" .
  from gate_inv_release [OF this, of n m] True show ?thesis
    by (cases s) (simp add: release_lease_def acquire_cancel_def)
next
  case False
  let ?g = "(gate s)\<lparr>waiters := filter (\<lambda>w. w_id w \<noteq> n) (waiters (gate s))\<rparr>"
  let ?s = "s\<lparr>gate := ?g, blocked := remove1 (n, m) (blocked s)\<rparr>"
  have d: "distinct (map fst (blocked s))" using inv by (simp add: gate_inv_def sys_wf_def)
  note rm = remove1_filter_fst [OF d n]
  have q: "queued ?s = filter (\<lambda>p. fst p \<noteq> n) (queued s)"
    by (auto simp: queued_def rm intro: filter_cong)
  have h: "holders ?s = holders s"
    using False by (simp add: holders_def filter_remove1_out)
  have "mset (map (\<lambda>w. (w_id w, w_mode w)) (waiters (gate s))) = mset (queued s)"
    using inv by (simp add: gate_inv_def sys_wf_def)
  from arg_cong [OF this, of "filter_mset (\<lambda>p. fst p \<noteq> n)"]
  have w: "mset (map (\<lambda>w. (w_id w, w_mode w)) (waiters ?g)) = mset (queued ?s)"
    by (simp add: q filter_mset_image_mset)
  have "sys_wf ?s"
    using inv w h d unfolding gate_inv_def sys_wf_def
    by (auto simp: rm distinct_map_filter)
  from grantWaiters_inv [OF this] False show ?thesis by (cases s) (simp add: acquire_cancel_def)
qed

lemma gate_inv_init: "gate_inv init_sys"
  by (simp add: gate_inv_def sys_wf_def init_sys_def emptyGate_def holders_def queued_def
      gate_holds_def head_blocked_def)

lemma gate_inv_step: "gate_inv s \<Longrightarrow> gate_step s t \<Longrightarrow> gate_inv t"
  by (erule gate_step.cases)
    (blast intro: gate_inv_try gate_inv_enter gate_inv_ready gate_inv_cancel gate_inv_release)+

interpretation lg: invariant_system init_sys gate_step gate_inv
  by unfold_locales (auto intro: gate_inv_init gate_inv_step)

section \<open>What the invariant says\<close>

text \<open>The modes of the calls that hold the gate, as a list.\<close>

definition live_modes :: "gateSys \<Rightarrow> mode list" where
  "live_modes s = map snd (leases s)
     @ map snd (filter (\<lambda>p. fst p \<in> set (readyIDs (gate s))) (blocked s))"

lemma mset_live_modes: "mset (live_modes s) = holders s"
  by (simp add: live_modes_def holders_def)

lemma exclusive_alone:
  assumes "gate_inv s" and "Exclusive \<in> set (live_modes s)"
  shows "live_modes s = [Exclusive]"
proof -
  have h: "gate_holds (gate s) (mset (live_modes s))"
    using assms(1) by (simp add: gate_inv_def sys_wf_def mset_live_modes)
  moreover from assms(2) have "0 < count (mset (live_modes s)) Exclusive" by simp
  ultimately have e: "count (mset (live_modes s)) Exclusive = 1"
    and sh: "count (mset (live_modes s)) Shared = 0"
    unfolding gate_holds_def by linarith+
  have "\<forall>m \<in> set (live_modes s). m = Exclusive"
    using sh by (metis count_eq_zero_iff mode.exhaust set_mset_mset)
  then have r: "live_modes s = replicate (length (live_modes s)) Exclusive"
    by (metis replicate_length_same)
  with e have "length (live_modes s) = 1"
    by (metis count_replicate_mset mset_replicate)
  with r show ?thesis by simp
qed

lemma queue_waits_for_holder:
  assumes "gate_inv s" and "waiters (gate s) = w # ws"
  shows "Exclusive \<in> set (live_modes s) \<or> w_mode w = Exclusive \<and> live_modes s \<noteq> []"
proof -
  from assms have nc: "\<not> canGrant (gate s) (w_mode w)" by (simp add: gate_inv_def head_blocked_def)
  have h: "gate_holds (gate s) (mset (live_modes s))"
    using assms(1) by (simp add: gate_inv_def sys_wf_def mset_live_modes)
  show ?thesis
  proof (cases "activeWriter (gate s)")
    case True
    with h show ?thesis by (simp add: gate_holds_def)
  next
    case False
    with nc have "w_mode w = Exclusive" "activeReaders (gate s) \<noteq> 0"
      by (cases "w_mode w"; simp add: canGrant_def)+
    with h show ?thesis by (auto simp: gate_holds_def)
  qed
qed

section \<open>Properties\<close>

text \<open>C34. Mutual exclusion: whatever the interleaving of attempts, waits, cancellations and
  releases, a call that holds the gate exclusively is the only one that holds it.\<close>

theorem gate_mutual_exclusion:
  assumes "gate_step\<^sup>*\<^sup>* init_sys s" and "(n, Exclusive) \<in> set (leases s)"
  shows "leases s = [(n, Exclusive)]"
proof -
  from assms(1) have "gate_inv s" by (rule lg.reachable_inv)
  moreover from assms(2) have "Exclusive \<in> set (live_modes s)"
    by (force simp: live_modes_def)
  ultimately have "live_modes s = [Exclusive]" by (rule exclusive_alone)
  then have "length (leases s) \<le> 1"
    by (metis append_eq_Cons_conv le_numeral_extra(4) length_append length_map list.size(3)
        list.size(4) live_modes_def le_add1 One_nat_def add.right_neutral add_Suc_right)
  with assms(2) show ?thesis by (cases "leases s") auto
qed

text \<open>Two runs of the gate: an attempt that takes it exclusively, and a reader that then queues.\<close>

definition run_writer :: gateSys where
  "run_writer = init_sys\<lparr>gate := emptyGate\<lparr>activeWriter := True\<rparr>,
                         leases := [(0, Exclusive)], nextID := 1\<rparr>"

definition run_reader_waits :: gateSys where
  "run_reader_waits = run_writer\<lparr>gate := emptyGate\<lparr>activeWriter := True, waiters := [\<lparr>w_id = 1, w_mode = Shared\<rparr>]\<rparr>,
                                 blocked := [(1, Shared)], nextID := 2\<rparr>"

lemma run_writer_reachable: "gate_step\<^sup>*\<^sup>* init_sys run_writer"
proof -
  have "tryAcquire Exclusive (gate init_sys) = (emptyGate\<lparr>activeWriter := True\<rparr>, True)"
    by (simp add: tryAcquire_def init_sys_def emptyGate_def canGrant_def markGranted_def)
  from step_try [OF this] show ?thesis
    by (intro r_into_rtranclp) (simp add: run_writer_def init_sys_def)
qed

lemma run_reader_waits_reachable: "gate_step\<^sup>*\<^sup>* init_sys run_reader_waits"
proof -
  have "acquire_enter (nextID run_writer) Shared (gate run_writer)
      = (emptyGate\<lparr>activeWriter := True, waiters := [\<lparr>w_id = 1, w_mode = Shared\<rparr>]\<rparr>, Waiting)"
    by (simp add: run_writer_def acquire_enter_def init_sys_def emptyGate_def canGrant_def grantWaiters_def)
  from step_enter [OF this] have "gate_step run_writer run_reader_waits"
    by (simp add: run_reader_waits_def run_writer_def init_sys_def numeral_2_eq_2)
  with run_writer_reachable show ?thesis by (rule rtranclp.rtrancl_into_rtrancl)
qed

theorem gate_mutual_exclusion_witness:
  "gate_step\<^sup>*\<^sup>* init_sys run_writer \<and> leases run_writer = [(0, Exclusive)]"
proof -
  have "(0, Exclusive) \<in> set (leases run_writer)" by (simp add: run_writer_def)
  from run_writer_reachable gate_mutual_exclusion [OF run_writer_reachable this]
  show ?thesis by blast
qed

text \<open>C35. No lost wake-up: a queue that is not empty waits for somebody. Its head conflicts with a
  call that holds the gate, so when no call holds it, no call waits.\<close>

theorem gate_no_lost_wakeup:
  assumes "gate_step\<^sup>*\<^sup>* init_sys s" and "queued s \<noteq> []"
  shows "\<exists>w ws. waiters (gate s) = w # ws
    \<and> (Exclusive \<in> set (live_modes s) \<or> w_mode w = Exclusive \<and> live_modes s \<noteq> [])"
proof -
  from assms(1) have inv: "gate_inv s" by (rule lg.reachable_inv)
  then have "mset (map (\<lambda>w. (w_id w, w_mode w)) (waiters (gate s))) = mset (queued s)"
    by (simp add: gate_inv_def sys_wf_def)
  with assms(2) obtain w ws where "waiters (gate s) = w # ws"
    by (cases "waiters (gate s)") auto
  with queue_waits_for_holder [OF inv] show ?thesis by blast
qed

theorem gate_no_lost_wakeup_witness:
  "queued run_reader_waits = [(1, Shared)]
    \<and> (\<exists>w ws. waiters (gate run_reader_waits) = w # ws
      \<and> (Exclusive \<in> set (live_modes run_reader_waits)
          \<or> w_mode w = Exclusive \<and> live_modes run_reader_waits \<noteq> []))"
proof -
  have q: "queued run_reader_waits = [(1, Shared)]"
    by (simp add: queued_def run_reader_waits_def run_writer_def emptyGate_def)
  then have "queued run_reader_waits \<noteq> []" by simp
  from q gate_no_lost_wakeup [OF run_reader_waits_reachable this] show ?thesis by blast
qed

text \<open>First come, first served: \<open>acquire\<close> grants at once only in front of an empty queue;
  otherwise the call goes to the end of the queue, and what wakes up is a prefix of it.\<close>

theorem gate_fifo:
  "(case acquire_enter n m g of
      (g', Granted) \<Rightarrow> waiters g = [] \<and> waiters g' = [] \<and> readyIDs g' = readyIDs g
    | (g', Waiting) \<Rightarrow> (\<exists>us. waiters g @ [\<lparr>w_id = n, w_mode = m\<rparr>] = us @ waiters g'
                          \<and> set (readyIDs g') = w_id ` set us \<union> set (readyIDs g)))"
proof -
  have "\<exists>us. ws = us @ waiters (grantLoop ws g)
      \<and> set (readyIDs (grantLoop ws g)) = w_id ` set us \<union> set (readyIDs g)" for ws g
  proof (induction ws g rule: grantLoop.induct)
    case (1 g)
    then show ?case by simp
  next
    case (2 w ws g)
    show ?case
    proof (cases "canGrant g (w_mode w) \<and> w_mode w \<noteq> Exclusive")
      case True
      with "2.IH" [OF _ refl] obtain us where
        "ws = us @ waiters (grantLoop (w # ws) g)"
        "set (readyIDs (grantLoop (w # ws) g)) = w_id ` set us \<union> insert (w_id w) (set (readyIDs g))"
        by (auto simp: Let_def)
      then show ?thesis by (intro exI [of _ "w # us"]) simp
    next
      case False
      then show ?thesis
        by (cases "canGrant g (w_mode w)")
          (auto simp: Let_def intro: exI [of _ "[]"] exI [of _ "[w]"])
    qed
  qed
  note loop = this [of "waiters g @ [\<lparr>w_id = n, w_mode = m\<rparr>]"
      "g\<lparr>waiters := waiters g @ [\<lparr>w_id = n, w_mode = m\<rparr>]\<rparr>"]
  then show ?thesis
    by (auto simp: acquire_enter_def grantWaiters_def)
qed

end
