(* ===== verification/GateRegistry.thy ===== *)
theory GateRegistry
  imports LocalGate
begin

text \<open>
  The process-wide registry of gates (\<open>localGateRegistry\<close> of
  \<open>internal/runlock/local_gate.go\<close>): a map from a lock path to a reference-counted entry that
  holds the path's gate. Entries are Go pointers: the heap maps the number of an entry to its
  contents, so an entry that left the table keeps its gate for the references that still point to
  it. \<open>reference\<close> and the one effective call of \<open>release\<close> run under the registry's mutex.
\<close>

record localGateEntry =
  gate_of :: localGate
  refs :: int

record localGateRegistry =
  entries :: "(string, nat) gomap"
  heap :: "nat \<Rightarrow> localGateEntry"
  fresh :: nat

definition newEntry :: localGateEntry where
  "newEntry = \<lparr>gate_of = emptyGate, refs = 0\<rparr>"

definition emptyRegistry :: localGateRegistry where
  "emptyRegistry = \<lparr>entries = [], heap = (\<lambda>_. newEntry), fresh = 0\<rparr>"

definition reference :: "string \<Rightarrow> localGateRegistry \<Rightarrow> localGateRegistry \<times> nat" where
  "reference path r =
     (let (r', e) = (case gm_get (entries r) path of
            Some e \<Rightarrow> (r, e)
          | None \<Rightarrow> (r\<lparr>entries := gm_put path (fresh r) (entries r),
                       heap := (heap r)(fresh r := newEntry), fresh := Suc (fresh r)\<rparr>, fresh r))
      in (r'\<lparr>heap := (heap r')(e := (heap r' e)\<lparr>refs := refs (heap r' e) + 1\<rparr>)\<rparr>, e))"

definition release_reference :: "string \<Rightarrow> nat \<Rightarrow> localGateRegistry \<Rightarrow> localGateRegistry" where
  "release_reference path e r =
     (let r' = r\<lparr>heap := (heap r)(e := (heap r e)\<lparr>refs := refs (heap r e) - 1\<rparr>)\<rparr>
      in if refs (heap r' e) = 0 \<and> gm_get (entries r') path = Some e
         then r'\<lparr>entries := gm_del path (entries r')\<rparr> else r')"

text \<open>\<open>tryAcquireProcessGate\<close>: the lease's entry, or nothing and the reference given back.\<close>

definition tryAcquireProcessGate ::
    "string \<Rightarrow> mode \<Rightarrow> localGateRegistry \<Rightarrow> localGateRegistry \<times> nat option" where
  "tryAcquireProcessGate path m r =
     (case reference path r of (r1, e) \<Rightarrow>
       (case tryAcquire m (gate_of (heap r1 e)) of (g, b) \<Rightarrow>
         if b then (r1\<lparr>heap := (heap r1)(e := (heap r1 e)\<lparr>gate_of := g\<rparr>)\<rparr>, Some e)
         else (release_reference path e r1, None)))"

section \<open>References taken and given back\<close>

record registrySys =
  registry :: localGateRegistry
  live :: "(string \<times> nat) list"

definition init_registry :: registrySys where
  "init_registry = \<lparr>registry = emptyRegistry, live = []\<rparr>"

inductive registry_step :: "registrySys \<Rightarrow> registrySys \<Rightarrow> bool" where
  take: "reference path (registry s) = (r, e) \<Longrightarrow>
     registry_step s (s\<lparr>registry := r, live := (path, e) # live s\<rparr>)"
| give: "(path, e) \<in> set (live s) \<Longrightarrow>
     registry_step s (s\<lparr>registry := release_reference path e (registry s),
                        live := remove1 (path, e) (live s)\<rparr>)"
| gate_write: "(path, e) \<in> set (live s) \<Longrightarrow>
     registry_step s (s\<lparr>registry := (registry s)\<lparr>heap := (heap (registry s))
        (e := (heap (registry s) e)\<lparr>gate_of := g\<rparr>)\<rparr>\<rparr>)"

text \<open>How many live references point to an entry.\<close>

definition pointing :: "nat \<Rightarrow> (string \<times> nat) list \<Rightarrow> nat" where
  "pointing e xs = length (filter (\<lambda>x. snd x = e) xs)"

lemma pointing_Cons [simp]: "pointing e (x # xs) = (if snd x = e then Suc (pointing e xs) else pointing e xs)"
  by (simp add: pointing_def)

lemma pointing_Nil [simp]: "pointing e [] = 0"
  by (simp add: pointing_def)

lemma pointing_remove1:
  "(p, e) \<in> set xs \<Longrightarrow> int (pointing e' (remove1 (p, e) xs)) = int (pointing e' xs) - (if e' = e then 1 else 0)"
  by (induction xs) auto

lemma pointing_0: "pointing e xs = 0 \<longleftrightarrow> e \<notin> snd ` set xs"
  by (auto simp: pointing_def filter_empty_conv)

definition registry_inv :: "registrySys \<Rightarrow> bool" where
  "registry_inv s \<longleftrightarrow> gm_ok (entries (registry s))
     \<and> (\<forall>p e. gm_get (entries (registry s)) p = Some e \<longleftrightarrow> (p, e) \<in> set (live s))
     \<and> (\<forall>e < fresh (registry s). refs (heap (registry s) e) = int (pointing e (live s)))
     \<and> (\<forall>p e. (p, e) \<in> set (live s) \<longrightarrow> e < fresh (registry s))
     \<and> (\<forall>p q e. (p, e) \<in> set (live s) \<longrightarrow> (q, e) \<in> set (live s) \<longrightarrow> p = q)"

lemma registry_invI:
  assumes "gm_ok (entries r)"
    and "\<And>p e. gm_get (entries r) p = Some e \<longleftrightarrow> (p, e) \<in> set l"
    and "\<And>e. e < fresh r \<Longrightarrow> refs (heap r e) = int (pointing e l)"
    and "\<And>p e. (p, e) \<in> set l \<Longrightarrow> e < fresh r"
    and "\<And>p q e. (p, e) \<in> set l \<Longrightarrow> (q, e) \<in> set l \<Longrightarrow> p = q"
  shows "registry_inv (s\<lparr>registry := r, live := l\<rparr>)"
  using assms by (simp add: registry_inv_def)

lemma registry_inv_init: "registry_inv init_registry"
  by (simp add: registry_inv_def init_registry_def emptyRegistry_def)

lemma registry_inv_take:
  assumes inv: "registry_inv s" and r: "reference path (registry s) = (r, e)"
  shows "registry_inv (s\<lparr>registry := r, live := (path, e) # live s\<rparr>)"
proof (cases "gm_get (entries (registry s)) path")
  case (Some e')
  with r have e: "e' = e" and r': "r = (registry s)\<lparr>heap := (heap (registry s))
      (e := (heap (registry s) e)\<lparr>refs := refs (heap (registry s) e) + 1\<rparr>)\<rparr>"
    by (auto simp: reference_def)
  from Some e inv have "(path, e) \<in> set (live s)" by (simp add: registry_inv_def)
  with inv show ?thesis unfolding registry_inv_def r' by auto
next
  case None
  have fr: "fresh (registry s) \<notin> snd ` set (live s)"
    using inv unfolding registry_inv_def by (metis imageE less_irrefl prod.collapse)
  then have "pointing (fresh (registry s)) (live s) = 0" by (simp add: pointing_0)
  moreover from None inv have "(path, e') \<notin> set (live s)" for e'
    unfolding registry_inv_def by (metis option.distinct(1))
  moreover from fr have "(p, fresh (registry s)) \<notin> set (live s)" for p by force
  ultimately show ?thesis
    using None inv r unfolding registry_inv_def reference_def
    by (auto simp: newEntry_def less_Suc_eq split: if_splits)
qed

lemma registry_inv_give:
  assumes inv: "registry_inv s" and live: "(path, e) \<in> set (live s)"
  shows "registry_inv (s\<lparr>registry := release_reference path e (registry s),
                        live := remove1 (path, e) (live s)\<rparr>)"
proof -
  let ?l = "remove1 (path, e) (live s)"
  have ent: "gm_get (entries (registry s)) path = Some e" and ef: "e < fresh (registry s)"
    using inv live by (auto simp: registry_inv_def)
  have refs: "refs (heap (registry s) e) - 1 = int (pointing e ?l)"
    using inv ef pointing_remove1 [OF live, of e] by (simp add: registry_inv_def)
  have other: "x \<in> set ?l \<longleftrightarrow> x \<in> set (live s)" if "x \<noteq> (path, e)" for x
    using that by simp
  have inj: "p = q" if "(p, x) \<in> set ?l" "(q, x) \<in> set ?l" for p q x
    using that inv unfolding registry_inv_def by (meson notin_set_remove1)
  have sub: "set ?l \<subseteq> set (live s)" by (rule set_remove1_subset)
  let ?h = "(heap (registry s))(e := (heap (registry s) e)\<lparr>refs := refs (heap (registry s) e) - 1\<rparr>)"
  have cnt: "\<forall>e' < fresh (registry s). refs (?h e') = int (pointing e' ?l)"
    using inv refs pointing_remove1 [OF live] by (simp add: registry_inv_def)
  have lt: "\<forall>p e'. (p, e') \<in> set ?l \<longrightarrow> e' < fresh (registry s)"
    using inv sub by (auto simp: registry_inv_def)
  have get: "gm_get (entries (registry s)) p = Some e' \<longleftrightarrow> (p, e') \<in> set (live s)" for p e'
    using inv by (simp add: registry_inv_def)
  show ?thesis
  proof (cases "pointing e ?l = 0")
    case True
    then have gone: "(p, e) \<notin> set ?l" for p by (force simp: pointing_0)
    have "(path, e') \<notin> set ?l" for e'
    proof
      assume in_l: "(path, e') \<in> set ?l"
      with sub have "(path, e') \<in> set (live s)" by (rule subsetD)
      then have "e' = e" using get [of path e'] ent by simp
      with in_l gone show False by blast
    qed
    then have get': "gm_get (gm_del path (entries (registry s))) p = Some e' \<longleftrightarrow> (p, e') \<in> set ?l" for p e'
      by (cases "p = path") (simp_all add: get)
    have rr: "release_reference path e (registry s)
        = (registry s)\<lparr>heap := ?h, entries := gm_del path (entries (registry s))\<rparr>"
      using True ent refs by (simp add: release_reference_def)
    show ?thesis
      unfolding rr
    proof (rule registry_invI, goal_cases)
      case 1 show ?case using inv by (simp add: registry_inv_def)
    next
      case 2 show ?case using get' by simp
    next
      case (3 x) then show ?case using cnt by simp
    next
      case 4 then show ?case using lt by simp
    next
      case 5 then show ?case using inj by blast
    qed
  next
    case False
    then have "e \<in> snd ` set ?l" by (simp add: pointing_0)
    then obtain p where "(p, e) \<in> set ?l" by (metis imageE prod.collapse)
    moreover have "p = path" using calculation inv live sub unfolding registry_inv_def by blast
    ultimately have pl: "(path, e) \<in> set ?l" by simp
    have "x \<in> set ?l \<longleftrightarrow> x \<in> set (live s)" for x
      by (cases "x = (path, e)") (simp_all add: pl live)
    then have get': "gm_get (entries (registry s)) p = Some e' \<longleftrightarrow> (p, e') \<in> set ?l" for p e'
      by (simp add: get)
    have rr: "release_reference path e (registry s) = (registry s)\<lparr>heap := ?h\<rparr>"
      using False refs by (simp add: release_reference_def)
    show ?thesis
      unfolding rr
    proof (rule registry_invI, goal_cases)
      case 1 show ?case using inv by (simp add: registry_inv_def)
    next
      case 2 show ?case using get' by simp
    next
      case (3 x) then show ?case using cnt by simp
    next
      case 4 then show ?case using lt by simp
    next
      case 5 then show ?case using inj by blast
    qed
  qed
qed

lemma registry_inv_step: "registry_inv s \<Longrightarrow> registry_step s t \<Longrightarrow> registry_inv t"
proof (erule registry_step.cases, goal_cases)
  case 1 then show ?case by (blast intro: registry_inv_take)
next
  case 2 then show ?case by (blast intro: registry_inv_give)
next
  case 3 then show ?case by (auto simp: registry_inv_def)
qed

interpretation gr: invariant_system init_registry registry_step registry_inv
  by unfold_locales (auto intro: registry_inv_init registry_inv_step)

section \<open>Properties\<close>

text \<open>All live references to a path share one entry, hence one gate; the table holds exactly
  the paths that are referenced, so the last release leaves nothing behind.\<close>

theorem registry_one_gate_per_path:
  assumes "registry_step\<^sup>*\<^sup>* init_registry s"
  shows "(\<forall>p e e'. (p, e) \<in> set (live s) \<longrightarrow> (p, e') \<in> set (live s) \<longrightarrow> e = e')
    \<and> (\<forall>p q e. (p, e) \<in> set (live s) \<longrightarrow> (q, e) \<in> set (live s) \<longrightarrow> p = q)
    \<and> gm_keys (entries (registry s)) = fst ` set (live s)"
proof -
  from assms have inv: "registry_inv s" by (rule gr.reachable_inv)
  then have get: "gm_get (entries (registry s)) p = Some e \<longleftrightarrow> (p, e) \<in> set (live s)" for p e
    by (simp add: registry_inv_def)
  have "p \<in> gm_keys (entries (registry s)) \<longleftrightarrow> p \<in> fst ` set (live s)" for p
    using get [of p] gm_get_None_iff [of "entries (registry s)" p]
    by (cases "gm_get (entries (registry s)) p") force+
  moreover have "e = e'" if "(p, e) \<in> set (live s)" "(p, e') \<in> set (live s)" for p e e'
    using that get [of p] by (metis option.inject)
  moreover have "\<forall>p q e. (p, e) \<in> set (live s) \<longrightarrow> (q, e) \<in> set (live s) \<longrightarrow> p = q"
    using inv unfolding registry_inv_def by blast
  ultimately show ?thesis by blast
qed


definition two_references :: registrySys where
  "two_references = (let (r1, e) = reference ''/q'' emptyRegistry; (r2, e') = reference ''/q'' r1
     in \<lparr>registry = r2, live = [(''/q'', e'), (''/q'', e)]\<rparr>)"

lemma two_references_reachable: "registry_step\<^sup>*\<^sup>* init_registry two_references"
proof -
  obtain r1 e where r1: "reference ''/q'' emptyRegistry = (r1, e)" by (cases "reference ''/q'' emptyRegistry")
  obtain r2 e' where r2: "reference ''/q'' r1 = (r2, e')" by (cases "reference ''/q'' r1")
  have "registry_step init_registry (init_registry\<lparr>registry := r1, live := [(''/q'', e)]\<rparr>)"
    using registry_step.take [of "''/q''" init_registry r1 e] r1 by (simp add: init_registry_def)
  moreover have "registry_step (init_registry\<lparr>registry := r1, live := [(''/q'', e)]\<rparr>) two_references"
    using registry_step.take [of "''/q''" "init_registry\<lparr>registry := r1, live := [(''/q'', e)]\<rparr>" r2 e'] r1 r2
    by (simp add: two_references_def init_registry_def)
  ultimately show ?thesis by (meson rtranclp.rtrancl_into_rtrancl rtranclp.rtrancl_refl)
qed

theorem registry_one_gate_per_path_witness:
  "gm_keys (entries (registry two_references)) = {''/q''}"
proof -
  have "fst ` set (live two_references) = {''/q''}"
    by (simp add: two_references_def split: prod.split)
  with registry_one_gate_per_path [OF two_references_reachable] show ?thesis by simp
qed

text \<open>\<open>tryAcquireProcessGate\<close> always succeeds on a path nobody references, and when it
  fails it has given its reference back: the table and every entry of it are what they were.\<close>

theorem try_acquire_process_gate_clean:
  assumes "registry_step\<^sup>*\<^sup>* init_registry s"
  shows "case tryAcquireProcessGate path m (registry s) of
      (r, Some e) \<Rightarrow> gm_get (entries r) path = Some e
    | (r, None) \<Rightarrow> path \<in> fst ` set (live s) \<and> entries r = entries (registry s) \<and> heap r = heap (registry s)"
proof -
  from assms have inv: "registry_inv s" by (rule gr.reachable_inv)
  show ?thesis
  proof (cases "gm_get (entries (registry s)) path")
    case None
    then show ?thesis
      by (auto simp: tryAcquireProcessGate_def reference_def Let_def tryAcquire_def newEntry_def emptyGate_def
          canGrant_def split: mode.splits)
  next
    case (Some e)
    then have live: "(path, e) \<in> set (live s)" and e: "e < fresh (registry s)"
      using inv by (auto simp: registry_inv_def)
    then have "refs (heap (registry s) e) = int (pointing e (live s))" using inv by (simp add: registry_inv_def)
    moreover have "pointing e (live s) \<noteq> 0" using live unfolding pointing_0 by force
    ultimately have "refs (heap (registry s) e) \<noteq> 0" by simp
    then show ?thesis using Some live
      by (auto simp: tryAcquireProcessGate_def reference_def Let_def release_reference_def image_iff
          split: prod.splits if_splits intro!: ext bexI [of _ "(path, e)"])
  qed
qed

theorem try_acquire_process_gate_clean_witness:
  "\<exists>r e. tryAcquireProcessGate ''/q'' Shared (registry two_references) = (r, Some e)
     \<and> gm_get (entries r) ''/q'' = Some e"
proof -
  have "snd (tryAcquireProcessGate ''/q'' Shared (registry two_references)) \<noteq> None" by code_simp
  with try_acquire_process_gate_clean [OF two_references_reachable, of "''/q''" Shared] show ?thesis
    by (auto split: prod.splits option.splits)
qed

end
