(* ===== verification/GoTime.thy ===== *)
theory GoTime
  imports Prelude "HOL-Library.Monad_Syntax"
begin

text \<open>
  The part of Go's package \<open>time\<close> the components use.

  A \<open>time.Time\<close> is its instant, in nanoseconds since the zero Time (the start of
  January 1 of year 1, UTC), and whether its location is UTC; monotonic readings are
  stripped by every \<open>UTC()\<close> call the code makes before it stores or compares a time.
  A \<open>time.Duration\<close> is its count of nanoseconds. \<open>Sub\<close> saturates at the
  bounds of an int64, as the library documents. \<open>rfc3339\<close> and \<open>rfc3339nano\<close>
  are \<open>Format\<close> with the layouts \<open>time.RFC3339\<close> and \<open>time.RFC3339Nano\<close> on a
  UTC time of the years 1 to 9999.
\<close>

record gotime =
  instant :: int
  utc_loc :: bool

type_synonym duration = int

definition zero_time :: gotime where
  "zero_time = \<lparr>instant = 0, utc_loc = True\<rparr>"

definition t_isZero :: "gotime \<Rightarrow> bool" where
  "t_isZero t = (instant t = 0)"

definition t_before :: "gotime \<Rightarrow> gotime \<Rightarrow> bool" where
  "t_before a b = (instant a < instant b)"

definition t_after :: "gotime \<Rightarrow> gotime \<Rightarrow> bool" where
  "t_after a b = (instant a > instant b)"

definition t_equal :: "gotime \<Rightarrow> gotime \<Rightarrow> bool" where
  "t_equal a b = (instant a = instant b)"

definition t_add :: "gotime \<Rightarrow> duration \<Rightarrow> gotime" where
  "t_add t d = t\<lparr>instant := instant t + d\<rparr>"

definition int64_min :: int where "int64_min = - (2 ^ 63)"
definition int64_max :: int where "int64_max = 2 ^ 63 - 1"

definition t_sub :: "gotime \<Rightarrow> gotime \<Rightarrow> duration" where
  "t_sub a b = max int64_min (min int64_max (instant a - instant b))"

definition t_utc :: "gotime \<Rightarrow> gotime" where
  "t_utc t = t\<lparr>utc_loc := True\<rparr>"

definition nanosecond :: duration where "nanosecond = 1"
definition millisecond :: duration where "millisecond = 1000000"
definition second :: duration where "second = 1000000000"
definition minute :: duration where "minute = 60000000000"
definition hour :: duration where "hour = 3600000000000"

named_theorems time_simps \<open>unfold the operations of package time\<close>

lemmas [time_simps] =
  zero_time_def t_isZero_def t_before_def t_after_def t_equal_def t_add_def t_utc_def

lemma t_utc_idem [simp]: "t_utc (t_utc t) = t_utc t"
  by (simp add: t_utc_def)

lemma instant_utc [simp]: "instant (t_utc t) = instant t"
  by (simp add: t_utc_def)

lemma t_isZero_utc [simp]: "t_isZero (t_utc t) = t_isZero t"
  by (simp add: t_isZero_def)

lemma utc_loc_utc [simp]: "utc_loc (t_utc t)"
  by (simp add: t_utc_def)

lemma instant_add [simp]: "instant (t_add t d) = instant t + d"
  by (simp add: t_add_def)

lemma utc_loc_add [simp]: "utc_loc (t_add t d) = utc_loc t"
  by (simp add: t_add_def)

lemma instant_zero [simp]: "instant zero_time = 0"
  by (simp add: zero_time_def)

lemma t_utc_id: "utc_loc t \<Longrightarrow> t_utc t = t"
  by (simp add: t_utc_def)

lemma utc_time_eqI:
  fixes a b :: gotime
  shows "utc_loc a \<Longrightarrow> utc_loc b \<Longrightarrow> instant a = instant b \<Longrightarrow> a = b"
  by simp

lemma t_sub_bounds: "int64_min \<le> t_sub a b" "t_sub a b \<le> int64_max"
  by (simp_all add: t_sub_def int64_min_def int64_max_def)

lemma t_sub_exact:
  "int64_min \<le> instant a - instant b \<Longrightarrow> instant a - instant b \<le> int64_max
    \<Longrightarrow> t_sub a b = instant a - instant b"
  by (simp add: t_sub_def)

section \<open>Formatting\<close>

text \<open>The decimal digits of a non-negative number.\<close>

function dec_digits :: "int \<Rightarrow> string" where
  "dec_digits n = (if n < 10 then [char_of (48 + n)]
                   else dec_digits (n div 10) @ [char_of (48 + n mod 10)])"
  by pat_completeness auto
termination
  by (relation "measure nat") auto

declare dec_digits.simps [simp del]

definition pad_left :: "nat \<Rightarrow> char \<Rightarrow> string \<Rightarrow> string" where
  "pad_left w c s = replicate (w - length s) c @ s"

definition dec_pad :: "nat \<Rightarrow> int \<Rightarrow> string" where
  "dec_pad w n = pad_left w (CHR ''0'') (dec_digits n)"

definition show_int :: "int \<Rightarrow> string" where
  "show_int i = (if i < 0 then CHR ''-'' # dec_digits (- i) else dec_digits i)"

definition is_leap :: "int \<Rightarrow> bool" where
  "is_leap y = (y mod 4 = 0 \<and> (y mod 100 \<noteq> 0 \<or> y mod 400 = 0))"

text \<open>Year and zero-based day of the year of a day number (day 0 is January 1 of year 1).\<close>

definition year_yday :: "int \<Rightarrow> int \<times> int" where
  "year_yday d =
     (let n400 = d div 146097; r = d mod 146097;
          n100 = min 3 (r div 36524); r2 = r - 36524 * n100;
          n4 = r2 div 1461; r3 = r2 mod 1461;
          n1 = min 3 (r3 div 365)
      in (1 + 400 * n400 + 100 * n100 + 4 * n4 + n1, r3 - 365 * n1))"

fun month_day :: "int list \<Rightarrow> int \<Rightarrow> int \<Rightarrow> int \<times> int" where
  "month_day [] m d = (m, d + 1)"
| "month_day (l # ls) m d = (if d < l then (m, d + 1) else month_day ls (m + 1) (d - l))"

definition month_lengths :: "int \<Rightarrow> int list" where
  "month_lengths y = [31, if is_leap y then 29 else 28, 31, 30, 31, 30, 31, 31, 30, 31, 30, 31]"

definition civil :: "int \<Rightarrow> int \<times> int \<times> int" where
  "civil d = (case year_yday d of (y, yd) \<Rightarrow>
     (case month_day (month_lengths y) 1 yd of (m, dd) \<Rightarrow> (y, m, dd)))"

definition format_seconds :: "int \<Rightarrow> string" where
  "format_seconds s =
     (case civil (s div 86400) of (y, m, d) \<Rightarrow>
       (let r = s mod 86400 in
         dec_pad 4 y @ ''-'' @ dec_pad 2 m @ ''-'' @ dec_pad 2 d @ ''T'' @
         dec_pad 2 (r div 3600) @ '':'' @ dec_pad 2 (r mod 3600 div 60) @ '':'' @
         dec_pad 2 (r mod 60)))"

definition rfc3339 :: "gotime \<Rightarrow> string" where
  "rfc3339 t = format_seconds (instant t div second) @ ''Z''"

definition trim_zeros :: "string \<Rightarrow> string" where
  "trim_zeros s = rev (dropWhile (\<lambda>c. c = CHR ''0'') (rev s))"

definition rfc3339nano :: "gotime \<Rightarrow> string" where
  "rfc3339nano t =
     (let frac = trim_zeros (dec_pad 9 (instant t mod second))
      in format_seconds (instant t div second)
           @ (if frac = [] then [] else CHR ''.'' # frac) @ ''Z'')"

lemma dec_digits_nonempty: "dec_digits n \<noteq> []"
  by (subst dec_digits.simps) simp

lemma rfc3339_example: "rfc3339 \<lparr>instant = 63902649661 * 1000000000, utc_loc = True\<rparr> = ''2025-12-30T00:01:01Z''"
  by code_simp

lemma rfc3339nano_example:
  "rfc3339nano \<lparr>instant = 63902649661 * 1000000000 + 20500000, utc_loc = True\<rparr>
     = ''2025-12-30T00:01:01.0205Z''"
  by code_simp

section \<open>Parsing\<close>

text \<open>
  \<open>time.Parse\<close> with the layout \<open>time.RFC3339\<close>: the standard library's strict form, four
  digits of year and two of each other field, an optional fraction, and \<open>Z\<close> or a numeric
  offset. The library's general parser also takes a few looser spellings that \<open>Format\<close>
  never writes (a comma before the fraction, a one-digit hour); they are not modelled.
\<close>

fun parse_digits :: "nat \<Rightarrow> int \<Rightarrow> string \<Rightarrow> (int \<times> string) option" where
  "parse_digits 0 acc s = Some (acc, s)"
| "parse_digits (Suc w) acc [] = None"
| "parse_digits (Suc w) acc (c # s) =
     (if isDigitByte c then parse_digits w (10 * acc + (of_char c - 48)) s else None)"

fun expect_char :: "char \<Rightarrow> string \<Rightarrow> string option" where
  "expect_char c [] = None"
| "expect_char c (d # s) = (if c = d then Some s else None)"

definition parse_field :: "nat \<Rightarrow> int \<Rightarrow> int \<Rightarrow> string \<Rightarrow> (int \<times> string) option" where
  "parse_field w lo hi s = Option.bind (parse_digits w 0 s)
     (\<lambda>(n, r). if lo \<le> n \<and> n \<le> hi then Some (n, r) else None)"

text \<open>Nanoseconds of a fraction: its first nine digits, the later ones are dropped.\<close>

definition parse_fraction :: "string \<Rightarrow> (int \<times> string) option" where
  "parse_fraction s =
     (case s of c # r \<Rightarrow>
        if c = CHR ''.'' then
          (let ds = takeWhile isDigitByte r in
           if ds = [] then None
           else Option.bind (parse_digits 9 0 (take 9 (ds @ replicate 9 (CHR ''0''))))
                  (\<lambda>(n, _). Some (n, dropWhile isDigitByte r)))
        else Some (0, s)
      | [] \<Rightarrow> Some (0, s))"

definition parse_zone :: "string \<Rightarrow> (int \<times> bool) option" where
  "parse_zone s =
     (if s = ''Z'' then Some (0, True)
      else case s of c # r \<Rightarrow>
        if c = CHR ''+'' \<or> c = CHR ''-'' then do {
          (h, r1) \<leftarrow> parse_field 2 0 23 r;
          r2 \<leftarrow> expect_char (CHR '':'') r1;
          (m, r3) \<leftarrow> parse_field 2 0 59 r2;
          if r3 = [] then Some ((if c = CHR ''+'' then 1 else -1) * (3600 * h + 60 * m), False)
          else None }
        else None
      | [] \<Rightarrow> None)"

definition day_number :: "int \<Rightarrow> int \<Rightarrow> int \<Rightarrow> int" where
  "day_number y m d = 365 * (y - 1) + (y - 1) div 4 - (y - 1) div 100 + (y - 1) div 400
     + sum_list (take (nat (m - 1)) (month_lengths y)) + d - 1"

text \<open>Date and time of day, as seconds, and what follows.\<close>

definition parse_seconds :: "string \<Rightarrow> (int \<times> string) option" where
  "parse_seconds s = do {
     (y, s) \<leftarrow> parse_field 4 0 9999 s;
     s \<leftarrow> expect_char (CHR ''-'') s;
     (m, s) \<leftarrow> parse_field 2 1 12 s;
     s \<leftarrow> expect_char (CHR ''-'') s;
     (d, s) \<leftarrow> parse_field 2 1 (month_lengths y ! nat (m - 1)) s;
     s \<leftarrow> expect_char (CHR ''T'') s;
     (hh, s) \<leftarrow> parse_field 2 0 23 s;
     s \<leftarrow> expect_char (CHR '':'') s;
     (mi, s) \<leftarrow> parse_field 2 0 59 s;
     s \<leftarrow> expect_char (CHR '':'') s;
     (sec, s) \<leftarrow> parse_field 2 0 59 s;
     Some (86400 * day_number y m d + 3600 * hh + 60 * mi + sec, s) }"

definition parse_rfc3339 :: "string \<Rightarrow> gotime option" where
  "parse_rfc3339 s = do {
     (sec, s) \<leftarrow> parse_seconds s;
     (ns, s) \<leftarrow> parse_fraction s;
     (off, u) \<leftarrow> parse_zone s;
     Some \<lparr>instant = (sec - off) * second + ns, utc_loc = u\<rparr> }"

lemma parse_rfc3339_example:
  "parse_rfc3339 ''2025-12-30T00:01:01.0205+01:00''
     = Some \<lparr>instant = (63902649661 - 3600) * 1000000000 + 20500000, utc_loc = False\<rparr>"
  by code_simp

end
