(* ===== verification/TextOrder.thy ===== *)
theory TextOrder
  imports GoTime
begin

text \<open>
  SQLite compares TEXT values byte by byte. The stores keep timestamps as RFC 3339 text and
  compare them in SQL; this theory shows when that is the order of the instants: on the years 1
  to 9999 the text order of two formatted times is the order of their whole seconds.
\<close>

section \<open>Text order\<close>

fun text_less :: "string \<Rightarrow> string \<Rightarrow> bool" where
  "text_less [] [] = False"
| "text_less [] (_ # _) = True"
| "text_less (_ # _) [] = False"
| "text_less (a # as) (b # bs) =
     (if (of_char a :: nat) < of_char b then True
      else if a = b then text_less as bs else False)"

definition text_le :: "string \<Rightarrow> string \<Rightarrow> bool" where
  "text_le a b = (a = b \<or> text_less a b)"

lemma text_less_irrefl [simp]: "\<not> text_less a a"
  by (induction a) auto

lemma text_less_linear: "text_less a b \<or> a = b \<or> text_less b a"
proof (induction a b rule: text_less.induct)
  case (4 a as b bs)
  have "(of_char a :: nat) < of_char b \<or> a = b \<or> (of_char b :: nat) < of_char a"
    by (metis linorder_neqE_nat of_char_eq_iff)
  with 4 show ?case by auto
qed auto

lemma text_less_asym: "text_less a b \<Longrightarrow> \<not> text_less b a"
  by (induction a b rule: text_less.induct) (auto split: if_splits)

lemma text_less_trans: "text_less a b \<Longrightarrow> text_less b c \<Longrightarrow> text_less a c"
proof (induction a b arbitrary: c rule: text_less.induct)
  case (2 b bs)
  then show ?case by (cases c) auto
next
  case (4 a as b bs)
  then show ?case by (cases c) (auto split: if_splits)
qed auto

lemma text_le_refl [simp]: "text_le a a"
  by (simp add: text_le_def)

lemma text_le_empty [simp]: "text_le [] a"
  by (cases a) (simp_all add: text_le_def)

lemma text_le_trans: "text_le a b \<Longrightarrow> text_le b c \<Longrightarrow> text_le a c"
  by (auto simp: text_le_def dest: text_less_trans)

lemma text_le_linear: "text_le a b \<or> text_le b a"
  using text_less_linear [of a b] by (auto simp: text_le_def)

lemma text_le_antisym: "text_le a b \<Longrightarrow> text_le b a \<Longrightarrow> a = b"
  by (auto simp: text_le_def dest: text_less_asym)

lemma text_less_append:
  "length a = length b \<Longrightarrow>
     text_less (a @ x) (b @ y) \<longleftrightarrow> text_less a b \<or> a = b \<and> text_less x y"
proof (induction a b rule: list_induct2)
  case (Cons a as b bs)
  then show ?case by auto
qed simp

section \<open>Fixed-width decimals\<close>

lemma dec_digits_step: "10 \<le> n \<Longrightarrow> dec_digits n = dec_digits (n div 10) @ [char_of (48 + n mod 10)]"
  by (subst dec_digits.simps) simp

lemma dec_digits_small: "n < 10 \<Longrightarrow> dec_digits n = [char_of (48 + n)]"
  by (subst dec_digits.simps) simp

lemma length_dec_digits: "0 < w \<Longrightarrow> n < 10 ^ w \<Longrightarrow> length (dec_digits n) \<le> w"
proof (induction w arbitrary: n)
  case (Suc w)
  show ?case
  proof (cases "n < 10")
    case True
    then show ?thesis by (simp add: dec_digits_small)
  next
    case False
    with Suc.prems have "0 < w" by (cases w) auto
    moreover from Suc.prems have "n div 10 < 10 ^ w" by (simp add: div_less_iff_less_mult mult.commute)
    ultimately have "length (dec_digits (n div 10)) \<le> w" by (rule Suc.IH)
    with False show ?thesis by (simp add: dec_digits_step)
  qed
qed simp

lemma length_dec_pad: "0 < w \<Longrightarrow> n < 10 ^ w \<Longrightarrow> length (dec_pad w n) = w"
  using length_dec_digits [of w n] by (simp add: dec_pad_def pad_left_def)

lemma dec_pad_Suc:
  assumes "0 < w" "0 \<le> n" "n < 10 ^ Suc w"
  shows "dec_pad (Suc w) n = dec_pad w (n div 10) @ [char_of (48 + n mod 10)]"
proof (cases "n < 10")
  case True
  obtain v where v: "w = Suc v" using assms(1) by (cases w) auto
  have "dec_digits (n div 10) = ''0''"
    using True assms(2) by (simp add: dec_digits_small) code_simp
  with True assms v show ?thesis
    by (simp add: dec_pad_def pad_left_def dec_digits_small replicate_append_same flip: replicate_Suc)
next
  case False
  then show ?thesis by (simp add: dec_pad_def pad_left_def dec_digits_step)
qed

lemma of_char_digit: "0 \<le> d \<Longrightarrow> d < 10 \<Longrightarrow> (of_char (char_of (48 + d :: int)) :: nat) = nat (48 + d)"
proof -
  assume d: "0 \<le> d" "d < 10"
  have "char_of (48 + d) = (char_of (nat (48 + d)) :: char)"
    using char_of_nat [where ?'a = int, of "nat (48 + d)"] d by simp
  with d show ?thesis by simp
qed


lemma div_mod_less:
  fixes m n k :: int
  assumes "0 < k"
  shows "m < n \<longleftrightarrow> m div k < n div k \<or> m div k = n div k \<and> m mod k < n mod k"
proof -
  obtain q r where q: "q = m div k" "r = m mod k" by blast
  obtain q' r' where q': "q' = n div k" "r' = n mod k" by blast
  have m: "m = k * q + r" "0 \<le> r" "r < k" and n: "n = k * q' + r'" "0 \<le> r'" "r' < k"
    using assms q q' by simp_all
  have "k * q + k \<le> k * q'" if "q < q'" for q q' using that assms by (metis add1_zle_eq int_distrib(2) mult.right_neutral mult_le_cancel_left_pos)
  from this [of q q'] this [of q' q] m n have "m < n \<longleftrightarrow> q < q' \<or> q = q' \<and> r < r'"
    by (cases q q' rule: linorder_cases) auto
  with q q' show ?thesis by simp
qed

lemma dec_pad_less:
  assumes "0 \<le> m" "m < 10 ^ Suc w" "0 \<le> n" "n < 10 ^ Suc w"
  shows "text_less (dec_pad (Suc w) m) (dec_pad (Suc w) n) \<longleftrightarrow> m < n"
  using assms
proof (induction w arbitrary: m n)
  case 0
  then show ?case by (simp add: dec_pad_def pad_left_def dec_digits_small of_char_digit)
next
  case (Suc w)
  have m: "0 \<le> m div 10" "m div 10 < 10 ^ Suc w" and n: "0 \<le> n div 10" "n div 10 < 10 ^ Suc w"
    using Suc.prems by (simp_all add: div_less_iff_less_mult mult.commute)
  have len: "length (dec_pad (Suc w) (m div 10)) = length (dec_pad (Suc w) (n div 10))"
    using m n by (simp add: length_dec_pad)
  have eq: "dec_pad (Suc w) (m div 10) = dec_pad (Suc w) (n div 10) \<longleftrightarrow> m div 10 = n div 10"
    using Suc.IH [OF m n] Suc.IH [OF n m] text_less_linear [of "dec_pad (Suc w) (m div 10)"]
    by (metis linorder_neqE_linordered_idom text_less_irrefl)
  have last: "text_less [char_of (48 + m mod 10)] [char_of (48 + n mod 10)] \<longleftrightarrow> m mod 10 < n mod 10"
    by (simp add: of_char_digit)
  have "text_less (dec_pad (Suc (Suc w)) m) (dec_pad (Suc (Suc w)) n)
      \<longleftrightarrow> m div 10 < n div 10 \<or> m div 10 = n div 10 \<and> m mod 10 < n mod 10"
    using Suc.prems by (simp only: dec_pad_Suc zero_less_Suc text_less_append [OF len] Suc.IH [OF m n] eq last)
  also have "\<dots> \<longleftrightarrow> m < n" by (rule div_mod_less [symmetric]) simp
  finally show ?case .
qed

section \<open>The calendar is monotone\<close>

text \<open>Days before year \<open>Y + 1\<close>.\<close>

definition days_before :: "int \<Rightarrow> int" where
  "days_before Y = 365 * Y + Y div 4 - Y div 100 + Y div 400"

lemma days_before_split:
  assumes "0 \<le> b" "b \<le> 3" "0 \<le> c" "c \<le> 24" "0 \<le> e" "e \<le> 3"
  shows "days_before (400 * a + 100 * b + 4 * c + e) = 146097 * a + 36524 * b + 1461 * c + 365 * e"
proof -
  have "(400 * a + 100 * b + 4 * c + e) div 4 = 100 * a + 25 * b + c"
    by (rule int_div_pos_eq [where r = e]) (use assms in simp_all)
  moreover have "(400 * a + 100 * b + 4 * c + e) div 100 = 4 * a + b"
    by (rule int_div_pos_eq [where r = "4 * c + e"]) (use assms in simp_all)
  moreover have "(400 * a + 100 * b + 4 * c + e) div 400 = a"
    by (rule int_div_pos_eq [where r = "100 * b + 4 * c + e"]) (use assms in simp_all)
  ultimately show ?thesis by (simp add: days_before_def)
qed

lemma div_add_one:
  fixes Y k :: int
  assumes "0 < k"
  shows "(Y + 1) div k = Y div k + (if (Y + 1) mod k = 0 then 1 else 0)"
proof -
  have Y: "Y + 1 = k * (Y div k) + (Y mod k + 1)" and r: "0 \<le> Y mod k" "Y mod k < k"
    using assms by simp_all
  show ?thesis
  proof (cases "Y mod k + 1 = k")
    case True
    with Y have "Y + 1 = k * (Y div k + 1)" by (simp add: distrib_left)
    then show ?thesis using assms by simp
  next
    case False
    with r have lt: "Y mod k + 1 < k" by simp
    have "(Y + 1) div k = Y div k" by (rule int_div_pos_eq [OF Y]) (use r lt in simp_all)
    moreover have "(Y + 1) mod k = Y mod k + 1" by (rule int_mod_pos_eq [OF Y]) (use r lt in simp_all)
    ultimately show ?thesis using r by simp
  qed
qed

lemma div_between:
  fixes n k :: int
  shows "0 < k \<Longrightarrow> k * (n div k) \<le> n \<and> n < k * (n div k) + k"
  by (metis mult_div_mod_eq add_le_same_cancel1 add_less_cancel_left pos_mod_bound pos_mod_sign
      le_add_same_cancel1)

lemma leap_arith:
  fixes Y u v w :: int
  assumes "p400 \<longrightarrow> p100" "p100 \<longrightarrow> p4"
  shows "365 * (Y + 1) + (u + (if p4 then 1 else 0)) - (v + (if p100 then 1 else 0)) + (w + (if p400 then 1 else 0))
      = 365 * Y + u - v + w + (if p4 \<and> (\<not> p100 \<or> p400) then 366 else 365)"
  using assms by (cases p4; cases p100; cases p400; simp)

lemma is_leap_days: "days_before (Y + 1) = days_before Y + (if is_leap (Y + 1) then 366 else 365)"
proof -
  have "400 dvd n \<Longrightarrow> 100 dvd n" "100 dvd n \<Longrightarrow> 4 dvd n" for n :: int
    by (erule dvd_trans [rotated], simp)+
  then have dvd: "(Y + 1) mod 400 = 0 \<Longrightarrow> (Y + 1) mod 100 = 0" "(Y + 1) mod 100 = 0 \<Longrightarrow> (Y + 1) mod 4 = 0"
    by (simp_all only: mod_0_imp_dvd mod_eq_0_iff_dvd)
  obtain p4 p100 p400 where p: "p4 = ((Y + 1) mod 4 = 0)" "p100 = ((Y + 1) mod 100 = 0)"
      "p400 = ((Y + 1) mod 400 = 0)" by blast
  have days: "days_before (Y + 1) = 365 * (Y + 1) + (Y div 4 + (if p4 then 1 else 0))
      - (Y div 100 + (if p100 then 1 else 0)) + (Y div 400 + (if p400 then 1 else 0))"
    unfolding days_before_def p using div_add_one [of 4 Y] div_add_one [of 100 Y] div_add_one [of 400 Y]
    by (simp only: zero_less_numeral)
  have leap: "is_leap (Y + 1) = (p4 \<and> (\<not> p100 \<or> p400))"
    by (simp only: is_leap_def p simp_thms)
  show ?thesis unfolding days leap days_before_def [of Y]
  proof (rule leap_arith)
    show "p400 \<longrightarrow> p100" unfolding p using dvd(1) by (rule impI)
    show "p100 \<longrightarrow> p4" unfolding p using dvd(2) by (rule impI)
  qed
qed

lemma div_lt:
  fixes n k m :: int
  assumes "0 < k" "n < m * k"
  shows "n div k < m"
proof (rule ccontr)
  assume "\<not> n div k < m"
  with assms(1) have "m * k \<le> k * (n div k)" by (simp add: mult.commute)
  with div_between [OF assms(1), of n] assms(2) show False by simp
qed

lemma is_leap_days_pred: "days_before y = days_before (y - 1) + (if is_leap y then 366 else 365)"
  using is_leap_days [of "y - 1"] by simp

lemma year_yday_spec:
  assumes "year_yday d = (y, yd)"
  shows "d = days_before (y - 1) + yd" and "0 \<le> yd" and "d < days_before y"
proof -
  define a where "a = d div 146097"
  define r where "r = d mod 146097"
  define b where "b = min 3 (r div 36524)"
  define r2 where "r2 = r - 36524 * b"
  define c where "c = r2 div 1461"
  define r3 where "r3 = r2 mod 1461"
  define e where "e = min 3 (r3 div 365)"
  have d: "d = 146097 * a + r" "0 \<le> r" "r < 146097" by (simp_all add: a_def r_def)
  have b: "0 \<le> b" "b \<le> 3" "0 \<le> r2" "b < 3 \<Longrightarrow> r2 < 36524" "r2 \<le> 36524"
    using d div_between [of 36524 r] unfolding b_def r2_def min_def by (auto split: if_splits)
  have c: "r2 = 1461 * c + r3" "0 \<le> r3" "r3 < 1461" "0 \<le> c" "c \<le> 24"
    using b div_between [of 1461 r2] by (auto simp: c_def r3_def pos_imp_zdiv_nonneg_iff)
  have e: "0 \<le> e" "e \<le> 3" "365 * e \<le> r3" "r3 < 365 * e + 366" "e < 3 \<Longrightarrow> r3 < 365 * e + 365"
    using c div_between [of 365 r3] unfolding e_def min_def
    by (auto simp: pos_imp_zdiv_nonneg_iff split: if_splits)
  have "year_yday d = (1 + 400 * a + 100 * b + 4 * c + e, r3 - 365 * e)"
    by (simp only: year_yday_def Let_def a_def r_def b_def r2_def c_def r3_def e_def)
  with assms have y: "y = 1 + 400 * a + 100 * b + 4 * c + e" and yd: "yd = r3 - 365 * e"
    by (simp_all only: prod.inject)
  have days: "days_before (y - 1) = 146097 * a + 36524 * b + 1461 * c + 365 * e"
  proof -
    have "y - 1 = 400 * a + 100 * b + 4 * c + e" using y by linarith
    then show ?thesis using days_before_split [OF b(1,2) c(4,5) e(1,2), of a] by (simp only:)
  qed
  show dd: "d = days_before (y - 1) + yd" using days d(1) yd c(1) r2_def by linarith
  show "0 \<le> yd" using yd e by simp
  have "yd < (if is_leap y then 366 else 365)"
  proof (cases "yd < 365")
    case False
    with yd e have e3: "e = 3" and "r3 = 1460" using c(3) by linarith+
    with c b have "c < 24 \<or> c = 24 \<and> b = 3" by linarith
    then have "is_leap y"
    proof
      assume "c < 24"
      have "y mod 100 = 4 * c + 4"
        by (rule int_mod_pos_eq [where q = "4 * a + b"]) (use y e3 c(4) \<open>c < 24\<close> in simp_all)
      moreover have "y mod 4 = 0"
        by (rule int_mod_pos_eq [where q = "100 * a + 25 * b + c + 1"]) (use y e3 in simp_all)
      ultimately show ?thesis using c(4) by (simp add: is_leap_def)
    next
      assume "c = 24 \<and> b = 3"
      with y e3 have y: "y = 400 * (a + 1)" by simp
      have "y mod 4 = 0" by (rule int_mod_pos_eq [where q = "100 * (a + 1)"]) (use y in simp_all)
      with y show ?thesis by (simp add: is_leap_def)
    qed
    then show ?thesis using yd e by simp
  qed simp
  then show "d < days_before y" unfolding dd is_leap_days_pred [of y] by simp
qed

lemma days_before_mono: "Y \<le> Z \<Longrightarrow> days_before Y \<le> days_before Z"
proof (induction Z rule: int_ge_induct)
  case (step Z)
  then show ?case using is_leap_days [of Z] by simp
qed simp

lemma year_yday_mono:
  assumes "year_yday d = (y, yd)" "year_yday d' = (y', yd')" "d < d'"
  shows "y < y' \<or> y = y' \<and> yd < yd'"
proof (cases "y' \<le> y - 1")
  case True
  from days_before_mono [OF True] year_yday_spec [OF assms(1)] year_yday_spec [OF assms(2)] assms(3)
  show ?thesis by simp
next
  case False
  then consider "y < y'" | "y = y'" by linarith
  then show ?thesis
    using year_yday_spec(1) [OF assms(1)] year_yday_spec(1) [OF assms(2)] assms(3) by cases auto
qed

lemma month_day_ge: "0 \<le> d \<Longrightarrow> m \<le> fst (month_day ls m d) \<and> 1 \<le> snd (month_day ls m d)"
proof (induction ls arbitrary: m d)
  case (Cons l ls)
  show ?case
  proof (cases "d < l")
    case False
    with Cons.IH [of "d - l" "m + 1"] show ?thesis by simp
  next
    case True
    with Cons.prems show ?thesis by simp
  qed
qed simp

lemma month_day_le:
  "0 \<le> d \<Longrightarrow> d < sum_list ls \<Longrightarrow> \<forall>l \<in> set ls. l \<le> 31
     \<Longrightarrow> fst (month_day ls m d) < m + int (length ls) \<and> snd (month_day ls m d) \<le> 31"
proof (induction ls arbitrary: m d)
  case (Cons l ls)
  show ?case
  proof (cases "d < l")
    case True
    with Cons.prems show ?thesis by auto
  next
    case False
    with Cons.IH [of "d - l" "m + 1"] Cons.prems show ?thesis by simp
  qed
qed simp

lemma month_day_mono:
  "0 \<le> d \<Longrightarrow> d < d' \<Longrightarrow> d' < sum_list ls \<Longrightarrow>
     fst (month_day ls m d) < fst (month_day ls m d')
     \<or> fst (month_day ls m d) = fst (month_day ls m d') \<and> snd (month_day ls m d) < snd (month_day ls m d')"
proof (induction ls arbitrary: m d d')
  case (Cons l ls)
  then show ?case
    using Cons.IH [of "d - l" "d' - l" "m + 1"] month_day_ge [of "d' - l" "m + 1" ls] by auto
qed simp

lemma sum_month_lengths: "sum_list (month_lengths y) = (if is_leap y then 366 else 365)"
  by (simp add: month_lengths_def)

lemma month_lengths_le: "\<forall>l \<in> set (month_lengths y). l \<le> 31"
  by (simp add: month_lengths_def)

lemma yday_lt: "year_yday d = (y, yd) \<Longrightarrow> yd < sum_list (month_lengths y)"
  using year_yday_spec [of d y yd] is_leap_days [of "y - 1"]
  by (simp add: sum_month_lengths split: if_splits)

lemma civil_bounds:
  assumes "civil d = (y, m, dd)"
  shows "1 \<le> m" "m \<le> 12" "1 \<le> dd" "dd \<le> 31"
proof -
  obtain yd where yd: "year_yday d = (y, yd)" and md: "month_day (month_lengths y) 1 yd = (m, dd)"
    using assms by (auto simp: civil_def split: prod.splits)
  note le = month_day_le [OF year_yday_spec(2) [OF yd] yday_lt [OF yd] month_lengths_le, of 1]
  have "length (month_lengths y) = 12" by (simp add: month_lengths_def)
  with le md show "m \<le> 12" "dd \<le> 31" by simp_all
  from month_day_ge [OF year_yday_spec(2) [OF yd], of 1 "month_lengths y"] md
  show "1 \<le> m" "1 \<le> dd" by simp_all
qed

lemma civil_mono:
  assumes "civil d = (y, m, a)" "civil d' = (y', m', a')" "d < d'"
  shows "y < y' \<or> y = y' \<and> (m < m' \<or> m = m' \<and> a < a')"
proof -
  obtain yd where yd: "year_yday d = (y, yd)" and md: "month_day (month_lengths y) 1 yd = (m, a)"
    using assms by (auto simp: civil_def split: prod.splits)
  obtain yd' where yd': "year_yday d' = (y', yd')" and md': "month_day (month_lengths y') 1 yd' = (m', a')"
    using assms by (auto simp: civil_def split: prod.splits)
  from year_yday_mono [OF yd yd' assms(3)] show ?thesis
  proof
    assume "y = y' \<and> yd < yd'"
    then show ?thesis
      using month_day_mono [OF year_yday_spec(2) [OF yd], of yd' "month_lengths y" 1]
        yday_lt [OF yd'] md md' by auto
  qed simp
qed


section \<open>Formatted times\<close>

text \<open>The times of the years 1 to 9999, the range RFC 3339 text covers.\<close>

definition formattable :: "gotime \<Rightarrow> bool" where
  "formattable t = (0 \<le> instant t \<and> instant t < 315537897600 * second)"

lemma formattable_utc [simp]: "formattable (t_utc t) = formattable t"
  by (simp add: formattable_def)

lemma year_bounds:
  assumes "year_yday d = (y, yd)" "0 \<le> d" "d < 3652059"
  shows "1 \<le> y" "y \<le> 9999"
proof -
  have d0: "days_before 0 = 0" and d9: "days_before 9999 = 3652059"
    by (simp_all add: days_before_def)
  show "1 \<le> y"
  proof (rule ccontr)
    assume "\<not> 1 \<le> y"
    then have "days_before y \<le> 0" using days_before_mono [of y 0] d0 by simp
    with year_yday_spec(3) [OF assms(1)] assms(2) show False by simp
  qed
  show "y \<le> 9999"
  proof (rule ccontr)
    assume "\<not> y \<le> 9999"
    then have "3652059 \<le> days_before (y - 1)" using days_before_mono [of 9999 "y - 1"] d9 by simp
    with year_yday_spec(1,2) [OF assms(1)] assms(3) show False by linarith
  qed
qed

lemma dec_pad2_less:
  "0 \<le> m \<Longrightarrow> m < 100 \<Longrightarrow> 0 \<le> n \<Longrightarrow> n < 100 \<Longrightarrow> text_less (dec_pad 2 m) (dec_pad 2 n) \<longleftrightarrow> m < n"
  using dec_pad_less [of m 1 n] by (simp add: numeral_2_eq_2)

lemma dec_pad4_less:
  "0 \<le> m \<Longrightarrow> m < 10000 \<Longrightarrow> 0 \<le> n \<Longrightarrow> n < 10000 \<Longrightarrow> text_less (dec_pad 4 m) (dec_pad 4 n) \<longleftrightarrow> m < n"
  using dec_pad_less [of m 3 n] by (simp add: eval_nat_numeral)

lemma text_less_field:
  assumes "length a = length b" and "text_less a b" shows "text_less (a @ x) (b @ y)"
  using assms by (simp add: text_less_append)

text \<open>The six fields of a time, most significant first, and their order.\<close>

fun fields_less :: "(nat \<times> int) list \<Rightarrow> (nat \<times> int) list \<Rightarrow> bool" where
  "fields_less ((w, m) # as) ((v, n) # bs) = (m < n \<or> m = n \<and> fields_less as bs)"
| "fields_less _ _ = False"

fun render :: "(nat \<times> int \<times> string) list \<Rightarrow> string" where
  "render [] = []"
| "render ((w, n, sep) # fs) = dec_pad (Suc w) n @ sep @ render fs"

lemma render_less:
  assumes "list_all2 (\<lambda>(w, m, s) (v, n, t). w = v \<and> s = t \<and> 0 \<le> m \<and> m < 10 ^ Suc w \<and> 0 \<le> n \<and> n < 10 ^ Suc w) as bs"
    and "fields_less (map (\<lambda>(w, m, _). (w, m)) as) (map (\<lambda>(w, m, _). (w, m)) bs)"
  shows "text_less (render as) (render bs)"
  using assms
proof (induction as bs rule: list_all2_induct)
  case (Cons a as b bs)
  obtain w m s where a: "a = (w, m, s)" by (cases a)
  obtain n where b: "b = (w, n, s)" using Cons.hyps(1) a by (cases b) auto
  from Cons.hyps(1) a b have r: "0 \<le> m" "m < 10 ^ Suc w" "0 \<le> n" "n < 10 ^ Suc w" by auto
  have len: "length (dec_pad (Suc w) m) = length (dec_pad (Suc w) n)"
    using r by (simp add: length_dec_pad)
  from Cons.prems a b consider "m < n" | "m = n" "fields_less (map (\<lambda>(w, m, _). (w, m)) as) (map (\<lambda>(w, m, _). (w, m)) bs)"
    by auto
  then show ?case
  proof cases
    case 1
    then show ?thesis using a b dec_pad_less [OF r] by (simp add: text_less_append [OF len])
  next
    case 2
    with Cons.IH have "text_less (render as) (render bs)" by simp
    then show ?thesis using a b 2 by (simp add: text_less_append)
  qed
qed simp

definition time_fields :: "int \<Rightarrow> (nat \<times> int \<times> string) list" where
  "time_fields s = (case civil (s div 86400) of (y, m, d) \<Rightarrow>
     [(3, y, ''-''), (1, m, ''-''), (1, d, ''T''), (1, s mod 86400 div 3600, '':''),
      (1, s mod 86400 mod 3600 div 60, '':''), (1, s mod 86400 mod 60, ''Z'')])"

lemma format_time_fields: "format_seconds s @ ''Z'' = render (time_fields s)"
  by (simp add: format_seconds_def time_fields_def Let_def eval_nat_numeral split: prod.splits)

lemma clock_less:
  fixes r r' :: int
  assumes "r < r'"
  shows "r div 3600 < r' div 3600 \<or> r div 3600 = r' div 3600 \<and>
    (r mod 3600 div 60 < r' mod 3600 div 60 \<or> r mod 3600 div 60 = r' mod 3600 div 60 \<and> r mod 60 < r' mod 60)"
proof -
  have mod: "x mod 3600 mod 60 = x mod 60" for x :: int by (simp add: mod_mod_cancel)
  have h: "r div 3600 < r' div 3600 \<or> r div 3600 = r' div 3600 \<and> r mod 3600 < r' mod 3600"
    using assms by (rule iffD1 [OF div_mod_less, rotated]) simp
  have "r mod 3600 < r' mod 3600 \<Longrightarrow> r mod 3600 div 60 < r' mod 3600 div 60 \<or>
      r mod 3600 div 60 = r' mod 3600 div 60 \<and> r mod 3600 mod 60 < r' mod 3600 mod 60"
    by (erule iffD1 [OF div_mod_less, rotated]) simp
  with h show ?thesis unfolding mod by blast
qed

lemma time_fields_less:
  assumes "s < t"
  shows "fields_less (map (\<lambda>(w, m, _). (w, m)) (time_fields s)) (map (\<lambda>(w, m, _). (w, m)) (time_fields t))"
proof -
  obtain y m d where c: "civil (s div 86400) = (y, m, d)" by (metis prod_cases3)
  obtain y' m' d' where c': "civil (t div 86400) = (y', m', d')" by (metis prod_cases3)
  from assms have "s div 86400 < t div 86400 \<or> s div 86400 = t div 86400 \<and> s mod 86400 < t mod 86400"
    by (subst (asm) div_mod_less [of 86400]) simp_all
  then show ?thesis
  proof (elim disjE conjE)
    assume "s div 86400 < t div 86400"
    from civil_mono [OF c c' this] show ?thesis by (auto simp: time_fields_def c c')
  next
    assume eq: "s div 86400 = t div 86400" and lt: "s mod 86400 < t mod 86400"
    obtain r r' where r: "r = s mod 86400" "r' = t mod 86400" by blast
    from lt r have "r div 3600 < r' div 3600 \<or> r div 3600 = r' div 3600 \<and>
       (r mod 3600 div 60 < r' mod 3600 div 60 \<or> r mod 3600 div 60 = r' mod 3600 div 60 \<and> r mod 60 < r' mod 60)"
      unfolding r by (intro clock_less)
    then show ?thesis using eq c c' by (simp add: time_fields_def r)
  qed
qed

lemma civil_year:
  assumes "civil (u div 86400) = (y, m, d)" "0 \<le> u" "u < 315537897600"
  shows "0 \<le> y" "y < 10000"
proof -
  obtain yd where yd: "year_yday (u div 86400) = (y, yd)"
    using assms(1) by (cases "year_yday (u div 86400)") (auto simp: civil_def split: prod.splits)
  have "u div 86400 < 3652059" using assms(3) by (intro div_lt) simp_all
  with year_bounds [OF yd] assms(2) show "0 \<le> y" "y < 10000" by (simp_all add: pos_imp_zdiv_nonneg_iff)
qed

lemma clock_range:
  fixes r :: int
  assumes "0 < (86400::int) \<Longrightarrow> 0 \<le> r" "0 < (86400::int) \<Longrightarrow> r < 86400"
  shows "0 \<le> r div 3600" "r div 3600 < 100" "0 \<le> r mod 3600 div 60" "r mod 3600 div 60 < 100"
    "0 \<le> r mod 60" "r mod 60 < 100"
proof -
  have r: "0 \<le> r" "r < 86400" using assms by simp_all
  then show "0 \<le> r div 3600" by (simp add: pos_imp_zdiv_nonneg_iff)
  show "r div 3600 < 100" by (rule div_lt) (use r in simp_all)
  show "0 \<le> r mod 3600 div 60" by (simp add: pos_imp_zdiv_nonneg_iff)
  have "r mod 3600 < 3600" by simp
  then show "r mod 3600 div 60 < 100" by (intro div_lt) simp_all
  show "0 \<le> r mod 60" by simp
  have "r mod 60 < 60" by simp
  then show "r mod 60 < 100" by (rule less_trans) simp
qed

lemma time_fields_range:
  assumes "0 \<le> s" "s < 315537897600" "0 \<le> t" "t < 315537897600"
  shows "list_all2 (\<lambda>(w, m, x) (v, n, y). w = v \<and> x = y \<and> 0 \<le> m \<and> m < 10 ^ Suc w \<and> 0 \<le> n \<and> n < 10 ^ Suc w)
     (time_fields s) (time_fields t)"
proof -
  obtain y1 m1 d1 where c: "civil (s div 86400) = (y1, m1, d1)" by (metis prod_cases3)
  obtain y2 m2 d2 where c': "civil (t div 86400) = (y2, m2, d2)" by (metis prod_cases3)
  note range = civil_year [OF c assms(1,2)] civil_year [OF c' assms(3,4)]
    clock_range [OF pos_mod_sign [of 86400 s] pos_mod_bound [of 86400 s]]
    clock_range [OF pos_mod_sign [of 86400 t] pos_mod_bound [of 86400 t]]
  have m: "0 \<le> m1" "m1 < 100" "0 \<le> d1" "d1 < 100" "0 \<le> m2" "m2 < 100" "0 \<le> d2" "d2 < 100"
    using civil_bounds [OF c] civil_bounds [OF c'] by simp_all
  have two: "(10::int) ^ Suc 1 = 100" and four: "(10::int) ^ Suc 3 = 10000" by simp_all
  show ?thesis
    unfolding time_fields_def c c'
    by (simp only: prod.case list_all2_Cons list_all2_Nil two four range m simp_thms)
qed

lemma render_time_less:
  assumes "0 \<le> s" "s < t" "t < 315537897600"
  shows "text_less (render (time_fields s)) (render (time_fields t))"
  by (rule render_less [OF time_fields_range time_fields_less]) (use assms in simp_all)

theorem rfc3339_le:
  assumes "formattable a" "formattable b"
  shows "text_le (rfc3339 a) (rfc3339 b) \<longleftrightarrow> instant a div second \<le> instant b div second"
proof -
  have range: "0 \<le> instant t div second \<and> instant t div second < 315537897600" if "formattable t" for t
  proof
    from that show "0 \<le> instant t div second"
      by (simp add: formattable_def second_def pos_imp_zdiv_nonneg_iff)
    from that show "instant t div second < 315537897600"
      unfolding formattable_def second_def by (intro div_lt) simp_all
  qed
  obtain s where s: "s = instant a div second" by blast
  obtain t where t: "t = instant b div second" by blast
  have "text_le (render (time_fields s)) (render (time_fields t)) \<longleftrightarrow> s \<le> t"
  proof (cases s t rule: linorder_cases)
    case greater
    then have "text_less (render (time_fields t)) (render (time_fields s))"
      using render_time_less [of t s] range [OF assms(1)] range [OF assms(2)] s t by simp
    with greater show ?thesis by (auto simp: text_le_def dest: text_less_asym)
  qed (use render_time_less [of s t] range [OF assms(1)] range [OF assms(2)] s t in \<open>auto simp: text_le_def\<close>)
  then show ?thesis by (simp add: rfc3339_def format_time_fields s t)
qed

lemma render_nonempty: "rfc3339 a \<noteq> []"
  by (simp add: rfc3339_def)


section \<open>Parsing what was formatted\<close>

lemma parse_digits_append:
  "length a = w \<Longrightarrow> parse_digits w acc a = Some (x, []) \<Longrightarrow>
     parse_digits (w + v) acc (a @ b) = parse_digits v x b"
proof (induction w acc a rule: parse_digits.induct)
  case (3 w acc c s)
  then show ?case by (auto split: if_splits)
qed auto

lemma digit_byte: "0 \<le> n \<Longrightarrow> n < 10 \<Longrightarrow> isDigitByte (char_of (48 + n :: int)) \<and> of_char (char_of (48 + n :: int)) = 48 + n"
  by (simp add: isDigitByte_def of_char_digit nat_le_iff)

lemma parse_digits_pad:
  "0 \<le> n \<Longrightarrow> n < 10 ^ Suc w \<Longrightarrow> parse_digits (Suc w) 0 (dec_pad (Suc w) n) = Some (n, [])"
proof (induction w arbitrary: n)
  case 0
  then show ?case using digit_byte [of n] by (simp add: dec_pad_def pad_left_def dec_digits_small)
next
  case (Suc w)
  have n: "0 \<le> n div 10" "n div 10 < 10 ^ Suc w" and m: "0 \<le> n mod 10" "n mod 10 < 10"
    using Suc.prems by (auto simp: pos_imp_zdiv_nonneg_iff intro: div_lt)
  have "parse_digits (Suc w + 1) 0 (dec_pad (Suc w) (n div 10) @ [char_of (48 + n mod 10)])
      = parse_digits 1 (n div 10) [char_of (48 + n mod 10)]"
    by (rule parse_digits_append [OF length_dec_pad Suc.IH]) (use n in simp_all)
  also have "\<dots> = Some (10 * (n div 10) + n mod 10, [])"
    using digit_byte [OF m] by simp
  finally show ?case using Suc.prems by (simp add: dec_pad_Suc)
qed

lemma parse_field_pad:
  assumes "0 \<le> n" "n < 10 ^ Suc w" "lo \<le> n" "n \<le> hi"
  shows "parse_field (Suc w) lo hi (dec_pad (Suc w) n @ r) = Some (n, r)"
proof -
  have "parse_digits (Suc w + 0) 0 (dec_pad (Suc w) n @ r) = parse_digits 0 n r"
    by (rule parse_digits_append [OF length_dec_pad parse_digits_pad]) (use assms in simp_all)
  then show ?thesis using assms by (simp add: parse_field_def)
qed

lemma parse_field_2:
  "0 \<le> n \<Longrightarrow> n < 100 \<Longrightarrow> lo \<le> n \<Longrightarrow> n \<le> hi \<Longrightarrow> parse_field 2 lo hi (dec_pad 2 n @ r) = Some (n, r)"
  using parse_field_pad [of n 1 lo hi r] by (simp add: numeral_2_eq_2)

lemma parse_field_4:
  "0 \<le> n \<Longrightarrow> n < 10000 \<Longrightarrow> lo \<le> n \<Longrightarrow> n \<le> hi \<Longrightarrow> parse_field 4 lo hi (dec_pad 4 n @ r) = Some (n, r)"
  using parse_field_pad [of n 3 lo hi r] by (simp add: eval_nat_numeral)

lemma month_day_inverse:
  assumes "0 \<le> d" "d < sum_list ls" "month_day ls m d = (m', dd)"
  shows "d = sum_list (take (nat (m' - m)) ls) + dd - 1 \<and> dd \<le> ls ! nat (m' - m)"
  using assms
proof (induction ls arbitrary: m d)
  case (Cons l ls)
  show ?case
  proof (cases "d < l")
    case False
    with Cons.prems have IH: "d - l = sum_list (take (nat (m' - (m + 1))) ls) + dd - 1 \<and> dd \<le> ls ! nat (m' - (m + 1))"
      by (intro Cons.IH) simp_all
    have "m + 1 \<le> m'" using Cons.prems False month_day_ge [of "d - l" "m + 1" ls] by simp
    then have "nat (m' - m) = Suc (nat (m' - (m + 1)))" by simp
    with IH show ?thesis by simp
  qed (use Cons.prems in auto)
qed simp

lemma civil_inverse:
  assumes "civil d = (y, m, dd)"
  shows "day_number y m dd = d" and "dd \<le> month_lengths y ! nat (m - 1)"
proof -
  obtain yd where yd: "year_yday d = (y, yd)" and md: "month_day (month_lengths y) 1 yd = (m, dd)"
    using assms by (auto simp: civil_def split: prod.splits)
  note inv = month_day_inverse [OF year_yday_spec(2) [OF yd] yday_lt [OF yd] md]
  then show "dd \<le> month_lengths y ! nat (m - 1)" by simp
  have "day_number y m dd = days_before (y - 1) + yd"
    unfolding day_number_def days_before_def using inv by linarith
  with year_yday_spec(1) [OF yd] show "day_number y m dd = d" by simp
qed

lemma clock_sum: "86400 * (s div 86400) + 3600 * (s mod 86400 div 3600) + 60 * (s mod 86400 mod 3600 div 60)
    + s mod 86400 mod 60 = (s :: int)"
proof -
  have "x mod 3600 mod 60 = x mod 60" for x :: int by (simp add: mod_mod_cancel)
  then have "60 * (s mod 86400 mod 3600 div 60) + s mod 86400 mod 60 = s mod 86400 mod 3600"
    by (metis mult_div_mod_eq)
  then show ?thesis by (metis (no_types, lifting) add.assoc mult_div_mod_eq)
qed

lemma parse_seconds_format:
  assumes s0: "0 \<le> s" and s1: "s < 315537897600"
  shows "parse_seconds (format_seconds s @ r) = Some (s, r)"
proof -
  obtain y m d where c: "civil (s div 86400) = (y, m, d)" by (metis prod_cases3)
  note cy = civil_year [OF c s0 s1] and cb = civil_bounds [OF c] and ci = civil_inverse [OF c]
  note ck = clock_range [OF pos_mod_sign [of 86400 s] pos_mod_bound [of 86400 s]]
  have hi: "s mod 86400 div 3600 \<le> 23" "s mod 86400 mod 3600 div 60 \<le> 59" "s mod 86400 mod 60 \<le> 59"
    using div_lt [of 3600 "s mod 86400" 24] div_lt [of 60 "s mod 86400 mod 3600" 60]
      pos_mod_bound [of 60 "s mod 86400"] by simp_all
  have y: "parse_field 4 0 9999 (dec_pad 4 y @ r) = Some (y, r)" for r
    using cy by (intro parse_field_4) simp_all
  have m: "parse_field 2 1 12 (dec_pad 2 m @ r) = Some (m, r)" for r
    using cb by (intro parse_field_2) simp_all
  have d: "parse_field 2 1 (month_lengths y ! nat (m - 1)) (dec_pad 2 d @ r) = Some (d, r)" for r
    using cb ci by (intro parse_field_2) simp_all
  have h: "parse_field 2 0 23 (dec_pad 2 (s mod 86400 div 3600) @ r) = Some (s mod 86400 div 3600, r)" for r
    by (rule parse_field_2 [OF ck(1,2,1) hi(1)])
  have mi: "parse_field 2 0 59 (dec_pad 2 (s mod 86400 mod 3600 div 60) @ r) = Some (s mod 86400 mod 3600 div 60, r)" for r
    by (rule parse_field_2 [OF ck(3,4,3) hi(2)])
  have se: "parse_field 2 0 59 (dec_pad 2 (s mod 86400 mod 60) @ r) = Some (s mod 86400 mod 60, r)" for r
    by (rule parse_field_2 [OF ck(5,6,5) hi(3)])
  have str: "format_seconds s @ r = dec_pad 4 y @ CHR ''-'' # dec_pad 2 m @ CHR ''-'' # dec_pad 2 d @ CHR ''T''
      # dec_pad 2 (s mod 86400 div 3600) @ CHR '':'' # dec_pad 2 (s mod 86400 mod 3600 div 60) @ CHR '':''
      # dec_pad 2 (s mod 86400 mod 60) @ r"
    unfolding format_seconds_def c by (simp only: prod.case Let_def append_assoc append_Cons append_Nil)
  show ?thesis
    unfolding parse_seconds_def str
    by (simp only: y m d h mi se bind.bind_lunit prod.case expect_char.simps if_True refl ci(1) clock_sum)
qed

lemma formattable_seconds:
  assumes "formattable t"
  shows "0 \<le> instant t div second" "instant t div second < 315537897600"
  using assms unfolding formattable_def second_def
  by (auto simp: pos_imp_zdiv_nonneg_iff intro: div_lt)

theorem parse_format:
  assumes "formattable t"
  shows "parse_rfc3339 (rfc3339 t) = Some \<lparr>instant = (instant t div second) * second, utc_loc = True\<rparr>"
proof -
  have tail: "parse_fraction ''Z'' = Some (0, ''Z'')" "parse_zone ''Z'' = Some (0, True)"
    by (simp_all add: parse_fraction_def parse_zone_def)
  show ?thesis
    unfolding parse_rfc3339_def rfc3339_def
    by (simp add: parse_seconds_format [OF formattable_seconds [OF assms]] tail)
qed

section \<open>The order of SQLite texts as a type\<close>

text \<open>SQLite's order of TEXT values, as a type, so that \<open>ORDER BY\<close> is a sort by key.\<close>

datatype sqltext = SqlText (text_of: string)

instantiation sqltext :: linorder
begin

definition less_eq_sqltext :: "sqltext \<Rightarrow> sqltext \<Rightarrow> bool" where
  "less_eq_sqltext a b = text_le (text_of a) (text_of b)"

definition less_sqltext :: "sqltext \<Rightarrow> sqltext \<Rightarrow> bool" where
  "less_sqltext a b = text_less (text_of a) (text_of b)"

instance
proof
  fix a b c :: sqltext
  show "(a < b) = (a \<le> b \<and> \<not> b \<le> a)"
    unfolding less_eq_sqltext_def less_sqltext_def text_le_def by (metis text_less_asym text_less_irrefl)
  show "a \<le> a" by (simp add: less_eq_sqltext_def)
  show "a \<le> b \<Longrightarrow> b \<le> c \<Longrightarrow> a \<le> c"
    unfolding less_eq_sqltext_def by (rule text_le_trans)
  show "a \<le> b \<Longrightarrow> b \<le> a \<Longrightarrow> a = b"
    unfolding less_eq_sqltext_def by (metis text_le_antisym sqltext.expand)
  show "a \<le> b \<or> b \<le> a"
    unfolding less_eq_sqltext_def by (rule text_le_linear)
qed

end

end
