(* ===== verification/LinkQueue.thy ===== *)
theory LinkQueue
  imports TextOrder "HOL-Library.Product_Lexorder" "HOL-Library.Multiset"
begin

text \<open>
  The durable intake queue of deferred link saves
  (\<open>internal/store/link_capture_queue.go\<close>, its table from
  \<open>link_capture_schema.go\<close>). A row keeps its times as RFC 3339 text, blank when unset, and
  every operation is one autocommit SQL statement on the table, written here as an update of the
  list of rows. \<open>EnqueueLinkCapture\<close> runs up to three rounds of three statements; other
  connections may change the table before each of them.
\<close>

section \<open>The table\<close>

record sourceCandidate =
  OriginalURL :: string
  CanonicalURL :: string
  NormalizedURL :: string
  SourceType :: string
  Domain :: string
  SourceKey :: string
  NotePath :: string

record captureRow =
  row_id :: int
  candidate_of :: sourceCandidate
  enqueued_at :: string
  updated_at :: string
  last_attempt_at :: string
  next_attempt_at :: string
  processed_at :: string
  dead_lettered_at :: string
  attempt_count :: int
  last_error :: string

text \<open>\<open>AUTOINCREMENT\<close>: the table remembers the largest id it ever gave out.\<close>

record captureTable =
  rows :: "captureRow list"
  last_id :: int

definition MaxLinkCaptureAttempts :: int where "MaxLinkCaptureAttempts = 8"
definition maxLinkCaptureFailureKindLength :: nat where "maxLinkCaptureFailureKindLength = 64"

definition row_url :: "captureRow \<Rightarrow> string" where
  "row_url r = NormalizedURL (candidate_of r)"

datatype queueError =
    URLRequired
  | StatementFailed
  | ChangedWhileEnqueueing
  | CaptureNotFound int
  | MissingOrProcessed int

section \<open>Statements\<close>

text \<open>\<open>UPDATE ... WHERE p RETURNING id\<close> (at most one row matches a unique key), and the number
  of rows an \<open>UPDATE\<close> changed.\<close>

definition update_where :: "(captureRow \<Rightarrow> bool) \<Rightarrow> (captureRow \<Rightarrow> captureRow) \<Rightarrow> captureTable \<Rightarrow> captureTable" where
  "update_where p f t = t\<lparr>rows := map (\<lambda>r. if p r then f r else r) (rows t)\<rparr>"

definition returning_id :: "(captureRow \<Rightarrow> bool) \<Rightarrow> captureTable \<Rightarrow> int option" where
  "returning_id p t = map_option row_id (find p (rows t))"

definition affected :: "(captureRow \<Rightarrow> bool) \<Rightarrow> captureTable \<Rightarrow> nat" where
  "affected p t = length (filter p (rows t))"

definition insert_stmt :: "sourceCandidate \<Rightarrow> string \<Rightarrow> captureTable \<Rightarrow> captureTable \<times> int option" where
  "insert_stmt c nowText t =
     (if \<exists>r \<in> set (rows t). row_url r = NormalizedURL c then (t, None)
      else let i = last_id t + 1 in
        (t\<lparr>rows := rows t @ [\<lparr>row_id = i, candidate_of = c, enqueued_at = nowText, updated_at = nowText,
             last_attempt_at = [], next_attempt_at = [], processed_at = [], dead_lettered_at = [],
             attempt_count = 0, last_error = []\<rparr>], last_id := i\<rparr>, Some i))"

definition closed_row :: "captureRow \<Rightarrow> bool" where
  "closed_row r = (processed_at r \<noteq> [] \<or> dead_lettered_at r \<noteq> [])"

definition reopen_stmt :: "sourceCandidate \<Rightarrow> string \<Rightarrow> captureTable \<Rightarrow> captureTable \<times> int option" where
  "reopen_stmt c nowText t =
     (let p = (\<lambda>r. row_url r = NormalizedURL c \<and> closed_row r) in
       (update_where p (\<lambda>r. r\<lparr>candidate_of := c, enqueued_at := nowText, updated_at := nowText,
           last_attempt_at := [], next_attempt_at := [], processed_at := [], attempt_count := 0,
           last_error := [], dead_lettered_at := []\<rparr>) t, returning_id p t))"

definition refresh_stmt :: "sourceCandidate \<Rightarrow> string \<Rightarrow> captureTable \<Rightarrow> captureTable \<times> int option" where
  "refresh_stmt c nowText t =
     (let p = (\<lambda>r. row_url r = NormalizedURL c \<and> processed_at r = [] \<and> dead_lettered_at r = []) in
       (update_where p (\<lambda>r. r\<lparr>candidate_of := c, updated_at := nowText, next_attempt_at := [],
           last_error := []\<rparr>) t, returning_id p t))"

section \<open>Enqueue\<close>

record linkCapture =
  ID :: int
  Candidate :: sourceCandidate
  EnqueuedAt :: gotime
  UpdatedAt :: gotime
  LastAttemptAt :: gotime
  NextAttemptAt :: gotime
  ProcessedAt :: gotime
  DeadLetteredAt :: gotime
  AttemptCount :: int
  LastError :: string

record enqueueResult =
  Capture :: linkCapture
  Created :: bool
  Reopened :: bool

definition newEnqueuedLinkCapture :: "int \<Rightarrow> sourceCandidate \<Rightarrow> gotime \<Rightarrow> linkCapture" where
  "newEnqueuedLinkCapture i c now =
     \<lparr>ID = i, Candidate = c, EnqueuedAt = now, UpdatedAt = now, LastAttemptAt = zero_time,
      NextAttemptAt = zero_time, ProcessedAt = zero_time, DeadLetteredAt = zero_time,
      AttemptCount = 0, LastError = []\<rparr>"

text \<open>What other connections do to the table before the statement with a given number, and
  whether that statement fails.\<close>

record environment =
  interfere :: "nat \<Rightarrow> captureTable \<Rightarrow> captureTable"
  stmt_fails :: "nat \<Rightarrow> bool"

type_synonym stmt = "captureTable \<Rightarrow> captureTable \<times> int option"

definition run_stmt :: "environment \<Rightarrow> nat \<Rightarrow> stmt \<Rightarrow> captureTable \<Rightarrow> captureTable \<times> (queueError + int option)" where
  "run_stmt e k f t =
     (let t' = interfere e k t in
      if stmt_fails e k then (t', Inl StatementFailed)
      else case f t' of (t'', i) \<Rightarrow> (t'', Inr i))"

text \<open>One round: insert, else reopen a finished row, else refresh a pending one.\<close>

definition enqueue_round ::
    "environment \<Rightarrow> nat \<Rightarrow> sourceCandidate \<Rightarrow> gotime \<Rightarrow> string \<Rightarrow> captureTable
      \<Rightarrow> captureTable \<times> (queueError + enqueueResult option)" where
  "enqueue_round e k c now nowText t =
     (case run_stmt e k (insert_stmt c nowText) t of
        (t1, Inl err) \<Rightarrow> (t1, Inl err)
      | (t1, Inr (Some i)) \<Rightarrow>
          (t1, Inr (Some \<lparr>Capture = newEnqueuedLinkCapture i c now, Created = True, Reopened = False\<rparr>))
      | (t1, Inr None) \<Rightarrow>
          (case run_stmt e (k + 1) (reopen_stmt c nowText) t1 of
             (t2, Inl err) \<Rightarrow> (t2, Inl err)
           | (t2, Inr (Some i)) \<Rightarrow>
               (t2, Inr (Some \<lparr>Capture = newEnqueuedLinkCapture i c now, Created = False, Reopened = True\<rparr>))
           | (t2, Inr None) \<Rightarrow>
               (case run_stmt e (k + 2) (refresh_stmt c nowText) t2 of
                  (t3, Inl err) \<Rightarrow> (t3, Inl err)
                | (t3, Inr (Some i)) \<Rightarrow>
                    (t3, Inr (Some \<lparr>Capture = newEnqueuedLinkCapture i c now, Created = False, Reopened = False\<rparr>))
                | (t3, Inr None) \<Rightarrow> (t3, Inr None))))"

fun enqueue_rounds ::
    "nat \<Rightarrow> environment \<Rightarrow> nat \<Rightarrow> sourceCandidate \<Rightarrow> gotime \<Rightarrow> string \<Rightarrow> captureTable
      \<Rightarrow> captureTable \<times> (queueError + enqueueResult)" where
  "enqueue_rounds 0 e k c now nowText t = (t, Inl ChangedWhileEnqueueing)"
| "enqueue_rounds (Suc n) e k c now nowText t =
     (case enqueue_round e k c now nowText t of
        (t', Inl err) \<Rightarrow> (t', Inl err)
      | (t', Inr (Some r)) \<Rightarrow> (t', Inr r)
      | (t', Inr None) \<Rightarrow> enqueue_rounds n e (k + 3) c now nowText t')"

text \<open>A zero \<open>now\<close> is replaced by the wall clock.\<close>

definition resolve_now :: "gotime \<Rightarrow> gotime \<Rightarrow> gotime" where
  "resolve_now wall now = (if t_isZero now then t_utc wall else now)"

definition EnqueueLinkCapture ::
    "environment \<Rightarrow> gotime \<Rightarrow> sourceCandidate \<Rightarrow> gotime \<Rightarrow> captureTable
      \<Rightarrow> captureTable \<times> (queueError + enqueueResult)" where
  "EnqueueLinkCapture e wall c now t =
     (if trimSpace (NormalizedURL c) = [] then (t, Inl URLRequired)
      else let now = t_utc (resolve_now wall now) in
        enqueue_rounds 3 e 0 c now (rfc3339 now) t)"

section \<open>Reading\<close>

definition parseStoredTime :: "string \<Rightarrow> gotime" where
  "parseStoredTime v =
     (if v = [] then zero_time
      else case parse_rfc3339 v of None \<Rightarrow> zero_time | Some t \<Rightarrow> t)"

definition scan_row :: "captureRow \<Rightarrow> linkCapture" where
  "scan_row r =
     \<lparr>ID = row_id r, Candidate = candidate_of r,
      EnqueuedAt = parseStoredTime (enqueued_at r), UpdatedAt = parseStoredTime (updated_at r),
      LastAttemptAt = parseStoredTime (last_attempt_at r),
      NextAttemptAt = parseStoredTime (next_attempt_at r),
      ProcessedAt = parseStoredTime (processed_at r),
      DeadLetteredAt = parseStoredTime (dead_lettered_at r),
      AttemptCount = attempt_count r, LastError = last_error r\<rparr>"

definition GetLinkCapture :: "int \<Rightarrow> captureTable \<Rightarrow> queueError + linkCapture" where
  "GetLinkCapture i t = (case find (\<lambda>r. row_id r = i) (rows t) of
       None \<Rightarrow> Inl (CaptureNotFound i) | Some r \<Rightarrow> Inr (scan_row r))"

definition page_limit :: "int \<Rightarrow> nat" where
  "page_limit limit = nat (if limit \<le> 0 then 25 else limit)"

definition due_row :: "string \<Rightarrow> captureRow \<Rightarrow> bool" where
  "due_row nowText r = (processed_at r = [] \<and> dead_lettered_at r = []
     \<and> (next_attempt_at r = [] \<or> text_le (next_attempt_at r) nowText))"

definition ListPendingLinkCaptures :: "gotime \<Rightarrow> gotime \<Rightarrow> int \<Rightarrow> captureTable \<Rightarrow> linkCapture list" where
  "ListPendingLinkCaptures wall now limit t =
     map scan_row (take (page_limit limit)
       (sort_key (\<lambda>r. (SqlText (enqueued_at r), row_id r))
         (filter (due_row (rfc3339 (t_utc (resolve_now wall now)))) (rows t))))"

definition ListDeadLetteredLinkCaptures :: "int \<Rightarrow> captureTable \<Rightarrow> linkCapture list" where
  "ListDeadLetteredLinkCaptures limit t =
     map scan_row (take (page_limit limit)
       (rev (sort_key (\<lambda>r. (SqlText (dead_lettered_at r), row_id r))
         (filter (\<lambda>r. dead_lettered_at r \<noteq> []) (rows t)))))"

section \<open>Transitions of the worker\<close>

definition open_with_id :: "int \<Rightarrow> captureRow \<Rightarrow> bool" where
  "open_with_id i r = (row_id r = i \<and> processed_at r = [] \<and> dead_lettered_at r = [])"

definition checked_update ::
    "int \<Rightarrow> (captureRow \<Rightarrow> captureRow) \<Rightarrow> captureTable \<Rightarrow> captureTable \<times> queueError option" where
  "checked_update i f t =
     (if affected (open_with_id i) t = 0 then (t, Some (MissingOrProcessed i))
      else (update_where (open_with_id i) f t, None))"

definition MarkLinkCaptureAttempt :: "gotime \<Rightarrow> int \<Rightarrow> gotime \<Rightarrow> captureTable \<Rightarrow> captureTable \<times> queueError option" where
  "MarkLinkCaptureAttempt wall i now t =
     (let nowText = rfc3339 (t_utc (resolve_now wall now)) in
      checked_update i (\<lambda>r. r\<lparr>attempt_count := attempt_count r + 1, last_attempt_at := nowText,
         updated_at := nowText\<rparr>) t)"

definition MarkLinkCaptureProcessed :: "gotime \<Rightarrow> int \<Rightarrow> gotime \<Rightarrow> captureTable \<Rightarrow> captureTable \<times> queueError option" where
  "MarkLinkCaptureProcessed wall i now t =
     (let nowText = rfc3339 (t_utc (resolve_now wall now)) in
      checked_update i (\<lambda>r. r\<lparr>processed_at := nowText, next_attempt_at := [], last_error := [],
         updated_at := nowText\<rparr>) t)"

text \<open>The failure kind kept in the row: lower case, each run of other characters than
  \<open>[a-z0-9_-]\<close> one underscore, trimmed, never empty, at most 64 bytes.\<close>

definition kind_byte :: "char \<Rightarrow> bool" where
  "kind_byte c = (isLowerByte c \<or> isDigitByte c \<or> c = CHR ''_'' \<or> c = CHR ''-'')"

fun replace_runs :: "bool \<Rightarrow> string \<Rightarrow> string" where
  "replace_runs inrun [] = []"
| "replace_runs inrun (c # s) =
     (if kind_byte c then c # replace_runs False s
      else if inrun then replace_runs True s
      else CHR ''_'' # replace_runs True s)"

definition normalizeLinkCaptureFailureKind :: "string \<Rightarrow> string" where
  "normalizeLinkCaptureFailureKind kind =
     (let k = toLower (trimSpace kind);
          k = replace_runs False k;
          k = trimBy (\<lambda>c. c = CHR ''_'') k;
          k = (if k = [] then ''unknown'' else k)
      in if length k > maxLinkCaptureFailureKindLength
         then take maxLinkCaptureFailureKindLength k else k)"

definition MarkLinkCaptureFailed ::
    "gotime \<Rightarrow> int \<Rightarrow> gotime \<Rightarrow> gotime \<Rightarrow> string \<Rightarrow> captureTable \<Rightarrow> captureTable \<times> queueError option" where
  "MarkLinkCaptureFailed wall i now nextAttempt kind t =
     (let now = resolve_now wall now;
          nextAttempt = (if t_isZero nextAttempt then t_add now minute else nextAttempt);
          kind = normalizeLinkCaptureFailureKind kind;
          nextAttemptText = rfc3339 (t_utc nextAttempt);
          deadLetteredAt = rfc3339 (t_utc now)
      in checked_update i (\<lambda>r. r\<lparr>
           next_attempt_at := (if attempt_count r \<ge> MaxLinkCaptureAttempts then [] else nextAttemptText),
           last_error := kind,
           dead_lettered_at := (if attempt_count r \<ge> MaxLinkCaptureAttempts then deadLetteredAt
                                else dead_lettered_at r),
           updated_at := rfc3339 (t_utc now)\<rparr>) t)"


section \<open>The table's invariant\<close>

definition row_ok :: "captureRow \<Rightarrow> bool" where
  "row_ok r \<longleftrightarrow> (processed_at r = [] \<or> dead_lettered_at r = [])
     \<and> (dead_lettered_at r \<noteq> [] \<longrightarrow> MaxLinkCaptureAttempts \<le> attempt_count r \<and> next_attempt_at r = [])
     \<and> (processed_at r \<noteq> [] \<longrightarrow> next_attempt_at r = [] \<and> last_error r = [])
     \<and> 0 \<le> attempt_count r \<and> trimSpace (row_url r) \<noteq> []"

definition queue_inv :: "captureTable \<Rightarrow> bool" where
  "queue_inv t \<longleftrightarrow> distinct (map row_id (rows t)) \<and> distinct (map row_url (rows t))
     \<and> 0 \<le> last_id t \<and> (\<forall>r \<in> set (rows t). 0 < row_id r \<and> row_id r \<le> last_id t \<and> row_ok r)"

definition empty_table :: captureTable where
  "empty_table = \<lparr>rows = [], last_id = 0\<rparr>"

lemma queue_inv_empty: "queue_inv empty_table"
  by (simp add: queue_inv_def empty_table_def)

lemma rfc3339_nonempty [simp]: "rfc3339 t \<noteq> []"
  by (simp add: rfc3339_def)

text \<open>An update that keeps the keys of the rows it changes and their well-formedness.\<close>

definition good_update :: "(captureRow \<Rightarrow> bool) \<Rightarrow> (captureRow \<Rightarrow> captureRow) \<Rightarrow> bool" where
  "good_update p f \<longleftrightarrow> (\<forall>r. p r \<longrightarrow> row_id (f r) = row_id r \<and> row_url (f r) = row_url r
     \<and> (row_ok r \<longrightarrow> row_ok (f r)))"

lemma update_where_keys:
  "good_update p f \<Longrightarrow> map row_id (rows (update_where p f t)) = map row_id (rows t)"
  "good_update p f \<Longrightarrow> map row_url (rows (update_where p f t)) = map row_url (rows t)"
  by (auto simp: update_where_def good_update_def)

lemma update_where_inv:
  assumes "good_update p f" "queue_inv t"
  shows "queue_inv (update_where p f t)"
proof -
  have r: "row_ok (f r)" "row_id (f r) = row_id r" if "r \<in> set (rows t)" "p r" for r
    using assms that by (simp_all add: good_update_def queue_inv_def)
  have ids: "distinct (map row_id (rows (update_where p f t)))" "distinct (map row_url (rows (update_where p f t)))"
    using assms(2) by (simp_all only: update_where_keys [OF assms(1)] queue_inv_def)
  have "0 < row_id r' \<and> row_id r' \<le> last_id t \<and> row_ok r'" if r': "r' \<in> set (rows (update_where p f t))" for r'
  proof -
    from r' obtain r where "r \<in> set (rows t)" "r' = (if p r then f r else r)"
      by (auto simp: update_where_def)
    then show ?thesis using r [of r] assms(2) by (cases "p r") (simp_all add: queue_inv_def)
  qed
  with ids show ?thesis using assms(2) by (simp add: queue_inv_def) (simp add: update_where_def)
qed

lemma insert_stmt_inv:
  assumes "queue_inv t" "trimSpace (NormalizedURL c) \<noteq> []"
  shows "queue_inv (fst (insert_stmt c nowText t))"
proof (cases "\<exists>r \<in> set (rows t). row_url r = NormalizedURL c")
  case False
  have "last_id t + 1 \<notin> row_id ` set (rows t)"
    using assms(1) unfolding queue_inv_def by (force simp: image_iff)
  then show ?thesis
    using False assms
    by (force simp: insert_stmt_def Let_def queue_inv_def row_ok_def row_url_def)
qed (use assms in \<open>simp add: insert_stmt_def\<close>)

lemma good_reopen:
  "good_update (\<lambda>r. row_url r = NormalizedURL c \<and> closed_row r)
     (\<lambda>r. r\<lparr>candidate_of := c, enqueued_at := nowText, updated_at := nowText,
           last_attempt_at := [], next_attempt_at := [], processed_at := [], attempt_count := 0,
           last_error := [], dead_lettered_at := []\<rparr>)"
  by (simp add: good_update_def row_ok_def row_url_def)

lemma good_refresh:
  "good_update (\<lambda>r. row_url r = NormalizedURL c \<and> processed_at r = [] \<and> dead_lettered_at r = [])
     (\<lambda>r. r\<lparr>candidate_of := c, updated_at := nowText, next_attempt_at := [], last_error := []\<rparr>)"
  by (simp add: good_update_def row_ok_def row_url_def)

lemma reopen_stmt_inv: "queue_inv t \<Longrightarrow> queue_inv (fst (reopen_stmt c nowText t))"
  by (simp add: reopen_stmt_def Let_def update_where_inv [OF good_reopen])

lemma refresh_stmt_inv: "queue_inv t \<Longrightarrow> queue_inv (fst (refresh_stmt c nowText t))"
  by (simp add: refresh_stmt_def Let_def update_where_inv [OF good_refresh])

definition inv_keeping :: "environment \<Rightarrow> bool" where
  "inv_keeping e \<longleftrightarrow> (\<forall>k t. queue_inv t \<longrightarrow> queue_inv (interfere e k t))"

lemma run_stmt_inv:
  assumes "inv_keeping e" "\<And>t. queue_inv t \<Longrightarrow> queue_inv (fst (f t))" "queue_inv t"
  shows "queue_inv (fst (run_stmt e k f t))"
  using assms by (auto simp: run_stmt_def Let_def inv_keeping_def split: prod.splits) (metis fst_conv)

lemma enqueue_round_inv:
  assumes e: "inv_keeping e" and u: "trimSpace (NormalizedURL c) \<noteq> []" and t: "queue_inv t"
  shows "queue_inv (fst (enqueue_round e k c now nowText t))"
proof -
  let ?s1 = "run_stmt e k (insert_stmt c nowText) t"
  let ?s2 = "run_stmt e (k + 1) (reopen_stmt c nowText) (fst ?s1)"
  let ?s3 = "run_stmt e (k + 2) (refresh_stmt c nowText) (fst ?s2)"
  have 1: "queue_inv (fst ?s1)" by (rule run_stmt_inv [OF e insert_stmt_inv [OF _ u] t])
  have 2: "queue_inv (fst ?s2)" by (rule run_stmt_inv [OF e reopen_stmt_inv 1])
  have 3: "queue_inv (fst ?s3)" by (rule run_stmt_inv [OF e refresh_stmt_inv 2])
  have "fst (enqueue_round e k c now nowText t) \<in> {fst ?s1, fst ?s2, fst ?s3}"
    by (simp add: enqueue_round_def split: prod.splits sum.splits option.splits)
  with 1 2 3 show ?thesis by fastforce
qed

lemma enqueue_rounds_inv:
  "inv_keeping e \<Longrightarrow> trimSpace (NormalizedURL c) \<noteq> [] \<Longrightarrow> queue_inv t
     \<Longrightarrow> queue_inv (fst (enqueue_rounds n e k c now nowText t))"
proof (induction n arbitrary: k t)
  case (Suc n)
  have r: "queue_inv (fst (enqueue_round e k c now nowText t))"
    by (rule enqueue_round_inv) (use Suc.prems in simp_all)
  with Suc.IH [OF Suc.prems(1,2)] show ?case
    by (auto split: prod.splits sum.splits option.splits)
qed simp

section \<open>What the table means\<close>

text \<open>The abstract queue: the state of each URL.\<close>

datatype captureState = Pending int string | Processed | DeadLettered int

definition row_state :: "captureRow \<Rightarrow> captureState" where
  "row_state r = (if processed_at r \<noteq> [] then Processed
     else if dead_lettered_at r \<noteq> [] then DeadLettered (attempt_count r)
     else Pending (attempt_count r) (next_attempt_at r))"

definition url_state :: "captureTable \<Rightarrow> string \<Rightarrow> captureState option" where
  "url_state t u = map_option row_state (find (\<lambda>r. row_url r = u) (rows t))"

definition id_state :: "captureTable \<Rightarrow> int \<Rightarrow> captureState option" where
  "id_state t i = map_option row_state (find (\<lambda>r. row_id r = i) (rows t))"

lemma find_map_if:
  "(\<And>r. p r \<Longrightarrow> key (f r) = key r) \<Longrightarrow>
     find (\<lambda>r. key r = u) (map (\<lambda>r. if p r then f r else r) xs)
       = map_option (\<lambda>r. if p r then f r else r) (find (\<lambda>r. key r = u) xs)"
  by (induction xs) auto

lemma find_update_where:
  assumes "good_update p f"
  shows "find (\<lambda>r. row_url r = u) (rows (update_where p f t))
      = map_option (\<lambda>r. if p r then f r else r) (find (\<lambda>r. row_url r = u) (rows t))"
    and "find (\<lambda>r. row_id r = i) (rows (update_where p f t))
      = map_option (\<lambda>r. if p r then f r else r) (find (\<lambda>r. row_id r = i) (rows t))"
  using assms find_map_if [of p row_url f u "rows t"] find_map_if [of p row_id f i "rows t"]
  by (simp_all add: update_where_def good_update_def)

lemma find_unique:
  "distinct (map key xs) \<Longrightarrow> r \<in> set xs \<Longrightarrow> find (\<lambda>x. key x = key r) xs = Some r"
  by (induction xs) (auto simp: image_iff)

lemma find_key_guard:
  "distinct (map key xs) \<Longrightarrow>
     find (\<lambda>x. key x = k \<and> q x) xs = (case find (\<lambda>x. key x = k) xs of
        Some r \<Rightarrow> if q r then Some r else None | None \<Rightarrow> None)"
proof (induction xs)
  case (Cons x xs)
  show ?case
  proof (cases "key x = k")
    case True
    with Cons.prems have "\<forall>y \<in> set xs. key y \<noteq> k" by (force simp: image_iff)
    then have "find (\<lambda>y. key y = k \<and> q y) xs = None" by (auto simp: find_None_iff)
    with True show ?thesis by simp
  qed (use Cons in simp)
qed simp

text \<open>An update keyed by a column changes the state under that key only.\<close>

lemma find_keyed_update:
  assumes keep: "\<And>r. key r = k \<Longrightarrow> q r \<Longrightarrow> key (f r) = key r"
    and r: "find (\<lambda>r. key r = k) (rows t) = Some r" "q r"
  shows "find (\<lambda>r. key r = k) (rows (update_where (\<lambda>r. key r = k \<and> q r) f t)) = Some (f r)"
    and "(\<lambda>j. map_option row_state (find (\<lambda>r. key r = j) (rows (update_where (\<lambda>r. key r = k \<and> q r) f t))))
       = (\<lambda>j. map_option row_state (find (\<lambda>r. key r = j) (rows t)))(k \<mapsto> row_state (f r))"
proof -
  let ?p = "\<lambda>r. key r = k \<and> q r"
  have find: "find (\<lambda>r. key r = j) (rows (update_where ?p f t))
      = map_option (\<lambda>r. if ?p r then f r else r) (find (\<lambda>r. key r = j) (rows t))" for j
    unfolding update_where_def using keep by (simp, intro find_map_if) auto
  have kr: "key r = k" using r(1) by (auto simp: find_Some_iff)
  show 1: "find (\<lambda>r. key r = k) (rows (update_where ?p f t)) = Some (f r)"
    unfolding find using r kr by simp
  have "find (\<lambda>r. key r = j) (rows (update_where ?p f t)) = find (\<lambda>r. key r = j) (rows t)" if "j \<noteq> k" for j
  proof (cases "find (\<lambda>r. key r = j) (rows t)")
    case (Some x)
    then have "key x = j" by (auto simp: find_Some_iff)
    then show ?thesis unfolding find using Some that by simp
  qed (simp add: find)
  with 1 show "(\<lambda>j. map_option row_state (find (\<lambda>r. key r = j) (rows (update_where ?p f t))))
       = (\<lambda>j. map_option row_state (find (\<lambda>r. key r = j) (rows t)))(k \<mapsto> row_state (f r))"
    by (auto simp: fun_eq_iff)
qed

lemma url_state_alt: "url_state t = (\<lambda>u. map_option row_state (find (\<lambda>r. row_url r = u) (rows t)))"
  by (simp add: fun_eq_iff url_state_def)

lemma id_state_alt: "id_state t = (\<lambda>i. map_option row_state (find (\<lambda>r. row_id r = i) (rows t)))"
  by (simp add: fun_eq_iff id_state_def)

lemma find_SomeD: "find p xs = Some x \<Longrightarrow> x \<in> set xs \<and> p x"
  by (induction xs) (auto split: if_splits)


definition enqueued_state :: "captureState option \<Rightarrow> captureState" where
  "enqueued_state s = (case s of Some (Pending n _) \<Rightarrow> Pending n [] | _ \<Rightarrow> Pending 0 [])"

text \<open>What a round has done when it reports a result: the row of the URL.\<close>

definition enqueue_done :: "sourceCandidate \<Rightarrow> gotime \<Rightarrow> captureTable \<Rightarrow> captureTable \<Rightarrow> enqueueResult \<Rightarrow> bool" where
  "enqueue_done c now t t' res \<longleftrightarrow>
     url_state t' = (url_state t)(NormalizedURL c \<mapsto> enqueued_state (url_state t (NormalizedURL c)))
     \<and> Created res = (url_state t (NormalizedURL c) = None)
     \<and> Reopened res = (case url_state t (NormalizedURL c) of Some Processed \<Rightarrow> True
           | Some (DeadLettered _) \<Rightarrow> True | _ \<Rightarrow> False)
     \<and> (\<exists>r. find (\<lambda>r. row_url r = NormalizedURL c) (rows t') = Some r \<and> candidate_of r = c
           \<and> Capture res = newEnqueuedLinkCapture (row_id r) c now)"

lemma returning_url:
  "queue_inv t \<Longrightarrow> returning_id (\<lambda>r. row_url r = u \<and> q r) t
     = (case find (\<lambda>r. row_url r = u) (rows t) of Some r \<Rightarrow> if q r then Some (row_id r) else None | None \<Rightarrow> None)"
  unfolding returning_id_def queue_inv_def
  by (simp add: find_key_guard [of row_url "rows t" u q] split: option.splits)

lemma insert_stmt_None: "find (\<lambda>r. row_url r = NormalizedURL c) (rows t) = Some r \<Longrightarrow> insert_stmt c nt t = (t, None)"
  by (auto simp: insert_stmt_def dest: find_SomeD)

lemma find_append: "find p (xs @ ys) = (case find p xs of None \<Rightarrow> find p ys | Some x \<Rightarrow> Some x)"
  by (induction xs) auto

lemma insert_stmt_new:
  assumes "find (\<lambda>r. row_url r = NormalizedURL c) (rows t) = None"
  shows "\<exists>t'. insert_stmt c nt t = (t', Some (last_id t + 1))
     \<and> enqueue_done c now t t' \<lparr>Capture = newEnqueuedLinkCapture (last_id t + 1) c now, Created = True, Reopened = False\<rparr>"
proof -
  from assms have no: "\<not> (\<exists>r \<in> set (rows t). row_url r = NormalizedURL c)" by (auto simp: find_None_iff)
  have "url_state t (NormalizedURL c) = None" using assms by (simp add: url_state_def)
  then show ?thesis using assms no
    by (auto simp: insert_stmt_def Let_def enqueue_done_def url_state_def enqueued_state_def find_append
        row_state_def row_url_def fun_eq_iff split: option.splits)
qed

lemma enqueue_doneI:
  assumes upd: "t' = update_where (\<lambda>r. row_url r = NormalizedURL c \<and> q r) f t"
    and r: "find (\<lambda>r. row_url r = NormalizedURL c) (rows t) = Some r" "q r"
    and f: "\<And>r. candidate_of (f r) = c" "\<And>r. row_id (f r) = row_id r"
      "row_state (f r) = enqueued_state (Some (row_state r))"
    and re: "b = (case row_state r of Pending _ _ \<Rightarrow> False | _ \<Rightarrow> True)"
  shows "enqueue_done c now t t' \<lparr>Capture = newEnqueuedLinkCapture (row_id r) c now, Created = False, Reopened = b\<rparr>"
proof -
  have keep: "row_url x = NormalizedURL c \<Longrightarrow> row_url (f x) = row_url x" for x
    using f(1) by (simp add: row_url_def)
  note upd' = find_keyed_update [where key = row_url and q = q and f = f, OF keep r]
  have "url_state t (NormalizedURL c) = Some (row_state r)" using r by (simp add: url_state_def)
  then show ?thesis
    using upd' f re unfolding enqueue_done_def url_state_alt upd
    by (auto split: captureState.splits)
qed

lemma reopen_stmt_closed:
  assumes "queue_inv t" and r: "find (\<lambda>r. row_url r = NormalizedURL c) (rows t) = Some r" and cl: "closed_row r"
  shows "\<exists>t'. reopen_stmt c nt t = (t', Some (row_id r))
     \<and> enqueue_done c now t t' \<lparr>Capture = newEnqueuedLinkCapture (row_id r) c now, Created = False, Reopened = True\<rparr>"
  unfolding reopen_stmt_def Let_def returning_url [OF assms(1)]
  using r cl
  by (auto intro!: enqueue_doneI [where q = closed_row] simp: row_state_def enqueued_state_def closed_row_def)

lemma reopen_stmt_open:
  assumes "queue_inv t" and r: "find (\<lambda>r. row_url r = NormalizedURL c) (rows t) = Some r" and cl: "\<not> closed_row r"
  shows "reopen_stmt c nt t = (t, None)"
proof -
  have "\<not> (row_url x = NormalizedURL c \<and> closed_row x)" if x: "x \<in> set (rows t)" for x
  proof
    assume "row_url x = NormalizedURL c \<and> closed_row x"
    moreover from this have "find (\<lambda>r. row_url r = NormalizedURL c) (rows t) = Some x"
      using find_unique [of row_url "rows t" x] assms(1) x by (simp add: queue_inv_def)
    ultimately show False using r cl by simp
  qed
  then have "map (\<lambda>r. if row_url r = NormalizedURL c \<and> closed_row r then f r else r) (rows t) = rows t" for f
    by (intro map_idI) auto
  then show ?thesis
    using r cl unfolding reopen_stmt_def Let_def returning_url [OF assms(1)] by (simp add: update_where_def)
qed

lemma refresh_stmt_open:
  assumes "queue_inv t" and r: "find (\<lambda>r. row_url r = NormalizedURL c) (rows t) = Some r" and cl: "\<not> closed_row r"
  shows "\<exists>t'. refresh_stmt c nt t = (t', Some (row_id r))
     \<and> enqueue_done c now t t' \<lparr>Capture = newEnqueuedLinkCapture (row_id r) c now, Created = False, Reopened = False\<rparr>"
  unfolding refresh_stmt_def Let_def returning_url [OF assms(1)]
  using r cl
  by (auto intro!: enqueue_doneI [where q = "\<lambda>r. processed_at r = [] \<and> dead_lettered_at r = []"]
      simp: row_state_def enqueued_state_def closed_row_def)

text \<open>A round is calm when no statement of it fails and nobody writes between its statements.\<close>

definition calm_round :: "environment \<Rightarrow> nat \<Rightarrow> bool" where
  "calm_round e k \<longleftrightarrow> interfere e (k + 1) = id \<and> interfere e (k + 2) = id
     \<and> \<not> stmt_fails e k \<and> \<not> stmt_fails e (k + 1) \<and> \<not> stmt_fails e (k + 2)"

lemma calm_round_done:
  assumes calm: "calm_round e k" and inv: "queue_inv (interfere e k t)"
  shows "\<exists>t' res. enqueue_round e k c now nt t = (t', Inr (Some res)) \<and> enqueue_done c now (interfere e k t) t' res"
proof -
  let ?t = "interfere e k t"
  note run = run_stmt_def calm_round_def enqueue_round_def
  show ?thesis
  proof (cases "find (\<lambda>r. row_url r = NormalizedURL c) (rows ?t)")
    case None
    then obtain t' where "insert_stmt c nt ?t = (t', Some (last_id ?t + 1))"
      "enqueue_done c now ?t t' \<lparr>Capture = newEnqueuedLinkCapture (last_id ?t + 1) c now, Created = True, Reopened = False\<rparr>"
      using insert_stmt_new by blast
    then show ?thesis using calm by (simp add: run)
  next
    case (Some r)
    note ins = insert_stmt_None [OF Some, of nt]
    show ?thesis
    proof (cases "closed_row r")
      case True
      obtain t' where "reopen_stmt c nt ?t = (t', Some (row_id r))"
        "enqueue_done c now ?t t' \<lparr>Capture = newEnqueuedLinkCapture (row_id r) c now, Created = False, Reopened = True\<rparr>"
        using reopen_stmt_closed [OF inv Some True] by blast
      then show ?thesis using calm ins by (simp add: run)
    next
      case False
      obtain t' where "refresh_stmt c nt ?t = (t', Some (row_id r))"
        "enqueue_done c now ?t t' \<lparr>Capture = newEnqueuedLinkCapture (row_id r) c now, Created = False, Reopened = False\<rparr>"
        using refresh_stmt_open [OF inv Some False] by blast
      then show ?thesis using calm ins reopen_stmt_open [OF inv Some False, of nt] by (simp add: run)
    qed
  qed
qed


lemma rounds_calm:
  assumes "\<exists>j < n. calm_round e (k + 3 * j)" and "inv_keeping e" and "queue_inv t"
    and u: "trimSpace (NormalizedURL c) \<noteq> []"
  shows "snd (enqueue_rounds n e k c now nt t) \<noteq> Inl ChangedWhileEnqueueing"
  using assms(1,3)
proof (induction n arbitrary: k t)
  case (Suc n)
  have inv: "queue_inv (interfere e k t)" using Suc.prems(2) assms(2) by (simp add: inv_keeping_def)
  have inv': "queue_inv (fst (enqueue_round e k c now nt t))"
    by (rule enqueue_round_inv [OF assms(2) u Suc.prems(2)])
  have err: "snd (enqueue_round e k c now nt t) \<noteq> Inl ChangedWhileEnqueueing"
    by (auto simp: enqueue_round_def run_stmt_def Let_def split: prod.splits sum.splits option.splits if_splits)
  show ?case
  proof (cases "calm_round e k")
    case True
    from calm_round_done [OF this inv, of c now nt] show ?thesis by auto
  next
    case False
    with Suc.prems(1) obtain j where j: "j < Suc n" "calm_round e (k + 3 * j)" "j \<noteq> 0"
      by (metis add.right_neutral mult_0_right)
    then have "j - 1 < n" "k + 3 + 3 * (j - 1) = k + 3 * j" by auto
    with j have "\<exists>j < n. calm_round e (k + 3 + 3 * j)" by metis
    from Suc.IH [OF this inv'] err show ?thesis
      by (auto split: prod.splits sum.splits option.splits)
  qed
qed simp

definition quiet :: environment where
  "quiet = \<lparr>interfere = (\<lambda>_. id), stmt_fails = (\<lambda>_. False)\<rparr>"

definition candidate_ex :: sourceCandidate where
  "candidate_ex = \<lparr>OriginalURL = ''http://a'', CanonicalURL = ''http://a'', NormalizedURL = ''http://a'',
     SourceType = ''web'', Domain = ''a'', SourceKey = ''k'', NotePath = ''n''\<rparr>"

definition noon_ex :: gotime where
  "noon_ex = \<lparr>instant = 63902649661 * 1000000000, utc_loc = True\<rparr>"

text \<open>\<open>EnqueueLinkCapture\<close> keeps the queue well-formed: ids and normalized URLs stay
  unique, no row is both processed and dead-lettered, a dead-lettered row has spent its attempts
  and waits for nothing, a processed row carries no error. It does so whatever other connections
  write between its statements (as long as they keep the table well-formed themselves), whichever
  statement fails, and on its error returns too.\<close>

theorem enqueue_keeps_invariant:
  assumes "queue_inv t" and "inv_keeping e"
  shows "queue_inv (fst (EnqueueLinkCapture e wall c now t))"
  using assms enqueue_rounds_inv [OF assms(2) _ assms(1)]
  by (simp add: EnqueueLinkCapture_def Let_def)

theorem enqueue_keeps_invariant_witness:
  "queue_inv (fst (EnqueueLinkCapture quiet zero_time candidate_ex noon_ex empty_table))"
  by (rule enqueue_keeps_invariant [OF queue_inv_empty]) (simp add: inv_keeping_def quiet_def)

text \<open>C38. On a table nobody else writes to, \<open>EnqueueLinkCapture\<close> refines the abstract queue:
  the URL becomes pending and due at once, with a fresh budget of attempts if it was new,
  processed or dead-lettered and with the attempts it already used if it was pending; every other
  URL keeps its state; the \<open>Created\<close> and \<open>Reopened\<close> flags say which case it was.\<close>

theorem enqueue_refines:
  assumes "queue_inv t" and "trimSpace (NormalizedURL c) \<noteq> []"
  shows "\<exists>t' res. EnqueueLinkCapture quiet wall c now t = (t', Inr res)
     \<and> url_state t' = (url_state t)(NormalizedURL c \<mapsto>
          (case url_state t (NormalizedURL c) of Some (Pending n _) \<Rightarrow> Pending n [] | _ \<Rightarrow> Pending 0 []))
     \<and> Created res = (url_state t (NormalizedURL c) = None)
     \<and> Reopened res = (case url_state t (NormalizedURL c) of Some Processed \<Rightarrow> True
           | Some (DeadLettered _) \<Rightarrow> True | _ \<Rightarrow> False)"
proof -
  have "calm_round quiet 0" "queue_inv (interfere quiet 0 t)"
    using assms(1) by (simp_all add: calm_round_def quiet_def id_def)
  from calm_round_done [OF this, of c "t_utc (resolve_now wall now)" "rfc3339 (t_utc (resolve_now wall now))"]
  show ?thesis using assms(2)
    by (auto simp: EnqueueLinkCapture_def Let_def eval_nat_numeral enqueue_done_def enqueued_state_def quiet_def)
qed

theorem enqueue_refines_witness:
  "\<exists>t' res. EnqueueLinkCapture quiet zero_time candidate_ex noon_ex empty_table = (t', Inr res)
     \<and> url_state t' = [''http://a'' \<mapsto> Pending 0 []] \<and> Created res \<and> \<not> Reopened res"
proof -
  have ne: "trimSpace (NormalizedURL candidate_ex) \<noteq> []" by code_simp
  have url0: "url_state empty_table = Map.empty" by (simp add: url_state_def empty_table_def fun_eq_iff)
  from enqueue_refines [OF queue_inv_empty ne, of zero_time noon_ex] show ?thesis
    unfolding url0 by (auto simp: candidate_ex_def)
qed

text \<open>\<open>EnqueueLinkCapture\<close> never gives up with \<open>link capture changed while
  enqueueing\<close> when one of its three rounds is calm: its statements succeed and no other
  connection writes between them. Another writer has to hit every one of the three rounds for the
  call to report the conflict.\<close>

theorem enqueue_succeeds_after_calm_round:
  assumes "queue_inv t" and "inv_keeping e" and "trimSpace (NormalizedURL c) \<noteq> []"
    and "calm_round e 0 \<or> calm_round e 3 \<or> calm_round e 6"
  shows "snd (EnqueueLinkCapture e wall c now t) \<noteq> Inl ChangedWhileEnqueueing"
proof -
  have "\<exists>j < 3. calm_round e (0 + 3 * j)"
    using assms(4)
  proof (elim disjE)
    show "calm_round e 0 \<Longrightarrow> ?thesis" by (intro exI [of _ 0]) simp
    show "calm_round e 3 \<Longrightarrow> ?thesis" by (intro exI [of _ 1]) simp
    show "calm_round e 6 \<Longrightarrow> ?thesis" by (intro exI [of _ 2]) simp
  qed
  from rounds_calm [OF this assms(2,1,3)] show ?thesis
    using assms(3) by (simp add: EnqueueLinkCapture_def Let_def)
qed

text \<open>A worker that processes the row before the first two refresh statements, and a second
  client that reopens it before the second reopen statement.\<close>

definition process_all :: "captureTable \<Rightarrow> captureTable" where
  "process_all = update_where (\<lambda>r. processed_at r = [] \<and> dead_lettered_at r = [])
     (\<lambda>r. r\<lparr>processed_at := rfc3339 noon_ex, next_attempt_at := [], last_error := []\<rparr>)"

definition busy_env :: environment where
  "busy_env = \<lparr>interfere = (\<lambda>k. if k = 2 \<or> k = 5 then process_all
       else if k = 4 then fst \<circ> reopen_stmt candidate_ex (rfc3339 noon_ex) else id),
     stmt_fails = (\<lambda>_. False)\<rparr>"

definition pending_table :: captureTable where
  "pending_table = fst (insert_stmt candidate_ex (rfc3339 noon_ex) empty_table)"

lemma process_all_inv: "queue_inv t \<Longrightarrow> queue_inv (process_all t)"
  unfolding process_all_def by (rule update_where_inv) (simp add: good_update_def row_ok_def row_url_def)

theorem enqueue_succeeds_after_calm_round_witness:
  "snd (EnqueueLinkCapture busy_env zero_time candidate_ex noon_ex pending_table) \<noteq> Inl ChangedWhileEnqueueing"
proof (rule enqueue_succeeds_after_calm_round)
  show ne: "trimSpace (NormalizedURL candidate_ex) \<noteq> []" by code_simp
  show "queue_inv pending_table"
    unfolding pending_table_def by (rule insert_stmt_inv [OF queue_inv_empty ne])
  show "inv_keeping busy_env"
    by (simp add: inv_keeping_def busy_env_def process_all_inv reopen_stmt_inv)
  show "calm_round busy_env 0 \<or> calm_round busy_env 3 \<or> calm_round busy_env 6"
    by (simp add: calm_round_def busy_env_def)
qed

section \<open>The worker's transitions\<close>

lemma checked_update_inv:
  assumes "good_update (open_with_id i) f" "queue_inv t"
  shows "queue_inv (fst (checked_update i f t))"
  using assms update_where_inv by (simp add: checked_update_def)

definition open_row :: "captureRow \<Rightarrow> bool" where
  "open_row r = (processed_at r = [] \<and> dead_lettered_at r = [])"

lemma open_with_id_alt: "open_with_id i = (\<lambda>r. row_id r = i \<and> open_row r)"
  by (simp add: open_with_id_def open_row_def fun_eq_iff)

lemma open_row_state: "open_row r \<longleftrightarrow> row_state r = Pending (attempt_count r) (next_attempt_at r)"
  by (simp add: open_row_def row_state_def)

lemma affected_id:
  assumes "queue_inv t"
  shows "affected (open_with_id i) t = 0 \<longleftrightarrow> \<not> (\<exists>n x. id_state t i = Some (Pending n x))"
proof -
  have d: "distinct (map row_id (rows t))" using assms by (simp add: queue_inv_def)
  have "affected (open_with_id i) t = 0 \<longleftrightarrow> find (open_with_id i) (rows t) = None"
    by (auto simp: affected_def find_None_iff filter_empty_conv)
  also have "\<dots> \<longleftrightarrow> \<not> (\<exists>n x. id_state t i = Some (Pending n x))"
    unfolding open_with_id_alt find_key_guard [OF d] id_state_def
    by (auto simp: open_row_def row_state_def split: option.splits)
  finally show ?thesis .
qed

text \<open>What a transition of the worker does to the abstract queue.\<close>

lemma checked_update_state:
  assumes inv: "queue_inv t" and keep: "\<And>r. row_id (f r) = row_id r"
    and f: "\<And>r n x. row_state r = Pending n x \<Longrightarrow> row_state (f r) = g n x"
  shows "checked_update i f t = (case id_state t i of
       Some (Pending n x) \<Rightarrow> (update_where (open_with_id i) f t, None)
     | _ \<Rightarrow> (t, Some (MissingOrProcessed i)))"
    and "id_state t i = Some (Pending n x) \<Longrightarrow>
       id_state (update_where (open_with_id i) f t) = (id_state t)(i \<mapsto> g n x)"
proof -
  show "checked_update i f t = (case id_state t i of
       Some (Pending n x) \<Rightarrow> (update_where (open_with_id i) f t, None)
     | _ \<Rightarrow> (t, Some (MissingOrProcessed i)))"
    using affected_id [OF inv, of i]
    by (auto simp: checked_update_def split: option.splits captureState.splits)
next
  assume "id_state t i = Some (Pending n x)"
  then obtain r where r: "find (\<lambda>r. row_id r = i) (rows t) = Some r" "row_state r = Pending n x"
    by (auto simp: id_state_def)
  then have "open_row r" by (auto simp: open_row_def row_state_def split: if_splits)
  from find_keyed_update(2) [where key = row_id and q = open_row and f = f, OF keep r(1) this]
  show "id_state (update_where (open_with_id i) f t) = (id_state t)(i \<mapsto> g n x)"
    unfolding id_state_alt open_with_id_alt f [OF r(2)] .
qed


definition failed_row :: "string \<Rightarrow> string \<Rightarrow> string \<Rightarrow> captureRow \<Rightarrow> captureRow" where
  "failed_row nextText kind nowText r = r\<lparr>
     next_attempt_at := (if attempt_count r \<ge> MaxLinkCaptureAttempts then [] else nextText),
     last_error := kind,
     dead_lettered_at := (if attempt_count r \<ge> MaxLinkCaptureAttempts then nowText else dead_lettered_at r),
     updated_at := nowText\<rparr>"

definition failed_state :: "string \<Rightarrow> int \<Rightarrow> string \<Rightarrow> captureState" where
  "failed_state nextText n x = (if n \<ge> MaxLinkCaptureAttempts then DeadLettered n else Pending n nextText)"

lemma failed_row_state:
  "row_state r = Pending n x \<Longrightarrow> nowText \<noteq> [] \<Longrightarrow> row_state (failed_row nextText kind nowText r) = failed_state nextText n x"
  by (auto simp: row_state_def failed_row_def failed_state_def split: if_splits)

lemma MarkLinkCaptureFailed_alt:
  "MarkLinkCaptureFailed wall i now nextAttempt kind t =
     (let now = resolve_now wall now; nextAttempt = (if t_isZero nextAttempt then t_add now minute else nextAttempt)
      in checked_update i (failed_row (rfc3339 (t_utc nextAttempt)) (normalizeLinkCaptureFailureKind kind)
           (rfc3339 (t_utc now))) t)"
  by (simp add: MarkLinkCaptureFailed_def Let_def failed_row_def [abs_def])

lemma good_failed: "nowText \<noteq> [] \<Longrightarrow> good_update (open_with_id i) (failed_row nextText kind nowText)"
  by (auto simp: good_update_def open_with_id_def row_ok_def row_url_def failed_row_def)

lemma good_attempt:
  "good_update (open_with_id i) (\<lambda>r. r\<lparr>attempt_count := attempt_count r + 1, last_attempt_at := nt, updated_at := nt\<rparr>)"
  by (auto simp: good_update_def open_with_id_def row_ok_def row_url_def)

lemma good_processed:
  "nt \<noteq> [] \<Longrightarrow> good_update (open_with_id i)
     (\<lambda>r. r\<lparr>processed_at := nt, next_attempt_at := [], last_error := [], updated_at := nt\<rparr>)"
  by (auto simp: good_update_def open_with_id_def row_ok_def row_url_def)

lemma mark_inv:
  "queue_inv t \<Longrightarrow> queue_inv (fst (MarkLinkCaptureAttempt wall i now t))"
  "queue_inv t \<Longrightarrow> queue_inv (fst (MarkLinkCaptureProcessed wall i now t))"
  "queue_inv t \<Longrightarrow> queue_inv (fst (MarkLinkCaptureFailed wall i now nextAttempt kind t))"
  by (simp_all add: MarkLinkCaptureAttempt_def MarkLinkCaptureProcessed_def MarkLinkCaptureFailed_alt Let_def
      checked_update_inv [OF good_attempt] checked_update_inv [OF good_processed [OF rfc3339_nonempty]]
      checked_update_inv [OF good_failed [OF rfc3339_nonempty]])

text \<open>The transition of the abstract queue a checked update stands for.\<close>

definition step_state :: "int \<Rightarrow> (int \<Rightarrow> string \<Rightarrow> captureState) \<Rightarrow> captureTable \<Rightarrow> captureTable \<times> queueError option \<Rightarrow> bool" where
  "step_state i g t out \<longleftrightarrow> (case id_state t i of
       Some (Pending n x) \<Rightarrow> snd out = None \<and> id_state (fst out) = (id_state t)(i \<mapsto> g n x)
     | _ \<Rightarrow> out = (t, Some (MissingOrProcessed i)))"

lemma step_state_checked:
  assumes "queue_inv t" "\<And>r. row_id (f r) = row_id r"
    "\<And>r n x. row_state r = Pending n x \<Longrightarrow> row_state (f r) = g n x"
  shows "step_state i g t (checked_update i f t)"
  using checked_update_state(1) [where i = i and f = f, OF assms] checked_update_state(2) [where i = i and f = f, OF assms]
  by (auto simp: step_state_def split: option.splits captureState.splits)

lemma mark_failed_step:
  assumes "queue_inv t"
  shows "step_state i (failed_state (rfc3339 (t_utc (if t_isZero nextAttempt then t_add (resolve_now wall now) minute else nextAttempt)))) t
     (MarkLinkCaptureFailed wall i now nextAttempt kind t)"
  unfolding MarkLinkCaptureFailed_alt Let_def
  by (rule step_state_checked [OF assms]) (simp_all add: failed_row_state, simp add: failed_row_def)

lemma mark_attempt_step:
  assumes "queue_inv t"
  shows "step_state i (\<lambda>n x. Pending (n + 1) x) t (MarkLinkCaptureAttempt wall i now t)"
  unfolding MarkLinkCaptureAttempt_def Let_def
  by (rule step_state_checked [OF assms]) (auto simp: row_state_def split: if_splits)

lemma mark_processed_step:
  assumes "queue_inv t"
  shows "step_state i (\<lambda>n x. Processed) t (MarkLinkCaptureProcessed wall i now t)"
  unfolding MarkLinkCaptureProcessed_def Let_def
  by (rule step_state_checked [OF assms]) (auto simp: row_state_def split: if_splits)

text \<open>The worker's three transitions refine the abstract queue: on a pending capture
  \<open>MarkLinkCaptureAttempt\<close> counts the attempt, \<open>MarkLinkCaptureProcessed\<close> finishes it,
  and \<open>MarkLinkCaptureFailed\<close> leaves it pending until the next attempt, or dead-letters it
  once it has used eight attempts. No other capture changes state, and on a capture that is
  missing, processed or dead-lettered each of them changes nothing and reports the error.\<close>

theorem worker_transitions_refine:
  assumes "queue_inv t" and "\<not> t_isZero nextAttempt"
  shows "step_state i (\<lambda>n x. Pending (n + 1) x) t (MarkLinkCaptureAttempt wall i now t)
    \<and> step_state i (\<lambda>n x. Processed) t (MarkLinkCaptureProcessed wall i now t)
    \<and> step_state i (\<lambda>n x. if n \<ge> 8 then DeadLettered n else Pending n (rfc3339 (t_utc nextAttempt))) t
           (MarkLinkCaptureFailed wall i now nextAttempt kind t)"
  using mark_failed_step [OF assms(1), where i = i and nextAttempt = nextAttempt and wall = wall and now = now and kind = kind] assms
  by (simp_all add: mark_attempt_step mark_processed_step failed_state_def [abs_def] MaxLinkCaptureAttempts_def)

theorem worker_transitions_refine_witness:
  "step_state 1 (\<lambda>n x. if n \<ge> 8 then DeadLettered n else Pending n (rfc3339 (t_utc noon_ex))) empty_table
     (MarkLinkCaptureFailed zero_time 1 noon_ex noon_ex ''feed_import'' empty_table)"
  by (rule worker_transitions_refine [OF queue_inv_empty, THEN conjunct2, THEN conjunct2]) (simp add: noon_ex_def t_isZero_def)

section \<open>What the worker is given\<close>

definition due_rows :: "gotime \<Rightarrow> gotime \<Rightarrow> captureTable \<Rightarrow> captureRow list" where
  "due_rows wall now t = filter (due_row (rfc3339 (t_utc (resolve_now wall now)))) (rows t)"

abbreviation pendingKey :: "captureRow \<Rightarrow> sqltext \<times> int" where
  "pendingKey r \<equiv> (SqlText (enqueued_at r), row_id r)"

lemma sorted_take_drop:
  "sorted xs \<Longrightarrow> x \<in> set (take n xs) \<Longrightarrow> y \<in> set (drop n xs) \<Longrightarrow> x \<le> y"
  by (metis append_take_drop_id sorted_append)

text \<open>\<open>ListPendingLinkCaptures\<close> returns captures that are due, oldest first (by the
  stored enqueue time, then id), as many as the limit allows and no capture twice; a due capture
  it leaves out is no older than any it returns, so the limit never hides the oldest ones.\<close>

theorem list_pending_oldest_due:
  "\<exists>rs. ListPendingLinkCaptures wall now limit t = map scan_row rs
     \<and> length rs = min (nat (if limit \<le> 0 then 25 else limit)) (length (due_rows wall now t))
     \<and> mset rs \<subseteq># mset (due_rows wall now t) \<and> sorted (map pendingKey rs)
     \<and> list_all (\<lambda>r. list_all (\<lambda>r'. r' \<in> set rs \<or> pendingKey r \<le> pendingKey r') (due_rows wall now t)) rs"
proof (intro exI conjI)
  let ?due = "due_rows wall now t"
  let ?s = "sort_key pendingKey ?due" and ?n = "page_limit limit"
  show "ListPendingLinkCaptures wall now limit t = map scan_row (take ?n ?s)"
    by (simp add: ListPendingLinkCaptures_def due_rows_def)
  show "length (take ?n ?s) = min (nat (if limit \<le> 0 then 25 else limit)) (length ?due)"
    by (simp add: page_limit_def min.commute)
  have "mset (take ?n ?s) + mset (drop ?n ?s) = mset ?due"
    by (metis append_take_drop_id mset_append mset_sort)
  then show "mset (take ?n ?s) \<subseteq># mset ?due" by (metis mset_subset_eq_add_left)
  have sorted: "sorted (map pendingKey ?s)" by (rule sorted_sort_key)
  then show "sorted (map pendingKey (take ?n ?s))" by (simp add: sorted_wrt_take flip: take_map)
  have key: "pendingKey r \<le> pendingKey r'" if r: "r \<in> set (take ?n ?s)" and r': "r' \<in> set ?due" "r' \<notin> set (take ?n ?s)" for r r'
  proof (rule sorted_take_drop [OF sorted, where n = ?n])
    show "pendingKey r \<in> set (take ?n (map pendingKey ?s))" unfolding take_map set_map using r by (rule imageI)
    have "set ?s = set (take ?n ?s) \<union> set (drop ?n ?s)" by (metis append_take_drop_id set_append)
    moreover have "r' \<in> set ?s" using r'(1) by simp
    ultimately have "r' \<in> set (drop ?n ?s)" using r'(2) by blast
    then show "pendingKey r' \<in> set (drop ?n (map pendingKey ?s))" unfolding drop_map set_map by (rule imageI)
  qed
  show "list_all (\<lambda>r. list_all (\<lambda>r'. r' \<in> set (take ?n ?s) \<or> pendingKey r \<le> pendingKey r'  ) ?due) (take ?n ?s)"
    unfolding list_all_iff using key by blast
qed


lemma list_pending_all:
  assumes "int (length (rows t)) \<le> limit" "0 < limit"
  shows "set (ListPendingLinkCaptures wall now limit t) = scan_row ` set (due_rows wall now t)"
proof -
  have "length (due_rows wall now t) \<le> length (rows t)" by (simp add: due_rows_def)
  with assms have "length (due_rows wall now t) \<le> page_limit limit" by (simp add: page_limit_def)
  then show ?thesis by (simp add: ListPendingLinkCaptures_def due_rows_def)
qed

lemma id_state_row:
  assumes "queue_inv t"
  shows "id_state t i = Some s \<longleftrightarrow> (\<exists>r \<in> set (rows t). row_id r = i \<and> row_state r = s)"
proof
  assume "id_state t i = Some s"
  then show "\<exists>r \<in> set (rows t). row_id r = i \<and> row_state r = s"
    by (auto simp: id_state_def dest: find_SomeD)
next
  assume "\<exists>r \<in> set (rows t). row_id r = i \<and> row_state r = s"
  then obtain r where "r \<in> set (rows t)" "row_id r = i" "row_state r = s" by blast
  with find_unique [of row_id "rows t" r] assms show "id_state t i = Some s"
    by (simp add: id_state_def queue_inv_def)
qed

lemma listed_iff:
  assumes inv: "queue_inv t" and lim: "int (length (rows t)) \<le> limit" "0 < limit"
    and st: "id_state t i = Some (Pending n x)"
  shows "i \<in> ID ` set (ListPendingLinkCaptures wall now limit t)
     \<longleftrightarrow> x = [] \<or> text_le x (rfc3339 (t_utc (resolve_now wall now)))"
proof -
  have "i \<in> ID ` set (ListPendingLinkCaptures wall now limit t)
      \<longleftrightarrow> (\<exists>r \<in> set (rows t). row_id r = i \<and> due_row (rfc3339 (t_utc (resolve_now wall now))) r)"
    unfolding list_pending_all [OF lim] by (auto simp: due_rows_def scan_row_def image_iff)
  also have "\<dots> \<longleftrightarrow> (\<exists>r \<in> set (rows t). row_id r = i \<and> row_state r = Pending n x
      \<and> (x = [] \<or> text_le x (rfc3339 (t_utc (resolve_now wall now)))))"
    (is "?L \<longleftrightarrow> ?R")
  proof
    assume ?L
    then obtain r where r: "r \<in> set (rows t)" "row_id r = i"
      and due: "due_row (rfc3339 (t_utc (resolve_now wall now))) r" by blast
    from r have "id_state t i = Some (row_state r)" using id_state_row [OF inv] by blast
    with st have "row_state r = Pending n x" by simp
    with r due show ?R by (auto simp: due_row_def row_state_def)
  next
    assume ?R
    then obtain r where r: "r \<in> set (rows t)" "row_id r = i" "row_state r = Pending n x"
      and x: "x = [] \<or> text_le x (rfc3339 (t_utc (resolve_now wall now)))" by blast
    from r(3) have "processed_at r = [] \<and> dead_lettered_at r = [] \<and> next_attempt_at r = x"
      by (simp add: row_state_def split: if_splits)
    with r x show ?L by (auto simp: due_row_def)
  qed
  also have "\<dots> \<longleftrightarrow> x = [] \<or> text_le x (rfc3339 (t_utc (resolve_now wall now)))"
    using id_state_row [OF inv, of i] st by blast
  finally show ?thesis .
qed

lemma update_where_length [simp]: "length (rows (update_where p f t)) = length (rows t)"
  by (simp add: update_where_def)

lemma checked_update_length [simp]: "length (rows (fst (checked_update i f t))) = length (rows t)"
  by (simp add: checked_update_def)

text \<open>The backoff of a failed capture is exact to the second: after
  \<open>MarkLinkCaptureFailed\<close> with a next attempt time, a list taken at a later time contains the
  capture if and only if that time has reached the second of the next attempt. (The comparison is
  SQLite's on text; it is the order of the instants because RFC 3339 text of a UTC time has a fixed
  width.)\<close>

theorem failed_capture_waits_for_its_backoff:
  assumes "queue_inv t" and "id_state t i = Some (Pending n x)" and "n < 8"
    and "formattable nextAttempt" and "formattable later"
    and "\<not> t_isZero nextAttempt" and "\<not> t_isZero later"
    and "int (length (rows t)) \<le> limit"
  shows "i \<in> ID ` set (ListPendingLinkCaptures wall' later limit
            (fst (MarkLinkCaptureFailed wall i now nextAttempt kind t)))
     \<longleftrightarrow> instant nextAttempt div second \<le> instant later div second"
proof -
  let ?t = "fst (MarkLinkCaptureFailed wall i now nextAttempt kind t)"
  have st: "id_state ?t i = Some (Pending n (rfc3339 (t_utc nextAttempt)))"
    using mark_failed_step [OF assms(1), where i = i and nextAttempt = nextAttempt and wall = wall and now = now and kind = kind] assms(2,3,6)
    by (simp add: step_state_def failed_state_def MaxLinkCaptureAttempts_def)
  have inv: "queue_inv ?t" by (rule mark_inv [OF assms(1)])
  have len: "length (rows ?t) = length (rows t)" by (simp add: MarkLinkCaptureFailed_alt Let_def)
  have "rows t \<noteq> []" using assms(2) by (auto simp: id_state_def)
  then have "0 < limit" using assms(8) by (cases "rows t") auto
  from listed_iff [OF inv _ this st, of wall' later] assms(8) len
  have "i \<in> ID ` set (ListPendingLinkCaptures wall' later limit ?t)
      \<longleftrightarrow> text_le (rfc3339 (t_utc nextAttempt)) (rfc3339 (t_utc later))"
    using assms(7) by (simp add: resolve_now_def)
  also have "\<dots> \<longleftrightarrow> instant nextAttempt div second \<le> instant later div second"
    using rfc3339_le [of "t_utc nextAttempt" "t_utc later"] assms(4,5) by simp
  finally show ?thesis .
qed

theorem failed_capture_waits_for_its_backoff_witness:
  "1 \<notin> ID ` set (ListPendingLinkCaptures zero_time noon_ex 5
     (fst (MarkLinkCaptureFailed zero_time 1 noon_ex (t_add noon_ex minute) ''feed_import'' pending_table)))"
proof -
  have inv: "queue_inv pending_table"
    unfolding pending_table_def by (rule insert_stmt_inv [OF queue_inv_empty]) code_simp
  have "id_state pending_table 1 = Some (Pending 0 [])" and "int (length (rows pending_table)) \<le> 5"
    by (simp_all add: pending_table_def empty_table_def insert_stmt_def Let_def id_state_def row_state_def)
  from failed_capture_waits_for_its_backoff [OF inv this(1) _ _ _ _ _ this(2),
      of "t_add noon_ex minute" noon_ex zero_time zero_time noon_ex "''feed_import''"]
  show ?thesis by (simp add: noon_ex_def formattable_def second_def minute_def t_isZero_def)
qed

section \<open>Failure kinds\<close>

lemma kind_byte_replace_runs: "list_all kind_byte (replace_runs b s)"
  by (induction s arbitrary: b) (auto simp: kind_byte_def)

text \<open>Whatever text a failure kind is built from, the kind the queue stores is not empty, has
  at most 64 bytes and contains only \<open>a-z\<close>, \<open>0-9\<close>, underscore and hyphen; so no raw
  error message reaches the table.\<close>

theorem failure_kind_is_normalized:
  "let k = normalizeLinkCaptureFailureKind kind in
     k \<noteq> [] \<and> length k \<le> 64 \<and> list_all kind_byte k"
proof -
  let ?k = "trimBy (\<lambda>c. c = CHR ''_'') (replace_runs False (toLower (trimSpace kind)))"
  let ?u = "if ?k = [] then ''unknown'' else ?k"
  have "list_all kind_byte ?k"
    using kind_byte_replace_runs set_trimBy unfolding list_all_iff by blast
  moreover have "list_all kind_byte ''unknown''"
    by (simp add: kind_byte_def isLowerByte_def)
  ultimately have u: "list_all kind_byte ?u" by simp
  have ne: "?u \<noteq> []" by simp
  have "normalizeLinkCaptureFailureKind kind = take 64 ?u"
    by (simp add: normalizeLinkCaptureFailureKind_def maxLinkCaptureFailureKindLength_def Let_def)
  then show ?thesis using u ne by (auto simp: list_all_iff Let_def dest: in_set_takeD)
qed

lemma worker_kinds_kept:
  "normalizeLinkCaptureFailureKind ''invalid_capture'' = ''invalid_capture''"
  "normalizeLinkCaptureFailureKind ''source_upsert'' = ''source_upsert''"
  "normalizeLinkCaptureFailureKind ''feed_import'' = ''feed_import''"
  "normalizeLinkCaptureFailureKind ''worker_processing'' = ''worker_processing''"
  by code_simp+

end
