(* ===== verification/LinkWorker.thy ===== *)
theory LinkWorker
  imports LinkQueue
begin

text \<open>
  The worker that drains the intake queue (\<open>internal/linkcapture/worker.go\<close>). One
  \<open>RunOnce\<close> takes the oldest due capture, counts the attempt, processes it and records the
  outcome. The feed importer, the source store and the process hook are parameters that act on
  the whole world, the queue included, so that whatever other clients do while a capture is being
  processed is covered. Durations measured only for the event log are left out of the events.
\<close>

section \<open>Errors\<close>

datatype queueOp = OpList | OpAttempt | OpProcessed | OpFailed

datatype workerError =
    Processing string
  | Foreign
  | StoreError queueError
  | DatabaseError queueOp
  | Joined workerError workerError

text \<open>\<open>errors.As(err, *processingError)\<close>: the first one of the error tree.\<close>

fun as_processing :: "workerError \<Rightarrow> string option" where
  "as_processing (Processing k) = Some k"
| "as_processing (Joined a b) = (case as_processing a of Some k \<Rightarrow> Some k | None \<Rightarrow> as_processing b)"
| "as_processing _ = None"

definition failureKind :: "workerError \<Rightarrow> string" where
  "failureKind err = (case as_processing err of
       Some k \<Rightarrow> if k \<noteq> [] then k else ''worker_processing''
     | None \<Rightarrow> ''worker_processing'')"

text \<open>\<open>errors.Join\<close> of a non-nil error and one that may be nil.\<close>

definition errors_Join :: "workerError \<Rightarrow> workerError option \<Rightarrow> workerError" where
  "errors_Join a b = (case b of None \<Rightarrow> a | Some e \<Rightarrow> Joined a e)"

section \<open>Retry delay\<close>

definition maxRetryDelay :: duration where "maxRetryDelay = 15 * minute"

fun retry_loop :: "nat \<Rightarrow> duration \<Rightarrow> duration" where
  "retry_loop 0 delay = delay"
| "retry_loop (Suc n) delay = (if delay \<ge> maxRetryDelay div 2 then maxRetryDelay else retry_loop n (delay * 2))"

definition linkCaptureRetryDelay :: "int \<Rightarrow> duration" where
  "linkCaptureRetryDelay attempt = (if attempt \<le> 1 then second else retry_loop (nat (attempt - 1)) second)"

definition boundedQueueWait :: "gotime \<Rightarrow> gotime \<Rightarrow> duration" where
  "boundedQueueWait now enqueued =
     (if t_isZero enqueued \<or> \<not> t_after now enqueued then 0 else t_sub now enqueued)"

section \<open>The worker\<close>

record 'w world =
  queue :: captureTable
  others :: 'w

record discovered =
  feed_type :: string
  feed_url :: string

record queueEvent =
  CaptureID :: int
  Attempt :: int
  QueueWait :: duration
  Outcome :: string
  ErrorKind :: string

record 'w worker =
  process_hook :: "(linkCapture \<Rightarrow> 'w world \<Rightarrow> 'w world \<times> workerError option) option"
  IsLikelyFeedURL :: "string \<Rightarrow> bool"
  DiscoverURL :: "string \<Rightarrow> 'w world \<Rightarrow> 'w world \<times> discovered list \<times> bool"
  AddFeed :: "string \<Rightarrow> 'w world \<Rightarrow> 'w world \<times> (workerError + int)"
  UpsertSource :: "sourceCandidate \<Rightarrow> 'w world \<Rightarrow> 'w world \<times> workerError option"
  now_at :: "nat \<Rightarrow> gotime"
  wall_clock :: gotime
  db_fails :: "queueOp \<Rightarrow> bool"
  between :: "'w world \<Rightarrow> 'w world"

definition fallbackCapture :: "'w worker \<Rightarrow> linkCapture \<Rightarrow> 'w world \<Rightarrow> 'w world \<times> workerError option" where
  "fallbackCapture w c s =
     (if trimSpace (NormalizedURL (Candidate c)) = [] then (s, Some (Processing ''invalid_capture''))
      else case UpsertSource w (Candidate c) s of
        (s', Some err) \<Rightarrow> (s', Some (Processing ''source_upsert''))
      | (s', None) \<Rightarrow> (s', None))"

fun add_feeds :: "'w worker \<Rightarrow> string list \<Rightarrow> 'w world \<Rightarrow> 'w world \<times> workerError option" where
  "add_feeds w [] s = (s, None)"
| "add_feeds w (u # us) s = (case AddFeed w u s of
       (s', Inl err) \<Rightarrow> (s', Some (Processing ''feed_import''))
     | (s', Inr errs) \<Rightarrow> if errs > 0 then (s', Some (Processing ''feed_import'')) else add_feeds w us s')"

definition feed_urls :: "'w worker \<Rightarrow> string \<Rightarrow> 'w world \<Rightarrow> 'w world \<times> string list" where
  "feed_urls w rawURL s =
     (if IsLikelyFeedURL w rawURL then (s, [rawURL])
      else case DiscoverURL w rawURL s of (s', ds, ok) \<Rightarrow>
        (s', (case ds of [d] \<Rightarrow> if ok \<and> feed_type d = ''feed'' then [feed_url d] else []
              | _ \<Rightarrow> [])))"

definition processCapture :: "'w worker \<Rightarrow> linkCapture \<Rightarrow> 'w world \<Rightarrow> 'w world \<times> workerError option" where
  "processCapture w c s =
     (case process_hook w of Some p \<Rightarrow> p c s
      | None \<Rightarrow>
        let rawURL = CanonicalURL (Candidate c);
            rawURL = (if rawURL = [] then NormalizedURL (Candidate c) else rawURL)
        in if rawURL = [] then (s, Some (Processing ''invalid_capture''))
           else case feed_urls w rawURL s of (s1, us) \<Rightarrow>
             (case add_feeds w us s1 of
                (s2, Some err) \<Rightarrow> (s2, Some err)
              | (s2, None) \<Rightarrow>
                  if us = [] then
                    (case UpsertSource w (Candidate c) s2 of
                       (s3, Some err) \<Rightarrow> (s3, Some (Processing ''source_upsert''))
                     | (s3, None) \<Rightarrow> (s3, None))
                  else (s2, None)))"

text \<open>A queue operation through the worker's database handle: it may fail before it runs.\<close>

definition queue_op ::
    "'w worker \<Rightarrow> queueOp \<Rightarrow> (captureTable \<Rightarrow> captureTable \<times> queueError option)
      \<Rightarrow> 'w world \<Rightarrow> 'w world \<times> workerError option" where
  "queue_op w op f s =
     (if db_fails w op then (s, Some (DatabaseError op))
      else case f (queue s) of (q, e) \<Rightarrow> (s\<lparr>queue := q\<rparr>, map_option StoreError e))"

definition mark_processed :: "'w worker \<Rightarrow> int \<Rightarrow> gotime \<Rightarrow> 'w world \<Rightarrow> 'w world \<times> workerError option" where
  "mark_processed w i now s = queue_op w OpProcessed (MarkLinkCaptureProcessed (wall_clock w) i now) s"

record 'w runResult =
  after :: "'w world"
  worked :: bool
  run_error :: "workerError option"
  events :: "queueEvent list"

text \<open>The success tail: mark processed, one event.\<close>

definition finish_processed :: "'w worker \<Rightarrow> int \<Rightarrow> queueEvent \<Rightarrow> string \<Rightarrow> 'w world \<Rightarrow> 'w runResult" where
  "finish_processed w i ev outcome s =
     (case mark_processed w i (t_utc (now_at w 1)) s of
        (s', Some err) \<Rightarrow> \<lparr>after = s', worked = True, run_error = Some err,
           events = [ev\<lparr>Outcome := ''mark_processed_error'', ErrorKind := ''mark_processed''\<rparr>]\<rparr>
      | (s', None) \<Rightarrow> \<lparr>after = s', worked = True, run_error = None, events = [ev\<lparr>Outcome := outcome\<rparr>]\<rparr>)"

text \<open>The failure tail: mark failed with the next attempt, one event.\<close>

definition finish_failed ::
    "'w worker \<Rightarrow> linkCapture \<Rightarrow> queueEvent \<Rightarrow> workerError \<Rightarrow> 'w world \<Rightarrow> 'w runResult" where
  "finish_failed w c ev processErr s =
     (let failedAt = t_utc (now_at w 1);
          nextAttempt = t_add failedAt (linkCaptureRetryDelay (AttemptCount c))
      in case queue_op w OpFailed
             (MarkLinkCaptureFailed (wall_clock w) (ID c) failedAt nextAttempt (ErrorKind ev)) s of
        (s', markErr) \<Rightarrow> \<lparr>after = s', worked = True,
           run_error = Some (errors_Join processErr markErr), events = [ev]\<rparr>)"

definition handle_failure ::
    "'w worker \<Rightarrow> linkCapture \<Rightarrow> queueEvent \<Rightarrow> workerError \<Rightarrow> 'w world \<Rightarrow> 'w runResult" where
  "handle_failure w c ev processErr s =
     (let ev = ev\<lparr>Outcome := ''retry'', ErrorKind := failureKind processErr\<rparr> in
      if AttemptCount c \<ge> MaxLinkCaptureAttempts then
        (case fallbackCapture w c s of
           (s', None) \<Rightarrow> finish_processed w (ID c) ev ''processed_fallback'' s'
         | (s', Some fallbackErr) \<Rightarrow>
             finish_failed w c (ev\<lparr>ErrorKind := failureKind fallbackErr, Outcome := ''dead_letter''\<rparr>)
               (Joined processErr fallbackErr) s')
      else finish_failed w c ev processErr s)"

definition RunOnce :: "'w worker \<Rightarrow> 'w world \<Rightarrow> 'w runResult" where
  "RunOnce w s =
     (let now = t_utc (now_at w 0) in
      if db_fails w OpList
      then \<lparr>after = s, worked = False, run_error = Some (DatabaseError OpList), events = []\<rparr>
      else case ListPendingLinkCaptures (wall_clock w) now 1 (queue s) of
        [] \<Rightarrow> \<lparr>after = s, worked = False, run_error = None, events = []\<rparr>
      | capture # _ \<Rightarrow>
          (case queue_op w OpAttempt (MarkLinkCaptureAttempt (wall_clock w) (ID capture) now) (between w s) of
             (s1, Some err) \<Rightarrow> \<lparr>after = s1, worked = True, run_error = Some err, events = []\<rparr>
           | (s1, None) \<Rightarrow>
               let capture = capture\<lparr>AttemptCount := AttemptCount capture + 1\<rparr>;
                   event = \<lparr>CaptureID = ID capture, Attempt = AttemptCount capture,
                            QueueWait = boundedQueueWait now (EnqueuedAt capture),
                            Outcome = ''started'', ErrorKind = []\<rparr>
               in case processCapture w capture s1 of
                    (s2, Some processErr) \<Rightarrow> handle_failure w capture event processErr s2
                  | (s2, None) \<Rightarrow> finish_processed w (ID capture) event ''processed'' s2))"

text \<open>The polling loop waits a short delay after useful work, else the poll interval.\<close>

definition next_delay :: "duration \<Rightarrow> 'w runResult \<Rightarrow> duration" where
  "next_delay pollInterval r = (if worked r \<and> run_error r = None then 10 * millisecond else pollInterval)"

section \<open>Start and shutdown\<close>

record lifecycle =
  started :: bool
  cancelled :: bool
  stopped :: bool

datatype shutdownOutcome = Stopped | WaitingForRun

definition Start :: "lifecycle \<Rightarrow> lifecycle" where
  "Start l = (if started l then l else l\<lparr>started := True, cancelled := False, stopped := False\<rparr>)"

definition Shutdown :: "lifecycle \<Rightarrow> lifecycle \<times> shutdownOutcome" where
  "Shutdown l = (if \<not> started l then (l, Stopped)
     else (l\<lparr>cancelled := True\<rparr>, if stopped l then Stopped else WaitingForRun))"

text \<open>The background goroutine leaves its loop once it is cancelled.\<close>

definition run_exits :: "lifecycle \<Rightarrow> lifecycle" where
  "run_exits l = (if started l \<and> cancelled l then l\<lparr>stopped := True\<rparr> else l)"


section \<open>The contract of the queue\<close>

text \<open>What the worker relies on: on a pending capture each transition takes effect on that capture
  alone and moves the queue's total of remaining work by the capture's share of it.\<close>

fun remaining :: "captureState \<Rightarrow> nat" where
  "remaining (Pending n x) = nat (max (MaxLinkCaptureAttempts - n) 1)"
| "remaining _ = 0"

locale capture_queue =
  fixes ok :: "'q \<Rightarrow> bool"
    and state :: "'q \<Rightarrow> int \<Rightarrow> captureState option"
    and work :: "'q \<Rightarrow> nat"
    and attempt :: "int \<Rightarrow> gotime \<Rightarrow> 'q \<Rightarrow> 'q \<times> queueError option"
    and processed :: "int \<Rightarrow> gotime \<Rightarrow> 'q \<Rightarrow> 'q \<times> queueError option"
    and failed :: "int \<Rightarrow> gotime \<Rightarrow> gotime \<Rightarrow> string \<Rightarrow> 'q \<Rightarrow> 'q \<times> queueError option"
    and due_text :: "gotime \<Rightarrow> string"
  assumes attempt_law: "ok q \<Longrightarrow> state q i = Some (Pending n x) \<Longrightarrow>
      \<exists>q'. attempt i now q = (q', None) \<and> ok q' \<and> state q' = (state q)(i \<mapsto> Pending (n + 1) x)
        \<and> work q' + remaining (Pending n x) = work q + remaining (Pending (n + 1) x)"
    and processed_law: "ok q \<Longrightarrow> state q i = Some (Pending n x) \<Longrightarrow>
      \<exists>q'. processed i now q = (q', None) \<and> ok q' \<and> state q' = (state q)(i \<mapsto> Processed)
        \<and> work q' + remaining (Pending n x) = work q"
    and failed_law: "ok q \<Longrightarrow> state q i = Some (Pending n x) \<Longrightarrow> \<not> t_isZero nextAttempt \<Longrightarrow>
      \<exists>q'. failed i now nextAttempt kind q = (q', None) \<and> ok q'
        \<and> state q' = (state q)(i \<mapsto> failed_state (due_text nextAttempt) n x)
        \<and> work q' + remaining (Pending n x) = work q + remaining (failed_state (due_text nextAttempt) n x)"
begin

lemma remaining_pending: "1 \<le> remaining (Pending n x)"
  by simp

text \<open>A counted attempt followed by either outcome uses up some of the remaining work.\<close>

lemma attempt_processed:
  assumes "ok q" "state q i = Some (Pending n x)"
  shows "\<exists>q1 q2. attempt i now q = (q1, None) \<and> state q1 = (state q)(i \<mapsto> Pending (n + 1) x) \<and> ok q1
     \<and> processed i now' q1 = (q2, None) \<and> ok q2 \<and> state q2 = (state q)(i \<mapsto> Processed) \<and> work q2 < work q"
proof -
  from attempt_law [OF assms] obtain q1 where q1: "attempt i now q = (q1, None)" "ok q1"
    "state q1 = (state q)(i \<mapsto> Pending (n + 1) x)"
    "work q1 + remaining (Pending n x) = work q + remaining (Pending (n + 1) x)" by blast
  then have "state q1 i = Some (Pending (n + 1) x)" by simp
  from processed_law [OF q1(2) this] obtain q2 where q2: "processed i now' q1 = (q2, None)" "ok q2"
    "state q2 = (state q1)(i \<mapsto> Processed)" "work q2 + remaining (Pending (n + 1) x) = work q1" by blast
  with q1 remaining_pending [of n x] show ?thesis by (intro exI [of _ q1] exI [of _ q2]) auto
qed

lemma attempt_failed:
  assumes "ok q" "state q i = Some (Pending n x)" "\<not> t_isZero nextAttempt"
  shows "\<exists>q1 q2. attempt i now q = (q1, None) \<and> state q1 = (state q)(i \<mapsto> Pending (n + 1) x) \<and> ok q1
     \<and> failed i now' nextAttempt kind q1 = (q2, None) \<and> ok q2
     \<and> state q2 = (state q)(i \<mapsto> failed_state (due_text nextAttempt) (n + 1) x) \<and> work q2 < work q"
proof -
  from attempt_law [OF assms(1,2)] obtain q1 where q1: "attempt i now q = (q1, None)" "ok q1"
    "state q1 = (state q)(i \<mapsto> Pending (n + 1) x)"
    "work q1 + remaining (Pending n x) = work q + remaining (Pending (n + 1) x)" by blast
  then have "state q1 i = Some (Pending (n + 1) x)" by simp
  from failed_law [OF q1(2) this assms(3)] obtain q2 where q2: "failed i now' nextAttempt kind q1 = (q2, None)" "ok q2"
    "state q2 = (state q1)(i \<mapsto> failed_state (due_text nextAttempt) (n + 1) x)"
    "work q2 + remaining (Pending (n + 1) x) = work q1 + remaining (failed_state (due_text nextAttempt) (n + 1) x)"
    by blast
  have "remaining (failed_state (due_text nextAttempt) (n + 1) x) < remaining (Pending n x)"
    by (auto simp: failed_state_def MaxLinkCaptureAttempts_def)
  with q1 q2 show ?thesis by (intro exI [of _ q1] exI [of _ q2]) auto
qed

end

definition queue_work :: "captureTable \<Rightarrow> nat" where
  "queue_work t = (\<Sum>r\<leftarrow>rows t. remaining (row_state r))"

lemma sum_keyed_update:
  fixes wt :: "captureRow \<Rightarrow> nat"
  assumes "distinct (map row_id xs)" "find (\<lambda>r. row_id r = i) xs = Some r" "q r"
  shows "(\<Sum>r\<leftarrow>map (\<lambda>r. if row_id r = i \<and> q r then f r else r) xs. wt r) + wt r = (\<Sum>r\<leftarrow>xs. wt r) + wt (f r)"
  using assms
proof (induction xs)
  case (Cons x xs)
  show ?case
  proof (cases "row_id x = i")
    case True
    with Cons.prems have "\<forall>y \<in> set xs. row_id y \<noteq> i" by (force simp: image_iff)
    then have "map (\<lambda>r. if row_id r = i \<and> q r then f r else r) xs = xs" by (intro map_idI) auto
    with Cons.prems True show ?thesis by simp
  qed (use Cons in simp)
qed simp

lemma work_checked_update:
  assumes "queue_inv t" "id_state t i = Some (Pending n x)"
    and f: "\<And>r. row_state r = Pending n x \<Longrightarrow> row_state (f r) = g n x"
  shows "queue_work (fst (checked_update i f t)) + remaining (Pending n x) = queue_work t + remaining (g n x)"
proof -
  from assms(2) obtain r where r: "find (\<lambda>r. row_id r = i) (rows t) = Some r" "row_state r = Pending n x"
    by (auto simp: id_state_def)
  then have op: "open_row r" by (auto simp: open_row_def row_state_def split: if_splits)
  have "affected (open_with_id i) t \<noteq> 0" using affected_id [OF assms(1)] assms(2) by blast
  moreover have "distinct (map row_id (rows t))" using assms(1) by (simp add: queue_inv_def)
  ultimately show ?thesis
    using sum_keyed_update [where xs = "rows t" and i = i and q = open_row and f = f
        and wt = "\<lambda>r. remaining (row_state r)", OF _ r(1) op] r(2) f [OF r(2)]
    by (simp add: checked_update_def queue_work_def update_where_def open_with_id_alt)
qed

interpretation lcq: capture_queue queue_inv id_state queue_work
    "MarkLinkCaptureAttempt wall" "MarkLinkCaptureProcessed wall" "MarkLinkCaptureFailed wall" "\<lambda>t. rfc3339 (t_utc t)"
  for wall
proof unfold_locales
  fix t i n x now
  assume inv: "queue_inv t" and st: "id_state t i = Some (Pending n x)"
  let ?q = "MarkLinkCaptureAttempt wall i now t"
  have "queue_work (fst ?q) + remaining (Pending n x) = queue_work t + remaining (Pending (n + 1) x)"
    unfolding MarkLinkCaptureAttempt_def Let_def
    by (rule work_checked_update [OF inv st]) (auto simp: row_state_def split: if_splits)
  with mark_attempt_step [OF inv, of i wall now] mark_inv(1) [OF inv, of wall i now] st
  show "\<exists>q'. MarkLinkCaptureAttempt wall i now t = (q', None) \<and> queue_inv q'
      \<and> id_state q' = (id_state t)(i \<mapsto> Pending (n + 1) x)
      \<and> queue_work q' + remaining (Pending n x) = queue_work t + remaining (Pending (n + 1) x)"
    by (cases ?q) (simp add: step_state_def)
next
  fix t i n x now
  assume inv: "queue_inv t" and st: "id_state t i = Some (Pending n x)"
  let ?q = "MarkLinkCaptureProcessed wall i now t"
  have "queue_work (fst ?q) + remaining (Pending n x) = queue_work t + remaining Processed"
    unfolding MarkLinkCaptureProcessed_def Let_def
    by (rule work_checked_update [OF inv st]) (auto simp: row_state_def split: if_splits)
  with mark_processed_step [OF inv, of i wall now] mark_inv(2) [OF inv, of wall i now] st
  show "\<exists>q'. MarkLinkCaptureProcessed wall i now t = (q', None) \<and> queue_inv q'
      \<and> id_state q' = (id_state t)(i \<mapsto> Processed) \<and> queue_work q' + remaining (Pending n x) = queue_work t"
    by (cases ?q) (simp add: step_state_def)
next
  fix t i n x now and nextAttempt :: gotime and kind
  assume inv: "queue_inv t" and st: "id_state t i = Some (Pending n x)" and nz: "\<not> t_isZero nextAttempt"
  let ?q = "MarkLinkCaptureFailed wall i now nextAttempt kind t" and ?f = "failed_state (rfc3339 (t_utc nextAttempt)) n x"
  have "queue_work (fst ?q) + remaining (Pending n x) = queue_work t + remaining ?f"
    unfolding MarkLinkCaptureFailed_alt Let_def
    by (rule work_checked_update [OF inv st]) (use nz in \<open>simp add: failed_row_state\<close>)
  with mark_failed_step [OF inv, of i nextAttempt wall now kind] mark_inv(3) [OF inv, of wall i now nextAttempt kind] st nz
  show "\<exists>q'. MarkLinkCaptureFailed wall i now nextAttempt kind t = (q', None) \<and> queue_inv q'
      \<and> id_state q' = (id_state t)(i \<mapsto> ?f) \<and> queue_work q' + remaining (Pending n x) = queue_work t + remaining ?f"
    by (cases ?q) (simp add: step_state_def)
qed


section \<open>One run\<close>

text \<open>No other writer between the list and the attempt, and a running clock; \<open>healthy\<close> asks in addition that no
  database operation fails.\<close>

definition undisturbed :: "'w worker \<Rightarrow> bool" where
  "undisturbed w \<longleftrightarrow> between w = id \<and> 0 < instant (now_at w 1)"

definition faulty :: "'w worker \<Rightarrow> bool" where
  "faulty w \<longleftrightarrow> (\<exists>op. db_fails w op)"

definition healthy :: "'w worker \<Rightarrow> bool" where
  "healthy w \<longleftrightarrow> (\<forall>op. \<not> db_fails w op) \<and> between w = id \<and> 0 < instant (now_at w 1)"

lemma healthy_iff: "healthy w \<longleftrightarrow> undisturbed w \<and> \<not> faulty w"
  by (auto simp: healthy_def undisturbed_def faulty_def)

text \<open>Processing a capture and falling back do not write to the queue themselves.\<close>

definition leaves_queue :: "'w worker \<Rightarrow> bool" where
  "leaves_queue w \<longleftrightarrow> (\<forall>c s. queue (fst (processCapture w c s)) = queue s)
     \<and> (\<forall>c s. queue (fst (fallbackCapture w c s)) = queue s)"

lemma retry_loop_pos: "0 < d \<Longrightarrow> 0 < retry_loop n d"
  by (induction n arbitrary: d) (simp_all add: maxRetryDelay_def minute_def)

lemma linkCaptureRetryDelay_pos: "0 < linkCaptureRetryDelay a"
  by (simp add: linkCaptureRetryDelay_def retry_loop_pos second_def)

lemma listed_pending:
  assumes inv: "queue_inv t" and l: "ListPendingLinkCaptures wall now 1 t = c # cs"
  shows "\<exists>x. id_state t (ID c) = Some (Pending (AttemptCount c) x)"
proof -
  obtain r where r: "r \<in> set (due_rows wall now t)" "c = scan_row r"
  proof -
    have "c \<in> set (ListPendingLinkCaptures wall now 1 t)" using l by simp
    then have "c \<in> scan_row ` set (due_rows wall now t)"
      unfolding ListPendingLinkCaptures_def set_map due_rows_def [symmetric]
      by (auto dest!: in_set_takeD)
    then show ?thesis using that by blast
  qed
  then have "r \<in> set (rows t)" "row_state r = Pending (attempt_count r) (next_attempt_at r)"
    by (auto simp: due_rows_def due_row_def row_state_def)
  then show ?thesis using id_state_row [OF inv, of "row_id r"] r(2) by (auto simp: scan_row_def)
qed

text \<open>The state a run leaves its capture in.\<close>

definition run_state :: "'w worker \<Rightarrow> linkCapture \<Rightarrow> 'w world \<Rightarrow> captureState" where
  "run_state w c s =
     (let s1 = s\<lparr>queue := fst (MarkLinkCaptureAttempt (wall_clock w) (ID c) (t_utc (now_at w 0)) (queue s))\<rparr>;
          c1 = c\<lparr>AttemptCount := AttemptCount c + 1\<rparr>
      in case processCapture w c1 s1 of
           (s2, None) \<Rightarrow> Processed
         | (s2, Some err) \<Rightarrow>
             if AttemptCount c + 1 \<ge> 8
             then (if snd (fallbackCapture w c1 s2) = None then Processed else DeadLettered (AttemptCount c + 1))
             else Pending (AttemptCount c + 1)
                    (rfc3339 (t_utc (t_add (now_at w 1) (linkCaptureRetryDelay (AttemptCount c + 1))))))"

lemma rfc3339_utc: "rfc3339 (t_utc t) = rfc3339 t"
  by (simp add: rfc3339_def)

lemma finish_processed_run:
  assumes "healthy w" and "MarkLinkCaptureProcessed (wall_clock w) i (t_utc (now_at w 1)) (queue s) = (q, None)"
  shows "finish_processed w i ev outcome s = \<lparr>after = s\<lparr>queue := q\<rparr>, worked = True, run_error = None, events = [ev\<lparr>Outcome := outcome\<rparr>]\<rparr>"
  using assms by (simp add: finish_processed_def mark_processed_def queue_op_def healthy_def)

lemma finish_failed_run:
  assumes "healthy w" and "MarkLinkCaptureFailed (wall_clock w) (ID c) (t_utc (now_at w 1))
      (t_add (t_utc (now_at w 1)) (linkCaptureRetryDelay (AttemptCount c))) (ErrorKind ev) (queue s) = (q, None)"
  shows "finish_failed w c ev err s = \<lparr>after = s\<lparr>queue := q\<rparr>, worked = True, run_error = Some err, events = [ev]\<rparr>"
  using assms by (simp add: finish_failed_def Let_def queue_op_def healthy_def errors_Join_def)

lemma run_capture:
  assumes h: "healthy w" and l: "leaves_queue w" and inv: "queue_inv (queue s)"
    and list: "ListPendingLinkCaptures (wall_clock w) (t_utc (now_at w 0)) 1 (queue s) = c # cs"
  shows "worked (RunOnce w s) \<and> queue_inv (queue (after (RunOnce w s)))
    \<and> id_state (queue (after (RunOnce w s))) = (id_state (queue s))(ID c \<mapsto> run_state w c s)
    \<and> queue_work (queue (after (RunOnce w s))) < queue_work (queue s)"
proof -
  let ?wall = "wall_clock w" and ?now = "t_utc (now_at w 0)" and ?at = "t_utc (now_at w 1)"
  obtain x where st: "id_state (queue s) (ID c) = Some (Pending (AttemptCount c) x)"
    using listed_pending [OF inv list] by blast
  let ?next = "t_add ?at (linkCaptureRetryDelay (AttemptCount c + 1))"
  have nz: "\<not> t_isZero ?next"
    using h linkCaptureRetryDelay_pos [of "AttemptCount c + 1"] by (simp add: healthy_def t_isZero_def)
  obtain q1 q2 where p: "MarkLinkCaptureAttempt ?wall (ID c) ?now (queue s) = (q1, None)"
      "MarkLinkCaptureProcessed ?wall (ID c) ?at q1 = (q2, None)"
      "queue_inv q2" "id_state q2 = (id_state (queue s))(ID c \<mapsto> Processed)" "queue_work q2 < queue_work (queue s)"
    using lcq.attempt_processed [OF inv st, of ?wall ?now ?at] by auto
  let ?s1 = "s\<lparr>queue := q1\<rparr>" and ?c1 = "c\<lparr>AttemptCount := AttemptCount c + 1\<rparr>"
  obtain s2 perr where pc: "processCapture w ?c1 ?s1 = (s2, perr)" by (cases "processCapture w ?c1 ?s1")
  have "queue (fst (processCapture w ?c1 ?s1)) = queue ?s1" using l unfolding leaves_queue_def by blast
  then have q2: "queue s2 = q1" using pc by simp
  obtain s3 ferr where fc: "fallbackCapture w ?c1 s2 = (s3, ferr)" by (cases "fallbackCapture w ?c1 s2")
  have "queue (fst (fallbackCapture w ?c1 s2)) = queue s2" using l unfolding leaves_queue_def by blast
  then have q3: "queue s3 = q1" using fc q2 by simp
  have failed: "\<exists>q3. MarkLinkCaptureFailed ?wall (ID c) ?at ?next kind q1 = (q3, None) \<and> queue_inv q3
      \<and> id_state q3 = (id_state (queue s))(ID c \<mapsto> failed_state (rfc3339 (t_utc ?next)) (AttemptCount c + 1) x)
      \<and> queue_work q3 < queue_work (queue s)" for kind
    using lcq.attempt_failed [OF inv st nz, of ?wall ?now ?at kind] p(1) by auto
  have run: "RunOnce w s = (let ev = \<lparr>CaptureID = ID c, Attempt = AttemptCount c + 1,
        QueueWait = boundedQueueWait ?now (EnqueuedAt c), Outcome = ''started'', ErrorKind = []\<rparr>
      in case perr of None \<Rightarrow> finish_processed w (ID c) ev ''processed'' s2
         | Some e \<Rightarrow> handle_failure w ?c1 ev e s2)"
    using h list p(1) pc by (simp add: RunOnce_def healthy_def queue_op_def Let_def split: option.splits)
  have rs: "run_state w c s = (case perr of None \<Rightarrow> Processed | Some e \<Rightarrow>
      if AttemptCount c + 1 \<ge> 8 then (if ferr = None then Processed else DeadLettered (AttemptCount c + 1))
      else Pending (AttemptCount c + 1) (rfc3339 (t_utc ?next)))"
    using pc fc p(1) by (auto simp: run_state_def Let_def rfc3339_def split: option.splits)
  show ?thesis
  proof (cases perr)
    case None
    then show ?thesis using run rs p finish_processed_run [OF h, of "ID c" s2 q2] q2 by simp
  next
    case (Some e)
    show ?thesis
    proof (cases "AttemptCount c + 1 \<ge> 8 \<and> ferr = None")
      case True
      then show ?thesis
        using run rs Some p fc finish_processed_run [OF h, of "ID c" s3 q2] q3
        by (simp add: handle_failure_def MaxLinkCaptureAttempts_def)
    next
      case False
      show ?thesis
      proof (cases "AttemptCount c + 1 \<ge> 8")
        case True
        with False obtain fe where fe: "ferr = Some fe" by auto
        from failed [of "failureKind fe"] obtain q4 where q4:
          "MarkLinkCaptureFailed ?wall (ID c) ?at ?next (failureKind fe) q1 = (q4, None)" "queue_inv q4"
          "id_state q4 = (id_state (queue s))(ID c \<mapsto> failed_state (rfc3339 (t_utc ?next)) (AttemptCount c + 1) x)"
          "queue_work q4 < queue_work (queue s)" by blast
        show ?thesis
          using run rs Some True fe fc q4 q3 finish_failed_run [OF h, of ?c1 _ s3 q4]
          by (simp add: handle_failure_def MaxLinkCaptureAttempts_def failed_state_def)
      next
        case le: False
        from failed [of "failureKind e"] obtain q4 where q4:
          "MarkLinkCaptureFailed ?wall (ID c) ?at ?next (failureKind e) q1 = (q4, None)" "queue_inv q4"
          "id_state q4 = (id_state (queue s))(ID c \<mapsto> failed_state (rfc3339 (t_utc ?next)) (AttemptCount c + 1) x)"
          "queue_work q4 < queue_work (queue s)" by blast
        show ?thesis
          using run rs Some le q4 q2 finish_failed_run [OF h, of ?c1 _ s2 q4]
          by (simp add: handle_failure_def MaxLinkCaptureAttempts_def failed_state_def)
      qed
    qed
  qed
qed


text \<open>C39. One run of a healthy worker refines the abstract queue. With nothing due it reports no
  work and changes nothing. Otherwise it works on the oldest due capture and on no other: success
  of the processing, or of the fallback on the last attempt, leaves it processed; a failure leaves
  it pending with one more attempt and the doubled delay; a failure of both on the eighth attempt
  dead-letters it. A capture becomes processed only if one of the two really succeeded.\<close>

theorem run_once_refines:
  assumes "healthy w" and "leaves_queue w" and "queue_inv (queue s)"
  shows "case ListPendingLinkCaptures (wall_clock w) (t_utc (now_at w 0)) 1 (queue s) of
      [] \<Rightarrow> after (RunOnce w s) = s \<and> \<not> worked (RunOnce w s) \<and> run_error (RunOnce w s) = None
    | c # _ \<Rightarrow> worked (RunOnce w s) \<and> queue_inv (queue (after (RunOnce w s)))
        \<and> id_state (queue (after (RunOnce w s))) = (id_state (queue s))(ID c \<mapsto> run_state w c s)"
  using run_capture [OF assms] assms(1)
  by (auto simp: RunOnce_def healthy_def split: list.split)

text \<open>A worker whose processing and fallback always fail, and one run of it on one capture.\<close>

definition failing_worker :: "unit worker" where
  "failing_worker = \<lparr>process_hook = Some (\<lambda>c s. (s, Some (Processing ''feed_import''))),
     IsLikelyFeedURL = (\<lambda>_. False), DiscoverURL = (\<lambda>_ s. (s, [], False)), AddFeed = (\<lambda>_ s. (s, Inr 0)),
     UpsertSource = (\<lambda>_ s. (s, Some Foreign)), now_at = (\<lambda>_. noon_ex), wall_clock = noon_ex,
     db_fails = (\<lambda>_. False), between = id\<rparr>"

definition one_capture :: "unit world" where
  "one_capture = \<lparr>queue = pending_table, others = ()\<rparr>"

lemma failing_worker_ok: "healthy failing_worker" "leaves_queue failing_worker"
  by (simp_all add: healthy_def leaves_queue_def failing_worker_def processCapture_def fallbackCapture_def
      noon_ex_def)

lemma pending_table_inv: "queue_inv pending_table"
  unfolding pending_table_def by (rule insert_stmt_inv [OF queue_inv_empty]) code_simp

lemma pending_table_lists:
  "ListPendingLinkCaptures noon_ex noon_ex 1 pending_table = [scan_row (hd (rows pending_table))]"
  by (simp add: ListPendingLinkCaptures_def pending_table_def insert_stmt_def Let_def empty_table_def
      due_row_def page_limit_def)

theorem run_once_refines_witness:
  "id_state (queue (after (RunOnce failing_worker one_capture))) 1
     = Some (Pending 1 (rfc3339 (t_add noon_ex second)))"
proof -
  have u: "t_utc noon_ex = noon_ex" by (simp add: noon_ex_def t_utc_def)
  let ?c = "scan_row (hd (rows pending_table))"
  have "ID ?c = 1" "AttemptCount ?c = 0"
    by (simp_all add: scan_row_def pending_table_def insert_stmt_def Let_def empty_table_def)
  moreover have "queue_inv (queue one_capture)" by (simp add: one_capture_def pending_table_inv)
  ultimately have "id_state (queue (after (RunOnce failing_worker one_capture))) 1
      = Some (run_state failing_worker ?c one_capture)"
    using run_once_refines [OF failing_worker_ok, of one_capture] pending_table_lists
    by (simp add: failing_worker_def one_capture_def u)
  then show ?thesis using \<open>AttemptCount ?c = 0\<close>
    by (simp add: run_state_def failing_worker_def processCapture_def Let_def linkCaptureRetryDelay_def rfc3339_utc)
qed

section \<open>Many runs\<close>

text \<open>Successive runs, each with its own clock readings and outcomes, and how many found work.\<close>

fun run_many :: "'w worker list \<Rightarrow> 'w world \<Rightarrow> nat \<times> 'w world" where
  "run_many [] s = (0, s)"
| "run_many (w # ws) s =
     (case run_many ws (after (RunOnce w s)) of (n, s') \<Rightarrow> (if worked (RunOnce w s) then Suc n else n, s'))"

text \<open>A database operation that fails leaves the queue alone, so a run that meets such failures keeps the queue
  sound and never adds to the work left. \<open>no_harm\<close> says so of a run on the queue \<open>q\<close>.\<close>

definition no_harm :: "captureTable \<Rightarrow> 'w runResult \<Rightarrow> bool" where
  "no_harm q r \<longleftrightarrow> queue_inv (queue (after r)) \<and> queue_work (queue (after r)) \<le> queue_work q"

lemma no_harm_trans: "no_harm q' r \<Longrightarrow> queue_work q' \<le> queue_work q \<Longrightarrow> no_harm q r"
  by (simp add: no_harm_def)

lemma finish_processed_no_harm:
  assumes "queue_inv (queue s)" "id_state (queue s) i = Some (Pending n x)"
  shows "no_harm (queue s) (finish_processed w i ev outcome s)"
proof -
  obtain q where q: "MarkLinkCaptureProcessed (wall_clock w) i (t_utc (now_at w 1)) (queue s) = (q, None)" "queue_inv q"
      "queue_work q + remaining (Pending n x) = queue_work (queue s)"
    using lcq.processed_law [OF assms] by blast
  then show ?thesis using assms(1)
    by (simp add: no_harm_def finish_processed_def mark_processed_def queue_op_def)
qed

lemma remaining_failed: "remaining (failed_state text n x) \<le> remaining (Pending n x)"
  by (simp add: failed_state_def)

lemma finish_failed_no_harm:
  assumes "queue_inv (queue s)" "id_state (queue s) (ID c) = Some (Pending n x)" "undisturbed w"
  shows "no_harm (queue s) (finish_failed w c ev err s)"
proof -
  let ?next = "t_add (t_utc (now_at w 1)) (linkCaptureRetryDelay (AttemptCount c))"
  have nz: "\<not> t_isZero ?next"
    using assms(3) linkCaptureRetryDelay_pos [of "AttemptCount c"] by (simp add: undisturbed_def t_isZero_def)
  obtain q where q: "MarkLinkCaptureFailed (wall_clock w) (ID c) (t_utc (now_at w 1)) ?next (ErrorKind ev) (queue s) = (q, None)"
      "queue_inv q" "queue_work q + remaining (Pending n x) = queue_work (queue s) + remaining (failed_state (rfc3339 (t_utc ?next)) n x)"
    using lcq.failed_law [OF assms(1,2) nz] by blast
  moreover have "queue_work q \<le> queue_work (queue s)"
    using q(3) remaining_failed [of "rfc3339 (t_utc ?next)" n x] by linarith
  ultimately show ?thesis using assms(1) by (simp add: no_harm_def finish_failed_def Let_def queue_op_def)
qed

lemma handle_failure_no_harm:
  assumes "queue_inv (queue s)" "id_state (queue s) (ID c) = Some (Pending n x)" "undisturbed w" "leaves_queue w"
  shows "no_harm (queue s) (handle_failure w c ev err s)"
proof -
  obtain s' e where f: "fallbackCapture w c s = (s', e)" by fastforce
  have "queue (fst (fallbackCapture w c s)) = queue s" using assms(4) unfolding leaves_queue_def by blast
  then have "queue s' = queue s" using f by simp
  then show ?thesis
    using f finish_processed_no_harm [of s' "ID c" n x w] finish_failed_no_harm [of s' c n x w]
      finish_failed_no_harm [OF assms(1-3)] assms(1-3)
    by (simp add: handle_failure_def Let_def split: option.split)
qed

lemma run_no_harm:
  assumes u: "undisturbed w" and l: "leaves_queue w" and inv: "queue_inv (queue s)"
  shows "no_harm (queue s) (RunOnce w s)"
proof (cases "db_fails w OpList \<or> db_fails w OpAttempt \<or> ListPendingLinkCaptures (wall_clock w) (t_utc (now_at w 0)) 1 (queue s) = []")
  case True
  then show ?thesis using inv u
    by (auto simp: no_harm_def RunOnce_def queue_op_def undisturbed_def Let_def split: list.split)
next
  case False
  then obtain c cs where list: "ListPendingLinkCaptures (wall_clock w) (t_utc (now_at w 0)) 1 (queue s) = c # cs"
    by (auto simp: neq_Nil_conv)
  obtain x where st: "id_state (queue s) (ID c) = Some (Pending (AttemptCount c) x)"
    using listed_pending [OF inv list] by blast
  let ?n = "AttemptCount c + 1" and ?c = "c\<lparr>AttemptCount := AttemptCount c + 1\<rparr>"
  obtain q where q: "MarkLinkCaptureAttempt (wall_clock w) (ID c) (t_utc (now_at w 0)) (queue s) = (q, None)" "queue_inv q"
      "id_state q = (id_state (queue s))(ID c \<mapsto> Pending ?n x)"
      "queue_work q + remaining (Pending (AttemptCount c) x) = queue_work (queue s) + remaining (Pending ?n x)"
    using lcq.attempt_law [OF inv st] by blast
  have less: "queue_work q \<le> queue_work (queue s)" using q(4) by simp
  obtain s2 e where p: "processCapture w ?c (s\<lparr>queue := q\<rparr>) = (s2, e)" by fastforce
  have "queue (fst (processCapture w ?c (s\<lparr>queue := q\<rparr>))) = q" using l unfolding leaves_queue_def by simp
  then have s2: "queue s2 = q" using p by simp
  have pending: "id_state (queue s2) (ID ?c) = Some (Pending ?n x)" "queue_inv (queue s2)" using s2 q by simp_all
  have "no_harm (queue s2) (RunOnce w s)"
    using False list u q(1) p finish_processed_no_harm [OF pending(2,1), of w]
      handle_failure_no_harm [OF pending(2,1) u l]
    by (auto simp: RunOnce_def queue_op_def undisturbed_def Let_def split: option.split)
  then show ?thesis using less s2 by (auto intro: no_harm_trans)
qed

lemma run_many_work:
  "\<forall>w \<in> set ws. undisturbed w \<and> leaves_queue w \<Longrightarrow> queue_inv (queue s)
     \<Longrightarrow> fst (run_many ws s) + queue_work (queue (snd (run_many ws s))) \<le> queue_work (queue s) + length (filter faulty ws)"
proof (induction ws arbitrary: s)
  case (Cons w ws)
  have hl: "undisturbed w" "leaves_queue w" using Cons.prems(1) by simp_all
  let ?s = "after (RunOnce w s)"
  have harm: "queue_inv (queue ?s)" "queue_work (queue ?s) \<le> queue_work (queue s)"
    using run_no_harm [OF hl Cons.prems(2)] by (simp_all add: no_harm_def)
  have step: "(if worked (RunOnce w s) then 1 else 0) + queue_work (queue ?s) \<le> queue_work (queue s) + (if faulty w then 1 else 0)"
  proof (cases "faulty w")
    case False
    then have h: "healthy w" using hl(1) by (simp add: healthy_iff)
    show ?thesis
    proof (cases "ListPendingLinkCaptures (wall_clock w) (t_utc (now_at w 0)) 1 (queue s)")
      case Nil
      then show ?thesis using h by (simp add: RunOnce_def healthy_def)
    next
      case (Cons c cs)
      from run_capture [OF h hl(2) Cons.prems(2) this] show ?thesis by simp
    qed
  qed (use harm in simp)
  have "fst (run_many ws ?s) + queue_work (queue (snd (run_many ws ?s))) \<le> queue_work (queue ?s) + length (filter faulty ws)"
    by (rule Cons.IH) (use Cons.prems(1) harm in simp_all)
  with step show ?case by (auto split: prod.splits if_splits)
qed simp

lemma queue_work_bound: "queue_inv t \<Longrightarrow> queue_work t \<le> 8 * length (filter open_row (rows t))"
proof -
  have "remaining (row_state r) \<le> (if open_row r then 8 else 0)" if "row_ok r" for r
    using that by (auto simp: row_state_def open_row_def row_ok_def MaxLinkCaptureAttempts_def)
  then have "\<forall>r \<in> set xs. row_ok r \<Longrightarrow>
      (\<Sum>r\<leftarrow>xs. remaining (row_state r)) \<le> 8 * length (filter open_row xs)" for xs
    by (induction xs) force+
  then show "queue_inv t \<Longrightarrow> queue_work t \<le> 8 * length (filter open_row (rows t))"
    by (simp add: queue_work_def queue_inv_def)
qed

text \<open>C40. The retry budget bounds the work: however often the worker runs, and however each processing, each fallback and
  each database operation ends, the runs that find work are at most eight per capture that was pending at the start, plus
  one for each run in which a database operation failed (a list, a counted attempt or a final mark). This is as long as
  nobody else writes to the queue and the clock has left its zero. So with finitely many database failures no capture is
  retried for ever.\<close>

theorem worker_drains_queue:
  assumes "list_all undisturbed ws" and "list_all leaves_queue ws" and "queue_inv (queue s)"
  shows "fst (run_many ws s) \<le> 8 * length (filter open_row (rows (queue s))) + length (filter faulty ws)"
proof -
  have "\<forall>w \<in> set ws. undisturbed w \<and> leaves_queue w" using assms(1,2) by (simp add: list_all_iff)
  from run_many_work [OF this assms(3)] queue_work_bound [OF assms(3)] show ?thesis by simp
qed

text \<open>Three runs whose last write to the queue fails, then twenty without a failure.\<close>

theorem worker_drains_queue_witness:
  "fst (run_many (replicate 3 (failing_worker\<lparr>db_fails := \<lambda>op. op = OpFailed\<rparr>) @ replicate 20 failing_worker) one_capture) \<le> 11"
proof -
  let ?w = "failing_worker\<lparr>db_fails := \<lambda>op. op = OpFailed\<rparr>"
  have "length (filter open_row (rows (queue one_capture))) = 1"
    by (simp add: one_capture_def pending_table_def insert_stmt_def Let_def empty_table_def open_row_def)
  moreover have "undisturbed ?w" "undisturbed failing_worker"
    using failing_worker_ok(1) by (simp_all add: healthy_iff undisturbed_def)
  moreover have "leaves_queue ?w"
    by (simp add: leaves_queue_def failing_worker_def processCapture_def fallbackCapture_def)
  moreover have "faulty ?w" "\<not> faulty failing_worker"
    using failing_worker_ok(1) by (auto simp: healthy_iff faulty_def)
  ultimately show ?thesis
    using worker_drains_queue [of "replicate 3 ?w @ replicate 20 failing_worker" one_capture]
    by (simp add: list_all_iff failing_worker_ok one_capture_def pending_table_inv filter_replicate)
qed

section \<open>Delays\<close>

lemma retry_loop_exact: "retry_loop n (second * 2 ^ k) = min maxRetryDelay (second * 2 ^ (n + k))" if "second * 2 ^ k \<le> maxRetryDelay"
  using that
proof (induction n arbitrary: k)
  case (Suc n)
  have half: "maxRetryDelay div 2 = 450 * second" and max: "maxRetryDelay = 900 * second"
    by (simp_all add: maxRetryDelay_def minute_def second_def)
  show ?case
  proof (cases "maxRetryDelay div 2 \<le> second * 2 ^ k")
    case True
    have "second * 2 ^ k * 2 \<le> second * 2 ^ (Suc n + k)"
      by (simp add: second_def power_add)
    with True show ?thesis by (simp add: half) (simp add: max)
  next
    case False
    then have "second * 2 ^ Suc k \<le> maxRetryDelay" unfolding half max by simp
    from Suc.IH [OF this] False show ?thesis by (simp add: mult.assoc mult.commute [of "2 ^ k"])
  qed
qed simp

text \<open>The delay before the attempt after attempt \<open>n\<close> is one second doubled \<open>n - 1\<close>
  times, capped at exactly fifteen minutes.\<close>

theorem retry_delay_doubles_to_cap:
  "linkCaptureRetryDelay attempt = min (900 * second) (second * 2 ^ nat (attempt - 1))"
proof (cases "attempt \<le> 1")
  case True
  then show ?thesis by (simp add: linkCaptureRetryDelay_def second_def)
next
  case False
  then show ?thesis
    using retry_loop_exact [of 0 "nat (attempt - 1)"]
    by (simp add: linkCaptureRetryDelay_def maxRetryDelay_def minute_def second_def)
qed

end
