(* ===== verification/RuntimeCache.thy ===== *)
theory RuntimeCache
  imports Prelude
begin

text \<open>
  The process-local cache of semantic roots (\<open>internal/semanticruntime/cache.go\<close>): a manager
  loads a root once for all its concurrent callers, hands out leases on it, retires it when its
  scope moves to another root, and closes its native resources when nothing uses them any more.

  Go pointers to entries, flights and leases are numbers into heaps. A section that runs under the
  manager's mutex is one function on the state. Between two such sections the code runs callbacks
  (retain, load, release, close) on goroutines; how far a goroutine has come is kept in the flight
  (\<open>f_pc\<close>) or, for \<open>closeEntry\<close>, in the entry (\<open>e_closer\<close>). \<open>closes\<close>
  counts the calls of a root's native close callback and \<open>loaded\<close> says whether the loader
  returned one.
\<close>

section \<open>State\<close>

record rootKey =
  CacheDir :: string
  DatabaseID :: string
  ProfileID :: string
  GenerationID :: string
  SnapshotRevision :: int
  PurgeEpoch :: int
  BackendVersion :: string
  DescriptorSHA256 :: string

type_synonym rootScope = "string \<times> string \<times> string"

definition scope :: "rootKey \<Rightarrow> rootScope" where
  "scope k = (CacheDir k, DatabaseID k, ProfileID k)"

datatype cacheError =
    ManagerClosed | LeaseClosed | RootRetired | RetainLoadGuardRequired | LoaderIsNil
  | RetainFailed | LoadFailed | CloseFailed | ReleaseFailed

text \<open>Where the goroutine of a flight is, and where the goroutine that closes an entry is.\<close>

datatype flightPc =
    Retaining
  | Checking
  | Loading
  | Discarding "cacheError list"
  | ReleasingOnly "cacheError list"
  | Releasing
  | Closing "cacheError list"
  | Forgetting "cacheError list"
  | Finishing "cacheError list"
  | Done

datatype closerPc = NoCloser | CloserStarted | CloserClosed | CloserDone

record loadFlight =
  f_key :: rootKey
  f_sequence :: nat
  f_entry :: "nat option"
  f_err :: "cacheError list"
  f_pc :: flightPc

record cacheEntry =
  e_key :: rootKey
  e_flight :: nat
  e_refs :: int
  e_ops :: int
  e_pending :: bool
  e_retired :: bool
  e_closing :: bool
  e_closer :: closerPc

record lease =
  l_entry :: nat
  l_closed :: bool
  l_operations :: int
  l_released :: bool

text \<open>\<open>sequence\<close> is a \<open>uint64\<close> in the code; it counts the turns of the scopes, so it does not wrap in any run that could be
  carried out.\<close>

record manager =
  entries :: "(rootKey, nat) gomap"
  allEntries :: "nat list"
  flights :: "(rootKey, nat) gomap"
  scopes :: "(rootScope, rootKey \<times> nat) gomap"
  sequence :: nat
  loads :: int
  shutdown :: bool
  drainedDone :: bool
  closeErrors :: "nat list"
  eh :: "nat \<Rightarrow> cacheEntry"
  fh :: "nat \<Rightarrow> loadFlight"
  lh :: "nat \<Rightarrow> lease"
  next_e :: nat
  next_f :: nat
  next_l :: nat
  closes :: "nat \<Rightarrow> nat"
  loaded :: "nat \<Rightarrow> bool"

definition key0 :: rootKey where
  "key0 = \<lparr>CacheDir = [], DatabaseID = [], ProfileID = [], GenerationID = [], SnapshotRevision = 0,
     PurgeEpoch = 0, BackendVersion = [], DescriptorSHA256 = []\<rparr>"

definition New :: manager where
  "New = \<lparr>entries = [], allEntries = [], flights = [], scopes = [], sequence = 0, loads = 0,
     shutdown = False, drainedDone = False, closeErrors = [],
     eh = (\<lambda>_. \<lparr>e_key = key0, e_flight = 0, e_refs = 0, e_ops = 0, e_pending = False, e_retired = False,
                e_closing = False, e_closer = NoCloser\<rparr>),
     fh = (\<lambda>_. \<lparr>f_key = key0, f_sequence = 0, f_entry = None, f_err = [], f_pc = Done\<rparr>),
     lh = (\<lambda>_. \<lparr>l_entry = 0, l_closed = True, l_operations = 0, l_released = True\<rparr>),
     next_e = 0, next_f = 0, next_l = 0, closes = (\<lambda>_. 0), loaded = (\<lambda>_. False)\<rparr>"

section \<open>Updates of one object\<close>

definition upd_e :: "nat \<Rightarrow> (cacheEntry \<Rightarrow> cacheEntry) \<Rightarrow> manager \<Rightarrow> manager" where
  "upd_e e g s = s\<lparr>eh := (eh s)(e := g (eh s e))\<rparr>"

definition upd_f :: "nat \<Rightarrow> (loadFlight \<Rightarrow> loadFlight) \<Rightarrow> manager \<Rightarrow> manager" where
  "upd_f f g s = s\<lparr>fh := (fh s)(f := g (fh s f))\<rparr>"

definition upd_l :: "nat \<Rightarrow> (lease \<Rightarrow> lease) \<Rightarrow> manager \<Rightarrow> manager" where
  "upd_l l g s = s\<lparr>lh := (lh s)(l := g (lh s l))\<rparr>"

definition set_pc :: "nat \<Rightarrow> flightPc \<Rightarrow> manager \<Rightarrow> manager" where
  "set_pc f p s = upd_f f (\<lambda>x. x\<lparr>f_pc := p\<rparr>) s"

definition count_close :: "nat \<Rightarrow> bool \<Rightarrow> manager \<Rightarrow> manager" where
  "count_close f failed s = s\<lparr>closes := (closes s)(f := Suc (closes s f)),
     closeErrors := (if failed then closeErrors s @ [f] else closeErrors s)\<rparr>"

section \<open>Locked sections\<close>

definition checkDrained :: "manager \<Rightarrow> manager" where
  "checkDrained s =
     (if shutdown s \<and> loads s = 0 \<and> allEntries s = [] \<and> \<not> drainedDone s
      then s\<lparr>drainedDone := True\<rparr> else s)"

definition scheduleEntryClose :: "nat \<Rightarrow> manager \<Rightarrow> manager" where
  "scheduleEntryClose e s =
     (let x = eh s e in
      if e_closing x \<or> e_pending x \<or> \<not> e_retired x \<or> e_refs x \<noteq> 0 \<or> e_ops x \<noteq> 0 then s
      else let s1 = upd_e e (\<lambda>x. x\<lparr>e_closing := True, e_closer := CloserStarted\<rparr>) s
           in if gm_get (entries s1) (e_key x) = Some e
              then s1\<lparr>entries := gm_del (e_key x) (entries s1)\<rparr> else s1)"

definition retire_entry :: "rootKey \<times> nat \<Rightarrow> manager \<Rightarrow> manager" where
  "retire_entry ke s =
     scheduleEntryClose (snd ke)
       (upd_e (snd ke) (\<lambda>x. x\<lparr>e_retired := True\<rparr>) (s\<lparr>entries := gm_del (fst ke) (entries s)\<rparr>))"

definition retireOtherEntries :: "rootScope \<Rightarrow> rootKey \<Rightarrow> manager \<Rightarrow> manager" where
  "retireOtherEntries sc current s =
     fold retire_entry (filter (\<lambda>(k, e). k \<noteq> current \<and> scope k = sc) (entries s)) s"

definition newLease :: "nat \<Rightarrow> manager \<Rightarrow> manager \<times> nat" where
  "newLease e s =
     (s\<lparr>lh := (lh s)(next_l s := \<lparr>l_entry = e, l_closed = False, l_operations = 0, l_released = False\<rparr>),
        next_l := Suc (next_l s)\<rparr>, next_l s)"

definition ref_lease :: "nat \<Rightarrow> manager \<Rightarrow> manager \<times> nat" where
  "ref_lease e s = newLease e (upd_e e (\<lambda>x. x\<lparr>e_refs := e_refs x + 1\<rparr>) s)"

datatype acquireOutcome = AcqError cacheError | AcqWait nat | AcqLease nat | AcqLoad nat

text \<open>The current root of the key's scope, moved to the key if it was another.\<close>

definition enter_scope :: "rootKey \<Rightarrow> manager \<Rightarrow> manager \<times> nat" where
  "enter_scope key s =
     (case gm_get (scopes s) (scope key) of
        Some (k, q) \<Rightarrow> if k = key then (s, q)
          else (retireOtherEntries (scope key) key
                  (s\<lparr>sequence := sequence s + 1,
                     scopes := gm_put (scope key) (key, sequence s + 1) (scopes s)\<rparr>), sequence s + 1)
      | None \<Rightarrow> (retireOtherEntries (scope key) key
                  (s\<lparr>sequence := sequence s + 1,
                     scopes := gm_put (scope key) (key, sequence s + 1) (scopes s)\<rparr>), sequence s + 1))"

definition new_flight :: "rootKey \<Rightarrow> nat \<Rightarrow> manager \<Rightarrow> manager" where
  "new_flight key q s =
     s\<lparr>fh := (fh s)(next_f s := \<lparr>f_key = key, f_sequence = q, f_entry = None, f_err = [], f_pc = Retaining\<rparr>),
       next_f := Suc (next_f s), flights := gm_put key (next_f s) (flights s), loads := loads s + 1\<rparr>"

definition ready_entry :: "manager \<Rightarrow> nat \<Rightarrow> bool" where
  "ready_entry s e \<longleftrightarrow> \<not> e_pending (eh s e) \<and> \<not> e_retired (eh s e) \<and> \<not> e_closing (eh s e)"

text \<open>The flight and the ready entry of a key, as \<open>Acquire\<close> looks them up.\<close>

definition current_flight :: "manager \<Rightarrow> rootKey \<Rightarrow> nat \<Rightarrow> nat option" where
  "current_flight s key q = (case gm_get (flights s) key of
       Some f \<Rightarrow> if f_sequence (fh s f) = q then Some f else None
     | None \<Rightarrow> None)"

definition cached_entry :: "manager \<Rightarrow> rootKey \<Rightarrow> nat option" where
  "cached_entry s key = (case gm_get (entries s) key of
       Some e \<Rightarrow> if ready_entry s e then Some e else None
     | None \<Rightarrow> None)"

definition Acquire :: "rootKey \<Rightarrow> bool \<Rightarrow> bool \<Rightarrow> manager \<Rightarrow> manager \<times> acquireOutcome" where
  "Acquire key has_loader has_retain s =
     (if shutdown s then (s, AcqError ManagerClosed)
      else case enter_scope key s of (s1, q) \<Rightarrow>
        (case current_flight s1 key q of
           Some f \<Rightarrow> (s1, AcqWait f)
         | None \<Rightarrow>
            (case cached_entry s1 key of
               Some e \<Rightarrow> (case ref_lease e s1 of (s2, l) \<Rightarrow> (s2, AcqLease l))
             | None \<Rightarrow>
                 if \<not> has_loader then (s1, AcqError LoaderIsNil)
                 else if \<not> has_retain then (s1, AcqError RetainLoadGuardRequired)
                 else (new_flight key q s1, AcqLoad (next_f s1)))))"

text \<open>A caller whose flight is done takes a lease on what the flight published.\<close>

definition acquireFlightEntry :: "nat \<Rightarrow> manager \<Rightarrow> manager \<times> (cacheError list + nat)" where
  "acquireFlightEntry f s =
     (if f_err (fh s f) \<noteq> [] then (s, Inl (f_err (fh s f)))
      else if shutdown s then (s, Inl [ManagerClosed])
      else case f_entry (fh s f) of
        None \<Rightarrow> (s, Inl [RootRetired])
      | Some e \<Rightarrow>
          if e_retired (eh s e) \<or> e_closing (eh s e) \<or> gm_get (entries s) (f_key (fh s f)) \<noteq> Some e
          then (s, Inl [RootRetired])
          else (case ref_lease e s of (s1, l) \<Rightarrow> (s1, Inr l)))"

section \<open>The load goroutine\<close>

text \<open>The result of the retain callback.\<close>

definition retain_done :: "nat \<Rightarrow> bool \<Rightarrow> manager \<Rightarrow> manager" where
  "retain_done f ok s = set_pc f (if ok then Checking else Finishing [RetainFailed]) s"

text \<open>After the guard is retained: load unless shut down or overtaken, in which case the guard is
  released again.\<close>

definition check_flight :: "nat \<Rightarrow> bool \<Rightarrow> manager \<Rightarrow> manager" where
  "check_flight f release_ok s =
     (if shutdown s \<or> gm_get (flights s) (f_key (fh s f)) \<noteq> Some f
      then set_pc f (Finishing ((if shutdown s then [ManagerClosed] else [RootRetired])
             @ (if release_ok then [] else [ReleaseFailed]))) s
      else set_pc f Loading s)"

definition flight_current :: "manager \<Rightarrow> nat \<Rightarrow> bool" where
  "flight_current s f \<longleftrightarrow> gm_get (flights s) (f_key (fh s f)) = Some f
     \<and> gm_get (scopes s) (scope (f_key (fh s f))) = Some (f_key (fh s f), f_sequence (fh s f))"

text \<open>The loader returned: \<open>ok\<close> when it gave a searcher without error, \<open>has_close\<close> when
  it gave a close callback. The root becomes a pending entry, or is left to be discarded.\<close>

definition publish_pending :: "nat \<Rightarrow> manager \<Rightarrow> manager" where
  "publish_pending f s =
     (let e = next_e s in
      set_pc f Releasing (upd_f f (\<lambda>x. x\<lparr>f_entry := Some e\<rparr>)
        (s\<lparr>eh := (eh s)(e := \<lparr>e_key = f_key (fh s f), e_flight = f, e_refs = 0, e_ops = 0,
               e_pending = True, e_retired = False, e_closing = False, e_closer = NoCloser\<rparr>),
           next_e := Suc e, entries := gm_put (f_key (fh s f)) e (entries s), allEntries := e # allEntries s\<rparr>)))"

definition load_done :: "nat \<Rightarrow> bool \<Rightarrow> bool \<Rightarrow> manager \<Rightarrow> manager" where
  "load_done f ok has_close s =
     (let s1 = s\<lparr>loaded := (loaded s)(f := has_close)\<rparr>;
          drop = (\<lambda>errs. set_pc f (if has_close then Discarding errs else ReleasingOnly errs) s1)
      in if \<not> ok \<or> \<not> has_close then drop [LoadFailed]
         else if shutdown s1 then drop [ManagerClosed]
         else if \<not> flight_current s1 f then drop [RootRetired]
         else publish_pending f s1)"

text \<open>The close of a root nobody will see, and the release of the guard when there is no entry.\<close>

definition discard_close :: "nat \<Rightarrow> bool \<Rightarrow> manager \<Rightarrow> manager" where
  "discard_close f failed s =
     (case f_pc (fh s f) of
        Discarding errs \<Rightarrow>
          set_pc f (ReleasingOnly (errs @ (if failed then [CloseFailed] else []))) (count_close f failed s)
      | _ \<Rightarrow> s)"

definition release_only :: "nat \<Rightarrow> bool \<Rightarrow> manager \<Rightarrow> manager" where
  "release_only f ok s =
     (case f_pc (fh s f) of
        ReleasingOnly errs \<Rightarrow> set_pc f (Finishing (errs @ (if ok then [] else [ReleaseFailed]))) s
      | _ \<Rightarrow> s)"

text \<open>The guard of a pending entry is released: the entry becomes ready, or is taken out again.\<close>

definition release_pending :: "nat \<Rightarrow> nat \<Rightarrow> bool \<Rightarrow> manager \<Rightarrow> manager" where
  "release_pending f e ok s =
     (let k = f_key (fh s f);
          ready = (ok \<and> \<not> shutdown s \<and> flight_current s f \<and> gm_get (entries s) k = Some e
                   \<and> \<not> e_retired (eh s e))
      in if ready then set_pc f (Finishing []) (upd_e e (\<lambda>x. x\<lparr>e_pending := False\<rparr>) s)
         else
           let disposition = (if shutdown s then [ManagerClosed]
                  else if \<not> flight_current s f \<or> gm_get (entries s) k \<noteq> Some e then [RootRetired] else []);
               s1 = (if gm_get (entries s) k = Some e then s\<lparr>entries := gm_del k (entries s)\<rparr> else s)
           in set_pc f (Closing (disposition @ (if ok then [] else [ReleaseFailed])))
                (upd_e e (\<lambda>x. x\<lparr>e_pending := False, e_retired := True, e_closing := True\<rparr>) s1))"

definition close_unpublished :: "nat \<Rightarrow> bool \<Rightarrow> manager \<Rightarrow> manager" where
  "close_unpublished f failed s =
     (case f_pc (fh s f) of
        Closing errs \<Rightarrow> set_pc f (Forgetting (errs @ (if failed then [CloseFailed] else []))) (count_close f failed s)
      | _ \<Rightarrow> s)"

definition forget_unpublished :: "nat \<Rightarrow> nat \<Rightarrow> manager \<Rightarrow> manager" where
  "forget_unpublished f e s =
     (case f_pc (fh s f) of
        Forgetting errs \<Rightarrow>
          set_pc f (Finishing errs) (checkDrained (s\<lparr>allEntries := remove1 e (allEntries s)\<rparr>))
      | _ \<Rightarrow> s)"

definition finishFlight :: "nat \<Rightarrow> manager \<Rightarrow> manager" where
  "finishFlight f s =
     (case f_pc (fh s f) of
        Finishing errs \<Rightarrow>
          (let s1 = upd_f f (\<lambda>x. x\<lparr>f_err := errs, f_pc := Done\<rparr>) s;
               s2 = (if gm_get (flights s1) (f_key (fh s f)) = Some f
                     then s1\<lparr>flights := gm_del (f_key (fh s f)) (flights s1)\<rparr> else s1)
           in checkDrained (s2\<lparr>loads := loads s2 - 1\<rparr>))
      | _ \<Rightarrow> s)"

section \<open>Closing entries, leases, shutdown\<close>

text \<open>\<open>closeEntry\<close>: the native close, then the section that forgets the entry.\<close>

definition closer_close :: "nat \<Rightarrow> bool \<Rightarrow> manager \<Rightarrow> manager" where
  "closer_close e failed s =
     upd_e e (\<lambda>x. x\<lparr>e_closer := CloserClosed\<rparr>) (count_close (e_flight (eh s e)) failed s)"

definition closer_forget :: "nat \<Rightarrow> manager \<Rightarrow> manager" where
  "closer_forget e s =
     checkDrained (upd_e e (\<lambda>x. x\<lparr>e_closer := CloserDone\<rparr>) (s\<lparr>allEntries := remove1 e (allEntries s)\<rparr>))"

definition Search_begin :: "nat \<Rightarrow> manager \<Rightarrow> manager \<times> cacheError option" where
  "Search_begin l s =
     (let e = l_entry (lh s l) in
      if l_closed (lh s l) then (s, Some LeaseClosed)
      else if shutdown s then (s, Some ManagerClosed)
      else if e_retired (eh s e) \<or> e_closing (eh s e) then (s, Some RootRetired)
      else (upd_e e (\<lambda>x. x\<lparr>e_ops := e_ops x + 1\<rparr>) (upd_l l (\<lambda>x. x\<lparr>l_operations := l_operations x + 1\<rparr>) s), None))"

definition finishOperation :: "nat \<Rightarrow> manager \<Rightarrow> manager" where
  "finishOperation l s =
     (let e = l_entry (lh s l);
          s1 = upd_e e (\<lambda>x. x\<lparr>e_ops := e_ops x - 1\<rparr>) (upd_l l (\<lambda>x. x\<lparr>l_operations := l_operations x - 1\<rparr>) s);
          s2 = (if l_closed (lh s1 l) \<and> l_operations (lh s1 l) = 0 \<and> \<not> l_released (lh s1 l)
                then upd_e e (\<lambda>x. x\<lparr>e_refs := e_refs x - 1\<rparr>) (upd_l l (\<lambda>x. x\<lparr>l_released := True\<rparr>) s1) else s1)
      in checkDrained (scheduleEntryClose e s2))"

definition releaseEntry :: "nat \<Rightarrow> manager \<Rightarrow> manager" where
  "releaseEntry l s =
     (if l_released (lh s l) then s
      else let e = l_entry (lh s l) in
        checkDrained (scheduleEntryClose e
          (upd_e e (\<lambda>x. x\<lparr>e_refs := e_refs x - 1\<rparr>) (upd_l l (\<lambda>x. x\<lparr>l_released := True\<rparr>) s))))"

definition Lease_Close :: "nat \<Rightarrow> manager \<Rightarrow> manager" where
  "Lease_Close l s =
     (if l_closed (lh s l) then s
      else let s1 = upd_l l (\<lambda>x. x\<lparr>l_closed := True\<rparr>) s in
        if l_operations (lh s1 l) = 0 then releaseEntry l s1 else s1)"

definition Shutdown :: "manager \<Rightarrow> manager" where
  "Shutdown s =
     (if shutdown s then s
      else checkDrained (fold retire_entry (entries s) (s\<lparr>shutdown := True\<rparr>)))"

text \<open>What \<open>Shutdown\<close> waits for, and the errors it then reports.\<close>

definition shutdown_returns :: "manager \<Rightarrow> nat list option" where
  "shutdown_returns s = (if drainedDone s then Some (closeErrors s) else None)"

section \<open>Interleavings\<close>

inductive cache_step :: "manager \<Rightarrow> manager \<Rightarrow> bool" where
  acquire: "Acquire key has_loader has_retain s = (t, r) \<Longrightarrow> cache_step s t"
| acquire_done: "f < next_f s \<Longrightarrow> f_pc (fh s f) = Done \<Longrightarrow> acquireFlightEntry f s = (t, r) \<Longrightarrow> cache_step s t"
| retain: "f < next_f s \<Longrightarrow> f_pc (fh s f) = Retaining \<Longrightarrow> cache_step s (retain_done f ok s)"
| check: "f < next_f s \<Longrightarrow> f_pc (fh s f) = Checking \<Longrightarrow> cache_step s (check_flight f ok s)"
| load: "f < next_f s \<Longrightarrow> f_pc (fh s f) = Loading \<Longrightarrow> cache_step s (load_done f ok has_close s)"
| discard: "f < next_f s \<Longrightarrow> f_pc (fh s f) = Discarding errs \<Longrightarrow> cache_step s (discard_close f failed s)"
| release: "f < next_f s \<Longrightarrow> f_pc (fh s f) = ReleasingOnly errs \<Longrightarrow> cache_step s (release_only f ok s)"
| publish: "f < next_f s \<Longrightarrow> f_pc (fh s f) = Releasing \<Longrightarrow> f_entry (fh s f) = Some e \<Longrightarrow>
     cache_step s (release_pending f e ok s)"
| close_own: "f < next_f s \<Longrightarrow> f_pc (fh s f) = Closing errs \<Longrightarrow> cache_step s (close_unpublished f failed s)"
| forget_own: "f < next_f s \<Longrightarrow> f_pc (fh s f) = Forgetting errs \<Longrightarrow> f_entry (fh s f) = Some e \<Longrightarrow>
     cache_step s (forget_unpublished f e s)"
| finish: "f < next_f s \<Longrightarrow> f_pc (fh s f) = Finishing errs \<Longrightarrow> cache_step s (finishFlight f s)"
| closer: "e < next_e s \<Longrightarrow> e_closer (eh s e) = CloserStarted \<Longrightarrow> cache_step s (closer_close e failed s)"
| closer_end: "e < next_e s \<Longrightarrow> e_closer (eh s e) = CloserClosed \<Longrightarrow> cache_step s (closer_forget e s)"
| search: "l < next_l s \<Longrightarrow> Search_begin l s = (t, r) \<Longrightarrow> cache_step s t"
| search_end: "l < next_l s \<Longrightarrow> 0 < l_operations (lh s l) \<Longrightarrow> cache_step s (finishOperation l s)"
| lease_close: "l < next_l s \<Longrightarrow> cache_step s (Lease_Close l s)"
| shut: "cache_step s (Shutdown s)"

end
