(* ===== verification/RuntimeCacheInv.thy ===== *)
theory RuntimeCacheInv
  imports RuntimeCache
begin

text \<open>
  The invariant of the root cache. It is stated per flight together with the entry the flight
  published (\<open>pair_ok\<close>), for the maps (\<open>maps_ok\<close>), for the leases
  (\<open>leases_ok\<close>) and for the counters \<open>Shutdown\<close> waits for (\<open>drain_ok\<close>).
\<close>

section \<open>Flights and entries\<close>

definition settled :: "cacheEntry \<Rightarrow> nat \<Rightarrow> bool \<Rightarrow> bool" where
  "settled x k a \<longleftrightarrow> \<not> e_pending x \<and> (\<not> e_closing x \<and> a \<and> k = 0 \<or> e_closing x \<and> e_retired x \<and> \<not> a \<and> k = 1)"

definition shut_entry :: "cacheEntry \<Rightarrow> bool" where
  "shut_entry x \<longleftrightarrow> \<not> e_pending x \<and> e_retired x \<and> e_closing x"

fun over :: "flightPc \<Rightarrow> bool" where
  "over (Finishing errs) = True"
| "over Done = True"
| "over _ = False"

text \<open>An entry at the stage given by its flight and its closer, the number of native closes of its
  root so far and whether the manager still tracks it.\<close>

definition entry_ok :: "flightPc \<Rightarrow> cacheEntry \<Rightarrow> nat \<Rightarrow> bool \<Rightarrow> bool" where
  "entry_ok p x k a \<longleftrightarrow>
     (case e_closer x of
        NoCloser \<Rightarrow> (case p of
            Releasing \<Rightarrow> e_pending x \<and> \<not> e_closing x \<and> k = 0 \<and> a
          | Closing _ \<Rightarrow> shut_entry x \<and> k = 0 \<and> a
          | Forgetting _ \<Rightarrow> shut_entry x \<and> k = 1 \<and> a
          | _ \<Rightarrow> over p \<and> settled x k a)
      | CloserStarted \<Rightarrow> over p \<and> shut_entry x \<and> k = 0 \<and> a
      | CloserClosed \<Rightarrow> over p \<and> shut_entry x \<and> k = 1 \<and> a
      | CloserDone \<Rightarrow> over p \<and> shut_entry x \<and> k = 1 \<and> \<not> a)
     \<and> (e_pending x \<or> e_closing x \<longrightarrow> e_refs x = 0 \<and> e_ops x = 0)
     \<and> (\<not> e_pending x \<and> \<not> e_closing x \<and> e_retired x \<longrightarrow> e_refs x \<noteq> 0 \<or> e_ops x \<noteq> 0)"

definition flight_ok :: "flightPc \<Rightarrow> nat option \<Rightarrow> bool \<Rightarrow> nat \<Rightarrow> bool" where
  "flight_ok p fe lo k \<longleftrightarrow>
     (case fe of
        Some e \<Rightarrow> lo \<and> (case p of Releasing \<Rightarrow> True | Closing _ \<Rightarrow> True | Forgetting _ \<Rightarrow> True | _ \<Rightarrow> over p)
      | None \<Rightarrow> (case p of
            Retaining \<Rightarrow> \<not> lo \<and> k = 0
          | Checking \<Rightarrow> \<not> lo \<and> k = 0
          | Loading \<Rightarrow> \<not> lo \<and> k = 0
          | Discarding _ \<Rightarrow> lo \<and> k = 0
          | ReleasingOnly _ \<Rightarrow> k = (if lo then 1 else 0)
          | _ \<Rightarrow> over p \<and> k = (if lo then 1 else 0)))"

definition pair_ok :: "manager \<Rightarrow> nat \<Rightarrow> bool" where
  "pair_ok s f \<longleftrightarrow>
     flight_ok (f_pc (fh s f)) (f_entry (fh s f)) (loaded s f) (closes s f)
     \<and> (\<forall>e. f_entry (fh s f) = Some e \<longrightarrow> e < next_e s \<and> e_flight (eh s e) = f
          \<and> e_key (eh s e) = f_key (fh s f)
          \<and> entry_ok (f_pc (fh s f)) (eh s e) (closes s f) (e \<in> set (allEntries s)))"

definition entries_ok :: "manager \<Rightarrow> bool" where
  "entries_ok s \<longleftrightarrow> gm_ok (entries s)
     \<and> (\<forall>K e. gm_get (entries s) K = Some e \<longleftrightarrow> e < next_e s \<and> e_key (eh s e) = K \<and> \<not> e_retired (eh s e))
     \<and> (shutdown s \<longrightarrow> entries s = [])"

definition cache_ok :: "manager \<Rightarrow> bool" where
  "cache_ok s \<longleftrightarrow> (\<forall>f < next_f s. pair_ok s f)
     \<and> (\<forall>e < next_e s. e_flight (eh s e) < next_f s \<and> f_entry (fh s (e_flight (eh s e))) = Some e)
     \<and> distinct (allEntries s) \<and> set (allEntries s) \<subseteq> {..<next_e s}"

lemma cache_okD:
  "cache_ok s \<Longrightarrow> f < next_f s \<Longrightarrow> pair_ok s f"
  "cache_ok s \<Longrightarrow> e < next_e s \<Longrightarrow> e_flight (eh s e) < next_f s \<and> f_entry (fh s (e_flight (eh s e))) = Some e"
  by (auto simp: cache_ok_def)

lemma pair_entry:
  "pair_ok s f \<Longrightarrow> f_entry (fh s f) = Some e \<Longrightarrow> e < next_e s \<and> e_flight (eh s e) = f
     \<and> e_key (eh s e) = f_key (fh s f) \<and> entry_ok (f_pc (fh s f)) (eh s e) (closes s f) (e \<in> set (allEntries s))"
  by (simp add: pair_ok_def)

text \<open>A step that changes one flight and the entry it published.\<close>

lemma cache_ok_update:
  assumes ok: "cache_ok s" and f: "f < next_f s"
    and eq: "next_e t = next_e s" "next_f t = next_f s"
    and others: "\<And>g. g \<noteq> f \<Longrightarrow> fh t g = fh s g \<and> closes t g = closes s g \<and> loaded t g = loaded s g"
    and entries': "\<And>e'. e' < next_e s \<Longrightarrow> e_flight (eh s e') \<noteq> f \<Longrightarrow>
        eh t e' = eh s e' \<and> (e' \<in> set (allEntries t) \<longleftrightarrow> e' \<in> set (allEntries s))"
    and flight: "f_entry (fh t f) = f_entry (fh s f)" "f_key (fh t f) = f_key (fh s f)"
    and fl: "flight_ok (f_pc (fh t f)) (f_entry (fh s f)) (loaded t f) (closes t f)"
    and en: "\<And>e. f_entry (fh s f) = Some e \<Longrightarrow> e < next_e s \<Longrightarrow> e_flight (eh s e) = f \<Longrightarrow>
        entry_ok (f_pc (fh s f)) (eh s e) (closes s f) (e \<in> set (allEntries s)) \<Longrightarrow>
        entry_ok (f_pc (fh t f)) (eh t e) (closes t f) (e \<in> set (allEntries t))
        \<and> e_flight (eh t e) = f \<and> e_key (eh t e) = e_key (eh s e)"
    and all: "distinct (allEntries t)" "set (allEntries t) \<subseteq> set (allEntries s)"
  shows "cache_ok t"
proof -
  have pf: "pair_ok s f" using ok f by (rule cache_okD)
  have pairs: "pair_ok t g" if g: "g < next_f s" for g
  proof (cases "g = f")
    case True
    then show ?thesis using fl flight en pair_entry [OF pf] eq(1) by (simp add: pair_ok_def)
  next
    case False
    have pg: "pair_ok s g" using ok g by (rule cache_okD)
    show ?thesis
    proof (cases "f_entry (fh s g)")
      case None
      then show ?thesis using pg others [OF False] by (simp add: pair_ok_def)
    next
      case (Some e')
      note e' = pair_entry [OF pg Some]
      then have "e_flight (eh s e') \<noteq> f" using False by simp
      with entries' [of e'] e' have "eh t e' = eh s e' \<and> (e' \<in> set (allEntries t) \<longleftrightarrow> e' \<in> set (allEntries s))" by simp
      then show ?thesis using pg others [OF False] Some eq(1) by (simp add: pair_ok_def)
    qed
  qed
  have owner: "e_flight (eh t e') < next_f t \<and> f_entry (fh t (e_flight (eh t e'))) = Some e'" if e': "e' < next_e s" for e'
  proof (cases "e_flight (eh s e') = f")
    case True
    then have fe: "f_entry (fh s f) = Some e'" using cache_okD(2) [OF ok e'] by simp
    from en [OF this e' True] pair_entry [OF pf fe] have "e_flight (eh t e') = f" by simp
    then show ?thesis using flight(1) fe f eq(2) by simp
  next
    case False
    then show ?thesis using entries' [OF e' False] others [OF False] cache_okD(2) [OF ok e'] eq(2) by simp
  qed
  show ?thesis
    unfolding cache_ok_def eq(1)
    using pairs owner eq(2) all ok by (auto simp: cache_ok_def)
qed

text \<open>A step that changes a flight alone.\<close>

lemma cache_ok_flight:
  assumes ok: "cache_ok s" and f: "f < next_f s"
    and eq: "next_e t = next_e s" "next_f t = next_f s" "eh t = eh s" "allEntries t = allEntries s"
    and others: "\<And>g. g \<noteq> f \<Longrightarrow> fh t g = fh s g \<and> closes t g = closes s g \<and> loaded t g = loaded s g"
    and flight: "f_entry (fh t f) = f_entry (fh s f)" "f_key (fh t f) = f_key (fh s f)"
    and fl: "flight_ok (f_pc (fh t f)) (f_entry (fh s f)) (loaded t f) (closes t f)"
    and en: "\<And>e. f_entry (fh s f) = Some e \<Longrightarrow>
        entry_ok (f_pc (fh s f)) (eh s e) (closes s f) (e \<in> set (allEntries s)) \<Longrightarrow>
        entry_ok (f_pc (fh t f)) (eh s e) (closes t f) (e \<in> set (allEntries s))"
  shows "cache_ok t"
proof (rule cache_ok_update [OF ok f eq(1,2) others _ flight fl])
  show "distinct (allEntries t)" using ok eq(4) by (simp add: cache_ok_def)
  show "set (allEntries t) \<subseteq> set (allEntries s)" using eq(4) by simp
qed (use eq en in simp_all)

text \<open>A step that changes an entry alone.\<close>

lemma cache_ok_entry:
  assumes ok: "cache_ok s" and e: "e < next_e s"
    and eq: "next_e t = next_e s" "next_f t = next_f s" "fh t = fh s" "loaded t = loaded s"
      "eh t = (eh s)(e := x)" "e_flight x = e_flight (eh s e)" "e_key x = e_key (eh s e)"
    and closes: "\<And>g. g \<noteq> e_flight (eh s e) \<Longrightarrow> closes t g = closes s g"
    and all: "\<And>e'. e' \<noteq> e \<Longrightarrow> e' \<in> set (allEntries t) \<longleftrightarrow> e' \<in> set (allEntries s)"
      "distinct (allEntries t)" "set (allEntries t) \<subseteq> set (allEntries s)"
    and en: "entry_ok (f_pc (fh s (e_flight (eh s e)))) (eh s e) (closes s (e_flight (eh s e))) (e \<in> set (allEntries s)) \<Longrightarrow>
        entry_ok (f_pc (fh s (e_flight (eh s e)))) x (closes t (e_flight (eh s e))) (e \<in> set (allEntries t))"
  shows "cache_ok t"
proof -
  let ?f = "e_flight (eh s e)"
  have f: "?f < next_f s" and fe: "f_entry (fh s ?f) = Some e" using cache_okD(2) [OF ok e] by auto
  have pf: "pair_ok s ?f" using ok f by (rule cache_okD)
  show ?thesis
  proof (rule cache_ok_update [OF ok f eq(1,2)])
    show "flight_ok (f_pc (fh t ?f)) (f_entry (fh s ?f)) (loaded t ?f) (closes t ?f)"
      using pf fe eq by (auto simp: pair_ok_def flight_ok_def)
    fix e' assume "f_entry (fh s ?f) = Some e'" "entry_ok (f_pc (fh s ?f)) (eh s e') (closes s ?f) (e' \<in> set (allEntries s))"
    then show "entry_ok (f_pc (fh t ?f)) (eh t e') (closes t ?f) (e' \<in> set (allEntries t))
        \<and> e_flight (eh t e') = ?f \<and> e_key (eh t e') = e_key (eh s e')"
      using fe en eq by simp
  next
    fix e' assume "e' < next_e s" "e_flight (eh s e') \<noteq> ?f"
    then show "eh t e' = eh s e' \<and> (e' \<in> set (allEntries t) \<longleftrightarrow> e' \<in> set (allEntries s))"
      using eq(5) all(1) [of e'] by auto
  qed (use eq closes all in auto)
qed


section \<open>Sections as record updates\<close>

definition idle :: "cacheEntry \<Rightarrow> bool" where
  "idle x \<longleftrightarrow> \<not> e_closing x \<and> \<not> e_pending x \<and> e_retired x \<and> e_refs x = 0 \<and> e_ops x = 0"

definition close_if_idle :: "cacheEntry \<Rightarrow> cacheEntry" where
  "close_if_idle x = (if idle x then x\<lparr>e_closing := True, e_closer := CloserStarted\<rparr> else x)"

lemma close_if_idle_sel [simp]:
  "e_key (close_if_idle x) = e_key x" "e_flight (close_if_idle x) = e_flight x"
  "e_refs (close_if_idle x) = e_refs x" "e_ops (close_if_idle x) = e_ops x"
  "e_pending (close_if_idle x) = e_pending x" "e_retired (close_if_idle x) = e_retired x"
  by (simp_all add: close_if_idle_def)

lemma checkDrained_eq:
  "checkDrained s = s\<lparr>drainedDone := drainedDone s \<or> shutdown s \<and> loads s = 0 \<and> allEntries s = []\<rparr>"
  by (cases s) (auto simp: checkDrained_def)

lemma scheduleEntryClose_eq:
  "scheduleEntryClose e s = s\<lparr>eh := (eh s)(e := close_if_idle (eh s e)),
     entries := (if idle (eh s e) \<and> gm_get (entries s) (e_key (eh s e)) = Some e
                 then gm_del (e_key (eh s e)) (entries s) else entries s)\<rparr>"
proof -
  have "(e_closing (eh s e) \<or> e_pending (eh s e) \<or> \<not> e_retired (eh s e) \<or> e_refs (eh s e) \<noteq> 0 \<or> e_ops (eh s e) \<noteq> 0)
      \<longleftrightarrow> \<not> idle (eh s e)"
    by (auto simp: idle_def)
  then show ?thesis
    unfolding scheduleEntryClose_def Let_def
    by (cases s) (simp add: close_if_idle_def upd_e_def)
qed

lemma retire_entry_eq:
  "retire_entry (k, e) s = (let x = (eh s e)\<lparr>e_retired := True\<rparr> in
     s\<lparr>eh := (eh s)(e := close_if_idle x),
       entries := (if idle x \<and> gm_get (gm_del k (entries s)) (e_key x) = Some e
                   then gm_del (e_key x) (gm_del k (entries s)) else gm_del k (entries s))\<rparr>)"
  by (cases s) (auto simp: retire_entry_def scheduleEntryClose_eq upd_e_def Let_def)

lemmas section_eqs = checkDrained_eq scheduleEntryClose_eq retire_entry_eq upd_e_def upd_f_def upd_l_def
  set_pc_def count_close_def newLease_def ref_lease_def

text \<open>The entry's own stage under the sections that touch it.\<close>

lemma entry_ok_retire:
  "entry_ok p x k a \<Longrightarrow> \<not> e_retired x \<Longrightarrow> entry_ok p (close_if_idle (x\<lparr>e_retired := True\<rparr>)) k a"
  by (auto simp: entry_ok_def close_if_idle_def idle_def shut_entry_def settled_def
      split: closerPc.splits flightPc.splits)

lemma entry_ok_drop:
  "entry_ok p x k a \<Longrightarrow> e_refs x \<noteq> 0 \<or> e_ops x \<noteq> 0 \<Longrightarrow>
     entry_ok p (close_if_idle (x\<lparr>e_refs := r, e_ops := n\<rparr>)) k a"
  by (auto simp: entry_ok_def close_if_idle_def idle_def shut_entry_def settled_def
      split: closerPc.splits flightPc.splits)

lemma entry_ok_use:
  "entry_ok p x k a \<Longrightarrow> \<not> e_pending x \<Longrightarrow> \<not> e_closing x \<Longrightarrow> \<not> e_retired x \<Longrightarrow>
     entry_ok p (x\<lparr>e_refs := r, e_ops := n\<rparr>) k a"
  by (auto simp: entry_ok_def shut_entry_def settled_def split: closerPc.splits flightPc.splits)

lemma entry_ok_used: "entry_ok p x k a \<Longrightarrow> e_refs x \<noteq> 0 \<or> e_ops x \<noteq> 0 \<Longrightarrow> \<not> e_pending x \<and> \<not> e_closing x \<and> k = 0 \<and> a"
  by (auto simp: entry_ok_def shut_entry_def settled_def split: closerPc.splits flightPc.splits)

lemma cache_ok_retire:
  assumes ok: "cache_ok s" and e: "e < next_e s" and nr: "\<not> e_retired (eh s e)"
  shows "cache_ok (retire_entry (k, e) s)"
  by (rule cache_ok_entry [OF ok e, where x = "close_if_idle ((eh s e)\<lparr>e_retired := True\<rparr>)"])
    (use ok nr in \<open>auto simp: retire_entry_eq Let_def cache_ok_def intro: entry_ok_retire\<close>)

lemma entries_ok_retire:
  assumes ok: "entries_ok s" and e: "gm_get (entries s) k = Some e"
  shows "entries_ok (retire_entry (k, e) s)" and "entries (retire_entry (k, e) s) = gm_del k (entries s)"
proof -
  have k: "e < next_e s" "e_key (eh s e) = k" using ok e by (auto simp: entries_ok_def)
  then show ent: "entries (retire_entry (k, e) s) = gm_del k (entries s)"
    by (simp add: retire_entry_eq Let_def)
  have "gm_get (gm_del k (entries s)) K = Some e' \<longleftrightarrow>
      e' < next_e s \<and> e_key (eh (retire_entry (k, e) s) e') = K \<and> \<not> e_retired (eh (retire_entry (k, e) s) e')" for K e'
  proof (cases "e' = e")
    case True
    have "gm_get (entries s) K = Some e \<Longrightarrow> K = k" using ok k by (auto simp: entries_ok_def)
    then show ?thesis using k True by (auto simp: retire_entry_eq Let_def)
  next
    case False
    have iff: "gm_get (entries s) K = Some e' \<longleftrightarrow> e' < next_e s \<and> e_key (eh s e') = K \<and> \<not> e_retired (eh s e')"
      using ok by (simp add: entries_ok_def)
    show ?thesis using iff False e by (cases "K = k") (auto simp: retire_entry_eq Let_def)
  qed
  with ok ent show "entries_ok (retire_entry (k, e) s)"
    unfolding entries_ok_def by (simp add: retire_entry_eq Let_def) (simp add: gm_del_def)
qed

text \<open>Everything retiring leaves alone.\<close>

definition rest :: "manager \<Rightarrow> _" where
  "rest s = (flights s, scopes s, sequence s, loads s, shutdown s, drainedDone s, closeErrors s, fh s, lh s,
     allEntries s, (next_e s, next_f s, next_l s), closes s, loaded s,
     \<lambda>e. (e_key (eh s e), e_flight (eh s e), e_refs (eh s e), e_ops (eh s e), e_pending (eh s e)))"

lemma rest_retire: "rest (retire_entry ke s) = rest s"
  by (cases ke) (auto simp: rest_def retire_entry_eq Let_def fun_eq_iff)

lemma rest_fold: "rest (fold retire_entry xs s) = rest s"
  by (induction xs arbitrary: s) (simp_all add: rest_retire)

lemma fold_retire_ok:
  assumes "cache_ok s" "entries_ok s" "distinct (map fst xs)" "set xs \<subseteq> set (entries s)"
  shows "cache_ok (fold retire_entry xs s) \<and> entries_ok (fold retire_entry xs s)
     \<and> entries (fold retire_entry xs s) = filter (\<lambda>p. fst p \<notin> fst ` set xs) (entries s)"
  using assms
proof (induction xs arbitrary: s)
  case Nil
  then show ?case by simp
next
  case (Cons p xs)
  obtain k e where p: "p = (k, e)" by (cases p)
  have get: "gm_get (entries s) k = Some e"
  proof -
    have "gm_ok (entries s)" using Cons.prems(2) by (simp add: entries_ok_def)
    then show ?thesis using Cons.prems(4) p by (simp add: gm_get_Some_iff)
  qed
  then have e: "e < next_e s" "\<not> e_retired (eh s e)" using Cons.prems(2) by (auto simp: entries_ok_def)
  let ?s = "retire_entry (k, e) s"
  note ent = entries_ok_retire [OF Cons.prems(2) get]
  have "set xs \<subseteq> set (entries ?s)"
    using Cons.prems(3,4) p by (force simp: ent(2))
  from Cons.IH [OF cache_ok_retire [OF Cons.prems(1) e] ent(1) _ this] Cons.prems(3) p
  show ?case by (auto simp: ent(2) gm_del_def intro: filter_cong)
qed

lemma if_None_drop:
  "x = (if P then None else y) \<Longrightarrow> P = (Q \<and> R) \<Longrightarrow> (\<not> R \<Longrightarrow> y = None) \<Longrightarrow> x = (if Q then None else y)"
  by auto

lemma gm_get_filter_keys:
  "gm_get (filter (\<lambda>p. fst p \<notin> A) es) K = (if K \<in> A then None else gm_get es K)"
  unfolding gm_get_def by (induction es) auto

lemma retireOtherEntries_ok:
  assumes "cache_ok s" "entries_ok s"
  shows "cache_ok (retireOtherEntries sc cur s)" and "entries_ok (retireOtherEntries sc cur s)"
    and "gm_get (entries (retireOtherEntries sc cur s)) K
       = (if K \<noteq> cur \<and> scope K = sc then None else gm_get (entries s) K)"
proof -
  let ?xs = "filter (\<lambda>(k, e). k \<noteq> cur \<and> scope k = sc) (entries s)"
  have gm: "distinct (map fst (entries s))" using assms(2) by (simp add: entries_ok_def gm_ok_def)
  then have "distinct (map fst ?xs)" by (rule distinct_map_filter)
  note fold = fold_retire_ok [OF assms this filter_is_subset]
  then show "cache_ok (retireOtherEntries sc cur s)" "entries_ok (retireOtherEntries sc cur s)"
    by (auto simp: retireOtherEntries_def)
  have "gm_get (entries (retireOtherEntries sc cur s)) K = (if K \<in> fst ` set ?xs then None else gm_get (entries s) K)"
  proof -
    have "entries (retireOtherEntries sc cur s) = filter (\<lambda>p. fst p \<notin> fst ` set ?xs) (entries s)"
      unfolding retireOtherEntries_def using fold by blast
    then show ?thesis by (simp only: gm_get_filter_keys)
  qed
  moreover have "K \<in> fst ` set ?xs \<longleftrightarrow> (K \<noteq> cur \<and> scope K = sc) \<and> K \<in> fst ` set (entries s)"
    by (force simp: image_iff)
  moreover have "K \<notin> fst ` set (entries s) \<Longrightarrow> gm_get (entries s) K = None" by (simp add: gm_get_None_iff)
  ultimately show "gm_get (entries (retireOtherEntries sc cur s)) K
       = (if K \<noteq> cur \<and> scope K = sc then None else gm_get (entries s) K)"
    by (rule if_None_drop)
qed

section \<open>The steps keep flights and entries well-formed\<close>

lemmas stage_defs = entry_ok_def flight_ok_def settled_def shut_entry_def

lemma early_flight:
  assumes "pair_ok s f"
  shows "f_pc (fh s f) = Retaining \<or> f_pc (fh s f) = Checking \<or> f_pc (fh s f) = Loading \<Longrightarrow>
       f_entry (fh s f) = None \<and> \<not> loaded s f \<and> closes s f = 0"
    and "f_pc (fh s f) = Discarding errs \<Longrightarrow> f_entry (fh s f) = None \<and> loaded s f \<and> closes s f = 0"
    and "f_pc (fh s f) = ReleasingOnly errs \<Longrightarrow> f_entry (fh s f) = None \<and> closes s f = (if loaded s f then 1 else 0)"
  using assms by (auto simp: pair_ok_def flight_ok_def split: option.splits)

lemma owned_flight:
  assumes "pair_ok s f" "f_pc (fh s f) = Releasing \<or> f_pc (fh s f) = Closing errs \<or> f_pc (fh s f) = Forgetting errs"
  shows "\<exists>e. f_entry (fh s f) = Some e \<and> loaded s f"
  using assms by (auto simp: pair_ok_def flight_ok_def split: option.splits)

lemma entry_ok_done: "entry_ok (Finishing errs) x k a = entry_ok Done x k a"
  by (cases "e_closer x") (simp_all add: entry_ok_def)

lemma entry_ok_closing: "entry_ok (Closing errs) x k a \<Longrightarrow> entry_ok (Forgetting errs') x (Suc k) a"
  by (auto simp: entry_ok_def shut_entry_def split: closerPc.splits)

lemma entry_ok_forgetting: "entry_ok (Forgetting errs) x k a \<Longrightarrow> entry_ok (Finishing errs') x k False"
  by (auto simp: stage_defs split: closerPc.splits)

lemma entry_ok_ready:
  "entry_ok Releasing x k a \<Longrightarrow> \<not> e_retired x \<Longrightarrow> entry_ok (Finishing errs) (x\<lparr>e_pending := False\<rparr>) k a"
  by (auto simp: stage_defs split: closerPc.splits)

lemma entry_ok_dropped:
  "entry_ok Releasing x k a \<Longrightarrow> entry_ok (Closing errs) (x\<lparr>e_pending := False, e_retired := True, e_closing := True\<rparr>) k a"
  by (auto simp: stage_defs split: closerPc.splits)

lemma entry_ok_closed: "entry_ok p x k a \<Longrightarrow> e_closer x = CloserStarted \<Longrightarrow> entry_ok p (x\<lparr>e_closer := CloserClosed\<rparr>) (Suc k) a"
  by (auto simp: stage_defs)

lemma entry_ok_forgotten: "entry_ok p x k a \<Longrightarrow> e_closer x = CloserClosed \<Longrightarrow> entry_ok p (x\<lparr>e_closer := CloserDone\<rparr>) k False"
  by (auto simp: stage_defs)

lemma cache_ok_retain:
  assumes ok: "cache_ok s" and f: "f < next_f s"
  shows "f_pc (fh s f) = Retaining \<Longrightarrow> cache_ok (retain_done f b s)"
  using early_flight(1) [OF cache_okD(1) [OF ok f]]
  by (intro cache_ok_flight [OF ok f]) (simp_all add: retain_done_def section_eqs flight_ok_def)

lemma cache_ok_check:
  assumes ok: "cache_ok s" and f: "f < next_f s"
  shows "f_pc (fh s f) = Checking \<Longrightarrow> cache_ok (check_flight f b s)"
  using early_flight(1) [OF cache_okD(1) [OF ok f]]
  by (intro cache_ok_flight [OF ok f]) (simp_all add: check_flight_def section_eqs flight_ok_def)

lemma cache_ok_discard:
  assumes ok: "cache_ok s" and f: "f < next_f s"
  shows "f_pc (fh s f) = Discarding errs \<Longrightarrow> cache_ok (discard_close f b s)"
  using early_flight(2) [OF cache_okD(1) [OF ok f]]
  by (intro cache_ok_flight [OF ok f]) (simp_all add: discard_close_def section_eqs flight_ok_def)

lemma cache_ok_release:
  assumes ok: "cache_ok s" and f: "f < next_f s"
  shows "f_pc (fh s f) = ReleasingOnly errs \<Longrightarrow> cache_ok (release_only f b s)"
  using early_flight(3) [OF cache_okD(1) [OF ok f]]
  by (intro cache_ok_flight [OF ok f]) (simp_all add: release_only_def section_eqs flight_ok_def)

lemma cache_ok_close_own:
  assumes ok: "cache_ok s" and f: "f < next_f s"
    and pc: "f_pc (fh s f) = Closing errs"
  shows "cache_ok (close_unpublished f b s)"
  using owned_flight [OF cache_okD(1) [OF ok f] disjI2 [OF disjI1 [OF pc]]] pc
  by (intro cache_ok_flight [OF ok f])
    (auto simp: close_unpublished_def section_eqs flight_ok_def intro: entry_ok_closing)

lemma cache_ok_finish:
  assumes ok: "cache_ok s" and f: "f < next_f s"
    and pc: "f_pc (fh s f) = Finishing errs"
  shows "cache_ok (finishFlight f s)"
proof (rule cache_ok_flight [OF ok f])
  have "flight_ok (Finishing errs) (f_entry (fh s f)) (loaded s f) (closes s f)"
    using cache_okD(1) [OF ok f] pc by (simp add: pair_ok_def)
  then show "flight_ok (f_pc (fh (finishFlight f s) f)) (f_entry (fh s f)) (loaded (finishFlight f s) f)
      (closes (finishFlight f s) f)"
    using pc by (simp add: finishFlight_def Let_def section_eqs flight_ok_def split: option.splits)
qed (use pc in \<open>simp_all add: finishFlight_def Let_def section_eqs entry_ok_done\<close>)

lemma cache_ok_publish:
  assumes ok: "cache_ok s" and f: "f < next_f s"
    and pc: "f_pc (fh s f) = Releasing" and e: "f_entry (fh s f) = Some e"
  shows "cache_ok (release_pending f e b s)"
proof -
  have own: "e < next_e s" "e_flight (eh s e) = f" "loaded s f"
    using pair_entry [OF cache_okD(1) [OF ok f] e] owned_flight [OF cache_okD(1) [OF ok f] disjI1 [OF pc]] by auto
  have all: "distinct (allEntries s)" using ok by (simp add: cache_ok_def)
  show ?thesis
    using own e pc all
    by (intro cache_ok_update [OF ok f])
      (auto simp: release_pending_def Let_def section_eqs flight_ok_def intro: entry_ok_ready entry_ok_dropped)
qed

lemma cache_ok_forget_own:
  assumes ok: "cache_ok s" and f: "f < next_f s"
    and pc: "f_pc (fh s f) = Forgetting errs" and e: "f_entry (fh s f) = Some e"
  shows "cache_ok (forget_unpublished f e s)"
proof -
  have own: "e < next_e s" "e_flight (eh s e) = f" "loaded s f"
    using pair_entry [OF cache_okD(1) [OF ok f] e] owned_flight [OF cache_okD(1) [OF ok f] disjI2 [OF disjI2 [OF pc]]] by auto
  have all: "distinct (allEntries s)" using ok by (simp add: cache_ok_def)
  show ?thesis
    using own e pc all set_remove1_subset [of e "allEntries s"]
    by (intro cache_ok_update [OF ok f])
      (auto simp: forget_unpublished_def section_eqs flight_ok_def intro: entry_ok_forgetting)
qed


lemma cache_ok_closer:
  assumes ok: "cache_ok s" and e: "e < next_e s" and pc: "e_closer (eh s e) = CloserStarted"
  shows "cache_ok (closer_close e b s)"
  using pc ok
  by (intro cache_ok_entry [OF ok e, where x = "(eh s e)\<lparr>e_closer := CloserClosed\<rparr>"])
    (auto simp: closer_close_def section_eqs cache_ok_def intro: entry_ok_closed)

lemma cache_ok_closer_end:
  assumes ok: "cache_ok s" and e: "e < next_e s" and pc: "e_closer (eh s e) = CloserClosed"
  shows "cache_ok (closer_forget e s)"
proof -
  have all: "distinct (allEntries s)" using ok by (simp add: cache_ok_def)
  show ?thesis
    using pc all set_remove1_subset [of e "allEntries s"]
    by (intro cache_ok_entry [OF ok e, where x = "(eh s e)\<lparr>e_closer := CloserDone\<rparr>"])
      (auto simp: closer_forget_def section_eqs intro: entry_ok_forgotten)
qed

lemma cache_ok_eh:
  assumes ok: "cache_ok s" and e: "e < next_e s"
    and eq: "next_e t = next_e s" "next_f t = next_f s" "fh t = fh s" "loaded t = loaded s" "closes t = closes s"
      "allEntries t = allEntries s" "eh t = (eh s)(e := x)" "e_flight x = e_flight (eh s e)" "e_key x = e_key (eh s e)"
    and en: "\<And>p k a. entry_ok p (eh s e) k a \<Longrightarrow> entry_ok p x k a"
  shows "cache_ok t"
  using ok by (intro cache_ok_entry [OF ok e eq(1-4,7-9)]) (auto simp: eq(5,6) cache_ok_def intro: en)

lemma cache_ok_same:
  assumes "cache_ok s" "next_e t = next_e s" "next_f t = next_f s" "fh t = fh s" "loaded t = loaded s"
    "closes t = closes s" "allEntries t = allEntries s" "eh t = eh s"
  shows "cache_ok t"
  using assms by (simp add: cache_ok_def pair_ok_def)

text \<open>A new flight and a newly published entry.\<close>

lemma cache_ok_new_flight:
  assumes ok: "cache_ok s" and fresh: "\<not> loaded s (next_f s)" "closes s (next_f s) = 0"
  shows "cache_ok (new_flight key q s)"
proof -
  let ?t = "new_flight key q s"
  have "pair_ok ?t f" if f: "f < Suc (next_f s)" for f
  proof (cases "f = next_f s")
    case True
    then show ?thesis using fresh by (simp add: new_flight_def pair_ok_def flight_ok_def)
  next
    case False
    with f have "pair_ok s f" using ok by (simp add: cache_ok_def)
    with False show ?thesis by (simp add: new_flight_def pair_ok_def)
  qed
  moreover have "e_flight (eh ?t e) < next_f ?t \<and> f_entry (fh ?t (e_flight (eh ?t e))) = Some e" if "e < next_e s" for e
    using cache_okD(2) [OF ok that] by (simp add: new_flight_def)
  moreover have "next_f ?t = Suc (next_f s)" "next_e ?t = next_e s" "allEntries ?t = allEntries s"
    by (simp_all add: new_flight_def)
  ultimately show ?thesis using ok by (simp add: cache_ok_def)
qed

lemma cache_ok_publish_pending:
  assumes ok: "cache_ok s" and f: "f < next_f s" and pc: "f_pc (fh s f) = Loading"
  shows "cache_ok (publish_pending f (s\<lparr>loaded := (loaded s)(f := True)\<rparr>))" (is "cache_ok ?t")
proof -
  note ef = early_flight(1) [OF cache_okD(1) [OF ok f]]
  let ?e = "next_e s"
  have new: "eh ?t ?e = \<lparr>e_key = f_key (fh s f), e_flight = f, e_refs = 0, e_ops = 0,
               e_pending = True, e_retired = False, e_closing = False, e_closer = NoCloser\<rparr>"
    and old: "e \<noteq> ?e \<Longrightarrow> eh ?t e = eh s e"
    and fl: "fh ?t f = (fh s f)\<lparr>f_entry := Some ?e, f_pc := Releasing\<rparr>" "g \<noteq> f \<Longrightarrow> fh ?t g = fh s g"
    and more: "next_e ?t = Suc ?e" "next_f ?t = next_f s" "allEntries ?t = ?e # allEntries s"
      "closes ?t = closes s" "loaded ?t = (loaded s)(f := True)" for e g
    by (simp_all add: publish_pending_def Let_def section_eqs)
  have pairs: "pair_ok ?t g" if g: "g < next_f s" for g
  proof (cases "g = f")
    case True
    then show ?thesis using ef pc
      by (simp add: pair_ok_def fl more new flight_ok_def entry_ok_def)
  next
    case False
    have pg: "pair_ok s g" using ok g by (rule cache_okD)
    have lt: "f_entry (fh s g) = Some e \<Longrightarrow> e < ?e" for e using pair_entry [OF pg] by blast
    show ?thesis
      using pg lt unfolding pair_ok_def fl(2) [OF False] more
      using False by (auto simp: old less_Suc_eq)
  qed
  have owner: "e_flight (eh ?t e) < next_f s \<and> f_entry (fh ?t (e_flight (eh ?t e))) = Some e" if e: "e < Suc ?e" for e
  proof (cases "e = ?e")
    case True
    then show ?thesis using new fl(1) f by simp
  next
    case False
    with e have o: "e_flight (eh s e) < next_f s \<and> f_entry (fh s (e_flight (eh s e))) = Some e"
      using cache_okD(2) [OF ok] by simp
    then have "e_flight (eh s e) \<noteq> f" using ef pc by auto
    then show ?thesis using o False by (simp add: old fl(2))
  qed
  show ?thesis
    using ok pairs owner unfolding cache_ok_def more by auto
qed

lemma cache_ok_load:
  assumes ok: "cache_ok s" and f: "f < next_f s" and pc: "f_pc (fh s f) = Loading"
  shows "cache_ok (load_done f b hc s)"
proof -
  note ef = early_flight(1) [OF cache_okD(1) [OF ok f]]
  have drop: "cache_ok (set_pc f (if hc then Discarding errs else ReleasingOnly errs) (s\<lparr>loaded := (loaded s)(f := hc)\<rparr>))" for errs
    using ef pc by (intro cache_ok_flight [OF ok f]) (simp_all add: section_eqs flight_ok_def)
  show ?thesis
  proof (cases hc)
    case True
    then show ?thesis
      using drop [of "[LoadFailed]"] drop [of "[ManagerClosed]"] drop [of "[RootRetired]"]
        cache_ok_publish_pending [OF ok f pc]
      by (simp add: load_done_def Let_def)
  next
    case False
    then show ?thesis using drop [of "[LoadFailed]"] by (simp add: load_done_def Let_def)
  qed
qed


section \<open>Leases\<close>

definition ref_count :: "manager \<Rightarrow> nat \<Rightarrow> int" where
  "ref_count s e = (\<Sum>l<next_l s. if l_entry (lh s l) = e \<and> \<not> l_released (lh s l) then 1 else 0)"

definition op_count :: "manager \<Rightarrow> nat \<Rightarrow> int" where
  "op_count s e = (\<Sum>l<next_l s. if l_entry (lh s l) = e then l_operations (lh s l) else 0)"

definition lease_ok :: "lease \<Rightarrow> bool" where
  "lease_ok x \<longleftrightarrow> 0 \<le> l_operations x \<and> (l_released x \<longleftrightarrow> l_closed x \<and> l_operations x = 0)"

definition leases_ok :: "manager \<Rightarrow> bool" where
  "leases_ok s \<longleftrightarrow> (\<forall>l < next_l s. l_entry (lh s l) < next_e s \<and> lease_ok (lh s l))
     \<and> (\<forall>e < next_e s. e_refs (eh s e) = ref_count s e \<and> e_ops (eh s e) = op_count s e)"

lemma sum_upd:
  fixes g :: "'a \<Rightarrow> int" and l n :: nat
  shows "l < n \<Longrightarrow> (\<Sum>i<n. g ((h(l := x)) i)) = (\<Sum>i<n. g (h i)) - g (h l) + g x"
proof (induction n)
  case (Suc n)
  show ?case
  proof (cases "l = n")
    case True
    have "(\<Sum>i<n. g ((h(n := x)) i)) = (\<Sum>i<n. g (h i))" by (rule sum.cong) simp_all
    with True show ?thesis by simp
  qed (use Suc in simp)
qed simp

lemma sum_fresh:
  fixes g :: "'a \<Rightarrow> int" and n :: nat
  shows "(\<Sum>i<Suc n. g ((h(n := x)) i)) = (\<Sum>i<n. g (h i)) + g x"
proof -
  have "(\<Sum>i<n. g ((h(n := x)) i)) = (\<Sum>i<n. g (h i))" by (rule sum.cong) simp_all
  then show ?thesis by simp
qed

lemma ref_count_pos:
  assumes "l < next_l s" "\<not> l_released (lh s l)"
  shows "0 < ref_count s (l_entry (lh s l))"
proof -
  have "(\<Sum>i \<in> {l}. if l_entry (lh s i) = l_entry (lh s l) \<and> \<not> l_released (lh s i) then 1 else 0 :: int)
      \<le> ref_count s (l_entry (lh s l))"
    unfolding ref_count_def by (rule sum_mono2) (use assms(1) in auto)
  then show ?thesis using assms(2) by simp
qed

lemma ref_count_le: "0 \<le> ref_count s e"
  unfolding ref_count_def by (rule sum_nonneg) simp

lemma op_count_ge:
  assumes "leases_ok s" "l < next_l s"
  shows "l_operations (lh s l) \<le> op_count s (l_entry (lh s l))"
proof -
  have "(\<Sum>i \<in> {l}. if l_entry (lh s i) = l_entry (lh s l) then l_operations (lh s i) else 0)
      \<le> op_count s (l_entry (lh s l))"
    unfolding op_count_def
    by (rule sum_mono2) (use assms in \<open>auto simp: leases_ok_def lease_ok_def\<close>)
  then show ?thesis by simp
qed

lemma leases_ok_same:
  assumes "leases_ok s" "lh t = lh s" "next_l t = next_l s" "next_e s = next_e t"
    and "\<And>e. e < next_e s \<Longrightarrow> e_refs (eh t e) = e_refs (eh s e) \<and> e_ops (eh t e) = e_ops (eh s e)"
  shows "leases_ok t"
proof -
  have "ref_count t = ref_count s" "op_count t = op_count s"
    unfolding fun_eq_iff ref_count_def op_count_def assms(2,3) by simp_all
  then show ?thesis using assms by (simp add: leases_ok_def)
qed

lemma leases_ok_publish:
  assumes ok: "leases_ok s" and eq: "lh t = lh s" "next_l t = next_l s" "next_e t = Suc (next_e s)"
    and new: "e_refs (eh t (next_e s)) = 0" "e_ops (eh t (next_e s)) = 0"
    and old: "\<And>e. e < next_e s \<Longrightarrow> eh t e = eh s e"
  shows "leases_ok t"
proof -
  have "ref_count t (next_e s) = 0" "op_count t (next_e s) = 0"
    unfolding ref_count_def op_count_def eq using ok by (auto simp: leases_ok_def intro!: sum.neutral)
  moreover have "ref_count t = ref_count s" "op_count t = op_count s"
    unfolding fun_eq_iff ref_count_def op_count_def eq(1,2) by simp_all
  ultimately show ?thesis
    using ok old new unfolding leases_ok_def eq by (auto simp: less_Suc_eq)
qed

text \<open>A step that changes one lease and its entry's counters by the same amounts.\<close>

lemma leases_ok_update:
  assumes ok: "leases_ok s" and l: "l < next_l s"
    and eq: "lh t = (lh s)(l := x)" "l_entry x = l_entry (lh s l)" "next_l t = next_l s" "next_e t = next_e s"
    and x: "lease_ok x"
    and refs: "e_refs (eh t (l_entry x)) = e_refs (eh s (l_entry x))
        - (if l_released (lh s l) then 0 else 1) + (if l_released x then 0 else 1)"
    and ops: "e_ops (eh t (l_entry x)) = e_ops (eh s (l_entry x)) - l_operations (lh s l) + l_operations x"
    and others: "\<And>e. e \<noteq> l_entry x \<Longrightarrow> e_refs (eh t e) = e_refs (eh s e) \<and> e_ops (eh t e) = e_ops (eh s e)"
  shows "leases_ok t"
proof -
  have rc: "ref_count t e = ref_count s e
      - (if l_entry (lh s l) = e \<and> \<not> l_released (lh s l) then 1 else 0)
      + (if l_entry x = e \<and> \<not> l_released x then 1 else 0)" for e
    unfolding ref_count_def eq(1,3) using sum_upd [OF l, of "\<lambda>y. if l_entry y = e \<and> \<not> l_released y then 1 else 0" "lh s" x] by simp
  have oc: "op_count t e = op_count s e - (if l_entry (lh s l) = e then l_operations (lh s l) else 0)
      + (if l_entry x = e then l_operations x else 0)" for e
    unfolding op_count_def eq(1,3) using sum_upd [OF l, of "\<lambda>y. if l_entry y = e then l_operations y else 0" "lh s" x] by simp
  have "e_refs (eh t e) = ref_count t e \<and> e_ops (eh t e) = op_count t e" if "e < next_e s" for e
    using ok that refs ops others [of e] eq(2) unfolding rc oc leases_ok_def by (cases "e = l_entry x") auto
  then show ?thesis
    using ok l x eq unfolding leases_ok_def by auto
qed

lemma leases_ok_new:
  assumes ok: "leases_ok s" and e: "e < next_e s"
    and t: "t = fst (ref_lease e s)"
  shows "leases_ok t"
proof -
  let ?x = "\<lparr>l_entry = e, l_closed = False, l_operations = 0, l_released = False\<rparr>"
  have eq: "lh t = (lh s)(next_l s := ?x)" "next_l t = Suc (next_l s)" "next_e t = next_e s"
    "eh t = (eh s)(e := (eh s e)\<lparr>e_refs := e_refs (eh s e) + 1\<rparr>)"
    using t by (simp_all add: section_eqs)
  have rc: "ref_count t e' = ref_count s e' + (if e = e' then 1 else 0)" for e'
    unfolding ref_count_def eq(1,2) using sum_fresh [of "\<lambda>y. if l_entry y = e' \<and> \<not> l_released y then 1 else 0" "lh s" "next_l s" ?x] by simp
  have oc: "op_count t e' = op_count s e'" for e'
    unfolding op_count_def eq(1,2) using sum_fresh [of "\<lambda>y. if l_entry y = e' then l_operations y else 0" "lh s" "next_l s" ?x] by simp
  show ?thesis
    using ok e unfolding leases_ok_def rc oc by (auto simp: eq less_Suc_eq lease_ok_def)
qed


section \<open>Maps\<close>

text \<open>The flight a key is being loaded by, the root a scope is at, and the entry a key is served
  from belong together.\<close>

definition unfinished :: "manager \<Rightarrow> nat \<Rightarrow> bool" where
  "unfinished s f \<longleftrightarrow> f < next_f s \<and> f_pc (fh s f) \<noteq> Done"

definition at_root :: "manager \<Rightarrow> nat \<Rightarrow> bool" where
  "at_root s f \<longleftrightarrow> gm_get (scopes s) (scope (f_key (fh s f))) = Some (f_key (fh s f), f_sequence (fh s f))"

definition maps_ok :: "manager \<Rightarrow> bool" where
  "maps_ok s \<longleftrightarrow>
     (\<forall>K f. gm_get (flights s) K = Some f \<longrightarrow> unfinished s f \<and> f_key (fh s f) = K)
     \<and> (\<forall>sc K q. gm_get (scopes s) sc = Some (K, q) \<longrightarrow> scope K = sc \<and> q \<le> sequence s)
     \<and> (\<forall>f < next_f s. f_sequence (fh s f) \<le> sequence s)
     \<and> (\<forall>f. unfinished s f \<longrightarrow> at_root s f \<longrightarrow> gm_get (flights s) (f_key (fh s f)) = Some f)
     \<and> (\<forall>K e. gm_get (entries s) K = Some e \<longrightarrow>
          gm_get (scopes s) (scope K) = Some (K, f_sequence (fh s (e_flight (eh s e)))))
     \<and> (\<forall>K e f. gm_get (entries s) K = Some e \<longrightarrow> gm_get (flights s) K = Some f \<longrightarrow> e_flight (eh s e) = f)
     \<and> (\<forall>f g. unfinished s f \<longrightarrow> unfinished s g \<longrightarrow> f_key (fh s f) = f_key (fh s g) \<longrightarrow>
          f_sequence (fh s f) = f_sequence (fh s g) \<longrightarrow> f = g)
     \<and> (\<forall>f \<ge> next_f s. \<not> loaded s f \<and> closes s f = 0)"

lemma maps_okD:
  assumes "maps_ok s"
  shows "gm_get (flights s) K = Some f \<Longrightarrow> unfinished s f \<and> f_key (fh s f) = K"
    and "gm_get (scopes s) sc = Some (K, q) \<Longrightarrow> scope K = sc \<and> q \<le> sequence s"
    and "f < next_f s \<Longrightarrow> f_sequence (fh s f) \<le> sequence s"
    and "unfinished s f \<Longrightarrow> at_root s f \<Longrightarrow> gm_get (flights s) (f_key (fh s f)) = Some f"
    and "gm_get (entries s) K = Some e \<Longrightarrow>
      gm_get (scopes s) (scope K) = Some (K, f_sequence (fh s (e_flight (eh s e))))"
    and "gm_get (entries s) K = Some e \<Longrightarrow> gm_get (flights s) K = Some f \<Longrightarrow> e_flight (eh s e) = f"
    and "unfinished s f \<Longrightarrow> unfinished s g \<Longrightarrow> f_key (fh s f) = f_key (fh s g) \<Longrightarrow>
      f_sequence (fh s f) = f_sequence (fh s g) \<Longrightarrow> f = g"
    and "next_f s \<le> f \<Longrightarrow> \<not> loaded s f \<and> closes s f = 0"
  using assms unfolding maps_ok_def by blast+

lemma maps_okI:
  assumes "\<And>K f. gm_get (flights s) K = Some f \<Longrightarrow> unfinished s f \<and> f_key (fh s f) = K"
    and "\<And>sc K q. gm_get (scopes s) sc = Some (K, q) \<Longrightarrow> scope K = sc \<and> q \<le> sequence s"
    and "\<And>f. f < next_f s \<Longrightarrow> f_sequence (fh s f) \<le> sequence s"
    and "\<And>f. unfinished s f \<Longrightarrow> at_root s f \<Longrightarrow> gm_get (flights s) (f_key (fh s f)) = Some f"
    and "\<And>K e. gm_get (entries s) K = Some e \<Longrightarrow>
      gm_get (scopes s) (scope K) = Some (K, f_sequence (fh s (e_flight (eh s e))))"
    and "\<And>K e f. gm_get (entries s) K = Some e \<Longrightarrow> gm_get (flights s) K = Some f \<Longrightarrow> e_flight (eh s e) = f"
    and "\<And>f g. unfinished s f \<Longrightarrow> unfinished s g \<Longrightarrow> f_key (fh s f) = f_key (fh s g) \<Longrightarrow>
      f_sequence (fh s f) = f_sequence (fh s g) \<Longrightarrow> f = g"
    and "\<And>f. next_f s \<le> f \<Longrightarrow> \<not> loaded s f \<and> closes s f = 0"
  shows "maps_ok s"
  using assms unfolding maps_ok_def by blast

text \<open>Steps that leave the maps alone except for removing entries.\<close>

lemma maps_ok_frame:
  assumes ok: "maps_ok s"
    and eq: "flights t = flights s" "scopes t = scopes s" "sequence t = sequence s" "next_f t = next_f s"
    and fl: "\<And>f. f < next_f s \<Longrightarrow> f_key (fh t f) = f_key (fh s f) \<and> f_sequence (fh t f) = f_sequence (fh s f)
        \<and> (f_pc (fh t f) = Done \<longleftrightarrow> f_pc (fh s f) = Done)"
    and en: "\<And>K e. gm_get (entries t) K = Some e \<Longrightarrow> gm_get (entries s) K = Some e
        \<and> e_flight (eh t e) = e_flight (eh s e) \<and> e_flight (eh s e) < next_f s"
    and fresh: "\<And>f. next_f s \<le> f \<Longrightarrow> loaded t f = loaded s f \<and> closes t f = closes s f"
  shows "maps_ok t"
proof -
  have un: "unfinished t f = unfinished s f" for f using fl by (auto simp: unfinished_def eq)
  have lt: "unfinished s f \<Longrightarrow> f < next_f s" for f by (simp add: unfinished_def)
  have ar: "unfinished s f \<Longrightarrow> at_root t f = at_root s f" for f
    using fl [OF lt] by (simp add: at_root_def eq)
  show ?thesis
  proof (rule maps_okI, goal_cases)
    case (1 K f)
    with maps_okD(1) [OF ok, of K f] fl [OF lt, of f] un show ?case by (simp add: eq)
  next
    case (2 sc K q)
    with maps_okD(2) [OF ok] show ?case by (simp add: eq)
  next
    case (3 f)
    with maps_okD(3) [OF ok, of f] fl [of f] show ?case by (simp add: eq)
  next
    case (4 f)
    with maps_okD(4) [OF ok, of f] fl [OF lt, of f] un ar show ?case by (simp add: eq)
  next
    case (5 K e)
    with en have "gm_get (entries s) K = Some e" "e_flight (eh t e) = e_flight (eh s e)" "e_flight (eh s e) < next_f s" by blast+
    with maps_okD(5) [OF ok, of K e] fl show ?case by (simp add: eq)
  next
    case (6 K e f)
    with en maps_okD(6) [OF ok, of K e f] show ?case by (simp add: eq)
  next
    case (7 f g)
    with maps_okD(7) [OF ok, of f g] fl [OF lt, of f] fl [OF lt, of g] un show ?case by simp
  next
    case (8 f)
    with maps_okD(8) [OF ok, of f] fresh [of f] show ?case by (simp add: eq)
  qed
qed

lemma maps_ok_finish:
  assumes ok: "maps_ok s" and f: "f < next_f s" and pc: "f_pc (fh s f) = Finishing errs"
    and own: "\<And>e. e < next_e s \<Longrightarrow> e_flight (eh s e) < next_f s" and ent: "entries_ok s"
  shows "maps_ok (finishFlight f s)"
proof -
  let ?t = "finishFlight f s"
  have eq: "scopes ?t = scopes s" "sequence ?t = sequence s" "next_f ?t = next_f s" "entries ?t = entries s"
    "eh ?t = eh s" "loaded ?t = loaded s" "closes ?t = closes s"
    "fh ?t = (fh s)(f := (fh s f)\<lparr>f_err := errs, f_pc := Done\<rparr>)"
    using pc by (simp_all add: finishFlight_def Let_def section_eqs)
  have fl: "gm_get (flights ?t) K = Some g \<longleftrightarrow> gm_get (flights s) K = Some g \<and> g \<noteq> f" for K g
  proof -
    have ft: "flights ?t = (if gm_get (flights s) (f_key (fh s f)) = Some f
        then gm_del (f_key (fh s f)) (flights s) else flights s)"
      using pc by (simp add: finishFlight_def Let_def section_eqs)
    have key: "gm_get (flights s) K = Some f \<longrightarrow> K = f_key (fh s f)"
      using maps_okD(1) [OF ok] by blast
    show ?thesis
    proof (cases "K = f_key (fh s f)")
      case True
      then show ?thesis unfolding ft by auto
    next
      case False
      with key show ?thesis unfolding ft by auto
    qed
  qed
  have un: "unfinished ?t g \<longleftrightarrow> unfinished s g \<and> g \<noteq> f" for g
    by (simp add: unfinished_def eq)
  have same: "f_key (fh ?t g) = f_key (fh s g)" "f_sequence (fh ?t g) = f_sequence (fh s g)" for g
    by (simp_all add: eq)
  have ar: "at_root ?t g = at_root s g" for g by (simp add: at_root_def eq)
  show ?thesis
  proof (rule maps_okI, goal_cases)
    case (1 K g) with maps_okD(1) [OF ok, of K g] show ?case unfolding fl un same by blast
  next
    case (2 sc K q) with maps_okD(2) [OF ok] show ?case by (simp only: eq)
  next
    case (3 g) with maps_okD(3) [OF ok, of g] show ?case by (simp only: eq(2,3) same)
  next
    case (4 g) with maps_okD(4) [OF ok, of g] show ?case unfolding fl un same ar by blast
  next
    case (5 K e) with maps_okD(5) [OF ok, of K e] show ?case by (simp only: eq(1,4,5) same)
  next
    case (6 K e g) with maps_okD(6) [OF ok, of K e g] show ?case by (simp only: fl eq(4,5))
  next
    case (7 g h) with maps_okD(7) [OF ok, of g h] show ?case by (simp only: un same)
  next
    case (8 g) with maps_okD(8) [OF ok, of g] show ?case by (simp add: eq)
  qed
qed

lemma maps_ok_publish_pending:
  assumes ok: "maps_ok s" and f: "f < next_f s" and pc: "f_pc (fh s f) = Loading" and cur: "flight_current s f"
    and own: "\<And>K e. gm_get (entries s) K = Some e \<Longrightarrow> e < next_e s"
  shows "maps_ok (publish_pending f (s\<lparr>loaded := (loaded s)(f := True)\<rparr>))"
proof -
  let ?t = "publish_pending f (s\<lparr>loaded := (loaded s)(f := True)\<rparr>)"
  have eq: "scopes ?t = scopes s" "sequence ?t = sequence s" "next_f ?t = next_f s" "flights ?t = flights s"
    "loaded ?t = (loaded s)(f := True)" "closes ?t = closes s"
    "entries ?t = gm_put (f_key (fh s f)) (next_e s) (entries s)"
    "e_flight (eh ?t (next_e s)) = f"
    by (simp_all add: publish_pending_def Let_def section_eqs)
  have eh: "e < next_e s \<Longrightarrow> eh ?t e = eh s e" for e by (simp add: publish_pending_def Let_def section_eqs)
  have same: "f_key (fh ?t g) = f_key (fh s g)" "f_sequence (fh ?t g) = f_sequence (fh s g)"
    "f_pc (fh ?t g) = Done \<longleftrightarrow> f_pc (fh s g) = Done" for g
    using pc by (simp_all add: publish_pending_def Let_def section_eqs)
  have un: "unfinished ?t g = unfinished s g" for g by (simp add: unfinished_def same eq)
  have ar: "at_root ?t g = at_root s g" for g by (simp add: at_root_def same eq)
  show ?thesis
  proof (rule maps_okI, goal_cases)
    case (1 K g) with maps_okD(1) [OF ok, of K g] show ?case by (simp only: eq un same)
  next
    case (2 sc K q) with maps_okD(2) [OF ok] show ?case by (simp only: eq)
  next
    case (3 g) with maps_okD(3) [OF ok, of g] show ?case by (simp only: eq(2,3) same)
  next
    case (4 g) with maps_okD(4) [OF ok, of g] show ?case by (simp only: eq(4) un same ar)
  next
    case (5 K e)
    show ?case
    proof (cases "K = f_key (fh s f)")
      case True
      with 5 have "e = next_e s" by (simp add: eq)
      then show ?thesis using cur True by (simp add: flight_current_def eq same)
    next
      case False
      with 5 have "gm_get (entries s) K = Some e" by (simp add: eq)
      with maps_okD(5) [OF ok this] own [OF this] eh [of e] show ?thesis by (simp add: eq same)
    qed
  next
    case (6 K e g)
    show ?case
    proof (cases "K = f_key (fh s f)")
      case True
      with 6 have "e = next_e s" "gm_get (flights s) K = Some g" by (simp_all add: eq)
      then show ?thesis using cur True by (simp add: flight_current_def eq)
    next
      case False
      with 6 have "gm_get (entries s) K = Some e" "gm_get (flights s) K = Some g" by (simp_all add: eq)
      with maps_okD(6) [OF ok this] own [of K e] eh [of e] show ?thesis by simp
    qed
  next
    case (7 g h) with maps_okD(7) [OF ok, of g h] show ?case by (simp only: un same)
  next
    case (8 g) with maps_okD(8) [OF ok, of g] f show ?case by (simp add: eq)
  qed
qed


text \<open>Moving a scope to another root.\<close>

lemma enter_scope_ok:
  assumes ok: "cache_ok s" "entries_ok s" "maps_ok s" and t: "enter_scope key s = (t, q)"
  shows "cache_ok t \<and> entries_ok t \<and> maps_ok t \<and> gm_get (scopes t) (scope key) = Some (key, q)"
proof (cases "gm_get (scopes s) (scope key) = Some (key, q)")
  case True
  then have "t = s" using t by (simp add: enter_scope_def)
  with ok True show ?thesis by simp
next
  case False
  let ?s = "s\<lparr>sequence := sequence s + 1, scopes := gm_put (scope key) (key, sequence s + 1) (scopes s)\<rparr>"
  from t False have t: "t = retireOtherEntries (scope key) key ?s" "q = sequence s + 1"
    and old: "\<And>q'. gm_get (scopes s) (scope key) \<noteq> Some (key, q')"
    by (auto simp: enter_scope_def split: option.splits if_splits prod.splits)
  have ok': "cache_ok ?s" "entries_ok ?s"
    using ok(1) cache_ok_same [OF ok(1), of ?s] ok(2) by (simp_all add: entries_ok_def)
  note ret = retireOtherEntries_ok [OF ok', of "scope key" key]
  have "rest t = rest ?s" using t(1) by (simp add: retireOtherEntries_def rest_fold)
  then have eq: "flights t = flights s" "scopes t = gm_put (scope key) (key, sequence s + 1) (scopes s)"
    "sequence t = sequence s + 1" "fh t = fh s" "next_f t = next_f s" "closes t = closes s" "loaded t = loaded s"
    and flt: "e_flight (eh t e) = e_flight (eh s e)" for e
    by (auto simp: rest_def fun_eq_iff)
  have en: "gm_get (entries t) K = (if K \<noteq> key \<and> scope K = scope key then None else gm_get (entries s) K)" for K
    using ret(3) t(1) by simp
  have en': "gm_get (entries t) K = Some e \<Longrightarrow> gm_get (entries s) K = Some e \<and> scope K \<noteq> scope key" for K e
    using en [of K] maps_okD(5) [OF ok(3), of K e] old by (auto split: if_splits)
  have un: "unfinished t f = unfinished s f" for f by (simp add: unfinished_def eq)
  have seq: "f_sequence (fh s f) \<le> sequence s" if "unfinished s f" for f
    using maps_okD(3) [OF ok(3)] that by (simp add: unfinished_def)
  have ar: "unfinished s f \<Longrightarrow> at_root t f \<Longrightarrow> at_root s f" for f
    using seq [of f] by (auto simp: at_root_def eq split: if_splits)
  have "maps_ok t"
  proof (rule maps_okI, goal_cases)
    case (1 K f) with maps_okD(1) [OF ok(3), of K f] show ?case by (simp add: eq un)
  next
    case (2 sc K q) with maps_okD(2) [OF ok(3), of sc K q] show ?case by (auto simp: eq split: if_splits)
  next
    case (3 f) with maps_okD(3) [OF ok(3), of f] show ?case by (simp add: eq)
  next
    case (4 f) with maps_okD(4) [OF ok(3), of f] ar [of f] show ?case by (simp add: eq un)
  next
    case (5 K e) with en' [of K e] maps_okD(5) [OF ok(3), of K e] show ?case by (simp add: eq flt)
  next
    case (6 K e f) with en' [of K e] maps_okD(6) [OF ok(3), of K e f] show ?case by (simp add: eq flt)
  next
    case (7 f g) with maps_okD(7) [OF ok(3), of f g] show ?case by (simp add: eq un)
  next
    case (8 f) with maps_okD(8) [OF ok(3), of f] show ?case by (simp add: eq)
  qed
  then show ?thesis using ret(1,2) t eq(2) by simp
qed

lemma not_retired_stage: "entry_ok p x k a \<Longrightarrow> \<not> e_retired x \<Longrightarrow> \<not> e_closing x \<and> (e_pending x \<longrightarrow> p = Releasing)"
  by (auto simp: stage_defs split: closerPc.splits flightPc.splits)

lemma no_entry_to_load:
  assumes ok: "cache_ok s" "entries_ok s" "maps_ok s" and cur: "gm_get (scopes s) (scope key) = Some (key, q)"
    and none: "current_flight s key q = None" "cached_entry s key = None"
  shows "gm_get (entries s) key = None"
proof (rule ccontr)
  assume "gm_get (entries s) key \<noteq> None"
  then obtain e where e: "gm_get (entries s) key = Some e" by blast
  then have e': "e < next_e s" "e_key (eh s e) = key" "\<not> e_retired (eh s e)"
    using ok(2) by (auto simp: entries_ok_def)
  let ?f = "e_flight (eh s e)"
  have f: "?f < next_f s" "f_entry (fh s ?f) = Some e" using cache_okD(2) [OF ok(1) e'(1)] by auto
  note pe = pair_entry [OF cache_okD(1) [OF ok(1) f(1)] f(2)]
  from pe have eok: "entry_ok (f_pc (fh s ?f)) (eh s e) (closes s ?f) (e \<in> set (allEntries s))" and key: "f_key (fh s ?f) = key"
    using e'(2) by auto
  from not_retired_stage [OF eok e'(3)] none(2) e e'(3) have pc: "f_pc (fh s ?f) = Releasing"
    by (auto simp: cached_entry_def ready_entry_def split: if_splits)
  then have un: "unfinished s ?f" using f(1) by (simp add: unfinished_def)
  have seq: "f_sequence (fh s ?f) = q" using maps_okD(5) [OF ok(3) e] cur by simp
  then have "at_root s ?f" using cur key by (simp add: at_root_def)
  from maps_okD(4) [OF ok(3) un this] key have "gm_get (flights s) key = Some ?f" by simp
  with none(1) seq show False by (simp add: current_flight_def)
qed

lemma maps_ok_new_flight:
  assumes ok: "cache_ok s" "entries_ok s" "maps_ok s" and cur: "gm_get (scopes s) (scope key) = Some (key, q)"
    and none: "current_flight s key q = None" "cached_entry s key = None"
  shows "maps_ok (new_flight key q s)"
proof -
  let ?t = "new_flight key q s" and ?n = "next_f s"
  have no: "gm_get (entries s) key = None" by (rule no_entry_to_load [OF assms])
  have eq: "scopes ?t = scopes s" "sequence ?t = sequence s" "next_f ?t = Suc ?n" "entries ?t = entries s"
    "eh ?t = eh s" "loaded ?t = loaded s" "closes ?t = closes s" "flights ?t = gm_put key ?n (flights s)"
    "fh ?t ?n = \<lparr>f_key = key, f_sequence = q, f_entry = None, f_err = [], f_pc = Retaining\<rparr>"
    by (simp_all add: new_flight_def)
  have old: "f \<noteq> ?n \<Longrightarrow> fh ?t f = fh s f" for f by (simp add: new_flight_def)
  have un: "unfinished ?t f \<longleftrightarrow> f = ?n \<or> unfinished s f" for f
    by (cases "f = ?n") (auto simp: unfinished_def eq old less_Suc_eq)
  have nn: "unfinished s f \<Longrightarrow> f \<noteq> ?n" for f by (auto simp: unfinished_def)
  have clash: False if "unfinished s f" "f_key (fh s f) = key" "f_sequence (fh s f) = q" for f
  proof -
    from that cur have "at_root s f" by (simp add: at_root_def)
    from maps_okD(4) [OF ok(3) that(1) this] that none(1) show False by (simp add: current_flight_def)
  qed
  have own: "e_flight (eh s e) \<noteq> ?n" if "gm_get (entries s) K = Some e" for K e
    using ok(2) that cache_okD(2) [OF ok(1), of e] by (auto simp: entries_ok_def)
  show ?thesis
  proof (rule maps_okI, goal_cases)
    case (1 K f)
    show ?case
    proof (cases "K = key")
      case True
      with 1 have f: "f = ?n" by (simp add: eq)
      show ?thesis unfolding f using True by (simp add: eq un)
    next
      case False
      with 1 have "gm_get (flights s) K = Some f" by (simp add: eq)
      from maps_okD(1) [OF ok(3) this] nn [of f] show ?thesis by (simp add: un old)
    qed
  next
    case (2 sc K q) with maps_okD(2) [OF ok(3)] show ?case by (simp only: eq)
  next
    case (3 f)
    with maps_okD(3) [OF ok(3), of f] maps_okD(2) [OF ok(3) cur] show ?case
      by (cases "f = ?n") (simp_all add: eq old)
  next
    case (4 f)
    show ?case
    proof (cases "f = ?n")
      case True then show ?thesis by (simp add: eq)
    next
      case False
      with 4 have f: "unfinished s f" "at_root s f" by (simp_all add: un at_root_def eq old)
      have "f_key (fh s f) \<noteq> key" using clash [OF f(1)] f(2) cur by (auto simp: at_root_def)
      with maps_okD(4) [OF ok(3) f] show ?thesis by (simp add: eq old False)
    qed
  next
    case (5 K e)
    then have e: "gm_get (entries s) K = Some e" by (simp add: eq)
    from maps_okD(5) [OF ok(3) e] own [OF e] show ?case by (simp add: eq old)
  next
    case (6 K e f)
    then have e: "gm_get (entries s) K = Some e" by (simp add: eq)
    with no have "K \<noteq> key" by auto
    with 6 have "gm_get (flights s) K = Some f" by (simp add: eq)
    from maps_okD(6) [OF ok(3) e this] show ?case by (simp add: eq)
  next
    case (7 f g)
    have sides: "f = ?n \<or> unfinished s f" "g = ?n \<or> unfinished s g" using 7(1,2) by (simp_all add: un)
    show ?case
    proof (cases "f = ?n"; cases "g = ?n")
      assume n: "f = ?n" "g \<noteq> ?n"
      have "key = f_key (fh s g)" "q = f_sequence (fh s g)"
        using 7(3,4) unfolding n(1) eq(9) old [OF n(2)] by simp_all
      with sides n clash [of g] show ?thesis by blast
    next
      assume n: "f \<noteq> ?n" "g = ?n"
      have "f_key (fh s f) = key" "f_sequence (fh s f) = q"
        using 7(3,4) unfolding n(2) eq(9) old [OF n(1)] by simp_all
      with sides n clash [of f] show ?thesis by blast
    next
      assume n: "f \<noteq> ?n" "g \<noteq> ?n"
      with 7(3,4) sides maps_okD(7) [OF ok(3), of f g] show ?thesis by (simp add: old [OF n(1)] old [OF n(2)])
    qed simp
  next
    case (8 f) with maps_okD(8) [OF ok(3), of f] show ?case by (simp add: eq)
  qed
qed


section \<open>Counters\<close>

definition drain_ok :: "manager \<Rightarrow> bool" where
  "drain_ok s \<longleftrightarrow> (drainedDone s \<longleftrightarrow> shutdown s \<and> loads s = 0 \<and> allEntries s = [])
     \<and> loads s = (\<Sum>f<next_f s. if f_pc (fh s f) = Done then 0 else 1)"

definition cache_inv :: "manager \<Rightarrow> bool" where
  "cache_inv s \<longleftrightarrow> cache_ok s \<and> entries_ok s \<and> maps_ok s \<and> leases_ok s \<and> drain_ok s"

lemma cache_invI: "cache_ok s \<Longrightarrow> entries_ok s \<Longrightarrow> maps_ok s \<Longrightarrow> leases_ok s \<Longrightarrow> drain_ok s \<Longrightarrow> cache_inv s"
  by (simp add: cache_inv_def)

lemma cache_invD:
  "cache_inv s \<Longrightarrow> cache_ok s" "cache_inv s \<Longrightarrow> entries_ok s" "cache_inv s \<Longrightarrow> maps_ok s"
  "cache_inv s \<Longrightarrow> leases_ok s" "cache_inv s \<Longrightarrow> drain_ok s"
  by (simp_all add: cache_inv_def)

lemma entries_ok_same:
  assumes "entries_ok s" "entries t = entries s" "next_e t = next_e s" "shutdown t = shutdown s"
    and "\<And>e. e < next_e s \<Longrightarrow> e_key (eh t e) = e_key (eh s e) \<and> e_retired (eh t e) = e_retired (eh s e)"
  shows "entries_ok t"
proof -
  have "(e < next_e s \<and> e_key (eh t e) = K \<and> \<not> e_retired (eh t e))
      = (e < next_e s \<and> e_key (eh s e) = K \<and> \<not> e_retired (eh s e))" for K e
    using assms(5) [of e] by auto
  then show ?thesis using assms(1) unfolding entries_ok_def assms(2-4) by simp
qed

text \<open>Retired entries are out of the map, so scheduling a close never removes one from it.\<close>

lemma schedule_entries:
  assumes "entries_ok s" "e < next_e s"
  shows "entries (scheduleEntryClose e s) = entries s"
  using assms by (auto simp: scheduleEntryClose_eq entries_ok_def idle_def)

lemma drain_ok_frame:
  assumes ok: "drain_ok s" and eq: "shutdown t = shutdown s" "loads t = loads s" "next_f t = next_f s"
    and fl: "\<And>f. f < next_f s \<Longrightarrow> f_pc (fh t f) = Done \<longleftrightarrow> f_pc (fh s f) = Done"
    and all: "allEntries t = allEntries s \<and> drainedDone t = drainedDone s
      \<or> (drainedDone t \<longleftrightarrow> drainedDone s \<or> shutdown s \<and> loads s = 0 \<and> allEntries t = [])
          \<and> (allEntries s = [] \<longrightarrow> allEntries t = [])"
  shows "drain_ok t"
proof -
  have "(\<Sum>f<next_f s. if f_pc (fh t f) = Done then 0 else 1 :: int) = (\<Sum>f<next_f s. if f_pc (fh s f) = Done then 0 else 1)"
    by (rule sum.cong) (simp_all add: fl)
  then show ?thesis using ok all unfolding drain_ok_def eq by auto
qed

lemma loads_pos:
  assumes "drain_ok s" "f < next_f s" "f_pc (fh s f) \<noteq> Done"
  shows "0 < loads s"
proof -
  have "(\<Sum>g \<in> {f}. if f_pc (fh s g) = Done then 0 else 1 :: int) \<le> (\<Sum>g<next_f s. if f_pc (fh s g) = Done then 0 else 1)"
    by (rule sum_mono2) (use assms(2) in auto)
  then show ?thesis using assms by (simp add: drain_ok_def)
qed

lemma loads_nonneg: "drain_ok s \<Longrightarrow> 0 \<le> loads s"
  unfolding drain_ok_def by (auto intro: sum_nonneg)

lemma drain_ok_finish:
  assumes ok: "drain_ok s" and f: "f < next_f s" and pc: "f_pc (fh s f) = Finishing errs"
  shows "drain_ok (finishFlight f s)"
proof -
  let ?t = "finishFlight f s" and ?x = "(fh s f)\<lparr>f_err := errs, f_pc := Done\<rparr>"
  have eq: "next_f ?t = next_f s" "shutdown ?t = shutdown s" "allEntries ?t = allEntries s" "loads ?t = loads s - 1"
    "fh ?t = (fh s)(f := ?x)"
    "drainedDone ?t \<longleftrightarrow> drainedDone s \<or> shutdown s \<and> loads s - 1 = 0 \<and> allEntries s = []"
    using pc by (simp_all add: finishFlight_def Let_def section_eqs)
  have "\<not> drainedDone s" using loads_pos [OF ok f] pc ok by (simp add: drain_ok_def)
  moreover have "(\<Sum>g<next_f s. if f_pc (fh ?t g) = Done then 0 else 1 :: int) = loads s - 1"
    using sum_upd [OF f, of "\<lambda>y. if f_pc y = Done then 0 else 1" "fh s" ?x] ok pc
    unfolding eq(5) by (simp add: drain_ok_def)
  ultimately show ?thesis unfolding drain_ok_def eq by simp
qed

lemma drain_ok_new_flight:
  assumes ok: "drain_ok s" and ns: "\<not> shutdown s"
  shows "drain_ok (new_flight key q s)"
proof -
  let ?t = "new_flight key q s"
  have eq: "next_f ?t = Suc (next_f s)" "shutdown ?t = shutdown s" "loads ?t = loads s + 1" "drainedDone ?t = drainedDone s"
    "fh ?t = (fh s)(next_f s := \<lparr>f_key = key, f_sequence = q, f_entry = None, f_err = [], f_pc = Retaining\<rparr>)"
    by (simp_all add: new_flight_def)
  have "(\<Sum>f<Suc (next_f s). if f_pc (fh ?t f) = Done then 0 else 1 :: int)
      = (\<Sum>f<next_f s. if f_pc (fh s f) = Done then 0 else 1) + 1"
    unfolding eq(5) using sum_fresh [of "\<lambda>y. if f_pc y = Done then 0 else 1" "fh s" "next_f s"] by simp
  then show ?thesis using ok ns unfolding drain_ok_def eq by simp
qed


section \<open>Every step keeps the invariant\<close>

lemma entry_flight_lt: "cache_ok s \<Longrightarrow> entries_ok s \<Longrightarrow> gm_get (entries s) K = Some e \<Longrightarrow> e_flight (eh s e) < next_f s"
  using cache_okD(2) by (auto simp: entries_ok_def)

text \<open>A step that moves a goroutine without touching the maps, the entries or the leases.\<close>

lemma cache_inv_quiet:
  assumes inv: "cache_inv s" and ok: "cache_ok t"
    and eq: "entries t = entries s" "allEntries t = allEntries s" "flights t = flights s" "scopes t = scopes s"
      "sequence t = sequence s" "loads t = loads s" "shutdown t = shutdown s" "drainedDone t = drainedDone s"
      "eh t = eh s" "lh t = lh s" "next_e t = next_e s" "next_f t = next_f s" "next_l t = next_l s"
    and fl: "\<And>f. f < next_f s \<Longrightarrow> f_key (fh t f) = f_key (fh s f) \<and> f_sequence (fh t f) = f_sequence (fh s f)
        \<and> (f_pc (fh t f) = Done \<longleftrightarrow> f_pc (fh s f) = Done)"
    and fresh: "\<And>f. next_f s \<le> f \<Longrightarrow> loaded t f = loaded s f \<and> closes t f = closes s f"
  shows "cache_inv t"
proof (rule cache_invI [OF ok])
  show "entries_ok t" by (rule entries_ok_same [OF cache_invD(2) [OF inv]]) (simp_all add: eq)
  show "maps_ok t"
    by (rule maps_ok_frame [OF cache_invD(3) [OF inv] eq(3,4,5) eq(12) fl])
      (use fresh entry_flight_lt [OF cache_invD(1) [OF inv] cache_invD(2) [OF inv]] in \<open>simp_all add: eq\<close>)
  show "leases_ok t" by (rule leases_ok_same [OF cache_invD(4) [OF inv]]) (simp_all add: eq)
  show "drain_ok t" by (rule drain_ok_frame [OF cache_invD(5) [OF inv]]) (use fl in \<open>simp_all add: eq\<close>)
qed

lemma cache_inv_retain:
  assumes "cache_inv s" "f < next_f s" "f_pc (fh s f) = Retaining"
  shows "cache_inv (retain_done f b s)"
  by (rule cache_inv_quiet [OF assms(1) cache_ok_retain [OF cache_invD(1) [OF assms(1)] assms(2,3)]])
    (use assms in \<open>simp_all add: retain_done_def section_eqs\<close>)

lemma cache_inv_check:
  assumes "cache_inv s" "f < next_f s" "f_pc (fh s f) = Checking"
  shows "cache_inv (check_flight f b s)"
  by (rule cache_inv_quiet [OF assms(1) cache_ok_check [OF cache_invD(1) [OF assms(1)] assms(2,3)]])
    (use assms in \<open>simp_all add: check_flight_def section_eqs\<close>)

lemma cache_inv_discard:
  assumes "cache_inv s" "f < next_f s" "f_pc (fh s f) = Discarding errs"
  shows "cache_inv (discard_close f b s)"
  by (rule cache_inv_quiet [OF assms(1) cache_ok_discard [OF cache_invD(1) [OF assms(1)] assms(2,3)]])
    (use assms in \<open>simp_all add: discard_close_def section_eqs\<close>)

lemma cache_inv_release:
  assumes "cache_inv s" "f < next_f s" "f_pc (fh s f) = ReleasingOnly errs"
  shows "cache_inv (release_only f b s)"
  by (rule cache_inv_quiet [OF assms(1) cache_ok_release [OF cache_invD(1) [OF assms(1)] assms(2,3)]])
    (use assms in \<open>simp_all add: release_only_def section_eqs\<close>)

lemma cache_inv_close_own:
  assumes "cache_inv s" "f < next_f s" "f_pc (fh s f) = Closing errs"
  shows "cache_inv (close_unpublished f b s)"
  by (rule cache_inv_quiet [OF assms(1) cache_ok_close_own [OF cache_invD(1) [OF assms(1)] assms(2,3)]])
    (use assms in \<open>simp_all add: close_unpublished_def section_eqs\<close>)

lemma cache_inv_load:
  assumes inv: "cache_inv s" and f: "f < next_f s" and pc: "f_pc (fh s f) = Loading"
  shows "cache_inv (load_done f b hc s)"
proof -
  note ok = cache_ok_load [OF cache_invD(1) [OF inv] f pc, of b hc]
  let ?s = "s\<lparr>loaded := (loaded s)(f := hc)\<rparr>"
  show ?thesis
  proof (cases "b \<and> hc \<and> \<not> shutdown s \<and> flight_current s f")
    case False
    let ?errs = "if \<not> b \<or> \<not> hc then [LoadFailed] else if shutdown s then [ManagerClosed] else [RootRetired]"
    have "load_done f b hc s = set_pc f (if hc then Discarding ?errs else ReleasingOnly ?errs) ?s"
      using False by (auto simp: load_done_def Let_def flight_current_def)
    then show ?thesis
      by (intro cache_inv_quiet [OF inv ok]) (use f pc in \<open>simp_all add: section_eqs\<close>)
  next
    case True
    then have hc: "hc = True" and cur: "flight_current s f" and ns: "\<not> shutdown s" by simp_all
    have t: "load_done f b hc s = publish_pending f (s\<lparr>loaded := (loaded s)(f := True)\<rparr>)"
      using True by (simp add: load_done_def Let_def flight_current_def)
    let ?t = "publish_pending f (s\<lparr>loaded := (loaded s)(f := True)\<rparr>)"
    have entries_lt: "gm_get (entries s) K = Some e \<Longrightarrow> e < next_e s" for K e
      using cache_invD(2) [OF inv] by (simp add: entries_ok_def)
    have eq: "eh ?t = (eh s)(next_e s := \<lparr>e_key = f_key (fh s f), e_flight = f, e_refs = 0, e_ops = 0,
               e_pending = True, e_retired = False, e_closing = False, e_closer = NoCloser\<rparr>)"
      "next_e ?t = Suc (next_e s)" "entries ?t = gm_put (f_key (fh s f)) (next_e s) (entries s)"
      "shutdown ?t = shutdown s" "lh ?t = lh s" "next_l ?t = next_l s" "loads ?t = loads s" "next_f ?t = next_f s"
      "drainedDone ?t = drainedDone s" "allEntries ?t = next_e s # allEntries s"
      by (simp_all add: publish_pending_def Let_def section_eqs)
    have none: "gm_get (entries s) (f_key (fh s f)) = None"
    proof (rule ccontr)
      assume "gm_get (entries s) (f_key (fh s f)) \<noteq> None"
      then obtain e where e: "gm_get (entries s) (f_key (fh s f)) = Some e" by blast
      have "e_flight (eh s e) = f"
        using maps_okD(6) [OF cache_invD(3) [OF inv] e] cur by (simp add: flight_current_def)
      with cache_okD(2) [OF cache_invD(1) [OF inv] entries_lt [OF e]] have "f_entry (fh s f) = Some e" by simp
      with early_flight(1) [OF cache_okD(1) [OF cache_invD(1) [OF inv] f]] pc show False by simp
    qed
    have "cache_inv ?t"
    proof (rule cache_invI)
      show "cache_ok ?t" by (rule cache_ok_publish_pending [OF cache_invD(1) [OF inv] f pc])
      show "maps_ok ?t" by (rule maps_ok_publish_pending [OF cache_invD(3) [OF inv] f pc cur entries_lt])
      show "leases_ok ?t" by (rule leases_ok_publish [OF cache_invD(4) [OF inv]]) (simp_all add: eq)
      have dn: "f_pc (fh ?t g) = Done \<longleftrightarrow> f_pc (fh s g) = Done" for g
        using pc by (simp add: publish_pending_def Let_def section_eqs)
      show "drain_ok ?t"
        using cache_invD(5) [OF inv] ns unfolding drain_ok_def eq dn by simp
      have ent: "gm_get (entries s) K = Some e \<longleftrightarrow> e < next_e s \<and> e_key (eh s e) = K \<and> \<not> e_retired (eh s e)" for K e
        using cache_invD(2) [OF inv] by (simp add: entries_ok_def)
      have "gm_get (entries ?t) K = Some e \<longleftrightarrow> e < Suc (next_e s) \<and> e_key (eh ?t e) = K \<and> \<not> e_retired (eh ?t e)" for K e
        using ent [of K e] none entries_lt [of K e] unfolding eq
        by (cases "e = next_e s"; cases "K = f_key (fh s f)") auto
      then show "entries_ok ?t"
        using cache_invD(2) [OF inv] ns unfolding entries_ok_def eq by simp
    qed
    then show ?thesis unfolding t .
  qed
qed


lemma cache_inv_publish:
  assumes inv: "cache_inv s" and f: "f < next_f s" and pc: "f_pc (fh s f) = Releasing"
    and e: "f_entry (fh s f) = Some e"
  shows "cache_inv (release_pending f e b s)"
proof -
  let ?t = "release_pending f e b s" and ?k = "f_key (fh s f)"
  note pe = pair_entry [OF cache_okD(1) [OF cache_invD(1) [OF inv] f] e]
  have own: "e < next_e s" "e_key (eh s e) = ?k" "e_flight (eh s e) = f" using pe by auto
  have frame: "flights ?t = flights s" "scopes ?t = scopes s" "sequence ?t = sequence s" "next_f ?t = next_f s"
    "next_e ?t = next_e s" "shutdown ?t = shutdown s" "lh ?t = lh s" "next_l ?t = next_l s" "loads ?t = loads s"
    "drainedDone ?t = drainedDone s" "allEntries ?t = allEntries s" "loaded ?t = loaded s" "closes ?t = closes s"
    by (simp_all add: release_pending_def Let_def section_eqs)
  have fl: "f_key (fh ?t g) = f_key (fh s g) \<and> f_sequence (fh ?t g) = f_sequence (fh s g)
      \<and> (f_pc (fh ?t g) = Done \<longleftrightarrow> f_pc (fh s g) = Done)" for g
    using pc by (simp add: release_pending_def Let_def section_eqs)
  have eh: "e_flight (eh ?t e') = e_flight (eh s e')" "e_key (eh ?t e') = e_key (eh s e')"
    "e_refs (eh ?t e') = e_refs (eh s e')" "e_ops (eh ?t e') = e_ops (eh s e')"
    "e' \<noteq> e \<Longrightarrow> eh ?t e' = eh s e'" for e'
    by (auto simp: release_pending_def Let_def section_eqs)
  have ent: "gm_get (entries s) K = Some e' \<longleftrightarrow> e' < next_e s \<and> e_key (eh s e') = K \<and> \<not> e_retired (eh s e')" for K e'
    using cache_invD(2) [OF inv] by (simp add: entries_ok_def)
  have en: "entries ?t = entries s \<and> e_retired (eh ?t e) = e_retired (eh s e)
      \<or> entries ?t = gm_del ?k (entries s) \<and> gm_get (entries s) ?k = Some e \<and> e_retired (eh ?t e)
      \<or> entries ?t = entries s \<and> gm_get (entries s) ?k \<noteq> Some e \<and> e_retired (eh ?t e)"
    by (auto simp: release_pending_def Let_def section_eqs)
  have ent': "gm_get (entries ?t) K = Some e' \<longleftrightarrow> e' < next_e s \<and> e_key (eh ?t e') = K \<and> \<not> e_retired (eh ?t e')" for K e'
  proof (cases "e' = e")
    case True
    show ?thesis using en ent [of K e] own unfolding True eh(2) by (elim disjE conjE) auto
  next
    case False
    show ?thesis using en ent [of K e'] ent [of ?k e'] own False unfolding eh(2) eh(5) [OF False]
      by (elim disjE conjE) auto
  qed
  show ?thesis
  proof (rule cache_invI)
    show "cache_ok ?t" by (rule cache_ok_publish [OF cache_invD(1) [OF inv] f pc e])
    have "gm_ok (entries ?t)" "shutdown s \<longrightarrow> entries ?t = []"
      using cache_invD(2) [OF inv] en by (auto simp: entries_ok_def gm_del_def gm_ok_def distinct_map_filter)
    then show "entries_ok ?t" using ent' unfolding entries_ok_def frame by blast
    show "maps_ok ?t"
    proof (rule maps_ok_frame [OF cache_invD(3) [OF inv] frame(1-4) fl])
      fix K e' assume t: "gm_get (entries ?t) K = Some e'"
      then have "e' < next_e s" using ent' by simp
      then have "e_flight (eh s e') < next_f s" using cache_okD(2) [OF cache_invD(1) [OF inv]] by simp
      then show "gm_get (entries s) K = Some e' \<and> e_flight (eh ?t e') = e_flight (eh s e') \<and> e_flight (eh s e') < next_f s"
        using t en eh(1) by (auto split: if_splits)
    qed (simp_all add: frame)
    show "leases_ok ?t" by (rule leases_ok_same [OF cache_invD(4) [OF inv]]) (simp_all add: frame eh)
    show "drain_ok ?t" by (rule drain_ok_frame [OF cache_invD(5) [OF inv]]) (simp_all add: frame fl)
  qed
qed

text \<open>Steps that only change the flight's or an entry's own progress and the tracked entries.\<close>

lemma cache_inv_forget:
  assumes inv: "cache_inv s" and ok: "cache_ok t"
    and eq: "entries t = entries s" "flights t = flights s" "scopes t = scopes s"
      "sequence t = sequence s" "loads t = loads s" "shutdown t = shutdown s"
      "lh t = lh s" "next_e t = next_e s" "next_f t = next_f s" "next_l t = next_l s" "loaded t = loaded s"
    and fl: "\<And>f. f_key (fh t f) = f_key (fh s f) \<and> f_sequence (fh t f) = f_sequence (fh s f)
        \<and> (f_pc (fh t f) = Done \<longleftrightarrow> f_pc (fh s f) = Done)"
    and eh: "\<And>e. e_key (eh t e) = e_key (eh s e) \<and> e_flight (eh t e) = e_flight (eh s e)
        \<and> e_retired (eh t e) = e_retired (eh s e) \<and> e_refs (eh t e) = e_refs (eh s e) \<and> e_ops (eh t e) = e_ops (eh s e)"
    and fresh: "\<And>f. next_f s \<le> f \<Longrightarrow> closes t f = closes s f"
    and all: "allEntries t = allEntries s \<and> drainedDone t = drainedDone s
      \<or> (drainedDone t \<longleftrightarrow> drainedDone s \<or> shutdown s \<and> loads s = 0 \<and> allEntries t = [])
          \<and> (allEntries s = [] \<longrightarrow> allEntries t = [])"
  shows "cache_inv t"
proof (rule cache_invI [OF ok])
  show "entries_ok t" by (rule entries_ok_same [OF cache_invD(2) [OF inv]]) (simp_all add: eq eh)
  show "maps_ok t"
    by (rule maps_ok_frame [OF cache_invD(3) [OF inv] eq(2,3,4) eq(9) fl])
      (use fresh eh entry_flight_lt [OF cache_invD(1) [OF inv] cache_invD(2) [OF inv]] in \<open>simp_all add: eq\<close>)
  show "leases_ok t" by (rule leases_ok_same [OF cache_invD(4) [OF inv]]) (simp_all add: eq eh)
  show "drain_ok t" by (rule drain_ok_frame [OF cache_invD(5) [OF inv]]) (use fl all in \<open>simp_all add: eq\<close>)
qed

lemma cache_inv_forget_own:
  assumes "cache_inv s" "f < next_f s" "f_pc (fh s f) = Forgetting errs" "f_entry (fh s f) = Some e"
  shows "cache_inv (forget_unpublished f e s)"
  by (rule cache_inv_forget [OF assms(1) cache_ok_forget_own [OF cache_invD(1) [OF assms(1)] assms(2-4)]])
    (use assms in \<open>simp_all add: forget_unpublished_def section_eqs\<close>)

lemma cache_inv_closer:
  assumes inv: "cache_inv s" and e: "e < next_e s" and pc: "e_closer (eh s e) = CloserStarted"
  shows "cache_inv (closer_close e b s)"
  by (rule cache_inv_forget [OF inv cache_ok_closer [OF cache_invD(1) [OF inv] e pc]])
    (use cache_okD(2) [OF cache_invD(1) [OF inv] e] in \<open>auto simp: closer_close_def section_eqs\<close>)

lemma cache_inv_closer_end:
  assumes inv: "cache_inv s" and e: "e < next_e s" and pc: "e_closer (eh s e) = CloserClosed"
  shows "cache_inv (closer_forget e s)"
  by (rule cache_inv_forget [OF inv cache_ok_closer_end [OF cache_invD(1) [OF inv] e pc]])
    (auto simp: closer_forget_def section_eqs)

lemma cache_inv_finish:
  assumes inv: "cache_inv s" and f: "f < next_f s" and pc: "f_pc (fh s f) = Finishing errs"
  shows "cache_inv (finishFlight f s)"
proof (rule cache_invI)
  show "cache_ok (finishFlight f s)" by (rule cache_ok_finish [OF cache_invD(1) [OF inv] f pc])
  show "entries_ok (finishFlight f s)"
    by (rule entries_ok_same [OF cache_invD(2) [OF inv]]) (use pc in \<open>simp_all add: finishFlight_def Let_def section_eqs\<close>)
  show "maps_ok (finishFlight f s)"
    by (rule maps_ok_finish [OF cache_invD(3) [OF inv] f pc _ cache_invD(2) [OF inv]])
      (use cache_okD(2) [OF cache_invD(1) [OF inv]] in blast)
  show "leases_ok (finishFlight f s)"
    by (rule leases_ok_same [OF cache_invD(4) [OF inv]]) (use pc in \<open>simp_all add: finishFlight_def Let_def section_eqs\<close>)
  show "drain_ok (finishFlight f s)" by (rule drain_ok_finish [OF cache_invD(5) [OF inv] f pc])
qed


text \<open>Steps that use an entry: references, searches, and their ends.\<close>

lemma entry_ok_ref: "entry_ok p x k a \<Longrightarrow> \<not> e_pending x \<Longrightarrow> \<not> e_closing x \<Longrightarrow> \<not> e_retired x \<Longrightarrow> entry_ok p (x\<lparr>e_refs := r\<rparr>) k a"
  by (auto simp: stage_defs split: closerPc.splits flightPc.splits)

lemma entry_ok_op: "entry_ok p x k a \<Longrightarrow> \<not> e_pending x \<Longrightarrow> \<not> e_closing x \<Longrightarrow> \<not> e_retired x \<Longrightarrow> entry_ok p (x\<lparr>e_ops := n\<rparr>) k a"
  by (auto simp: stage_defs split: closerPc.splits flightPc.splits)

lemma cache_inv_entry:
  assumes inv: "cache_inv s" and e: "e < next_e s"
    and eq: "entries t = entries s" "allEntries t = allEntries s" "flights t = flights s" "scopes t = scopes s"
      "sequence t = sequence s" "loads t = loads s" "shutdown t = shutdown s" "fh t = fh s"
      "next_e t = next_e s" "next_f t = next_f s" "loaded t = loaded s" "closes t = closes s"
    and eh: "eh t = (eh s)(e := x)" "e_key x = e_key (eh s e)" "e_flight x = e_flight (eh s e)"
      "e_retired x = e_retired (eh s e)"
    and en: "\<And>p k a. entry_ok p (eh s e) k a \<Longrightarrow> entry_ok p x k a"
    and lease: "leases_ok t"
    and drained: "drainedDone t = drainedDone s \<or> (drainedDone t \<longleftrightarrow> drainedDone s \<or> shutdown s \<and> loads s = 0 \<and> allEntries s = [])"
  shows "cache_inv t"
proof (rule cache_invI [OF _ _ _ lease])
  show "cache_ok t"
    by (rule cache_ok_eh [OF cache_invD(1) [OF inv] e eq(9,10,8,11,12,2) eh(1) eh(3,2) en])
  show "entries_ok t" by (rule entries_ok_same [OF cache_invD(2) [OF inv]]) (simp_all add: eq eh)
  show "maps_ok t"
    by (rule maps_ok_frame [OF cache_invD(3) [OF inv] eq(3,4,5) eq(10)])
      (use eh entry_flight_lt [OF cache_invD(1) [OF inv] cache_invD(2) [OF inv]] in \<open>simp_all add: eq\<close>)
  show "drain_ok t"
    by (rule drain_ok_frame [OF cache_invD(5) [OF inv]]) (use drained in \<open>auto simp: eq\<close>)
qed

lemma cache_inv_ref_lease:
  assumes inv: "cache_inv s" and e: "e < next_e s" and ready: "ready_entry s e"
  shows "cache_inv (fst (ref_lease e s))"
  by (rule cache_inv_entry [OF inv e, where x = "(eh s e)\<lparr>e_refs := e_refs (eh s e) + 1\<rparr>"])
    (use ready in \<open>simp_all add: ready_entry_def section_eqs entry_ok_ref\<close>,
     use leases_ok_new [OF cache_invD(4) [OF inv] e refl] in \<open>simp add: section_eqs\<close>)

lemma cache_inv_search:
  assumes inv: "cache_inv s" and l: "l < next_l s" and t: "Search_begin l s = (t, r)"
  shows "cache_inv t"
proof (cases "r = None")
  case False
  then have "t = s" using t by (auto simp: Search_begin_def Let_def split: if_splits)
  then show ?thesis using inv by simp
next
  case True
  let ?e = "l_entry (lh s l)"
  from t True have ok: "\<not> l_closed (lh s l)" "\<not> e_retired (eh s ?e)" "\<not> e_closing (eh s ?e)"
    and t: "t = upd_e ?e (\<lambda>x. x\<lparr>e_ops := e_ops x + 1\<rparr>) (upd_l l (\<lambda>x. x\<lparr>l_operations := l_operations x + 1\<rparr>) s)"
    by (auto simp: Search_begin_def Let_def split: if_splits)
  have lo: "?e < next_e s" "lease_ok (lh s l)" using cache_invD(4) [OF inv] l by (auto simp: leases_ok_def)
  then have "\<not> l_released (lh s l)" using ok by (simp add: lease_ok_def)
  then have "e_refs (eh s ?e) \<noteq> 0"
    using ref_count_pos [OF l] cache_invD(4) [OF inv] lo(1) by (simp add: leases_ok_def)
  then have np: "\<not> e_pending (eh s ?e)"
    using pair_entry [OF cache_okD(1) [OF cache_invD(1) [OF inv]]] cache_okD(2) [OF cache_invD(1) [OF inv] lo(1)]
    by (auto simp: entry_ok_def)
  show ?thesis
    unfolding t
  proof (rule cache_inv_entry [OF inv lo(1), where x = "(eh s ?e)\<lparr>e_ops := e_ops (eh s ?e) + 1\<rparr>"])
    show "leases_ok (upd_e ?e (\<lambda>x. x\<lparr>e_ops := e_ops x + 1\<rparr>) (upd_l l (\<lambda>x. x\<lparr>l_operations := l_operations x + 1\<rparr>) s))"
      by (rule leases_ok_update [OF cache_invD(4) [OF inv] l, where x = "(lh s l)\<lparr>l_operations := l_operations (lh s l) + 1\<rparr>"])
        (use ok lo(2) in \<open>auto simp: section_eqs lease_ok_def\<close>)
  qed (use ok np in \<open>simp_all add: section_eqs entry_ok_op\<close>)
qed

lemma entry_in_use:
  assumes inv: "cache_inv s" and e: "e < next_e s" and use: "e_refs (eh s e) \<noteq> 0 \<or> e_ops (eh s e) \<noteq> 0"
  shows "\<not> e_pending (eh s e)" "\<not> e_closing (eh s e)" "closes s (e_flight (eh s e)) = 0" "e \<in> set (allEntries s)"
proof -
  let ?f = "e_flight (eh s e)"
  have f: "?f < next_f s" "f_entry (fh s ?f) = Some e" using cache_okD(2) [OF cache_invD(1) [OF inv] e] by auto
  from pair_entry [OF cache_okD(1) [OF cache_invD(1) [OF inv] f(1)] f(2)]
  have "entry_ok (f_pc (fh s ?f)) (eh s e) (closes s ?f) (e \<in> set (allEntries s))" by simp
  from entry_ok_used [OF this use]
  show "\<not> e_pending (eh s e)" "\<not> e_closing (eh s e)" "closes s ?f = 0" "e \<in> set (allEntries s)" by auto
qed

lemma entry_ok_drop_refs: "entry_ok p x k a \<Longrightarrow> e_refs x \<noteq> 0 \<Longrightarrow> entry_ok p (close_if_idle (x\<lparr>e_refs := r\<rparr>)) k a"
  using entry_ok_drop [where p = p and x = x and k = k and a = a and r = r and n = "e_ops x"] by (cases x) simp

lemma counters_swap:
  "x\<lparr>e_ops := n, e_refs := r\<rparr> = x\<lparr>e_refs := r, e_ops := n\<rparr>"
  "x\<lparr>e_refs := e_refs x, e_ops := n\<rparr> = x\<lparr>e_ops := n\<rparr>"
  by (cases x, simp)+

lemma lease_unreleased: "\<not> l_released x \<Longrightarrow> x\<lparr>l_operations := n, l_released := False\<rparr> = x\<lparr>l_operations := n\<rparr>"
  by (cases x) simp

lemma manager_swap: "s\<lparr>eh := a, lh := h\<rparr> = s\<lparr>lh := h, eh := a\<rparr>"
  by (cases s) simp

text \<open>Updating an entry's counters and then scheduling its close, with the leases to match.\<close>

lemma cache_inv_drop:
  assumes inv: "cache_inv s" and e: "e < next_e s"
    and t: "t = checkDrained (scheduleEntryClose e (s\<lparr>lh := h, eh := (eh s)(e := y)\<rparr>))"
    and y: "e_key y = e_key (eh s e)" "e_flight y = e_flight (eh s e)" "e_retired y = e_retired (eh s e)"
    and en: "\<And>p k a. entry_ok p (eh s e) k a \<Longrightarrow> entry_ok p (close_if_idle y) k a"
    and lease: "leases_ok t"
  shows "cache_inv t"
proof (rule cache_inv_entry [OF inv e, where x = "close_if_idle y"])
  have "gm_get (entries s) (e_key (eh s e)) \<noteq> Some e" if "e_retired (eh s e)"
    using cache_invD(2) [OF inv] that by (simp add: entries_ok_def)
  then show "entries t = entries s"
    unfolding t by (auto simp: section_eqs idle_def y)
qed (use en y lease in \<open>simp_all add: t section_eqs\<close>)

lemma cache_inv_search_end:
  assumes inv: "cache_inv s" and l: "l < next_l s" and op: "0 < l_operations (lh s l)"
  shows "cache_inv (finishOperation l s)"
proof -
  let ?e = "l_entry (lh s l)" and ?t = "finishOperation l s"
  have lo: "?e < next_e s" "lease_ok (lh s l)" using cache_invD(4) [OF inv] l by (auto simp: leases_ok_def)
  have ops: "e_ops (eh s ?e) \<noteq> 0"
    using op_count_ge [OF cache_invD(4) [OF inv] l] op cache_invD(4) [OF inv] lo(1) by (auto simp: leases_ok_def)
  have nr: "\<not> l_released (lh s l)" using lo(2) op by (simp add: lease_ok_def)
  let ?last = "l_closed (lh s l) \<and> l_operations (lh s l) = 1"
  let ?x = "(lh s l)\<lparr>l_operations := l_operations (lh s l) - 1, l_released := ?last\<rparr>"
  let ?y = "(eh s ?e)\<lparr>e_refs := (if ?last then e_refs (eh s ?e) - 1 else e_refs (eh s ?e)), e_ops := e_ops (eh s ?e) - 1\<rparr>"
  have t: "?t = checkDrained (scheduleEntryClose ?e (s\<lparr>lh := (lh s)(l := ?x), eh := (eh s)(?e := ?y)\<rparr>))"
    using nr by (cases ?last)
      (auto simp: finishOperation_def Let_def upd_e_def upd_l_def counters_swap lease_unreleased manager_swap)
  show ?thesis
  proof (rule cache_inv_drop [OF inv lo(1) t])
    show "leases_ok ?t"
      by (rule leases_ok_update [OF cache_invD(4) [OF inv] l, where x = ?x])
        (use lo(2) op nr in \<open>auto simp: t section_eqs lease_ok_def\<close>)
    show "entry_ok p (eh s ?e) k a \<Longrightarrow> entry_ok p (close_if_idle ?y) k a" for p k a
      by (rule entry_ok_drop) (use ops in simp_all)
  qed simp_all
qed

lemma cache_inv_lease_close:
  assumes inv: "cache_inv s" and l: "l < next_l s"
  shows "cache_inv (Lease_Close l s)"
proof (cases "l_closed (lh s l)")
  case True
  then show ?thesis using inv by (simp add: Lease_Close_def)
next
  case False
  let ?e = "l_entry (lh s l)" and ?t = "Lease_Close l s"
  have lo: "?e < next_e s" "lease_ok (lh s l)" using cache_invD(4) [OF inv] l by (auto simp: leases_ok_def)
  have nr: "\<not> l_released (lh s l)" using lo(2) False by (simp add: lease_ok_def)
  show ?thesis
  proof (cases "l_operations (lh s l) = 0")
    case True
    let ?x = "(lh s l)\<lparr>l_closed := True, l_released := True\<rparr>"
    let ?y = "(eh s ?e)\<lparr>e_refs := e_refs (eh s ?e) - 1\<rparr>"
    have refs: "e_refs (eh s ?e) \<noteq> 0"
      using ref_count_pos [OF l nr] cache_invD(4) [OF inv] lo(1) by (simp add: leases_ok_def)
    have t: "?t = checkDrained (scheduleEntryClose ?e (s\<lparr>lh := (lh s)(l := ?x), eh := (eh s)(?e := ?y)\<rparr>))"
      using False True nr by (simp add: Lease_Close_def releaseEntry_def Let_def upd_e_def upd_l_def)
    show ?thesis
    proof (rule cache_inv_drop [OF inv lo(1) t])
      show "leases_ok ?t"
        by (rule leases_ok_update [OF cache_invD(4) [OF inv] l, where x = ?x])
          (use lo(2) True nr in \<open>auto simp: t section_eqs lease_ok_def\<close>)
      show "entry_ok p (eh s ?e) k a \<Longrightarrow> entry_ok p (close_if_idle ?y) k a" for p k a
        using refs by (rule entry_ok_drop_refs [rotated])
    qed simp_all
  next
    case op: False
    let ?x = "(lh s l)\<lparr>l_closed := True\<rparr>"
    have t: "?t = s\<lparr>lh := (lh s)(l := ?x)\<rparr>" using False op by (simp add: Lease_Close_def Let_def upd_l_def)
    have "leases_ok ?t"
      by (rule leases_ok_update [OF cache_invD(4) [OF inv] l, where x = ?x])
        (use lo(2) op nr in \<open>auto simp: t lease_ok_def\<close>)
    then show ?thesis
      by (intro cache_inv_entry [OF inv lo(1), where x = "eh s ?e"]) (simp_all add: t)
  qed
qed


lemma cache_inv_retired:
  assumes inv: "cache_inv s" and ok: "cache_ok t" "entries_ok t" "maps_ok t"
    and rest: "rest t = rest (s\<lparr>sequence := q, scopes := m\<rparr>)"
  shows "cache_inv t"
proof (rule cache_invI [OF ok])
  have eq: "loads t = loads s" "shutdown t = shutdown s" "drainedDone t = drainedDone s" "fh t = fh s" "lh t = lh s"
    "allEntries t = allEntries s" "next_e t = next_e s" "next_f t = next_f s" "next_l t = next_l s"
    and counts: "e_refs (eh t e) = e_refs (eh s e)" "e_ops (eh t e) = e_ops (eh s e)" for e
    using rest by (auto simp: rest_def fun_eq_iff)
  show "leases_ok t" by (rule leases_ok_same [OF cache_invD(4) [OF inv]]) (simp_all add: eq counts)
  show "drain_ok t" using cache_invD(5) [OF inv] unfolding drain_ok_def eq .
qed

lemma enter_scope_inv:
  assumes inv: "cache_inv s" and t: "enter_scope key s = (t, q)"
  shows "cache_inv t" "shutdown t = shutdown s" "gm_get (scopes t) (scope key) = Some (key, q)"
proof -
  note ok = enter_scope_ok [OF cache_invD(1-3) [OF inv] t]
  have "rest t = rest (s\<lparr>sequence := sequence s, scopes := scopes s\<rparr>)
      \<or> rest t = rest (s\<lparr>sequence := sequence s + 1, scopes := gm_put (scope key) (key, sequence s + 1) (scopes s)\<rparr>)"
    using t by (auto simp: enter_scope_def retireOtherEntries_def rest_fold split: option.splits prod.splits if_splits)
  then have rest: "\<exists>q m. rest t = rest (s\<lparr>sequence := q, scopes := m\<rparr>)" by blast
  then show "cache_inv t" using cache_inv_retired [OF inv] ok by blast
  show "shutdown t = shutdown s" using rest by (auto simp: rest_def)
  show "gm_get (scopes t) (scope key) = Some (key, q)" using ok by simp
qed

lemma cached_entryD:
  assumes "cache_inv s" "cached_entry s key = Some e"
  shows "e < next_e s" "ready_entry s e" "gm_get (entries s) key = Some e"
  using assms cache_invD(2) [OF assms(1)]
  by (auto simp: cached_entry_def entries_ok_def split: option.splits if_splits)

lemma cache_inv_acquire:
  assumes inv: "cache_inv s" and t: "Acquire key hl hr s = (t, r)"
  shows "cache_inv t"
proof (cases "shutdown s")
  case True
  then show ?thesis using t inv by (simp add: Acquire_def)
next
  case False
  obtain s1 q where s1: "enter_scope key s = (s1, q)" by (cases "enter_scope key s")
  note i1 = enter_scope_inv [OF inv s1]
  show ?thesis
  proof (cases "current_flight s1 key q")
    case (Some f)
    then show ?thesis using t s1 False i1 by (simp add: Acquire_def)
  next
    case None
    show ?thesis
    proof (cases "cached_entry s1 key")
      case (Some e)
      have "t = fst (ref_lease e s1)" using t s1 False None Some by (auto simp: Acquire_def split: prod.splits)
      then show ?thesis using cache_inv_ref_lease [OF i1(1)] cached_entryD [OF i1(1) Some] by simp
    next
      case none: None
      have nf: "cache_inv (new_flight key q s1)"
      proof (rule cache_invI)
        have fresh: "\<not> loaded s1 (next_f s1)" "closes s1 (next_f s1) = 0"
          using maps_okD(8) [OF cache_invD(3) [OF i1(1)]] by simp_all
        show "cache_ok (new_flight key q s1)" by (rule cache_ok_new_flight [OF cache_invD(1) [OF i1(1)] fresh])
        show "entries_ok (new_flight key q s1)"
          by (rule entries_ok_same [OF cache_invD(2) [OF i1(1)]]) (simp_all add: new_flight_def)
        show "maps_ok (new_flight key q s1)"
          by (rule maps_ok_new_flight [OF cache_invD(1-3) [OF i1(1)] i1(3) None none])
        show "leases_ok (new_flight key q s1)"
          by (rule leases_ok_same [OF cache_invD(4) [OF i1(1)]]) (simp_all add: new_flight_def)
        show "drain_ok (new_flight key q s1)"
          by (rule drain_ok_new_flight [OF cache_invD(5) [OF i1(1)]]) (use False i1(2) in simp)
      qed
      show ?thesis using t s1 False None none nf i1 by (auto simp: Acquire_def split: if_splits)
    qed
  qed
qed

lemma done_entry_ready:
  assumes inv: "cache_inv s" and f: "f < next_f s" "f_pc (fh s f) = Done" and e: "f_entry (fh s f) = Some e"
    and ok: "\<not> e_retired (eh s e)" "\<not> e_closing (eh s e)"
  shows "e < next_e s" "ready_entry s e"
proof -
  note pe = pair_entry [OF cache_okD(1) [OF cache_invD(1) [OF inv] f(1)] e]
  then show "e < next_e s" by simp
  from pe have "entry_ok (f_pc (fh s f)) (eh s e) (closes s f) (e \<in> set (allEntries s))" by simp
  from not_retired_stage [OF this ok(1)] f(2) ok show "ready_entry s e" by (auto simp: ready_entry_def)
qed

lemma cache_inv_acquire_done:
  assumes inv: "cache_inv s" and f: "f < next_f s" "f_pc (fh s f) = Done" and t: "acquireFlightEntry f s = (t, r)"
  shows "cache_inv t"
proof (cases "\<exists>l. r = Inr l")
  case False
  then have "t = s" using t by (auto simp: acquireFlightEntry_def split: if_splits option.splits prod.splits)
  then show ?thesis using inv by simp
next
  case True
  then obtain e where e: "f_entry (fh s f) = Some e" "\<not> e_retired (eh s e)" "\<not> e_closing (eh s e)"
    and t: "t = fst (ref_lease e s)"
    using t by (auto simp: acquireFlightEntry_def split: if_splits option.splits prod.splits)
  show ?thesis unfolding t by (rule cache_inv_ref_lease [OF inv done_entry_ready [OF inv f e]])
qed

lemma cache_inv_shutdown:
  assumes inv: "cache_inv s"
  shows "cache_inv (Shutdown s)"
proof (cases "shutdown s")
  case True
  then show ?thesis using inv by (simp add: Shutdown_def)
next
  case False
  let ?t = "fold retire_entry (entries s) s"
  have "distinct (map fst (entries s))" using cache_invD(2) [OF inv] by (simp add: entries_ok_def gm_ok_def)
  note fold = fold_retire_ok [OF cache_invD(1,2) [OF inv] this subset_refl]
  then have ent: "entries ?t = []" by (simp add: filter_empty_conv image_iff) blast
  have rest: "rest ?t = rest s" by (rule rest_fold)
  have commute: "fold retire_entry xs (u\<lparr>shutdown := True\<rparr>) = (fold retire_entry xs u)\<lparr>shutdown := True\<rparr>" for xs u
  proof (induction xs arbitrary: u)
    case (Cons x xs)
    have "retire_entry x (u\<lparr>shutdown := True\<rparr>) = (retire_entry x u)\<lparr>shutdown := True\<rparr>"
      by (cases x; cases u) (simp add: retire_entry_eq Let_def)
    then show ?case using Cons.IH by simp
  qed simp
  have t: "Shutdown s = checkDrained (?t\<lparr>shutdown := True\<rparr>)" using False by (simp add: Shutdown_def commute)
  have eq: "flights ?t = flights s" "scopes ?t = scopes s" "sequence ?t = sequence s" "loads ?t = loads s"
    "drainedDone ?t = drainedDone s" "fh ?t = fh s" "lh ?t = lh s" "loaded ?t = loaded s" "closes ?t = closes s"
    "allEntries ?t = allEntries s" "next_e ?t = next_e s" "next_f ?t = next_f s" "next_l ?t = next_l s"
    and counts: "e_refs (eh ?t e) = e_refs (eh s e)" "e_ops (eh ?t e) = e_ops (eh s e)" "e_flight (eh ?t e) = e_flight (eh s e)" for e
    using rest by (auto simp: rest_def fun_eq_iff)
  show ?thesis
    unfolding t
  proof (rule cache_invI)
    show "cache_ok (checkDrained (?t\<lparr>shutdown := True\<rparr>))"
      by (rule cache_ok_same [OF conjunct1 [OF fold]]) (simp_all add: checkDrained_eq)
    show "entries_ok (checkDrained (?t\<lparr>shutdown := True\<rparr>))"
      using fold ent by (simp add: checkDrained_eq entries_ok_def)
    show "maps_ok (checkDrained (?t\<lparr>shutdown := True\<rparr>))"
      by (rule maps_ok_frame [OF cache_invD(3) [OF inv]]) (simp_all add: checkDrained_eq eq ent)
    show "leases_ok (checkDrained (?t\<lparr>shutdown := True\<rparr>))"
      by (rule leases_ok_same [OF cache_invD(4) [OF inv]]) (simp_all add: checkDrained_eq eq counts)
    show "drain_ok (checkDrained (?t\<lparr>shutdown := True\<rparr>))"
      using cache_invD(5) [OF inv] False by (simp add: checkDrained_eq drain_ok_def eq)
  qed
qed

lemmas cache_inv_steps = cache_inv_acquire cache_inv_acquire_done cache_inv_retain cache_inv_check cache_inv_load
  cache_inv_discard cache_inv_release cache_inv_publish cache_inv_close_own cache_inv_forget_own cache_inv_finish
  cache_inv_closer cache_inv_closer_end cache_inv_search cache_inv_search_end cache_inv_lease_close cache_inv_shutdown

lemma cache_inv_step:
  assumes "cache_inv s" "cache_step s t"
  shows "cache_inv t"
  using assms(2,1) by cases (blast intro: cache_inv_steps)+

lemma cache_inv_New: "cache_inv New"
  by (simp add: cache_inv_def New_def cache_ok_def entries_ok_def maps_ok_def leases_ok_def drain_ok_def unfinished_def)

interpretation rc: invariant_system New cache_step cache_inv
  by unfold_locales (rule cache_inv_New, rule cache_inv_step)

end
