(* ===== verification/RuntimeCacheProps.thy ===== *)
theory RuntimeCacheProps
  imports RuntimeCacheInv
begin

text \<open>
  What every interleaving of callers, loads, searches, closes and shutdown of the root cache
  guarantees: no search on a closed root, no root closed twice or leaked, one load per root,
  leases on the current root of a scope only.
\<close>

section \<open>A run\<close>

definition run_load :: manager where
  "run_load = finishFlight 0 (release_pending 0 0 True (load_done 0 True True
     (check_flight 0 True (retain_done 0 True (fst (Acquire key0 True True New))))))"

definition run_search :: manager where
  "run_search = fst (Search_begin 0 (fst (acquireFlightEntry 0 run_load)))"

definition run_closing :: manager where
  "run_closing = finishOperation 0 (Lease_Close 0 (Shutdown run_search))"

definition run_drained :: manager where
  "run_drained = closer_forget 0 (closer_close 0 False run_closing)"

lemma step_then: "cache_step\<^sup>*\<^sup>* New s \<Longrightarrow> cache_step s t \<Longrightarrow> cache_step\<^sup>*\<^sup>* New t"
  by (rule rtranclp.rtrancl_into_rtrancl)

lemma fst_step: "(\<And>t r. g = (t, r) \<Longrightarrow> cache_step s t) \<Longrightarrow> cache_step s (fst g)"
  by (cases g) simp

lemma run_load_reachable: "cache_step\<^sup>*\<^sup>* New run_load"
proof -
  let ?a = "fst (Acquire key0 True True New)"
  let ?b = "retain_done 0 True ?a" let ?c = "check_flight 0 True ?b"
  let ?d = "load_done 0 True True ?c" let ?e = "release_pending 0 0 True ?d"
  have a: "cache_step\<^sup>*\<^sup>* New ?a" by (rule step_then [OF rtranclp.rtrancl_refl fst_step]) (rule cache_step.acquire)
  have "0 < next_f ?a \<and> f_pc (fh ?a 0) = Retaining" by code_simp
  with a have b: "cache_step\<^sup>*\<^sup>* New ?b" by (blast intro: step_then cache_step.retain)
  have "0 < next_f ?b \<and> f_pc (fh ?b 0) = Checking" by code_simp
  with b have c: "cache_step\<^sup>*\<^sup>* New ?c" by (blast intro: step_then cache_step.check)
  have "0 < next_f ?c \<and> f_pc (fh ?c 0) = Loading" by code_simp
  with c have d: "cache_step\<^sup>*\<^sup>* New ?d" by (blast intro: step_then cache_step.load)
  have "0 < next_f ?d \<and> f_pc (fh ?d 0) = Releasing \<and> f_entry (fh ?d 0) = Some 0" by code_simp
  with d have e: "cache_step\<^sup>*\<^sup>* New ?e" by (blast intro: step_then cache_step.publish)
  have "0 < next_f ?e \<and> f_pc (fh ?e 0) = Finishing []" by code_simp
  with e show ?thesis unfolding run_load_def by (blast intro: step_then cache_step.finish)
qed

lemma run_search_reachable: "cache_step\<^sup>*\<^sup>* New run_search"
proof -
  let ?a = "fst (acquireFlightEntry 0 run_load)"
  have pc: "0 < next_f run_load \<and> f_pc (fh run_load 0) = Done" by code_simp
  have a: "cache_step\<^sup>*\<^sup>* New ?a"
    by (rule step_then [OF run_load_reachable fst_step]) (use pc in \<open>auto intro: cache_step.acquire_done\<close>)
  have "0 < next_l ?a" by code_simp
  then show ?thesis
    unfolding run_search_def by (intro step_then [OF a fst_step]) (rule cache_step.search)
qed

lemma run_closing_reachable: "cache_step\<^sup>*\<^sup>* New run_closing"
proof -
  let ?a = "Shutdown run_search" let ?b = "Lease_Close 0 ?a"
  have a: "cache_step\<^sup>*\<^sup>* New ?a" by (rule step_then [OF run_search_reachable cache_step.shut])
  have "0 < next_l ?a" by code_simp
  with a have b: "cache_step\<^sup>*\<^sup>* New ?b" by (blast intro: step_then cache_step.lease_close)
  have "0 < next_l ?b \<and> 0 < l_operations (lh ?b 0)" by code_simp
  with b show ?thesis unfolding run_closing_def by (blast intro: step_then cache_step.search_end)
qed

lemma run_drained_reachable: "cache_step\<^sup>*\<^sup>* New run_drained"
proof -
  let ?a = "closer_close 0 False run_closing"
  have "0 < next_e run_closing \<and> e_closer (eh run_closing 0) = CloserStarted" by code_simp
  then have a: "cache_step\<^sup>*\<^sup>* New ?a" by (blast intro: step_then [OF run_closing_reachable] cache_step.closer)
  have "0 < next_e ?a \<and> e_closer (eh ?a 0) = CloserClosed" by code_simp
  with a show ?thesis unfolding run_drained_def by (blast intro: step_then cache_step.closer_end)
qed

section \<open>Native resources\<close>

lemma flight_stage:
  assumes inv: "cache_inv s" and f: "f < next_f s"
  shows "closes s f \<le> 1" and "closes s f = 1 \<longrightarrow> loaded s f"
proof -
  have pf: "pair_ok s f" by (rule cache_okD(1) [OF cache_invD(1) [OF inv] f])
  have "closes s f \<le> 1 \<and> (closes s f = 1 \<longrightarrow> loaded s f)"
  proof (cases "f_entry (fh s f)")
    case None
    then show ?thesis using pf by (auto simp: pair_ok_def flight_ok_def split: flightPc.splits)
  next
    case (Some e)
    have "entry_ok (f_pc (fh s f)) (eh s e) (closes s f) (e \<in> set (allEntries s))" "loaded s f"
      using pair_entry [OF pf Some] pf Some by (auto simp: pair_ok_def flight_ok_def)
    then show ?thesis by (auto simp: entry_ok_def settled_def split: closerPc.splits flightPc.splits)
  qed
  then show "closes s f \<le> 1" "closes s f = 1 \<longrightarrow> loaded s f" by auto
qed

text \<open>C1. No search runs on a root whose native resources have been closed: while a lease has an
  operation in progress, the close callback of its root has not been called, whatever else was
  acquired, retired, closed or shut down meanwhile.\<close>

theorem search_never_on_closed_root:
  assumes "cache_step\<^sup>*\<^sup>* New s" and "l < next_l s" and "0 < l_operations (lh s l)"
  shows "closes s (e_flight (eh s (l_entry (lh s l)))) = 0"
proof -
  from assms(1) have inv: "cache_inv s" by (rule rc.reachable_inv)
  have e: "l_entry (lh s l) < next_e s" using cache_invD(4) [OF inv] assms(2) by (simp add: leases_ok_def)
  have "0 < e_ops (eh s (l_entry (lh s l)))"
    using op_count_ge [OF cache_invD(4) [OF inv] assms(2)] assms(3) cache_invD(4) [OF inv] e by (simp add: leases_ok_def)
  then show ?thesis using entry_in_use(3) [OF inv e] by simp
qed

theorem search_never_on_closed_root_witness:
  "closes (Shutdown run_search) (e_flight (eh (Shutdown run_search) 0)) = 0"
proof -
  have l: "0 < next_l (Shutdown run_search)" "0 < l_operations (lh (Shutdown run_search) 0)"
    "l_entry (lh (Shutdown run_search) 0) = 0" by code_simp+
  show ?thesis
    using search_never_on_closed_root [OF step_then [OF run_search_reachable cache_step.shut] l(1,2)] l(3) by simp
qed

text \<open>C2. The native close callback of a root is called at most once, and only for a root the
  loader really returned, in every interleaving: no double close on the discard path, the
  unpublished path and the retire path together.\<close>

theorem root_closed_at_most_once:
  assumes "cache_step\<^sup>*\<^sup>* New s"
  shows "closes s f = 0 \<or> closes s f = 1 \<and> loaded s f"
proof (cases "f < next_f s")
  case True
  from flight_stage [OF rc.reachable_inv [OF assms] True] show ?thesis by auto
next
  case False
  then show ?thesis using maps_okD(8) [OF cache_invD(3) [OF rc.reachable_inv [OF assms]]] by simp
qed

theorem root_closed_at_most_once_witness: "closes run_drained 0 = 1 \<and> loaded run_drained 0"
proof -
  have "closes run_drained 0 \<noteq> 0" by code_simp
  with root_closed_at_most_once [OF run_drained_reachable, of 0] show ?thesis by simp
qed

section \<open>Shutdown\<close>

lemma sum_bool_zero:
  fixes P :: "nat \<Rightarrow> bool"
  shows "(\<Sum>f<n. if P f then 0 else 1 :: int) = 0 \<longleftrightarrow> (\<forall>f < n. P f)"
  by (induction n) (auto simp: less_Suc_eq sum_nonneg add_nonneg_eq_0_iff)

lemma all_done: "cache_inv s \<Longrightarrow> loads s = 0 \<longleftrightarrow> (\<forall>f < next_f s. f_pc (fh s f) = Done)"
  using cache_invD(5) [of s] by (simp add: drain_ok_def sum_bool_zero)

text \<open>When \<open>Shutdown\<close> returns because the manager has drained, nothing is left: every load
  has finished, every root the loader returned has been closed exactly once and no lease still
  holds one.\<close>

theorem drained_manager_holds_nothing:
  assumes "cache_step\<^sup>*\<^sup>* New s" and "shutdown_returns s = Some errs"
  shows "(\<forall>f. closes s f = (if loaded s f then 1 else 0)) \<and> list_all (\<lambda>f. f_pc (fh s f) = Done) [0..<next_f s]
    \<and> list_all (\<lambda>l. l_released (lh s l)) [0..<next_l s]"
proof -
  from assms(1) have inv: "cache_inv s" by (rule rc.reachable_inv)
  from assms(2) have "drainedDone s" by (simp add: shutdown_returns_def split: if_splits)
  then have dr: "loads s = 0" "allEntries s = []" using cache_invD(5) [OF inv] by (simp_all add: drain_ok_def)
  then have dn: "\<forall>f < next_f s. f_pc (fh s f) = Done" using all_done [OF inv] by simp
  have "closes s f = (if loaded s f then 1 else 0)" for f
  proof (cases "f < next_f s")
    case True
    then have pf: "pair_ok s f" and pc: "f_pc (fh s f) = Done"
      using cache_okD [OF cache_invD(1) [OF inv]] dn by simp_all
    show ?thesis
    proof (cases "f_entry (fh s f)")
      case None
      then show ?thesis using pf pc by (simp add: pair_ok_def flight_ok_def)
    next
      case (Some e)
      then have "entry_ok Done (eh s e) (closes s f) False" "loaded s f"
        using pair_entry [OF pf Some] pf pc dr(2) by (auto simp: pair_ok_def flight_ok_def)
      then show ?thesis by (auto simp: entry_ok_def settled_def split: closerPc.splits)
    qed
  next
    case False
    then show ?thesis using maps_okD(8) [OF cache_invD(3) [OF inv]] by simp
  qed
  moreover have "l_released (lh s l)" if l: "l < next_l s" for l
  proof (rule ccontr)
    assume nr: "\<not> l_released (lh s l)"
    have e: "l_entry (lh s l) < next_e s" using cache_invD(4) [OF inv] l by (simp add: leases_ok_def)
    have "e_refs (eh s (l_entry (lh s l))) \<noteq> 0"
      using ref_count_pos [OF l nr] cache_invD(4) [OF inv] e by (simp add: leases_ok_def)
    with entry_in_use(4) [OF inv e] dr(2) show False by simp
  qed
  ultimately show ?thesis using dn by (simp add: list_all_iff)
qed

theorem drained_manager_holds_nothing_witness: "\<forall>f. closes run_drained f = (if loaded run_drained f then 1 else 0)"
proof -
  have "shutdown_returns run_drained = Some []" by code_simp
  from drained_manager_holds_nothing [OF run_drained_reachable this] show ?thesis by simp
qed

text \<open>\<open>Shutdown\<close> does not wait for ever: once the manager is shut down, its loads and close
  goroutines have run to their end and every lease is released, it has drained. A retired root is
  never forgotten in the cache with nobody left to close it.\<close>

theorem quiescent_shutdown_returns:
  assumes "cache_step\<^sup>*\<^sup>* New s" and "shutdown s"
    and "list_all (\<lambda>f. f_pc (fh s f) = Done) [0..<next_f s]"
    and "list_all (\<lambda>e. e_closer (eh s e) = NoCloser \<or> e_closer (eh s e) = CloserDone) [0..<next_e s]"
    and "list_all (\<lambda>l. l_released (lh s l)) [0..<next_l s]"
  shows "shutdown_returns s = Some (closeErrors s)"
proof -
  from assms(1) have inv: "cache_inv s" by (rule rc.reachable_inv)
  have loads: "loads s = 0" using assms(3) all_done [OF inv] by (simp add: list_all_iff)
  have "e \<notin> set (allEntries s)" for e
  proof
    assume mem: "e \<in> set (allEntries s)"
    then have e: "e < next_e s" using cache_invD(1) [OF inv] by (auto simp: cache_ok_def)
    let ?f = "e_flight (eh s e)"
    have f: "?f < next_f s" "f_entry (fh s ?f) = Some e" using cache_okD(2) [OF cache_invD(1) [OF inv] e] by auto
    have "entry_ok Done (eh s e) (closes s ?f) True"
      using pair_entry [OF cache_okD(1) [OF cache_invD(1) [OF inv] f(1)] f(2)] assms(3) f(1) mem by (simp add: list_all_iff)
    moreover have "e_closer (eh s e) = NoCloser \<or> e_closer (eh s e) = CloserDone" using assms(4) e by (simp add: list_all_iff)
    moreover have "e_retired (eh s e)"
    proof (rule ccontr)
      assume "\<not> e_retired (eh s e)"
      then have "gm_get (entries s) (e_key (eh s e)) = Some e" using cache_invD(2) [OF inv] e by (simp add: entries_ok_def)
      moreover have "entries s = []" using cache_invD(2) [OF inv] assms(2) by (simp add: entries_ok_def)
      ultimately show False by simp
    qed
    ultimately have "e_refs (eh s e) \<noteq> 0 \<or> e_ops (eh s e) \<noteq> 0" by (auto simp: entry_ok_def settled_def shut_entry_def)
    moreover have "e_refs (eh s e) = 0"
      using assms(5) cache_invD(4) [OF inv] e by (auto simp: leases_ok_def ref_count_def list_all_iff intro!: sum.neutral)
    moreover have "l_operations (lh s l) = 0" if "l < next_l s" for l
      using assms(5) cache_invD(4) [OF inv] that by (simp add: leases_ok_def lease_ok_def list_all_iff)
    then have "e_ops (eh s e) = 0"
      using cache_invD(4) [OF inv] e by (auto simp: leases_ok_def op_count_def intro!: sum.neutral)
    ultimately show False by simp
  qed
  then have "allEntries s = []" by (metis list.set_intros(1) neq_Nil_conv)
  then show ?thesis using cache_invD(5) [OF inv] loads assms(2) by (simp add: shutdown_returns_def drain_ok_def)
qed

theorem quiescent_shutdown_returns_witness: "shutdown_returns run_drained = Some (closeErrors run_drained)"
  by (rule quiescent_shutdown_returns [OF run_drained_reachable]) code_simp+

section \<open>Loads and leases\<close>

text \<open>Single flight: for one root in one turn of its scope there is never more than one load
  in progress, however many callers ask for it.\<close>

theorem single_flight:
  assumes "cache_step\<^sup>*\<^sup>* New s" and "f < next_f s" and "g < next_f s"
    and "f_pc (fh s f) \<noteq> Done" and "f_pc (fh s g) \<noteq> Done"
    and "f_key (fh s f) = f_key (fh s g)" and "f_sequence (fh s f) = f_sequence (fh s g)"
  shows "f = g"
  using maps_okD(7) [OF cache_invD(3) [OF rc.reachable_inv [OF assms(1)]], of f g] assms
  by (simp add: unfinished_def)

definition run_waiting :: manager where
  "run_waiting = fst (Acquire key0 True True (fst (Acquire key0 True True New)))"

theorem single_flight_witness: "list_all (\<lambda>f. f = 0) [0..<next_f run_waiting]"
proof -
  have "cache_step\<^sup>*\<^sup>* New (fst (Acquire key0 True True New))"
    by (rule step_then [OF rtranclp.rtrancl_refl fst_step]) (rule cache_step.acquire)
  then have r: "cache_step\<^sup>*\<^sup>* New run_waiting"
    unfolding run_waiting_def by (rule step_then [OF _ fst_step]) (rule cache_step.acquire)
  have n: "next_f run_waiting = 1" "f_pc (fh run_waiting 0) \<noteq> Done" by code_simp+
  have "f = 0" if "f < next_f run_waiting" for f
    using that n single_flight [OF r that, of 0] by simp
  then show ?thesis by (simp add: list_all_iff)
qed

text \<open>A search starts only on the current root: when \<open>Search\<close> is let through, the lease's
  root is the one its scope is at, and the cache still serves it. A lease on a root that was
  replaced, or of a manager that was shut down, is refused.\<close>

theorem search_only_on_current_root:
  assumes "cache_step\<^sup>*\<^sup>* New s" and "l < next_l s" and "Search_begin l s = (t, None)"
  shows "let k = e_key (eh s (l_entry (lh s l))) in
     \<not> shutdown s \<and> gm_get (entries s) k = Some (l_entry (lh s l)) \<and> (\<exists>q. gm_get (scopes s) (scope k) = Some (k, q))"
proof -
  from assms(1) have inv: "cache_inv s" by (rule rc.reachable_inv)
  have e: "l_entry (lh s l) < next_e s" using cache_invD(4) [OF inv] assms(2) by (simp add: leases_ok_def)
  from assms(3) have "\<not> shutdown s" "\<not> e_retired (eh s (l_entry (lh s l)))"
    by (auto simp: Search_begin_def Let_def split: if_splits)
  moreover from this have "gm_get (entries s) (e_key (eh s (l_entry (lh s l)))) = Some (l_entry (lh s l))"
    using cache_invD(2) [OF inv] e by (simp add: entries_ok_def)
  ultimately show ?thesis using maps_okD(5) [OF cache_invD(3) [OF inv]] by (auto simp: Let_def)
qed

theorem search_only_on_current_root_witness: "\<exists>q. gm_get (scopes run_search) (scope key0) = Some (key0, q)"
proof -
  have l: "0 < next_l run_search" "e_key (eh run_search (l_entry (lh run_search 0))) = key0"
    "snd (Search_begin 0 run_search) = None" by code_simp+
  then have "Search_begin 0 run_search = (fst (Search_begin 0 run_search), None)" by (metis prod.collapse)
  from search_only_on_current_root [OF run_search_reachable l(1) this] show ?thesis by (simp add: l(2))
qed

end
