(* ===== verification/GoStrings.thy ===== *)
theory GoStrings
  imports GoTime "HOL-Library.Char_ord" "HOL-Library.List_Lexorder"
begin

text \<open>
  The part of the packages \<open>strings\<close>, \<open>unicode/utf8\<close>, \<open>sort\<close> and \<open>fmt\<close> the
  notification and audit components use, on strings as lists of bytes. The order of
  \<open>List_Lexorder\<close> on bytes is the order of Go's string comparison, so \<open>sort\<close> is
  \<open>sort.Strings\<close>.
\<close>

section \<open>Package strings\<close>

fun split_on :: "char \<Rightarrow> string \<Rightarrow> string list" where
  "split_on sep [] = [[]]"
| "split_on sep (c # s) =
     (if c = sep then [] # split_on sep s
      else (case split_on sep s of [] \<Rightarrow> [[c]] | w # ws \<Rightarrow> (c # w) # ws))"

fun joinWith :: "string \<Rightarrow> string list \<Rightarrow> string" where
  "joinWith sep [] = []"
| "joinWith sep [w] = w"
| "joinWith sep (w # v # ws) = w @ sep @ joinWith sep (v # ws)"

definition hasPrefix :: "string \<Rightarrow> string \<Rightarrow> bool" where
  "hasPrefix s p = (take (length p) s = p)"

definition upperChar :: "char \<Rightarrow> char" where
  "upperChar c = (if isLowerByte c then char_of ((of_char c :: nat) - 32) else c)"

lemma hasPrefix_append [simp]: "hasPrefix (p @ s) p"
  by (simp add: hasPrefix_def)

lemma joinWith_Cons: "ws \<noteq> [] \<Longrightarrow> joinWith sep (w # ws) = w @ sep @ joinWith sep ws"
  by (cases ws) simp_all

lemma set_joinWith: "set (joinWith sep ws) \<subseteq> set sep \<union> \<Union> (set ` set ws)"
  by (induction sep ws rule: joinWith.induct) auto

lemma length_joinWith:
  "length (joinWith sep ws) = sum_list (map length ws) + length sep * (length ws - 1)"
  by (induction sep ws rule: joinWith.induct) simp_all

section \<open>UTF-8\<close>

definition in_bytes :: "nat \<Rightarrow> nat \<Rightarrow> char \<Rightarrow> bool" where
  "in_bytes lo hi c = (lo \<le> of_char c \<and> of_char c \<le> hi)"

text \<open>\<open>utf8.ValidString\<close>: no overlong form, no surrogate, nothing above U+10FFFF.\<close>

fun utf8_valid :: "string \<Rightarrow> bool" where
  "utf8_valid [] = True"
| "utf8_valid (a # r) =
     (if in_bytes 0 127 a then utf8_valid r
      else if in_bytes 194 223 a then
        (case r of b # s \<Rightarrow> in_bytes 128 191 b \<and> utf8_valid s | _ \<Rightarrow> False)
      else if in_bytes 224 239 a then
        (case r of b # c # s \<Rightarrow>
           in_bytes (if of_char a = (224 :: nat) then 160 else 128)
                    (if of_char a = (237 :: nat) then 159 else 191) b
           \<and> in_bytes 128 191 c \<and> utf8_valid s | _ \<Rightarrow> False)
      else if in_bytes 240 244 a then
        (case r of b # c # d # s \<Rightarrow>
           in_bytes (if of_char a = (240 :: nat) then 144 else 128)
                    (if of_char a = (244 :: nat) then 143 else 191) b
           \<and> in_bytes 128 191 c \<and> in_bytes 128 191 d \<and> utf8_valid s | _ \<Rightarrow> False)
      else False)"

definition ascii :: "string \<Rightarrow> bool" where
  "ascii s = list_all (in_bytes 0 127) s"

lemma in_bytes_ascii: "in_bytes 0 127 c = (\<not> digit7 c)"
  by (cases c) (auto simp: in_bytes_def of_char_def)

lemma ascii_bits: "ascii s = list_all (\<lambda>c. \<not> digit7 c) s"
  by (simp add: ascii_def list_all_iff in_bytes_ascii)

lemma ascii_utf8: "ascii s \<Longrightarrow> utf8_valid s"
  by (induction s) (simp_all add: ascii_def)

lemma ascii_append [simp]: "ascii (s @ t) = (ascii s \<and> ascii t)"
  by (simp add: ascii_def)

lemma ascii_Cons: "ascii (c # s) = (in_bytes 0 127 c \<and> ascii s)"
  by (simp add: ascii_def)

lemma ascii_Nil [simp]: "ascii []"
  by (simp add: ascii_def)

lemma ascii_mono: "ascii t \<Longrightarrow> set s \<subseteq> set t \<Longrightarrow> ascii s"
  by (auto simp: ascii_def list_all_iff)

lemma ascii_join: "ascii sep \<Longrightarrow> \<forall>w \<in> set ws. ascii w \<Longrightarrow> ascii (joinWith sep ws)"
  by (induction sep ws rule: joinWith.induct) auto

section \<open>Integers of 64 bits\<close>

text \<open>\<open>+\<close> on Go's \<open>int\<close> wraps.\<close>

definition int64_add :: "int \<Rightarrow> int \<Rightarrow> int" where
  "int64_add a b = (a + b + 2 ^ 63) mod 2 ^ 64 - 2 ^ 63"

definition is_int64 :: "int \<Rightarrow> bool" where
  "is_int64 n = (int64_min \<le> n \<and> n \<le> int64_max)"

lemma int64_add_exact: "is_int64 (a + b) \<Longrightarrow> int64_add a b = a + b"
  by (simp add: int64_add_def is_int64_def int64_min_def int64_max_def)

lemma is_int64_add [simp]: "is_int64 (int64_add a b)"
proof -
  let ?m = "(a + b + 2 ^ 63) mod (2 ^ 64 :: int)"
  have "0 \<le> ?m" "?m < 2 ^ 64" by (rule pos_mod_sign, simp, rule pos_mod_bound, simp)
  then show ?thesis by (simp add: int64_add_def is_int64_def int64_min_def int64_max_def)
qed

section \<open>Durations as text\<close>

definition dur_frac :: "nat \<Rightarrow> int \<Rightarrow> string" where
  "dur_frac prec n = (let f = trim_zeros (dec_pad prec n) in if f = [] then [] else CHR ''.'' # f)"

definition dur_abs :: "int \<Rightarrow> string" where
  "dur_abs u =
     (if u = 0 then ''0s''
      else if u < 1000 then dec_digits u @ ''ns''
      else if u < millisecond then
        dec_digits (u div 1000) @ dur_frac 3 (u mod 1000) @ [CHR 0xC2, CHR 0xB5, CHR ''s'']
      else if u < second then
        dec_digits (u div millisecond) @ dur_frac 6 (u mod millisecond) @ ''ms''
      else (let s = u div second; m = s div 60; h = m div 60 in
        (if h > 0 then dec_digits h @ ''h'' else []) @
        (if m > 0 then dec_digits (m mod 60) @ ''m'' else []) @
        dec_digits (s mod 60) @ dur_frac 9 (u mod second) @ ''s''))"

text \<open>\<open>Duration.String\<close>.\<close>

definition duration_string :: "duration \<Rightarrow> string" where
  "duration_string d = (if d < 0 then CHR ''-'' # dur_abs (- d) else dur_abs d)"

lemma duration_string_example: "duration_string (90 * second + 500000000) = ''1m30.5s''"
  by code_simp

lemma duration_string_hours: "duration_string (6 * hour) = ''6h0m0s''"
  by code_simp

lemma duration_string_micro: "duration_string (- 1500) = ''-1.5'' @ [CHR 0xC2, CHR 0xB5, CHR ''s'']"
  by code_simp

end
