(* ===== verification/NotifyCatalog.thy ===== *)
theory NotifyCatalog
  imports GoStrings
begin

text \<open>
  The failure catalog of the notification subsystem (\<open>internal/notify/catalog.go\<close>): which
  failures of a scheduled sync exist, under which stable type and code, with the title and the
  action a message shows. The catalog is a Go map; the ordered list of its types fixes the order
  of the lines of a recovery message.
\<close>

type_synonym failureType = string

record failureDefinition =
  fd_type :: failureType
  fd_errorCode :: string
  fd_title :: string
  fd_action :: string

definition failure_def :: "failureType \<Rightarrow> string \<Rightarrow> string \<Rightarrow> string \<Rightarrow> failureDefinition" where
  "failure_def ft code title action =
     \<lparr>fd_type = ft, fd_errorCode = code, fd_title = title, fd_action = action\<rparr>"

definition FailureConfigResolution :: failureType where
  "FailureConfigResolution = ''sync.config_resolution.failed''"
definition FailureMetricsOpen :: failureType where
  "FailureMetricsOpen = ''sync.metrics.open.failed''"
definition FailureMetricsClose :: failureType where
  "FailureMetricsClose = ''sync.metrics.close.failed''"
definition FailureStoreOpen :: failureType where
  "FailureStoreOpen = ''sync.store.open.failed''"
definition FailureStoreClose :: failureType where
  "FailureStoreClose = ''sync.store.close.failed''"
definition FailureOptions :: failureType where
  "FailureOptions = ''sync.options.failed''"
definition FailureOutput :: failureType where
  "FailureOutput = ''sync.output.failed''"
definition FailureAppleNotesPermission :: failureType where
  "FailureAppleNotesPermission = ''sync.apple_notes.permission_denied''"
definition FailureUnknown :: failureType where
  "FailureUnknown = ''sync.unknown''"

lemmas failure_types_def =
  FailureConfigResolution_def FailureMetricsOpen_def FailureMetricsClose_def FailureStoreOpen_def
  FailureStoreClose_def FailureOptions_def FailureOutput_def FailureAppleNotesPermission_def
  FailureUnknown_def

definition knownSyncStages :: "string list" where
  "knownSyncStages =
    [''apple_notes'',
     ''safari_tabs'',
     ''bluesky_bookmarks'',
     ''mastodon_bookmarks'',
     ''x_frontier'',
     ''x_media'',
     ''x_photo_ocr'',
     ''github'',
     ''youtube'',
     ''feeds'',
     ''sources'',
     ''categorize'',
     ''media_archive'',
     ''okf_export'']"

definition semanticDefinition :: "string \<Rightarrow> string \<Rightarrow> string \<Rightarrow> failureDefinition" where
  "semanticDefinition code title action = failure_def (''sync.semantic.'' @ code) code title action"

definition semanticDefinitions :: "failureDefinition list" where
  "semanticDefinitions =
    [semanticDefinition ''semantic_backend_broken'' ''Semantic index backend is unavailable'' ''Repair or reinstall the configured semantic index backend, then rerun the sync.'',
     semanticDefinition ''semantic_run_conflict'' ''Semantic refresh run conflict'' ''Wait for the active semantic refresh to settle, then rerun the sync.'',
     semanticDefinition ''semantic_projection_failed'' ''Semantic projection failed'' ''Inspect the local semantic refresh status, repair the projection failure, then rerun the sync.'',
     semanticDefinition ''semantic_embedding_failed'' ''Semantic embedding failed'' ''Restore the configured embedding provider, then rerun the sync.'',
     semanticDefinition ''semantic_embedding_circuit_open'' ''Semantic embedding circuit is open'' ''Restore the configured embedding provider and wait for the circuit to rearm, then rerun the sync.'',
     semanticDefinition ''semantic_flush_failed'' ''Semantic index flush failed'' ''Check local storage and semantic index health, then rerun the sync.'',
     semanticDefinition ''semantic_compaction_failed'' ''Semantic index compaction failed'' ''Check local storage and semantic index health, then rerun the sync.'',
     semanticDefinition ''semantic_verify_failed'' ''Semantic index verification failed'' ''Inspect semantic readiness and repair the invalid index state before rerunning the sync.'',
     semanticDefinition ''semantic_native_root_failed'' ''Semantic native index root failed'' ''Repair the configured native index root, then rerun the sync.'',
     semanticDefinition ''semantic_readiness_not_ready'' ''Semantic index is not ready'' ''Inspect semantic readiness debt and repair blocked work before rerunning the sync.'',
     semanticDefinition ''semantic_lock_unavailable'' ''Semantic refresh lock is unavailable'' ''Wait for the current semantic writer to finish, then rerun the sync.'']"

fun capitalize :: "string \<Rightarrow> string" where
  "capitalize [] = []"
| "capitalize (c # s) = upperChar c # s"

definition stageTitle :: "string \<Rightarrow> string" where
  "stageTitle stage = joinWith '' '' (map capitalize (split_on (CHR ''_'') stage))"

definition stage_definition :: "string \<Rightarrow> failureDefinition" where
  "stage_definition stage =
     failure_def (''sync.stage.'' @ stage @ ''.failed'')
       (''sync_stage_'' @ stage @ ''_failed'')
       (stageTitle stage @ '' sync stage failed'')
       ''Inspect the local dbrain service logs for this stage, correct the local failure, then rerun the sync.''"

definition catalog_definitions :: "failureDefinition list" where
  "catalog_definitions =
    [failure_def FailureConfigResolution ''sync_config_resolution_failed'' ''Scheduled sync configuration is invalid'' ''Correct the scheduled sync configuration, then restart the service.'',
     failure_def FailureMetricsOpen ''sync_metrics_open_failed'' ''Scheduled sync metrics could not be opened'' ''Check the private log directory permissions and available storage, then restart the service.'',
     failure_def FailureMetricsClose ''sync_metrics_close_failed'' ''Scheduled sync metrics could not be finalized'' ''Check the private log directory and storage health, then rerun the sync.'',
     failure_def FailureStoreOpen ''sync_store_open_failed'' ''dbrain store could not be opened'' ''Check the configured database path, permissions, and database health, then restart the service.'',
     failure_def FailureStoreClose ''sync_store_close_failed'' ''dbrain store could not be finalized'' ''Check database and storage health before rerunning the sync.'',
     failure_def FailureOptions ''sync_options_failed'' ''Scheduled sync preflight failed'' ''Correct the reported local provider or credential configuration, then restart the service.'',
     failure_def FailureOutput ''sync_output_failed'' ''Scheduled sync output failed'' ''Check the service log destination and local storage, then restart the service.'',
     failure_def FailureAppleNotesPermission ''apple_notes_permission_denied'' ''Apple Notes permission denied'' ''Grant Full Disk Access to the installed dbrain service binary, then restart the service.'']
    @ map stage_definition knownSyncStages
    @ semanticDefinitions
    @ [failure_def FailureUnknown ''sync_unknown'' ''Scheduled sync failed'' ''Inspect the local dbrain service logs, correct the failure, then rerun the sync.'']"

definition buildFailureCatalog :: "(failureType, failureDefinition) gomap" where
  "buildFailureCatalog = fold (\<lambda>d m. gm_put (fd_type d) d m) catalog_definitions []"

definition orderedFailureTypes :: "failureType list" where
  "orderedFailureTypes =
    [FailureConfigResolution,
     FailureMetricsOpen,
     FailureMetricsClose,
     FailureStoreOpen,
     FailureStoreClose,
     FailureOptions,
     FailureOutput,
     FailureAppleNotesPermission]
    @ map (\<lambda>stage. ''sync.stage.'' @ stage @ ''.failed'') knownSyncStages
    @ map fd_type semanticDefinitions
    @ [FailureUnknown]"

definition LookupFailure :: "failureType \<Rightarrow> failureDefinition option" where
  "LookupFailure ft = gm_get buildFailureCatalog ft"

definition KnownFailureTypes :: "failureType list" where
  "KnownFailureTypes = orderedFailureTypes"

definition LookupStageFailure :: "string \<Rightarrow> failureType option" where
  "LookupStageFailure stage =
     (if stage \<in> set knownSyncStages then Some (''sync.stage.'' @ stage @ ''.failed'') else None)"

definition LookupSemanticFailure :: "string \<Rightarrow> failureType \<times> bool" where
  "LookupSemanticFailure code =
     (let ft = ''sync.semantic.'' @ code in (ft, LookupFailure ft \<noteq> None))"

fun index_of :: "failureType list \<Rightarrow> failureType \<Rightarrow> nat" where
  "index_of [] ft = 0"
| "index_of (k # ks) ft = (if k = ft then 0 else Suc (index_of ks ft))"

definition failureCatalogIndex :: "failureType \<Rightarrow> nat" where
  "failureCatalogIndex ft = index_of orderedFailureTypes ft"

section \<open>The catalog and the order agree\<close>

lemma catalog_types: "map fd_type catalog_definitions = orderedFailureTypes"
  by (simp add: catalog_definitions_def orderedFailureTypes_def stage_definition_def failure_def_def)

lemma ordered_types_distinct: "distinct orderedFailureTypes"
  by code_simp

lemma length_ordered_types: "length orderedFailureTypes = 34"
  by code_simp

lemma fold_put_fresh:
  "distinct (map f ds) \<Longrightarrow> \<forall>d \<in> set ds. f d \<notin> gm_keys m
    \<Longrightarrow> fold (\<lambda>d m. gm_put (f d) d m) ds m = m @ map (\<lambda>d. (f d, d)) ds"
proof (induction ds arbitrary: m)
  case (Cons d ds)
  have "gm_put (f d) d m = m @ [(f d, d)]"
    using Cons.prems(2) unfolding gm_put_def by (induction m) auto
  moreover have "\<forall>e \<in> set ds. f e \<notin> gm_keys (m @ [(f d, d)])"
    using Cons.prems by (auto simp: image_iff)
  ultimately show ?case using Cons.IH [of "m @ [(f d, d)]"] Cons.prems(1) by simp
qed simp

lemma catalog_list: "buildFailureCatalog = map (\<lambda>d. (fd_type d, d)) catalog_definitions"
  unfolding buildFailureCatalog_def
  by (subst fold_put_fresh) (simp_all add: catalog_types ordered_types_distinct)

lemma lookup_failure_iff: "LookupFailure ft = Some d \<longleftrightarrow> d \<in> set catalog_definitions \<and> fd_type d = ft"
proof -
  have "gm_ok buildFailureCatalog"
    by (simp add: gm_ok_def catalog_list o_def catalog_types ordered_types_distinct)
  then show ?thesis
    by (auto simp: LookupFailure_def gm_get_Some_iff) (auto simp: catalog_list)
qed

lemma lookup_failure_known: "LookupFailure ft \<noteq> None \<longleftrightarrow> ft \<in> set orderedFailureTypes"
  by (auto simp: lookup_failure_iff catalog_types [symmetric])

lemma index_of_inj: "x \<in> set ks \<Longrightarrow> index_of ks x = index_of ks y \<Longrightarrow> x = y"
  by (induction ks) (auto split: if_splits)

lemma failureCatalogIndex_inj:
  "LookupFailure x \<noteq> None \<Longrightarrow> failureCatalogIndex x = failureCatalogIndex y \<Longrightarrow> x = y"
  unfolding failureCatalogIndex_def using index_of_inj lookup_failure_known by blast

definition message_safe :: "failureDefinition \<Rightarrow> bool" where
  "message_safe d = (ascii (fd_title d) \<and> ascii (fd_action d) \<and> fd_title d \<noteq> []
     \<and> length (fd_title d) \<le> 60 \<and> length (fd_action d) \<le> 110)"

lemma message_safe_bits:
  "message_safe d = (list_all (\<lambda>c. \<not> digit7 c) (fd_title d) \<and> list_all (\<lambda>c. \<not> digit7 c) (fd_action d)
     \<and> fd_title d \<noteq> [] \<and> drop 60 (fd_title d) = [] \<and> drop 110 (fd_action d) = [])"
  unfolding message_safe_def ascii_bits by simp

lemma catalog_message_safe: "list_all message_safe catalog_definitions"
  unfolding message_safe_bits by code_simp

lemma lookup_message_safe: "LookupFailure ft = Some d \<Longrightarrow> message_safe d"
  using catalog_message_safe by (auto simp: lookup_failure_iff list_all_iff)

end
