(* ===== verification/Sha256.thy ===== *)
theory Sha256
  imports Prelude "HOL-Library.Word"
begin

unbundle bit_operations_syntax

text \<open>
  \<open>crypto/sha256.Sum256\<close> of the standard library (FIPS 180-4): the components derive the
  identifiers of incidents, notifications and records from it. Words are 32 bits wide and
  additions wrap.
\<close>

type_synonym w32 = "32 word"

text \<open>The round constants and the initial state, in decimal: the first 32 bits of the fractional
  parts of the cube roots of the first 64 primes, and of the square roots of the first 8.\<close>

definition sha_k :: "w32 list" where
  "sha_k =
    [1116352408, 1899447441, 3049323471, 3921009573, 961987163, 1508970993,
     2453635748, 2870763221, 3624381080, 310598401, 607225278, 1426881987,
     1925078388, 2162078206, 2614888103, 3248222580, 3835390401, 4022224774,
     264347078, 604807628, 770255983, 1249150122, 1555081692, 1996064986,
     2554220882, 2821834349, 2952996808, 3210313671, 3336571891, 3584528711,
     113926993, 338241895, 666307205, 773529912, 1294757372, 1396182291,
     1695183700, 1986661051, 2177026350, 2456956037, 2730485921, 2820302411,
     3259730800, 3345764771, 3516065817, 3600352804, 4094571909, 275423344,
     430227734, 506948616, 659060556, 883997877, 958139571, 1322822218,
     1537002063, 1747873779, 1955562222, 2024104815, 2227730452, 2361852424,
     2428436474, 2756734187, 3204031479, 3329325298]"

definition sha_init :: "w32 list" where
  "sha_init =
    [1779033703, 3144134277, 1013904242, 2773480762,
     1359893119, 2600822924, 528734635, 1541459225]"

definition rotr :: "nat \<Rightarrow> w32 \<Rightarrow> w32" where
  "rotr n x = (drop_bit n x) OR (push_bit (32 - n) x)"

definition byte_of :: "char \<Rightarrow> w32" where
  "byte_of c = of_nat (of_char c)"

text \<open>Padding: a one bit, zeros to 56 bytes of the last block, the length in bits.\<close>

definition length_bytes :: "nat \<Rightarrow> w32 list" where
  "length_bytes n = map (\<lambda>i. of_int ((8 * int n) div 2 ^ (8 * i) mod 256)) [7, 6, 5, 4, 3, 2, 1, 0]"

definition sha_pad :: "string \<Rightarrow> w32 list" where
  "sha_pad s = (let n = length s in
     map byte_of s @ [0x80] @ replicate ((119 - n mod 64) mod 64) 0 @ length_bytes n)"

fun be_words :: "w32 list \<Rightarrow> w32 list" where
  "be_words (a # b # c # d # r) =
     ((push_bit 24 a) OR (push_bit 16 b) OR (push_bit 8 c) OR d) # be_words r"
| "be_words _ = []"

text \<open>The message schedule, kept newest first: entry \<open>t - 1\<close> is at index 0.\<close>

fun sha_schedule :: "nat \<Rightarrow> w32 list \<Rightarrow> w32 list" where
  "sha_schedule 0 ws = ws"
| "sha_schedule (Suc k) ws =
     (let w15 = ws ! 14; w2 = ws ! 1;
          s0 = rotr 7 w15 XOR rotr 18 w15 XOR drop_bit 3 w15;
          s1 = rotr 17 w2 XOR rotr 19 w2 XOR drop_bit 10 w2
      in sha_schedule k ((ws ! 15 + s0 + ws ! 6 + s1) # ws))"

fun sha_round :: "w32 \<times> w32 \<Rightarrow> w32 list \<Rightarrow> w32 list" where
  "sha_round (k, w) [a, b, c, d, e, f, g, h] =
     (let s1 = rotr 6 e XOR rotr 11 e XOR rotr 25 e;
          ch = (e AND f) XOR ((NOT e) AND g);
          t1 = h + s1 + ch + k + w;
          s0 = rotr 2 a XOR rotr 13 a XOR rotr 22 a;
          maj = (a AND b) XOR (a AND c) XOR (b AND c)
      in [t1 + s0 + maj, a, b, c, d + t1, e, f, g])"
| "sha_round _ st = st"

definition sha_block :: "w32 list \<Rightarrow> w32 list \<Rightarrow> w32 list" where
  "sha_block st bytes =
     map2 (+) st (fold sha_round (zip sha_k (rev (sha_schedule 48 (rev (be_words bytes))))) st)"

fun sha_blocks :: "nat \<Rightarrow> w32 list \<Rightarrow> w32 list \<Rightarrow> w32 list" where
  "sha_blocks 0 st bytes = st"
| "sha_blocks (Suc n) st bytes = sha_blocks n (sha_block st (take 64 bytes)) (drop 64 bytes)"

definition word_bytes :: "w32 \<Rightarrow> nat list" where
  "word_bytes w = map (\<lambda>i. nat (uint (drop_bit i w) mod 256)) [24, 16, 8, 0]"

definition sha256 :: "string \<Rightarrow> nat list" where
  "sha256 s = (let p = sha_pad s in
     concat (map word_bytes (sha_blocks (length p div 64) sha_init p)))"

text \<open>\<open>%x\<close> of a byte sequence.\<close>

definition hex_digit :: "nat \<Rightarrow> char" where
  "hex_digit n = (if n < 10 then char_of (48 + n) else char_of (87 + n))"

definition hex :: "nat list \<Rightarrow> string" where
  "hex bs = concat (map (\<lambda>b. [hex_digit (b div 16), hex_digit (b mod 16)]) bs)"

definition sha256_hex :: "nat \<Rightarrow> string \<Rightarrow> string" where
  "sha256_hex n s = hex (take n (sha256 s))"

section \<open>The shape of a digest\<close>

lemma length_sha_round: "length (sha_round kw st) = length st"
  by (induction kw st rule: sha_round.induct) (simp_all add: Let_def)

lemma length_sha_rounds: "length (fold sha_round kws st) = length st"
  by (induction kws arbitrary: st) (simp_all add: length_sha_round)

lemma length_sha_block [simp]: "length (sha_block st bytes) = length st"
  by (simp add: sha_block_def length_sha_rounds)

lemma length_sha_blocks [simp]: "length (sha_blocks n st bytes) = length st"
  by (induction n arbitrary: st bytes) simp_all

lemma length_sha256 [simp]: "length (sha256 s) = 32"
  by (simp add: sha256_def Let_def length_concat word_bytes_def o_def sum_list_triv sha_init_def)

lemma sha256_bytes: "b \<in> set (sha256 s) \<Longrightarrow> b < 256"
  by (auto simp: sha256_def Let_def word_bytes_def nat_less_iff)

lemma length_hex [simp]: "length (hex bs) = 2 * length bs"
  by (induction bs) (simp_all add: hex_def)

definition is_hex_char :: "char \<Rightarrow> bool" where
  "is_hex_char c = (let n = (of_char c :: nat) in (48 \<le> n \<and> n \<le> 57) \<or> (97 \<le> n \<and> n \<le> 102))"

lemma hex_digit_char: "n < 16 \<Longrightarrow> is_hex_char (hex_digit n)"
  by (simp add: is_hex_char_def hex_digit_def Let_def)

lemma hex_chars: "\<forall>b \<in> set bs. b < 256 \<Longrightarrow> c \<in> set (hex bs) \<Longrightarrow> is_hex_char c"
  by (auto simp: hex_def intro!: hex_digit_char)

lemma sha256_hex_shape:
  "n \<le> 32 \<Longrightarrow> length (sha256_hex n s) = 2 * n"
  "c \<in> set (sha256_hex n s) \<Longrightarrow> is_hex_char c"
proof -
  show "n \<le> 32 \<Longrightarrow> length (sha256_hex n s) = 2 * n"
    by (simp add: sha256_hex_def)
  show "c \<in> set (sha256_hex n s) \<Longrightarrow> is_hex_char c"
    unfolding sha256_hex_def
    by (rule hex_chars) (auto dest: in_set_takeD sha256_bytes)
qed

end
