(* ===== verification/NotifyMessage.thy ===== *)
theory NotifyMessage
  imports NotifyCatalog Sha256
begin

text \<open>
  Notifications and the events they are derived from (\<open>internal/notify/types.go\<close>,
  \<open>message.go\<close> and the event validation of \<open>state.go\<close>).

  An event holds facts only: its message is derived from them each time it is needed, and is valid
  only if it is exactly the canonical message of its facts. A validator is a function to an
  optional error text, \<open>None\<close> for nil. \<open>sort.Slice\<close> is not stable; it is modelled by
  the stable \<open>sort_key\<close>, which differs only when two incidents share a catalog index, and then
  the validators reject either order.
\<close>

type_synonym operation = string
type_synonym eventKind = string

abbreviation "OperationScheduledSyncAll \<equiv> ''scheduled_sync_all''"
abbreviation "OutcomeSuccess \<equiv> ''success''"
abbreviation "OutcomeFailure \<equiv> ''failure''"
abbreviation "OutcomeCancelled \<equiv> ''cancelled''"
abbreviation "EventFailure \<equiv> ''failure''"
abbreviation "EventReminder \<equiv> ''reminder''"
abbreviation "EventRecovery \<equiv> ''recovery''"
abbreviation "EventTest \<equiv> ''test''"
abbreviation "IncidentOpen \<equiv> ''open''"
abbreviation "IncidentCooling \<equiv> ''cooling''"

definition maxNotificationIDBytes :: nat where "maxNotificationIDBytes = 64"
definition maxIncidentIDBytes :: nat where "maxIncidentIDBytes = 64"
definition maxNotificationItems :: nat where "maxNotificationItems = 64"
definition maxNotificationTitle :: nat where "maxNotificationTitle = 160"
definition maxNotificationBody :: nat where "maxNotificationBody = 4096"

record outcome =
  oc_operation :: operation
  oc_status :: string
  oc_failureType :: failureType
  oc_errorCode :: string
  oc_startedAt :: gotime
  oc_finishedAt :: gotime

record notification =
  nt_id :: string
  nt_incidentIDs :: "string list"
  nt_kind :: eventKind
  nt_operation :: operation
  nt_failureTypes :: "failureType list"
  nt_title :: string
  nt_body :: string
  nt_occurrences :: int
  nt_firstSeenAt :: gotime
  nt_lastSeenAt :: gotime
  nt_createdAt :: gotime
  nt_suppressionAfter :: duration

record incident =
  inc_id :: string
  inc_operation :: operation
  inc_failureType :: failureType
  inc_phase :: string
  inc_firstSeenAt :: gotime
  inc_lastSeenAt :: gotime
  inc_occurrences :: int
  inc_lastFailureEnqueuedAt :: gotime
  inc_needsRecovery :: bool
  inc_recoveryNotifiedAt :: gotime

record incidentSnapshot =
  sn_id :: string
  sn_failureType :: failureType
  sn_firstSeenAt :: gotime
  sn_lastSeenAt :: gotime
  sn_occurrences :: int

record eventFacts =
  ev_kind :: eventKind
  ev_operation :: operation
  ev_incidents :: "incidentSnapshot list"
  ev_suppressionAfter :: duration
  ev_createdAt :: gotime

definition zero_notification :: notification where
  "zero_notification =
     \<lparr>nt_id = [], nt_incidentIDs = [], nt_kind = [], nt_operation = [], nt_failureTypes = [],
      nt_title = [], nt_body = [], nt_occurrences = 0, nt_firstSeenAt = zero_time,
      nt_lastSeenAt = zero_time, nt_createdAt = zero_time, nt_suppressionAfter = 0\<rparr>"

definition zero_incident :: incident where
  "zero_incident =
     \<lparr>inc_id = [], inc_operation = [], inc_failureType = [], inc_phase = [],
      inc_firstSeenAt = zero_time, inc_lastSeenAt = zero_time, inc_occurrences = 0,
      inc_lastFailureEnqueuedAt = zero_time, inc_needsRecovery = False,
      inc_recoveryNotifiedAt = zero_time\<rparr>"

section \<open>Outcomes\<close>

definition ValidateOutcome :: "outcome \<Rightarrow> string option" where
  "ValidateOutcome o' =
     (if oc_operation o' \<noteq> OperationScheduledSyncAll then Some ''invalid notification operation''
      else if oc_status o' = OutcomeSuccess \<or> oc_status o' = OutcomeCancelled then
        (if oc_failureType o' \<noteq> [] \<or> oc_errorCode o' \<noteq> []
         then Some ''non-failure outcome carries failure identity'' else None)
      else if oc_status o' = OutcomeFailure then
        (case LookupFailure (oc_failureType o') of
           None \<Rightarrow> Some ''invalid notification failure identity''
         | Some d \<Rightarrow> if fd_errorCode d \<noteq> oc_errorCode o'
                     then Some ''invalid notification failure identity'' else None)
      else Some ''invalid notification outcome status'')"

section \<open>Identifiers\<close>

definition nul :: string where "nul = [CHR 0x00]"
definition nl :: string where "nl = [CHR 0x0A]"

definition deterministicIncidentID :: "operation \<Rightarrow> failureType \<Rightarrow> gotime \<Rightarrow> string" where
  "deterministicIncidentID op ft firstSeenAt =
     ''inc_'' @ sha256_hex 12 (op @ nul @ ft @ nul @ rfc3339nano (t_utc firstSeenAt))"

definition incidentKey :: "operation \<Rightarrow> failureType \<Rightarrow> string" where
  "incidentKey op ft = op @ nul @ ft"

definition deterministicNotificationID :: "eventKind \<Rightarrow> string list \<Rightarrow> gotime \<Rightarrow> string" where
  "deterministicNotificationID kind incidentIDs createdAt =
     (let ids = sort incidentIDs in
      ''ntf_'' @ sha256_hex 12 (kind @ nul @ joinWith nul ids @ nul @ rfc3339nano (t_utc createdAt)))"

definition validDigestID :: "string \<Rightarrow> string \<Rightarrow> bool" where
  "validDigestID value prefix =
     (length value = length prefix + 24 \<and> hasPrefix value prefix
      \<and> list_all is_hex_char (drop (length prefix) value))"

definition validSafeCode :: "string \<Rightarrow> nat \<Rightarrow> bool" where
  "validSafeCode value limit =
     (length value \<le> limit \<and> utf8_valid value
      \<and> list_all (\<lambda>c. isLowerByte c \<or> isDigitByte c \<or> c \<in> set ''._-'') value)"

definition maxProviderBytes :: nat where "maxProviderBytes = 64"

definition validProviderName :: "string \<Rightarrow> bool" where
  "validProviderName value =
     (value \<noteq> [] \<and> length value \<le> maxProviderBytes
      \<and> list_all (\<lambda>c. isLowerByte c \<or> isDigitByte c \<or> c = CHR ''_'' \<or> c = CHR ''-'') value)"

section \<open>Message texts\<close>

definition formatTimestamp :: "gotime \<Rightarrow> string" where
  "formatTimestamp at = rfc3339 (t_utc at)"

definition formatSuppression :: "duration \<Rightarrow> string" where
  "formatSuppression d =
     (if d > 0 \<and> d mod hour = 0 then show_int (d div hour) @ ''h''
      else if d > 0 \<and> d mod minute = 0 then show_int (d div minute) @ ''m''
      else duration_string d)"

definition formatDuration :: "duration \<Rightarrow> string" where
  "formatDuration d = formatSuppression (if d < 0 then 0 else d)"

definition buildFailureMessage_core :: "incident \<Rightarrow> duration \<Rightarrow> string + notification" where
  "buildFailureMessage_core incident repeatAfter =
     (case LookupFailure (inc_failureType incident) of
        None \<Rightarrow> Inl ''unknown failure type''
      | Some d \<Rightarrow>
          let createdAt = t_utc (inc_lastSeenAt incident) in
          Inr \<lparr>nt_id = deterministicNotificationID EventFailure [inc_id incident] createdAt,
               nt_incidentIDs = [inc_id incident],
               nt_kind = EventFailure,
               nt_operation = inc_operation incident,
               nt_failureTypes = [inc_failureType incident],
               nt_title = ''dbrain scheduled sync failed: '' @ fd_title d,
               nt_body =
                 ''dbrain scheduled sync failed: '' @ fd_title d
                 @ ''.'' @ nl @ ''Occurrences: '' @ show_int (inc_occurrences incident)
                 @ ''.'' @ nl @ ''First observed: '' @ formatTimestamp (inc_firstSeenAt incident)
                 @ ''.'' @ nl @ ''Action: '' @ fd_action d
                 @ nl @ ''Further notifications for this error type are suppressed for ''
                 @ formatSuppression repeatAfter
                 @ ''.'' @ nl @ ''Incident: '' @ inc_id incident,
               nt_occurrences = inc_occurrences incident,
               nt_firstSeenAt = t_utc (inc_firstSeenAt incident),
               nt_lastSeenAt = t_utc (inc_lastSeenAt incident),
               nt_createdAt = createdAt,
               nt_suppressionAfter = repeatAfter\<rparr>)"

definition buildReminderMessage_core :: "incident \<Rightarrow> duration \<Rightarrow> string + notification" where
  "buildReminderMessage_core incident repeatAfter =
     (case LookupFailure (inc_failureType incident) of
        None \<Rightarrow> Inl ''unknown failure type''
      | Some d \<Rightarrow>
          let createdAt = t_utc (inc_lastSeenAt incident) in
          Inr \<lparr>nt_id = deterministicNotificationID EventReminder [inc_id incident] createdAt,
               nt_incidentIDs = [inc_id incident],
               nt_kind = EventReminder,
               nt_operation = inc_operation incident,
               nt_failureTypes = [inc_failureType incident],
               nt_title = ''dbrain scheduled sync still failing: '' @ fd_title d,
               nt_body =
                 ''Still failing: '' @ fd_title d
                 @ ''.'' @ nl @ ''Occurrences: '' @ show_int (inc_occurrences incident)
                 @ ''.'' @ nl @ ''Duration: ''
                 @ formatDuration (t_sub (inc_lastSeenAt incident) (inc_firstSeenAt incident))
                 @ ''.'' @ nl @ ''First observed: '' @ formatTimestamp (inc_firstSeenAt incident)
                 @ ''.'' @ nl @ ''Last observed: '' @ formatTimestamp (inc_lastSeenAt incident)
                 @ ''.'' @ nl @ ''Action: '' @ fd_action d
                 @ nl @ ''Further notifications for this error type are suppressed for ''
                 @ formatSuppression repeatAfter
                 @ ''.'' @ nl @ ''Incident: '' @ inc_id incident,
               nt_occurrences = inc_occurrences incident,
               nt_firstSeenAt = t_utc (inc_firstSeenAt incident),
               nt_lastSeenAt = t_utc (inc_lastSeenAt incident),
               nt_createdAt = createdAt,
               nt_suppressionAfter = repeatAfter\<rparr>)"

text \<open>The loop of \<open>buildRecoveryMessage\<close>: the notification and the body lines so far.\<close>

fun recovery_loop :: "bool \<Rightarrow> incident list \<Rightarrow> notification \<Rightarrow> string list
    \<Rightarrow> string + (notification \<times> string list)" where
  "recovery_loop validateIDs [] n lines = Inr (n, lines)"
| "recovery_loop validateIDs (i # is) n lines =
     (case LookupFailure (inc_failureType i) of
        None \<Rightarrow> Inl ''invalid recovered incident''
      | Some d \<Rightarrow>
          if inc_operation i \<noteq> OperationScheduledSyncAll
             \<or> (validateIDs \<and> inc_id i \<noteq> deterministicIncidentID (inc_operation i) (inc_failureType i) (inc_firstSeenAt i))
          then Inl ''invalid recovered incident''
          else recovery_loop validateIDs is
            (n\<lparr>nt_incidentIDs := nt_incidentIDs n @ [inc_id i],
               nt_failureTypes := nt_failureTypes n @ [inc_failureType i],
               nt_occurrences := int64_add (nt_occurrences n) (inc_occurrences i),
               nt_firstSeenAt := (if t_isZero (nt_firstSeenAt n) \<or> t_before (inc_firstSeenAt i) (nt_firstSeenAt n)
                                  then t_utc (inc_firstSeenAt i) else nt_firstSeenAt n),
               nt_lastSeenAt := (if t_after (inc_lastSeenAt i) (nt_lastSeenAt n)
                                 then t_utc (inc_lastSeenAt i) else nt_lastSeenAt n)\<rparr>)
            (lines @ [''- '' @ fd_title d @ '' (incident '' @ inc_id i @ '')'']))"

definition buildRecoveryMessage_core ::
    "incident list \<Rightarrow> gotime \<Rightarrow> duration \<Rightarrow> bool \<Rightarrow> string + notification" where
  "buildRecoveryMessage_core incidents createdAt repeatAfter validateIDs =
     (if incidents = [] then Inl ''recovery requires incidents''
      else
        let sorted = sort_key (\<lambda>i. failureCatalogIndex (inc_failureType i)) incidents;
            n = zero_notification\<lparr>
                  nt_kind := EventRecovery,
                  nt_operation := OperationScheduledSyncAll,
                  nt_title := ''dbrain scheduled sync recovered'',
                  nt_createdAt := t_utc createdAt,
                  nt_suppressionAfter := repeatAfter\<rparr>
        in case recovery_loop validateIDs sorted n [''dbrain scheduled sync recovered.'', ''Resolved:''] of
             Inl e \<Rightarrow> Inl e
           | Inr (n, lines) \<Rightarrow>
               Inr (n\<lparr>nt_body := joinWith nl lines,
                      nt_id := deterministicNotificationID (nt_kind n) (nt_incidentIDs n) (nt_createdAt n)\<rparr>))"

section \<open>The canonical notification\<close>

definition incidentFromNotification :: "notification \<Rightarrow> nat \<Rightarrow> incident" where
  "incidentFromNotification n index =
     zero_incident\<lparr>inc_id := nt_incidentIDs n ! index,
                   inc_operation := nt_operation n,
                   inc_failureType := nt_failureTypes n ! index,
                   inc_firstSeenAt := nt_firstSeenAt n,
                   inc_lastSeenAt := nt_lastSeenAt n,
                   inc_occurrences := nt_occurrences n\<rparr>"

fun recovery_identity_loop :: "(string \<times> failureType) list \<Rightarrow> int \<Rightarrow> string list \<Rightarrow> string option" where
  "recovery_identity_loop [] prev seen = None"
| "recovery_identity_loop ((iid, ft) # r) prev seen =
     (let catalogIndex = int (failureCatalogIndex ft) in
      if catalogIndex \<le> prev then Some ''recovery notification is not in catalog order''
      else if iid \<in> set seen then Some ''recovery notification repeats incident''
      else recovery_identity_loop r catalogIndex (iid # seen))"

definition validateRecoveryIdentity :: "notification \<Rightarrow> string option" where
  "validateRecoveryIdentity n =
     (if nt_incidentIDs n = [] \<or> length (nt_incidentIDs n) \<noteq> length (nt_failureTypes n)
      then Some ''invalid canonical recovery notification''
      else recovery_identity_loop (zip (nt_incidentIDs n) (nt_failureTypes n)) (-1) [])"

definition test_notification :: "gotime \<Rightarrow> operation \<Rightarrow> notification" where
  "test_notification createdAt operation =
     zero_notification\<lparr>nt_id := deterministicNotificationID EventTest [] createdAt,
       nt_kind := EventTest,
       nt_operation := operation,
       nt_title := ''dbrain notification test'',
       nt_body := ''dbrain notification delivery test.'',
       nt_createdAt := createdAt\<rparr>"

definition canonicalNotification :: "notification \<Rightarrow> string + notification" where
  "canonicalNotification n =
     (if nt_kind n = EventFailure then
        (if length (nt_incidentIDs n) \<noteq> 1 \<or> length (nt_failureTypes n) \<noteq> 1
            \<or> nt_occurrences n \<noteq> 1
            \<or> \<not> t_equal (nt_firstSeenAt n) (nt_lastSeenAt n)
            \<or> \<not> t_equal (nt_lastSeenAt n) (nt_createdAt n)
            \<or> nt_incidentIDs n ! 0 \<noteq> deterministicIncidentID (nt_operation n) (nt_failureTypes n ! 0) (nt_firstSeenAt n)
         then Inl ''invalid canonical failure notification''
         else buildFailureMessage_core (incidentFromNotification n 0) (nt_suppressionAfter n))
      else if nt_kind n = EventReminder then
        (if length (nt_incidentIDs n) \<noteq> 1 \<or> length (nt_failureTypes n) \<noteq> 1
            \<or> nt_occurrences n < 2
            \<or> \<not> t_equal (nt_lastSeenAt n) (nt_createdAt n)
            \<or> nt_incidentIDs n ! 0 \<noteq> deterministicIncidentID (nt_operation n) (nt_failureTypes n ! 0) (nt_firstSeenAt n)
         then Inl ''invalid canonical reminder notification''
         else buildReminderMessage_core (incidentFromNotification n 0) (nt_suppressionAfter n))
      else if nt_kind n = EventRecovery then
        (case validateRecoveryIdentity n of
           Some e \<Rightarrow> Inl e
         | None \<Rightarrow>
             buildRecoveryMessage_core
               (map (\<lambda>index. (incidentFromNotification n index)
                       \<lparr>inc_occurrences := (if index = 0 then nt_occurrences n else 0)\<rparr>)
                    [0..<length (nt_incidentIDs n)])
               (nt_createdAt n) (nt_suppressionAfter n) False)
      else if nt_kind n = EventTest then
        (if nt_incidentIDs n \<noteq> [] \<or> nt_failureTypes n \<noteq> []
            \<or> nt_occurrences n \<noteq> 0 \<or> \<not> t_isZero (nt_firstSeenAt n)
            \<or> \<not> t_isZero (nt_lastSeenAt n) \<or> t_isZero (nt_createdAt n)
            \<or> nt_suppressionAfter n \<noteq> 0
         then Inl ''invalid canonical test notification''
         else Inr ((test_notification (nt_createdAt n) OperationScheduledSyncAll)
                     \<lparr>nt_createdAt := t_utc (nt_createdAt n)\<rparr>))
      else Inl ''invalid notification kind'')"

definition equalNotification :: "notification \<Rightarrow> notification \<Rightarrow> bool" where
  "equalNotification l r =
     (nt_id l = nt_id r
      \<and> nt_incidentIDs l = nt_incidentIDs r
      \<and> nt_kind l = nt_kind r
      \<and> nt_operation l = nt_operation r
      \<and> nt_failureTypes l = nt_failureTypes r
      \<and> nt_title l = nt_title r
      \<and> nt_body l = nt_body r
      \<and> nt_occurrences l = nt_occurrences r
      \<and> t_equal (nt_firstSeenAt l) (nt_firstSeenAt r)
      \<and> t_equal (nt_lastSeenAt l) (nt_lastSeenAt r)
      \<and> t_equal (nt_createdAt l) (nt_createdAt r)
      \<and> nt_suppressionAfter l = nt_suppressionAfter r)"

definition valid_kind :: "eventKind \<Rightarrow> bool" where
  "valid_kind k = (k = EventFailure \<or> k = EventReminder \<or> k = EventRecovery \<or> k = EventTest)"

definition ValidateNotification :: "notification \<Rightarrow> string option" where
  "ValidateNotification n =
     (if length (nt_id n) > maxNotificationIDBytes \<or> \<not> validDigestID (nt_id n) ''ntf_''
      then Some ''invalid notification id''
      else if nt_operation n \<noteq> OperationScheduledSyncAll then Some ''invalid notification operation''
      else if \<not> valid_kind (nt_kind n) then Some ''invalid notification kind''
      else if length (nt_incidentIDs n) > maxNotificationItems \<or> length (nt_failureTypes n) > maxNotificationItems
      then Some ''notification item count exceeds limit''
      else if nt_kind n \<noteq> EventTest \<and> (nt_incidentIDs n = [] \<or> length (nt_incidentIDs n) \<noteq> length (nt_failureTypes n))
      then Some ''notification incident and failure type counts differ''
      else if list_ex (\<lambda>i. length i > maxIncidentIDBytes \<or> \<not> validDigestID i ''inc_'') (nt_incidentIDs n)
      then Some ''invalid incident id''
      else if list_ex (\<lambda>ft. LookupFailure ft = None) (nt_failureTypes n)
      then Some ''unknown notification failure type''
      else if nt_title n = [] \<or> length (nt_title n) > maxNotificationTitle \<or> \<not> utf8_valid (nt_title n)
      then Some ''invalid notification title''
      else if nt_body n = [] \<or> length (nt_body n) > maxNotificationBody \<or> \<not> utf8_valid (nt_body n)
      then Some ''invalid notification body''
      else if nt_kind n \<noteq> EventTest \<and> nt_occurrences n < 1
      then Some ''invalid notification occurrence count''
      else if nt_kind n \<noteq> EventTest \<and> nt_suppressionAfter n \<le> 0
      then Some ''invalid notification suppression interval''
      else if nt_kind n \<noteq> EventTest \<and> (t_isZero (nt_firstSeenAt n)
                \<or> t_before (nt_lastSeenAt n) (nt_firstSeenAt n)
                \<or> t_before (nt_createdAt n) (nt_lastSeenAt n))
      then Some ''invalid notification chronology''
      else if (\<not> t_isZero (nt_firstSeenAt n) \<and> \<not> utc_loc (nt_firstSeenAt n))
              \<or> (\<not> t_isZero (nt_lastSeenAt n) \<and> \<not> utc_loc (nt_lastSeenAt n))
              \<or> (\<not> t_isZero (nt_createdAt n) \<and> \<not> utc_loc (nt_createdAt n))
      then Some ''notification timestamps are not canonical UTC''
      else (case canonicalNotification n of
              Inl e \<Rightarrow> Some e
            | Inr canonical \<Rightarrow>
                if \<not> equalNotification n canonical then Some ''notification is not canonical'' else None))"

definition validated :: "string + notification \<Rightarrow> string + notification" where
  "validated r = (case r of Inl e \<Rightarrow> Inl e
     | Inr n \<Rightarrow> (case ValidateNotification n of Some e \<Rightarrow> Inl e | None \<Rightarrow> Inr n))"

definition BuildFailureMessage :: "incident \<Rightarrow> duration \<Rightarrow> string + notification" where
  "BuildFailureMessage incident repeatAfter = validated (buildFailureMessage_core incident repeatAfter)"

definition BuildReminderMessage :: "incident \<Rightarrow> duration \<Rightarrow> string + notification" where
  "BuildReminderMessage incident repeatAfter = validated (buildReminderMessage_core incident repeatAfter)"

definition BuildRecoveryMessage :: "incident list \<Rightarrow> gotime \<Rightarrow> duration \<Rightarrow> string + notification" where
  "BuildRecoveryMessage incidents createdAt repeatAfter =
     validated (buildRecoveryMessage_core incidents createdAt repeatAfter True)"

section \<open>Events\<close>

fun event_incident_loop :: "eventFacts \<Rightarrow> incidentSnapshot list \<Rightarrow> string list \<Rightarrow> failureType list \<Rightarrow> int
    \<Rightarrow> string option" where
  "event_incident_loop ev [] seenIDs seenTypes prev = None"
| "event_incident_loop ev (i # is) seenIDs seenTypes prev =
     (if LookupFailure (sn_failureType i) = None then Some ''unknown notification event failure type''
      else if t_isZero (sn_firstSeenAt i) \<or> \<not> utc_loc (sn_firstSeenAt i)
              \<or> \<not> utc_loc (sn_lastSeenAt i)
              \<or> t_before (sn_lastSeenAt i) (sn_firstSeenAt i)
              \<or> t_before (ev_createdAt ev) (sn_lastSeenAt i)
              \<or> sn_occurrences i < 1
      then Some ''invalid notification event incident chronology''
      else if sn_id i \<noteq> deterministicIncidentID (ev_operation ev) (sn_failureType i) (sn_firstSeenAt i)
      then Some ''notification event incident id is not deterministic''
      else if sn_id i \<in> set seenIDs then Some ''notification event repeats incident id''
      else if sn_failureType i \<in> set seenTypes then Some ''notification event repeats failure type''
      else
        let catalogIndex = int (failureCatalogIndex (sn_failureType i)) in
        if ev_kind ev = EventRecovery \<and> catalogIndex \<le> prev
        then Some ''notification recovery event is not in catalog order''
        else event_incident_loop ev is (sn_id i # seenIDs) (sn_failureType i # seenTypes)
               (if ev_kind ev = EventRecovery then catalogIndex else prev))"

definition event_shape :: "eventFacts \<Rightarrow> string option" where
  "event_shape ev =
     (if ev_kind ev = EventFailure \<or> ev_kind ev = EventReminder then
        (if length (ev_incidents ev) \<noteq> 1 \<or> ev_suppressionAfter ev \<le> 0
         then Some ''invalid notification incident event facts'' else None)
      else if ev_kind ev = EventRecovery then
        (if ev_incidents ev = [] \<or> ev_suppressionAfter ev \<le> 0
         then Some ''invalid notification recovery event facts'' else None)
      else if ev_kind ev = EventTest then
        (if ev_incidents ev \<noteq> [] \<or> ev_suppressionAfter ev \<noteq> 0
         then Some ''invalid notification test event facts'' else None)
      else Some ''invalid notification event kind'')"

definition ValidateEventFacts :: "eventFacts \<Rightarrow> string option" where
  "ValidateEventFacts ev =
     (if ev_operation ev \<noteq> OperationScheduledSyncAll then Some ''invalid notification event operation''
      else if t_isZero (ev_createdAt ev) \<or> \<not> utc_loc (ev_createdAt ev)
      then Some ''invalid notification event creation time''
      else if length (ev_incidents ev) > maxNotificationItems
      then Some ''notification event incident count exceeds limit''
      else (case event_shape ev of
        Some e \<Rightarrow> Some e
      | None \<Rightarrow>
          if ev_kind ev = EventTest then None
          else (case event_incident_loop ev (ev_incidents ev) [] [] (-1) of
            Some e \<Rightarrow> Some e
          | None \<Rightarrow>
              let incident = ev_incidents ev ! 0 in
              if ev_kind ev = EventFailure then
                (if sn_occurrences incident \<noteq> 1
                    \<or> \<not> t_equal (sn_firstSeenAt incident) (sn_lastSeenAt incident)
                    \<or> \<not> t_equal (sn_lastSeenAt incident) (ev_createdAt ev)
                 then Some ''invalid notification failure event facts'' else None)
              else if ev_kind ev = EventReminder then
                (if sn_occurrences incident < 2
                    \<or> \<not> t_equal (sn_lastSeenAt incident) (ev_createdAt ev)
                    \<or> \<not> t_after (sn_lastSeenAt incident) (sn_firstSeenAt incident)
                 then Some ''invalid notification reminder event facts'' else None)
              else None)))"

definition snapshot_incident :: "operation \<Rightarrow> incidentSnapshot \<Rightarrow> incident" where
  "snapshot_incident op sn =
     zero_incident\<lparr>inc_id := sn_id sn,
                   inc_operation := op,
                   inc_failureType := sn_failureType sn,
                   inc_firstSeenAt := sn_firstSeenAt sn,
                   inc_lastSeenAt := sn_lastSeenAt sn,
                   inc_occurrences := sn_occurrences sn\<rparr>"

definition DeriveNotification :: "eventFacts \<Rightarrow> string + notification" where
  "DeriveNotification ev =
     (case ValidateEventFacts ev of
        Some e \<Rightarrow> Inl e
      | None \<Rightarrow>
          let incidents = map (snapshot_incident (ev_operation ev)) (ev_incidents ev) in
          if ev_kind ev = EventFailure then BuildFailureMessage (incidents ! 0) (ev_suppressionAfter ev)
          else if ev_kind ev = EventReminder then BuildReminderMessage (incidents ! 0) (ev_suppressionAfter ev)
          else if ev_kind ev = EventRecovery then
            BuildRecoveryMessage incidents (ev_createdAt ev) (ev_suppressionAfter ev)
          else if ev_kind ev = EventTest then
            validated (Inr (test_notification (ev_createdAt ev) (ev_operation ev)))
          else Inl ''invalid notification event kind'')"

end
