(* ===== verification/NotifyState.thy ===== *)
theory NotifyState
  imports NotifyMessage
begin

text \<open>
  The incident state machine of the notification subsystem (\<open>internal/notify/state.go\<close>):
  incidents by operation and failure type, an outbox of envelopes with one delivery record per
  provider, and the last delivery per provider.

  The three maps and slices of a \<open>State\<close> that the validator requires to be non-nil are
  options, \<open>None\<close> being nil; \<open>gm_of\<close> and \<open>outbox_of\<close> read nil as empty, as
  Go does. The length of the JSON encoding is the parameter \<open>jsonLen\<close> of the validator
  (\<open>None\<close> when \<open>json.Marshal\<close> fails); nothing else of the encoding matters here.
\<close>

abbreviation "DeliveryPending \<equiv> ''pending''"
abbreviation "DeliveryAccepted \<equiv> ''accepted''"
abbreviation "DeliveryPermanentError \<equiv> ''permanent_error''"
abbreviation "DeliveryAmbiguous \<equiv> ''ambiguous''"
abbreviation "DeliveryRetired \<equiv> ''retired''"
abbreviation "StateSchemaV1 \<equiv> ''dbrain.notifications.state.v1''"
abbreviation "StateSchemaV2 \<equiv> ''dbrain.notifications.state.v2''"

definition maxStateIncidents :: nat where "maxStateIncidents = 64"
definition maxStateEnvelopes :: nat where "maxStateEnvelopes = 128"
definition maxProviders :: nat where "maxProviders = 16"
definition maxStateBytes :: nat where "maxStateBytes = 1048576"

record receipt =
  rc_provider :: string
  rc_externalID :: string
  rc_acceptedAt :: gotime

record deliveryRecord =
  dr_status :: string
  dr_attempts :: int
  dr_lastAttemptAt :: gotime
  dr_errorCode :: string
  dr_receipt :: receipt

record deliverySummary =
  ds_notificationID :: string
  ds_provider :: string
  ds_kind :: eventKind
  ds_status :: string
  ds_errorCode :: string
  ds_at :: gotime

record envelope =
  env_event :: eventFacts
  env_deliveries :: "(string, deliveryRecord) gomap"

record state =
  st_schema :: string
  st_incidents :: "(string, incident) gomap option"
  st_outbox :: "envelope list option"
  st_lastDelivery :: deliverySummary
  st_lastDeliveries :: "(string, deliverySummary) gomap option"

record options =
  op_repeatAfter :: duration
  op_providers :: "string list"

definition zero_receipt :: receipt where
  "zero_receipt = \<lparr>rc_provider = [], rc_externalID = [], rc_acceptedAt = zero_time\<rparr>"

definition pending_record :: deliveryRecord where
  "pending_record = \<lparr>dr_status = DeliveryPending, dr_attempts = 0, dr_lastAttemptAt = zero_time,
     dr_errorCode = [], dr_receipt = zero_receipt\<rparr>"

definition zero_summary :: deliverySummary where
  "zero_summary = \<lparr>ds_notificationID = [], ds_provider = [], ds_kind = [], ds_status = [],
     ds_errorCode = [], ds_at = zero_time\<rparr>"

definition EmptyState :: state where
  "EmptyState = \<lparr>st_schema = StateSchemaV2, st_incidents = Some [], st_outbox = Some [],
     st_lastDelivery = zero_summary, st_lastDeliveries = Some []\<rparr>"

definition gm_of :: "('k, 'v) gomap option \<Rightarrow> ('k, 'v) gomap" where
  "gm_of m = (case m of None \<Rightarrow> [] | Some m \<Rightarrow> m)"

definition outbox_of :: "state \<Rightarrow> envelope list" where
  "outbox_of s = (case st_outbox s of None \<Rightarrow> [] | Some es \<Rightarrow> es)"

definition incidents_of :: "state \<Rightarrow> (string, incident) gomap" where
  "incidents_of s = gm_of (st_incidents s)"

section \<open>Validation\<close>

fun provider_name_loop :: "string list \<Rightarrow> string list \<Rightarrow> string option" where
  "provider_name_loop [] seen = None"
| "provider_name_loop (p # ps) seen =
     (if \<not> validProviderName p then Some ''invalid notification provider name''
      else if p \<in> set seen then Some ''duplicate notification provider''
      else provider_name_loop ps (p # seen))"

definition validateOptions :: "options \<Rightarrow> string option" where
  "validateOptions opts =
     (if op_repeatAfter opts \<le> 0 then Some ''notification repeat interval must be positive''
      else if op_providers opts = [] \<or> length (op_providers opts) > maxProviders
      then Some ''notification provider count is invalid''
      else provider_name_loop (op_providers opts) [])"

definition validateDeliverySummary :: "deliverySummary \<Rightarrow> string option" where
  "validateDeliverySummary ds =
     (if ds_notificationID ds = [] \<and> ds_provider ds = [] \<and> ds_kind ds = [] \<and> ds_status ds = []
         \<and> ds_errorCode ds = [] \<and> t_isZero (ds_at ds) then None
      else if \<not> validDigestID (ds_notificationID ds) ''ntf_'' \<or> \<not> validProviderName (ds_provider ds)
              \<or> t_isZero (ds_at ds)
      then Some ''invalid notification delivery summary identity''
      else if \<not> valid_kind (ds_kind ds) then Some ''invalid notification delivery summary kind''
      else if \<not> validSafeCode (ds_errorCode ds) 64
      then Some ''invalid notification delivery summary error code''
      else if ds_status ds = DeliveryAccepted then
        (if ds_errorCode ds \<noteq> [] then Some ''accepted notification delivery summary has error'' else None)
      else if ds_status ds = DeliveryPermanentError then
        (if ds_errorCode ds = [] then Some ''failed notification delivery summary lacks error'' else None)
      else if ds_status ds = DeliveryRetired then None
      else Some ''invalid notification delivery summary status'')"

definition receipt_present :: "receipt \<Rightarrow> bool" where
  "receipt_present rc = (rc_provider rc \<noteq> [] \<or> rc_externalID rc \<noteq> [] \<or> \<not> t_isZero (rc_acceptedAt rc))"

definition validateDeliveryRecord :: "string \<Rightarrow> deliveryRecord \<Rightarrow> string option" where
  "validateDeliveryRecord provider r =
     (if dr_attempts r < 0 then Some ''invalid notification delivery attempts''
      else if \<not> validSafeCode (dr_errorCode r) 64 then Some ''invalid notification delivery error code''
      else
        let rc = dr_receipt r; receiptPresent = receipt_present rc in
        if receiptPresent \<and>
           (rc_provider rc \<noteq> provider
            \<or> rc_externalID rc = [] \<or> length (rc_externalID rc) > 256 \<or> \<not> utf8_valid (rc_externalID rc)
            \<or> t_isZero (rc_acceptedAt rc))
        then Some ''invalid notification delivery receipt''
        else if dr_status r = DeliveryAccepted then
          (if dr_attempts r < 1 \<or> t_isZero (dr_lastAttemptAt r) \<or> \<not> receiptPresent \<or> dr_errorCode r \<noteq> []
           then Some ''invalid accepted notification delivery'' else None)
        else if dr_status r = DeliveryPermanentError \<or> dr_status r = DeliveryAmbiguous then
          (if dr_attempts r < 1 \<or> t_isZero (dr_lastAttemptAt r) \<or> receiptPresent \<or> dr_errorCode r = []
           then Some ''invalid failed notification delivery'' else None)
        else if dr_status r = DeliveryPending then
          (if receiptPresent \<or> (dr_attempts r > 0 \<and> t_isZero (dr_lastAttemptAt r))
           then Some ''invalid pending notification delivery'' else None)
        else if dr_status r = DeliveryRetired then
          (if receiptPresent then Some ''invalid retired notification delivery'' else None)
        else None)"

definition validate_incident :: "string \<Rightarrow> incident \<Rightarrow> string option" where
  "validate_incident key i =
     (if key \<noteq> incidentKey (inc_operation i) (inc_failureType i) then Some ''invalid notification incident key''
      else if inc_id i = [] \<or> length (inc_id i) > maxIncidentIDBytes \<or> inc_operation i \<noteq> OperationScheduledSyncAll
      then Some ''invalid notification incident identity''
      else if inc_id i \<noteq> deterministicIncidentID (inc_operation i) (inc_failureType i) (inc_firstSeenAt i)
      then Some ''notification incident id is not deterministic''
      else if LookupFailure (inc_failureType i) = None then Some ''unknown notification incident failure type''
      else if inc_phase i \<noteq> IncidentOpen \<and> inc_phase i \<noteq> IncidentCooling
      then Some ''invalid notification incident phase''
      else if t_isZero (inc_firstSeenAt i)
              \<or> t_before (inc_lastSeenAt i) (inc_firstSeenAt i)
              \<or> t_before (inc_lastFailureEnqueuedAt i) (inc_firstSeenAt i)
              \<or> t_after (inc_lastFailureEnqueuedAt i) (inc_lastSeenAt i)
              \<or> inc_occurrences i < 1
      then Some ''invalid notification incident chronology''
      else if inc_phase i = IncidentCooling \<and> (inc_needsRecovery i \<or> t_isZero (inc_recoveryNotifiedAt i))
      then Some ''invalid cooling notification incident''
      else if inc_phase i = IncidentOpen \<and> \<not> inc_needsRecovery i \<and> t_isZero (inc_recoveryNotifiedAt i)
      then Some ''invalid silently reopened notification incident''
      else None)"

definition valid_status :: "string \<Rightarrow> bool" where
  "valid_status st = (st = DeliveryPending \<or> st = DeliveryAccepted \<or> st = DeliveryPermanentError
     \<or> st = DeliveryAmbiguous \<or> st = DeliveryRetired)"

text \<open>The first error of a list of checks, as a loop with an early return finds it.\<close>

fun first_error :: "('a \<Rightarrow> string option) \<Rightarrow> 'a list \<Rightarrow> string option" where
  "first_error f [] = None"
| "first_error f (x # xs) = (case f x of Some e \<Rightarrow> Some e | None \<Rightarrow> first_error f xs)"

definition validate_delivery :: "string \<Rightarrow> deliveryRecord \<Rightarrow> string option" where
  "validate_delivery provider r =
     (if \<not> validProviderName provider then Some ''invalid notification delivery provider''
      else if \<not> valid_status (dr_status r) then Some ''invalid notification delivery status''
      else validateDeliveryRecord provider r)"

definition validate_envelope :: "envelope \<Rightarrow> string option" where
  "validate_envelope env =
     (case DeriveNotification (env_event env) of
        Inl e \<Rightarrow> Some e
      | Inr _ \<Rightarrow>
          if env_deliveries env = [] \<or> length (env_deliveries env) > maxProviders
          then Some ''invalid notification delivery map''
          else first_error (\<lambda>(p, r). validate_delivery p r) (env_deliveries env))"

definition validate_last_delivery :: "string \<Rightarrow> deliverySummary \<Rightarrow> string option" where
  "validate_last_delivery provider ds =
     (if \<not> validProviderName provider \<or> provider \<noteq> ds_provider ds
      then Some ''invalid notification delivery summary provider''
      else validateDeliverySummary ds)"

definition validate_contents :: "state \<Rightarrow> string option" where
  "validate_contents s =
     (if st_schema s \<noteq> StateSchemaV2 then Some ''invalid notification state schema''
      else if st_lastDelivery s \<noteq> zero_summary
      then Some ''legacy notification delivery summary is not empty''
      else if st_lastDeliveries s = None \<or> length (gm_of (st_lastDeliveries s)) > maxProviders
      then Some ''invalid notification delivery summary map''
      else if st_incidents s = None \<or> length (incidents_of s) > maxStateIncidents
      then Some ''invalid notification incident map''
      else if st_outbox s = None \<or> length (outbox_of s) > maxStateEnvelopes
      then Some ''notification outbox exceeds limit''
      else (case first_error (\<lambda>(k, i). validate_incident k i) (incidents_of s) of
        Some e \<Rightarrow> Some e
      | None \<Rightarrow> (case first_error validate_envelope (outbox_of s) of
          Some e \<Rightarrow> Some e
        | None \<Rightarrow> first_error (\<lambda>(p, ds). validate_last_delivery p ds) (gm_of (st_lastDeliveries s)))))"

definition ValidateState :: "(state \<Rightarrow> nat option) \<Rightarrow> state \<Rightarrow> string option" where
  "ValidateState jsonLen s =
     (case validate_contents s of
        Some e \<Rightarrow> Some e
      | None \<Rightarrow> (case jsonLen s of
          None \<Rightarrow> Some ''encode notification state''
        | Some n \<Rightarrow> if n > maxStateBytes then Some ''notification state exceeds byte limit'' else None))"

definition cloneState :: "state \<Rightarrow> state" where
  "cloneState s = s\<lparr>st_incidents := Some (incidents_of s),
     st_lastDeliveries := Some (gm_of (st_lastDeliveries s)),
     st_outbox := Some (outbox_of s)\<rparr>"

section \<open>Observing an outcome\<close>

datatype observeError = Invalid string | OutboxCapacity eventFacts

definition eventFactsFromIncidents :: "eventKind \<Rightarrow> incident list \<Rightarrow> duration \<Rightarrow> gotime \<Rightarrow> eventFacts" where
  "eventFactsFromIncidents kind incidents repeatAfter createdAt =
     (let is = (if kind = EventRecovery
                then sort_key (\<lambda>i. failureCatalogIndex (inc_failureType i)) incidents else incidents) in
      \<lparr>ev_kind = kind,
       ev_operation = OperationScheduledSyncAll,
       ev_incidents = map (\<lambda>i. \<lparr>sn_id = inc_id i,
           sn_failureType = inc_failureType i,
           sn_firstSeenAt = t_utc (inc_firstSeenAt i),
           sn_lastSeenAt = t_utc (inc_lastSeenAt i),
           sn_occurrences = inc_occurrences i\<rparr>) is,
       ev_suppressionAfter = repeatAfter,
       ev_createdAt = t_utc createdAt\<rparr>)"

definition enqueueEvent :: "state \<Rightarrow> notification list \<Rightarrow> eventFacts \<Rightarrow> string list
    \<Rightarrow> observeError + (state \<times> notification list)" where
  "enqueueEvent s decision ev providers =
     (if length (outbox_of s) \<ge> maxStateEnvelopes then Inl (OutboxCapacity ev)
      else (case DeriveNotification ev of
        Inl e \<Rightarrow> Inl (Invalid e)
      | Inr n \<Rightarrow>
          let deliveries = fold (\<lambda>p. gm_put p pending_record) providers [] in
          Inr (s\<lparr>st_outbox := Some (outbox_of s @ [\<lparr>env_event = ev, env_deliveries = deliveries\<rparr>])\<rparr>,
               decision @ [n])))"

definition enqueueIncidentNotification :: "state \<Rightarrow> notification list \<Rightarrow> incident \<Rightarrow> eventKind \<Rightarrow> options
    \<Rightarrow> observeError + (state \<times> notification list)" where
  "enqueueIncidentNotification s decision i kind opts =
     (if kind \<noteq> EventFailure \<and> kind \<noteq> EventReminder then Inl (Invalid ''invalid incident event kind'')
      else enqueueEvent s decision
             (eventFactsFromIncidents kind [i] (op_repeatAfter opts) (inc_lastSeenAt i))
             (op_providers opts))"

definition newIncident :: "operation \<Rightarrow> failureType \<Rightarrow> gotime \<Rightarrow> incident" where
  "newIncident op ft observedAt =
     \<lparr>inc_id = deterministicIncidentID op ft observedAt,
      inc_operation = op,
      inc_failureType = ft,
      inc_phase = IncidentOpen,
      inc_firstSeenAt = observedAt,
      inc_lastSeenAt = observedAt,
      inc_occurrences = 1,
      inc_lastFailureEnqueuedAt = observedAt,
      inc_needsRecovery = True,
      inc_recoveryNotifiedAt = zero_time\<rparr>"

definition pruneExpiredCoolingIncidents :: "state \<Rightarrow> gotime \<Rightarrow> duration \<Rightarrow> state" where
  "pruneExpiredCoolingIncidents s observedAt repeatAfter =
     s\<lparr>st_incidents := map_option (filter (\<lambda>(k, i). \<not> (inc_phase i = IncidentCooling
          \<and> \<not> t_before observedAt (t_add (inc_lastFailureEnqueuedAt i) repeatAfter)))) (st_incidents s)\<rparr>"

definition put_incident :: "string \<Rightarrow> incident \<Rightarrow> state \<Rightarrow> state" where
  "put_incident key i s = s\<lparr>st_incidents := Some (gm_put key i (incidents_of s))\<rparr>"

definition observeFailure :: "state \<Rightarrow> notification list \<Rightarrow> outcome \<Rightarrow> options
    \<Rightarrow> observeError + (state \<times> notification list)" where
  "observeFailure s decision o' opts =
     (let key = incidentKey (oc_operation o') (oc_failureType o');
          observedAt = t_utc (oc_finishedAt o')
      in case gm_get (incidents_of s) key of
        None \<Rightarrow>
          let i = newIncident (oc_operation o') (oc_failureType o') observedAt in
          enqueueIncidentNotification (put_incident key i s) decision i EventFailure opts
      | Some i \<Rightarrow>
          let observedAt = (if t_before observedAt (inc_lastSeenAt i) then inc_lastSeenAt i else observedAt);
              boundary = t_add (inc_lastFailureEnqueuedAt i) (op_repeatAfter opts)
          in if inc_phase i = IncidentCooling \<and> \<not> t_before observedAt boundary then
               let i = newIncident (oc_operation o') (oc_failureType o') observedAt in
               enqueueIncidentNotification (put_incident key i s) decision i EventFailure opts
             else
               let i = i\<lparr>inc_phase := IncidentOpen, inc_lastSeenAt := observedAt,
                         inc_occurrences := int64_add (inc_occurrences i) 1\<rparr>
               in if \<not> t_before observedAt boundary then
                    let i = i\<lparr>inc_lastFailureEnqueuedAt := observedAt, inc_needsRecovery := True\<rparr> in
                    enqueueIncidentNotification (put_incident key i s) decision i EventReminder opts
                  else Inr (put_incident key i s, decision))"

text \<open>The keys of the open incidents and the latest time one was seen, then the loop over the
  sorted keys that closes each incident and collects those that still owe a recovery message.\<close>

definition open_keys :: "state \<Rightarrow> operation \<Rightarrow> string list" where
  "open_keys s op = map fst (filter (\<lambda>(k, i). inc_operation i = op \<and> inc_phase i = IncidentOpen) (incidents_of s))"

definition recovery_time :: "state \<Rightarrow> operation \<Rightarrow> gotime \<Rightarrow> gotime" where
  "recovery_time s op createdAt =
     fold (\<lambda>(k, i) at. if t_after (inc_lastSeenAt i) at then inc_lastSeenAt i else at)
       (filter (\<lambda>(k, i). inc_operation i = op \<and> inc_phase i = IncidentOpen) (incidents_of s)) createdAt"

fun resolve_loop :: "string list \<Rightarrow> gotime \<Rightarrow> state \<Rightarrow> incident list \<Rightarrow> state \<times> incident list" where
  "resolve_loop [] createdAt s resolved = (s, resolved)"
| "resolve_loop (k # ks) createdAt s resolved =
     (case gm_get (incidents_of s) k of
        None \<Rightarrow> resolve_loop ks createdAt s resolved
      | Some i \<Rightarrow>
          let i = i\<lparr>inc_phase := IncidentCooling\<rparr> in
          if inc_needsRecovery i then
            let i = i\<lparr>inc_needsRecovery := False, inc_recoveryNotifiedAt := createdAt\<rparr> in
            resolve_loop ks createdAt (put_incident k i s) (resolved @ [i])
          else resolve_loop ks createdAt (put_incident k i s) resolved)"

definition observeSuccess :: "state \<Rightarrow> notification list \<Rightarrow> outcome \<Rightarrow> options
    \<Rightarrow> observeError + (state \<times> notification list)" where
  "observeSuccess s decision o' opts =
     (let createdAt = recovery_time s (oc_operation o') (t_utc (oc_finishedAt o'));
          keys = sort (open_keys s (oc_operation o'))
      in case resolve_loop keys createdAt s [] of (s', resolved) \<Rightarrow>
        if resolved = [] then Inr (s', decision)
        else enqueueEvent s' decision
               (eventFactsFromIncidents EventRecovery resolved (op_repeatAfter opts) createdAt)
               (op_providers opts))"

definition observe_transition :: "state \<Rightarrow> outcome \<Rightarrow> options
    \<Rightarrow> observeError + (state \<times> notification list)" where
  "observe_transition s o' opts =
     (let next' = pruneExpiredCoolingIncidents (cloneState s) (t_utc (oc_finishedAt o')) (op_repeatAfter opts)
      in if oc_status o' = OutcomeFailure then observeFailure next' [] o' opts
         else if oc_status o' = OutcomeSuccess then observeSuccess next' [] o' opts
         else Inr (next', []))"

definition Observe :: "(state \<Rightarrow> nat option) \<Rightarrow> state \<Rightarrow> outcome \<Rightarrow> options
    \<Rightarrow> state \<times> notification list \<times> observeError option" where
  "Observe jsonLen s o' opts =
     (case ValidateOutcome o' of Some e \<Rightarrow> (s, [], Some (Invalid e)) | None \<Rightarrow>
      if oc_status o' = OutcomeCancelled then (s, [], None)
      else (case validateOptions opts of Some e \<Rightarrow> (s, [], Some (Invalid e)) | None \<Rightarrow>
        (case ValidateState jsonLen s of Some e \<Rightarrow> (s, [], Some (Invalid e)) | None \<Rightarrow>
          if t_isZero (oc_finishedAt o')
          then (s, [], Some (Invalid ''notification outcome has no completion timestamp''))
          else (case observe_transition s o' opts of
            Inl e \<Rightarrow> (s, [], Some e)
          | Inr (next', decision) \<Rightarrow>
              (case ValidateState jsonLen next' of
                 Some e \<Rightarrow> (s, [], Some (Invalid e))
               | None \<Rightarrow> (next', decision, None))))))"

end
