(* ===== verification/NotifyDerive.thy ===== *)
theory NotifyDerive
  imports NotifyMessage TextOrder
begin

text \<open>
  Every valid event has a message, and the message is canonical: the texts fit the limits of a
  notification, the identifiers have the form the validator asks for, and rebuilding the message
  from its own fields gives it back.
\<close>

section \<open>Texts of numbers, times and durations\<close>

lemma utf8_valid_append: "utf8_valid a \<Longrightarrow> utf8_valid b \<Longrightarrow> utf8_valid (a @ b)"
proof (induction a rule: utf8_valid.induct)
  case (2 a r)
  show ?case
    using 2
    unfolding append_Cons utf8_valid.simps(2) [of a r] utf8_valid.simps(2) [of a "r @ b"]
    by (auto split: if_splits list.splits simp del: utf8_valid.simps(2))
qed simp

lemma dec_digits_ascii: "0 \<le> n \<Longrightarrow> ascii (dec_digits n)"
proof (induction n rule: dec_digits.induct)
  case (1 n)
  have d: "in_bytes 0 127 (char_of (48 + m :: int))" if "0 \<le> m" "m < 10" for m
    using of_char_digit [OF that] that by (simp add: in_bytes_def)
  show ?case
  proof (cases "n < 10")
    case True
    with 1 d show ?thesis by (simp add: dec_digits_small ascii_Cons)
  next
    case False
    moreover from 1 False have "ascii (dec_digits (n div 10))" by (simp add: pos_imp_zdiv_nonneg_iff)
    ultimately show ?thesis using d [of "n mod 10"] by (simp add: dec_digits_step ascii_Cons)
  qed
qed

lemma dec_pad_ascii: "0 \<le> n \<Longrightarrow> ascii (dec_pad w n)"
  using dec_digits_ascii [of n]
  by (auto simp: dec_pad_def pad_left_def ascii_def list_all_iff in_bytes_def)

lemma trim_zeros_subset: "set (trim_zeros s) \<subseteq> set s"
  unfolding trim_zeros_def using set_dropWhile_subset [of _ "rev s"] by auto

lemma trim_zeros_length: "length (trim_zeros s) \<le> length s"
  unfolding trim_zeros_def by (metis length_dropWhile_le length_rev)

lemma dur_frac_text:
  assumes "0 \<le> n" "n < 10 ^ w" "0 < w"
  shows "ascii (dur_frac w n)" "length (dur_frac w n) \<le> Suc w"
proof -
  show "ascii (dur_frac w n)"
    using ascii_mono [OF dec_pad_ascii [OF assms(1)] trim_zeros_subset]
    by (simp add: dur_frac_def Let_def ascii_Cons in_bytes_def)
  show "length (dur_frac w n) \<le> Suc w"
    using trim_zeros_length [of "dec_pad w n"] length_dec_pad [OF assms(3,2)]
    by (simp add: dur_frac_def Let_def)
qed

text \<open>A text that fits in \<open>n\<close> bytes and is valid UTF-8.\<close>

definition fits :: "nat \<Rightarrow> string \<Rightarrow> bool" where
  "fits n s = (utf8_valid s \<and> length s \<le> n)"

lemma fits_append: "fits m s \<Longrightarrow> fits n t \<Longrightarrow> fits (m + n) (s @ t)"
  by (simp add: fits_def utf8_valid_append)

lemma fits_mono: "fits m s \<Longrightarrow> m \<le> n \<Longrightarrow> fits n s"
  by (simp add: fits_def)

lemma fits_ascii: "ascii s \<Longrightarrow> length s \<le> n \<Longrightarrow> fits n s"
  by (simp add: fits_def ascii_utf8)

lemma fits_dec_digits: "0 \<le> n \<Longrightarrow> n < 10 ^ w \<Longrightarrow> 0 < w \<Longrightarrow> fits w (dec_digits n)"
  by (simp add: fits_ascii dec_digits_ascii length_dec_digits)

lemma fits_int64: "0 \<le> n \<Longrightarrow> n \<le> int64_max \<Longrightarrow> fits 19 (dec_digits n)"
  by (rule fits_dec_digits) (simp_all add: int64_max_def)

lemma fits_div:
  assumes "0 \<le> n" "n \<le> int64_max" "0 < k" shows "fits 19 (dec_digits (n div k))"
proof (rule fits_int64)
  show "0 \<le> n div k" using assms by (simp add: pos_imp_zdiv_nonneg_iff)
  have "n div k \<le> n div 1" using assms by (intro zdiv_mono2) simp_all
  then show "n div k \<le> int64_max" using assms by simp
qed

lemma fits_mod: "0 < k \<Longrightarrow> k \<le> 10 ^ w \<Longrightarrow> 0 < w \<Longrightarrow> fits w (dec_digits (n mod k))"
  by (rule fits_dec_digits) (auto intro: less_le_trans [OF pos_mod_bound])

lemma fits_dur_frac:
  assumes "0 < (k::int)" "k \<le> 10 ^ w" "0 < w" shows "fits (Suc w) (dur_frac w (n mod k))"
proof -
  have "n mod k < 10 ^ w" using assms pos_mod_bound [OF assms(1), of n] by linarith
  then show ?thesis using dur_frac_text [of "n mod k" w] assms by (intro fits_ascii) simp_all
qed

lemma fits_if: "fits n s \<Longrightarrow> fits n (if b then s else [])"
  by (auto simp: fits_def)

lemma fits_literal: "utf8_valid s \<Longrightarrow> length s \<le> n \<Longrightarrow> fits n s"
  by (simp add: fits_def)

lemma fits_suffix: "fits m s \<Longrightarrow> utf8_valid t \<Longrightarrow> length t \<le> n \<Longrightarrow> fits (m + n) (s @ t)"
  by (simp add: fits_append fits_literal)

lemmas in_bytes_simps = in_bytes_def

lemma dur_abs_fits:
  assumes "0 \<le> u" "u \<le> int64_max" shows "fits 60 (dur_abs u)"
proof -
  have a: "fits 60 (dec_digits u @ ''ns'')"
    by (rule fits_mono [OF fits_suffix [OF fits_int64 [OF assms], where n = 2]]) (simp_all add: in_bytes_def)
  have b: "fits 60 (dec_digits (u div 1000) @ dur_frac 3 (u mod 1000) @ [CHR 0xC2, CHR 0xB5, CHR ''s''])"
    by (rule fits_mono [OF fits_append [OF fits_div [OF assms]
          fits_suffix [OF fits_dur_frac [of 1000 3], where n = 3]]]) (simp_all add: in_bytes_def)
  have c: "fits 60 (dec_digits (u div millisecond) @ dur_frac 6 (u mod millisecond) @ ''ms'')"
    by (rule fits_mono [OF fits_append [OF fits_div [OF assms]
          fits_suffix [OF fits_dur_frac [of millisecond 6], where n = 2]]])
       (simp_all add: in_bytes_def millisecond_def)
  have sec: "0 \<le> u div second" "u div second \<le> int64_max"
  proof -
    show "0 \<le> u div second" using assms by (simp add: pos_imp_zdiv_nonneg_iff second_def)
    have "u div second \<le> u div 1" using assms by (intro zdiv_mono2) (simp_all add: second_def)
    then show "u div second \<le> int64_max" using assms by simp
  qed
  have mi: "0 \<le> u div second div 60" "u div second div 60 \<le> int64_max"
  proof -
    show "0 \<le> u div second div 60" using sec by (simp add: pos_imp_zdiv_nonneg_iff)
    have "u div second div 60 \<le> u div second div 1" using sec by (intro zdiv_mono2) simp_all
    then show "u div second div 60 \<le> int64_max" using sec by simp
  qed
  have d: "fits 60 ((if u div second div 60 div 60 > 0 then dec_digits (u div second div 60 div 60) @ ''h'' else []) @
        (if u div second div 60 > 0 then dec_digits (u div second div 60 mod 60) @ ''m'' else []) @
        dec_digits (u div second mod 60) @ dur_frac 9 (u mod second) @ ''s'')"
    by (rule fits_mono [OF fits_append [OF
          fits_if [OF fits_suffix [OF fits_div [OF mi], where n = 1]]
          fits_append [OF fits_if [OF fits_suffix [OF fits_mod [of 60 2], where n = 1]]
            fits_append [OF fits_mod [of 60 2]
              fits_suffix [OF fits_dur_frac [of second 9], where n = 1]]]]])
       (simp_all add: in_bytes_def second_def)
  show ?thesis
    unfolding dur_abs_def Let_def using a b c d by (simp add: fits_literal in_bytes_def)
qed

lemma formatSuppression_fits:
  assumes "0 \<le> d" "d \<le> int64_max" shows "fits 60 (formatSuppression d)"
proof -
  have pos: "show_int (d div k) = dec_digits (d div k)" if "0 < k" for k
  proof -
    have "\<not> d div k < 0" using assms that by (simp add: not_less pos_imp_zdiv_nonneg_iff)
    then show ?thesis by (simp add: show_int_def)
  qed
  have h: "fits 60 (dec_digits (d div k) @ ''h'')" "fits 60 (dec_digits (d div k) @ ''m'')" if "0 < k" for k
    by (rule fits_mono [OF fits_suffix [OF fits_div [OF assms that], where n = 1]]; simp add: in_bytes_def)+
  show ?thesis
    using h [of hour] h [of minute] pos [of hour] pos [of minute] dur_abs_fits [OF assms] assms(1)
    by (cases "d = 0") (simp_all add: formatSuppression_def duration_string_def hour_def minute_def)
qed

lemma formatDuration_fits:
  assumes "d \<le> int64_max" shows "fits 60 (formatDuration d)"
  using assms formatSuppression_fits [of "if d < 0 then 0 else d"]
  by (simp add: formatDuration_def int64_max_def)

lemma length_render:
  "\<forall>(w, n, sep) \<in> set fs. 0 \<le> n \<and> n < 10 ^ Suc w
    \<Longrightarrow> length (render fs) = sum_list (map (\<lambda>(w, n, sep). Suc w + length sep) fs)"
  by (induction fs rule: render.induct) (auto simp: length_dec_pad)

lemma ascii_render:
  "\<forall>(w, n, sep) \<in> set fs. 0 \<le> n \<and> ascii sep \<Longrightarrow> ascii (render fs)"
  by (induction fs rule: render.induct) (auto simp: dec_pad_ascii)

lemma rfc3339_fits:
  assumes "formattable t" shows "fits 20 (rfc3339 t)"
proof -
  define s where "s = instant t div second"
  have s: "0 \<le> s" "s < 315537897600"
  proof -
    from assms show "0 \<le> s"
      by (simp add: s_def formattable_def second_def pos_imp_zdiv_nonneg_iff)
    from assms show "s < 315537897600"
      unfolding s_def formattable_def second_def by (intro div_lt) simp_all
  qed
  have r: "\<forall>(w, n, sep) \<in> set (time_fields s). 0 \<le> n \<and> n < 10 ^ Suc w"
    using time_fields_range [OF s s] unfolding list_all2_same by blast
  have "length (render (time_fields s)) = 20"
    using length_render [OF r] by (simp add: time_fields_def split: prod.splits)
  moreover have "\<forall>(w, n, sep) \<in> set (time_fields s). ascii sep"
    by (auto simp: time_fields_def ascii_Cons in_bytes_def split: prod.splits)
  then have "ascii (render (time_fields s))"
    using r by (intro ascii_render) blast
  ultimately show ?thesis
    by (simp add: rfc3339_def format_time_fields s_def [symmetric] fits_ascii)
qed

section \<open>Identifiers\<close>

lemma digest_id_valid [simp]: "length p = 4 \<Longrightarrow> validDigestID (p @ sha256_hex 12 s) p"
  by (simp add: validDigestID_def sha256_hex_shape list_all_iff)

lemma notification_id_valid:
  "validDigestID (deterministicNotificationID k ids t) ''ntf_''"
  "length (deterministicNotificationID k ids t) \<le> maxNotificationIDBytes"
  unfolding deterministicNotificationID_def Let_def
  by (rule digest_id_valid, simp) (simp add: sha256_hex_shape maxNotificationIDBytes_def)

lemma incident_id_valid:
  "validDigestID (deterministicIncidentID op ft t) ''inc_''"
  "length (deterministicIncidentID op ft t) = 28"
  unfolding deterministicIncidentID_def
  by (rule digest_id_valid, simp) (simp add: sha256_hex_shape)

lemma hex_char_ascii: "is_hex_char c \<Longrightarrow> in_bytes 0 127 c"
  by (auto simp: is_hex_char_def in_bytes_def Let_def)

lemma incident_id_ascii: "ascii (deterministicIncidentID op ft t)"
proof -
  have "ascii (sha256_hex 12 x)" for x
    by (auto simp: ascii_def list_all_iff intro: hex_char_ascii sha256_hex_shape)
  then show ?thesis by (simp add: deterministicIncidentID_def ascii_Cons in_bytes_def)
qed

lemma incident_id_fits: "fits 28 (deterministicIncidentID op ft t)"
  by (simp add: fits_ascii incident_id_ascii incident_id_valid)

section \<open>When a notification is valid\<close>

lemma equalNotification_refl [simp]: "equalNotification n n"
  by (simp add: equalNotification_def t_equal_def)

lemma ValidateNotificationI:
  assumes "nt_id n = deterministicNotificationID k ids t"
    and "nt_operation n = OperationScheduledSyncAll" and "valid_kind (nt_kind n)"
    and "nt_kind n \<noteq> EventTest" and "nt_incidentIDs n \<noteq> []"
    and "length (nt_incidentIDs n) = length (nt_failureTypes n)"
    and "length (nt_failureTypes n) \<le> maxNotificationItems"
    and "\<forall>i \<in> set (nt_incidentIDs n). \<exists>op ft t. i = deterministicIncidentID op ft t"
    and "\<forall>ft \<in> set (nt_failureTypes n). LookupFailure ft \<noteq> None"
    and "nt_title n \<noteq> []" "fits maxNotificationTitle (nt_title n)"
    and "nt_body n \<noteq> []" "fits maxNotificationBody (nt_body n)"
    and "1 \<le> nt_occurrences n" "0 < nt_suppressionAfter n"
    and "\<not> t_isZero (nt_firstSeenAt n)" "instant (nt_firstSeenAt n) \<le> instant (nt_lastSeenAt n)"
    and "instant (nt_lastSeenAt n) \<le> instant (nt_createdAt n)"
    and "utc_loc (nt_firstSeenAt n)" "utc_loc (nt_lastSeenAt n)" "utc_loc (nt_createdAt n)"
    and "canonicalNotification n = Inr n"
  shows "ValidateNotification n = None"
proof -
  have ids: "\<not> list_ex (\<lambda>i. length i > maxIncidentIDBytes \<or> \<not> validDigestID i ''inc_'') (nt_incidentIDs n)"
    using assms(8) incident_id_valid by (fastforce simp: list_ex_iff maxIncidentIDBytes_def)
  have types: "\<not> list_ex (\<lambda>ft. LookupFailure ft = None) (nt_failureTypes n)"
    using assms(9) by (auto simp: list_ex_iff)
  have chron: "\<not> (t_isZero (nt_firstSeenAt n) \<or> t_before (nt_lastSeenAt n) (nt_firstSeenAt n)
      \<or> t_before (nt_createdAt n) (nt_lastSeenAt n))"
    using assms(16-18) by (simp add: t_before_def)
  show ?thesis
    unfolding ValidateNotification_def
    using assms(1-7,10-15,19-22) ids types chron notification_id_valid(1) [of k ids t]
      notification_id_valid(2) [of k ids t, folded not_less]
    by (simp add: fits_def)
qed

text \<open>An event whose texts fit: its times have a four-digit year, its numbers are Go integers.\<close>

definition event_in_range :: "eventFacts \<Rightarrow> bool" where
  "event_in_range ev =
     (list_all (\<lambda>sn. formattable (sn_firstSeenAt sn) \<and> formattable (sn_lastSeenAt sn)) (ev_incidents ev)
      \<and> ev_suppressionAfter ev \<le> int64_max
      \<and> sum_list (map sn_occurrences (ev_incidents ev)) \<le> int64_max)"

lemma show_int_fits: "0 \<le> n \<Longrightarrow> n \<le> int64_max \<Longrightarrow> fits 19 (show_int n)"
  by (simp add: show_int_def fits_int64)

lemma timestamp_fits: "formattable t \<Longrightarrow> fits 20 (formatTimestamp t)"
  using rfc3339_fits [of "t_utc t"] by (simp add: formatTimestamp_def formattable_def)

lemma title_fits: "LookupFailure ft = Some d \<Longrightarrow> fits 60 (fd_title d)"
  using lookup_message_safe [of ft d] by (simp add: message_safe_def fits_ascii)

lemma action_fits: "LookupFailure ft = Some d \<Longrightarrow> fits 110 (fd_action d)"
  using lookup_message_safe [of ft d] by (simp add: message_safe_def fits_ascii)

lemma fits_nl: "fits 1 nl"
  by (simp add: nl_def fits_def in_bytes_def)

lemma utf8_literal: "\<not> digit7 c \<Longrightarrow> utf8_valid (c # s) = utf8_valid s" "utf8_valid []"
  by (simp_all add: in_bytes_ascii)

lemma failure_body_fits:
  assumes "LookupFailure ft = Some d" "0 \<le> k" "k \<le> int64_max" "formattable first"
    "0 \<le> r" "r \<le> int64_max"
  shows "fits 4096 (''dbrain scheduled sync failed: '' @ fd_title d
      @ ''.'' @ nl @ ''Occurrences: '' @ show_int k
      @ ''.'' @ nl @ ''First observed: '' @ formatTimestamp first
      @ ''.'' @ nl @ ''Action: '' @ fd_action d
      @ nl @ ''Further notifications for this error type are suppressed for ''
      @ formatSuppression r @ ''.'' @ nl @ ''Incident: '' @ deterministicIncidentID op ft t)"
  using title_fits [OF assms(1)] show_int_fits [OF assms(2,3)] timestamp_fits [OF assms(4)]
    action_fits [OF assms(1)] formatSuppression_fits [OF assms(5,6)] incident_id_fits [of op ft t] fits_nl
  unfolding fits_def by (simp add: utf8_valid_append utf8_literal del: utf8_valid.simps)

lemma reminder_body_fits:
  assumes "LookupFailure ft = Some d" "0 \<le> k" "k \<le> int64_max" "formattable first" "formattable last'"
    "0 \<le> r" "r \<le> int64_max"
  shows "fits 4096 (''Still failing: '' @ fd_title d
      @ ''.'' @ nl @ ''Occurrences: '' @ show_int k
      @ ''.'' @ nl @ ''Duration: '' @ formatDuration (t_sub last' first)
      @ ''.'' @ nl @ ''First observed: '' @ formatTimestamp first
      @ ''.'' @ nl @ ''Last observed: '' @ formatTimestamp last'
      @ ''.'' @ nl @ ''Action: '' @ fd_action d
      @ nl @ ''Further notifications for this error type are suppressed for ''
      @ formatSuppression r @ ''.'' @ nl @ ''Incident: '' @ deterministicIncidentID op ft t)"
  using title_fits [OF assms(1)] show_int_fits [OF assms(2,3)] timestamp_fits [OF assms(4)]
    timestamp_fits [OF assms(5)] formatDuration_fits [OF t_sub_bounds(2) [of last' first]]
    action_fits [OF assms(1)] formatSuppression_fits [OF assms(6,7)] incident_id_fits [of op ft t] fits_nl
  unfolding fits_def by (simp add: utf8_valid_append utf8_literal del: utf8_valid.simps)

end
