(* ===== verification/NotifyEvents.thy ===== *)
theory NotifyEvents
  imports NotifyDerive
begin

text \<open>
  What a valid event is, in closed form, and the theorem that every valid event whose numbers and
  years are in range derives a valid notification that carries exactly its facts.
\<close>

section \<open>Valid events in closed form\<close>

definition snapshot_ok :: "eventFacts \<Rightarrow> incidentSnapshot \<Rightarrow> bool" where
  "snapshot_ok ev i =
     (LookupFailure (sn_failureType i) \<noteq> None
      \<and> \<not> t_isZero (sn_firstSeenAt i) \<and> utc_loc (sn_firstSeenAt i) \<and> utc_loc (sn_lastSeenAt i)
      \<and> instant (sn_firstSeenAt i) \<le> instant (sn_lastSeenAt i)
      \<and> instant (sn_lastSeenAt i) \<le> instant (ev_createdAt ev)
      \<and> 1 \<le> sn_occurrences i
      \<and> sn_id i = deterministicIncidentID (ev_operation ev) (sn_failureType i) (sn_firstSeenAt i))"

abbreviation snapshot_index :: "incidentSnapshot \<Rightarrow> nat" where
  "snapshot_index i \<equiv> failureCatalogIndex (sn_failureType i)"

lemma event_incident_loop_iff:
  "event_incident_loop ev is seenIDs seenTypes prev = None \<longleftrightarrow>
     (\<forall>i \<in> set is. snapshot_ok ev i \<and> sn_id i \<notin> set seenIDs \<and> sn_failureType i \<notin> set seenTypes)
     \<and> distinct (map sn_id is) \<and> distinct (map sn_failureType is)
     \<and> (ev_kind ev = EventRecovery \<longrightarrow>
          sorted_wrt (<) (map snapshot_index is) \<and> (\<forall>i \<in> set is. prev < int (snapshot_index i)))"
proof (induction "is" arbitrary: seenIDs seenTypes prev)
  case (Cons i "is")
  have step: "event_incident_loop ev (i # is) seenIDs seenTypes prev = None \<longleftrightarrow>
      snapshot_ok ev i \<and> sn_id i \<notin> set seenIDs \<and> sn_failureType i \<notin> set seenTypes
      \<and> (ev_kind ev = EventRecovery \<longrightarrow> prev < int (snapshot_index i))
      \<and> event_incident_loop ev is (sn_id i # seenIDs) (sn_failureType i # seenTypes)
           (if ev_kind ev = EventRecovery then int (snapshot_index i) else prev) = None"
    unfolding event_incident_loop.simps Let_def snapshot_ok_def t_before_def
    by (auto simp: not_less)
  show ?case
    unfolding step Cons.IH
    by (cases "ev_kind ev = EventRecovery") (auto simp: image_iff dest: order.strict_trans; metis)+
qed simp

lemma valid_event_iff:
  assumes "ev_kind ev = EventFailure \<or> ev_kind ev = EventReminder \<or> ev_kind ev = EventRecovery"
  shows "ValidateEventFacts ev = None \<longleftrightarrow>
     ev_operation ev = OperationScheduledSyncAll
     \<and> \<not> t_isZero (ev_createdAt ev) \<and> utc_loc (ev_createdAt ev)
     \<and> length (ev_incidents ev) \<le> maxNotificationItems
     \<and> 0 < ev_suppressionAfter ev \<and> ev_incidents ev \<noteq> []
     \<and> (ev_kind ev \<noteq> EventRecovery \<longrightarrow> length (ev_incidents ev) = 1)
     \<and> list_all (snapshot_ok ev) (ev_incidents ev)
     \<and> distinct (map sn_id (ev_incidents ev)) \<and> distinct (map sn_failureType (ev_incidents ev))
     \<and> (ev_kind ev = EventRecovery \<longrightarrow> sorted_wrt (<) (map snapshot_index (ev_incidents ev)))
     \<and> (ev_kind ev = EventFailure \<longrightarrow> sn_occurrences (ev_incidents ev ! 0) = 1
          \<and> instant (sn_firstSeenAt (ev_incidents ev ! 0)) = instant (sn_lastSeenAt (ev_incidents ev ! 0))
          \<and> instant (sn_lastSeenAt (ev_incidents ev ! 0)) = instant (ev_createdAt ev))
     \<and> (ev_kind ev = EventReminder \<longrightarrow> 2 \<le> sn_occurrences (ev_incidents ev ! 0)
          \<and> instant (sn_lastSeenAt (ev_incidents ev ! 0)) = instant (ev_createdAt ev)
          \<and> instant (sn_firstSeenAt (ev_incidents ev ! 0)) < instant (sn_lastSeenAt (ev_incidents ev ! 0)))"
proof -
  have shape: "event_shape ev = None \<longleftrightarrow> 0 < ev_suppressionAfter ev \<and> ev_incidents ev \<noteq> []
      \<and> (ev_kind ev \<noteq> EventRecovery \<longrightarrow> length (ev_incidents ev) = 1)"
    using assms by (auto simp: event_shape_def not_le)
  have loop: "event_incident_loop ev (ev_incidents ev) [] [] (-1) = None \<longleftrightarrow>
      list_all (snapshot_ok ev) (ev_incidents ev)
     \<and> distinct (map sn_id (ev_incidents ev)) \<and> distinct (map sn_failureType (ev_incidents ev))
     \<and> (ev_kind ev = EventRecovery \<longrightarrow> sorted_wrt (<) (map snapshot_index (ev_incidents ev)))"
    unfolding event_incident_loop_iff by (auto simp: list_all_iff intro: less_le_trans)
  from assms consider "ev_kind ev = EventFailure" | "ev_kind ev = EventReminder" | "ev_kind ev = EventRecovery"
    by blast
  then show ?thesis
  proof cases
    case 1
    then show ?thesis
      unfolding ValidateEventFacts_def Let_def t_equal_def using shape loop
      by (auto split: option.split)
  next
    case 2
    then show ?thesis
      unfolding ValidateEventFacts_def Let_def t_equal_def t_after_def using shape loop
      by (auto split: option.split simp: not_less)
  next
    case 3
    then show ?thesis
      unfolding ValidateEventFacts_def Let_def using shape loop
      by (auto split: option.split)
  qed
qed

section \<open>Failure and reminder\<close>

lemma incidentFromNotification_snapshot:
  assumes "utc_loc (sn_firstSeenAt sn)" "utc_loc (sn_lastSeenAt sn)"
    and "nt_incidentIDs n = [sn_id sn]" "nt_operation n = op" "nt_failureTypes n = [sn_failureType sn]"
    and "nt_firstSeenAt n = sn_firstSeenAt sn" "nt_lastSeenAt n = sn_lastSeenAt sn"
    and "nt_occurrences n = sn_occurrences sn"
  shows "incidentFromNotification n 0 = snapshot_incident op sn"
  using assms by (simp add: incidentFromNotification_def snapshot_incident_def)

definition carries_facts :: "notification \<Rightarrow> eventFacts \<Rightarrow> bool" where
  "carries_facts n ev =
     (nt_kind n = ev_kind ev \<and> nt_operation n = ev_operation ev
      \<and> nt_incidentIDs n = map sn_id (ev_incidents ev)
      \<and> nt_failureTypes n = map sn_failureType (ev_incidents ev)
      \<and> nt_occurrences n = sum_list (map sn_occurrences (ev_incidents ev))
      \<and> nt_createdAt n = ev_createdAt ev \<and> nt_suppressionAfter n = ev_suppressionAfter ev)"

text \<open>What the two single-incident builders have in common.\<close>

definition single_message :: "eventFacts \<Rightarrow> incidentSnapshot \<Rightarrow> notification \<Rightarrow> bool" where
  "single_message ev sn n =
     (nt_id n = deterministicNotificationID (ev_kind ev) [sn_id sn] (sn_lastSeenAt sn)
      \<and> nt_incidentIDs n = [sn_id sn] \<and> nt_kind n = ev_kind ev \<and> nt_operation n = ev_operation ev
      \<and> nt_failureTypes n = [sn_failureType sn] \<and> nt_occurrences n = sn_occurrences sn
      \<and> nt_firstSeenAt n = sn_firstSeenAt sn \<and> nt_lastSeenAt n = sn_lastSeenAt sn
      \<and> nt_createdAt n = sn_lastSeenAt sn \<and> nt_suppressionAfter n = ev_suppressionAfter ev
      \<and> fits 160 (nt_title n) \<and> nt_title n \<noteq> [] \<and> fits 4096 (nt_body n) \<and> nt_body n \<noteq> [])"

lemma single_message_valid:
  assumes "single_message ev sn n" "snapshot_ok ev sn" "ev_operation ev = OperationScheduledSyncAll"
    "ev_kind ev = EventFailure \<or> ev_kind ev = EventReminder" "0 < ev_suppressionAfter ev"
    "canonicalNotification n = Inr n"
  shows "ValidateNotification n = None"
proof -
  note f = assms(1) [unfolded single_message_def] and ok = assms(2) [unfolded snapshot_ok_def]
  have ids: "\<forall>i \<in> set (nt_incidentIDs n). \<exists>op ft t. i = deterministicIncidentID op ft t"
    using f ok by auto
  show ?thesis
    by (rule ValidateNotificationI [OF conjunct1 [OF f]])
       (use f ok ids assms(3-6) in
         \<open>auto simp: valid_kind_def maxNotificationItems_def maxNotificationBody_def maxNotificationTitle_def\<close>)
qed

lemma snapshot_incident_sel:
  "inc_failureType (snapshot_incident op sn) = sn_failureType sn"
  "inc_id (snapshot_incident op sn) = sn_id sn"
  "inc_operation (snapshot_incident op sn) = op"
  "inc_firstSeenAt (snapshot_incident op sn) = sn_firstSeenAt sn"
  "inc_lastSeenAt (snapshot_incident op sn) = sn_lastSeenAt sn"
  "inc_occurrences (snapshot_incident op sn) = sn_occurrences sn"
  by (simp_all add: snapshot_incident_def)

lemma failure_single_message:
  assumes "ev_kind ev = EventFailure" "snapshot_ok ev sn" "event_in_range ev" "ev_incidents ev = [sn]"
    "0 < ev_suppressionAfter ev"
  obtains n where "buildFailureMessage_core (snapshot_incident (ev_operation ev) sn) (ev_suppressionAfter ev) = Inr n"
    and "single_message ev sn n"
proof -
  note ok = assms(2) [unfolded snapshot_ok_def]
  obtain d where d: "LookupFailure (sn_failureType sn) = Some d" using ok by auto
  have utc: "t_utc (sn_firstSeenAt sn) = sn_firstSeenAt sn" "t_utc (sn_lastSeenAt sn) = sn_lastSeenAt sn"
    using ok by (simp_all add: t_utc_id)
  have title: "fits 160 (''dbrain scheduled sync failed: '' @ fd_title d)"
    using title_fits [OF d] by (simp add: fits_def utf8_literal del: utf8_valid.simps)
  have range: "formattable (sn_firstSeenAt sn)" "ev_suppressionAfter ev \<le> int64_max" "sn_occurrences sn \<le> int64_max"
    using assms(3,4) by (simp_all add: event_in_range_def)
  note body = failure_body_fits [OF d _ range(3,1) _ range(2),
      of "ev_operation ev" "sn_firstSeenAt sn"]
  obtain n where n: "buildFailureMessage_core (snapshot_incident (ev_operation ev) sn) (ev_suppressionAfter ev) = Inr n"
    using d by (simp add: buildFailureMessage_core_def snapshot_incident_sel Let_def)
  show ?thesis
    by (rule that [OF n]) (use n ok d utc title body assms(1,5) in
      \<open>auto simp: buildFailureMessage_core_def single_message_def snapshot_incident_sel Let_def\<close>)
qed

lemma reminder_single_message:
  assumes "ev_kind ev = EventReminder" "snapshot_ok ev sn" "event_in_range ev" "ev_incidents ev = [sn]"
    "0 < ev_suppressionAfter ev"
  obtains n where "buildReminderMessage_core (snapshot_incident (ev_operation ev) sn) (ev_suppressionAfter ev) = Inr n"
    and "single_message ev sn n"
proof -
  note ok = assms(2) [unfolded snapshot_ok_def]
  obtain d where d: "LookupFailure (sn_failureType sn) = Some d" using ok by auto
  have utc: "t_utc (sn_firstSeenAt sn) = sn_firstSeenAt sn" "t_utc (sn_lastSeenAt sn) = sn_lastSeenAt sn"
    using ok by (simp_all add: t_utc_id)
  have title: "fits 160 (''dbrain scheduled sync still failing: '' @ fd_title d)"
    using title_fits [OF d] by (simp add: fits_def utf8_literal del: utf8_valid.simps)
  have range: "formattable (sn_firstSeenAt sn)" "formattable (sn_lastSeenAt sn)"
    "ev_suppressionAfter ev \<le> int64_max" "sn_occurrences sn \<le> int64_max"
    using assms(3,4) by (simp_all add: event_in_range_def)
  note body = reminder_body_fits [OF d _ range(4,1,2) _ range(3),
      of "ev_operation ev" "sn_firstSeenAt sn"]
  obtain n where n: "buildReminderMessage_core (snapshot_incident (ev_operation ev) sn) (ev_suppressionAfter ev) = Inr n"
    using d by (simp add: buildReminderMessage_core_def snapshot_incident_sel Let_def)
  show ?thesis
    by (rule that [OF n]) (use n ok d utc title body assms(1,5) in
      \<open>auto simp: buildReminderMessage_core_def single_message_def snapshot_incident_sel Let_def\<close>)
qed

lemma derive_single:
  assumes k: "ev_kind ev = EventFailure \<or> ev_kind ev = EventReminder"
    and "ValidateEventFacts ev = None" "event_in_range ev"
  shows "\<exists>n. DeriveNotification ev = Inr n \<and> ValidateNotification n = None
    \<and> canonicalNotification n = Inr n \<and> carries_facts n ev"
proof -
  have v: "ev_operation ev = OperationScheduledSyncAll" "utc_loc (ev_createdAt ev)" "0 < ev_suppressionAfter ev"
    "length (ev_incidents ev) = 1" "list_all (snapshot_ok ev) (ev_incidents ev)"
    "instant (sn_lastSeenAt (ev_incidents ev ! 0)) = instant (ev_createdAt ev)"
    "ev_kind ev = EventFailure \<longrightarrow> sn_occurrences (ev_incidents ev ! 0) = 1
        \<and> instant (sn_firstSeenAt (ev_incidents ev ! 0)) = instant (sn_lastSeenAt (ev_incidents ev ! 0))"
    "ev_kind ev = EventReminder \<longrightarrow> 2 \<le> sn_occurrences (ev_incidents ev ! 0)"
    using assms(2) k valid_event_iff [of ev] by auto
  then obtain sn where sn: "ev_incidents ev = [sn]" by (auto simp: length_Suc_conv)
  have ok: "snapshot_ok ev sn" using v sn by simp
  have created: "ev_createdAt ev = sn_lastSeenAt sn"
    using v sn ok by (intro utc_time_eqI) (simp_all add: snapshot_ok_def)
  obtain n where n: "single_message ev sn n"
    and b: "ev_kind ev = EventFailure \<longrightarrow>
        buildFailureMessage_core (snapshot_incident (ev_operation ev) sn) (ev_suppressionAfter ev) = Inr n"
      "ev_kind ev = EventReminder \<longrightarrow>
        buildReminderMessage_core (snapshot_incident (ev_operation ev) sn) (ev_suppressionAfter ev) = Inr n"
  proof -
    from k show ?thesis
    proof
      assume a: "ev_kind ev = EventFailure"
      show ?thesis by (rule failure_single_message [OF a ok assms(3) sn v(3)]) (rule that, use a in simp_all)
    next
      assume a: "ev_kind ev = EventReminder"
      show ?thesis by (rule reminder_single_message [OF a ok assms(3) sn v(3)]) (rule that, use a in simp_all)
    qed
  qed
  note f = n [unfolded single_message_def]
  have inc: "incidentFromNotification n 0 = snapshot_incident (ev_operation ev) sn"
    using f ok by (intro incidentFromNotification_snapshot) (simp_all add: snapshot_ok_def)
  have canon: "canonicalNotification n = Inr n"
    using k inc f b v sn ok
    by (elim disjE) (simp_all add: canonicalNotification_def t_equal_def snapshot_ok_def)
  have valid: "ValidateNotification n = None"
    by (rule single_message_valid [OF n ok v(1) k v(3) canon])
  have "DeriveNotification ev = Inr n"
    using k assms(2) sn b valid
    by (elim disjE) (simp_all add: DeriveNotification_def BuildFailureMessage_def BuildReminderMessage_def validated_def)
  moreover have "carries_facts n ev"
    using f sn created by (simp add: carries_facts_def)
  ultimately show ?thesis using canon valid by blast
qed

section \<open>Recovery\<close>

definition recovery_line :: "incident \<Rightarrow> string" where
  "recovery_line i = ''- '' @ fd_title (the (LookupFailure (inc_failureType i)))
     @ '' (incident '' @ inc_id i @ '')''"

definition first_step :: "gotime \<Rightarrow> incident \<Rightarrow> gotime" where
  "first_step a i = (if t_isZero a \<or> t_before (inc_firstSeenAt i) a then t_utc (inc_firstSeenAt i) else a)"

definition last_step :: "gotime \<Rightarrow> incident \<Rightarrow> gotime" where
  "last_step a i = (if t_after (inc_lastSeenAt i) a then t_utc (inc_lastSeenAt i) else a)"

definition recoverable :: "bool \<Rightarrow> incident \<Rightarrow> bool" where
  "recoverable v i = (LookupFailure (inc_failureType i) \<noteq> None \<and> inc_operation i = OperationScheduledSyncAll
     \<and> (v \<longrightarrow> inc_id i = deterministicIncidentID (inc_operation i) (inc_failureType i) (inc_firstSeenAt i)))"

lemma recovery_loop_closed:
  "list_all (recoverable v) is \<Longrightarrow> recovery_loop v is n lines =
     Inr (n\<lparr>nt_incidentIDs := nt_incidentIDs n @ map inc_id is,
            nt_failureTypes := nt_failureTypes n @ map inc_failureType is,
            nt_occurrences := foldl int64_add (nt_occurrences n) (map inc_occurrences is),
            nt_firstSeenAt := foldl first_step (nt_firstSeenAt n) is,
            nt_lastSeenAt := foldl last_step (nt_lastSeenAt n) is\<rparr>,
          lines @ map recovery_line is)"
  by (induction "is" arbitrary: n lines)
     (auto simp: recoverable_def recovery_line_def first_step_def last_step_def)

lemma foldl_int64:
  "\<forall>x \<in> set xs. 0 \<le> x \<Longrightarrow> 0 \<le> a \<Longrightarrow> a + sum_list xs \<le> int64_max
    \<Longrightarrow> foldl int64_add a xs = a + sum_list xs"
proof (induction xs arbitrary: a)
  case (Cons x xs)
  have "0 \<le> sum_list xs" using Cons.prems(1) by (simp add: sum_list_nonneg)
  then have "int64_add a x = a + x"
    using Cons.prems by (intro int64_add_exact) (simp add: is_int64_def int64_min_def)
  with Cons show ?case by (simp add: add.assoc)
qed simp

lemma foldl_first:
  "\<lbrakk>\<forall>i \<in> set is. 0 < instant (inc_firstSeenAt i) \<and> utc_loc (inc_firstSeenAt i);
    0 < instant a; utc_loc a\<rbrakk>
   \<Longrightarrow> foldl first_step a is \<in> insert a (inc_firstSeenAt ` set is)
     \<and> instant (foldl first_step a is) \<le> instant a
     \<and> (\<forall>i \<in> set is. instant (foldl first_step a is) \<le> instant (inc_firstSeenAt i))"
proof (induction "is" arbitrary: a)
  case (Cons i "is")
  have s: "first_step a i = (if instant (inc_firstSeenAt i) < instant a then inc_firstSeenAt i else a)"
    using Cons.prems by (simp add: first_step_def t_isZero_def t_before_def t_utc_id)
  show ?case
  proof (cases "instant (inc_firstSeenAt i) < instant a")
    case True
    then show ?thesis using Cons.IH [of "inc_firstSeenAt i"] Cons.prems s by auto
  next
    case False
    then show ?thesis using Cons.IH [of a] Cons.prems s by auto
  qed
qed simp

lemma foldl_last:
  "\<lbrakk>\<forall>i \<in> set is. utc_loc (inc_lastSeenAt i); utc_loc a\<rbrakk>
   \<Longrightarrow> foldl last_step a is \<in> insert a (inc_lastSeenAt ` set is)
     \<and> instant a \<le> instant (foldl last_step a is)
     \<and> (\<forall>i \<in> set is. instant (inc_lastSeenAt i) \<le> instant (foldl last_step a is))"
proof (induction "is" arbitrary: a)
  case (Cons i "is")
  have s: "last_step a i = (if instant a < instant (inc_lastSeenAt i) then inc_lastSeenAt i else a)"
    using Cons.prems by (simp add: last_step_def t_after_def t_utc_id)
  show ?case
  proof (cases "instant a < instant (inc_lastSeenAt i)")
    case True
    then show ?thesis using Cons.IH [of "inc_lastSeenAt i"] Cons.prems s by auto
  next
    case False
    then show ?thesis using Cons.IH [of a] Cons.prems s by auto
  qed
qed simp

lemma foldl_const:
  assumes "\<And>x. x \<in> set xs \<Longrightarrow> f a x = a" shows "foldl f a xs = a"
  using assms by (induction xs) simp_all

definition recovery_notification :: "incident list \<Rightarrow> gotime \<Rightarrow> duration \<Rightarrow> notification" where
  "recovery_notification is createdAt repeatAfter =
     \<lparr>nt_id = deterministicNotificationID EventRecovery (map inc_id is) createdAt,
      nt_incidentIDs = map inc_id is,
      nt_kind = EventRecovery,
      nt_operation = OperationScheduledSyncAll,
      nt_failureTypes = map inc_failureType is,
      nt_title = ''dbrain scheduled sync recovered'',
      nt_body = joinWith nl ([''dbrain scheduled sync recovered.'', ''Resolved:''] @ map recovery_line is),
      nt_occurrences = foldl int64_add 0 (map inc_occurrences is),
      nt_firstSeenAt = foldl first_step zero_time is,
      nt_lastSeenAt = foldl last_step zero_time is,
      nt_createdAt = createdAt,
      nt_suppressionAfter = repeatAfter\<rparr>"

lemma recovery_notification_cong:
  assumes "map inc_id js = map inc_id is" "map inc_failureType js = map inc_failureType is"
    and "map recovery_line js = map recovery_line is"
    and "foldl int64_add 0 (map inc_occurrences js) = foldl int64_add 0 (map inc_occurrences is)"
    and "foldl first_step zero_time js = foldl first_step zero_time is"
    and "foldl last_step zero_time js = foldl last_step zero_time is"
  shows "recovery_notification js c r = recovery_notification is c r"
  unfolding recovery_notification_def assms ..

lemma recovery_core_closed:
  assumes "is \<noteq> []" "list_all (recoverable v) is" "utc_loc createdAt"
    and "sorted_wrt (<) (map (\<lambda>i. failureCatalogIndex (inc_failureType i)) is)"
  shows "buildRecoveryMessage_core is createdAt repeatAfter v = Inr (recovery_notification is createdAt repeatAfter)"
proof -
  have "sorted (map (\<lambda>i. failureCatalogIndex (inc_failureType i)) is)"
    using assms(4) by (rule strict_sorted_imp_sorted)
  then have "sort_key (\<lambda>i. failureCatalogIndex (inc_failureType i)) is = is"
    by (rule sort_key_id_if_sorted)
  then show ?thesis
    using assms(1-3)
    by (simp add: buildRecoveryMessage_core_def Let_def recovery_loop_closed recovery_notification_def
        zero_notification_def t_utc_id)
qed

text \<open>The facts are enough to rebuild the recovery message.\<close>

lemma recovery_identity_loop_ok:
  "sorted_wrt (<) (map (\<lambda>p. failureCatalogIndex (snd p)) ps) \<Longrightarrow> distinct (map fst ps)
    \<Longrightarrow> \<forall>p \<in> set ps. prev < int (failureCatalogIndex (snd p)) \<and> fst p \<notin> set seen
    \<Longrightarrow> recovery_identity_loop ps prev seen = None"
proof (induction ps arbitrary: prev seen)
  case (Cons p ps)
  obtain iid ft where p: "p = (iid, ft)" by (cases p)
  have "recovery_identity_loop ps (int (failureCatalogIndex ft)) (iid # seen) = None"
    using Cons.prems p by (intro Cons.IH) (auto simp: image_iff)
  then show ?case using Cons.prems p by (simp add: Let_def)
qed simp

lemma recovery_rebuild:
  assumes "is \<noteq> []" "list_all (recoverable True) is" "utc_loc createdAt"
    and sorted: "sorted_wrt (<) (map (\<lambda>i. failureCatalogIndex (inc_failureType i)) is)"
    and ids: "distinct (map inc_id is)"
    and times: "\<forall>i \<in> set is. 0 < instant (inc_firstSeenAt i) \<and> utc_loc (inc_firstSeenAt i)
        \<and> 0 < instant (inc_lastSeenAt i) \<and> utc_loc (inc_lastSeenAt i)"
    and occ: "\<forall>i \<in> set is. 1 \<le> inc_occurrences i" "sum_list (map inc_occurrences is) \<le> int64_max"
  shows "canonicalNotification (recovery_notification is createdAt repeatAfter)
    = Inr (recovery_notification is createdAt repeatAfter)"
proof -
  let ?n = "recovery_notification is createdAt repeatAfter"
  define js where js_def: "js = map (\<lambda>index. (incidentFromNotification ?n index)
                       \<lparr>inc_occurrences := (if index = 0 then nt_occurrences ?n else 0)\<rparr>)
                    [0..<length (nt_incidentIDs ?n)]"
  have types: "map inc_failureType js = map inc_failureType is" and iids: "map inc_id js = map inc_id is"
    by (rule nth_equalityI; simp add: js_def incidentFromNotification_def recovery_notification_def)+
  have lines: "map recovery_line js = map recovery_line is"
    by (rule nth_equalityI) (simp_all add: js_def recovery_line_def incidentFromNotification_def recovery_notification_def)
  have rec: "list_all (recoverable False) js"
    using assms(2)
    by (auto simp: js_def list_all_iff recoverable_def incidentFromNotification_def recovery_notification_def)
  have total: "nt_occurrences ?n = sum_list (map inc_occurrences is)"
  proof -
    have "foldl int64_add 0 (map inc_occurrences is) = 0 + sum_list (map inc_occurrences is)"
      using occ by (intro foldl_int64) (auto intro: order_trans [of 0 1])
    then show ?thesis by (simp add: recovery_notification_def)
  qed
  have total_ge: "0 \<le> sum_list (map inc_occurrences is)"
    using occ(1) by (intro sum_list_nonneg) auto
  obtain k where k: "length is = Suc k" using assms(1) by (cases "is") auto
  have occs: "map inc_occurrences js = nt_occurrences ?n # replicate k 0"
  proof -
    have len: "length (nt_incidentIDs ?n) = Suc k" using k by (simp add: recovery_notification_def)
    have upt: "[0..<Suc k] = 0 # map Suc [0..<k]"
      by (simp add: upt_conv_Cons map_Suc_upt del: upt_Suc)
    show ?thesis unfolding js_def len upt by (simp add: o_def map_replicate_const)
  qed
  have occ_js: "foldl int64_add 0 (map inc_occurrences js) = nt_occurrences ?n"
    unfolding occs using total total_ge occ(2)
    by (subst foldl_int64) (auto simp: sum_list_replicate)
  obtain i0 rest where is0: "is = i0 # rest" using assms(1) by (cases "is") auto
  have z: "first_step zero_time i0 = inc_firstSeenAt i0" "last_step zero_time i0 = inc_lastSeenAt i0"
    using times is0 by (simp_all add: first_step_def last_step_def t_isZero_def t_after_def t_utc_id)
  have first: "0 < instant (nt_firstSeenAt ?n)" "utc_loc (nt_firstSeenAt ?n)"
    using foldl_first [of rest "inc_firstSeenAt i0"] times is0 z by (auto simp: recovery_notification_def)
  have last: "0 < instant (nt_lastSeenAt ?n)" "utc_loc (nt_lastSeenAt ?n)"
    using foldl_last [of rest "inc_lastSeenAt i0"] times is0 z by (auto simp: recovery_notification_def)
  have js_times: "inc_firstSeenAt j = nt_firstSeenAt ?n" "inc_lastSeenAt j = nt_lastSeenAt ?n"
    if "j \<in> set js" for j
    using that by (auto simp: js_def incidentFromNotification_def)
  have ne: "js \<noteq> []" using assms(1) by (simp add: js_def recovery_notification_def)
  obtain j0 jt where jcons: "js = j0 # jt" using ne by (cases js) auto
  have nsel: "nt_occurrences ?n = foldl int64_add 0 (map inc_occurrences is)"
    "nt_firstSeenAt ?n = foldl first_step zero_time is" "nt_lastSeenAt ?n = foldl last_step zero_time is"
    by (simp_all add: recovery_notification_def)
  have first_js: "foldl first_step zero_time js = nt_firstSeenAt ?n"
  proof -
    have z: "first_step zero_time j0 = nt_firstSeenAt ?n"
      using js_times(1) [of j0] jcons first by (simp add: first_step_def t_isZero_def t_utc_id)
    show ?thesis unfolding jcons foldl_Cons z
      by (rule foldl_const) (use js_times(1) jcons first in \<open>simp add: first_step_def t_isZero_def t_before_def\<close>)
  qed
  have last_js: "foldl last_step zero_time js = nt_lastSeenAt ?n"
  proof -
    have z: "last_step zero_time j0 = nt_lastSeenAt ?n"
      using js_times(2) [of j0] jcons last by (simp add: last_step_def t_after_def t_utc_id)
    show ?thesis unfolding jcons foldl_Cons z
      by (rule foldl_const) (use js_times(2) jcons last in \<open>simp add: last_step_def t_after_def\<close>)
  qed
  have same: "recovery_notification js createdAt repeatAfter = ?n"
    by (rule recovery_notification_cong [OF iids types lines occ_js [unfolded nsel(1)]
          first_js [unfolded nsel(2)] last_js [unfolded nsel(3)]])
  have sorted_js: "sorted_wrt (<) (map (\<lambda>i. failureCatalogIndex (inc_failureType i)) js)"
    using sorted arg_cong [OF types, of "map failureCatalogIndex"] by (simp add: o_def)
  have core: "buildRecoveryMessage_core js createdAt repeatAfter False = Inr ?n"
    using recovery_core_closed [OF ne rec assms(3) sorted_js] same by simp
  have zip: "zip (nt_incidentIDs ?n) (nt_failureTypes ?n) = map (\<lambda>i. (inc_id i, inc_failureType i)) is"
    by (simp add: recovery_notification_def zip_map_map zip_same_conv_map)
  have identity: "validateRecoveryIdentity ?n = None"
    unfolding validateRecoveryIdentity_def zip
    using recovery_identity_loop_ok [of "map (\<lambda>i. (inc_id i, inc_failureType i)) is" "-1" "[]"] sorted ids assms(1)
    by (simp add: o_def recovery_notification_def)
  have sel: "nt_kind ?n = EventRecovery" "nt_createdAt ?n = createdAt" "nt_suppressionAfter ?n = repeatAfter"
    by (simp_all add: recovery_notification_def)
  show ?thesis unfolding canonicalNotification_def identity sel using core [unfolded js_def] by simp
qed

lemma recovery_line_fits:
  assumes "recoverable True i" shows "ascii (recovery_line i)" "length (recovery_line i) \<le> 102"
proof -
  obtain d where d: "LookupFailure (inc_failureType i) = Some d" using assms by (auto simp: recoverable_def)
  show "ascii (recovery_line i)" "length (recovery_line i) \<le> 102"
    using lookup_message_safe [OF d] d assms incident_id_ascii incident_id_valid(2)
    by (simp_all add: recovery_line_def recoverable_def message_safe_def ascii_Cons in_bytes_def)
qed

lemma recovery_body_fits:
  assumes "list_all (recoverable True) is" "distinct (map inc_failureType is)"
  shows "fits 4096 (joinWith nl ([''dbrain scheduled sync recovered.'', ''Resolved:''] @ map recovery_line is))"
proof -
  have "set (map inc_failureType is) \<subseteq> set orderedFailureTypes"
    using assms(1) lookup_failure_known by (auto simp: list_all_iff recoverable_def)
  then have "card (set (map inc_failureType is)) \<le> 34"
    using card_mono [of "set orderedFailureTypes"] distinct_card [OF ordered_types_distinct] length_ordered_types
    by (metis List.finite_set)
  then have n: "length is \<le> 34" using distinct_card [OF assms(2)] by simp
  have "sum_list (map (length \<circ> recovery_line) is) \<le> sum_list (map (\<lambda>_. 102) is)"
    by (rule sum_list_mono) (use assms(1) recovery_line_fits(2) in \<open>auto simp: list_all_iff\<close>)
  then have "sum_list (map (length \<circ> recovery_line) is) \<le> 102 * 34"
    using n by (simp add: sum_list_triv)
  then have "length (joinWith nl ([''dbrain scheduled sync recovered.'', ''Resolved:''] @ map recovery_line is)) \<le> 4096"
    using n by (simp add: length_joinWith nl_def)
  moreover have "ascii (joinWith nl ([''dbrain scheduled sync recovered.'', ''Resolved:''] @ map recovery_line is))"
    using assms(1) recovery_line_fits(1)
    by (intro ascii_join) (auto simp: list_all_iff nl_def ascii_Cons in_bytes_def)
  ultimately show ?thesis by (simp add: fits_ascii)
qed

lemma derive_recovery:
  assumes "ev_kind ev = EventRecovery" "ValidateEventFacts ev = None" "event_in_range ev"
  shows "\<exists>n. DeriveNotification ev = Inr n \<and> ValidateNotification n = None
    \<and> canonicalNotification n = Inr n \<and> carries_facts n ev"
proof -
  let ?is = "map (snapshot_incident (ev_operation ev)) (ev_incidents ev)"
  let ?n = "recovery_notification ?is (ev_createdAt ev) (ev_suppressionAfter ev)"
  have v: "ev_operation ev = OperationScheduledSyncAll" "utc_loc (ev_createdAt ev)" "0 < ev_suppressionAfter ev"
    "length (ev_incidents ev) \<le> maxNotificationItems" "ev_incidents ev \<noteq> []"
    "\<forall>sn \<in> set (ev_incidents ev). snapshot_ok ev sn" "distinct (map sn_id (ev_incidents ev))"
    "distinct (map sn_failureType (ev_incidents ev))"
    "sorted_wrt (<) (map snapshot_index (ev_incidents ev))"
    using assms(1,2) valid_event_iff [of ev] by (auto simp: list_all_iff)
  have r: "\<forall>sn \<in> set (ev_incidents ev). formattable (sn_firstSeenAt sn) \<and> formattable (sn_lastSeenAt sn)"
    "sum_list (map sn_occurrences (ev_incidents ev)) \<le> int64_max"
    using assms(3) by (auto simp: event_in_range_def list_all_iff)
  have rec: "list_all (recoverable True) ?is"
    using v(1,6) by (auto simp: list_all_iff recoverable_def snapshot_incident_sel snapshot_ok_def)
  have pos: "0 < instant (sn_firstSeenAt sn) \<and> 0 < instant (sn_lastSeenAt sn)" if "sn \<in> set (ev_incidents ev)" for sn
  proof -
    have "0 \<le> instant (sn_firstSeenAt sn)" "instant (sn_firstSeenAt sn) \<noteq> 0"
      "instant (sn_firstSeenAt sn) \<le> instant (sn_lastSeenAt sn)"
      using that v(6) r(1) by (auto simp: snapshot_ok_def formattable_def t_isZero_def)
    then show ?thesis by linarith
  qed
  have types: "map inc_failureType ?is = map sn_failureType (ev_incidents ev)"
    and ids: "map inc_id ?is = map sn_id (ev_incidents ev)"
    and occs: "map inc_occurrences ?is = map sn_occurrences (ev_incidents ev)"
    and idx: "map (\<lambda>i. failureCatalogIndex (inc_failureType i)) ?is = map snapshot_index (ev_incidents ev)"
    by (simp_all add: snapshot_incident_sel o_def)
  have times: "\<forall>i \<in> set ?is. 0 < instant (inc_firstSeenAt i) \<and> utc_loc (inc_firstSeenAt i)
        \<and> 0 < instant (inc_lastSeenAt i) \<and> utc_loc (inc_lastSeenAt i)"
    using pos v(6) by (auto simp: snapshot_incident_sel snapshot_ok_def)
  have occ1: "\<forall>i \<in> set ?is. 1 \<le> inc_occurrences i"
    using v(6) by (auto simp: snapshot_incident_sel snapshot_ok_def)
  have ne: "?is \<noteq> []" using v(5) by simp
  have occ_pos: "1 \<le> sum_list (map sn_occurrences (ev_incidents ev))"
  proof -
    obtain sn rest where c: "ev_incidents ev = sn # rest" using v(5) by (cases "ev_incidents ev") auto
    have "0 \<le> sum_list (map sn_occurrences rest)"
      using v(6) c by (intro sum_list_nonneg) (auto simp: snapshot_ok_def intro: order_trans [of 0 1])
    then show ?thesis using v(6) c by (auto simp: snapshot_ok_def)
  qed
  have total: "foldl int64_add 0 (map inc_occurrences ?is) = sum_list (map sn_occurrences (ev_incidents ev))"
  proof -
    have "foldl int64_add 0 (map sn_occurrences (ev_incidents ev)) = 0 + sum_list (map sn_occurrences (ev_incidents ev))"
      using v(6) r(2) by (intro foldl_int64) (auto simp: snapshot_ok_def intro: order_trans [of 0 1])
    then show ?thesis unfolding occs by simp
  qed
  have canon: "canonicalNotification ?n = Inr ?n"
    by (rule recovery_rebuild [OF ne rec v(2) v(9) [folded idx] v(7) [folded ids] times occ1
          r(2) [folded occs]])
  obtain i0 rest where is0: "?is = i0 # rest" using ne by (cases ?is) auto
  have z: "first_step zero_time i0 = inc_firstSeenAt i0" "last_step zero_time i0 = inc_lastSeenAt i0"
    using times is0 by (simp_all add: first_step_def last_step_def t_isZero_def t_after_def t_utc_id)
  have first: "0 < instant (nt_firstSeenAt ?n)" "utc_loc (nt_firstSeenAt ?n)"
      "instant (nt_firstSeenAt ?n) \<le> instant (inc_firstSeenAt i0)"
    using foldl_first [of rest "inc_firstSeenAt i0"] times is0 z by (auto simp: recovery_notification_def)
  have last: "utc_loc (nt_lastSeenAt ?n)" "instant (inc_lastSeenAt i0) \<le> instant (nt_lastSeenAt ?n)"
      "nt_lastSeenAt ?n \<in> inc_lastSeenAt ` set ?is"
    using foldl_last [of rest "inc_lastSeenAt i0"] times is0 z by (auto simp: recovery_notification_def)
  have i0: "instant (inc_firstSeenAt i0) \<le> instant (inc_lastSeenAt i0)"
  proof -
    have "i0 \<in> set ?is" using is0 by simp
    then show ?thesis using v(6) by (auto simp: snapshot_incident_sel snapshot_ok_def)
  qed
  have created: "instant (nt_lastSeenAt ?n) \<le> instant (ev_createdAt ev)"
    using last(3) v(6) by (auto simp: snapshot_incident_sel snapshot_ok_def)
  have valid: "ValidateNotification ?n = None"
  proof (rule ValidateNotificationI)
    show "nt_id ?n = deterministicNotificationID EventRecovery (map inc_id ?is) (ev_createdAt ev)"
      by (simp add: recovery_notification_def)
    show "fits maxNotificationBody (nt_body ?n)"
      using recovery_body_fits [OF rec] types v(8)
      by (simp only: recovery_notification_def notification.simps maxNotificationBody_def)
    show "\<forall>i \<in> set (nt_incidentIDs ?n). \<exists>op ft t. i = deterministicIncidentID op ft t"
      using v(6) by (auto simp: recovery_notification_def snapshot_incident_sel snapshot_ok_def)
    show "\<forall>ft \<in> set (nt_failureTypes ?n). LookupFailure ft \<noteq> None"
      using v(6) by (auto simp: recovery_notification_def snapshot_incident_sel snapshot_ok_def)
    show "canonicalNotification ?n = Inr ?n" by (rule canon)
    show "\<not> t_isZero (nt_firstSeenAt ?n)" using first by (simp add: t_isZero_def)
    show "instant (nt_firstSeenAt ?n) \<le> instant (nt_lastSeenAt ?n)" using first last i0 by linarith
    show "instant (nt_lastSeenAt ?n) \<le> instant (nt_createdAt ?n)"
      using created by (simp add: recovery_notification_def)
    show "utc_loc (nt_firstSeenAt ?n)" by (rule first)
    show "utc_loc (nt_lastSeenAt ?n)" by (rule last)
    show "1 \<le> nt_occurrences ?n" using total occ_pos by (simp add: recovery_notification_def)
  qed (use v in \<open>simp_all add: recovery_notification_def valid_kind_def fits_def maxNotificationTitle_def in_bytes_def\<close>)
  have "DeriveNotification ev = Inr ?n"
    using assms(1,2) recovery_core_closed [OF ne rec v(2) v(9) [folded idx]] valid
    by (simp add: DeriveNotification_def BuildRecoveryMessage_def validated_def Let_def)
  moreover have "carries_facts ?n ev"
    using assms(1) v(1) types ids total by (simp add: carries_facts_def recovery_notification_def)
  ultimately show ?thesis using canon valid by blast
qed

lemma derive_test:
  assumes "ev_kind ev = EventTest" "ValidateEventFacts ev = None"
  shows "\<exists>n. DeriveNotification ev = Inr n \<and> ValidateNotification n = None
    \<and> canonicalNotification n = Inr n \<and> carries_facts n ev"
proof -
  have v: "ev_operation ev = OperationScheduledSyncAll" "ev_incidents ev = []" "ev_suppressionAfter ev = 0"
    "\<not> t_isZero (ev_createdAt ev)" "utc_loc (ev_createdAt ev)"
    using assms by (auto simp: ValidateEventFacts_def event_shape_def split: if_splits)
  let ?n = "test_notification (ev_createdAt ev) (ev_operation ev)"
  have canon: "canonicalNotification ?n = Inr ?n"
    using v by (simp add: canonicalNotification_def test_notification_def zero_notification_def
        t_isZero_def t_utc_id)
  have valid: "ValidateNotification ?n = None"
    using v canon notification_id_valid(1) [of EventTest "[]" "ev_createdAt ev"]
      notification_id_valid(2) [of EventTest "[]" "ev_createdAt ev", folded not_less]
    by (simp add: ValidateNotification_def test_notification_def zero_notification_def valid_kind_def
        maxNotificationItems_def maxNotificationTitle_def maxNotificationBody_def in_bytes_def t_isZero_def)
  have "DeriveNotification ev = Inr ?n"
    using assms valid by (simp add: DeriveNotification_def validated_def)
  moreover have "carries_facts ?n ev"
    using v assms(1) by (simp add: carries_facts_def test_notification_def zero_notification_def)
  ultimately show ?thesis using canon valid by blast
qed

lemma event_derives:
  assumes "ValidateEventFacts ev = None" "event_in_range ev"
  shows "\<exists>n. DeriveNotification ev = Inr n \<and> ValidateNotification n = None
    \<and> canonicalNotification n = Inr n \<and> carries_facts n ev"
proof -
  have "ev_kind ev = EventFailure \<or> ev_kind ev = EventReminder \<or> ev_kind ev = EventRecovery \<or> ev_kind ev = EventTest"
    using assms(1) by (auto simp: ValidateEventFacts_def event_shape_def split: if_splits)
  then show ?thesis using derive_single derive_recovery derive_test assms by blast
qed

text \<open>Every valid event whose years and numbers are in range derives a notification; the
  notification passes its own validation, is rebuilt exactly by the canonicalizer from its own
  fields, and carries the facts of the event: its kind, incidents, failure types, total
  occurrences, creation time and suppression interval. So the texts always fit their limits, also
  when every known failure recovers at once.\<close>

theorem event_derives_canonical_message:
  assumes "ValidateEventFacts ev = None" "event_in_range ev"
  shows "\<exists>n. DeriveNotification ev = Inr n \<and> ValidateNotification n = None
    \<and> canonicalNotification n = Inr n \<and> carries_facts n ev"
  using assms by (rule event_derives)

definition example_event :: eventFacts where
  "example_event =
     (let at = \<lparr>instant = 63902649661 * 1000000000, utc_loc = True\<rparr> in
      \<lparr>ev_kind = EventFailure, ev_operation = OperationScheduledSyncAll,
       ev_incidents = [\<lparr>sn_id = deterministicIncidentID OperationScheduledSyncAll FailureUnknown at,
         sn_failureType = FailureUnknown, sn_firstSeenAt = at, sn_lastSeenAt = at, sn_occurrences = 1\<rparr>],
       ev_suppressionAfter = 6 * hour, ev_createdAt = at\<rparr>)"

lemma unknown_failure_known: "LookupFailure FailureUnknown \<noteq> None"
  unfolding lookup_failure_known by (simp add: orderedFailureTypes_def)

lemma example_event_valid:
  "ValidateEventFacts example_event = None" "event_in_range example_event"
proof -
  show "ValidateEventFacts example_event = None"
    by (subst valid_event_iff)
       (use unknown_failure_known in \<open>simp_all add: example_event_def snapshot_ok_def t_isZero_def
          maxNotificationItems_def hour_def Let_def\<close>)
  show "event_in_range example_event"
    by (simp add: event_in_range_def example_event_def Let_def formattable_def second_def hour_def int64_max_def)
qed

lemma event_derives_canonical_message_witness:
  "ValidateEventFacts example_event = None \<and> event_in_range example_event
   \<and> (\<exists>n. DeriveNotification example_event = Inr n \<and> ValidateNotification n = None
        \<and> canonicalNotification n = Inr n \<and> carries_facts n example_event)"
  using event_derives_canonical_message [OF example_event_valid]
    example_event_valid by blast

end
