(* ===== verification/NotifyInv.thy ===== *)
theory NotifyInv
  imports NotifyState NotifyEvents
begin

text \<open>
  The invariant of the notification state: what \<open>ValidateState\<close> demands of the contents, in
  closed form, and that every transition of \<open>Observe\<close> keeps it, so that the validation
  \<open>Observe\<close> repeats at its end can only ever reject a state for its encoded size.
\<close>

section \<open>Validation in closed form\<close>

lemma first_error_None: "first_error f xs = None \<longleftrightarrow> list_all (\<lambda>x. f x = None) xs"
  by (induction xs) (auto split: option.split)

definition incident_valid :: "string \<Rightarrow> incident \<Rightarrow> bool" where
  "incident_valid k i =
     (k = incidentKey OperationScheduledSyncAll (inc_failureType i)
      \<and> inc_operation i = OperationScheduledSyncAll
      \<and> inc_id i = deterministicIncidentID OperationScheduledSyncAll (inc_failureType i) (inc_firstSeenAt i)
      \<and> LookupFailure (inc_failureType i) \<noteq> None
      \<and> (inc_phase i = IncidentOpen \<or> inc_phase i = IncidentCooling)
      \<and> \<not> t_isZero (inc_firstSeenAt i)
      \<and> instant (inc_firstSeenAt i) \<le> instant (inc_lastFailureEnqueuedAt i)
      \<and> instant (inc_lastFailureEnqueuedAt i) \<le> instant (inc_lastSeenAt i)
      \<and> 1 \<le> inc_occurrences i
      \<and> (inc_phase i = IncidentCooling \<longrightarrow> \<not> inc_needsRecovery i)
      \<and> (inc_needsRecovery i \<or> \<not> t_isZero (inc_recoveryNotifiedAt i)))"

lemma incident_id_shape: "deterministicIncidentID op ft t \<noteq> []"
  "length (deterministicIncidentID op ft t) \<le> maxIncidentIDBytes"
  using incident_id_valid(2) [of op ft t] by (auto simp: maxIncidentIDBytes_def)

lemma validate_incident_iff: "validate_incident k i = None \<longleftrightarrow> incident_valid k i"
proof -
  have "inc_id i = deterministicIncidentID (inc_operation i) (inc_failureType i) (inc_firstSeenAt i)
      \<Longrightarrow> inc_id i \<noteq> [] \<and> length (inc_id i) \<le> maxIncidentIDBytes"
    using incident_id_shape by simp
  then show ?thesis
    unfolding validate_incident_def incident_valid_def t_before_def t_after_def
    by (cases "inc_phase i = IncidentOpen"; cases "inc_phase i = IncidentCooling") (auto simp: not_less)
qed

definition deliveries_valid :: "(string, deliveryRecord) gomap \<Rightarrow> bool" where
  "deliveries_valid ds = (ds \<noteq> [] \<and> length ds \<le> maxProviders
     \<and> list_all (\<lambda>(p, r). validate_delivery p r = None) ds)"

definition envelope_valid :: "envelope \<Rightarrow> bool" where
  "envelope_valid env = (is_ok (DeriveNotification (env_event env)) \<and> deliveries_valid (env_deliveries env))"

lemma validate_envelope_iff: "validate_envelope env = None \<longleftrightarrow> envelope_valid env"
  unfolding validate_envelope_def envelope_valid_def deliveries_valid_def
  by (auto split: sum.split simp: first_error_None case_prod_unfold not_less)

definition summaries_valid :: "(string, deliverySummary) gomap \<Rightarrow> bool" where
  "summaries_valid m = (length m \<le> maxProviders \<and> list_all (\<lambda>(p, ds). validate_last_delivery p ds = None) m)"

definition incidents_valid :: "(string, incident) gomap \<Rightarrow> bool" where
  "incidents_valid m = list_all (\<lambda>(k, i). incident_valid k i) m"

lemma validate_contents_iff:
  "validate_contents s = None \<longleftrightarrow>
     st_schema s = StateSchemaV2 \<and> st_lastDelivery s = zero_summary
     \<and> st_lastDeliveries s \<noteq> None \<and> st_incidents s \<noteq> None \<and> st_outbox s \<noteq> None
     \<and> summaries_valid (gm_of (st_lastDeliveries s))
     \<and> length (incidents_of s) \<le> maxStateIncidents \<and> incidents_valid (incidents_of s)
     \<and> length (outbox_of s) \<le> maxStateEnvelopes \<and> list_all envelope_valid (outbox_of s)"
proof -
  have chain: "(case a of None \<Rightarrow> b | Some e \<Rightarrow> Some e) = None \<longleftrightarrow> a = None \<and> b = None" for a b :: "string option"
    by (cases a) simp_all
  have inc: "first_error (\<lambda>(k, i). validate_incident k i) m = None \<longleftrightarrow> incidents_valid m" for m
    by (simp add: first_error_None incidents_valid_def case_prod_unfold validate_incident_iff)
  have env: "first_error validate_envelope es = None \<longleftrightarrow> list_all envelope_valid es" for es
    by (simp add: first_error_None validate_envelope_iff)
  have sums: "first_error (\<lambda>(p, ds). validate_last_delivery p ds) m = None
      \<longleftrightarrow> list_all (\<lambda>(p, ds). validate_last_delivery p ds = None) m" for m
    by (simp add: first_error_None case_prod_unfold)
  show ?thesis
    unfolding validate_contents_def summaries_valid_def
    by (auto simp: not_less chain inc env sums)
qed

section \<open>The representation\<close>

text \<open>Go maps have one entry per key.\<close>

definition state_keys :: "state \<Rightarrow> bool" where
  "state_keys s = (gm_ok (incidents_of s) \<and> gm_ok (gm_of (st_lastDeliveries s))
     \<and> list_all (\<lambda>env. gm_ok (env_deliveries env)) (outbox_of s))"

lemma incidents_of_simps [simp]:
  "incidents_of (s\<lparr>st_incidents := Some m\<rparr>) = m"
  "incidents_of (s\<lparr>st_outbox := ob\<rparr>) = incidents_of s"
  "incidents_of (s\<lparr>st_lastDeliveries := ld\<rparr>) = incidents_of s"
  "incidents_of (put_incident k i s) = gm_put k i (incidents_of s)"
  "incidents_of (cloneState s) = incidents_of s"
  by (simp_all add: incidents_of_def gm_of_def put_incident_def cloneState_def)

lemma outbox_of_simps [simp]:
  "outbox_of (s\<lparr>st_incidents := m\<rparr>) = outbox_of s"
  "outbox_of (s\<lparr>st_outbox := Some ob\<rparr>) = ob"
  "outbox_of (s\<lparr>st_lastDeliveries := ld\<rparr>) = outbox_of s"
  "outbox_of (put_incident k i s) = outbox_of s"
  "outbox_of (cloneState s) = outbox_of s"
  by (simp_all add: outbox_of_def put_incident_def cloneState_def)

lemma summaries_simps [simp]:
  "gm_of (st_lastDeliveries (cloneState s)) = gm_of (st_lastDeliveries s)"
  "st_lastDeliveries (put_incident k i s) = st_lastDeliveries s"
  by (simp_all add: gm_of_def put_incident_def cloneState_def)

lemma prune_incidents:
  "incidents_of (pruneExpiredCoolingIncidents s t r) =
     filter (\<lambda>(k, i). \<not> (inc_phase i = IncidentCooling
          \<and> \<not> t_before t (t_add (inc_lastFailureEnqueuedAt i) r))) (incidents_of s)"
  by (cases "st_incidents s") (simp_all add: pruneExpiredCoolingIncidents_def incidents_of_def gm_of_def)

lemma prune_same [simp]:
  "outbox_of (pruneExpiredCoolingIncidents s t r) = outbox_of s"
  "st_lastDeliveries (pruneExpiredCoolingIncidents s t r) = st_lastDeliveries s"
  "st_schema (pruneExpiredCoolingIncidents s t r) = st_schema s"
  "st_lastDelivery (pruneExpiredCoolingIncidents s t r) = st_lastDelivery s"
  "st_outbox (pruneExpiredCoolingIncidents s t r) = st_outbox s"
  "st_incidents (pruneExpiredCoolingIncidents s t r) = None \<longleftrightarrow> st_incidents s = None"
  by (simp_all add: pruneExpiredCoolingIncidents_def outbox_of_def)

text \<open>The two parts of the invariant a transition works on: what it finds after the clone.\<close>

definition good :: "state \<Rightarrow> bool" where
  "good s = (state_keys s \<and> st_schema s = StateSchemaV2 \<and> st_lastDelivery s = zero_summary
     \<and> st_lastDeliveries s \<noteq> None \<and> st_incidents s \<noteq> None \<and> st_outbox s \<noteq> None
     \<and> summaries_valid (gm_of (st_lastDeliveries s)) \<and> incidents_valid (incidents_of s)
     \<and> length (outbox_of s) \<le> maxStateEnvelopes \<and> list_all envelope_valid (outbox_of s))"

text \<open>One incident per known failure type: the limit of 64 incidents is never the reason to fail.\<close>

lemma incidents_bound:
  assumes "gm_ok m" "incidents_valid m" shows "length m \<le> 34"
proof -
  let ?key = "incidentKey OperationScheduledSyncAll"
  have "fst p \<in> ?key ` set orderedFailureTypes" if "p \<in> set m" for p
  proof -
    have "incident_valid (fst p) (snd p)"
      using assms(2) that by (auto simp: incidents_valid_def list_all_iff)
    then have "fst p = ?key (inc_failureType (snd p))" "inc_failureType (snd p) \<in> set orderedFailureTypes"
      unfolding incident_valid_def using lookup_failure_known by blast+
    then show ?thesis by blast
  qed
  then have "set (map fst m) \<subseteq> ?key ` set orderedFailureTypes" by auto
  then have "card (set (map fst m)) \<le> card (?key ` set orderedFailureTypes)"
    by (rule card_mono [rotated]) simp
  also have "\<dots> \<le> card (set orderedFailureTypes)" by (rule card_image_le) simp
  also have "\<dots> = 34" using distinct_card [OF ordered_types_distinct] length_ordered_types by simp
  finally show ?thesis using distinct_card [of "map fst m"] assms(1) by (simp add: gm_ok_def)
qed

lemma good_iff: "good s \<longleftrightarrow> state_keys s \<and> validate_contents s = None"
  unfolding good_def validate_contents_iff
  using incidents_bound [of "incidents_of s"]
  by (auto simp: state_keys_def maxStateIncidents_def)

lemma good_empty: "good EmptyState"
  by (simp add: good_def EmptyState_def state_keys_def incidents_of_def outbox_of_def gm_of_def
      summaries_valid_def incidents_valid_def)

lemma good_prune:
  assumes "good s" shows "good (pruneExpiredCoolingIncidents (cloneState s) t r)"
proof -
  have "st_schema (cloneState s) = st_schema s" "st_lastDelivery (cloneState s) = st_lastDelivery s"
    "st_lastDeliveries (cloneState s) \<noteq> None" "st_incidents (cloneState s) \<noteq> None" "st_outbox (cloneState s) \<noteq> None"
    by (simp_all add: cloneState_def)
  then show ?thesis
    using assms
    by (auto simp: good_def state_keys_def prune_incidents incidents_valid_def list_all_iff
        gm_ok_def distinct_map_filter)
qed

lemma good_put:
  assumes "good s" "incident_valid k i" shows "good (put_incident k i s)"
proof -
  have "gm_ok (incidents_of s)" using assms(1) by (simp add: good_def state_keys_def)
  then have "incidents_valid (gm_put k i (incidents_of s))"
    using assms by (auto simp: good_def incidents_valid_def list_all_iff gm_put_set)
  then show ?thesis
    using assms(1) by (simp add: good_def state_keys_def) (simp add: put_incident_def)
qed

section \<open>Enqueuing\<close>

lemma fold_put_keys:
  "gm_ok m \<Longrightarrow> gm_ok (fold (\<lambda>p. gm_put p v) ps m)
     \<and> set (fold (\<lambda>p. gm_put p v) ps m) \<subseteq> set m \<union> (\<lambda>p. (p, v)) ` set ps
     \<and> length (fold (\<lambda>p. gm_put p v) ps m) \<le> length m + length ps
     \<and> (m \<noteq> [] \<or> ps \<noteq> [] \<longrightarrow> fold (\<lambda>p. gm_put p v) ps m \<noteq> [])"
proof (induction ps arbitrary: m)
  case (Cons p ps)
  have ok: "gm_ok (gm_put p v m)" using Cons.prems by simp
  have ne: "gm_put p v m \<noteq> []" by (cases m) (auto simp: gm_put_def)
  have set: "set (gm_put p v m) \<subseteq> insert (p, v) (set m)" using Cons.prems by (auto simp: gm_put_set)
  have len: "length (gm_put p v m) \<le> Suc (length m)" by (simp add: gm_length_put)
  show ?case using Cons.IH [OF ok] ne set len by auto
qed simp

lemma provider_name_loop_valid:
  "provider_name_loop ps seen = None \<Longrightarrow> p \<in> set ps \<Longrightarrow> validProviderName p"
  by (induction ps arbitrary: seen) (auto split: if_splits)

lemma pending_record_valid: "validProviderName p \<Longrightarrow> validate_delivery p pending_record = None"
  by (simp add: validate_delivery_def valid_status_def validateDeliveryRecord_def pending_record_def
      zero_receipt_def receipt_present_def validSafeCode_def t_isZero_def)

lemma options_validD:
  assumes "validateOptions opts = None"
  shows "0 < op_repeatAfter opts" "op_providers opts \<noteq> []" "length (op_providers opts) \<le> maxProviders"
    "p \<in> set (op_providers opts) \<Longrightarrow> validProviderName p"
  using assms provider_name_loop_valid by (auto simp: validateOptions_def split: if_splits)

lemma enqueueEvent_good:
  assumes "good s" "validateOptions opts = None" "enqueueEvent s d ev (op_providers opts) = Inr (s', ns)"
  obtains n where "DeriveNotification ev = Inr n" "ns = d @ [n]" "good s'" "incidents_of s' = incidents_of s"
    "outbox_of s' = outbox_of s @ [\<lparr>env_event = ev, env_deliveries = fold (\<lambda>p. gm_put p pending_record) (op_providers opts) []\<rparr>]"
proof -
  let ?ds = "fold (\<lambda>p. gm_put p pending_record) (op_providers opts) []"
  let ?env = "\<lparr>env_event = ev, env_deliveries = ?ds\<rparr>"
  from assms(3) obtain n where n: "DeriveNotification ev = Inr n" "ns = d @ [n]"
    and cap: "length (outbox_of s) < maxStateEnvelopes"
    and s': "s' = s\<lparr>st_outbox := Some (outbox_of s @ [?env])\<rparr>"
    by (auto simp: enqueueEvent_def not_le split: if_splits sum.splits)
  have keys: "gm_ok ?ds" and sub: "set ?ds \<subseteq> (\<lambda>p. (p, pending_record)) ` set (op_providers opts)"
    and len: "length ?ds \<le> length (op_providers opts)" and ne: "?ds \<noteq> []"
    using fold_put_keys [of "[]" pending_record "op_providers opts"] options_validD(2) [OF assms(2)] by auto
  have "deliveries_valid ?ds"
    using sub len ne options_validD(3,4) [OF assms(2)] pending_record_valid
    by (auto simp: deliveries_valid_def list_all_iff)
  then have env: "envelope_valid ?env" using n by (simp add: envelope_valid_def)
  have "good s'"
    using assms(1) s' env keys cap by (simp add: good_def state_keys_def)
  then show ?thesis using that [OF n] s' by simp
qed

lemma enqueueIncident_good:
  assumes "good s" "validateOptions opts = None" "enqueueIncidentNotification s d i kind opts = Inr (s', ns)"
  obtains n where "kind = EventFailure \<or> kind = EventReminder"
    "DeriveNotification (eventFactsFromIncidents kind [i] (op_repeatAfter opts) (inc_lastSeenAt i)) = Inr n"
    "ns = d @ [n]" "good s'" "incidents_of s' = incidents_of s"
proof -
  from assms(3) have k: "kind = EventFailure \<or> kind = EventReminder"
    and e: "enqueueEvent s d (eventFactsFromIncidents kind [i] (op_repeatAfter opts) (inc_lastSeenAt i))
       (op_providers opts) = Inr (s', ns)"
    by (auto simp: enqueueIncidentNotification_def split: if_splits)
  show ?thesis by (rule enqueueEvent_good [OF assms(1,2) e]) (rule that [OF k])
qed

end
