(* ===== verification/NotifyObserve.thy ===== *)
theory NotifyObserve
  imports NotifyInv
begin

text \<open>
  What one observation does to the incident of each failure type, and from that the two promises
  of the state machine over a whole run: an error type is not announced twice within its
  suppression window, and a recovery is announced only for an announced failure.
\<close>

section \<open>Derived notifications carry the event\<close>

lemma recovery_loop_frame:
  "recovery_loop v is n lines = Inr (n', lines') \<Longrightarrow>
     nt_kind n' = nt_kind n \<and> nt_createdAt n' = nt_createdAt n
     \<and> nt_failureTypes n' = nt_failureTypes n @ map inc_failureType is"
  by (induction "is" arbitrary: n lines) (auto split: option.splits if_splits)

lemma derive_facts:
  assumes "DeriveNotification ev = Inr n"
  shows "ValidateEventFacts ev = None" "nt_kind n = ev_kind ev"
    "nt_failureTypes n = map sn_failureType (ev_incidents ev)"
    "instant (nt_createdAt n) = instant (ev_createdAt ev)"
proof -
  show v: "ValidateEventFacts ev = None"
    using assms by (auto simp: DeriveNotification_def split: option.splits)
  have "nt_kind n = ev_kind ev \<and> nt_failureTypes n = map sn_failureType (ev_incidents ev)
     \<and> instant (nt_createdAt n) = instant (ev_createdAt ev)"
  proof (cases "ev_kind ev = EventFailure \<or> ev_kind ev = EventReminder")
    case True
    then have s: "length (ev_incidents ev) = 1"
      "instant (sn_lastSeenAt (ev_incidents ev ! 0)) = instant (ev_createdAt ev)"
      using v valid_event_iff [of ev] by auto
    then obtain sn where sn: "ev_incidents ev = [sn]" by (auto simp: length_Suc_conv)
    from True show ?thesis
    proof
      assume "ev_kind ev = EventFailure"
      then show ?thesis
        using assms v sn s(2)
        by (auto simp: DeriveNotification_def BuildFailureMessage_def validated_def buildFailureMessage_core_def
            snapshot_incident_sel Let_def split: sum.splits option.splits)
    next
      assume "ev_kind ev = EventReminder"
      then show ?thesis
        using assms v sn s(2)
        by (auto simp: DeriveNotification_def BuildReminderMessage_def validated_def buildReminderMessage_core_def
            snapshot_incident_sel Let_def split: sum.splits option.splits)
    qed
  next
    case False
    show ?thesis
    proof (cases "ev_kind ev = EventRecovery")
      case True
      then have "sorted_wrt (<) (map snapshot_index (ev_incidents ev))"
        using v valid_event_iff [of ev] by auto
      then have "sorted (map (\<lambda>i. failureCatalogIndex (inc_failureType i))
          (map (snapshot_incident (ev_operation ev)) (ev_incidents ev)))"
        using strict_sorted_imp_sorted by (simp add: snapshot_incident_sel o_def)
      then have srt: "sort_key (\<lambda>i. failureCatalogIndex (inc_failureType i))
          (map (snapshot_incident (ev_operation ev)) (ev_incidents ev))
        = map (snapshot_incident (ev_operation ev)) (ev_incidents ev)"
        by (rule sort_key_id_if_sorted)
      have "BuildRecoveryMessage (map (snapshot_incident (ev_operation ev)) (ev_incidents ev))
          (ev_createdAt ev) (ev_suppressionAfter ev) = Inr n"
        using assms True v by (simp add: DeriveNotification_def)
      then have "buildRecoveryMessage_core (map (snapshot_incident (ev_operation ev)) (ev_incidents ev))
          (ev_createdAt ev) (ev_suppressionAfter ev) True = Inr n"
        by (auto simp: BuildRecoveryMessage_def validated_def split: sum.splits option.splits)
      then show ?thesis
        unfolding buildRecoveryMessage_core_def Let_def srt
        using True
        by (auto split: if_splits sum.splits dest!: recovery_loop_frame
            simp: zero_notification_def snapshot_incident_sel)
    next
      case nr: False
      have t: "ev_kind ev = EventTest" "ev_incidents ev = []"
        using v False nr by (auto simp: ValidateEventFacts_def event_shape_def split: if_splits)
      then show ?thesis
        using assms v
        by (auto simp: DeriveNotification_def validated_def test_notification_def zero_notification_def
            split: option.splits)
    qed
  qed
  then show "nt_kind n = ev_kind ev" "nt_failureTypes n = map sn_failureType (ev_incidents ev)"
    "instant (nt_createdAt n) = instant (ev_createdAt ev)" by simp_all
qed

section \<open>The incident of a failure type\<close>

abbreviation sync_key :: "failureType \<Rightarrow> string" where
  "sync_key ft \<equiv> incidentKey OperationScheduledSyncAll ft"

definition inc_at :: "state \<Rightarrow> failureType \<Rightarrow> incident option" where
  "inc_at s ft = gm_get (incidents_of s) (sync_key ft)"

lemma sync_key_inj: "sync_key a = sync_key b \<longleftrightarrow> a = b"
  by (simp add: incidentKey_def)

lemma good_at:
  assumes "good s" "gm_get (incidents_of s) k = Some i" shows "incident_valid k i"
proof -
  have "(k, i) \<in> set (incidents_of s)" using assms(2) by (rule gm_get_SomeD)
  then show ?thesis using assms(1) by (auto simp: good_def incidents_valid_def list_all_iff)
qed

lemma good_inc_at: "good s \<Longrightarrow> inc_at s ft = Some i \<Longrightarrow> incident_valid (sync_key ft) i"
  by (auto simp: inc_at_def intro: good_at)

lemma inc_at_put: "inc_at (put_incident (sync_key ft) i s) g = (if g = ft then Some i else inc_at s g)"
  by (simp add: inc_at_def sync_key_inj)

lemma inc_at_cong: "incidents_of s = incidents_of t \<Longrightarrow> inc_at s = inc_at t"
  by (simp add: inc_at_def fun_eq_iff)

lemma gm_get_filter:
  assumes "gm_ok m" shows "gm_get (filter P m) k = (case gm_get m k of None \<Rightarrow> None
      | Some v \<Rightarrow> if P (k, v) then Some v else None)"
proof -
  have ok: "gm_ok (filter P m)" using assms by (simp add: gm_ok_def distinct_map_filter)
  have some: "gm_get (filter P m) k = Some v \<longleftrightarrow> gm_get m k = Some v \<and> P (k, v)" for v
    using gm_get_Some_iff [OF ok, of k v] gm_get_Some_iff [OF assms, of k v] by simp
  show ?thesis
  proof (cases "gm_get m k")
    case None
    then have "gm_get (filter P m) k \<noteq> Some v" for v using some by simp
    then have "gm_get (filter P m) k = None" by (metis not_Some_eq)
    then show ?thesis using None by simp
  next
    case (Some v)
    have "gm_get (filter P m) k = None" if "\<not> P (k, v)"
    proof -
      have "gm_get (filter P m) k \<noteq> Some w" for w using some [of w] Some that by auto
      then show ?thesis by (metis not_Some_eq)
    qed
    then show ?thesis using Some some [of v] by simp
  qed
qed

definition expired :: "duration \<Rightarrow> gotime \<Rightarrow> incident \<Rightarrow> bool" where
  "expired r at i = (inc_phase i = IncidentCooling \<and> instant (inc_lastFailureEnqueuedAt i) + r \<le> instant at)"

lemma prune_inc_at:
  assumes "good s"
  shows "inc_at (pruneExpiredCoolingIncidents (cloneState s) at r) ft
    = (case inc_at s ft of None \<Rightarrow> None | Some i \<Rightarrow> if expired r at i then None else Some i)"
proof -
  have "gm_ok (incidents_of s)" using assms by (simp add: good_def state_keys_def)
  then show ?thesis
    by (auto simp: inc_at_def prune_incidents gm_get_filter expired_def t_before_def not_less split: option.split)
qed

section \<open>A failure\<close>

lemma new_incident_valid:
  "LookupFailure ft \<noteq> None \<Longrightarrow> instant at \<noteq> 0
    \<Longrightarrow> incident_valid (sync_key ft) (newIncident OperationScheduledSyncAll ft at)"
  by (simp add: incident_valid_def newIncident_def t_isZero_def)

definition is_alert :: "notification \<Rightarrow> bool" where
  "is_alert n = (nt_kind n = EventFailure \<or> nt_kind n = EventReminder)"

lemma enqueueIncident_facts:
  assumes "good s" "validateOptions opts = None" "enqueueIncidentNotification s [] i kind opts = Inr (s', ns)"
  shows "good s'" "incidents_of s' = incidents_of s"
    "\<exists>n. ns = [n] \<and> is_alert n \<and> nt_failureTypes n = [inc_failureType i]
       \<and> instant (nt_createdAt n) = instant (inc_lastSeenAt i)"
proof -
  obtain n where k: "kind = EventFailure \<or> kind = EventReminder"
    and d: "DeriveNotification (eventFactsFromIncidents kind [i] (op_repeatAfter opts) (inc_lastSeenAt i)) = Inr n"
    and r: "ns = [] @ [n]" "good s'" "incidents_of s' = incidents_of s"
    by (rule enqueueIncident_good [OF assms])
  from r show "good s'" "incidents_of s' = incidents_of s" by simp_all
  show "\<exists>n. ns = [n] \<and> is_alert n \<and> nt_failureTypes n = [inc_failureType i]
       \<and> instant (nt_createdAt n) = instant (inc_lastSeenAt i)"
    using derive_facts [OF d] k r(1) by (auto simp: is_alert_def eventFactsFromIncidents_def Let_def)
qed

text \<open>Either the failure is counted silently, or it is announced, with a window that starts at
  the announcement and, if the incident was already there, at least \<open>repeatAfter\<close> later.\<close>

definition silent :: "state \<Rightarrow> state \<Rightarrow> failureType \<Rightarrow> bool" where
  "silent s s' ft = (\<exists>i i'. inc_at s ft = Some i \<and> inc_at s' ft = Some i'
     \<and> inc_lastFailureEnqueuedAt i' = inc_lastFailureEnqueuedAt i
     \<and> inc_needsRecovery i' = inc_needsRecovery i \<and> inc_occurrences i' = inc_occurrences i + 1)"

definition announced :: "duration \<Rightarrow> gotime \<Rightarrow> state \<Rightarrow> state \<Rightarrow> failureType \<Rightarrow> notification list \<Rightarrow> bool" where
  "announced r at s s' ft ns = (\<exists>n i'. ns = [n] \<and> is_alert n \<and> nt_failureTypes n = [ft]
     \<and> inc_at s' ft = Some i' \<and> inc_needsRecovery i'
     \<and> inc_occurrences i' \<le> 1 + (case inc_at s ft of None \<Rightarrow> 0 | Some i \<Rightarrow> inc_occurrences i)
     \<and> instant (nt_createdAt n) = instant (inc_lastFailureEnqueuedAt i')
     \<and> instant at \<le> instant (inc_lastFailureEnqueuedAt i')
     \<and> (\<forall>i. inc_at s ft = Some i \<longrightarrow>
          instant (inc_lastFailureEnqueuedAt i) + r \<le> instant (inc_lastFailureEnqueuedAt i')))"

lemma failure_step:
  assumes g: "good s" and opts: "validateOptions opts = None"
    and op: "oc_operation o' = OperationScheduledSyncAll" and known: "LookupFailure (oc_failureType o') \<noteq> None"
    and pos: "0 < instant (oc_finishedAt o')"
    and occ: "\<And>i. inc_at s (oc_failureType o') = Some i \<Longrightarrow> inc_occurrences i < int64_max"
    and run: "observeFailure s [] o' opts = Inr (s', ns)"
  shows "good s'" "\<And>h. h \<noteq> oc_failureType o' \<Longrightarrow> inc_at s' h = inc_at s h"
    "ns = [] \<and> silent s s' (oc_failureType o')
     \<or> announced (op_repeatAfter opts) (oc_finishedAt o') s s' (oc_failureType o') ns"
proof -
  let ?ft = "oc_failureType o'" and ?r = "op_repeatAfter opts"
  have fresh: "good s'" "\<And>h. h \<noteq> ?ft \<Longrightarrow> inc_at s' h = inc_at s h"
    "announced ?r (oc_finishedAt o') s s' ?ft ns"
    if e: "enqueueIncidentNotification (put_incident (sync_key ?ft) i s) [] i kind opts = Inr (s', ns)"
      and v: "incident_valid (sync_key ?ft) i" and n: "inc_needsRecovery i"
      and l: "inc_lastFailureEnqueuedAt i = inc_lastSeenAt i" "instant (oc_finishedAt o') \<le> instant (inc_lastSeenAt i)"
      and c: "inc_occurrences i \<le> 1 + (case inc_at s ?ft of None \<Rightarrow> 0 | Some i \<Rightarrow> inc_occurrences i)"
      and w: "\<forall>j. inc_at s ?ft = Some j \<longrightarrow> instant (inc_lastFailureEnqueuedAt j) + ?r \<le> instant (inc_lastSeenAt i)"
    for i kind
  proof -
    note f = enqueueIncident_facts [OF good_put [OF g v] opts e]
    have at: "inc_at s' h = (if h = ?ft then Some i else inc_at s h)" for h
      using inc_at_cong [OF f(2)] inc_at_put by simp
    have ty: "inc_failureType i = ?ft" using v by (simp add: incident_valid_def sync_key_inj)
    show "good s'" by (rule f(1))
    show "inc_at s' h = inc_at s h" if "h \<noteq> ?ft" for h using at that by simp
    show "announced ?r (oc_finishedAt o') s s' ?ft ns"
      using f(3) at n l w c ty by (auto simp: announced_def)
  qed
  show "good s'" "\<And>h. h \<noteq> ?ft \<Longrightarrow> inc_at s' h = inc_at s h"
    "ns = [] \<and> silent s s' ?ft \<or> announced ?r (oc_finishedAt o') s s' ?ft ns"
  proof (atomize (full), cases "inc_at s ?ft")
    case None
    then have get: "gm_get (incidents_of s) (sync_key ?ft) = None" by (simp add: inc_at_def)
    let ?i = "newIncident OperationScheduledSyncAll ?ft (t_utc (oc_finishedAt o'))"
    have e: "enqueueIncidentNotification (put_incident (sync_key ?ft) ?i s) [] ?i EventFailure opts = Inr (s', ns)"
      using run get op by (simp add: observeFailure_def Let_def)
    have v: "incident_valid (sync_key ?ft) ?i"
      using known pos by (intro new_incident_valid) simp_all
    note fresh [OF e v]
    then show "good s' \<and> (\<forall>h. h \<noteq> ?ft \<longrightarrow> inc_at s' h = inc_at s h)
        \<and> (ns = [] \<and> silent s s' ?ft \<or> announced ?r (oc_finishedAt o') s s' ?ft ns)"
      using None by (simp add: newIncident_def)
  next
    case (Some i)
    then have get: "gm_get (incidents_of s) (sync_key ?ft) = Some i" by (simp add: inc_at_def)
    have iv: "incident_valid (sync_key ?ft) i" by (rule good_inc_at [OF g Some])
    define at where "at = (if t_before (t_utc (oc_finishedAt o')) (inc_lastSeenAt i)
        then inc_lastSeenAt i else t_utc (oc_finishedAt o'))"
    have at: "instant (oc_finishedAt o') \<le> instant at" "instant (inc_lastSeenAt i) \<le> instant at"
      by (auto simp: at_def t_before_def)
    let ?due = "instant (inc_lastFailureEnqueuedAt i) + ?r \<le> instant at"
    have due: "(\<not> t_before at (t_add (inc_lastFailureEnqueuedAt i) ?r)) = ?due"
      by (auto simp: t_before_def)
    let ?new = "newIncident OperationScheduledSyncAll ?ft at"
    let ?seen = "i\<lparr>inc_phase := IncidentOpen, inc_lastSeenAt := at, inc_occurrences := int64_add (inc_occurrences i) 1\<rparr>"
    let ?rem = "?seen\<lparr>inc_lastFailureEnqueuedAt := at, inc_needsRecovery := True\<rparr>"
    have run': "(if inc_phase i = IncidentCooling \<and> ?due then
          enqueueIncidentNotification (put_incident (sync_key ?ft) ?new s) [] ?new EventFailure opts
        else if ?due then
          enqueueIncidentNotification (put_incident (sync_key ?ft) ?rem s) [] ?rem EventReminder opts
        else Inr (put_incident (sync_key ?ft) ?seen s, [])) = Inr (s', ns)"
      using run unfolding observeFailure_def Let_def op get option.case at_def [symmetric] due .
    have one: "int64_add (inc_occurrences i) 1 = inc_occurrences i + 1"
      using occ [OF Some] iv
      by (intro int64_add_exact) (simp add: is_int64_def int64_min_def incident_valid_def)
    have seen_valid: "incident_valid (sync_key ?ft) ?seen"
      using iv at one by (auto simp: incident_valid_def)
    consider (new) "inc_phase i = IncidentCooling" "?due" | (rem) "inc_phase i \<noteq> IncidentCooling" "?due"
      | (quiet) "\<not> ?due" by blast
    then show "good s' \<and> (\<forall>h. h \<noteq> ?ft \<longrightarrow> inc_at s' h = inc_at s h)
        \<and> (ns = [] \<and> silent s s' ?ft \<or> announced ?r (oc_finishedAt o') s s' ?ft ns)"
    proof cases
      case new
      then have e: "enqueueIncidentNotification (put_incident (sync_key ?ft) ?new s) [] ?new EventFailure opts = Inr (s', ns)"
        using run' by simp
      have v: "incident_valid (sync_key ?ft) ?new"
        using known pos at by (intro new_incident_valid) simp_all
      have "1 \<le> inc_occurrences i" using iv by (simp add: incident_valid_def)
      then show ?thesis using fresh [OF e v] Some new at by (simp add: newIncident_def)
    next
      case rem
      then have e: "enqueueIncidentNotification (put_incident (sync_key ?ft) ?rem s) [] ?rem EventReminder opts = Inr (s', ns)"
        using run' by simp
      have v: "incident_valid (sync_key ?ft) ?rem"
        using seen_valid by (auto simp: incident_valid_def)
      show ?thesis using fresh [OF e v] Some rem at one by simp
    next
      case quiet
      then have s': "s' = put_incident (sync_key ?ft) ?seen s" "ns = []" using run' by simp_all
      then show ?thesis
        using good_put [OF g seen_valid] Some one by (auto simp: inc_at_put silent_def)
    qed
  qed
qed

section \<open>A success\<close>

definition settle :: "gotime \<Rightarrow> incident \<Rightarrow> incident" where
  "settle at i = (if inc_needsRecovery i
     then i\<lparr>inc_phase := IncidentCooling, inc_needsRecovery := False, inc_recoveryNotifiedAt := at\<rparr>
     else i\<lparr>inc_phase := IncidentCooling\<rparr>)"

lemma settle_valid: "incident_valid k i \<Longrightarrow> instant at \<noteq> 0 \<Longrightarrow> incident_valid k (settle at i)"
  by (auto simp: settle_def incident_valid_def t_isZero_def)

lemma settle_sel [simp]:
  "inc_lastFailureEnqueuedAt (settle at i) = inc_lastFailureEnqueuedAt i" "\<not> inc_needsRecovery (settle at i)"
  "inc_failureType (settle at i) = inc_failureType i" "inc_lastSeenAt (settle at i) = inc_lastSeenAt i"
  "inc_firstSeenAt (settle at i) = inc_firstSeenAt i" "inc_occurrences (settle at i) = inc_occurrences i"
  "inc_id (settle at i) = inc_id i" "inc_operation (settle at i) = inc_operation i"
  by (simp_all add: settle_def)

lemma resolve_loop_step:
  "gm_get (incidents_of s) k = Some i \<Longrightarrow> resolve_loop (k # ks) at s res =
     resolve_loop ks at (put_incident k (settle at i) s)
       (if inc_needsRecovery i then res @ [settle at i] else res)"
  by (simp add: settle_def Let_def)

lemma resolve_loop_closed:
  assumes "good s" "distinct ks" "\<forall>k \<in> set ks. gm_get (incidents_of s) k \<noteq> None" "instant at \<noteq> 0"
    and "resolve_loop ks at s res = (s', res')"
  shows "good s' \<and> outbox_of s' = outbox_of s
    \<and> (\<forall>k. gm_get (incidents_of s') k = (if k \<in> set ks then map_option (settle at) (gm_get (incidents_of s) k)
          else gm_get (incidents_of s) k))
    \<and> res' = res @ map (settle at) (filter inc_needsRecovery (map (\<lambda>k. the (gm_get (incidents_of s) k)) ks))"
  using assms
proof (induction ks arbitrary: s res)
  case (Cons k ks)
  obtain i where i: "gm_get (incidents_of s) k = Some i" using Cons.prems(3) by auto
  let ?s = "put_incident k (settle at i) s"
  have g: "good ?s"
    using Cons.prems(1,4) good_at [OF Cons.prems(1) i] by (intro good_put settle_valid)
  have get: "gm_get (incidents_of ?s) j = (if j = k then Some (settle at i) else gm_get (incidents_of s) j)" for j
    by simp
  have old: "gm_get (incidents_of ?s) j = gm_get (incidents_of s) j" if "j \<in> set ks" for j
    using Cons.prems(2) that by auto
  have run: "resolve_loop ks at ?s (if inc_needsRecovery i then res @ [settle at i] else res) = (s', res')"
    using Cons.prems(5) resolve_loop_step [OF i] by simp
  have "\<forall>j \<in> set ks. gm_get (incidents_of ?s) j \<noteq> None" using Cons.prems(3) by simp
  note ih = Cons.IH [OF g _ this Cons.prems(4) run]
  have rest: "map (\<lambda>k. the (gm_get (incidents_of ?s) k)) ks = map (\<lambda>k. the (gm_get (incidents_of s) k)) ks"
    using old by (intro map_cong) simp_all
  have d: "distinct ks" "k \<notin> set ks" using Cons.prems(2) by simp_all
  show ?case
  proof (intro conjI allI)
    show "good s'" "outbox_of s' = outbox_of s" using ih d by simp_all
    show "gm_get (incidents_of s') j = (if j \<in> set (k # ks) then map_option (settle at) (gm_get (incidents_of s) j)
          else gm_get (incidents_of s) j)" for j
      using ih d i old [of j] by (cases "j \<in> set ks") (simp_all add: get)
    show "res' = res @ map (settle at) (filter inc_needsRecovery (map (\<lambda>k. the (gm_get (incidents_of s) k)) (k # ks)))"
      using ih [OF d(1)] i unfolding rest by simp
  qed
qed simp

definition recovered_types :: "state \<Rightarrow> failureType set" where
  "recovered_types s = {ft. \<exists>i. inc_at s ft = Some i \<and> inc_phase i = IncidentOpen \<and> inc_needsRecovery i}"

definition is_recovery :: "notification \<Rightarrow> bool" where
  "is_recovery n = (nt_kind n = EventRecovery)"

lemma recovery_time_pos: "0 < instant at \<Longrightarrow> 0 < instant (recovery_time s op at)"
proof -
  have "0 < instant at \<Longrightarrow> 0 < instant (fold (\<lambda>(k, i) at. if t_after (inc_lastSeenAt i) at then inc_lastSeenAt i else at) m at)"
    for m :: "(string \<times> incident) list"
    by (induction m arbitrary: at) (auto simp: t_after_def)
  then show "0 < instant at \<Longrightarrow> ?thesis" by (simp add: recovery_time_def)
qed

lemma open_keys_get:
  assumes "good s" shows "k \<in> set (open_keys s OperationScheduledSyncAll) \<longleftrightarrow>
    (\<exists>i. gm_get (incidents_of s) k = Some i \<and> inc_phase i = IncidentOpen)"
proof -
  have ok: "gm_ok (incidents_of s)" using assms by (simp add: good_def state_keys_def)
  have op: "inc_operation i = OperationScheduledSyncAll" if "(k, i) \<in> set (incidents_of s)" for i
    using that assms by (auto simp: good_def incidents_valid_def list_all_iff incident_valid_def)
  show ?thesis
    using op by (auto simp: open_keys_def gm_get_Some_iff [OF ok] image_iff)
qed

lemma distinct_open_keys: "good s \<Longrightarrow> distinct (open_keys s op)"
  by (auto simp: good_def state_keys_def gm_ok_def open_keys_def distinct_map_filter)

lemma success_step:
  assumes g: "good s" and opts: "validateOptions opts = None"
    and op: "oc_operation o' = OperationScheduledSyncAll"
    and pos: "0 < instant (oc_finishedAt o')"
    and run: "observeSuccess s [] o' opts = Inr (s', ns)"
  shows "good s'"
    "\<And>ft. inc_at s' ft = map_option (\<lambda>i. if inc_phase i = IncidentOpen
        then settle (recovery_time s OperationScheduledSyncAll (t_utc (oc_finishedAt o'))) i else i) (inc_at s ft)"
    "ns = [] \<and> recovered_types s = {}
      \<or> (\<exists>n. ns = [n] \<and> is_recovery n \<and> set (nt_failureTypes n) = recovered_types s)"
proof -
  let ?at = "recovery_time s OperationScheduledSyncAll (t_utc (oc_finishedAt o'))"
  let ?keys = "sort (open_keys s OperationScheduledSyncAll)"
  obtain t res where loop: "resolve_loop ?keys ?at s [] = (t, res)" by fastforce
  have at: "instant ?at \<noteq> 0"
    using recovery_time_pos [of "t_utc (oc_finishedAt o')" s OperationScheduledSyncAll] pos by simp
  have keys: "distinct ?keys" "\<forall>k \<in> set ?keys. gm_get (incidents_of s) k \<noteq> None"
    using distinct_open_keys [OF g] open_keys_get [OF g] by auto
  note c = resolve_loop_closed [OF g keys at loop]
  have inc: "inc_at t ft = map_option (\<lambda>i. if inc_phase i = IncidentOpen then settle ?at i else i) (inc_at s ft)" for ft
    using c open_keys_get [OF g, of "sync_key ft"]
    by (cases "gm_get (incidents_of s) (sync_key ft)") (auto simp: inc_at_def)
  have res: "res = map (settle ?at) (filter inc_needsRecovery (map (\<lambda>k. the (gm_get (incidents_of s) k)) ?keys))"
    using c by simp
  have types: "set (map inc_failureType res) = recovered_types s"
  proof
    show "set (map inc_failureType res) \<subseteq> recovered_types s"
    proof
      fix ft assume "ft \<in> set (map inc_failureType res)"
      then obtain k i where k: "gm_get (incidents_of s) k = Some i" "inc_phase i = IncidentOpen"
        "inc_needsRecovery i" "ft = inc_failureType i"
        using open_keys_get [OF g] by (auto simp: res) 
      moreover have "k = sync_key ft" using good_at [OF g k(1)] k(4) by (simp add: incident_valid_def)
      ultimately show "ft \<in> recovered_types s" by (auto simp: recovered_types_def inc_at_def)
    qed
    show "recovered_types s \<subseteq> set (map inc_failureType res)"
    proof
      fix ft assume "ft \<in> recovered_types s"
      then obtain i where i: "gm_get (incidents_of s) (sync_key ft) = Some i" "inc_phase i = IncidentOpen" "inc_needsRecovery i"
        by (auto simp: recovered_types_def inc_at_def)
      have "sync_key ft \<in> set ?keys" using open_keys_get [OF g] i by auto
      moreover have "inc_failureType i = ft"
        using good_at [OF g i(1)] by (simp add: incident_valid_def sync_key_inj)
      ultimately show "ft \<in> set (map inc_failureType res)" using i by (force simp: res)
    qed
  qed
  have run': "(if res = [] then Inr (t, [])
      else enqueueEvent t [] (eventFactsFromIncidents EventRecovery res (op_repeatAfter opts) ?at) (op_providers opts))
      = Inr (s', ns)"
    using run unfolding observeSuccess_def Let_def op loop prod.case .
  have "good s' \<and> incidents_of s' = incidents_of t
      \<and> (ns = [] \<and> recovered_types s = {}
         \<or> (\<exists>n. ns = [n] \<and> is_recovery n \<and> set (nt_failureTypes n) = recovered_types s))"
  proof (cases "res = []")
    case True
    then show ?thesis using run' c types by auto
  next
    case False
    then have e: "enqueueEvent t [] (eventFactsFromIncidents EventRecovery res (op_repeatAfter opts) ?at) (op_providers opts)
        = Inr (s', ns)" using run' by simp
    have gt: "good t" using c by simp
    obtain n where d: "DeriveNotification (eventFactsFromIncidents EventRecovery res (op_repeatAfter opts) ?at) = Inr n"
      and r: "ns = [] @ [n]" "good s'" "incidents_of s' = incidents_of t"
      by (rule enqueueEvent_good [OF gt opts e])
    have "set (nt_failureTypes n) = recovered_types s"
      using derive_facts(3) [OF d] types by (auto simp: eventFactsFromIncidents_def Let_def o_def)
    then show ?thesis
      using derive_facts(2) [OF d] r by (auto simp: is_recovery_def eventFactsFromIncidents_def Let_def)
  qed
  then show "good s'" "\<And>ft. inc_at s' ft = map_option (\<lambda>i. if inc_phase i = IncidentOpen then settle ?at i else i) (inc_at s ft)"
    "ns = [] \<and> recovered_types s = {}
      \<or> (\<exists>n. ns = [n] \<and> is_recovery n \<and> set (nt_failureTypes n) = recovered_types s)"
    using inc inc_at_cong [of s' t] by auto
qed

end
