(* ===== verification/NotifyProps.thy ===== *)
theory NotifyProps
  imports NotifyObserve
begin

text \<open>The properties of the notification state machine.\<close>

section \<open>One observation\<close>

definition outcome_ok :: "outcome \<Rightarrow> bool" where
  "outcome_ok o' = (ValidateOutcome o' = None \<and> oc_status o' \<noteq> OutcomeCancelled \<and> 0 < instant (oc_finishedAt o'))"

lemma outcome_okD:
  assumes "outcome_ok o'"
  shows "oc_operation o' = OperationScheduledSyncAll" "0 < instant (oc_finishedAt o')"
    "oc_status o' = OutcomeFailure \<and> LookupFailure (oc_failureType o') \<noteq> None \<or> oc_status o' = OutcomeSuccess"
  using assms by (auto simp: outcome_ok_def ValidateOutcome_def split: if_splits option.splits)

abbreviation pruned :: "state \<Rightarrow> outcome \<Rightarrow> options \<Rightarrow> state" where
  "pruned s o' opts \<equiv> pruneExpiredCoolingIncidents (cloneState s) (t_utc (oc_finishedAt o')) (op_repeatAfter opts)"

definition countable_more :: "state \<Rightarrow> bool" where
  "countable_more s = list_all (\<lambda>(k, i). inc_occurrences i < int64_max) (incidents_of s)"

lemma transition_cases:
  assumes "outcome_ok o'" "observe_transition s o' opts = Inr (s', ns)"
  obtains (failure) "oc_status o' = OutcomeFailure" "observeFailure (pruned s o' opts) [] o' opts = Inr (s', ns)"
    | (success) "oc_status o' = OutcomeSuccess" "observeSuccess (pruned s o' opts) [] o' opts = Inr (s', ns)"
  using assms outcome_okD(3) [OF assms(1)] by (auto simp: observe_transition_def Let_def)

lemma pruned_good: "good s \<Longrightarrow> good (pruned s o' opts)"
  by (rule good_prune)

lemma pruned_at:
  assumes "good s" shows "inc_at (pruned s o' opts) ft = (case inc_at s ft of None \<Rightarrow> None
     | Some i \<Rightarrow> if expired (op_repeatAfter opts) (oc_finishedAt o') i then None else Some i)"
  unfolding prune_inc_at [OF assms] by (simp add: expired_def cong: option.case_cong)

lemma pruned_SomeD:
  "good s \<Longrightarrow> inc_at (pruned s o' opts) ft = Some i \<Longrightarrow> inc_at s ft = Some i"
  by (auto simp: pruned_at split: option.splits if_splits)

lemma countable_at: "countable_more s \<Longrightarrow> inc_at s ft = Some i \<Longrightarrow> inc_occurrences i < int64_max"
  by (auto simp: countable_more_def inc_at_def list_all_iff dest!: gm_get_SomeD)

lemma transition_good:
  assumes "good s" "validateOptions opts = None" "outcome_ok o'" "countable_more s"
    and run: "observe_transition s o' opts = Inr (s', ns)"
  shows "good s'"
  using assms(3) run
proof (cases rule: transition_cases)
  case failure
  have "inc_occurrences i < int64_max" if "inc_at (pruned s o' opts) (oc_failureType o') = Some i" for i
    using pruned_SomeD [OF assms(1) that] countable_at [OF assms(4)] by blast
  with failure show ?thesis
    using failure_step(1) [OF pruned_good [OF assms(1)] assms(2) _ _ _ _ failure(2)] outcome_okD [OF assms(3)]
    by auto
next
  case success
  show ?thesis
    using success_step(1) [OF pruned_good [OF assms(1)] assms(2) _ _ success(2)] outcome_okD [OF assms(3)] by blast
qed

definition encodable :: "(state \<Rightarrow> nat option) \<Rightarrow> state \<Rightarrow> bool" where
  "encodable jsonLen s = (case jsonLen s of None \<Rightarrow> False | Some n \<Rightarrow> n \<le> maxStateBytes)"

lemma ValidateState_iff:
  "ValidateState jsonLen s = None \<longleftrightarrow> validate_contents s = None \<and> encodable jsonLen s"
  by (auto simp: ValidateState_def encodable_def split: option.split)

text \<open>C29. The state machine never drives itself into a state its own validator refuses: from a
  valid state, a valid outcome either fails to be enqueued and changes nothing, or leads to a state
  whose contents are valid again, which \<open>Observe\<close> then returns unless its encoding exceeds
  the byte limit, and in that case the old state is returned with no notification.\<close>

theorem observe_keeps_state_valid:
  assumes "state_keys s" "ValidateState jsonLen s = None" "validateOptions opts = None"
    "outcome_ok o'" "countable_more s"
  shows "(\<exists>e. observe_transition s o' opts = Inl e \<and> Observe jsonLen s o' opts = (s, [], Some e))
    \<or> (\<exists>s' ns. observe_transition s o' opts = Inr (s', ns)
        \<and> state_keys s' \<and> validate_contents s' = None
        \<and> (if encodable jsonLen s' then Observe jsonLen s o' opts = (s', ns, None)
           else \<exists>e. Observe jsonLen s o' opts = (s, [], Some (Invalid e))))"
proof -
  have v: "validate_contents s = None" using assms(2) by (simp add: ValidateState_iff)
  have o1: "ValidateOutcome o' = None" "oc_status o' \<noteq> OutcomeCancelled" "\<not> t_isZero (oc_finishedAt o')"
    using assms(4) by (auto simp: outcome_ok_def t_isZero_def)
  note obs = Observe_def [of jsonLen s o' opts, unfolded o1(1) assms(2,3) option.case]
  show ?thesis
  proof (cases "observe_transition s o' opts")
    case (Inl e)
    then show ?thesis using o1 obs by simp
  next
    case (Inr r)
    obtain s' ns where r: "r = (s', ns)" by (cases r)
    have "good s'"
      using transition_good [OF _ assms(3-5)] Inr r v assms(1) good_iff by simp
    then have ok: "state_keys s'" "validate_contents s' = None" by (simp_all add: good_iff)
    have "if encodable jsonLen s' then Observe jsonLen s o' opts = (s', ns, None)
           else \<exists>e. Observe jsonLen s o' opts = (s, [], Some (Invalid e))"
      using o1 obs Inr r ok ValidateState_iff [of jsonLen s'] by (auto split: option.splits)
    then show ?thesis using Inr r ok by blast
  qed
qed

definition example_options :: options where
  "example_options = \<lparr>op_repeatAfter = 6 * hour, op_providers = [''slack'']\<rparr>"

definition example_time :: "int \<Rightarrow> gotime" where
  "example_time hours = \<lparr>instant = 63902649661 * second + hours * hour, utc_loc = True\<rparr>"

definition example_failure :: "int \<Rightarrow> outcome" where
  "example_failure hours = \<lparr>oc_operation = OperationScheduledSyncAll, oc_status = OutcomeFailure,
     oc_failureType = FailureUnknown, oc_errorCode = ''sync_unknown'',
     oc_startedAt = zero_time, oc_finishedAt = example_time hours\<rparr>"

definition example_success :: "int \<Rightarrow> outcome" where
  "example_success hours = \<lparr>oc_operation = OperationScheduledSyncAll, oc_status = OutcomeSuccess,
     oc_failureType = [], oc_errorCode = [],
     oc_startedAt = zero_time, oc_finishedAt = example_time hours\<rparr>"

lemma unknown_lookup: "\<exists>d. LookupFailure FailureUnknown = Some d \<and> fd_errorCode d = ''sync_unknown''"
proof -
  let ?d = "failure_def FailureUnknown ''sync_unknown'' ''Scheduled sync failed''
    ''Inspect the local dbrain service logs, correct the failure, then rerun the sync.''"
  have "?d \<in> set catalog_definitions" by (simp add: catalog_definitions_def)
  then have "LookupFailure FailureUnknown = Some ?d" by (simp add: lookup_failure_iff failure_def_def)
  then show ?thesis by (simp add: failure_def_def)
qed

lemma example_options_valid: "validateOptions example_options = None"
  by (simp add: validateOptions_def example_options_def hour_def maxProviders_def validProviderName_def
      maxProviderBytes_def isLowerByte_def isDigitByte_def)

lemma example_outcomes_ok: "0 \<le> h \<Longrightarrow> outcome_ok (example_failure h)" "0 \<le> h \<Longrightarrow> outcome_ok (example_success h)"
  using unknown_lookup
  by (auto simp: outcome_ok_def ValidateOutcome_def example_failure_def example_success_def example_time_def
      second_def hour_def)

lemma observe_keeps_state_valid_witness:
  "state_keys EmptyState \<and> ValidateState (\<lambda>_. Some 0) EmptyState = None
   \<and> validateOptions example_options = None \<and> outcome_ok (example_failure 0) \<and> countable_more EmptyState
   \<and> ((\<exists>e. observe_transition EmptyState (example_failure 0) example_options = Inl e
        \<and> Observe (\<lambda>_. Some 0) EmptyState (example_failure 0) example_options = (EmptyState, [], Some e))
    \<or> (\<exists>s' ns. observe_transition EmptyState (example_failure 0) example_options = Inr (s', ns)
        \<and> state_keys s' \<and> validate_contents s' = None
        \<and> (if encodable (\<lambda>_. Some 0) s'
           then Observe (\<lambda>_. Some 0) EmptyState (example_failure 0) example_options = (s', ns, None)
           else \<exists>e. Observe (\<lambda>_. Some 0) EmptyState (example_failure 0) example_options
                      = (EmptyState, [], Some (Invalid e)))))"
proof -
  have a: "state_keys EmptyState" "ValidateState (\<lambda>_. Some 0) EmptyState = None"
    using good_empty by (simp_all add: good_iff ValidateState_iff encodable_def)
  have c: "countable_more EmptyState" by (simp add: countable_more_def EmptyState_def incidents_of_def gm_of_def)
  show ?thesis
    using observe_keeps_state_valid [OF a example_options_valid example_outcomes_ok(1) c, of 0]
      a c example_options_valid example_outcomes_ok(1) [of 0] by simp
qed

section \<open>Runs\<close>

fun observe_run :: "(state \<Rightarrow> nat option) \<Rightarrow> options \<Rightarrow> state \<Rightarrow> outcome list \<Rightarrow> state \<times> notification list" where
  "observe_run jsonLen opts s [] = (s, [])"
| "observe_run jsonLen opts s (o' # os) =
     (case Observe jsonLen s o' opts of (s', ns, _) \<Rightarrow>
        (case observe_run jsonLen opts s' os of (t, ms) \<Rightarrow> (t, ns @ ms)))"

definition count_le :: "nat \<Rightarrow> state \<Rightarrow> bool" where
  "count_le n s = (\<forall>ft i. inc_at s ft = Some i \<longrightarrow> inc_occurrences i \<le> int n)"

definition plausible :: "outcome \<Rightarrow> bool" where
  "plausible o' = (0 < instant (oc_finishedAt o'))"

lemma observe_cases:
  assumes g: "good s" and n: "count_le n s" "int n < int64_max" and p: "plausible o'"
    and run: "Observe jsonLen s o' opts = (s', ns, err)"
  obtains (same) "s' = s" "ns = []"
    | (failure) "good s'" "count_le (Suc n) s'" "\<And>h. h \<noteq> oc_failureType o' \<Longrightarrow> inc_at s' h = inc_at (pruned s o' opts) h"
        "ns = [] \<and> silent (pruned s o' opts) s' (oc_failureType o')
         \<or> announced (op_repeatAfter opts) (oc_finishedAt o') (pruned s o' opts) s' (oc_failureType o') ns"
        "0 < op_repeatAfter opts"
    | (success) "good s'" "count_le (Suc n) s'"
        "\<And>ft. inc_at s' ft = map_option (\<lambda>i. if inc_phase i = IncidentOpen
            then settle (recovery_time (pruned s o' opts) OperationScheduledSyncAll (t_utc (oc_finishedAt o'))) i else i)
            (inc_at (pruned s o' opts) ft)"
        "ns = [] \<and> recovered_types (pruned s o' opts) = {}
         \<or> (\<exists>n. ns = [n] \<and> is_recovery n \<and> set (nt_failureTypes n) = recovered_types (pruned s o' opts))"
        "0 < op_repeatAfter opts"
proof (cases "s' = s \<and> ns = []")
  case True
  then show ?thesis by (intro same) simp_all
next
  case False
  have ok: "outcome_ok o'" and opts: "validateOptions opts = None"
    and tr: "observe_transition s o' opts = Inr (s', ns)"
    using run False p
    by (auto simp: Observe_def outcome_ok_def plausible_def split: option.splits if_splits sum.splits prod.splits)
  have gp: "good (pruned s o' opts)" by (rule pruned_good [OF g])
  have cp: "inc_occurrences i \<le> int n" if "inc_at (pruned s o' opts) ft = Some i" for ft i
    using pruned_SomeD [OF g that] n(1) by (auto simp: count_le_def)
  have r: "0 < op_repeatAfter opts" by (rule options_validD(1) [OF opts])
  from ok tr show ?thesis
  proof (cases rule: transition_cases)
    case f: failure
    have known: "LookupFailure (oc_failureType o') \<noteq> None" using outcome_okD(3) [OF ok] f(1) by auto
    have bound: "inc_occurrences i < int64_max" if "inc_at (pruned s o' opts) (oc_failureType o') = Some i" for i
      using cp [OF that] n(2) by linarith
    note st = failure_step [OF gp opts outcome_okD(1) [OF ok] known outcome_okD(2) [OF ok] bound f(2)]
    have "count_le (Suc n) s'"
      unfolding count_le_def
    proof (intro allI impI)
      fix ft i assume i: "inc_at s' ft = Some i"
      show "inc_occurrences i \<le> int (Suc n)"
      proof (cases "ft = oc_failureType o'")
        case True
        with i st(3) cp [of ft] show ?thesis
          by (auto simp: silent_def announced_def split: option.splits)
      next
        case False
        with i st(2) cp [of ft] show ?thesis by force
      qed
    qed
    then show ?thesis using failure [OF st(1) _ st(2) st(3) r] by blast
  next
    case f: success
    note st = success_step [OF gp opts outcome_okD(1) [OF ok] outcome_okD(2) [OF ok] f(2)]
    have "count_le (Suc n) s'"
      unfolding count_le_def st(2) using cp by (force split: if_splits)
    then show ?thesis using success [OF st(1) _ st(2) st(3) r] by blast
  qed
qed

section \<open>Suppression\<close>

definition alerts_of :: "failureType \<Rightarrow> notification list \<Rightarrow> int list" where
  "alerts_of ft ns = map (\<lambda>n. instant (nt_createdAt n)) (filter (\<lambda>n. is_alert n \<and> ft \<in> set (nt_failureTypes n)) ns)"

lemma alerts_of_append: "alerts_of ft (ns @ ms) = alerts_of ft ns @ alerts_of ft ms"
  by (simp add: alerts_of_def)

lemma recovery_no_alert: "is_recovery n \<Longrightarrow> \<not> is_alert n"
  by (simp add: is_recovery_def is_alert_def)

text \<open>What is known of a type announced at \<open>t\<close>: its incident carries the window, or the window is over.\<close>

definition window_known :: "duration \<Rightarrow> int \<Rightarrow> int \<Rightarrow> state \<Rightarrow> failureType \<Rightarrow> bool" where
  "window_known r c t s ft =
     ((\<exists>i. inc_at s ft = Some i \<and> t \<le> instant (inc_lastFailureEnqueuedAt i)) \<or> t + r \<le> c)"

lemma window_pruned:
  assumes "good s" "window_known (op_repeatAfter opts) c t s ft" "c \<le> instant (oc_finishedAt o')"
  shows "window_known (op_repeatAfter opts) (instant (oc_finishedAt o')) t (pruned s o' opts) ft"
  using assms by (auto simp: window_known_def pruned_at expired_def)

lemma suppression_run:
  assumes "good s" "count_le n s" "int (n + length os) < int64_max"
    "list_all plausible os" "sorted (c # map (\<lambda>o'. instant (oc_finishedAt o')) os)"
    "\<forall>t \<in> T. window_known (op_repeatAfter opts) c t s ft"
  shows "sorted_wrt (\<lambda>a b. a + op_repeatAfter opts \<le> b) (alerts_of ft (snd (observe_run jsonLen opts s os)))
    \<and> (\<forall>t \<in> T. \<forall>a \<in> set (alerts_of ft (snd (observe_run jsonLen opts s os))). t + op_repeatAfter opts \<le> a)"
  using assms
proof (induction os arbitrary: s n c T)
  case (Cons o' os)
  let ?r = "op_repeatAfter opts" and ?c = "instant (oc_finishedAt o')"
  obtain s' ns err where obs: "Observe jsonLen s o' opts = (s', ns, err)" by (cases "Observe jsonLen s o' opts") auto
  have run: "alerts_of ft (snd (observe_run jsonLen opts s (o' # os)))
      = alerts_of ft ns @ alerts_of ft (snd (observe_run jsonLen opts s' os))"
    by (simp add: obs alerts_of_append split: prod.split)
  have p: "plausible o'" "list_all plausible os" using Cons.prems(4) by simp_all
  have len: "int n < int64_max" "int (Suc n + length os) < int64_max" using Cons.prems(3) by simp_all
  have c: "c \<le> ?c" "sorted (?c # map (\<lambda>o'. instant (oc_finishedAt o')) os)" using Cons.prems(5) by simp_all
  have w: "window_known ?r ?c t (pruned s o' opts) ft" if "t \<in> T" for t
    using window_pruned [OF Cons.prems(1) _ c(1)] Cons.prems(6) that by blast
  note IH = Cons.IH [OF _ _ len(2) p(2) c(2)]
  from obs show ?case
  proof (cases rule: observe_cases [OF Cons.prems(1,2) len(1) p(1), consumes 1, case_names same failure success])
    case same
    have "count_le (Suc n) s" using Cons.prems(2) by (force simp: count_le_def)
    moreover have "\<forall>t \<in> T. window_known ?r ?c t s ft"
      using Cons.prems(6) c(1) by (force simp: window_known_def)
    ultimately show ?thesis using IH [of s T] Cons.prems(1) same run by (simp add: alerts_of_def)
  next
    case failure
    show ?thesis
    proof (cases "ft = oc_failureType o'")
      case False
      have "alerts_of ft ns = []" using failure(4) False by (auto simp: alerts_of_def announced_def)
      moreover have "\<forall>t \<in> T. window_known ?r ?c t s' ft"
        using w failure(3) [OF False] by (simp add: window_known_def)
      ultimately show ?thesis using IH [OF failure(1,2)] run by simp
    next
      case True
      from failure(4) show ?thesis
      proof
        assume q: "ns = [] \<and> silent (pruned s o' opts) s' (oc_failureType o')"
        then have "\<forall>t \<in> T. window_known ?r ?c t s' ft"
          using w True by (fastforce simp: window_known_def silent_def)
        then show ?thesis using IH [OF failure(1,2)] run q by (simp add: alerts_of_def)
      next
        assume "announced ?r (oc_finishedAt o') (pruned s o' opts) s' (oc_failureType o') ns"
        then obtain n i' where a: "ns = [n]" "is_alert n" "nt_failureTypes n = [ft]" "inc_at s' ft = Some i'"
          "instant (nt_createdAt n) = instant (inc_lastFailureEnqueuedAt i')"
          "?c \<le> instant (inc_lastFailureEnqueuedAt i')"
          "\<forall>i. inc_at (pruned s o' opts) ft = Some i \<longrightarrow>
             instant (inc_lastFailureEnqueuedAt i) + ?r \<le> instant (inc_lastFailureEnqueuedAt i')"
          using True by (auto simp: announced_def)
        let ?t = "instant (nt_createdAt n)"
        have after: "t + ?r \<le> ?t" if "t \<in> T" for t
          using w [OF that] a(5-7) by (force simp: window_known_def)
        have al: "alerts_of ft ns = [?t]" using a by (simp add: alerts_of_def)
        have "\<forall>t \<in> insert ?t T. window_known ?r ?c t s' ft"
          using after a(4,5) failure(5) by (force simp: window_known_def)
        then have ih: "sorted_wrt (\<lambda>a b. a + ?r \<le> b) (alerts_of ft (snd (observe_run jsonLen opts s' os)))"
          "\<forall>t \<in> insert ?t T. \<forall>a \<in> set (alerts_of ft (snd (observe_run jsonLen opts s' os))). t + ?r \<le> a"
          using IH [OF failure(1,2)] by blast+
        then show ?thesis unfolding run al using after by auto
      qed
    qed
  next
    case success
    have "alerts_of ft ns = []"
      using success(4) recovery_no_alert by (auto simp: alerts_of_def)
    moreover have "\<forall>t \<in> T. window_known ?r ?c t s' ft"
    proof
      fix t assume "t \<in> T"
      from w [OF this] consider i where "inc_at (pruned s o' opts) ft = Some i" "t \<le> instant (inc_lastFailureEnqueuedAt i)"
        | "t + ?r \<le> ?c"
        unfolding window_known_def by blast
      then show "window_known ?r ?c t s' ft"
        by cases (use success(3) [of ft] in \<open>auto simp: window_known_def\<close>)
    qed
    ultimately show ?thesis using IH [OF success(1,2)] run by simp
  qed
qed (simp add: alerts_of_def)

lemma count_le_empty: "count_le 0 EmptyState"
  by (simp add: count_le_def inc_at_def EmptyState_def incidents_of_def gm_of_def)

text \<open>C27. Suppression: over any run of observations whose completion times do not go backwards,
  with whatever state the byte limit rejects in between, two announcements (failure or reminder)
  of the same failure type are at least the repeat interval apart, however the type flaps between
  failing and recovering.\<close>

theorem alerts_respect_suppression:
  assumes "sorted (map (\<lambda>o'. instant (oc_finishedAt o')) os)" "list_all plausible os"
    "int (length os) < int64_max"
  shows "sorted_wrt (\<lambda>a b. a + op_repeatAfter opts \<le> b)
    (alerts_of ft (snd (observe_run jsonLen opts EmptyState os)))"
proof (cases os)
  case (Cons o' os')
  have "sorted (instant (oc_finishedAt o') # map (\<lambda>o'. instant (oc_finishedAt o')) os)"
    using assms(1) Cons by auto
  then show ?thesis
    using suppression_run [OF good_empty count_le_empty, of os "instant (oc_finishedAt o')" "{}" opts] assms(2,3) by simp
qed (simp add: alerts_of_def)

lemma alerts_respect_suppression_witness:
  "sorted_wrt (\<lambda>a b. a + 6 * hour \<le> b)
    (alerts_of FailureUnknown (snd (observe_run (\<lambda>_. Some 0) example_options EmptyState
       [example_failure 0, example_success 1, example_failure 2, example_failure 7])))"
  using alerts_respect_suppression [of "[example_failure 0, example_success 1, example_failure 2, example_failure 7]"
      example_options FailureUnknown "\<lambda>_. Some 0"]
  by (simp add: plausible_def example_failure_def example_success_def example_time_def example_options_def
      second_def hour_def int64_max_def)

section \<open>Recovery\<close>

text \<open>Every recovery of a type is owed: since the last recovery (or the start) it was announced.\<close>

fun recoveries_owed :: "failureType \<Rightarrow> bool \<Rightarrow> notification list \<Rightarrow> bool" where
  "recoveries_owed ft owed [] = True"
| "recoveries_owed ft owed (n # ns) =
     (if ft \<notin> set (nt_failureTypes n) then recoveries_owed ft owed ns
      else if is_recovery n then owed \<and> recoveries_owed ft False ns
      else recoveries_owed ft True ns)"

lemma recovery_run:
  assumes "good s" "count_le n s" "int (n + length os) < int64_max" "list_all plausible os"
    "\<forall>i. inc_at s ft = Some i \<and> inc_needsRecovery i \<longrightarrow> owed"
  shows "recoveries_owed ft owed (snd (observe_run jsonLen opts s os))"
  using assms
proof (induction os arbitrary: s n owed)
  case (Cons o' os)
  obtain s' ns err where obs: "Observe jsonLen s o' opts = (s', ns, err)" by (cases "Observe jsonLen s o' opts") auto
  obtain t ms where rest: "observe_run jsonLen opts s' os = (t, ms)" by fastforce
  have run: "snd (observe_run jsonLen opts s (o' # os)) = ns @ ms"
    by (simp add: obs rest)
  have p: "plausible o'" "list_all plausible os" using Cons.prems(4) by simp_all
  have len: "int n < int64_max" "int (Suc n + length os) < int64_max" using Cons.prems(3) by simp_all
  have pr: "\<forall>i. inc_at (pruned s o' opts) ft = Some i \<and> inc_needsRecovery i \<longrightarrow> owed"
    using Cons.prems(5) pruned_SomeD [OF Cons.prems(1)] by blast
  note IH = Cons.IH [where s = s', OF _ _ len(2) p(2), unfolded rest snd_conv]
  from obs show ?case
  proof (cases rule: observe_cases [OF Cons.prems(1,2) len(1) p(1), consumes 1, case_names same failure success])
    case same
    have "count_le (Suc n) s" using Cons.prems(2) by (force simp: count_le_def)
    then show ?thesis using IH Cons.prems(1,5) same run by simp
  next
    case failure
    show ?thesis
    proof (cases "ft = oc_failureType o'")
      case False
      have "recoveries_owed ft owed (ns @ ms) = recoveries_owed ft owed ms"
        using failure(4) False by (auto simp: announced_def)
      then show ?thesis using IH [OF failure(1,2)] run pr failure(3) [OF False] by simp
    next
      case True
      from failure(4) show ?thesis
      proof
        assume q: "ns = [] \<and> silent (pruned s o' opts) s' (oc_failureType o')"
        then have "\<forall>i. inc_at s' ft = Some i \<and> inc_needsRecovery i \<longrightarrow> owed"
          using pr True by (auto simp: silent_def)
        then show ?thesis using IH [OF failure(1,2)] run q by simp
      next
        assume "announced (op_repeatAfter opts) (oc_finishedAt o') (pruned s o' opts) s' (oc_failureType o') ns"
        then obtain n where a: "ns = [n]" "is_alert n" "nt_failureTypes n = [ft]"
          using True by (auto simp: announced_def)
        then have "recoveries_owed ft owed (ns @ ms) = recoveries_owed ft True ms"
          using recovery_no_alert by auto
        then show ?thesis using IH [OF failure(1,2), of True] run by simp
      qed
    qed
  next
    case success
    have gp: "good (pruned s o' opts)" by (rule pruned_good [OF Cons.prems(1)])
    have settled: "\<not> inc_needsRecovery i" if at': "inc_at s' ft = Some i" for i
    proof -
      obtain j where j: "inc_at (pruned s o' opts) ft = Some j"
        and i: "i = (if inc_phase j = IncidentOpen
            then settle (recovery_time (pruned s o' opts) OperationScheduledSyncAll (t_utc (oc_finishedAt o'))) j else j)"
        using at' success(3) [of ft] by auto
      show ?thesis
      proof (cases "inc_phase j = IncidentOpen")
        case False
        then have "inc_phase j = IncidentCooling" "\<not> inc_needsRecovery j"
          using good_inc_at [OF gp j] by (auto simp: incident_valid_def)
        then show ?thesis using i by simp
      qed (simp add: i)
    qed
    have "recoveries_owed ft owed (ns @ ms)"
    proof (cases "ft \<in> recovered_types (pruned s o' opts)")
      case True
      then have "owed" using pr by (auto simp: recovered_types_def)
      moreover obtain n where "ns = [n]" "is_recovery n" "ft \<in> set (nt_failureTypes n)"
        using success(4) True by auto
      moreover have "recoveries_owed ft False ms" using IH [OF success(1,2), of False] settled by blast
      ultimately show ?thesis by simp
    next
      case False
      have "recoveries_owed ft owed ms" using IH [OF success(1,2), of owed] settled by blast
      then show ?thesis using success(4) False by auto
    qed
    then show ?thesis using run by simp
  qed
qed simp

text \<open>C28. No recovery without an announcement: in every run, also when the clock goes backwards, a
  recovery message lists a failure type only if that type was announced since its previous
  recovery; a flap that stayed silent within its suppression window recovers silently.\<close>

theorem recovery_only_after_alert:
  assumes "list_all plausible os" "int (length os) < int64_max"
  shows "recoveries_owed ft False (snd (observe_run jsonLen opts EmptyState os))"
  using recovery_run [OF good_empty count_le_empty, of os ft False jsonLen opts] assms
  by (simp add: inc_at_def EmptyState_def incidents_of_def gm_of_def)

lemma recovery_only_after_alert_witness:
  "recoveries_owed FailureUnknown False (snd (observe_run (\<lambda>_. Some 0) example_options EmptyState
       [example_failure 0, example_success 1, example_failure 2, example_success 3]))"
  using recovery_only_after_alert [of "[example_failure 0, example_success 1, example_failure 2, example_success 3]"
      FailureUnknown "\<lambda>_. Some 0" example_options]
  by (simp add: plausible_def example_failure_def example_success_def example_time_def
      second_def hour_def int64_max_def)

end
