(* ===== verification/NotifyTotal.thy ===== *)
theory NotifyTotal
  imports NotifyProps
begin

text \<open>
  When \<open>Observe\<close> can fail: the event a transition enqueues is always valid, so the only
  error of a transition from a valid state is a full outbox.
\<close>

lemma incident_id_utc [simp]:
  "deterministicIncidentID op ft (t_utc t) = deterministicIncidentID op ft t"
  by (simp add: deterministicIncidentID_def)

text \<open>The numbers of a state are in range: years of four digits, counters far from overflow,
  and no two incidents whose truncated digests collide.\<close>

definition incident_in_range :: "incident \<Rightarrow> bool" where
  "incident_in_range i = (formattable (inc_firstSeenAt i) \<and> formattable (inc_lastSeenAt i)
     \<and> inc_occurrences i < 2 ^ 56)"

definition state_in_range :: "state \<Rightarrow> bool" where
  "state_in_range s = (list_all (\<lambda>(k, i). incident_in_range i) (incidents_of s)
     \<and> distinct (map (\<lambda>(k, i). inc_id i) (incidents_of s)))"

lemma enqueueEvent_succeeds:
  assumes "length (outbox_of s) < maxStateEnvelopes" "ValidateEventFacts ev = None" "event_in_range ev"
  shows "\<exists>r. enqueueEvent s d ev ps = Inr r"
  using event_derives [OF assms(2,3)] assms(1) by (auto simp: enqueueEvent_def Let_def)

lemma single_event_valid:
  assumes "kind = EventFailure \<and> inc_occurrences i = 1 \<and> inc_firstSeenAt i = inc_lastSeenAt i
      \<or> kind = EventReminder \<and> 2 \<le> inc_occurrences i \<and> instant (inc_firstSeenAt i) < instant (inc_lastSeenAt i)"
    and "incident_valid k i" "0 < r" "0 < instant (inc_lastSeenAt i)"
  shows "ValidateEventFacts (eventFactsFromIncidents kind [i] r (inc_lastSeenAt i)) = None"
proof -
  let ?ev = "eventFactsFromIncidents kind [i] r (inc_lastSeenAt i)"
  have k: "ev_kind ?ev = EventFailure \<or> ev_kind ?ev = EventReminder \<or> ev_kind ?ev = EventRecovery"
    using assms(1) by (auto simp: eventFactsFromIncidents_def Let_def)
  show ?thesis
    unfolding valid_event_iff [OF k]
    using assms
    by (auto simp: eventFactsFromIncidents_def Let_def snapshot_ok_def incident_valid_def
        maxNotificationItems_def t_isZero_def)
qed

lemma single_event_in_range:
  assumes "kind \<noteq> EventRecovery" "formattable (inc_firstSeenAt i)" "formattable (inc_lastSeenAt i)"
    "inc_occurrences i \<le> int64_max" "r \<le> int64_max"
  shows "event_in_range (eventFactsFromIncidents kind [i] r t)"
  using assms by (simp add: event_in_range_def eventFactsFromIncidents_def Let_def)

lemma good_incident_range:
  "state_in_range s \<Longrightarrow> inc_at s ft = Some i \<Longrightarrow> incident_in_range i"
  by (auto simp: state_in_range_def inc_at_def list_all_iff dest!: gm_get_SomeD)

lemma failure_total:
  assumes g: "good s" and opts: "validateOptions opts = None" "op_repeatAfter opts \<le> int64_max"
    and o1: "oc_operation o' = OperationScheduledSyncAll" "LookupFailure (oc_failureType o') \<noteq> None"
    and fin: "0 < instant (oc_finishedAt o')" "formattable (oc_finishedAt o')"
    and room: "length (outbox_of s) < maxStateEnvelopes" and range: "state_in_range s"
  shows "\<exists>r. observeFailure s [] o' opts = Inr r"
proof -
  let ?ft = "oc_failureType o'"
  note R = options_validD(1) [OF opts(1)]
  have enq: "\<exists>r. enqueueIncidentNotification (put_incident k i s) [] i kind opts = Inr r"
    if "kind = EventFailure \<and> inc_occurrences i = 1 \<and> inc_firstSeenAt i = inc_lastSeenAt i
      \<or> kind = EventReminder \<and> 2 \<le> inc_occurrences i \<and> instant (inc_firstSeenAt i) < instant (inc_lastSeenAt i)"
      and "incident_valid k' i" "0 < instant (inc_lastSeenAt i)"
      and "formattable (inc_firstSeenAt i)" "formattable (inc_lastSeenAt i)" "inc_occurrences i \<le> int64_max"
    for i k k' kind
  proof -
    have v: "ValidateEventFacts (eventFactsFromIncidents kind [i] (op_repeatAfter opts) (inc_lastSeenAt i)) = None"
      by (rule single_event_valid [OF that(1,2) R that(3)])
    have w: "event_in_range (eventFactsFromIncidents kind [i] (op_repeatAfter opts) (inc_lastSeenAt i))"
      using that(1,4-6) opts(2) by (intro single_event_in_range) auto
    show ?thesis
      using enqueueEvent_succeeds [OF _ v w] room that(1) by (auto simp: enqueueIncidentNotification_def)
  qed
  show ?thesis
  proof (cases "inc_at s ?ft")
    case None
    then have get: "gm_get (incidents_of s) (sync_key ?ft) = None" by (simp add: inc_at_def)
    have "\<exists>r. enqueueIncidentNotification
        (put_incident (sync_key ?ft) (newIncident OperationScheduledSyncAll ?ft (t_utc (oc_finishedAt o'))) s) []
        (newIncident OperationScheduledSyncAll ?ft (t_utc (oc_finishedAt o'))) EventFailure opts = Inr r"
      by (rule enq [OF _ new_incident_valid [OF o1(2)]])
         (use fin in \<open>simp_all add: newIncident_def int64_max_def\<close>)
    then show ?thesis using get o1(1) by (simp add: observeFailure_def Let_def)
  next
    case (Some i)
    then have get: "gm_get (incidents_of s) (sync_key ?ft) = Some i" by (simp add: inc_at_def)
    have iv: "incident_valid (sync_key ?ft) i" by (rule good_inc_at [OF g Some])
    have ir: "incident_in_range i" by (rule good_incident_range [OF range Some])
    define at where "at = (if t_before (t_utc (oc_finishedAt o')) (inc_lastSeenAt i)
        then inc_lastSeenAt i else t_utc (oc_finishedAt o'))"
    have at: "0 < instant at" "instant (inc_lastSeenAt i) \<le> instant at" "formattable at"
      using fin ir by (auto simp: at_def t_before_def incident_in_range_def)
    let ?new = "newIncident OperationScheduledSyncAll ?ft at"
    let ?seen = "i\<lparr>inc_phase := IncidentOpen, inc_lastSeenAt := at, inc_occurrences := int64_add (inc_occurrences i) 1\<rparr>"
    let ?rem = "?seen\<lparr>inc_lastFailureEnqueuedAt := at, inc_needsRecovery := True\<rparr>"
    have eq: "observeFailure s [] o' opts =
       (if inc_phase i = IncidentCooling \<and> \<not> t_before at (t_add (inc_lastFailureEnqueuedAt i) (op_repeatAfter opts)) then
          enqueueIncidentNotification (put_incident (sync_key ?ft) ?new s) [] ?new EventFailure opts
        else if \<not> t_before at (t_add (inc_lastFailureEnqueuedAt i) (op_repeatAfter opts)) then
          enqueueIncidentNotification (put_incident (sync_key ?ft) ?rem s) [] ?rem EventReminder opts
        else Inr (put_incident (sync_key ?ft) ?seen s, []))"
      unfolding observeFailure_def Let_def o1(1) get option.case at_def [symmetric] ..
    have new: "\<exists>r. enqueueIncidentNotification (put_incident (sync_key ?ft) ?new s) [] ?new EventFailure opts = Inr r"
      by (rule enq [OF _ new_incident_valid [OF o1(2)]])
         (use at in \<open>simp_all add: newIncident_def int64_max_def\<close>)
    have rem: "\<exists>r. enqueueIncidentNotification (put_incident (sync_key ?ft) ?rem s) [] ?rem EventReminder opts = Inr r"
      if due: "instant (inc_lastFailureEnqueuedAt i) + op_repeatAfter opts \<le> instant at"
    proof (rule enq [of _ _ "sync_key ?ft"])
      have one: "int64_add (inc_occurrences i) 1 = inc_occurrences i + 1"
        using ir iv by (intro int64_add_exact)
          (simp add: is_int64_def int64_min_def int64_max_def incident_valid_def incident_in_range_def)
      show "EventReminder = EventFailure \<and> inc_occurrences ?rem = 1 \<and> inc_firstSeenAt ?rem = inc_lastSeenAt ?rem
        \<or> EventReminder = EventReminder \<and> 2 \<le> inc_occurrences ?rem
          \<and> instant (inc_firstSeenAt ?rem) < instant (inc_lastSeenAt ?rem)"
        using one iv due R by (simp add: incident_valid_def)
      show "incident_valid (sync_key ?ft) ?rem" using iv at one by (auto simp: incident_valid_def)
      show "inc_occurrences ?rem \<le> int64_max" using one ir by (simp add: incident_in_range_def int64_max_def)
    qed (use at ir in \<open>simp_all add: incident_in_range_def\<close>)
    show ?thesis unfolding eq using new rem by (auto simp: t_before_def)
  qed
qed

section \<open>The recovery event\<close>

lemma recovery_time_ge:
  assumes "good s" "gm_get (incidents_of s) k = Some i" "inc_phase i = IncidentOpen"
  shows "instant (inc_lastSeenAt i) \<le> instant (recovery_time s OperationScheduledSyncAll at)"
proof -
  have mono: "instant at \<le> instant (fold (\<lambda>(k, i) at. if t_after (inc_lastSeenAt i) at then inc_lastSeenAt i else at) m at)"
    for m :: "(string \<times> incident) list" and at
  proof (induction m arbitrary: at)
    case (Cons p m)
    obtain k j where p: "p = (k, j)" by (cases p)
    show ?case
      using Cons.IH [of "if t_after (inc_lastSeenAt j) at then inc_lastSeenAt j else at"] p
      by (auto simp: t_after_def split: if_splits)
  qed simp
  have ge: "instant (inc_lastSeenAt i)
      \<le> instant (fold (\<lambda>(k, i) at. if t_after (inc_lastSeenAt i) at then inc_lastSeenAt i else at) m at)"
    if "(k, i) \<in> set m" for m at
    using that
  proof (induction m arbitrary: at)
    case (Cons p m)
    obtain k' j where p: "p = (k', j)" by (cases p)
    let ?at = "if t_after (inc_lastSeenAt j) at then inc_lastSeenAt j else at"
    show ?case
    proof (cases "(k, i) = p")
      case True
      then have "instant (inc_lastSeenAt i) \<le> instant ?at" using p by (auto simp: t_after_def)
      then show ?thesis using mono [of ?at m] p by simp
    next
      case False
      then show ?thesis using Cons.IH [of ?at] Cons.prems p by (auto split: if_splits)
    qed
  qed simp
  have "inc_operation i = OperationScheduledSyncAll"
    using good_at [OF assms(1,2)] by (simp add: incident_valid_def)
  then show ?thesis
    unfolding recovery_time_def using assms(2,3) by (intro ge) (auto dest: gm_get_SomeD)
qed

lemma success_total:
  assumes g: "good s" and opts: "validateOptions opts = None" "op_repeatAfter opts \<le> int64_max"
    and op: "oc_operation o' = OperationScheduledSyncAll"
    and fin: "0 < instant (oc_finishedAt o')"
    and room: "length (outbox_of s) < maxStateEnvelopes" and range: "state_in_range s"
  shows "\<exists>r. observeSuccess s [] o' opts = Inr r"
proof -
  let ?at = "recovery_time s OperationScheduledSyncAll (t_utc (oc_finishedAt o'))"
  let ?keys = "sort (open_keys s OperationScheduledSyncAll)"
  let ?get = "\<lambda>k. the (gm_get (incidents_of s) k)"
  let ?idx = "\<lambda>i. failureCatalogIndex (inc_failureType i)"
  obtain t res where loop: "resolve_loop ?keys ?at s [] = (t, res)" by fastforce
  have at: "0 < instant ?at"
    using recovery_time_pos [of "t_utc (oc_finishedAt o')" s OperationScheduledSyncAll] fin by simp
  have keys: "distinct ?keys" "\<forall>k \<in> set ?keys. gm_get (incidents_of s) k \<noteq> None"
    using distinct_open_keys [OF g] open_keys_get [OF g] by auto
  have open': "gm_get (incidents_of s) k = Some (?get k)" "inc_phase (?get k) = IncidentOpen"
    "incident_valid k (?get k)" "incident_in_range (?get k)" if "k \<in> set ?keys" for k
  proof -
    obtain i where i: "gm_get (incidents_of s) k = Some i" "inc_phase i = IncidentOpen"
      using open_keys_get [OF g] \<open>k \<in> set ?keys\<close> by auto
    show "gm_get (incidents_of s) k = Some (?get k)" "inc_phase (?get k) = IncidentOpen"
      "incident_valid k (?get k)"
      using i good_at [OF g i(1)] by simp_all
    have "(k, i) \<in> set (incidents_of s)" using i(1) by (rule gm_get_SomeD)
    then show "incident_in_range (?get k)" using i range by (auto simp: state_in_range_def list_all_iff)
  qed
  have c: "good t" "outbox_of t = outbox_of s" "res = map (settle ?at) (filter inc_needsRecovery (map ?get ?keys))"
    using resolve_loop_closed [OF g keys _ loop] at by simp_all
  let ?ev = "eventFactsFromIncidents EventRecovery res (op_repeatAfter opts) ?at"
  have key_of: "k = sync_key (inc_failureType (?get k))" if "k \<in> set ?keys" for k
    using open'(3) [OF that] by (simp add: incident_valid_def)
  have res_of: "\<exists>k \<in> set ?keys. i = settle ?at (?get k)" if "i \<in> set res" for i
    using that c(3) by auto
  have inj: "inj_on (\<lambda>k. inc_failureType (?get k)) (set ?keys)"
  proof (rule inj_onI)
    fix a b assume ab: "a \<in> set ?keys" "b \<in> set ?keys"
      and eq: "inc_failureType (?get a) = inc_failureType (?get b)"
    have "a = sync_key (inc_failureType (?get a))" by (rule key_of [OF ab(1)])
    also have "\<dots> = sync_key (inc_failureType (?get b))" unfolding eq ..
    also have "\<dots> = b" by (rule key_of [OF ab(2), symmetric])
    finally show "a = b" .
  qed
  have "distinct (map (\<lambda>k. inc_failureType (?get k)) ?keys)"
    using keys(1) inj by (simp add: distinct_map)
  then have types: "distinct (map inc_failureType res)"
    unfolding c(3) by (simp add: o_def distinct_map_filter)
  have ids0: "distinct (map (\<lambda>k. inc_id (?get k)) ?keys)"
  proof -
    have "inj_on (\<lambda>k. inc_id (?get k)) (set ?keys)"
    proof (rule inj_onI)
      fix a b assume ab: "a \<in> set ?keys" "b \<in> set ?keys" "inc_id (?get a) = inc_id (?get b)"
      have m: "(a, ?get a) \<in> set (incidents_of s)" "(b, ?get b) \<in> set (incidents_of s)"
        using open'(1) [OF ab(1)] open'(1) [OF ab(2)] by (auto dest: gm_get_SomeD)
      have "inj_on (\<lambda>(k, i). inc_id i) (set (incidents_of s))"
        using range by (simp add: state_in_range_def distinct_map)
      from inj_onD [OF this _ m] ab(3) show "a = b" by simp
    qed
    then show ?thesis using keys(1) by (simp add: distinct_map)
  qed
  have ids: "distinct (map inc_id res)"
    unfolding c(3) using ids0 by (simp add: o_def distinct_map_filter)
  have few: "length res \<le> 34"
  proof -
    have "length ?keys \<le> length (incidents_of s)" by (simp add: open_keys_def)
    also have "\<dots> \<le> 34" using incidents_bound g by (simp add: good_def state_keys_def)
    finally have "length ?keys \<le> 34" .
    moreover have "length res \<le> length ?keys" unfolding c(3) by (simp add: order_trans [OF length_filter_le])
    ultimately show ?thesis by simp
  qed
  have snap: "LookupFailure (inc_failureType i) \<noteq> None \<and> \<not> t_isZero (inc_firstSeenAt i)
      \<and> instant (inc_firstSeenAt i) \<le> instant (inc_lastSeenAt i)
      \<and> instant (inc_lastSeenAt i) \<le> instant ?at \<and> 1 \<le> inc_occurrences i \<and> inc_occurrences i \<le> 2 ^ 56
      \<and> inc_id i = deterministicIncidentID OperationScheduledSyncAll (inc_failureType i) (inc_firstSeenAt i)
      \<and> formattable (inc_firstSeenAt i) \<and> formattable (inc_lastSeenAt i)"
    if i: "i \<in> set res" for i
  proof -
    obtain k where k: "k \<in> set ?keys" "i = settle ?at (?get k)" using res_of [OF i] by blast
    show ?thesis
      using open' [OF k(1)] recovery_time_ge [OF g open'(1,2) [OF k(1)]] k(2)
      by (auto simp: incident_valid_def incident_in_range_def)
  qed
  let ?sorted = "sort_key ?idx res"
  have "inj_on failureCatalogIndex (set (map inc_failureType res))"
    using snap failureCatalogIndex_inj by (intro inj_onI) auto
  then have "distinct (map failureCatalogIndex (map inc_failureType res))"
    using types by (simp only: distinct_map)
  then have "distinct (map ?idx res)" by (simp add: o_def)
  then have "distinct (map ?idx ?sorted)" by (simp add: distinct_map)
  then have srt: "sorted_wrt (<) (map ?idx ?sorted)"
    using sorted_sort_key [of ?idx res] by (simp add: strict_sorted_iff)
  have types': "distinct (map inc_failureType ?sorted)" and ids': "distinct (map inc_id ?sorted)"
    using types ids by (simp_all add: distinct_map)
  have occ: "sum_list (map inc_occurrences ?sorted) \<le> int64_max"
  proof -
    have "sum_list (map inc_occurrences ?sorted) \<le> sum_list (map (\<lambda>_. 2 ^ 56) ?sorted)"
      using snap by (intro sum_list_mono) simp
    also have "\<dots> = int (length res) * 2 ^ 56" by (simp add: sum_list_triv)
    also have "\<dots> \<le> 34 * 2 ^ 56" using few by (intro mult_right_mono) simp_all
    also have "\<dots> \<le> int64_max" by (simp add: int64_max_def)
    finally show ?thesis .
  qed
  have "res \<noteq> [] \<Longrightarrow> \<exists>r. enqueueEvent t [] ?ev (op_providers opts) = Inr r"
  proof (rule enqueueEvent_succeeds)
    assume ne: "res \<noteq> []"
    show "length (outbox_of t) < maxStateEnvelopes" using room c(2) by simp
    have k: "ev_kind ?ev = EventFailure \<or> ev_kind ?ev = EventReminder \<or> ev_kind ?ev = EventRecovery"
      by (simp add: eventFactsFromIncidents_def)
    have ev: "ev_kind ?ev = EventRecovery" "ev_operation ?ev = OperationScheduledSyncAll"
      "ev_suppressionAfter ?ev = op_repeatAfter opts" "ev_createdAt ?ev = t_utc ?at"
      "map sn_id (ev_incidents ?ev) = map inc_id ?sorted"
      "map sn_failureType (ev_incidents ?ev) = map inc_failureType ?sorted"
      "map sn_occurrences (ev_incidents ?ev) = map inc_occurrences ?sorted"
      "map snapshot_index (ev_incidents ?ev) = map ?idx ?sorted"
      "length (ev_incidents ?ev) = length res"
      by (simp_all add: eventFactsFromIncidents_def Let_def o_def)
    have all: "list_all (snapshot_ok ?ev) (ev_incidents ?ev)"
      using snap by (auto simp: list_all_iff snapshot_ok_def eventFactsFromIncidents_def Let_def t_isZero_def)
    have ne': "ev_incidents ?ev \<noteq> []" using ne ev(9) by (metis length_0_conv)
    show "ValidateEventFacts ?ev = None"
      unfolding valid_event_iff [OF k] ev using at few options_validD(1) [OF opts(1)] all ids' types' srt ne'
      by (simp add: maxNotificationItems_def t_isZero_def)
    show "event_in_range ?ev"
      unfolding event_in_range_def ev using occ opts(2) snap
      by (auto simp: list_all_iff eventFactsFromIncidents_def Let_def)
  qed
  then show ?thesis
    unfolding observeSuccess_def Let_def op loop prod.case by (cases "res = []") simp_all
qed

text \<open>C30. Observing never fails for a reason of its own: from a good state whose numbers are in
  range, with room in the outbox, a valid failure or success outcome always produces its next state
  and its event. The only errors left are the full outbox, which the manager retries after a
  delivery round, and the byte limit.\<close>

theorem observe_transition_total:
  assumes "good s" "validateOptions opts = None" "op_repeatAfter opts \<le> int64_max" "outcome_ok o'"
    "formattable (oc_finishedAt o')" "length (outbox_of s) < maxStateEnvelopes" "state_in_range s"
  shows "\<exists>s' ns. observe_transition s o' opts = Inr (s', ns) \<and> good s'"
proof -
  have g: "good (pruned s o' opts)" by (rule pruned_good [OF assms(1)])
  have room: "length (outbox_of (pruned s o' opts)) < maxStateEnvelopes" using assms(6) by simp
  have range: "state_in_range (pruned s o' opts)"
    using assms(7) by (auto simp: state_in_range_def prune_incidents list_all_iff distinct_map_filter case_prod_unfold)
  have total: "\<exists>r. observe_transition s o' opts = Inr r"
    using outcome_okD(3) [OF assms(4)]
  proof
    assume f: "oc_status o' = OutcomeFailure \<and> LookupFailure (oc_failureType o') \<noteq> None"
    then show ?thesis
      using failure_total [OF g assms(2,3) outcome_okD(1) [OF assms(4)] _ outcome_okD(2) [OF assms(4)] assms(5) room range]
      by (auto simp: observe_transition_def Let_def)
  next
    assume f: "oc_status o' = OutcomeSuccess"
    then show ?thesis
      using success_total [OF g assms(2,3) outcome_okD(1,2) [OF assms(4)] room range]
      by (auto simp: observe_transition_def Let_def)
  qed
  have c: "countable_more s"
    using assms(7) by (force simp: countable_more_def state_in_range_def incident_in_range_def list_all_iff int64_max_def)
  from total obtain s' ns where r: "observe_transition s o' opts = Inr (s', ns)" by force
  show ?thesis using r transition_good [OF assms(1,2,4) c r] by blast
qed

lemma observe_transition_total_witness:
  "\<exists>s' ns. observe_transition EmptyState (example_failure 0) example_options = Inr (s', ns) \<and> good s'"
proof (rule observe_transition_total [OF good_empty example_options_valid])
  show "outcome_ok (example_failure 0)" by (rule example_outcomes_ok) simp
  show "formattable (oc_finishedAt (example_failure 0))"
    by (simp add: example_failure_def example_time_def formattable_def second_def hour_def)
qed (simp_all add: example_options_def hour_def int64_max_def EmptyState_def outbox_of_def incidents_of_def
    gm_of_def state_in_range_def maxStateEnvelopes_def)

end
