(* ===== verification/NotifyManager.thy ===== *)
theory NotifyManager
  imports NotifyState
begin

text \<open>
  Delivery (\<open>internal/notify/manager.go\<close>), the state store's validation and migration
  (\<open>store.go\<close>), the provider registry (\<open>registry.go\<close>) and the operator view
  (\<open>status.go\<close>).

  The state file holds a decoded JSON value; the file system decides whether a read succeeds and how
  a write ends. What a provider answers, what the clock reads and what else happens to the file between
  the two critical sections of a delivery are the fields of an \<open>attempt\<close>: one attempt is one
  turn of the loop of \<open>deliverProvider\<close>, and running out of attempts is the value \<open>None\<close>.
  Metrics and log lines have no effect on the state and their errors are ignored by the code; the
  labels of the metric are modelled.
\<close>

type_synonym stateFile = "state option"

section \<open>The store\<close>

definition decodeState :: "(state \<Rightarrow> nat option) \<Rightarrow> state \<Rightarrow> string + state" where
  "decodeState jsonLen s =
     (if st_schema s = StateSchemaV1 then
        (if st_lastDeliveries s \<noteq> None then Inl ''invalid v1 notification delivery summaries''
         else (case validateDeliverySummary (st_lastDelivery s) of
           Some e \<Rightarrow> Inl e
         | None \<Rightarrow>
             let s' = s\<lparr>st_lastDeliveries := Some (if st_lastDelivery s \<noteq> zero_summary
                           then [(ds_provider (st_lastDelivery s), st_lastDelivery s)] else []),
                        st_lastDelivery := zero_summary,
                        st_schema := StateSchemaV2\<rparr>
             in (case ValidateState jsonLen s' of Some e \<Rightarrow> Inl e | None \<Rightarrow> Inr s')))
      else (case ValidateState jsonLen s of Some e \<Rightarrow> Inl e | None \<Rightarrow> Inr s))"

definition loadState :: "(state \<Rightarrow> nat option) \<Rightarrow> bool \<Rightarrow> stateFile \<Rightarrow> string + state" where
  "loadState jsonLen readable file =
     (if \<not> readable then Inl ''read private notification state''
      else (case file of None \<Rightarrow> Inr EmptyState
            | Some s \<Rightarrow> (case decodeState jsonLen s of
                Inl e \<Rightarrow> Inl ''decode private notification state''
              | Inr s \<Rightarrow> Inr s)))"

text \<open>How \<open>ReplaceState\<close> (\<open>store_unix.go\<close>) ends: \<open>Written\<close>; \<open>WriteFailed\<close>, when a step up to the rename
  fails and the old file stays; \<open>SyncFailed\<close>, when the rename took effect and the sync of the directory after it
  fails: an error as well, with the new file in place.\<close>

datatype writeOutcome = Written | WriteFailed | SyncFailed

text \<open>The error, if any, and the file.\<close>

definition Replace :: "(state \<Rightarrow> nat option) \<Rightarrow> writeOutcome \<Rightarrow> state \<Rightarrow> stateFile \<Rightarrow> string option \<times> stateFile" where
  "Replace jsonLen write s file =
     (case ValidateState jsonLen s of
        Some e \<Rightarrow> (Some ''validate notification state before persistence'', file)
      | None \<Rightarrow>
          (case write of
             Written \<Rightarrow> (None, Some s)
           | WriteFailed \<Rightarrow> (Some ''replace private notification state'', file)
           | SyncFailed \<Rightarrow> (Some ''replace private notification state'', Some s)))"

section \<open>Delivery results\<close>

abbreviation "DeliveryErrorTemporary \<equiv> ''temporary''"
abbreviation "DeliveryErrorPermanent \<equiv> ''permanent''"
abbreviation "DeliveryErrorAmbiguous \<equiv> ''ambiguous''"

text \<open>An error as \<open>errors.As\<close> and \<open>errors.Is\<close> see it: the first \<open>DeliveryError\<close> of its
  chain, and whether the chain holds a cancellation or an expired deadline.\<close>

record providerError =
  pe_delivery :: "(string \<times> string) option"
  pe_canceled :: bool
  pe_deadline :: bool

definition classifyDeliveryResult :: "string \<Rightarrow> receipt \<Rightarrow> providerError option \<Rightarrow> gotime \<Rightarrow> string \<times> string" where
  "classifyDeliveryResult provider rc err attemptedAt =
     (case err of
        None \<Rightarrow>
          (let record = \<lparr>dr_status = DeliveryAccepted, dr_attempts = 1, dr_lastAttemptAt = attemptedAt,
                         dr_errorCode = [], dr_receipt = rc\<rparr>
           in if validateDeliveryRecord provider record = None then (DeliveryAccepted, [])
              else (DeliveryAmbiguous, ''invalid_receipt''))
      | Some e \<Rightarrow>
          (case (case pe_delivery e of
                   Some (kind, code) \<Rightarrow>
                     if validSafeCode code 64 \<and> code \<noteq> [] then
                       (if kind = DeliveryErrorPermanent then Some (DeliveryPermanentError, code)
                        else if kind = DeliveryErrorAmbiguous then Some (DeliveryAmbiguous, code)
                        else if kind = DeliveryErrorTemporary then Some (DeliveryPending, code)
                        else None)
                     else None
                 | None \<Rightarrow> None) of
             Some result \<Rightarrow> result
           | None \<Rightarrow>
               if pe_canceled e then (DeliveryPending, ''delivery_canceled'')
               else if pe_deadline e then (DeliveryAmbiguous, ''delivery_timeout'')
               else (DeliveryPending, ''delivery_failed'')))"

definition eventContainsIncident :: "eventFacts \<Rightarrow> string list \<Rightarrow> bool" where
  "eventContainsIncident ev incidentIDs = list_ex (\<lambda>i. sn_id i \<in> set incidentIDs) (ev_incidents ev)"

definition deliverable :: "envelope \<Rightarrow> string \<Rightarrow> string list \<Rightarrow> bool" where
  "deliverable env provider ambiguousIDs =
     (case gm_get (env_deliveries env) provider of
        None \<Rightarrow> False
      | Some r \<Rightarrow> dr_status r = DeliveryPending
          \<or> (dr_status r = DeliveryAmbiguous \<and> eventContainsIncident (env_event env) ambiguousIDs))"

fun next_loop :: "nat \<Rightarrow> envelope list \<Rightarrow> string \<Rightarrow> string list
    \<Rightarrow> (nat \<times> eventFacts \<times> deliveryRecord \<times> notification) option" where
  "next_loop index [] provider amb = None"
| "next_loop index (env # envs) provider amb =
     (if \<not> deliverable env provider amb then next_loop (Suc index) envs provider amb
      else (case DeriveNotification (env_event env) of
        Inl e \<Rightarrow> None
      | Inr n \<Rightarrow> Some (index, env_event env, the (gm_get (env_deliveries env) provider), n)))"

definition nextDelivery :: "state \<Rightarrow> string \<Rightarrow> string list
    \<Rightarrow> (nat \<times> eventFacts \<times> deliveryRecord \<times> notification) option" where
  "nextDelivery s provider ambiguousIDs = next_loop 0 (outbox_of s) provider ambiguousIDs"

definition recordDeliverySummary :: "state \<Rightarrow> deliverySummary \<Rightarrow> state" where
  "recordDeliverySummary s ds =
     s\<lparr>st_lastDeliveries := Some (gm_put (ds_provider ds) ds (gm_of (st_lastDeliveries s)))\<rparr>"

definition updated_record :: "deliveryRecord \<Rightarrow> receipt \<Rightarrow> string \<Rightarrow> string \<Rightarrow> gotime \<Rightarrow> deliveryRecord" where
  "updated_record current rc status code attemptedAt =
     current\<lparr>dr_attempts := int64_add (dr_attempts current) 1,
             dr_lastAttemptAt := t_utc attemptedAt,
             dr_errorCode := (if status = DeliveryAccepted then [] else code),
             dr_receipt := (if status = DeliveryAccepted then rc else zero_receipt),
             dr_status := status\<rparr>"

definition put_delivery :: "nat \<Rightarrow> string \<Rightarrow> deliveryRecord \<Rightarrow> state \<Rightarrow> state" where
  "put_delivery index provider r s =
     s\<lparr>st_outbox := Some ((outbox_of s)[index := (outbox_of s ! index)
         \<lparr>env_deliveries := gm_put provider r (env_deliveries (outbox_of s ! index))\<rparr>])\<rparr>"

text \<open>Events are compared as values. \<open>reflect.DeepEqual\<close> also tells a nil slice of incidents from an empty
  one; that matters only for a test event written into the file by hand, since every event that is enqueued lists
  an incident.\<close>

fun update_loop :: "nat list \<Rightarrow> state \<Rightarrow> eventFacts \<Rightarrow> string \<Rightarrow> deliveryRecord \<Rightarrow> receipt \<Rightarrow> string \<Rightarrow> string
    \<Rightarrow> gotime \<Rightarrow> state option" where
  "update_loop [] s ev provider expected rc status code attemptedAt = None"
| "update_loop (index # indices) s ev provider expected rc status code attemptedAt =
     (let env = outbox_of s ! index in
      if env_event env \<noteq> ev then update_loop indices s ev provider expected rc status code attemptedAt
      else if gm_get (env_deliveries env) provider \<noteq> Some expected then None
      else
        let current = updated_record expected rc status code attemptedAt;
            s' = put_delivery index provider current s
        in case DeriveNotification ev of
             Inl e \<Rightarrow> None
           | Inr n \<Rightarrow>
               if status = DeliveryAccepted \<or> status = DeliveryPermanentError then
                 Some (recordDeliverySummary s'
                   \<lparr>ds_notificationID = nt_id n, ds_provider = provider, ds_kind = ev_kind ev,
                    ds_status = status, ds_errorCode = dr_errorCode current,
                    ds_at = t_utc (if status = DeliveryAccepted then rc_acceptedAt rc
                                   else dr_lastAttemptAt current)\<rparr>)
               else Some s')"

definition updateMatchingDelivery :: "state \<Rightarrow> nat \<Rightarrow> eventFacts \<Rightarrow> string \<Rightarrow> deliveryRecord \<Rightarrow> receipt
    \<Rightarrow> string \<Rightarrow> string \<Rightarrow> gotime \<Rightarrow> state option" where
  "updateMatchingDelivery s hinted ev provider expected rc status code attemptedAt =
     update_loop
       ((if hinted < length (outbox_of s) then [hinted] else [])
          @ filter (\<lambda>index. index \<noteq> hinted) [0..<length (outbox_of s)])
       s ev provider expected rc status code attemptedAt"

definition terminal_status :: "string \<Rightarrow> bool" where
  "terminal_status st = (st = DeliveryAccepted \<or> st = DeliveryPermanentError \<or> st = DeliveryRetired)"

definition envelope_terminal :: "envelope \<Rightarrow> bool" where
  "envelope_terminal env = list_all (\<lambda>(p, r). terminal_status (dr_status r)) (env_deliveries env)"

definition pruneTerminalEnvelopes :: "state \<Rightarrow> state" where
  "pruneTerminalEnvelopes s =
     s\<lparr>st_outbox := map_option (filter (\<lambda>env. \<not> envelope_terminal env)) (st_outbox s)\<rparr>"

section \<open>Removed providers\<close>

fun retire_loop :: "string list \<Rightarrow> string list \<Rightarrow> string \<Rightarrow> eventKind \<Rightarrow> gotime
    \<Rightarrow> (string, deliveryRecord) gomap \<Rightarrow> (string, deliverySummary) gomap
    \<Rightarrow> (string, deliveryRecord) gomap \<times> (string, deliverySummary) gomap" where
  "retire_loop [] configured nid kind at ds last' = (ds, last')"
| "retire_loop (p # ps) configured nid kind at ds last' =
     (if p \<in> set configured then retire_loop ps configured nid kind at ds last'
      else (case gm_get ds p of
        None \<Rightarrow> retire_loop ps configured nid kind at ds last'
      | Some r \<Rightarrow>
          if terminal_status (dr_status r) then retire_loop ps configured nid kind at ds last'
          else retire_loop ps configured nid kind at
                 (gm_put p (r\<lparr>dr_status := DeliveryRetired, dr_errorCode := [], dr_receipt := zero_receipt\<rparr>) ds)
                 (gm_put p \<lparr>ds_notificationID = nid, ds_provider = p, ds_kind = kind,
                            ds_status = DeliveryRetired, ds_errorCode = [], ds_at = t_utc at\<rparr> last')))"

fun retire_envelopes :: "envelope list \<Rightarrow> string list \<Rightarrow> gotime \<Rightarrow> (string, deliverySummary) gomap
    \<Rightarrow> string + (envelope list \<times> (string, deliverySummary) gomap)" where
  "retire_envelopes [] configured at last' = Inr ([], last')"
| "retire_envelopes (env # envs) configured at last' =
     (case DeriveNotification (env_event env) of
        Inl e \<Rightarrow> Inl e
      | Inr n \<Rightarrow>
          (case retire_loop (sort (map fst (env_deliveries env))) configured (nt_id n) (ev_kind (env_event env)) at
                  (env_deliveries env) last' of (ds, last'') \<Rightarrow>
            (case retire_envelopes envs configured at last'' of
               Inl e \<Rightarrow> Inl e
             | Inr (envs', last''') \<Rightarrow> Inr (env\<lparr>env_deliveries := ds\<rparr> # envs', last'''))))"

definition retireRemovedProviders :: "state \<Rightarrow> string list \<Rightarrow> gotime \<Rightarrow> string + state" where
  "retireRemovedProviders s configured at =
     (case retire_envelopes (outbox_of s) configured at (gm_of (st_lastDeliveries s)) of
        Inl e \<Rightarrow> Inl e
      | Inr (envs, last') \<Rightarrow>
          Inr (s\<lparr>st_outbox := map_option (\<lambda>_. envs) (st_outbox s),
                 st_lastDeliveries := (if last' = gm_of (st_lastDeliveries s) then st_lastDeliveries s
                                       else Some last')\<rparr>))"

section \<open>The delivery loop\<close>

record attempt =
  at_load1 :: bool
  at_receipt :: receipt
  at_error :: "providerError option"
  at_now1 :: gotime
  at_meanwhile :: "stateFile \<Rightarrow> stateFile"
  at_load2 :: bool
  at_now2 :: gotime
  at_replace :: writeOutcome

fun deliverProvider :: "(state \<Rightarrow> nat option) \<Rightarrow> string \<Rightarrow> string list \<Rightarrow> bool \<Rightarrow> attempt list \<Rightarrow> stateFile
    \<Rightarrow> (bool \<times> stateFile) option" where
  "deliverProvider jsonLen provider amb failed [] file = None"
| "deliverProvider jsonLen provider amb failed (a # as) file =
     (case loadState jsonLen (at_load1 a) file of
        Inl e \<Rightarrow> Some (True, file)
      | Inr s \<Rightarrow>
          (case nextDelivery s provider amb of
             None \<Rightarrow> Some (failed, file)
           | Some (index, ev, record, n) \<Rightarrow>
               (case classifyDeliveryResult provider (at_receipt a) (at_error a) (t_utc (at_now1 a)) of
                  (status, code) \<Rightarrow>
                    let file = at_meanwhile a file in
                    (case loadState jsonLen (at_load2 a) file of
                       Inl e \<Rightarrow> Some (True, file)
                     | Inr current \<Rightarrow>
                         (case updateMatchingDelivery current index ev provider record (at_receipt a)
                                 status code (t_utc (at_now2 a)) of
                            None \<Rightarrow> Some (True, file)
                          | Some current \<Rightarrow>
                              (case Replace jsonLen (at_replace a) (pruneTerminalEnvelopes current) file of
                                 (Some e, file) \<Rightarrow> Some (True, file)
                               | (None, file) \<Rightarrow>
                                   let failed = (failed \<or> status \<noteq> DeliveryAccepted) in
                                   if status = DeliveryPending \<or> status = DeliveryAmbiguous
                                   then Some (failed, file)
                                   else deliverProvider jsonLen provider amb failed as file))))))"

definition emitDeliveryMetric :: "string \<Rightarrow> eventFacts \<Rightarrow> string \<Rightarrow> string \<times> string \<times> string \<times> string" where
  "emitDeliveryMetric provider ev status =
     (provider, ev_kind ev,
      if length (ev_incidents ev) = 1 then sn_failureType (ev_incidents ev ! 0)
      else if length (ev_incidents ev) > 1 then ''multiple'' else ''none'',
      if status = DeliveryPending then ''temporary_error'' else status)"

section \<open>The manager\<close>

record manager' =
  mg_options :: options
  mg_providers :: "string option list"
  mg_initErr :: "string option"

fun new_manager_loop :: "string option list \<Rightarrow> string list \<Rightarrow> string option \<Rightarrow> string list \<times> string option" where
  "new_manager_loop [] names err = (names, err)"
| "new_manager_loop (p # ps) names err =
     (case p of
        None \<Rightarrow> new_manager_loop ps names (Some ''invalid notification provider'')
      | Some name \<Rightarrow>
          if \<not> validProviderName name then new_manager_loop ps names (Some ''invalid notification provider'')
          else if name \<in> set names then new_manager_loop ps names (Some ''duplicate notification provider'')
          else new_manager_loop ps (names @ [name]) err)"

text \<open>A provider is its name, \<open>None\<close> a nil interface; the functional options only set the
  clock, the emitter, the logger and the timeout, which are part of the environment here.\<close>

definition NewManager :: "duration \<Rightarrow> bool \<Rightarrow> string option list \<Rightarrow> manager'" where
  "NewManager repeatAfter hasStore providers =
     (case new_manager_loop providers [] None of (names, err) \<Rightarrow>
       let opts = \<lparr>op_repeatAfter = repeatAfter, op_providers = names\<rparr>;
           err = (if hasStore then err else Some ''notification state store is unavailable'');
           err = (case validateOptions opts of Some e \<Rightarrow> Some e | None \<Rightarrow> err)
       in \<lparr>mg_options = opts, mg_providers = providers, mg_initErr = err\<rparr>)"

definition ambiguousIncidentIDsForCapacityError :: "eventFacts \<Rightarrow> string list" where
  "ambiguousIncidentIDsForCapacityError ev =
     (if ev_kind ev \<noteq> EventReminder then [] else map sn_id (ev_incidents ev))"

definition ambiguous_ids :: "notification list \<Rightarrow> string list" where
  "ambiguous_ids ns = concat (map nt_incidentIDs (filter (\<lambda>n. nt_kind n = EventReminder) ns))"

text \<open>One delivery pass over the providers; each has its own attempts.\<close>

fun deliver_all :: "(state \<Rightarrow> nat option) \<Rightarrow> string option list \<Rightarrow> string list \<Rightarrow> (string \<Rightarrow> attempt list)
    \<Rightarrow> bool \<Rightarrow> stateFile \<Rightarrow> (bool \<times> stateFile) option" where
  "deliver_all jsonLen [] amb attempts failed file = Some (failed, file)"
| "deliver_all jsonLen (None # ps) amb attempts failed file = deliver_all jsonLen ps amb attempts failed file"
| "deliver_all jsonLen (Some p # ps) amb attempts failed file =
     (case deliverProvider jsonLen p amb False (attempts p) file of
        None \<Rightarrow> None
      | Some (f, file) \<Rightarrow> deliver_all jsonLen ps amb attempts (failed \<or> f) file)"

record observeEnv =
  en_load1 :: bool
  en_now1 :: gotime
  en_replace1 :: writeOutcome
  en_attempts1 :: "string \<Rightarrow> attempt list"
  en_load2 :: bool
  en_now2 :: gotime
  en_replace2 :: writeOutcome
  en_attempts2 :: "string \<Rightarrow> attempt list"

text \<open>Load, retire the removed providers, drop the finished envelopes: the start of each try.\<close>

definition prepare_state :: "(state \<Rightarrow> nat option) \<Rightarrow> bool \<Rightarrow> gotime \<Rightarrow> string list \<Rightarrow> stateFile
    \<Rightarrow> string + state" where
  "prepare_state jsonLen readable now configured file =
     (case loadState jsonLen readable file of
        Inl e \<Rightarrow> Inl ''notification_state_load_failed''
      | Inr s \<Rightarrow> (case retireRemovedProviders s configured (t_utc now) of
          Inl e \<Rightarrow> Inl ''notification_state_transition_failed''
        | Inr s \<Rightarrow> Inr (pruneTerminalEnvelopes s)))"

text \<open>The end of \<open>Manager.Observe\<close>: persist the next state, then deliver.\<close>

definition persist_and_deliver :: "(state \<Rightarrow> nat option) \<Rightarrow> manager' \<Rightarrow> writeOutcome \<Rightarrow> (string \<Rightarrow> attempt list)
    \<Rightarrow> state \<Rightarrow> notification list \<Rightarrow> bool \<Rightarrow> stateFile \<Rightarrow> (string option \<times> stateFile) option" where
  "persist_and_deliver jsonLen m write attempts next' decision failed file =
     (case Replace jsonLen write (pruneTerminalEnvelopes next') file of
        (Some e, file) \<Rightarrow> Some (Some ''notification_state_persist_failed'', file)
      | (None, file) \<Rightarrow>
          (case deliver_all jsonLen (mg_providers m) (ambiguous_ids decision) attempts failed file of
             None \<Rightarrow> None
           | Some (failed, file) \<Rightarrow>
               Some (if failed then Some ''notification_delivery_failed'' else None, file)))"

definition Manager_Observe :: "(state \<Rightarrow> nat option) \<Rightarrow> manager' \<Rightarrow> observeEnv \<Rightarrow> outcome \<Rightarrow> stateFile
    \<Rightarrow> (string option \<times> stateFile) option" where
  "Manager_Observe jsonLen m env o' file =
     (if mg_initErr m \<noteq> None then Some (Some ''notification_manager_invalid'', file)
      else if ValidateOutcome o' \<noteq> None then Some (Some ''notification_outcome_invalid'', file)
      else if oc_status o' = OutcomeCancelled then Some (None, file)
      else
        let configured = op_providers (mg_options m) in
        (case prepare_state jsonLen (en_load1 env) (en_now1 env) configured file of
           Inl code \<Rightarrow> Some (Some code, file)
         | Inr s \<Rightarrow>
            (case Observe jsonLen s o' (mg_options m) of
               (next', decision, None) \<Rightarrow>
                 persist_and_deliver jsonLen m (en_replace2 env) (en_attempts2 env) next' decision False file
             | (_, _, Some (Invalid e)) \<Rightarrow> Some (Some ''notification_state_transition_failed'', file)
             | (_, _, Some (OutboxCapacity ev)) \<Rightarrow>
                 (case Replace jsonLen (en_replace1 env) s file of
                    (Some e, file) \<Rightarrow> Some (Some ''notification_state_persist_failed'', file)
                  | (None, file) \<Rightarrow>
                     (case deliver_all jsonLen (mg_providers m) (ambiguousIncidentIDsForCapacityError ev)
                             (en_attempts1 env) False file of
                        None \<Rightarrow> None
                      | Some (failed, file) \<Rightarrow>
                         (case prepare_state jsonLen (en_load2 env) (en_now2 env) configured file of
                            Inl code \<Rightarrow> Some (Some code, file)
                          | Inr s \<Rightarrow>
                             (case Observe jsonLen s o' (mg_options m) of
                                (next', decision, None) \<Rightarrow>
                                  persist_and_deliver jsonLen m (en_replace2 env) (en_attempts2 env)
                                    next' decision failed file
                              | (_, _, Some e) \<Rightarrow> Some (Some ''notification_state_transition_failed'', file))))))))"

definition Manager_Test :: "manager' \<Rightarrow> string \<Rightarrow> gotime \<Rightarrow> receipt \<Rightarrow> providerError option \<Rightarrow> gotime
    \<Rightarrow> string + receipt" where
  "Manager_Test m providerName now rc err now2 =
     (if mg_initErr m \<noteq> None then Inl ''notification_manager_invalid''
      else if providerName \<notin> set (op_providers (mg_options m)) then Inl ''notification_provider_unknown''
      else
        let ev = \<lparr>ev_kind = EventTest, ev_operation = OperationScheduledSyncAll, ev_incidents = [],
                  ev_suppressionAfter = 0, ev_createdAt = t_utc now\<rparr> in
        (case DeriveNotification ev of
           Inl e \<Rightarrow> Inl ''notification_test_invalid''
         | Inr n \<Rightarrow>
             if fst (classifyDeliveryResult providerName rc err (t_utc now2)) \<noteq> DeliveryAccepted
             then Inl ''notification_delivery_failed'' else Inr rc))"

definition Manager_Status :: "(state \<Rightarrow> nat option) \<Rightarrow> manager' \<Rightarrow> bool \<Rightarrow> stateFile \<Rightarrow> string + state" where
  "Manager_Status jsonLen m readable file =
     (if mg_initErr m \<noteq> None then Inl ''notification_manager_invalid''
      else (case loadState jsonLen readable file of
        Inl e \<Rightarrow> Inl ''notification_state_load_failed''
      | Inr s \<Rightarrow> Inr (cloneState s)))"

section \<open>The registry\<close>

record notifyConfig =
  nc_enabled :: bool
  nc_repeatAfter :: duration
  nc_buzzEnabled :: bool
  nc_slackEnabled :: bool

definition configuredProviderNames :: "notifyConfig \<Rightarrow> string list" where
  "configuredProviderNames c =
     sort ((if nc_buzzEnabled c then [''buzz''] else []) @ (if nc_slackEnabled c then [''slack''] else []))"

text \<open>A factory returns an error, or the provider's name (\<open>None\<close> for nil) and whether it is
  configured.\<close>

type_synonym factory = "notifyConfig \<Rightarrow> string + (string option \<times> bool)"

definition Register :: "string \<Rightarrow> factory option \<Rightarrow> (string, factory) gomap \<Rightarrow> string + (string, factory) gomap" where
  "Register name f factories =
     (let name = trimSpace name in
      (case f of
         None \<Rightarrow> Inl ''notification provider factory is invalid''
       | Some f \<Rightarrow>
           if name = [] then Inl ''notification provider factory is invalid''
           else if gm_get factories name \<noteq> None then Inl (''duplicate notification provider factory '' @ name)
           else Inr (gm_put name f factories)))"

fun build_loop :: "string list \<Rightarrow> notifyConfig \<Rightarrow> (string, factory) gomap \<Rightarrow> string list \<Rightarrow> string + string list" where
  "build_loop [] c factories providers = Inr providers"
| "build_loop (name # names) c factories providers =
     (case gm_get factories name of
        None \<Rightarrow> Inl (''unknown configured notification provider '' @ name)
      | Some f \<Rightarrow>
          (case f c of
             Inl e \<Rightarrow> Inl (''build notification provider '' @ name)
           | Inr (provider, configured) \<Rightarrow>
               if \<not> configured then Inl (''configured notification provider '' @ name @ '' was not built'')
               else if provider \<noteq> Some name
               then Inl (''notification provider factory '' @ name @ '' returned a provider with a different name'')
               else build_loop names c factories (providers @ [name])))"

definition Build :: "notifyConfig \<Rightarrow> (string, factory) gomap \<Rightarrow> string + string list" where
  "Build c factories =
     (if \<not> nc_enabled c then Inr []
      else
        let names = configuredProviderNames c in
        if names = [] then Inl ''notification configuration has no enabled provider''
        else build_loop names c factories [])"

section \<open>The operator view\<close>

record providerStatus =
  ps_name :: string
  ps_configured :: bool
  ps_lastStatus :: string
  ps_lastErrorCode :: string
  ps_lastAttemptAt :: "gotime option"
  ps_lastAcceptedAt :: "gotime option"

record openStatus =
  os_failureType :: failureType
  os_occurrences :: int
  os_firstSeenAt :: gotime
  os_lastSeenAt :: gotime

record coolingStatus =
  cs_failureType :: failureType
  cs_occurrences :: int
  cs_rearmsAt :: gotime

record notifyStatus =
  ns_enabled :: bool
  ns_repeatAfter :: string
  ns_providers :: "providerStatus list"
  ns_open :: "openStatus list"
  ns_cooling :: "coolingStatus list"
  ns_pending :: nat

fun provider_attempts :: "string \<Rightarrow> envelope list \<Rightarrow> gotime \<Rightarrow> providerStatus \<Rightarrow> providerStatus" where
  "provider_attempts name [] latestAt ps = ps"
| "provider_attempts name (env # envs) latestAt ps =
     (case gm_get (env_deliveries env) name of
        None \<Rightarrow> provider_attempts name envs latestAt ps
      | Some d \<Rightarrow>
          if dr_attempts d = 0 \<or> t_before (dr_lastAttemptAt d) latestAt
          then provider_attempts name envs latestAt ps
          else
            let latestAt = t_utc (dr_lastAttemptAt d) in
            provider_attempts name envs latestAt
              (ps\<lparr>ps_lastStatus := dr_status d,
                  ps_lastErrorCode := dr_errorCode d,
                  ps_lastAttemptAt := Some latestAt,
                  ps_lastAcceptedAt := (if dr_status d = DeliveryAccepted
                                        then Some (t_utc (rc_acceptedAt (dr_receipt d))) else None)\<rparr>))"

definition provider_status :: "state \<Rightarrow> string \<Rightarrow> providerStatus" where
  "provider_status s name =
     (let ps = \<lparr>ps_name = name, ps_configured = True, ps_lastStatus = [], ps_lastErrorCode = [],
                ps_lastAttemptAt = None, ps_lastAcceptedAt = None\<rparr> in
      (case gm_get (gm_of (st_lastDeliveries s)) name of
         None \<Rightarrow> provider_attempts name (outbox_of s) zero_time ps
       | Some ds \<Rightarrow>
           provider_attempts name (outbox_of s) (t_utc (ds_at ds))
             (ps\<lparr>ps_lastStatus := ds_status ds,
                 ps_lastErrorCode := ds_errorCode ds,
                 ps_lastAttemptAt := Some (t_utc (ds_at ds)),
                 ps_lastAcceptedAt := (if ds_status ds = DeliveryAccepted \<and> \<not> t_isZero (ds_at ds)
                                       then Some (t_utc (ds_at ds)) else None)\<rparr>)))"

definition pending_deliveries :: "envelope \<Rightarrow> nat" where
  "pending_deliveries env = length (filter (\<lambda>(p, r). dr_status r = DeliveryPending \<or> dr_status r = DeliveryAmbiguous)
     (env_deliveries env))"

definition buildStatusAt :: "(state \<Rightarrow> nat option) \<Rightarrow> notifyConfig \<Rightarrow> state \<Rightarrow> gotime \<Rightarrow> notifyStatus option" where
  "buildStatusAt jsonLen c s now =
     (if nc_repeatAfter c \<le> 0 \<or> ValidateState jsonLen s \<noteq> None then None
      else Some
        \<lparr>ns_enabled = nc_enabled c,
         ns_repeatAfter = duration_string (nc_repeatAfter c),
         ns_providers = map (provider_status s) (configuredProviderNames c),
         ns_open = sort_key (\<lambda>o'. failureCatalogIndex (os_failureType o'))
           (map (\<lambda>(k, i). \<lparr>os_failureType = inc_failureType i, os_occurrences = inc_occurrences i,
                           os_firstSeenAt = t_utc (inc_firstSeenAt i), os_lastSeenAt = t_utc (inc_lastSeenAt i)\<rparr>)
             (filter (\<lambda>(k, i). inc_phase i = IncidentOpen) (incidents_of s))),
         ns_cooling = sort_key (\<lambda>c. failureCatalogIndex (cs_failureType c))
           (filter (\<lambda>cs. t_before (t_utc now) (cs_rearmsAt cs))
             (map (\<lambda>(k, i). \<lparr>cs_failureType = inc_failureType i, cs_occurrences = inc_occurrences i,
                             cs_rearmsAt = t_utc (t_add (inc_lastFailureEnqueuedAt i) (nc_repeatAfter c))\<rparr>)
               (filter (\<lambda>(k, i). inc_phase i = IncidentCooling) (incidents_of s)))),
         ns_pending = sum_list (map pending_deliveries (outbox_of s))\<rparr>)"

end
