(* ===== verification/NotifyDelivery.thy ===== *)
theory NotifyDelivery
  imports NotifyTotal NotifyManager
begin

text \<open>
  The properties of delivery: which record the loop takes next, that recording its result keeps
  the state valid, that the loop ends, that removed providers cannot block the outbox, and that the
  state file stays loadable whatever fails.
\<close>

section \<open>The next delivery\<close>

lemma next_loop_Some:
  "next_loop k envs p amb = Some (index, ev, r, n) \<Longrightarrow>
     k \<le> index \<and> index - k < length envs
     \<and> env_event (envs ! (index - k)) = ev \<and> gm_get (env_deliveries (envs ! (index - k))) p = Some r
     \<and> deliverable (envs ! (index - k)) p amb \<and> DeriveNotification ev = Inr n
     \<and> list_all (\<lambda>env. \<not> deliverable env p amb) (take (index - k) envs)"
proof (induction envs arbitrary: k)
  case (Cons env envs)
  show ?case
  proof (cases "deliverable env p amb")
    case True
    then obtain r' where "gm_get (env_deliveries env) p = Some r'"
      by (auto simp: deliverable_def split: option.splits)
    with True Cons.prems show ?thesis by (auto split: sum.splits)
  next
    case False
    with Cons.prems have "next_loop (Suc k) envs p amb = Some (index, ev, r, n)" by simp
    from Cons.IH [OF this] have ih: "Suc k \<le> index" "index - Suc k < length envs"
      "env_event (envs ! (index - Suc k)) = ev" "gm_get (env_deliveries (envs ! (index - Suc k))) p = Some r"
      "deliverable (envs ! (index - Suc k)) p amb" "DeriveNotification ev = Inr n"
      "list_all (\<lambda>env. \<not> deliverable env p amb) (take (index - Suc k) envs)" by simp_all
    moreover obtain j where "index - k = Suc j" "j = index - Suc k"
      using ih(1) by (metis Suc_diff_le diff_Suc_Suc)
    ultimately show ?thesis using False by simp
  qed
qed simp

lemma next_loop_None:
  "next_loop k envs p amb = None \<Longrightarrow> list_all (\<lambda>env. is_ok (DeriveNotification (env_event env))) envs
    \<Longrightarrow> list_all (\<lambda>env. \<not> deliverable env p amb) envs"
  by (induction envs arbitrary: k) (auto simp: is_ok_iff split: if_splits sum.splits)

lemma next_loop_exists:
  "list_ex (\<lambda>env. deliverable env p amb) envs
    \<Longrightarrow> list_all (\<lambda>env. is_ok (DeriveNotification (env_event env))) envs
    \<Longrightarrow> next_loop k envs p amb \<noteq> None"
  by (induction envs arbitrary: k) (auto simp: is_ok_iff split: sum.splits)

text \<open>The loop serves a provider in the order of the outbox: it takes the oldest envelope with
  a pending record for the provider, or an ambiguous one whose incident was just reminded; records
  that are accepted, permanently failed or retired are never taken again.\<close>

theorem next_delivery_is_oldest:
  assumes "nextDelivery s p amb = Some (index, ev, r, n)"
  shows "index < length (outbox_of s) \<and> env_event (outbox_of s ! index) = ev
    \<and> gm_get (env_deliveries (outbox_of s ! index)) p = Some r
    \<and> (dr_status r = DeliveryPending \<or> dr_status r = DeliveryAmbiguous \<and> eventContainsIncident ev amb)
    \<and> \<not> terminal_status (dr_status r)
    \<and> list_all (\<lambda>env. \<not> deliverable env p amb) (take index (outbox_of s))
    \<and> DeriveNotification ev = Inr n"
proof -
  note f = next_loop_Some [OF assms [unfolded nextDelivery_def], simplified]
  have "dr_status r = DeliveryPending \<or> dr_status r = DeliveryAmbiguous \<and> eventContainsIncident ev amb"
    using f by (auto simp: deliverable_def)
  then show ?thesis using f by (auto simp: terminal_status_def)
qed

definition example_envelope :: envelope where
  "example_envelope = \<lparr>env_event = example_event, env_deliveries = [(''slack'', pending_record)]\<rparr>"

definition example_state :: state where
  "example_state = EmptyState\<lparr>st_outbox := Some [example_envelope]\<rparr>"

lemma next_delivery_is_oldest_witness:
  "\<exists>n. nextDelivery example_state ''slack'' [] = Some (0, example_event, pending_record, n)
    \<and> list_all (\<lambda>env. \<not> deliverable env ''slack'' []) (take 0 (outbox_of example_state))
    \<and> DeriveNotification example_event = Inr n"
proof -
  obtain n where n: "DeriveNotification example_event = Inr n"
    using event_derives [OF example_event_valid] by blast
  have a: "nextDelivery example_state ''slack'' [] = Some (0, example_event, pending_record, n)"
    using n by (simp add: nextDelivery_def example_state_def outbox_of_def example_envelope_def deliverable_def
        pending_record_def gm_get_def)
  show ?thesis using next_delivery_is_oldest [OF a] a by blast
qed

section \<open>Recording a result\<close>

lemma safe_literals:
  "validSafeCode ''invalid_receipt'' 64" "validSafeCode ''delivery_canceled'' 64"
  "validSafeCode ''delivery_timeout'' 64" "validSafeCode ''delivery_failed'' 64" "validSafeCode [] 64"
  by (simp_all add: validSafeCode_def in_bytes_def isLowerByte_def isDigitByte_def)

text \<open>What a classification promises about its status and code.\<close>

lemma classify_cases:
  assumes "classifyDeliveryResult p rc err at = (status, code)"
  shows "status = DeliveryAccepted \<and> code = []
        \<and> validateDeliveryRecord p \<lparr>dr_status = DeliveryAccepted, dr_attempts = 1, dr_lastAttemptAt = at,
             dr_errorCode = [], dr_receipt = rc\<rparr> = None
    \<or> (status = DeliveryPermanentError \<or> status = DeliveryAmbiguous \<or> status = DeliveryPending)
        \<and> code \<noteq> [] \<and> validSafeCode code 64"
proof (cases err)
  case None
  then show ?thesis using assms safe_literals by (auto simp: classifyDeliveryResult_def Let_def split: if_splits)
next
  case (Some e)
  have fallback: "(if pe_canceled e then (DeliveryPending, ''delivery_canceled'')
      else if pe_deadline e then (DeliveryAmbiguous, ''delivery_timeout'')
      else (DeliveryPending, ''delivery_failed'')) = (status, code) \<Longrightarrow> ?thesis"
    using safe_literals by (auto split: if_splits)
  show ?thesis
  proof (cases "pe_delivery e")
    case None
    then show ?thesis using assms Some fallback by (simp add: classifyDeliveryResult_def)
  next
    case (Some kc)
    obtain kind c where kc: "kc = (kind, c)" by (cases kc)
    show ?thesis
      using assms \<open>err = Some e\<close> Some kc fallback
      by (cases "validSafeCode c 64 \<and> c \<noteq> []"; cases "kind = DeliveryErrorPermanent";
          cases "kind = DeliveryErrorAmbiguous"; cases "kind = DeliveryErrorTemporary")
         (auto simp: classifyDeliveryResult_def)
  qed
qed

lemma updated_record_valid:
  assumes "validate_delivery p r = None" "classifyDeliveryResult p rc err at1 = (status, code)"
    "dr_attempts r < int64_max" "\<not> t_isZero at2"
  shows "validate_delivery p (updated_record r rc status code at2) = None"
    "terminal_status status \<longleftrightarrow> status = DeliveryAccepted \<or> status = DeliveryPermanentError"
proof -
  have pn: "validProviderName p" and att: "0 \<le> dr_attempts r"
    using assms(1) by (auto simp: validate_delivery_def validateDeliveryRecord_def Let_def split: if_splits)
  have inc: "int64_add (dr_attempts r) 1 = dr_attempts r + 1"
    using assms(3) att by (intro int64_add_exact) (simp add: is_int64_def int64_min_def)
  have zr: "\<not> receipt_present zero_receipt" by (simp add: receipt_present_def zero_receipt_def t_isZero_def)
  from classify_cases [OF assms(2)]
  show "validate_delivery p (updated_record r rc status code at2) = None"
  proof
    assume a: "status = DeliveryAccepted \<and> code = []
        \<and> validateDeliveryRecord p \<lparr>dr_status = DeliveryAccepted, dr_attempts = 1, dr_lastAttemptAt = at1,
             dr_errorCode = [], dr_receipt = rc\<rparr> = None"
    then have "receipt_present rc \<and> rc_provider rc = p \<and> rc_externalID rc \<noteq> []
        \<and> length (rc_externalID rc) \<le> 256 \<and> utf8_valid (rc_externalID rc) \<and> \<not> t_isZero (rc_acceptedAt rc)"
      by (auto simp: validateDeliveryRecord_def Let_def split: if_splits)
    then show ?thesis
      using pn a inc att assms(4) safe_literals
      by (simp add: validate_delivery_def valid_status_def validateDeliveryRecord_def Let_def updated_record_def)
  next
    assume "(status = DeliveryPermanentError \<or> status = DeliveryAmbiguous \<or> status = DeliveryPending)
        \<and> code \<noteq> [] \<and> validSafeCode code 64"
    then show ?thesis
      using pn inc att assms(4) zr
      by (auto simp: validate_delivery_def valid_status_def validateDeliveryRecord_def Let_def updated_record_def)
  qed
  show "terminal_status status \<longleftrightarrow> status = DeliveryAccepted \<or> status = DeliveryPermanentError"
    using classify_cases [OF assms(2)] by (auto simp: terminal_status_def)
qed

section \<open>Recording keeps the state good\<close>

lemma delivery_simps [simp]:
  "incidents_of (put_delivery k p r s) = incidents_of s"
  "st_lastDeliveries (put_delivery k p r s) = st_lastDeliveries s"
  "incidents_of (recordDeliverySummary s ds) = incidents_of s"
  "outbox_of (recordDeliverySummary s ds) = outbox_of s"
  "gm_of (st_lastDeliveries (recordDeliverySummary s ds)) = gm_put (ds_provider ds) ds (gm_of (st_lastDeliveries s))"
  "incidents_of (pruneTerminalEnvelopes s) = incidents_of s"
  "st_lastDeliveries (pruneTerminalEnvelopes s) = st_lastDeliveries s"
  by (simp_all add: put_delivery_def recordDeliverySummary_def pruneTerminalEnvelopes_def incidents_of_def gm_of_def)

lemma outbox_put_delivery:
  "outbox_of (put_delivery k p r s) = (outbox_of s)[k := (outbox_of s ! k)
     \<lparr>env_deliveries := gm_put p r (env_deliveries (outbox_of s ! k))\<rparr>]"
  by (simp add: put_delivery_def)

lemma outbox_prune:
  "outbox_of (pruneTerminalEnvelopes s) = filter (\<lambda>env. \<not> envelope_terminal env) (outbox_of s)"
  by (cases "st_outbox s") (simp_all add: pruneTerminalEnvelopes_def outbox_of_def)

lemma good_prune_terminal: "good s \<Longrightarrow> good (pruneTerminalEnvelopes s)"
  by (auto simp: good_def state_keys_def outbox_prune list_all_iff intro: order_trans [OF length_filter_le])
     (simp_all add: pruneTerminalEnvelopes_def)

lemma good_envelope:
  assumes "good s" "k < length (outbox_of s)"
  shows "envelope_valid (outbox_of s ! k)" "gm_ok (env_deliveries (outbox_of s ! k))"
  using assms by (simp_all add: good_def state_keys_def list_all_length)

lemma good_delivery_valid:
  assumes "good s" "k < length (outbox_of s)" "gm_get (env_deliveries (outbox_of s ! k)) p = Some r"
  shows "validate_delivery p r = None"
  using good_envelope(1) [OF assms(1,2)] gm_get_SomeD [OF assms(3)]
  by (auto simp: envelope_valid_def deliveries_valid_def list_all_iff)

lemma good_put_delivery:
  assumes "good s" "k < length (outbox_of s)" "gm_get (env_deliveries (outbox_of s ! k)) p = Some r0"
    "validate_delivery p r = None"
  shows "good (put_delivery k p r s)"
proof -
  let ?env = "outbox_of s ! k"
  let ?env' = "?env\<lparr>env_deliveries := gm_put p r (env_deliveries ?env)\<rparr>"
  note e = good_envelope [OF assms(1,2)]
  have "p \<in> gm_keys (env_deliveries ?env)" using gm_get_None_iff [of "env_deliveries ?env" p] assms(3) by auto
  then have len: "length (gm_put p r (env_deliveries ?env)) = length (env_deliveries ?env)"
    by (simp add: gm_length_put)
  moreover have "gm_put p r (env_deliveries ?env) \<noteq> []"
    using len e(1) by (auto simp: envelope_valid_def deliveries_valid_def)
  ultimately have "envelope_valid ?env'"
    using e assms(4) by (auto simp: envelope_valid_def deliveries_valid_def list_all_iff gm_put_set)
  then have "list_all envelope_valid (outbox_of (put_delivery k p r s))"
    "list_all (\<lambda>env. gm_ok (env_deliveries env)) (outbox_of (put_delivery k p r s))"
    using assms(1,2) e(2)
    by (simp_all add: outbox_put_delivery good_def state_keys_def list_all_length nth_list_update)
  moreover have "st_schema (put_delivery k p r s) = st_schema s"
    "st_lastDelivery (put_delivery k p r s) = st_lastDelivery s"
    "st_incidents (put_delivery k p r s) = st_incidents s" "st_outbox (put_delivery k p r s) \<noteq> None"
    by (simp_all add: put_delivery_def)
  ultimately show ?thesis
    using assms(1) by (simp add: good_def state_keys_def) (simp add: outbox_put_delivery)
qed

definition roomy :: "string \<Rightarrow> state \<Rightarrow> bool" where
  "roomy p s = (p \<in> gm_keys (gm_of (st_lastDeliveries s)) \<or> length (gm_of (st_lastDeliveries s)) < maxProviders)"

lemma good_record_summary:
  assumes "good s" "roomy (ds_provider ds) s" "validate_last_delivery (ds_provider ds) ds = None"
  shows "good (recordDeliverySummary s ds)"
proof -
  let ?m = "gm_of (st_lastDeliveries s)"
  have ok: "gm_ok ?m" using assms(1) by (simp add: good_def state_keys_def)
  have "summaries_valid (gm_put (ds_provider ds) ds ?m)"
    using assms ok by (auto simp: good_def summaries_valid_def roomy_def gm_length_put list_all_iff gm_put_set)
  moreover have "st_schema (recordDeliverySummary s ds) = st_schema s"
    "st_lastDelivery (recordDeliverySummary s ds) = st_lastDelivery s"
    "st_incidents (recordDeliverySummary s ds) = st_incidents s"
    "st_outbox (recordDeliverySummary s ds) = st_outbox s"
    "st_lastDeliveries (recordDeliverySummary s ds) \<noteq> None"
    by (simp_all add: recordDeliverySummary_def)
  ultimately show ?thesis using assms(1) ok by (simp add: good_def state_keys_def)
qed

lemma derived_id_valid:
  assumes "DeriveNotification ev = Inr n"
  shows "validDigestID (nt_id n) ''ntf_''" "valid_kind (ev_kind ev)"
proof -
  have "ValidateNotification n = None"
    using assms
    by (auto simp: DeriveNotification_def BuildFailureMessage_def BuildReminderMessage_def BuildRecoveryMessage_def
        validated_def Let_def split: option.splits sum.splits if_splits)
  then show "validDigestID (nt_id n) ''ntf_''" by (auto simp: ValidateNotification_def split: if_splits)
  show "valid_kind (ev_kind ev)"
    using derive_facts(1) [OF assms]
    by (auto simp: ValidateEventFacts_def event_shape_def valid_kind_def split: if_splits option.splits)
qed

lemma update_good:
  assumes g: "good s" and k: "k < length (outbox_of s)" and ev: "env_event (outbox_of s ! k) = ev"
    and r: "gm_get (env_deliveries (outbox_of s ! k)) p = Some r" and n: "DeriveNotification ev = Inr n"
    and c: "classifyDeliveryResult p rc err at1 = (status, code)"
    and low: "dr_attempts r < int64_max" and at2: "\<not> t_isZero at2" and room: "roomy p s"
  obtains s' where "updateMatchingDelivery s k ev p r rc status code at2 = Some s'" "good s'" "roomy p s'"
    "outbox_of s' = outbox_of (put_delivery k p (updated_record r rc status code at2) s)"
proof -
  let ?r = "updated_record r rc status code at2"
  let ?s = "put_delivery k p ?r s"
  have valid: "validate_delivery p ?r = None"
    by (rule updated_record_valid(1) [OF good_delivery_valid [OF g k r] c low at2])
  have gs: "good ?s" by (rule good_put_delivery [OF g k r valid])
  have room': "roomy p ?s" using room by (simp add: roomy_def)
  let ?ds = "\<lparr>ds_notificationID = nt_id n, ds_provider = p, ds_kind = ev_kind ev,
                    ds_status = status, ds_errorCode = dr_errorCode ?r,
                    ds_at = t_utc (if status = DeliveryAccepted then rc_acceptedAt rc
                                   else dr_lastAttemptAt ?r)\<rparr>"
  have eq: "updateMatchingDelivery s k ev p r rc status code at2
      = Some (if status = DeliveryAccepted \<or> status = DeliveryPermanentError then recordDeliverySummary ?s ?ds else ?s)"
    using k ev r n by (simp add: updateMatchingDelivery_def Let_def)
  show ?thesis
  proof (cases "status = DeliveryAccepted \<or> status = DeliveryPermanentError")
    case False
    then show ?thesis using that eq gs room' by simp
  next
    case True
    have "validate_last_delivery p ?ds = None"
      using True derived_id_valid [OF n] valid at2 classify_cases [OF c] safe_literals
      by (auto simp: validate_last_delivery_def validateDeliverySummary_def validate_delivery_def updated_record_def
          validateDeliveryRecord_def Let_def split: if_splits)
    then have "good (recordDeliverySummary ?s ?ds)"
      using good_record_summary [OF gs, of ?ds] room' by simp
    moreover have "roomy p (recordDeliverySummary ?s ?ds)" by (simp add: roomy_def)
    ultimately show ?thesis using that eq True by simp
  qed
qed

section \<open>The loop ends\<close>

definition smooth :: "attempt \<Rightarrow> bool" where
  "smooth a = (at_load1 a \<and> at_load2 a \<and> at_replace a = Written \<and> \<not> t_isZero (at_now2 a)
     \<and> (\<forall>f. at_meanwhile a f = f))"

definition deliverable_count :: "state \<Rightarrow> string \<Rightarrow> string list \<Rightarrow> nat" where
  "deliverable_count s p amb = length (filter (\<lambda>env. deliverable env p amb) (outbox_of s))"

definition attempts_low :: "state \<Rightarrow> string \<Rightarrow> string list \<Rightarrow> bool" where
  "attempts_low s p amb = list_all (\<lambda>env. \<not> deliverable env p amb
     \<or> (case gm_get (env_deliveries env) p of None \<Rightarrow> True | Some r \<Rightarrow> dr_attempts r < int64_max)) (outbox_of s)"

lemma length_filter_update:
  assumes "k < length xs" "P (xs ! k)" "\<not> P y"
  shows "Suc (length (filter P (xs[k := y]))) = length (filter P xs)"
proof -
  have "xs = take k xs @ xs ! k # drop (Suc k) xs" using assms(1) by (rule id_take_nth_drop)
  then have a: "filter P xs = filter P (take k xs) @ xs ! k # filter P (drop (Suc k) xs)"
    using assms(2) by (metis (no_types, lifting) filter.simps(2) filter_append)
  have b: "filter P (xs[k := y]) = filter P (take k xs) @ filter P (drop (Suc k) xs)"
    using assms(1,3) by (simp add: upd_conv_take_nth_drop)
  show ?thesis unfolding a b by simp
qed

lemma deliverable_not_terminal: "deliverable env p amb \<Longrightarrow> \<not> envelope_terminal env"
proof
  assume d: "deliverable env p amb" and t: "envelope_terminal env"
  then obtain r where r: "gm_get (env_deliveries env) p = Some r" "\<not> terminal_status (dr_status r)"
    by (auto simp: deliverable_def terminal_status_def split: option.splits)
  from gm_get_SomeD [OF r(1)] t r(2) show False by (auto simp: envelope_terminal_def list_all_iff)
qed

lemma filter_prune: "filter (\<lambda>env. deliverable env p amb) (outbox_of (pruneTerminalEnvelopes s))
    = filter (\<lambda>env. deliverable env p amb) (outbox_of s)"
  unfolding outbox_prune filter_filter using deliverable_not_terminal by (metis (mono_tags))

lemma good_load:
  assumes "good s" "\<And>t. encodable jsonLen t"
  shows "loadState jsonLen True (Some s) = Inr s" "Replace jsonLen Written s file = (None, Some s)"
proof -
  have v: "ValidateState jsonLen s = None" using assms good_iff ValidateState_iff by blast
  have "st_schema s \<noteq> StateSchemaV1" using assms(1) by (simp add: good_def)
  then show "loadState jsonLen True (Some s) = Inr s" "Replace jsonLen Written s file = (None, Some s)"
    using v by (simp_all add: loadState_def decodeState_def Replace_def)
qed

lemma delivery_loop_ends:
  assumes "\<And>t. encodable jsonLen t" "good s" "roomy p s" "attempts_low s p amb"
    "list_all smooth as" "deliverable_count s p amb < length as"
  shows "\<exists>f' s'. deliverProvider jsonLen p amb failed as (Some s) = Some (f', Some s') \<and> good s'
    \<and> (\<not> f' \<longrightarrow> \<not> failed \<and> deliverable_count s' p amb = 0)"
  using assms
proof (induction as arbitrary: s failed)
  case (Cons a as)
  have sm: "at_load1 a" "at_load2 a" "at_replace a = Written" "\<not> t_isZero (t_utc (at_now2 a))" "\<And>f. at_meanwhile a f = f"
    using Cons.prems(5) by (simp_all add: smooth_def)
  have load: "loadState jsonLen True (Some s) = Inr s" by (rule good_load [OF Cons.prems(2,1)])
  show ?case
  proof (cases "nextDelivery s p amb")
    case None
    have "list_all (\<lambda>env. is_ok (DeriveNotification (env_event env))) (outbox_of s)"
      using Cons.prems(2) by (auto simp: good_def list_all_iff envelope_valid_def)
    then have "deliverable_count s p amb = 0"
      using next_loop_None [OF None [unfolded nextDelivery_def]] by (auto simp: deliverable_count_def list_all_iff)
    then show ?thesis using None load sm Cons.prems(2) by simp
  next
    case (Some res)
    obtain k ev r n where res: "nextDelivery s p amb = Some (k, ev, r, n)" using Some by (cases res) auto
    have f: "k < length (outbox_of s)" "env_event (outbox_of s ! k) = ev"
      "gm_get (env_deliveries (outbox_of s ! k)) p = Some r" "DeriveNotification ev = Inr n"
      "deliverable (outbox_of s ! k) p amb"
      using next_loop_Some [OF res [unfolded nextDelivery_def]] by simp_all
    obtain status code where c: "classifyDeliveryResult p (at_receipt a) (at_error a) (t_utc (at_now1 a)) = (status, code)"
      by fastforce
    have low: "dr_attempts r < int64_max"
      using Cons.prems(4) f(1,3,5) by (auto simp: attempts_low_def list_all_length)
    obtain s' where u: "updateMatchingDelivery s k ev p r (at_receipt a) status code (t_utc (at_now2 a)) = Some s'"
      and gs: "good s'" and rs: "roomy p s'"
      and ob: "outbox_of s' = outbox_of (put_delivery k p (updated_record r (at_receipt a) status code (t_utc (at_now2 a))) s)"
      by (rule update_good [OF Cons.prems(2) f(1-4) c low sm(4) Cons.prems(3)])
    let ?s = "pruneTerminalEnvelopes s'"
    have gp: "good ?s" by (rule good_prune_terminal [OF gs])
    have step: "deliverProvider jsonLen p amb failed (a # as) (Some s) =
        (if status = DeliveryPending \<or> status = DeliveryAmbiguous
         then Some (failed \<or> status \<noteq> DeliveryAccepted, Some ?s)
         else deliverProvider jsonLen p amb (failed \<or> status \<noteq> DeliveryAccepted) as (Some ?s))"
      using sm load res c u good_load(2) [OF gp Cons.prems(1)] by (simp add: Let_def)
    show ?thesis
    proof (cases "status = DeliveryPending \<or> status = DeliveryAmbiguous")
      case True
      then show ?thesis using step gp by auto
    next
      case False
      let ?env = "(outbox_of s ! k)\<lparr>env_deliveries := gm_put p
        (updated_record r (at_receipt a) status code (t_utc (at_now2 a))) (env_deliveries (outbox_of s ! k))\<rparr>"
      have ob': "outbox_of s' = (outbox_of s)[k := ?env]" using ob by (simp add: outbox_put_delivery)
      have nd: "\<not> deliverable ?env p amb"
        using False by (simp add: deliverable_def updated_record_def)
      have count: "Suc (deliverable_count ?s p amb) = deliverable_count s p amb"
        unfolding deliverable_count_def filter_prune ob'
        using length_filter_update [of k "outbox_of s" "\<lambda>env. deliverable env p amb" ?env] f(1,5) nd by blast
      have "attempts_low s' p amb"
        using Cons.prems(4) nd f(1) unfolding attempts_low_def ob'
        by (auto simp: list_all_length nth_list_update)
      then have low': "attempts_low ?s p amb"
        by (auto simp: attempts_low_def outbox_prune list_all_iff)
      have room: "roomy p ?s" using rs by (simp add: roomy_def)
      have rest: "list_all smooth as" "deliverable_count ?s p amb < length as"
        using Cons.prems(5,6) count by simp_all
      have "\<exists>f' t. deliverProvider jsonLen p amb (failed \<or> status \<noteq> DeliveryAccepted) as (Some ?s) = Some (f', Some t)
          \<and> good t \<and> (\<not> f' \<longrightarrow> \<not> (failed \<or> status \<noteq> DeliveryAccepted) \<and> deliverable_count t p amb = 0)"
        by (rule Cons.IH [OF Cons.prems(1) gp room low' rest])
      then show ?thesis using step False by auto
    qed
  qed
qed simp

text \<open>C31. A delivery round ends: with the store and the clock working and nobody else writing the
  file, the loop of a provider returns within one turn per delivery it may take plus one, it leaves
  the state file valid, and when it reports no failure no such delivery is left. A
  provider's answer, valid or not, can never produce a record the store refuses. The state has a summary of the
  provider or room for one (\<open>roomy\<close>), and no attempt counter of the provider is at its maximum
  (\<open>attempts_low\<close>).\<close>

theorem delivery_round_ends:
  assumes "\<And>t. encodable jsonLen t" "good s" "roomy p s" "attempts_low s p amb"
    "list_all smooth as" "deliverable_count s p amb < length as"
  shows "\<exists>failed s'. deliverProvider jsonLen p amb False as (Some s) = Some (failed, Some s') \<and> good s'
    \<and> (failed \<or> deliverable_count s' p amb = 0)"
  using delivery_loop_ends [where failed = False, OF assms] by blast

definition example_attempt :: attempt where
  "example_attempt = \<lparr>at_load1 = True, at_receipt = \<lparr>rc_provider = ''slack'', rc_externalID = ''m1'',
      rc_acceptedAt = \<lparr>instant = 63902649661 * 1000000000, utc_loc = True\<rparr>\<rparr>, at_error = None,
    at_now1 = \<lparr>instant = 63902649661 * 1000000000, utc_loc = True\<rparr>, at_meanwhile = (\<lambda>f. f), at_load2 = True,
    at_now2 = \<lparr>instant = 63902649661 * 1000000000, utc_loc = True\<rparr>, at_replace = Written\<rparr>"

lemma example_state_good: "good example_state"
proof -
  obtain n where n: "DeriveNotification example_event = Inr n"
    using event_derives [OF example_event_valid] by blast
  have "validate_delivery ''slack'' pending_record = None"
    by (rule pending_record_valid) (simp add: validProviderName_def maxProviderBytes_def isLowerByte_def isDigitByte_def)
  then show ?thesis
    using n by (simp add: good_def example_state_def EmptyState_def state_keys_def incidents_of_def outbox_of_def gm_of_def
      summaries_valid_def incidents_valid_def example_envelope_def envelope_valid_def deliveries_valid_def
      maxProviders_def maxStateEnvelopes_def gm_ok_def)
qed

lemma delivery_round_ends_witness:
  "\<exists>failed s'. deliverProvider (\<lambda>_. Some 0) ''slack'' [] False [example_attempt, example_attempt] (Some example_state)
      = Some (failed, Some s') \<and> good s' \<and> (failed \<or> deliverable_count s' ''slack'' [] = 0)"
proof (rule delivery_round_ends)
  show "encodable (\<lambda>_. Some 0) t" for t by (simp add: encodable_def)
  show "good example_state" by (rule example_state_good)
  show "roomy ''slack'' example_state"
    by (simp add: roomy_def example_state_def EmptyState_def gm_of_def maxProviders_def)
  show "attempts_low example_state ''slack'' []"
    by (simp add: attempts_low_def example_state_def outbox_of_def example_envelope_def gm_get_def
        pending_record_def int64_max_def)
  show "list_all smooth [example_attempt, example_attempt]"
    by (simp add: smooth_def example_attempt_def t_isZero_def)
  show "deliverable_count example_state ''slack'' [] < length [example_attempt, example_attempt]"
    by (simp add: deliverable_count_def example_state_def outbox_of_def)
qed

section \<open>Removed providers\<close>

definition retired :: "deliveryRecord \<Rightarrow> deliveryRecord" where
  "retired r = (if terminal_status (dr_status r) then r
     else r\<lparr>dr_status := DeliveryRetired, dr_errorCode := [], dr_receipt := zero_receipt\<rparr>)"

lemma retired_terminal: "terminal_status (dr_status (retired r))"
  by (simp add: retired_def terminal_status_def)

lemma retired_idem: "terminal_status (dr_status r) \<Longrightarrow> retired r = r"
  by (simp add: retired_def)

lemma retire_loop_get:
  "gm_ok ds \<Longrightarrow> retire_loop ps cfg nid kind at ds last' = (ds', last'') \<Longrightarrow>
     gm_ok ds' \<and> (\<forall>q. gm_get ds' q = (if q \<in> set ps \<and> q \<notin> set cfg then map_option retired (gm_get ds q) else gm_get ds q))"
proof (induction ps arbitrary: ds last')
  case (Cons p ps)
  show ?case
  proof (cases "p \<in> set cfg")
    case True
    then show ?thesis using Cons.IH [OF Cons.prems(1)] Cons.prems(2) by auto
  next
    case nc: False
    show ?thesis
    proof (cases "gm_get ds p")
      case None
      then show ?thesis using Cons.IH [OF Cons.prems(1)] Cons.prems(2) nc by auto
    next
      case (Some r)
      show ?thesis
      proof (cases "terminal_status (dr_status r)")
        case True
        then have "retire_loop ps cfg nid kind at ds last' = (ds', last'')" using Cons.prems(2) nc Some by simp
        from Cons.IH [OF Cons.prems(1) this] show ?thesis using Some nc retired_idem [OF True] by auto
      next
        case False
        let ?ds = "gm_put p (retired r) ds"
        have "\<exists>l. retire_loop ps cfg nid kind at ?ds l = (ds', last'')"
          using Cons.prems(2) nc Some False by (simp add: retired_def) blast
        then obtain l where "retire_loop ps cfg nid kind at ?ds l = (ds', last'')" ..
        from Cons.IH [OF _ this] Cons.prems(1)
        have ih: "gm_ok ds'" "gm_get ds' q = (if q \<in> set ps \<and> q \<notin> set cfg then map_option retired (gm_get ?ds q)
            else gm_get ?ds q)" for q by simp_all
        have "retired (retired r) = retired r" using retired_idem [OF retired_terminal] .
        then show ?thesis using ih Some nc by auto
      qed
    qed
  qed
qed simp

definition retire_relation :: "string list \<Rightarrow> envelope \<Rightarrow> envelope \<Rightarrow> bool" where
  "retire_relation cfg env env' = (env_event env' = env_event env \<and> gm_ok (env_deliveries env')
     \<and> (\<forall>q. gm_get (env_deliveries env') q = (if q \<in> set cfg then gm_get (env_deliveries env) q
          else map_option retired (gm_get (env_deliveries env) q))))"

lemma retire_envelopes_relation:
  "list_all (\<lambda>env. gm_ok (env_deliveries env)) envs \<Longrightarrow> retire_envelopes envs cfg at last' = Inr (envs', last'')
    \<Longrightarrow> list_all2 (retire_relation cfg) envs envs'"
proof (induction envs arbitrary: last' last'' envs')
  case (Cons env envs)
  obtain n where n: "DeriveNotification (env_event env) = Inr n" using Cons.prems(2) by (auto split: sum.splits)
  obtain ds l where loop: "retire_loop (sort (map fst (env_deliveries env))) cfg (nt_id n) (ev_kind (env_event env)) at
      (env_deliveries env) last' = (ds, l)" by fastforce
  obtain rest l2 where rest: "retire_envelopes envs cfg at l = Inr (rest, l2)"
    and envs': "envs' = env\<lparr>env_deliveries := ds\<rparr> # rest"
    using Cons.prems(2) n loop by (auto split: sum.splits)
  have ok: "gm_ok (env_deliveries env)" using Cons.prems(1) by simp
  note g = retire_loop_get [OF ok loop]
  have "gm_get (env_deliveries env) q = None" if "q \<notin> set (sort (map fst (env_deliveries env)))" for q
    using that by (simp add: gm_get_None_iff)
  then have "retire_relation cfg env (env\<lparr>env_deliveries := ds\<rparr>)"
    unfolding retire_relation_def using g by (metis (no_types, lifting) envelope.simps(1,2,4) envelope.surjective
        envelope.update_convs(2) option.map_disc_iff)
  then show ?case using Cons.IH [OF _ rest] Cons.prems(1) envs' by simp
qed simp

text \<open>A provider that was removed from the configuration cannot hold an envelope in the outbox:
  retiring leaves the records of configured providers alone and makes every other one terminal, so
  after the cleanup each envelope that remains still has unfinished work for a configured
  provider.\<close>

theorem removed_provider_cannot_block:
  assumes "state_keys s" "retireRemovedProviders s configured at = Inr s'"
  shows "list_all2 (retire_relation configured) (outbox_of s) (outbox_of s')
    \<and> list_all (\<lambda>env. list_ex (\<lambda>(p, r). p \<in> set configured \<and> \<not> terminal_status (dr_status r)) (env_deliveries env))
        (outbox_of (pruneTerminalEnvelopes s'))"
proof -
  obtain envs l where r: "retire_envelopes (outbox_of s) configured at (gm_of (st_lastDeliveries s)) = Inr (envs, l)"
    and s': "st_outbox s' = map_option (\<lambda>_. envs) (st_outbox s)"
    using assms(2) by (auto simp: retireRemovedProviders_def split: sum.splits prod.splits)
  have rel: "list_all2 (retire_relation configured) (outbox_of s) envs"
    using assms(1) by (intro retire_envelopes_relation [OF _ r]) (simp add: state_keys_def)
  have ob: "outbox_of s' = envs"
    using s' rel by (cases "st_outbox s") (simp_all add: outbox_of_def)
  have "list_ex (\<lambda>(p, r). p \<in> set configured \<and> \<not> terminal_status (dr_status r)) (env_deliveries env')"
    if e: "env' \<in> set envs" "\<not> envelope_terminal env'" for env'
  proof -
    obtain env where env: "retire_relation configured env env'"
      using e(1) rel by (metis in_set_conv_nth list_all2_conv_all_nth)
    obtain p r where pr: "(p, r) \<in> set (env_deliveries env')" "\<not> terminal_status (dr_status r)"
      using e(2) by (auto simp: envelope_terminal_def list_all_iff)
    have "gm_ok (env_deliveries env')" using env by (simp add: retire_relation_def)
    then have "gm_get (env_deliveries env') p = Some r" using pr(1) by (simp add: gm_get_Some_iff)
    then have "p \<in> set configured"
      using env pr(2) retired_terminal by (auto simp: retire_relation_def split: if_splits)
    then show ?thesis using pr by (auto simp: list_ex_iff)
  qed
  then show ?thesis using rel by (simp add: ob outbox_prune list_all_iff)
qed

lemma removed_provider_cannot_block_witness:
  "\<exists>s'. retireRemovedProviders example_state [''buzz''] zero_time = Inr s'
    \<and> list_all2 (retire_relation [''buzz'']) (outbox_of example_state) (outbox_of s')
    \<and> list_all (\<lambda>env. list_ex (\<lambda>(p, r). p \<in> set [''buzz''] \<and> \<not> terminal_status (dr_status r)) (env_deliveries env))
        (outbox_of (pruneTerminalEnvelopes s'))"
proof -
  obtain n where n: "DeriveNotification example_event = Inr n"
    using event_derives [OF example_event_valid] by blast
  have "\<exists>s'. retireRemovedProviders example_state [''buzz''] zero_time = Inr s'"
    using n by (simp add: retireRemovedProviders_def example_state_def outbox_of_def example_envelope_def
        gm_get_def pending_record_def terminal_status_def split: prod.split)
  then obtain s' where s': "retireRemovedProviders example_state [''buzz''] zero_time = Inr s'" ..
  have k: "state_keys example_state" using example_state_good good_iff by blast
  show ?thesis using removed_provider_cannot_block [OF k s'] s' by blast
qed

section \<open>The state file\<close>

definition file_ok :: "(state \<Rightarrow> nat option) \<Rightarrow> stateFile \<Rightarrow> bool" where
  "file_ok jsonLen f = (case f of None \<Rightarrow> True | Some s \<Rightarrow> ValidateState jsonLen s = None)"

lemma Replace_file_ok: "Replace jsonLen w s f = (e, f') \<Longrightarrow> file_ok jsonLen f \<Longrightarrow> file_ok jsonLen f'"
  by (auto simp: Replace_def file_ok_def split: option.splits writeOutcome.splits)

definition harmless :: "(state \<Rightarrow> nat option) \<Rightarrow> attempt \<Rightarrow> bool" where
  "harmless jsonLen a = (\<forall>f. file_ok jsonLen f \<longrightarrow> file_ok jsonLen (at_meanwhile a f))"

lemma deliverProvider_file_ok:
  "deliverProvider jsonLen p amb failed as f = Some (b, f') \<Longrightarrow> file_ok jsonLen f \<Longrightarrow> list_all (harmless jsonLen) as
    \<Longrightarrow> file_ok jsonLen f'"
proof (induction as arbitrary: f failed)
  case (Cons a as)
  have h: "file_ok jsonLen (at_meanwhile a f)" using Cons.prems(2,3) by (simp add: harmless_def)
  show ?case
    using Cons.prems(1,2) h Cons.IH Cons.prems(3)
    by (auto simp: Let_def split: sum.splits option.splits prod.splits if_splits dest: Replace_file_ok)
qed simp

lemma deliver_all_file_ok:
  "deliver_all jsonLen ps amb attempts failed f = Some (b, f') \<Longrightarrow> file_ok jsonLen f
    \<Longrightarrow> (\<And>p. list_all (harmless jsonLen) (attempts p)) \<Longrightarrow> file_ok jsonLen f'"
proof (induction ps arbitrary: failed f)
  case (Cons q ps)
  show ?case
  proof (cases q)
    case None
    then show ?thesis using Cons by simp
  next
    case (Some p)
    then obtain b1 f1 where d: "deliverProvider jsonLen p amb False (attempts p) f = Some (b1, f1)"
      "deliver_all jsonLen ps amb attempts (failed \<or> b1) f1 = Some (b, f')"
      using Cons.prems(1) by (auto split: option.splits prod.splits)
    show ?thesis
      by (rule Cons.IH [OF d(2) deliverProvider_file_ok [OF d(1) Cons.prems(2,3)] Cons.prems(3)])
  qed
qed simp

lemma persist_file_ok:
  assumes "persist_and_deliver jsonLen m w attempts s ns failed f = Some (r, f')" "file_ok jsonLen f"
    "\<And>p. list_all (harmless jsonLen) (attempts p)"
  shows "file_ok jsonLen f'"
  using assms
  by (auto simp: persist_and_deliver_def split: sum.splits option.splits prod.splits
      dest: Replace_file_ok deliver_all_file_ok)

text \<open>C32. Whatever fails while an outcome is observed (a load, a validation, a write before or after its rename, a
  delivery, a full outbox with its extra delivery round), \<open>Manager.Observe\<close> leaves a state file the store
  can load again, and the loaded state is valid.\<close>

theorem observe_leaves_file_loadable:
  assumes "Manager_Observe jsonLen m env o' f = Some (r, f')" "file_ok jsonLen f"
    "\<And>p. list_all (harmless jsonLen) (en_attempts1 env p)" "\<And>p. list_all (harmless jsonLen) (en_attempts2 env p)"
    "encodable jsonLen EmptyState"
  shows "\<exists>s. loadState jsonLen True f' = Inr s \<and> ValidateState jsonLen s = None"
proof -
  have ok: "file_ok jsonLen f'"
    using assms(1,2)
    by (auto simp: Manager_Observe_def Let_def
        split: if_splits sum.splits prod.splits option.splits observeError.splits
        dest: Replace_file_ok deliver_all_file_ok [OF _ _ assms(3)] persist_file_ok [OF _ _ assms(4)])
  show ?thesis
  proof (cases f')
    case None
    have "ValidateState jsonLen EmptyState = None"
      using good_empty assms(5) by (simp add: good_iff ValidateState_iff)
    then show ?thesis using None by (simp add: loadState_def)
  next
    case (Some s)
    then have v: "ValidateState jsonLen s = None" using ok by (simp add: file_ok_def)
    then have "st_schema s \<noteq> StateSchemaV1" by (auto simp: ValidateState_iff validate_contents_iff)
    then show ?thesis using v Some by (simp add: loadState_def decodeState_def)
  qed
qed


text \<open>The version 1 file of a state \<open>t\<close> whose only delivery summary is \<open>d\<close>: version 1 kept a single summary, with the
  zero value for none.\<close>

definition v1_file :: "state \<Rightarrow> deliverySummary \<Rightarrow> state" where
  "v1_file t d = t\<lparr>st_schema := StateSchemaV1, st_lastDeliveries := None, st_lastDelivery := d\<rparr>"

definition only_summary :: "deliverySummary \<Rightarrow> (string, deliverySummary) gomap" where
  "only_summary d = (if d = zero_summary then [] else [(ds_provider d, d)])"

lemma decode_v1_file:
  assumes "ValidateState jsonLen t = None" "st_lastDeliveries t = Some (only_summary d)"
  shows "decodeState jsonLen (v1_file t d) = Inr t"
proof -
  have t: "st_schema t = StateSchemaV2" "st_lastDelivery t = zero_summary" "summaries_valid (only_summary d)"
    using assms by (simp_all add: ValidateState_iff validate_contents_iff gm_of_def)
  have "validateDeliverySummary zero_summary = None"
    by (simp add: validateDeliverySummary_def zero_summary_def t_isZero_def)
  then have "validateDeliverySummary d = None"
    using t(3) by (auto simp: only_summary_def summaries_valid_def validate_last_delivery_def split: if_splits)
  moreover have "t\<lparr>st_lastDeliveries := Some (only_summary d), st_lastDelivery := zero_summary, st_schema := StateSchemaV2\<rparr> = t"
    using assms(2) t(1,2) by (cases t) simp
  ultimately show ?thesis
    using assms(1) by (simp add: decodeState_def v1_file_def only_summary_def Let_def split: if_splits)
qed

text \<open>C33. Loading is stable and migrates: what the store decodes is a valid version 2 state that decodes to itself, with
  the incidents and the outbox of the file, and the last delivery of a version 1 file is found under its provider. And
  every version 1 file of a valid state does decode: to that state, with the one summary of the file, if any, as its
  delivery summaries.\<close>

theorem decoded_state_round_trips:
  "(decodeState jsonLen s = Inr s' \<longrightarrow>
      ValidateState jsonLen s' = None \<and> decodeState jsonLen s' = Inr s'
      \<and> Replace jsonLen Written s' f = (None, Some s') \<and> loadState jsonLen True (Some s') = Inr s'
      \<and> st_incidents s' = st_incidents s \<and> st_outbox s' = st_outbox s
      \<and> (st_schema s = StateSchemaV1 \<and> st_lastDelivery s \<noteq> zero_summary \<longrightarrow>
           gm_get (gm_of (st_lastDeliveries s')) (ds_provider (st_lastDelivery s)) = Some (st_lastDelivery s)))
   \<and> (ValidateState jsonLen t = None \<and> st_lastDeliveries t = Some (only_summary d) \<longrightarrow>
        decodeState jsonLen (v1_file t d) = Inr t \<and> loadState jsonLen True (Some (v1_file t d)) = Inr t)"
proof (intro conjI [of "_ \<longrightarrow> _"] impI)
  assume dec: "decodeState jsonLen s = Inr s'"
  then have v: "ValidateState jsonLen s' = None" and same: "st_incidents s' = st_incidents s" "st_outbox s' = st_outbox s"
    and mig: "st_schema s = StateSchemaV1 \<and> st_lastDelivery s \<noteq> zero_summary \<Longrightarrow>
         gm_get (gm_of (st_lastDeliveries s')) (ds_provider (st_lastDelivery s)) = Some (st_lastDelivery s)"
    by (auto simp: decodeState_def Let_def gm_of_def gm_get_def split: if_splits option.splits)
  then have "st_schema s' \<noteq> StateSchemaV1" by (auto simp: ValidateState_iff validate_contents_iff)
  then show "ValidateState jsonLen s' = None \<and> decodeState jsonLen s' = Inr s'
      \<and> Replace jsonLen Written s' f = (None, Some s') \<and> loadState jsonLen True (Some s') = Inr s'
      \<and> st_incidents s' = st_incidents s \<and> st_outbox s' = st_outbox s
      \<and> (st_schema s = StateSchemaV1 \<and> st_lastDelivery s \<noteq> zero_summary \<longrightarrow>
           gm_get (gm_of (st_lastDeliveries s')) (ds_provider (st_lastDelivery s)) = Some (st_lastDelivery s))"
    using v same mig by (simp add: decodeState_def Replace_def loadState_def)
next
  assume "ValidateState jsonLen t = None \<and> st_lastDeliveries t = Some (only_summary d)"
  then show "decodeState jsonLen (v1_file t d) = Inr t \<and> loadState jsonLen True (Some (v1_file t d)) = Inr t"
    using decode_v1_file by (simp add: loadState_def)
qed

text \<open>A version 1 file with one accepted delivery.\<close>

definition accepted_summary :: deliverySummary where
  "accepted_summary = \<lparr>ds_notificationID = ''ntf_'' @ replicate 24 CHR ''a'', ds_provider = ''slack'', ds_kind = EventFailure,
     ds_status = DeliveryAccepted, ds_errorCode = [], ds_at = example_time 0\<rparr>"

definition migrated_state :: state where
  "migrated_state = EmptyState\<lparr>st_lastDeliveries := Some [(''slack'', accepted_summary)]\<rparr>"

lemma accepted_summary_valid: "validateDeliverySummary accepted_summary = None" "validProviderName ''slack''"
proof -
  have "list_all is_hex_char (replicate 24 CHR ''a'')" by code_simp
  then show "validateDeliverySummary accepted_summary = None"
    by (simp add: validateDeliverySummary_def accepted_summary_def validDigestID_def validProviderName_def maxProviderBytes_def
        isLowerByte_def isDigitByte_def valid_kind_def validSafeCode_def t_isZero_def example_time_def second_def hasPrefix_def)
qed (simp add: validProviderName_def maxProviderBytes_def isLowerByte_def isDigitByte_def)

lemma migrated_state_valid: "ValidateState (\<lambda>_. Some 0) migrated_state = None"
  using accepted_summary_valid
  by (simp add: ValidateState_iff encodable_def validate_contents_iff migrated_state_def EmptyState_def gm_of_def incidents_of_def
      outbox_of_def summaries_valid_def incidents_valid_def maxProviders_def validate_last_delivery_def accepted_summary_def)

lemma decoded_state_round_trips_witness:
  "decodeState (\<lambda>_. Some 0) (v1_file migrated_state accepted_summary) = Inr migrated_state
    \<and> decodeState (\<lambda>_. Some 0) migrated_state = Inr migrated_state
    \<and> gm_get (gm_of (st_lastDeliveries migrated_state)) ''slack'' = Some accepted_summary"
proof -
  have "accepted_summary \<noteq> zero_summary" by (simp add: accepted_summary_def zero_summary_def)
  then have "st_lastDeliveries migrated_state = Some (only_summary accepted_summary)"
    by (simp add: migrated_state_def only_summary_def) (simp add: accepted_summary_def)
  then have d: "decodeState (\<lambda>_. Some 0) (v1_file migrated_state accepted_summary) = Inr migrated_state"
    using decoded_state_round_trips [of "\<lambda>_. Some 0" _ _ _ migrated_state accepted_summary] migrated_state_valid by blast
  have "decodeState (\<lambda>_. Some 0) migrated_state = Inr migrated_state"
    using decoded_state_round_trips [of "\<lambda>_. Some 0" "v1_file migrated_state accepted_summary" migrated_state] d by blast
  with d show ?thesis by (simp add: migrated_state_def gm_of_def gm_get_def)
qed


text \<open>An observed success on a state with a delivery left: the provider accepts it, and the write that records this
  fails after its rename.\<close>

definition unsynced_attempt :: attempt where
  "unsynced_attempt = example_attempt\<lparr>at_replace := SyncFailed\<rparr>"

definition unsynced_env :: observeEnv where
  "unsynced_env = \<lparr>en_load1 = True, en_now1 = example_time 1, en_replace1 = Written, en_attempts1 = \<lambda>_. [],
    en_load2 = True, en_now2 = example_time 1, en_replace2 = Written, en_attempts2 = \<lambda>_. [unsynced_attempt]\<rparr>"

definition slack_manager :: manager' where
  "slack_manager = NewManager (6 * hour) True [Some ''slack'']"

lemma slack_manager_fields:
  "mg_initErr slack_manager = None" "mg_options slack_manager = example_options" "mg_providers slack_manager = [Some ''slack'']"
  using example_options_valid
  by (simp_all add: slack_manager_def NewManager_def Let_def example_options_def validProviderName_def maxProviderBytes_def
      isLowerByte_def isDigitByte_def)

lemma unsynced_prepared:
  "prepare_state (\<lambda>_. Some 0) True t [''slack''] (Some example_state) = Inr example_state"
proof -
  obtain n where n: "DeriveNotification example_event = Inr n"
    using event_derives [OF example_event_valid] by blast
  have "loadState (\<lambda>_. Some 0) True (Some example_state) = Inr example_state"
    by (rule good_load [OF example_state_good]) (simp add: encodable_def)
  moreover have "retireRemovedProviders example_state [''slack''] u = Inr example_state" for u
    using n by (simp add: retireRemovedProviders_def example_state_def outbox_of_def example_envelope_def EmptyState_def)
  moreover have "pruneTerminalEnvelopes example_state = example_state"
    by (simp add: pruneTerminalEnvelopes_def example_state_def EmptyState_def example_envelope_def envelope_terminal_def
        pending_record_def terminal_status_def)
  ultimately show ?thesis by (simp add: prepare_state_def)
qed

lemma unsynced_observed:
  "Observe (\<lambda>_. Some 0) example_state (example_success 1) example_options = (example_state, [], None)"
proof -
  have "ValidateOutcome (example_success 1) = None" using example_outcomes_ok(2) [of 1] by (simp add: outcome_ok_def)
  moreover have "ValidateState (\<lambda>_. Some 0) example_state = None"
    using example_state_good by (simp add: good_iff ValidateState_iff encodable_def)
  moreover have "observe_transition example_state (example_success 1) example_options = Inr (example_state, [])"
    by (simp add: observe_transition_def example_success_def example_state_def EmptyState_def cloneState_def
        pruneExpiredCoolingIncidents_def observeSuccess_def open_keys_def incidents_of_def outbox_of_def gm_of_def Let_def)
  ultimately show ?thesis using example_options_valid
    by (simp add: Observe_def) (simp add: example_success_def example_time_def t_isZero_def second_def hour_def)
qed


text \<open>The file holds the new state although the write reported an error.\<close>

lemma unsynced_delivered:
  "\<exists>s'. deliverProvider (\<lambda>_. Some 0) ''slack'' [] False [unsynced_attempt] (Some example_state) = Some (True, Some s')
    \<and> deliverable_count s' ''slack'' [] = 0"
proof -
  have enc: "encodable (\<lambda>_. Some 0) t" for t by (simp add: encodable_def)
  have load: "loadState (\<lambda>_. Some 0) True (Some example_state) = Inr example_state"
    by (rule good_load [OF example_state_good enc])
  obtain n where n: "DeriveNotification example_event = Inr n"
    using event_derives [OF example_event_valid] by blast
  have get: "gm_get (env_deliveries (outbox_of example_state ! 0)) ''slack'' = Some pending_record"
    "env_event (outbox_of example_state ! 0) = example_event" "0 < length (outbox_of example_state)"
    by (simp_all add: example_state_def outbox_of_def example_envelope_def gm_get_def)
  have head: "nextDelivery example_state ''slack'' [] = Some (0, example_event, pending_record, n)"
    using n by (simp add: nextDelivery_def example_state_def outbox_of_def example_envelope_def deliverable_def
        gm_get_def pending_record_def)
  let ?rc = "at_receipt example_attempt" and ?at = "\<lparr>instant = 63902649661 * 1000000000, utc_loc = True\<rparr>"
  have answered: "classifyDeliveryResult ''slack'' ?rc None (t_utc ?at) = (DeliveryAccepted, [])"
    by (simp add: classifyDeliveryResult_def validateDeliveryRecord_def example_attempt_def Let_def receipt_present_def t_utc_def
        t_isZero_def validSafeCode_def in_bytes_def isLowerByte_def isDigitByte_def)
  have low: "dr_attempts pending_record < int64_max" by (simp add: pending_record_def int64_max_def)
  have time: "\<not> t_isZero (t_utc ?at)" by (simp add: t_isZero_def)
  have room: "roomy ''slack'' example_state"
    by (simp add: roomy_def example_state_def EmptyState_def gm_of_def maxProviders_def)
  obtain s' where u: "updateMatchingDelivery example_state 0 example_event ''slack'' pending_record ?rc DeliveryAccepted [] (t_utc ?at) = Some s'"
    and gs: "good s'"
    and ob: "outbox_of s' = outbox_of (put_delivery 0 ''slack'' (updated_record pending_record ?rc DeliveryAccepted [] (t_utc ?at)) example_state)"
    by (rule update_good [OF example_state_good get(3,2,1) n answered low time room])
  have v: "ValidateState (\<lambda>_. Some 0) (pruneTerminalEnvelopes s') = None"
    using good_prune_terminal [OF gs] enc by (simp add: good_iff ValidateState_iff)
  have "deliverProvider (\<lambda>_. Some 0) ''slack'' [] False [unsynced_attempt] (Some example_state) =
      Some (True, Some (pruneTerminalEnvelopes s'))"
    using load head answered u v by (simp add: unsynced_attempt_def example_attempt_def Replace_def Let_def)
  moreover have "deliverable_count (pruneTerminalEnvelopes s') ''slack'' [] = 0"
    unfolding deliverable_count_def filter_prune ob outbox_put_delivery
    by (simp add: example_state_def outbox_of_def example_envelope_def deliverable_def updated_record_def gm_get_def
        gm_put_def)
  ultimately show ?thesis by blast
qed

lemma observe_leaves_file_loadable_witness:
  "\<exists>s s'. Manager_Observe (\<lambda>_. Some 0) slack_manager unsynced_env (example_success 1) (Some example_state) =
      Some (Some ''notification_delivery_failed'', Some s')
    \<and> deliverable_count s' ''slack'' [] = 0
    \<and> loadState (\<lambda>_. Some 0) True (Some s') = Inr s \<and> ValidateState (\<lambda>_. Some 0) s = None"
proof -
  obtain s' where d: "deliverProvider (\<lambda>_. Some 0) ''slack'' [] False [unsynced_attempt] (Some example_state) = Some (True, Some s')"
    "deliverable_count s' ''slack'' [] = 0" using unsynced_delivered by blast
  have v: "ValidateState (\<lambda>_. Some 0) example_state = None"
    using example_state_good by (simp add: good_iff ValidateState_iff encodable_def)
  have "ValidateOutcome (example_success 1) = None" using example_outcomes_ok(2) [of 1] by (simp add: outcome_ok_def)
  moreover have "oc_status (example_success 1) \<noteq> OutcomeCancelled" by (simp add: example_success_def)
  moreover have "pruneTerminalEnvelopes example_state = example_state"
    by (simp add: pruneTerminalEnvelopes_def example_state_def EmptyState_def example_envelope_def envelope_terminal_def
        pending_record_def terminal_status_def)
  moreover have "op_providers example_options = [''slack'']" by (simp add: example_options_def)
  ultimately have run: "Manager_Observe (\<lambda>_. Some 0) slack_manager unsynced_env (example_success 1) (Some example_state) =
      Some (Some ''notification_delivery_failed'', Some s')"
    using unsynced_prepared unsynced_observed d(1) v
    by (simp add: Manager_Observe_def Let_def slack_manager_fields unsynced_env_def persist_and_deliver_def Replace_def ambiguous_ids_def del: deliverProvider.simps)
  have "harmless (\<lambda>_. Some 0) unsynced_attempt"
    by (simp add: harmless_def unsynced_attempt_def example_attempt_def)
  then have "\<exists>s. loadState (\<lambda>_. Some 0) True (Some s') = Inr s \<and> ValidateState (\<lambda>_. Some 0) s = None"
    by (intro observe_leaves_file_loadable [OF run])
      (use v good_empty in \<open>simp_all add: unsynced_env_def file_ok_def good_iff ValidateState_iff encodable_def\<close>)
  with run d(2) show ?thesis by blast
qed

end
