(* ===== verification/ChunkText.thy ===== *)
theory ChunkText
  imports GoStrings "HOL-Library.Sublist"
begin

text \<open>
  Text as the chunker sees it: the runes of a string. Covers what it uses of \<open>unicode/utf8\<close>
  (decoding by \<open>range\<close>, where a malformed byte is U+FFFD, \<open>RuneLen\<close>, \<open>WriteRune\<close>), of
  \<open>unicode\<close> (\<open>IsSpace\<close>), of \<open>strings\<close> (\<open>TrimSpace\<close>, over all of Unicode) and of \<open>sort\<close>
  (\<open>Search\<close>). Decoding and encoding are inverse on the runes a decoder can return, so
  normalizing a string fixes its runes and makes the byte offsets of the plan exact.
\<close>

type_synonym rune = nat

definition rune_error :: rune where
  "rune_error = 65533"

text \<open>The runes that have an encoding: the Unicode scalar values.\<close>

definition scalar :: "rune \<Rightarrow> bool" where
  "scalar r = (r < 55296 \<or> 57343 < r \<and> r \<le> 1114111)"

definition runeLen :: "rune \<Rightarrow> int" where
  "runeLen r =
     (if r \<le> 127 then 1 else if r \<le> 2047 then 2
      else if 55296 \<le> r \<and> r \<le> 57343 then - 1
      else if r \<le> 65535 then 3 else if r \<le> 1114111 then 4 else - 1)"

definition encode_scalar :: "rune \<Rightarrow> string" where
  "encode_scalar r =
     (if r \<le> 127 then [char_of r]
      else if r \<le> 2047 then [char_of (192 + r div 64), char_of (128 + r mod 64)]
      else if r \<le> 65535 then
        [char_of (224 + r div 4096), char_of (128 + r div 64 mod 64), char_of (128 + r mod 64)]
      else
        [char_of (240 + r div 262144), char_of (128 + r div 4096 mod 64),
         char_of (128 + r div 64 mod 64), char_of (128 + r mod 64)])"

definition encodeRune :: "rune \<Rightarrow> string" where
  "encodeRune r = encode_scalar (if scalar r then r else rune_error)"

definition cont :: "char \<Rightarrow> nat" where
  "cont b = of_char b - 128"

text \<open>\<open>utf8.DecodeRuneInString\<close>: the first rune and its width, by the range of the first byte.\<close>

definition decode2 :: "char \<Rightarrow> string \<Rightarrow> rune \<times> nat" where
  "decode2 a s = (case s of
     b # _ \<Rightarrow> (if in_bytes 128 191 b then ((of_char a - 192) * 64 + cont b, 2) else (rune_error, 1))
   | _ \<Rightarrow> (rune_error, 1))"

definition second3 :: "char \<Rightarrow> char \<Rightarrow> bool" where
  "second3 a = in_bytes (if of_char a = (224 :: nat) then 160 else 128)
                        (if of_char a = (237 :: nat) then 159 else 191)"

definition decode3 :: "char \<Rightarrow> string \<Rightarrow> rune \<times> nat" where
  "decode3 a s = (case s of
     b # c # _ \<Rightarrow> (if second3 a b \<and> in_bytes 128 191 c
       then ((of_char a - 224) * 4096 + cont b * 64 + cont c, 3) else (rune_error, 1))
   | _ \<Rightarrow> (rune_error, 1))"

definition second4 :: "char \<Rightarrow> char \<Rightarrow> bool" where
  "second4 a = in_bytes (if of_char a = (240 :: nat) then 144 else 128)
                        (if of_char a = (244 :: nat) then 143 else 191)"

definition decode4 :: "char \<Rightarrow> string \<Rightarrow> rune \<times> nat" where
  "decode4 a s = (case s of
     b # c # d # _ \<Rightarrow> (if second4 a b \<and> in_bytes 128 191 c \<and> in_bytes 128 191 d
       then ((of_char a - 240) * 262144 + cont b * 4096 + cont c * 64 + cont d, 4)
       else (rune_error, 1))
   | _ \<Rightarrow> (rune_error, 1))"

fun decodeRune :: "string \<Rightarrow> rune \<times> nat" where
  "decodeRune [] = (rune_error, 0)"
| "decodeRune (a # s) =
     (if in_bytes 0 127 a then (of_char a, 1)
      else if in_bytes 194 223 a then decode2 a s
      else if in_bytes 224 239 a then decode3 a s
      else if in_bytes 240 244 a then decode4 a s
      else (rune_error, 1))"

lemmas decode_defs = decode2_def decode3_def decode4_def

lemma decodeRune_width: "s \<noteq> [] \<Longrightarrow> 0 < snd (decodeRune s)"
  by (cases s) (simp_all add: decode_defs split: list.split)

text \<open>The runes of \<open>for _, r := range s\<close>.\<close>

function rangeRunes :: "string \<Rightarrow> rune list" where
  "rangeRunes s = (if s = [] then []
     else fst (decodeRune s) # rangeRunes (drop (snd (decodeRune s)) s))"
  by auto
termination
  by (relation "measure length") (simp_all add: decodeRune_width)

declare rangeRunes.simps [simp del]

definition encodeRunes :: "rune list \<Rightarrow> string" where
  "encodeRunes rs = concat (map encodeRune rs)"

section \<open>Decoding and encoding\<close>

lemma scalar_error [simp]: "scalar rune_error"
  by (simp add: scalar_def rune_error_def)

lemma of_char_small: "n < 256 \<Longrightarrow> of_char (char_of n :: char) = (n :: nat)"
  by simp

lemma in_bytes_of: "n < 256 \<Longrightarrow> in_bytes lo hi (char_of n) = (lo \<le> n \<and> n \<le> hi)"
  by (simp add: in_bytes_def of_char_small)

lemma cont_le: "in_bytes 128 191 b \<Longrightarrow> cont b \<le> 63"
  by (auto simp: in_bytes_def cont_def)

lemma scalar_two: "a \<le> 31 \<Longrightarrow> b \<le> 63 \<Longrightarrow> scalar (a * 64 + b)"
  by (simp add: scalar_def)

lemma scalar_three:
  assumes "a \<le> 15" "a = 13 \<Longrightarrow> b \<le> 31" "b \<le> 63" "c \<le> 63"
  shows "scalar (a * 4096 + b * 64 + c)"
proof -
  consider "a \<le> 12" | "a = 13" | "14 \<le> a" by linarith
  then show ?thesis
    by cases (use assms in \<open>simp_all add: scalar_def\<close>)
qed

lemma scalar_four:
  assumes "a \<le> 4" "a = 0 \<Longrightarrow> 16 \<le> b" "a = 4 \<Longrightarrow> b \<le> 15" "b \<le> 63" "c \<le> 63" "d \<le> 63"
  shows "scalar (a * 262144 + b * 4096 + c * 64 + d)"
proof -
  consider "a = 0" | "1 \<le> a" "a \<le> 3" | "a = 4" using assms by linarith
  then show ?thesis
    by cases (use assms in \<open>simp_all add: scalar_def\<close>)
qed

lemma decode2_scalar: "in_bytes 194 223 a \<Longrightarrow> scalar (fst (decode2 a s))"
  by (auto simp: decode2_def in_bytes_def [of 194] cont_le intro!: scalar_two split: list.split)

lemma second3_cont:
  assumes "second3 a b"
  shows "cont b \<le> 63" "of_char a - 224 = (13 :: nat) \<Longrightarrow> cont b \<le> 31"
  using assms by (auto simp: second3_def in_bytes_def cont_def split: if_splits)

lemma decode3_scalar: "in_bytes 224 239 a \<Longrightarrow> scalar (fst (decode3 a s))"
  by (auto simp: decode3_def in_bytes_def [of 224] cont_le second3_cont intro!: scalar_three
      split: list.split)

lemma second4_cont:
  assumes "second4 a b" "in_bytes 240 244 a"
  shows "cont b \<le> 63" "of_char a - 240 = (0 :: nat) \<Longrightarrow> 16 \<le> cont b"
    "of_char a - 240 = (4 :: nat) \<Longrightarrow> cont b \<le> 15"
  using assms by (auto simp: second4_def in_bytes_def cont_def split: if_splits)

lemma decode4_scalar: "in_bytes 240 244 a \<Longrightarrow> scalar (fst (decode4 a s))"
  by (auto simp: decode4_def in_bytes_def [of 240] cont_le second4_cont intro!: scalar_four
      split: list.split)

lemma decodeRune_scalar: "scalar (fst (decodeRune s))"
proof (cases s)
  case (Cons a r)
  then show ?thesis
    by (simp add: decode2_scalar decode3_scalar decode4_scalar)
      (simp add: in_bytes_def scalar_def)
qed simp

lemma cont_of: "n < 64 \<Longrightarrow> cont (char_of (128 + n)) = n"
  by (simp add: cont_def)

lemma in_cont: "(n :: nat) < 64 \<Longrightarrow> in_bytes 128 191 (char_of (128 + n))"
  by (simp add: in_bytes_of)

lemma decode_two:
  assumes "2 \<le> a" "a < 32" "b < 64"
  shows "decodeRune (char_of (192 + a) # char_of (128 + b) # s) = (a * 64 + b, 2)"
  using assms by (simp add: in_bytes_of decode2_def cont_of in_cont)

lemma decode_three:
  assumes "a < 16" "b < 64" "c < 64" "a = 0 \<Longrightarrow> 32 \<le> b" "a = 13 \<Longrightarrow> b < 32"
  shows "decodeRune (char_of (224 + a) # char_of (128 + b) # char_of (128 + c) # s) =
    (a * 4096 + b * 64 + c, 3)"
proof -
  have "second3 (char_of (224 + a)) (char_of (128 + b))"
    using assms by (auto simp: second3_def in_bytes_of)
  then show ?thesis using assms by (simp add: in_bytes_of decode3_def cont_of in_cont)
qed

lemma decode_four:
  assumes "a < 5" "b < 64" "c < 64" "d < 64" "a = 0 \<Longrightarrow> 16 \<le> b" "a = 4 \<Longrightarrow> b < 16"
  shows "decodeRune (char_of (240 + a) # char_of (128 + b) # char_of (128 + c) #
      char_of (128 + d) # s) = (a * 262144 + b * 4096 + c * 64 + d, 4)"
proof -
  have "second4 (char_of (240 + a)) (char_of (128 + b))"
    using assms by (auto simp: second4_def in_bytes_of)
  then show ?thesis using assms by (simp add: in_bytes_of decode4_def cont_of in_cont)
qed

declare decodeRune.simps(2) [simp del]

lemma base64_digits:
  fixes r :: nat
  shows "r = r div 64 * 64 + r mod 64"
    "r = r div 4096 * 4096 + r div 64 mod 64 * 64 + r mod 64"
    "r = r div 262144 * 262144 + r div 4096 mod 64 * 4096 + r div 64 mod 64 * 64 + r mod 64"
proof -
  have d: "q = q div 64 * 64 + q mod 64" for q :: nat by simp
  have "r div 4096 = r div 64 div 64" "r div 262144 = r div 4096 div 64"
    by (simp_all add: div_mult2_eq [symmetric])
  then show "r = r div 64 * 64 + r mod 64"
    "r = r div 4096 * 4096 + r div 64 mod 64 * 64 + r mod 64"
    "r = r div 262144 * 262144 + r div 4096 mod 64 * 4096 + r div 64 mod 64 * 64 + r mod 64"
    using d [of r] d [of "r div 64"] d [of "r div 4096"] by linarith+
qed

lemma decode_scalar:
  assumes "scalar r"
  shows "decodeRune (encode_scalar r @ s) = (r, length (encode_scalar r))"
proof -
  note digits = base64_digits [of r]
  have lt: "r mod 64 < 64" "r div 64 mod 64 < 64" "r div 4096 mod 64 < 64" by simp_all
  consider "r \<le> 127" | "127 < r" "r \<le> 2047" | "2047 < r" "r \<le> 65535" "r < 55296 \<or> 57343 < r"
    | "65535 < r" "r \<le> 1114111"
    using assms unfolding scalar_def by linarith
  then show ?thesis
  proof cases
    case 1
    then show ?thesis by (simp add: encode_scalar_def in_bytes_of decodeRune.simps(2))
  next
    case 2
    have "2 \<le> r div 64" "r div 64 < 32" using 2 digits(1) lt(1) by linarith+
    then show ?thesis using 2 by (simp add: encode_scalar_def decode_two)
  next
    case 3
    have "r div 4096 = 0 \<Longrightarrow> 32 \<le> r div 64 mod 64"
      "r div 4096 = 13 \<Longrightarrow> r div 64 mod 64 < 32" "r div 4096 < 16"
      using 3 digits(2) lt by linarith+
    then have "decodeRune (char_of (224 + r div 4096) # char_of (128 + r div 64 mod 64) #
        char_of (128 + r mod 64) # s) = (r, 3)"
      by (subst decode_three) (simp_all flip: digits(2))
    then show ?thesis using 3 by (simp add: encode_scalar_def)
  next
    case 4
    have "r div 262144 = 0 \<Longrightarrow> 16 \<le> r div 4096 mod 64"
      "r div 262144 = 4 \<Longrightarrow> r div 4096 mod 64 < 16" "r div 262144 < 5"
      using 4 digits(3) lt by linarith+
    then have "decodeRune (char_of (240 + r div 262144) # char_of (128 + r div 4096 mod 64) #
        char_of (128 + r div 64 mod 64) # char_of (128 + r mod 64) # s) = (r, 4)"
      by (subst decode_four) (simp_all flip: digits(3))
    then show ?thesis using 4 by (simp add: encode_scalar_def)
  qed
qed

lemma decode_encode:
  "decodeRune (encodeRune r @ s) = (if scalar r then r else rune_error, length (encodeRune r))"
  by (simp add: encodeRune_def decode_scalar)

lemma encodeRune_nonempty [simp]: "encodeRune r \<noteq> []"
  by (simp add: encodeRune_def encode_scalar_def)

lemma rangeRunes_Nil [simp]: "rangeRunes [] = []"
  by (simp add: rangeRunes.simps)

lemma range_encode: "scalar r \<Longrightarrow> rangeRunes (encodeRune r @ s) = r # rangeRunes s"
  by (subst rangeRunes.simps) (simp add: decode_encode)

lemma rangeRunes_scalar: "\<forall>r \<in> set (rangeRunes s). scalar r"
proof (induction s rule: rangeRunes.induct)
  case (1 s)
  then show ?case
    by (subst rangeRunes.simps) (auto simp: decodeRune_scalar)
qed

lemma encodeRunes_simps [simp]:
  "encodeRunes [] = []"
  "encodeRunes (r # rs) = encodeRune r @ encodeRunes rs"
  "encodeRunes (rs @ ts) = encodeRunes rs @ encodeRunes ts"
  by (simp_all add: encodeRunes_def)

text \<open>Decoding what was encoded returns the runes, so a normalized string keeps its runes.\<close>

lemma range_encodeRunes: "\<forall>r \<in> set rs. scalar r \<Longrightarrow> rangeRunes (encodeRunes rs) = rs"
  by (induction rs) (simp_all add: range_encode)

lemma range_normalized: "rangeRunes (encodeRunes (rangeRunes s)) = rangeRunes s"
  by (simp add: range_encodeRunes rangeRunes_scalar)

section \<open>Widths\<close>

lemma length_encodeRune: "scalar r \<Longrightarrow> int (length (encodeRune r)) = runeLen r"
  by (auto simp: encodeRune_def encode_scalar_def runeLen_def scalar_def)

definition width :: "rune \<Rightarrow> nat" where
  "width r = nat (runeLen r)"

lemma width_bounds: "scalar r \<Longrightarrow> 1 \<le> width r" "width r \<le> 4"
  by (auto simp: width_def runeLen_def scalar_def)

lemma runeLen_width: "scalar r \<Longrightarrow> runeLen r = int (width r)"
  by (auto simp: width_def runeLen_def scalar_def)

lemma length_encode_width: "scalar r \<Longrightarrow> length (encodeRune r) = width r"
  using length_encodeRune [of r] by (simp add: width_def)

lemma length_encodeRunes:
  "\<forall>r \<in> set rs. scalar r \<Longrightarrow> length (encodeRunes rs) = sum_list (map width rs)"
  by (induction rs) (simp_all add: length_encode_width)

text \<open>The byte offset of every rune boundary of a text.\<close>

definition byteOffsets :: "rune list \<Rightarrow> nat list" where
  "byteOffsets rs = map (\<lambda>i. sum_list (map width (take i rs))) [0..<Suc (length rs)]"

lemma length_byteOffsets [simp]: "length (byteOffsets rs) = Suc (length rs)"
  by (simp add: byteOffsets_def)

lemma nth_byteOffsets:
  "i \<le> length rs \<Longrightarrow> byteOffsets rs ! i = sum_list (map width (take i rs))"
  by (simp add: byteOffsets_def del: upt_Suc)

lemma byteOffsets_step:
  "i < length rs \<Longrightarrow> byteOffsets rs ! Suc i = byteOffsets rs ! i + width (rs ! i)"
  by (simp add: nth_byteOffsets take_Suc_conv_app_nth)

lemma byteOffsets_0 [simp]: "byteOffsets rs ! 0 = 0"
  by (simp add: nth_byteOffsets)

lemma byteOffsets_diff:
  assumes "i \<le> j" "j \<le> length rs"
  shows "byteOffsets rs ! j = byteOffsets rs ! i + sum_list (map width (take (j - i) (drop i rs)))"
proof -
  have "take j rs = take i rs @ take (j - i) (drop i rs)"
    using assms by (metis le_add_diff_inverse take_add)
  then show ?thesis using assms by (simp add: nth_byteOffsets)
qed

lemma byteOffsets_mono: "i \<le> j \<Longrightarrow> j \<le> length rs \<Longrightarrow> byteOffsets rs ! i \<le> byteOffsets rs ! j"
  by (simp add: byteOffsets_diff)

lemma byteOffsets_strict:
  assumes "\<forall>r \<in> set rs. scalar r" "i < j" "j \<le> length rs"
  shows "byteOffsets rs ! i < byteOffsets rs ! j"
proof -
  have "byteOffsets rs ! i < byteOffsets rs ! Suc i"
    using assms width_bounds(1) [of "rs ! i"] by (simp add: byteOffsets_step)
  also have "\<dots> \<le> byteOffsets rs ! j"
    using assms by (intro byteOffsets_mono) auto
  finally show ?thesis .
qed

text \<open>The bytes between two offsets are the encoding of the runes between the boundaries.\<close>

definition slice_of :: "nat \<Rightarrow> nat \<Rightarrow> 'a list \<Rightarrow> 'a list" where
  "slice_of i j xs = take (j - i) (drop i xs)"

lemma slice_middle: "slice_of (length a) j (a @ b @ c) = take (j - length a) (b @ c)"
  by (simp add: slice_of_def)

lemma slice_encodeRunes:
  assumes "\<forall>r \<in> set rs. scalar r" "i \<le> j" "j \<le> length rs"
  shows "slice_of (byteOffsets rs ! i) (byteOffsets rs ! j) (encodeRunes rs) = encodeRunes (slice_of i j rs)"
proof -
  let ?a = "take i rs" and ?b = "slice_of i j rs" and ?c = "drop j rs"
  have rs: "rs = ?a @ ?b @ ?c"
    using assms(2) unfolding slice_of_def
    by (metis append_take_drop_id drop_drop le_add_diff_inverse2)
  have s: "\<forall>r \<in> set ?a. scalar r" "\<forall>r \<in> set ?b. scalar r"
    using assms(1) by (auto simp: slice_of_def dest: in_set_takeD in_set_dropD)
  have "byteOffsets rs ! i = length (encodeRunes ?a)"
    using assms s by (simp add: nth_byteOffsets length_encodeRunes)
  moreover have "byteOffsets rs ! j - byteOffsets rs ! i = length (encodeRunes ?b)"
    using assms s by (simp add: byteOffsets_diff length_encodeRunes flip: slice_of_def)
  moreover have "encodeRunes rs = encodeRunes ?a @ encodeRunes ?b @ encodeRunes ?c"
    using rs by (metis encodeRunes_simps(3))
  ultimately show ?thesis
    by (simp add: slice_middle)
qed

section \<open>White space\<close>

text \<open>\<open>unicode.IsSpace\<close>.\<close>

definition space_runes :: "rune list" where
  "space_runes = [9, 10, 11, 12, 13, 32, 133, 160, 5760] @ [8192..<8203] @
     [8232, 8233, 8239, 8287, 12288]"

definition isSpace :: "rune \<Rightarrow> bool" where
  "isSpace r = (r \<in> set space_runes)"

text \<open>\<open>strings.TrimSpace\<close> drops the encodings of white space at both ends of a string.\<close>

definition spaces :: "string list" where
  "spaces = map encodeRune space_runes"

function trimLeftSpace :: "string \<Rightarrow> string" where
  "trimLeftSpace s = (case find (\<lambda>e. prefix e s) spaces of
     Some e \<Rightarrow> trimLeftSpace (drop (length e) s) | None \<Rightarrow> s)"
  by auto

lemma found_space: "find p spaces = Some e \<Longrightarrow> e \<noteq> [] \<and> p e"
  by (auto simp: find_Some_iff spaces_def)

termination trimLeftSpace
proof (relation "measure length")
  fix s e
  assume "find (\<lambda>e. prefix e s) spaces = Some e"
  then have "e \<noteq> []" "prefix e s" by (auto dest: found_space)
  then show "(drop (length e) s, s) \<in> measure length"
    by (auto simp: prefix_def)
qed simp

function trimRightSpace :: "string \<Rightarrow> string" where
  "trimRightSpace s = (case find (\<lambda>e. suffix e s) spaces of
     Some e \<Rightarrow> trimRightSpace (take (length s - length e) s) | None \<Rightarrow> s)"
  by auto
termination
proof (relation "measure length")
  fix s e
  assume "find (\<lambda>e. suffix e s) spaces = Some e"
  then have "e \<noteq> []" "suffix e s" by (auto dest: found_space)
  then show "(take (length s - length e) s, s) \<in> measure length"
    by (auto simp: suffix_def)
qed simp

declare trimLeftSpace.simps [simp del] trimRightSpace.simps [simp del]

definition TrimSpace :: "string \<Rightarrow> string" where
  "TrimSpace s = trimRightSpace (trimLeftSpace s)"

lemma trimLeftSpace_done: "find (\<lambda>e. prefix e (trimLeftSpace s)) spaces = None"
proof (induction s rule: trimLeftSpace.induct)
  case (1 s)
  then show ?case by (subst trimLeftSpace.simps) (auto split: option.split)
qed

lemma trimRightSpace_done: "find (\<lambda>e. suffix e (trimRightSpace s)) spaces = None"
proof (induction s rule: trimRightSpace.induct)
  case (1 s)
  then show ?case by (subst trimRightSpace.simps) (auto split: option.split)
qed

lemma trimRightSpace_prefix: "prefix (trimRightSpace s) s"
proof (induction s rule: trimRightSpace.induct)
  case (1 s)
  then show ?case
    by (subst trimRightSpace.simps)
      (auto split: option.split intro: prefix_order.trans take_is_prefix)
qed

lemma trimmed_no_prefix:
  "find (\<lambda>e. prefix e (TrimSpace s)) spaces = None"
  unfolding TrimSpace_def find_None_iff
  using trimLeftSpace_done [of s] trimRightSpace_prefix [of "trimLeftSpace s"]
  unfolding find_None_iff by (blast intro: prefix_order.trans)

lemma TrimSpace_idem [simp]: "TrimSpace (TrimSpace s) = TrimSpace s"
proof -
  have "trimLeftSpace (TrimSpace s) = TrimSpace s"
    by (subst trimLeftSpace.simps) (simp add: trimmed_no_prefix)
  moreover have "trimRightSpace (TrimSpace s) = TrimSpace s"
    unfolding TrimSpace_def
    by (subst trimRightSpace.simps) (simp add: trimRightSpace_done)
  ultimately show ?thesis by (simp add: TrimSpace_def [of "TrimSpace s"])
qed

section \<open>Binary search\<close>

text \<open>\<open>sort.Search\<close>: on a monotone predicate, the first index where it holds.\<close>

function search_loop :: "(nat \<Rightarrow> bool) \<Rightarrow> nat \<Rightarrow> nat \<Rightarrow> nat" where
  "search_loop p i j = (if i < j then
     (let h = (i + j) div 2 in if \<not> p h then search_loop p (Suc h) j else search_loop p i h)
   else i)"
  by auto
termination
  by (relation "measure (\<lambda>(p, i, j). j - i)") auto

declare search_loop.simps [simp del]

definition sortSearch :: "nat \<Rightarrow> (nat \<Rightarrow> bool) \<Rightarrow> nat" where
  "sortSearch n p = search_loop p 0 n"

lemma search_loop_spec:
  assumes "\<And>a b. a \<le> b \<Longrightarrow> b < n \<Longrightarrow> p a \<Longrightarrow> p b"
    and "i \<le> j" "j \<le> n" "\<And>k. k < i \<Longrightarrow> \<not> p k" "\<And>k. j \<le> k \<Longrightarrow> k < n \<Longrightarrow> p k"
  shows "search_loop p i j \<le> j" "k < search_loop p i j \<Longrightarrow> \<not> p k"
    "search_loop p i j \<le> k \<Longrightarrow> k < n \<Longrightarrow> p k"
proof -
  have "search_loop p i j \<le> j \<and> (k < search_loop p i j \<longrightarrow> \<not> p k) \<and>
      (search_loop p i j \<le> k \<longrightarrow> k < n \<longrightarrow> p k)"
    using assms(2-)
  proof (induction "j - i" arbitrary: i j rule: less_induct)
    case less
    show ?case
    proof (cases "i < j")
      case True
      define h where "h = (i + j) div 2"
      have h: "i \<le> h" "h < j" using True by (auto simp: h_def)
      show ?thesis
      proof (cases "p h")
        case p: True
        then have "search_loop p i j = search_loop p i h"
          using True by (subst search_loop.simps) (simp add: h_def)
        moreover have "\<And>k. h \<le> k \<Longrightarrow> k < n \<Longrightarrow> p k" using assms(1) p by blast
        then have "search_loop p i h \<le> h \<and> (k < search_loop p i h \<longrightarrow> \<not> p k) \<and>
            (search_loop p i h \<le> k \<longrightarrow> k < n \<longrightarrow> p k)"
          using less.prems h by (intro less.hyps) auto
        ultimately show ?thesis using h by simp
      next
        case p: False
        then have "search_loop p i j = search_loop p (Suc h) j"
          using True by (subst search_loop.simps) (simp add: h_def)
        moreover have "\<And>k. k < Suc h \<Longrightarrow> \<not> p k"
          using assms(1) p h less.prems(2) by (metis less_Suc_eq_le less_le_trans)
        then have "search_loop p (Suc h) j \<le> j \<and> (k < search_loop p (Suc h) j \<longrightarrow> \<not> p k) \<and>
            (search_loop p (Suc h) j \<le> k \<longrightarrow> k < n \<longrightarrow> p k)"
          using less.prems h by (intro less.hyps) auto
        ultimately show ?thesis by simp
      qed
    next
      case False
      then have "search_loop p i j = i" by (subst search_loop.simps) simp
      with False less.prems show ?thesis by auto
    qed
  qed
  then show "search_loop p i j \<le> j" "k < search_loop p i j \<Longrightarrow> \<not> p k"
    "search_loop p i j \<le> k \<Longrightarrow> k < n \<Longrightarrow> p k" by auto
qed

lemma sortSearch_spec:
  assumes "\<And>a b. a \<le> b \<Longrightarrow> b < n \<Longrightarrow> p a \<Longrightarrow> p b"
  shows "sortSearch n p \<le> n" "k < sortSearch n p \<Longrightarrow> \<not> p k"
    "sortSearch n p \<le> k \<Longrightarrow> k < n \<Longrightarrow> p k"
proof -
  note spec = search_loop_spec [of n p 0 n, OF assms]
  show "sortSearch n p \<le> n" "k < sortSearch n p \<Longrightarrow> \<not> p k"
    "sortSearch n p \<le> k \<Longrightarrow> k < n \<Longrightarrow> p k"
    unfolding sortSearch_def by (rule spec, simp_all)+
qed

section \<open>Visible ASCII text\<close>

definition visible :: "char \<Rightarrow> bool" where
  "visible c \<longleftrightarrow> 33 \<le> (of_char c :: nat) \<and> (of_char c :: nat) \<le> 126"

lemma space_ends:
  assumes "e \<in> set spaces"
  shows "e \<noteq> []" "\<not> visible (hd e)" "\<not> visible (last e)"
proof -
  have "list_all (\<lambda>r. \<not> visible (hd (encodeRune r)) \<and> \<not> visible (last (encodeRune r))) space_runes"
    by (simp add: space_runes_def upt_conv_Cons encodeRune_def encode_scalar_def scalar_def visible_def)
  then show "e \<noteq> []" "\<not> visible (hd e)" "\<not> visible (last e)"
    using assms by (auto simp: spaces_def list_all_iff)
qed

lemma TrimSpace_visible:
  assumes "s \<noteq> []" "visible (hd s)" "visible (last s)"
  shows "TrimSpace s = s"
proof -
  have "find (\<lambda>e. prefix e s) spaces = None"
    unfolding find_None_iff using space_ends assms by (fastforce simp: prefix_def)
  then have "trimLeftSpace s = s" by (subst trimLeftSpace.simps) simp
  moreover have "find (\<lambda>e. suffix e s) spaces = None"
    unfolding find_None_iff using space_ends assms by (fastforce simp: suffix_def)
  then have "trimRightSpace s = s" by (subst trimRightSpace.simps) simp
  ultimately show ?thesis by (simp add: TrimSpace_def)
qed

lemma range_ascii:
  "list_all (in_bytes 0 127) s \<Longrightarrow> rangeRunes s = map of_char s"
proof (induction s)
  case (Cons a s)
  then show ?case by (subst rangeRunes.simps) (simp add: decodeRune.simps(2))
qed simp

end
