(* ===== verification/GoContext.thy ===== *)
theory GoContext
  imports Prelude
begin

text \<open>
  Go's \<open>context.Context\<close> as the components use it: a long computation polls \<open>ctx.Err()\<close> at
  fixed places and returns the context's error at the first poll that finds one.

  A context is the number of polls it still survives; \<open>None\<close> is \<open>context.Background()\<close>, which
  is never cancelled, and a cancelled context stays cancelled. A computation under a context
  ends with its result and the context with the polls it spent; it is \<open>None\<close> when it does
  not end. It may also end in a run-time panic, which no handler of an error sees. \<open>runs m r\<close> says
  that \<open>m\<close> ends with \<open>r\<close>, unless the context is cancelled, when it
  returns the context's error: cancellation never changes a result, it only replaces it.
\<close>

type_synonym ctx = "nat option"

datatype 'e failure = Canceled | Failed 'e | Panicked

type_synonym ('e, 'a) run = "ctx \<Rightarrow> (('e failure + 'a) \<times> ctx) option"

named_theorems runs_intros \<open>rules that compute the result of a computation under a context\<close>

definition background :: ctx where
  "background = None"

fun ctx_err :: "ctx \<Rightarrow> bool \<times> ctx" where
  "ctx_err None = (False, None)"
| "ctx_err (Some 0) = (True, Some 0)"
| "ctx_err (Some (Suc n)) = (False, Some n)"

definition poll :: "('e, unit) run" where
  "poll c = (case ctx_err c of (True, c') \<Rightarrow> Some (Inl Canceled, c') | (False, c') \<Rightarrow> Some (Inr (), c'))"

definition ret :: "'a \<Rightarrow> ('e, 'a) run" where
  "ret x c = Some (Inr x, c)"

definition fail :: "'e \<Rightarrow> ('e, 'a) run" where
  "fail e c = Some (Inl (Failed e), c)"

text \<open>A loop without a context: \<open>None\<close> when it does not end, else a value or a panic.\<close>

datatype 'a go = Panics | Returns 'a

definition lift :: "'a go option \<Rightarrow> ('e, 'a) run" where
  "lift x c = map_option (\<lambda>r. (case r of Panics \<Rightarrow> Inl Panicked | Returns y \<Rightarrow> Inr y, c)) x"

definition andThen :: "('e, 'a) run \<Rightarrow> ('a \<Rightarrow> ('e, 'b) run) \<Rightarrow> ('e, 'b) run" where
  "andThen m f c = (case m c of
     None \<Rightarrow> None
   | Some (Inl e, c') \<Rightarrow> Some (Inl e, c')
   | Some (Inr x, c') \<Rightarrow> f x c')"

text \<open>\<open>if b { if err := ctx.Err(); err != nil { return err } }\<close>\<close>

definition poll_if :: "bool \<Rightarrow> ('e, unit) run" where
  "poll_if b = (if b then poll else ret ())"

text \<open>\<open>if b { return err }\<close>\<close>

definition fail_if :: "bool \<Rightarrow> 'e \<Rightarrow> ('e, unit) run" where
  "fail_if b e = (if b then fail e else ret ())"

text \<open>A loop over a slice; \<open>poll_loop k i\<close> polls whenever the index, which starts at \<open>i\<close>, is a
  multiple of \<open>k\<close>.\<close>

fun for_loop :: "('a \<Rightarrow> 's \<Rightarrow> ('e, 's) run) \<Rightarrow> 'a list \<Rightarrow> 's \<Rightarrow> ('e, 's) run" where
  "for_loop f [] s = ret s"
| "for_loop f (x # xs) s = andThen (f x s) (for_loop f xs)"

definition poll_loop :: "nat \<Rightarrow> (nat \<Rightarrow> 'a \<Rightarrow> 's \<Rightarrow> ('e, 's) run) \<Rightarrow> nat \<Rightarrow> 'a list \<Rightarrow> 's \<Rightarrow> ('e, 's) run" where
  "poll_loop k f i xs =
     for_loop (\<lambda>(j, x) s. andThen (poll_if (j mod k = 0)) (\<lambda>_. f j x s)) (enumerate i xs)"

text \<open>A loop whose body may return from the function: \<open>Inl\<close> is the value returned.\<close>

fun for_return :: "('a \<Rightarrow> 's \<Rightarrow> ('e, 'r + 's) run) \<Rightarrow> 'a list \<Rightarrow> 's \<Rightarrow> ('e, 'r + 's) run" where
  "for_return f [] s = ret (Inr s)"
| "for_return f (x # xs) s =
     andThen (f x s) (\<lambda>r. case r of Inl v \<Rightarrow> ret (Inl v) | Inr t \<Rightarrow> for_return f xs t)"

text \<open>\<open>errors.As\<close>: an error the handler knows becomes a value, every other is passed on.\<close>

definition rescue :: "('e \<Rightarrow> 'a option) \<Rightarrow> ('e, 'a) run \<Rightarrow> ('e, 'a) run" where
  "rescue h m c = (case m c of
     Some (Inl (Failed e), c') \<Rightarrow>
       (case h e of Some x \<Rightarrow> Some (Inr x, c') | None \<Rightarrow> Some (Inl (Failed e), c'))
   | r \<Rightarrow> r)"

section \<open>What a computation returns\<close>

definition ctx_outcome :: "'e failure + 'a \<Rightarrow> ctx \<Rightarrow> (('e failure + 'a) \<times> ctx) option \<Rightarrow> bool" where
  "ctx_outcome r c v = (\<exists>c'. (c' = None \<longleftrightarrow> c = None) \<and>
     (v = Some (r, c') \<or> c \<noteq> None \<and> v = Some (Inl Canceled, c')))"

definition runs :: "('e, 'a) run \<Rightarrow> 'e failure + 'a \<Rightarrow> bool" where
  "runs m r = (\<forall>c. ctx_outcome r c (m c))"

text \<open>The fold of a loop body that returns an error or the next state.\<close>

fun fold_until :: "('a \<Rightarrow> 's \<Rightarrow> 'e + 's) \<Rightarrow> 'a list \<Rightarrow> 's \<Rightarrow> 'e + 's" where
  "fold_until g [] s = Inr s"
| "fold_until g (x # xs) s = (case g x s of Inl e \<Rightarrow> Inl e | Inr t \<Rightarrow> fold_until g xs t)"

lemma runsI: "(\<And>c. ctx_outcome r c (m c)) \<Longrightarrow> runs m r"
  by (simp add: runs_def)

lemma runsD: "runs m r \<Longrightarrow> ctx_outcome r c (m c)"
  by (simp add: runs_def)

lemma outcome_now: "ctx_outcome r c (Some (r, c))"
  by (auto simp: ctx_outcome_def)

lemma outcome_cases:
  assumes "ctx_outcome r c v"
  obtains (finished) d where "v = Some (r, d)" "d = None \<longleftrightarrow> c = None"
    | (canceled) d where "v = Some (Inl Canceled, d)" "d \<noteq> None" "c \<noteq> None"
  using assms unfolding ctx_outcome_def by blast

lemma runs_background: "runs m r \<Longrightarrow> m background = Some (r, background)"
  unfolding background_def by (drule runsD [of _ _ None]) (auto simp: ctx_outcome_def)

lemma runs_result:
  "runs m r \<Longrightarrow> m c = Some (r', c') \<Longrightarrow> r' = r \<or> c \<noteq> background \<and> r' = Inl Canceled"
  unfolding background_def by (drule runsD [of _ _ c]) (auto simp: ctx_outcome_def)

lemma runs_unique: "runs m r \<Longrightarrow> runs m r' \<Longrightarrow> r = r'"
  by (drule runs_background)+ simp

lemma runs_ret [runs_intros]: "runs (ret x) (Inr x)"
  by (rule runsI) (simp add: ret_def outcome_now)

lemma runs_fail [runs_intros]: "runs (fail e) (Inl (Failed e))"
  by (rule runsI) (simp add: fail_def outcome_now)

lemma runs_lift [runs_intros]: "runs (lift (Some (Returns x))) (Inr x)"
  by (rule runsI) (simp add: lift_def outcome_now)

lemma runs_lift_panic: "runs (lift (Some Panics)) (Inl Panicked)"
  by (rule runsI) (simp add: lift_def outcome_now)

lemma runs_poll [runs_intros]: "runs poll (Inr ())"
proof (rule runsI)
  fix c
  show "ctx_outcome (Inr ()) c (poll c)"
    by (cases c rule: ctx_err.cases) (simp_all add: poll_def ctx_outcome_def)
qed

lemma runs_poll_if [runs_intros]: "runs (poll_if b) (Inr ())"
  by (simp add: poll_if_def runs_poll runs_ret)

lemma runs_fail_if [runs_intros]: "runs (fail_if b e) (if b then Inl (Failed e) else Inr ())"
  by (simp add: fail_if_def runs_fail runs_ret)

lemma outcome_trans:
  assumes "ctx_outcome r d v" and "d = None \<longleftrightarrow> c = None"
  shows "ctx_outcome r c v"
  using assms unfolding ctx_outcome_def by simp

lemma outcome_canceled: "d \<noteq> None \<Longrightarrow> c \<noteq> None \<Longrightarrow> ctx_outcome r c (Some (Inl Canceled, d))"
  unfolding ctx_outcome_def by blast

lemma outcome_finished: "d = None \<longleftrightarrow> c = None \<Longrightarrow> ctx_outcome r c (Some (r, d))"
  unfolding ctx_outcome_def by blast

lemma runs_then [runs_intros]:
  assumes "runs m (Inr x)" and "runs (f x) r"
  shows "runs (andThen m f) r"
proof (rule runsI)
  fix c
  from runsD [OF assms(1)] show "ctx_outcome r c (andThen m f c)"
  proof (cases rule: outcome_cases [of _ c "m c", consumes 1, case_names finished canceled])
    case (finished d)
    then show ?thesis
      using outcome_trans [OF runsD [OF assms(2)]] by (simp add: andThen_def)
  qed (simp add: andThen_def outcome_canceled)
qed

lemma runs_then_error:
  assumes "runs m (Inl e)"
  shows "runs (andThen m f) (Inl e)"
proof (rule runsI)
  fix c
  from runsD [OF assms] show "ctx_outcome (Inl e) c (andThen m f c)"
  proof (cases rule: outcome_cases [of _ c "m c", consumes 1, case_names finished canceled])
    case (finished d)
    then show ?thesis by (simp add: andThen_def outcome_finished)
  qed (simp add: andThen_def outcome_canceled)
qed

lemma runs_bind:
  assumes "runs m s" and "\<And>x. s = Inr x \<Longrightarrow> runs (f x) (g x)"
  shows "runs (andThen m f) (case s of Inl e \<Rightarrow> Inl e | Inr x \<Rightarrow> g x)"
  using assms by (cases s) (auto intro: runs_then runs_then_error)

lemma runs_check:
  assumes "\<not> b \<Longrightarrow> runs (f ()) r"
  shows "runs (andThen (fail_if b e) f) (if b then Inl (Failed e) else r)"
  using assms by (cases b) (auto simp: fail_if_def intro: runs_intros runs_then_error)

lemma runs_for [runs_intros]:
  assumes "\<And>x s. x \<in> set xs \<Longrightarrow> runs (f x s) (g x s)"
  shows "runs (for_loop f xs s) (fold_until g xs s)"
  using assms
proof (induction xs arbitrary: s)
  case (Cons x xs)
  show ?case unfolding for_loop.simps fold_until.simps
  proof (rule runs_bind)
    show "runs (f x s) (g x s)" using Cons.prems by simp
    fix t
    show "runs (for_loop f xs t) (fold_until g xs t)" using Cons by simp
  qed
qed (simp add: runs_ret)

lemma fold_until_total: "fold_until (\<lambda>x s. Inr (h x s)) xs s = Inr (fold h xs s)"
  by (induction xs arbitrary: s) simp_all

lemma runs_for_total:
  assumes "\<And>x s. x \<in> set xs \<Longrightarrow> runs (f x s) (Inr (h x s))"
  shows "runs (for_loop f xs s) (Inr (fold h xs s))"
  using runs_for [of xs f "\<lambda>x s. Inr (h x s)" s] assms by (simp add: fold_until_total)

lemma runs_poll_loop:
  assumes "\<And>i x s. runs (f i x s) (g i x s)"
  shows "runs (poll_loop k f j xs s) (fold_until (\<lambda>(i, x). g i x) (enumerate j xs) s)"
  unfolding poll_loop_def
  by (rule runs_for) (auto intro!: runs_then [OF runs_poll_if] assms)

lemma fold_enumerate: "fold (\<lambda>(i, x). h x) (enumerate j xs) s = fold h xs s"
  by (induction xs arbitrary: j s) simp_all

lemma fold_until_enumerate:
  "fold_until (\<lambda>(i, x). g x) (enumerate j xs) s = fold_until g xs s"
  by (induction xs arbitrary: j s) (simp_all split: sum.splits)

lemma fold_until_append:
  "fold_until g (xs @ ys) s =
     (case fold_until g xs s of Inl e \<Rightarrow> Inl e | Inr t \<Rightarrow> fold_until g ys t)"
  by (induction xs arbitrary: s) (simp_all split: sum.splits)

text \<open>An invariant of the loop state holds after the loop, when it returns no error.\<close>

lemma fold_until_invariant:
  assumes "fold_until g xs s = Inr t" and "P s"
    and "\<And>x s t. x \<in> set xs \<Longrightarrow> P s \<Longrightarrow> g x s = Inr t \<Longrightarrow> P t"
  shows "P t"
  using assms
proof (induction xs arbitrary: s)
  case (Cons x xs)
  then obtain u where u: "g x s = Inr u" "fold_until g xs u = Inr t"
    by (auto split: sum.splits)
  have "P u" using Cons.prems(3) [OF _ Cons.prems(2) u(1)] by simp
  then show ?case using Cons.prems(3) by (intro Cons.IH [OF u(2)]) auto
qed simp

fun fold_return :: "('a \<Rightarrow> 's \<Rightarrow> 'e + ('r + 's)) \<Rightarrow> 'a list \<Rightarrow> 's \<Rightarrow> 'e + ('r + 's)" where
  "fold_return g [] s = Inr (Inr s)"
| "fold_return g (x # xs) s = (case g x s of Inl e \<Rightarrow> Inl e | Inr r \<Rightarrow>
     (case r of Inl v \<Rightarrow> Inr (Inl v) | Inr t \<Rightarrow> fold_return g xs t))"

lemma runs_for_return:
  assumes "\<And>x s. x \<in> set xs \<Longrightarrow> runs (f x s) (g x s)"
  shows "runs (for_return f xs s) (fold_return g xs s)"
  using assms
proof (induction xs arbitrary: s)
  case (Cons x xs)
  show ?case unfolding for_return.simps fold_return.simps
  proof (rule runs_bind)
    show "runs (f x s) (g x s)" using Cons.prems by simp
    fix r
    show "runs (case r of Inl v \<Rightarrow> ret (Inl v) | Inr t \<Rightarrow> for_return f xs t)
      (case r of Inl v \<Rightarrow> Inr (Inl v) | Inr t \<Rightarrow> fold_return g xs t)"
      using Cons by (cases r) (simp_all add: runs_ret)
  qed
qed (simp add: runs_ret)

lemma runs_rescue:
  assumes "runs m r"
  shows "runs (rescue h m) (case r of
      Inl (Failed e) \<Rightarrow> (case h e of Some x \<Rightarrow> Inr x | None \<Rightarrow> r)
    | _ \<Rightarrow> r)"
proof (rule runsI)
  fix c
  let ?r = "case r of Inl (Failed e) \<Rightarrow> (case h e of Some x \<Rightarrow> Inr x | None \<Rightarrow> r) | _ \<Rightarrow> r"
  from runsD [OF assms] show "ctx_outcome ?r c (rescue h m c)"
  proof (cases rule: outcome_cases [of _ c "m c", consumes 1, case_names finished canceled])
    case (finished d)
    then have "rescue h m c = Some (?r, d)"
      by (auto simp: rescue_def split: sum.splits failure.splits option.splits)
    then show ?thesis using finished by (simp add: outcome_finished)
  next
    case (canceled d)
    then have "rescue h m c = Some (Inl Canceled, d)" by (simp add: rescue_def)
    then show ?thesis using canceled by (simp add: outcome_canceled)
  qed
qed

end
