(* ===== verification/ChunkIdentity.thy ===== *)
theory ChunkIdentity
  imports ChunkText GoContext Sha256
begin

text \<open>
  The data of the retrieval chunker (\<open>internal/retrievalchunk/types.go\<close>), its identities
  (\<open>identity.go\<close>), the roles (\<open>roles.go\<close>) and the projection of an item or a source document
  to a parent (\<open>projection.go\<close>).

  Every identity is the SHA-256 of a list of strings, each prefixed by its length in eight
  bytes. The section \<open>Identities\<close> proves that this encoding determines the list, so two identities
  agree only when all their parts do, unless SHA-256 collides.
\<close>

section \<open>Data\<close>

definition Version :: string where
  "Version = ''retrieval-chunker-v3''"

definition ProjectionVersion :: string where
  "ProjectionVersion = ''retrieval-projection-v2''"

definition MaxUTF8Bytes :: nat where
  "MaxUTF8Bytes = 1800"

definition V3MaximumPlanningInputUTF8Bytes :: nat where
  "V3MaximumPlanningInputUTF8Bytes = 134217728"

definition V3MaximumPlanningSections :: nat where
  "V3MaximumPlanningSections = 4096"

definition V3MaximumExactPlanningInputUTF8Bytes :: nat where
  "V3MaximumExactPlanningInputUTF8Bytes = 8388608"

record chunk_section =
  sec_key :: string
  sec_role :: string
  sec_heading :: string
  sec_text :: string
  sec_derived :: bool

record parent =
  par_kind :: string
  par_source_key :: string
  par_content_hash :: string
  par_title :: string
  par_source_type :: string
  par_author :: string
  par_sections :: "chunk_section list"

record chunk =
  chunk_id :: string
  chunk_parent_kind :: string
  chunk_parent_source_key :: string
  chunk_role :: string
  chunk_section_key :: string
  chunk_ordinal :: nat
  chunk_section_ordinal :: nat
  chunk_start_char :: nat
  chunk_end_char :: nat
  chunk_heading :: string
  chunk_heading_hash :: string
  chunk_derived :: bool
  chunk_projection_version :: string
  chunk_chunker_version :: string
  chunk_input_hash :: string
  chunk_text_hash :: string
  chunk_text :: string

record occurrence =
  occ_chunk_id :: string
  occ_section_key :: string
  occ_start_char :: nat
  occ_end_char :: nat

record projection =
  proj_parent_hash :: string
  proj_chunks :: "chunk list"
  proj_occurrences :: "occurrence list"

text \<open>The options are machine integers; \<open>TargetRunes opts\<close> is the value of the field, and so on.\<close>

record chunk_options =
  target_word :: "64 word"
  max_word :: "64 word"
  overlap_word :: "64 word"

definition TargetRunes :: "chunk_options \<Rightarrow> int" where
  "TargetRunes opts = sint (target_word opts)"

definition MaxRunes :: "chunk_options \<Rightarrow> int" where
  "MaxRunes opts = sint (max_word opts)"

definition OverlapRunes :: "chunk_options \<Rightarrow> int" where
  "OverlapRunes opts = sint (overlap_word opts)"

lemma MaxRunes_le: "MaxRunes opts \<le> int64_max"
  using sint_lt [of "max_word opts"] by (simp add: MaxRunes_def int64_max_def)

lemma TargetRunes_le: "TargetRunes opts \<le> int64_max"
  using sint_lt [of "target_word opts"] by (simp add: TargetRunes_def int64_max_def)

definition DefaultOptions :: chunk_options where
  "DefaultOptions = \<lparr>target_word = 2400, max_word = 3600, overlap_word = 0\<rparr>"

lemma DefaultOptions_sizes [simp]:
  "TargetRunes DefaultOptions = 2400" "MaxRunes DefaultOptions = 3600" "OverlapRunes DefaultOptions = 0"
  by (simp_all add: TargetRunes_def MaxRunes_def OverlapRunes_def DefaultOptions_def)

section \<open>Identities\<close>

definition lengthPrefix :: "nat \<Rightarrow> string" where
  "lengthPrefix n = map (\<lambda>i. char_of (n div 256 ^ i mod 256)) [7, 6, 5, 4, 3, 2, 1, 0]"

text \<open>A hash in progress is the bytes written to it.\<close>

definition writeLengthPrefixed :: "string \<Rightarrow> string \<Rightarrow> string" where
  "writeLengthPrefixed value h = h @ lengthPrefix (length value) @ value"

definition hash_sum :: "string \<Rightarrow> string" where
  "hash_sum h = sha256_hex 32 h"

definition identityHash :: "string list \<Rightarrow> string" where
  "identityHash vs = hash_sum (fold writeLengthPrefixed vs [])"

text \<open>\<open>for start := 0; start < len(value); start += 4 << 10\<close>: the value in blocks, with a poll
  before each.\<close>

function blocks_of :: "nat \<Rightarrow> 'a list \<Rightarrow> 'a list list" where
  "blocks_of k xs = (if xs = [] \<or> k = 0 then [] else take k xs # blocks_of k (drop k xs))"
  by auto
termination by (relation "measure (length \<circ> snd)") auto

declare blocks_of.simps [simp del]

definition identityHashContext :: "string list \<Rightarrow> ('e, string) run" where
  "identityHashContext vs =
     andThen (for_loop (\<lambda>value h. andThen poll (\<lambda>_.
         for_loop (\<lambda>block h. andThen poll (\<lambda>_. ret (h @ block))) (blocks_of 4096 value)
           (h @ lengthPrefix (length value)))) vs [])
       (\<lambda>h. ret (hash_sum h))"

definition textHash :: "string \<Rightarrow> string" where
  "textHash text = identityHash [''text'', text]"

definition PreparedStreamPlanDigest :: "string \<Rightarrow> string" where
  "PreparedStreamPlanDigest encoded = sha256_hex 32 encoded"

definition boolIdentity :: "bool \<Rightarrow> string" where
  "boolIdentity value = (if value then ''true'' else ''false'')"

definition parent_values :: "parent \<Rightarrow> string list" where
  "parent_values parent =
     [''parent'', ProjectionVersion, TrimSpace (par_kind parent), TrimSpace (par_source_key parent),
      TrimSpace (par_title parent), TrimSpace (par_source_type parent), TrimSpace (par_author parent)]"

definition section_values :: "chunk_section \<Rightarrow> string \<Rightarrow> string list" where
  "section_values section text_hash =
     [TrimSpace (sec_key section), TrimSpace (sec_role section), boolIdentity (sec_derived section),
      TrimSpace (sec_heading section), text_hash]"

definition parentHash :: "parent \<Rightarrow> string" where
  "parentHash parent = identityHash
     (fold (\<lambda>section vs. vs @ section_values section (textHash (sec_text section)))
       (par_sections parent) (parent_values parent))"

definition parentHashContext :: "parent \<Rightarrow> ('e, string) run" where
  "parentHashContext parent =
     andThen (poll_loop 256 (\<lambda>_ section vs.
         andThen (identityHashContext [''text'', sec_text section])
           (\<lambda>sectionTextHash. ret (vs @ section_values section sectionTextHash)))
         0 (par_sections parent) (parent_values parent))
       identityHashContext"

definition sectionKey :: "parent \<Rightarrow> chunk_section \<Rightarrow> string" where
  "sectionKey parent section =
     (let key = TrimSpace (sec_key section) in
      if key \<noteq> [] then
        identityHash [''section'', ProjectionVersion, TrimSpace (par_kind parent),
          TrimSpace (par_source_key parent), key]
      else
        identityHash [''section'', ProjectionVersion, TrimSpace (par_kind parent),
          TrimSpace (par_source_key parent), TrimSpace (sec_role section),
          boolIdentity (sec_derived section), TrimSpace (sec_heading section)])"

definition headingHash :: "string \<Rightarrow> string" where
  "headingHash heading = identityHash [''heading'', TrimSpace heading]"

definition chunkID :: "string \<Rightarrow> string \<Rightarrow> bool \<Rightarrow> string \<Rightarrow> string \<Rightarrow> string" where
  "chunkID section_key role derived heading_hash text_hash =
     identityHash [''chunk'', ProjectionVersion, Version, section_key, TrimSpace role,
       boolIdentity derived, heading_hash, text_hash]"

subsection \<open>The bytes an identity hashes\<close>

definition identity_bytes :: "string list \<Rightarrow> string" where
  "identity_bytes vs = concat (map (\<lambda>v. lengthPrefix (length v) @ v) vs)"

lemma fold_writeLengthPrefixed: "fold writeLengthPrefixed vs h = h @ identity_bytes vs"
  by (induction vs arbitrary: h) (simp_all add: writeLengthPrefixed_def identity_bytes_def)

lemma identityHash_bytes: "identityHash vs = hash_sum (identity_bytes vs)"
  by (simp add: identityHash_def fold_writeLengthPrefixed)

lemma length_lengthPrefix [simp]: "length (lengthPrefix n) = 8"
  by (simp add: lengthPrefix_def)

text \<open>The length is read back from its eight bytes.\<close>

definition readLength :: "string \<Rightarrow> nat" where
  "readLength s = foldl (\<lambda>n c. n * 256 + of_char c) 0 (take 8 s)"

lemma readLength_prefix:
  assumes "n < 2 ^ 64"
  shows "readLength (lengthPrefix n @ s) = n"
proof -
  define d where "d i = n div 256 ^ i" for i :: nat
  have step: "d i = d j * 256 + d i mod 256" if "j = Suc i" for i j
  proof -
    have "d j = d i div 256" by (simp add: that d_def div_mult2_eq [symmetric] mult.commute)
    then show ?thesis by (simp only: div_mult_mod_eq)
  qed
  have "d 8 = 0" "d 0 = n" using assms by (simp_all add: d_def)
  then have "((((((d 7 mod 256 * 256 + d 6 mod 256) * 256 + d 5 mod 256) * 256 + d 4 mod 256) * 256
      + d 3 mod 256) * 256 + d 2 mod 256) * 256 + d 1 mod 256) * 256 + d 0 mod 256 = n"
    using step [of 1 0] step [of 2 1] step [of 3 2] step [of 4 3] step [of 5 4] step [of 6 5]
      step [of 7 6] step [of 8 7]
    by (simp del: mod_mult_self1 mod_mult_self2 mod_mult_self3 mod_mult_self4)
  then show ?thesis
    by (simp add: readLength_def lengthPrefix_def d_def)
qed

text \<open>A reader of identities: the inverse of the encoding.\<close>

function readIdentity :: "string \<Rightarrow> string list" where
  "readIdentity s = (if s = [] then []
     else take (readLength s) (drop 8 s) # readIdentity (drop (8 + readLength s) s))"
  by auto
termination by (relation "measure length") auto

declare readIdentity.simps [simp del]

definition encodable :: "string list \<Rightarrow> bool" where
  "encodable vs = list_all (\<lambda>v. length v < 2 ^ 64) vs"

lemma lengthPrefix_nonempty [simp]: "lengthPrefix n \<noteq> []"
  by (simp add: lengthPrefix_def)

lemma read_identity_bytes: "encodable vs \<Longrightarrow> readIdentity (identity_bytes vs) = vs"
proof (induction vs)
  case Nil
  then show ?case by (simp add: identity_bytes_def readIdentity.simps)
next
  case (Cons v vs)
  then have v: "length v < 2 ^ 64" and rest: "readIdentity (identity_bytes vs) = vs"
    by (simp_all add: encodable_def)
  have bytes: "identity_bytes (v # vs) = lengthPrefix (length v) @ v @ identity_bytes vs"
    by (simp add: identity_bytes_def)
  show ?case
    unfolding bytes by (subst readIdentity.simps) (simp add: readLength_prefix [OF v] rest)
qed

lemma identity_bytes_inject:
  "encodable xs \<Longrightarrow> encodable ys \<Longrightarrow> identity_bytes xs = identity_bytes ys \<longleftrightarrow> xs = ys"
  by (metis read_identity_bytes)

subsection \<open>Identities under a context\<close>

lemma concat_blocks: "0 < k \<Longrightarrow> concat (blocks_of k xs) = xs"
  by (induction k xs rule: blocks_of.induct) (subst blocks_of.simps, simp)

lemma fold_append: "fold (\<lambda>b h. h @ b) bs h = h @ concat bs"
  by (induction bs arbitrary: h) simp_all

lemma runs_write_blocks:
  "runs (for_loop (\<lambda>block h. andThen poll (\<lambda>_. ret (h @ block))) (blocks_of 4096 value) h)
     (Inr (h @ value))"
proof -
  have "runs (for_loop (\<lambda>block h. andThen poll (\<lambda>_. ret (h @ block))) (blocks_of 4096 value) h)
     (Inr (fold (\<lambda>b h. h @ b) (blocks_of 4096 value) h))"
    by (rule runs_for_total) (rule runs_intros)+
  then show ?thesis by (simp add: fold_append concat_blocks)
qed

lemma runs_identityHash [runs_intros]:
  "runs (identityHashContext vs) (Inr (identityHash vs))"
proof -
  have "runs (for_loop (\<lambda>value h. andThen poll (\<lambda>_.
         for_loop (\<lambda>block h. andThen poll (\<lambda>_. ret (h @ block))) (blocks_of 4096 value)
           (h @ lengthPrefix (length value)))) vs [])
     (Inr (fold writeLengthPrefixed vs []))"
    unfolding writeLengthPrefixed_def
  proof (rule runs_for_total)
    fix v h
    show "runs (andThen poll (\<lambda>_. for_loop (\<lambda>block h. andThen poll (\<lambda>_. ret (h @ block)))
        (blocks_of 4096 v) (h @ lengthPrefix (length v)))) (Inr (h @ lengthPrefix (length v) @ v))"
      using runs_write_blocks [of v "h @ lengthPrefix (length v)"]
      by (intro runs_then [OF runs_poll]) simp
  qed
  then show ?thesis
    unfolding identityHashContext_def identityHash_def by (rule runs_then) (rule runs_ret)
qed

lemma runs_parentHash [runs_intros]: "runs (parentHashContext parent) (Inr (parentHash parent))"
proof -
  have "runs (poll_loop 256 (\<lambda>_ section vs.
         andThen (identityHashContext [''text'', sec_text section])
           (\<lambda>sectionTextHash. ret (vs @ section_values section sectionTextHash)))
         0 (par_sections parent) (parent_values parent))
     (fold_until (\<lambda>(i, section) vs.
         Inr (vs @ section_values section (textHash (sec_text section))))
       (enumerate 0 (par_sections parent)) (parent_values parent))"
    unfolding textHash_def by (rule runs_poll_loop) (rule runs_intros)+
  then show ?thesis
    unfolding parentHashContext_def parentHash_def fold_until_enumerate fold_until_total
    by (rule runs_then) (rule runs_identityHash)
qed

end
