(* ===== verification/ChunkPlan.thy ===== *)
theory ChunkPlan
  imports ChunkIdentity
begin

text \<open>
  The boundary planner of chunker v3 (\<open>chunker.go\<close> from \<open>chunkSectionV3\<close> on): the natural
  boundaries of a text, the fingerprints, the two winnowing passes over runes and bytes that
  select global anchors, the protected prefix, the compaction of dense anchors and the filling
  of gaps that exceed the hard limits. Positions are rune boundaries, naturals; the
  \<open>selected\<close> set is the list of its elements. The context polls are in the definitions whose
  Go function takes a context.
\<close>

section \<open>Boundaries\<close>

definition paragraphBoundary :: "rune list \<Rightarrow> nat \<Rightarrow> bool" where
  "paragraphBoundary text pos =
     (if pos < 2 \<or> length text < pos \<or> text ! (pos - 1) \<noteq> 10 then False
      else let previous = int pos - 2;
               previous = (if text ! nat previous = 13 then previous - 1 else previous)
           in 0 \<le> previous \<and> text ! nat previous = 10)"

definition sentenceAt :: "rune list \<Rightarrow> nat \<Rightarrow> bool" where
  "sentenceAt text pos =
     (if pos < 1 \<or> length text < pos then False
      else let r = text ! (pos - 1) in
        (r = 46 \<or> r = 33 \<or> r = 63) \<and> (pos = length text \<or> isSpace (text ! pos)))"

definition whitespaceAt :: "rune list \<Rightarrow> nat \<Rightarrow> nat \<Rightarrow> bool" where
  "whitespaceAt text start pos = (start < pos \<and> pos \<le> length text \<and> isSpace (text ! (pos - 1)))"

definition boundaryRank :: "rune list \<Rightarrow> nat \<Rightarrow> nat" where
  "boundaryRank text pos =
     (if paragraphBoundary text pos then 0
      else if sentenceAt text pos then 1
      else if whitespaceAt text 0 pos then 2
      else 3)"

text \<open>The FNV-style hash of the preceding window, on 64-bit words.\<close>

definition fixedWindowFingerprint :: "rune list \<Rightarrow> nat \<Rightarrow> nat \<Rightarrow> 64 word" where
  "fixedWindowFingerprint text pos window =
     (let from = pos - window;
          value = (1469598103934665603 XOR of_nat (pos - from)) * 1099511628211
      in fold (\<lambda>r value. (value XOR of_nat r) * 1099511628211) (slice_of from pos text) value)"

text \<open>\<open>for start < end && unicode.IsSpace(text[start])\<close>, then the same from the end.\<close>

function trim_start :: "rune list \<Rightarrow> nat \<Rightarrow> nat \<Rightarrow> nat" where
  "trim_start text start stop =
     (if start < stop \<and> isSpace (text ! start) then trim_start text (Suc start) stop else start)"
  by auto
termination by (relation "measure (\<lambda>(text, start, stop). stop - start)") auto

fun trim_stop :: "rune list \<Rightarrow> nat \<Rightarrow> nat \<Rightarrow> nat" where
  "trim_stop text start stop =
     (if start < stop \<and> isSpace (text ! (stop - 1)) then trim_stop text start (stop - 1) else stop)"

declare trim_start.simps [simp del] trim_stop.simps [simp del]

definition trimRuneOffsetsRunes :: "rune list \<Rightarrow> nat \<Rightarrow> nat \<Rightarrow> nat \<times> nat" where
  "trimRuneOffsetsRunes text start stop =
     (let start = trim_start text start stop in (start, trim_stop text start stop))"

text \<open>The furthest boundary a window from \<open>start\<close> may end at: at most \<open>MaxRunes\<close> runes and
  \<open>MaxUTF8Bytes\<close> bytes, and always at least one rune. The sums are those of Go's \<open>int\<close>: if
  \<open>start + MaxRunes\<close> exceeds it, the result is negative.\<close>

definition hardEnd :: "nat list \<Rightarrow> nat \<Rightarrow> chunk_options \<Rightarrow> int" where
  "hardEnd offsets start opts =
     (let runeEnd = min (int64_add (int start) (MaxRunes opts)) (int (length offsets) - 1);
          byteLimit = int64_add (int (offsets ! start)) (int MaxUTF8Bytes);
          byteEnd = int (sortSearch (length offsets) (\<lambda>pos. byteLimit < int (offsets ! pos))) - 1
      in min runeEnd (max (int start + 1) byteEnd))"

text \<open>The boundary nearest to the target, the later of two at the same distance.\<close>

definition nearer :: "nat \<Rightarrow> nat \<Rightarrow> nat \<times> int \<Rightarrow> nat \<times> int" where
  "nearer target pos found = (case found of (best, distance) \<Rightarrow>
     let delta = \<bar>int pos - int target\<bar> in
     if delta < distance \<or> delta = distance \<and> best < pos then (pos, delta) else (best, distance))"

definition preferredBoundary :: "rune list \<Rightarrow> nat \<Rightarrow> nat \<Rightarrow> nat \<Rightarrow> (rune list \<Rightarrow> nat \<Rightarrow> bool) \<Rightarrow> nat" where
  "preferredBoundary text start target hard predicate =
     fst (fold (\<lambda>pos found. if \<not> predicate text pos then found else nearer target pos found)
       [start + 1..<hard + 1] (0, int64_max))"

text \<open>From the start of the text the hard limit is not negative.\<close>

definition prefixBoundary :: "rune list \<Rightarrow> nat list \<Rightarrow> chunk_options \<Rightarrow> nat \<times> bool" where
  "prefixBoundary text offsets opts =
     (let hard = nat (hardEnd offsets 0 opts) in
      if hard = length text then (0, False)
      else let target = nat (min (TargetRunes opts) (int hard));
               paragraph = preferredBoundary text 0 target hard paragraphBoundary;
               sentence = preferredBoundary text 0 target hard sentenceAt;
               whitespace = preferredBoundary text 0 target hard (\<lambda>value pos. whitespaceAt value 0 pos)
           in if 0 < paragraph then (paragraph, True)
              else if 0 < sentence then (sentence, True)
              else if 0 < whitespace then (whitespace, True)
              else (target, False))"

section \<open>Anchors\<close>

record anchorCandidate =
  runePosition :: nat
  bytePosition :: nat
  rank :: nat
  fingerprint :: "64 word"

definition anchorLessOrEqual :: "anchorCandidate \<Rightarrow> anchorCandidate \<Rightarrow> bool" where
  "anchorLessOrEqual l r =
     (rank l < rank r \<or> rank l = rank r \<and> fingerprint l \<le> fingerprint r)"

definition anchorSameScore :: "anchorCandidate \<Rightarrow> anchorCandidate \<Rightarrow> bool" where
  "anchorSameScore l r = (rank l = rank r \<and> fingerprint l = fingerprint r)"

text \<open>The state of the winnowing loop: the deque of candidate indices (front first), the next
  candidate, the last one selected and the selected rune positions.\<close>

record winnow =
  deque :: "nat list"
  next_candidate :: nat
  lastSelected :: "nat option"
  selected :: "nat list"

definition position :: "bool \<Rightarrow> anchorCandidate \<Rightarrow> nat" where
  "position bytes c = (if bytes then bytePosition c else runePosition c)"

text \<open>\<open>for len(deque) > 0 && anchorLessOrEqual(candidate, candidates[deque[len(deque)-1]])\<close>\<close>

definition pop_back :: "anchorCandidate list \<Rightarrow> anchorCandidate \<Rightarrow> nat list \<Rightarrow> nat list" where
  "pop_back cs c dq = rev (dropWhile (\<lambda>j. anchorLessOrEqual c (cs ! j)) (rev dq))"

function push_candidates :: "anchorCandidate list \<Rightarrow> bool \<Rightarrow> nat \<Rightarrow> nat list \<Rightarrow> nat \<Rightarrow> nat list \<times> nat" where
  "push_candidates cs bytes pos dq next =
     (if next < length cs \<and> position bytes (cs ! next) = pos
      then push_candidates cs bytes pos (pop_back cs (cs ! next) dq @ [next]) (Suc next)
      else (dq, next))"
  by auto
termination by (relation "measure (\<lambda>(cs, bytes, pos, dq, next). length cs - next)") auto

declare push_candidates.simps [simp del]

definition winnow_at :: "anchorCandidate list \<Rightarrow> nat \<Rightarrow> bool \<Rightarrow> nat \<Rightarrow> winnow \<Rightarrow> winnow" where
  "winnow_at cs span bytes pos w =
     (case push_candidates cs bytes pos (deque w) (next_candidate w) of (dq, next) \<Rightarrow>
      let windowStart = int pos - int span + 1;
          dq = dropWhile (\<lambda>j. int (position bytes (cs ! j)) < windowStart) dq;
          w = w\<lparr>deque := dq, next_candidate := next\<rparr>
      in if span \<le> pos \<and> dq \<noteq> [] then
           let minimum = hd dq in
           if (case lastSelected w of None \<Rightarrow> True | Some l \<Rightarrow> \<not> anchorSameScore (cs ! minimum) (cs ! l))
           then w\<lparr>selected := List.insert (runePosition (cs ! minimum)) (selected w),
                  lastSelected := Some minimum\<rparr>
           else w
         else w)"

definition winnowAnchorsContext ::
  "anchorCandidate list \<Rightarrow> nat \<Rightarrow> int \<Rightarrow> bool \<Rightarrow> nat list \<Rightarrow> ('e, nat list) run" where
  "winnowAnchorsContext cs whole span bytes sel =
     (if span \<le> 0 \<or> int whole \<le> span \<or> cs = [] then ret sel
      else andThen
        (poll_loop 256 (\<lambda>pos _ w. ret (winnow_at cs (nat span) bytes pos w)) 1 (replicate (whole - 1) ())
          \<lparr>deque = [], next_candidate = 0, lastSelected = None, selected = sel\<rparr>)
        (\<lambda>w. ret (selected w)))"

text \<open>\<open>end_of\<close> is the last anchor of the cluster so far.\<close>

fun cluster :: "rune list \<Rightarrow> int \<Rightarrow> int \<Rightarrow> nat \<Rightarrow> nat list \<Rightarrow> nat \<times> nat list" where
  "cluster text radius protected end_of [] = (end_of, [])"
| "cluster text radius protected end_of (b # bs) =
     (if int b \<noteq> protected \<and> 1 < boundaryRank text b \<and> int b - int end_of < radius
      then cluster text radius protected b bs else (end_of, b # bs))"

lemma length_cluster: "length (snd (cluster text radius protected l bs)) \<le> length bs"
  by (induction bs arbitrary: l) (simp_all add: le_SucI)

text \<open>\<open>i\<close> is the index of the first anchor of the list.\<close>

function compactDenseAnchorsContext ::
  "rune list \<Rightarrow> int \<Rightarrow> int \<Rightarrow> nat \<Rightarrow> nat list \<Rightarrow> nat list \<Rightarrow> ('e, nat list) run" where
  "compactDenseAnchorsContext text radius protected i [] result = ret result"
| "compactDenseAnchorsContext text radius protected i (a # as) result =
     andThen (poll_if (i mod 256 = 0)) (\<lambda>_.
       if int a = protected \<or> boundaryRank text a \<le> 1
       then compactDenseAnchorsContext text radius protected (Suc i) as (result @ [a])
       else let end_of = fst (cluster text radius protected a as);
                rest = snd (cluster text radius protected a as)
            in compactDenseAnchorsContext text radius protected
                 (i + length (a # as) - length rest) rest (result @ [end_of]))"
  by pat_completeness auto
termination
  by (relation "measure (\<lambda>(text, radius, protected, i, anchors, result). length anchors)")
    (auto intro: le_imp_less_Suc length_cluster)

text \<open>\<open>for end > hardEnd(byteOffsets, start, opts)\<close>: the cuts and the last start. A negative cut
  becomes the start of the next turn, which panics on \<open>byteOffsets[start]\<close>. It is \<open>None\<close>
  when the loop does not end.\<close>

partial_function (option) fill_gap ::
  "nat list \<Rightarrow> chunk_options \<Rightarrow> nat \<Rightarrow> nat \<Rightarrow> nat list \<Rightarrow> (nat \<times> nat list) go option" where
  "fill_gap offsets opts stop start result =
     (if hardEnd offsets start opts < int stop then
        let cut = min (int64_add (int start) (TargetRunes opts)) (hardEnd offsets start opts);
            cut = (if cut \<le> int start then hardEnd offsets start opts else cut)
        in if cut < 0 then Some Panics
           else fill_gap offsets opts stop (nat cut) (result @ [nat cut])
      else Some (Returns (start, result)))"

definition boundAnchorGapsContext ::
  "nat list \<Rightarrow> nat list \<Rightarrow> chunk_options \<Rightarrow> ('e, nat list) run" where
  "boundAnchorGapsContext offsets anchors opts =
     andThen (poll_loop 256 (\<lambda>_ stop (start, result).
         if stop \<le> start then ret (start, result)
         else andThen (lift (fill_gap offsets opts stop start result)) (\<lambda>(start, result).
           ret (stop, if stop < length offsets - 1 then result @ [stop] else result)))
         0 (anchors @ [length offsets - 1]) (0, []))
       (\<lambda>(start, result). ret result)"

definition fingerprint_runes :: "chunk_options \<Rightarrow> int" where
  "fingerprint_runes opts = min 32 (max 1 (min (TargetRunes opts) (MaxRunes opts) div 4))"

definition candidate_at :: "rune list \<Rightarrow> chunk_options \<Rightarrow> nat \<Rightarrow> anchorCandidate" where
  "candidate_at text opts pos =
     \<lparr>runePosition = pos, bytePosition = byteOffsets text ! pos, rank = boundaryRank text pos,
      fingerprint = fixedWindowFingerprint text pos (nat (fingerprint_runes opts))\<rparr>"

text \<open>The selected anchors that survive the prefix: \<open>delete(selected, at)\<close> for the others.\<close>

definition protect_prefix :: "nat list \<Rightarrow> chunk_options \<Rightarrow> nat \<Rightarrow> bool \<Rightarrow> nat list \<Rightarrow> nat list" where
  "protect_prefix offsets opts edge natural sel =
     List.insert edge
       (filter (\<lambda>pos. \<not> (pos < edge \<or> \<not> natural \<and> int pos \<le> hardEnd offsets edge opts)) sel)"

definition globalAnchorsContext :: "rune list \<Rightarrow> chunk_options \<Rightarrow> ('e, nat list) run" where
  "globalAnchorsContext text opts =
     andThen (poll_loop 256 (\<lambda>i _ candidates.
         ret (if i + 1 = length text then candidates
              else candidates @ [candidate_at text opts (i + 1)])) 0 text [])
     (\<lambda>candidates.
       let offsets = byteOffsets text;
           totalBytes = offsets ! length text;
           radius = fingerprint_runes opts
       in andThen (winnowAnchorsContext candidates (length text) (max 1 (MaxRunes opts - radius)) False [])
       (\<lambda>selected.
         andThen (winnowAnchorsContext candidates totalBytes (int MaxUTF8Bytes - radius * 4) True selected)
       (\<lambda>selected.
         let edge = fst (prefixBoundary text offsets opts);
             natural = snd (prefixBoundary text offsets opts);
             selected = (if 0 < edge then protect_prefix offsets opts edge natural selected
                         else selected);
             protected = (if 0 < edge then int edge else - 1)
         in andThen (compactDenseAnchorsContext text radius protected 0 (sort selected) [])
       (\<lambda>anchors. boundAnchorGapsContext offsets anchors opts))))"

section \<open>Windows\<close>

record window =
  win_start :: nat
  win_end :: nat

text \<open>The windows of a text of \<open>n\<close> runes cut at the anchors inside it.\<close>

definition chunkSectionRunesV3Context :: "rune list \<Rightarrow> chunk_options \<Rightarrow> ('e, window list) run" where
  "chunkSectionRunesV3Context text opts =
     (if text = [] then ret []
      else andThen (globalAnchorsContext text opts) (\<lambda>anchors.
        andThen (poll_loop 256 (\<lambda>_ stop (start, result).
            ret (if start < stop \<and> stop < length text
                 then (stop, result @ [\<lparr>win_start = start, win_end = stop\<rparr>])
                 else (start, result))) 0 anchors (0, []))
          (\<lambda>(start, result). ret (if start < length text
             then result @ [\<lparr>win_start = start, win_end = length text\<rparr>] else result))))"

text \<open>Under \<open>context.Background()\<close>: the error is dropped, a panic goes on.\<close>

definition chunkSectionRunesV3 :: "rune list \<Rightarrow> chunk_options \<Rightarrow> ('e, window list) run" where
  "chunkSectionRunesV3 text opts c =
     (case chunkSectionRunesV3Context text opts background :: ((unit failure + window list) \<times> ctx) option of
        None \<Rightarrow> None
      | Some (Inr result, _) \<Rightarrow> Some (Inr result, c)
      | Some (Inl Panicked, _) \<Rightarrow> Some (Inl Panicked, c)
      | Some (Inl _, _) \<Rightarrow> Some (Inr [], c))"

definition chunkSectionV3 :: "string \<Rightarrow> chunk_options \<Rightarrow> ('e, window list) run" where
  "chunkSectionV3 text opts = chunkSectionRunesV3 (rangeRunes text) opts"

end
