(* ===== verification/ChunkStream.thy ===== *)
theory ChunkStream
  imports ChunkPlan
begin

text \<open>
  The streaming planner of \<open>chunker.go\<close>: the checks of a parent, the normalized sections, the
  allocation-free preflight, the prepared plan and its parser, and the emission of chunks from
  a durable cursor. The JSON codec of a plan is a parameter of its users (\<open>unmarshal\<close>), as is the
  callback that receives chunks, a function on the caller's state \<open>'s\<close>. Errors are values
  of \<open>chunk_error\<close>; their texts are not modelled.
\<close>

definition preparedStreamPlanVersion :: string where
  "preparedStreamPlanVersion = ''retrieval-stream-plan-v1''"

record stream_window =
  StartBoundary :: int
  NextBoundary :: int
  StartChar :: int
  EndChar :: int
  StartByte :: int
  EndByte :: int
  Emit :: bool

record stream_section =
  PlanKey :: string
  RuneCount :: int
  Windows :: "stream_window list"

record stream_plan =
  PlanVersion :: string
  PlanProjectionVersion :: string
  PlanChunkerVersion :: string
  PlanParentHash :: string
  PlanTarget :: int
  PlanMax :: int
  PlanOverlap :: int
  OccurrenceCount :: int
  PlanSections :: "stream_section list"

record stream_session =
  ses_parent :: parent
  ses_sections :: "chunk_section list"
  ses_plan :: stream_plan
  ses_plan_hash :: string

record cursor =
  CursorKey :: string
  CursorBoundary :: int

datatype chunk_error =
    ParentKindRequired
  | ParentSourceKeyRequired
  | InvalidChunkSizes int int
  | OverlapNotZero int
  | TooManySections nat nat
  | SectionRoleRequired
  | DuplicateSectionKey string
  | CeilingNotPositive
  | PlanningByteCeiling nat
  | NegativeOccurrenceLimit
  | OccurrenceLimit int int
  | ExactPlanningCeiling nat
  | PlanTooLong nat
  | PlanInvalid
  | PlanNotDecoded string
  | PlanProvenance
  | PlanSectionMismatch nat
  | PlanBoundaryInvalid nat
  | PlanNotCovering nat
  | PlanCountMismatch
  | CallbackRequired
  | SessionInvalid
  | CursorSectionUnknown string
  | CursorOutside int
  | CursorNotBoundary int
  | StreamIncomplete

type_synonym 'a planning = "(chunk_error, 'a) run"

section \<open>Checks of a parent\<close>

definition validate_sizes :: "chunk_options \<Rightarrow> unit planning" where
  "validate_sizes opts =
     andThen (fail_if (TargetRunes opts \<le> 0 \<or> MaxRunes opts < TargetRunes opts)
       (InvalidChunkSizes (TargetRunes opts) (MaxRunes opts))) (\<lambda>_.
     fail_if (OverlapRunes opts \<noteq> 0) (OverlapNotZero (OverlapRunes opts)))"

definition check_section :: "parent \<Rightarrow> chunk_section \<Rightarrow> string list \<Rightarrow> string list planning" where
  "check_section parent section seen =
     andThen (fail_if (TrimSpace (sec_role section) = []) SectionRoleRequired) (\<lambda>_.
     let key = sectionKey parent section in
     andThen (fail_if (key \<in> set seen) (DuplicateSectionKey key)) (\<lambda>_. ret (key # seen)))"

definition validateStreamingMetadataContext ::
  "parent \<Rightarrow> chunk_options \<Rightarrow> nat \<Rightarrow> unit planning" where
  "validateStreamingMetadataContext parent opts maxSections =
     andThen (fail_if (TrimSpace (par_kind parent) = []) ParentKindRequired) (\<lambda>_.
     andThen (fail_if (TrimSpace (par_source_key parent) = []) ParentSourceKeyRequired) (\<lambda>_.
     andThen (validate_sizes opts) (\<lambda>_.
     andThen (fail_if (0 < maxSections \<and> maxSections < length (par_sections parent))
       (TooManySections (length (par_sections parent)) maxSections)) (\<lambda>_.
     andThen (poll_loop 256 (\<lambda>_. check_section parent) 0 (par_sections parent) []) (\<lambda>_.
     ret ())))))"

text \<open>One rune of the byte count: the bytes of the section and those since the last poll.\<close>

definition count_rune :: "int \<Rightarrow> nat \<Rightarrow> rune \<Rightarrow> nat \<times> nat \<Rightarrow> (nat \<times> nat) planning" where
  "count_rune limit i r s = (case s of (sectionBytes, checkedBytes) \<Rightarrow>
     andThen (fail_if (runeLen r < 0 \<or> limit - runeLen r < int sectionBytes) (PlanningByteCeiling i)) (\<lambda>_.
     let checked = checkedBytes + width r in
     andThen (poll_if (4096 \<le> checked)) (\<lambda>_.
     ret (sectionBytes + width r, if 4096 \<le> checked then 0 else checked))))"

definition validatePlanningInputBytes :: "parent \<Rightarrow> int \<Rightarrow> unit planning" where
  "validatePlanningInputBytes parent limit =
     andThen (fail_if (limit \<le> 0) CeilingNotPositive) (\<lambda>_.
     andThen (for_loop (\<lambda>(i, section) bytes.
         andThen (for_loop (count_rune limit i) (rangeRunes (sec_text section)) (0, 0)) (\<lambda>(sectionBytes, _).
         andThen (fail_if (limit - int sectionBytes < int bytes) (PlanningByteCeiling i)) (\<lambda>_.
         ret (bytes + sectionBytes)))) (enumerate 0 (par_sections parent)) 0) (\<lambda>_.
     ret ()))"

section \<open>The preflight\<close>

record preflight =
  normalizedBytes :: nat
  lowerBound :: nat
  sectionByteAt :: nat
  coveredThrough :: nat
  checkedBytes :: nat

text \<open>One rune: cover the first uncovered rune that is not white space with the longest interval a
  window may have, and return as soon as more than \<open>limit\<close> intervals are needed.\<close>

definition preflight_rune ::
  "int \<Rightarrow> nat \<Rightarrow> rune \<Rightarrow> preflight \<Rightarrow> ((bool \<times> nat) + preflight) planning" where
  "preflight_rune limit i r p =
     andThen (fail_if (runeLen r < 0 \<or>
         int V3MaximumPlanningInputUTF8Bytes - runeLen r < int (normalizedBytes p))
       (PlanningByteCeiling i)) (\<lambda>_.
     let p = p\<lparr>normalizedBytes := normalizedBytes p + width r, checkedBytes := checkedBytes p + width r\<rparr> in
     andThen (poll_if (4096 \<le> checkedBytes p)) (\<lambda>_.
     let p = (if 4096 \<le> checkedBytes p then p\<lparr>checkedBytes := 0\<rparr> else p) in
     if \<not> isSpace r \<and> coveredThrough p \<le> sectionByteAt p then
       let p = p\<lparr>lowerBound := lowerBound p + 1\<rparr> in
       if limit < int (lowerBound p) then ret (Inl (True, normalizedBytes p))
       else ret (Inr (p\<lparr>coveredThrough := sectionByteAt p + MaxUTF8Bytes,
         sectionByteAt := sectionByteAt p + width r\<rparr>))
     else ret (Inr (p\<lparr>sectionByteAt := sectionByteAt p + width r\<rparr>))))"

definition preflight_section ::
  "int \<Rightarrow> nat \<times> chunk_section \<Rightarrow> nat \<times> nat \<Rightarrow> ((bool \<times> nat) + (nat \<times> nat)) planning" where
  "preflight_section limit sec s = (case sec of (i, section) \<Rightarrow>
     andThen (poll_if (i mod 256 = 0)) (\<lambda>_.
     andThen (for_return (preflight_rune limit i) (rangeRunes (sec_text section))
         \<lparr>normalizedBytes = fst s, lowerBound = snd s, sectionByteAt = 0, coveredThrough = 0,
          checkedBytes = 0\<rparr>) (\<lambda>r.
     case r of Inl v \<Rightarrow> ret (Inl v)
     | Inr p \<Rightarrow> ret (Inr (normalizedBytes p, lowerBound p)))))"

definition preflight_raw :: "parent \<Rightarrow> nat planning" where
  "preflight_raw parent =
     poll_loop 256 (\<lambda>i section rawBytes.
       andThen (fail_if (int V3MaximumPlanningInputUTF8Bytes - int rawBytes < int (length (sec_text section)))
         (PlanningByteCeiling i)) (\<lambda>_. ret (rawBytes + length (sec_text section)))) 0 (par_sections parent) 0"

definition occurrenceLimitPreflight :: "parent \<Rightarrow> int \<Rightarrow> (bool \<times> nat) planning" where
  "occurrenceLimitPreflight parent limit =
     andThen (preflight_raw parent) (\<lambda>_.
     andThen (for_return (preflight_section limit) (enumerate 0 (par_sections parent)) (0, 0)) (\<lambda>r.
     case r of Inl v \<Rightarrow> ret v
     | Inr s \<Rightarrow> andThen poll (\<lambda>_. ret (False, fst s))))"

section \<open>Normalized sections\<close>

text \<open>The loop over the runes of a string that polls every 4096 bytes, and once at its end.\<close>

definition rune_scan :: "(rune \<Rightarrow> 's \<Rightarrow> 's) \<Rightarrow> string \<Rightarrow> 's \<Rightarrow> ('e, 's) run" where
  "rune_scan step value s =
     andThen (for_loop (\<lambda>r (checked, s).
         andThen (poll_if (4096 \<le> checked)) (\<lambda>_.
         ret ((if 4096 \<le> checked then 0 else checked) + width r, step r s)))
       (rangeRunes value) (0 :: nat, s)) (\<lambda>(_, s).
     andThen poll (\<lambda>_. ret s))"

definition normalizeUTF8Context :: "string \<Rightarrow> ('e, string) run" where
  "normalizeUTF8Context value = rune_scan (\<lambda>r normalized. normalized @ encodeRune r) value []"

definition stringRunesContext :: "string \<Rightarrow> ('e, rune list) run" where
  "stringRunesContext value = rune_scan (\<lambda>r result. result @ [r]) value []"

definition runeCountContext :: "string \<Rightarrow> ('e, nat) run" where
  "runeCountContext value = rune_scan (\<lambda>_ count. count + 1) value 0"

definition normalize_section ::
  "parent \<Rightarrow> chunk_section \<Rightarrow> chunk_section list \<times> string list \<Rightarrow>
   (chunk_section list \<times> string list) planning" where
  "normalize_section parent section s =
     andThen (normalizeUTF8Context (sec_text section)) (\<lambda>normalized.
     let section = section\<lparr>sec_text := normalized, sec_role := TrimSpace (sec_role section),
           sec_heading := TrimSpace (sec_heading section)\<rparr>;
         section = section\<lparr>sec_key := sectionKey parent section\<rparr>
     in andThen (fail_if (sec_role section = []) SectionRoleRequired) (\<lambda>_.
        andThen (fail_if (sec_key section \<in> set (snd s)) (DuplicateSectionKey (sec_key section))) (\<lambda>_.
        ret (fst s @ [section], sec_key section # snd s))))"

definition normalizedStreamingSectionsContext ::
  "parent \<Rightarrow> chunk_options \<Rightarrow> bool \<Rightarrow> chunk_section list planning" where
  "normalizedStreamingSectionsContext parent opts validateOptions =
     andThen poll (\<lambda>_.
     let parent = parent\<lparr>par_kind := TrimSpace (par_kind parent),
                         par_source_key := TrimSpace (par_source_key parent)\<rparr>
     in andThen (fail_if (par_kind parent = []) ParentKindRequired) (\<lambda>_.
        andThen (fail_if (par_source_key parent = []) ParentSourceKeyRequired) (\<lambda>_.
        andThen (if validateOptions then validate_sizes opts else ret ()) (\<lambda>_.
        andThen (poll_loop 256 (\<lambda>_. normalize_section parent) 0 (par_sections parent) ([], [])) (\<lambda>s.
        ret (fst s))))))"

section \<open>Preparing a plan\<close>

definition byteOffsetsContext :: "rune list \<Rightarrow> ('e, nat list) run" where
  "byteOffsetsContext runes =
     poll_loop 1024 (\<lambda>_ r offsets. ret (offsets @ [last offsets + width r])) 0 runes [0]"

definition prepared_window :: "rune list \<Rightarrow> nat list \<Rightarrow> window \<Rightarrow> stream_window" where
  "prepared_window runes offsets w =
     (case trimRuneOffsetsRunes runes (win_start w) (win_end w) of (start, stop) \<Rightarrow>
      \<lparr>StartBoundary = int (win_start w), NextBoundary = int (win_end w),
       StartChar = int start, EndChar = int stop,
       StartByte = int (offsets ! start), EndByte = int (offsets ! stop), Emit = (start < stop)\<rparr>)"

definition prepare_window ::
  "int \<Rightarrow> rune list \<Rightarrow> nat list \<Rightarrow> window \<Rightarrow> stream_window list \<times> int \<Rightarrow>
   (stream_window list \<times> int) planning" where
  "prepare_window maxOccurrences runes offsets w s =
     (let p = prepared_window runes offsets w;
          count = (if Emit p then snd s + 1 else snd s)
      in andThen (fail_if (Emit p \<and> 0 < maxOccurrences \<and> maxOccurrences < count)
           (OccurrenceLimit count maxOccurrences)) (\<lambda>_. ret (fst s @ [p], count)))"

definition prepare_section ::
  "int \<Rightarrow> (rune list \<Rightarrow> window list planning) \<Rightarrow> chunk_section \<Rightarrow> stream_plan \<Rightarrow> stream_plan planning" where
  "prepare_section maxOccurrences planSection section plan =
     andThen poll (\<lambda>_.
     andThen (stringRunesContext (sec_text section)) (\<lambda>runes.
     andThen (byteOffsetsContext runes) (\<lambda>offsets.
     andThen (planSection runes) (\<lambda>ws.
     andThen (poll_loop 64 (\<lambda>_. prepare_window maxOccurrences runes offsets) 0 ws
         ([], OccurrenceCount plan)) (\<lambda>(prepared, count).
     ret (plan\<lparr>OccurrenceCount := count, PlanSections := PlanSections plan @
       [\<lparr>PlanKey = sec_key section, RuneCount = int (length runes), Windows = prepared\<rparr>]\<rparr>))))))"

definition empty_plan :: "string \<Rightarrow> chunk_options \<Rightarrow> stream_plan" where
  "empty_plan projectionHash opts =
     \<lparr>PlanVersion = preparedStreamPlanVersion, PlanProjectionVersion = ProjectionVersion,
      PlanChunkerVersion = Version, PlanParentHash = projectionHash,
      PlanTarget = TargetRunes opts, PlanMax = MaxRunes opts, PlanOverlap = OverlapRunes opts,
      OccurrenceCount = 0, PlanSections = []\<rparr>"

definition prepareStreamSessionWithPlanner ::
  "parent \<Rightarrow> chunk_options \<Rightarrow> int \<Rightarrow> int \<Rightarrow> (rune list \<Rightarrow> window list planning) \<Rightarrow> stream_session planning" where
  "prepareStreamSessionWithPlanner parent opts maxOccurrences planningByteLimit planSection =
     andThen poll (\<lambda>_.
     andThen (if 0 < planningByteLimit then
         andThen (validateStreamingMetadataContext parent opts V3MaximumPlanningSections) (\<lambda>_.
         validatePlanningInputBytes parent planningByteLimit)
       else ret ()) (\<lambda>_.
     andThen (normalizedStreamingSectionsContext parent opts True) (\<lambda>sections.
     andThen (parentHashContext parent) (\<lambda>projectionHash.
     andThen (for_loop (prepare_section maxOccurrences planSection) sections
         (empty_plan projectionHash opts)) (\<lambda>plan.
     ret \<lparr>ses_parent = parent, ses_sections = sections, ses_plan = plan, ses_plan_hash = []\<rparr>)))))"

definition prepareStreamWithPlanner ::
  "parent \<Rightarrow> chunk_options \<Rightarrow> int \<Rightarrow> int \<Rightarrow> (rune list \<Rightarrow> window list planning) \<Rightarrow> stream_plan planning" where
  "prepareStreamWithPlanner parent opts maxOccurrences planningByteLimit planSection =
     andThen (prepareStreamSessionWithPlanner parent opts maxOccurrences planningByteLimit planSection)
       (\<lambda>session. ret (ses_plan session))"

text \<open>Under \<open>context.Background()\<close>: \<open>None\<close> if the planner does not return.\<close>

definition PrepareStream :: "parent \<Rightarrow> chunk_options \<Rightarrow> int \<Rightarrow> (chunk_error failure + stream_plan) option" where
  "PrepareStream parent opts maxOccurrences =
     map_option fst (prepareStreamWithPlanner parent opts maxOccurrences 0
       (\<lambda>rs. chunkSectionRunesV3 rs opts) background)"

definition PrepareStreamContext :: "parent \<Rightarrow> chunk_options \<Rightarrow> int \<Rightarrow> stream_plan planning" where
  "PrepareStreamContext parent opts maxOccurrences =
     prepareStreamWithPlanner parent opts maxOccurrences (int V3MaximumPlanningInputUTF8Bytes)
       (\<lambda>rs. chunkSectionRunesV3Context rs opts)"

definition PrepareStreamCappedContext :: "parent \<Rightarrow> chunk_options \<Rightarrow> int \<Rightarrow> stream_plan planning" where
  "PrepareStreamCappedContext parent opts maxOccurrences =
     andThen (fail_if (maxOccurrences < 0) NegativeOccurrenceLimit) (\<lambda>_.
     andThen (validateStreamingMetadataContext parent opts V3MaximumPlanningSections) (\<lambda>_.
     if maxOccurrences = 0 then
       andThen (validatePlanningInputBytes parent (int V3MaximumExactPlanningInputUTF8Bytes)) (\<lambda>_.
       PrepareStreamContext parent opts 0)
     else
       andThen (occurrenceLimitPreflight parent maxOccurrences) (\<lambda>(over, normalized).
       andThen (fail_if over (OccurrenceLimit (maxOccurrences + 1) maxOccurrences)) (\<lambda>_.
       andThen (fail_if (V3MaximumExactPlanningInputUTF8Bytes < normalized)
         (ExactPlanningCeiling normalized)) (\<lambda>_.
       PrepareStreamContext parent opts maxOccurrences)))))"

definition PrepareStreamCommandSessionContext ::
  "parent \<Rightarrow> chunk_options \<Rightarrow> int \<Rightarrow> stream_session planning" where
  "PrepareStreamCommandSessionContext parent opts maxOccurrences =
     andThen (fail_if (maxOccurrences < 0) NegativeOccurrenceLimit) (\<lambda>_.
     andThen (validateStreamingMetadataContext parent opts V3MaximumPlanningSections) (\<lambda>_.
     if maxOccurrences = 0 then
       andThen (validatePlanningInputBytes parent (int V3MaximumPlanningInputUTF8Bytes)) (\<lambda>_.
       prepareStreamSessionWithPlanner parent opts 0 (int V3MaximumPlanningInputUTF8Bytes)
         (\<lambda>rs. chunkSectionRunesV3Context rs opts))
     else
       andThen (occurrenceLimitPreflight parent maxOccurrences) (\<lambda>(over, _).
       andThen (fail_if over (OccurrenceLimit (maxOccurrences + 1) maxOccurrences)) (\<lambda>_.
       prepareStreamSessionWithPlanner parent opts maxOccurrences (int V3MaximumPlanningInputUTF8Bytes)
         (\<lambda>rs. chunkSectionRunesV3Context rs opts)))))"

definition PrepareStreamCommandContext :: "parent \<Rightarrow> chunk_options \<Rightarrow> int \<Rightarrow> stream_plan planning" where
  "PrepareStreamCommandContext parent opts maxOccurrences =
     andThen (PrepareStreamCommandSessionContext parent opts maxOccurrences) (\<lambda>session. ret (ses_plan session))"

definition CountOccurrencesCappedContext :: "parent \<Rightarrow> chunk_options \<Rightarrow> int \<Rightarrow> int planning" where
  "CountOccurrencesCappedContext parent opts limit =
     andThen (fail_if (limit < 0) NegativeOccurrenceLimit) (\<lambda>_.
     if limit = 0 then
       andThen (validateStreamingMetadataContext parent opts V3MaximumPlanningSections) (\<lambda>_.
       andThen (occurrenceLimitPreflight parent 0) (\<lambda>(over, _). ret (if over then 1 else 0)))
     else
       rescue (\<lambda>e. case e of OccurrenceLimit _ _ \<Rightarrow> Some (limit + 1) | _ \<Rightarrow> None)
         (andThen (PrepareStreamCappedContext parent opts limit) (\<lambda>plan. ret (OccurrenceCount plan))))"

definition parentProjectionHashContext :: "parent \<Rightarrow> nat \<Rightarrow> int \<Rightarrow> string planning" where
  "parentProjectionHashContext parent maxSections maxBytes =
     andThen (validateStreamingMetadataContext parent DefaultOptions maxSections) (\<lambda>_.
     andThen (validatePlanningInputBytes parent maxBytes) (\<lambda>_.
     parentHashContext parent))"

definition ParentProjectionHashContext :: "parent \<Rightarrow> string planning" where
  "ParentProjectionHashContext parent =
     parentProjectionHashContext parent V3MaximumPlanningSections (int V3MaximumPlanningInputUTF8Bytes)"

definition ParentProjectionHash :: "parent \<Rightarrow> (chunk_error failure + string) option" where
  "ParentProjectionHash parent =
     map_option fst (andThen (normalizedStreamingSectionsContext parent DefaultOptions False)
       (\<lambda>_. ret (parentHash parent)) background)"

section \<open>Parsing a plan\<close>

definition plan_matches :: "parent \<Rightarrow> chunk_options \<Rightarrow> chunk_section list \<Rightarrow> string \<Rightarrow> stream_plan \<Rightarrow> bool" where
  "plan_matches parent opts sections projectionHash plan \<longleftrightarrow>
     PlanVersion plan = preparedStreamPlanVersion \<and> PlanProjectionVersion plan = ProjectionVersion \<and>
     PlanChunkerVersion plan = Version \<and> PlanParentHash plan = projectionHash \<and>
     PlanTarget plan = TargetRunes opts \<and> PlanMax plan = MaxRunes opts \<and>
     PlanOverlap plan = OverlapRunes opts \<and> length (PlanSections plan) = length sections"

definition window_valid :: "int \<Rightarrow> int \<Rightarrow> int \<Rightarrow> stream_window \<Rightarrow> bool" where
  "window_valid previous runeCount textBytes w \<longleftrightarrow> \<not> (StartBoundary w \<noteq> previous \<or>
     NextBoundary w \<le> StartBoundary w \<or> runeCount < NextBoundary w \<or>
     StartChar w < StartBoundary w \<or> NextBoundary w < EndChar w \<or> EndChar w < StartChar w \<or>
     StartByte w < 0 \<or> EndByte w < StartByte w \<or> textBytes < EndByte w)"

definition parse_window :: "nat \<Rightarrow> int \<Rightarrow> int \<Rightarrow> stream_window \<Rightarrow> int \<times> int \<Rightarrow> (int \<times> int) planning" where
  "parse_window i runeCount textBytes w s =
     andThen (fail_if (\<not> window_valid (fst s) runeCount textBytes w) (PlanBoundaryInvalid i)) (\<lambda>_.
     ret (NextBoundary w, if Emit w then snd s + 1 else snd s))"

definition parse_section :: "nat \<Rightarrow> chunk_section \<times> stream_section \<Rightarrow> int \<Rightarrow> int planning" where
  "parse_section i sp count = (case sp of (section, prepared) \<Rightarrow>
     andThen (runeCountContext (sec_text section)) (\<lambda>runeCount.
     andThen (fail_if (PlanKey prepared \<noteq> sec_key section \<or> RuneCount prepared \<noteq> int runeCount)
       (PlanSectionMismatch i)) (\<lambda>_.
     andThen (poll_loop 64 (\<lambda>_. parse_window i (RuneCount prepared) (int (length (sec_text section))))
         0 (Windows prepared) (0, count)) (\<lambda>(previous, count).
     andThen (fail_if (Windows prepared \<noteq> [] \<and> previous \<noteq> RuneCount prepared) (PlanNotCovering i)) (\<lambda>_.
     ret count)))))"

definition ParsePreparedStreamSessionContext ::
  "(string \<Rightarrow> string + stream_plan) \<Rightarrow> parent \<Rightarrow> chunk_options \<Rightarrow> string \<Rightarrow> int \<Rightarrow> stream_session planning" where
  "ParsePreparedStreamSessionContext unmarshal parent opts encoded maxOccurrences =
     andThen (fail_if (maxOccurrences < 0) NegativeOccurrenceLimit) (\<lambda>_.
     andThen (fail_if (V3MaximumPlanningInputUTF8Bytes < length encoded)
       (PlanTooLong (length encoded))) (\<lambda>_.
     andThen (validateStreamingMetadataContext parent opts V3MaximumPlanningSections) (\<lambda>_.
     andThen (if maxOccurrences = 0
         then validatePlanningInputBytes parent (int V3MaximumPlanningInputUTF8Bytes)
         else andThen (occurrenceLimitPreflight parent maxOccurrences) (\<lambda>(over, _).
           fail_if over (OccurrenceLimit (maxOccurrences + 1) maxOccurrences))) (\<lambda>_.
     andThen poll (\<lambda>_.
     case unmarshal encoded of Inl e \<Rightarrow> fail (PlanNotDecoded e)
     | Inr plan \<Rightarrow>
         andThen poll (\<lambda>_.
         andThen (normalizedStreamingSectionsContext parent opts True) (\<lambda>sections.
         andThen (parentHashContext parent) (\<lambda>projectionHash.
         andThen (fail_if (\<not> plan_matches parent opts sections projectionHash plan) PlanProvenance) (\<lambda>_.
         andThen (poll_loop 256 parse_section 0 (zip sections (PlanSections plan)) 0) (\<lambda>count.
         andThen (fail_if (count \<noteq> OccurrenceCount plan) PlanCountMismatch) (\<lambda>_.
         andThen (fail_if (0 < maxOccurrences \<and> maxOccurrences < count)
           (OccurrenceLimit (maxOccurrences + 1) maxOccurrences)) (\<lambda>_.
         andThen poll (\<lambda>_.
         ret \<lparr>ses_parent = parent, ses_sections = sections, ses_plan = plan,
              ses_plan_hash = PreparedStreamPlanDigest encoded\<rparr>)))))))))))))"

definition ParsePreparedStreamPlanContext ::
  "(string \<Rightarrow> string + stream_plan) \<Rightarrow> parent \<Rightarrow> chunk_options \<Rightarrow> string \<Rightarrow> int \<Rightarrow> stream_plan planning" where
  "ParsePreparedStreamPlanContext unmarshal parent opts encoded maxOccurrences =
     andThen (ParsePreparedStreamSessionContext unmarshal parent opts encoded maxOccurrences)
       (\<lambda>session. ret (ses_plan session))"

definition ParsePreparedStreamPlan ::
  "(string \<Rightarrow> string + stream_plan) \<Rightarrow> parent \<Rightarrow> chunk_options \<Rightarrow> string \<Rightarrow> int \<Rightarrow>
   (chunk_error failure + stream_plan) option" where
  "ParsePreparedStreamPlan unmarshal parent opts encoded maxOccurrences =
     map_option fst (ParsePreparedStreamPlanContext unmarshal parent opts encoded maxOccurrences background)"

definition MarshalBinary :: "(stream_plan \<Rightarrow> string) \<Rightarrow> stream_plan \<Rightarrow> chunk_error + string" where
  "MarshalBinary marshal plan =
     (if PlanVersion plan \<noteq> preparedStreamPlanVersion then Inl PlanInvalid else Inr (marshal plan))"

definition MarshalPlanBinary ::
  "(stream_plan \<Rightarrow> string) \<Rightarrow> stream_session \<Rightarrow> stream_session \<times> (chunk_error + (string \<times> string))" where
  "MarshalPlanBinary marshal session =
     (case MarshalBinary marshal (ses_plan session) of
        Inl e \<Rightarrow> (session, Inl e)
      | Inr encoded \<Rightarrow> let session = session\<lparr>ses_plan_hash := PreparedStreamPlanDigest encoded\<rparr> in
          (session, Inr (encoded, ses_plan_hash session)))"

section \<open>Streaming\<close>

text \<open>A panic of the planner is passed through.\<close>

datatype 'x stream_error = StreamError chunk_error | StreamCanceled | EmitFailed 'x | StreamPanicked

type_synonym ('s, 'x) emitter = "chunk \<Rightarrow> occurrence \<Rightarrow> 's \<Rightarrow> 'x option \<times> 's"

text \<open>What a stream returns: the cursor, whether it is done, its error, and the caller's state.\<close>

type_synonym ('s, 'x) streamed = "cursor \<times> bool \<times> 'x stream_error option \<times> 's"

definition no_cursor :: cursor where
  "no_cursor = \<lparr>CursorKey = [], CursorBoundary = 0\<rparr>"

definition window_text :: "chunk_section \<Rightarrow> stream_window \<Rightarrow> string" where
  "window_text section w = slice_of (nat (StartByte w)) (nat (EndByte w)) (sec_text section)"

definition window_chunk_id :: "chunk_section \<Rightarrow> string \<Rightarrow> string" where
  "window_chunk_id section value = chunkID (sec_key section) (sec_role section) (sec_derived section)
     (headingHash (sec_heading section)) (textHash value)"

definition window_chunk :: "parent \<Rightarrow> nat \<Rightarrow> chunk_section \<Rightarrow> stream_window \<Rightarrow> chunk" where
  "window_chunk parent ordinal section w =
     (let value = window_text section w in
      \<lparr>chunk_id = window_chunk_id section value, chunk_parent_kind = par_kind parent,
       chunk_parent_source_key = par_source_key parent, chunk_role = sec_role section,
       chunk_section_key = sec_key section, chunk_ordinal = 0, chunk_section_ordinal = ordinal,
       chunk_start_char = 0, chunk_end_char = 0, chunk_heading = sec_heading section,
       chunk_heading_hash = headingHash (sec_heading section), chunk_derived = sec_derived section,
       chunk_projection_version = ProjectionVersion, chunk_chunker_version = Version,
       chunk_input_hash = par_content_hash parent, chunk_text_hash = textHash value,
       chunk_text = value\<rparr>)"

definition window_occurrence :: "chunk_section \<Rightarrow> stream_window \<Rightarrow> occurrence" where
  "window_occurrence section w =
     \<lparr>occ_chunk_id = window_chunk_id section (window_text section w), occ_section_key = sec_key section,
      occ_start_char = nat (StartChar w), occ_end_char = nat (EndChar w)\<rparr>"

text \<open>The cursor after a window: the next section when it is the last one of its section.\<close>

definition next_cursor :: "chunk_section list \<Rightarrow> nat \<Rightarrow> stream_section \<Rightarrow> stream_window \<Rightarrow> cursor" where
  "next_cursor sections ordinal prepared w =
     (if NextBoundary w = RuneCount prepared \<and> ordinal + 1 < length sections
      then \<lparr>CursorKey = sec_key (sections ! (ordinal + 1)), CursorBoundary = 0\<rparr>
      else \<lparr>CursorKey = sec_key (sections ! ordinal), CursorBoundary = NextBoundary w\<rparr>)"

text \<open>The loop over the windows of a section; \<open>i\<close> is the index of the first one of the list.
  \<open>Inl\<close> returns from the stream.\<close>

fun stream_windows ::
  "stream_session \<Rightarrow> nat \<Rightarrow> stream_section \<Rightarrow> int \<Rightarrow> ('s, 'x) emitter \<Rightarrow> nat \<Rightarrow> stream_window list \<Rightarrow>
   cursor \<Rightarrow> 's \<Rightarrow> ctx \<Rightarrow> ((cursor \<times> 'x stream_error) + cursor) \<times> 's \<times> ctx" where
  "stream_windows session ordinal prepared boundary emit i [] resumeCursor s c = (Inr resumeCursor, s, c)"
| "stream_windows session ordinal prepared boundary emit i (w # ws) resumeCursor s c =
     (case (if i mod 64 = 0 then ctx_err c else (False, c)) of (cancelled, c) \<Rightarrow>
      if cancelled then (Inl (resumeCursor, StreamCanceled), s, c)
      else if StartBoundary w < boundary \<or> \<not> Emit w then
        stream_windows session ordinal prepared boundary emit (Suc i) ws resumeCursor s c
      else
        let section = ses_sections session ! ordinal;
            next = next_cursor (ses_sections session) ordinal prepared w
        in case emit (window_chunk (ses_parent session) ordinal section w)
                (window_occurrence section w) s of
             (Some e, s) \<Rightarrow> (Inl (next, EmitFailed e), s, c)
           | (None, s) \<Rightarrow> stream_windows session ordinal prepared boundary emit (Suc i) ws next s c)"

text \<open>\<open>boundary\<close> of the first section: the cursor's, checked; 0 in every later section.\<close>

definition start_boundary :: "cursor \<Rightarrow> bool \<Rightarrow> stream_section \<Rightarrow> chunk_error + int" where
  "start_boundary cursor first prepared =
     (let boundary = (if first \<and> CursorKey cursor \<noteq> [] then CursorBoundary cursor else 0) in
      if first \<and> CursorKey cursor \<noteq> [] \<and> (boundary < 0 \<or> RuneCount prepared < boundary)
      then Inl (CursorOutside boundary)
      else if boundary \<noteq> 0 \<and> boundary \<noteq> RuneCount prepared \<and>
        \<not> list_ex (\<lambda>w. StartBoundary w = boundary) (Windows prepared)
      then Inl (CursorNotBoundary boundary)
      else Inr boundary)"

text \<open>The loop over the sections from \<open>ordinal\<close> on.\<close>

fun stream_sections ::
  "stream_session \<Rightarrow> cursor \<Rightarrow> ('s, 'x) emitter \<Rightarrow> bool \<Rightarrow> nat \<Rightarrow> stream_section list \<Rightarrow>
   cursor \<Rightarrow> 's \<Rightarrow> ctx \<Rightarrow> ('s, 'x) streamed" where
  "stream_sections session cursor emit first ordinal [] resumeCursor s c =
     (if fst (ctx_err c) then (resumeCursor, False, Some StreamCanceled, s)
      else (no_cursor, True, None, s))"
| "stream_sections session cursor emit first ordinal (prepared # rest) resumeCursor s c =
     (case ctx_err c of (cancelled, c) \<Rightarrow>
      if cancelled then (resumeCursor, False, Some StreamCanceled, s)
      else case start_boundary cursor first prepared of
        Inl e \<Rightarrow> (cursor, False, Some (StreamError e), s)
      | Inr boundary \<Rightarrow>
          (case stream_windows session ordinal prepared boundary emit 0 (Windows prepared) resumeCursor s c of
             (Inl (at, e), s, c) \<Rightarrow> (at, False, Some e, s)
           | (Inr resumeCursor, s, c) \<Rightarrow>
               stream_sections session cursor emit False (Suc ordinal) rest resumeCursor s c))"

fun find_section :: "string \<Rightarrow> nat \<Rightarrow> stream_section list \<Rightarrow> nat option" where
  "find_section key i [] = None"
| "find_section key i (p # ps) = (if PlanKey p = key then Some i else find_section key (Suc i) ps)"

definition streamPreparedSession ::
  "stream_session \<Rightarrow> cursor \<Rightarrow> ('s, 'x) emitter \<Rightarrow> 's \<Rightarrow> ctx \<Rightarrow> ('s, 'x) streamed" where
  "streamPreparedSession session cursor emit s c =
     (let plan = ses_plan session in
      case (if CursorKey cursor \<noteq> [] then find_section (CursorKey cursor) 0 (PlanSections plan)
            else Some 0) of
        None \<Rightarrow> (cursor, False, Some (StreamError (CursorSectionUnknown (CursorKey cursor))), s)
      | Some start \<Rightarrow>
          stream_sections session cursor emit True start (drop start (PlanSections plan)) cursor s c)"

definition StreamContext ::
  "stream_session \<Rightarrow> cursor \<Rightarrow> ('s, 'x) emitter option \<Rightarrow> 's \<Rightarrow> ctx \<Rightarrow> ('s, 'x) streamed" where
  "StreamContext session cursor emit s c =
     (case emit of None \<Rightarrow> (cursor, False, Some (StreamError CallbackRequired), s)
      | Some emit \<Rightarrow> (case ctx_err c of (cancelled, c) \<Rightarrow>
          if cancelled then (cursor, False, Some StreamCanceled, s)
          else if PlanVersion (ses_plan session) \<noteq> preparedStreamPlanVersion \<or>
            length (ses_sections session) \<noteq> length (PlanSections (ses_plan session))
          then (cursor, False, Some (StreamError SessionInvalid), s)
          else streamPreparedSession session cursor emit s c))"

definition SessionStream ::
  "stream_session \<Rightarrow> cursor \<Rightarrow> ('s, 'x) emitter option \<Rightarrow> 's \<Rightarrow> ('s, 'x) streamed" where
  "SessionStream session cursor emit s = StreamContext session cursor emit s background"

definition failure_error :: "chunk_error failure \<Rightarrow> 'x stream_error" where
  "failure_error e = (case e of Canceled \<Rightarrow> StreamCanceled | Failed x \<Rightarrow> StreamError x | Panicked \<Rightarrow> StreamPanicked)"

text \<open>The normalized sections under \<open>context.Background()\<close>.\<close>

definition normalizedStreamingSections ::
  "parent \<Rightarrow> chunk_options \<Rightarrow> bool \<Rightarrow> chunk_error failure + chunk_section list" where
  "normalizedStreamingSections parent opts validateOptions =
     fst (the (normalizedStreamingSectionsContext parent opts validateOptions background))"

definition StreamPrepared ::
  "parent \<Rightarrow> chunk_options \<Rightarrow> stream_plan \<Rightarrow> cursor \<Rightarrow> ('s, 'x) emitter option \<Rightarrow> 's \<Rightarrow> ('s, 'x) streamed" where
  "StreamPrepared parent opts plan cursor emit s =
     (case emit of None \<Rightarrow> (cursor, False, Some (StreamError CallbackRequired), s)
      | Some emit \<Rightarrow>
          (case normalizedStreamingSections parent opts True of
             Inl e \<Rightarrow> (cursor, False, Some (failure_error e), s)
           | Inr sections \<Rightarrow>
               if \<not> plan_matches parent opts sections (parentHash parent) plan
               then (cursor, False, Some (StreamError PlanProvenance), s)
               else streamPreparedSession \<lparr>ses_parent = parent, ses_sections = sections,
                 ses_plan = plan, ses_plan_hash = []\<rparr> cursor emit s background))"

text \<open>\<open>None\<close> if the planner does not return.\<close>

definition Stream ::
  "parent \<Rightarrow> chunk_options \<Rightarrow> cursor \<Rightarrow> ('s, 'x) emitter option \<Rightarrow> 's \<Rightarrow> ('s, 'x) streamed option" where
  "Stream parent opts cursor emit s =
     map_option (\<lambda>r. case r of Inl e \<Rightarrow> (cursor, False, Some (failure_error e), s)
       | Inr plan \<Rightarrow> StreamPrepared parent opts plan cursor emit s) (PrepareStream parent opts 0)"

section \<open>Projections\<close>

definition collect_chunk :: "(projection, unit) emitter" where
  "collect_chunk chunk occurrence p =
     (None, p\<lparr>proj_chunks := (if chunk_id chunk \<in> chunk_id ` set (proj_chunks p) then proj_chunks p
                else proj_chunks p @ [chunk]),
             proj_occurrences := proj_occurrences p @ [occurrence]\<rparr>)"

definition BuildProjection :: "parent \<Rightarrow> chunk_options \<Rightarrow> (unit stream_error + projection) option" where
  "BuildProjection parent opts =
     map_option (\<lambda>(_, finished, err, p). case err of
         Some e \<Rightarrow> Inl e
       | None \<Rightarrow> if \<not> finished then Inl (StreamError StreamIncomplete)
                 else Inr (p\<lparr>proj_parent_hash := parentHash parent\<rparr>))
       (Stream parent opts no_cursor (Some collect_chunk)
         \<lparr>proj_parent_hash = [], proj_chunks = [], proj_occurrences = []\<rparr>)"

text \<open>The legacy fields of a chunk, from its first occurrence.\<close>

definition Build :: "parent \<Rightarrow> chunk_options \<Rightarrow> (unit stream_error + chunk list) option" where
  "Build parent opts = map_option (\<lambda>r. case r of Inl e \<Rightarrow> Inl e
     | Inr p \<Rightarrow> Inr (map (\<lambda>(ordinal, chunk).
         (case find (\<lambda>occ. occ_chunk_id occ = chunk_id chunk) (proj_occurrences p) of
            None \<Rightarrow> chunk
          | Some occ \<Rightarrow> chunk\<lparr>chunk_ordinal := ordinal, chunk_start_char := occ_start_char occ,
              chunk_end_char := occ_end_char occ\<rparr>)) (enumerate 0 (proj_chunks p))))
     (BuildProjection parent opts)"

end
