(* ===== verification/ChunkWindows.thy ===== *)
theory ChunkWindows
  imports ChunkPlan
begin

text \<open>
  What the boundary planner returns, whatever its context: the plan of a rs whose options pass
  validation is a list of windows that partition the rs, none of which exceeds the rune
  limit or the byte limit. The reference definitions here are the planner without its polls;
  the rules \<open>runs_intros\<close> relate the two. The loop that fills gaps is shown to end, with the cuts of the reference or in a panic, when a sum wraps around.
\<close>

definition options_ok :: "chunk_options \<Rightarrow> bool" where
  "options_ok opts = (0 < TargetRunes opts \<and> TargetRunes opts \<le> MaxRunes opts)"

definition scalars :: "rune list \<Rightarrow> bool" where
  "scalars rs = list_all scalar rs"

lemma scalars_iff: "scalars rs \<longleftrightarrow> (\<forall>r \<in> set rs. scalar r)"
  by (simp add: scalars_def list_all_iff)

section \<open>Loops under a context\<close>

lemma runs_poll_loop_total:
  fixes f :: "nat \<Rightarrow> 'a \<Rightarrow> 'b \<Rightarrow> ('d, 'b) run"
  assumes "\<And>i x s. runs (f i x s) (Inr (h i x s))"
  shows "runs (poll_loop k f j xs s) (Inr (fold (\<lambda>(i, x). h i x) (enumerate j xs) s))"
proof -
  have "fold_until (\<lambda>(i, x) s. Inr (h i x s)) ys s = (Inr (fold (\<lambda>(i, x). h i x) ys s) :: 'd failure + 'b)" for ys
    by (induction ys arbitrary: s) auto
  moreover have "runs (poll_loop k f j xs s)
      (fold_until (\<lambda>(i, x) s. Inr (h i x s)) (enumerate j xs) s)"
    by (rule runs_poll_loop) (rule assms)
  ultimately show ?thesis by simp
qed

lemma fold_counter:
  "fold (\<lambda>(i, x). h i) (enumerate j (replicate n ())) s = fold h [j..<j + n] s"
  by (induction n arbitrary: j s) (simp_all add: upt_conv_Cons del: upt_Suc)

section \<open>The hard limit\<close>

lemma search_offsets:
  fixes rs :: "rune list" and limit :: int
  defines "k \<equiv> sortSearch (Suc (length rs)) (\<lambda>pos. limit < int (byteOffsets rs ! pos))"
  shows "k \<le> Suc (length rs)" "j < k \<Longrightarrow> int (byteOffsets rs ! j) \<le> limit"
    "k \<le> j \<Longrightarrow> j \<le> length rs \<Longrightarrow> limit < int (byteOffsets rs ! j)"
proof -
  let ?p = "\<lambda>pos. limit < int (byteOffsets rs ! pos)"
  have mono: "a \<le> b \<Longrightarrow> b < Suc (length rs) \<Longrightarrow> ?p a \<Longrightarrow> ?p b" for a b
    using byteOffsets_mono [of a b rs] by simp
  have k: "k = sortSearch (Suc (length rs)) ?p" by (simp add: k_def)
  show "k \<le> Suc (length rs)" unfolding k by (rule sortSearch_spec(1)) (rule mono)
  show "int (byteOffsets rs ! j) \<le> limit" if "j < k"
  proof -
    have "\<not> ?p j"
      by (rule sortSearch_spec(2) [of "Suc (length rs)" ?p]) (use mono that k in auto)
    then show ?thesis by simp
  qed
  show "limit < int (byteOffsets rs ! j)" if "k \<le> j" "j \<le> length rs"
    by (rule sortSearch_spec(3) [of "Suc (length rs)" ?p]) (use mono that k in auto)
qed

definition byte_span :: "rune list \<Rightarrow> nat \<Rightarrow> nat \<Rightarrow> nat" where
  "byte_span rs a b = byteOffsets rs ! b - byteOffsets rs ! a"

lemma byte_span_mono:
  "a \<le> b \<Longrightarrow> b \<le> c \<Longrightarrow> c \<le> length rs \<Longrightarrow> byte_span rs a b \<le> byte_span rs a c"
  by (simp add: byte_span_def byteOffsets_mono diff_le_mono)

text \<open>The hard limit without the wrap-around of \<open>start + MaxRunes\<close>. The planner uses the one with it, and panics
  when the two differ; the windows below are those of this one.\<close>

definition byte_end :: "nat list \<Rightarrow> nat \<Rightarrow> int" where
  "byte_end offsets start =
     int (sortSearch (length offsets) (\<lambda>pos. int64_add (int (offsets ! start)) (int MaxUTF8Bytes) < int (offsets ! pos))) - 1"

definition hard_end :: "nat list \<Rightarrow> nat \<Rightarrow> chunk_options \<Rightarrow> nat" where
  "hard_end offsets start opts =
     nat (min (min (int start + MaxRunes opts) (int (length offsets) - 1)) (max (int start + 1) (byte_end offsets start)))"

lemma int64_add_le: "int64_min \<le> a + b \<Longrightarrow> int64_add a b \<le> a + b"
proof -
  assume "int64_min \<le> a + b"
  then have "0 \<le> a + b + 2 ^ 63" by (simp add: int64_min_def)
  then have "(a + b + 2 ^ 63) mod 2 ^ 64 \<le> a + b + 2 ^ 63" by (rule zmod_le_nonneg_dividend)
  then show ?thesis by (simp add: int64_add_def)
qed

lemma int64_add_wraps:
  assumes "int64_max < a + b" "a \<le> int64_max" "b \<le> int64_max"
  shows "int64_add a b < 0"
proof -
  have "(a + b + 2 ^ 63 - 2 ^ 64) mod 2 ^ 64 = a + b + 2 ^ 63 - 2 ^ 64"
    by (rule mod_pos_pos_trivial) (use assms in \<open>simp_all add: int64_max_def\<close>)
  then have "(a + b + 2 ^ 63) mod 2 ^ 64 = a + b + 2 ^ 63 - 2 ^ 64" by (simp only: minus_mod_self2)
  then have "int64_add a b = a + b - 2 ^ 64" unfolding int64_add_def by linarith
  then show ?thesis using assms by (simp add: int64_max_def)
qed

lemma hardEnd_exact:
  assumes "options_ok opts" "start < length offsets" "int start + MaxRunes opts \<le> int64_max"
  shows "hardEnd offsets start opts = int (hard_end offsets start opts)"
proof -
  have "int64_add (int start) (MaxRunes opts) = int start + MaxRunes opts"
    using assms by (intro int64_add_exact) (simp add: is_int64_def int64_min_def options_ok_def)
  moreover have "0 \<le> min (min (int start + MaxRunes opts) (int (length offsets) - 1)) (max (int start + 1) e)" for e
    using assms(1,2) unfolding options_ok_def by linarith
  ultimately show ?thesis by (simp add: hardEnd_def hard_end_def byte_end_def Let_def)
qed

lemma hardEnd_wrapped:
  assumes "int start \<le> int64_max" "int64_max < int start + MaxRunes opts"
  shows "hardEnd offsets start opts < 0"
  using int64_add_wraps [OF assms(2,1) MaxRunes_le] by (simp add: hardEnd_def Let_def)

lemma hard_end_spec:
  assumes sc: "scalars rs" and opts: "options_ok opts" and start: "start < length rs"
  shows "start < hard_end (byteOffsets rs) start opts"
    "hard_end (byteOffsets rs) start opts \<le> length rs"
    "int (hard_end (byteOffsets rs) start opts - start) \<le> MaxRunes opts"
    "byte_span rs start (hard_end (byteOffsets rs) start opts) \<le> MaxUTF8Bytes"
proof -
  let ?o = "byteOffsets rs" and ?n = "length rs" and ?limit = "int64_add (int (byteOffsets rs ! start)) (int MaxUTF8Bytes)"
  define k where "k = sortSearch (Suc ?n) (\<lambda>pos. ?limit < int (?o ! pos))"
  note search = search_offsets [where rs = rs and limit = ?limit, folded k_def]
  define h where "h = hard_end ?o start opts"
  have h: "int h = min (min (int start + MaxRunes opts) (int ?n)) (max (int start + 1) (int k - 1))"
    using opts start by (simp add: h_def hard_end_def byte_end_def k_def options_ok_def)
  show bounds: "start < hard_end ?o start opts" "hard_end ?o start opts \<le> ?n"
    "int (hard_end ?o start opts - start) \<le> MaxRunes opts"
    using h opts start unfolding options_ok_def h_def [symmetric] by linarith+
  have "?o ! h \<le> ?o ! start + MaxUTF8Bytes"
  proof (cases "h < k")
    case True
    from search(2) [OF this] int64_add_le [of "int (?o ! start)" "int MaxUTF8Bytes"] show ?thesis
      by (simp add: int64_min_def)
  next
    case False
    with h bounds have "h = Suc start" by (auto simp: h_def)
    moreover have "width (rs ! start) \<le> 4"
      using sc start by (simp add: scalars_iff width_bounds)
    ultimately show ?thesis using start by (simp add: byteOffsets_step MaxUTF8Bytes_def)
  qed
  then show "byte_span rs start (hard_end ?o start opts) \<le> MaxUTF8Bytes"
    by (simp add: byte_span_def flip: h_def)
qed

text \<open>A window the limits allow.\<close>

definition fits_window :: "rune list \<Rightarrow> chunk_options \<Rightarrow> nat \<Rightarrow> nat \<Rightarrow> bool" where
  "fits_window rs opts a b \<longleftrightarrow> a < b \<and> b \<le> length rs \<and> int (b - a) \<le> MaxRunes opts \<and>
     byte_span rs a b \<le> MaxUTF8Bytes"

lemma fits_below_hard_end:
  assumes "scalars rs" "options_ok opts" "a < b" "b \<le> length rs"
    "b \<le> hard_end (byteOffsets rs) a opts"
  shows "fits_window rs opts a b"
proof -
  have "a < length rs" using assms(3,4) by simp
  note hard = hard_end_spec [OF assms(1,2) this]
  have "int (b - a) \<le> int (hard_end (byteOffsets rs) a opts - a)" using assms(5) by simp
  moreover have "byte_span rs a b \<le> byte_span rs a (hard_end (byteOffsets rs) a opts)"
    using assms hard(2) by (intro byte_span_mono) auto
  ultimately show ?thesis using assms hard by (auto simp: fits_window_def)
qed

section \<open>Filling the gaps\<close>

text \<open>A path of boundaries from \<open>a\<close> to \<open>b\<close> whose steps are windows the limits allow.\<close>

fun steps_to :: "rune list \<Rightarrow> chunk_options \<Rightarrow> nat \<Rightarrow> nat list \<Rightarrow> bool" where
  "steps_to rs opts a [] = True"
| "steps_to rs opts a (b # bs) = (fits_window rs opts a b \<and> steps_to rs opts b bs)"

lemma steps_to_append:
  "steps_to rs opts a (xs @ ys) \<longleftrightarrow> steps_to rs opts a xs \<and> steps_to rs opts (last (a # xs)) ys"
  by (induction xs arbitrary: a) auto

text \<open>The cuts of a gap.\<close>

definition next_cut :: "nat list \<Rightarrow> chunk_options \<Rightarrow> nat \<Rightarrow> nat" where
  "next_cut offsets opts start = nat (min (int start + TargetRunes opts) (int (hard_end offsets start opts)))"

function gap_cuts :: "nat list \<Rightarrow> chunk_options \<Rightarrow> nat \<Rightarrow> nat \<Rightarrow> nat list" where
  "gap_cuts offsets opts stop start =
     (if start < next_cut offsets opts start \<and> hard_end offsets start opts < stop
      then next_cut offsets opts start # gap_cuts offsets opts stop (next_cut offsets opts start)
      else [])"
  by auto
termination
proof (relation "measure (\<lambda>(offsets, opts, stop, start). stop - start)", goal_cases)
  case (2 offsets opts stop start)
  moreover have "next_cut offsets opts start \<le> hard_end offsets start opts" by (simp add: next_cut_def)
  ultimately show ?case by auto
qed simp

declare gap_cuts.simps [simp del]

lemma next_cut_bounds:
  assumes "scalars rs" "options_ok opts" "start < length rs"
  shows "start < next_cut (byteOffsets rs) opts start" "next_cut (byteOffsets rs) opts start \<le> hard_end (byteOffsets rs) start opts"
    "int (next_cut (byteOffsets rs) opts start) = min (int start + TargetRunes opts) (int (hard_end (byteOffsets rs) start opts))"
proof -
  show eq: "int (next_cut (byteOffsets rs) opts start) = min (int start + TargetRunes opts) (int (hard_end (byteOffsets rs) start opts))"
    using assms(2) by (simp add: next_cut_def options_ok_def)
  show "start < next_cut (byteOffsets rs) opts start" "next_cut (byteOffsets rs) opts start \<le> hard_end (byteOffsets rs) start opts"
    using eq hard_end_spec(1) [OF assms] assms(2) unfolding options_ok_def by linarith+
qed

lemma gap_cuts_step:
  assumes "scalars rs" "options_ok opts" "start < length rs"
  shows "gap_cuts (byteOffsets rs) opts stop start =
    (if hard_end (byteOffsets rs) start opts < stop
     then next_cut (byteOffsets rs) opts start # gap_cuts (byteOffsets rs) opts stop (next_cut (byteOffsets rs) opts start)
     else [])"
  using next_cut_bounds(1) [OF assms] by (subst gap_cuts.simps) simp

lemma gap_cuts_steps:
  assumes "scalars rs" "options_ok opts" "stop \<le> length rs"
  shows "start < stop \<Longrightarrow> steps_to rs opts start (gap_cuts (byteOffsets rs) opts stop start @ [stop])"
proof (induction "stop - start" arbitrary: start rule: less_induct)
  case less
  have start: "start < length rs" using less.prems assms(3) by simp
  note cut = next_cut_bounds [OF assms(1,2) start] and step = gap_cuts_step [OF assms(1,2) start, of stop]
  show ?case
  proof (cases "hard_end (byteOffsets rs) start opts < stop")
    case True
    let ?c = "next_cut (byteOffsets rs) opts start"
    have c: "?c < stop" "stop - ?c < stop - start" using cut(1,2) True by linarith+
    have "fits_window rs opts start ?c"
      using cut(1,2) c(1) assms(3) by (intro fits_below_hard_end [OF assms(1,2)]) auto
    then show ?thesis using less.hyps [OF c(2,1)] step True by simp
  next
    case False
    then have "fits_window rs opts start stop"
      using less.prems assms(3) by (intro fits_below_hard_end [OF assms(1,2)]) auto
    then show ?thesis using step False by simp
  qed
qed

text \<open>The loop makes these cuts, or panics where a sum wraps around; in both cases it ends.\<close>

lemma fill_gap_cuts:
  assumes sc: "scalars rs" and opts: "options_ok opts" and stop: "stop \<le> length rs"
  shows "start < stop \<Longrightarrow> int start \<le> int64_max \<Longrightarrow>
    fill_gap (byteOffsets rs) opts stop start result = Some Panics \<and> int64_max < int (length rs) + MaxRunes opts \<or>
    (let cuts = gap_cuts (byteOffsets rs) opts stop start in
     fill_gap (byteOffsets rs) opts stop start result = Some (Returns (last (start # cuts), result @ cuts)) \<and> int stop \<le> int64_max)"
proof (induction "stop - start" arbitrary: start result rule: less_induct)
  case less
  let ?o = "byteOffsets rs"
  have start: "start < length rs" using less.prems stop by simp
  then have len: "start < length ?o" by simp
  note cut = next_cut_bounds [OF sc opts start] and step = gap_cuts_step [OF sc opts start, of stop]
  note hard = hard_end_spec [OF sc opts start]
  show ?case
  proof (cases "int start + MaxRunes opts \<le> int64_max")
    case False
    then have neg: "hardEnd ?o start opts < 0" by (intro hardEnd_wrapped less.prems) simp
    then have "fill_gap ?o opts stop start result = Some Panics"
      by (subst fill_gap.simps) (simp add: Let_def min_def)
    then show ?thesis using False start by simp
  next
    case fits: True
    note exact = hardEnd_exact [OF opts len fits]
    have target: "int64_add (int start) (TargetRunes opts) = int start + TargetRunes opts"
      using fits opts by (intro int64_add_exact) (simp add: is_int64_def int64_min_def options_ok_def)
    show ?thesis
    proof (cases "hard_end ?o start opts < stop")
      case True
      let ?c = "next_cut ?o opts start"
      have c: "?c < stop" "stop - ?c < stop - start" "int ?c \<le> int64_max"
        using cut True fits opts unfolding options_ok_def by linarith+
      have "fill_gap ?o opts stop start result = fill_gap ?o opts stop ?c (result @ [?c])"
        using True cut(1,3) exact target by (subst fill_gap.simps) (simp add: Let_def flip: cut(3))
      then show ?thesis using less.hyps [OF c(2,1,3), of "result @ [?c]"] step True by (auto simp: Let_def)
    next
      case False
      then have "fill_gap ?o opts stop start result = Some (Returns (start, result))"
        using exact by (subst fill_gap.simps) simp
      moreover have "int stop \<le> int64_max"
        using False hard(1,3) fits by linarith
      ultimately show ?thesis using step False by simp
    qed
  qed
qed

text \<open>The wrap-around is a panic: a \<open>MaxRunes\<close> this large fails on every gap that does not begin at the start of the
  text.\<close>

lemma fill_gap_panics:
  assumes "MaxRunes opts = int64_max" "0 < start" "int start \<le> int64_max"
  shows "fill_gap offsets opts stop start result = Some Panics"
proof -
  have "hardEnd offsets start opts < 0"
    by (rule hardEnd_wrapped) (use assms in simp_all)
  then show ?thesis by (subst fill_gap.simps) (simp add: Let_def min_def)
qed

text \<open>The loop over the anchors without its polls, and when it panics.\<close>

definition gap_body :: "nat list \<Rightarrow> chunk_options \<Rightarrow> nat \<Rightarrow> nat \<times> nat list \<Rightarrow> nat \<times> nat list" where
  "gap_body offsets opts stop s =
     (if stop \<le> fst s then s
      else let result = snd s @ gap_cuts offsets opts stop (fst s) in
        (stop, if stop < length offsets - 1 then result @ [stop] else result))"

definition gap_panics :: "nat list \<Rightarrow> chunk_options \<Rightarrow> nat \<Rightarrow> nat \<times> nat list \<Rightarrow> bool" where
  "gap_panics offsets opts stop s \<longleftrightarrow> fst s < stop \<and> fill_gap offsets opts stop (fst s) (snd s) = Some Panics"

fun gaps_panic :: "nat list \<Rightarrow> chunk_options \<Rightarrow> nat list \<Rightarrow> nat \<times> nat list \<Rightarrow> bool" where
  "gaps_panic offsets opts [] s = False"
| "gaps_panic offsets opts (stop # stops) s =
     (gap_panics offsets opts stop s \<or> gaps_panic offsets opts stops (gap_body offsets opts stop s))"

definition boundAnchorGaps :: "nat list \<Rightarrow> nat list \<Rightarrow> chunk_options \<Rightarrow> nat list" where
  "boundAnchorGaps offsets anchors opts =
     snd (fold (gap_body offsets opts) (anchors @ [length offsets - 1]) (0, []))"

text \<open>The state of that loop: the boundaries so far lead to the current start.\<close>

definition gap_state :: "rune list \<Rightarrow> chunk_options \<Rightarrow> nat \<times> nat list \<Rightarrow> bool" where
  "gap_state rs opts s \<longleftrightarrow> fst s \<le> length rs \<and>
     (if fst s = length rs then steps_to rs opts 0 (snd s @ (if rs = [] then [] else [length rs]))
      else steps_to rs opts 0 (snd s) \<and> fst s = last (0 # snd s))"

lemma gap_body_state:
  assumes "scalars rs" "options_ok opts" "gap_state rs opts s" "stop \<le> length rs"
  shows "gap_state rs opts (gap_body (byteOffsets rs) opts stop s)"
proof (cases "fst s < stop")
  case False
  then show ?thesis using assms(3) by (simp add: gap_body_def)
next
  case True
  have "steps_to rs opts 0 (snd s)" "fst s = last (0 # snd s)"
    using True assms(3,4) by (auto simp: gap_state_def split: if_splits)
  then have "steps_to rs opts 0 (snd s @ gap_cuts (byteOffsets rs) opts stop (fst s) @ [stop])"
    using gap_cuts_steps [OF assms(1,2,4) True] by (simp add: steps_to_append)
  then show ?thesis
    using True assms(4) by (auto simp: gap_body_def gap_state_def Let_def)
qed

lemma gap_fold_state:
  assumes "scalars rs" "options_ok opts" "\<forall>a \<in> set anchors. a \<le> length rs" "gap_state rs opts s"
  shows "gap_state rs opts (fold (gap_body (byteOffsets rs) opts) anchors s)"
  using assms(3,4)
  by (induction anchors arbitrary: s) (simp_all add: gap_body_state [OF assms(1,2)])

text \<open>One turn of the loop.\<close>

definition gap_turn :: "nat list \<Rightarrow> chunk_options \<Rightarrow> nat \<Rightarrow> nat \<times> nat list \<Rightarrow> ('e, nat \<times> nat list) run" where
  "gap_turn offsets opts stop s = (case s of (start, result) \<Rightarrow>
     if stop \<le> start then ret (start, result)
     else andThen (lift (fill_gap offsets opts stop start result)) (\<lambda>(start, result).
       ret (stop, if stop < length offsets - 1 then result @ [stop] else result)))"

lemma gap_turn_runs:
  assumes "scalars rs" "options_ok opts" "stop \<le> length rs" "int (fst s) \<le> int64_max"
  shows "runs (gap_turn (byteOffsets rs) opts stop s)
      (if gap_panics (byteOffsets rs) opts stop s then Inl Panicked else Inr (gap_body (byteOffsets rs) opts stop s))"
    "gap_panics (byteOffsets rs) opts stop s \<Longrightarrow> int64_max < int (length rs) + MaxRunes opts"
    "\<not> gap_panics (byteOffsets rs) opts stop s \<Longrightarrow> int (fst (gap_body (byteOffsets rs) opts stop s)) \<le> int64_max"
proof -
  let ?o = "byteOffsets rs"
  obtain start result where s: "s = (start, result)" by (cases s)
  have cuts: "start < stop \<Longrightarrow> fill_gap ?o opts stop start result = Some Panics \<and> int64_max < int (length rs) + MaxRunes opts \<or>
      fill_gap ?o opts stop start result = Some (Returns (last (start # gap_cuts ?o opts stop start), result @ gap_cuts ?o opts stop start)) \<and>
      int stop \<le> int64_max"
    using fill_gap_cuts [OF assms(1-3), of start result] assms(4) by (simp add: s Let_def)
  then show "gap_panics ?o opts stop s \<Longrightarrow> int64_max < int (length rs) + MaxRunes opts"
    by (auto simp: gap_panics_def s)
  show "\<not> gap_panics ?o opts stop s \<Longrightarrow> int (fst (gap_body ?o opts stop s)) \<le> int64_max"
    using cuts assms(4) by (cases "start < stop") (auto simp: gap_panics_def gap_body_def s Let_def)
  show "runs (gap_turn ?o opts stop s) (if gap_panics ?o opts stop s then Inl Panicked else Inr (gap_body ?o opts stop s))"
  proof (cases "start < stop")
    case False
    then show ?thesis by (simp add: gap_turn_def gap_panics_def gap_body_def s runs_ret)
  next
    case True
    from cuts [OF True] show ?thesis
    proof
      assume "fill_gap ?o opts stop start result = Some Panics \<and> int64_max < int (length rs) + MaxRunes opts"
      then show ?thesis using True by (simp add: gap_turn_def gap_panics_def s runs_then_error [OF runs_lift_panic])
    next
      assume f: "fill_gap ?o opts stop start result = Some (Returns (last (start # gap_cuts ?o opts stop start), result @ gap_cuts ?o opts stop start)) \<and>
        int stop \<le> int64_max"
      let ?r = "Returns (last (start # gap_cuts ?o opts stop start), result @ gap_cuts ?o opts stop start)"
      have "runs (andThen (lift (Some ?r)) (\<lambda>(start, result).
          ret (stop, if stop < length ?o - 1 then result @ [stop] else result))) (Inr (gap_body ?o opts stop s))"
        by (rule runs_then [OF runs_lift]) (use True in \<open>simp add: gap_body_def s Let_def runs_ret\<close>)
      then have "runs (gap_turn ?o opts stop s) (Inr (gap_body ?o opts stop s))"
        using True f by (simp add: gap_turn_def s del: last.simps)
      then show ?thesis using f by (simp add: gap_panics_def s)
    qed
  qed
qed

lemma gap_turns_run:
  assumes "scalars rs" "options_ok opts"
  shows "\<forall>a \<in> set stops. a \<le> length rs \<Longrightarrow> int (fst s) \<le> int64_max \<Longrightarrow>
    runs (poll_loop 256 (\<lambda>_. gap_turn (byteOffsets rs) opts) j stops s)
      (if gaps_panic (byteOffsets rs) opts stops s then Inl Panicked else Inr (fold (gap_body (byteOffsets rs) opts) stops s)) \<and>
    (gaps_panic (byteOffsets rs) opts stops s \<longrightarrow> int64_max < int (length rs) + MaxRunes opts)"
proof (induction stops arbitrary: j s)
  case Nil
  then show ?case by (simp add: poll_loop_def runs_ret)
next
  case (Cons a stops)
  note turn = gap_turn_runs [OF assms, of a s]
  have polled: "runs (andThen (poll_if (j mod 256 = 0)) (\<lambda>_. gap_turn (byteOffsets rs) opts a s)) r"
    if "runs (gap_turn (byteOffsets rs) opts a s) r" for r
    by (rule runs_then [OF runs_poll_if that])
  have loop: "poll_loop 256 (\<lambda>_. gap_turn (byteOffsets rs) opts) j (a # stops) s =
      andThen (andThen (poll_if (j mod 256 = 0)) (\<lambda>_. gap_turn (byteOffsets rs) opts a s))
        (poll_loop 256 (\<lambda>_. gap_turn (byteOffsets rs) opts) (Suc j) stops)"
    by (simp add: poll_loop_def fun_eq_iff)
  show ?case
  proof (cases "gap_panics (byteOffsets rs) opts a s")
    case True
    then have "runs (gap_turn (byteOffsets rs) opts a s) (Inl Panicked)" using turn(1) Cons.prems by simp
    from runs_then_error [OF polled [OF this]] show ?thesis using True turn(2) Cons.prems by (simp add: loop)
  next
    case False
    then have "runs (gap_turn (byteOffsets rs) opts a s) (Inr (gap_body (byteOffsets rs) opts a s))" using turn(1) Cons.prems by simp
    moreover note rest = Cons.IH [of "gap_body (byteOffsets rs) opts a s" "Suc j"]
    ultimately show ?thesis using False turn(3) Cons.prems by (auto simp: loop intro: runs_then [OF polled])
  qed
qed

lemma runs_boundAnchorGaps:
  assumes "scalars rs" "options_ok opts" "\<forall>a \<in> set anchors. a \<le> length rs"
  shows "runs (boundAnchorGapsContext (byteOffsets rs) anchors opts :: ('e, nat list) run)
      (if gaps_panic (byteOffsets rs) opts (anchors @ [length rs]) (0, []) then Inl Panicked
       else Inr (boundAnchorGaps (byteOffsets rs) anchors opts))"
    "gaps_panic (byteOffsets rs) opts (anchors @ [length rs]) (0, []) \<Longrightarrow> int64_max < int (length rs) + MaxRunes opts"
proof -
  have turns: "boundAnchorGapsContext (byteOffsets rs) anchors opts =
      andThen (poll_loop 256 (\<lambda>_. gap_turn (byteOffsets rs) opts) 0 (anchors @ [length rs]) (0, [])) (\<lambda>(start, result). ret result)"
    by (simp add: boundAnchorGapsContext_def gap_turn_def [abs_def])
  have "int (fst (0 :: nat, [] :: nat list)) \<le> int64_max" by (simp add: int64_max_def)
  moreover have "\<forall>a \<in> set (anchors @ [length rs]). a \<le> length rs" using assms(3) by simp
  ultimately have loop: "runs (poll_loop 256 (\<lambda>_. gap_turn (byteOffsets rs) opts) 0 (anchors @ [length rs]) (0, []))
      (if gaps_panic (byteOffsets rs) opts (anchors @ [length rs]) (0, []) then Inl Panicked
       else Inr (fold (gap_body (byteOffsets rs) opts) (anchors @ [length rs]) (0, []))) \<and>
    (gaps_panic (byteOffsets rs) opts (anchors @ [length rs]) (0, []) \<longrightarrow> int64_max < int (length rs) + MaxRunes opts)"
    by (intro gap_turns_run [OF assms(1,2)])
  then show "gaps_panic (byteOffsets rs) opts (anchors @ [length rs]) (0, []) \<Longrightarrow> int64_max < int (length rs) + MaxRunes opts"
    by blast
  show "runs (boundAnchorGapsContext (byteOffsets rs) anchors opts :: ('e, nat list) run)
      (if gaps_panic (byteOffsets rs) opts (anchors @ [length rs]) (0, []) then Inl Panicked
       else Inr (boundAnchorGaps (byteOffsets rs) anchors opts))"
  proof (cases "gaps_panic (byteOffsets rs) opts (anchors @ [length rs]) (0, [])")
    case True
    then show ?thesis using loop unfolding turns by (auto intro: runs_then_error)
  next
    case False
    then have done': "runs (poll_loop 256 (\<lambda>_. gap_turn (byteOffsets rs) opts) 0 (anchors @ [length rs]) (0, []) :: ('e, nat \<times> nat list) run)
        (Inr (fold (gap_body (byteOffsets rs) opts) (anchors @ [length rs]) (0, [])))"
      using loop by simp
    show ?thesis using False unfolding turns
      by (simp only: if_False, intro runs_then [OF done']) (simp add: boundAnchorGaps_def case_prod_beta runs_ret)
  qed
qed

lemma boundAnchorGaps_steps:
  assumes "scalars rs" "options_ok opts" "\<forall>a \<in> set anchors. a \<le> length rs" "rs \<noteq> []"
  shows "steps_to rs opts 0 (boundAnchorGaps (byteOffsets rs) anchors opts @ [length rs])"
proof -
  let ?s = "fold (gap_body (byteOffsets rs) opts) (anchors @ [length rs]) (0, [])"
  have "gap_state rs opts ?s"
    using assms by (intro gap_fold_state) (auto simp: gap_state_def)
  moreover have "fst ?s = length rs"
  proof -
    have "gap_state rs opts (fold (gap_body (byteOffsets rs) opts) anchors (0, []))"
      using assms by (intro gap_fold_state) (auto simp: gap_state_def)
    then show ?thesis by (auto simp: gap_body_def gap_state_def)
  qed
  ultimately show ?thesis using assms(4) by (simp add: boundAnchorGaps_def gap_state_def)
qed

section \<open>Anchors\<close>

definition winnowAnchors ::
  "anchorCandidate list \<Rightarrow> nat \<Rightarrow> int \<Rightarrow> bool \<Rightarrow> nat list \<Rightarrow> nat list" where
  "winnowAnchors cs whole span bytes sel =
     (if span \<le> 0 \<or> int whole \<le> span \<or> cs = [] then sel
      else selected (fold (winnow_at cs (nat span) bytes) [1..<whole]
        \<lparr>deque = [], next_candidate = 0, lastSelected = None, selected = sel\<rparr>))"

lemma runs_winnowAnchors [runs_intros]:
  "runs (winnowAnchorsContext cs whole span bytes sel) (Inr (winnowAnchors cs whole span bytes sel))"
proof (cases "span \<le> 0 \<or> int whole \<le> span \<or> cs = []")
  case True
  then show ?thesis unfolding winnowAnchorsContext_def winnowAnchors_def by (simp add: runs_ret)
next
  case False
  let ?w = "\<lparr>deque = [], next_candidate = 0, lastSelected = None, selected = sel\<rparr>"
  have upt: "[1..<1 + (whole - 1)] = [1..<whole]" using False by (cases whole) auto
  have "runs (poll_loop 256 (\<lambda>pos _ w. ret (winnow_at cs (nat span) bytes pos w)) 1
      (replicate (whole - 1) ()) ?w)
    (Inr (fold (\<lambda>(i, x). winnow_at cs (nat span) bytes i)
      (enumerate 1 (replicate (whole - 1) ())) ?w))"
    by (rule runs_poll_loop_total) (rule runs_ret)
  then have "runs (andThen (poll_loop 256 (\<lambda>pos _ w. ret (winnow_at cs (nat span) bytes pos w)) 1
      (replicate (whole - 1) ()) ?w) (\<lambda>w. ret (selected w)))
    (Inr (selected (fold (winnow_at cs (nat span) bytes) [1..<whole] ?w)))"
    unfolding fold_counter upt by (rule runs_then) (rule runs_ret)
  then show ?thesis using False unfolding winnowAnchorsContext_def winnowAnchors_def by simp
qed

text \<open>Winnowing selects positions of candidates only: every index it keeps is below the number of
  candidates.\<close>

lemma push_candidates_indices:
  assumes "\<forall>j \<in> set dq. j < length cs"
  shows "\<forall>j \<in> set (fst (push_candidates cs bytes pos dq next)). j < length cs"
  using assms
proof (induction cs bytes pos dq "next" rule: push_candidates.induct)
  case (1 cs bytes pos dq "next")
  show ?case
  proof (cases "next < length cs \<and> position bytes (cs ! next) = pos")
    case True
    have "\<forall>j \<in> set (pop_back cs (cs ! next) dq @ [next]). j < length cs"
      using 1(2) True by (auto simp: pop_back_def dest: set_dropWhileD)
    from 1(1) [OF True this] show ?thesis using True by (subst push_candidates.simps) simp
  qed (use 1(2) in \<open>subst push_candidates.simps, auto\<close>)
qed

definition winnow_ok :: "anchorCandidate list \<Rightarrow> nat set \<Rightarrow> winnow \<Rightarrow> bool" where
  "winnow_ok cs base w \<longleftrightarrow> (\<forall>j \<in> set (deque w). j < length cs) \<and>
     set (selected w) \<subseteq> base \<union> runePosition ` set cs"

lemma winnow_at_ok:
  assumes "winnow_ok cs base w"
  shows "winnow_ok cs base (winnow_at cs span bytes pos w)"
proof -
  let ?p = "push_candidates cs bytes pos (deque w) (next_candidate w)"
  let ?dq = "dropWhile (\<lambda>j. int (position bytes (cs ! j)) < int pos - int span + 1) (fst ?p)"
  have "\<forall>j \<in> set (fst ?p). j < length cs"
    using assms by (intro push_candidates_indices) (simp add: winnow_ok_def)
  then have dq: "\<forall>j \<in> set ?dq. j < length cs" by (auto dest: set_dropWhileD)
  then have "?dq \<noteq> [] \<Longrightarrow> cs ! hd ?dq \<in> set cs" by (intro nth_mem) auto
  with dq assms show ?thesis
    by (auto simp: winnow_at_def winnow_ok_def Let_def case_prod_beta)
qed

lemma winnowAnchors_set:
  "set (winnowAnchors cs whole span bytes sel) \<subseteq> set sel \<union> runePosition ` set cs"
proof -
  let ?w = "\<lparr>deque = [], next_candidate = 0, lastSelected = None, selected = sel\<rparr>"
  have "winnow_ok cs (set sel) (fold (winnow_at cs (nat span) bytes) ps ?w)" for ps
  proof -
    have "winnow_ok cs (set sel) w \<Longrightarrow> winnow_ok cs (set sel) (fold (winnow_at cs (nat span) bytes) ps w)"
      for w by (induction ps arbitrary: w) (simp_all add: winnow_at_ok)
    moreover have "winnow_ok cs (set sel) ?w" by (simp add: winnow_ok_def)
    ultimately show ?thesis .
  qed
  then show ?thesis by (auto simp: winnowAnchors_def winnow_ok_def)
qed

function compactDenseAnchors :: "rune list \<Rightarrow> int \<Rightarrow> int \<Rightarrow> nat list \<Rightarrow> nat list" where
  "compactDenseAnchors rs radius protected [] = []"
| "compactDenseAnchors rs radius protected (a # as) =
     (if int a = protected \<or> boundaryRank rs a \<le> 1
      then a # compactDenseAnchors rs radius protected as
      else fst (cluster rs radius protected a as) #
        compactDenseAnchors rs radius protected (snd (cluster rs radius protected a as)))"
  by pat_completeness auto
termination
  by (relation "measure (\<lambda>(rs, radius, protected, anchors). length anchors)")
    (auto intro: le_imp_less_Suc length_cluster)

lemma runs_compactDenseAnchors [runs_intros]:
  "runs (compactDenseAnchorsContext rs radius protected i anchors result)
     (Inr (result @ compactDenseAnchors rs radius protected anchors))"
proof (induction rs radius protected anchors arbitrary: i result
    rule: compactDenseAnchors.induct)
  case (1 rs radius protected)
  then show ?case by (simp add: runs_ret)
next
  case (2 rs radius protected a as)
  show ?case
  proof (cases "int a = protected \<or> boundaryRank rs a \<le> 1")
    case True
    then show ?thesis
      using 2(1) [OF True, of "Suc i" "result @ [a]"]
      unfolding compactDenseAnchorsContext.simps compactDenseAnchors.simps
      by (intro runs_then [OF runs_poll_if]) simp
  next
    case False
    then show ?thesis
      using 2(2) [OF False, of "i + length (a # as) - length (snd (cluster rs radius protected a as))"
        "result @ [fst (cluster rs radius protected a as)]"]
      unfolding compactDenseAnchorsContext.simps compactDenseAnchors.simps
      by (intro runs_then [OF runs_poll_if]) (simp add: Let_def)
  qed
qed

lemma set_cluster:
  "insert (fst (cluster rs radius protected a as)) (set (snd (cluster rs radius protected a as)))
    \<subseteq> insert a (set as)"
  by (induction as arbitrary: a) auto

lemma set_compactDenseAnchors: "set (compactDenseAnchors rs radius protected anchors) \<subseteq> set anchors"
proof (induction rs radius protected anchors rule: compactDenseAnchors.induct)
  case (2 rs radius protected a as)
  then show ?case using set_cluster [of rs radius protected a as] by auto
qed simp

text \<open>The candidates are the boundaries strictly inside the text.\<close>

definition candidates :: "rune list \<Rightarrow> chunk_options \<Rightarrow> anchorCandidate list" where
  "candidates rs opts = map (candidate_at rs opts) [1..<length rs]"

lemma fold_candidates:
  "fold (\<lambda>(i, x) cs. if i + 1 = j + length ys then cs else cs @ [g (i + 1)]) (enumerate j ys) cs =
     cs @ map g [Suc j..<j + length ys]"
proof (induction ys arbitrary: j cs)
  case (Cons y ys)
  show ?case
  proof (cases ys)
    case (Cons z zs)
    then show ?thesis using Cons.IH [of "Suc j" "cs @ [g (Suc j)]"]
      by (simp add: upt_conv_Cons del: upt_Suc)
  qed simp
qed simp

lemma runs_candidates:
  "runs (poll_loop 256 (\<lambda>i _ cs. ret (if i + 1 = length rs then cs
      else cs @ [candidate_at rs opts (i + 1)])) 0 rs []) (Inr (candidates rs opts))"
proof -
  have "runs (poll_loop 256 (\<lambda>i _ cs. ret (if i + 1 = length rs then cs
      else cs @ [candidate_at rs opts (i + 1)])) 0 rs [])
    (Inr (fold (\<lambda>(i, x) cs. if i + 1 = length rs then cs
      else cs @ [candidate_at rs opts (i + 1)]) (enumerate 0 rs) []))"
    by (rule runs_poll_loop_total) (rule runs_ret)
  then show ?thesis
    using fold_candidates [of 0 rs "candidate_at rs opts" "[]"] by (simp add: candidates_def)
qed

definition chosen_anchors :: "rune list \<Rightarrow> chunk_options \<Rightarrow> nat list" where
  "chosen_anchors rs opts =
     (let offsets = byteOffsets rs; radius = fingerprint_runes opts; cs = candidates rs opts;
          selected = winnowAnchors cs (offsets ! length rs) (int MaxUTF8Bytes - radius * 4) True
            (winnowAnchors cs (length rs) (max 1 (MaxRunes opts - radius)) False []);
          edge = fst (prefixBoundary rs offsets opts);
          natural = snd (prefixBoundary rs offsets opts)
      in compactDenseAnchors rs radius (if 0 < edge then int edge else - 1)
        (sort (if 0 < edge then protect_prefix offsets opts edge natural selected else selected)))"

definition globalAnchors :: "rune list \<Rightarrow> chunk_options \<Rightarrow> nat list" where
  "globalAnchors rs opts = boundAnchorGaps (byteOffsets rs) (chosen_anchors rs opts) opts"

text \<open>Every chosen anchor is a boundary of the text.\<close>

lemma fold_nearer:
  assumes "fold (\<lambda>pos found. if \<not> predicate pos then found else nearer target pos found) ps found =
    (b, d)"
  shows "b = fst found \<or> b \<in> set ps"
  using assms
proof (induction ps arbitrary: found)
  case (Cons p ps)
  then have "b = fst (if \<not> predicate p then found else nearer target p found) \<or> b \<in> set ps"
    by simp
  moreover have "fst (nearer target p found) = fst found \<or> fst (nearer target p found) = p"
    by (simp add: nearer_def Let_def case_prod_beta)
  ultimately show ?case by (auto split: if_splits)
qed simp

lemma preferredBoundary_le: "preferredBoundary rs 0 target hard predicate \<le> hard"
proof -
  obtain b d where f: "fold (\<lambda>pos found. if \<not> predicate rs pos then found
      else nearer target pos found) [0 + 1..<hard + 1] (0, int64_max) = (b, d)" by fastforce
  from fold_nearer [OF this] have "b \<le> hard" by auto
  then show ?thesis unfolding preferredBoundary_def f by simp
qed

lemma hardEnd_le:
  assumes "options_ok opts" "rs \<noteq> []"
  shows "hardEnd (byteOffsets rs) start opts \<le> int (length rs)"
  by (simp add: hardEnd_def Let_def)

lemma prefixBoundary_le:
  assumes "options_ok opts" "rs \<noteq> []"
  shows "fst (prefixBoundary rs (byteOffsets rs) opts) \<le> length rs"
proof -
  let ?h = "nat (hardEnd (byteOffsets rs) 0 opts)"
  have "?h \<le> length rs" using hardEnd_le [OF assms, of 0] by simp
  moreover have "fst (prefixBoundary rs (byteOffsets rs) opts) \<le> ?h"
    using preferredBoundary_le
    by (auto simp: prefixBoundary_def Let_def nat_mono)
  ultimately show ?thesis by simp
qed

lemma chosen_anchors_le:
  assumes "options_ok opts" "rs \<noteq> []" "a \<in> set (chosen_anchors rs opts)"
  shows "a \<le> length rs"
proof -
  let ?cs = "candidates rs opts"
  have cs: "p \<in> runePosition ` set ?cs \<Longrightarrow> p \<le> length rs" for p
    by (auto simp: candidates_def candidate_at_def)
  have sel: "set (winnowAnchors ?cs w1 s1 b1 (winnowAnchors ?cs w2 s2 b2 [])) \<subseteq> runePosition ` set ?cs"
    for w1 s1 b1 w2 s2 b2
    using winnowAnchors_set [of ?cs w1 s1 b1 "winnowAnchors ?cs w2 s2 b2 []"]
      winnowAnchors_set [of ?cs w2 s2 b2 "[]"] by auto
  from assms(3) show ?thesis
    unfolding chosen_anchors_def Let_def
    by (auto dest!: set_compactDenseAnchors [THEN subsetD] sel [THEN subsetD] cs
        simp: protect_prefix_def prefixBoundary_le [OF assms(1,2)] split: if_splits)
qed

text \<open>The text is too long for the limit: the planner panics.\<close>

definition overflows :: "rune list \<Rightarrow> chunk_options \<Rightarrow> bool" where
  "overflows rs opts \<longleftrightarrow> rs \<noteq> [] \<and> gaps_panic (byteOffsets rs) opts (chosen_anchors rs opts @ [length rs]) (0, [])"

lemma overflows_long:
  assumes "scalars rs" "options_ok opts" "overflows rs opts"
  shows "int64_max < int (length rs) + MaxRunes opts"
  using assms runs_boundAnchorGaps(2) [OF assms(1,2)] chosen_anchors_le [OF assms(2)] by (auto simp: overflows_def)

lemma runs_globalAnchors:
  assumes "scalars rs" "options_ok opts" "rs \<noteq> []"
  shows "runs (globalAnchorsContext rs opts) (if overflows rs opts then Inl Panicked else Inr (globalAnchors rs opts))"
proof -
  have "\<forall>a \<in> set (chosen_anchors rs opts). a \<le> length rs"
    using chosen_anchors_le [OF assms(2,3)] by blast
  note gaps = runs_boundAnchorGaps(1) [OF assms(1,2) this]
  have compact: "runs (compactDenseAnchorsContext rs radius protected 0 anchors [])
      (Inr (compactDenseAnchors rs radius protected anchors))" for radius protected anchors
    using runs_compactDenseAnchors [of rs radius protected 0 anchors "[]"] by simp
  have over: "overflows rs opts = gaps_panic (byteOffsets rs) opts (chosen_anchors rs opts @ [length rs]) (0, [])"
    using assms(3) by (simp add: overflows_def)
  show ?thesis
    unfolding globalAnchorsContext_def Let_def globalAnchors_def over
    by (rule runs_then [OF runs_candidates], rule runs_then [OF runs_winnowAnchors],
        rule runs_then [OF runs_winnowAnchors], rule runs_then [OF compact])
      (use gaps in \<open>simp only: chosen_anchors_def Let_def\<close>)
qed

section \<open>Windows\<close>

fun cut_windows :: "nat \<Rightarrow> nat list \<Rightarrow> window list" where
  "cut_windows a [] = []"
| "cut_windows a (b # bs) = \<lparr>win_start = a, win_end = b\<rparr> # cut_windows b bs"

text \<open>The windows of a text, without the polls.\<close>

definition section_windows :: "rune list \<Rightarrow> chunk_options \<Rightarrow> window list" where
  "section_windows rs opts =
     (if rs = [] then [] else cut_windows 0 (globalAnchors rs opts @ [length rs]))"

lemma window_fold:
  assumes "steps_to rs opts a (as @ [length rs])"
  shows "fold (\<lambda>(i, stop). case_prod (\<lambda>start result. if start < stop \<and> stop < length rs
       then (stop, result @ [\<lparr>win_start = start, win_end = stop\<rparr>]) else (start, result)))
     (enumerate j as) (a, result) = (last (a # as), result @ cut_windows a as)"
  using assms
proof (induction as arbitrary: a j result)
  case (Cons b bs)
  have "b < length rs"
    using Cons.prems by (cases bs) (auto simp: fits_window_def)
  then show ?case using Cons by (auto simp: fits_window_def)
qed simp

lemma cut_windows_append:
  "cut_windows a (xs @ ys) = cut_windows a xs @ cut_windows (last (a # xs)) ys"
  by (induction xs arbitrary: a) auto

lemma globalAnchors_steps:
  assumes "scalars rs" "options_ok opts" "rs \<noteq> []"
  shows "steps_to rs opts 0 (globalAnchors rs opts @ [length rs])"
  unfolding globalAnchors_def
  using assms chosen_anchors_le [OF assms(2,3)] by (intro boundAnchorGaps_steps) auto

theorem runs_section_windows:
  assumes "scalars rs" "options_ok opts"
  shows "runs (chunkSectionRunesV3Context rs opts) (if overflows rs opts then Inl Panicked else Inr (section_windows rs opts))"
proof (cases "rs = [] \<or> overflows rs opts")
  case True
  then show ?thesis
  proof (cases "rs = []")
    case True
    then show ?thesis by (simp add: chunkSectionRunesV3Context_def section_windows_def overflows_def runs_ret)
  next
    case False
    with True have over: "overflows rs opts" by simp
    then have "runs (globalAnchorsContext rs opts) (Inl Panicked)" using runs_globalAnchors [OF assms False] by simp
    from runs_then_error [OF this] show ?thesis using False over
      by (simp add: chunkSectionRunesV3Context_def)
  qed
next
  case False
  let ?as = "globalAnchors rs opts"
  have ne: "rs \<noteq> []" and fits: "\<not> overflows rs opts" using False by simp_all
  have anchors: "runs (globalAnchorsContext rs opts) (Inr ?as)" using runs_globalAnchors [OF assms ne] fits by simp
  have steps: "steps_to rs opts 0 (?as @ [length rs])"
    by (rule globalAnchors_steps [OF assms ne])
  have "runs (poll_loop 256 (\<lambda>_ stop (start, result).
      ret (if start < stop \<and> stop < length rs
        then (stop, result @ [\<lparr>win_start = start, win_end = stop\<rparr>]) else (start, result))) 0 ?as (0, []))
    (Inr (fold (\<lambda>(i, stop). case_prod (\<lambda>start result. if start < stop \<and> stop < length rs
       then (stop, result @ [\<lparr>win_start = start, win_end = stop\<rparr>]) else (start, result)))
     (enumerate 0 ?as) (0, [])))"
    by (rule runs_poll_loop_total) (simp add: case_prod_beta runs_ret)
  then have loop: "runs (poll_loop 256 (\<lambda>_ stop (start, result).
      ret (if start < stop \<and> stop < length rs
        then (stop, result @ [\<lparr>win_start = start, win_end = stop\<rparr>]) else (start, result))) 0 ?as (0, []))
    (Inr (last (0 # ?as), cut_windows 0 ?as))"
    unfolding window_fold [OF steps] by simp
  have "fits_window rs opts (last (0 # ?as)) (length rs)"
    using steps by (simp add: steps_to_append)
  then have "section_windows rs opts = cut_windows 0 ?as @
      [\<lparr>win_start = last (0 # ?as), win_end = length rs\<rparr>]" "last (0 # ?as) < length rs"
    using ne by (simp_all add: section_windows_def cut_windows_append fits_window_def)
  then show ?thesis
    using ne fits unfolding chunkSectionRunesV3Context_def
    by (simp add: runs_then [OF anchors] runs_then [OF loop] runs_ret
        del: last.simps)
qed

fun covers :: "nat \<Rightarrow> nat \<Rightarrow> window list \<Rightarrow> bool" where
  "covers a b [] = (a = b)"
| "covers a b (w # ws) = (win_start w = a \<and> a < win_end w \<and> covers (win_end w) b ws)"

lemma cut_windows_covers:
  "steps_to rs opts a (bs @ [n]) \<Longrightarrow> covers a n (cut_windows a (bs @ [n]))"
  by (induction bs arbitrary: a) (auto simp: fits_window_def)

lemma cut_windows_fit:
  "steps_to rs opts a bs \<Longrightarrow> w \<in> set (cut_windows a bs) \<Longrightarrow>
    fits_window rs opts (win_start w) (win_end w)"
  by (induction bs arbitrary: a) auto

lemma section_windows_cover:
  assumes "scalars rs" "options_ok opts"
  shows "covers 0 (length rs) (section_windows rs opts)"
  using cut_windows_covers globalAnchors_steps [OF assms] by (auto simp: section_windows_def)

lemma section_windows_fit:
  assumes "scalars rs" "options_ok opts" "w \<in> set (section_windows rs opts)"
  shows "fits_window rs opts (win_start w) (win_end w)"
  using cut_windows_fit globalAnchors_steps [OF assms(1,2)] assms(3)
  by (auto simp: section_windows_def split: if_splits)

end
