(* ===== verification/ChunkSession.thy ===== *)
theory ChunkSession
  imports ChunkStream ChunkWindows
begin

text \<open>
  What the checks, the preflight and the planner of a parent return. \<open>settles\<close> gives the value of
  a computation that can only fail or be cancelled; the closed forms here are the reference the
  properties of the streaming component are stated with: \<open>normalized_sections\<close>, \<open>planned_section\<close>
  and \<open>session_of\<close>.
\<close>

section \<open>Computations that succeed or fail\<close>

definition settles :: "('e, 'a) run \<Rightarrow> 'a option \<Rightarrow> bool" where
  "settles m v = (case v of Some x \<Rightarrow> runs m (Inr x) | None \<Rightarrow> \<exists>e. runs m (Inl (Failed e)))"

named_theorems settles_intros \<open>rules that compute what a computation settles to\<close>

lemma settles_runs: "runs m (Inr x) \<Longrightarrow> settles m (Some x)"
  by (simp add: settles_def)

lemmas settles_ret [settles_intros] = settles_runs [OF runs_ret]
  and settles_poll [settles_intros] = settles_runs [OF runs_poll]
  and settles_poll_if [settles_intros] = settles_runs [OF runs_poll_if]

lemma settles_fail_if [settles_intros]: "settles (fail_if b e) (if b then None else Some ())"
  by (auto simp: settles_def fail_if_def intro: runs_intros)

lemma settles_bind:
  assumes "settles m v" and "\<And>x. v = Some x \<Longrightarrow> settles (f x) (g x)"
  shows "settles (andThen m f) (Option.bind v g)"
  using assms
  by (cases v) (auto simp: settles_def split: option.splits intro: runs_then runs_then_error)

lemma settles_then:
  assumes "settles m (Some x)" and "settles (f x) r"
  shows "settles (andThen m f) r"
  using settles_bind [OF assms(1), of f "\<lambda>_. r"] assms(2) by simp

lemma settles_check:
  assumes "\<not> b \<Longrightarrow> settles (f ()) r"
  shows "settles (andThen (fail_if b e) f) (if b then None else r)"
  using settles_bind [OF settles_fail_if, of b f "\<lambda>_. r"] assms by (cases b) auto

fun fold_opt :: "('a \<Rightarrow> 's \<Rightarrow> 's option) \<Rightarrow> 'a list \<Rightarrow> 's \<Rightarrow> 's option" where
  "fold_opt g [] s = Some s"
| "fold_opt g (x # xs) s = Option.bind (g x s) (fold_opt g xs)"

lemma settles_for:
  assumes "\<And>x s. x \<in> set xs \<Longrightarrow> settles (f x s) (g x s)"
  shows "settles (for_loop f xs s) (fold_opt g xs s)"
  using assms
proof (induction xs arbitrary: s)
  case (Cons x xs)
  show ?case unfolding for_loop.simps fold_opt.simps
    by (rule settles_bind) (simp_all add: Cons)
qed (simp add: settles_ret)

lemma fold_opt_enumerate: "fold_opt (\<lambda>(i, x). g x) (enumerate j xs) s = fold_opt g xs s"
  by (induction xs arbitrary: j s) (simp_all cong: Option.bind_cong)

lemma settles_poll_loop:
  assumes "\<And>i x s. settles (f i x s) (g x s)"
  shows "settles (poll_loop k f j xs s) (fold_opt g xs s)"
proof -
  have "settles (poll_loop k f j xs s) (fold_opt (\<lambda>(i, x). g x) (enumerate j xs) s)"
    unfolding poll_loop_def
    by (rule settles_for) (auto intro!: settles_then [OF settles_poll_if] assms)
  then show ?thesis by (simp add: fold_opt_enumerate)
qed

lemma settles_returns:
  "settles m v \<Longrightarrow> m c = Some (Inr x, c') \<Longrightarrow> v = Some x"
  unfolding settles_def by (cases v) (auto dest: runs_result)

text \<open>A loop that refuses repeated keys.\<close>

lemma fold_opt_seen:
  "fold_opt (\<lambda>x seen. if ok x \<and> key x \<notin> set seen then Some (key x # seen) else None) xs seen =
    (if list_all ok xs \<and> distinct (map key xs) \<and> set (map key xs) \<inter> set seen = {}
     then Some (rev (map key xs) @ seen) else None)"
  by (induction xs arbitrary: seen) auto

section \<open>The checks of a parent\<close>

definition valid_sizes :: "chunk_options \<Rightarrow> bool" where
  "valid_sizes opts \<longleftrightarrow> options_ok opts \<and> OverlapRunes opts = 0"

lemma settles_validate_sizes:
  "settles (validate_sizes opts) (if valid_sizes opts then Some () else None)"
proof -
  have "settles (validate_sizes opts)
      (if TargetRunes opts \<le> 0 \<or> MaxRunes opts < TargetRunes opts then None
       else if OverlapRunes opts \<noteq> 0 then None else Some ())"
    unfolding validate_sizes_def by (intro settles_check settles_fail_if)
  then show ?thesis by (auto simp: valid_sizes_def options_ok_def not_le not_less split: if_splits)
qed

definition metadata_ok :: "parent \<Rightarrow> bool" where
  "metadata_ok parent \<longleftrightarrow> TrimSpace (par_kind parent) \<noteq> [] \<and> TrimSpace (par_source_key parent) \<noteq> [] \<and>
     (\<forall>s \<in> set (par_sections parent). TrimSpace (sec_role s) \<noteq> []) \<and>
     distinct (map (sectionKey parent) (par_sections parent))"

lemma settles_check_section:
  "settles (check_section parent s seen)
    (if TrimSpace (sec_role s) \<noteq> [] \<and> sectionKey parent s \<notin> set seen
     then Some (sectionKey parent s # seen) else None)"
proof -
  have "settles (check_section parent s seen)
      (if TrimSpace (sec_role s) = [] then None
       else if sectionKey parent s \<in> set seen then None else Some (sectionKey parent s # seen))"
    unfolding check_section_def Let_def by (intro settles_check settles_ret)
  then show ?thesis by (simp split: if_splits)
qed

lemma settles_metadata:
  "settles (validateStreamingMetadataContext parent opts m)
    (if metadata_ok parent \<and> valid_sizes opts \<and> \<not> (0 < m \<and> m < length (par_sections parent))
     then Some () else None)"
proof -
  have "settles (poll_loop 256 (\<lambda>_. check_section parent) 0 (par_sections parent) [])
      (fold_opt (\<lambda>s seen. if TrimSpace (sec_role s) \<noteq> [] \<and> sectionKey parent s \<notin> set seen
        then Some (sectionKey parent s # seen) else None) (par_sections parent) [])"
    by (rule settles_poll_loop) (rule settles_check_section)
  note loop = settles_bind [OF this [unfolded fold_opt_seen], of "\<lambda>_. ret ()" "\<lambda>_. Some ()", OF settles_ret]
  have "settles (validateStreamingMetadataContext parent opts m)
      (if TrimSpace (par_kind parent) = [] then None
       else if TrimSpace (par_source_key parent) = [] then None
       else Option.bind (if valid_sizes opts then Some () else None) (\<lambda>_.
         if 0 < m \<and> m < length (par_sections parent) then None
         else Option.bind (if list_all (\<lambda>s. TrimSpace (sec_role s) \<noteq> []) (par_sections parent) \<and>
             distinct (map (sectionKey parent) (par_sections parent)) \<and>
             set (map (sectionKey parent) (par_sections parent)) \<inter> set [] = {}
           then Some (rev (map (sectionKey parent) (par_sections parent)) @ []) else None) (\<lambda>_. Some ())))"
    unfolding validateStreamingMetadataContext_def
    by (intro settles_check settles_bind [OF settles_validate_sizes] loop)
  then show ?thesis
    by (auto simp: metadata_ok_def list_all_iff split: if_splits)
qed

section \<open>Bytes\<close>

definition section_bytes :: "chunk_section \<Rightarrow> nat" where
  "section_bytes s = sum_list (map width (rangeRunes (sec_text s)))"

definition normalized_bytes :: "parent \<Rightarrow> nat" where
  "normalized_bytes parent = sum_list (map section_bytes (par_sections parent))"

lemma count_runes:
  assumes "scalars rs"
  shows "\<exists>k'. settles (for_loop (count_rune limit i) rs (n, k))
    (if rs = [] \<or> int (n + sum_list (map width rs)) \<le> limit
     then Some (n + sum_list (map width rs), k') else None)"
  using assms
proof (induction rs arbitrary: n k)
  case Nil
  then show ?case by (auto intro: settles_ret)
next
  case (Cons r rs)
  then have r: "scalar r" and rs: "scalars rs" by (simp_all add: scalars_def)
  note len = runeLen_width [OF r]
  define k0 where "k0 = (if 4096 \<le> k + width r then 0 else k + width r)"
  obtain k' where IH: "settles (for_loop (count_rune limit i) rs (n + width r, k0))
    (if rs = [] \<or> int (n + width r + sum_list (map width rs)) \<le> limit
     then Some (n + width r + sum_list (map width rs), k') else None)"
    using Cons.IH [OF rs, of "n + width r" k0] by blast
  have one: "settles (count_rune limit i r (n, k))
      (if int n \<le> limit - int (width r) then Some (n + width r, k0) else None)"
  proof -
    have "settles (count_rune limit i r (n, k))
        (if runeLen r < 0 \<or> limit - runeLen r < int n then None else Some (n + width r, k0))"
      unfolding count_rune_def Let_def k0_def prod.case
      by (intro settles_check settles_then [OF settles_poll_if] settles_ret)
    then show ?thesis by (simp add: len split: if_splits)
  qed
  have "settles (for_loop (count_rune limit i) (r # rs) (n, k))
      (Option.bind (if int n \<le> limit - int (width r) then Some (n + width r, k0) else None)
        (\<lambda>s. if rs = [] \<or> int (n + width r + sum_list (map width rs)) \<le> limit
           then Some (n + width r + sum_list (map width rs), if rs = [] then k0 else k') else None))"
    unfolding for_loop.simps
    by (rule settles_bind [OF one]) (use IH in \<open>auto split: if_splits intro: settles_ret\<close>)
  then show ?case
    by (intro exI [of _ "if rs = [] then k0 else k'"]) (auto simp: add.assoc split: if_splits)
qed

lemma settles_input_bytes:
  "settles (validatePlanningInputBytes parent limit)
    (if 0 < limit \<and> int (normalized_bytes parent) \<le> limit then Some () else None)"
proof -
  let ?body = "\<lambda>(i, s) bytes. andThen (for_loop (count_rune limit i) (rangeRunes (sec_text s)) (0, 0))
      (\<lambda>(sectionBytes, _). andThen (fail_if (limit - int sectionBytes < int bytes) (PlanningByteCeiling i))
        (\<lambda>_. ret (bytes + sectionBytes)))"
  let ?step = "\<lambda>(i :: nat, s) bytes. if int (bytes + section_bytes s) \<le> limit
      then Some (bytes + section_bytes s) else None"
  have body: "settles (?body p bytes) (?step p bytes)" if "0 < limit" for p bytes
  proof -
    obtain i s where p: "p = (i, s)" by force
    have "scalars (rangeRunes (sec_text s))" by (simp add: scalars_iff rangeRunes_scalar)
    then obtain k' where "settles (for_loop (count_rune limit i) (rangeRunes (sec_text s)) (0, 0))
      (if rangeRunes (sec_text s) = [] \<or> int (0 + section_bytes s) \<le> limit
       then Some (0 + section_bytes s, k') else None)"
      unfolding section_bytes_def using count_runes [of "rangeRunes (sec_text s)" limit i 0 0] by blast
    then have "settles (for_loop (count_rune limit i) (rangeRunes (sec_text s)) (0, 0))
      (if int (section_bytes s) \<le> limit then Some (section_bytes s, k') else None)"
      using that by (auto simp: section_bytes_def split: if_splits)
    then have "settles (?body p bytes) (Option.bind
        (if int (section_bytes s) \<le> limit then Some (section_bytes s, k') else None)
        (\<lambda>(b, _). if limit - int b < int bytes then None else Some (bytes + b)))"
      unfolding p prod.case
    proof (rule settles_bind)
      fix x
      show "settles (case x of (b, _) \<Rightarrow> andThen (fail_if (limit - int b < int bytes) (PlanningByteCeiling i))
          (\<lambda>_. ret (bytes + b))) (case x of (b, _) \<Rightarrow> if limit - int b < int bytes then None else Some (bytes + b))"
        unfolding case_prod_beta by (rule settles_check) (rule settles_ret)
    qed
    then show ?thesis by (simp add: p split: if_splits)
  qed
  have fold: "fold_opt ?step (enumerate j ss) n =
      (if ss = [] \<or> int (n + sum_list (map section_bytes ss)) \<le> limit
       then Some (n + sum_list (map section_bytes ss)) else None)" for j ss n
    by (induction ss arbitrary: j n) auto
  have "settles (for_loop ?body (enumerate 0 (par_sections parent)) 0)
      (fold_opt ?step (enumerate 0 (par_sections parent)) 0)" if "0 < limit"
    by (rule settles_for) (rule body [OF that])
  then have loop: "settles (for_loop ?body (enumerate 0 (par_sections parent)) 0)
      (if int (normalized_bytes parent) \<le> limit then Some (normalized_bytes parent) else None)"
    if "\<not> limit \<le> 0" using that unfolding fold by (auto simp: normalized_bytes_def split: if_splits)
  have "settles (validatePlanningInputBytes parent limit) (if limit \<le> 0 then None
      else Option.bind (if int (normalized_bytes parent) \<le> limit then Some (normalized_bytes parent)
        else None) (\<lambda>_. Some ()))"
    unfolding validatePlanningInputBytes_def
    by (intro settles_check settles_bind [OF loop] settles_ret)
  then show ?thesis by (simp split: if_splits)
qed

section \<open>Normalized sections\<close>

lemma runs_rune_scan [runs_intros]: "runs (rune_scan step v s) (Inr (fold step (rangeRunes v) s))"
proof -
  let ?h = "\<lambda>r (k, s). ((if 4096 \<le> k then 0 else k) + width r, step r s)"
  have "runs (for_loop (\<lambda>r (k, s). andThen (poll_if (4096 \<le> k)) (\<lambda>_.
        ret ((if 4096 \<le> k then 0 else k) + width r, step r s))) (rangeRunes v) (0, s))
      (Inr (fold ?h (rangeRunes v) (0, s)))"
    by (rule runs_for_total) (auto intro!: runs_intros)
  moreover have "snd (fold ?h rs (k, s)) = fold step rs s" for rs k s
    by (induction rs arbitrary: k s) auto
  ultimately show ?thesis
    unfolding rune_scan_def
    by (intro runs_then) (auto simp: case_prod_beta intro!: runs_intros)
qed

definition normalizeUTF8 :: "string \<Rightarrow> string" where
  "normalizeUTF8 v = encodeRunes (rangeRunes v)"

lemma runs_normalizeUTF8 [runs_intros]: "runs (normalizeUTF8Context v) (Inr (normalizeUTF8 v))"
proof -
  have "fold (\<lambda>r normalized. normalized @ encodeRune r) rs acc = acc @ encodeRunes rs" for rs acc
    by (induction rs arbitrary: acc) simp_all
  then show ?thesis
    using runs_rune_scan [of "\<lambda>r normalized. normalized @ encodeRune r" v "[]"]
    by (simp add: normalizeUTF8Context_def normalizeUTF8_def)
qed

lemma runs_stringRunes [runs_intros]: "runs (stringRunesContext v) (Inr (rangeRunes v))"
proof -
  have "fold (\<lambda>r result. result @ [r]) rs acc = acc @ rs" for rs acc :: "rune list"
    by (induction rs arbitrary: acc) simp_all
  then show ?thesis
    using runs_rune_scan [of "\<lambda>r result. result @ [r]" v "[]"] by (simp add: stringRunesContext_def)
qed

lemma runs_runeCount [runs_intros]: "runs (runeCountContext v) (Inr (length (rangeRunes v)))"
proof -
  have "fold (\<lambda>_ n. n + 1) rs n = n + length rs" for rs :: "rune list" and n
    by (induction rs arbitrary: n) simp_all
  moreover have "runs (rune_scan (\<lambda>_ n. n + 1) v 0) (Inr (fold (\<lambda>_ n. n + 1) (rangeRunes v) (0 :: nat)))"
    by (rule runs_rune_scan)
  ultimately show ?thesis unfolding runeCountContext_def by (simp only: add_0)
qed

definition trimmed :: "parent \<Rightarrow> parent" where
  "trimmed parent = parent\<lparr>par_kind := TrimSpace (par_kind parent),
     par_source_key := TrimSpace (par_source_key parent)\<rparr>"

definition normalized_section :: "parent \<Rightarrow> chunk_section \<Rightarrow> chunk_section" where
  "normalized_section parent s = s\<lparr>sec_key := sectionKey parent s, sec_text := normalizeUTF8 (sec_text s),
     sec_role := TrimSpace (sec_role s), sec_heading := TrimSpace (sec_heading s)\<rparr>"

definition normalized_sections :: "parent \<Rightarrow> chunk_section list" where
  "normalized_sections parent = map (normalized_section parent) (par_sections parent)"

lemma sectionKey_trimmed:
  assumes "sec_key t = sec_key s" "sec_role t = TrimSpace (sec_role s)"
    "sec_heading t = TrimSpace (sec_heading s)" "sec_derived t = sec_derived s"
  shows "sectionKey (trimmed parent) t = sectionKey parent s"
  by (simp add: sectionKey_def trimmed_def Let_def assms)

lemma settles_normalize_section:
  "settles (normalize_section (trimmed parent) s acc)
    (if TrimSpace (sec_role s) \<noteq> [] \<and> sectionKey parent s \<notin> set (snd acc)
     then Some (fst acc @ [normalized_section parent s], sectionKey parent s # snd acc) else None)"
proof -
  define t where "t = s\<lparr>sec_text := normalizeUTF8 (sec_text s), sec_role := TrimSpace (sec_role s),
      sec_heading := TrimSpace (sec_heading s)\<rparr>"
  have key: "sectionKey (trimmed parent) t = sectionKey parent s"
    by (rule sectionKey_trimmed) (simp_all add: t_def)
  have out: "t\<lparr>sec_key := sectionKey parent s\<rparr> = normalized_section parent s"
    by (simp add: t_def normalized_section_def)
  have "settles (andThen (fail_if (TrimSpace (sec_role s) = []) SectionRoleRequired) (\<lambda>_.
      andThen (fail_if (sectionKey parent s \<in> set (snd acc)) (DuplicateSectionKey (sectionKey parent s)))
        (\<lambda>_. ret (fst acc @ [normalized_section parent s], sectionKey parent s # snd acc))))
     (if TrimSpace (sec_role s) = [] then None
      else if sectionKey parent s \<in> set (snd acc) then None
      else Some (fst acc @ [normalized_section parent s], sectionKey parent s # snd acc))"
    by (intro settles_check settles_ret)
  moreover have "sec_role (normalized_section parent s) = TrimSpace (sec_role s)"
    "sec_key (normalized_section parent s) = sectionKey parent s"
    by (simp_all add: normalized_section_def)
  ultimately have "settles (normalize_section (trimmed parent) s acc)
     (if TrimSpace (sec_role s) = [] then None
      else if sectionKey parent s \<in> set (snd acc) then None
      else Some (fst acc @ [normalized_section parent s], sectionKey parent s # snd acc))"
    unfolding normalize_section_def
    by (intro settles_then [OF settles_runs [OF runs_normalizeUTF8]])
      (simp only: Let_def flip: t_def, simp only: key out)
  then show ?thesis by (simp split: if_splits)
qed

lemma settles_normalized:
  "settles (normalizedStreamingSectionsContext parent opts v)
    (if metadata_ok parent \<and> (v \<longrightarrow> valid_sizes opts) then Some (normalized_sections parent) else None)"
proof -
  have fold: "fold_opt (\<lambda>s acc. if TrimSpace (sec_role s) \<noteq> [] \<and> sectionKey parent s \<notin> set (snd acc)
        then Some (fst acc @ [normalized_section parent s], sectionKey parent s # snd acc) else None) ss (out, seen) =
      (if list_all (\<lambda>s. TrimSpace (sec_role s) \<noteq> []) ss \<and> distinct (map (sectionKey parent) ss) \<and>
          set (map (sectionKey parent) ss) \<inter> set seen = {}
       then Some (out @ map (normalized_section parent) ss, rev (map (sectionKey parent) ss) @ seen)
       else None)" for ss out seen
    by (induction ss arbitrary: out seen) auto
  have "settles (poll_loop 256 (\<lambda>_. normalize_section (trimmed parent)) 0 (par_sections parent) ([], []))
      (fold_opt (\<lambda>s acc. if TrimSpace (sec_role s) \<noteq> [] \<and> sectionKey parent s \<notin> set (snd acc)
        then Some (fst acc @ [normalized_section parent s], sectionKey parent s # snd acc) else None)
        (par_sections parent) ([], []))"
    by (rule settles_poll_loop) (rule settles_normalize_section)
  note loop = settles_bind [OF this [unfolded fold], of "\<lambda>s. ret (fst s)" "\<lambda>s. Some (fst s)", OF settles_ret]
  have sel: "par_kind (trimmed parent) = TrimSpace (par_kind parent)"
    "par_source_key (trimmed parent) = TrimSpace (par_source_key parent)"
    "par_sections (trimmed parent) = par_sections parent" by (simp_all add: trimmed_def)
  have sizes: "settles (if v then validate_sizes opts else ret ())
      (if v \<longrightarrow> valid_sizes opts then Some () else None)"
    using settles_validate_sizes [of opts] settles_ret [of "()"] by (cases v) simp_all
  have "settles (normalizedStreamingSectionsContext parent opts v)
      (if TrimSpace (par_kind parent) = [] then None
       else if TrimSpace (par_source_key parent) = [] then None
       else Option.bind (if v \<longrightarrow> valid_sizes opts then Some () else None) (\<lambda>_.
         Option.bind (if list_all (\<lambda>s. TrimSpace (sec_role s) \<noteq> []) (par_sections parent) \<and>
             distinct (map (sectionKey parent) (par_sections parent)) \<and>
             set (map (sectionKey parent) (par_sections parent)) \<inter> set [] = {}
           then Some ([] @ map (normalized_section parent) (par_sections parent),
             rev (map (sectionKey parent) (par_sections parent)) @ []) else None) (\<lambda>s. Some (fst s))))"
    unfolding normalizedStreamingSectionsContext_def Let_def
    by (rule settles_then [OF settles_poll], fold trimmed_def, unfold sel)
      (intro settles_check settles_bind [OF sizes] loop)
  then show ?thesis
    by (auto simp: metadata_ok_def list_all_iff normalized_sections_def split: if_splits)
qed

section \<open>The plan\<close>

definition planned_windows :: "chunk_options \<Rightarrow> rune list \<Rightarrow> stream_window list" where
  "planned_windows opts rs = map (prepared_window rs (byteOffsets rs)) (section_windows rs opts)"

definition planned_section :: "chunk_options \<Rightarrow> chunk_section \<Rightarrow> stream_section" where
  "planned_section opts s = \<lparr>PlanKey = sec_key s, RuneCount = int (length (rangeRunes (sec_text s))),
     Windows = planned_windows opts (rangeRunes (sec_text s))\<rparr>"

definition emitted :: "stream_section \<Rightarrow> nat" where
  "emitted p = length (filter Emit (Windows p))"

definition occurrence_count :: "parent \<Rightarrow> chunk_options \<Rightarrow> nat" where
  "occurrence_count parent opts =
     sum_list (map (emitted \<circ> planned_section opts) (normalized_sections parent))"

definition plan_of :: "parent \<Rightarrow> chunk_options \<Rightarrow> stream_plan" where
  "plan_of parent opts = (empty_plan (parentHash parent) opts)\<lparr>
     OccurrenceCount := int (occurrence_count parent opts),
     PlanSections := map (planned_section opts) (normalized_sections parent)\<rparr>"

definition session_of :: "parent \<Rightarrow> chunk_options \<Rightarrow> stream_session" where
  "session_of parent opts = \<lparr>ses_parent = parent, ses_sections = normalized_sections parent,
     ses_plan = plan_of parent opts, ses_plan_hash = []\<rparr>"

lemma runs_byteOffsets [runs_intros]: "runs (byteOffsetsContext rs) (Inr (byteOffsets rs))"
proof -
  have "fold (\<lambda>(i, r) offsets. offsets @ [last offsets + width r]) (enumerate j (drop k rs)) (take (Suc k) (byteOffsets rs))
      = byteOffsets rs" if "k \<le> length rs" for j k
    using that
  proof (induction "length rs - k" arbitrary: j k)
    case (Suc n)
    then have k: "k < length rs" by simp
    have "take (Suc k) (byteOffsets rs) @ [last (take (Suc k) (byteOffsets rs)) + width (rs ! k)]
        = take (Suc (Suc k)) (byteOffsets rs)"
      using k byteOffsets_step [OF k]
      by (simp add: take_Suc_conv_app_nth [of "Suc k"] take_Suc_conv_app_nth [of k])
    then show ?case
      using Suc.hyps(1) [of "Suc k" "Suc j"] Suc.hyps(2) k by (simp add: Cons_nth_drop_Suc [symmetric])
  qed simp
  from this [of 0 0] have fold: "fold (\<lambda>(i, r) offsets. offsets @ [last offsets + width r]) (enumerate 0 rs) [0]
      = byteOffsets rs" by (simp add: byteOffsets_def upt_conv_Cons del: upt_Suc)
  have "runs (byteOffsetsContext rs)
      (Inr (fold (\<lambda>(i, r) offsets. offsets @ [last offsets + width r]) (enumerate 0 rs) [0]))"
    unfolding byteOffsetsContext_def by (rule runs_poll_loop_total) (rule runs_ret)
  then show ?thesis unfolding fold .
qed

text \<open>The answer of a planner that stops at the limit.\<close>

definition limited :: "int \<Rightarrow> int \<Rightarrow> 'a \<Rightarrow> chunk_error failure + 'a" where
  "limited limit n x = (if 0 < limit \<and> limit < n then Inl (Failed (OccurrenceLimit (limit + 1) limit)) else Inr x)"

definition emits :: "stream_window list \<Rightarrow> int" where
  "emits ws = int (length (filter Emit ws))"

lemma emits_simps [simp]:
  "emits [] = 0" "emits (w # ws) = (if Emit w then 1 else 0) + emits ws" "0 \<le> emits ws"
  by (simp_all add: emits_def)

lemma runs_prepare_windows:
  assumes "limit \<le> 0 \<or> n \<le> limit"
  shows "runs (poll_loop 64 (\<lambda>_. prepare_window limit rs offsets) j ws (acc, n))
    (limited limit (n + emits (map (prepared_window rs offsets) ws))
      (acc @ map (prepared_window rs offsets) ws, n + emits (map (prepared_window rs offsets) ws)))"
  using assms
proof (induction ws arbitrary: j acc n)
  case Nil
  then show ?case by (auto simp: poll_loop_def limited_def runs_ret)
next
  case (Cons w ws)
  let ?p = "prepared_window rs offsets w" and ?m = "n + (if Emit (prepared_window rs offsets w) then 1 else 0)"
  have one: "runs (prepare_window limit rs offsets w (acc, n)) (limited limit ?m (acc @ [?p], ?m))"
    using Cons.prems
    by (auto simp: prepare_window_def Let_def limited_def fail_if_def
        intro: runs_then_error [OF runs_fail] runs_then [OF runs_ret] runs_ret)
  have poll: "runs (andThen (poll_if (j mod 64 = 0)) (\<lambda>_. prepare_window limit rs offsets w (acc, n)))
      (limited limit ?m (acc @ [?p], ?m))"
    by (rule runs_then [OF runs_poll_if one])
  have loop: "poll_loop 64 (\<lambda>_. prepare_window limit rs offsets) j (w # ws) (acc, n) =
      andThen (andThen (poll_if (j mod 64 = 0)) (\<lambda>_. prepare_window limit rs offsets w (acc, n)))
        (poll_loop 64 (\<lambda>_. prepare_window limit rs offsets) (Suc j) ws)"
    by (simp add: poll_loop_def fun_eq_iff)
  have emits: "0 \<le> emits (map (prepared_window rs offsets) ws)" by simp
  show ?case
  proof (cases "0 < limit \<and> limit < ?m")
    case True
    have "runs (poll_loop 64 (\<lambda>_. prepare_window limit rs offsets) j (w # ws) (acc, n))
        (Inl (Failed (OccurrenceLimit (limit + 1) limit)))"
      unfolding loop by (rule runs_then_error) (use poll True in \<open>simp add: limited_def\<close>)
    moreover have "limit < n + emits (map (prepared_window rs offsets) (w # ws))"
      using True emits unfolding list.map emits_simps(2) by linarith
    ultimately show ?thesis using True by (simp add: limited_def)
  next
    case False
    have "runs (poll_loop 64 (\<lambda>_. prepare_window limit rs offsets) j (w # ws) (acc, n))
        (limited limit (?m + emits (map (prepared_window rs offsets) ws))
          ((acc @ [?p]) @ map (prepared_window rs offsets) ws, ?m + emits (map (prepared_window rs offsets) ws)))"
      unfolding loop
    proof (rule runs_then)
      show "runs (andThen (poll_if (j mod 64 = 0)) (\<lambda>_. prepare_window limit rs offsets w (acc, n)))
          (Inr (acc @ [?p], ?m))"
        using poll False by (simp add: limited_def)
    qed (rule Cons.IH, use False in linarith)
    then show ?thesis by (simp add: add.assoc)
  qed
qed

lemma emits_planned: "emits (planned_windows opts rs) = int (emitted
    \<lparr>PlanKey = k, RuneCount = n, Windows = planned_windows opts rs\<rparr>)"
  by (simp add: emits_def emitted_def)

definition add_section :: "chunk_options \<Rightarrow> chunk_section \<Rightarrow> stream_plan \<Rightarrow> stream_plan" where
  "add_section opts s plan = plan\<lparr>
     OccurrenceCount := OccurrenceCount plan + int (emitted (planned_section opts s)),
     PlanSections := PlanSections plan @ [planned_section opts s]\<rparr>"

text \<open>No sum of the planner wraps around in the section.\<close>

definition section_fits :: "chunk_options \<Rightarrow> chunk_section \<Rightarrow> bool" where
  "section_fits opts s \<longleftrightarrow> \<not> overflows (rangeRunes (sec_text s)) opts"

lemma runs_prepare_section:
  assumes plan: "\<And>rs. scalars rs \<Longrightarrow> runs (planner rs) (if overflows rs opts then Inl Panicked else Inr (section_windows rs opts))"
    and "limit \<le> 0 \<or> OccurrenceCount plan \<le> limit" and fits: "section_fits opts s"
  shows "runs (prepare_section limit planner s plan)
    (limited limit (OccurrenceCount (add_section opts s plan)) (add_section opts s plan))"
proof -
  let ?rs = "rangeRunes (sec_text s)"
  have rs: "scalars ?rs" by (simp add: scalars_iff rangeRunes_scalar)
  have windows: "runs (planner ?rs) (Inr (section_windows ?rs opts))" using plan [OF rs] fits by (simp add: section_fits_def)
  let ?ws = "planned_windows opts ?rs" and ?n = "OccurrenceCount plan + int (emitted (planned_section opts s))"
  have n: "OccurrenceCount plan + emits ?ws = ?n"
    by (simp add: planned_section_def emits_planned)
  have loop: "runs (poll_loop 64 (\<lambda>_. prepare_window limit ?rs (byteOffsets ?rs)) 0 (section_windows ?rs opts)
      ([], OccurrenceCount plan)) (limited limit ?n (?ws, ?n))"
    using runs_prepare_windows [OF assms(2), of ?rs "byteOffsets ?rs" 0 "section_windows ?rs opts" "[]"]
    by (simp add: n flip: planned_windows_def)
  have "runs (prepare_section limit planner s plan)
      (case limited limit ?n (?ws, ?n) of Inl e \<Rightarrow> Inl e | Inr x \<Rightarrow> Inr (add_section opts s plan))"
    unfolding prepare_section_def
    by (intro runs_then [OF runs_poll] runs_then [OF runs_stringRunes] runs_then [OF runs_byteOffsets]
        runs_then [OF windows] runs_bind [OF loop])
      (auto simp: limited_def add_section_def planned_section_def intro: runs_ret split: if_splits)
  then show ?thesis by (auto simp: limited_def add_section_def split: if_splits)
qed

lemma section_overflows:
  assumes plan: "\<And>rs. scalars rs \<Longrightarrow> runs (planner rs) (if overflows rs opts then Inl Panicked else Inr (section_windows rs opts))"
    and "\<not> section_fits opts s"
  shows "runs (prepare_section limit planner s plan) (Inl Panicked)"
proof -
  have "scalars (rangeRunes (sec_text s))" by (simp add: scalars_iff rangeRunes_scalar)
  from plan [OF this] assms(2) have "runs (planner (rangeRunes (sec_text s))) (Inl Panicked)" by (simp add: section_fits_def)
  then show ?thesis unfolding prepare_section_def
    by (intro runs_then [OF runs_poll] runs_then [OF runs_stringRunes] runs_then [OF runs_byteOffsets] runs_then_error)
qed

lemma add_sections:
  "fold (add_section opts) ss plan = plan\<lparr>
     OccurrenceCount := OccurrenceCount plan + int (sum_list (map (emitted \<circ> planned_section opts) ss)),
     PlanSections := PlanSections plan @ map (planned_section opts) ss\<rparr>"
  by (induction ss arbitrary: plan) (simp_all add: add_section_def)

lemma runs_prepare_sections:
  assumes plan: "\<And>rs. scalars rs \<Longrightarrow> runs (planner rs) (if overflows rs opts then Inl Panicked else Inr (section_windows rs opts))"
    and "limit \<le> 0 \<or> OccurrenceCount plan \<le> limit" and "list_all (section_fits opts) ss"
  shows "runs (for_loop (prepare_section limit planner) ss plan)
    (limited limit (OccurrenceCount (fold (add_section opts) ss plan)) (fold (add_section opts) ss plan))"
  using assms(2,3)
proof (induction ss arbitrary: plan)
  case Nil
  then show ?case by (auto simp: limited_def runs_ret)
next
  case (Cons s ss)
  have fits: "section_fits opts s" "list_all (section_fits opts) ss" using Cons.prems(2) by simp_all
  let ?p = "add_section opts s plan"
  have one: "runs (prepare_section limit planner s plan) (limited limit (OccurrenceCount ?p) ?p)"
    by (rule runs_prepare_section) (use assms(1) Cons.prems(1) fits(1) in simp_all)
  have mono: "OccurrenceCount ?p \<le> OccurrenceCount (fold (add_section opts) ss ?p)"
    by (simp add: add_sections)
  show ?case
  proof (cases "0 < limit \<and> limit < OccurrenceCount ?p")
    case True
    have "runs (for_loop (prepare_section limit planner) (s # ss) plan)
        (Inl (Failed (OccurrenceLimit (limit + 1) limit)))"
      unfolding for_loop.simps by (rule runs_then_error) (use one True in \<open>simp add: limited_def\<close>)
    then show ?thesis using True mono by (simp add: limited_def)
  next
    case False
    have "runs (for_loop (prepare_section limit planner) (s # ss) plan)
        (limited limit (OccurrenceCount (fold (add_section opts) ss ?p)) (fold (add_section opts) ss ?p))"
      unfolding for_loop.simps
    proof (rule runs_then)
      show "runs (prepare_section limit planner s plan) (Inr ?p)"
        using one False by (simp add: limited_def)
      show "runs (for_loop (prepare_section limit planner) ss ?p)
          (limited limit (OccurrenceCount (fold (add_section opts) ss ?p)) (fold (add_section opts) ss ?p))"
        using False by (intro Cons.IH [OF _ fits(2)]) linarith
    qed
    then show ?thesis by simp
  qed
qed

lemma sections_overflow:
  assumes plan: "\<And>rs. scalars rs \<Longrightarrow> runs (planner rs) (if overflows rs opts then Inl Panicked else Inr (section_windows rs opts))"
    and "limit \<le> 0 \<or> OccurrenceCount plan \<le> limit" and "\<not> list_all (section_fits opts) ss"
  shows "\<exists>e. runs (for_loop (prepare_section limit planner) ss plan) (Inl e)"
  using assms(2,3)
proof (induction ss arbitrary: plan)
  case (Cons s ss)
  let ?p = "add_section opts s plan"
  show ?case
  proof (cases "section_fits opts s")
    case False
    from runs_then_error [OF section_overflows [OF plan this]] show ?thesis by (auto intro!: exI)
  next
    case True
    note one = runs_prepare_section [OF plan Cons.prems(1) True]
    show ?thesis
    proof (cases "0 < limit \<and> limit < OccurrenceCount ?p")
      case True
      then have "runs (prepare_section limit planner s plan) (Inl (Failed (OccurrenceLimit (limit + 1) limit)))"
        using one by (simp add: limited_def)
      from runs_then_error [OF this] show ?thesis by (auto intro!: exI)
    next
      case False
      then have go: "runs (prepare_section limit planner s plan) (Inr ?p)" using one by (auto simp: limited_def split: if_splits)
      have "limit \<le> 0 \<or> OccurrenceCount ?p \<le> limit" using False by linarith
      moreover have "\<not> list_all (section_fits opts) ss" using Cons.prems(2) True by simp
      ultimately obtain e where "runs (for_loop (prepare_section limit planner) ss ?p) (Inl e)" using Cons.IH by blast
      then have "runs (for_loop (prepare_section limit planner) (s # ss) plan) (Inl e)"
        unfolding for_loop.simps by (rule runs_then [OF go])
      then show ?thesis ..
    qed
  qed
qed simp

text \<open>The planner of a parent that passes the checks returns its plan, or stops at the limit, if no sum wraps around; of any
  other parent it fails.\<close>

definition checks_ok :: "parent \<Rightarrow> chunk_options \<Rightarrow> int \<Rightarrow> bool" where
  "checks_ok parent opts byteLimit \<longleftrightarrow> metadata_ok parent \<and> valid_sizes opts \<and>
     (0 < byteLimit \<longrightarrow> length (par_sections parent) \<le> V3MaximumPlanningSections \<and>
        int (normalized_bytes parent) \<le> byteLimit)"

definition planning_ok :: "parent \<Rightarrow> chunk_options \<Rightarrow> int \<Rightarrow> bool" where
  "planning_ok parent opts byteLimit \<longleftrightarrow> checks_ok parent opts byteLimit \<and>
     list_all (section_fits opts) (normalized_sections parent)"

lemma settles_ceilings:
  "settles (if 0 < byteLimit then andThen (validateStreamingMetadataContext parent opts V3MaximumPlanningSections)
      (\<lambda>_. validatePlanningInputBytes parent byteLimit) else ret ())
    (if 0 < byteLimit \<longrightarrow> metadata_ok parent \<and> valid_sizes opts \<and>
        length (par_sections parent) \<le> V3MaximumPlanningSections \<and> int (normalized_bytes parent) \<le> byteLimit
     then Some () else None)"
proof (cases "0 < byteLimit")
  case True
  then show ?thesis
    using settles_bind [OF settles_metadata, of parent opts V3MaximumPlanningSections
        "\<lambda>_. validatePlanningInputBytes parent byteLimit"
        "\<lambda>_. if 0 < byteLimit \<and> int (normalized_bytes parent) \<le> byteLimit then Some () else None",
        OF settles_input_bytes]
    by (auto simp: V3MaximumPlanningSections_def not_less split: if_splits)
qed (simp add: settles_ret)

lemma runs_prepare_session:
  assumes plan: "\<And>rs. scalars rs \<Longrightarrow> options_ok opts \<Longrightarrow>
    runs (planner rs) (if overflows rs opts then Inl Panicked else Inr (section_windows rs opts))"
  shows "planning_ok parent opts byteLimit \<Longrightarrow>
      runs (prepareStreamSessionWithPlanner parent opts limit byteLimit planner)
        (limited limit (int (occurrence_count parent opts)) (session_of parent opts))"
    "\<not> planning_ok parent opts byteLimit \<Longrightarrow>
      \<exists>e. runs (prepareStreamSessionWithPlanner parent opts limit byteLimit planner) (Inl e)"
    "\<not> checks_ok parent opts byteLimit \<Longrightarrow>
      \<exists>e. runs (prepareStreamSessionWithPlanner parent opts limit byteLimit planner) (Inl (Failed e))"
proof -
  let ?rest = "\<lambda>sections. andThen (parentHashContext parent) (\<lambda>projectionHash.
     andThen (for_loop (prepare_section limit planner) sections (empty_plan projectionHash opts)) (\<lambda>plan.
     ret \<lparr>ses_parent = parent, ses_sections = sections, ses_plan = plan, ses_plan_hash = []\<rparr>))"
  have 1: "settles (if 0 < byteLimit then andThen (validateStreamingMetadataContext parent opts V3MaximumPlanningSections)
      (\<lambda>_. validatePlanningInputBytes parent byteLimit) else ret ()) (Some ())" if "checks_ok parent opts byteLimit"
    using settles_ceilings [of byteLimit parent opts] that by (simp add: checks_ok_def)
  have 2: "settles (normalizedStreamingSectionsContext parent opts True) (Some (normalized_sections parent))"
    if "checks_ok parent opts byteLimit"
    using settles_normalized [of parent opts True] that by (simp add: checks_ok_def)
  have loop: "runs (prepareStreamSessionWithPlanner parent opts limit byteLimit planner) r"
    if ok: "checks_ok parent opts byteLimit"
      and "runs (andThen (for_loop (prepare_section limit planner) (normalized_sections parent) (empty_plan (parentHash parent) opts)) (\<lambda>plan.
         ret \<lparr>ses_parent = parent, ses_sections = normalized_sections parent, ses_plan = plan, ses_plan_hash = []\<rparr>)) r" for r
    unfolding prepareStreamSessionWithPlanner_def
    by (rule runs_then [OF runs_poll], rule runs_then [OF 1 [OF ok, unfolded settles_def option.case]],
      rule runs_then [OF 2 [OF ok, unfolded settles_def option.case]], rule runs_then [OF runs_parentHash]) (rule that(2))
  show failed: "\<exists>e. runs (prepareStreamSessionWithPlanner parent opts limit byteLimit planner) (Inl (Failed e))"
    if bad: "\<not> checks_ok parent opts byteLimit"
  proof -
    have no: "\<not> (0 < byteLimit \<longrightarrow> metadata_ok parent \<and> valid_sizes opts \<and>
          length (par_sections parent) \<le> V3MaximumPlanningSections \<and> int (normalized_bytes parent) \<le> byteLimit) \<or>
        \<not> (metadata_ok parent \<and> valid_sizes opts)"
      using bad by (auto simp: checks_ok_def)
    have "settles (prepareStreamSessionWithPlanner parent opts limit byteLimit planner) None"
      unfolding prepareStreamSessionWithPlanner_def
    proof (rule settles_then [OF settles_poll])
      let ?v = "if 0 < byteLimit \<longrightarrow> metadata_ok parent \<and> valid_sizes opts \<and>
          length (par_sections parent) \<le> V3MaximumPlanningSections \<and> int (normalized_bytes parent) \<le> byteLimit
        then Some () else None"
      have "settles (andThen (normalizedStreamingSectionsContext parent opts True) ?rest) None"
        if "\<not> (metadata_ok parent \<and> valid_sizes opts)"
      proof -
        have "settles (normalizedStreamingSectionsContext parent opts True) None"
          using settles_normalized [of parent opts True] that by auto
        from settles_bind [OF this] show ?thesis by simp
      qed
      then show "settles (andThen (if 0 < byteLimit then andThen (validateStreamingMetadataContext parent opts V3MaximumPlanningSections)
        (\<lambda>_. validatePlanningInputBytes parent byteLimit) else ret ())
          (\<lambda>_. andThen (normalizedStreamingSectionsContext parent opts True) ?rest)) None"
        using no settles_bind [OF settles_ceilings, of byteLimit parent opts "\<lambda>_. andThen (normalizedStreamingSectionsContext parent opts True) ?rest" "\<lambda>_. None"]
        by (cases "?v") (auto split: if_splits)
    qed
    then show ?thesis by (simp add: settles_def)
  qed
  show "\<exists>e. runs (prepareStreamSessionWithPlanner parent opts limit byteLimit planner) (Inl e)"
    if bad: "\<not> planning_ok parent opts byteLimit"
  proof (cases "checks_ok parent opts byteLimit")
    case True
    then have opts: "options_ok opts" by (simp add: checks_ok_def valid_sizes_def)
    have "limit \<le> 0 \<or> OccurrenceCount (empty_plan (parentHash parent) opts) \<le> limit"
      by (auto simp: empty_plan_def)
    from sections_overflow [OF plan [OF _ opts] this] bad True
    obtain e where "runs (for_loop (prepare_section limit planner) (normalized_sections parent) (empty_plan (parentHash parent) opts)) (Inl e)"
      by (auto simp: planning_ok_def)
    from loop [OF True runs_then_error [OF this]] show ?thesis by blast
  qed (use failed in blast)
  assume planned: "planning_ok parent opts byteLimit"
  then have ok: "checks_ok parent opts byteLimit" and fits: "list_all (section_fits opts) (normalized_sections parent)"
    by (simp_all add: planning_ok_def)
  then have opts: "options_ok opts" by (simp add: checks_ok_def valid_sizes_def)
  let ?p = "fold (add_section opts) (normalized_sections parent) (empty_plan (parentHash parent) opts)"
  have p: "?p = plan_of parent opts" "OccurrenceCount ?p = int (occurrence_count parent opts)"
    by (simp_all add: add_sections plan_of_def occurrence_count_def empty_plan_def)
  have 3: "runs (for_loop (prepare_section limit planner) (normalized_sections parent)
      (empty_plan (parentHash parent) opts)) (limited limit (int (occurrence_count parent opts)) (plan_of parent opts))"
  proof -
    have "limit \<le> 0 \<or> OccurrenceCount (empty_plan (parentHash parent) opts) \<le> limit"
      by (auto simp: empty_plan_def)
    from runs_prepare_sections [OF plan [OF _ opts] this fits]
    have "runs (for_loop (prepare_section limit planner) (normalized_sections parent)
        (empty_plan (parentHash parent) opts)) (limited limit (OccurrenceCount ?p) ?p)" .
    then show ?thesis unfolding p(2) unfolding p(1) .
  qed
  have "runs (prepareStreamSessionWithPlanner parent opts limit byteLimit planner)
      (case limited limit (int (occurrence_count parent opts)) (plan_of parent opts) of
         Inl e \<Rightarrow> Inl e | Inr x \<Rightarrow> Inr (session_of parent opts))"
    by (rule loop [OF ok], rule runs_bind [OF 3])
      (auto simp: limited_def session_of_def intro: runs_ret split: if_splits)
  then show "runs (prepareStreamSessionWithPlanner parent opts limit byteLimit planner)
      (limited limit (int (occurrence_count parent opts)) (session_of parent opts))"
    by (auto simp: limited_def split: if_splits)
qed

end
