(* ===== verification/ChunkPreflight.thy ===== *)
theory ChunkPreflight
  imports ChunkSession
begin

text \<open>
  The preflight is sound: the number of intervals it needs to cover the text that is not white space is a
  lower bound of the occurrences of the exact plan. A window that the limits allow spans at most
  \<open>MaxUTF8Bytes\<close> bytes, so the greedy cover starts at most one interval in it. It follows that the
  capped count is the exact count, cut off one above the limit, on every input the exact planner
  accepts.
\<close>

section \<open>Trimmed windows\<close>

lemma trim_start_spec:
  "start \<le> stop \<Longrightarrow> start \<le> trim_start rs start stop \<and> trim_start rs start stop \<le> stop \<and>
    (\<forall>i. start \<le> i \<and> i < trim_start rs start stop \<longrightarrow> isSpace (rs ! i)) \<and>
    (trim_start rs start stop < stop \<longrightarrow> \<not> isSpace (rs ! trim_start rs start stop))"
proof (induction rs start stop rule: trim_start.induct)
  case (1 rs start stop)
  show ?case
  proof (cases "start < stop \<and> isSpace (rs ! start)")
    case True
    then have "trim_start rs start stop = trim_start rs (Suc start) stop"
      by (subst trim_start.simps) simp
    then show ?thesis
      using 1(1) [OF True] True by (auto simp: Suc_le_eq dest: le_imp_less_or_eq)
  next
    case False
    then have "trim_start rs start stop = start" by (subst trim_start.simps) auto
    then show ?thesis using False 1(2) by auto
  qed
qed

lemma trim_stop_spec:
  "start \<le> stop \<Longrightarrow> start \<le> trim_stop rs start stop \<and> trim_stop rs start stop \<le> stop \<and>
    (\<forall>i. trim_stop rs start stop \<le> i \<and> i < stop \<longrightarrow> isSpace (rs ! i)) \<and>
    (start < trim_stop rs start stop \<longrightarrow> \<not> isSpace (rs ! (trim_stop rs start stop - 1)))"
proof (induction rs start stop rule: trim_stop.induct)
  case (1 rs start stop)
  show ?case
  proof (cases "start < stop \<and> isSpace (rs ! (stop - 1))")
    case True
    then have "trim_stop rs start stop = trim_stop rs start (stop - 1)"
      by (subst trim_stop.simps) simp
    moreover have "i = stop - 1 \<or> i < stop - 1" if "i < stop" for i using that by auto
    ultimately show ?thesis
      using 1(1) [OF True] True by fastforce
  next
    case False
    then have "trim_stop rs start stop = stop" by (subst trim_stop.simps) auto
    then show ?thesis using False 1(2) by auto
  qed
qed

lemma trimRuneOffsets_spec:
  assumes "start \<le> stop" "trimRuneOffsetsRunes rs start stop = (a, b)"
  shows "start \<le> a" "a \<le> b" "b \<le> stop"
    "start \<le> i \<Longrightarrow> i < stop \<Longrightarrow> \<not> isSpace (rs ! i) \<Longrightarrow> a \<le> i \<and> i < b"
    "a < b \<Longrightarrow> \<not> isSpace (rs ! a)" "a < b \<Longrightarrow> \<not> isSpace (rs ! (b - 1))"
proof -
  have a: "a = trim_start rs start stop" and b: "b = trim_stop rs a stop"
    using assms(2) by (auto simp: trimRuneOffsetsRunes_def Let_def)
  note s1 = trim_start_spec [OF assms(1), of rs, folded a]
  note s2 = trim_stop_spec [of a stop rs, folded b]
  show "start \<le> a" "a \<le> b" "b \<le> stop" "a < b \<Longrightarrow> \<not> isSpace (rs ! a)"
    "a < b \<Longrightarrow> \<not> isSpace (rs ! (b - 1))" using s1 s2 by auto
  show "a \<le> i \<and> i < b" if "start \<le> i" "i < stop" "\<not> isSpace (rs ! i)"
    using s1 s2 that by (meson not_le)
qed

text \<open>A window is emitted exactly when it holds a rune that is not white space.\<close>

definition has_text :: "rune list \<Rightarrow> window \<Rightarrow> bool" where
  "has_text rs w = (\<exists>i \<in> {win_start w..<win_end w}. \<not> isSpace (rs ! i))"

lemma emit_iff:
  assumes "win_start w \<le> win_end w"
  shows "Emit (prepared_window rs offsets w) \<longleftrightarrow> has_text rs w"
proof -
  obtain a b where ab: "trimRuneOffsetsRunes rs (win_start w) (win_end w) = (a, b)" by force
  note spec = trimRuneOffsets_spec [OF assms ab]
  have "a < b \<longleftrightarrow> has_text rs w"
    unfolding has_text_def using spec by (fastforce intro: bexI [of _ a])
  then show ?thesis by (simp add: prepared_window_def ab)
qed

section \<open>The greedy cover\<close>

fun greedy :: "rune list \<Rightarrow> nat \<Rightarrow> nat \<Rightarrow> nat" where
  "greedy [] pos covered = 0"
| "greedy (r # rs) pos covered =
     (if \<not> isSpace r \<and> covered \<le> pos then 1 + greedy rs (pos + width r) (pos + MaxUTF8Bytes)
      else greedy rs (pos + width r) covered)"

fun covered_after :: "rune list \<Rightarrow> nat \<Rightarrow> nat \<Rightarrow> nat" where
  "covered_after [] pos covered = covered"
| "covered_after (r # rs) pos covered = covered_after rs (pos + width r)
     (if \<not> isSpace r \<and> covered \<le> pos then pos + MaxUTF8Bytes else covered)"

definition lower_bound :: "parent \<Rightarrow> nat" where
  "lower_bound parent = sum_list (map (\<lambda>s. greedy (rangeRunes (sec_text s)) 0 0) (par_sections parent))"

lemma greedy_append:
  "greedy (xs @ ys) pos covered = greedy xs pos covered +
     greedy ys (pos + sum_list (map width xs)) (covered_after xs pos covered)"
  by (induction xs arbitrary: pos covered) (simp_all add: add.assoc)

lemma greedy_covered:
  "scalars rs \<Longrightarrow> pos + sum_list (map width rs) \<le> covered \<Longrightarrow> greedy rs pos covered = 0"
proof (induction rs arbitrary: pos)
  case (Cons r rs)
  then have "scalar r" by (simp add: scalars_def)
  then have "1 \<le> width r" by (rule width_bounds)
  then show ?case using Cons by (simp add: scalars_def)
qed simp

text \<open>In a stretch no longer than the limit at most one interval starts, and none if it is white
  space.\<close>

lemma greedy_window:
  "scalars rs \<Longrightarrow> sum_list (map width rs) \<le> MaxUTF8Bytes \<Longrightarrow>
    greedy rs pos covered \<le> (if list_all isSpace rs then 0 else 1)"
proof (induction rs arbitrary: pos covered)
  case (Cons r rs)
  then have rs: "scalars rs" "sum_list (map width rs) \<le> MaxUTF8Bytes" by (simp_all add: scalars_def)
  show ?case
  proof (cases "\<not> isSpace r \<and> covered \<le> pos")
    case True
    then have "greedy rs (pos + width r) (pos + MaxUTF8Bytes) = 0"
      using Cons.prems by (intro greedy_covered rs) simp
    then show ?thesis using True by simp
  next
    case False
    then show ?thesis using Cons.IH [OF rs, of "pos + width r" covered] by (auto split: if_splits)
  qed
qed simp

lemma greedy_windows:
  assumes "scalars rs"
  shows "covers a (length rs) ws \<Longrightarrow> a \<le> length rs \<Longrightarrow>
    (\<And>w. w \<in> set ws \<Longrightarrow> fits_window rs opts (win_start w) (win_end w)) \<Longrightarrow>
    greedy (drop a rs) (byteOffsets rs ! a) covered \<le> length (filter (has_text rs) ws)"
proof (induction ws arbitrary: a covered)
  case (Cons w ws)
  define b where "b = win_end w"
  have w: "win_start w = a" "a < b" "covers b (length rs) ws" "fits_window rs opts a b"
    using Cons.prems(1) Cons.prems(3) [of w] by (auto simp: b_def)
  then have b: "b \<le> length rs" by (simp add: fits_window_def)
  let ?x = "slice_of a b rs"
  have split: "drop a rs = ?x @ drop b rs"
    using w(2) b by (simp add: slice_of_def) (metis append_take_drop_id drop_drop le_add_diff_inverse2 less_imp_le)
  have bytes: "byteOffsets rs ! b = byteOffsets rs ! a + sum_list (map width ?x)"
    using w(2) b by (simp add: byteOffsets_diff slice_of_def)
  have "sum_list (map width ?x) \<le> MaxUTF8Bytes"
    using w(4) bytes by (simp add: fits_window_def byte_span_def)
  moreover have x: "scalars ?x"
    using assms by (auto simp: scalars_iff slice_of_def dest: in_set_takeD in_set_dropD)
  ultimately have "greedy ?x (byteOffsets rs ! a) covered \<le> (if list_all isSpace ?x then 0 else 1)"
    by (intro greedy_window)
  moreover have "\<not> list_all isSpace ?x \<Longrightarrow> has_text rs w"
    using w(1,2) b by (fastforce simp: has_text_def b_def slice_of_def list_all_length)
  moreover have "greedy (drop b rs) (byteOffsets rs ! b) (covered_after ?x (byteOffsets rs ! a) covered)
      \<le> length (filter (has_text rs) ws)"
    using w b Cons.prems(3) by (intro Cons.IH) auto
  ultimately show ?case
    unfolding split greedy_append bytes [symmetric] by (auto split: if_splits)
qed simp

lemma covers_ordered: "covers a n ws \<Longrightarrow> w \<in> set ws \<Longrightarrow> win_start w < win_end w"
  by (induction ws arbitrary: a) auto

lemma emitted_planned:
  assumes "options_ok opts"
  shows "emitted (planned_section opts s) = length (filter (has_text (rangeRunes (sec_text s)))
    (section_windows (rangeRunes (sec_text s)) opts))"
proof -
  let ?rs = "rangeRunes (sec_text s)"
  have "scalars ?rs" by (simp add: scalars_iff rangeRunes_scalar)
  from section_windows_cover [OF this assms]
  have "Emit (prepared_window ?rs offsets w) = has_text ?rs w" if "w \<in> set (section_windows ?rs opts)" for w offsets
    using covers_ordered that by (intro emit_iff) (auto intro: less_imp_le)
  then show ?thesis
    by (simp add: emitted_def planned_section_def planned_windows_def filter_map o_def cong: filter_cong)
qed

lemma greedy_emitted:
  assumes "options_ok opts"
  shows "greedy (rangeRunes (sec_text s)) 0 0 \<le> emitted (planned_section opts s)"
proof -
  let ?rs = "rangeRunes (sec_text s)"
  have rs: "scalars ?rs" by (simp add: scalars_iff rangeRunes_scalar)
  show ?thesis
    using greedy_windows [OF rs section_windows_cover [OF rs assms], of opts 0]
      section_windows_fit [OF rs assms]
    by (simp add: emitted_planned [OF assms])
qed

lemma range_normalized_section:
  "rangeRunes (sec_text (normalized_section parent s)) = rangeRunes (sec_text s)"
  by (simp add: normalized_section_def normalizeUTF8_def range_normalized)

lemma lower_bound_sound:
  assumes "options_ok opts"
  shows "lower_bound parent \<le> occurrence_count parent opts"
  unfolding lower_bound_def occurrence_count_def normalized_sections_def map_map
  by (rule sum_list_mono) (use greedy_emitted [OF assms, of "normalized_section parent _"]
    in \<open>simp add: range_normalized_section\<close>)

text \<open>With no interval needed, nothing is emitted.\<close>

lemma greedy_zero: "greedy rs pos 0 = 0 \<Longrightarrow> list_all isSpace rs"
  by (induction rs arbitrary: pos) (auto split: if_splits)

lemma lower_bound_zero:
  assumes "options_ok opts" "lower_bound parent = 0"
  shows "occurrence_count parent opts = 0"
proof -
  have "emitted (planned_section opts (normalized_section parent s)) = 0" if "s \<in> set (par_sections parent)" for s
  proof -
    let ?rs = "rangeRunes (sec_text s)"
    have rs: "scalars ?rs" by (simp add: scalars_iff rangeRunes_scalar)
    have "greedy ?rs 0 0 = 0" using assms(2) that by (simp add: lower_bound_def)
    then have "list_all isSpace ?rs" by (rule greedy_zero)
    moreover have "w \<in> set (section_windows ?rs opts) \<Longrightarrow> win_end w \<le> length ?rs" for w
      using section_windows_fit [OF rs assms(1)] by (simp add: fits_window_def)
    ultimately have "filter (has_text ?rs) (section_windows ?rs opts) = []"
      by (fastforce simp: filter_empty_conv has_text_def list_all_length)
    then show ?thesis
      using emitted_planned [OF assms(1), of "normalized_section parent s"]
      by (simp add: range_normalized_section)
  qed
  then show ?thesis by (simp add: occurrence_count_def normalized_sections_def)
qed

section \<open>What the preflight returns\<close>

abbreviation (input) ceiling :: int where
  "ceiling \<equiv> int V3MaximumPlanningInputUTF8Bytes"

definition preflight_result :: "int \<Rightarrow> nat \<Rightarrow> nat \<Rightarrow> chunk_error failure + ((bool \<times> nat) + 'p) \<Rightarrow> ('p \<Rightarrow> bool) \<Rightarrow> bool" where
  "preflight_result limit bytes bound r final = (case r of
     Inl e \<Rightarrow> (\<exists>i. e = Failed (PlanningByteCeiling i)) \<and> ceiling < int bytes
   | Inr (Inl (over, n)) \<Rightarrow> over \<and> limit < int bound
   | Inr (Inr p) \<Rightarrow> int bound \<le> limit \<and> final p)"

lemma preflight_result_mono:
  "preflight_result limit bytes bound (Inl e) final \<Longrightarrow> bytes \<le> bytes' \<Longrightarrow>
    preflight_result limit bytes' bound' (Inl e) final'"
  "preflight_result limit bytes bound (Inr (Inl v)) final \<Longrightarrow> bound \<le> bound' \<Longrightarrow>
    preflight_result limit bytes' bound' (Inr (Inl v)) final'"
  by (auto simp: preflight_result_def split: prod.splits)

text \<open>One rune, given the state before it.\<close>

definition rune_step :: "int \<Rightarrow> nat \<Rightarrow> rune \<Rightarrow> preflight \<Rightarrow> chunk_error failure + ((bool \<times> nat) + preflight)" where
  "rune_step limit i r p =
     (let bytes = normalizedBytes p + width r;
          checked = (if 4096 \<le> checkedBytes p + width r then 0 else checkedBytes p + width r);
          q = p\<lparr>normalizedBytes := bytes, checkedBytes := checked\<rparr>;
          pos = sectionByteAt p + width r
      in if ceiling < int bytes then Inl (Failed (PlanningByteCeiling i))
         else if \<not> isSpace r \<and> coveredThrough p \<le> sectionByteAt p then
           if limit < int (lowerBound p + 1) then Inr (Inl (True, bytes))
           else Inr (Inr (q\<lparr>lowerBound := lowerBound p + 1, coveredThrough := sectionByteAt p + MaxUTF8Bytes,
             sectionByteAt := pos\<rparr>))
         else Inr (Inr (q\<lparr>sectionByteAt := pos\<rparr>)))"

lemma runs_preflight_rune:
  assumes "scalar r"
  shows "runs (preflight_rune limit i r p) (rune_step limit i r p)"
proof -
  have c: "(runeLen r < 0 \<or> ceiling - runeLen r < int (normalizedBytes p)) \<longleftrightarrow>
      ceiling < int (normalizedBytes p + width r)"
    using runeLen_width [OF assms] by auto
  show ?thesis
    unfolding preflight_rune_def c rune_step_def Let_def
    by (rule runs_check, rule runs_then [OF runs_poll_if]) (auto intro: runs_ret)
qed

lemma runes_result:
  assumes "scalars rs" "int (lowerBound p) \<le> limit"
  shows "preflight_result limit (normalizedBytes p + sum_list (map width rs))
      (lowerBound p + greedy rs (sectionByteAt p) (coveredThrough p))
      (fold_return (rune_step limit i) rs p)
      (\<lambda>q. normalizedBytes q = normalizedBytes p + sum_list (map width rs) \<and>
        lowerBound q = lowerBound p + greedy rs (sectionByteAt p) (coveredThrough p))"
  using assms
proof (induction rs arbitrary: p)
  case Nil
  then show ?case by (simp add: preflight_result_def)
next
  case (Cons r rs)
  then have rs: "scalars rs" by (simp add: scalars_def)
  show ?case
  proof (cases "rune_step limit i r p")
    case (Inl e)
    then show ?thesis by (auto simp: rune_step_def Let_def preflight_result_def split: if_splits)
  next
    case (Inr v)
    show ?thesis
    proof (cases v)
      case (Inl w)
      then show ?thesis using Inr Cons.prems
        by (auto simp: rune_step_def Let_def preflight_result_def split: if_splits)
    next
      case q: (Inr q)
      then have "rune_step limit i r p = Inr (Inr q)" using Inr by simp
      then have "int (lowerBound q) \<le> limit \<and> normalizedBytes q = normalizedBytes p + width r \<and>
          lowerBound q + greedy rs (sectionByteAt q) (coveredThrough q) =
            lowerBound p + greedy (r # rs) (sectionByteAt p) (coveredThrough p)"
        using Cons.prems(2) by (auto simp: rune_step_def Let_def split: if_splits)
      then show ?thesis using Cons.IH [OF rs, of q] Inr q by (simp add: add.assoc)
    qed
  qed
qed

definition section_step :: "int \<Rightarrow> nat \<times> chunk_section \<Rightarrow> nat \<times> nat \<Rightarrow> chunk_error failure + ((bool \<times> nat) + (nat \<times> nat))" where
  "section_step limit sec s =
     (case fold_return (rune_step limit (fst sec)) (rangeRunes (sec_text (snd sec)))
         \<lparr>normalizedBytes = fst s, lowerBound = snd s, sectionByteAt = 0, coveredThrough = 0, checkedBytes = 0\<rparr> of
        Inl e \<Rightarrow> Inl e
      | Inr (Inl v) \<Rightarrow> Inr (Inl v)
      | Inr (Inr p) \<Rightarrow> Inr (Inr (normalizedBytes p, lowerBound p)))"

lemma runs_preflight_section: "runs (preflight_section limit sec s) (section_step limit sec s)"
proof -
  let ?p = "\<lparr>normalizedBytes = fst s, lowerBound = snd s, sectionByteAt = 0, coveredThrough = 0, checkedBytes = 0\<rparr>"
  have "runs (for_return (preflight_rune limit (fst sec)) (rangeRunes (sec_text (snd sec))) ?p)
      (fold_return (rune_step limit (fst sec)) (rangeRunes (sec_text (snd sec))) ?p)"
    by (rule runs_for_return) (simp add: runs_preflight_rune rangeRunes_scalar)
  note bind = runs_bind [OF this, of "\<lambda>r. case r of Inl v \<Rightarrow> ret (Inl v)
      | Inr p \<Rightarrow> ret (Inr (normalizedBytes p, lowerBound p))"
      "\<lambda>r. case r of Inl v \<Rightarrow> Inr (Inl v) | Inr p \<Rightarrow> Inr (Inr (normalizedBytes p, lowerBound p))"]
  have "runs (preflight_section limit sec s)
     (case fold_return (rune_step limit (fst sec)) (rangeRunes (sec_text (snd sec))) ?p of
        Inl e \<Rightarrow> Inl e | Inr r \<Rightarrow> (case r of Inl v \<Rightarrow> Inr (Inl v)
          | Inr p \<Rightarrow> Inr (Inr (normalizedBytes p, lowerBound p))))"
    unfolding preflight_section_def case_prod_beta
    by (rule runs_then [OF runs_poll_if], rule bind) (auto intro: runs_ret split: sum.split)
  then show ?thesis by (auto simp: section_step_def split: sum.splits)
qed

lemma sections_result:
  assumes "int (snd s) \<le> limit"
  shows "preflight_result limit (fst s + sum_list (map section_bytes ss))
      (snd s + sum_list (map (\<lambda>x. greedy (rangeRunes (sec_text x)) 0 0) ss))
      (fold_return (section_step limit) (enumerate j ss) s)
      (\<lambda>t. t = (fst s + sum_list (map section_bytes ss),
        snd s + sum_list (map (\<lambda>x. greedy (rangeRunes (sec_text x)) 0 0) ss)))"
  using assms
proof (induction ss arbitrary: j s)
  case Nil
  then show ?case by (simp add: preflight_result_def)
next
  case (Cons x ss)
  let ?p = "\<lparr>normalizedBytes = fst s, lowerBound = snd s, sectionByteAt = 0, coveredThrough = 0, checkedBytes = 0\<rparr>"
  let ?r = "fold_return (rune_step limit j) (rangeRunes (sec_text x)) ?p"
  have rs: "scalars (rangeRunes (sec_text x))" by (simp add: scalars_iff rangeRunes_scalar)
  have one: "preflight_result limit (fst s + section_bytes x) (snd s + greedy (rangeRunes (sec_text x)) 0 0) ?r
      (\<lambda>q. normalizedBytes q = fst s + section_bytes x \<and>
        lowerBound q = snd s + greedy (rangeRunes (sec_text x)) 0 0)"
    using runes_result [OF rs, of ?p limit j] Cons.prems by (simp add: section_bytes_def)
  show ?case
  proof (cases ?r)
    case (Inl e)
    then show ?thesis
      using one by (auto simp: section_step_def intro: preflight_result_mono(1))
  next
    case (Inr v)
    show ?thesis
    proof (cases v)
      case (Inl w)
      then show ?thesis
        using one Inr by (auto simp: section_step_def intro: preflight_result_mono(2))
    next
      case q: (Inr q)
      then have "int (snd s + greedy (rangeRunes (sec_text x)) 0 0) \<le> limit"
        "normalizedBytes q = fst s + section_bytes x"
        "lowerBound q = snd s + greedy (rangeRunes (sec_text x)) 0 0"
        using one Inr by (simp_all add: preflight_result_def)
      then show ?thesis
        using Cons.IH [of "(normalizedBytes q, lowerBound q)" "Suc j"] Inr q
        by (simp add: section_step_def add.assoc)
    qed
  qed
qed

text \<open>The raw bytes of a string never exceed those of its normalization.\<close>

lemma width_ge:
  "scalar r \<Longrightarrow> 128 \<le> r \<Longrightarrow> 2 \<le> width r" "scalar r \<Longrightarrow> 2048 \<le> r \<Longrightarrow> 3 \<le> width r"
  "65536 \<le> r \<Longrightarrow> scalar r \<Longrightarrow> 4 \<le> width r"
  by (auto simp: width_def runeLen_def scalar_def)

lemma width_error [simp]: "width rune_error = 3"
  by (simp add: width_def runeLen_def rune_error_def)

lemma decode2_width:
  assumes "in_bytes 194 223 a"
  shows "snd (decode2 a s) \<le> width (fst (decode2 a s))"
proof -
  have "scalar (fst (decode2 a s))" using assms by (rule decode2_scalar)
  then show ?thesis
    using assms
    by (auto simp: decode2_def in_bytes_def [of 194] intro!: width_ge split: list.splits if_splits)
qed

lemma decode3_width:
  assumes "in_bytes 224 239 a"
  shows "snd (decode3 a s) \<le> width (fst (decode3 a s))"
proof -
  have "scalar (fst (decode3 a s))" using assms by (rule decode3_scalar)
  moreover have "2048 \<le> (of_char a - 224) * 4096 + cont b * 64 + cont c" if "second3 a b" for b c
    using assms that by (cases "of_char a = (224 :: nat)")
      (auto simp: second3_def in_bytes_def cont_def split: if_splits)
  ultimately show ?thesis
    by (auto simp: decode3_def intro!: width_ge split: list.splits if_splits)
qed

lemma decode4_width:
  assumes "in_bytes 240 244 a"
  shows "snd (decode4 a s) \<le> width (fst (decode4 a s))"
proof -
  have "scalar (fst (decode4 a s))" using assms by (rule decode4_scalar)
  moreover have "65536 \<le> (of_char a - 240) * 262144 + cont b * 4096 + cont c * 64 + cont d"
    if "second4 a b" for b c d
    using assms that by (cases "of_char a = (240 :: nat)")
      (auto simp: second4_def in_bytes_def cont_def split: if_splits)
  ultimately show ?thesis
    by (auto simp: decode4_def intro!: width_ge split: list.splits if_splits)
qed

lemma width_ascii: "in_bytes 0 127 a \<Longrightarrow> width (of_char a) = 1"
  by (simp add: width_def runeLen_def in_bytes_def)

lemma decode_width: "s \<noteq> [] \<Longrightarrow> snd (decodeRune s) \<le> width (fst (decodeRune s))"
proof (cases s)
  case (Cons a t)
  then show ?thesis
    by (simp add: decodeRune.simps(2) decode2_width decode3_width decode4_width width_ascii)
qed simp

lemma raw_bytes_le: "length s \<le> sum_list (map width (rangeRunes s))"
proof (induction s rule: rangeRunes.induct)
  case (1 s)
  show ?case
  proof (cases "s = []")
    case False
    then show ?thesis
      using 1 decode_width [OF False] by (subst rangeRunes.simps) simp
  qed simp
qed

lemma settles_raw:
  "\<exists>r. runs (preflight_raw parent) r \<and>
    (case r of Inl e \<Rightarrow> (\<exists>i. e = Failed (PlanningByteCeiling i)) \<and> ceiling < int (normalized_bytes parent)
     | Inr _ \<Rightarrow> True)"
proof -
  define g where "g i s raw = (if ceiling - int raw < int (length (sec_text s))
      then Inl (Failed (PlanningByteCeiling i)) else Inr (raw + length (sec_text s)))" for i and s :: chunk_section and raw :: nat
  have run: "runs (preflight_raw parent) (fold_until (\<lambda>(i, s). g i s) (enumerate 0 (par_sections parent)) 0)"
    unfolding preflight_raw_def g_def
    by (rule runs_poll_loop) (rule runs_check, rule runs_ret)
  have "case fold_until (\<lambda>(i, s). g i s) (enumerate j ss) raw of
      Inl e \<Rightarrow> (\<exists>i. e = Failed (PlanningByteCeiling i)) \<and>
        ceiling < int (raw + sum_list (map (\<lambda>s. length (sec_text s)) ss))
    | Inr _ \<Rightarrow> True" for j ss and raw :: nat
  proof (induction ss arbitrary: j raw)
    case (Cons s ss)
    have step: "fold_until (\<lambda>(i, s). g i s) (enumerate j (s # ss)) raw =
        (if ceiling - int raw < int (length (sec_text s)) then Inl (Failed (PlanningByteCeiling j))
         else fold_until (\<lambda>(i, s). g i s) (enumerate (Suc j) ss) (raw + length (sec_text s)))"
      by (simp add: g_def)
    show ?case
      unfolding step using Cons.IH [where j = "Suc j" and raw = "raw + length (sec_text s)"]
      by (cases "fold_until (\<lambda>(i, s). g i s) (enumerate (Suc j) ss) (raw + length (sec_text s))")
        (auto simp: add.assoc)
  qed simp
  from this [of 0 "par_sections parent" 0] run
  have "runs (preflight_raw parent) (fold_until (\<lambda>(i, s). g i s) (enumerate 0 (par_sections parent)) 0) \<and>
     (case fold_until (\<lambda>(i, s). g i s) (enumerate 0 (par_sections parent)) 0 of
      Inl e \<Rightarrow> (\<exists>i. e = Failed (PlanningByteCeiling i)) \<and>
        ceiling < int (sum_list (map (\<lambda>s. length (sec_text s)) (par_sections parent)))
    | Inr _ \<Rightarrow> True)" by (simp only: add_0)
  moreover have "sum_list (map (\<lambda>s. length (sec_text s)) (par_sections parent)) \<le> normalized_bytes parent"
    unfolding normalized_bytes_def section_bytes_def by (rule sum_list_mono) (rule raw_bytes_le)
  ultimately show ?thesis
    by (intro exI [of _ "fold_until (\<lambda>(i, s). g i s) (enumerate 0 (par_sections parent)) 0"])
      (auto split: sum.splits)
qed

lemma preflight_spec:
  assumes "0 \<le> limit"
  shows "\<exists>r. runs (occurrenceLimitPreflight parent limit) r \<and> (case r of
      Inl e \<Rightarrow> (\<exists>i. e = Failed (PlanningByteCeiling i)) \<and> ceiling < int (normalized_bytes parent)
    | Inr (over, n) \<Rightarrow> if over then limit < int (lower_bound parent)
        else int (lower_bound parent) \<le> limit \<and> n = normalized_bytes parent)"
proof -
  obtain raw where raw: "runs (preflight_raw parent) raw" "case raw of
      Inl e \<Rightarrow> (\<exists>i. e = Failed (PlanningByteCeiling i)) \<and> ceiling < int (normalized_bytes parent)
    | Inr _ \<Rightarrow> True" using settles_raw by blast
  show ?thesis
  proof (cases raw)
    case (Inl e)
    then show ?thesis
      using raw by (intro exI [of _ "Inl e"]) (auto simp: occurrenceLimitPreflight_def intro: runs_then_error)
  next
    case (Inr n)
    let ?f = "fold_return (section_step limit) (enumerate 0 (par_sections parent)) (0, 0)"
    have res: "preflight_result limit (normalized_bytes parent) (lower_bound parent) ?f
        (\<lambda>t. t = (normalized_bytes parent, lower_bound parent))"
      using sections_result [of "(0, 0)" limit "par_sections parent" 0] assms
      by (simp add: normalized_bytes_def lower_bound_def)
    have "runs (for_return (preflight_section limit) (enumerate 0 (par_sections parent)) (0, 0)) ?f"
      by (rule runs_for_return) (rule runs_preflight_section)
    note bind = runs_bind [OF this, of "\<lambda>r. case r of Inl v \<Rightarrow> ret v | Inr s \<Rightarrow> andThen poll (\<lambda>_. ret (False, fst s))"
        "\<lambda>r. Inr (case r of Inl v \<Rightarrow> v | Inr s \<Rightarrow> (False, fst s))"]
    have "runs (occurrenceLimitPreflight parent limit)
        (case ?f of Inl e \<Rightarrow> Inl e | Inr r \<Rightarrow> Inr (case r of Inl v \<Rightarrow> v | Inr s \<Rightarrow> (False, fst s)))"
      unfolding occurrenceLimitPreflight_def
      by (rule runs_then, rule raw(1) [unfolded Inr], rule bind)
        (auto intro: runs_ret runs_then [OF runs_poll] split: sum.split)
    then show ?thesis
      using res
      by (intro exI [of _ "case ?f of Inl e \<Rightarrow> Inl e | Inr r \<Rightarrow> Inr (case r of Inl v \<Rightarrow> v | Inr s \<Rightarrow> (False, fst s))"])
        (auto simp: preflight_result_def split: sum.splits)
  qed
qed

section \<open>No sum wraps around\<close>

text \<open>The sections of a parent that is not far larger than any memory are planned without a panic.\<close>

lemma runes_le_bytes: "scalars rs \<Longrightarrow> length rs \<le> sum_list (map width rs)"
  by (induction rs) (auto simp: scalars_def dest: width_bounds(1))

lemma sections_fit:
  assumes "options_ok opts" "int (normalized_bytes parent) + MaxRunes opts \<le> int64_max"
  shows "list_all (section_fits opts) (normalized_sections parent)"
proof -
  have "\<not> overflows (rangeRunes (sec_text s)) opts" if "s \<in> set (par_sections parent)" for s
  proof
    let ?rs = "rangeRunes (sec_text s)"
    assume over: "overflows ?rs opts"
    have rs: "scalars ?rs" by (simp add: scalars_iff rangeRunes_scalar)
    have "length ?rs \<le> section_bytes s" using runes_le_bytes [OF rs] by (simp add: section_bytes_def)
    also have "\<dots> \<le> normalized_bytes parent"
      unfolding normalized_bytes_def by (rule member_le_sum_list) (use that in auto)
    finally show False using overflows_long [OF rs assms(1) over] assms(2) by linarith
  qed
  then show ?thesis
    by (simp add: list_all_iff section_fits_def normalized_sections_def range_normalized_section)
qed


end
