(* ===== verification/ChunkExamples.thy ===== *)
theory ChunkExamples
  imports ChunkPreflight
begin

text \<open>A concrete parent on which the properties of the chunker are applied: one section of text that
  starts and ends in white space.\<close>

definition example_parent :: parent where
  "example_parent = \<lparr>par_kind = ''item'', par_source_key = ''x:1'', par_content_hash = ''h'',
     par_title = ''T'', par_source_type = ''x'', par_author = ''a'',
     par_sections = [\<lparr>sec_key = ''item:text'', sec_role = ''raw'', sec_heading = ''T'',
       sec_text = '' Hello.  Bye. '', sec_derived = False\<rparr>]\<rparr>"

lemma example_metadata: "metadata_ok example_parent"
  by (simp add: metadata_ok_def example_parent_def TrimSpace_visible visible_def)

lemma example_bytes: "normalized_bytes example_parent = 14"
  by (simp add: normalized_bytes_def section_bytes_def example_parent_def range_ascii in_bytes_def
      width_def runeLen_def)

lemma default_sizes: "valid_sizes DefaultOptions" "options_ok DefaultOptions"
  by (simp_all add: valid_sizes_def options_ok_def)

lemma example_planning: "planning_ok example_parent DefaultOptions (int V3MaximumPlanningInputUTF8Bytes)"
proof -
  have "list_all (section_fits DefaultOptions) (normalized_sections example_parent)"
    by (rule sections_fit) (simp_all add: default_sizes example_bytes int64_max_def)
  then show ?thesis
    by (simp add: planning_ok_def checks_ok_def example_metadata default_sizes example_bytes)
      (simp add: example_parent_def V3MaximumPlanningSections_def V3MaximumPlanningInputUTF8Bytes_def)
qed

end
