(* ===== verification/ChunkProps.thy ===== *)
theory ChunkProps
  imports ChunkExamples
begin

text \<open>
  Properties of the chunk planner and of the prepared plan: planning returns under every context,
  the windows partition the text within both limits, the capped count is exact, and a prepared
  plan is accepted by its parser.
\<close>

section \<open>The planner\<close>

lemma chunkSectionRunes_windows:
  assumes "scalars rs" "options_ok opts"
  shows "chunkSectionRunesV3 rs opts c = Some (if overflows rs opts then Inl Panicked else Inr (section_windows rs opts), c)"
  unfolding chunkSectionRunesV3_def runs_background [OF runs_section_windows [OF assms]] by simp

lemma runs_chunkSectionRunes:
  assumes "scalars rs" "options_ok opts"
  shows "runs (chunkSectionRunesV3 rs opts) (if overflows rs opts then Inl Panicked else Inr (section_windows rs opts))"
  by (rule runsI) (simp add: chunkSectionRunes_windows [OF assms] outcome_now)

lemma runs_prepare_plan:
  assumes "\<And>rs. scalars rs \<Longrightarrow> options_ok opts \<Longrightarrow>
    runs (planner rs) (if overflows rs opts then Inl Panicked else Inr (section_windows rs opts))"
  shows "planning_ok parent opts byteLimit \<Longrightarrow>
      runs (prepareStreamWithPlanner parent opts limit byteLimit planner)
        (limited limit (int (occurrence_count parent opts)) (plan_of parent opts))"
    "\<not> planning_ok parent opts byteLimit \<Longrightarrow>
      \<exists>e. runs (prepareStreamWithPlanner parent opts limit byteLimit planner) (Inl e)"
    "\<not> checks_ok parent opts byteLimit \<Longrightarrow>
      \<exists>e. runs (prepareStreamWithPlanner parent opts limit byteLimit planner) (Inl (Failed e))"
proof -
  assume "planning_ok parent opts byteLimit"
  from runs_bind [OF runs_prepare_session(1) [OF assms this], of limit "\<lambda>session. ret (ses_plan session)"
      "\<lambda>session. Inr (ses_plan session)", OF _ _ runs_ret]
  show "runs (prepareStreamWithPlanner parent opts limit byteLimit planner)
        (limited limit (int (occurrence_count parent opts)) (plan_of parent opts))"
    unfolding prepareStreamWithPlanner_def by (auto simp: limited_def session_of_def split: if_splits)
next
  assume "\<not> planning_ok parent opts byteLimit"
  from runs_prepare_session(2) [OF assms this, of limit]
  show "\<exists>e. runs (prepareStreamWithPlanner parent opts limit byteLimit planner) (Inl e)"
    unfolding prepareStreamWithPlanner_def by (auto intro: runs_then_error)
next
  assume "\<not> checks_ok parent opts byteLimit"
  from runs_prepare_session(3) [OF assms this, of limit]
  show "\<exists>e. runs (prepareStreamWithPlanner parent opts limit byteLimit planner) (Inl (Failed e))"
    unfolding prepareStreamWithPlanner_def by (auto intro: runs_then_error)
qed

lemma runs_PrepareStreamContext:
  shows "planning_ok parent opts (int V3MaximumPlanningInputUTF8Bytes) \<Longrightarrow>
      runs (PrepareStreamContext parent opts limit)
        (limited limit (int (occurrence_count parent opts)) (plan_of parent opts))"
    "\<not> planning_ok parent opts (int V3MaximumPlanningInputUTF8Bytes) \<Longrightarrow>
      \<exists>e. runs (PrepareStreamContext parent opts limit) (Inl e)"
    "\<not> checks_ok parent opts (int V3MaximumPlanningInputUTF8Bytes) \<Longrightarrow>
      \<exists>e. runs (PrepareStreamContext parent opts limit) (Inl (Failed e))"
  unfolding PrepareStreamContext_def by (rule runs_prepare_plan, rule runs_section_windows, assumption+)+

lemma PrepareStreamContext_runs:
  "\<exists>r. runs (PrepareStreamContext parent opts limit) r \<and>
     (r = Inl Panicked \<longrightarrow> int64_max < int V3MaximumPlanningInputUTF8Bytes + MaxRunes opts)"
proof (cases "checks_ok parent opts (int V3MaximumPlanningInputUTF8Bytes)")
  case False
  then show ?thesis using runs_PrepareStreamContext(3) [of parent opts limit] by blast
next
  case True
  then have sizes: "options_ok opts" "normalized_bytes parent \<le> V3MaximumPlanningInputUTF8Bytes"
    by (auto simp: checks_ok_def valid_sizes_def V3MaximumPlanningInputUTF8Bytes_def)
  show ?thesis
  proof (cases "int64_max < int V3MaximumPlanningInputUTF8Bytes + MaxRunes opts")
    case True
    then show ?thesis using runs_PrepareStreamContext(1,2) [of parent opts limit] by blast
  next
    case False
    then have "int (normalized_bytes parent) + MaxRunes opts \<le> int64_max" using sizes(2) by linarith
    then have "planning_ok parent opts (int V3MaximumPlanningInputUTF8Bytes)"
      using True sections_fit [OF sizes(1)] by (simp add: planning_ok_def)
    moreover have "limited limit (int (occurrence_count parent opts)) (plan_of parent opts) \<noteq> Inl Panicked"
      by (simp add: limited_def)
    ultimately show ?thesis using runs_PrepareStreamContext(1) [of parent opts limit] by blast
  qed
qed

text \<open>C26. Planning always ends, for every parent, every option and every context: the loop that
  fills the gaps between anchors ends whenever it is reached. It ends in a plan or an error; only with a
  \<open>MaxRunes\<close> within 64 MiB of the largest \<open>int\<close> may it panic, since \<open>start + MaxRunes\<close> can then wrap around. A
  context can only replace the result by its error; a plan made under a context that is not cancelled is the plan made
  without one.\<close>

theorem planning_returns_under_any_context:
  "\<exists>r. PrepareStreamContext parent opts limit background = Some (r, background) \<and>
     (r = Inl Panicked \<longrightarrow> int64_max < int V3MaximumPlanningInputUTF8Bytes + MaxRunes opts) \<and>
     (\<exists>c'. PrepareStreamContext parent opts limit c = Some (r, c') \<or>
       c \<noteq> background \<and> PrepareStreamContext parent opts limit c = Some (Inl Canceled, c'))"
proof -
  obtain r where r: "runs (PrepareStreamContext parent opts limit) r"
      "r = Inl Panicked \<longrightarrow> int64_max < int V3MaximumPlanningInputUTF8Bytes + MaxRunes opts"
    using PrepareStreamContext_runs by blast
  from runsD [OF r(1), of c] runs_background [OF r(1)] r(2) show ?thesis
    unfolding ctx_outcome_def background_def by blast
qed

theorem planning_returns_under_any_context_witness:
  "\<exists>r. PrepareStreamContext example_parent DefaultOptions 0 background = Some (r, background) \<and> r \<noteq> Inl Panicked"
proof -
  have "\<not> int64_max < int V3MaximumPlanningInputUTF8Bytes + MaxRunes DefaultOptions"
    by (simp add: int64_max_def V3MaximumPlanningInputUTF8Bytes_def)
  then show ?thesis
    using planning_returns_under_any_context [of example_parent DefaultOptions 0 background] by blast
qed

lemma covers_le: "covers a n ws \<Longrightarrow> a \<le> n"
  by (induction ws arbitrary: a) (auto intro: less_imp_le dest: less_le_trans)

lemma slice_split: "a \<le> b \<Longrightarrow> b \<le> n \<Longrightarrow> slice_of a n rs = slice_of a b rs @ slice_of b n rs"
  using take_add [of "b - a" "n - b" "drop a rs"] by (simp add: slice_of_def)

lemma covers_concat:
  "covers a n ws \<Longrightarrow> concat (map (\<lambda>w. slice_of (win_start w) (win_end w) rs) ws) = slice_of a n rs"
proof (induction ws arbitrary: a)
  case (Cons w ws)
  then have "slice_of a n rs = slice_of a (win_end w) rs @ slice_of (win_end w) n rs"
    by (intro slice_split) (auto dest: covers_le)
  then show ?case using Cons by simp
qed (simp add: slice_of_def)

lemma slice_bytes:
  assumes "scalars rs" "a \<le> b" "b \<le> length rs"
  shows "length (encodeRunes (slice_of a b rs)) = byte_span rs a b"
proof -
  have "\<forall>r \<in> set (slice_of a b rs). scalar r"
    using assms(1) by (auto simp: scalars_iff slice_of_def dest: in_set_takeD in_set_dropD)
  then show ?thesis
    using assms by (simp add: length_encodeRunes byte_span_def byteOffsets_diff slice_of_def)
qed

text \<open>C3. Chunking a section loses nothing and respects both limits: the windows are consecutive and
  their runes, put together, are the runes of the text; each window is non-empty, has at most
  \<open>MaxRunes\<close> runes and encodes to at most 1800 bytes, whatever the text, malformed UTF-8 included. The one other way it can
  end is a panic, and that only when the length of the text and \<open>MaxRunes\<close> add up to more than an \<open>int\<close> holds.\<close>

theorem section_windows_partition_text:
  assumes "0 < TargetRunes opts" "TargetRunes opts \<le> MaxRunes opts"
  shows "\<exists>r. chunkSectionV3 s opts c = Some (r, c) \<and> (case r of
      Inr ws \<Rightarrow> concat (map (\<lambda>w. slice_of (win_start w) (win_end w) (rangeRunes s)) ws) = rangeRunes s \<and>
        list_all (\<lambda>w. win_start w < win_end w \<and> int (win_end w - win_start w) \<le> MaxRunes opts \<and>
          length (encodeRunes (slice_of (win_start w) (win_end w) (rangeRunes s))) \<le> MaxUTF8Bytes) ws
    | Inl e \<Rightarrow> e = Panicked \<and> int64_max < int (length (rangeRunes s)) + MaxRunes opts)"
proof -
  let ?rs = "rangeRunes s"
  have rs: "scalars ?rs" by (simp add: scalars_iff rangeRunes_scalar)
  have opts: "options_ok opts" using assms by (simp add: options_ok_def)
  have ws: "chunkSectionV3 s opts c = Some (if overflows ?rs opts then Inl Panicked else Inr (section_windows ?rs opts), c)"
    by (simp add: chunkSectionV3_def chunkSectionRunes_windows [OF rs opts])
  have "slice_of 0 (length ?rs) ?rs = ?rs" by (simp add: slice_of_def)
  with covers_concat [OF section_windows_cover [OF rs opts], of ?rs]
  have "concat (map (\<lambda>w. slice_of (win_start w) (win_end w) ?rs) (section_windows ?rs opts)) = ?rs"
    by simp
  moreover have "win_start w < win_end w \<and> int (win_end w - win_start w) \<le> MaxRunes opts \<and>
      length (encodeRunes (slice_of (win_start w) (win_end w) ?rs)) \<le> MaxUTF8Bytes"
    if "w \<in> set (section_windows ?rs opts)" for w
    using section_windows_fit [OF rs opts that]
    by (auto simp: fits_window_def slice_bytes [OF rs] less_imp_le)
  ultimately show ?thesis using overflows_long [OF rs opts] by (simp add: ws list_all_iff)
qed

theorem section_windows_partition_text_witness:
  "\<exists>ws. chunkSectionV3 ''One. Two.'' DefaultOptions background = Some (Inr ws :: unit failure + window list, background) \<and>
     concat (map (\<lambda>w. slice_of (win_start w) (win_end w) (rangeRunes ''One. Two.'')) ws) = rangeRunes ''One. Two.''"
proof -
  have "length (rangeRunes ''One. Two.'') = 9" by (simp add: range_ascii in_bytes_def)
  then have "\<not> int64_max < int (length (rangeRunes ''One. Two.'')) + MaxRunes DefaultOptions"
    by (simp add: int64_max_def)
  moreover obtain r :: "unit failure + window list" where r: "chunkSectionV3 ''One. Two.'' DefaultOptions background = Some (r, background)"
      "case r of
        Inr ws \<Rightarrow> concat (map (\<lambda>w. slice_of (win_start w) (win_end w) (rangeRunes ''One. Two.'')) ws) = rangeRunes ''One. Two.'' \<and>
          list_all (\<lambda>w. win_start w < win_end w \<and> int (win_end w - win_start w) \<le> MaxRunes DefaultOptions \<and>
            length (encodeRunes (slice_of (win_start w) (win_end w) (rangeRunes ''One. Two.''))) \<le> MaxUTF8Bytes) ws
      | Inl e \<Rightarrow> e = Panicked \<and> int64_max < int (length (rangeRunes ''One. Two.'')) + MaxRunes DefaultOptions"
    using section_windows_partition_text [of DefaultOptions "''One. Two.''" background] by auto
  ultimately show ?thesis by (cases r) auto
qed

section \<open>The capped count\<close>

lemma planning_ok_capped:
  assumes "planning_ok parent opts (int V3MaximumPlanningInputUTF8Bytes)"
  shows "runs (validateStreamingMetadataContext parent opts V3MaximumPlanningSections) (Inr ())"
    "normalized_bytes parent \<le> V3MaximumPlanningInputUTF8Bytes" "options_ok opts"
proof -
  show "normalized_bytes parent \<le> V3MaximumPlanningInputUTF8Bytes" "options_ok opts"
    using assms by (auto simp: planning_ok_def checks_ok_def valid_sizes_def V3MaximumPlanningInputUTF8Bytes_def)
  show "runs (validateStreamingMetadataContext parent opts V3MaximumPlanningSections) (Inr ())"
    using settles_metadata [of parent opts V3MaximumPlanningSections] assms
    by (auto simp: planning_ok_def checks_ok_def settles_def V3MaximumPlanningInputUTF8Bytes_def)
qed

lemma preflight_runs:
  assumes "planning_ok parent opts (int V3MaximumPlanningInputUTF8Bytes)" "0 \<le> limit"
  obtains (over) n where "runs (occurrenceLimitPreflight parent limit) (Inr (True, n))"
      "limit < int (occurrence_count parent opts)" "limit < int (lower_bound parent)"
    | (within) "runs (occurrenceLimitPreflight parent limit) (Inr (False, normalized_bytes parent))"
      "int (lower_bound parent) \<le> limit"
proof -
  note ok = planning_ok_capped [OF assms(1)]
  obtain r where r: "runs (occurrenceLimitPreflight parent limit) r" "case r of
      Inl e \<Rightarrow> (\<exists>i. e = Failed (PlanningByteCeiling i)) \<and> ceiling < int (normalized_bytes parent)
    | Inr (over, n) \<Rightarrow> if over then limit < int (lower_bound parent)
        else int (lower_bound parent) \<le> limit \<and> n = normalized_bytes parent"
    using preflight_spec [OF assms(2)] by blast
  then obtain over n where "r = Inr (over, n)" using ok(2) by (cases r) auto
  then show ?thesis
    using r that lower_bound_sound [OF ok(3), of parent] by (cases over) auto
qed

text \<open>The planner behind the preflight, on a parent the exact planner accepts.\<close>

lemma runs_capped:
  assumes ok: "planning_ok parent opts (int V3MaximumPlanningInputUTF8Bytes)" and "0 < limit"
  shows "runs (PrepareStreamCappedContext parent opts limit)
      (limited limit (int (occurrence_count parent opts)) (plan_of parent opts)) \<or>
    V3MaximumExactPlanningInputUTF8Bytes < normalized_bytes parent \<and>
    runs (PrepareStreamCappedContext parent opts limit)
      (Inl (Failed (ExactPlanningCeiling (normalized_bytes parent))))"
proof -
  note meta = planning_ok_capped [OF ok]
  note plan = runs_PrepareStreamContext(1) [OF ok, of limit]
  have start: "runs (PrepareStreamCappedContext parent opts limit) r"
    if "runs (andThen (occurrenceLimitPreflight parent limit) (\<lambda>(over, normalized).
       andThen (fail_if over (OccurrenceLimit (limit + 1) limit)) (\<lambda>_.
       andThen (fail_if (V3MaximumExactPlanningInputUTF8Bytes < normalized)
         (ExactPlanningCeiling normalized)) (\<lambda>_. PrepareStreamContext parent opts limit)))) r" for r
  proof -
    have "runs (fail_if (limit < 0) NegativeOccurrenceLimit) (Inr ())"
      using assms(2) by (simp add: fail_if_def runs_ret)
    moreover have "limit \<noteq> 0" using assms(2) by simp
    ultimately show ?thesis
      unfolding PrepareStreamCappedContext_def using that
      by (intro runs_then [of "fail_if (limit < 0) NegativeOccurrenceLimit"]
          runs_then [of "validateStreamingMetadataContext parent opts V3MaximumPlanningSections", OF meta(1)]) auto
  qed
  from ok order.strict_implies_order [OF assms(2)] show ?thesis
  proof (cases rule: preflight_runs)
    case (over n)
    then have "runs (PrepareStreamCappedContext parent opts limit) (Inl (Failed (OccurrenceLimit (limit + 1) limit)))"
      by (intro start runs_then [OF over(1)]) (simp add: fail_if_def runs_then_error [OF runs_fail])
    then show ?thesis using over assms(2) by (simp add: limited_def)
  next
    case within
    show ?thesis
    proof (cases "V3MaximumExactPlanningInputUTF8Bytes < normalized_bytes parent")
      case True
      then have "runs (PrepareStreamCappedContext parent opts limit)
          (Inl (Failed (ExactPlanningCeiling (normalized_bytes parent))))"
        by (intro start runs_then [OF within(1)])
          (simp add: fail_if_def, intro runs_then [OF runs_ret] runs_then_error [OF runs_fail])
      with True show ?thesis by simp
    next
      case False
      then have "runs (PrepareStreamCappedContext parent opts limit)
          (limited limit (int (occurrence_count parent opts)) (plan_of parent opts))"
        by (intro start runs_then [OF within(1)])
          (simp add: fail_if_def, intro runs_then [OF runs_ret] plan)
      then show ?thesis by simp
    qed
  qed
qed

lemma OccurrenceCount_plan [simp]: "OccurrenceCount (plan_of parent opts) = int (occurrence_count parent opts)"
  by (simp add: plan_of_def)

lemma runs_count:
  assumes ok: "planning_ok parent opts (int V3MaximumPlanningInputUTF8Bytes)" and "0 \<le> limit"
  shows "runs (CountOccurrencesCappedContext parent opts limit)
      (Inr (min (int (occurrence_count parent opts)) (limit + 1))) \<or>
    V3MaximumExactPlanningInputUTF8Bytes < normalized_bytes parent \<and>
    runs (CountOccurrencesCappedContext parent opts limit)
      (Inl (Failed (ExactPlanningCeiling (normalized_bytes parent))))"
proof -
  note meta = planning_ok_capped [OF ok]
  have nonneg: "runs (fail_if (limit < 0) NegativeOccurrenceLimit) (Inr ())"
    using assms(2) by (simp add: fail_if_def runs_ret)
  show ?thesis
  proof (cases "limit = 0")
    case True
    from ok assms(2) have "runs (andThen (occurrenceLimitPreflight parent 0) (\<lambda>(over, _). ret (if over then 1 else 0)))
        (Inr (min (int (occurrence_count parent opts)) 1))"
    proof (cases rule: preflight_runs)
      case (over n)
      then have "min (int (occurrence_count parent opts)) 1 = 1" using True by simp
      then show ?thesis using over True by (intro runs_then) (auto intro: runs_ret)
    next
      case within
      then have "occurrence_count parent opts = 0"
        using True by (intro lower_bound_zero meta(3)) simp
      then show ?thesis using within True by (intro runs_then) (auto intro: runs_ret)
    qed
    then have "runs (CountOccurrencesCappedContext parent opts limit)
        (Inr (min (int (occurrence_count parent opts)) (limit + 1)))"
      unfolding CountOccurrencesCappedContext_def using True
      by (intro runs_then [OF nonneg]) (auto intro: runs_then [OF meta(1)])
    then show ?thesis by simp
  next
    case False
    let ?h = "\<lambda>e. case e of OccurrenceLimit _ _ \<Rightarrow> Some (limit + 1) | _ \<Rightarrow> None"
    let ?m = "andThen (PrepareStreamCappedContext parent opts limit) (\<lambda>plan. ret (OccurrenceCount plan))"
    have start: "runs (CountOccurrencesCappedContext parent opts limit) r" if "runs (rescue ?h ?m) r" for r
      unfolding CountOccurrencesCappedContext_def using False that by (intro runs_then [OF nonneg]) simp
    from False assms(2) have pos: "0 < limit" by simp
    from runs_capped [OF ok pos] show ?thesis
    proof
      assume plan: "runs (PrepareStreamCappedContext parent opts limit)
        (limited limit (int (occurrence_count parent opts)) (plan_of parent opts))"
      have "runs ?m (limited limit (int (occurrence_count parent opts)) (int (occurrence_count parent opts)))"
        using runs_bind [OF plan, of "\<lambda>plan. ret (OccurrenceCount plan)" "\<lambda>plan. Inr (OccurrenceCount plan)", OF runs_ret]
        by (auto simp: limited_def split: if_splits)
      from start [OF runs_rescue [OF this, of ?h]] show ?thesis
        using pos by (cases "limit < int (occurrence_count parent opts)") (auto simp: limited_def min_absorb1 min_absorb2)
    next
      assume big: "V3MaximumExactPlanningInputUTF8Bytes < normalized_bytes parent \<and>
        runs (PrepareStreamCappedContext parent opts limit)
          (Inl (Failed (ExactPlanningCeiling (normalized_bytes parent))))"
      then have "runs ?m (Inl (Failed (ExactPlanningCeiling (normalized_bytes parent))))"
        by (intro runs_then_error) simp
      from start [OF runs_rescue [OF this, of ?h]] show ?thesis using big by simp
    qed
  qed
qed

lemma PrepareStreamContext_plan:
  assumes "PrepareStreamContext parent opts limit c = Some (Inr plan, c')"
  shows "planning_ok parent opts (int V3MaximumPlanningInputUTF8Bytes)" "plan = plan_of parent opts"
    "0 < limit \<Longrightarrow> int (occurrence_count parent opts) \<le> limit"
proof -
  show ok: "planning_ok parent opts (int V3MaximumPlanningInputUTF8Bytes)"
    using runs_PrepareStreamContext(2) [of parent opts limit] assms by (auto dest: runs_result)
  from runs_result [OF runs_PrepareStreamContext(1) [OF ok] assms]
  show "plan = plan_of parent opts" "0 < limit \<Longrightarrow> int (occurrence_count parent opts) \<le> limit"
    by (auto simp: limited_def split: if_splits)
qed

text \<open>C24. Counting with a cap is exact: for a parent the exact planner accepts, the capped count is the
  number of occurrences of the exact plan, or one above the limit when there are more. The preflight
  that avoids the plan never changes the answer; only a sparse input above the ceiling of 8 MiB is
  refused, and refused with that error.\<close>

theorem capped_count_is_exact:
  assumes "PrepareStreamContext parent opts 0 background = Some (Inr plan, background)" "0 \<le> limit"
  shows "CountOccurrencesCappedContext parent opts limit background =
      Some (Inr (min (OccurrenceCount plan) (limit + 1)), background) \<or>
    V3MaximumExactPlanningInputUTF8Bytes < normalized_bytes parent \<and>
    CountOccurrencesCappedContext parent opts limit background =
      Some (Inl (Failed (ExactPlanningCeiling (normalized_bytes parent))), background)"
proof -
  note plan = PrepareStreamContext_plan [OF assms(1)]
  from runs_count [OF plan(1) assms(2)] show ?thesis
    unfolding plan(2) OccurrenceCount_plan by (auto dest: runs_background)
qed

lemma example_plan:
  "PrepareStreamContext example_parent DefaultOptions 0 background =
    Some (Inr (plan_of example_parent DefaultOptions), background)"
  using runs_background [OF runs_PrepareStreamContext(1) [OF example_planning, of 0]]
  by (simp add: limited_def)

theorem capped_count_is_exact_witness:
  "CountOccurrencesCappedContext example_parent DefaultOptions 5 background =
     Some (Inr (min (OccurrenceCount (plan_of example_parent DefaultOptions)) 6), background)"
  using capped_count_is_exact [OF example_plan, of 5]
  by (simp add: example_bytes V3MaximumExactPlanningInputUTF8Bytes_def)

end
