(* ===== verification/ChunkResume.thy ===== *)
theory ChunkResume
  imports ChunkProps
begin

text \<open>
  Streaming from a durable cursor. The windows a stream still has to emit from a cursor are
  \<open>windows_left\<close>; a stream delivers a prefix of them and returns the cursor of the rest, so an
  interrupted stream that is resumed delivers every window once, in order. The sessions this
  is about are the well-formed ones, and both the planner and the parser return only those.
\<close>

section \<open>Well-formed sessions\<close>

fun linked :: "int \<Rightarrow> int \<Rightarrow> stream_window list \<Rightarrow> bool" where
  "linked a b [] = (a = b)"
| "linked a b (w # ws) = (StartBoundary w = a \<and> a < NextBoundary w \<and> linked (NextBoundary w) b ws)"

definition section_wf :: "chunk_section \<Rightarrow> stream_section \<Rightarrow> bool" where
  "section_wf s p \<longleftrightarrow> PlanKey p = sec_key s \<and> RuneCount p = int (length (rangeRunes (sec_text s))) \<and>
     (Windows p = [] \<or> linked 0 (RuneCount p) (Windows p)) \<and>
     list_all (\<lambda>w. StartBoundary w \<le> StartChar w \<and> StartChar w \<le> EndChar w \<and> EndChar w \<le> NextBoundary w \<and>
       0 \<le> StartByte w \<and> StartByte w \<le> EndByte w \<and> EndByte w \<le> int (length (sec_text s))) (Windows p)"

definition session_wf :: "stream_session \<Rightarrow> bool" where
  "session_wf ses \<longleftrightarrow> PlanVersion (ses_plan ses) = preparedStreamPlanVersion \<and>
     list_all2 section_wf (ses_sections ses) (PlanSections (ses_plan ses)) \<and>
     distinct (map sec_key (ses_sections ses)) \<and> [] \<notin> sec_key ` set (ses_sections ses) \<and>
     OccurrenceCount (ses_plan ses) = int (sum_list (map emitted (PlanSections (ses_plan ses))))"

lemma linked_bounds: "linked a b ws \<Longrightarrow> a \<le> b"
  by (induction ws arbitrary: a) (auto intro: order.trans less_imp_le)

lemma linked_append:
  "linked a b (xs @ ys) \<longleftrightarrow> (\<exists>m. linked a m xs \<and> linked m b ys)"
  by (induction xs arbitrary: a) auto

lemma linked_in: "linked a b ws \<Longrightarrow> w \<in> set ws \<Longrightarrow> a \<le> StartBoundary w \<and> StartBoundary w < NextBoundary w \<and> NextBoundary w \<le> b"
proof (induction ws arbitrary: a)
  case (Cons v vs)
  then show ?case
    using linked_bounds [of "NextBoundary v" b vs] by fastforce
qed simp

lemma linked_end: "linked a b ws \<Longrightarrow> linked a c ws \<Longrightarrow> b = c"
  by (induction ws arbitrary: a) auto

section \<open>What is left to emit\<close>

type_synonym stream_item = "nat \<times> stream_section \<times> stream_window"

definition section_items :: "nat \<Rightarrow> stream_section \<Rightarrow> int \<Rightarrow> stream_window list \<Rightarrow> stream_item list" where
  "section_items k p b ws = map (\<lambda>w. (k, p, w)) (filter (\<lambda>w. \<not> (StartBoundary w < b \<or> \<not> Emit w)) ws)"

fun items_from :: "nat \<Rightarrow> stream_section list \<Rightarrow> int \<Rightarrow> stream_item list" where
  "items_from k [] b = []"
| "items_from k (p # ps) b = section_items k p b (Windows p) @ items_from (Suc k) ps 0"

definition windows_left :: "stream_session \<Rightarrow> cursor \<Rightarrow> stream_item list option" where
  "windows_left ses cur =
     (case (if CursorKey cur \<noteq> [] then find_section (CursorKey cur) 0 (PlanSections (ses_plan ses)) else Some 0) of
        None \<Rightarrow> None
      | Some k \<Rightarrow> (case drop k (PlanSections (ses_plan ses)) of
          [] \<Rightarrow> Some []
        | p # ps \<Rightarrow> (case start_boundary cur True p of
            Inl _ \<Rightarrow> None | Inr b \<Rightarrow> Some (items_from k (p # ps) b))))"

definition item_cursor :: "stream_session \<Rightarrow> stream_item \<Rightarrow> cursor" where
  "item_cursor ses it = (case it of (k, p, w) \<Rightarrow> next_cursor (ses_sections ses) k p w)"

definition send_item :: "stream_session \<Rightarrow> ('s, 'x) emitter \<Rightarrow> stream_item \<Rightarrow> 's \<Rightarrow> 'x option \<times> 's" where
  "send_item ses emit it s = (case it of (k, p, w) \<Rightarrow>
     emit (window_chunk (ses_parent ses) k (ses_sections ses ! k) w)
       (window_occurrence (ses_sections ses ! k) w) s)"

definition send_all :: "stream_session \<Rightarrow> ('s, 'x) emitter \<Rightarrow> stream_item list \<Rightarrow> 's \<Rightarrow> 's" where
  "send_all ses emit its s = fold (\<lambda>it s. snd (send_item ses emit it s)) its s"

lemma send_all_simps [simp]:
  "send_all ses emit [] s = s"
  "send_all ses emit (it # its) s = send_all ses emit its (snd (send_item ses emit it s))"
  "send_all ses emit (xs @ ys) s = send_all ses emit ys (send_all ses emit xs s)"
  by (simp_all add: send_all_def)

definition cursor_after :: "stream_session \<Rightarrow> cursor \<Rightarrow> stream_item list \<Rightarrow> cursor" where
  "cursor_after ses cur its = (if its = [] then cur else item_cursor ses (last its))"

lemma cursor_after_simps [simp]:
  "cursor_after ses cur [] = cur"
  "cursor_after ses (item_cursor ses it) its = cursor_after ses cur (it # its)"
  "cursor_after ses (cursor_after ses cur xs) ys = cursor_after ses cur (xs @ ys)"
  by (simp_all add: cursor_after_def)

text \<open>A stream that stops early: it delivered \<open>its\<close> up to a point, and returns the cursor after it.\<close>

definition stopped ::
  "stream_session \<Rightarrow> ('s, 'x) emitter \<Rightarrow> cursor \<Rightarrow> stream_item list \<Rightarrow> 's \<Rightarrow> cursor \<Rightarrow> 'x stream_error \<Rightarrow> 's \<Rightarrow> bool" where
  "stopped ses emit cur its s at err t \<longleftrightarrow> (\<exists>sent rest. its = sent @ rest \<and>
     t = send_all ses emit sent s \<and> at = cursor_after ses cur sent \<and>
     (err = StreamCanceled \<or> (\<exists>x. err = EmitFailed x)))"

lemma stopped_now: "err = StreamCanceled \<Longrightarrow> stopped ses emit cur its s cur err s"
  unfolding stopped_def by (rule exI [of _ "[]"], rule exI [of _ its]) simp

lemma stopped_after:
  "send_item ses emit it s = (e, u) \<Longrightarrow> stopped ses emit cur (it # its) s (item_cursor ses it) (EmitFailed y) u"
  unfolding stopped_def by (rule exI [of _ "[it]"], rule exI [of _ its]) (simp add: cursor_after_def)

lemma stopped_append:
  "stopped ses emit (cursor_after ses cur xs) ys (send_all ses emit xs s) at err t \<Longrightarrow>
    stopped ses emit cur (xs @ ys) s at err t"
  unfolding stopped_def by (metis append.assoc cursor_after_simps(3) send_all_simps(3))

lemma stopped_prefix: "stopped ses emit cur xs s at err t \<Longrightarrow> stopped ses emit cur (xs @ ys) s at err t"
  unfolding stopped_def by (metis append.assoc)

lemma stream_windows_outcome:
  assumes "stream_windows ses k p b emit i ws cur s c = (r, t, d)"
  shows "case r of
      Inl (at, err) \<Rightarrow> stopped ses emit cur (section_items k p b ws) s at err t
    | Inr at \<Rightarrow> t = send_all ses emit (section_items k p b ws) s \<and>
        at = cursor_after ses cur (section_items k p b ws)"
  using assms
proof (induction ws arbitrary: i cur s c)
  case Nil
  then show ?case by (auto simp: section_items_def)
next
  case (Cons w ws)
  obtain x c1 where c1: "(if i mod 64 = 0 then ctx_err c else (False, c)) = (x, c1)" by force
  show ?case
  proof (cases x)
    case True
    then have "r = Inl (cur, StreamCanceled)" "t = s" using Cons.prems by (simp_all add: c1)
    then show ?thesis by (simp add: stopped_now)
  next
    case x: False
    show ?thesis
    proof (cases "StartBoundary w < b \<or> \<not> Emit w")
      case True
      then have "stream_windows ses k p b emit (Suc i) ws cur s c1 = (r, t, d)"
        using Cons.prems x by (simp add: c1)
      moreover have "section_items k p b (w # ws) = section_items k p b ws"
        using True by (simp add: section_items_def)
      ultimately show ?thesis using Cons.IH by metis
    next
      case False
      let ?it = "(k, p, w)"
      have items: "section_items k p b (w # ws) = ?it # section_items k p b ws"
        using False by (simp add: section_items_def)
      obtain e u where eu: "send_item ses emit ?it s = (e, u)" by force
      show ?thesis
      proof (cases e)
        case None
        then have "stream_windows ses k p b emit (Suc i) ws (item_cursor ses ?it) u c1 = (r, t, d)"
          using Cons.prems x False eu by (simp add: c1 send_item_def item_cursor_def Let_def)
        from Cons.IH [OF this] show ?thesis
        proof (cases r)
          case (Inl v)
          then show ?thesis
            using Cons.IH [OF \<open>stream_windows ses k p b emit (Suc i) ws (item_cursor ses ?it) u c1 = (r, t, d)\<close>]
              stopped_append [of ses emit cur "[?it]" "section_items k p b ws" s] eu
            by (auto simp: items cursor_after_def)
        qed (simp add: items eu)
      next
        case (Some y)
        then have "r = Inl (item_cursor ses ?it, EmitFailed y)" "t = u"
          using Cons.prems x False eu by (simp_all add: c1 send_item_def item_cursor_def Let_def)
        then show ?thesis
          by (simp add: items stopped_after [OF eu])
      qed
    qed
  qed
qed

lemma start_boundary_later [simp]: "start_boundary cur False p = Inr 0"
  by (simp add: start_boundary_def)

lemma stream_sections_outcome:
  assumes "stream_sections ses cursor emit first k ps cur s c = (at, fin, err, t)"
    "ps \<noteq> [] \<Longrightarrow> start_boundary cursor first (hd ps) = Inr b"
  shows "if fin then err = None \<and> t = send_all ses emit (items_from k ps b) s
    else \<exists>e. err = Some e \<and> stopped ses emit cur (items_from k ps b) s at e t"
  using assms
proof (induction ps arbitrary: first k cur s c b)
  case Nil
  then show ?case by (auto simp: stopped_def split: if_splits)
next
  case (Cons p ps)
  obtain x c1 where c1: "ctx_err c = (x, c1)" by force
  show ?case
  proof (cases x)
    case True
    then show ?thesis using Cons.prems by (auto simp: c1 intro: stopped_now)
  next
    case False
    obtain r u d where w: "stream_windows ses k p b emit 0 (Windows p) cur s c1 = (r, u, d)"
      by (metis prod_cases3)
    note out = stream_windows_outcome [OF w]
    show ?thesis
    proof (cases r)
      case (Inl v)
      then show ?thesis
        using Cons.prems False out w
        by (cases v) (auto simp: c1 intro: stopped_prefix)
    next
      case (Inr cur1)
      then have "stream_sections ses cursor emit False (Suc k) ps cur1 u d = (at, fin, err, t)"
        using Cons.prems False w by (simp add: c1)
      from Cons.IH [OF this, of 0] out Inr show ?thesis
        by (auto intro: stopped_append split: if_splits)
    qed
  qed
qed

section \<open>The cursor of an item\<close>

lemma filter_split:
  "filter P ws = xs @ y # ys \<Longrightarrow> \<exists>us vs. ws = us @ y # vs \<and> P y \<and> filter P vs = ys"
proof (induction ws arbitrary: xs)
  case (Cons w ws)
  show ?case
  proof (cases "P w \<and> xs = []")
    case True
    then show ?thesis using Cons.prems by (intro exI [of _ "[]"] exI [of _ ws]) auto
  next
    case False
    then obtain xs1 where "filter P ws = xs1 @ y # ys"
      using Cons.prems by (auto simp: Cons_eq_append_conv split: if_splits)
    from Cons.IH [OF this] show ?thesis by (metis append_Cons)
  qed
qed simp

lemma section_items_after:
  assumes "linked a n ws" "section_items k p b ws = pre @ (o1, q, w) # post"
  shows "o1 = k" "q = p" "w \<in> set ws"
    "section_items k p (NextBoundary w) ws = post"
    "NextBoundary w = n \<or> list_ex (\<lambda>v. StartBoundary v = NextBoundary w) ws"
    "NextBoundary w = n \<Longrightarrow> post = []"
proof -
  let ?P = "\<lambda>b w. \<not> (StartBoundary w < b \<or> \<not> Emit w)"
  from assms(2) obtain pre1 post1 where f: "filter (?P b) ws = pre1 @ w # post1"
    and post: "post = map (\<lambda>w. (k, p, w)) post1" and "o1 = k" "q = p"
    unfolding section_items_def by (auto simp: map_eq_append_conv map_eq_Cons_conv)
  then show "o1 = k" "q = p" by simp_all
  from filter_split [OF f] obtain us vs where ws: "ws = us @ w # vs"
    and vs: "filter (?P b) vs = post1" and w: "?P b w" by blast
  then show "w \<in> set ws" by simp
  from assms(1) obtain m where us: "linked a m us" and tail: "StartBoundary w = m" "m < NextBoundary w"
    "linked (NextBoundary w) n vs" unfolding ws linked_append by auto
  have "filter (?P (NextBoundary w)) us = []"
    using linked_in [OF us] tail(1,2) by (force simp: filter_empty_conv)
  moreover have "filter (?P (NextBoundary w)) vs = filter (?P b) vs"
    using linked_in [OF tail(3)] tail(1,2) w by (intro filter_cong) force+
  ultimately show "section_items k p (NextBoundary w) ws = post"
    using tail(1,2) vs by (simp add: section_items_def ws post)
  show "NextBoundary w = n \<or> list_ex (\<lambda>v. StartBoundary v = NextBoundary w) ws"
    using tail(3) by (cases vs) (auto simp: ws)
  show "post = []" if "NextBoundary w = n"
    using tail(3) vs that linked_bounds by (cases vs) (fastforce simp: post)+
qed

lemma find_section_nth:
  "distinct (map PlanKey ps) \<Longrightarrow> k < length ps \<Longrightarrow> find_section (PlanKey (ps ! k)) i ps = Some (i + k)"
proof (induction ps arbitrary: i k)
  case (Cons p ps)
  show ?case
  proof (cases k)
    case (Suc j)
    then have "PlanKey p \<noteq> PlanKey (ps ! j)" using Cons.prems nth_mem [of j ps] by force
    then show ?thesis using Cons Suc by simp
  qed simp
qed simp

lemma session_wf_sections:
  assumes "session_wf ses"
  shows "map PlanKey (PlanSections (ses_plan ses)) = map sec_key (ses_sections ses)"
    "length (ses_sections ses) = length (PlanSections (ses_plan ses))"
    "k < length (PlanSections (ses_plan ses)) \<Longrightarrow>
      section_wf (ses_sections ses ! k) (PlanSections (ses_plan ses) ! k)"
proof -
  have w: "list_all2 section_wf (ses_sections ses) (PlanSections (ses_plan ses))"
    using assms by (simp add: session_wf_def)
  then show "length (ses_sections ses) = length (PlanSections (ses_plan ses))"
    by (rule list_all2_lengthD)
  then show "map PlanKey (PlanSections (ses_plan ses)) = map sec_key (ses_sections ses)"
    using list_all2_nthD2 [OF w] by (intro nth_equalityI) (auto simp: section_wf_def)
  show "section_wf (ses_sections ses ! k) (PlanSections (ses_plan ses) ! k)"
    if "k < length (PlanSections (ses_plan ses))" using list_all2_nthD2 [OF w that] .
qed

text \<open>A cursor at the start of a window, or at the end, of section \<open>k\<close>.\<close>

lemma windows_left_at:
  assumes wf: "session_wf ses" and k: "k < length (PlanSections (ses_plan ses))"
    and p: "p = PlanSections (ses_plan ses) ! k"
    and b: "0 \<le> b" "b \<le> RuneCount p" "b = 0 \<or> b = RuneCount p \<or> list_ex (\<lambda>w. StartBoundary w = b) (Windows p)"
  shows "windows_left ses \<lparr>CursorKey = sec_key (ses_sections ses ! k), CursorBoundary = b\<rparr> =
    Some (items_from k (drop k (PlanSections (ses_plan ses))) b)"
proof -
  let ?ps = "PlanSections (ses_plan ses)" and ?key = "sec_key (ses_sections ses ! k)"
  note s = session_wf_sections [OF wf]
  have key: "PlanKey (?ps ! k) = ?key" using s(3) [OF k] by (simp add: section_wf_def)
  have "?key \<noteq> []" using wf k s(2) nth_mem [of k "ses_sections ses"]
    by (metis image_eqI session_wf_def)
  moreover have "find_section ?key 0 ?ps = Some k"
    using find_section_nth [of ?ps k 0] wf k s(1) by (simp add: session_wf_def key)
  moreover have "drop k ?ps = p # drop (Suc k) ?ps" using k p by (simp add: Cons_nth_drop_Suc)
  ultimately show ?thesis using b by (auto simp: windows_left_def start_boundary_def Let_def)
qed

lemma windows_left_after:
  assumes wf: "session_wf ses"
  shows "items_from k (drop k (PlanSections (ses_plan ses))) b = pre @ it # post \<Longrightarrow>
    windows_left ses (item_cursor ses it) = Some post"
proof (induction "length (PlanSections (ses_plan ses)) - k" arbitrary: k b pre)
  case (Suc n)
  let ?ps = "PlanSections (ses_plan ses)"
  from Suc.hyps(2) have k: "k < length ?ps" by simp
  define p where "p = ?ps ! k"
  have drop: "drop k ?ps = p # drop (Suc k) ?ps" using k by (simp add: p_def Cons_nth_drop_Suc)
  note s = session_wf_sections [OF wf]
  have p: "section_wf (ses_sections ses ! k) p" unfolding p_def by (rule s(3) [OF k])
  from Suc.prems have "section_items k p b (Windows p) @ items_from (Suc k) (drop (Suc k) ?ps) 0 = pre @ it # post"
    by (simp add: drop)
  then consider (here) post1 where "section_items k p b (Windows p) = pre @ it # post1"
      "post = post1 @ items_from (Suc k) (drop (Suc k) ?ps) 0"
    | (later) pre2 where "items_from (Suc k) (drop (Suc k) ?ps) 0 = pre2 @ it # post"
    by (fastforce simp: append_eq_append_conv2 Cons_eq_append_conv append_eq_Cons_conv)
  then show ?case
  proof cases
    case later
    then show ?thesis using Suc.hyps by (intro Suc.hyps(1) [of "Suc k" 0 pre2]) simp_all
  next
    case here
    obtain o1 q w where it: "it = (o1, q, w)" by (metis prod_cases3)
    have linked: "linked 0 (RuneCount p) (Windows p)"
      using p here(1) by (auto simp: section_wf_def section_items_def)
    note at = section_items_after [OF linked here(1) [unfolded it]]
    note w = linked_in [OF linked at(3)]
    show ?thesis
    proof (cases "NextBoundary w = RuneCount p \<and> k + 1 < length (ses_sections ses)")
      case True
      then have "0 \<le> RuneCount (?ps ! Suc k)"
        using s(2) s(3) [of "Suc k"] by (simp add: section_wf_def)
      then show ?thesis
        using windows_left_at [OF wf, of "Suc k"] True s(2) here(2) at
        by (simp add: it item_cursor_def next_cursor_def)
    next
      case False
      then have "item_cursor ses it = \<lparr>CursorKey = sec_key (ses_sections ses ! k), CursorBoundary = NextBoundary w\<rparr>"
        using at(1,2) by (auto simp: it item_cursor_def next_cursor_def)
      then show ?thesis
        using windows_left_at [OF wf k p_def, of "NextBoundary w"] w at(4,5) here(2)
        by (simp add: drop)
    qed
  qed
qed simp

lemma windows_left_items:
  assumes "windows_left ses cur = Some its"
  obtains k b where "(if CursorKey cur \<noteq> [] then find_section (CursorKey cur) 0 (PlanSections (ses_plan ses))
      else Some 0) = Some k" "its = items_from k (drop k (PlanSections (ses_plan ses))) b"
    "drop k (PlanSections (ses_plan ses)) \<noteq> [] \<Longrightarrow>
      start_boundary cur True (hd (drop k (PlanSections (ses_plan ses)))) = Inr b"
proof -
  let ?ps = "PlanSections (ses_plan ses)"
  obtain k where k: "(if CursorKey cur \<noteq> [] then find_section (CursorKey cur) 0 ?ps else Some 0) = Some k"
    using assms by (auto simp: windows_left_def split: option.splits)
  show ?thesis
  proof (cases "drop k ?ps")
    case Nil
    then have "its = []" using assms k by (simp add: windows_left_def)
    then show ?thesis by (intro that [OF k, of 0]) (simp_all add: Nil del: drop_eq_Nil)
  next
    case (Cons p ps)
    then obtain b where "start_boundary cur True p = Inr b" "its = items_from k (p # ps) b"
      using assms k by (auto simp: windows_left_def split: sum.splits)
    then show ?thesis by (intro that [OF k, of b]) (simp_all add: Cons)
  qed
qed

text \<open>The outcome of a stream from a valid cursor.\<close>

lemma stream_outcome:
  assumes "streamPreparedSession ses cur emit s c = (at, fin, err, t)" "windows_left ses cur = Some its"
  shows "if fin then err = None \<and> t = send_all ses emit its s
    else \<exists>e. err = Some e \<and> stopped ses emit cur its s at e t"
proof -
  obtain k b where k: "(if CursorKey cur \<noteq> [] then find_section (CursorKey cur) 0 (PlanSections (ses_plan ses))
      else Some 0) = Some k" and its: "its = items_from k (drop k (PlanSections (ses_plan ses))) b"
    and b: "drop k (PlanSections (ses_plan ses)) \<noteq> [] \<Longrightarrow>
      start_boundary cur True (hd (drop k (PlanSections (ses_plan ses)))) = Inr b"
    using windows_left_items [OF assms(2)] by metis
  from assms(1) k have "stream_sections ses cur emit True k (drop k (PlanSections (ses_plan ses))) cur s c =
      (at, fin, err, t)" by (simp add: streamPreparedSession_def)
  from stream_sections_outcome [OF this b] show ?thesis unfolding its .
qed

text \<open>What remains after a prefix was sent is the rest.\<close>

lemma windows_left_rest:
  assumes "session_wf ses" "windows_left ses cur = Some (sent @ rest)"
  shows "windows_left ses (cursor_after ses cur sent) = Some rest"
proof (cases sent rule: rev_cases)
  case (snoc pre it)
  obtain k b where "items_from k (drop k (PlanSections (ses_plan ses))) b = pre @ it # rest"
    using windows_left_items [OF assms(2)] snoc by (metis append.assoc append_Cons append_Nil)
  from windows_left_after [OF assms(1) this] show ?thesis using snoc by (simp add: cursor_after_def)
qed (use assms in simp)

section \<open>A stream that is not interrupted\<close>

definition accepting :: "('s, 'x) emitter \<Rightarrow> ('s, 'x) emitter" where
  "accepting emit ch oc s = (None, snd (emit ch oc s))"

lemma send_accepting [simp]:
  "send_item ses (accepting emit) it s = (None, snd (send_item ses emit it s))"
  by (simp add: send_item_def accepting_def split: prod.splits)

lemma send_all_accepting [simp]: "send_all ses (accepting emit) its s = send_all ses emit its s"
  by (simp add: send_all_def)

lemma ctx_err_background [simp]: "ctx_err background = (False, background)"
  by (simp add: background_def)

lemma stream_windows_accepting:
  "stream_windows ses k p b (accepting emit) i ws cur s background =
    (Inr (cursor_after ses cur (section_items k p b ws)),
     send_all ses emit (section_items k p b ws) s, background)"
proof (induction ws arbitrary: i cur s)
  case Nil
  then show ?case by (simp add: section_items_def)
next
  case (Cons w ws)
  let ?it = "(k, p, w)"
  have step: "section_items k p b (w # ws) =
      (if StartBoundary w < b \<or> \<not> Emit w then [] else [?it]) @ section_items k p b ws"
    by (simp add: section_items_def)
  have one: "accepting emit (window_chunk (ses_parent ses) k (ses_sections ses ! k) w)
      (window_occurrence (ses_sections ses ! k) w) s = (None, snd (send_item ses emit ?it s))"
    by (simp add: accepting_def send_item_def)
  show ?case
    unfolding stream_windows.simps step
    by (simp add: Cons.IH one Let_def item_cursor_def [of ses ?it, simplified, symmetric])
qed

lemma stream_sections_accepting:
  assumes "ps \<noteq> [] \<Longrightarrow> start_boundary cursor first (hd ps) = Inr b"
  shows "stream_sections ses cursor (accepting emit) first k ps cur s background =
    (no_cursor, True, None, send_all ses emit (items_from k ps b) s)"
  using assms
  by (induction ps arbitrary: first k cur s b) (simp_all add: stream_windows_accepting)

lemma stream_accepting:
  assumes "windows_left ses cur = Some its"
  shows "streamPreparedSession ses cur (accepting emit) s background =
    (no_cursor, True, None, send_all ses emit its s)"
proof -
  obtain k b where "(if CursorKey cur \<noteq> [] then find_section (CursorKey cur) 0 (PlanSections (ses_plan ses))
      else Some 0) = Some k" and its: "its = items_from k (drop k (PlanSections (ses_plan ses))) b"
    and b: "drop k (PlanSections (ses_plan ses)) \<noteq> [] \<Longrightarrow>
      start_boundary cur True (hd (drop k (PlanSections (ses_plan ses)))) = Inr b"
    using windows_left_items [OF assms] by metis
  then show ?thesis
    using stream_sections_accepting [OF b, of ses emit k cur s] by (simp add: streamPreparedSession_def)
qed

text \<open>From a cursor that stands for nothing a stream delivers nothing.\<close>

lemma no_windows_left:
  assumes "windows_left ses cur = None"
  shows "\<exists>e. streamPreparedSession ses cur emit s c = (cur, False, Some e, s)"
proof (cases "if CursorKey cur \<noteq> [] then find_section (CursorKey cur) 0 (PlanSections (ses_plan ses)) else Some 0")
  case None
  then show ?thesis by (simp add: streamPreparedSession_def)
next
  case (Some k)
  then obtain p ps e where ps: "drop k (PlanSections (ses_plan ses)) = p # ps" "start_boundary cur True p = Inl e"
    using assms by (auto simp: windows_left_def split: list.splits sum.splits)
  obtain x d where "ctx_err c = (x, d)" by force
  then show ?thesis
    unfolding streamPreparedSession_def Let_def Some option.case ps(1)
    by (cases x) (simp_all add: ps(2))
qed

end
