(* ===== verification/ChunkStreamProps.thy ===== *)
theory ChunkStreamProps
  imports ChunkResume
begin

text \<open>
  Properties of prepared sessions: the planner and the parser return only well-formed sessions, the
  parser accepts a marshaled plan as it was prepared, and an interrupted stream that is resumed
  from the cursor it returned delivers what an uninterrupted one does.
\<close>

section \<open>A planned session is well formed\<close>

lemma length_hash_sum [simp]: "length (hash_sum s) = 64"
  by (simp add: hash_sum_def sha256_hex_def)

lemma sectionKey_nonempty [simp]: "sectionKey parent s \<noteq> []"
proof -
  have "length (sectionKey parent s) = 64" by (simp add: sectionKey_def identityHash_def Let_def)
  then show ?thesis by auto
qed

lemma normalized_section_runes [simp]:
  "rangeRunes (sec_text (normalized_section parent s)) = rangeRunes (sec_text s)"
  by (simp add: normalized_section_def normalizeUTF8_def range_normalized)

lemma linked_planned:
  "covers a n ws \<Longrightarrow> linked (int a) (int n) (map (prepared_window rs offsets) ws)"
  by (induction ws arbitrary: a) (auto simp: prepared_window_def split: prod.splits)

lemma byteOffsets_last: "scalars rs \<Longrightarrow> byteOffsets rs ! length rs = length (encodeRunes rs)"
  by (simp add: nth_byteOffsets length_encodeRunes scalars_iff)

lemma covers_in: "covers a n ws \<Longrightarrow> w \<in> set ws \<Longrightarrow> a \<le> win_start w \<and> win_start w < win_end w \<and> win_end w \<le> n"
proof (induction ws arbitrary: a)
  case (Cons v vs)
  then show ?case using covers_le [of "win_end v" n vs] by fastforce
qed simp

definition window_bounds :: "int \<Rightarrow> stream_window \<Rightarrow> bool" where
  "window_bounds n w \<longleftrightarrow> StartBoundary w \<le> StartChar w \<and> StartChar w \<le> EndChar w \<and>
     EndChar w \<le> NextBoundary w \<and> 0 \<le> StartByte w \<and> StartByte w \<le> EndByte w \<and> EndByte w \<le> n"

lemma prepared_window_bounds:
  assumes "scalars rs" "win_start w < win_end w" "win_end w \<le> length rs"
  shows "window_bounds (int (length (encodeRunes rs))) (prepared_window rs (byteOffsets rs) w)"
proof -
  obtain a b where ab: "trimRuneOffsetsRunes rs (win_start w) (win_end w) = (a, b)" by force
  note t = trimRuneOffsets_spec [OF less_imp_le [OF assms(2)] ab]
  have "byteOffsets rs ! a \<le> byteOffsets rs ! b" "byteOffsets rs ! b \<le> byteOffsets rs ! length rs"
    using t assms by (auto intro: byteOffsets_mono)
  then show ?thesis
    using t assms by (simp add: window_bounds_def prepared_window_def ab byteOffsets_last)
qed

lemma section_wf_bounds:
  "section_wf s p \<longleftrightarrow> PlanKey p = sec_key s \<and> RuneCount p = int (length (rangeRunes (sec_text s))) \<and>
     (Windows p = [] \<or> linked 0 (RuneCount p) (Windows p)) \<and>
     list_all (window_bounds (int (length (sec_text s)))) (Windows p)"
  by (simp add: section_wf_def window_bounds_def list_all_iff)

lemma planned_section_wf:
  assumes "options_ok opts"
  shows "section_wf (normalized_section parent s) (planned_section opts (normalized_section parent s))"
proof -
  let ?rs = "rangeRunes (sec_text s)"
  have rs: "scalars ?rs" by (simp add: scalars_iff rangeRunes_scalar)
  have len: "sec_text (normalized_section parent s) = encodeRunes ?rs"
    by (simp add: normalized_section_def normalizeUTF8_def)
  note cover = section_windows_cover [OF rs assms]
  have "list_all (window_bounds (int (length (encodeRunes ?rs)))) (planned_windows opts ?rs)"
    using covers_in [OF cover] prepared_window_bounds [OF rs]
    by (auto simp: planned_windows_def list_all_iff)
  then show ?thesis
    using linked_planned [OF cover, of ?rs "byteOffsets ?rs"] rs
    by (simp add: section_wf_bounds planned_section_def planned_windows_def len range_encodeRunes scalars_iff)
qed

lemma session_of_wf:
  assumes "metadata_ok parent" "options_ok opts"
  shows "session_wf (session_of parent opts)"
proof -
  have keys: "map sec_key (normalized_sections parent) = map (sectionKey parent) (par_sections parent)"
    by (simp add: normalized_sections_def normalized_section_def)
  then have "sec_key ` set (normalized_sections parent) = sectionKey parent ` set (par_sections parent)"
    by (metis list.set_map)
  then have "[] \<notin> sec_key ` set (normalized_sections parent)"
    by (auto dest: sym)
  moreover have "distinct (map sec_key (normalized_sections parent))"
    using assms(1) keys by (simp add: metadata_ok_def)
  moreover have "list_all2 section_wf (normalized_sections parent)
      (map (planned_section opts) (normalized_sections parent))"
    using planned_section_wf [OF assms(2)]
    by (simp add: normalized_sections_def list_all2_map1 list_all2_map2 list_all2_same)
  ultimately show ?thesis
    by (simp add: session_wf_def session_of_def plan_of_def empty_plan_def occurrence_count_def)
qed

section \<open>The parser\<close>

lemma settles_parse_windows:
  "settles (poll_loop 64 (\<lambda>_. parse_window i rc bytes) j ws (a, n))
    (fold_opt (\<lambda>w s. if window_valid (fst s) rc bytes w
       then Some (NextBoundary w, if Emit w then snd s + 1 else snd s) else None) ws (a, n))"
proof (rule settles_poll_loop)
  fix w and s :: "int \<times> int"
  have "settles (parse_window i rc bytes w s) (if \<not> window_valid (fst s) rc bytes w then None
      else Some (NextBoundary w, if Emit w then snd s + 1 else snd s))"
    unfolding parse_window_def by (intro settles_check settles_ret)
  then show "settles (parse_window i rc bytes w s) (if window_valid (fst s) rc bytes w
      then Some (NextBoundary w, if Emit w then snd s + 1 else snd s) else None)"
    by (simp split: if_splits)
qed

text \<open>The windows the parser accepts: linked from the start, inside the section.\<close>

lemma parse_windows_linked:
  "fold_opt (\<lambda>w s. if window_valid (fst s) rc bytes w
       then Some (NextBoundary w, if Emit w then snd s + 1 else snd s) else None) ws (a, n) = Some (b, m) \<longleftrightarrow>
     linked a b ws \<and> (ws = [] \<or> b \<le> rc) \<and> list_all (window_bounds bytes) ws \<and> m = n + emits ws"
proof (induction ws arbitrary: a n)
  case (Cons w ws)
  have valid: "window_valid a rc bytes w \<longleftrightarrow> StartBoundary w = a \<and> a < NextBoundary w \<and>
      NextBoundary w \<le> rc \<and> window_bounds bytes w"
    by (auto simp: window_valid_def window_bounds_def)
  have "NextBoundary w \<le> rc" if "linked (NextBoundary w) b ws" "b \<le> rc"
    using linked_bounds [OF that(1)] that(2) by simp
  moreover have "b \<le> rc" if "linked (NextBoundary w) b ws" "ws = []" "NextBoundary w \<le> rc"
    using that by simp
  ultimately show ?case
    by (auto simp: valid Cons.IH split: if_splits)
qed (auto)

lemma settles_parse_section:
  "settles (parse_section i (s, p) n) (if section_wf s p then Some (n + int (emitted p)) else None)"
proof -
  let ?f = "fold_opt (\<lambda>w st. if window_valid (fst st) (RuneCount p) (int (length (sec_text s))) w
       then Some (NextBoundary w, if Emit w then snd st + 1 else snd st) else None) (Windows p) (0, n)"
  have rest: "settles (case st of (previous, count) \<Rightarrow>
      andThen (fail_if (Windows p \<noteq> [] \<and> previous \<noteq> RuneCount p) (PlanNotCovering i)) (\<lambda>_. ret count))
    (case st of (previous, count) \<Rightarrow> if Windows p \<noteq> [] \<and> previous \<noteq> RuneCount p then None else Some count)" for st
    unfolding case_prod_beta by (rule settles_check) (rule settles_ret)
  have "settles (parse_section i (s, p) n)
      (if PlanKey p \<noteq> sec_key s \<or> RuneCount p \<noteq> int (length (rangeRunes (sec_text s))) then None
       else Option.bind ?f (\<lambda>(previous, count).
         if Windows p \<noteq> [] \<and> previous \<noteq> RuneCount p then None else Some count))"
    unfolding parse_section_def prod.case
    by (intro settles_then [OF settles_runs [OF runs_runeCount]] settles_check
        settles_bind [OF settles_parse_windows] rest)
  moreover have "Option.bind ?f (\<lambda>(previous, count).
        if Windows p \<noteq> [] \<and> previous \<noteq> RuneCount p then None else Some count) =
      (if (Windows p = [] \<or> linked 0 (RuneCount p) (Windows p)) \<and>
          list_all (window_bounds (int (length (sec_text s)))) (Windows p)
       then Some (n + int (emitted p)) else None)"
  proof (cases ?f)
    case None
    then have "\<not> (linked 0 b (Windows p) \<and> (Windows p = [] \<or> b \<le> RuneCount p) \<and>
        list_all (window_bounds (int (length (sec_text s)))) (Windows p) \<and> n + emits (Windows p) = n + emits (Windows p))" for b
      using parse_windows_linked [of "RuneCount p" "int (length (sec_text s))" "Windows p" 0 n b "n + emits (Windows p)"]
      by (metis option.distinct(1))
    from this [of 0] this [of "RuneCount p"] None show ?thesis by (cases "Windows p") auto
  next
    case (Some st)
    then obtain b m where f: "?f = Some (b, m)" by (cases st) simp
    from f [unfolded parse_windows_linked] have w: "linked 0 b (Windows p)"
      "list_all (window_bounds (int (length (sec_text s)))) (Windows p)" "m = n + int (emitted p)"
      by (simp_all add: emits_def emitted_def)
    have "linked 0 (RuneCount p) (Windows p) \<Longrightarrow> Windows p \<noteq> [] \<Longrightarrow> b = RuneCount p"
      using w(1) linked_end by blast
    then show ?thesis unfolding f using w by auto
  qed
  ultimately show ?thesis by (auto simp: section_wf_bounds split: if_splits)
qed

lemma settles_parse_sections:
  "settles (poll_loop 256 parse_section 0 sps n)
    (if list_all (\<lambda>(s, p). section_wf s p) sps then Some (n + int (sum_list (map (emitted \<circ> snd) sps))) else None)"
proof -
  let ?g = "\<lambda>(s, p) n. if section_wf s p then Some (n + int (emitted p)) else None"
  have "settles (poll_loop 256 parse_section 0 sps n) (fold_opt ?g sps n)"
    by (rule settles_poll_loop) (auto simp: settles_parse_section [unfolded if_distrib] split: prod.splits
        intro: settles_parse_section [THEN subst [where P = "settles _", rotated]])
  moreover have "fold_opt ?g sps n = (if list_all (\<lambda>(s, p). section_wf s p) sps
      then Some (n + int (sum_list (map (emitted \<circ> snd) sps))) else None)"
    by (induction sps arbitrary: n) auto
  ultimately show ?thesis by simp
qed

definition parses_to :: "parent \<Rightarrow> chunk_options \<Rightarrow> int \<Rightarrow> stream_plan \<Rightarrow> bool" where
  "parses_to parent opts limit plan \<longleftrightarrow> metadata_ok parent \<and> valid_sizes opts \<and>
     length (par_sections parent) \<le> V3MaximumPlanningSections \<and>
     plan_matches parent opts (normalized_sections parent) (parentHash parent) plan \<and>
     list_all2 section_wf (normalized_sections parent) (PlanSections plan) \<and>
     OccurrenceCount plan = int (sum_list (map emitted (PlanSections plan))) \<and>
     \<not> (0 < limit \<and> limit < OccurrenceCount plan)"

definition parsed_session :: "parent \<Rightarrow> string \<Rightarrow> stream_plan \<Rightarrow> stream_session" where
  "parsed_session parent encoded plan = \<lparr>ses_parent = parent, ses_sections = normalized_sections parent,
     ses_plan = plan, ses_plan_hash = PreparedStreamPlanDigest encoded\<rparr>"

text \<open>The checks before the plan is decoded.\<close>

definition parse_gate :: "parent \<Rightarrow> int \<Rightarrow> unit planning" where
  "parse_gate parent limit = (if limit = 0
     then validatePlanningInputBytes parent (int V3MaximumPlanningInputUTF8Bytes)
     else andThen (occurrenceLimitPreflight parent limit) (\<lambda>(over, _).
       fail_if over (OccurrenceLimit (limit + 1) limit)))"

lemma settles_preflight_gate:
  assumes "0 \<le> limit"
  shows "\<exists>v. settles (andThen (occurrenceLimitPreflight parent limit) (\<lambda>(over, _).
      fail_if over (OccurrenceLimit (limit + 1) limit))) v \<and>
    (int (lower_bound parent) \<le> limit \<and> normalized_bytes parent \<le> V3MaximumPlanningInputUTF8Bytes \<longrightarrow> v = Some ())"
proof -
  obtain r where r: "runs (occurrenceLimitPreflight parent limit) r" "case r of
      Inl e \<Rightarrow> (\<exists>i. e = Failed (PlanningByteCeiling i)) \<and> ceiling < int (normalized_bytes parent)
    | Inr (over, n) \<Rightarrow> if over then limit < int (lower_bound parent)
        else int (lower_bound parent) \<le> limit \<and> n = normalized_bytes parent"
    using preflight_spec [OF assms] by blast
  show ?thesis
  proof (cases r)
    case (Inl e)
    then have "settles (andThen (occurrenceLimitPreflight parent limit) (\<lambda>(over, _).
      fail_if over (OccurrenceLimit (limit + 1) limit))) None"
      using r by (auto simp: settles_def intro: runs_then_error)
    then show ?thesis using Inl r(2) by (intro exI [of _ None]) auto
  next
    case (Inr v)
    then obtain over n where v: "r = Inr (over, n)" by (cases v) simp
    have "settles (andThen (occurrenceLimitPreflight parent limit) (\<lambda>(over, _).
      fail_if over (OccurrenceLimit (limit + 1) limit))) (if over then None else Some ())"
      by (rule settles_then [OF settles_runs [OF r(1) [unfolded v]]]) (simp only: prod.case settles_fail_if)
    then show ?thesis using r(2) v by (intro exI [of _ "if over then None else Some ()"]) auto
  qed
qed

lemma settles_parse_gate:
  assumes "0 \<le> limit"
  obtains v where "settles (parse_gate parent limit) v"
    "normalized_bytes parent \<le> V3MaximumPlanningInputUTF8Bytes \<Longrightarrow>
      limit = 0 \<or> int (lower_bound parent) \<le> limit \<Longrightarrow> v = Some ()"
proof (cases "limit = 0")
  case True
  then show ?thesis
    using settles_input_bytes [of parent "int V3MaximumPlanningInputUTF8Bytes"]
    by (intro that [of "if normalized_bytes parent \<le> V3MaximumPlanningInputUTF8Bytes then Some () else None"])
      (simp_all add: parse_gate_def V3MaximumPlanningInputUTF8Bytes_def)
next
  case False
  then show ?thesis
    using settles_preflight_gate [OF assms, of parent] by (auto simp: parse_gate_def intro: that)
qed

lemma settles_parse_session:
  assumes gate: "settles (parse_gate parent limit) v"
  shows "settles (ParsePreparedStreamSessionContext unmarshal parent opts encoded limit)
    (if 0 \<le> limit \<and> length encoded \<le> V3MaximumPlanningInputUTF8Bytes \<and> v = Some () then
       (case unmarshal encoded of Inl _ \<Rightarrow> None
        | Inr plan \<Rightarrow> if parses_to parent opts limit plan then Some (parsed_session parent encoded plan) else None)
     else None)"
proof -
  have meta: "settles (validateStreamingMetadataContext parent opts V3MaximumPlanningSections)
      (if metadata_ok parent \<and> valid_sizes opts \<and> length (par_sections parent) \<le> V3MaximumPlanningSections
       then Some () else None)"
    using settles_metadata [of parent opts V3MaximumPlanningSections]
    by (simp add: V3MaximumPlanningSections_def not_less)
  have norm: "settles (normalizedStreamingSectionsContext parent opts True)
      (if metadata_ok parent \<and> valid_sizes opts then Some (normalized_sections parent) else None)"
    using settles_normalized [of parent opts True] by simp
  have zip: "list_all (\<lambda>(s, p). section_wf s p) (zip ss ps) \<longleftrightarrow> list_all2 section_wf ss ps"
    "map (emitted \<circ> snd) (zip ss ps) = map emitted ps" if "length ps = length ss" for ss ps
    using that by (auto simp: list_all2_iff list_all_iff map_zip_map2 intro: nth_equalityI)
  let ?ns = "normalized_sections parent"
  have "settles (ParsePreparedStreamSessionContext unmarshal parent opts encoded limit)
    (if limit < 0 then None else if V3MaximumPlanningInputUTF8Bytes < length encoded then None
     else Option.bind (if metadata_ok parent \<and> valid_sizes opts \<and>
         length (par_sections parent) \<le> V3MaximumPlanningSections then Some () else None) (\<lambda>_.
       Option.bind v (\<lambda>_. case unmarshal encoded of Inl e \<Rightarrow> None
       | Inr plan \<Rightarrow> Option.bind (if metadata_ok parent \<and> valid_sizes opts then Some ?ns else None) (\<lambda>sections.
           if \<not> plan_matches parent opts sections (parentHash parent) plan then None
           else Option.bind (if list_all (\<lambda>(s, p). section_wf s p) (zip sections (PlanSections plan))
               then Some (0 + int (sum_list (map (emitted \<circ> snd) (zip sections (PlanSections plan))))) else None) (\<lambda>count.
             if count \<noteq> OccurrenceCount plan then None
             else if 0 < limit \<and> limit < count then None
             else Some \<lparr>ses_parent = parent, ses_sections = sections, ses_plan = plan,
               ses_plan_hash = PreparedStreamPlanDigest encoded\<rparr>)))))"
    unfolding ParsePreparedStreamSessionContext_def
  proof (intro settles_check settles_bind [OF meta] settles_bind [OF gate [unfolded parse_gate_def]]
      settles_then [OF settles_poll])
    show "settles (case unmarshal encoded of Inl e \<Rightarrow> fail (PlanNotDecoded e)
       | Inr plan \<Rightarrow> andThen poll (\<lambda>_.
           andThen (normalizedStreamingSectionsContext parent opts True) (\<lambda>sections.
           andThen (parentHashContext parent) (\<lambda>projectionHash.
           andThen (fail_if (\<not> plan_matches parent opts sections projectionHash plan) PlanProvenance) (\<lambda>_.
           andThen (poll_loop 256 parse_section 0 (zip sections (PlanSections plan)) 0) (\<lambda>count.
           andThen (fail_if (count \<noteq> OccurrenceCount plan) PlanCountMismatch) (\<lambda>_.
           andThen (fail_if (0 < limit \<and> limit < count) (OccurrenceLimit (limit + 1) limit)) (\<lambda>_.
           andThen poll (\<lambda>_. ret \<lparr>ses_parent = parent, ses_sections = sections, ses_plan = plan,
                ses_plan_hash = PreparedStreamPlanDigest encoded\<rparr>)))))))))
      (case unmarshal encoded of Inl e \<Rightarrow> None
       | Inr plan \<Rightarrow> Option.bind (if metadata_ok parent \<and> valid_sizes opts then Some ?ns else None) (\<lambda>sections.
           if \<not> plan_matches parent opts sections (parentHash parent) plan then None
           else Option.bind (if list_all (\<lambda>(s, p). section_wf s p) (zip sections (PlanSections plan))
               then Some (0 + int (sum_list (map (emitted \<circ> snd) (zip sections (PlanSections plan))))) else None) (\<lambda>count.
             if count \<noteq> OccurrenceCount plan then None
             else if 0 < limit \<and> limit < count then None
             else Some \<lparr>ses_parent = parent, ses_sections = sections, ses_plan = plan,
               ses_plan_hash = PreparedStreamPlanDigest encoded\<rparr>)))"
    proof (cases "unmarshal encoded")
      case (Inl e)
      then show ?thesis by (auto simp: settles_def intro: runs_fail)
    next
      case (Inr plan)
      show ?thesis
        unfolding Inr sum.case
        by (intro settles_then [OF settles_poll] settles_bind [OF norm] settles_check settles_ret
            settles_then [OF settles_runs [OF runs_parentHash]] settles_bind [OF settles_parse_sections])
    qed
  qed
  then show ?thesis
    by (cases "unmarshal encoded"; cases v)
      (auto simp: parses_to_def parsed_session_def plan_matches_def zip split: if_splits)
qed

section \<open>The planner behind a command\<close>

lemma andThen_returns:
  assumes "andThen m f c = Some (Inr y, c')"
  obtains x d where "m c = Some (Inr x, d)" "f x d = Some (Inr y, c')"
  using assms by (auto simp: andThen_def split: option.splits sum.splits)

lemma fail_if_returns: "fail_if b e c = Some (Inr x, d) \<Longrightarrow> \<not> b \<and> d = c"
  by (auto simp: fail_if_def fail_def ret_def split: if_splits)

lemma command_session:
  assumes "PrepareStreamCommandSessionContext parent opts limit c = Some (Inr ses, c')"
  shows "planning_ok parent opts (int V3MaximumPlanningInputUTF8Bytes)" "ses = session_of parent opts"
    "0 \<le> limit" "\<not> (0 < limit \<and> limit < int (occurrence_count parent opts))"
proof -
  let ?prep = "\<lambda>limit. prepareStreamSessionWithPlanner parent opts limit (int V3MaximumPlanningInputUTF8Bytes)
         (\<lambda>rs. chunkSectionRunesV3Context rs opts)"
  let ?meta = "validateStreamingMetadataContext parent opts V3MaximumPlanningSections"
  from assms [unfolded PrepareStreamCommandSessionContext_def] obtain x d where
    "fail_if (limit < 0) NegativeOccurrenceLimit c = Some (Inr x, d)"
    and rest: "andThen ?meta (\<lambda>_. if limit = 0 then
        andThen (validatePlanningInputBytes parent (int V3MaximumPlanningInputUTF8Bytes)) (\<lambda>_. ?prep 0)
      else andThen (occurrenceLimitPreflight parent limit) (\<lambda>(over, _).
        andThen (fail_if over (OccurrenceLimit (limit + 1) limit)) (\<lambda>_. ?prep limit))) d = Some (Inr ses, c')"
    by (rule andThen_returns)
  then have nonneg: "0 \<le> limit" by (auto dest: fail_if_returns)
  from rest obtain d d' where prep: "?prep limit d = Some (Inr ses, d')"
    by (elim andThen_returns) (auto split: if_splits elim!: andThen_returns)
  show "0 \<le> limit" by (rule nonneg)
  note planner = runs_section_windows
  show ok: "planning_ok parent opts (int V3MaximumPlanningInputUTF8Bytes)"
  proof (rule ccontr)
    assume "\<not> planning_ok parent opts (int V3MaximumPlanningInputUTF8Bytes)"
    from runs_prepare_session(2) [OF planner this, of limit] prep
    show False by (auto dest: runs_result)
  qed
  from runs_result [OF runs_prepare_session(1) [OF planner ok] prep]
  show "ses = session_of parent opts" "\<not> (0 < limit \<and> limit < int (occurrence_count parent opts))"
    by (auto simp: limited_def split: if_splits)
qed

lemma parsed_session_wf: "parses_to parent opts limit plan \<Longrightarrow> session_wf (parsed_session parent encoded plan)"
proof -
  assume p: "parses_to parent opts limit plan"
  then have "session_wf (session_of parent opts)"
    by (intro session_of_wf) (simp_all add: parses_to_def valid_sizes_def)
  then have "distinct (map sec_key (normalized_sections parent))" "[] \<notin> sec_key ` set (normalized_sections parent)"
    by (simp_all add: session_wf_def session_of_def)
  with p show ?thesis
    by (simp add: parses_to_def session_wf_def parsed_session_def plan_matches_def)
qed

lemma parse_session_returns:
  assumes "ParsePreparedStreamSessionContext unmarshal parent opts encoded limit c = Some (Inr ses, c')"
  obtains plan where "unmarshal encoded = Inr plan" "parses_to parent opts limit plan"
    "ses = parsed_session parent encoded plan"
proof -
  from assms [unfolded ParsePreparedStreamSessionContext_def]
  have "0 \<le> limit" by (rule andThen_returns) (auto dest: fail_if_returns)
  from settles_parse_gate [OF this] obtain v where "settles (parse_gate parent limit) v" by metis
  from settles_returns [OF settles_parse_session [OF this] assms] that show ?thesis
    by (auto split: if_splits sum.splits)
qed

text \<open>Every session a caller can stream from is well formed: whether it was planned or parsed from a
  stored plan, its windows are consecutive from 0 to the number of runes of the section, each
  window's text lies inside it and inside the bytes of the section's text, section keys are distinct, and the
  occurrence count is the number of windows that are emitted. A stored plan with any other shape is refused.\<close>

theorem sessions_are_well_formed:
  assumes "PrepareStreamCommandSessionContext parent opts limit c = Some (Inr ses, c') \<or>
    ParsePreparedStreamSessionContext unmarshal parent opts encoded limit c = Some (Inr ses, c')"
  shows "session_wf ses \<and> \<not> (0 < limit \<and> limit < OccurrenceCount (ses_plan ses))"
  using assms
proof
  assume "PrepareStreamCommandSessionContext parent opts limit c = Some (Inr ses, c')"
  note s = command_session [OF this]
  have "metadata_ok parent" "options_ok opts" using s(1) by (auto simp: planning_ok_def checks_ok_def valid_sizes_def)
  from session_of_wf [OF this] s(2,4) show ?thesis by (simp add: session_of_def)
next
  assume "ParsePreparedStreamSessionContext unmarshal parent opts encoded limit c = Some (Inr ses, c')"
  from this show ?thesis
  proof (rule parse_session_returns)
    fix plan
    assume p: "parses_to parent opts limit plan" and ses: "ses = parsed_session parent encoded plan"
    have "ses_plan ses = plan" by (simp add: ses parsed_session_def)
    with p have "\<not> (0 < limit \<and> limit < OccurrenceCount (ses_plan ses))" unfolding parses_to_def by blast
    with parsed_session_wf [OF p] show ?thesis unfolding ses by blast
  qed
qed

lemma example_session:
  "PrepareStreamCommandSessionContext example_parent DefaultOptions 0 background =
    Some (Inr (session_of example_parent DefaultOptions), background)"
proof -
  note ok = planning_ok_capped [OF example_planning]
  have "runs (validatePlanningInputBytes example_parent (int V3MaximumPlanningInputUTF8Bytes)) (Inr ())"
    using settles_input_bytes [of example_parent "int V3MaximumPlanningInputUTF8Bytes"] ok(2)
    by (simp add: settles_def V3MaximumPlanningInputUTF8Bytes_def)
  moreover have "runs (fail_if ((0 :: int) < 0) NegativeOccurrenceLimit) (Inr ())"
    by (simp add: fail_if_def runs_ret)
  moreover have "runs (prepareStreamSessionWithPlanner example_parent DefaultOptions 0
      (int V3MaximumPlanningInputUTF8Bytes) (\<lambda>rs. chunkSectionRunesV3Context rs DefaultOptions))
      (Inr (session_of example_parent DefaultOptions))"
    using runs_prepare_session(1) [OF runs_section_windows example_planning, of 0] by (simp add: limited_def)
  ultimately have "runs (PrepareStreamCommandSessionContext example_parent DefaultOptions 0)
      (Inr (session_of example_parent DefaultOptions))"
    unfolding PrepareStreamCommandSessionContext_def
    by (intro runs_then [of "fail_if (0 < 0) NegativeOccurrenceLimit"]
        runs_then [of "validateStreamingMetadataContext example_parent DefaultOptions V3MaximumPlanningSections", OF ok(1)])
      (auto intro: runs_then)
  then show ?thesis by (rule runs_background)
qed

theorem sessions_are_well_formed_witness:
  "session_wf (session_of example_parent DefaultOptions)"
  using sessions_are_well_formed [OF disjI1, OF example_session] by simp

text \<open>C25. A prepared plan round trips: marshaled and parsed again for the same parent, options and limit, by a
  codec that decodes what it encoded, it yields the session that was marshaled, with the digest of the encoding as
  its hash, as long as the encoding is within the ceiling of the parser.\<close>

theorem prepared_plan_parses:
  assumes "PrepareStreamCommandSessionContext parent opts limit c = Some (Inr ses, c')"
    "MarshalPlanBinary marshal ses = (ses', Inr (encoded, digest))"
    "unmarshal (marshal (ses_plan ses)) = Inr (ses_plan ses)"
    "length encoded \<le> V3MaximumPlanningInputUTF8Bytes"
  shows "ParsePreparedStreamSessionContext unmarshal parent opts encoded limit background =
      Some (Inr ses', background) \<and> ses_plan_hash ses' = digest \<and> ses_plan ses' = ses_plan ses"
proof -
  note s = command_session [OF assms(1)]
  have opts: "metadata_ok parent" "valid_sizes opts" "options_ok opts"
    and len: "length (par_sections parent) \<le> V3MaximumPlanningSections"
    using s(1) by (auto simp: planning_ok_def checks_ok_def valid_sizes_def V3MaximumPlanningInputUTF8Bytes_def)
  have encoded: "encoded = marshal (ses_plan ses)" and ses': "ses' = parsed_session parent encoded (plan_of parent opts)"
    and digest: "ses_plan_hash ses' = digest"
    using assms(2)
    by (auto simp: MarshalPlanBinary_def MarshalBinary_def Let_def s(2) session_of_def parsed_session_def
        split: if_splits)
  have "session_wf (session_of parent opts)" by (rule session_of_wf [OF opts(1,3)])
  moreover have "plan_matches parent opts (normalized_sections parent) (parentHash parent) (plan_of parent opts)"
    by (simp add: plan_matches_def plan_of_def empty_plan_def)
  ultimately have parses: "parses_to parent opts limit (plan_of parent opts)"
    using opts len s(4) unfolding parses_to_def session_wf_def by (simp add: session_of_def)
  have "normalized_bytes parent \<le> V3MaximumPlanningInputUTF8Bytes" using planning_ok_capped(2) [OF s(1)] .
  moreover have "limit = 0 \<or> int (lower_bound parent) \<le> limit"
    using lower_bound_sound [OF opts(3), of parent] s(3,4) by linarith
  ultimately have "settles (parse_gate parent limit) (Some ())"
    using settles_parse_gate [OF s(3), of parent] by metis
  note parse = settles_parse_session [OF this, of unmarshal opts encoded]
  have "unmarshal encoded = Inr (plan_of parent opts)"
    using assms(3) by (simp add: encoded s(2) session_of_def)
  then have "runs (ParsePreparedStreamSessionContext unmarshal parent opts encoded limit) (Inr ses')"
    using parse assms(4) parses s(3) by (simp add: settles_def ses')
  then show ?thesis
    using digest runs_background by (auto simp: ses' parsed_session_def s(2) session_of_def)
qed

theorem prepared_plan_parses_witness:
  "ParsePreparedStreamSessionContext (\<lambda>_. Inr (plan_of example_parent DefaultOptions)) example_parent DefaultOptions
     ''plan'' 0 background =
     Some (Inr ((session_of example_parent DefaultOptions)\<lparr>ses_plan_hash := PreparedStreamPlanDigest ''plan''\<rparr>),
       background)"
  using prepared_plan_parses [OF example_session, of "\<lambda>_. ''plan''" _ "''plan''" "PreparedStreamPlanDigest ''plan''"
      "\<lambda>_. Inr (plan_of example_parent DefaultOptions)"]
  by (simp add: MarshalPlanBinary_def MarshalBinary_def session_of_def plan_of_def empty_plan_def
      V3MaximumPlanningInputUTF8Bytes_def)

section \<open>Resuming a stream\<close>

lemma stream_context_prepared:
  assumes "session_wf ses"
  shows "StreamContext ses cur (Some emit) s background = streamPreparedSession ses cur emit s background"
  using assms session_wf_sections(2) [OF assms] by (simp add: StreamContext_def session_wf_def)

text \<open>A session of one section and two windows, and a callback that fails on every chunk; the state is the list
  of the starts it saw.\<close>

definition two_windows :: stream_session where
  "two_windows = \<lparr>ses_parent = example_parent,
     ses_sections = [\<lparr>sec_key = ''k'', sec_role = ''raw'', sec_heading = [], sec_text = ''Hi. Bye'', sec_derived = False\<rparr>],
     ses_plan = (empty_plan [] DefaultOptions)\<lparr>OccurrenceCount := 2, PlanSections := [\<lparr>PlanKey = ''k'', RuneCount = 7,
       Windows = [\<lparr>StartBoundary = 0, NextBoundary = 4, StartChar = 0, EndChar = 3, StartByte = 0, EndByte = 3, Emit = True\<rparr>,
         \<lparr>StartBoundary = 4, NextBoundary = 7, StartChar = 4, EndChar = 7, StartByte = 4, EndByte = 7, Emit = True\<rparr>]\<rparr>]\<rparr>,
     ses_plan_hash = []\<rparr>"

definition fail_each :: "(nat list, unit) emitter" where
  "fail_each chunk occurrence seen = (Some (), occ_start_char occurrence # seen)"

lemma two_windows_wf: "session_wf two_windows"
  by (simp add: session_wf_def two_windows_def section_wf_def empty_plan_def range_ascii in_bytes_def emitted_def)

lemma two_windows_stops:
  "StreamContext two_windows no_cursor (Some fail_each) [] background =
    (\<lparr>CursorKey = ''k'', CursorBoundary = 4\<rparr>, False, Some (EmitFailed ()), [0])"
  by (simp add: StreamContext_def two_windows_def empty_plan_def streamPreparedSession_def no_cursor_def
      start_boundary_def fail_each_def window_occurrence_def next_cursor_def Let_def)

text \<open>C4. An interrupted stream can be resumed exactly: when a stream is cancelled, or its callback fails, the
  cursor it returns stands for what was not yet delivered. Streaming on from it, with the callback accepting,
  ends where one uninterrupted stream would have: no chunk is lost and none is delivered twice (a chunk
  whose callback failed counts as delivered).\<close>

theorem stream_resumes_exactly:
  assumes "session_wf ses"
    "StreamContext ses cur (Some emit) s c = (cur', False, Some err, s')"
    "err = StreamCanceled \<or> err = EmitFailed x"
  shows "StreamContext ses cur' (Some (accepting emit)) s' background =
    StreamContext ses cur (Some (accepting emit)) s background"
proof -
  obtain x c1 where c1: "ctx_err c = (x, c1)" by force
  show ?thesis
  proof (cases x)
    case True
    then show ?thesis using assms(2) by (simp add: StreamContext_def c1)
  next
    case False
    from session_wf_sections(2) [OF assms(1)] assms(1) False assms(2)
    have run: "streamPreparedSession ses cur emit s c1 = (cur', False, Some err, s')"
      by (simp add: StreamContext_def c1 session_wf_def)
    show ?thesis
    proof (cases "windows_left ses cur")
      case None
      then show ?thesis using no_windows_left [OF None, of emit s c1] run by auto
    next
      case (Some its)
      from stream_outcome [OF run Some] obtain sent rest where
        sent: "its = sent @ rest" "s' = send_all ses emit sent s" "cur' = cursor_after ses cur sent"
        by (auto simp: stopped_def)
      have "windows_left ses cur' = Some rest"
        using windows_left_rest [OF assms(1)] Some sent by simp
      then show ?thesis
        using Some sent by (simp add: stream_context_prepared [OF assms(1)] stream_accepting)
    qed
  qed
qed

theorem stream_resumes_exactly_witness:
  "StreamContext two_windows \<lparr>CursorKey = ''k'', CursorBoundary = 4\<rparr> (Some (accepting fail_each)) [0] background =
    StreamContext two_windows no_cursor (Some (accepting fail_each)) [] background"
  using stream_resumes_exactly [OF two_windows_wf two_windows_stops, of "()"] by simp

end
