(* ===== verification/ChunkProjection.thy ===== *)
theory ChunkProjection
  imports ChunkStreamProps
begin

text \<open>
  The projection of a parent: \<open>BuildProjection\<close> streams every window of the exact plan into one
  list of chunks, each kept once, and one list of occurrences. The occurrences of a section hold
  all of its text but white space, in order.
\<close>

section \<open>What the projection holds\<close>

definition no_projection :: projection where
  "no_projection = \<lparr>proj_parent_hash = [], proj_chunks = [], proj_occurrences = []\<rparr>"

definition all_items :: "parent \<Rightarrow> chunk_options \<Rightarrow> stream_item list" where
  "all_items parent opts = items_from 0 (PlanSections (plan_of parent opts)) 0"

definition item_chunk :: "stream_session \<Rightarrow> stream_item \<Rightarrow> chunk" where
  "item_chunk ses it = (case it of (k, p, w) \<Rightarrow> window_chunk (ses_parent ses) k (ses_sections ses ! k) w)"

definition item_occurrence :: "stream_session \<Rightarrow> stream_item \<Rightarrow> occurrence" where
  "item_occurrence ses it = (case it of (k, p, w) \<Rightarrow> window_occurrence (ses_sections ses ! k) w)"

lemma accepting_collect: "accepting collect_chunk = collect_chunk"
  by (intro ext) (simp add: accepting_def collect_chunk_def)

lemma windows_left_all: "session_wf ses \<Longrightarrow> windows_left ses no_cursor = Some (items_from 0 (PlanSections (ses_plan ses)) 0)"
  by (simp add: windows_left_def no_cursor_def start_boundary_def split: list.split)

lemma BuildProjection_ok:
  assumes "metadata_ok parent" "valid_sizes opts" "list_all (section_fits opts) (normalized_sections parent)"
  shows "BuildProjection parent opts = Some (Inr ((send_all (session_of parent opts) collect_chunk
      (all_items parent opts) no_projection)\<lparr>proj_parent_hash := parentHash parent\<rparr>))"
proof -
  have ok: "planning_ok parent opts 0" using assms by (simp add: planning_ok_def checks_ok_def)
  have opts: "options_ok opts" using assms(2) by (simp add: valid_sizes_def)
  from runs_background [OF runs_prepare_plan(1) [OF runs_chunkSectionRunes ok, of 0]]
  have plan: "PrepareStream parent opts 0 = Some (Inr (plan_of parent opts))"
    by (simp add: PrepareStream_def limited_def)
  have sections: "normalizedStreamingSections parent opts True = Inr (normalized_sections parent)"
    using settles_normalized [of parent opts True] assms
    by (auto simp: normalizedStreamingSections_def settles_def dest: runs_background)
  have "plan_matches parent opts (normalized_sections parent) (parentHash parent) (plan_of parent opts)"
    by (simp add: plan_matches_def plan_of_def empty_plan_def)
  moreover have "streamPreparedSession (session_of parent opts) no_cursor collect_chunk no_projection background =
      (no_cursor, True, None, send_all (session_of parent opts) collect_chunk (all_items parent opts) no_projection)"
    using stream_accepting [OF windows_left_all [OF session_of_wf [OF assms(1) opts]], of collect_chunk no_projection]
    by (simp add: accepting_collect all_items_def session_of_def)
  ultimately show ?thesis
    by (simp add: BuildProjection_def Stream_def plan StreamPrepared_def sections session_of_def
        flip: no_projection_def)
qed

lemma BuildProjection_returns:
  assumes "BuildProjection parent opts = Some (Inr p)"
  shows "metadata_ok parent" "valid_sizes opts"
    "p = (send_all (session_of parent opts) collect_chunk (all_items parent opts) no_projection)
       \<lparr>proj_parent_hash := parentHash parent\<rparr>"
proof -
  obtain z where z: "PrepareStream parent opts 0 = Some z"
    using assms by (auto simp: BuildProjection_def Stream_def)
  have "\<nexists>e. z = Inl e"
    using assms z by (auto simp: BuildProjection_def Stream_def)
  moreover have "\<exists>e. z = Inl e" if bad: "\<not> planning_ok parent opts 0"
  proof -
    obtain e where "runs (prepareStreamWithPlanner parent opts 0 0 (\<lambda>rs. chunkSectionRunesV3 rs opts)) (Inl e)"
      using runs_prepare_plan(2) [OF runs_chunkSectionRunes bad, of 0] by blast
    from runs_background [OF this] z show ?thesis by (auto simp: PrepareStream_def)
  qed
  ultimately have ok: "metadata_ok parent" "valid_sizes opts" "list_all (section_fits opts) (normalized_sections parent)"
    by (auto simp: planning_ok_def checks_ok_def)
  then show "metadata_ok parent" "valid_sizes opts" by simp_all
  from BuildProjection_ok [OF ok] assms
  show "p = (send_all (session_of parent opts) collect_chunk (all_items parent opts) no_projection)
       \<lparr>proj_parent_hash := parentHash parent\<rparr>" by simp
qed

lemma collected:
  "proj_occurrences (send_all ses collect_chunk its p) = proj_occurrences p @ map (item_occurrence ses) its"
  "set (map chunk_id (proj_chunks (send_all ses collect_chunk its p))) =
     set (map chunk_id (proj_chunks p)) \<union> set (map (chunk_id \<circ> item_chunk ses) its)"
  "distinct (map chunk_id (proj_chunks p)) \<Longrightarrow>
     distinct (map chunk_id (proj_chunks (send_all ses collect_chunk its p)))"
  "set (proj_chunks (send_all ses collect_chunk its p)) \<subseteq> set (proj_chunks p) \<union> item_chunk ses ` set its"
proof (induction its arbitrary: p)
  case (Cons it its)
  obtain k q w where it: "it = (k, q, w)" by (metis prod_cases3)
  let ?q = "\<lambda>p. p\<lparr>proj_chunks := (if chunk_id (item_chunk ses it) \<in> chunk_id ` set (proj_chunks p) then proj_chunks p
        else proj_chunks p @ [item_chunk ses it]), proj_occurrences := proj_occurrences p @ [item_occurrence ses it]\<rparr>"
  have step: "snd (send_item ses collect_chunk it p) = ?q p" for p
    by (simp add: send_item_def collect_chunk_def it item_chunk_def item_occurrence_def)
  {
    case 1
    show ?case using Cons(1) [of "?q p"] by (simp add: step)
  next
    case 2
    show ?case using Cons(2) [of "?q p"] by (auto simp: step)
  next
    case 3
    then show ?case using Cons(3) [of "?q p"] by (simp add: step)
  next
    case 4
    show ?case using Cons(4) [of "?q p"] by (auto simp: step split: if_splits)
  }
qed simp_all

section \<open>The text of a section\<close>

abbreviation words :: "rune list \<Rightarrow> rune list" where
  "words \<equiv> filter (\<lambda>r. \<not> isSpace r)"

lemma words_blank:
  assumes "b \<le> length rs" "\<And>i. a \<le> i \<Longrightarrow> i < b \<Longrightarrow> isSpace (rs ! i)"
  shows "words (slice_of a b rs) = []"
  using assms by (auto simp: filter_empty_conv in_set_conv_nth slice_of_def)

lemma words_trimmed:
  assumes "a \<le> b" "b \<le> length rs" "trimRuneOffsetsRunes rs a b = (a1, b1)"
  shows "words (slice_of a1 b1 rs) = words (slice_of a b rs)"
proof -
  note t = trimRuneOffsets_spec [OF assms(1,3)]
  have "slice_of a b rs = slice_of a a1 rs @ slice_of a1 b1 rs @ slice_of b1 b rs"
    using slice_split [of a a1 b rs] slice_split [of a1 b1 b rs] t(1-3) by simp
  moreover have "words (slice_of a a1 rs) = []"
    using t assms(2) by (intro words_blank) (simp, meson leD less_le_trans)
  moreover have "words (slice_of b1 b rs) = []"
    using t assms(2) by (intro words_blank) (simp, meson leD le_trans)
  ultimately show ?thesis by simp
qed

definition occurrence_runes :: "rune list \<Rightarrow> occurrence \<Rightarrow> rune list" where
  "occurrence_runes rs oc = slice_of (occ_start_char oc) (occ_end_char oc) rs"

lemma window_words:
  assumes "win_start w \<le> win_end w" "win_end w \<le> length rs"
  shows "words (occurrence_runes rs (window_occurrence s (prepared_window rs (byteOffsets rs) w))) =
      words (slice_of (win_start w) (win_end w) rs)"
    "\<not> Emit (prepared_window rs (byteOffsets rs) w) \<Longrightarrow> words (slice_of (win_start w) (win_end w) rs) = []"
proof -
  obtain a b where ab: "trimRuneOffsetsRunes rs (win_start w) (win_end w) = (a, b)" by force
  note t = words_trimmed [OF assms ab]
  show "words (occurrence_runes rs (window_occurrence s (prepared_window rs (byteOffsets rs) w))) =
      words (slice_of (win_start w) (win_end w) rs)"
    by (simp add: occurrence_runes_def window_occurrence_def prepared_window_def ab t)
  show "words (slice_of (win_start w) (win_end w) rs) = []" if "\<not> Emit (prepared_window rs (byteOffsets rs) w)"
  proof -
    have "slice_of a b rs = []" using that by (simp add: prepared_window_def ab slice_of_def)
    then show ?thesis by (simp flip: t)
  qed
qed

lemma section_words:
  assumes "\<forall>w \<in> set ws. win_start w \<le> win_end w \<and> win_end w \<le> length rs"
  shows "words (concat (map (\<lambda>w. occurrence_runes rs (window_occurrence s w))
      (filter Emit (map (prepared_window rs (byteOffsets rs)) ws)))) =
    words (concat (map (\<lambda>w. slice_of (win_start w) (win_end w) rs) ws))"
  using assms by (induction ws) (auto simp: window_words)

section \<open>The items of a section\<close>

definition section_part :: "stream_session \<Rightarrow> nat \<Rightarrow> stream_item list" where
  "section_part ses k = section_items k (PlanSections (ses_plan ses) ! k) 0 (Windows (PlanSections (ses_plan ses) ! k))"

lemma items_parts: "items_from k ps 0 = concat (map (\<lambda>i. section_items (k + i) (ps ! i) 0 (Windows (ps ! i))) [0..<length ps])"
proof (induction ps arbitrary: k)
  case (Cons p ps)
  have "[0..<length (p # ps)] = 0 # map Suc [0..<length ps]" by (simp add: upt_conv_Cons map_Suc_upt del: upt_Suc)
  then show ?case by (simp add: Cons.IH comp_def)
qed simp

lemma filter_concat_nth:
  assumes "i < n" "\<And>j x. j < n \<Longrightarrow> x \<in> set (f j) \<Longrightarrow> P x \<longleftrightarrow> j = i"
  shows "filter P (concat (map f [0..<n])) = f i"
proof -
  have "[0..<n] = [0..<i] @ i # [Suc i..<n]" using assms(1) upt_add_eq_append [of 0 i "n - i"] by (simp add: upt_conv_Cons)
  moreover have gone: "filter P (concat (map f js)) = []" if "set js \<subseteq> {0..<n} - {i}" for js
    using that assms(2) by (induction js) (auto simp: filter_empty_conv)
  have "filter P (concat (map f [0..<i])) = []" "filter P (concat (map f [Suc i..<n])) = []"
    by (rule gone, use assms(1) in force)+
  moreover have "filter P (f i) = f i" using assms by (intro filter_True) auto
  ultimately show ?thesis by simp
qed

lemma linked_emitted:
  assumes "Windows p = [] \<or> linked 0 n (Windows p)"
  shows "section_items k p 0 (Windows p) = map (\<lambda>w. (k, p, w)) (filter Emit (Windows p))"
proof -
  have "filter (\<lambda>w. \<not> (StartBoundary w < 0 \<or> \<not> Emit w)) (Windows p) = filter Emit (Windows p)"
    using assms linked_in by (intro filter_cong) force+
  then show ?thesis by (simp add: section_items_def)
qed

lemma occurrences_of_section:
  assumes ok: "metadata_ok parent" "valid_sizes opts" and i: "i < length (par_sections parent)"
  shows "filter (\<lambda>oc. occ_section_key oc = sectionKey parent (par_sections parent ! i))
      (map (item_occurrence (session_of parent opts)) (all_items parent opts)) =
    map (window_occurrence (normalized_sections parent ! i))
      (filter Emit (planned_windows opts (rangeRunes (sec_text (par_sections parent ! i)))))"
proof -
  let ?ses = "session_of parent opts" and ?ps = "PlanSections (plan_of parent opts)"
  have wf: "session_wf ?ses" using ok by (intro session_of_wf) (simp_all add: valid_sizes_def)
  let ?f = "\<lambda>k. map (item_occurrence ?ses) (section_items k (?ps ! k) 0 (Windows (?ps ! k)))"
  have ns: "ses_sections ?ses = normalized_sections parent" "length (normalized_sections parent) = length (par_sections parent)"
    "length ?ps = length (par_sections parent)" "ses_plan ?ses = plan_of parent opts"
    by (simp_all add: session_of_def normalized_sections_def plan_of_def)
  have key: "sec_key (normalized_sections parent ! j) = sectionKey parent (par_sections parent ! j)"
    if "j < length (par_sections parent)" for j
    using that by (simp add: normalized_sections_def normalized_section_def)
  have occ: "?f k = map (window_occurrence (normalized_sections parent ! k)) (filter Emit (Windows (?ps ! k)))"
    if "k < length (par_sections parent)" for k
  proof -
    have "section_wf (ses_sections ?ses ! k) (?ps ! k)"
      using session_wf_sections(3) [OF wf, of k] that ns by simp
    then have "section_items k (?ps ! k) 0 (Windows (?ps ! k)) = map (\<lambda>w. (k, ?ps ! k, w)) (filter Emit (Windows (?ps ! k)))"
      by (intro linked_emitted) (auto simp: section_wf_def)
    then show ?thesis by (simp add: item_occurrence_def ns)
  qed
  have "filter (\<lambda>oc. occ_section_key oc = sectionKey parent (par_sections parent ! i))
      (concat (map ?f [0..<length (par_sections parent)])) = ?f i"
  proof (rule filter_concat_nth [OF i])
    fix j oc
    assume j: "j < length (par_sections parent)" and "oc \<in> set (?f j)"
    then have "occ_section_key oc = sectionKey parent (par_sections parent ! j)"
      unfolding occ [OF j] by (auto simp: window_occurrence_def key)
    moreover have "sectionKey parent (par_sections parent ! j) = sectionKey parent (par_sections parent ! i) \<longleftrightarrow> j = i"
      using ok(1) i j nth_eq_iff_index_eq [of "map (sectionKey parent) (par_sections parent)" j i]
      by (simp add: metadata_ok_def)
    ultimately show "occ_section_key oc = sectionKey parent (par_sections parent ! i) \<longleftrightarrow> j = i" by simp
  qed
  moreover have "map (item_occurrence ?ses) (all_items parent opts) = concat (map ?f [0..<length (par_sections parent)])"
    by (simp add: all_items_def items_parts ns map_concat comp_def)
  moreover have "Windows (?ps ! i) = planned_windows opts (rangeRunes (sec_text (par_sections parent ! i)))"
    using i by (simp add: plan_of_def planned_section_def normalized_sections_def)
  ultimately show ?thesis unfolding occ [OF i] by simp
qed

lemma words_of_occurrences:
  assumes "options_ok opts"
  shows "words (concat (map (\<lambda>w. occurrence_runes (rangeRunes v) (window_occurrence s w))
    (filter Emit (planned_windows opts (rangeRunes v))))) = words (rangeRunes v)"
proof -
  let ?rs = "rangeRunes v"
  have rs: "scalars ?rs" by (simp add: scalars_iff rangeRunes_scalar)
  note cover = section_windows_cover [OF rs assms]
  have "\<forall>w \<in> set (section_windows ?rs opts). win_start w \<le> win_end w \<and> win_end w \<le> length ?rs"
    using covers_in [OF cover] by (auto intro: less_imp_le)
  from section_words [OF this, of s] covers_concat [OF cover, of ?rs]
  show ?thesis by (simp add: planned_windows_def slice_of_def)
qed

text \<open>C5. A projection holds all of the text: for every section of the parent, the runes of its occurrences, put
  together in order, are the runes of the section, but for white space between them.\<close>

theorem projection_covers_text:
  assumes "BuildProjection parent opts = Some (Inr p)" "i < length (par_sections parent)"
  shows "words (concat (map (occurrence_runes (rangeRunes (sec_text (par_sections parent ! i))))
      (filter (\<lambda>oc. occ_section_key oc = sectionKey parent (par_sections parent ! i)) (proj_occurrences p)))) =
    words (rangeRunes (sec_text (par_sections parent ! i)))"
proof -
  note b = BuildProjection_returns [OF assms(1)]
  have "options_ok opts" using b(2) by (simp add: valid_sizes_def)
  moreover have "proj_occurrences p = map (item_occurrence (session_of parent opts)) (all_items parent opts)"
    by (simp add: b(3) collected no_projection_def)
  ultimately show ?thesis
    using words_of_occurrences [of opts "sec_text (par_sections parent ! i)" "normalized_sections parent ! i"]
    by (simp add: occurrences_of_section [OF b(1,2) assms(2)] comp_def)
qed

section \<open>The chunks\<close>

lemma emitted_window_text:
  assumes opts: "options_ok opts" and w: "w \<in> set (filter Emit (planned_windows opts (rangeRunes v)))"
    and s: "sec_text s = encodeRunes (rangeRunes v)"
  obtains rs where "window_text s w = encodeRunes rs" "scalars rs" "rs \<noteq> []" "\<not> isSpace (hd rs)"
    "\<not> isSpace (last rs)" "int (length rs) \<le> MaxRunes opts" "length (window_text s w) \<le> MaxUTF8Bytes"
proof -
  let ?rs = "rangeRunes v"
  have rs: "scalars ?rs" by (simp add: scalars_iff rangeRunes_scalar)
  from w obtain u where u: "u \<in> set (section_windows ?rs opts)" and wu: "w = prepared_window ?rs (byteOffsets ?rs) u"
    and emit: "Emit w" by (auto simp: planned_windows_def)
  note c = covers_in [OF section_windows_cover [OF rs opts] u]
  note fit = section_windows_fit [OF rs opts u]
  obtain a b where ab: "trimRuneOffsetsRunes ?rs (win_start u) (win_end u) = (a, b)" by force
  then have lt: "a < b" using emit by (simp add: wu prepared_window_def)
  have "win_start u \<le> win_end u" using c by simp
  note t = trimRuneOffsets_spec [OF this ab]
  let ?x = "slice_of a b ?rs"
  have b: "b \<le> length ?rs" using t(3) c by simp
  have len: "length ?x = b - a" using b by (simp add: slice_of_def)
  have wt: "window_text s w = encodeRunes ?x"
    using slice_encodeRunes [of ?rs a b] rs lt b
    by (simp add: window_text_def wu prepared_window_def ab s scalars_iff)
  have ends: "hd ?x = ?rs ! a" "last ?x = ?rs ! (b - 1)"
    using lt b by (simp_all add: slice_of_def hd_drop_conv_nth last_conv_nth)
  have bytes: "length (encodeRunes ?x) = byte_span ?rs a b" using slice_bytes [OF rs _ b] lt by simp
  have "byte_span ?rs a b \<le> byte_span ?rs (win_start u) (win_end u)"
    using byteOffsets_mono [of "win_start u" a ?rs] byteOffsets_mono [of b "win_end u" ?rs] t(1-3) c b lt
    unfolding byte_span_def by linarith
  show ?thesis
  proof (rule that [OF wt])
    show "scalars ?x" using rs by (auto simp: scalars_iff slice_of_def dest: in_set_takeD in_set_dropD)
    show "?x \<noteq> []" using len lt by auto
    show "\<not> isSpace (hd ?x)" "\<not> isSpace (last ?x)" using t(5,6) lt ends by simp_all
    show "int (length ?x) \<le> MaxRunes opts" using fit t(1-3) lt by (simp add: len fits_window_def)
    show "length (window_text s w) \<le> MaxUTF8Bytes"
      using fit \<open>byte_span ?rs a b \<le> _\<close> by (simp add: wt bytes fits_window_def)
  qed
qed

lemma all_items_in:
  assumes ok: "metadata_ok parent" "valid_sizes opts" and it: "(k, p, w) \<in> set (all_items parent opts)"
  shows "k < length (par_sections parent)"
    "w \<in> set (filter Emit (planned_windows opts (rangeRunes (sec_text (par_sections parent ! k)))))"
proof -
  let ?ps = "PlanSections (plan_of parent opts)"
  have len: "length ?ps = length (par_sections parent)" by (simp add: plan_of_def normalized_sections_def)
  from it obtain j where j: "j < length ?ps" "(k, p, w) \<in> set (section_items j (?ps ! j) 0 (Windows (?ps ! j)))"
    by (auto simp: all_items_def items_parts)
  then have kj: "k = j" and w: "w \<in> set (filter Emit (Windows (?ps ! j)))"
    by (auto simp: section_items_def)
  show k: "k < length (par_sections parent)" using j(1) kj len by simp
  then have "Windows (?ps ! k) = planned_windows opts (rangeRunes (sec_text (par_sections parent ! k)))"
    by (simp add: plan_of_def planned_section_def normalized_sections_def)
  then show "w \<in> set (filter Emit (planned_windows opts (rangeRunes (sec_text (par_sections parent ! k)))))"
    using w kj by simp
qed

text \<open>A chunk as it goes to the embedding model: bounded, not blank, without white space at its ends, and with
  the identity of its text in its section.\<close>

definition chunk_wf :: "parent \<Rightarrow> chunk_options \<Rightarrow> chunk \<Rightarrow> bool" where
  "chunk_wf parent opts c \<longleftrightarrow> (let rs = rangeRunes (chunk_text c) in
     rs \<noteq> [] \<and> \<not> isSpace (hd rs) \<and> \<not> isSpace (last rs) \<and> int (length rs) \<le> MaxRunes opts \<and>
     length (chunk_text c) \<le> MaxUTF8Bytes \<and> encodeRunes rs = chunk_text c \<and>
     chunk_text_hash c = textHash (chunk_text c) \<and>
     chunk_id c = chunkID (chunk_section_key c) (chunk_role c) (chunk_derived c) (chunk_heading_hash c) (chunk_text_hash c) \<and>
     chunk_section_key c \<in> sectionKey parent ` set (par_sections parent))"

lemma item_chunk_wf:
  assumes ok: "metadata_ok parent" "valid_sizes opts" and it: "it \<in> set (all_items parent opts)"
  shows "chunk_wf parent opts (item_chunk (session_of parent opts) it)"
proof -
  obtain k p w where kpw: "it = (k, p, w)" by (metis prod_cases3)
  note i = all_items_in [OF ok it [unfolded kpw]]
  let ?t = "par_sections parent ! k"
  let ?s = "normalized_section parent ?t"
  have opts: "options_ok opts" using ok(2) by (simp add: valid_sizes_def)
  have "sec_text ?s = encodeRunes (rangeRunes (sec_text ?t))" by (simp add: normalized_section_def normalizeUTF8_def)
  from emitted_window_text [OF opts i(2) this] obtain rs where rs: "window_text ?s w = encodeRunes rs" "scalars rs"
    "rs \<noteq> []" "\<not> isSpace (hd rs)" "\<not> isSpace (last rs)" "int (length rs) \<le> MaxRunes opts"
    "length (window_text ?s w) \<le> MaxUTF8Bytes" .
  have "rangeRunes (encodeRunes rs) = rs" using rs(2) by (simp add: range_encodeRunes scalars_iff)
  moreover have "sec_key ?s \<in> sectionKey parent ` set (par_sections parent)"
    using i(1) by (auto simp: normalized_section_def)
  ultimately show ?thesis
    using i(1) rs by (simp add: chunk_wf_def kpw item_chunk_def session_of_def window_chunk_def window_chunk_id_def Let_def
        normalized_sections_def)
qed

text \<open>C6. A projection keeps each chunk once: the chunks have distinct identities, which are those of the
  occurrences, and each is well formed: not blank, trimmed, valid UTF-8 of at most \<open>MaxRunes\<close> runes and
  1800 bytes, with an identity that hashes its section, role, heading and text.\<close>

theorem projection_chunks_well_formed:
  assumes "BuildProjection parent opts = Some (Inr p)"
  shows "distinct (map chunk_id (proj_chunks p)) \<and>
    set (map chunk_id (proj_chunks p)) = set (map occ_chunk_id (proj_occurrences p)) \<and>
    list_all (chunk_wf parent opts) (proj_chunks p)"
proof -
  note b = BuildProjection_returns [OF assms]
  note c = collected [where p = no_projection]
  have empty: "proj_chunks no_projection = []" "proj_occurrences no_projection = []"
    by (simp_all add: no_projection_def)
  have "chunk_id \<circ> item_chunk ses = occ_chunk_id \<circ> item_occurrence ses" for ses
    by (rule ext) (simp add: item_chunk_def item_occurrence_def window_chunk_def window_occurrence_def Let_def
        split: prod.split)
  then have "set (map (chunk_id \<circ> item_chunk ses) its) = set (map occ_chunk_id (map (item_occurrence ses) its))" for ses its
    by simp
  moreover have "chunk_wf parent opts ch" if "ch \<in> set (proj_chunks p)" for ch
    using that c(4) item_chunk_wf [OF b(1,2)] by (fastforce simp: b(3) empty)
  ultimately show ?thesis
    using c(1-3) by (simp add: b(3) empty list_all_iff)
qed

lemma example_projection:
  "BuildProjection example_parent DefaultOptions = Some (Inr ((send_all (session_of example_parent DefaultOptions)
      collect_chunk (all_items example_parent DefaultOptions) no_projection)
        \<lparr>proj_parent_hash := parentHash example_parent\<rparr>))"
  by (rule BuildProjection_ok [OF example_metadata default_sizes(1)]) (use example_planning in \<open>simp add: planning_ok_def\<close>)

theorem projection_covers_text_witness:
  "words (concat (map (occurrence_runes (rangeRunes '' Hello.  Bye. ''))
      (filter (\<lambda>oc. occ_section_key oc = sectionKey example_parent (par_sections example_parent ! 0))
        (map (item_occurrence (session_of example_parent DefaultOptions)) (all_items example_parent DefaultOptions))))) =
    map of_char ''Hello.Bye.''"
proof -
  have "words (rangeRunes '' Hello.  Bye. '') = map of_char ''Hello.Bye.''"
    by (simp add: range_ascii in_bytes_def isSpace_def space_runes_def)
  then show ?thesis
    using projection_covers_text [OF example_projection, of 0]
    by (simp add: collected no_projection_def example_parent_def)
qed

theorem projection_chunks_well_formed_witness:
  "distinct (map chunk_id (proj_chunks (send_all (session_of example_parent DefaultOptions)
      collect_chunk (all_items example_parent DefaultOptions) no_projection)))"
  using projection_chunks_well_formed [OF example_projection] by simp

end
