(* ===== verification/ChunkProject.thy ===== *)
theory ChunkProject
  imports ChunkIdentity
begin

text \<open>
  The projection of a stored item or source document to the parent the chunker splits
  (\<open>internal/retrievalchunk/projection.go\<close>), and the classification of section roles
  (\<open>roles.go\<close>). The records hold the fields of \<open>model.Item\<close> and \<open>model.SourceDocument\<close> that the
  projection reads.
\<close>

record model_item =
  item_source_key :: string
  item_content_hash :: string
  item_title :: string
  item_source_type :: string
  item_author_name :: string
  item_author_handle :: string
  item_text :: string
  item_x_post_text :: string
  item_ocr_text :: string
  item_article_title :: string
  item_article_text :: string
  item_summary_text :: string

record source_document =
  src_source_key :: string
  src_content_hash :: string
  src_title :: string
  src_source_type :: string
  src_domain :: string
  src_extracted_text :: string
  src_summary_text :: string

definition XMediaTranscriptArticleTitle :: string where
  "XMediaTranscriptArticleTitle = ''X Media Transcript''"

fun firstNonBlank :: "string list \<Rightarrow> string" where
  "firstNonBlank [] = []"
| "firstNonBlank (v # vs) = (if TrimSpace v \<noteq> [] then TrimSpace v else firstNonBlank vs)"

text \<open>\<open>appendSection\<close>: blank text is skipped, and text already there under the same role.\<close>

definition dedupeKey :: "string \<Rightarrow> string \<Rightarrow> string" where
  "dedupeKey role body = role @ [CHR 0x00] @ body"

definition appendSection ::
  "string \<Rightarrow> string \<Rightarrow> string \<Rightarrow> string \<Rightarrow> bool \<Rightarrow> chunk_section list \<times> string list \<Rightarrow>
   chunk_section list \<times> string list" where
  "appendSection key role heading body derived s =
     (let body = TrimSpace body; dedupe = dedupeKey role body in
      if body = [] \<or> dedupe \<in> set (snd s) then s
      else (fst s @ [\<lparr>sec_key = key, sec_role = role, sec_heading = TrimSpace heading, sec_text = body,
              sec_derived = derived\<rparr>], dedupe # snd s))"

definition item_sections :: "model_item \<Rightarrow> string \<Rightarrow> chunk_section list" where
  "item_sections item title = fst
     (appendSection ''item:summary'' ''summary'' ''Summary'' (item_summary_text item) True
     ((if TrimSpace (item_article_title item) = XMediaTranscriptArticleTitle
       then appendSection ''item:transcript'' ''transcript'' XMediaTranscriptArticleTitle
              (item_article_text item) False
       else appendSection ''item:article'' ''raw'' (item_article_title item)
              (item_article_text item) False)
     (appendSection ''item:ocr'' ''ocr'' ''OCR'' (item_ocr_text item) False
     (appendSection ''item:x_post_text'' ''raw'' title (item_x_post_text item) False
     (appendSection ''item:text'' ''raw'' title (item_text item) False ([], []))))))"

definition ProjectItem :: "model_item \<Rightarrow> parent" where
  "ProjectItem item =
     \<lparr>par_kind = ''item'', par_source_key = TrimSpace (item_source_key item),
      par_content_hash = TrimSpace (item_content_hash item), par_title = TrimSpace (item_title item),
      par_source_type = TrimSpace (item_source_type item),
      par_author = firstNonBlank [item_author_name item, item_author_handle item],
      par_sections = item_sections item (TrimSpace (item_title item))\<rparr>"

definition ProjectSource :: "source_document \<Rightarrow> parent" where
  "ProjectSource doc =
     (let title = TrimSpace (src_title doc); body = TrimSpace (src_extracted_text doc);
          summary = TrimSpace (src_summary_text doc)
      in \<lparr>par_kind = ''source'', par_source_key = TrimSpace (src_source_key doc),
          par_content_hash = TrimSpace (src_content_hash doc), par_title = title,
          par_source_type = TrimSpace (src_source_type doc), par_author = TrimSpace (src_domain doc),
          par_sections =
            (if body \<noteq> [] then [\<lparr>sec_key = ''source:extract'', sec_role = ''raw'', sec_heading = title,
               sec_text = body, sec_derived = False\<rparr>] else []) @
            (if summary \<noteq> [] then [\<lparr>sec_key = ''source:summary'', sec_role = ''summary'',
               sec_heading = ''Summary'', sec_text = summary, sec_derived = True\<rparr>] else [])\<rparr>)"

text \<open>\<open>strings.ToLower\<close> as far as a comparison with an ASCII text sees it: besides A to Z, the
  runes whose lower case is an ASCII letter are U+0130 and U+212A.\<close>

definition lowerRune :: "rune \<Rightarrow> rune" where
  "lowerRune r = (if 65 \<le> r \<and> r \<le> 90 then r + 32 else if r = 304 then 105 else if r = 8490 then 107 else r)"

definition IsRawSupportRole :: "string \<Rightarrow> bool" where
  "IsRawSupportRole role =
     (let role = encodeRunes (map lowerRune (rangeRunes (TrimSpace role))) in
      hasPrefix role ''raw'' \<or> role = ''ocr'' \<or> role = ''transcript'')"

section \<open>The sections of a projection\<close>

text \<open>The state of \<open>appendSection\<close>: every text is trimmed and not blank, the seen keys are those of
  the sections, and no two sections have the same key, or the same role and text.\<close>

definition projected :: "string list \<Rightarrow> chunk_section list \<times> string list \<Rightarrow> bool" where
  "projected keys s \<longleftrightarrow>
     (\<forall>c \<in> set (fst s). sec_text c \<noteq> [] \<and> TrimSpace (sec_text c) = sec_text c \<and>
        TrimSpace (sec_heading c) = sec_heading c \<and> sec_key c \<in> set keys) \<and>
     distinct (map sec_key (fst s)) \<and>
     distinct (map (\<lambda>c. (sec_role c, sec_text c)) (fst s)) \<and>
     set (snd s) = (\<lambda>c. dedupeKey (sec_role c) (sec_text c)) ` set (fst s)"

lemma projected_append:
  assumes "projected keys s" "key \<notin> set keys"
  shows "projected (key # keys) (appendSection key role heading body derived s)"
  using assms
  by (auto simp: projected_def appendSection_def Let_def image_iff)

lemma projected_empty: "projected [] ([], [])"
  by (simp add: projected_def)

end
