(* ===== verification/RefreshStamp.thy ===== *)
theory RefreshStamp
  imports TextOrder
begin

text \<open>
  The timestamps of the semantic refresh ledger: fixed-width UTC text with nine digits of fraction
  (\<open>semanticRefreshTimestampLayout\<close>). The text loses nothing, and its order in SQLite is
  the order of the instants.
\<close>

definition refresh_stamp :: "gotime \<Rightarrow> string" where
  "refresh_stamp t = format_seconds (instant t div second) @ ''.'' @ dec_pad 9 (instant t mod second) @ ''Z''"

text \<open>\<open>time.Parse\<close> with that layout: exactly nine digits and a literal Z.\<close>

definition parse_stamp :: "string \<Rightarrow> gotime option" where
  "parse_stamp s = do {
     (sec, s) \<leftarrow> parse_seconds s;
     s \<leftarrow> expect_char (CHR ''.'') s;
     (ns, s) \<leftarrow> parse_digits 9 0 s;
     if s = ''Z'' then Some \<lparr>instant = sec * second + ns, utc_loc = True\<rparr> else None }"

lemma parse_stamp_format:
  assumes "formattable t"
  shows "parse_stamp (refresh_stamp t) = Some (t_utc t)"
proof -
  have "0 \<le> instant t mod second" "instant t mod second < 10 ^ Suc 8"
    by (simp_all add: second_def)
  then have "parse_field (Suc 8) 0 999999999 (dec_pad (Suc 8) (instant t mod second) @ ''Z'') = Some (instant t mod second, ''Z'')"
    by (intro parse_field_pad) simp_all
  then have "parse_digits 9 0 (dec_pad 9 (instant t mod second) @ ''Z'') = Some (instant t mod second, ''Z'')"
    by (auto simp: parse_field_def bind_eq_Some_conv split: if_splits)
  moreover have "\<lparr>instant = instant t div second * second + instant t mod second, utc_loc = True\<rparr> = t_utc t"
    by (simp add: t_utc_def)
  ultimately show ?thesis
    unfolding parse_stamp_def refresh_stamp_def
    by (simp add: parse_seconds_format [OF formattable_seconds [OF assms]])
qed

lemma refresh_stamp_utc [simp]: "refresh_stamp (t_utc t) = refresh_stamp t"
  by (simp add: refresh_stamp_def)

definition stamp_fields :: "gotime \<Rightarrow> (nat \<times> int \<times> string) list" where
  "stamp_fields t = butlast (time_fields (instant t div second)) @
     [(1, instant t div second mod 86400 mod 60, ''.''), (8, instant t mod second, ''Z'')]"

lemma render_append: "render (xs @ ys) = render xs @ render ys"
  by (induction xs rule: render.induct) simp_all

lemma stamp_render: "refresh_stamp t = render (stamp_fields t)"
  by (simp add: refresh_stamp_def format_seconds_def stamp_fields_def time_fields_def Let_def eval_nat_numeral
      split: prod.splits)

lemma stamp_fields_less:
  assumes "formattable a" "formattable b" "instant a < instant b"
  shows "text_less (refresh_stamp a) (refresh_stamp b)"
proof -
  let ?s = "instant a div second" and ?t = "instant b div second"
  note ra = formattable_seconds [OF assms(1)] and rb = formattable_seconds [OF assms(2)]
  have "?s \<le> ?t" using assms(3) by (simp add: second_def zdiv_mono1)
  have nano: "0 \<le> instant t mod second" "instant t mod second < 10 ^ Suc 8" for t
    by (simp_all add: second_def)
  have "list_all2 (\<lambda>(w, m, x) (v, n, y). w = v \<and> x = y \<and> 0 \<le> m \<and> m < 10 ^ Suc w \<and> 0 \<le> n \<and> n < 10 ^ Suc w)
     (stamp_fields a) (stamp_fields b)"
    using time_fields_range [OF ra rb] nano [of a] nano [of b]
    by (simp add: stamp_fields_def time_fields_def split: prod.splits)
  moreover have "fields_less (map (\<lambda>(w, m, _). (w, m)) (stamp_fields a)) (map (\<lambda>(w, m, _). (w, m)) (stamp_fields b))"
  proof (cases "?s = ?t")
    case True
    have "instant a mod second < instant b mod second"
      using assms(3) True by (metis add_less_cancel_left div_mult_mod_eq)
    then show ?thesis
      using True by (simp add: stamp_fields_def time_fields_def split: prod.splits)
  next
    case False
    then have "fields_less (map (\<lambda>(w, m, _). (w, m)) (time_fields ?s)) (map (\<lambda>(w, m, _). (w, m)) (time_fields ?t))"
      using \<open>?s \<le> ?t\<close> ra rb by (intro time_fields_less) simp_all
    then show ?thesis
      by (simp add: stamp_fields_def time_fields_def split: prod.splits) blast
  qed
  ultimately show ?thesis unfolding stamp_render by (rule render_less)
qed

lemma refresh_stamp_less:
  assumes "formattable a" "formattable b"
  shows "text_less (refresh_stamp a) (refresh_stamp b) \<longleftrightarrow> instant a < instant b"
proof (cases "instant a" "instant b" rule: linorder_cases)
  case less
  then show ?thesis using stamp_fields_less [OF assms] by simp
next
  case equal
  then have "refresh_stamp a = refresh_stamp b" by (simp add: refresh_stamp_def)
  then show ?thesis using equal by simp
next
  case greater
  then show ?thesis using stamp_fields_less [OF assms(2,1)] text_less_asym by fastforce
qed

end
