(* ===== verification/RefreshText.thy ===== *)
theory RefreshText
  imports ChunkText
begin

text \<open>
  The text fields of the semantic refresh ledger: made valid UTF-8, white space collapsed and cut
  to a number of bytes at a character boundary (\<open>truncateSemanticRefreshRunUTF8\<close> of
  \<open>internal/store/semantic_refresh_runs.go\<close>, \<open>boundedDiagnostic\<close> and
  \<open>boundedProtocolField\<close> of \<open>internal/semanticrefresh/errors.go\<close>).
\<close>

text \<open>A string as its runes, each with the bytes it was decoded from.\<close>

function segments :: "string \<Rightarrow> (rune \<times> string) list" where
  "segments s = (if s = [] then [] else
     (case decodeRune s of (r, n) \<Rightarrow> (r, take n s) # segments (drop n s)))"
  by pat_completeness auto
termination
proof (relation "measure length")
  fix s r n
  assume "s \<noteq> []" "(r, n) = decodeRune s"
  then show "(drop n s, s) \<in> measure length"
    using decodeRune_width [of s] by (cases s) (auto simp: prod_eq_iff)
qed simp

declare segments.simps [simp del]

text \<open>\<open>strings.ToValidUTF8(s, "\uFFFD")\<close>: one replacement for each run of invalid bytes. An
  invalid byte decodes to U+FFFD with width 1.\<close>

fun valid_segments :: "bool \<Rightarrow> (rune \<times> string) list \<Rightarrow> string" where
  "valid_segments inRun [] = []"
| "valid_segments inRun ((r, b) # ss) =
     (if r = rune_error \<and> length b = 1
      then (if inRun then [] else encodeRune rune_error) @ valid_segments True ss
      else b @ valid_segments False ss)"

definition ToValidUTF8 :: "string \<Rightarrow> string" where
  "ToValidUTF8 s = valid_segments False (segments s)"

text \<open>\<open>strings.Fields\<close>; \<open>w\<close> is the field being read.\<close>

fun fields_from :: "string \<Rightarrow> (rune \<times> string) list \<Rightarrow> string list" where
  "fields_from w [] = (if w = [] then [] else [w])"
| "fields_from w ((r, b) # ss) =
     (if isSpace r then (if w = [] then [] else [w]) @ fields_from [] ss else fields_from (w @ b) ss)"

definition Fields :: "string \<Rightarrow> string list" where
  "Fields s = fields_from [] (segments s)"

text \<open>\<open>for end > 0 && !utf8.ValidString(value[:end]) { end-- }\<close>\<close>

fun valid_cut :: "nat \<Rightarrow> string \<Rightarrow> nat" where
  "valid_cut 0 value = 0"
| "valid_cut (Suc stop) value = (if utf8_valid (take (Suc stop) value) then Suc stop else valid_cut stop value)"

definition cut_utf8 :: "string \<Rightarrow> nat \<Rightarrow> string" where
  "cut_utf8 value limit = (if length value \<le> limit then value else take (valid_cut limit value) value)"

definition truncateSemanticRefreshRunUTF8 :: "string \<Rightarrow> nat \<Rightarrow> string" where
  "truncateSemanticRefreshRunUTF8 value limit = cut_utf8 (ToValidUTF8 value) limit"

definition boundedDiagnostic :: "string \<Rightarrow> nat \<Rightarrow> string" where
  "boundedDiagnostic value limit = cut_utf8 (joinWith '' '' (Fields (ToValidUTF8 value))) limit"

definition protocol_rune :: "rune \<Rightarrow> bool" where
  "protocol_rune r \<longleftrightarrow> 97 \<le> r \<and> r \<le> 122 \<or> 65 \<le> r \<and> r \<le> 90 \<or> 48 \<le> r \<and> r \<le> 57 \<or>
     r \<in> set (map of_char ''._:=+-'')"

definition boundedProtocolField :: "string \<Rightarrow> nat \<Rightarrow> string" where
  "boundedProtocolField value limit =
     (let value = boundedDiagnostic value limit in
      if list_all protocol_rune (rangeRunes value) then value else [])"

section \<open>Bounds\<close>

lemma valid_cut_le: "valid_cut n v \<le> n"
  by (induction n) auto

lemma valid_cut_prefix: "utf8_valid (take (valid_cut n v) v)"
  by (induction n) auto

lemma length_cut_utf8: "length (cut_utf8 v n) \<le> n"
  using valid_cut_le [of n v] by (auto simp: cut_utf8_def)

lemma cut_utf8_small [simp]: "length v \<le> n \<Longrightarrow> cut_utf8 v n = v"
  by (simp add: cut_utf8_def)

lemma length_truncate [simp]: "length (truncateSemanticRefreshRunUTF8 v n) \<le> n"
  by (simp add: truncateSemanticRefreshRunUTF8_def length_cut_utf8)

lemma length_diagnostic [simp]: "length (boundedDiagnostic v n) \<le> n"
  by (simp add: boundedDiagnostic_def length_cut_utf8)

lemma length_protocol [simp]: "length (boundedProtocolField v n) \<le> n"
  by (simp add: boundedProtocolField_def Let_def)

text \<open>A field of protocol characters is kept as it is.\<close>

definition protocol_text :: "string \<Rightarrow> bool" where
  "protocol_text s \<longleftrightarrow> list_all (in_bytes 0 127) s \<and> list_all (\<lambda>c. protocol_rune (of_char c)) s"

lemma segments_ascii: "list_all (in_bytes 0 127) s \<Longrightarrow> segments s = map (\<lambda>c. (of_char c, [c])) s"
proof (induction s)
  case Nil
  then show ?case by (simp add: segments.simps)
next
  case (Cons c s)
  then show ?case by (subst segments.simps) (simp add: decodeRune.simps(2))
qed

lemma ToValidUTF8_ascii:
  assumes "list_all (in_bytes 0 127) s"
  shows "ToValidUTF8 s = s"
proof -
  have "valid_segments inRun (map (\<lambda>c. (of_char c, [c])) s) = s" for inRun
    using assms by (induction s arbitrary: inRun) (auto simp: rune_error_def in_bytes_def)
  then show ?thesis by (simp add: ToValidUTF8_def segments_ascii [OF assms])
qed

lemma protocol_rune_not_space: "protocol_rune r \<Longrightarrow> \<not> isSpace r"
  by (auto simp: protocol_rune_def isSpace_def space_runes_def)

lemma fields_from_word:
  "list_all (\<lambda>c. protocol_rune (of_char c)) s \<Longrightarrow>
    fields_from w (map (\<lambda>c. (of_char c, [c])) s) = (if w @ s = [] then [] else [w @ s])"
  by (induction s arbitrary: w) (auto dest: protocol_rune_not_space)

lemma protocol_diagnostic_kept:
  assumes "protocol_text s" "length s \<le> n"
  shows "boundedDiagnostic s n = s"
proof -
  from assms(1) have a: "list_all (in_bytes 0 127) s" "list_all (\<lambda>c. protocol_rune (of_char c)) s"
    by (simp_all add: protocol_text_def)
  have "joinWith '' '' (Fields (ToValidUTF8 s)) = s"
    using a(2) by (simp add: ToValidUTF8_ascii [OF a(1)] Fields_def segments_ascii [OF a(1)] fields_from_word)
  then show ?thesis using assms(2) by (simp add: boundedDiagnostic_def)
qed

lemma protocol_field_kept:
  assumes "protocol_text s" "length s \<le> n"
  shows "boundedProtocolField s n = s"
proof -
  from assms(1) have a: "list_all (in_bytes 0 127) s" "list_all (\<lambda>c. protocol_rune (of_char c)) s"
    by (simp_all add: protocol_text_def)
  have "rangeRunes s = map of_char s"
    using a(1) by (induction s) (subst rangeRunes.simps, simp add: decodeRune.simps(2))+
  then show ?thesis
    using a(2) by (simp add: boundedProtocolField_def protocol_diagnostic_kept [OF assms] list_all_iff)
qed

end
