(* ===== verification/RefreshLedger.thy ===== *)
theory RefreshLedger
  imports RefreshStamp RefreshText "HOL-Library.Product_Lexorder"
begin

text \<open>
  The ledger of semantic refresh runs (\<open>internal/store/semantic_refresh_runs.go\<close>): one row
  per run, with the stage the run has reached and its counters. The ledger is the list of rows of
  the table in insertion order; a row keeps its times as text (\<open>RefreshStamp\<close>), and a
  returned run has them parsed. The schema's checks and unique indexes hold of every table a
  statement leaves; a statement that would break them fails. \<open>fails k\<close> says that the
  \<open>k\<close>-th statement of an operation fails for another reason (the driver, a busy database).
\<close>

section \<open>Runs\<close>

record refresh_counters =
  ProjectedParents :: int
  EmbeddedChunks :: int
  FlushedVectors :: int
  CompactedVectors :: int
  VerifiedVectors :: int
  SuccessorRuns :: int

record 'ts refresh_run =
  RunID :: string
  ProfileID :: string
  Checkpoint :: string
  CurrentGenerationID :: string
  ErrorCode :: string
  ErrorText :: string
  ReadinessState :: string
  PurgeEpoch :: int
  ProjectionWatermark :: int
  EmbeddingRevision :: int
  Version :: int
  Stage :: string
  State :: string
  Counters :: refresh_counters
  CreatedAt :: 'ts
  UpdatedAt :: 'ts
  LastProgressAt :: 'ts

type_synonym stored_run = "string refresh_run"
type_synonym loaded_run = "gotime refresh_run"
type_synonym ledger = "stored_run list"

definition SemanticRefreshRunRunning :: string where "SemanticRefreshRunRunning = ''running''"
definition SemanticRefreshRunFailed :: string where "SemanticRefreshRunFailed = ''failed''"
definition SemanticRefreshRunCancelled :: string where "SemanticRefreshRunCancelled = ''cancelled''"
definition SemanticRefreshRunCompleted :: string where "SemanticRefreshRunCompleted = ''completed''"
definition SemanticRefreshRunSuperseded :: string where "SemanticRefreshRunSuperseded = ''superseded''"

lemmas run_state_defs = SemanticRefreshRunRunning_def SemanticRefreshRunFailed_def
  SemanticRefreshRunCancelled_def SemanticRefreshRunCompleted_def SemanticRefreshRunSuperseded_def

definition SemanticRefreshProjection :: string where "SemanticRefreshProjection = ''projection''"
definition SemanticRefreshEmbedding :: string where "SemanticRefreshEmbedding = ''embedding''"
definition SemanticRefreshFlush :: string where "SemanticRefreshFlush = ''flush''"
definition SemanticRefreshCompaction :: string where "SemanticRefreshCompaction = ''compaction''"
definition SemanticRefreshVerify :: string where "SemanticRefreshVerify = ''verify''"
definition SemanticRefreshReadiness :: string where "SemanticRefreshReadiness = ''readiness''"

lemmas run_stage_defs = SemanticRefreshProjection_def SemanticRefreshEmbedding_def SemanticRefreshFlush_def
  SemanticRefreshCompaction_def SemanticRefreshVerify_def SemanticRefreshReadiness_def

definition run_stages :: "string list" where
  "run_stages = [SemanticRefreshProjection, SemanticRefreshEmbedding, SemanticRefreshFlush,
     SemanticRefreshCompaction, SemanticRefreshVerify, SemanticRefreshReadiness]"

definition resumable_states :: "string list" where
  "resumable_states = [SemanticRefreshRunRunning, SemanticRefreshRunFailed, SemanticRefreshRunCancelled]"

definition resumable :: "'ts refresh_run \<Rightarrow> bool" where
  "resumable r \<longleftrightarrow> State r \<in> set resumable_states"

definition validSemanticRefreshCounters :: "refresh_counters \<Rightarrow> bool" where
  "validSemanticRefreshCounters c \<longleftrightarrow> 0 \<le> ProjectedParents c \<and> 0 \<le> EmbeddedChunks c \<and> 0 \<le> FlushedVectors c \<and>
     0 \<le> CompactedVectors c \<and> 0 \<le> VerifiedVectors c \<and> 0 \<le> SuccessorRuns c"

definition zero_counters :: refresh_counters where
  "zero_counters = \<lparr>ProjectedParents = 0, EmbeddedChunks = 0, FlushedVectors = 0, CompactedVectors = 0,
     VerifiedVectors = 0, SuccessorRuns = 0\<rparr>"

text \<open>The CHECK constraints of \<open>semanticRefreshRunsV26CreateTableSQL\<close>; a BLOB's length is in bytes.\<close>

definition row_check :: "stored_run \<Rightarrow> bool" where
  "row_check r \<longleftrightarrow> 1 \<le> length (RunID r) \<and> length (RunID r) \<le> 64 \<and>
     1 \<le> length (ProfileID r) \<and> length (ProfileID r) \<le> 192 \<and>
     0 \<le> PurgeEpoch r \<and> 0 \<le> ProjectionWatermark r \<and> 0 \<le> EmbeddingRevision r \<and>
     Stage r \<in> set run_stages \<and> length (Checkpoint r) \<le> 256 \<and> validSemanticRefreshCounters (Counters r) \<and>
     State r \<in> set (resumable_states @ [SemanticRefreshRunCompleted, SemanticRefreshRunSuperseded]) \<and>
     length (ErrorCode r) \<le> 64 \<and> length (ErrorText r) \<le> 512 \<and> length (ReadinessState r) \<le> 64 \<and>
     0 < Version r"

text \<open>The checks, the primary key and the unique index of resumable runs.\<close>

definition schema_ok :: "ledger \<Rightarrow> bool" where
  "schema_ok t \<longleftrightarrow> list_all row_check t \<and> distinct (map RunID t) \<and> distinct (map ProfileID (filter resumable t))"

section \<open>Statements and transactions\<close>

datatype ledger_error = InvalidRunInput | SQLFailed | RunStale | BadTimestamp | LedgerUnavailable | StageWaitEnded

type_synonym 'a tx = "ledger \<Rightarrow> ledger_error + (ledger \<times> 'a)"

definition tx_return :: "'a \<Rightarrow> 'a tx" where
  "tx_return x t = Inr (t, x)"

definition tx_fail :: "ledger_error \<Rightarrow> 'a tx" where
  "tx_fail e t = Inl e"

definition tx_then :: "'a tx \<Rightarrow> ('a \<Rightarrow> 'b tx) \<Rightarrow> 'b tx" where
  "tx_then m f t = (case m t of Inl e \<Rightarrow> Inl e | Inr (t', x) \<Rightarrow> f x t')"

definition update_rows :: "(stored_run \<Rightarrow> bool) \<Rightarrow> (stored_run \<Rightarrow> stored_run) \<Rightarrow> ledger \<Rightarrow> ledger" where
  "update_rows p f t = map (\<lambda>r. if p r then f r else r) t"

definition exec_update :: "bool \<Rightarrow> (stored_run \<Rightarrow> bool) \<Rightarrow> (stored_run \<Rightarrow> stored_run) \<Rightarrow> unit tx" where
  "exec_update fails p f t = (let t' = update_rows p f t in
     if fails \<or> \<not> schema_ok t' then Inl SQLFailed else Inr (t', ()))"

definition exec_insert :: "bool \<Rightarrow> stored_run \<Rightarrow> unit tx" where
  "exec_insert fails r t = (if fails \<or> \<not> schema_ok (t @ [r]) then Inl SQLFailed else Inr (t @ [r], ()))"

definition query_row :: "bool \<Rightarrow> (stored_run \<Rightarrow> bool) \<Rightarrow> stored_run option tx" where
  "query_row fails p t = (if fails then Inl SQLFailed else Inr (t, find p t))"

definition tx_commit :: "bool \<Rightarrow> unit tx" where
  "tx_commit fails t = (if fails then Inl SQLFailed else Inr (t, ()))"

text \<open>A transaction that returns an error is rolled back.\<close>

definition transaction :: "bool \<Rightarrow> 'a tx \<Rightarrow> ledger \<Rightarrow> ledger \<times> (ledger_error + 'a)" where
  "transaction beginFails m t = (if beginFails then (t, Inl SQLFailed) else
     case m t of Inl e \<Rightarrow> (t, Inl e) | Inr (t', x) \<Rightarrow> (t', Inr x))"

definition scanSemanticRefreshRun :: "stored_run \<Rightarrow> ledger_error + loaded_run" where
  "scanSemanticRefreshRun r =
     (case parse_stamp (CreatedAt r) of None \<Rightarrow> Inl BadTimestamp
      | Some created \<Rightarrow> (case parse_stamp (UpdatedAt r) of None \<Rightarrow> Inl BadTimestamp
      | Some updated \<Rightarrow> (case parse_stamp (LastProgressAt r) of None \<Rightarrow> Inl BadTimestamp
      | Some progressed \<Rightarrow> Inr \<lparr>RunID = RunID r, ProfileID = ProfileID r, Checkpoint = Checkpoint r,
          CurrentGenerationID = CurrentGenerationID r, ErrorCode = ErrorCode r, ErrorText = ErrorText r,
          ReadinessState = ReadinessState r, PurgeEpoch = PurgeEpoch r,
          ProjectionWatermark = ProjectionWatermark r, EmbeddingRevision = EmbeddingRevision r,
          Version = Version r, Stage = Stage r, State = State r, Counters = Counters r,
          CreatedAt = created, UpdatedAt = updated, LastProgressAt = progressed\<rparr>)))"

definition scan_tx :: "stored_run \<Rightarrow> loaded_run tx" where
  "scan_tx r t = (case scanSemanticRefreshRun r of Inl e \<Rightarrow> Inl e | Inr run \<Rightarrow> Inr (t, run))"

text \<open>\<open>SELECT ... WHERE run_id=?\<close> and its scan.\<close>

definition select_run :: "bool \<Rightarrow> string \<Rightarrow> loaded_run tx" where
  "select_run fails runID = tx_then (query_row fails (\<lambda>r. RunID r = runID))
     (\<lambda>found. case found of None \<Rightarrow> tx_fail SQLFailed | Some r \<Rightarrow> scan_tx r)"

section \<open>Operations\<close>

text \<open>A zero \<open>now\<close> is replaced by the wall clock.\<close>

definition semanticRefreshNow :: "gotime \<Rightarrow> gotime \<Rightarrow> string" where
  "semanticRefreshNow wall now = refresh_stamp (t_utc (if t_isZero now then wall else now))"

record start_input =
  in_RunID :: string
  in_ProfileID :: string
  in_PurgeEpoch :: int
  in_ProjectionWatermark :: int
  in_InitialCounters :: refresh_counters
  in_Now :: gotime

definition supersede :: "string \<Rightarrow> stored_run \<Rightarrow> stored_run" where
  "supersede now r = r\<lparr>State := SemanticRefreshRunSuperseded, Version := Version r + 1, UpdatedAt := now,
     LastProgressAt := now\<rparr>"

definition resume_row :: "string \<Rightarrow> stored_run \<Rightarrow> stored_run" where
  "resume_row now r = r\<lparr>State := SemanticRefreshRunRunning, ErrorCode := [], ErrorText := [],
     Version := Version r + 1, UpdatedAt := now, LastProgressAt := now\<rparr>"

definition new_row :: "start_input \<Rightarrow> string \<Rightarrow> stored_run" where
  "new_row i now = \<lparr>RunID = in_RunID i, ProfileID = in_ProfileID i, Checkpoint = [], CurrentGenerationID = [],
     ErrorCode = [], ErrorText = [], ReadinessState = [], PurgeEpoch = in_PurgeEpoch i,
     ProjectionWatermark = in_ProjectionWatermark i, EmbeddingRevision = 0, Version = 1,
     Stage = SemanticRefreshProjection, State = SemanticRefreshRunRunning, Counters = in_InitialCounters i,
     CreatedAt = now, UpdatedAt = now, LastProgressAt = now\<rparr>"

definition matches_start :: "start_input \<Rightarrow> stored_run \<Rightarrow> bool" where
  "matches_start i r \<longleftrightarrow> ProfileID r = in_ProfileID i \<and> PurgeEpoch r = in_PurgeEpoch i \<and> resumable r"

definition start_tx :: "(nat \<Rightarrow> bool) \<Rightarrow> start_input \<Rightarrow> string \<Rightarrow> (loaded_run \<times> bool) tx" where
  "start_tx fails i now =
     tx_then (exec_update (fails 1) (\<lambda>r. ProfileID r \<noteq> in_ProfileID i \<and> resumable r) (supersede now)) (\<lambda>_.
     tx_then (exec_update (fails 2) (\<lambda>r. ProfileID r = in_ProfileID i \<and> PurgeEpoch r \<noteq> in_PurgeEpoch i \<and> resumable r)
       (supersede now)) (\<lambda>_.
     tx_then (query_row (fails 3) (matches_start i)) (\<lambda>found. case found of
       Some r \<Rightarrow>
         tx_then (scan_tx r) (\<lambda>run.
         tx_then (exec_update (fails 4) (\<lambda>r. RunID r = RunID run) (resume_row now)) (\<lambda>_.
         tx_then (select_run (fails 5) (RunID run)) (\<lambda>run.
         tx_then (tx_commit (fails 6)) (\<lambda>_. tx_return (run, True)))))
     | None \<Rightarrow>
         if \<not> validSemanticRefreshCounters (in_InitialCounters i) then tx_fail InvalidRunInput
         else
           tx_then (exec_insert (fails 4) (new_row i now)) (\<lambda>_.
           tx_then (select_run (fails 5) (in_RunID i)) (\<lambda>run.
           tx_then (tx_commit (fails 6)) (\<lambda>_. tx_return (run, False)))))))"

definition trimmed_input :: "start_input \<Rightarrow> start_input" where
  "trimmed_input i = i\<lparr>in_RunID := TrimSpace (in_RunID i), in_ProfileID := TrimSpace (in_ProfileID i)\<rparr>"

definition StartOrResumeSemanticRefreshRun ::
  "(nat \<Rightarrow> bool) \<Rightarrow> gotime \<Rightarrow> start_input \<Rightarrow> ledger \<Rightarrow> ledger \<times> (ledger_error + (loaded_run \<times> bool))" where
  "StartOrResumeSemanticRefreshRun fails wall i t =
     (let i = trimmed_input i in
      if in_RunID i = [] \<or> in_ProfileID i = [] \<or> in_PurgeEpoch i < 0 \<or> in_ProjectionWatermark i < 0
      then (t, Inl InvalidRunInput)
      else transaction (fails 0) (start_tx fails i (semanticRefreshNow wall (in_Now i))) t)"

record run_update =
  up_RunID :: string
  up_Checkpoint :: string
  up_CurrentGenerationID :: string
  up_ErrorCode :: string
  up_ErrorText :: string
  up_ReadinessState :: string
  up_ExpectedVersion :: int
  up_EmbeddingRevision :: int
  up_Stage :: string
  up_State :: string
  up_Counters :: refresh_counters
  up_Now :: gotime

definition updated_row :: "run_update \<Rightarrow> string \<Rightarrow> stored_run \<Rightarrow> stored_run" where
  "updated_row u now r = r\<lparr>EmbeddingRevision := up_EmbeddingRevision u, Stage := up_Stage u,
     Checkpoint := up_Checkpoint u, Counters := up_Counters u, CurrentGenerationID := up_CurrentGenerationID u,
     State := up_State u, ErrorCode := up_ErrorCode u, ErrorText := up_ErrorText u,
     ReadinessState := up_ReadinessState u, Version := Version r + 1, UpdatedAt := now, LastProgressAt := now\<rparr>"

definition update_target :: "run_update \<Rightarrow> stored_run \<Rightarrow> bool" where
  "update_target u r \<longleftrightarrow> RunID r = up_RunID u \<and> Version r = up_ExpectedVersion u \<and> resumable r"

text \<open>\<open>UPDATE ... WHERE run_id=? AND version=? AND state IN (...) RETURNING ...\<close>: no row is
  \<open>ErrSemanticRefreshRunStale\<close>.\<close>

definition update_tx :: "(nat \<Rightarrow> bool) \<Rightarrow> run_update \<Rightarrow> string \<Rightarrow> loaded_run tx" where
  "update_tx fails u now =
     tx_then (query_row (fails 1) (update_target u)) (\<lambda>found. case found of
       None \<Rightarrow> tx_fail RunStale
     | Some r \<Rightarrow>
         tx_then (exec_update (fails 1) (update_target u) (updated_row u now)) (\<lambda>_.
         tx_then (scan_tx (updated_row u now r)) (\<lambda>run.
         tx_then (tx_commit (fails 2)) (\<lambda>_. tx_return run))))"

definition UpdateSemanticRefreshRun ::
  "(nat \<Rightarrow> bool) \<Rightarrow> gotime \<Rightarrow> run_update \<Rightarrow> ledger \<Rightarrow> ledger \<times> (ledger_error + loaded_run)" where
  "UpdateSemanticRefreshRun fails wall u t =
     transaction (fails 0) (update_tx fails u (semanticRefreshNow wall (up_Now u))) t"

definition touched_row :: "string \<Rightarrow> stored_run \<Rightarrow> stored_run" where
  "touched_row now r = r\<lparr>UpdatedAt := (if text_less (UpdatedAt r) now then now else UpdatedAt r),
     LastProgressAt := (if text_less (LastProgressAt r) now then now else LastProgressAt r)\<rparr>"

definition touch_target :: "string \<Rightarrow> stored_run \<Rightarrow> bool" where
  "touch_target runID r \<longleftrightarrow> RunID r = runID \<and> State r = SemanticRefreshRunRunning"

text \<open>One autocommitted statement under the stage gate; \<open>acquired\<close> says that the gate was
  taken before the context ended. Its effect stays when the driver then fails to count the rows.\<close>

definition TouchSemanticRefreshRunProgress ::
  "(nat \<Rightarrow> bool) \<Rightarrow> gotime \<Rightarrow> bool \<Rightarrow> string \<Rightarrow> gotime \<Rightarrow> ledger \<Rightarrow> ledger \<times> ledger_error option" where
  "TouchSemanticRefreshRunProgress fails wall acquired runID moment t =
     (if \<not> acquired then (t, Some StageWaitEnded)
      else let now = semanticRefreshNow wall moment in
        if fails 0 then (t, Some SQLFailed)
        else (case exec_update (fails 1) (touch_target runID) (touched_row now) t of
            Inl e \<Rightarrow> (t, Some e)
          | Inr (t', _) \<Rightarrow> (t', if fails 2 then Some SQLFailed
              else if length (filter (touch_target runID) t) \<noteq> 1 then Some RunStale else None)))"

definition LatestSemanticRefreshRun ::
  "(nat \<Rightarrow> bool) \<Rightarrow> bool \<Rightarrow> string \<Rightarrow> ledger \<Rightarrow> ledger_error + loaded_run option" where
  "LatestSemanticRefreshRun fails available profileID t =
     (if fails 0 then Inl SQLFailed
      else if \<not> available then Inl LedgerUnavailable
      else let profileID = TrimSpace profileID;
               wanted = (if profileID = [] then t else filter (\<lambda>r. ProfileID r = profileID) t)
           in if fails 1 then Inl SQLFailed
              else case rev (sort_key (\<lambda>r. (SqlText (UpdatedAt r), SqlText (RunID r))) wanted) of
                [] \<Rightarrow> Inr None
              | r # _ \<Rightarrow> (case scanSemanticRefreshRun r of Inl e \<Rightarrow> Inl e | Inr run \<Rightarrow> Inr (Some run)))"

section \<open>The repair of version 25 tables\<close>

record archived_run =
  arch_row :: stored_run
  arch_action :: string
  arch_reason :: string
  arch_fields :: string

datatype compatibility = Compatible | Quarantined string | Truncated string

text \<open>\<open>semanticRefreshRunV25Compatibility\<close>: what does not fit the byte limits.\<close>

definition overflowing :: "(string \<times> string \<times> nat) list \<Rightarrow> string list" where
  "overflowing fs = map fst (filter (\<lambda>(name, value, limit). limit < length value) fs)"

definition immutable_fields :: "stored_run \<Rightarrow> (string \<times> string \<times> nat) list" where
  "immutable_fields r = [(''run_id'', RunID r, 64), (''profile_id'', ProfileID r, 192)]"

definition mutable_fields :: "stored_run \<Rightarrow> (string \<times> string \<times> nat) list" where
  "mutable_fields r = [(''checkpoint'', Checkpoint r, 256), (''error_code'', ErrorCode r, 64),
     (''error_text'', ErrorText r, 512), (''readiness_state'', ReadinessState r, 64)]"

definition semanticRefreshRunV25Compatibility :: "stored_run \<Rightarrow> compatibility" where
  "semanticRefreshRunV25Compatibility r =
     (let immutable = overflowing (immutable_fields r); mutable = overflowing (mutable_fields r);
          names = joinWith '','' (immutable @ mutable)
      in if immutable = [] \<and> mutable = [] then Compatible
         else if immutable \<noteq> [] then Quarantined names
         else Truncated names)"

definition normalizeSemanticRefreshTimestamp :: "string \<Rightarrow> ledger_error + string" where
  "normalizeSemanticRefreshTimestamp value =
     (case parse_rfc3339 value of None \<Rightarrow> Inl BadTimestamp | Some t \<Rightarrow> Inr (refresh_stamp (t_utc t)))"

definition repaired_row :: "stored_run \<Rightarrow> ledger_error + stored_run" where
  "repaired_row r =
     (case normalizeSemanticRefreshTimestamp (CreatedAt r) of Inl e \<Rightarrow> Inl e
      | Inr created \<Rightarrow> (case normalizeSemanticRefreshTimestamp (UpdatedAt r) of Inl e \<Rightarrow> Inl e
      | Inr updated \<Rightarrow> (case normalizeSemanticRefreshTimestamp (LastProgressAt r) of Inl e \<Rightarrow> Inl e
      | Inr progressed \<Rightarrow> Inr (r\<lparr>CreatedAt := created, UpdatedAt := updated, LastProgressAt := progressed,
          Checkpoint := truncateSemanticRefreshRunUTF8 (Checkpoint r) 256,
          ErrorCode := truncateSemanticRefreshRunUTF8 (ErrorCode r) 64,
          ErrorText := truncateSemanticRefreshRunUTF8 (ErrorText r) 512,
          ReadinessState := truncateSemanticRefreshRunUTF8 (ReadinessState r) 64\<rparr>))))"

definition archive_entry :: "stored_run \<Rightarrow> archived_run option" where
  "archive_entry r = (case semanticRefreshRunV25Compatibility r of
     Compatible \<Rightarrow> None
   | Quarantined names \<Rightarrow> Some \<lparr>arch_row = r, arch_action = ''quarantined'',
       arch_reason = ''immutable_identifier_byte_limit'', arch_fields = names\<rparr>
   | Truncated names \<Rightarrow> Some \<lparr>arch_row = r, arch_action = ''truncated'',
       arch_reason = ''mutable_field_byte_limit'', arch_fields = names\<rparr>)"

text \<open>\<open>INSERT ... ON CONFLICT(run_id) DO NOTHING\<close>.\<close>

definition archive_insert :: "archived_run \<Rightarrow> archived_run list \<Rightarrow> archived_run list" where
  "archive_insert a as = (if RunID (arch_row a) \<in> set (map (RunID \<circ> arch_row) as) then as else as @ [a])"

text \<open>The loop over the stored rows, into the new table and the archive.\<close>

definition repair_active :: "bool \<Rightarrow> stored_run \<Rightarrow> ledger \<times> archived_run list \<Rightarrow>
    ledger_error + (ledger \<times> archived_run list)" where
  "repair_active fails r s = (case repaired_row r of Inl e \<Rightarrow> Inl e
     | Inr r' \<Rightarrow> (case exec_insert fails r' (fst s) of Inl e \<Rightarrow> Inl e | Inr (t, _) \<Rightarrow> Inr (t, snd s)))"

definition repair_row :: "(nat \<Rightarrow> bool) \<Rightarrow> nat \<Rightarrow> stored_run \<Rightarrow> ledger \<times> archived_run list \<Rightarrow>
    ledger_error + (ledger \<times> archived_run list)" where
  "repair_row fails k r s =
     (case archive_entry r of
        None \<Rightarrow> repair_active (fails (k + 1)) r s
      | Some a \<Rightarrow>
          if fails k then Inl SQLFailed
          else let s = (fst s, archive_insert a (snd s)) in
            if arch_action a = ''quarantined'' then Inr s else repair_active (fails (k + 1)) r s)"

fun repair_rows :: "(nat \<Rightarrow> bool) \<Rightarrow> nat \<Rightarrow> stored_run list \<Rightarrow> ledger \<times> archived_run list \<Rightarrow>
    ledger_error + (ledger \<times> archived_run list)" where
  "repair_rows fails k [] s = Inr s"
| "repair_rows fails k (r # rs) s =
     (case repair_row fails k r s of Inl e \<Rightarrow> Inl e | Inr s' \<Rightarrow> repair_rows fails (k + 2) rs s')"

text \<open>The whole repair is one transaction; statements 0 and 1 stand for those before and after the loop.\<close>

definition repairSemanticRefreshRunSchemaV26 ::
  "(nat \<Rightarrow> bool) \<Rightarrow> ledger \<times> archived_run list \<Rightarrow> (ledger \<times> archived_run list) \<times> ledger_error option" where
  "repairSemanticRefreshRunSchemaV26 fails s =
     (if fails 0 then (s, Some SQLFailed)
      else case repair_rows fails 2 (sort_key (SqlText \<circ> RunID) (fst s)) ([], snd s) of
        Inl e \<Rightarrow> (s, Some e)
      | Inr s' \<Rightarrow> if fails 1 then (s, Some SQLFailed) else (s', None))"

end
