(* ===== verification/RefreshLedgerProps.thy ===== *)
theory RefreshLedgerProps
  imports RefreshLedger
begin

text \<open>
  What the refresh ledger promises its users, whatever processes write to it: a run's identity
  and its finished state never change and its version only grows; starting a run leaves exactly one
  resumable run; an update is a compare-and-set on the version.
\<close>

section \<open>How a row may change\<close>

definition same_run :: "stored_run \<Rightarrow> stored_run \<Rightarrow> bool" where
  "same_run r r' \<longleftrightarrow> RunID r' = RunID r \<and> ProfileID r' = ProfileID r \<and> PurgeEpoch r' = PurgeEpoch r \<and>
     ProjectionWatermark r' = ProjectionWatermark r \<and> CreatedAt r' = CreatedAt r"

definition evolves :: "stored_run \<Rightarrow> stored_run \<Rightarrow> bool" where
  "evolves r r' \<longleftrightarrow> same_run r r' \<and> Version r \<le> Version r' \<and> (resumable r \<or> r' = r)"

lemma evolves_refl [simp]: "evolves r r"
  by (simp add: evolves_def same_run_def)

lemma evolves_trans: "evolves r s \<Longrightarrow> evolves s t \<Longrightarrow> evolves r t"
  by (auto simp: evolves_def same_run_def)

lemma evolves_row [simp]:
  "resumable r \<Longrightarrow> evolves r (supersede now r)"
  "resumable r \<Longrightarrow> evolves r (resume_row now r)"
  "resumable r \<Longrightarrow> evolves r (updated_row u now r)"
  "resumable r \<Longrightarrow> evolves r (touched_row now r)"
  by (simp_all add: evolves_def same_run_def supersede_def resume_row_def updated_row_def touched_row_def)

definition ledger_evolves :: "ledger \<Rightarrow> ledger \<Rightarrow> bool" where
  "ledger_evolves t t' \<longleftrightarrow> (\<forall>r \<in> set t. \<exists>r' \<in> set t'. evolves r r')"

lemma ledger_evolves_refl [simp]: "ledger_evolves t t"
  by (auto simp: ledger_evolves_def intro: evolves_refl)

lemma ledger_evolves_trans: "ledger_evolves t u \<Longrightarrow> ledger_evolves u v \<Longrightarrow> ledger_evolves t v"
  unfolding ledger_evolves_def by (meson evolves_trans)

lemma ledger_evolves_append: "ledger_evolves t (t @ rs)"
  by (auto simp: ledger_evolves_def intro: evolves_refl)

lemma ledger_evolves_update:
  assumes "\<And>r. r \<in> set t \<Longrightarrow> p r \<Longrightarrow> evolves r (f r)"
  shows "ledger_evolves t (update_rows p f t)"
proof -
  have "evolves r (if p r then f r else r)" if "r \<in> set t" for r
    using assms that by simp
  then show ?thesis unfolding ledger_evolves_def update_rows_def set_map by (blast intro: imageI)
qed

section \<open>Statements\<close>

named_theorems tx_elims \<open>what is known when a statement succeeded\<close>

lemma tx_then_Inr [tx_elims]:
  assumes "tx_then m f t = Inr (t', y)"
  obtains u x where "m t = Inr (u, x)" "f x u = Inr (t', y)"
  using assms by (auto simp: tx_then_def split: sum.splits)

lemma tx_return_Inr [tx_elims]: "tx_return x t = Inr (t', y) \<Longrightarrow> (t' = t \<Longrightarrow> y = x \<Longrightarrow> P) \<Longrightarrow> P"
  by (simp add: tx_return_def)

lemma tx_fail_Inr [tx_elims]: "tx_fail e t = Inr (t', y) \<Longrightarrow> P"
  by (simp add: tx_fail_def)

lemma exec_update_Inr [tx_elims]:
  assumes "exec_update b p f t = Inr (t', y)"
  obtains "t' = update_rows p f t" "schema_ok t'"
  using assms by (auto simp: exec_update_def Let_def split: if_splits)

lemma exec_insert_Inr [tx_elims]:
  assumes "exec_insert b r t = Inr (t', y)"
  obtains "t' = t @ [r]" "schema_ok t'"
  using assms by (auto simp: exec_insert_def split: if_splits)

lemma query_row_Inr [tx_elims]:
  assumes "query_row b p t = Inr (t', y)"
  obtains "t' = t" "y = find p t"
  using assms by (auto simp: query_row_def split: if_splits)

lemma tx_commit_Inr [tx_elims]:
  assumes "tx_commit b t = Inr (t', y)"
  obtains "t' = t"
  using assms by (auto simp: tx_commit_def split: if_splits)

lemma scan_tx_Inr [tx_elims]:
  assumes "scan_tx r t = Inr (t', run)"
  obtains "t' = t" "scanSemanticRefreshRun r = Inr run"
  using assms by (auto simp: scan_tx_def split: sum.splits)

lemma select_run_Inr [tx_elims]:
  assumes "select_run b i t = Inr (t', run)"
  obtains r where "t' = t" "find (\<lambda>r. RunID r = i) t = Some r" "scanSemanticRefreshRun r = Inr run"
  using assms unfolding select_run_def
  by (auto elim!: tx_elims split: option.splits)

lemma scan_fields:
  assumes "scanSemanticRefreshRun r = Inr run"
  shows "RunID run = RunID r" "ProfileID run = ProfileID r" "Checkpoint run = Checkpoint r"
    "CurrentGenerationID run = CurrentGenerationID r" "ErrorCode run = ErrorCode r" "ErrorText run = ErrorText r"
    "ReadinessState run = ReadinessState r" "PurgeEpoch run = PurgeEpoch r"
    "ProjectionWatermark run = ProjectionWatermark r" "EmbeddingRevision run = EmbeddingRevision r"
    "Version run = Version r" "Stage run = Stage r" "State run = State r" "Counters run = Counters r"
    "resumable run = resumable r"
  using assms by (auto simp: scanSemanticRefreshRun_def resumable_def split: option.splits)

lemma transaction_cases:
  assumes "transaction b m t = (t', r)"
  obtains (rollback) e where "t' = t" "r = Inl e" | (commit) x where "m t = Inr (t', x)" "r = Inr x"
  using assms by (auto simp: transaction_def split: if_splits sum.splits)

lemma update_rows_simps [simp]:
  "update_rows p f [] = []"
  "update_rows p f (r # rs) = (if p r then f r else r) # update_rows p f rs"
  "update_rows p f (rs @ ss) = update_rows p f rs @ update_rows p f ss"
  by (simp_all add: update_rows_def)

lemma found: "find p xs = Some x \<Longrightarrow> x \<in> set xs \<and> p x"
  by (auto simp: find_Some_iff)

lemma schema_unique:
  assumes "schema_ok t" "r \<in> set t" "s \<in> set t"
  shows "RunID r = RunID s \<Longrightarrow> r = s"
    "resumable r \<Longrightarrow> resumable s \<Longrightarrow> ProfileID r = ProfileID s \<Longrightarrow> r = s"
  using assms by (auto simp: schema_ok_def distinct_map inj_on_def)

section \<open>Starting a run\<close>

lemma start_tx_cases:
  assumes "start_tx fails i now t = Inr (t', (run, resumed))" "schema_ok t"
  defines "u \<equiv> update_rows (\<lambda>r. ProfileID r = in_ProfileID i \<and> PurgeEpoch r \<noteq> in_PurgeEpoch i \<and> resumable r) (supersede now)
      (update_rows (\<lambda>r. ProfileID r \<noteq> in_ProfileID i \<and> resumable r) (supersede now) t)"
  obtains (resumed) r where "resumed" "schema_ok u" "r \<in> set u" "matches_start i r"
      "t' = update_rows (\<lambda>s. RunID s = RunID r) (resume_row now) u" "schema_ok t'"
      "scanSemanticRefreshRun (resume_row now r) = Inr run"
    | (created) "\<not> resumed" "schema_ok u" "\<forall>r \<in> set u. \<not> matches_start i r" "t' = u @ [new_row i now]"
      "schema_ok t'" "scanSemanticRefreshRun (new_row i now) = Inr run"
proof -
  from assms(1) have u: "schema_ok u" and rest: "(case find (matches_start i) u of
       Some r \<Rightarrow>
         tx_then (scan_tx r) (\<lambda>run.
         tx_then (exec_update (fails 4) (\<lambda>r. RunID r = RunID run) (resume_row now)) (\<lambda>_.
         tx_then (select_run (fails 5) (RunID run)) (\<lambda>run.
         tx_then (tx_commit (fails 6)) (\<lambda>_. tx_return (run, True)))))
     | None \<Rightarrow>
         if \<not> validSemanticRefreshCounters (in_InitialCounters i) then tx_fail InvalidRunInput
         else
           tx_then (exec_insert (fails 4) (new_row i now)) (\<lambda>_.
           tx_then (select_run (fails 5) (in_RunID i)) (\<lambda>run.
           tx_then (tx_commit (fails 6)) (\<lambda>_. tx_return (run, False))))) u = Inr (t', (run, resumed))"
    unfolding start_tx_def u_def by (elim tx_elims; simp)+
  show ?thesis
  proof (cases "find (matches_start i) u")
    case None
    then have none: "\<forall>r \<in> set u. \<not> matches_start i r" by (auto simp: find_None_iff)
    from rest None obtain r where t': "t' = u @ [new_row i now]" "schema_ok t'" "\<not> resumed"
      and r: "find (\<lambda>r. RunID r = in_RunID i) t' = Some r" "scanSemanticRefreshRun r = Inr run"
      by (auto split: if_splits elim!: tx_elims)
    have "RunID (new_row i now) = in_RunID i" by (simp add: new_row_def)
    then have "r = new_row i now"
      using schema_unique(1) [OF t'(2), of r "new_row i now"] found [OF r(1)] t'(1) by simp
    with created u none t' r(2) show ?thesis by simp
  next
    case (Some r)
    then have r: "r \<in> set u" "matches_start i r" by (simp_all add: found)
    from rest Some obtain run0 s where scan: "scanSemanticRefreshRun r = Inr run0"
      and t': "t' = update_rows (\<lambda>r. RunID r = RunID run0) (resume_row now) u" "schema_ok t'" "resumed"
      and s: "find (\<lambda>r. RunID r = RunID run0) t' = Some s" "scanSemanticRefreshRun s = Inr run"
      by (auto elim!: tx_elims)
    have id: "RunID run0 = RunID r" by (rule scan_fields [OF scan])
    have "resume_row now r \<in> set t'" using r(1) by (force simp: t'(1) id update_rows_def)
    then have "s = resume_row now r"
      using schema_unique(1) [OF t'(2), of s "resume_row now r"] found [OF s(1)] by (simp add: id resume_row_def)
    with resumed u r t' s(2) show ?thesis by (simp add: id)
  qed
qed

lemma start_cases:
  assumes "StartOrResumeSemanticRefreshRun fails wall i t = (t', r)"
  obtains (refused) e where "t' = t" "r = Inl e"
    | (started) now run resumed where "r = Inr (run, resumed)"
      "start_tx fails (trimmed_input i) now t = Inr (t', (run, resumed))"
  using assms
  by (auto simp: StartOrResumeSemanticRefreshRun_def Let_def elim!: transaction_cases split: if_splits)

lemma start_evolves:
  assumes "schema_ok t" "StartOrResumeSemanticRefreshRun fails wall i t = (t', r)"
  shows "schema_ok t' \<and> ledger_evolves t t'"
  using assms(2)
proof (cases rule: start_cases)
  case (started now run resumed)
  let ?i = "trimmed_input i"
  let ?u = "update_rows (\<lambda>r. ProfileID r = in_ProfileID ?i \<and> PurgeEpoch r \<noteq> in_PurgeEpoch ?i \<and> resumable r) (supersede now)
      (update_rows (\<lambda>r. ProfileID r \<noteq> in_ProfileID ?i \<and> resumable r) (supersede now) t)"
  have u: "ledger_evolves t ?u"
    by (rule ledger_evolves_trans; rule ledger_evolves_update; simp)
  from started(2) assms(1) show ?thesis
  proof (cases rule: start_tx_cases)
    case (resumed q)
    have "ledger_evolves ?u t'"
      unfolding resumed(5)
    proof (rule ledger_evolves_update)
      fix s
      assume "s \<in> set ?u" "RunID s = RunID q"
      then have "s = q" using schema_unique(1) [OF resumed(2)] resumed(3) by simp
      then show "evolves s (resume_row now s)" using resumed(4) by (simp add: matches_start_def)
    qed
    then show ?thesis using u resumed(6) ledger_evolves_trans by blast
  next
    case created
    then show ?thesis using ledger_evolves_trans [OF u ledger_evolves_append] by simp
  qed
qed (use assms(1) in simp)

section \<open>Updating a run\<close>

lemma update_cases:
  assumes "UpdateSemanticRefreshRun fails wall u t = (t', r)"
  obtains (refused) e where "t' = t" "r = Inl e"
    | (updated) q run where "r = Inr run" "q \<in> set t" "update_target u q" "schema_ok t'"
      "t' = update_rows (update_target u) (updated_row u (semanticRefreshNow wall (up_Now u))) t"
      "scanSemanticRefreshRun (updated_row u (semanticRefreshNow wall (up_Now u)) q) = Inr run"
  using assms unfolding UpdateSemanticRefreshRun_def
proof (cases rule: transaction_cases)
  case (commit run)
  from commit(1) obtain q where "find (update_target u) t = Some q" "schema_ok t'"
    "t' = update_rows (update_target u) (updated_row u (semanticRefreshNow wall (up_Now u))) t"
    "scanSemanticRefreshRun (updated_row u (semanticRefreshNow wall (up_Now u)) q) = Inr run"
    unfolding update_tx_def by (auto elim!: tx_elims split: option.splits)
  with commit(2) found [of "update_target u" t q] show ?thesis by (intro updated) simp_all
qed (use refused in blast)

lemma update_evolves:
  assumes "schema_ok t" "UpdateSemanticRefreshRun fails wall u t = (t', r)"
  shows "schema_ok t' \<and> ledger_evolves t t'"
  using assms(2)
proof (cases rule: update_cases)
  case (updated q run)
  then show ?thesis by (auto simp: update_target_def intro!: ledger_evolves_update)
qed (use assms(1) in simp)

lemma touch_evolves:
  assumes "schema_ok t" "TouchSemanticRefreshRunProgress fails wall acquired runID moment t = (t', r)"
  shows "schema_ok t' \<and> ledger_evolves t t'"
proof -
  have "resumable q" if "touch_target runID q" for q :: stored_run
    using that by (simp add: touch_target_def resumable_def resumable_states_def)
  then have "ledger_evolves t (update_rows (touch_target runID) (touched_row now) t)" for now
    by (intro ledger_evolves_update) simp
  then show ?thesis
    using assms by (auto simp: TouchSemanticRefreshRunProgress_def Let_def elim!: tx_elims split: if_splits sum.splits)
qed

section \<open>Any number of processes\<close>

text \<open>One operation of one process on the shared table, with any arguments, failures and clock.\<close>

inductive ledger_step :: "ledger \<Rightarrow> ledger \<Rightarrow> bool" where
  start_step: "StartOrResumeSemanticRefreshRun fails wall i t = (t', r) \<Longrightarrow> ledger_step t t'"
| update_step: "UpdateSemanticRefreshRun fails wall u t = (t', r) \<Longrightarrow> ledger_step t t'"
| touch_step: "TouchSemanticRefreshRunProgress fails wall acquired runID moment t = (t', e) \<Longrightarrow> ledger_step t t'"

inductive_cases ledger_stepE: "ledger_step t t'"

lemma ledger_step_evolves: "schema_ok t \<Longrightarrow> ledger_step t t' \<Longrightarrow> schema_ok t' \<and> ledger_evolves t t'"
  by (elim ledger_stepE) (blast dest: start_evolves update_evolves touch_evolves)+

interpretation rl: invariant_system "[]" ledger_step schema_ok
  by unfold_locales (simp add: schema_ok_def, blast dest: ledger_step_evolves)

lemma ledger_steps_evolve:
  "ledger_step\<^sup>*\<^sup>* t t' \<Longrightarrow> schema_ok t \<Longrightarrow> ledger_evolves t t'"
proof (induction rule: rtranclp_induct)
  case (step u v)
  then show ?case using ledger_step_evolves ledger_evolves_trans rl.inv_steps by metis
qed simp

section \<open>An example\<close>

definition example_now :: gotime where
  "example_now = \<lparr>instant = 63902649661 * 1000000000, utc_loc = True\<rparr>"

definition example_input :: start_input where
  "example_input = \<lparr>in_RunID = ''r2'', in_ProfileID = ''p'', in_PurgeEpoch = 0, in_ProjectionWatermark = 7,
     in_InitialCounters = zero_counters, in_Now = example_now\<rparr>"

text \<open>A run of the same profile that failed at the flush stage, and one that was completed.\<close>

definition failed_run :: stored_run where
  "failed_run = (new_row (example_input\<lparr>in_RunID := ''r1''\<rparr>) (refresh_stamp example_now))\<lparr>
     Stage := SemanticRefreshFlush, State := SemanticRefreshRunFailed, ErrorCode := ''e'', Version := 4\<rparr>"

definition completed_run :: stored_run where
  "completed_run = (new_row (example_input\<lparr>in_RunID := ''r0''\<rparr>) (refresh_stamp example_now))\<lparr>
     State := SemanticRefreshRunCompleted\<rparr>"

lemma example_times:
  "parse_stamp (refresh_stamp example_now) = Some example_now"
  "semanticRefreshNow wall example_now = refresh_stamp example_now"
  using parse_stamp_format [of example_now]
  by (simp_all add: example_now_def formattable_def second_def t_utc_def semanticRefreshNow_def t_isZero_def)

lemmas example_run_defs = failed_run_def completed_run_def new_row_def example_input_def zero_counters_def
  run_state_defs run_stage_defs run_stages_def resumable_states_def

lemma example_schema: "schema_ok [completed_run, failed_run]"
  by (simp add: schema_ok_def row_check_def resumable_def validSemanticRefreshCounters_def example_run_defs)

lemma example_trim: "TrimSpace ''p'' = ''p''" "TrimSpace ''r2'' = ''r2''"
  by (simp_all add: TrimSpace_visible visible_def)

definition example_resumed :: stored_run where
  "example_resumed = resume_row (refresh_stamp example_now) failed_run"

lemma example_rows:
  "ProfileID completed_run = ''p''" "RunID completed_run = ''r0''" "\<not> resumable completed_run"
  "ProfileID failed_run = ''p''" "RunID failed_run = ''r1''" "resumable failed_run" "PurgeEpoch failed_run = 0"
  "Version failed_run = 4" "RunID example_resumed = ''r1''" "Stage failed_run = SemanticRefreshFlush"
  by (simp_all add: resumable_def example_run_defs example_resumed_def resume_row_def)

lemma example_resumed_schema: "schema_ok [completed_run, example_resumed]"
  by (simp add: schema_ok_def row_check_def resumable_def validSemanticRefreshCounters_def example_run_defs
      example_resumed_def resume_row_def)

lemma example_scans: "\<exists>run. scanSemanticRefreshRun failed_run = Inr run" "\<exists>run. scanSemanticRefreshRun example_resumed = Inr run"
  by (simp_all add: scanSemanticRefreshRun_def example_resumed_def resume_row_def failed_run_def new_row_def example_times)

lemma example_start:
  obtains run where "StartOrResumeSemanticRefreshRun (\<lambda>_. False) zero_time example_input [completed_run, failed_run] =
     ([completed_run, example_resumed], Inr (run, True))" "scanSemanticRefreshRun example_resumed = Inr run"
proof -
  obtain run0 where run0: "scanSemanticRefreshRun failed_run = Inr run0" using example_scans by blast
  obtain run where run: "scanSemanticRefreshRun example_resumed = Inr run" using example_scans by blast
  have i: "trimmed_input example_input = example_input"
    by (simp add: trimmed_input_def example_input_def example_trim)
  have in': "in_RunID example_input = ''r2''" "in_ProfileID example_input = ''p''" "in_PurgeEpoch example_input = 0"
    "in_ProjectionWatermark example_input = 7" "in_Now example_input = example_now"
    by (simp_all add: example_input_def)
  have "start_tx (\<lambda>_. False) example_input (refresh_stamp example_now) [completed_run, failed_run] =
      Inr ([completed_run, example_resumed], (run, True))"
    by (simp add: start_tx_def tx_then_def exec_update_def query_row_def matches_start_def scan_tx_def select_run_def
        tx_commit_def tx_return_def in' example_rows example_schema example_resumed_schema run0 run
        scan_fields(1) [OF run0] flip: example_resumed_def)
  with run show ?thesis
    by (intro that) (simp_all add: StartOrResumeSemanticRefreshRun_def i in' transaction_def example_times)
qed

text \<open>C20. The ledger keeps its history: whatever operations any number of processes run on a well-formed
  table, the schema's constraints hold after each of them, and every run is still there, with its profile,
  purge epoch, watermark and creation time, a version that has not decreased, and, once it was completed
  or superseded, unchanged.\<close>

theorem ledger_history_is_kept:
  assumes "schema_ok t" "ledger_step\<^sup>*\<^sup>* t t'" "r \<in> set t"
  shows "schema_ok t' \<and> (\<exists>r' \<in> set t'. same_run r r' \<and> Version r \<le> Version r' \<and> (resumable r \<or> r' = r))"
  using ledger_steps_evolve [OF assms(2,1)] rl.inv_steps [OF assms(1,2)] assms(3)
  by (auto simp: ledger_evolves_def evolves_def)

theorem ledger_history_is_kept_witness:
  "completed_run \<in> set (fst (StartOrResumeSemanticRefreshRun (\<lambda>_. False) zero_time example_input [completed_run, failed_run]))"
proof -
  have "ledger_step\<^sup>*\<^sup>* [completed_run, failed_run]
      (fst (StartOrResumeSemanticRefreshRun (\<lambda>_. False) zero_time example_input [completed_run, failed_run]))"
    by (rule r_into_rtranclp, rule start_step, rule surjective_pairing)
  from ledger_history_is_kept [OF example_schema this, of completed_run] show ?thesis
    by (auto simp: example_rows)
qed

section \<open>What starting and updating do\<close>

lemma no_resumable_after_supersede:
  fixes t :: ledger
  defines "u i now \<equiv> update_rows (\<lambda>r. ProfileID r = in_ProfileID i \<and> PurgeEpoch r \<noteq> in_PurgeEpoch i \<and> resumable r) (supersede now)
      (update_rows (\<lambda>r. ProfileID r \<noteq> in_ProfileID i \<and> resumable r) (supersede now) t)"
  assumes "r \<in> set (u i now)" "resumable r"
  shows "matches_start i r \<and> r \<in> set t"
proof -
  have sup: "\<not> resumable (supersede now q)" for q :: stored_run
    by (simp add: resumable_def supersede_def resumable_states_def run_state_defs)
  then show ?thesis
    using assms(2,3) unfolding u_def update_rows_def matches_start_def by (auto split: if_splits)
qed

lemma filter_single: "distinct xs \<Longrightarrow> x \<in> set xs \<Longrightarrow> \<forall>y \<in> set xs. P y \<longleftrightarrow> y = x \<Longrightarrow> filter P xs = [x]"
proof (induction xs)
  case (Cons y ys)
  show ?case
  proof (cases "y = x")
    case True
    then have "filter P ys = []" using Cons.prems by (auto simp: filter_empty_conv)
    then show ?thesis using Cons.prems True by simp
  next
    case False
    then show ?thesis using Cons by auto
  qed
qed simp

lemma schema_distinct: "schema_ok t \<Longrightarrow> distinct t"
  by (simp add: schema_ok_def distinct_map)

text \<open>C21. Starting a run leaves exactly one resumable run in the ledger, the one it returns: it is running, for the
  requested profile and purge epoch. A resumed run keeps the stage, checkpoint, counters, watermark and
  generation it had reached, with its error cleared; a new one starts at the projection stage.\<close>

theorem start_leaves_one_resumable_run:
  assumes "schema_ok t" "StartOrResumeSemanticRefreshRun fails wall i t = (t', Inr (run, resumed))"
  shows "\<exists>row. filter resumable t' = [row] \<and> scanSemanticRefreshRun row = Inr run \<and>
    State run = SemanticRefreshRunRunning \<and> ErrorCode run = [] \<and>
    ProfileID run = TrimSpace (in_ProfileID i) \<and> PurgeEpoch run = in_PurgeEpoch i \<and>
    (if resumed then \<exists>old \<in> set t. resumable old \<and> RunID run = RunID old \<and> Version run = Version old + 1 \<and>
        Stage run = Stage old \<and> Checkpoint run = Checkpoint old \<and> Counters run = Counters old \<and>
        ProjectionWatermark run = ProjectionWatermark old \<and> CurrentGenerationID run = CurrentGenerationID old
     else RunID run = TrimSpace (in_RunID i) \<and> Version run = 1 \<and> Stage run = SemanticRefreshProjection \<and>
        Counters run = in_InitialCounters i \<and> ProjectionWatermark run = in_ProjectionWatermark i)"
  using assms(2)
proof (cases rule: start_cases)
  case (started now run' resumed')
  let ?i = "trimmed_input i"
  let ?u = "update_rows (\<lambda>r. ProfileID r = in_ProfileID ?i \<and> PurgeEpoch r \<noteq> in_PurgeEpoch ?i \<and> resumable r) (supersede now)
      (update_rows (\<lambda>r. ProfileID r \<noteq> in_ProfileID ?i \<and> resumable r) (supersede now) t)"
  note left = no_resumable_after_supersede [where i = ?i and now = now and t = t]
  have i: "in_ProfileID ?i = TrimSpace (in_ProfileID i)" "in_RunID ?i = TrimSpace (in_RunID i)"
    "in_PurgeEpoch ?i = in_PurgeEpoch i" "in_InitialCounters ?i = in_InitialCounters i"
    "in_ProjectionWatermark ?i = in_ProjectionWatermark i" by (simp_all add: trimmed_input_def)
  from started(1) have same: "run' = run" "resumed' = resumed" by simp_all
  obtain u where u: "u = ?u" by blast
  note left = left [folded u]
  from started(2) assms(1) show ?thesis unfolding same
  proof (cases rule: start_tx_cases)
    case (resumed q)
    note resumed = resumed [folded u]
    note f = scan_fields [OF resumed(7)]
    have q: "resumable q" using resumed(4) by (simp add: matches_start_def)
    note old = left [OF resumed(3) q]
    have row: "resume_row now q \<in> set t'" unfolding resumed(5) update_rows_def set_map
      by (rule image_eqI [OF _ resumed(3)]) simp
    have res: "resumable (resume_row now q)" by (simp add: resumable_def resume_row_def resumable_states_def)
    have "x = resume_row now q" if "x \<in> set t'" "resumable x" for x
    proof -
      from that(1) obtain y where y: "y \<in> set u" "x = (if RunID y = RunID q then resume_row now y else y)"
        unfolding resumed(5) update_rows_def by auto
      have "y = q"
      proof (cases "RunID y = RunID q")
        case True
        then show ?thesis using schema_unique(1) [OF resumed(2) y(1) resumed(3)] by simp
      next
        case False
        then have "resumable y" using y(2) that(2) by simp
        from left [OF y(1) this] old schema_unique(2) [OF resumed(2) y(1) resumed(3) this q] show ?thesis
          by (simp add: matches_start_def)
      qed
      then show ?thesis using y(2) by simp
    qed
    then have "\<forall>x \<in> set t'. resumable x \<longleftrightarrow> x = resume_row now q" using res by blast
    then have "filter resumable t' = [resume_row now q]"
      using row by (intro filter_single schema_distinct resumed(6))
    moreover have "\<exists>old \<in> set t. resumable old \<and> RunID run = RunID old \<and> Version run = Version old + 1 \<and>
        Stage run = Stage old \<and> Checkpoint run = Checkpoint old \<and> Counters run = Counters old \<and>
        ProjectionWatermark run = ProjectionWatermark old \<and> CurrentGenerationID run = CurrentGenerationID old"
      by (rule bexI [of _ q]) (use f q old in \<open>simp_all add: resume_row_def\<close>)
    moreover have "State run = SemanticRefreshRunRunning" "ErrorCode run = []"
      "ProfileID run = TrimSpace (in_ProfileID i)" "PurgeEpoch run = in_PurgeEpoch i"
      using old by (simp_all add: f(2,5,8,13) resume_row_def matches_start_def i)
    ultimately show ?thesis using resumed(1,7) by (intro exI [of _ "resume_row now q"]) simp
  next
    case created
    note created = created [folded u]
    note f = scan_fields [OF created(6)]
    have res: "resumable (new_row ?i now)" by (simp add: resumable_def new_row_def resumable_states_def)
    have "\<not> resumable x" if "x \<in> set u" for x using left [OF that] created(3) that by blast
    then have "filter resumable t' = [new_row ?i now]"
      using res by (simp add: created(4) filter_empty_conv)
    then show ?thesis
      using f created(1,6) by (intro exI [of _ "new_row ?i now"]) (simp add: new_row_def i)
  qed
qed simp

theorem start_leaves_one_resumable_run_witness:
  "\<exists>row run. filter resumable [completed_run, example_resumed] = [row] \<and> scanSemanticRefreshRun row = Inr run \<and>
     State run = SemanticRefreshRunRunning"
proof -
  obtain run where "StartOrResumeSemanticRefreshRun (\<lambda>_. False) zero_time example_input [completed_run, failed_run] =
     ([completed_run, example_resumed], Inr (run, True))" by (rule example_start)
  from start_leaves_one_resumable_run [OF example_schema this] show ?thesis by blast
qed

text \<open>C22. Updating a run is a compare-and-set: it either fails and changes nothing, or it finds the one
  resumable run with the given id and version, writes exactly that row and raises its version. Of two
  updates made from the same version the second is refused as stale, so no update is lost.\<close>

theorem update_is_compare_and_set:
  assumes "schema_ok t" "UpdateSemanticRefreshRun fails wall u t = (t', r)"
  shows "case r of
      Inl e \<Rightarrow> t' = t
    | Inr run \<Rightarrow> (\<exists>row \<in> set t. update_target u row \<and>
        t' = map (\<lambda>q. if q = row then updated_row u (semanticRefreshNow wall (up_Now u)) row else q) t \<and>
        scanSemanticRefreshRun (updated_row u (semanticRefreshNow wall (up_Now u)) row) = Inr run \<and>
        Version run = up_ExpectedVersion u + 1) \<and>
      (up_RunID u2 = up_RunID u \<and> up_ExpectedVersion u2 = up_ExpectedVersion u \<longrightarrow>
        UpdateSemanticRefreshRun (\<lambda>_. False) wall2 u2 t' = (t', Inl RunStale))"
  using assms(2)
proof (cases rule: update_cases)
  case (updated row run)
  let ?f = "updated_row u (semanticRefreshNow wall (up_Now u))"
  have only: "update_target u q \<longleftrightarrow> q = row" if "q \<in> set t" for q
    using that updated(2,3) schema_unique(1) [OF assms(1) that updated(2)] by (auto simp: update_target_def)
  have t': "t' = map (\<lambda>q. if q = row then ?f row else q) t"
    unfolding updated(5) update_rows_def by (rule map_cong) (auto simp: only)
  have version: "Version run = up_ExpectedVersion u + 1"
    using scan_fields(11) [OF updated(6)] updated(3) by (simp add: updated_row_def update_target_def)
  have "UpdateSemanticRefreshRun (\<lambda>_. False) wall2 u2 t' = (t', Inl RunStale)"
    if same: "up_RunID u2 = up_RunID u" "up_ExpectedVersion u2 = up_ExpectedVersion u"
  proof -
    have "\<not> update_target u2 q" if "q \<in> set t'" for q
    proof -
      from that obtain p where p: "p \<in> set t" "q = (if p = row then ?f row else p)" unfolding t' by auto
      show ?thesis
      proof (cases "p = row")
        case True
        then show ?thesis using p(2) same updated(3) by (simp add: update_target_def updated_row_def)
      next
        case False
        then show ?thesis using p only [OF p(1)] same by (simp add: update_target_def)
      qed
    qed
    then have "find (update_target u2) t' = None" by (simp add: find_None_iff)
    then show ?thesis
      by (simp add: UpdateSemanticRefreshRun_def transaction_def update_tx_def tx_then_def query_row_def tx_fail_def)
  qed
  with updated(1,2,3,6) t' version show ?thesis by auto
qed simp

definition example_update :: run_update where
  "example_update = \<lparr>up_RunID = ''r1'', up_Checkpoint = ''c'', up_CurrentGenerationID = [], up_ErrorCode = [],
     up_ErrorText = [], up_ReadinessState = [], up_ExpectedVersion = 4, up_EmbeddingRevision = 0,
     up_Stage = SemanticRefreshVerify, up_State = SemanticRefreshRunRunning, up_Counters = zero_counters,
     up_Now = example_now\<rparr>"

lemma example_updated:
  obtains run where "UpdateSemanticRefreshRun (\<lambda>_. False) zero_time example_update [completed_run, failed_run] =
    ([completed_run, updated_row example_update (refresh_stamp example_now) failed_run], Inr run)"
proof -
  let ?r = "updated_row example_update (refresh_stamp example_now) failed_run"
  obtain run where run: "scanSemanticRefreshRun ?r = Inr run"
    by (simp add: scanSemanticRefreshRun_def updated_row_def failed_run_def new_row_def example_times)
  have "update_target example_update failed_run" "\<not> update_target example_update completed_run"
    by (simp_all add: update_target_def example_update_def example_rows)
  moreover have "schema_ok [completed_run, ?r]"
    by (simp add: schema_ok_def row_check_def resumable_def validSemanticRefreshCounters_def example_run_defs
        updated_row_def example_update_def)
  moreover have "semanticRefreshNow zero_time (up_Now example_update) = refresh_stamp example_now"
    by (simp add: example_update_def example_times)
  ultimately show ?thesis
    by (intro that [of run])
      (simp add: UpdateSemanticRefreshRun_def transaction_def update_tx_def tx_then_def query_row_def exec_update_def
        scan_tx_def tx_commit_def tx_return_def run)
qed

theorem update_is_compare_and_set_witness:
  "UpdateSemanticRefreshRun (\<lambda>_. False) zero_time example_update
     (fst (UpdateSemanticRefreshRun (\<lambda>_. False) zero_time example_update [completed_run, failed_run])) =
   (fst (UpdateSemanticRefreshRun (\<lambda>_. False) zero_time example_update [completed_run, failed_run]), Inl RunStale)"
proof -
  obtain run where run: "UpdateSemanticRefreshRun (\<lambda>_. False) zero_time example_update [completed_run, failed_run] =
    ([completed_run, updated_row example_update (refresh_stamp example_now) failed_run], Inr run)"
    by (rule example_updated)
  show ?thesis using update_is_compare_and_set [OF example_schema run, of example_update zero_time] by (simp add: run)
qed

end
