(* ===== verification/RefreshRepair.thy ===== *)
theory RefreshRepair
  imports RefreshLedgerProps "HOL-Library.Multiset"
begin

text \<open>
  The repair that moves a version 25 ledger, whose checks counted characters, to version 26, whose
  checks count bytes: no run is lost. A run whose identifiers are too long is kept in the archive
  only, one whose other texts are too long is archived and kept with its texts cut, every other one is kept.
\<close>

definition kept_as :: "stored_run \<Rightarrow> stored_run \<Rightarrow> bool" where
  "kept_as r r' \<longleftrightarrow> RunID r' = RunID r \<and> ProfileID r' = ProfileID r \<and> PurgeEpoch r' = PurgeEpoch r \<and>
     ProjectionWatermark r' = ProjectionWatermark r \<and> EmbeddingRevision r' = EmbeddingRevision r \<and>
     Version r' = Version r \<and> Stage r' = Stage r \<and> State r' = State r \<and> Counters r' = Counters r \<and>
     CurrentGenerationID r' = CurrentGenerationID r \<and>
     Checkpoint r' = truncateSemanticRefreshRunUTF8 (Checkpoint r) 256 \<and>
     ErrorCode r' = truncateSemanticRefreshRunUTF8 (ErrorCode r) 64 \<and>
     ErrorText r' = truncateSemanticRefreshRunUTF8 (ErrorText r) 512 \<and>
     ReadinessState r' = truncateSemanticRefreshRunUTF8 (ReadinessState r) 64"

definition accounted :: "ledger \<Rightarrow> archived_run list \<Rightarrow> stored_run \<Rightarrow> bool" where
  "accounted t as r = (case archive_entry r of
     None \<Rightarrow> list_ex (kept_as r) t
   | Some a \<Rightarrow> a \<in> set as \<and> (arch_action a = ''quarantined'' \<or> list_ex (kept_as r) t))"

lemma repaired_row_kept: "repaired_row r = Inr r' \<Longrightarrow> kept_as r r'"
  by (auto simp: repaired_row_def kept_as_def split: sum.splits)

lemma archive_entry_row: "archive_entry r = Some a \<Longrightarrow> arch_row a = r"
  by (auto simp: archive_entry_def split: compatibility.splits)

lemma accounted_mono:
  "accounted t as r \<Longrightarrow> set t \<subseteq> set t' \<Longrightarrow> set as \<subseteq> set as' \<Longrightarrow> accounted t' as' r"
  by (auto simp: accounted_def list_ex_iff split: option.splits)

lemma repair_active_Inr:
  assumes "repair_active b r s = Inr s'"
  obtains r' where "repaired_row r = Inr r'" "s' = (fst s @ [r'], snd s)" "schema_ok (fst s')"
  using assms by (auto simp: repair_active_def elim!: tx_elims split: sum.splits)

lemma repair_row_accounts:
  assumes "repair_row fails k r (t, as) = Inr (t', as')" "RunID r \<notin> RunID ` arch_row ` set as" "schema_ok t"
  shows "schema_ok t' \<and> set t \<subseteq> set t' \<and> set as \<subseteq> set as' \<and> accounted t' as' r \<and>
    RunID ` arch_row ` set as' \<subseteq> insert (RunID r) (RunID ` arch_row ` set as)"
proof (cases "archive_entry r")
  case None
  with assms(1) have "repair_active (fails (k + 1)) r (t, as) = Inr (t', as')" by (simp add: repair_row_def)
  then obtain r' where "repaired_row r = Inr r'" "t' = t @ [r']" "as' = as" "schema_ok t'"
    by (rule repair_active_Inr) simp
  then show ?thesis using None by (auto simp: accounted_def dest: repaired_row_kept)
next
  case (Some a)
  note row = archive_entry_row [OF Some]
  have new: "archive_insert a as = as @ [a]"
    using assms(2) row by (auto simp: archive_insert_def image_iff)
  show ?thesis
  proof (cases "arch_action a = ''quarantined''")
    case True
    with assms(1) Some have "t' = t" "as' = as @ [a]"
      by (auto simp: repair_row_def new split: if_splits)
    then show ?thesis using Some True assms(3) row by (auto simp: accounted_def)
  next
    case False
    with assms(1) Some have "repair_active (fails (k + 1)) r (t, as @ [a]) = Inr (t', as')"
      by (auto simp: repair_row_def new Let_def split: if_splits)
    then obtain r' where "repaired_row r = Inr r'" "t' = t @ [r']" "as' = as @ [a]" "schema_ok t'"
      by (rule repair_active_Inr) simp
    then show ?thesis using Some row by (auto simp: accounted_def dest: repaired_row_kept)
  qed
qed

lemma repair_rows_account:
  assumes "repair_rows fails k rs (t, as) = Inr (t', as')" "distinct (map RunID rs)"
    "RunID ` set rs \<inter> RunID ` arch_row ` set as = {}" "schema_ok t"
  shows "schema_ok t' \<and> set t \<subseteq> set t' \<and> set as \<subseteq> set as' \<and> list_all (accounted t' as') rs"
  using assms
proof (induction rs arbitrary: k t as)
  case (Cons r rs)
  then obtain u bs where one: "repair_row fails k r (t, as) = Inr (u, bs)"
    and rest: "repair_rows fails (k + 2) rs (u, bs) = Inr (t', as')"
    by (auto split: sum.splits)
  have "RunID r \<notin> RunID ` arch_row ` set as" using Cons.prems(3) by auto
  note r = repair_row_accounts [OF one this Cons.prems(4)]
  have "RunID ` set rs \<inter> insert (RunID r) (RunID ` arch_row ` set as) = {}" using Cons.prems(2,3) by auto
  then have apart: "RunID ` set rs \<inter> RunID ` arch_row ` set bs = {}" using r by blast
  have "schema_ok t' \<and> set u \<subseteq> set t' \<and> set bs \<subseteq> set as' \<and> list_all (accounted t' as') rs"
    by (rule Cons.IH [OF rest _ apart]) (use r Cons.prems(2) in simp_all)
  with r show ?case by (auto intro: accounted_mono)
qed simp

section \<open>When the repair succeeds\<close>

text \<open>What version 25 guaranteed of a row beside the lengths, which it counted in characters.\<close>

definition v25_row :: "stored_run \<Rightarrow> bool" where
  "v25_row r \<longleftrightarrow> RunID r \<noteq> [] \<and> ProfileID r \<noteq> [] \<and> 0 \<le> PurgeEpoch r \<and> 0 \<le> ProjectionWatermark r \<and>
     0 \<le> EmbeddingRevision r \<and> Stage r \<in> set run_stages \<and> validSemanticRefreshCounters (Counters r) \<and>
     State r \<in> set (resumable_states @ [SemanticRefreshRunCompleted, SemanticRefreshRunSuperseded]) \<and>
     0 < Version r \<and> parse_rfc3339 (CreatedAt r) \<noteq> None \<and> parse_rfc3339 (UpdatedAt r) \<noteq> None \<and>
     parse_rfc3339 (LastProgressAt r) \<noteq> None"

definition v25_ledger :: "ledger \<Rightarrow> bool" where
  "v25_ledger t \<longleftrightarrow> list_all v25_row t \<and> distinct (map RunID t) \<and> distinct (map ProfileID (filter resumable t))"

lemma overflowing_Nil: "overflowing fs = [] \<longleftrightarrow> list_all (\<lambda>(n, v, l). length v \<le> l) fs"
  by (induction fs) (auto simp: overflowing_def)

lemma repaired_row_check:
  assumes "v25_row r" "\<nexists>a. archive_entry r = Some a \<and> arch_action a = ''quarantined''"
  obtains r' where "repaired_row r = Inr r'" "row_check r'" "RunID r' = RunID r" "ProfileID r' = ProfileID r"
    "resumable r' = resumable r"
proof -
  have "overflowing (immutable_fields r) = []"
    using assms(2) by (auto simp: archive_entry_def semanticRefreshRunV25Compatibility_def Let_def split: if_splits)
  then have len: "length (RunID r) \<le> 64" "length (ProfileID r) \<le> 192"
    by (simp_all add: overflowing_Nil immutable_fields_def)
  obtain r' where r': "repaired_row r = Inr r'"
    using assms(1) by (auto simp: v25_row_def repaired_row_def normalizeSemanticRefreshTimestamp_def)
  note k = repaired_row_kept [OF r', unfolded kept_as_def]
  show ?thesis
  proof (rule that [OF r'])
    show "row_check r'" using assms(1) len k by (auto simp: row_check_def v25_row_def Suc_le_eq)
  qed (use k in \<open>auto simp: resumable_def\<close>)
qed

lemma repair_row_succeeds:
  assumes "v25_ledger (rs @ [r])" "schema_ok t" "RunID ` set t \<subseteq> RunID ` set rs"
    "ProfileID ` set (filter resumable t) \<subseteq> ProfileID ` set (filter resumable rs)"
  shows "\<exists>t' as'. repair_row (\<lambda>_. False) k r (t, as) = Inr (t', as') \<and> schema_ok t' \<and>
    RunID ` set t' \<subseteq> RunID ` set (rs @ [r]) \<and>
    ProfileID ` set (filter resumable t') \<subseteq> ProfileID ` set (filter resumable (rs @ [r]))"
proof (cases "\<exists>a. archive_entry r = Some a \<and> arch_action a = ''quarantined''")
  case True
  then obtain as' where "repair_row (\<lambda>_. False) k r (t, as) = Inr (t, as')"
    by (auto simp: repair_row_def)
  moreover have "RunID ` set t \<subseteq> RunID ` set (rs @ [r])" using assms(3) by auto
  moreover have "ProfileID ` set (filter resumable t) \<subseteq> ProfileID ` set (filter resumable (rs @ [r]))"
    using assms(4) by auto
  ultimately show ?thesis using assms(2) by blast
next
  case False
  have v: "v25_row r" using assms(1) by (simp add: v25_ledger_def)
  obtain r' where r': "repaired_row r = Inr r'" "row_check r'" "RunID r' = RunID r" "ProfileID r' = ProfileID r"
    "resumable r' = resumable r" by (rule repaired_row_check [OF v False])
  have "RunID r \<notin> RunID ` set rs" "resumable r \<Longrightarrow> ProfileID r \<notin> ProfileID ` set (filter resumable rs)"
    using assms(1) by (auto simp: v25_ledger_def)
  then have ok: "schema_ok (t @ [r'])"
    using assms(2-4) r' by (auto simp: schema_ok_def)
  then have "repair_active False r (t, bs) = Inr (t @ [r'], bs)" for bs
    by (simp add: repair_active_def r'(1) exec_insert_def)
  then have "\<exists>as'. repair_row (\<lambda>_. False) k r (t, as) = Inr (t @ [r'], as')"
    using False by (auto simp: repair_row_def Let_def split: option.split)
  moreover have "RunID ` set (t @ [r']) \<subseteq> RunID ` set (rs @ [r])" using assms(3) r'(3) by auto
  moreover have "ProfileID ` set (filter resumable (t @ [r'])) \<subseteq> ProfileID ` set (filter resumable (rs @ [r]))"
    using assms(4) r'(4,5) by auto
  ultimately show ?thesis using ok by blast
qed

lemma repair_rows_succeed:
  assumes "v25_ledger (qs @ rs)" "schema_ok t" "RunID ` set t \<subseteq> RunID ` set qs"
    "ProfileID ` set (filter resumable t) \<subseteq> ProfileID ` set (filter resumable qs)"
  shows "\<exists>s. repair_rows (\<lambda>_. False) k rs (t, as) = Inr s"
  using assms
proof (induction rs arbitrary: k qs t as)
  case (Cons r rs)
  have "v25_ledger (qs @ [r])" using Cons.prems(1) by (auto simp: v25_ledger_def)
  from repair_row_succeeds [OF this Cons.prems(2-4), of k as] obtain t' as' where
    one: "repair_row (\<lambda>_. False) k r (t, as) = Inr (t', as')" "schema_ok t'"
    "RunID ` set t' \<subseteq> RunID ` set (qs @ [r])"
    "ProfileID ` set (filter resumable t') \<subseteq> ProfileID ` set (filter resumable (qs @ [r]))" by blast
  then show ?case using Cons.IH [of "qs @ [r]" t' "k + 2" as'] Cons.prems(1) by simp
qed simp

lemma distinct_sort_map: "distinct (map f (sort_key g xs)) \<longleftrightarrow> distinct (map f xs)"
  by (metis mset_eq_imp_distinct_iff mset_map mset_sort)

lemma v25_sorted: "v25_ledger t \<Longrightarrow> v25_ledger (sort_key g t)"
  by (auto simp: v25_ledger_def distinct_sort_map list_all_iff filter_sort)

text \<open>C23. The repair of a version 25 ledger loses nothing: it either fails and leaves the tables as they were, or
  leaves a table that satisfies the byte limits in which every old run is kept as it was, its texts cut to the
  limits, except those whose identifiers do not fit; each of these, and each run with a text that does not fit, is
  in the archive with its exact old values. Unless a statement fails, a version 25 ledger whose times parse is
  repaired.\<close>

theorem repair_loses_nothing:
  assumes "repairSemanticRefreshRunSchemaV26 fails (t, []) = ((t', as), e)" "v25_ledger t"
  shows "(e \<noteq> None \<and> t' = t \<and> as = [] \<or> e = None \<and> schema_ok t' \<and> list_all (accounted t' as) t) \<and>
    (fails = (\<lambda>_. False) \<longrightarrow> e = None)"
proof -
  let ?rs = "sort_key (SqlText \<circ> RunID) t"
  have empty: "schema_ok []" by (simp add: schema_ok_def)
  have "schema_ok t' \<and> list_all (accounted t' as) t" if "repair_rows fails 2 ?rs ([], []) = Inr (t', as)"
  proof -
    have "distinct (map RunID ?rs)" using assms(2) by (simp add: v25_ledger_def distinct_sort_map)
    from repair_rows_account [OF that this _ empty] show ?thesis by (simp add: list_all_iff)
  qed
  moreover have "\<exists>s. repair_rows (\<lambda>_. False) 2 ?rs ([], []) = Inr s"
    using repair_rows_succeed [of "[]" ?rs "[]" 2 "[]"] v25_sorted [OF assms(2), of "SqlText \<circ> RunID"] empty
    by simp
  ultimately show ?thesis
    using assms(1) by (auto simp: repairSemanticRefreshRunSchemaV26_def split: if_splits sum.splits)
qed

theorem repair_loses_nothing_witness:
  "snd (repairSemanticRefreshRunSchemaV26 (\<lambda>_. False) ([completed_run], [])) = None"
proof -
  have "parse_rfc3339 (refresh_stamp example_now) \<noteq> None" by code_simp
  then have "v25_ledger [completed_run]"
    by (simp add: v25_ledger_def v25_row_def validSemanticRefreshCounters_def example_run_defs)
  then show ?thesis
    using repair_loses_nothing [of "\<lambda>_. False" "[completed_run]"] by (metis prod.exhaust_sel)
qed

end
