(* ===== verification/RefreshRunner.thy ===== *)
theory RefreshRunner
  imports RefreshLedger GoContext
begin

text \<open>
  The runner of semantic refreshes (\<open>internal/semanticrefresh/runner.go\<close>, with
  \<open>errors.go\<close> and \<open>types.go\<close>): it executes one bounded stage at a time and checkpoints
  every outcome in the ledger before the next one. The ledger is the record \<open>run_ledger\<close> of the three
  methods of the interface \<open>RunLedger\<close> on a state \<open>'l\<close>. What the stage executor, the progress
  emitter and the stage gate answer in one turn of the loop is a \<open>stage_event\<close>, and a run is a list
  of them; the runner is still running when the list is used up (\<open>None\<close>).
\<close>

section \<open>Errors\<close>

record debt =
  DirtyParents :: int
  PendingEmbeddings :: int
  DueRetries :: int
  ScheduledRetries :: int
  BlockedEmbeddings :: int
  FailedEmbeddings :: int
  Indexed :: int
  L0Ready :: int
  Tombstones :: int
  Segments :: int

definition no_debt :: debt where
  "no_debt = \<lparr>DirtyParents = 0, PendingEmbeddings = 0, DueRetries = 0, ScheduledRetries = 0,
     BlockedEmbeddings = 0, FailedEmbeddings = 0, Indexed = 0, L0Ready = 0, Tombstones = 0, Segments = 0\<rparr>"

record refresh_error =
  re_Code :: string
  re_Stage :: string
  re_RunID :: string
  re_Checkpoint :: string
  re_Readiness :: string
  re_Debt :: debt
  re_Message :: string

text \<open>An error with its tree of causes: a \<open>RefreshError\<close> with the error it wraps, a stale run, a
  cancelled context, a named error of a package, any other error, an error wrapped with a message, a failed
  lock (\<open>semanticLockFailure\<close>), and \<open>errors.Join\<close> (which drops the nil ones).\<close>

datatype go_error = RefreshErr refresh_error "go_error option" | StaleErr | CanceledErr | NamedErr string
  | OtherErr string | WrapErr go_error | LockErr go_error | Joined "go_error list"

text \<open>\<open>errors.As\<close> with a \<open>RefreshError\<close>.\<close>

fun as_refresh :: "go_error \<Rightarrow> (refresh_error \<times> go_error option) option"
  and first_refresh :: "go_error list \<Rightarrow> (refresh_error \<times> go_error option) option" where
  "as_refresh (RefreshErr r cause) = Some (r, cause)"
| "as_refresh (Joined es) = first_refresh es"
| "as_refresh (WrapErr e) = as_refresh e"
| "as_refresh (LockErr e) = as_refresh e"
| "as_refresh StaleErr = None"
| "as_refresh CanceledErr = None"
| "as_refresh (NamedErr m) = None"
| "as_refresh (OtherErr m) = None"
| "first_refresh [] = None"
| "first_refresh (e # es) = (case as_refresh e of Some r \<Rightarrow> Some r | None \<Rightarrow> first_refresh es)"

text \<open>\<open>errors.Is\<close> for an error value without wrapping.\<close>

fun error_is :: "go_error \<Rightarrow> go_error \<Rightarrow> bool"
  and any_error_is :: "go_error \<Rightarrow> go_error list \<Rightarrow> bool" where
  "error_is target (RefreshErr r None) = (target = RefreshErr r None)"
| "error_is target (RefreshErr r (Some cause)) = (target = RefreshErr r (Some cause) \<or> error_is target cause)"
| "error_is target (Joined es) = any_error_is target es"
| "error_is target (WrapErr e) = error_is target e"
| "error_is target (LockErr e) = error_is target e"
| "error_is target StaleErr = (target = StaleErr)"
| "error_is target CanceledErr = (target = CanceledErr)"
| "error_is target (NamedErr m) = (target = NamedErr m)"
| "error_is target (OtherErr m) = (target = OtherErr m)"
| "any_error_is target [] = False"
| "any_error_is target (e # es) = (error_is target e \<or> any_error_is target es)"

definition join_errors :: "go_error option list \<Rightarrow> go_error option" where
  "join_errors es = (let present = map the (filter (\<lambda>e. e \<noteq> None) es) in
     if present = [] then None else Some (Joined present))"

definition ErrorBackendBroken :: string where "ErrorBackendBroken = ''semantic_backend_broken''"
definition ErrorRunConflict :: string where "ErrorRunConflict = ''semantic_run_conflict''"
definition ErrorProjection :: string where "ErrorProjection = ''semantic_projection_failed''"
definition ErrorEmbedding :: string where "ErrorEmbedding = ''semantic_embedding_failed''"
definition ErrorEmbeddingCircuit :: string where "ErrorEmbeddingCircuit = ''semantic_embedding_circuit_open''"
definition ErrorFlush :: string where "ErrorFlush = ''semantic_flush_failed''"
definition ErrorCompaction :: string where "ErrorCompaction = ''semantic_compaction_failed''"
definition ErrorVerify :: string where "ErrorVerify = ''semantic_verify_failed''"
definition ErrorNativeRoot :: string where "ErrorNativeRoot = ''semantic_native_root_failed''"
definition ErrorReadiness :: string where "ErrorReadiness = ''semantic_readiness_not_ready''"
definition ErrorLockUnavailable :: string where "ErrorLockUnavailable = ''semantic_lock_unavailable''"
definition ErrorCancelled :: string where "ErrorCancelled = ''semantic_refresh_cancelled''"
definition errorGeneric :: string where "errorGeneric = ''semantic_refresh_failed''"

lemmas error_code_defs = ErrorBackendBroken_def ErrorRunConflict_def ErrorProjection_def ErrorEmbedding_def
  ErrorEmbeddingCircuit_def ErrorFlush_def ErrorCompaction_def ErrorVerify_def ErrorNativeRoot_def
  ErrorReadiness_def ErrorLockUnavailable_def ErrorCancelled_def errorGeneric_def

definition safe_codes :: "string list" where
  "safe_codes = [ErrorBackendBroken, ErrorRunConflict, ErrorProjection, ErrorEmbedding, ErrorEmbeddingCircuit,
     ErrorFlush, ErrorCompaction, ErrorVerify, ErrorNativeRoot, ErrorReadiness, ErrorLockUnavailable, ErrorCancelled]"

definition safeRefreshErrorCode :: "string \<Rightarrow> string" where
  "safeRefreshErrorCode code = (if code \<in> set safe_codes then code else errorGeneric)"

definition safeRefreshStage :: "string \<Rightarrow> string" where
  "safeRefreshStage stage = (if stage \<in> set run_stages then stage else [])"

definition errorCodeLimit :: nat where "errorCodeLimit = 64"
definition errorCheckpointLimit :: nat where "errorCheckpointLimit = 256"
definition errorMessageLimit :: nat where "errorMessageLimit = 512"
definition errorReadinessLimit :: nat where "errorReadinessLimit = 64"
definition errorRunIDLimit :: nat where "errorRunIDLimit = 64"
definition generationIDLimit :: nat where "generationIDLimit = 64"

lemmas limit_defs = errorCodeLimit_def errorCheckpointLimit_def errorMessageLimit_def errorReadinessLimit_def
  errorRunIDLimit_def generationIDLimit_def

definition refresh_fields :: "string \<Rightarrow> loaded_run \<Rightarrow> string \<Rightarrow> debt \<Rightarrow> refresh_error" where
  "refresh_fields code run readiness debt =
     (let code = safeRefreshErrorCode code in
      \<lparr>re_Code = code, re_Stage = safeRefreshStage (Stage run),
       re_RunID = boundedProtocolField (RunID run) errorRunIDLimit,
       re_Checkpoint = boundedProtocolField (Checkpoint run) errorCheckpointLimit,
       re_Readiness = boundedProtocolField readiness errorReadinessLimit,
       re_Debt = debt, re_Message = code\<rparr>)"

definition NewError :: "string \<Rightarrow> loaded_run \<Rightarrow> string \<Rightarrow> debt \<Rightarrow> go_error option \<Rightarrow> go_error" where
  "NewError code run readiness debt cause = RefreshErr (refresh_fields code run readiness debt) cause"

definition refreshErrorCode :: "string \<Rightarrow> go_error option \<Rightarrow> string" where
  "refreshErrorCode stage cause =
     (case Option.bind cause as_refresh of Some (r, _) \<Rightarrow> re_Code r
      | None \<Rightarrow>
         if stage = SemanticRefreshProjection then ErrorProjection
         else if stage = SemanticRefreshEmbedding then ErrorEmbedding
         else if stage = SemanticRefreshFlush then ErrorFlush
         else if stage = SemanticRefreshCompaction then ErrorCompaction
         else if stage = SemanticRefreshVerify then ErrorVerify
         else if stage = SemanticRefreshReadiness then ErrorReadiness
         else ErrorBackendBroken)"

text \<open>The first error that is not a cancellation, else the first error.\<close>

definition firstMeaningfulError :: "go_error option list \<Rightarrow> go_error option" where
  "firstMeaningfulError es =
     (case find (\<lambda>e. e \<noteq> None \<and> \<not> error_is CanceledErr (the e)) es of Some e \<Rightarrow> e
      | None \<Rightarrow> (case find (\<lambda>e. e \<noteq> None) es of Some e \<Rightarrow> e | None \<Rightarrow> None))"

section \<open>Requests, outcomes and results\<close>

record 'l run_ledger =
  rl_start :: "start_input \<Rightarrow> 'l \<Rightarrow> 'l \<times> (go_error + (loaded_run \<times> bool))"
  rl_update :: "run_update \<Rightarrow> 'l \<Rightarrow> 'l \<times> (go_error + loaded_run)"
  rl_touch :: "string \<Rightarrow> gotime \<Rightarrow> 'l \<Rightarrow> 'l \<times> go_error option"

text \<open>\<open>req_Now\<close> reads the clock of the state it is called in; whether the capability is
  supported and ready is a value here.\<close>

record 'l request =
  req_ProfileID :: string
  req_PurgeEpoch :: int
  req_ProjectionWatermark :: int
  req_CapabilityReady :: bool
  req_Now :: "'l \<Rightarrow> gotime"

definition request_valid :: "'l request \<Rightarrow> bool" where
  "request_valid req \<longleftrightarrow> TrimSpace (req_ProfileID req) \<noteq> [] \<and> length (TrimSpace (req_ProfileID req)) \<le> 192 \<and>
     0 \<le> req_PurgeEpoch req \<and> 0 \<le> req_ProjectionWatermark req \<and> req_CapabilityReady req"

record stage_outcome =
  out_NextStage :: string
  out_Checkpoint :: string
  out_EmbeddingRevision :: int
  out_Counters :: refresh_counters
  out_CurrentGenerationID :: string
  out_Readiness :: string
  out_Debt :: debt
  out_Complete :: bool
  out_SuccessorWatermark :: "int option"

definition zero_outcome :: stage_outcome where
  "zero_outcome = \<lparr>out_NextStage = [], out_Checkpoint = [], out_EmbeddingRevision = 0, out_Counters = zero_counters,
     out_CurrentGenerationID = [], out_Readiness = [], out_Debt = no_debt, out_Complete = False,
     out_SuccessorWatermark = None\<rparr>"

definition stageOutcomeIsZero :: "stage_outcome \<Rightarrow> bool" where
  "stageOutcomeIsZero outcome = (outcome = zero_outcome)"

record refresh_result =
  res_Completed :: bool
  res_Run :: "loaded_run option"
  res_Debt :: debt

definition base_result :: refresh_result where
  "base_result = \<lparr>res_Completed = False, res_Run = None, res_Debt = no_debt\<rparr>"

definition failureResult :: "loaded_run \<Rightarrow> debt \<Rightarrow> refresh_result" where
  "failureResult run debt = \<lparr>res_Completed = False, res_Run = Some run, res_Debt = debt\<rparr>"

definition completedRunResult :: "loaded_run \<Rightarrow> debt \<Rightarrow> refresh_result" where
  "completedRunResult run debt = \<lparr>res_Completed = True, res_Run = Some run, res_Debt = debt\<rparr>"

definition errorRun :: "loaded_run \<Rightarrow> string \<Rightarrow> loaded_run" where
  "errorRun run stage = run\<lparr>Stage := stage\<rparr>"

definition validGenerationID :: "string \<Rightarrow> bool" where
  "validGenerationID generationID \<longleftrightarrow> generationID = [] \<or>
     length generationID \<le> generationIDLimit \<and> boundedProtocolField generationID generationIDLimit = generationID"

definition normalizeLoadedRunGeneration :: "loaded_run \<Rightarrow> loaded_run" where
  "normalizeLoadedRunGeneration run =
     (if validGenerationID (CurrentGenerationID run) then run else run\<lparr>CurrentGenerationID := []\<rparr>)"

definition sanitizeStageOutcomeGeneration :: "loaded_run \<Rightarrow> stage_outcome \<Rightarrow> stage_outcome \<times> go_error option" where
  "sanitizeStageOutcomeGeneration run outcome =
     (if validGenerationID (out_CurrentGenerationID outcome) then (outcome, None)
      else (outcome\<lparr>out_CurrentGenerationID :=
          (if validGenerationID (CurrentGenerationID run) then CurrentGenerationID run else [])\<rparr>,
        Some (OtherErr ''semantic refresh generation ID is invalid'')))"

definition outcomeUpdate :: "gotime \<Rightarrow> loaded_run \<Rightarrow> stage_outcome \<Rightarrow> string \<Rightarrow> string \<Rightarrow> string \<Rightarrow> run_update" where
  "outcomeUpdate now run outcome state errorCode errorText =
     \<lparr>up_RunID = RunID run, up_Checkpoint = boundedDiagnostic (out_Checkpoint outcome) errorCheckpointLimit,
      up_CurrentGenerationID = out_CurrentGenerationID outcome,
      up_ErrorCode = boundedProtocolField errorCode errorCodeLimit,
      up_ErrorText = boundedDiagnostic errorText errorMessageLimit,
      up_ReadinessState = boundedProtocolField (out_Readiness outcome) errorReadinessLimit,
      up_ExpectedVersion = Version run, up_EmbeddingRevision = out_EmbeddingRevision outcome,
      up_Stage = (if out_NextStage outcome = [] then Stage run else out_NextStage outcome),
      up_State = state, up_Counters = out_Counters outcome, up_Now = now\<rparr>"

definition runStateUpdate :: "gotime \<Rightarrow> loaded_run \<Rightarrow> string \<Rightarrow> string \<Rightarrow> string \<Rightarrow> run_update" where
  "runStateUpdate now run state errorCode errorText =
     \<lparr>up_RunID = RunID run, up_Checkpoint = boundedDiagnostic (Checkpoint run) errorCheckpointLimit,
      up_CurrentGenerationID = CurrentGenerationID run,
      up_ErrorCode = boundedProtocolField errorCode errorCodeLimit,
      up_ErrorText = boundedDiagnostic errorText errorMessageLimit,
      up_ReadinessState = boundedProtocolField (ReadinessState run) errorReadinessLimit,
      up_ExpectedVersion = Version run, up_EmbeddingRevision = EmbeddingRevision run, up_Stage = Stage run,
      up_State = state, up_Counters = Counters run, up_Now = now\<rparr>"

section \<open>Steps that may return\<close>

text \<open>How a run of the ledger ends: with an error, completed, or completed with a successor that goes on.\<close>

datatype stage_end = RunFailed refresh_result go_error | RunDone refresh_result
  | RunSuccessor refresh_result loaded_run debt

text \<open>A piece of \<open>runOneLedgerRun\<close>: \<open>Inl\<close> returns from the function.\<close>

type_synonym ('l, 'a) piece = "ctx \<Rightarrow> 'l \<Rightarrow> (stage_end + 'a) \<times> ctx \<times> 'l"

definition go_on :: "'a \<Rightarrow> ('l, 'a) piece" where
  "go_on x c l = (Inr x, c, l)"

definition exit_with :: "stage_end \<Rightarrow> ('l, 'a) piece" where
  "exit_with r c l = (Inl r, c, l)"

definition and_then :: "('l, 'a) piece \<Rightarrow> ('a \<Rightarrow> ('l, 'b) piece) \<Rightarrow> ('l, 'b) piece" where
  "and_then m f c l = (case m c l of (Inl r, c, l) \<Rightarrow> (Inl r, c, l) | (Inr x, c, l) \<Rightarrow> f x c l)"

definition ctx_cancelled :: "('l, bool) piece" where
  "ctx_cancelled c l = (case ctx_err c of (x, c) \<Rightarrow> (Inr x, c, l))"

definition ledger_update :: "'l run_ledger \<Rightarrow> 'l request \<Rightarrow> (gotime \<Rightarrow> run_update) \<Rightarrow> ('l, go_error + loaded_run) piece" where
  "ledger_update ops req u c l = (case rl_update ops (u (req_Now req l)) l of (l, r) \<Rightarrow> (Inr r, c, l))"

text \<open>\<open>updateRunDurably\<close>: under the context, or detached from it when it is already cancelled.\<close>

definition updateRunDurably :: "'l run_ledger \<Rightarrow> 'l request \<Rightarrow> (gotime \<Rightarrow> run_update) \<Rightarrow> ('l, go_error + loaded_run) piece" where
  "updateRunDurably ops req u = and_then ctx_cancelled (\<lambda>_. ledger_update ops req u)"

definition ledger_start :: "'l run_ledger \<Rightarrow> (gotime \<Rightarrow> start_input) \<Rightarrow> 'l request \<Rightarrow> ('l, go_error + (loaded_run \<times> bool)) piece" where
  "ledger_start ops i req c l = (case rl_start ops (i (req_Now req l)) l of (l, r) \<Rightarrow> (Inr r, c, l))"

definition persistCancelled ::
  "'l run_ledger \<Rightarrow> 'l request \<Rightarrow> loaded_run \<Rightarrow> string \<Rightarrow> debt \<Rightarrow> go_error option \<Rightarrow> ('l, 'a) piece" where
  "persistCancelled ops req run executedStage debt cause =
     and_then (ledger_update ops req (\<lambda>now. runStateUpdate now run SemanticRefreshRunCancelled ErrorCancelled ErrorCancelled))
     (\<lambda>r. case r of
       Inl err \<Rightarrow> exit_with (RunFailed (failureResult run debt)
         (NewError ErrorCancelled (errorRun run executedStage) (ReadinessState run) debt (join_errors [cause, Some err])))
     | Inr cancelled \<Rightarrow> exit_with (RunFailed (failureResult cancelled debt)
         (NewError ErrorCancelled (errorRun cancelled executedStage) (ReadinessState cancelled) debt cause)))"

definition persistTerminalCode ::
  "'l run_ledger \<Rightarrow> 'l request \<Rightarrow> loaded_run \<Rightarrow> string \<Rightarrow> debt \<Rightarrow> string \<Rightarrow> go_error option \<Rightarrow> ('l, 'a) piece" where
  "persistTerminalCode ops req run executedStage debt code cause =
     (let e = refresh_fields code (errorRun run executedStage) (ReadinessState run) debt in
      and_then (updateRunDurably ops req (\<lambda>now. runStateUpdate now run SemanticRefreshRunFailed (re_Code e) (re_Message e)))
      (\<lambda>r. case r of
        Inl err \<Rightarrow> exit_with (RunFailed (failureResult run debt)
          (NewError ErrorRunConflict (errorRun run executedStage) (ReadinessState run) debt (Some err)))
      | Inr failed \<Rightarrow> exit_with (RunFailed (failureResult failed debt)
          (NewError code (errorRun failed executedStage) (ReadinessState failed) debt
            (case Option.bind cause as_refresh of Some (_, preserved) \<Rightarrow> preserved | None \<Rightarrow> cause)))))"

definition persistTerminalFailure ::
  "'l run_ledger \<Rightarrow> 'l request \<Rightarrow> loaded_run \<Rightarrow> string \<Rightarrow> debt \<Rightarrow> go_error option \<Rightarrow> ('l, 'a) piece" where
  "persistTerminalFailure ops req run executedStage debt cause =
     persistTerminalCode ops req run executedStage debt (refreshErrorCode executedStage cause) cause"

section \<open>One turn of the stage loop\<close>

record stage_event =
  ev_acquire :: "go_error option"
  ev_outcome :: stage_outcome
  ev_error :: "go_error option"
  ev_publish :: "go_error option"
  ev_workContext :: "go_error option"
  ev_stop :: "go_error option"

definition cancelled_err :: "go_error option" where
  "cancelled_err = Some CanceledErr"

definition acquire_stage :: "'l run_ledger \<Rightarrow> 'l request \<Rightarrow> stage_event \<Rightarrow> loaded_run \<Rightarrow> debt \<Rightarrow> ('l, unit) piece" where
  "acquire_stage ops req ev run debt =
     (case ev_acquire ev of None \<Rightarrow> go_on ()
      | Some acquireErr \<Rightarrow> and_then ctx_cancelled (\<lambda>cancelled.
          if cancelled then persistCancelled ops req run (Stage run) debt
            (join_errors [cancelled_err, Some acquireErr, ev_stop ev])
          else persistTerminalFailure ops req run (Stage run) debt
            (firstMeaningfulError [ev_stop ev, Some acquireErr])))"

text \<open>The outcome as it is persisted, and the error of the execution.\<close>

definition executed_outcome :: "loaded_run \<Rightarrow> stage_event \<Rightarrow> stage_outcome \<times> go_error option" where
  "executed_outcome run ev =
     (case sanitizeStageOutcomeGeneration run (ev_outcome ev) of (outcome, generationErr) \<Rightarrow>
       let executeErr = (if ev_error ev = None then generationErr else ev_error ev) in
       (outcome, if stageOutcomeIsZero outcome \<and> executeErr = None
         then Some (OtherErr ''semantic refresh executor returned no outcome'') else executeErr))"

definition checkpoint_outcome ::
  "'l run_ledger \<Rightarrow> 'l request \<Rightarrow> stage_event \<Rightarrow> stage_outcome \<Rightarrow> loaded_run \<Rightarrow> debt \<Rightarrow> ('l, loaded_run \<times> debt) piece" where
  "checkpoint_outcome ops req ev outcome run debt =
     (if stageOutcomeIsZero outcome then go_on (run, debt)
      else and_then (updateRunDurably ops req (\<lambda>now. outcomeUpdate now run outcome SemanticRefreshRunRunning [] []))
        (\<lambda>r. case r of
          Inr persisted \<Rightarrow> go_on (persisted, out_Debt outcome)
        | Inl updateErr \<Rightarrow> and_then ctx_cancelled (\<lambda>cancelled.
            if cancelled then persistCancelled ops req run (Stage run) debt
              (join_errors [cancelled_err, Some updateErr, ev_stop ev])
            else exit_with (RunFailed (failureResult run debt)
              (NewError ErrorRunConflict run (ReadinessState run) debt (Some updateErr))))))"

definition successor_too_low :: "stage_outcome \<Rightarrow> loaded_run \<Rightarrow> bool" where
  "successor_too_low outcome run = (case out_SuccessorWatermark outcome of
     None \<Rightarrow> False | Some w \<Rightarrow> w \<le> ProjectionWatermark run)"

text \<open>After the checkpoint: publish the progress, and return if the context, the successor or
  the execution is at fault.\<close>

definition check_outcome ::
  "'l run_ledger \<Rightarrow> 'l request \<Rightarrow> stage_event \<Rightarrow> string \<Rightarrow> stage_outcome \<Rightarrow> go_error option \<Rightarrow> loaded_run \<Rightarrow> debt \<Rightarrow>
   ('l, unit) piece" where
  "check_outcome ops req ev executedStage outcome executeErr run debt =
     and_then ctx_cancelled (\<lambda>before.
     let publishErr = (if \<not> before \<and> executeErr = None \<and> \<not> stageOutcomeIsZero outcome then ev_publish ev else None) in
     and_then ctx_cancelled (\<lambda>cancelled.
     if cancelled then persistCancelled ops req run executedStage debt
       (join_errors [cancelled_err, executeErr, publishErr, ev_stop ev])
     else if successor_too_low outcome run then persistTerminalCode ops req run executedStage debt ErrorRunConflict
       (join_errors [Some (OtherErr ''semantic successor watermark must exceed current watermark''), ev_stop ev])
     else if publishErr \<noteq> None \<or> executeErr \<noteq> None \<or> ev_workContext ev \<noteq> None then
       let cause = (case Option.bind executeErr as_refresh of Some (r, inner) \<Rightarrow> Some (RefreshErr r inner)
         | None \<Rightarrow> firstMeaningfulError [ev_stop ev, publishErr, executeErr, ev_workContext ev]) in
       if cause \<noteq> None \<and> error_is StaleErr (the cause)
       then exit_with (RunFailed (failureResult run debt)
         (NewError ErrorRunConflict (errorRun run executedStage) (ReadinessState run) debt cause))
       else persistTerminalFailure ops req run executedStage debt cause
     else go_on ()))"

section \<open>Completion and successors\<close>

definition valid_run_id :: "string \<Rightarrow> bool" where
  "valid_run_id runID \<longleftrightarrow> length runID = 32 \<and> list_all (\<lambda>c. in_bytes 48 57 c \<or> in_bytes 97 102 c) runID"

definition nextRunID :: "go_error + string \<Rightarrow> go_error + string" where
  "nextRunID generated = (case generated of Inl e \<Rightarrow> Inl e
     | Inr runID \<Rightarrow> if valid_run_id runID then Inr runID
         else Inl (OtherErr ''semantic refresh run ID must be 32 lowercase hexadecimal characters''))"

definition successor_input :: "loaded_run \<Rightarrow> string \<Rightarrow> int \<Rightarrow> gotime \<Rightarrow> start_input" where
  "successor_input completed runID watermark now =
     \<lparr>in_RunID = runID, in_ProfileID = ProfileID completed, in_PurgeEpoch = PurgeEpoch completed,
      in_ProjectionWatermark = watermark,
      in_InitialCounters = zero_counters\<lparr>SuccessorRuns := SuccessorRuns (Counters completed) + 1\<rparr>, in_Now = now\<rparr>"

definition successor_matches :: "loaded_run \<Rightarrow> string \<Rightarrow> int \<Rightarrow> bool \<Rightarrow> loaded_run \<Rightarrow> bool" where
  "successor_matches completed runID watermark resumed successor \<longleftrightarrow> \<not> (resumed \<or> RunID successor \<noteq> runID \<or>
     ProfileID successor \<noteq> ProfileID completed \<or> PurgeEpoch successor \<noteq> PurgeEpoch completed \<or>
     ProjectionWatermark successor \<noteq> watermark \<or> Stage successor \<noteq> SemanticRefreshProjection \<or>
     Counters successor \<noteq> zero_counters\<lparr>SuccessorRuns := SuccessorRuns (Counters completed) + 1\<rparr>)"

definition fail_completed :: "string \<Rightarrow> loaded_run \<Rightarrow> debt \<Rightarrow> go_error option \<Rightarrow> ('l, 'a) piece" where
  "fail_completed code completed debt cause = exit_with (RunFailed (failureResult completed debt)
     (NewError code completed (ReadinessState completed) debt cause))"

definition startSuccessor ::
  "'l run_ledger \<Rightarrow> 'l request \<Rightarrow> go_error + string \<Rightarrow> loaded_run \<Rightarrow> debt \<Rightarrow> int \<Rightarrow> ('l, loaded_run) piece" where
  "startSuccessor ops req newID completed debt watermark =
     and_then ctx_cancelled (\<lambda>cancelled.
     if cancelled then fail_completed ErrorCancelled completed debt cancelled_err
     else case nextRunID newID of
       Inl err \<Rightarrow> fail_completed ErrorBackendBroken completed debt (Some err)
     | Inr runID \<Rightarrow>
         and_then ctx_cancelled (\<lambda>cancelled.
         if cancelled then fail_completed ErrorCancelled completed debt cancelled_err
         else if SuccessorRuns (Counters completed) = 2 ^ 63 - 1
         then fail_completed ErrorRunConflict completed debt (Some (OtherErr ''semantic successor count overflow''))
         else and_then (ledger_start ops (successor_input completed runID watermark) req) (\<lambda>r. case r of
           Inl err \<Rightarrow> and_then ctx_cancelled (\<lambda>cancelled.
             if cancelled then fail_completed ErrorCancelled completed debt cancelled_err
             else fail_completed ErrorRunConflict completed debt (Some err))
         | Inr (successor, resumed) \<Rightarrow>
             let successor = normalizeLoadedRunGeneration successor in
             if successor_matches completed runID watermark resumed successor then go_on successor
             else fail_completed ErrorRunConflict completed debt
               (Some (OtherErr ''semantic successor run collided with existing state'')))))"

definition complete_run ::
  "'l run_ledger \<Rightarrow> 'l request \<Rightarrow> stage_event \<Rightarrow> go_error + string \<Rightarrow> string \<Rightarrow> stage_outcome \<Rightarrow> loaded_run \<Rightarrow> debt \<Rightarrow>
   ('l, 'a) piece" where
  "complete_run ops req ev newID executedStage outcome run debt =
     (case ev_stop ev of
        Some stopErr \<Rightarrow>
          if error_is StaleErr stopErr then exit_with (RunFailed (failureResult run debt)
            (NewError ErrorRunConflict (errorRun run executedStage) (ReadinessState run) debt (Some stopErr)))
          else persistTerminalFailure ops req run executedStage debt (Some stopErr)
      | None \<Rightarrow>
          and_then ctx_cancelled (\<lambda>cancelled.
          if cancelled then persistCancelled ops req run executedStage debt cancelled_err
          else and_then (ledger_update ops req (\<lambda>now. runStateUpdate now run SemanticRefreshRunCompleted [] [])) (\<lambda>r. case r of
            Inl updateErr \<Rightarrow> and_then ctx_cancelled (\<lambda>cancelled.
              if cancelled then persistCancelled ops req run executedStage debt (join_errors [cancelled_err, Some updateErr])
              else exit_with (RunFailed (failureResult run debt)
                (NewError ErrorRunConflict run (ReadinessState run) debt (Some updateErr))))
          | Inr completed \<Rightarrow>
              and_then ctx_cancelled (\<lambda>cancelled.
              if cancelled then exit_with (RunFailed (failureResult completed debt)
                (NewError ErrorCancelled (errorRun completed executedStage) (ReadinessState completed) debt cancelled_err))
              else case out_SuccessorWatermark outcome of
                None \<Rightarrow> exit_with (RunDone (completedRunResult completed debt))
              | Some watermark \<Rightarrow>
                  and_then (startSuccessor ops req newID completed debt watermark) (\<lambda>successor.
                  and_then ctx_cancelled (\<lambda>cancelled.
                  if cancelled then persistCancelled ops req successor SemanticRefreshProjection debt cancelled_err
                  else exit_with (RunSuccessor (completedRunResult completed debt) successor debt)))))))"

text \<open>One turn: \<open>Inr\<close> goes on with the run as it is now stored.\<close>

definition stage_step ::
  "'l run_ledger \<Rightarrow> 'l request \<Rightarrow> go_error + string \<Rightarrow> stage_event \<Rightarrow> loaded_run \<Rightarrow> debt \<Rightarrow> ('l, loaded_run \<times> debt) piece" where
  "stage_step ops req newID ev run debt =
     and_then (acquire_stage ops req ev run debt) (\<lambda>_.
     case executed_outcome run ev of (outcome, executeErr) \<Rightarrow>
     and_then (checkpoint_outcome ops req ev outcome run debt) (\<lambda>(persisted, debt).
     and_then (check_outcome ops req ev (Stage run) outcome executeErr persisted debt) (\<lambda>_.
     if \<not> out_Complete outcome then go_on (persisted, debt)
     else complete_run ops req ev newID (Stage run) outcome persisted debt)))"

fun runOneLedgerRun ::
  "'l run_ledger \<Rightarrow> 'l request \<Rightarrow> go_error + string \<Rightarrow> stage_event list \<Rightarrow> loaded_run \<Rightarrow> debt \<Rightarrow> ctx \<Rightarrow> 'l \<Rightarrow>
   (stage_end \<times> ctx \<times> 'l) option" where
  "runOneLedgerRun ops req newID [] run debt c l = None"
| "runOneLedgerRun ops req newID (ev # evs) run debt c l =
     (case stage_step ops req newID ev run debt c l of
        (Inl r, c, l) \<Rightarrow> Some (r, c, l)
      | (Inr (run, debt), c, l) \<Rightarrow> runOneLedgerRun ops req newID evs run debt c l)"

section \<open>The whole refresh\<close>

text \<open>What happens around one run of the ledger: the wall clock when its emitter starts, the answer of the progress callback to the first
  snapshot, the turns, and the identifier generated for a successor.\<close>

record run_events =
  ru_wall :: gotime
  ru_callback :: "go_error option"
  ru_turns :: "stage_event list"
  ru_newID :: "go_error + string"

text \<open>\<open>StartProgressEmitter\<close>, up to the start of its workers: the initial snapshot is durable before the loop starts.\<close>

definition start_emitter :: "'l run_ledger \<Rightarrow> gotime \<Rightarrow> go_error option \<Rightarrow> loaded_run \<Rightarrow> ('l, go_error option) piece" where
  "start_emitter ops wall callback run c l =
     (if State run \<noteq> SemanticRefreshRunRunning
      then (Inr (Some (OtherErr ''semantic refresh progress requires a running run'')), c, l)
      else case rl_touch ops (RunID run) (t_utc wall) l of
        (l, Some e) \<Rightarrow> (Inr (Some e), c, l)
      | (l, None) \<Rightarrow> (Inr callback, c, l))"

definition begin_run :: "'l run_ledger \<Rightarrow> 'l request \<Rightarrow> gotime \<Rightarrow> go_error option \<Rightarrow> loaded_run \<Rightarrow> debt \<Rightarrow> ('l, unit) piece" where
  "begin_run ops req wall callback run debt =
     and_then (start_emitter ops wall callback run) (\<lambda>startErr. case startErr of
       None \<Rightarrow> go_on ()
     | Some e \<Rightarrow> and_then ctx_cancelled (\<lambda>cancelled.
         if cancelled then persistCancelled ops req run (Stage run) debt (join_errors [cancelled_err, Some e])
         else if error_is StaleErr e then exit_with (RunFailed (failureResult run debt)
           (NewError ErrorRunConflict run (ReadinessState run) debt (Some e)))
         else persistTerminalFailure ops req run (Stage run) debt (Some e)))"

fun run_loop :: "'l run_ledger \<Rightarrow> 'l request \<Rightarrow> run_events list \<Rightarrow> loaded_run \<Rightarrow> debt \<Rightarrow> ctx \<Rightarrow> 'l \<Rightarrow>
    ((refresh_result \<times> go_error option) \<times> 'l) option" where
  "run_loop ops req [] run debt c l = None"
| "run_loop ops req (e # es) run debt c l =
     (case begin_run ops req (ru_wall e) (ru_callback e) run debt c l of
        (Inl (RunFailed result err), c, l) \<Rightarrow> Some ((result, Some err), l)
      | (Inl _, c, l) \<Rightarrow> None
      | (Inr _, c, l) \<Rightarrow>
          (case runOneLedgerRun ops req (ru_newID e) (ru_turns e) run debt c l of
             None \<Rightarrow> None
           | Some (RunFailed result err, c, l) \<Rightarrow> Some ((result, Some err), l)
           | Some (RunDone result, c, l) \<Rightarrow> Some ((result, None), l)
           | Some (RunSuccessor result successor debt, c, l) \<Rightarrow> run_loop ops req es successor debt c l))"

definition empty_run :: loaded_run where
  "empty_run = \<lparr>RunID = [], ProfileID = [], Checkpoint = [], CurrentGenerationID = [], ErrorCode = [], ErrorText = [],
     ReadinessState = [], PurgeEpoch = 0, ProjectionWatermark = 0, EmbeddingRevision = 0, Version = 0, Stage = [],
     State = [], Counters = zero_counters, CreatedAt = zero_time, UpdatedAt = zero_time, LastProgressAt = zero_time\<rparr>"

definition Run :: "'l run_ledger \<Rightarrow> 'l request \<Rightarrow> go_error + string \<Rightarrow> run_events list \<Rightarrow> ctx \<Rightarrow> 'l \<Rightarrow>
    ((refresh_result \<times> go_error option) \<times> 'l) option" where
  "Run ops req firstID es c l =
     (if \<not> request_valid req then Some ((base_result, Some (OtherErr ''invalid semantic refresh request'')), l)
      else case nextRunID firstID of
        Inl err \<Rightarrow> Some ((base_result, Some (NewError ErrorBackendBroken empty_run [] no_debt (Some err))), l)
      | Inr runID \<Rightarrow>
          (case rl_start ops \<lparr>in_RunID = runID, in_ProfileID = req_ProfileID req, in_PurgeEpoch = req_PurgeEpoch req,
              in_ProjectionWatermark = req_ProjectionWatermark req, in_InitialCounters = zero_counters,
              in_Now = req_Now req l\<rparr> l of
            (l, Inl err) \<Rightarrow> Some ((base_result, Some (NewError ErrorRunConflict empty_run [] no_debt (Some err))), l)
          | (l, Inr (run, _)) \<Rightarrow> run_loop ops req es (normalizeLoadedRunGeneration run) no_debt c l))"

end
