(* ===== verification/RefreshStore.thy ===== *)
theory RefreshStore
  imports RefreshRunner RefreshLedgerProps
begin

text \<open>
  The store as the ledger of the runner (\<open>RunLedger\<close> of \<open>internal/semanticrefresh/runner.go\<close>
  implemented by \<open>internal/store/semantic_refresh_runs.go\<close>), in the middle of other
  processes: before every call of the runner any number of other operations may have run on
  the same table, and the call may fail. The laws the runner relies on are the locale
  \<open>run_ledger_laws\<close>, and this theory discharges them for the store.
\<close>

section \<open>What the ledger knows of a run\<close>

text \<open>The row holds the run as it was returned, but for its times and an invalid generation.\<close>

definition recorded_as :: "stored_run \<Rightarrow> loaded_run \<Rightarrow> bool" where
  "recorded_as r run \<longleftrightarrow> RunID r = RunID run \<and> ProfileID r = ProfileID run \<and> PurgeEpoch r = PurgeEpoch run \<and>
     ProjectionWatermark r = ProjectionWatermark run \<and> Version r = Version run \<and> State r = State run \<and>
     Stage r = Stage run \<and> Checkpoint r = Checkpoint run \<and> Counters r = Counters run \<and>
     EmbeddingRevision r = EmbeddingRevision run \<and> ErrorCode r = ErrorCode run \<and> ErrorText r = ErrorText run \<and>
     ReadinessState r = ReadinessState run"

definition recorded_in :: "ledger \<Rightarrow> loaded_run \<Rightarrow> bool" where
  "recorded_in t run \<longleftrightarrow> (\<exists>r \<in> set t. recorded_as r run)"

text \<open>The row may have moved on, but it is the same run.\<close>

definition same_work :: "loaded_run \<Rightarrow> loaded_run \<Rightarrow> bool" where
  "same_work a b \<longleftrightarrow> ProfileID b = ProfileID a \<and> PurgeEpoch b = PurgeEpoch a \<and>
     ProjectionWatermark b = ProjectionWatermark a"

definition known_in :: "ledger \<Rightarrow> loaded_run \<Rightarrow> bool" where
  "known_in t run \<longleftrightarrow> (\<exists>r \<in> set t. RunID r = RunID run \<and> ProfileID r = ProfileID run \<and>
     PurgeEpoch r = PurgeEpoch run \<and> ProjectionWatermark r = ProjectionWatermark run \<and> Version run \<le> Version r)"

text \<open>A successful update returns the run with the fields that were written.\<close>

definition written :: "run_update \<Rightarrow> loaded_run \<Rightarrow> bool" where
  "written u run \<longleftrightarrow> RunID run = up_RunID u \<and> Version run = up_ExpectedVersion u + 1 \<and> State run = up_State u \<and>
     Stage run = up_Stage u \<and> Checkpoint run = up_Checkpoint u \<and> Counters run = up_Counters u \<and>
     EmbeddingRevision run = up_EmbeddingRevision u \<and> CurrentGenerationID run = up_CurrentGenerationID u \<and>
     ErrorCode run = up_ErrorCode u \<and> ErrorText run = up_ErrorText u \<and> ReadinessState run = up_ReadinessState u"

section \<open>The laws\<close>

text \<open>What every call keeps: \<open>ok\<close>, what is known, what is completed, and that a call was refused.\<close>

definition call_keeps ::
  "('l \<Rightarrow> bool) \<Rightarrow> ('l \<Rightarrow> loaded_run \<Rightarrow> bool) \<Rightarrow> ('l \<Rightarrow> loaded_run \<Rightarrow> bool) \<Rightarrow> ('l \<Rightarrow> bool) \<Rightarrow> 'l \<Rightarrow> 'l \<Rightarrow> bool" where
  "call_keeps ok known recorded refused l l' \<longleftrightarrow> ok l' \<and> (\<forall>run. known l run \<longrightarrow> known l' run) \<and>
     (\<forall>run. recorded l run \<and> State run = SemanticRefreshRunCompleted \<longrightarrow> recorded l' run) \<and>
     (refused l \<longrightarrow> refused l')"

locale run_ledger_laws =
  fixes ops :: "'l run_ledger"
    and ok :: "'l \<Rightarrow> bool"
    and known :: "'l \<Rightarrow> loaded_run \<Rightarrow> bool"
    and recorded :: "'l \<Rightarrow> loaded_run \<Rightarrow> bool"
    and refused :: "'l \<Rightarrow> bool"
  assumes start_law: "ok l \<Longrightarrow> rl_start ops i l = (l', r) \<Longrightarrow> call_keeps ok known recorded refused l l' \<and>
      (case r of Inl e \<Rightarrow> refused l' | Inr (run, resumed) \<Rightarrow> recorded l' run \<and> State run = SemanticRefreshRunRunning)"
    and update_law: "ok l \<Longrightarrow> rl_update ops u l = (l', r') \<Longrightarrow> call_keeps ok known recorded refused l l' \<and>
      (case r' of Inl e \<Rightarrow> refused l' | Inr run \<Rightarrow> recorded l' run \<and> written u run)"
    and touch_law: "ok l \<Longrightarrow> rl_touch ops runID now l = (l', e) \<Longrightarrow> call_keeps ok known recorded refused l l' \<and>
      (e \<noteq> None \<longrightarrow> refused l')"
    and recorded_known: "recorded l run \<Longrightarrow> known l run"
    and known_same: "ok l \<Longrightarrow> known l a \<Longrightarrow> known l b \<Longrightarrow> RunID a = RunID b \<Longrightarrow> same_work a b"
    and recorded_generation: "recorded l (run\<lparr>CurrentGenerationID := g\<rparr>) = recorded l run"

section \<open>The store among other processes\<close>

datatype ledger_op =
    StartOp "nat \<Rightarrow> bool" gotime start_input
  | UpdateOp "nat \<Rightarrow> bool" gotime run_update
  | TouchOp "nat \<Rightarrow> bool" gotime bool string gotime

fun apply_op :: "ledger_op \<Rightarrow> ledger \<Rightarrow> ledger" where
  "apply_op (StartOp fails wall i) t = fst (StartOrResumeSemanticRefreshRun fails wall i t)"
| "apply_op (UpdateOp fails wall u) t = fst (UpdateSemanticRefreshRun fails wall u t)"
| "apply_op (TouchOp fails wall acquired runID now) t = fst (TouchSemanticRefreshRunProgress fails wall acquired runID now t)"

text \<open>For the \<open>k\<close>-th call of the runner: what other processes did before it, which of its
  statements fail, the wall clock, and whether the stage gate was taken in time.\<close>

record ledger_env =
  env_others :: "nat \<Rightarrow> ledger_op list"
  env_fails :: "nat \<Rightarrow> nat \<Rightarrow> bool"
  env_wall :: "nat \<Rightarrow> gotime"
  env_acquired :: "nat \<Rightarrow> bool"

record ledger_world =
  lw_table :: ledger
  lw_calls :: nat
  lw_refused :: bool

definition ledger_failure :: "ledger_error \<Rightarrow> go_error" where
  "ledger_failure e = (if e = RunStale then StaleErr else OtherErr ''semantic refresh ledger'')"

definition met_table :: "ledger_env \<Rightarrow> ledger_world \<Rightarrow> ledger" where
  "met_table env w = fold apply_op (env_others env (lw_calls w)) (lw_table w)"

definition after_call :: "ledger_world \<Rightarrow> ledger \<Rightarrow> bool \<Rightarrow> ledger_world" where
  "after_call w t failed = \<lparr>lw_table = t, lw_calls = lw_calls w + 1, lw_refused = (lw_refused w \<or> failed)\<rparr>"

definition store_start :: "ledger_env \<Rightarrow> start_input \<Rightarrow> ledger_world \<Rightarrow> ledger_world \<times> (go_error + (loaded_run \<times> bool))" where
  "store_start env i w = (let k = lw_calls w in
     case StartOrResumeSemanticRefreshRun (env_fails env k) (env_wall env k) i (met_table env w) of
       (t, r) \<Rightarrow> (after_call w t (isl r), map_sum ledger_failure id r))"

definition store_update :: "ledger_env \<Rightarrow> run_update \<Rightarrow> ledger_world \<Rightarrow> ledger_world \<times> (go_error + loaded_run)" where
  "store_update env u w = (let k = lw_calls w in
     case UpdateSemanticRefreshRun (env_fails env k) (env_wall env k) u (met_table env w) of
       (t, r) \<Rightarrow> (after_call w t (isl r), map_sum ledger_failure id r))"

definition store_touch :: "ledger_env \<Rightarrow> string \<Rightarrow> gotime \<Rightarrow> ledger_world \<Rightarrow> ledger_world \<times> go_error option" where
  "store_touch env runID now w = (let k = lw_calls w in
     case TouchSemanticRefreshRunProgress (env_fails env k) (env_wall env k) (env_acquired env k) runID now (met_table env w) of
       (t, e) \<Rightarrow> (after_call w t (e \<noteq> None), map_option ledger_failure e))"

definition store_ledger :: "ledger_env \<Rightarrow> ledger_world run_ledger" where
  "store_ledger env = \<lparr>rl_start = store_start env, rl_update = store_update env, rl_touch = store_touch env\<rparr>"

lemma after_call_simps [simp]:
  "lw_table (after_call w t failed) = t" "lw_refused (after_call w t failed) = (lw_refused w \<or> failed)"
  by (simp_all add: after_call_def)

section \<open>The store keeps the laws\<close>

lemma apply_op_step: "ledger_step t (apply_op p t)"
proof (cases p)
  case (StartOp f w i)
  then show ?thesis by (auto intro: start_step [OF prod.collapse [symmetric]])
next
  case (UpdateOp f w u)
  then show ?thesis by (auto intro: update_step [OF prod.collapse [symmetric]])
next
  case (TouchOp f w a i m)
  then show ?thesis by (auto intro: touch_step [OF prod.collapse [symmetric]])
qed

lemma apply_ops_steps: "ledger_step\<^sup>*\<^sup>* t (fold apply_op ps t)"
proof (induction ps arbitrary: t)
  case (Cons p ps)
  show ?case using converse_rtranclp_into_rtranclp [OF apply_op_step Cons.IH] by simp
qed simp

lemma known_evolves:
  assumes "ledger_evolves t t'"
  shows "known_in t run \<Longrightarrow> known_in t' run"
    and "recorded_in t run \<Longrightarrow> State run = SemanticRefreshRunCompleted \<Longrightarrow> recorded_in t' run"
proof -
  assume "known_in t run"
  then obtain r where r: "r \<in> set t" "RunID r = RunID run" "ProfileID r = ProfileID run" "PurgeEpoch r = PurgeEpoch run"
    "ProjectionWatermark r = ProjectionWatermark run" "Version run \<le> Version r" unfolding known_in_def by blast
  obtain r' where r': "r' \<in> set t'" "evolves r r'" using assms r(1) unfolding ledger_evolves_def by blast
  show "known_in t' run"
    unfolding known_in_def using r r' by (intro bexI [OF _ r'(1)]) (auto simp: evolves_def same_run_def)
next
  assume "recorded_in t run" "State run = SemanticRefreshRunCompleted"
  then obtain r where r: "r \<in> set t" "recorded_as r run" unfolding recorded_in_def by blast
  have "\<not> resumable r"
    using r(2) \<open>State run = _\<close> by (simp add: recorded_as_def resumable_def resumable_states_def run_state_defs)
  moreover obtain r' where "r' \<in> set t'" "evolves r r'" using assms r(1) unfolding ledger_evolves_def by blast
  ultimately show "recorded_in t' run" unfolding recorded_in_def using r(2) by (auto simp: evolves_def)
qed

lemma update_rows_hit: "r \<in> set t \<Longrightarrow> p r \<Longrightarrow> f r \<in> set (update_rows p f t)"
  by (force simp: update_rows_def)

lemma scan_recorded: "scanSemanticRefreshRun r = Inr run \<Longrightarrow> recorded_as r run"
  by (simp add: recorded_as_def scan_fields)

abbreviation world_ok :: "ledger_world \<Rightarrow> bool" where "world_ok w \<equiv> schema_ok (lw_table w)"
abbreviation world_knows :: "ledger_world \<Rightarrow> loaded_run \<Rightarrow> bool" where "world_knows w \<equiv> known_in (lw_table w)"
abbreviation world_records :: "ledger_world \<Rightarrow> loaded_run \<Rightarrow> bool" where "world_records w \<equiv> recorded_in (lw_table w)"
abbreviation world_keeps :: "ledger_world \<Rightarrow> ledger_world \<Rightarrow> bool" where
  "world_keeps \<equiv> call_keeps world_ok world_knows world_records lw_refused"

lemma met_ok: "world_ok w \<Longrightarrow> schema_ok (met_table env w)"
  unfolding met_table_def by (rule rl.inv_steps [OF _ apply_ops_steps])

lemma after_call_keeps:
  assumes "world_ok w" "ledger_step (met_table env w) t"
  shows "world_keeps w (after_call w t failed)"
proof -
  have steps: "ledger_step\<^sup>*\<^sup>* (lw_table w) t"
    using apply_ops_steps [of "lw_table w" "env_others env (lw_calls w)"] assms(2)
    unfolding met_table_def by (rule rtranclp.rtrancl_into_rtrancl)
  then have "schema_ok t" "ledger_evolves (lw_table w) t"
    using rl.inv_steps [OF assms(1)] ledger_steps_evolve [OF _ assms(1)] by blast+
  then show ?thesis by (auto simp: call_keeps_def intro: known_evolves)
qed

lemma start_recorded:
  assumes "schema_ok t" "StartOrResumeSemanticRefreshRun fails wall i t = (t', Inr (run, resumed))"
  shows "recorded_in t' run \<and> State run = SemanticRefreshRunRunning"
  using assms(2)
proof (cases rule: start_cases)
  case (started now run' resumed')
  from started(2) assms(1) show ?thesis
  proof (cases rule: start_tx_cases)
    case (resumed r)
    have "resume_row now r \<in> set t'" unfolding resumed(5) by (rule update_rows_hit [OF resumed(3) refl])
    then have "recorded_in t' run'" using scan_recorded [OF resumed(7)] unfolding recorded_in_def by (rule bexI [rotated])
    then show ?thesis using started(1) scan_fields(13) [OF resumed(7)] by (simp add: resume_row_def)
  next
    case created
    then show ?thesis using started(1) scan_fields(13) [OF created(6)] scan_recorded [OF created(6)]
      by (auto simp: recorded_in_def new_row_def)
  qed
qed simp

lemma update_recorded:
  assumes "UpdateSemanticRefreshRun fails wall u t = (t', Inr run)"
  shows "recorded_in t' run \<and> written u run"
  using assms
proof (cases rule: update_cases)
  case (updated q run')
  let ?r = "updated_row u (semanticRefreshNow wall (up_Now u)) q"
  have "?r \<in> set t'" unfolding updated(5) using updated(2,3) by (rule update_rows_hit)
  then have "recorded_in t' run" using updated(1) scan_recorded [OF updated(6)] by (auto simp: recorded_in_def)
  moreover have "written u run"
    using scan_fields [OF updated(6)] updated(1,3) by (simp add: written_def updated_row_def update_target_def)
  ultimately show ?thesis by simp
qed simp

interpretation st: run_ledger_laws "store_ledger env" world_ok world_knows world_records lw_refused for env
proof unfold_locales
  fix w i w' and r :: "go_error + (loaded_run \<times> bool)"
  assume ok: "world_ok w" and call: "rl_start (store_ledger env) i w = (w', r)"
  let ?m = "met_table env w"
  obtain t s where s: "StartOrResumeSemanticRefreshRun (env_fails env (lw_calls w)) (env_wall env (lw_calls w)) i ?m = (t, s)"
    by fastforce
  have w': "w' = after_call w t (isl s)" "r = map_sum ledger_failure id s"
    using call s by (simp_all add: store_ledger_def store_start_def Let_def)
  show "world_keeps w w' \<and> (case r of Inl e \<Rightarrow> lw_refused w' | Inr (run, resumed) \<Rightarrow>
      world_records w' run \<and> State run = SemanticRefreshRunRunning)"
    using after_call_keeps [OF ok start_step [OF s]] start_recorded [OF met_ok [OF ok]] s
    by (cases s) (auto simp: w')
next
  fix w u w' and r :: "go_error + loaded_run"
  assume ok: "world_ok w" and call: "rl_update (store_ledger env) u w = (w', r)"
  let ?m = "met_table env w"
  obtain t s where s: "UpdateSemanticRefreshRun (env_fails env (lw_calls w)) (env_wall env (lw_calls w)) u ?m = (t, s)"
    by fastforce
  have w': "w' = after_call w t (isl s)" "r = map_sum ledger_failure id s"
    using call s by (simp_all add: store_ledger_def store_update_def Let_def)
  show "world_keeps w w' \<and> (case r of Inl e \<Rightarrow> lw_refused w' | Inr run \<Rightarrow> world_records w' run \<and> written u run)"
    using after_call_keeps [OF ok update_step [OF s]] update_recorded s
    by (cases s) (auto simp: w')
next
  fix w runID now w' and e :: "go_error option"
  assume ok: "world_ok w" and call: "rl_touch (store_ledger env) runID now w = (w', e)"
  let ?m = "met_table env w"
  obtain t s where s: "TouchSemanticRefreshRunProgress (env_fails env (lw_calls w)) (env_wall env (lw_calls w))
      (env_acquired env (lw_calls w)) runID now ?m = (t, s)"
    by fastforce
  have w': "w' = after_call w t (s \<noteq> None)" "e = map_option ledger_failure s"
    using call s by (simp_all add: store_ledger_def store_touch_def Let_def)
  show "world_keeps w w' \<and> (e \<noteq> None \<longrightarrow> lw_refused w')"
    using after_call_keeps [OF ok touch_step [OF s]] by (auto simp: w')
next
  fix w run
  assume "world_records w run"
  then show "world_knows w run" unfolding recorded_in_def known_in_def recorded_as_def by auto
next
  fix w a b
  assume "world_ok w" "world_knows w a" "world_knows w b" "RunID a = RunID b"
  then show "same_work a b"
    using schema_unique(1) [of "lw_table w"] unfolding known_in_def same_work_def by metis
next
  fix w run g
  show "world_records w (run\<lparr>CurrentGenerationID := g\<rparr>) = world_records w run"
    by (simp add: recorded_in_def recorded_as_def)
qed

end
