(* ===== verification/RefreshRunnerProps.thy ===== *)
theory RefreshRunnerProps
  imports RefreshStore
begin

text \<open>
  What a refresh leaves in the ledger, whatever the executor, the progress callback, the context and
  the other processes do: the error a refresh returns is the one its run is stored with, unless the
  ledger itself refused to store it; no stage starts before the outcome of the previous one is stored;
  a successor goes on from a completed run with a larger watermark. The rules of \<open>triple\<close>
  take a piece of the runner apart; the lemmas of the locale hold for every ledger that keeps the laws.
\<close>

section \<open>Pieces\<close>

text \<open>From a state with \<open>P\<close>, the piece goes on with \<open>Q\<close> or returns with \<open>R\<close>.\<close>

definition triple :: "('l \<Rightarrow> bool) \<Rightarrow> ('l, 'a) piece \<Rightarrow> ('a \<Rightarrow> 'l \<Rightarrow> bool) \<Rightarrow> (stage_end \<Rightarrow> 'l \<Rightarrow> bool) \<Rightarrow> bool" where
  "triple P m Q R \<longleftrightarrow> (\<forall>c l. P l \<longrightarrow> (case m c l of (Inl r, _, l') \<Rightarrow> R r l' | (Inr x, _, l') \<Rightarrow> Q x l'))"

lemma tripleD:
  assumes "triple P m Q R" "P l"
  shows "m c l = (Inl r, c', l') \<Longrightarrow> R r l'" "m c l = (Inr x, c', l') \<Longrightarrow> Q x l'"
  using assms by (auto simp: triple_def split: prod.splits sum.splits dest!: spec [of _ c] spec [of _ l])

lemma triple_pre: "triple P m Q R \<Longrightarrow> (\<And>l. P' l \<Longrightarrow> P l) \<Longrightarrow> triple P' m Q R"
  by (simp add: triple_def)

lemma triple_post: "triple P m Q R \<Longrightarrow> (\<And>x l. Q x l \<Longrightarrow> Q' x l) \<Longrightarrow> triple P m Q' R"
  by (fastforce simp: triple_def split: prod.splits sum.splits)

lemma triple_go: "(\<And>l. P l \<Longrightarrow> Q x l) \<Longrightarrow> triple P (go_on x) Q R"
  by (simp add: triple_def go_on_def)

lemma triple_exit: "(\<And>l. P l \<Longrightarrow> R r l) \<Longrightarrow> triple P (exit_with r) Q R"
  by (simp add: triple_def exit_with_def)

lemma triple_then:
  assumes "triple P m M R" "\<And>x. triple (M x) (f x) Q R"
  shows "triple P (and_then m f) Q R"
proof -
  have "case and_then m f c l of (Inl r, _, l') \<Rightarrow> R r l' | (Inr y, _, l') \<Rightarrow> Q y l'" if "P l" for c l
  proof (cases "m c l")
    case (fields s c' l')
    show ?thesis
    proof (cases s)
      case (Inl r)
      then show ?thesis using tripleD(1) [OF assms(1) that] fields by (simp add: and_then_def)
    next
      case (Inr x)
      have "M x l'" using tripleD(2) [OF assms(1) that] fields Inr by simp
      then show ?thesis using tripleD [OF assms(2), of x l' c'] fields Inr
        by (auto simp: and_then_def split: prod.splits sum.splits)
    qed
  qed
  then show ?thesis by (simp add: triple_def)
qed

lemma triple_cancelled: "triple P ctx_cancelled (\<lambda>_. P) R"
  by (simp add: triple_def ctx_cancelled_def split: prod.splits)

text \<open>A poll of the context changes nothing the ledger knows.\<close>

lemma triple_poll: "(\<And>b. triple P (f b) Q R) \<Longrightarrow> triple P (and_then ctx_cancelled f) Q R"
  by (rule triple_then [OF triple_cancelled])

lemma triple_if: "(b \<Longrightarrow> triple P m Q R) \<Longrightarrow> (\<not> b \<Longrightarrow> triple P n Q R) \<Longrightarrow> triple P (if b then m else n) Q R"
  by simp

lemma triple_sum: "(\<And>a. r = Inl a \<Longrightarrow> triple P (f a) Q R) \<Longrightarrow> (\<And>b. r = Inr b \<Longrightarrow> triple P (g b) Q R) \<Longrightarrow>
    triple P (case r of Inl a \<Rightarrow> f a | Inr b \<Rightarrow> g b) Q R"
  by (cases r) simp_all

section \<open>Error codes\<close>

lemma safe_code_text: "protocol_text (safeRefreshErrorCode code)" "length (safeRefreshErrorCode code) \<le> errorCodeLimit"
  unfolding safeRefreshErrorCode_def safe_codes_def protocol_text_def protocol_rune_def in_bytes_def limit_defs
  by (auto simp: error_code_defs)

lemma safe_code_kept [simp]: "boundedProtocolField (safeRefreshErrorCode code) errorCodeLimit = safeRefreshErrorCode code"
  by (rule protocol_field_kept [OF safe_code_text])

lemma safe_code_cancelled [simp]: "safeRefreshErrorCode ErrorCancelled = ErrorCancelled"
  by (simp add: safeRefreshErrorCode_def safe_codes_def)

lemma cancelled_code_kept [simp]: "boundedProtocolField ErrorCancelled errorCodeLimit = ErrorCancelled"
  using safe_code_kept [of ErrorCancelled] by simp

lemma stale_wrapped:
  "cause \<noteq> None \<and> error_is StaleErr (the cause) \<Longrightarrow> error_is StaleErr (NewError code run readiness d cause)"
  by (cases cause) (simp_all add: NewError_def)

section \<open>How a run of the ledger ends\<close>

definition follows :: "loaded_run \<Rightarrow> loaded_run \<Rightarrow> bool" where
  "follows run0 run \<longleftrightarrow> RunID run = RunID run0 \<and> same_work run0 run"

lemma follows_refl [simp]: "follows run run"
  by (simp add: follows_def same_work_def)

lemma follows_trans: "follows a b \<Longrightarrow> follows b c \<Longrightarrow> follows a c"
  by (simp add: follows_def same_work_def)

definition succeeds :: "loaded_run \<Rightarrow> loaded_run \<Rightarrow> bool" where
  "succeeds run successor \<longleftrightarrow> ProfileID successor = ProfileID run \<and> PurgeEpoch successor = PurgeEpoch run \<and>
     ProjectionWatermark run < ProjectionWatermark successor \<and> Stage successor = SemanticRefreshProjection \<and>
     Counters successor = zero_counters\<lparr>SuccessorRuns := SuccessorRuns (Counters run) + 1\<rparr>"

text \<open>An error is stored with its run, or the run was already completed, or the ledger refused.\<close>

definition error_durable :: "bool \<Rightarrow> bool \<Rightarrow> loaded_run \<Rightarrow> go_error \<Rightarrow> bool" where
  "error_durable recorded refused run err \<longleftrightarrow>
     recorded \<and> State run \<in> {SemanticRefreshRunFailed, SemanticRefreshRunCancelled} \<and>
       (\<exists>e cause. err = RefreshErr e cause \<and> ErrorCode run = re_Code e) \<or>
     recorded \<and> State run = SemanticRefreshRunCompleted \<or> refused \<or> error_is StaleErr err"

definition durable_end :: "('l \<Rightarrow> bool) \<Rightarrow> ('l \<Rightarrow> loaded_run \<Rightarrow> bool) \<Rightarrow> ('l \<Rightarrow> bool) \<Rightarrow> loaded_run \<Rightarrow> stage_end \<Rightarrow> 'l \<Rightarrow> bool" where
  "durable_end ok recorded refused run0 r l \<longleftrightarrow> ok l \<and> (case r of
     RunFailed result err \<Rightarrow> \<exists>run d. result = failureResult run d \<and> error_durable (recorded l run) (refused l) run err
   | RunDone result \<Rightarrow> \<exists>run d. result = completedRunResult run d \<and> follows run0 run \<and>
       recorded l run \<and> State run = SemanticRefreshRunCompleted
   | RunSuccessor result successor d \<Rightarrow> \<exists>run. result = completedRunResult run d \<and> follows run0 run \<and>
       recorded l run \<and> State run = SemanticRefreshRunCompleted \<and>
       recorded l successor \<and> State successor = SemanticRefreshRunRunning \<and> succeeds run successor)"

context run_ledger_laws
begin

lemma update_piece:
  assumes "\<And>now. up_RunID (u now) = RunID run"
  shows "triple (\<lambda>l. ok l \<and> known l run) (ledger_update ops req u)
    (\<lambda>r l. ok l \<and> known l run \<and> (case r of Inl e \<Rightarrow> refused l
      | Inr run' \<Rightarrow> recorded l run' \<and> known l run' \<and> follows run run' \<and> (\<exists>now. written (u now) run'))) R"
  unfolding triple_def ledger_update_def
proof (intro allI impI, elim conjE)
  fix c l
  assume ok: "ok l" and k: "known l run"
  obtain l' r where r: "rl_update ops (u (req_Now req l)) l = (l', r)" by fastforce
  note law = update_law [OF ok r]
  have keep: "ok l'" "known l' run" using law k by (simp_all add: call_keeps_def)
  show "case case rl_update ops (u (req_Now req l)) l of (l, r) \<Rightarrow> (Inr r, c, l) of (Inl r, _, l') \<Rightarrow> R r l'
    | (Inr r, _, l) \<Rightarrow> ok l \<and> known l run \<and> (case r of Inl e \<Rightarrow> refused l
      | Inr run' \<Rightarrow> recorded l run' \<and> known l run' \<and> follows run run' \<and> (\<exists>now. written (u now) run'))"
  proof (cases r)
    case (Inr run')
    then have run': "recorded l' run'" "written (u (req_Now req l)) run'" using law by simp_all
    then have "RunID run = RunID run'" using assms by (simp add: written_def)
    then have "follows run run'"
      using known_same [OF keep recorded_known [OF run'(1)]] by (simp add: follows_def)
    then show ?thesis using r keep run' recorded_known [OF run'(1)] Inr by auto
  qed (use r keep law in simp)
qed

lemma durable_update_piece:
  assumes "\<And>now. up_RunID (u now) = RunID run"
  shows "triple (\<lambda>l. ok l \<and> known l run) (updateRunDurably ops req u)
    (\<lambda>r l. ok l \<and> known l run \<and> (case r of Inl e \<Rightarrow> refused l
      | Inr run' \<Rightarrow> recorded l run' \<and> known l run' \<and> follows run run' \<and> (\<exists>now. written (u now) run'))) R"
  unfolding updateRunDurably_def by (rule triple_poll) (rule update_piece [OF assms])

lemma start_piece:
  "triple (\<lambda>l. ok l \<and> recorded l run \<and> State run = SemanticRefreshRunCompleted) (ledger_start ops i req)
    (\<lambda>r l. ok l \<and> recorded l run \<and> State run = SemanticRefreshRunCompleted \<and> (case r of Inl e \<Rightarrow> refused l
      | Inr (run', resumed) \<Rightarrow> recorded l run' \<and> State run' = SemanticRefreshRunRunning)) R"
  unfolding triple_def ledger_start_def
proof (intro allI impI, elim conjE)
  fix c l
  assume ok: "ok l" and k: "recorded l run" "State run = SemanticRefreshRunCompleted"
  obtain l' r where r: "rl_start ops (i (req_Now req l)) l = (l', r)" by fastforce
  have "ok l'" "recorded l' run" "case r of Inl e \<Rightarrow> refused l'
      | Inr (run', resumed) \<Rightarrow> recorded l' run' \<and> State run' = SemanticRefreshRunRunning"
    using start_law [OF ok r] k by (simp_all add: call_keeps_def)
  then show "case case rl_start ops (i (req_Now req l)) l of (l, r) \<Rightarrow> (Inr r, c, l) of (Inl r, _, l') \<Rightarrow> R r l'
    | (Inr r, _, l) \<Rightarrow> ok l \<and> recorded l run \<and> State run = SemanticRefreshRunCompleted \<and> (case r of Inl e \<Rightarrow> refused l
      | Inr (run', resumed) \<Rightarrow> recorded l run' \<and> State run' = SemanticRefreshRunRunning)"
    using r k by simp
qed

lemma exit_failed:
  "(\<And>l. P l \<Longrightarrow> ok l \<and> error_durable (recorded l run) (refused l) run err) \<Longrightarrow>
    triple P (exit_with (RunFailed (failureResult run d) err)) Q (durable_end ok recorded refused run0)"
  by (rule triple_exit) (auto simp: durable_end_def)

lemma cancelled_piece:
  "triple (\<lambda>l. ok l \<and> known l run) (persistCancelled ops req run stage d cause) Q (durable_end ok recorded refused run0)"
  unfolding persistCancelled_def
proof (rule triple_then [OF update_piece])
  fix r
  show "triple (\<lambda>l. ok l \<and> known l run \<and> (case r of Inl e \<Rightarrow> refused l | Inr run' \<Rightarrow> recorded l run' \<and> known l run' \<and>
      follows run run' \<and> (\<exists>now. written (runStateUpdate now run SemanticRefreshRunCancelled ErrorCancelled ErrorCancelled) run')))
    (case r of Inl err \<Rightarrow> exit_with (RunFailed (failureResult run d)
         (NewError ErrorCancelled (errorRun run stage) (ReadinessState run) d (join_errors [cause, Some err])))
     | Inr cancelled \<Rightarrow> exit_with (RunFailed (failureResult cancelled d)
         (NewError ErrorCancelled (errorRun cancelled stage) (ReadinessState cancelled) d cause)))
    Q (durable_end ok recorded refused run0)"
    by (cases r) (auto intro!: exit_failed simp: error_durable_def written_def runStateUpdate_def
        NewError_def refresh_fields_def Let_def)
qed (simp add: runStateUpdate_def)

lemma terminal_piece:
  "triple (\<lambda>l. ok l \<and> known l run) (persistTerminalCode ops req run stage d code cause) Q (durable_end ok recorded refused run0)"
  unfolding persistTerminalCode_def Let_def
proof (rule triple_then [OF durable_update_piece])
  let ?e = "refresh_fields code (errorRun run stage) (ReadinessState run) d"
  fix r
  show "triple (\<lambda>l. ok l \<and> known l run \<and> (case r of Inl e \<Rightarrow> refused l | Inr run' \<Rightarrow> recorded l run' \<and> known l run' \<and>
      follows run run' \<and> (\<exists>now. written (runStateUpdate now run SemanticRefreshRunFailed (re_Code ?e) (re_Message ?e)) run')))
    (case r of Inl err \<Rightarrow> exit_with (RunFailed (failureResult run d)
          (NewError ErrorRunConflict (errorRun run stage) (ReadinessState run) d (Some err)))
      | Inr failed \<Rightarrow> exit_with (RunFailed (failureResult failed d)
          (NewError code (errorRun failed stage) (ReadinessState failed) d
            (case Option.bind cause as_refresh of Some (_, preserved) \<Rightarrow> preserved | None \<Rightarrow> cause))))
    Q (durable_end ok recorded refused run0)"
    by (cases r) (auto intro!: exit_failed simp: error_durable_def written_def runStateUpdate_def
        NewError_def refresh_fields_def Let_def)
qed (simp add: runStateUpdate_def)

lemma failure_piece:
  "triple (\<lambda>l. ok l \<and> known l run) (persistTerminalFailure ops req run stage d cause) Q (durable_end ok recorded refused run0)"
  unfolding persistTerminalFailure_def by (rule terminal_piece)

lemma stale_exit:
  "error_is StaleErr err \<Longrightarrow> (\<And>l. P l \<Longrightarrow> ok l) \<Longrightarrow> triple P (exit_with (RunFailed (failureResult run d) err)) Q (durable_end ok recorded refused run0)"
  by (rule exit_failed) (simp add: error_durable_def)

lemma refused_exit:
  "triple (\<lambda>l. ok l \<and> refused l) (exit_with (RunFailed (failureResult run d) err)) Q (durable_end ok recorded refused run0)"
  by (rule exit_failed) (simp add: error_durable_def)

lemma acquire_piece:
  "triple (\<lambda>l. ok l \<and> known l run) (acquire_stage ops req ev run d) (\<lambda>_ l. ok l \<and> known l run)
    (durable_end ok recorded refused run0)"
  unfolding acquire_stage_def
  by (cases "ev_acquire ev")
    (auto intro!: triple_go triple_poll triple_if cancelled_piece failure_piece)

lemma checkpoint_piece:
  "triple (\<lambda>l. ok l \<and> known l run) (checkpoint_outcome ops req ev outcome run d)
    (\<lambda>(run', d') l. ok l \<and> known l run' \<and> follows run run' \<and> (\<not> stageOutcomeIsZero outcome \<longrightarrow> recorded l run' \<and>
      (\<exists>now. written (outcomeUpdate now run outcome SemanticRefreshRunRunning [] []) run')))
    (durable_end ok recorded refused run0)"
  unfolding checkpoint_outcome_def
proof (rule triple_if)
  assume "\<not> stageOutcomeIsZero outcome"
  show "triple (\<lambda>l. ok l \<and> known l run)
    (and_then (updateRunDurably ops req (\<lambda>now. outcomeUpdate now run outcome SemanticRefreshRunRunning [] []))
        (\<lambda>r. case r of
          Inl updateErr \<Rightarrow> and_then ctx_cancelled (\<lambda>cancelled.
            if cancelled then persistCancelled ops req run (Stage run) d
              (join_errors [cancelled_err, Some updateErr, ev_stop ev])
            else exit_with (RunFailed (failureResult run d)
              (NewError ErrorRunConflict run (ReadinessState run) d (Some updateErr))))
        | Inr persisted \<Rightarrow> go_on (persisted, out_Debt outcome)))
    (\<lambda>(run', d') l. ok l \<and> known l run' \<and> follows run run' \<and> (\<not> stageOutcomeIsZero outcome \<longrightarrow> recorded l run' \<and>
      (\<exists>now. written (outcomeUpdate now run outcome SemanticRefreshRunRunning [] []) run')))
    (durable_end ok recorded refused run0)"
  proof (rule triple_then [OF durable_update_piece])
    fix r :: "go_error + loaded_run"
    show "triple (\<lambda>l. ok l \<and> known l run \<and> (case r of Inl e \<Rightarrow> refused l | Inr run' \<Rightarrow> recorded l run' \<and> known l run' \<and>
        follows run run' \<and> (\<exists>now. written (outcomeUpdate now run outcome SemanticRefreshRunRunning [] []) run')))
      (case r of
          Inl updateErr \<Rightarrow> and_then ctx_cancelled (\<lambda>cancelled.
            if cancelled then persistCancelled ops req run (Stage run) d
              (join_errors [cancelled_err, Some updateErr, ev_stop ev])
            else exit_with (RunFailed (failureResult run d)
              (NewError ErrorRunConflict run (ReadinessState run) d (Some updateErr))))
        | Inr persisted \<Rightarrow> go_on (persisted, out_Debt outcome))
      (\<lambda>(run', d') l. ok l \<and> known l run' \<and> follows run run' \<and> (\<not> stageOutcomeIsZero outcome \<longrightarrow> recorded l run' \<and>
        (\<exists>now. written (outcomeUpdate now run outcome SemanticRefreshRunRunning [] []) run')))
      (durable_end ok recorded refused run0)"
    proof (cases r)
      case (Inl e)
      show ?thesis unfolding Inl sum.case
        by (intro triple_poll triple_if triple_pre [OF cancelled_piece] triple_pre [OF refused_exit]) auto
    qed (auto intro: triple_go)
  qed (simp add: outcomeUpdate_def)
qed (auto intro: triple_go)

lemma check_piece:
  assumes "\<And>l. S l \<Longrightarrow> ok l \<and> known l run"
  shows "triple S (check_outcome ops req ev stage outcome executeErr run d)
    (\<lambda>_ l. S l \<and> executeErr = None \<and> \<not> successor_too_low outcome run) (durable_end ok recorded refused run0)"
  unfolding check_outcome_def Let_def
  by (intro triple_poll triple_if triple_pre [OF cancelled_piece assms] triple_pre [OF failure_piece assms]
      triple_pre [OF terminal_piece assms] triple_go stale_exit [OF stale_wrapped])
    (use assms in auto)

lemma successor_piece:
  "triple (\<lambda>l. ok l \<and> recorded l run \<and> State run = SemanticRefreshRunCompleted)
    (startSuccessor ops req newID run d watermark)
    (\<lambda>successor l. ok l \<and> recorded l run \<and> State run = SemanticRefreshRunCompleted \<and> recorded l successor \<and>
      State successor = SemanticRefreshRunRunning \<and> ProjectionWatermark successor = watermark \<and>
      (ProjectionWatermark run < watermark \<longrightarrow> succeeds run successor))
    (durable_end ok recorded refused run0)"
proof -
  have failed: "triple (\<lambda>l. ok l \<and> recorded l run \<and> State run = SemanticRefreshRunCompleted \<and> S l)
      (fail_completed code run d cause) Q (durable_end ok recorded refused run0)" for S code cause Q
    unfolding fail_completed_def by (rule exit_failed) (simp add: error_durable_def)
  have failed': "triple (\<lambda>l. ok l \<and> recorded l run \<and> State run = SemanticRefreshRunCompleted)
      (fail_completed code run d cause) Q (durable_end ok recorded refused run0)" for code cause Q
    using failed [of "\<lambda>_. True"] by simp
  have started: "triple (\<lambda>l. ok l \<and> recorded l run \<and> State run = SemanticRefreshRunCompleted \<and>
        recorded l s \<and> State s = SemanticRefreshRunRunning)
      (let successor = normalizeLoadedRunGeneration s in
         if successor_matches run runID watermark resumed successor then go_on successor
         else fail_completed ErrorRunConflict run d (Some (OtherErr msg)))
      (\<lambda>successor l. ok l \<and> recorded l run \<and> State run = SemanticRefreshRunCompleted \<and> recorded l successor \<and>
        State successor = SemanticRefreshRunRunning \<and> ProjectionWatermark successor = watermark \<and>
        (ProjectionWatermark run < watermark \<longrightarrow> succeeds run successor))
      (durable_end ok recorded refused run0)" for s resumed runID msg
    unfolding Let_def
    by (intro triple_if triple_go failed)
      (auto simp: successor_matches_def succeeds_def normalizeLoadedRunGeneration_def recorded_generation)
  show ?thesis
    unfolding startSuccessor_def
    by (intro triple_poll triple_if triple_sum failed' triple_then [OF start_piece] failed)
      (auto intro!: started)
qed

lemma complete_piece:
  assumes "follows run0 run" "\<not> successor_too_low outcome run"
  shows "triple (\<lambda>l. ok l \<and> known l run) (complete_run ops req ev newID stage outcome run d) Q
    (durable_end ok recorded refused run0)"
proof (cases "ev_stop ev")
  case None
  have done_piece: "triple (\<lambda>l. ok l \<and> recorded l completed)
     (and_then ctx_cancelled (\<lambda>cancelled.
        if cancelled then exit_with (RunFailed (failureResult completed d)
          (NewError ErrorCancelled (errorRun completed stage) (ReadinessState completed) d cancelled_err))
        else case out_SuccessorWatermark outcome of
          None \<Rightarrow> exit_with (RunDone (completedRunResult completed d))
        | Some watermark \<Rightarrow>
            and_then (startSuccessor ops req newID completed d watermark) (\<lambda>successor.
            and_then ctx_cancelled (\<lambda>cancelled.
            if cancelled then persistCancelled ops req successor SemanticRefreshProjection d cancelled_err
            else exit_with (RunSuccessor (completedRunResult completed d) successor d)))))
     Q (durable_end ok recorded refused run0)"
    if c: "State completed = SemanticRefreshRunCompleted" "follows run completed" for completed
  proof -
    have f: "follows run0 completed" by (rule follows_trans [OF assms(1) c(2)])
    have end1: "triple (\<lambda>l. ok l \<and> recorded l completed)
        (exit_with (RunFailed (failureResult completed d) err)) Q (durable_end ok recorded refused run0)" for err
      by (rule exit_failed) (simp add: error_durable_def c)
    have end2: "triple (\<lambda>l. ok l \<and> recorded l completed)
        (exit_with (RunDone (completedRunResult completed d))) Q (durable_end ok recorded refused run0)"
      by (rule triple_exit) (auto simp: durable_end_def c f)
    have end3: "triple (\<lambda>l. ok l \<and> recorded l completed)
        (and_then (startSuccessor ops req newID completed d watermark) (\<lambda>successor.
          and_then ctx_cancelled (\<lambda>cancelled.
          if cancelled then persistCancelled ops req successor SemanticRefreshProjection d cancelled_err
          else exit_with (RunSuccessor (completedRunResult completed d) successor d))))
        Q (durable_end ok recorded refused run0)" if w: "out_SuccessorWatermark outcome = Some watermark" for watermark
    proof -
      have low: "ProjectionWatermark completed < watermark"
        using assms(2) c(2) w by (simp add: successor_too_low_def follows_def same_work_def)
      have exit3: "triple (\<lambda>l. ok l \<and> recorded l completed \<and> State completed = SemanticRefreshRunCompleted \<and>
          recorded l successor \<and> State successor = SemanticRefreshRunRunning \<and>
          ProjectionWatermark successor = watermark \<and> (ProjectionWatermark completed < watermark \<longrightarrow> succeeds completed successor))
        (exit_with (RunSuccessor (completedRunResult completed d) successor d)) Q (durable_end ok recorded refused run0)" for successor
        by (rule triple_exit) (auto simp: durable_end_def c f low)
      show ?thesis
        by (intro triple_then [OF triple_pre [OF successor_piece]] triple_poll triple_if
            triple_pre [OF cancelled_piece] exit3) (auto simp: c recorded_known)
    qed
    show ?thesis
      by (cases "out_SuccessorWatermark outcome") (auto intro!: triple_poll triple_if end1 end2 end3)
  qed
  show ?thesis
    unfolding complete_run_def None option.case
  proof (intro triple_poll triple_if cancelled_piece triple_then [OF update_piece])
    fix r
    show "triple (\<lambda>l. ok l \<and> known l run \<and> (case r of Inl e \<Rightarrow> refused l | Inr run' \<Rightarrow> recorded l run' \<and> known l run' \<and>
        follows run run' \<and> (\<exists>now. written (runStateUpdate now run SemanticRefreshRunCompleted [] []) run')))
      (case r of
            Inl updateErr \<Rightarrow> and_then ctx_cancelled (\<lambda>cancelled.
              if cancelled then persistCancelled ops req run stage d (join_errors [cancelled_err, Some updateErr])
              else exit_with (RunFailed (failureResult run d)
                (NewError ErrorRunConflict run (ReadinessState run) d (Some updateErr))))
          | Inr completed \<Rightarrow>
              and_then ctx_cancelled (\<lambda>cancelled.
              if cancelled then exit_with (RunFailed (failureResult completed d)
                (NewError ErrorCancelled (errorRun completed stage) (ReadinessState completed) d cancelled_err))
              else case out_SuccessorWatermark outcome of
                None \<Rightarrow> exit_with (RunDone (completedRunResult completed d))
              | Some watermark \<Rightarrow>
                  and_then (startSuccessor ops req newID completed d watermark) (\<lambda>successor.
                  and_then ctx_cancelled (\<lambda>cancelled.
                  if cancelled then persistCancelled ops req successor SemanticRefreshProjection d cancelled_err
                  else exit_with (RunSuccessor (completedRunResult completed d) successor d)))))
      Q (durable_end ok recorded refused run0)"
    proof (cases r)
      case (Inl e)
      show ?thesis unfolding Inl sum.case
        by (intro triple_poll triple_if triple_pre [OF cancelled_piece] triple_pre [OF refused_exit]) auto
    next
      case (Inr completed)
      show ?thesis
      proof (cases "State completed = SemanticRefreshRunCompleted \<and> follows run completed")
        case True
        then show ?thesis unfolding Inr sum.case
          by (intro triple_pre [OF done_piece]) auto
      next
        case False
        then show ?thesis unfolding Inr sum.case triple_def by (auto simp: written_def runStateUpdate_def)
      qed
    qed
  qed (simp add: runStateUpdate_def)
next
  case (Some e)
  then show ?thesis
    unfolding complete_run_def by (auto intro!: triple_if failure_piece stale_exit [OF stale_wrapped])
qed

lemma stage_piece:
  assumes "follows run0 run"
  shows "triple (\<lambda>l. ok l \<and> known l run) (stage_step ops req newID ev run d)
    (\<lambda>(run', d') l. ok l \<and> recorded l run' \<and> follows run0 run' \<and> follows run run' \<and>
      snd (executed_outcome run ev) = None \<and> \<not> out_Complete (fst (executed_outcome run ev)) \<and>
      (\<exists>now. written (outcomeUpdate now run (fst (executed_outcome run ev)) SemanticRefreshRunRunning [] []) run'))
    (durable_end ok recorded refused run0)"
proof (cases "executed_outcome run ev")
  case (Pair outcome executeErr)
  have nonzero: "\<not> stageOutcomeIsZero outcome" if "executeErr = None"
    using Pair that by (auto simp: executed_outcome_def Let_def split: prod.splits if_splits)
  show ?thesis
    unfolding stage_step_def Pair prod.case fst_conv snd_conv
  proof (intro triple_then [OF acquire_piece] triple_then [OF checkpoint_piece])
    fix x :: "loaded_run \<times> debt"
    let ?known = "\<lambda>run' l. ok l \<and> known l run' \<and> follows run run' \<and> (\<not> stageOutcomeIsZero outcome \<longrightarrow> recorded l run' \<and>
      (\<exists>now. written (outcomeUpdate now run outcome SemanticRefreshRunRunning [] []) run'))"
    show "triple (case x of (run', d') \<Rightarrow> ?known run')
      (case x of (persisted, debt) \<Rightarrow>
        and_then (check_outcome ops req ev (Stage run) outcome executeErr persisted debt)
          (\<lambda>_. if \<not> out_Complete outcome then go_on (persisted, debt)
            else complete_run ops req ev newID (Stage run) outcome persisted debt))
      (\<lambda>(run', d') l. ok l \<and> recorded l run' \<and> follows run0 run' \<and> follows run run' \<and>
        executeErr = None \<and> \<not> out_Complete outcome \<and>
        (\<exists>now. written (outcomeUpdate now run outcome SemanticRefreshRunRunning [] []) run'))
      (durable_end ok recorded refused run0)"
    proof (cases x)
      case (Pair run' d')
      have rest: "triple (\<lambda>l. ?known run' l \<and> executeErr = None \<and> \<not> successor_too_low outcome run')
        (if \<not> out_Complete outcome then go_on (run', d')
            else complete_run ops req ev newID (Stage run) outcome run' d')
        (\<lambda>(run', d') l. ok l \<and> recorded l run' \<and> follows run0 run' \<and> follows run run' \<and>
          executeErr = None \<and> \<not> out_Complete outcome \<and>
          (\<exists>now. written (outcomeUpdate now run outcome SemanticRefreshRunRunning [] []) run'))
        (durable_end ok recorded refused run0)"
      proof (cases "follows run run' \<and> \<not> successor_too_low outcome run'")
        case True
        then have "follows run0 run'" "\<not> successor_too_low outcome run'" using follows_trans [OF assms] by auto
        then show ?thesis
          by (intro triple_if triple_go triple_pre [OF complete_piece]) (auto simp: nonzero)
      qed (auto simp: triple_def)
      show ?thesis unfolding Pair prod.case by (intro triple_then [OF check_piece] rest) auto
    qed
  qed
qed

lemma ledger_run_end:
  assumes "runOneLedgerRun ops req newID evs run d c l = Some (r, c', l')" "ok l" "known l run" "follows run0 run"
  shows "durable_end ok recorded refused run0 r l'"
  using assms
proof (induction evs arbitrary: run d c l)
  case (Cons ev evs)
  obtain s c1 l1 where s: "stage_step ops req newID ev run d c l = (s, c1, l1)" by (cases "stage_step ops req newID ev run d c l")
  note step = tripleD [OF stage_piece [OF Cons.prems(4), of req newID ev d], of l c]
  show ?case
  proof (cases s)
    case (Inl r1)
    then have "r1 = r" "c1 = c'" "l1 = l'" using Cons.prems(1) s by simp_all
    then show ?thesis using step(1) Cons.prems(2,3) s Inl by simp
  next
    case (Inr x)
    obtain run1 d1 where x: "x = (run1, d1)" by fastforce
    have "ok l1" "recorded l1 run1" "follows run0 run1" using step(2) Cons.prems(2,3) s Inr x by auto
    then show ?thesis using Cons.IH [of run1 d1 c1 l1] Cons.prems(1) s Inr x recorded_known by simp
  qed
qed simp

lemma emitter_piece:
  "triple (\<lambda>l. ok l \<and> known l run) (start_emitter ops wall callback run) (\<lambda>e l. ok l \<and> known l run) R"
  unfolding triple_def start_emitter_def
  by (auto split: prod.splits option.splits dest!: touch_law simp: call_keeps_def)

lemma begin_piece:
  "triple (\<lambda>l. ok l \<and> known l run) (begin_run ops req wall callback run d) (\<lambda>_ l. ok l \<and> known l run)
    (durable_end ok recorded refused run0)"
  unfolding begin_run_def
proof (rule triple_then [OF emitter_piece])
  fix e
  show "triple (\<lambda>l. ok l \<and> known l run) (case e of
       None \<Rightarrow> go_on ()
     | Some e \<Rightarrow> and_then ctx_cancelled (\<lambda>cancelled.
         if cancelled then persistCancelled ops req run (Stage run) d (join_errors [cancelled_err, Some e])
         else if error_is StaleErr e then exit_with (RunFailed (failureResult run d)
           (NewError ErrorRunConflict run (ReadinessState run) d (Some e)))
         else persistTerminalFailure ops req run (Stage run) d (Some e)))
    (\<lambda>_ l. ok l \<and> known l run) (durable_end ok recorded refused run0)"
    by (cases e) (auto intro!: triple_go triple_poll triple_if cancelled_piece failure_piece stale_exit [OF stale_wrapped])
qed

lemma loop_end:
  assumes "run_loop ops req es run d c l = Some ((result, err), l')" "ok l" "known l run"
  shows "case err of
      None \<Rightarrow> \<exists>run. res_Run result = Some run \<and> res_Completed result \<and> recorded l' run \<and>
        State run = SemanticRefreshRunCompleted
    | Some e \<Rightarrow> \<exists>run. res_Run result = Some run \<and> \<not> res_Completed result \<and> error_durable (recorded l' run) (refused l') run e"
  using assms
proof (induction es arbitrary: run d c l)
  case (Cons e es)
  obtain s c1 l1 where s: "begin_run ops req (ru_wall e) (ru_callback e) run d c l = (s, c1, l1)"
    by (cases "begin_run ops req (ru_wall e) (ru_callback e) run d c l")
  note begin_cases = tripleD [OF begin_piece, of l run req "ru_wall e" "ru_callback e" d c]
  show ?case
  proof (cases s)
    case (Inl r)
    then have "durable_end ok recorded refused run r l1" using begin_cases(1) Cons.prems s by blast
    then show ?thesis using Cons.prems(1) s Inl by (cases r) (auto simp: durable_end_def failureResult_def)
  next
    case (Inr u)
    then have l1: "ok l1" "known l1 run" using begin_cases(2) Cons.prems s by blast+
    from Cons.prems(1) s Inr obtain r c2 l2 where
      r: "runOneLedgerRun ops req (ru_newID e) (ru_turns e) run d c1 l1 = Some (r, c2, l2)"
      by (auto split: option.splits)
    have r_end: "durable_end ok recorded refused run r l2" by (rule ledger_run_end [OF r l1 follows_refl])
    show ?thesis
    proof (cases r)
      case (RunSuccessor result1 successor d1)
      then have "run_loop ops req es successor d1 c2 l2 = Some ((result, err), l')"
        using Cons.prems(1) s Inr r by simp
      then show ?thesis
        using Cons.IH r_end RunSuccessor recorded_known by (auto simp: durable_end_def)
    qed (use Cons.prems(1) s Inr r r_end in \<open>auto simp: durable_end_def failureResult_def completedRunResult_def\<close>)
  qed
qed simp

lemma Run_end:
  assumes "Run ops req firstID es c l = Some ((result, err), l')" "ok l"
  shows "case err of
      None \<Rightarrow> \<exists>run. res_Run result = Some run \<and> res_Completed result \<and> recorded l' run \<and>
        State run = SemanticRefreshRunCompleted
    | Some e \<Rightarrow> \<not> res_Completed result \<and> (case res_Run result of
        None \<Rightarrow> \<not> request_valid req \<or> isl (nextRunID firstID) \<or> refused l'
      | Some run \<Rightarrow> error_durable (recorded l' run) (refused l') run e)"
proof (cases "request_valid req \<and> \<not> isl (nextRunID firstID)")
  case True
  then obtain runID where runID: "nextRunID firstID = Inr runID" by (cases "nextRunID firstID") auto
  obtain i where "i = \<lparr>in_RunID = runID, in_ProfileID = req_ProfileID req, in_PurgeEpoch = req_PurgeEpoch req,
     in_ProjectionWatermark = req_ProjectionWatermark req, in_InitialCounters = zero_counters, in_Now = req_Now req l\<rparr>"
    by blast
  note i = this [symmetric]
  obtain l1 r where r: "rl_start ops i l = (l1, r)" by fastforce
  note law = start_law [OF assms(2) r]
  show ?thesis
  proof (cases r)
    case (Inl e)
    then show ?thesis using assms(1) True runID r law by (auto simp: Run_def i base_result_def)
  next
    case (Inr x)
    obtain run resumed where x: "x = (run, resumed)" by fastforce
    have l1: "ok l1" "known l1 (normalizeLoadedRunGeneration run)"
      using law Inr x recorded_known recorded_generation [of l1 "[]" run]
      by (auto simp: call_keeps_def normalizeLoadedRunGeneration_def)
    have "run_loop ops req es (normalizeLoadedRunGeneration run) no_debt c l1 = Some ((result, err), l')"
      using assms(1) True runID r Inr x by (simp add: Run_def i)
    note loop_end [OF this l1]
    then show ?thesis by (cases err) auto
  qed
next
  case False
  then show ?thesis
    using assms(1) unfolding Run_def by (cases "nextRunID firstID") (auto simp: base_result_def split: if_splits)
qed

end

text \<open>The turns of a run: each with the run it was given and what the ledger then was.\<close>

fun stage_trace ::
  "'l run_ledger \<Rightarrow> 'l request \<Rightarrow> go_error + string \<Rightarrow> stage_event list \<Rightarrow> loaded_run \<Rightarrow> debt \<Rightarrow> ctx \<Rightarrow> 'l \<Rightarrow>
   (loaded_run \<times> stage_event \<times> 'l) list" where
  "stage_trace ops req newID [] run d c l = []"
| "stage_trace ops req newID (ev # evs) run d c l = (run, ev, l) #
     (case stage_step ops req newID ev run d c l of
        (Inl r, _, _) \<Rightarrow> []
      | (Inr (run', d'), c', l') \<Rightarrow> stage_trace ops req newID evs run' d' c' l')"

definition checkpointed :: "loaded_run \<Rightarrow> stage_event \<Rightarrow> loaded_run \<Rightarrow> bool" where
  "checkpointed run ev run' \<longleftrightarrow> follows run run' \<and> State run' = SemanticRefreshRunRunning \<and>
     Version run' = Version run + 1 \<and>
     Stage run' = (if out_NextStage (ev_outcome ev) = [] then Stage run else out_NextStage (ev_outcome ev)) \<and>
     Checkpoint run' = boundedDiagnostic (out_Checkpoint (ev_outcome ev)) errorCheckpointLimit \<and>
     Counters run' = out_Counters (ev_outcome ev) \<and> EmbeddingRevision run' = out_EmbeddingRevision (ev_outcome ev) \<and>
     CurrentGenerationID run' = out_CurrentGenerationID (ev_outcome ev) \<and>
     ev_error ev = None \<and> \<not> out_Complete (ev_outcome ev)"

lemma executed_checkpointed:
  assumes "written (outcomeUpdate now run (fst (executed_outcome run ev)) SemanticRefreshRunRunning [] []) run'" "follows run run'"
    "snd (executed_outcome run ev) = None" "\<not> out_Complete (fst (executed_outcome run ev))"
  shows "checkpointed run ev run'"
  using assms by (auto simp: checkpointed_def written_def outcomeUpdate_def executed_outcome_def
      sanitizeStageOutcomeGeneration_def Let_def split: if_splits)

context run_ledger_laws
begin

lemma trace_checkpointed:
  assumes "ok l" "known l run" "follows run0 run" "stage_trace ops req newID evs run d c l = tr" "Suc i < length tr"
  shows "case (tr ! i, tr ! Suc i) of ((a, ev, _), (b, _, l')) \<Rightarrow>
    ok l' \<and> recorded l' b \<and> checkpointed a ev b \<and> follows run0 b"
  using assms
proof (induction evs arbitrary: run d c l tr i)
  case (Cons ev evs)
  obtain s c1 l1 where s: "stage_step ops req newID ev run d c l = (s, c1, l1)" by (cases "stage_step ops req newID ev run d c l")
  show ?case
  proof (cases s)
    case (Inr x)
    obtain run1 d1 where x: "x = (run1, d1)" by fastforce
    have l1: "ok l1" "recorded l1 run1" "follows run0 run1" "checkpointed run ev run1"
      using tripleD(2) [OF stage_piece [OF Cons.prems(3), of req newID ev d], of l c] Cons.prems(1,2) s Inr x
        executed_checkpointed by auto
    obtain tr1 where tr1: "stage_trace ops req newID evs run1 d1 c1 l1 = tr1" by blast
    then have tr: "tr = (run, ev, l) # tr1" using Cons.prems(4) s Inr x by simp
    show ?thesis
    proof (cases i)
      case 0
      have "tr1 \<noteq> []" using Cons.prems(5) tr 0 by auto
      then have "\<exists>ev1 rest. tr1 = (run1, ev1, l1) # rest" using tr1 by (cases evs) auto
      then show ?thesis using l1 tr 0 by auto
    next
      case (Suc j)
      then show ?thesis using Cons.IH [OF l1(1) recorded_known [OF l1(2)] l1(3) tr1, of j] Cons.prems(5) tr by simp
    qed
  qed (use Cons.prems s in auto)
qed auto

lemma trace_recorded:
  assumes "ok l" "recorded l run" "stage_trace ops req newID evs run d c l = tr" "j < length tr" "tr ! j = (a, ev, l')"
  shows "ok l' \<and> recorded l' a"
proof (cases j)
  case 0
  then show ?thesis using assms by (cases evs) auto
next
  case (Suc i)
  then show ?thesis
    using trace_checkpointed [OF assms(1) recorded_known [OF assms(2)] follows_refl assms(3), of i] assms(4,5)
    by (cases "tr ! i") auto
qed

end

end
