(* ===== verification/RefreshOutcomes.thy ===== *)
theory RefreshOutcomes
  imports RefreshRunnerProps
begin

text \<open>
  The properties of a refresh on the store, among other processes and whatever the executor, the
  progress callback and the context do: its outcome is durable, its turns are checkpointed, its
  successors go forward, and it returns when its stages end.
\<close>

definition fresh_world :: "ledger \<Rightarrow> ledger_world" where
  "fresh_world t = \<lparr>lw_table = t, lw_calls = 0, lw_refused = False\<rparr>"

lemma fresh_world_simps [simp]: "lw_table (fresh_world t) = t" "lw_refused (fresh_world t) = False"
  by (simp_all add: fresh_world_def)

section \<open>An example\<close>

definition calm_env :: ledger_env where
  "calm_env = \<lparr>env_others = (\<lambda>_. []), env_fails = (\<lambda>_ _. False), env_wall = (\<lambda>_. example_now), env_acquired = (\<lambda>_. True)\<rparr>"

definition example_request :: "ledger_world request" where
  "example_request = \<lparr>req_ProfileID = ''p'', req_PurgeEpoch = 0, req_ProjectionWatermark = 7, req_CapabilityReady = True,
     req_Now = (\<lambda>_. example_now)\<rparr>"

definition example_id :: string where
  "example_id = ''0123456789abcdef0123456789abcdef''"

definition successor_id :: string where
  "successor_id = ''00000000000000000000000000000001''"

text \<open>A turn that goes on with the flush stage, one that completes, and one that completes with a successor.\<close>

definition quiet_turn :: "stage_outcome \<Rightarrow> stage_event" where
  "quiet_turn outcome = \<lparr>ev_acquire = None, ev_outcome = outcome, ev_error = None, ev_publish = None,
     ev_workContext = None, ev_stop = None\<rparr>"

definition flush_turn :: stage_event where
  "flush_turn = quiet_turn (zero_outcome\<lparr>out_NextStage := SemanticRefreshFlush\<rparr>)"

definition last_turn :: stage_event where
  "last_turn = quiet_turn (zero_outcome\<lparr>out_Complete := True\<rparr>)"

definition successor_turn :: stage_event where
  "successor_turn = quiet_turn (zero_outcome\<lparr>out_Complete := True, out_SuccessorWatermark := Some 9\<rparr>)"

definition example_runs :: "run_events list" where
  "example_runs = [\<lparr>ru_wall = example_now, ru_callback = None, ru_turns = [flush_turn, successor_turn], ru_newID = Inr successor_id\<rparr>,
     \<lparr>ru_wall = example_now, ru_callback = None, ru_turns = [last_turn], ru_newID = Inr example_id\<rparr>]"

definition example_started :: loaded_run where
  "example_started = \<lparr>RunID = example_id, ProfileID = ''p'', Checkpoint = [], CurrentGenerationID = [], ErrorCode = [], ErrorText = [],
     ReadinessState = [], PurgeEpoch = 0, ProjectionWatermark = 7, EmbeddingRevision = 0, Version = 1,
     Stage = SemanticRefreshProjection, State = SemanticRefreshRunRunning, Counters = zero_counters,
     CreatedAt = example_now, UpdatedAt = example_now, LastProgressAt = example_now\<rparr>"

definition example_row :: stored_run where
  "example_row = new_row (example_input\<lparr>in_RunID := example_id\<rparr>) (refresh_stamp example_now)"

lemma example_row_ok: "schema_ok [example_row]" "known_in [example_row] example_started"
  by code_simp+

section \<open>Durable outcomes\<close>

text \<open>C7. The outcome of a refresh is durable: from any well-formed ledger, and whatever the executor, the
  callback, the context and other processes do, a refresh that returns without an error has its run stored as
  completed; one that returns an error reports a run that is stored as failed or cancelled with exactly the
  code of the error, or was already stored as completed, unless the ledger itself refused a call or the run
  was found stale. It reports no run only if the request or the run id was invalid or the start was refused.\<close>

theorem refresh_outcome_is_durable:
  assumes "schema_ok t" "Run (store_ledger env) req firstID es c (fresh_world t) = Some ((result, err), w)"
  shows "case err of
      None \<Rightarrow> \<exists>run. res_Run result = Some run \<and> res_Completed result \<and> recorded_in (lw_table w) run \<and>
        State run = SemanticRefreshRunCompleted
    | Some e \<Rightarrow> \<not> res_Completed result \<and> (case res_Run result of
        None \<Rightarrow> \<not> request_valid req \<or> isl (nextRunID firstID) \<or> lw_refused w
      | Some run \<Rightarrow> error_durable (recorded_in (lw_table w) run) (lw_refused w) run e)"
  by (rule st.Run_end [OF assms(2)]) (simp add: assms(1))

lemma example_fields [simp]:
  "boundedDiagnostic [] n = []" "boundedProtocolField [] n = []"
  by (simp_all add: boundedProtocolField_def boundedDiagnostic_def ToValidUTF8_def Fields_def segments.simps)

lemma example_ids [simp]: "TrimSpace ''p'' = ''p''" "TrimSpace example_id = example_id" "TrimSpace successor_id = successor_id"
  "valid_run_id example_id" "valid_run_id successor_id" "example_id \<noteq> []" "successor_id \<noteq> []" "example_id \<noteq> successor_id"
  "length example_id = 32" "length successor_id = 32"
  by (simp_all add: TrimSpace_visible visible_def example_id_def successor_id_def valid_run_id_def in_bytes_def)

lemmas example_tx_defs = tx_then_def exec_update_def exec_insert_def query_row_def scan_tx_def select_run_def tx_commit_def
  tx_return_def transaction_def scanSemanticRefreshRun_def

lemma example_start_call:
  "store_start calm_env \<lparr>in_RunID = example_id, in_ProfileID = ''p'', in_PurgeEpoch = 0, in_ProjectionWatermark = 7,
     in_InitialCounters = zero_counters, in_Now = example_now\<rparr> (fresh_world []) =
   (\<lparr>lw_table = [example_row], lw_calls = 1, lw_refused = False\<rparr>, Inr (example_started, False))"
proof -
  have "schema_ok []" by (simp add: schema_ok_def)
  note example_row_ok(1) [unfolded example_row_def new_row_def example_input_def] this
  then show ?thesis
    by (simp add: store_start_def met_table_def calm_env_def fresh_world_def StartOrResumeSemanticRefreshRun_def trimmed_input_def
        start_tx_def example_tx_defs example_times example_row_def new_row_def example_input_def example_started_def
        after_call_def validSemanticRefreshCounters_def zero_counters_def)
qed

text \<open>The calls of the runner on a table with one row, when nothing fails.\<close>

definition loaded :: "stored_run \<Rightarrow> loaded_run" where
  "loaded r = \<lparr>RunID = RunID r, ProfileID = ProfileID r, Checkpoint = Checkpoint r, CurrentGenerationID = CurrentGenerationID r,
     ErrorCode = ErrorCode r, ErrorText = ErrorText r, ReadinessState = ReadinessState r, PurgeEpoch = PurgeEpoch r,
     ProjectionWatermark = ProjectionWatermark r, EmbeddingRevision = EmbeddingRevision r, Version = Version r,
     Stage = Stage r, State = State r, Counters = Counters r,
     CreatedAt = example_now, UpdatedAt = example_now, LastProgressAt = example_now\<rparr>"

lemma loaded_fields [simp]:
  "RunID (loaded r) = RunID r" "Version (loaded r) = Version r" "ProfileID (loaded r) = ProfileID r"
  "PurgeEpoch (loaded r) = PurgeEpoch r" "ProjectionWatermark (loaded r) = ProjectionWatermark r" "Counters (loaded r) = Counters r"
  by (simp_all add: loaded_def)

abbreviation one_row :: "stored_run \<Rightarrow> nat \<Rightarrow> ledger_world" where
  "one_row r k \<equiv> \<lparr>lw_table = [r], lw_calls = k, lw_refused = False\<rparr>"

lemma one_row_schema: "row_check r \<Longrightarrow> schema_ok [r]"
  by (simp add: schema_ok_def)

lemma calm_fields [simp]: "met_table calm_env w = lw_table w" "env_fails calm_env k = (\<lambda>_. False)" "env_acquired calm_env k"
  "rl_start (store_ledger e) = store_start e" "rl_update (store_ledger e) = store_update e" "rl_touch (store_ledger e) = store_touch e"
  "req_Now example_request w = example_now"
  by (simp_all add: met_table_def calm_env_def store_ledger_def example_request_def)

lemma calm_update:
  assumes "update_target u r" "row_check (updated_row u (refresh_stamp example_now) r)"
    "CreatedAt r = refresh_stamp example_now" "up_Now u = example_now"
  shows "store_update calm_env u (one_row r k) =
    (one_row (updated_row u (refresh_stamp example_now) r) (k + 1), Inr (loaded (updated_row u (refresh_stamp example_now) r)))"
proof -
  have scan: "scanSemanticRefreshRun (updated_row u (refresh_stamp example_now) r) = Inr (loaded (updated_row u (refresh_stamp example_now) r))"
    using assms(3) by (simp add: scanSemanticRefreshRun_def loaded_def updated_row_def example_times)
  have "update_tx (\<lambda>_. False) u (refresh_stamp example_now) [r] =
     Inr ([updated_row u (refresh_stamp example_now) r], loaded (updated_row u (refresh_stamp example_now) r))"
    using assms(1) one_row_schema [OF assms(2)] scan
    by (simp add: update_tx_def tx_then_def exec_update_def query_row_def scan_tx_def tx_commit_def tx_return_def Let_def)
  then show ?thesis
    using assms(4) by (simp add: store_update_def UpdateSemanticRefreshRun_def transaction_def example_times after_call_def)
qed

lemma calm_touch:
  assumes "row_check r" "State r = SemanticRefreshRunRunning" "UpdatedAt r = refresh_stamp example_now"
    "LastProgressAt r = refresh_stamp example_now"
  shows "store_touch calm_env (RunID r) example_now (one_row r k) = (one_row r (k + 1), None)"
proof -
  have "touched_row (refresh_stamp example_now) r = r" using assms(3,4) by (simp add: touched_row_def)
  then show ?thesis
    using assms one_row_schema [OF assms(1)]
    by (simp add: store_touch_def TouchSemanticRefreshRunProgress_def touch_target_def example_tx_defs example_times Let_def
      after_call_def)
qed

lemma quiet_turn_fields [simp]:
  "ev_acquire (quiet_turn o') = None" "ev_outcome (quiet_turn o') = o'" "ev_error (quiet_turn o') = None"
  "ev_publish (quiet_turn o') = None" "ev_workContext (quiet_turn o') = None" "ev_stop (quiet_turn o') = None"
  by (simp_all add: quiet_turn_def)

lemma no_generation_valid [simp]: "validGenerationID []"
  by (simp add: validGenerationID_def)

text \<open>A turn without an error, and the completion of a run.\<close>

lemma calm_turn:
  fixes run outcome r
  defines "r' \<equiv> updated_row (outcomeUpdate example_now run outcome SemanticRefreshRunRunning [] []) (refresh_stamp example_now) r"
  assumes "outcome \<noteq> zero_outcome" "validGenerationID (out_CurrentGenerationID outcome)" "RunID r = RunID run" "Version r = Version run" "resumable r"
    "row_check r'" "CreatedAt r = refresh_stamp example_now" "\<not> successor_too_low outcome (loaded r')"
  shows "stage_step (store_ledger calm_env) example_request newID (quiet_turn outcome) run d None (one_row r k) =
    (if \<not> out_Complete outcome then (Inr (loaded r', out_Debt outcome), None, one_row r' (k + 1))
     else complete_run (store_ledger calm_env) example_request (quiet_turn outcome) newID (Stage run) outcome (loaded r')
       (out_Debt outcome) None (one_row r' (k + 1)))"
proof -
  let ?u = "outcomeUpdate example_now run outcome SemanticRefreshRunRunning [] []"
  have "update_target ?u r" "up_Now ?u = example_now" using assms by (simp_all add: update_target_def outcomeUpdate_def)
  note update = calm_update [OF this(1) assms(7) [unfolded r'_def] assms(8) this(2), folded r'_def]
  have executed: "executed_outcome run (quiet_turn outcome) = (outcome, None)"
    using assms(2,3) by (simp add: executed_outcome_def sanitizeStageOutcomeGeneration_def stageOutcomeIsZero_def)
  show ?thesis
    using assms(2,9) by (simp add: stage_step_def acquire_stage_def executed checkpoint_outcome_def check_outcome_def and_then_def
        go_on_def ctx_cancelled_def updateRunDurably_def ledger_update_def update stageOutcomeIsZero_def)
qed

lemma calm_complete:
  fixes run r
  defines "r' \<equiv> updated_row (runStateUpdate example_now run SemanticRefreshRunCompleted [] []) (refresh_stamp example_now) r"
  assumes "RunID r = RunID run" "Version r = Version run" "resumable r" "row_check r'" "CreatedAt r = refresh_stamp example_now"
  shows "complete_run (store_ledger calm_env) example_request (quiet_turn outcome) newID stage outcome run d None (one_row r k) =
    (case out_SuccessorWatermark outcome of
       None \<Rightarrow> (Inl (RunDone (completedRunResult (loaded r') d)), None, one_row r' (k + 1))
     | Some w \<Rightarrow> and_then (startSuccessor (store_ledger calm_env) example_request newID (loaded r') d w) (\<lambda>successor.
         and_then ctx_cancelled (\<lambda>cancelled.
         if cancelled then persistCancelled (store_ledger calm_env) example_request successor SemanticRefreshProjection d cancelled_err
         else exit_with (RunSuccessor (completedRunResult (loaded r') d) successor d))) None (one_row r' (k + 1)))"
proof -
  let ?u = "runStateUpdate example_now run SemanticRefreshRunCompleted [] []"
  have "update_target ?u r" "up_Now ?u = example_now" using assms by (simp_all add: update_target_def runStateUpdate_def)
  note update = calm_update [OF this(1) assms(5) [unfolded r'_def] assms(6) this(2), folded r'_def]
  show ?thesis
    by (simp add: complete_run_def and_then_def go_on_def ctx_cancelled_def ledger_update_def update exit_with_def
        split: option.splits)
qed

lemmas example_row_defs = row_check_def resumable_def resumable_states_def run_state_defs run_stage_defs
  run_stages_def validSemanticRefreshCounters_def zero_counters_def

lemma example_row_simps [simp]:
  "RunID example_row = example_id" "ProfileID example_row = ''p''" "PurgeEpoch example_row = 0" "ProjectionWatermark example_row = 7"
  "Version example_row = 1" "State example_row = SemanticRefreshRunRunning" "Stage example_row = SemanticRefreshProjection"
  "CreatedAt example_row = refresh_stamp example_now" "UpdatedAt example_row = refresh_stamp example_now"
  "LastProgressAt example_row = refresh_stamp example_now" "Counters example_row = zero_counters" "row_check example_row"
  "RunID example_started = example_id" "ProfileID example_started = ''p''" "PurgeEpoch example_started = 0"
  "ProjectionWatermark example_started = 7" "Version example_started = 1" "State example_started = SemanticRefreshRunRunning"
  "Stage example_started = SemanticRefreshProjection" "CurrentGenerationID example_started = []" "Checkpoint example_started = []"
  "ReadinessState example_started = []" "EmbeddingRevision example_started = 0"
  "EmbeddingRevision example_row = 0" "Counters example_started = zero_counters"
  using example_row_ok(1) by (simp_all add: example_row_def new_row_def example_input_def example_started_def schema_ok_def)

definition one_run :: "run_events list" where
  "one_run = [\<lparr>ru_wall = example_now, ru_callback = None, ru_turns = [last_turn], ru_newID = Inr example_id\<rparr>]"

lemma example_touch: "store_touch calm_env example_id example_now (one_row example_row k) = (one_row example_row (k + 1), None)"
  using calm_touch [of example_row] by simp

definition next_row :: stored_run where
  "next_row = new_row (successor_input example_started successor_id 9 example_now) (refresh_stamp example_now)"

definition next_run :: loaded_run where
  "next_run = example_started\<lparr>RunID := successor_id, ProjectionWatermark := 9, Counters := zero_counters\<lparr>SuccessorRuns := 1\<rparr>\<rparr>"

lemma next_start:
  assumes "row_check r" "\<not> resumable r" "RunID r \<noteq> successor_id"
  shows "store_start calm_env (successor_input example_started successor_id 9 example_now)
      \<lparr>lw_table = [r], lw_calls = k, lw_refused = False\<rparr> =
    (\<lparr>lw_table = [r, next_row], lw_calls = k + 1, lw_refused = False\<rparr>, Inr (next_run, False))"
proof -
  have row: "row_check next_row" "RunID next_row = successor_id" "resumable next_row"
    by (simp_all add: next_row_def successor_input_def new_row_def example_row_defs)
  have ok: "schema_ok [r]" "schema_ok [r, next_row]"
    using assms row by (simp_all add: schema_ok_def)
  have i: "trimmed_input (successor_input example_started successor_id 9 example_now) = successor_input example_started successor_id 9 example_now"
    by (simp add: trimmed_input_def successor_input_def example_started_def)
  have scan: "scanSemanticRefreshRun next_row = Inr next_run"
    by (simp add: scanSemanticRefreshRun_def next_row_def next_run_def successor_input_def new_row_def example_started_def
        example_times zero_counters_def)
  have in': "in_RunID (successor_input example_started successor_id 9 example_now) = successor_id"
    "in_ProfileID (successor_input example_started successor_id 9 example_now) = ''p''"
    "in_PurgeEpoch (successor_input example_started successor_id 9 example_now) = 0"
    "in_ProjectionWatermark (successor_input example_started successor_id 9 example_now) = 9"
    "in_Now (successor_input example_started successor_id 9 example_now) = example_now"
    "validSemanticRefreshCounters (in_InitialCounters (successor_input example_started successor_id 9 example_now))"
    by (simp_all add: successor_input_def example_started_def zero_counters_def validSemanticRefreshCounters_def)
  have "start_tx (\<lambda>_. False) (successor_input example_started successor_id 9 example_now) (refresh_stamp example_now) [r] =
      Inr ([r, next_row], (next_run, False))"
    using assms row by (simp add: start_tx_def tx_then_def exec_update_def exec_insert_def query_row_def matches_start_def
        scan_tx_def select_run_def tx_commit_def tx_return_def in' ok scan flip: next_row_def)
  then show ?thesis
    by (simp add: store_start_def met_table_def calm_env_def StartOrResumeSemanticRefreshRun_def i in' transaction_def
        example_times after_call_def)
qed

lemma next_successor:
  assumes "row_check r" "\<not> resumable r" "RunID r \<noteq> successor_id"
    and "ProfileID completed = ''p''" "PurgeEpoch completed = 0" "Counters completed = zero_counters"
  shows "startSuccessor (store_ledger calm_env) example_request (Inr successor_id) completed d 9 None
      \<lparr>lw_table = [r], lw_calls = k, lw_refused = False\<rparr> =
    (Inr next_run, None, \<lparr>lw_table = [r, next_row], lw_calls = k + 1, lw_refused = False\<rparr>)"
proof -
  have i: "successor_input completed successor_id 9 example_now = successor_input example_started successor_id 9 example_now"
    using assms(4-6) by (simp add: successor_input_def example_started_def)
  have n: "normalizeLoadedRunGeneration next_run = next_run" "req_Now example_request w = example_now" for w
    by (simp_all add: normalizeLoadedRunGeneration_def next_run_def example_started_def validGenerationID_def example_request_def)
  have m: "successor_matches completed successor_id 9 False next_run"
    using assms(4-6) by (simp add: successor_matches_def next_run_def example_started_def zero_counters_def)
  have c: "SuccessorRuns (Counters completed) = 0" by (simp add: assms(6) zero_counters_def)
  show ?thesis
    using next_start [OF assms(1-3), of k]
    by (simp add: startSuccessor_def and_then_def ctx_cancelled_def nextRunID_def ledger_start_def store_ledger_def
        go_on_def i n m c)
qed

lemmas example_update_defs = updated_row_def outcomeUpdate_def runStateUpdate_def loaded_def zero_outcome_def
  successor_too_low_def example_row_defs

definition first_row :: "stage_outcome \<Rightarrow> stored_run" where
  "first_row outcome = updated_row (outcomeUpdate example_now example_started outcome SemanticRefreshRunRunning [] [])
     (refresh_stamp example_now) example_row"

definition completed_row :: "stored_run \<Rightarrow> stored_run" where
  "completed_row r = updated_row (runStateUpdate example_now (loaded r) SemanticRefreshRunCompleted [] []) (refresh_stamp example_now) r"

lemma completed_row_simps:
  assumes "row_check r"
  shows "row_check (completed_row r)" "\<not> resumable (completed_row r)" "RunID (completed_row r) = RunID r"
    "ProfileID (completed_row r) = ProfileID r" "PurgeEpoch (completed_row r) = PurgeEpoch r" "Counters (completed_row r) = Counters r"
  using assms by (simp_all add: completed_row_def example_update_defs limit_defs)

definition done_outcome :: "int option \<Rightarrow> stage_outcome" where
  "done_outcome w = zero_outcome\<lparr>out_Complete := True, out_SuccessorWatermark := w\<rparr>"

lemma done_outcome_simps [simp]:
  "out_Complete (done_outcome w)" "out_SuccessorWatermark (done_outcome w) = w" "out_CurrentGenerationID (done_outcome w) = []"
  "done_outcome w \<noteq> zero_outcome" "out_Debt (done_outcome w) = no_debt"
  by (simp_all add: done_outcome_def zero_outcome_def)

lemma first_row_simps [simp]:
  "row_check (first_row (done_outcome w))" "resumable (first_row (done_outcome w))"
  "CreatedAt (first_row (done_outcome w)) = refresh_stamp example_now"
  "RunID (first_row (done_outcome w)) = example_id" "Version (first_row (done_outcome w)) = 2"
  "ProfileID (first_row (done_outcome w)) = ''p''" "PurgeEpoch (first_row (done_outcome w)) = 0"
  "Counters (first_row (done_outcome w)) = zero_counters" "ProjectionWatermark (first_row (done_outcome w)) = 7"
  unfolding done_outcome_def first_row_def using example_row_simps by (simp_all add: example_update_defs)

lemma done_turn:
  assumes "w = None \<or> w = Some 9"
  shows "stage_step (store_ledger calm_env) example_request newID (quiet_turn (done_outcome w)) example_started no_debt None (one_row example_row k) =
    complete_run (store_ledger calm_env) example_request (quiet_turn (done_outcome w)) newID SemanticRefreshProjection (done_outcome w)
      (loaded (first_row (done_outcome w))) no_debt None (one_row (first_row (done_outcome w)) (k + 1))"
proof -
  have "resumable example_row" by (simp add: resumable_def resumable_states_def)
  moreover have "\<not> successor_too_low (done_outcome w) (loaded (first_row (done_outcome w)))"
    using assms by (auto simp: successor_too_low_def loaded_def)
  ultimately show ?thesis
    using calm_turn [of "done_outcome w" example_row example_started newID no_debt k] by (simp flip: first_row_def)
qed

lemma done_complete:
  "complete_run (store_ledger calm_env) example_request (quiet_turn (done_outcome w)) newID stage (done_outcome w)
      (loaded (first_row (done_outcome w))) no_debt None (one_row (first_row (done_outcome w)) k) =
    (case w of
       None \<Rightarrow> (Inl (RunDone (completedRunResult (loaded (completed_row (first_row (done_outcome w)))) no_debt)), None,
         one_row (completed_row (first_row (done_outcome w))) (k + 1))
     | Some v \<Rightarrow> and_then (startSuccessor (store_ledger calm_env) example_request newID
           (loaded (completed_row (first_row (done_outcome w)))) no_debt v) (\<lambda>successor.
         and_then ctx_cancelled (\<lambda>cancelled.
         if cancelled then persistCancelled (store_ledger calm_env) example_request successor SemanticRefreshProjection no_debt cancelled_err
         else exit_with (RunSuccessor (completedRunResult (loaded (completed_row (first_row (done_outcome w)))) no_debt) successor no_debt)))
         None (one_row (completed_row (first_row (done_outcome w))) (k + 1)))"
proof -
  have loaded: "RunID (loaded r) = RunID r" "Version (loaded r) = Version r" for r by (simp_all add: loaded_def)
  show ?thesis
    using calm_complete [of "first_row (done_outcome w)" "loaded (first_row (done_outcome w))" "done_outcome w" newID stage no_debt k,
        folded completed_row_def]
      completed_row_simps [of "first_row (done_outcome w)"] by (simp add: loaded)
qed

lemma example_utc: "t_utc example_now = example_now"
  by (simp add: example_now_def t_utc_def)

lemma example_loop:
  "\<exists>result w. run_loop (store_ledger calm_env) example_request one_run example_started no_debt None (one_row example_row 1) =
     Some ((result, None), w)"
proof -
  have "begin_run (store_ledger calm_env) example_request example_now None example_started no_debt None (one_row example_row 1) =
     (Inr (), None, one_row example_row 2)"
    using example_touch [of 1] by (simp add: begin_run_def start_emitter_def example_utc and_then_def go_on_def)
  moreover have turn: "last_turn = quiet_turn (done_outcome None)"
    by (simp add: last_turn_def done_outcome_def zero_outcome_def)
  ultimately show ?thesis by (simp add: one_run_def turn done_turn done_complete)
qed

lemma example_successor:
  "\<exists>result c w. runOneLedgerRun (store_ledger calm_env) example_request (Inr successor_id) [successor_turn] example_started
     no_debt None (fresh_world [example_row]) = Some (RunSuccessor result next_run no_debt, c, w)"
proof -
  have turn: "successor_turn = quiet_turn (done_outcome (Some 9))"
    by (simp add: successor_turn_def done_outcome_def zero_outcome_def)
  show ?thesis
    using completed_row_simps [of "first_row (done_outcome (Some 9))"]
    by (simp add: fresh_world_def turn done_turn done_complete and_then_def next_successor ctx_cancelled_def exit_with_def)
qed

lemma example_returns:
  "\<exists>result w. Run (store_ledger calm_env) example_request (Inr example_id) one_run None (fresh_world []) = Some ((result, None), w)"
proof -
  have valid: "request_valid example_request" "req_ProfileID example_request = ''p''" "req_PurgeEpoch example_request = 0"
    "req_ProjectionWatermark example_request = 7"
    by (simp_all add: request_valid_def example_request_def)
  moreover have "normalizeLoadedRunGeneration example_started = example_started"
    by (simp add: normalizeLoadedRunGeneration_def validGenerationID_def)
  ultimately show ?thesis using example_loop by (simp add: Run_def nextRunID_def example_start_call)
qed

theorem refresh_outcome_is_durable_witness:
  "\<exists>result w. Run (store_ledger calm_env) example_request (Inr example_id) one_run None (fresh_world []) = Some ((result, None), w) \<and>
    (\<exists>run. res_Run result = Some run \<and> recorded_in (lw_table w) run \<and> State run = SemanticRefreshRunCompleted)"
proof -
  obtain result w where run: "Run (store_ledger calm_env) example_request (Inr example_id) one_run None (fresh_world []) =
      Some ((result, None), w)"
    using example_returns by blast
  show ?thesis using refresh_outcome_is_durable [OF _ run] run by (auto simp: schema_ok_def)
qed

section \<open>Checkpoints\<close>

text \<open>C9. No turn starts before the outcome of the one before it is in the ledger: of two consecutive turns of a
  run, the second is given the run exactly as its row then holds it, one version later than the first one's, still
  running, for the same profile, purge epoch and watermark, at the stage and with the checkpoint, counters, embedding
  revision and generation that the first turn's executor returned, without an error.\<close>

theorem every_turn_is_checkpointed:
  assumes "schema_ok (lw_table w)" "known_in (lw_table w) run"
    and "stage_trace (store_ledger env) req newID evs run d c w = trace" "Suc i < length trace"
  shows "case (trace ! i, trace ! Suc i) of ((a, ev, _), (b, _, w')) \<Rightarrow>
    schema_ok (lw_table w') \<and> recorded_in (lw_table w') b \<and> checkpointed a ev b \<and> follows run b"
  by (rule st.trace_checkpointed [OF assms(1,2) follows_refl assms(3,4)])

definition flush_outcome :: stage_outcome where
  "flush_outcome = zero_outcome\<lparr>out_NextStage := SemanticRefreshFlush\<rparr>"

lemma example_trace:
  "Suc 0 < length (stage_trace (store_ledger calm_env) example_request newID [flush_turn, last_turn] example_started no_debt None
     (fresh_world [example_row]))"
proof -
  have turn: "flush_turn = quiet_turn flush_outcome" by (simp add: flush_turn_def flush_outcome_def)
  have o: "flush_outcome \<noteq> zero_outcome" "out_CurrentGenerationID flush_outcome = []" "\<not> out_Complete flush_outcome"
    by (simp_all add: flush_outcome_def zero_outcome_def SemanticRefreshFlush_def)
  have "row_check (updated_row (outcomeUpdate example_now example_started flush_outcome SemanticRefreshRunRunning [] [])
      (refresh_stamp example_now) example_row)"
    unfolding flush_outcome_def using example_row_simps by (simp add: example_update_defs)
  moreover have "resumable example_row" by (simp add: resumable_def resumable_states_def)
  moreover have "\<not> successor_too_low flush_outcome r" for r
    by (simp add: successor_too_low_def flush_outcome_def zero_outcome_def)
  ultimately show ?thesis
    using calm_turn [of flush_outcome example_row example_started newID no_debt 0] o by (simp add: turn fresh_world_def)
qed

theorem every_turn_is_checkpointed_witness:
  "\<exists>a ev w0 b ev' w. stage_trace (store_ledger calm_env) example_request (Inr example_id) [flush_turn, last_turn] example_started
     no_debt None (fresh_world [example_row]) = [(a, ev, w0), (b, ev', w)] \<and>
    recorded_in (lw_table w) b \<and> checkpointed a ev b"
proof -
  obtain trace where trace: "stage_trace (store_ledger calm_env) example_request (Inr example_id) [flush_turn, last_turn]
      example_started no_debt None (fresh_world [example_row]) = trace" by blast
  have long: "Suc 0 < length trace" using example_trace [of "Inr example_id"] unfolding trace .
  have "length (stage_trace ops req newID evs run d c l) \<le> length evs" for ops req newID evs run d c and l :: ledger_world
    by (induction evs arbitrary: run d c l) (auto split: prod.splits sum.splits)
  then have "length trace = 2" using long trace by (metis One_nat_def Suc_1 Suc_leI antisym list.size(3,4) add_0 add_Suc_right plus_1_eq_Suc)
  then obtain x y where "trace = [x, y]" by (auto simp: length_Suc_conv numeral_2_eq_2)
  then show ?thesis
    using every_turn_is_checkpointed [OF _ _ trace long] trace example_row_ok by (cases x; cases y) auto
qed

section \<open>Successors\<close>

text \<open>C18. A refresh only goes forward: when a run of the ledger ends with a successor, the run is stored as
  completed and the successor as running, at the projection stage, for the same profile and purge epoch, with a
  strictly larger watermark, and with one more successor counted.\<close>

theorem successor_goes_forward:
  assumes "schema_ok (lw_table w)" "known_in (lw_table w) run"
    and "runOneLedgerRun (store_ledger env) req newID evs run d c w = Some (RunSuccessor result successor d', c', w')"
  shows "\<exists>completed. res_Run result = Some completed \<and> RunID completed = RunID run \<and>
    recorded_in (lw_table w') completed \<and> State completed = SemanticRefreshRunCompleted \<and>
    recorded_in (lw_table w') successor \<and> State successor = SemanticRefreshRunRunning \<and>
    Stage successor = SemanticRefreshProjection \<and> ProfileID successor = ProfileID run \<and>
    PurgeEpoch successor = PurgeEpoch run \<and> ProjectionWatermark run < ProjectionWatermark successor \<and>
    SuccessorRuns (Counters successor) = SuccessorRuns (Counters completed) + 1"
  using st.ledger_run_end [OF assms(3,1,2) follows_refl]
  by (auto simp: durable_end_def completedRunResult_def follows_def same_work_def succeeds_def)

theorem successor_goes_forward_witness:
  "\<exists>result c w. runOneLedgerRun (store_ledger calm_env) example_request (Inr successor_id) [successor_turn] example_started
     no_debt None (fresh_world [example_row]) = Some (RunSuccessor result next_run no_debt, c, w) \<and>
    recorded_in (lw_table w) next_run \<and> ProjectionWatermark example_started < ProjectionWatermark next_run"
proof -
  obtain result c w where run: "runOneLedgerRun (store_ledger calm_env) example_request (Inr successor_id) [successor_turn]
      example_started no_debt None (fresh_world [example_row]) = Some (RunSuccessor result next_run no_debt, c, w)"
    using example_successor by blast
  show ?thesis using successor_goes_forward [OF _ _ run] run example_row_ok by auto
qed

section \<open>Termination\<close>

definition only_exits :: "(stage_end \<Rightarrow> bool) \<Rightarrow> ('l, 'a) piece \<Rightarrow> bool" where
  "only_exits X m \<longleftrightarrow> triple (\<lambda>_. True) m (\<lambda>_ _. True) (\<lambda>r _. X r)"

text \<open>Only a successor lets the runner go on after a run of the ledger.\<close>

definition is_successor :: "stage_end \<Rightarrow> bool" where
  "is_successor r = (case r of RunSuccessor _ _ _ \<Rightarrow> True | _ \<Rightarrow> False)"

lemma is_successor_simps [simp]: "\<not> is_successor (RunFailed a b)" "\<not> is_successor (RunDone a)" "is_successor (RunSuccessor a s d)"
  by (simp_all add: is_successor_def)

lemma only_exits_rules:
  "only_exits X (go_on x)" "X r \<Longrightarrow> only_exits X (exit_with r)" "only_exits X ctx_cancelled"
  "only_exits X (ledger_update ops req u)" "only_exits X (ledger_start ops i req)" "only_exits X (start_emitter ops wall callback run)"
  unfolding only_exits_def
  by (auto simp: triple_def go_on_def exit_with_def ctx_cancelled_def ledger_update_def ledger_start_def start_emitter_def
      split: prod.splits option.splits)

lemma only_exits_then: "only_exits X m \<Longrightarrow> (\<And>x. only_exits X (f x)) \<Longrightarrow> only_exits X (and_then m f)"
  unfolding only_exits_def by (rule triple_then)

lemma only_exits_cases:
  "(b \<Longrightarrow> only_exits X m) \<Longrightarrow> (\<not> b \<Longrightarrow> only_exits X n) \<Longrightarrow> only_exits X (if b then m else n)"
  "(\<And>a. r = Inl a \<Longrightarrow> only_exits X (f a)) \<Longrightarrow> (\<And>b. r = Inr b \<Longrightarrow> only_exits X (g b)) \<Longrightarrow> only_exits X (case r of Inl a \<Rightarrow> f a | Inr b \<Rightarrow> g b)"
  "(\<And>a b. p = (a, b) \<Longrightarrow> only_exits X (h a b)) \<Longrightarrow> only_exits X (case p of (a, b) \<Rightarrow> h a b)"
  "(e = None \<Longrightarrow> only_exits X m) \<Longrightarrow> (\<And>x. e = Some x \<Longrightarrow> only_exits X (k x)) \<Longrightarrow> only_exits X (case e of None \<Rightarrow> m | Some x \<Rightarrow> k x)"
  by (auto split: sum.splits prod.splits option.splits)

lemmas only_exits_intros = only_exits_rules only_exits_then only_exits_cases

lemma only_exits_persist:
  "only_exits (\<lambda>r. \<not> is_successor r) (persistCancelled ops req run stage d cause)"
  "only_exits (\<lambda>r. \<not> is_successor r) (persistTerminalCode ops req run stage d code cause)"
  "only_exits (\<lambda>r. \<not> is_successor r) (persistTerminalFailure ops req run stage d cause)"
  unfolding persistCancelled_def persistTerminalFailure_def persistTerminalCode_def updateRunDurably_def Let_def
  by (intro only_exits_intros; simp)+

lemma only_exits_stage:
  "only_exits (\<lambda>r. is_successor r \<longrightarrow> out_SuccessorWatermark (ev_outcome ev) \<noteq> None) (stage_step ops req newID ev run d)"
proof -
  have watermark: "out_SuccessorWatermark outcome = out_SuccessorWatermark (ev_outcome ev)" if "executed_outcome run ev = (outcome, e)" for outcome e
    using that by (auto simp: executed_outcome_def sanitizeStageOutcomeGeneration_def Let_def split: if_splits)
  have weaken: "only_exits (\<lambda>r. \<not> is_successor r) m \<Longrightarrow> only_exits (\<lambda>r. is_successor r \<longrightarrow> X) m" for m :: "('l, 'b) piece" and X
    unfolding only_exits_def triple_def by (fastforce split: prod.splits sum.splits)
  note persist = only_exits_persist [THEN weaken]
  show ?thesis
    unfolding stage_step_def acquire_stage_def checkpoint_outcome_def check_outcome_def complete_run_def startSuccessor_def
      fail_completed_def updateRunDurably_def Let_def
    by (intro only_exits_intros persist; simp add: watermark)
qed

definition always_exits :: "('l, 'a) piece \<Rightarrow> bool" where
  "always_exits m \<longleftrightarrow> (\<forall>c l. isl (fst (m c l)))"

lemma always_exits_rules:
  "always_exits (exit_with r)" "(\<And>x. always_exits (f x)) \<Longrightarrow> always_exits (and_then m f)"
  "(b \<Longrightarrow> always_exits g) \<Longrightarrow> (\<not> b \<Longrightarrow> always_exits n) \<Longrightarrow> always_exits (if b then g else n)"
  "(\<And>a. always_exits (h a)) \<Longrightarrow> (\<And>b. always_exits (k b)) \<Longrightarrow> always_exits (case s of Inl a \<Rightarrow> h a | Inr b \<Rightarrow> k b)"
  "always_exits g \<Longrightarrow> (\<And>x. always_exits (p x)) \<Longrightarrow> always_exits (case e of None \<Rightarrow> g | Some x \<Rightarrow> p x)"
  by (auto simp: always_exits_def exit_with_def and_then_def split: sum.splits prod.splits option.splits)

lemma complete_run_exits: "always_exits (complete_run ops req ev newID stage outcome run d)"
  unfolding complete_run_def persistCancelled_def persistTerminalFailure_def persistTerminalCode_def Let_def
  by (intro always_exits_rules)

lemma complete_turn_exits:
  assumes "out_Complete (ev_outcome ev)" "stage_step ops req newID ev run d c l = (s, c', l')"
  shows "\<exists>r. s = Inl r"
proof (cases "executed_outcome run ev")
  case (Pair outcome e)
  then have "out_Complete outcome"
    using assms(1) by (auto simp: executed_outcome_def sanitizeStageOutcomeGeneration_def Let_def split: if_splits)
  then have "always_exits (stage_step ops req newID ev run d)"
    unfolding stage_step_def Pair prod.case split_beta by (simp add: always_exits_rules complete_run_exits)
  then have "isl s" using assms(2) by (auto simp: always_exits_def dest!: spec [of _ c] spec [of _ l])
  then show ?thesis by (cases s) simp_all
qed

lemma ledger_run_returns:
  assumes "list_ex (\<lambda>ev. out_Complete (ev_outcome ev)) evs"
  shows "\<exists>r c' l'. runOneLedgerRun ops req newID evs run d c l = Some (r, c', l') \<and>
    (is_successor r \<longrightarrow> list_ex (\<lambda>ev. out_SuccessorWatermark (ev_outcome ev) \<noteq> None) evs)"
  using assms
proof (induction evs arbitrary: run d c l)
  case (Cons ev evs)
  obtain s c1 l1 where s: "stage_step ops req newID ev run d c l = (s, c1, l1)" by (cases "stage_step ops req newID ev run d c l")
  show ?case
  proof (cases s)
    case (Inl r)
    then have "is_successor r \<longrightarrow> out_SuccessorWatermark (ev_outcome ev) \<noteq> None"
      using tripleD(1) [OF only_exits_stage [of ev ops req newID run d, unfolded only_exits_def] TrueI] s by blast
    then show ?thesis using s Inl by auto
  next
    case (Inr x)
    then have "list_ex (\<lambda>ev. out_Complete (ev_outcome ev)) evs"
      using complete_turn_exits [OF _ s] Cons.prems by auto
    then obtain r c' l' where "runOneLedgerRun ops req newID evs (fst x) (snd x) c1 l1 = Some (r, c', l')"
      "is_successor r \<longrightarrow> list_ex (\<lambda>ev. out_SuccessorWatermark (ev_outcome ev) \<noteq> None) evs"
      using Cons.IH by blast
    then show ?thesis using s Inr by (cases x) auto
  qed
qed simp

lemma begin_run_fails: "begin_run ops req wall callback run d c l = (Inl r, c', l') \<Longrightarrow> \<exists>result err. r = RunFailed result err"
proof -
  have x: "only_exits (\<lambda>r. \<exists>result err. r = RunFailed result err) (begin_run ops req wall callback run d)"
    unfolding begin_run_def persistCancelled_def persistTerminalFailure_def persistTerminalCode_def updateRunDurably_def Let_def
    by (intro only_exits_intros; blast)
  show "begin_run ops req wall callback run d c l = (Inl r, c', l') \<Longrightarrow> \<exists>result err. r = RunFailed result err"
    using tripleD(1) [OF x [unfolded only_exits_def] TrueI] by blast
qed

definition stages_end :: "run_events \<Rightarrow> bool" where
  "stages_end e \<longleftrightarrow> list_ex (\<lambda>ev. out_Complete (ev_outcome ev)) (ru_turns e)"

definition asks_successor :: "run_events \<Rightarrow> bool" where
  "asks_successor e \<longleftrightarrow> list_ex (\<lambda>ev. out_SuccessorWatermark (ev_outcome ev) \<noteq> None) (ru_turns e)"

lemma loop_returns:
  assumes "list_all stages_end es" "es \<noteq> []" "\<not> asks_successor (last es)"
  shows "run_loop ops req es run d c l \<noteq> None"
  using assms
proof (induction es arbitrary: run d c l)
  case (Cons e es)
  obtain s c1 l1 where s: "begin_run ops req (ru_wall e) (ru_callback e) run d c l = (s, c1, l1)"
    by (cases "begin_run ops req (ru_wall e) (ru_callback e) run d c l")
  show ?case
  proof (cases s)
    case (Inl r)
    then show ?thesis using begin_run_fails s by fastforce
  next
    case (Inr u)
    have "list_ex (\<lambda>ev. out_Complete (ev_outcome ev)) (ru_turns e)" using Cons.prems(1) by (simp add: stages_end_def)
    from ledger_run_returns [OF this, of ops req "ru_newID e" run d c1 l1] obtain r c2 l2 where r: "runOneLedgerRun ops req (ru_newID e) (ru_turns e) run d c1 l1 = Some (r, c2, l2)"
      "is_successor r \<longrightarrow> asks_successor e"
      unfolding asks_successor_def by blast
    show ?thesis
    proof (cases r)
      case (RunSuccessor result successor d1)
      then have "es \<noteq> []" using r(2) Cons.prems(3) by auto
      then show ?thesis using Cons.IH [of successor d1 c2 l2] Cons.prems s Inr r RunSuccessor by simp
    qed (use s Inr r in auto)
  qed
qed simp

text \<open>C19. A refresh returns: whatever the ledger answers and whenever the context is cancelled, if in each run of
  the ledger some turn's executor reports completion, and in the last one none asks for a successor, then
  \<open>Run\<close> returns.\<close>

theorem refresh_returns:
  assumes "list_all stages_end es" "es \<noteq> []" "\<not> asks_successor (last es)"
  shows "\<exists>result err l'. Run ops req firstID es c l = Some ((result, err), l')"
proof -
  have "Run ops req firstID es c l \<noteq> None"
    using loop_returns [OF assms] by (auto simp: Run_def split: sum.splits prod.splits)
  then show ?thesis by auto
qed

theorem refresh_returns_witness:
  "\<exists>result err w. Run (store_ledger calm_env) example_request (Inr example_id) example_runs (Some 3) (fresh_world []) =
    Some ((result, err), w)"
proof (rule refresh_returns)
  show "list_all stages_end example_runs" "example_runs \<noteq> []" "\<not> asks_successor (last example_runs)"
    by (simp_all add: example_runs_def stages_end_def asks_successor_def last_turn_def successor_turn_def zero_outcome_def)
qed

end
