(* ===== verification/SemanticReadiness.thy ===== *)
theory SemanticReadiness
  imports ChunkProps GoStrings
begin

text \<open>
  The readiness of semantic search (\<open>internal/semanticreadiness/readiness.go\<close>): the decision
  a snapshot of the store's facts leads to, and the estimate of the chunks that dirty parents
  will have, which calls the chunk planner with what is left of its limit. Go's \<open>int\<close> has
  64 bits here: its sums and products wrap, and a snapshot is \<open>in_range\<close> when none does.
\<close>

section \<open>Snapshots and decisions\<close>

definition StateNotConfigured :: string where "StateNotConfigured = ''not_configured''"
definition StateDisabled :: string where "StateDisabled = ''disabled''"
definition StateNeedsProjection :: string where "StateNeedsProjection = ''needs_projection''"
definition StateNeedsEmbeddings :: string where "StateNeedsEmbeddings = ''needs_embeddings''"
definition StateRetryScheduled :: string where "StateRetryScheduled = ''retry_scheduled''"
definition StateNeedsIndex :: string where "StateNeedsIndex = ''needs_index''"
definition StateBuilding :: string where "StateBuilding = ''building''"
definition StateCatchingUp :: string where "StateCatchingUp = ''catching_up''"
definition StateDegradedBlocked :: string where "StateDegradedBlocked = ''degraded_blocked''"
definition StateStale :: string where "StateStale = ''stale''"
definition StateCorrupt :: string where "StateCorrupt = ''corrupt''"
definition StateReady :: string where "StateReady = ''ready''"
definition StateUnavailable :: string where "StateUnavailable = ''unavailable''"

lemmas readiness_state_defs = StateNotConfigured_def StateDisabled_def StateNeedsProjection_def StateNeedsEmbeddings_def
  StateRetryScheduled_def StateNeedsIndex_def StateBuilding_def StateCatchingUp_def StateDegradedBlocked_def
  StateStale_def StateCorrupt_def StateReady_def StateUnavailable_def

definition MaxDirtyParents :: int where "MaxDirtyParents = 500"
definition MaxNotReadyChunks :: int where "MaxNotReadyChunks = 2500"
definition MaxDirtyAge :: duration where "MaxDirtyAge = 30 * minute"
definition ReadyL0Target :: int where "ReadyL0Target = 5000"
definition CatchUpL0Limit :: int where "CatchUpL0Limit = 10000"
definition DefaultExactMaxChunks :: int where "DefaultExactMaxChunks = 25000"

record decision =
  dec_State :: string
  dec_Reason :: string
  dec_Searchable :: bool

record snapshot =
  sn_Configured :: bool
  sn_Enabled :: bool
  sn_Available :: bool
  sn_PlanningError :: string
  sn_AggregateCountersCorrupt :: bool
  sn_ProfileID :: string
  sn_ProfileExists :: bool
  sn_ProfileProvenanceValid :: bool
  sn_ExpectedParents :: int
  sn_CurrentParents :: int
  sn_EmptyParents :: int
  sn_PendingParents :: int
  sn_BlockedParents :: int
  sn_ErrorParents :: int
  sn_DirtyParents :: int
  sn_EstimatedNotReadyChunks :: int
  sn_OldestDirtyAt :: gotime
  sn_ChunkableParents :: int
  sn_ParentsWithReadyChunk :: int
  sn_ChunkCount :: int
  sn_ReadyEmbeddings :: int
  sn_PendingEmbeddings :: int
  sn_BlockedEmbeddings :: int
  sn_ErrorEmbeddings :: int
  sn_DueRetries :: int
  sn_ScheduledRetries :: int
  sn_UnclassifiedErrors :: int
  sn_CorruptEmbeddings :: int
  sn_RevisionZeroEmbeddings :: int
  sn_GlobalPurgeEpoch :: int
  sn_ProfilePurgeEpoch :: int
  sn_LatestRevision :: int
  sn_ObservedLatestRevision :: int
  sn_L0ReadyCount :: int
  sn_ObservedL0ReadyCount :: int
  sn_ActiveIndexedCount :: int
  sn_ActiveTombstones :: int
  sn_ActiveSegmentCount :: int
  sn_ActiveGenerationID :: string
  sn_ActiveGenerationValid :: bool
  sn_ActiveSnapshotRevision :: int
  sn_ActiveGenerationBackend :: string
  sn_ActiveGenerationBackendVersion :: string
  sn_ActiveGenerationDistanceMetric :: string
  sn_ActiveGenerationDimensions :: int
  sn_ActiveGenerationRootDescriptorSHA256 :: string
  sn_ActiveGenerationProblem :: string
  sn_BuildingGenerations :: int
  sn_StaleGenerations :: int
  sn_ErrorGenerations :: int
  sn_ExactMaxChunks :: int
  sn_Now :: gotime

definition int64_mul :: "int \<Rightarrow> int \<Rightarrow> int" where
  "int64_mul a b = (a * b + 2 ^ 63) mod 2 ^ 64 - 2 ^ 63"

lemma int64_mul_exact: "is_int64 (a * b) \<Longrightarrow> int64_mul a b = a * b"
  by (simp add: int64_mul_def is_int64_def int64_min_def int64_max_def)

definition ratioAtLeast :: "int \<Rightarrow> int \<Rightarrow> int \<Rightarrow> int \<Rightarrow> bool" where
  "ratioAtLeast numerator denominator wantNumerator wantDenominator =
     (if denominator = 0 then numerator = 0
      else int64_mul denominator wantNumerator \<le> int64_mul numerator wantDenominator)"

definition ratioAtMost :: "int \<Rightarrow> int \<Rightarrow> int \<Rightarrow> int \<Rightarrow> bool" where
  "ratioAtMost numerator denominator wantNumerator wantDenominator =
     (if denominator = 0 then numerator = 0
      else int64_mul numerator wantDenominator \<le> int64_mul denominator wantNumerator)"

definition EffectiveExactMaxChunks :: "int \<Rightarrow> int" where
  "EffectiveExactMaxChunks configured =
     (if configured \<le> 0 \<or> DefaultExactMaxChunks < configured then DefaultExactMaxChunks else configured)"

definition projectionComplete :: "snapshot \<Rightarrow> bool" where
  "projectionComplete s \<longleftrightarrow> sn_ExpectedParents s = int64_add (sn_CurrentParents s) (sn_EmptyParents s) \<and>
     sn_PendingParents s = 0 \<and> sn_DirtyParents s = 0 \<and> sn_BlockedParents s = 0 \<and> sn_ErrorParents s = 0"

definition embeddingsComplete :: "snapshot \<Rightarrow> bool" where
  "embeddingsComplete s \<longleftrightarrow> sn_ProfileExists s \<and> sn_PendingEmbeddings s = 0 \<and> sn_ErrorEmbeddings s = 0 \<and>
     sn_DueRetries s = 0 \<and> sn_ScheduledRetries s = 0 \<and>
     int64_add (sn_ReadyEmbeddings s) (sn_BlockedEmbeddings s) = sn_ChunkCount s"

definition coverageReady :: "snapshot \<Rightarrow> bool" where
  "coverageReady s \<longleftrightarrow> ratioAtLeast (sn_ReadyEmbeddings s) (sn_ChunkCount s) 999 1000 \<and>
     ratioAtMost (sn_BlockedEmbeddings s) (sn_ChunkCount s) 1 1000 \<and>
     ratioAtLeast (sn_ParentsWithReadyChunk s) (sn_ChunkableParents s) 999 1000"

definition catchUpEligible :: "snapshot \<Rightarrow> int \<Rightarrow> bool" where
  "catchUpEligible s exactCap =
     (if exactCap < sn_ChunkCount s \<or> MaxDirtyParents < max (sn_DirtyParents s) (sn_PendingParents s) \<or>
         MaxNotReadyChunks < sn_EstimatedNotReadyChunks s \<or> sn_EstimatedNotReadyChunks s < 0 then False
      else if \<not> t_isZero (sn_OldestDirtyAt s) \<and> MaxDirtyAge < t_sub (sn_Now s) (sn_OldestDirtyAt s) then False
      else if sn_ActiveGenerationID s = [] \<and> (sn_ReadyEmbeddings s = 0 \<or>
         exactCap < int64_add (sn_ReadyEmbeddings s) (sn_EstimatedNotReadyChunks s)) then False
      else if sn_ActiveGenerationID s \<noteq> [] \<and> (\<not> sn_ActiveGenerationValid s \<or> CatchUpL0Limit < sn_L0ReadyCount s \<or>
         \<not> ratioAtMost (sn_ActiveTombstones s) (max (sn_ActiveIndexedCount s) 1) 2 100) then False
      else 0 < sn_PendingParents s \<or> 0 < sn_DirtyParents s \<or> 0 < sn_PendingEmbeddings s \<or> 0 < sn_DueRetries s \<or>
        0 < sn_ScheduledRetries s)"

definition decide :: "string \<Rightarrow> string \<Rightarrow> bool \<Rightarrow> decision" where
  "decide state reason searchable = \<lparr>dec_State = state, dec_Reason = reason, dec_Searchable = searchable\<rparr>"

text \<open>The snapshot contradicts itself or cannot be trusted.\<close>

definition profile_inconsistent :: "snapshot \<Rightarrow> bool" where
  "profile_inconsistent s \<longleftrightarrow> sn_ProfileExists s \<and> (\<not> sn_ProfileProvenanceValid s \<or>
     sn_ProfilePurgeEpoch s \<noteq> sn_GlobalPurgeEpoch s \<or> 0 < sn_RevisionZeroEmbeddings s \<or> 0 < sn_CorruptEmbeddings s \<or>
     sn_LatestRevision s < sn_ObservedLatestRevision s \<or> sn_L0ReadyCount s \<noteq> sn_ObservedL0ReadyCount s)"

definition evaluate_complete :: "snapshot \<Rightarrow> decision" where
  "evaluate_complete s = (let exactCap = EffectiveExactMaxChunks (sn_ExactMaxChunks s) in
     if sn_ActiveGenerationID s = [] \<and> exactCap < sn_ReadyEmbeddings s then decide StateNeedsIndex
       (dec_digits (sn_ReadyEmbeddings s) @ '' ready embeddings exceed exact-search cap '' @ dec_digits exactCap) False
     else if sn_ActiveGenerationID s \<noteq> [] \<and> (ReadyL0Target < sn_L0ReadyCount s \<or>
         \<not> ratioAtMost (sn_ActiveTombstones s) (max (sn_ActiveIndexedCount s) 1) 1 100)
     then decide StateCatchingUp ''active generation is valid with bounded L0 or tombstone debt'' True
     else decide StateReady ''semantic profile is complete and eligible'' True)"

definition evaluate_incomplete :: "snapshot \<Rightarrow> decision" where
  "evaluate_incomplete s =
     (if catchUpEligible s (EffectiveExactMaxChunks (sn_ExactMaxChunks s))
      then decide StateCatchingUp ''semantic profile has bounded projection or embedding debt'' True
      else if 0 < sn_BuildingGenerations s then decide StateBuilding ''semantic index generation is building'' False
      else if 0 < sn_StaleGenerations s then decide StateStale ''semantic index generation is stale'' False
      else if 0 < sn_PendingParents s \<or> 0 < sn_DirtyParents s \<or>
         int64_add (sn_CurrentParents s) (sn_EmptyParents s) < sn_ExpectedParents s
      then decide StateNeedsProjection ''projection work exceeds the bounded catch-up gate'' False
      else if 0 < sn_ScheduledRetries s \<and> sn_DueRetries s = 0
      then decide StateRetryScheduled ''embedding retry is scheduled outside the bounded catch-up gate'' False
      else if 0 < sn_PendingEmbeddings s \<or> 0 < sn_ErrorEmbeddings s \<or> 0 < sn_DueRetries s \<or> \<not> sn_ProfileExists s
      then decide StateNeedsEmbeddings ''embedding work exceeds the bounded catch-up gate'' False
      else if \<not> coverageReady s
      then decide StateDegradedBlocked ''terminal blocked or parent coverage exceeds the readiness gate'' False
      else decide StateNeedsIndex ''semantic profile requires a validated index'' False)"

definition Evaluate :: "snapshot \<Rightarrow> decision" where
  "Evaluate s =
     (if \<not> sn_Configured s then decide StateNotConfigured ''embedding model and positive dimensions are required'' False
      else if \<not> sn_Enabled s then decide StateDisabled ''semantic retrieval mode is off'' False
      else if \<not> sn_Available s then decide StateUnavailable ''retrieval schema is unavailable'' False
      else if sn_PlanningError s \<noteq> []
      then decide StateUnavailable (''semantic readiness planning failed: '' @ sn_PlanningError s) False
      else if sn_AggregateCountersCorrupt s
      then decide StateCorrupt ''semantic runtime aggregate counters are inconsistent'' False
      else if profile_inconsistent s
      then decide StateCorrupt ''semantic profile provenance, revision, or aggregate counters are inconsistent'' False
      else if sn_ActiveGenerationID s \<noteq> [] \<and> \<not> sn_ActiveGenerationValid s
      then decide StateCorrupt (''active semantic generation provenance is unproven'' @
        (if sn_ActiveGenerationProblem s \<noteq> [] then '': '' @ sn_ActiveGenerationProblem s else [])) False
      else if 0 < sn_ErrorGenerations s
      then decide StateCorrupt ''semantic index generation failed and requires explicit repair'' False
      else if sn_ActiveGenerationID s \<noteq> [] \<and> (CatchUpL0Limit < sn_L0ReadyCount s \<or>
         \<not> ratioAtMost (sn_ActiveTombstones s) (max (sn_ActiveIndexedCount s) 1) 2 100)
      then decide StateNeedsIndex ''active semantic generation exceeds the L0 or tombstone safety limit'' False
      else if 0 < sn_UnclassifiedErrors s \<or> 0 < sn_ErrorParents s
      then decide StateDegradedBlocked ''semantic work contains an unclassified or terminal error'' False
      else if 0 < sn_BlockedParents s \<or> \<not> ratioAtMost (sn_BlockedEmbeddings s) (sn_ChunkCount s) 1 1000
      then decide StateDegradedBlocked ''terminal blocked coverage exceeds the readiness gate'' False
      else if projectionComplete s \<and> embeddingsComplete s \<and> coverageReady s then evaluate_complete s
      else evaluate_incomplete s)"

section \<open>The estimate of dirty parents\<close>

record dirty_parent =
  dp_Parent :: parent
  dp_LastCurrentChunkCount :: int

datatype estimate_error = NegativeReadinessLimit | LoadFailed string | PlanFailed parent chunk_error

text \<open>An error is wrapped; a cancelled context stays one, and a panic goes on.\<close>

definition relabel :: "('e \<Rightarrow> 'f) \<Rightarrow> ('e, 'a) run \<Rightarrow> ('f, 'a) run" where
  "relabel f m c = (case m c of
     None \<Rightarrow> None
   | Some (Inl Canceled, c') \<Rightarrow> Some (Inl Canceled, c')
   | Some (Inl (Failed e), c') \<Rightarrow> Some (Inl (Failed (f e)), c')
   | Some (Inl Panicked, c') \<Rightarrow> Some (Inl Panicked, c')
   | Some (Inr x, c') \<Rightarrow> Some (Inr x, c'))"

text \<open>The loop over what \<open>next\<close> returns: a parent, or the error that loading it gave.\<close>

fun estimate_rows :: "int \<Rightarrow> int \<Rightarrow> (string + dirty_parent) list \<Rightarrow> (estimate_error, int) run" where
  "estimate_rows limit sofar [] = andThen poll (\<lambda>_. ret sofar)"
| "estimate_rows limit sofar (row # rows) = andThen poll (\<lambda>_. case row of
     Inl e \<Rightarrow> fail (LoadFailed e)
   | Inr dirty \<Rightarrow>
       let remaining = limit - sofar in
       if remaining < 0 then ret (limit + 1)
       else andThen (relabel (PlanFailed (dp_Parent dirty))
           (CountOccurrencesCappedContext (dp_Parent dirty) DefaultOptions remaining)) (\<lambda>count.
         let count = (if count < dp_LastCurrentChunkCount dirty then dp_LastCurrentChunkCount dirty else count) in
         if remaining < count then ret (limit + 1) else estimate_rows limit (sofar + count) rows))"

definition EstimateDirtyParentStream :: "int \<Rightarrow> (string + dirty_parent) list \<Rightarrow> (estimate_error, int) run" where
  "EstimateDirtyParentStream limit rows = andThen (fail_if (limit < 0) NegativeReadinessLimit) (\<lambda>_. estimate_rows limit 0 rows)"

definition EstimateDirtyParents :: "dirty_parent list \<Rightarrow> int \<Rightarrow> (estimate_error, int) run" where
  "EstimateDirtyParents parents limit = EstimateDirtyParentStream limit (map Inr parents)"

section \<open>What ready means\<close>

text \<open>In exact arithmetic, and with nothing of the code's order of tests.\<close>

definition healthy :: "snapshot \<Rightarrow> bool" where
  "healthy s \<longleftrightarrow> sn_Configured s \<and> sn_Enabled s \<and> sn_Available s \<and> sn_PlanningError s = [] \<and>
     \<not> sn_AggregateCountersCorrupt s \<and> sn_ProfileProvenanceValid s \<and>
     sn_ProfilePurgeEpoch s = sn_GlobalPurgeEpoch s \<and> sn_RevisionZeroEmbeddings s = 0 \<and> sn_CorruptEmbeddings s = 0 \<and>
     sn_ObservedLatestRevision s \<le> sn_LatestRevision s \<and> sn_L0ReadyCount s = sn_ObservedL0ReadyCount s \<and>
     sn_ErrorGenerations s = 0 \<and> sn_UnclassifiedErrors s = 0"

definition all_work_done :: "snapshot \<Rightarrow> bool" where
  "all_work_done s \<longleftrightarrow> sn_ExpectedParents s = sn_CurrentParents s + sn_EmptyParents s \<and>
     sn_PendingParents s = 0 \<and> sn_DirtyParents s = 0 \<and> sn_BlockedParents s = 0 \<and> sn_ErrorParents s = 0 \<and>
     sn_ProfileExists s \<and> sn_PendingEmbeddings s = 0 \<and> sn_ErrorEmbeddings s = 0 \<and> sn_DueRetries s = 0 \<and>
     sn_ScheduledRetries s = 0 \<and> sn_ReadyEmbeddings s + sn_BlockedEmbeddings s = sn_ChunkCount s"

definition covered :: "snapshot \<Rightarrow> bool" where
  "covered s \<longleftrightarrow> 1000 * sn_BlockedEmbeddings s \<le> sn_ChunkCount s \<and>
     (sn_ChunkableParents s = 0 \<longrightarrow> sn_ParentsWithReadyChunk s = 0) \<and>
     999 * sn_ChunkableParents s \<le> 1000 * sn_ParentsWithReadyChunk s"

definition searchable_fast :: "snapshot \<Rightarrow> bool" where
  "searchable_fast s =
     (if sn_ActiveGenerationID s = [] then sn_ReadyEmbeddings s \<le> EffectiveExactMaxChunks (sn_ExactMaxChunks s)
      else sn_ActiveGenerationValid s \<and> sn_L0ReadyCount s \<le> ReadyL0Target \<and>
        100 * sn_ActiveTombstones s \<le> max (sn_ActiveIndexedCount s) 1)"

text \<open>Counts of a store: none is negative, none is above 2 to the 50.\<close>

definition in_range :: "snapshot \<Rightarrow> bool" where
  "in_range s \<longleftrightarrow> list_all (\<lambda>n. 0 \<le> n \<and> n \<le> 2 ^ 50)
     [sn_ExpectedParents s, sn_CurrentParents s, sn_EmptyParents s, sn_PendingParents s, sn_BlockedParents s,
      sn_ErrorParents s, sn_DirtyParents s, sn_ChunkableParents s, sn_ParentsWithReadyChunk s, sn_ChunkCount s,
      sn_ReadyEmbeddings s, sn_BlockedEmbeddings s, sn_UnclassifiedErrors s, sn_CorruptEmbeddings s,
      sn_RevisionZeroEmbeddings s, sn_L0ReadyCount s, sn_ActiveIndexedCount s, sn_ActiveTombstones s, sn_ErrorGenerations s]"

lemma ratio_exact:
  assumes "0 \<le> a" "a \<le> 2 ^ 50" "0 \<le> b" "b \<le> 2 ^ 50" "0 \<le> p" "p \<le> 1000" "0 \<le> q" "q \<le> 1000"
  shows "ratioAtMost a b p q \<longleftrightarrow> (if b = 0 then a = 0 else a * q \<le> b * p)"
    "ratioAtLeast a b p q \<longleftrightarrow> (if b = 0 then a = 0 else b * p \<le> a * q)"
proof -
  have "0 \<le> a * q" "a * q \<le> 2 ^ 50 * 1000" "0 \<le> b * p" "b * p \<le> 2 ^ 50 * 1000"
    using assms by (auto intro: mult_mono mult_nonneg_nonneg simp del: power_numeral)
  then have "int64_mul a q = a * q" "int64_mul b p = b * p"
    by (simp_all add: int64_mul_exact is_int64_def int64_min_def int64_max_def)
  then show "ratioAtMost a b p q \<longleftrightarrow> (if b = 0 then a = 0 else a * q \<le> b * p)"
    "ratioAtLeast a b p q \<longleftrightarrow> (if b = 0 then a = 0 else b * p \<le> a * q)"
    by (simp_all add: ratioAtMost_def ratioAtLeast_def)
qed

lemma decide_fields [simp]:
  "dec_State (decide a b c) = a" "dec_Searchable (decide a b c) = c"
  by (simp_all add: decide_def)

lemma incomplete_not_ready: "dec_State (evaluate_incomplete s) \<noteq> StateReady"
  by (simp add: evaluate_incomplete_def readiness_state_defs)

lemma complete_ready:
  "dec_State (evaluate_complete s) = StateReady \<longleftrightarrow>
    (if sn_ActiveGenerationID s = [] then sn_ReadyEmbeddings s \<le> EffectiveExactMaxChunks (sn_ExactMaxChunks s)
     else sn_L0ReadyCount s \<le> ReadyL0Target \<and> ratioAtMost (sn_ActiveTombstones s) (max (sn_ActiveIndexedCount s) 1) 1 100)"
  by (simp add: evaluate_complete_def Let_def readiness_state_defs not_less)

lemma evaluate_ready:
  "dec_State (Evaluate s) = StateReady \<longleftrightarrow>
    sn_Configured s \<and> sn_Enabled s \<and> sn_Available s \<and> sn_PlanningError s = [] \<and> \<not> sn_AggregateCountersCorrupt s \<and>
    \<not> profile_inconsistent s \<and> (sn_ActiveGenerationID s = [] \<or> sn_ActiveGenerationValid s) \<and> \<not> 0 < sn_ErrorGenerations s \<and>
    (sn_ActiveGenerationID s = [] \<or> sn_L0ReadyCount s \<le> CatchUpL0Limit \<and>
      ratioAtMost (sn_ActiveTombstones s) (max (sn_ActiveIndexedCount s) 1) 2 100) \<and>
    \<not> 0 < sn_UnclassifiedErrors s \<and> \<not> 0 < sn_ErrorParents s \<and> \<not> 0 < sn_BlockedParents s \<and>
    ratioAtMost (sn_BlockedEmbeddings s) (sn_ChunkCount s) 1 1000 \<and>
    projectionComplete s \<and> embeddingsComplete s \<and> coverageReady s \<and> dec_State (evaluate_complete s) = StateReady"
  using incomplete_not_ready [of s]
  by (simp add: Evaluate_def not_less) (auto simp: readiness_state_defs)

lemma evaluate_searchable:
  "dec_Searchable (Evaluate s) \<longleftrightarrow> dec_State (Evaluate s) \<in> {StateReady, StateCatchingUp}"
proof -
  have "dec_Searchable (evaluate_complete s) \<longleftrightarrow> dec_State (evaluate_complete s) \<in> {StateReady, StateCatchingUp}"
    by (simp add: evaluate_complete_def Let_def readiness_state_defs)
  moreover have "dec_Searchable (evaluate_incomplete s) \<longleftrightarrow> dec_State (evaluate_incomplete s) \<in> {StateReady, StateCatchingUp}"
    by (simp add: evaluate_incomplete_def readiness_state_defs)
  ultimately show ?thesis by (simp add: Evaluate_def readiness_state_defs)
qed

lemma ready_arith:
  assumes "in_range s"
  shows "projectionComplete s \<and> embeddingsComplete s \<and> coverageReady s \<and>
      ratioAtMost (sn_BlockedEmbeddings s) (sn_ChunkCount s) 1 1000 \<longleftrightarrow> all_work_done s \<and> covered s"
    "ratioAtMost (sn_ActiveTombstones s) (max (sn_ActiveIndexedCount s) 1) 1 100 \<longleftrightarrow>
      100 * sn_ActiveTombstones s \<le> max (sn_ActiveIndexedCount s) 1"
    "ratioAtMost (sn_ActiveTombstones s) (max (sn_ActiveIndexedCount s) 1) 2 100 \<longleftrightarrow>
      100 * sn_ActiveTombstones s \<le> 2 * max (sn_ActiveIndexedCount s) 1"
proof -
  note r = assms [unfolded in_range_def, simplified]
  have add: "int64_add (sn_CurrentParents s) (sn_EmptyParents s) = sn_CurrentParents s + sn_EmptyParents s"
    "int64_add (sn_ReadyEmbeddings s) (sn_BlockedEmbeddings s) = sn_ReadyEmbeddings s + sn_BlockedEmbeddings s"
    using r by (simp_all add: int64_add_exact is_int64_def int64_min_def int64_max_def)
  have ratio: "ratioAtLeast (sn_ReadyEmbeddings s) (sn_ChunkCount s) 999 1000 \<longleftrightarrow>
      (if sn_ChunkCount s = 0 then sn_ReadyEmbeddings s = 0 else sn_ChunkCount s * 999 \<le> sn_ReadyEmbeddings s * 1000)"
    "ratioAtMost (sn_BlockedEmbeddings s) (sn_ChunkCount s) 1 1000 \<longleftrightarrow>
      (if sn_ChunkCount s = 0 then sn_BlockedEmbeddings s = 0 else sn_BlockedEmbeddings s * 1000 \<le> sn_ChunkCount s * 1)"
    "ratioAtLeast (sn_ParentsWithReadyChunk s) (sn_ChunkableParents s) 999 1000 \<longleftrightarrow>
      (if sn_ChunkableParents s = 0 then sn_ParentsWithReadyChunk s = 0
       else sn_ChunkableParents s * 999 \<le> sn_ParentsWithReadyChunk s * 1000)"
    using r by (simp_all add: ratio_exact)
  show "projectionComplete s \<and> embeddingsComplete s \<and> coverageReady s \<and>
      ratioAtMost (sn_BlockedEmbeddings s) (sn_ChunkCount s) 1 1000 \<longleftrightarrow> all_work_done s \<and> covered s"
    unfolding projectionComplete_def embeddingsComplete_def coverageReady_def all_work_done_def covered_def add ratio
    using r by auto
  show "ratioAtMost (sn_ActiveTombstones s) (max (sn_ActiveIndexedCount s) 1) 1 100 \<longleftrightarrow>
      100 * sn_ActiveTombstones s \<le> max (sn_ActiveIndexedCount s) 1"
    "ratioAtMost (sn_ActiveTombstones s) (max (sn_ActiveIndexedCount s) 1) 2 100 \<longleftrightarrow>
      100 * sn_ActiveTombstones s \<le> 2 * max (sn_ActiveIndexedCount s) 1"
    using r by (subst ratio_exact; auto)+
qed

text \<open>C11. Readiness is decided exactly: for every snapshot with counts in range, the state is ready if and only if the
  snapshot is healthy, all work is done, at most one embedding in a thousand is blocked, at least 999 of a thousand
  parents have a ready chunk, and a search is fast (few enough embeddings for an exact search without a generation,
  else a valid generation with bounded pending vectors and tombstones). The order of the tests and the 64 bit
  arithmetic never change that answer, and search is allowed exactly in the states ready and catching up.\<close>

theorem ready_iff_complete:
  assumes "in_range s"
  shows "(dec_State (Evaluate s) = StateReady \<longleftrightarrow> healthy s \<and> all_work_done s \<and> covered s \<and> searchable_fast s) \<and>
    (dec_Searchable (Evaluate s) \<longleftrightarrow> dec_State (Evaluate s) \<in> {StateReady, StateCatchingUp})"
proof -
  note r = assms [unfolded in_range_def, simplified]
  have work: "projectionComplete s \<and> embeddingsComplete s \<and> coverageReady s \<and>
      ratioAtMost (sn_BlockedEmbeddings s) (sn_ChunkCount s) 1 1000 \<longleftrightarrow> all_work_done s \<and> covered s"
    by (rule ready_arith(1) [OF assms])
  have fast: "dec_State (evaluate_complete s) = StateReady \<and> (sn_ActiveGenerationID s = [] \<or> sn_ActiveGenerationValid s) \<and>
      (sn_ActiveGenerationID s = [] \<or> sn_L0ReadyCount s \<le> CatchUpL0Limit \<and>
        ratioAtMost (sn_ActiveTombstones s) (max (sn_ActiveIndexedCount s) 1) 2 100) \<longleftrightarrow> searchable_fast s"
    unfolding complete_ready ready_arith(2,3) [OF assms] searchable_fast_def
    using r by (auto simp: ReadyL0Target_def CatchUpL0Limit_def)
  have sound: "all_work_done s \<Longrightarrow> sn_Configured s \<and> sn_Enabled s \<and> sn_Available s \<and> sn_PlanningError s = [] \<and>
      \<not> sn_AggregateCountersCorrupt s \<and> \<not> profile_inconsistent s \<and> \<not> 0 < sn_ErrorGenerations s \<and>
      \<not> 0 < sn_UnclassifiedErrors s \<and> \<not> 0 < sn_ErrorParents s \<and> \<not> 0 < sn_BlockedParents s \<longleftrightarrow> healthy s"
    using r by (auto simp: all_work_done_def healthy_def profile_inconsistent_def)
  show ?thesis
    using work fast sound evaluate_searchable [of s] unfolding evaluate_ready by blast
qed

section \<open>The estimate is exact\<close>

lemma runs_relabel:
  assumes "runs m r"
  shows "runs (relabel f m) (case r of Inl Canceled \<Rightarrow> Inl Canceled | Inl (Failed e) \<Rightarrow> Inl (Failed (f e)) | Inl Panicked \<Rightarrow> Inl Panicked | Inr x \<Rightarrow> Inr x)"
proof (rule runsI)
  fix c
  let ?r = "case r of Inl Canceled \<Rightarrow> Inl Canceled | Inl (Failed e) \<Rightarrow> Inl (Failed (f e)) | Inl Panicked \<Rightarrow> Inl Panicked | Inr x \<Rightarrow> Inr x"
  from runsD [OF assms] show "ctx_outcome ?r c (relabel f m c)"
  proof (cases rule: outcome_cases [of _ c "m c", consumes 1, case_names finished canceled])
    case (finished d)
    then have "relabel f m c = Some (?r, d)" by (auto simp: relabel_def split: sum.splits failure.splits)
    then show ?thesis using finished by (simp add: outcome_finished)
  next
    case (canceled d)
    then have "relabel f m c = Some (Inl Canceled, d)" by (simp add: relabel_def)
    then show ?thesis using canceled by (simp add: outcome_canceled)
  qed
qed

definition exact_occurrences :: "parent \<Rightarrow> int" where
  "exact_occurrences parent = (case PrepareStreamContext parent DefaultOptions 0 background of
     Some (Inr plan, _) \<Rightarrow> OccurrenceCount plan | _ \<Rightarrow> 0)"

definition plannable :: "parent \<Rightarrow> bool" where
  "plannable parent \<longleftrightarrow> (case PrepareStreamContext parent DefaultOptions 0 background of
     Some (Inr plan, _) \<Rightarrow> normalized_bytes parent \<le> V3MaximumExactPlanningInputUTF8Bytes | _ \<Rightarrow> False)"

definition dirty_size :: "dirty_parent \<Rightarrow> int" where
  "dirty_size d = max (exact_occurrences (dp_Parent d)) (dp_LastCurrentChunkCount d)"

lemma plannable_count:
  assumes "plannable parent" "0 \<le> limit"
  shows "0 \<le> exact_occurrences parent"
    "runs (CountOccurrencesCappedContext parent DefaultOptions limit) (Inr (min (exact_occurrences parent) (limit + 1)))"
proof -
  obtain plan c where plan: "PrepareStreamContext parent DefaultOptions 0 background = Some (Inr plan, c)"
    and small: "normalized_bytes parent \<le> V3MaximumExactPlanningInputUTF8Bytes"
    using assms(1) unfolding plannable_def by (auto split: option.splits prod.splits sum.splits)
  note facts = PrepareStreamContext_plan(1,2) [OF plan]
  have count: "exact_occurrences parent = int (occurrence_count parent DefaultOptions)"
    using plan facts(2) by (simp add: exact_occurrences_def)
  then show "0 \<le> exact_occurrences parent" by simp
  show "runs (CountOccurrencesCappedContext parent DefaultOptions limit) (Inr (min (exact_occurrences parent) (limit + 1)))"
    using runs_count [OF facts(1) assms(2)] small count by simp
qed

lemma dirty_size_nonneg: "plannable (dp_Parent d) \<Longrightarrow> 0 \<le> dirty_size d"
  using plannable_count(1) [of "dp_Parent d" 0] by (simp add: dirty_size_def)

lemma runs_estimate:
  assumes "list_all (\<lambda>d. plannable (dp_Parent d)) ds" "0 \<le> sofar" "sofar \<le> limit"
  shows "runs (estimate_rows limit sofar (map Inr ds)) (Inr (min (sofar + sum_list (map dirty_size ds)) (limit + 1)))"
  using assms
proof (induction ds arbitrary: sofar)
  case Nil
  then show ?case by (auto intro!: runs_then [OF runs_poll] simp: min_def intro: runs_ret)
next
  case (Cons d ds)
  let ?n = "exact_occurrences (dp_Parent d)"
  let ?remaining = "limit - sofar"
  have ok: "plannable (dp_Parent d)" "list_all (\<lambda>d. plannable (dp_Parent d)) ds" "0 \<le> ?remaining" using Cons.prems by simp_all
  have rest: "0 \<le> sum_list (map dirty_size ds)"
    using ok(2) by (intro sum_list_nonneg) (auto simp: list_all_iff dirty_size_nonneg)
  have count: "runs (relabel (PlanFailed (dp_Parent d)) (CountOccurrencesCappedContext (dp_Parent d) DefaultOptions ?remaining))
      (Inr (min ?n (?remaining + 1)))"
    using runs_relabel [OF plannable_count(2) [OF ok(1,3)], of "PlanFailed (dp_Parent d)"] by simp
  let ?count = "if min ?n (?remaining + 1) < dp_LastCurrentChunkCount d then dp_LastCurrentChunkCount d else min ?n (?remaining + 1)"
  have step: "runs (if ?remaining < ?count then ret (limit + 1) else estimate_rows limit (sofar + ?count) (map Inr ds))
      (Inr (min (sofar + sum_list (map dirty_size (d # ds))) (limit + 1)))"
  proof (cases "?remaining < ?count")
    case True
    then have "limit < sofar + dirty_size d" by (auto simp: dirty_size_def split: if_splits)
    then have "min (sofar + sum_list (map dirty_size (d # ds))) (limit + 1) = limit + 1" using rest by simp
    then show ?thesis using True by (simp add: runs_ret)
  next
    case False
    then have "?count = dirty_size d" by (auto simp: dirty_size_def min_def max_def split: if_splits)
    then show ?thesis
      using Cons.IH [OF ok(2), of "sofar + ?count"] False Cons.prems(2) dirty_size_nonneg [OF ok(1)]
      by (simp add: add.assoc)
  qed
  show ?case
    using runs_then [OF count, of "\<lambda>count. let count = (if count < dp_LastCurrentChunkCount d then dp_LastCurrentChunkCount d else count) in
        if ?remaining < count then ret (limit + 1) else estimate_rows limit (sofar + count) (map Inr ds)"] step ok(3)
    by (simp add: Let_def) (intro runs_then [OF runs_poll])
qed

text \<open>C12. The estimate of dirty parents is exact: for parents the exact planner accepts and a limit that is not
  negative, it is the sum, over the parents, of the larger of the planned and the last number of chunks, or one above
  the limit when the sum is larger, although each parent is planned only with what is left of the limit and
  the loop stops early.\<close>

theorem dirty_estimate_is_exact:
  assumes "list_all (\<lambda>d. plannable (dp_Parent d)) ds" "0 \<le> limit"
  shows "EstimateDirtyParents ds limit background = Some (Inr (min (sum_list (map dirty_size ds)) (limit + 1)), background)"
proof -
  have "runs (fail_if (limit < 0) NegativeReadinessLimit) (Inr ())" using assms(2) by (simp add: fail_if_def runs_ret)
  then have "runs (EstimateDirtyParents ds limit) (Inr (min (sum_list (map dirty_size ds)) (limit + 1)))"
    unfolding EstimateDirtyParents_def EstimateDirtyParentStream_def
    using runs_then runs_estimate [OF assms(1), of 0 limit] assms(2) by fastforce
  then show ?thesis by (rule runs_background)
qed

section \<open>Examples\<close>

definition ready_snapshot :: snapshot where
  "ready_snapshot = \<lparr>sn_Configured = True, sn_Enabled = True, sn_Available = True, sn_PlanningError = [],
     sn_AggregateCountersCorrupt = False, sn_ProfileID = [], sn_ProfileExists = True, sn_ProfileProvenanceValid = True,
     sn_ExpectedParents = 3, sn_CurrentParents = 2, sn_EmptyParents = 1, sn_PendingParents = 0, sn_BlockedParents = 0,
     sn_ErrorParents = 0, sn_DirtyParents = 0, sn_EstimatedNotReadyChunks = 0, sn_OldestDirtyAt = zero_time,
     sn_ChunkableParents = 2, sn_ParentsWithReadyChunk = 2, sn_ChunkCount = 5, sn_ReadyEmbeddings = 5,
     sn_PendingEmbeddings = 0, sn_BlockedEmbeddings = 0, sn_ErrorEmbeddings = 0, sn_DueRetries = 0, sn_ScheduledRetries = 0,
     sn_UnclassifiedErrors = 0, sn_CorruptEmbeddings = 0, sn_RevisionZeroEmbeddings = 0, sn_GlobalPurgeEpoch = 0,
     sn_ProfilePurgeEpoch = 0, sn_LatestRevision = 5, sn_ObservedLatestRevision = 5, sn_L0ReadyCount = 5,
     sn_ObservedL0ReadyCount = 5, sn_ActiveIndexedCount = 0, sn_ActiveTombstones = 0, sn_ActiveSegmentCount = 0, sn_ActiveGenerationID = [],
     sn_ActiveGenerationValid = False, sn_ActiveSnapshotRevision = 0, sn_ActiveGenerationBackend = [],
     sn_ActiveGenerationBackendVersion = [], sn_ActiveGenerationDistanceMetric = [], sn_ActiveGenerationDimensions = 0, sn_ActiveGenerationRootDescriptorSHA256 = [],
     sn_ActiveGenerationProblem = [], sn_BuildingGenerations = 0, sn_StaleGenerations = 0, sn_ErrorGenerations = 0,
     sn_ExactMaxChunks = 0, sn_Now = zero_time\<rparr>"

theorem ready_iff_complete_witness:
  "dec_State (Evaluate ready_snapshot) = StateReady \<and>
    dec_State (Evaluate (ready_snapshot\<lparr>sn_PendingEmbeddings := 1\<rparr>)) \<noteq> StateReady"
proof -
  have "in_range ready_snapshot" "in_range (ready_snapshot\<lparr>sn_PendingEmbeddings := 1\<rparr>)"
    by (simp_all add: in_range_def ready_snapshot_def)
  note ready_iff_complete [OF this(1)] ready_iff_complete [OF this(2)]
  then show ?thesis
    by (simp add: healthy_def all_work_done_def covered_def searchable_fast_def EffectiveExactMaxChunks_def
        DefaultExactMaxChunks_def ready_snapshot_def)
qed

theorem dirty_estimate_is_exact_witness:
  "EstimateDirtyParents [\<lparr>dp_Parent = example_parent, dp_LastCurrentChunkCount = 7\<rparr>] 5 background = Some (Inr 6, background)"
proof -
  have "plannable example_parent"
    by (simp add: plannable_def example_plan example_bytes V3MaximumExactPlanningInputUTF8Bytes_def)
  then show ?thesis
    using dirty_estimate_is_exact [of "[\<lparr>dp_Parent = example_parent, dp_LastCurrentChunkCount = 7\<rparr>]" 5]
    by (simp add: dirty_size_def min_def)
qed

end
