(* ===== verification/CompactionPlan.thy ===== *)
theory CompactionPlan
  imports GoStrings SemanticReadiness "HOL-Library.Multiset"
begin

text \<open>
  The planner of segment compaction (\<open>internal/semanticbuild/compaction_plan.go\<close>): one bounded
  maintenance action on the immutable segments of an index, or none. Besides what one plan promises, the
  theory shows that compaction settles: every plan that is carried out lowers a measure of the segments.
\<close>

section \<open>Plans\<close>

definition segmentCompactionMinimum :: int where "segmentCompactionMinimum = 5000"
definition segmentCompactionMaximum :: int where "segmentCompactionMaximum = 200000"

lemmas compaction_limits = segmentCompactionMinimum_def segmentCompactionMaximum_def

datatype compaction_class = ClassExactL0 | Class5K | Class10K | Class20K | Class40K | Class80K | ClassCapped | ClassInvalid

datatype compaction_kind = CompactionNone | CompactionSingleton | CompactionPair

record compaction_input =
  ci_SegmentHash :: string
  ci_CreatedOrder :: int
  ci_LiveCount :: int
  ci_TombstoneCount :: int

record compaction_output =
  co_LiveCount :: int
  co_Class :: compaction_class

record compaction_plan =
  cp_Kind :: compaction_kind
  cp_Inputs :: "compaction_input list"
  cp_Outputs :: "compaction_output list"

definition ClassifySegmentCompactionCount :: "int \<Rightarrow> compaction_class" where
  "ClassifySegmentCompactionCount live =
     (if live < segmentCompactionMinimum then ClassExactL0
      else if live < 10000 then Class5K
      else if live < 20000 then Class10K
      else if live < 40000 then Class20K
      else if live < 80000 then Class40K
      else if live < 160000 then Class80K
      else if live \<le> segmentCompactionMaximum then ClassCapped
      else ClassInvalid)"

datatype compaction_error = InvalidInput nat | DuplicateSegment string | DuplicateOrder int

text \<open>\<open>sort.Slice\<close> is not stable: inputs with one creation order may come in any order, and are refused.\<close>

fun check_inputs :: "string list \<Rightarrow> int option \<Rightarrow> nat \<Rightarrow> compaction_input list \<Rightarrow> compaction_error option" where
  "check_inputs seen before index [] = None"
| "check_inputs seen before index (input # inputs) =
     (if ci_SegmentHash input = [] \<or> ci_LiveCount input \<le> 0 \<or> segmentCompactionMaximum < ci_LiveCount input \<or>
         ci_TombstoneCount input < 0 then Some (InvalidInput index)
      else if ci_SegmentHash input \<in> set seen then Some (DuplicateSegment (ci_SegmentHash input))
      else if before = Some (ci_CreatedOrder input) then Some (DuplicateOrder (ci_CreatedOrder input))
      else check_inputs (ci_SegmentHash input # seen) (Some (ci_CreatedOrder input)) (Suc index) inputs)"

definition validateAndSortSegmentCompactionInputs :: "compaction_input list \<Rightarrow> compaction_error + compaction_input list" where
  "validateAndSortSegmentCompactionInputs inputs = (let sorted_inputs = sort_key ci_CreatedOrder inputs in
     case check_inputs [] None 0 sorted_inputs of Some e \<Rightarrow> Inl e | None \<Rightarrow> Inr sorted_inputs)"

definition tombstoneRatioOverOnePercent :: "compaction_input \<Rightarrow> bool" where
  "tombstoneRatioOverOnePercent input \<longleftrightarrow>
     int64_add (ci_LiveCount input) (ci_TombstoneCount input) < int64_mul (ci_TombstoneCount input) 100"

definition segmentCompactionOutputs :: "int \<Rightarrow> compaction_output list" where
  "segmentCompactionOutputs whole =
     (if segmentCompactionMaximum < whole then
        let capped = min segmentCompactionMaximum (whole - segmentCompactionMinimum)
        in [\<lparr>co_LiveCount = capped, co_Class = ClassCapped\<rparr>,
            \<lparr>co_LiveCount = whole - capped, co_Class = ClassifySegmentCompactionCount (whole - capped)\<rparr>]
      else [\<lparr>co_LiveCount = whole, co_Class = ClassifySegmentCompactionCount whole\<rparr>])"

definition segmentCompactionPlan :: "compaction_kind \<Rightarrow> compaction_input list \<Rightarrow> compaction_plan" where
  "segmentCompactionPlan kind inputs = \<lparr>cp_Kind = kind, cp_Inputs = inputs,
     cp_Outputs = segmentCompactionOutputs (sum_list (map ci_LiveCount inputs))\<rparr>"

text \<open>The map \<open>byClass\<close>: the inputs of a class, in their order.\<close>

definition byClass :: "compaction_input list \<Rightarrow> compaction_class \<Rightarrow> compaction_input list" where
  "byClass inputs cls = filter (\<lambda>i. ClassifySegmentCompactionCount (ci_LiveCount i) = cls) inputs"

definition first_pair :: "compaction_input list \<Rightarrow> compaction_plan" where
  "first_pair inputs =
     (case find (\<lambda>cls. 2 \<le> length (byClass inputs cls)) [Class5K, Class10K, Class20K, Class40K, Class80K] of
        Some cls \<Rightarrow> segmentCompactionPlan CompactionPair (take 2 (byClass inputs cls))
      | None \<Rightarrow> \<lparr>cp_Kind = CompactionNone, cp_Inputs = [], cp_Outputs = []\<rparr>)"

definition PlanSegmentCompaction :: "compaction_input list \<Rightarrow> compaction_error + compaction_plan" where
  "PlanSegmentCompaction inputs = (case validateAndSortSegmentCompactionInputs inputs of
     Inl e \<Rightarrow> Inl e
   | Inr sorted_inputs \<Rightarrow> (case find tombstoneRatioOverOnePercent sorted_inputs of
       Some input \<Rightarrow> Inr (segmentCompactionPlan CompactionSingleton [input])
     | None \<Rightarrow> Inr (first_pair sorted_inputs)))"

section \<open>What a plan promises\<close>

lemma check_inputs_ok:
  "check_inputs seen before index inputs = None \<Longrightarrow>
    list_all (\<lambda>i. ci_SegmentHash i \<noteq> [] \<and> 0 < ci_LiveCount i \<and> ci_LiveCount i \<le> segmentCompactionMaximum \<and>
      0 \<le> ci_TombstoneCount i \<and> ci_SegmentHash i \<notin> set seen) inputs \<and> distinct (map ci_SegmentHash inputs)"
  by (induction seen before index inputs rule: check_inputs.induct) (force simp: list_all_iff split: if_splits)+

definition sound_input :: "compaction_input \<Rightarrow> bool" where
  "sound_input i \<longleftrightarrow> 0 < ci_LiveCount i \<and> ci_LiveCount i \<le> segmentCompactionMaximum \<and> 0 \<le> ci_TombstoneCount i"

lemma sorted_inputs:
  assumes "validateAndSortSegmentCompactionInputs inputs = Inr xs"
  shows "xs = sort_key ci_CreatedOrder inputs" "mset xs = mset inputs" "list_all sound_input xs" "distinct xs"
    "distinct (map ci_SegmentHash xs)"
proof -
  show xs: "xs = sort_key ci_CreatedOrder inputs"
    using assms by (auto simp: validateAndSortSegmentCompactionInputs_def Let_def split: option.splits)
  then show "mset xs = mset inputs" by simp
  have "check_inputs [] None 0 xs = None"
    using assms xs by (auto simp: validateAndSortSegmentCompactionInputs_def Let_def split: option.splits)
  note ok = check_inputs_ok [OF this]
  then show "list_all sound_input xs" by (simp add: sound_input_def list_all_iff)
  show "distinct (map ci_SegmentHash xs)" using ok by simp
  then show "distinct xs" by (simp add: distinct_map)
qed

text \<open>A segment that is rewritten or merged: it is heavy with tombstones, or not at the largest class.\<close>

definition open_class :: "int \<Rightarrow> bool" where
  "open_class live \<longleftrightarrow> ClassifySegmentCompactionCount live \<noteq> ClassCapped"

definition segment_debt :: "compaction_input \<Rightarrow> nat" where
  "segment_debt i = (if tombstoneRatioOverOnePercent i then 1 else 0) + (if open_class (ci_LiveCount i) then 1 else 0)"

definition compaction_debt :: "compaction_input multiset \<Rightarrow> nat" where
  "compaction_debt segments = sum_mset (image_mset segment_debt segments)"

text \<open>\<open>fresh\<close> are segments written for the outputs of a plan: with their live counts and no tombstones; what is
  too small for a segment goes back to the exact part of the index.\<close>

definition written_for :: "compaction_output list \<Rightarrow> compaction_input multiset \<Rightarrow> bool" where
  "written_for outputs fresh \<longleftrightarrow>
     image_mset (\<lambda>i. (ci_LiveCount i, ci_TombstoneCount i)) fresh =
     mset (map (\<lambda>out. (co_LiveCount out, 0)) (filter (\<lambda>out. co_Class out \<noteq> ClassExactL0) outputs))"

definition output_debt :: "compaction_output list \<Rightarrow> nat" where
  "output_debt outputs = sum_list (map (\<lambda>out. if open_class (co_LiveCount out) then 1 else 0)
     (filter (\<lambda>out. co_Class out \<noteq> ClassExactL0) outputs))"

definition pair_debt :: "int \<times> int \<Rightarrow> nat" where
  "pair_debt p = (if int64_add (fst p) (snd p) < int64_mul (snd p) 100 then 1 else 0) + (if open_class (fst p) then 1 else 0)"

lemma segment_debt_pair: "segment_debt i = pair_debt (ci_LiveCount i, ci_TombstoneCount i)"
  by (simp add: segment_debt_def pair_debt_def tombstoneRatioOverOnePercent_def)

lemma fresh_debt:
  assumes "written_for outputs fresh" "list_all (\<lambda>out. 0 \<le> co_LiveCount out \<and> co_LiveCount out \<le> 2 ^ 50) outputs"
  shows "compaction_debt fresh = output_debt outputs"
proof -
  have "compaction_debt fresh = sum_mset (image_mset pair_debt (image_mset (\<lambda>i. (ci_LiveCount i, ci_TombstoneCount i)) fresh))"
  proof -
    have "segment_debt = (\<lambda>i. pair_debt (ci_LiveCount i, ci_TombstoneCount i))" by (simp add: fun_eq_iff segment_debt_pair)
    then show ?thesis by (simp add: compaction_debt_def multiset.map_comp comp_def)
  qed
  also have "\<dots> = sum_list (map (\<lambda>out. pair_debt (co_LiveCount out, 0)) (filter (\<lambda>out. co_Class out \<noteq> ClassExactL0) outputs))"
    using assms(1) by (simp add: written_for_def multiset.map_comp comp_def flip: sum_mset_sum_list)
  also have "\<dots> = output_debt outputs"
    unfolding output_debt_def
  proof (intro arg_cong [where f = sum_list] map_cong refl)
    fix out assume "out \<in> set (filter (\<lambda>out. co_Class out \<noteq> ClassExactL0) outputs)"
    then have "0 \<le> co_LiveCount out" "co_LiveCount out \<le> 2 ^ 50" using assms(2) by (auto simp: list_all_iff)
    then have "int64_add (co_LiveCount out) 0 = co_LiveCount out"
      by (simp add: int64_add_exact is_int64_def int64_min_def int64_max_def)
    moreover have "int64_mul 0 100 = 0" by (simp add: int64_mul_def)
    ultimately show "pair_debt (co_LiveCount out, 0) = (if open_class (co_LiveCount out) then 1 else 0)"
      using \<open>0 \<le> co_LiveCount out\<close> by (simp add: pair_debt_def)
  qed
  finally show ?thesis .
qed

text \<open>The outputs: the whole live count, in one segment or in two when one would be too large.\<close>

lemma outputs_sound:
  assumes "0 < whole" "whole \<le> 2 * segmentCompactionMaximum"
  shows "sum_list (map co_LiveCount (segmentCompactionOutputs whole)) = whole"
    "list_all (\<lambda>out. 0 < co_LiveCount out \<and> co_LiveCount out \<le> segmentCompactionMaximum \<and>
       co_Class out = ClassifySegmentCompactionCount (co_LiveCount out)) (segmentCompactionOutputs whole)"
    "segmentCompactionMinimum \<le> whole \<Longrightarrow>
      list_all (\<lambda>out. segmentCompactionMinimum \<le> co_LiveCount out) (segmentCompactionOutputs whole)"
  using assms
  by (auto simp: segmentCompactionOutputs_def ClassifySegmentCompactionCount_def compaction_limits Let_def min_def)

lemma outputs_debt:
  assumes "0 < whole" "whole \<le> 2 * segmentCompactionMaximum"
  shows "output_debt (segmentCompactionOutputs whole) \<le> (if open_class whole then 1 else 0)"
  using assms
  by (auto simp: output_debt_def segmentCompactionOutputs_def open_class_def ClassifySegmentCompactionCount_def compaction_limits
      Let_def min_def)

lemma pair_inputs:
  assumes "first_pair xs = plan" "cp_Kind plan \<noteq> CompactionNone" "list_all sound_input xs"
  obtains a b where "cp_Inputs plan = [a, b]" "mset [a, b] \<subseteq># mset xs" "sound_input a" "sound_input b"
    "cp_Kind plan = CompactionPair" "cp_Outputs plan = segmentCompactionOutputs (ci_LiveCount a + ci_LiveCount b)"
    "ClassifySegmentCompactionCount (ci_LiveCount a) = ClassifySegmentCompactionCount (ci_LiveCount b)"
    "ClassifySegmentCompactionCount (ci_LiveCount a) \<in> {Class5K, Class10K, Class20K, Class40K, Class80K}"
proof -
  obtain cls where cls: "find (\<lambda>cls. 2 \<le> length (byClass xs cls)) [Class5K, Class10K, Class20K, Class40K, Class80K] = Some cls"
    using assms(1,2) by (auto simp: first_pair_def split: option.splits)
  then have c: "cls \<in> {Class5K, Class10K, Class20K, Class40K, Class80K}" "2 \<le> length (byClass xs cls)"
    by (auto split: if_splits)
  then obtain a b rest where ab: "byClass xs cls = a # b # rest"
    by (cases "byClass xs cls"; cases "tl (byClass xs cls)") auto
  have plan: "plan = segmentCompactionPlan CompactionPair [a, b]"
    using assms(1) cls ab by (simp add: first_pair_def)
  have "{a, b} \<subseteq> set (byClass xs cls)" using ab by simp
  then have s: "a \<in> set xs" "b \<in> set xs" "ClassifySegmentCompactionCount (ci_LiveCount a) = cls"
    "ClassifySegmentCompactionCount (ci_LiveCount b) = cls"
    by (auto simp: byClass_def)
  have "mset [a, b] \<subseteq># mset (byClass xs cls)" unfolding ab by simp
  also have "\<dots> \<subseteq># mset xs" by (simp add: byClass_def mset_filter)
  finally have "mset [a, b] \<subseteq># mset xs" .
  then show thesis
    using that [of a b] plan s c assms(3) by (simp add: segmentCompactionPlan_def list_all_iff)
qed

lemma pair_debt_pos:
  "sound_input i \<Longrightarrow> ClassifySegmentCompactionCount (ci_LiveCount i) \<in> {Class5K, Class10K, Class20K, Class40K, Class80K} \<Longrightarrow>
    1 \<le> segment_debt i"
  by (auto simp: segment_debt_def open_class_def)

lemma class_minimum:
  "ClassifySegmentCompactionCount n \<in> {Class5K, Class10K, Class20K, Class40K, Class80K} \<Longrightarrow> segmentCompactionMinimum \<le> n"
  by (auto simp: ClassifySegmentCompactionCount_def split: if_splits)

lemma replaced_debt:
  assumes "mset removed \<subseteq># segments" "compaction_debt fresh < compaction_debt (mset removed)"
  shows "compaction_debt (segments - mset removed + fresh) < compaction_debt segments"
proof -
  obtain rest where "segments = mset removed + rest" using assms(1) by (auto simp: mset_subset_eq_exists_conv)
  then show ?thesis using assms(2) by (simp add: compaction_debt_def)
qed

lemma plan_cases:
  assumes "PlanSegmentCompaction inputs = Inr plan" "cp_Kind plan \<noteq> CompactionNone"
  obtains (singleton) i where "cp_Kind plan = CompactionSingleton" "cp_Inputs plan = [i]" "i \<in># mset inputs" "sound_input i"
      "tombstoneRatioOverOnePercent i" "cp_Outputs plan = segmentCompactionOutputs (ci_LiveCount i)"
  | (pair) a b where "cp_Kind plan = CompactionPair" "cp_Inputs plan = [a, b]" "mset [a, b] \<subseteq># mset inputs"
      "sound_input a" "sound_input b" "cp_Outputs plan = segmentCompactionOutputs (ci_LiveCount a + ci_LiveCount b)"
      "ClassifySegmentCompactionCount (ci_LiveCount a) = ClassifySegmentCompactionCount (ci_LiveCount b)"
      "ClassifySegmentCompactionCount (ci_LiveCount a) \<in> {Class5K, Class10K, Class20K, Class40K, Class80K}"
proof -
  obtain xs where xs: "validateAndSortSegmentCompactionInputs inputs = Inr xs"
    using assms(1) by (auto simp: PlanSegmentCompaction_def split: sum.splits)
  note x = sorted_inputs [OF xs]
  show thesis
  proof (cases "find tombstoneRatioOverOnePercent xs")
    case (Some i)
    then have "i \<in> set xs" "tombstoneRatioOverOnePercent i" by (auto simp: find_Some_iff in_set_conv_nth)
    moreover from this(1) have "i \<in># mset inputs" "sound_input i"
      using x(2,3) by (auto simp: list_all_iff dest: mset_eq_setD)
    moreover have "plan = segmentCompactionPlan CompactionSingleton [i]"
      using assms(1) xs Some by (simp add: PlanSegmentCompaction_def)
    ultimately show thesis using singleton [of i] by (simp add: segmentCompactionPlan_def)
  next
    case None
    then have "first_pair xs = plan" using assms(1) xs by (simp add: PlanSegmentCompaction_def)
    from pair_inputs [OF this assms(2) x(3)] show thesis using pair x(2) by metis
  qed
qed

text \<open>C14. Compaction settles: a plan that is not empty takes one segment in which more than one percent is tombstones,
  or two of one class; it keeps their live count, in one segment or in two of at most 200000, and a
  merge never writes a segment below 5000; and whatever new segments are written for its outputs, fewer segments are left to
  rewrite or to merge than before, so that after at most that many rounds the plan is empty.\<close>

theorem compaction_settles:
  assumes "PlanSegmentCompaction inputs = Inr plan" "cp_Kind plan \<noteq> CompactionNone" "written_for (cp_Outputs plan) fresh"
  shows "mset (cp_Inputs plan) \<subseteq># mset inputs \<and>
    sum_list (map co_LiveCount (cp_Outputs plan)) = sum_list (map ci_LiveCount (cp_Inputs plan)) \<and>
    list_all (\<lambda>out. 0 < co_LiveCount out \<and> co_LiveCount out \<le> 200000 \<and>
      (cp_Kind plan = CompactionPair \<longrightarrow> 5000 \<le> co_LiveCount out)) (cp_Outputs plan) \<and>
    compaction_debt (mset inputs - mset (cp_Inputs plan) + fresh) < compaction_debt (mset inputs)"
  using assms(1,2)
proof (cases rule: plan_cases)
  case (singleton i)
  have range: "0 < ci_LiveCount i" "ci_LiveCount i \<le> 2 * segmentCompactionMaximum"
    using singleton(4) by (auto simp: sound_input_def compaction_limits)
  note out = outputs_sound [OF range]
  have "list_all (\<lambda>out. 0 \<le> co_LiveCount out \<and> co_LiveCount out \<le> 2 ^ 50) (cp_Outputs plan)"
    using out(2) singleton(6) by (auto simp: list_all_iff compaction_limits)
  then have "compaction_debt fresh \<le> (if open_class (ci_LiveCount i) then 1 else 0)"
    using fresh_debt [OF assms(3)] outputs_debt [OF range] singleton(6) by simp
  also have "\<dots> < segment_debt i" using singleton(5) by (simp add: segment_debt_def)
  finally have "compaction_debt fresh < compaction_debt (mset [i])" by (simp add: compaction_debt_def)
  from replaced_debt [OF _ this] show ?thesis
    using singleton out by (auto simp: list_all_iff compaction_limits)
next
  case (pair a b)
  have range: "0 < ci_LiveCount a + ci_LiveCount b" "ci_LiveCount a + ci_LiveCount b \<le> 2 * segmentCompactionMaximum"
    using pair(4,5) by (auto simp: sound_input_def compaction_limits)
  have large: "segmentCompactionMinimum \<le> ci_LiveCount a + ci_LiveCount b"
    using class_minimum [OF pair(8)] pair(5) by (simp add: sound_input_def)
  note out = outputs_sound [OF range]
  have "list_all (\<lambda>out. 0 \<le> co_LiveCount out \<and> co_LiveCount out \<le> 2 ^ 50) (cp_Outputs plan)"
    using out(2) pair(6) by (auto simp: list_all_iff compaction_limits)
  then have "compaction_debt fresh \<le> 1"
    using fresh_debt [OF assms(3)] outputs_debt [OF range] pair(6) by (simp split: if_splits)
  also have "1 < segment_debt a + segment_debt b"
    using pair_debt_pos [OF pair(4,8)] pair_debt_pos [OF pair(5)] pair(7,8) by simp
  finally have "compaction_debt fresh < compaction_debt (mset [a, b])" by (simp add: compaction_debt_def)
  from replaced_debt [OF pair(3) this] show ?thesis
    using pair out(1,2) out(3) [OF large] by (auto simp: list_all_iff compaction_limits)
qed

definition example_segments :: "compaction_input list" where
  "example_segments = [\<lparr>ci_SegmentHash = ''b'', ci_CreatedOrder = 2, ci_LiveCount = 6000, ci_TombstoneCount = 10\<rparr>,
     \<lparr>ci_SegmentHash = ''a'', ci_CreatedOrder = 1, ci_LiveCount = 5000, ci_TombstoneCount = 0\<rparr>]"

theorem compaction_settles_witness:
  "compaction_debt {# \<lparr>ci_SegmentHash = ''c'', ci_CreatedOrder = 3, ci_LiveCount = 11000, ci_TombstoneCount = 0\<rparr> #} <
    compaction_debt (mset example_segments)"
proof -
  let ?a = "\<lparr>ci_SegmentHash = ''a'', ci_CreatedOrder = 1, ci_LiveCount = 5000, ci_TombstoneCount = 0\<rparr>"
  let ?b = "\<lparr>ci_SegmentHash = ''b'', ci_CreatedOrder = 2, ci_LiveCount = 6000, ci_TombstoneCount = 10\<rparr>"
  let ?c = "\<lparr>ci_SegmentHash = ''c'', ci_CreatedOrder = 3, ci_LiveCount = 11000, ci_TombstoneCount = 0\<rparr>"
  let ?plan = "segmentCompactionPlan CompactionPair [?a, ?b]"
  have "PlanSegmentCompaction example_segments = Inr ?plan"
    by (simp add: example_segments_def PlanSegmentCompaction_def validateAndSortSegmentCompactionInputs_def compaction_limits
        tombstoneRatioOverOnePercent_def int64_add_def int64_mul_def first_pair_def byClass_def ClassifySegmentCompactionCount_def Let_def)
  moreover have "written_for (cp_Outputs ?plan) {# ?c #}" "cp_Kind ?plan \<noteq> CompactionNone" "cp_Inputs ?plan = [?a, ?b]"
    by (simp_all add: written_for_def segmentCompactionPlan_def segmentCompactionOutputs_def compaction_limits
        ClassifySegmentCompactionCount_def)
  ultimately show ?thesis
    using compaction_settles [of example_segments ?plan "{# ?c #}"] by (simp add: example_segments_def)
qed

end
