(* ===== verification/WriterIntent.thy ===== *)
theory WriterIntent
  imports LocalGate TextOrder GoStrings
begin

text \<open>
  The lock between processes (\<open>internal/runlock/intent.go\<close>, \<open>lock.go\<close>). A lock file carries a
  kernel lock (\<open>flock\<close>), shared or exclusive. Writers announce themselves with a ticket file, which
  they keep locked from before they ask for the lock until after they have given it back; tickets
  are numbered from a counter in the coordinator file, and who looks at the tickets or makes one
  holds the coordinator's lock. A reader enters when it sees no locked ticket, a writer when its own
  ticket is the first.

  A client is one call of \<open>AcquireContext\<close> or \<open>Acquire\<close> with the lock it returned. Between two
  calls of the kernel any other client may run: \<open>advance\<close> is what a client does up to and with its
  next call, \<open>lock_step\<close> interleaves the clients and lets any of them fail, be cancelled, or die. The kernel
  gives back the locks of a client that dies and leaves its ticket file. The process-local gate,
  modelled in \<open>LocalGate\<close>, is an input of a step: it admits the client or it does not. Names of files are those in the
  directory of the lock file; \<open>base\<close> is that of the lock file.
\<close>

section \<open>Files\<close>

type_synonym client = nat

record lock_files =
  coordinator :: "client option"
  coordinator_text :: string
  directory :: "(string, client option) gomap"
  readers :: "client list"
  writer :: "client option"

definition acquireCoordinator :: "client \<Rightarrow> lock_files \<Rightarrow> lock_files option" where
  "acquireCoordinator c fs = (if coordinator fs = None then Some (fs\<lparr>coordinator := Some c\<rparr>) else None)"

definition close_coordinator :: "client \<Rightarrow> lock_files \<Rightarrow> lock_files" where
  "close_coordinator c fs = (if coordinator fs = Some c then fs\<lparr>coordinator := None\<rparr> else fs)"

text \<open>\<open>tryAcquireFileLock\<close> on the lock file; \<open>None\<close> is \<open>ErrAlreadyLocked\<close>.\<close>

definition tryAcquireFileLock :: "client \<Rightarrow> mode \<Rightarrow> lock_files \<Rightarrow> lock_files option" where
  "tryAcquireFileLock c m fs =
     (case m of
        Shared \<Rightarrow> if writer fs = None then Some (fs\<lparr>readers := c # readers fs\<rparr>) else None
      | Exclusive \<Rightarrow> if writer fs = None \<and> readers fs = [] then Some (fs\<lparr>writer := Some c\<rparr>) else None)"

definition close_file :: "client \<Rightarrow> lock_files \<Rightarrow> lock_files" where
  "close_file c fs = fs\<lparr>readers := removeAll c (readers fs), writer := (if writer fs = Some c then None else writer fs)\<rparr>"

text \<open>The lock of a ticket; the file stays.\<close>

definition releaseTicket :: "client \<Rightarrow> lock_files \<Rightarrow> lock_files" where
  "releaseTicket c fs = fs\<lparr>directory := map (\<lambda>(name, holder). (name, if holder = Some c then None else holder)) (directory fs)\<rparr>"

definition locked_by :: "lock_files \<Rightarrow> string \<Rightarrow> client option" where
  "locked_by fs name = Option.bind (gm_get (directory fs) name) id"

section \<open>Tickets\<close>

definition writerTicketDigits :: nat where "writerTicketDigits = 20"

definition max_uint64 :: int where "max_uint64 = 2 ^ 64 - 1"

definition ParseUint :: "string \<Rightarrow> int option" where
  "ParseUint s = (if s = [] then None else
     case parse_digits (length s) 0 s of
       Some (n, _) \<Rightarrow> if n \<le> max_uint64 then Some n else None
     | None \<Rightarrow> None)"

definition writerTicketPath :: "string \<Rightarrow> int \<Rightarrow> string" where
  "writerTicketPath base n = base @ ''.writer-'' @ dec_pad writerTicketDigits n @ ''.intent''"

definition hasSuffix :: "string \<Rightarrow> string \<Rightarrow> bool" where
  "hasSuffix s p = hasPrefix (rev s) (rev p)"

definition trimSuffix :: "string \<Rightarrow> string \<Rightarrow> string" where
  "trimSuffix s p = (if hasSuffix s p then take (length s - length p) s else s)"

text \<open>The number of a ticket file; \<open>None\<close> for any other file of the directory.\<close>

definition intent_sequence :: "string \<Rightarrow> string \<Rightarrow> int option" where
  "intent_sequence base name =
     (if \<not> hasPrefix name (base @ ''.writer-'') \<or> \<not> hasSuffix name ''.intent'' then None
      else let raw = trimSuffix (drop (length (base @ ''.writer-'')) name) ''.intent''
        in if length raw \<noteq> writerTicketDigits then None else ParseUint raw)"

type_synonym live_intent = "string \<times> int"

text \<open>The body of the loop of \<open>cleanWriterIntents\<close>: the caller's own ticket and those somebody holds
  are live, others are removed.\<close>

definition clean_entry :: "string \<Rightarrow> string option \<Rightarrow> string \<Rightarrow> lock_files \<times> live_intent list \<Rightarrow> lock_files \<times> live_intent list" where
  "clean_entry base own name = (\<lambda>(fs, live).
     (case intent_sequence base name of
        None \<Rightarrow> (fs, live)
      | Some n \<Rightarrow>
          if own = Some name \<or> locked_by fs name \<noteq> None then (fs, live @ [(name, n)])
          else (fs\<lparr>directory := gm_del name (directory fs)\<rparr>, live)))"

definition sorted_intents :: "live_intent list \<Rightarrow> live_intent list" where
  "sorted_intents live = sort_key snd live"

text \<open>The next number: above the counter and above every live ticket. A counter that does not parse,
  as one left empty by a crash between truncating and writing, counts as zero.\<close>

definition next_sequence :: "string \<Rightarrow> live_intent list \<Rightarrow> int option" where
  "next_sequence raw live =
     (let start = (case ParseUint (trimSpace (take 4096 raw)) of Some n \<Rightarrow> n | None \<Rightarrow> 0);
          n = foldl (\<lambda>n i. if n < snd i then snd i else n) start live
      in if n = max_uint64 then None else Some (n + 1))"

section \<open>Clients\<close>

datatype purpose = ForReader | ForTicket | ForWriter string | ForCleanup

datatype pc =
    Outside
  | Wants purpose
  | Scans purpose "string list" "live_intent list"
  | Enters mode "string option"
  | Rescans "string list" "live_intent list"
  | Publishes int
  | Creates int
  | Announces string
  | Settles string
  | Held mode "string option"
  | Releases string

record lock_system =
  files :: lock_files
  pcs :: "client \<Rightarrow> pc"

definition own_ticket :: "purpose \<Rightarrow> string option" where
  "own_ticket p = (case p of ForWriter t \<Rightarrow> Some t | _ \<Rightarrow> None)"

text \<open>What follows the scan: a reader goes on when nothing is live, a writer when its ticket is the
  first; a new ticket gets its number and the counter is truncated.\<close>

definition after_scan :: "client \<Rightarrow> purpose \<Rightarrow> live_intent list \<Rightarrow> lock_files \<Rightarrow> lock_files \<times> pc" where
  "after_scan c p live fs =
     (case p of
        ForReader \<Rightarrow> if live \<noteq> [] then (close_coordinator c fs, Wants ForReader) else (fs, Enters Shared None)
      | ForWriter t \<Rightarrow>
          if live = [] \<or> fst (hd (sorted_intents live)) \<noteq> t then (close_coordinator c fs, Wants (ForWriter t))
          else (fs, Enters Exclusive (Some t))
      | ForTicket \<Rightarrow>
          (case next_sequence (coordinator_text fs) live of
             None \<Rightarrow> (close_coordinator c fs, Outside)
           | Some n \<Rightarrow> (fs\<lparr>coordinator_text := ''''\<rparr>, Publishes n))
      | ForCleanup \<Rightarrow> (close_coordinator c fs, Outside))"

text \<open>\<open>tryAcquireProcessGate\<close> and \<open>tryAcquireFileLock\<close>; on failure the caller waits and tries again.\<close>

definition enter :: "client \<Rightarrow> mode \<Rightarrow> string option \<Rightarrow> bool \<Rightarrow> lock_files \<Rightarrow> lock_files \<times> pc" where
  "enter c m t admitted fs =
     (case (if admitted then tryAcquireFileLock c m fs else None) of
        Some fs' \<Rightarrow> (fs', case t of None \<Rightarrow> Rescans (map fst (directory fs')) [] | Some t \<Rightarrow> Settles t)
      | None \<Rightarrow> (close_coordinator c fs, Wants (case t of None \<Rightarrow> ForReader | Some t \<Rightarrow> ForWriter t)))"

text \<open>The ticket file is created and locked; a lock somebody holds is waited for.\<close>

definition create_ticket :: "string \<Rightarrow> client \<Rightarrow> int \<Rightarrow> lock_files \<Rightarrow> (lock_files \<times> pc) option" where
  "create_ticket base c n fs = (let t = writerTicketPath base n in
     if locked_by fs t \<noteq> None then None
     else Some (fs\<lparr>directory := gm_put t (Some c) (directory fs)\<rparr>, Announces t))"

definition after_rescan :: "client \<Rightarrow> live_intent list \<Rightarrow> lock_files \<Rightarrow> lock_files \<times> pc" where
  "after_rescan c live fs =
     (if live \<noteq> [] then (close_coordinator c (close_file c fs), Wants ForReader)
      else (close_coordinator c fs, Held Shared None))"

definition advance_pc :: "string \<Rightarrow> bool \<Rightarrow> client \<Rightarrow> pc \<Rightarrow> lock_files \<Rightarrow> (lock_files \<times> pc) option" where
  "advance_pc base admitted c pc fs =
     (case pc of
        Outside \<Rightarrow> None
      | Wants p \<Rightarrow> map_option (\<lambda>fs'. (fs', Scans p (map fst (directory fs')) [])) (acquireCoordinator c fs)
      | Scans p (name # names) live \<Rightarrow>
          Some (case clean_entry base (own_ticket p) name (fs, live) of (fs', live') \<Rightarrow> (fs', Scans p names live'))
      | Scans p [] live \<Rightarrow> Some (after_scan c p live fs)
      | Enters m t \<Rightarrow> Some (enter c m t admitted fs)
      | Rescans (name # names) live \<Rightarrow>
          Some (case clean_entry base None name (fs, live) of (fs', live') \<Rightarrow> (fs', Rescans names live'))
      | Rescans [] live \<Rightarrow> Some (after_rescan c live fs)
      | Publishes n \<Rightarrow> Some (fs\<lparr>coordinator_text := dec_digits n @ ''\<newline>''\<rparr>, Creates n)
      | Creates n \<Rightarrow> create_ticket base c n fs
      | Announces t \<Rightarrow> Some (close_coordinator c fs, Wants (ForWriter t))
      | Settles t \<Rightarrow> Some (close_coordinator c fs, Held Exclusive (Some t))
      | Held m None \<Rightarrow> Some (close_file c fs, Outside)
      | Held m (Some t) \<Rightarrow> Some (close_file c fs, Releases t)
      | Releases t \<Rightarrow> Some (releaseTicket c fs, Wants ForCleanup))"

definition advance :: "string \<Rightarrow> bool \<Rightarrow> client \<Rightarrow> lock_system \<Rightarrow> lock_system option" where
  "advance base admitted c s =
     map_option (\<lambda>(fs, pc). \<lparr>files = fs, pcs = (pcs s)(c := pc)\<rparr>) (advance_pc base admitted c (pcs s c) (files s))"

text \<open>\<open>Acquire\<close> of \<open>lock.go\<close> takes the exclusive lock at once, without a ticket, or fails.\<close>

definition Acquire_direct :: "client \<Rightarrow> lock_system \<Rightarrow> lock_system option" where
  "Acquire_direct c s = map_option (\<lambda>fs. \<lparr>files = fs, pcs = (pcs s)(c := Held Exclusive None)\<rparr>)
     (tryAcquireFileLock c Exclusive (files s))"

text \<open>A call that fails or is cancelled closes what it holds, the ticket last: a writer with a ticket
  releases it next, and its clean-up may be cut short. While the ticket is still being written it is closed at
  once and not cleaned up.\<close>

definition give_up :: "client \<Rightarrow> lock_system \<Rightarrow> lock_system" where
  "give_up c s = \<lparr>files = close_coordinator c (close_file c
       (case pcs s c of Announces t \<Rightarrow> releaseTicket c (files s) | _ \<Rightarrow> files s)),
     pcs = (pcs s)(c := (case pcs s c of
       Wants (ForWriter t) \<Rightarrow> Releases t | Scans (ForWriter t) _ _ \<Rightarrow> Releases t
     | Enters m (Some t) \<Rightarrow> Releases t | Settles t \<Rightarrow> Releases t
     | _ \<Rightarrow> Outside))\<rparr>"

definition crash :: "client \<Rightarrow> lock_system \<Rightarrow> lock_system" where
  "crash c s = \<lparr>files = releaseTicket c (close_coordinator c (close_file c (files s))), pcs = (pcs s)(c := Outside)\<rparr>"

inductive lock_step :: "string \<Rightarrow> lock_system \<Rightarrow> lock_system \<Rightarrow> bool" for base where
  call: "pcs s c = Outside \<Longrightarrow> p \<in> {ForReader, ForTicket} \<Longrightarrow> lock_step base s (s\<lparr>pcs := (pcs s)(c := Wants p)\<rparr>)"
| direct: "pcs s c = Outside \<Longrightarrow> Acquire_direct c s = Some s' \<Longrightarrow> lock_step base s s'"
| advance: "advance base admitted c s = Some s' \<Longrightarrow> lock_step base s s'"
| give_up: "(\<forall>m t. pcs s c \<noteq> Held m t) \<Longrightarrow> (\<forall>t. pcs s c \<noteq> Releases t) \<Longrightarrow> lock_step base s (give_up c s)"
| torn_write: "pcs s c = Publishes n \<Longrightarrow>
     lock_step base s (give_up c (s\<lparr>files := (files s)\<lparr>coordinator_text := take k (dec_digits n @ ''\<newline>'')\<rparr>\<rparr>))"
| crash: "lock_step base s (crash c s)"

text \<open>At first nobody holds anything; the directory and the counter may hold anything.\<close>

definition lock_start :: "(string, client option) gomap \<Rightarrow> string \<Rightarrow> lock_system" where
  "lock_start dir counter = \<lparr>files = \<lparr>coordinator = None, coordinator_text = counter,
     directory = map (\<lambda>(name, _). (name, None)) dir, readers = [], writer = None\<rparr>, pcs = (\<lambda>_. Outside)\<rparr>"


section \<open>Names of tickets\<close>

lemma ParseUint_pad: "0 \<le> n \<Longrightarrow> n \<le> max_uint64 \<Longrightarrow> ParseUint (dec_pad writerTicketDigits n) = Some n"
proof -
  assume n: "0 \<le> n" "n \<le> max_uint64"
  then have len: "length (dec_pad 20 n) = Suc 19" using length_dec_pad [of 20 n] by (simp add: max_uint64_def)
  have "parse_digits (Suc 19) 0 (dec_pad (Suc 19) n) = Some (n, [])"
    by (rule parse_digits_pad) (use n in \<open>simp_all add: max_uint64_def\<close>)
  then show ?thesis using n len by (auto simp: ParseUint_def writerTicketDigits_def)
qed

lemma hasSuffix_append: "hasSuffix (s @ p) p"
  by (simp add: hasSuffix_def)

lemma intent_sequence_path:
  assumes "0 \<le> n" "n \<le> max_uint64"
  shows "intent_sequence base (writerTicketPath base n) = Some n"
proof -
  let ?w = "''.writer-''" and ?i = "''.intent''"
  have len: "length (dec_pad writerTicketDigits n) = writerTicketDigits"
    using length_dec_pad [of 20 n] assms by (simp add: writerTicketDigits_def max_uint64_def)
  have name: "writerTicketPath base n = (base @ ?w) @ (dec_pad writerTicketDigits n @ ?i)"
    by (simp add: writerTicketPath_def)
  have "hasSuffix (writerTicketPath base n) ?i"
    using hasSuffix_append [of "base @ ?w @ dec_pad writerTicketDigits n" ?i] by (simp add: writerTicketPath_def)
  moreover have "trimSuffix (dec_pad writerTicketDigits n @ ?i) ?i = dec_pad writerTicketDigits n"
    using hasSuffix_append [of "dec_pad writerTicketDigits n" ?i] by (simp add: trimSuffix_def)
  moreover have "drop (length (base @ ?w)) (writerTicketPath base n) = dec_pad writerTicketDigits n @ ?i"
    by (simp only: name append_eq_conv_conj [symmetric] append_assoc drop_append) simp
  moreover have "hasPrefix (writerTicketPath base n) (base @ ?w)" by (simp only: name hasPrefix_append)
  ultimately show ?thesis using len ParseUint_pad [OF assms] by (simp add: intent_sequence_def Let_def del: length_append)
qed

end
