(* ===== verification/WriterIntentProps.thy ===== *)
theory WriterIntentProps
  imports WriterIntent
begin

text \<open>
  What the tickets promise, over every interleaving of readers, writers, failures and crashes:
  exclusion, the order of the writers, and that readers let waiting writers pass. The invariant says of
  each client what the scan it made still tells it: whoever makes a ticket needs the coordinator's lock, so
  that while a client holds it, locked tickets can only become fewer.
\<close>

section \<open>What a client holds\<close>

definition coordinates :: "pc \<Rightarrow> bool" where
  "coordinates pc = (case pc of
     Scans _ _ _ \<Rightarrow> True | Enters _ _ \<Rightarrow> True | Rescans _ _ \<Rightarrow> True | Publishes _ \<Rightarrow> True | Creates _ \<Rightarrow> True
   | Announces _ \<Rightarrow> True | Settles _ \<Rightarrow> True | _ \<Rightarrow> False)"

definition reads :: "pc \<Rightarrow> bool" where
  "reads pc = (case pc of Rescans _ _ \<Rightarrow> True | Held Shared _ \<Rightarrow> True | _ \<Rightarrow> False)"

definition writes :: "pc \<Rightarrow> bool" where
  "writes pc = (case pc of Settles _ \<Rightarrow> True | Held Exclusive _ \<Rightarrow> True | _ \<Rightarrow> False)"

definition ticket_of :: "pc \<Rightarrow> string option" where
  "ticket_of pc = (case pc of
     Wants p \<Rightarrow> own_ticket p | Scans p _ _ \<Rightarrow> own_ticket p | Enters _ t \<Rightarrow> t | Announces t \<Rightarrow> Some t | Settles t \<Rightarrow> Some t
   | Held _ t \<Rightarrow> t | Releases t \<Rightarrow> Some t | _ \<Rightarrow> None)"

text \<open>The tickets that are locked, with their numbers.\<close>

definition ticket :: "string \<Rightarrow> lock_files \<Rightarrow> string \<Rightarrow> int \<Rightarrow> bool" where
  "ticket base fs name n \<longleftrightarrow> locked_by fs name \<noteq> None \<and> intent_sequence base name = Some n"

definition first_ticket :: "string \<Rightarrow> lock_files \<Rightarrow> string \<Rightarrow> bool" where
  "first_ticket base fs t \<longleftrightarrow> (\<exists>n. intent_sequence base t = Some n \<and> (\<forall>name m. ticket base fs name m \<longrightarrow> n \<le> m))"

fun sight :: "string \<Rightarrow> lock_files \<Rightarrow> pc \<Rightarrow> bool" where
  "sight base fs (Scans p todo live) \<longleftrightarrow>
     (\<forall>name n. (name, n) \<in> set live \<longrightarrow> intent_sequence base name = Some n) \<and>
     (\<forall>name n. ticket base fs name n \<longrightarrow> name \<in> set todo \<or> (name, n) \<in> set live)"
| "sight base fs (Enters m t) \<longleftrightarrow> (case t of
       None \<Rightarrow> m = Shared \<and> (\<forall>name n. \<not> ticket base fs name n)
     | Some t \<Rightarrow> m = Exclusive \<and> first_ticket base fs t)"
| "sight base fs (Rescans todo live) \<longleftrightarrow> (\<forall>name n. \<not> ticket base fs name n)"
| "sight base fs (Publishes k) \<longleftrightarrow> 0 \<le> k \<and> k \<le> max_uint64 \<and> (\<forall>name n. ticket base fs name n \<longrightarrow> n < k)"
| "sight base fs (Creates k) \<longleftrightarrow> 0 \<le> k \<and> k \<le> max_uint64 \<and> (\<forall>name n. ticket base fs name n \<longrightarrow> n < k)"
| "sight base fs (Settles t) \<longleftrightarrow> first_ticket base fs t"
| "sight base fs (Held m t) \<longleftrightarrow> (case t of None \<Rightarrow> True | Some t \<Rightarrow> m = Exclusive \<and> first_ticket base fs t)"
| "sight base fs _ \<longleftrightarrow> True"

definition holdings :: "lock_files \<Rightarrow> client \<Rightarrow> pc \<Rightarrow> bool" where
  "holdings fs c pc \<longleftrightarrow>
     (coordinator fs = Some c \<longleftrightarrow> coordinates pc) \<and> (c \<in> set (readers fs) \<longleftrightarrow> reads pc) \<and> (writer fs = Some c \<longleftrightarrow> writes pc) \<and>
     (\<forall>t. gm_get (directory fs) t = Some (Some c) \<longleftrightarrow> ticket_of pc = Some t)"

definition named :: "string \<Rightarrow> pc \<Rightarrow> bool" where
  "named base pc \<longleftrightarrow> (\<forall>t. ticket_of pc = Some t \<longrightarrow> (\<exists>n. 0 \<le> n \<and> n \<le> max_uint64 \<and> t = writerTicketPath base n))"

definition lock_inv :: "string \<Rightarrow> lock_system \<Rightarrow> bool" where
  "lock_inv base s \<longleftrightarrow>
     (writer (files s) \<noteq> None \<longrightarrow> readers (files s) = []) \<and>
     (\<forall>c. holdings (files s) c (pcs s c) \<and> named base (pcs s c) \<and> sight base (files s) (pcs s c))"

section \<open>Locked tickets become fewer, or one larger is added\<close>

lemma first_ticket_mono:
  "first_ticket base fs t \<Longrightarrow> (\<And>name n. ticket base fs' name n \<Longrightarrow> ticket base fs name n) \<Longrightarrow> first_ticket base fs' t"
  unfolding first_ticket_def by blast

lemma sight_mono:
  assumes "sight base fs pc" "\<And>name n. ticket base fs' name n \<Longrightarrow> ticket base fs name n"
  shows "sight base fs' pc"
  using assms by (cases pc) (auto split: option.splits elim: first_ticket_mono)

lemma sight_add:
  assumes "sight base fs pc" "\<not> coordinates pc" "named base pc"
    and add: "\<And>name n. ticket base fs' name n \<Longrightarrow> ticket base fs name n \<or> n = k"
    and top: "\<And>name n. ticket base fs name n \<Longrightarrow> n < k"
    and own: "\<And>t. ticket_of pc = Some t \<Longrightarrow> locked_by fs t \<noteq> None"
  shows "sight base fs' pc"
proof (cases pc)
  case (Held m t)
  show ?thesis
  proof (cases t)
    case (Some u)
    then obtain n where n: "intent_sequence base u = Some n" "\<forall>name j. ticket base fs name j \<longrightarrow> n \<le> j" "m = Exclusive"
      using assms(1) Held by (auto simp: first_ticket_def)
    have "locked_by fs u \<noteq> None" by (rule own) (simp add: Held Some ticket_of_def)
    with n(1) have "ticket base fs u n" by (simp add: ticket_def)
    from top [OF this] have "n < k" .
    with n add show ?thesis by (force simp: Held Some first_ticket_def)
  qed (simp add: Held)
qed (use assms(2) in \<open>simp_all add: coordinates_def\<close>)

text \<open>A step of one client, the others staying where they are.\<close>

lemma inv_step_of:
  assumes inv: "lock_inv base s"
    and alone: "\<And>d. d \<noteq> c \<Longrightarrow> holdings fs' d (pcs s d)"
    and mine: "holdings fs' c pc'" "named base pc'" "sight base fs' pc'" "writer fs' \<noteq> None \<Longrightarrow> readers fs' = []"
    and shrink: "\<And>name n. ticket base fs' name n \<Longrightarrow> ticket base (files s) name n"
  shows "lock_inv base \<lparr>files = fs', pcs = (pcs s)(c := pc')\<rparr>"
  using assms sight_mono [OF _ shrink] by (simp add: lock_inv_def)

lemmas client_simps = coordinates_def reads_def writes_def ticket_of_def own_ticket_def
lemmas file_simps = acquireCoordinator_def close_coordinator_def close_file_def tryAcquireFileLock_def

lemma get_releaseTicket:
  "gm_get (directory (releaseTicket c fs)) t = map_option (\<lambda>h. if h = Some c then None else h) (gm_get (directory fs) t)"
  by (simp add: releaseTicket_def gm_get_def map_of_map comp_def)

lemma locked_releaseTicket: "locked_by (releaseTicket c fs) t = (if locked_by fs t = Some c then None else locked_by fs t)"
  by (cases "gm_get (directory fs) t") (auto simp: locked_by_def get_releaseTicket)

lemma releaseTicket_simps [simp]:
  "coordinator (releaseTicket c fs) = coordinator fs" "readers (releaseTicket c fs) = readers fs"
  "writer (releaseTicket c fs) = writer fs"
  by (simp_all add: releaseTicket_def)

lemma ticket_cong: "directory fs' = directory fs \<Longrightarrow> ticket base fs' = ticket base fs"
  by (simp add: ticket_def locked_by_def fun_eq_iff)

lemma locked_iff: "locked_by fs t = Some d \<longleftrightarrow> gm_get (directory fs) t = Some (Some d)"
  by (cases "gm_get (directory fs) t") (auto simp: locked_by_def)


section \<open>Every step keeps the invariant\<close>

lemma inv_client:
  assumes "lock_inv base s"
  shows "holdings (files s) c (pcs s c)" "named base (pcs s c)" "sight base (files s) (pcs s c)"
    "writer (files s) \<noteq> None \<Longrightarrow> readers (files s) = []"
  using assms by (simp_all add: lock_inv_def)

lemma clean_entry_files:
  "clean_entry base own name (fs, live) = (fs', live') \<Longrightarrow>
     coordinator fs' = coordinator fs \<and> readers fs' = readers fs \<and> writer fs' = writer fs \<and>
     (\<forall>d t. gm_get (directory fs') t = Some (Some d) \<longleftrightarrow> gm_get (directory fs) t = Some (Some d))"
  unfolding clean_entry_def using locked_iff [of fs name] by (auto split: option.splits if_splits)

lemma same_tickets:
  "(\<And>d t. gm_get (directory fs') t = Some (Some d) \<longleftrightarrow> gm_get (directory fs) t = Some (Some d)) \<Longrightarrow>
     ticket base fs' = ticket base fs"
  by (simp add: ticket_def fun_eq_iff locked_iff)

lemma clean_entry_sight:
  assumes "clean_entry base own name (fs, live) = (fs', live')"
    and "\<forall>j n. (j, n) \<in> set live \<longrightarrow> intent_sequence base j = Some n"
    and "\<forall>j n. ticket base fs j n \<longrightarrow> j \<in> set (name # todo) \<or> (j, n) \<in> set live"
  shows "(\<forall>j n. (j, n) \<in> set live' \<longrightarrow> intent_sequence base j = Some n) \<and>
    (\<forall>j n. ticket base fs j n \<longrightarrow> j \<in> set todo \<or> (j, n) \<in> set live')"
proof (rule conjI; intro allI impI)
  show "intent_sequence base j = Some n" if "(j, n) \<in> set live'" for j n
    using that assms(1,2) unfolding clean_entry_def by (auto split: option.splits if_splits)
  show "j \<in> set todo \<or> (j, n) \<in> set live'" if t: "ticket base fs j n" for j n
  proof (cases "j = name")
    case True
    then show ?thesis using t assms(1) unfolding clean_entry_def by (auto simp: ticket_def split: if_splits)
  next
    case False
    then have "j \<in> set todo \<or> (j, n) \<in> set live" using t assms(3) by auto
    then show ?thesis using assms(1) unfolding clean_entry_def by (auto split: option.splits if_splits)
  qed
qed

lemma inv_call:
  "lock_inv base s \<Longrightarrow> pcs s c = Outside \<Longrightarrow> p \<in> {ForReader, ForTicket} \<Longrightarrow> lock_inv base (s\<lparr>pcs := (pcs s)(c := Wants p)\<rparr>)"
  using inv_client(1-3) [of base s c] by (auto simp: lock_inv_def holdings_def named_def client_simps)


text \<open>What a client's own step does to what the other clients hold: nothing.\<close>

definition leaves_others :: "client \<Rightarrow> lock_files \<Rightarrow> lock_files \<Rightarrow> bool" where
  "leaves_others c fs fs' \<longleftrightarrow> (\<forall>d. d \<noteq> c \<longrightarrow>
     (coordinator fs' = Some d \<longleftrightarrow> coordinator fs = Some d) \<and> (d \<in> set (readers fs') \<longleftrightarrow> d \<in> set (readers fs)) \<and>
     (writer fs' = Some d \<longleftrightarrow> writer fs = Some d) \<and>
     (\<forall>t. gm_get (directory fs') t = Some (Some d) \<longleftrightarrow> gm_get (directory fs) t = Some (Some d)))"

lemma leaves_others_holdings: "leaves_others c fs fs' \<Longrightarrow> d \<noteq> c \<Longrightarrow> holdings fs d pc \<Longrightarrow> holdings fs' d pc"
  by (auto simp: leaves_others_def holdings_def)

lemma inv_step:
  assumes inv: "lock_inv base s" and others: "leaves_others c (files s) fs'"
    and mine: "holdings fs' c pc'" "named base pc'" "sight base fs' pc'" "writer fs' \<noteq> None \<Longrightarrow> readers fs' = []"
    and shrink: "\<And>name n. ticket base fs' name n \<Longrightarrow> ticket base (files s) name n"
  shows "lock_inv base \<lparr>files = fs', pcs = (pcs s)(c := pc')\<rparr>"
  by (rule inv_step_of [OF inv _ mine shrink])
     (use inv_client(1) [OF inv] leaves_others_holdings [OF others] in blast)

lemma leaves_others_trans: "leaves_others c fs fs1 \<Longrightarrow> leaves_others c fs1 fs2 \<Longrightarrow> leaves_others c fs fs2"
  by (auto simp: leaves_others_def)

lemma leaves_others_simps [simp]:
  "leaves_others c fs fs" "leaves_others c fs (close_coordinator c fs)" "leaves_others c fs (close_file c fs)"
  "leaves_others c fs (releaseTicket c fs)" "leaves_others c fs (fs\<lparr>coordinator_text := txt\<rparr>)"
  by (auto simp: leaves_others_def file_simps get_releaseTicket split: if_splits)

lemma ticket_simps [simp]:
  "ticket base (close_coordinator c fs) = ticket base fs" "ticket base (close_file c fs) = ticket base fs"
  "ticket base (fs\<lparr>coordinator_text := txt\<rparr>) = ticket base fs" "ticket base (fs\<lparr>coordinator := x\<rparr>) = ticket base fs"
  "ticket base (fs\<lparr>writer := y\<rparr>) = ticket base fs" "ticket base (fs\<lparr>readers := z\<rparr>) = ticket base fs"
  by (auto simp: file_simps intro!: ticket_cong)

lemma ticket_releaseTicket: "ticket base (releaseTicket c fs) name n \<Longrightarrow> ticket base fs name n"
  by (auto simp: ticket_def locked_releaseTicket split: if_splits)



text \<open>One lemma per place in the program; \<open>kept\<close> says that the step goes to a state with the invariant.\<close>

definition kept :: "string \<Rightarrow> lock_system \<Rightarrow> client \<Rightarrow> lock_files \<times> pc \<Rightarrow> bool" where
  "kept base s c r \<longleftrightarrow> lock_inv base \<lparr>files = fst r, pcs = (pcs s)(c := snd r)\<rparr>"

lemma keptI:
  assumes "lock_inv base s" "leaves_others c (files s) fs'"
    and "holdings fs' c pc'" "named base pc'" "sight base fs' pc'" "writer fs' \<noteq> None \<Longrightarrow> readers fs' = []"
    and "\<And>name n. ticket base fs' name n \<Longrightarrow> ticket base (files s) name n"
  shows "kept base s c (fs', pc')"
  unfolding kept_def fst_conv snd_conv by (rule inv_step [OF assms])

lemma mine_close:
  "holdings fs c pc \<Longrightarrow> \<not> coordinates pc' \<Longrightarrow> reads pc' = reads pc \<Longrightarrow> writes pc' = writes pc \<Longrightarrow> ticket_of pc' = ticket_of pc \<Longrightarrow>
     holdings (close_coordinator c fs) c pc'"
  by (auto simp: holdings_def close_coordinator_def)

text \<open>A client that closes the coordinator and knows nothing further.\<close>

lemma kept_close:
  assumes inv: "lock_inv base s"
    and "\<not> coordinates pc'" "reads pc' = reads (pcs s c)" "writes pc' = writes (pcs s c)" "ticket_of pc' = ticket_of (pcs s c)"
    and "sight base (files s) pc'"
  shows "kept base s c (close_coordinator c (files s), pc')"
proof (rule keptI [OF inv])
  show "holdings (close_coordinator c (files s)) c pc'"
    by (rule mine_close [OF inv_client(1) [OF inv, of c] assms(2-5)])
  show "named base pc'" using inv_client(2) [OF inv, of c] assms(5) by (simp add: named_def)
  show "sight base (close_coordinator c (files s)) pc'" by (rule sight_mono [OF assms(6)]) simp
  show "readers (close_coordinator c (files s)) = []" if "writer (close_coordinator c (files s)) \<noteq> None"
    using inv_client(4) [OF inv] that by (simp add: close_coordinator_def split: if_splits)
qed simp_all

lemma kept_wants:
  assumes inv: "lock_inv base s" and pc: "pcs s c = Wants p" and free: "acquireCoordinator c (files s) = Some fs'"
  shows "kept base s c (fs', Scans p (map fst (directory fs')) [])"
proof -
  from free have fs': "fs' = files s\<lparr>coordinator := Some c\<rparr>" and none: "coordinator (files s) = None"
    by (auto simp: acquireCoordinator_def split: if_splits)
  show ?thesis unfolding fs'
  proof (rule keptI [OF inv])
    show "holdings (files s\<lparr>coordinator := Some c\<rparr>) c (Scans p (map fst (directory (files s\<lparr>coordinator := Some c\<rparr>))) [])"
      using inv_client(1) [OF inv, of c] by (simp add: holdings_def pc client_simps)
    show "named base (Scans p (map fst (directory (files s\<lparr>coordinator := Some c\<rparr>))) [])"
      using inv_client(2) [OF inv, of c] by (simp add: named_def pc client_simps)
    have "name \<in> fst ` set (directory (files s))" if "ticket base (files s) name n" for name n
      using that gm_get_None_iff [of "directory (files s)" name] by (force simp: ticket_def locked_by_def)
    then show "sight base (files s\<lparr>coordinator := Some c\<rparr>) (Scans p (map fst (directory (files s\<lparr>coordinator := Some c\<rparr>))) [])"
      by simp
  qed (use none inv_client(4) [OF inv] in \<open>auto simp: leaves_others_def\<close>)
qed

lemma kept_clean:
  assumes inv: "lock_inv base s" and clean: "clean_entry base own name (files s, live) = (fs', live')"
    and same: "coordinates pc' = coordinates (pcs s c)" "reads pc' = reads (pcs s c)" "writes pc' = writes (pcs s c)"
      "ticket_of pc' = ticket_of (pcs s c)"
    and sees: "sight base (files s) pc'"
  shows "kept base s c (fs', pc')"
proof (rule keptI [OF inv])
  note f = clean_entry_files [OF clean]
  have t: "ticket base fs' = ticket base (files s)" by (rule same_tickets) (use f in simp)
  show "leaves_others c (files s) fs'" using f by (simp add: leaves_others_def)
  show "holdings fs' c pc'" using inv_client(1) [OF inv, of c] f same by (simp add: holdings_def)
  show "named base pc'" using inv_client(2) [OF inv, of c] same by (simp add: named_def)
  show "sight base fs' pc'" by (rule sight_mono [OF sees]) (simp add: t)
  show "readers fs' = []" if "writer fs' \<noteq> None" using inv_client(4) [OF inv] that f by simp
  show "ticket base (files s) n k" if "ticket base fs' n k" for n k using that t by simp
qed

lemma kept_scan:
  assumes inv: "lock_inv base s" and pc: "pcs s c = Scans p (name # names) live"
    and clean: "clean_entry base (own_ticket p) name (files s, live) = (fs', live')"
  shows "kept base s c (fs', Scans p names live')"
proof (rule kept_clean [OF inv clean])
  have "sight base (files s) (Scans p (name # names) live)" using inv_client(3) [OF inv, of c] by (simp only: pc)
  then show "sight base (files s) (Scans p names live')"
    unfolding sight.simps by (elim conjE) (rule clean_entry_sight [OF clean])
qed (simp_all add: pc client_simps)

lemma kept_rescan:
  assumes inv: "lock_inv base s" and pc: "pcs s c = Rescans (name # names) live"
    and clean: "clean_entry base None name (files s, live) = (fs', live')"
  shows "kept base s c (fs', Rescans names live')"
  by (rule kept_clean [OF inv clean]) (use inv_client(3) [OF inv, of c] in \<open>simp_all add: pc client_simps\<close>)


section \<open>Numbers\<close>

lemma digit_nonneg: "isDigitByte c \<Longrightarrow> 48 \<le> (of_char c :: int)"
  by (metis isDigitByte_def of_nat_of_char of_nat_le_iff of_nat_numeral)

lemma parse_digits_nonneg: "parse_digits w acc t = Some (n, r) \<Longrightarrow> 0 \<le> acc \<Longrightarrow> 0 \<le> n"
  by (induction w acc t rule: parse_digits.induct) (auto dest: digit_nonneg split: if_splits)

lemma ParseUint_range: "ParseUint t = Some n \<Longrightarrow> 0 \<le> n \<and> n \<le> max_uint64"
  by (auto simp: ParseUint_def dest: parse_digits_nonneg split: if_splits option.splits)

lemma intent_sequence_range: "intent_sequence base name = Some n \<Longrightarrow> 0 \<le> n \<and> n \<le> max_uint64"
  by (auto simp: intent_sequence_def Let_def dest: ParseUint_range split: if_splits)

lemma largest_bounds:
  "\<forall>i \<in> set live. (snd i :: int) \<le> b \<Longrightarrow> start \<le> b \<Longrightarrow>
     (let n = foldl (\<lambda>n i. if n < snd i then snd i else n) start live in start \<le> n \<and> n \<le> b \<and> (\<forall>i \<in> set live. snd i \<le> n))"
  unfolding Let_def by (induction live arbitrary: start) force+

lemma next_sequence_above:
  assumes "next_sequence raw live = Some k" "\<forall>i \<in> set live. snd i \<le> max_uint64"
  shows "0 \<le> k \<and> k \<le> max_uint64 \<and> (\<forall>i \<in> set live. snd i < k)"
proof -
  define start where "start = (case ParseUint (trimSpace (take 4096 raw)) of Some n \<Rightarrow> n | None \<Rightarrow> 0)"
  have start: "0 \<le> start" "start \<le> max_uint64"
    using ParseUint_range [of "trimSpace (take 4096 raw)"] by (auto simp: start_def max_uint64_def split: option.splits)
  have k: "(let n = foldl (\<lambda>n i. if n < snd i then snd i else n) start live in if n = max_uint64 then None else Some (n + 1)) = Some k"
    using assms(1) by (simp add: next_sequence_def start_def [symmetric] Let_def)
  from largest_bounds [OF assms(2) start(2)] k start show ?thesis by (auto simp: Let_def split: if_splits)
qed

lemma sorted_first:
  assumes "live \<noteq> []" "fst (hd (sorted_intents live)) = t"
  shows "\<exists>n. (t, n) \<in> set live \<and> (\<forall>(j, m) \<in> set live. n \<le> m)"
proof -
  let ?l = "sorted_intents live"
  have set: "set ?l = set live" by (simp add: sorted_intents_def)
  with assms obtain a l where l: "?l = a # l" by (cases ?l) auto
  have "sorted (map snd ?l)" by (simp add: sorted_intents_def)
  with l have "\<forall>x \<in> set ?l. snd a \<le> snd x" by auto
  then have "\<forall>x \<in> set live. snd a \<le> snd x" by (simp only: set)
  moreover have "a \<in> set live" using l set by (metis list.set_intros(1))
  ultimately show ?thesis using assms(2) l by (intro exI [of _ "snd a"]) auto
qed

section \<open>What follows a scan\<close>

lemma kept_same_files:
  assumes inv: "lock_inv base s"
    and same: "coordinates pc' = coordinates (pcs s c)" "reads pc' = reads (pcs s c)" "writes pc' = writes (pcs s c)"
      "ticket_of pc' = ticket_of (pcs s c)"
    and sees: "sight base (files s) pc'"
  shows "kept base s c ((files s)\<lparr>coordinator_text := txt\<rparr>, pc')"
proof (rule keptI [OF inv])
  show "holdings ((files s)\<lparr>coordinator_text := txt\<rparr>) c pc'"
    using inv_client(1) [OF inv, of c] same by (simp add: holdings_def)
  show "named base pc'" using inv_client(2) [OF inv, of c] same by (simp add: named_def)
  show "sight base ((files s)\<lparr>coordinator_text := txt\<rparr>) pc'" by (rule sight_mono [OF sees]) simp
  show "readers ((files s)\<lparr>coordinator_text := txt\<rparr>) = []" if "writer ((files s)\<lparr>coordinator_text := txt\<rparr>) \<noteq> None"
    using inv_client(4) [OF inv] that by simp
qed simp_all

lemma kept_idle:
  assumes inv: "lock_inv base s"
    and same: "coordinates pc' = coordinates (pcs s c)" "reads pc' = reads (pcs s c)" "writes pc' = writes (pcs s c)"
      "ticket_of pc' = ticket_of (pcs s c)"
    and sees: "sight base (files s) pc'"
  shows "kept base s c (files s, pc')"
  using kept_same_files [OF assms, of "coordinator_text (files s)"] by simp

lemma kept_after_scan:
  assumes inv: "lock_inv base s" and pc: "pcs s c = Scans p [] live"
  shows "kept base s c (after_scan c p live (files s))"
proof -
  have live: "\<And>name n. (name, n) \<in> set live \<Longrightarrow> intent_sequence base name = Some n"
    and seen: "\<And>name n. ticket base (files s) name n \<Longrightarrow> (name, n) \<in> set live"
    using inv_client(3) [OF inv, of c] by (simp_all add: pc)
  note close = kept_close [OF inv, of _ c]
  show ?thesis
  proof (cases p)
    case ForReader
    show ?thesis
    proof (cases live)
      case Nil
      then show ?thesis using seen
        by (simp add: after_scan_def ForReader) (rule kept_idle [OF inv], auto simp: pc client_simps ForReader)
    next
      case (Cons a l)
      then show ?thesis
        by (simp add: after_scan_def ForReader) (rule close, simp_all add: pc client_simps ForReader)
    qed
  next
    case (ForWriter t)
    show ?thesis
    proof (cases "live = [] \<or> fst (hd (sorted_intents live)) \<noteq> t")
      case True
      then have after: "after_scan c p live (files s) = (close_coordinator c (files s), Wants (ForWriter t))"
        by (simp add: after_scan_def ForWriter)
      show ?thesis unfolding after by (rule close) (simp_all add: pc client_simps ForWriter)
    next
      case False
      then obtain n where n: "(t, n) \<in> set live" "\<forall>(j, m) \<in> set live. n \<le> m" using sorted_first [of live t] by auto
      have first: "first_ticket base (files s) t"
        unfolding first_ticket_def using live [OF n(1)] n(2) by (intro exI [of _ n]) (blast dest: seen)
      have after: "after_scan c p live (files s) = (files s, Enters Exclusive (Some t))"
        using False by (simp add: after_scan_def ForWriter)
      show ?thesis unfolding after by (rule kept_idle [OF inv]) (simp_all add: pc client_simps ForWriter first)
    qed
  next
    case ForTicket
    show ?thesis
    proof (cases "next_sequence (coordinator_text (files s)) live")
      case None
      then show ?thesis
        by (simp add: after_scan_def ForTicket) (rule close, simp_all add: pc client_simps ForTicket)
    next
      case (Some k)
      have "\<forall>i \<in> set live. snd i \<le> max_uint64" using live intent_sequence_range by fastforce
      note above = next_sequence_above [OF Some this]
      have "n < k" if "ticket base (files s) name n" for name n using above seen [OF that] by auto
      with above have sees: "sight base (files s) (Publishes k)" by simp
      have after: "after_scan c p live (files s) = ((files s)\<lparr>coordinator_text := ''''\<rparr>, Publishes k)"
        by (simp add: after_scan_def ForTicket Some)
      show ?thesis unfolding after
        by (rule kept_same_files [OF inv _ _ _ _ sees]) (simp_all add: pc client_simps ForTicket)
    qed
  next
    case ForCleanup
    then show ?thesis
      by (simp add: after_scan_def) (rule close, simp_all add: pc client_simps ForCleanup)
  qed
qed

section \<open>Entering and leaving\<close>

lemma tryAcquire_cases:
  assumes "tryAcquireFileLock c m fs = Some fs'"
  obtains "m = Shared" "writer fs = None" "fs' = fs\<lparr>readers := c # readers fs\<rparr>"
  | "m = Exclusive" "writer fs = None" "readers fs = []" "fs' = fs\<lparr>writer := Some c\<rparr>"
  using assms by (auto simp: tryAcquireFileLock_def split: mode.splits if_splits)

lemma kept_acquired:
  assumes inv: "lock_inv base s" and lock: "tryAcquireFileLock c m (files s) = Some fs'"
    and before: "\<not> reads (pcs s c)" "\<not> writes (pcs s c)"
    and after: "coordinates pc' = coordinates (pcs s c)" "reads pc' \<longleftrightarrow> m = Shared" "writes pc' \<longleftrightarrow> m = Exclusive"
      "ticket_of pc' = ticket_of (pcs s c)" "sight base (files s) pc'"
  shows "kept base s c (fs', pc')"
  using lock
proof (cases rule: tryAcquire_cases)
  case 1
  show ?thesis
  proof (rule keptI [OF inv])
    show "holdings fs' c pc'" using inv_client(1) [OF inv, of c] 1 before after by (simp add: holdings_def)
    show "named base pc'" using inv_client(2) [OF inv, of c] after by (simp add: named_def)
    show "sight base fs' pc'" by (rule sight_mono [OF after(5)]) (simp add: 1)
  qed (use 1 in \<open>auto simp: leaves_others_def\<close>)
next
  case 2
  show ?thesis
  proof (rule keptI [OF inv])
    show "holdings fs' c pc'" using inv_client(1) [OF inv, of c] 2 before after by (simp add: holdings_def)
    show "named base pc'" using inv_client(2) [OF inv, of c] after by (simp add: named_def)
    show "sight base fs' pc'" by (rule sight_mono [OF after(5)]) (simp add: 2)
  qed (use 2 in \<open>auto simp: leaves_others_def\<close>)
qed

lemma kept_enter:
  assumes inv: "lock_inv base s" and pc: "pcs s c = Enters m t"
  shows "kept base s c (enter c m t admitted (files s))"
proof -
  have sees: "sight base (files s) (Enters m t)" using inv_client(3) [OF inv, of c] by (simp only: pc)
  show ?thesis
  proof (cases "if admitted then tryAcquireFileLock c m (files s) else None")
    case None
    then have after: "enter c m t admitted (files s) =
        (close_coordinator c (files s), Wants (case t of None \<Rightarrow> ForReader | Some t \<Rightarrow> ForWriter t))"
      by (simp add: enter_def)
    show ?thesis unfolding after
      by (rule kept_close [OF inv]) (simp_all add: pc client_simps split: option.splits)
  next
    case (Some fs')
    then have lock: "tryAcquireFileLock c m (files s) = Some fs'" by (simp split: if_splits)
    have after: "enter c m t admitted (files s) = (fs', case t of None \<Rightarrow> Rescans (map fst (directory fs')) [] | Some t \<Rightarrow> Settles t)"
      using Some by (simp add: enter_def)
    show ?thesis
    proof (cases t)
      case None
      with sees have "m = Shared" and no: "\<forall>name n. \<not> ticket base (files s) name n" by auto
      have "kept base s c (fs', Rescans (map fst (directory fs')) [])"
        by (rule kept_acquired [OF inv lock]) (simp_all add: pc client_simps None no \<open>m = Shared\<close>)
      then show ?thesis unfolding after by (simp add: None)
    next
      case (Some u)
      with sees have m: "m = Exclusive" and first: "first_ticket base (files s) u" by auto
      have "kept base s c (fs', Settles u)"
        by (rule kept_acquired [OF inv lock]) (simp_all add: pc client_simps Some m first)
      then show ?thesis unfolding after by (simp add: Some)
    qed
  qed
qed

lemma holdings_close_file:
  "holdings fs c pc \<Longrightarrow> coordinates pc' = coordinates pc \<Longrightarrow> \<not> reads pc' \<Longrightarrow> \<not> writes pc' \<Longrightarrow> ticket_of pc' = ticket_of pc \<Longrightarrow>
     holdings (close_file c fs) c pc'"
  by (auto simp: holdings_def close_file_def)

lemma kept_close_file:
  assumes inv: "lock_inv base s"
    and "coordinates pc' = coordinates (pcs s c)" "\<not> reads pc'" "\<not> writes pc'" "ticket_of pc' = ticket_of (pcs s c)" "sight base (files s) pc'"
  shows "kept base s c (close_file c (files s), pc')"
proof (rule keptI [OF inv])
  show "holdings (close_file c (files s)) c pc'" by (rule holdings_close_file [OF inv_client(1) [OF inv, of c] assms(2-5)])
  show "named base pc'" using inv_client(2) [OF inv, of c] assms(5) by (simp add: named_def)
  show "sight base (close_file c (files s)) pc'" by (rule sight_mono [OF assms(6)]) simp
  show "readers (close_file c (files s)) = []" if "writer (close_file c (files s)) \<noteq> None"
    using inv_client(4) [OF inv] that by (simp add: close_file_def split: if_splits)
qed simp_all

text \<open>Closing the file and then the coordinator.\<close>

lemma kept_then_close:
  assumes "kept base s c (fs', pc1)"
    and "\<not> coordinates pc'" "reads pc' = reads pc1" "writes pc' = writes pc1" "ticket_of pc' = ticket_of pc1" "sight base fs' pc'"
  shows "kept base s c (close_coordinator c fs', pc')"
proof -
  let ?s = "\<lparr>files = fs', pcs = (pcs s)(c := pc1)\<rparr>"
  have "lock_inv base ?s" using assms(1) by (simp add: kept_def)
  from kept_close [OF this, of pc' c] show ?thesis using assms by (simp add: kept_def)
qed

lemma kept_after_rescan:
  assumes inv: "lock_inv base s" and pc: "pcs s c = Rescans [] live"
  shows "kept base s c (after_rescan c live (files s))"
proof (cases "live = []")
  case True
  then show ?thesis
    by (simp add: after_rescan_def) (rule kept_close [OF inv], simp_all add: pc client_simps)
next
  case False
  have "kept base s c (close_file c (files s), Scans ForReader (map fst (directory (files s))) [])"
  proof (rule kept_close_file [OF inv])
    show "sight base (files s) (Scans ForReader (map fst (directory (files s))) [])"
      using inv_client(3) [OF inv, of c] by (simp add: pc)
  qed (simp_all add: pc client_simps)
  from kept_then_close [OF this, of "Wants ForReader"] show ?thesis
    using False by (simp add: after_rescan_def client_simps)
qed

lemma kept_releaseTicket:
  assumes inv: "lock_inv base s"
    and "coordinates pc' = coordinates (pcs s c)" "reads pc' = reads (pcs s c)" "writes pc' = writes (pcs s c)" "ticket_of pc' = None"
      "sight base (releaseTicket c (files s)) pc'"
  shows "kept base s c (releaseTicket c (files s), pc')"
proof (rule keptI [OF inv])
  show "holdings (releaseTicket c (files s)) c pc'"
    using inv_client(1) [OF inv, of c] assms(2-5) by (auto simp: holdings_def get_releaseTicket split: if_splits)
  show "named base pc'" using assms(5) by (simp add: named_def)
  show "readers (releaseTicket c (files s)) = []" if "writer (releaseTicket c (files s)) \<noteq> None"
    using inv_client(4) [OF inv] that by simp
qed (simp_all add: assms ticket_releaseTicket)

section \<open>Making a ticket\<close>

lemma kept_create:
  assumes inv: "lock_inv base s" and pc: "pcs s c = Creates k" and made: "create_ticket base c k (files s) = Some r"
  shows "kept base s c r"
proof -
  define t where "t = writerTicketPath base k"
  let ?fs' = "files s\<lparr>directory := gm_put t (Some c) (directory (files s))\<rparr>"
  from made have free: "locked_by (files s) t = None" and r: "r = (?fs', Announces t)"
    by (auto simp: create_ticket_def t_def Let_def split: if_splits)
  have k: "0 \<le> k" "k \<le> max_uint64" and top: "\<And>name n. ticket base (files s) name n \<Longrightarrow> n < k"
    using inv_client(3) [OF inv, of c] by (simp_all add: pc)
  have coord: "coordinator (files s) = Some c" using inv_client(1) [OF inv, of c] by (simp add: holdings_def pc client_simps)
  have add: "ticket base ?fs' name n \<Longrightarrow> ticket base (files s) name n \<or> n = k" for name n
    using intent_sequence_path [OF k, of base] by (auto simp: ticket_def locked_by_def t_def split: if_splits)
  have nobody: "gm_get (directory (files s)) t \<noteq> Some (Some d)" for d using free by (simp flip: locked_iff)
  have mine: "holdings ?fs' c (Announces t)" "named base (Announces t)"
    using inv_client(1) [OF inv, of c] k by (auto simp: holdings_def named_def t_def pc client_simps)
  have others: "holdings ?fs' d (pcs s d) \<and> sight base ?fs' (pcs s d)" if "d \<noteq> c" for d
  proof
    note h = inv_client(1) [OF inv, of d]
    show "holdings ?fs' d (pcs s d)" using h nobody that by (auto simp: holdings_def)
    have "locked_by (files s) u = Some d" if "ticket_of (pcs s d) = Some u" for u
      using h that by (simp add: holdings_def locked_iff)
    then have own: "locked_by (files s) u \<noteq> None" if "ticket_of (pcs s d) = Some u" for u using that by simp
    show "sight base ?fs' (pcs s d)"
    proof (rule sight_add [OF inv_client(3) [OF inv] _ inv_client(2) [OF inv] add top own])
      show "\<not> coordinates (pcs s d)" using h coord that by (auto simp: holdings_def)
    qed
  qed
  show ?thesis unfolding kept_def r fst_conv snd_conv lock_inv_def
    using mine others inv by (auto simp: lock_inv_def)
qed

section \<open>Failures\<close>

text \<open>Whatever a client does when it gives up, it ends in one of these places, with nothing but its ticket.\<close>

lemma kept_drop:
  assumes inv: "lock_inv base s"
    and "\<not> coordinates pc'" "\<not> reads pc'" "\<not> writes pc'" "ticket_of pc' = ticket_of (pcs s c)" "sight base (files s) pc'"
  shows "kept base s c (close_coordinator c (close_file c (files s)), pc')"
proof (rule keptI [OF inv])
  show "holdings (close_coordinator c (close_file c (files s))) c pc'"
    using inv_client(1) [OF inv, of c] assms(2-5) by (auto simp: holdings_def file_simps)
  show "named base pc'" using inv_client(2) [OF inv, of c] assms(5) by (simp add: named_def)
  show "sight base (close_coordinator c (close_file c (files s))) pc'" by (rule sight_mono [OF assms(6)]) simp
  show "leaves_others c (files s) (close_coordinator c (close_file c (files s)))"
    by (rule leaves_others_trans [of _ _ "close_file c (files s)"]) simp_all
  show "readers (close_coordinator c (close_file c (files s))) = []"
    if "writer (close_coordinator c (close_file c (files s))) \<noteq> None"
    using inv_client(4) [OF inv] that by (simp add: file_simps split: if_splits)
qed simp

lemma kept_drop_all:
  assumes inv: "lock_inv base s"
  shows "kept base s c (close_coordinator c (close_file c (releaseTicket c (files s))), Outside)"
proof (rule keptI [OF inv])
  let ?fs' = "close_coordinator c (close_file c (releaseTicket c (files s)))"
  show "holdings ?fs' c Outside"
    using inv_client(1) [OF inv, of c] by (auto simp: holdings_def file_simps get_releaseTicket client_simps split: if_splits)
  show "leaves_others c (files s) ?fs'"
    by (rule leaves_others_trans [of _ _ "releaseTicket c (files s)"], simp,
        rule leaves_others_trans [of _ _ "close_file c (releaseTicket c (files s))"]) simp_all
  show "readers ?fs' = []" if "writer ?fs' \<noteq> None"
    using inv_client(4) [OF inv] that by (simp add: file_simps split: if_splits)
qed (auto simp: named_def client_simps dest: ticket_releaseTicket)

lemma releaseTicket_commute:
  "releaseTicket c (close_coordinator c (close_file c fs)) = close_coordinator c (close_file c (releaseTicket c fs))"
  by (simp add: file_simps releaseTicket_def)

lemma inv_crash: "lock_inv base s \<Longrightarrow> lock_inv base (crash c s)"
  using kept_drop_all [of base s c] by (simp add: kept_def crash_def releaseTicket_commute)

lemma inv_give_up:
  assumes inv: "lock_inv base s" and "\<forall>m t. pcs s c \<noteq> Held m t" "\<forall>t. pcs s c \<noteq> Releases t"
  shows "lock_inv base (give_up c s)"
proof -
  let ?pc' = "pcs (give_up c s) c"
  show ?thesis
  proof (cases "\<exists>t. pcs s c = Announces t")
    case True
    then show ?thesis using kept_drop_all [OF inv, of c] by (auto simp: kept_def give_up_def)
  next
    case False
    have "\<not> coordinates ?pc' \<and> \<not> reads ?pc' \<and> \<not> writes ?pc' \<and> ticket_of ?pc' = ticket_of (pcs s c) \<and> sight base (files s) ?pc'"
      using False assms(2,3) by (cases "pcs s c") (simp_all add: give_up_def client_simps split: purpose.splits option.splits)
    then have "kept base s c (close_coordinator c (close_file c (files s)), ?pc')" by (intro kept_drop [OF inv]) simp_all
    moreover have "(case pcs s c of Announces t \<Rightarrow> releaseTicket c (files s) | _ \<Rightarrow> files s) = files s"
      using False by (cases "pcs s c") simp_all
    ultimately show ?thesis by (simp add: kept_def give_up_def)
  qed
qed

section \<open>The invariant holds\<close>

lemma inv_text: "lock_inv base s \<Longrightarrow> lock_inv base (s\<lparr>files := (files s)\<lparr>coordinator_text := txt\<rparr>\<rparr>)"
  unfolding lock_inv_def holdings_def by (auto intro: sight_mono)

lemma inv_direct: "lock_inv base s \<Longrightarrow> pcs s c = Outside \<Longrightarrow> Acquire_direct c s = Some s' \<Longrightarrow> lock_inv base s'"
  using kept_acquired [of base s c Exclusive _ "Held Exclusive None"]
  by (auto simp: Acquire_direct_def kept_def client_simps)

lemma inv_advance:
  assumes inv: "lock_inv base s" and go: "advance base admitted c s = Some s'"
  shows "lock_inv base s'"
proof -
  from go obtain r where r: "advance_pc base admitted c (pcs s c) (files s) = Some r"
    and s': "s' = \<lparr>files = fst r, pcs = (pcs s)(c := snd r)\<rparr>"
    by (auto simp: advance_def split: prod.splits)
  have sees: "sight base (files s) (pcs s c)" by (rule inv_client(3) [OF inv])
  have "kept base s c r"
  proof (cases "pcs s c")
    case (Wants p)
    then show ?thesis using r kept_wants [OF inv Wants] by (auto simp: advance_pc_def)
  next
    case (Scans p todo live)
    show ?thesis
    proof (cases todo)
      case Nil
      then show ?thesis using r kept_after_scan [OF inv] Scans by (auto simp: advance_pc_def)
    next
      case (Cons name names)
      then show ?thesis using r kept_scan [OF inv] Scans by (auto simp: advance_pc_def split: prod.splits)
    qed
  next
    case (Enters m t)
    then show ?thesis using r kept_enter [OF inv] by (auto simp: advance_pc_def)
  next
    case (Rescans todo live)
    show ?thesis
    proof (cases todo)
      case Nil
      then show ?thesis using r kept_after_rescan [OF inv] Rescans by (auto simp: advance_pc_def)
    next
      case (Cons name names)
      then show ?thesis using r kept_rescan [OF inv] Rescans by (auto simp: advance_pc_def split: prod.splits)
    qed
  next
    case (Publishes k)
    have "kept base s c ((files s)\<lparr>coordinator_text := dec_digits k @ ''\<newline>''\<rparr>, Creates k)"
      by (rule kept_same_files [OF inv]) (use sees in \<open>simp_all add: Publishes client_simps\<close>)
    then show ?thesis using r by (simp add: advance_pc_def Publishes)
  next
    case (Creates k)
    then show ?thesis using r kept_create [OF inv] by (simp add: advance_pc_def)
  next
    case (Announces t)
    have "kept base s c (close_coordinator c (files s), Wants (ForWriter t))"
      by (rule kept_close [OF inv]) (simp_all add: Announces client_simps)
    then show ?thesis using r by (simp add: advance_pc_def Announces)
  next
    case (Settles t)
    have "kept base s c (close_coordinator c (files s), Held Exclusive (Some t))"
      by (rule kept_close [OF inv]) (use sees in \<open>simp_all add: Settles client_simps\<close>)
    then show ?thesis using r by (simp add: advance_pc_def Settles)
  next
    case (Held m t)
    have "kept base s c (close_file c (files s), case t of None \<Rightarrow> Outside | Some t \<Rightarrow> Releases t)"
      by (rule kept_close_file [OF inv]) (simp_all add: Held client_simps split: option.splits)
    then show ?thesis using r by (cases t) (simp_all add: advance_pc_def Held)
  next
    case (Releases t)
    have "kept base s c (releaseTicket c (files s), Wants ForCleanup)"
      by (rule kept_releaseTicket [OF inv]) (simp_all add: Releases client_simps)
    then show ?thesis using r by (simp add: advance_pc_def Releases)
  qed (use r in \<open>simp add: advance_pc_def\<close>)
  then show ?thesis by (simp add: kept_def s')
qed

lemma inv_start: "lock_inv base (lock_start dir counter)"
proof -
  have "gm_get (map (\<lambda>(name, _). (name, None :: client option)) dir) t \<noteq> Some (Some c)" for t c
    by (induction dir) (auto simp: gm_get_def)
  then show ?thesis by (simp add: lock_inv_def lock_start_def holdings_def named_def client_simps)
qed

lemma inv_lock_step: "lock_inv base s \<Longrightarrow> lock_step base s t \<Longrightarrow> lock_inv base t"
proof (erule lock_step.cases)
  fix s' c n k
  assume inv: "lock_inv base s" and eq: "s = s'" "t = give_up c (s'\<lparr>files := (files s')\<lparr>coordinator_text := take k (dec_digits n @ ''\<newline>'')\<rparr>\<rparr>)"
    and pc: "pcs s' c = Publishes n"
  show "lock_inv base t" unfolding eq
    by (rule inv_give_up) (use inv inv_text eq pc in simp_all)
qed (auto intro: inv_call inv_direct inv_advance inv_give_up inv_crash)

interpretation wi: invariant_system "lock_start dir counter" "lock_step base" "lock_inv base" for dir counter base
  by unfold_locales (auto intro: inv_start inv_lock_step)

section \<open>Who is let in\<close>

lemma own_ticket_locked: "lock_inv base s \<Longrightarrow> ticket_of (pcs s c) = Some t \<Longrightarrow> locked_by (files s) t = Some c"
  using inv_client(1) [of base s c] by (simp add: holdings_def locked_iff)

lemma own_ticket_number:
  assumes "lock_inv base s" "ticket_of (pcs s c) = Some t"
  obtains n where "t = writerTicketPath base n" "intent_sequence base t = Some n" "ticket base (files s) t n"
  using inv_client(2) [OF assms(1), of c] own_ticket_locked [OF assms] assms(2)
  by (auto simp: named_def ticket_def intent_sequence_path)

lemma ticket_holder: "lock_inv base s \<Longrightarrow> ticket base (files s) t n \<Longrightarrow> \<exists>c. ticket_of (pcs s c) = Some t"
  using inv_client(1) [of base s] by (fastforce simp: ticket_def holdings_def locked_iff)

lemma advance_elim:
  assumes "advance base admitted c s = Some s'"
  obtains r where "advance_pc base admitted c (pcs s c) (files s) = Some r" "s' = \<lparr>files = fst r, pcs = (pcs s)(c := snd r)\<rparr>"
  using assms by (auto simp: advance_def split: prod.splits)

text \<open>A ticket appears when it is created, and it is larger than every locked one.\<close>

lemma advance_ticket:
  assumes inv: "lock_inv base s" and go: "advance_pc base admitted c (pcs s c) (files s) = Some (fs', pc')"
    and t: "ticket_of pc' = Some t" and new: "ticket_of (pcs s c) \<noteq> Some t"
  shows "\<exists>k. intent_sequence base t = Some k \<and> (\<forall>name n. ticket base (files s) name n \<longrightarrow> n < k)"
proof -
  have "\<exists>k. pcs s c = Creates k \<and> t = writerTicketPath base k"
    using go t new
    by (cases "pcs s c" rule: pc.exhaust)
      (auto simp: advance_pc_def client_simps after_scan_def enter_def after_rescan_def create_ticket_def Let_def
        split: list.splits purpose.splits option.splits if_splits prod.splits)
  then obtain k where pc: "pcs s c = Creates k" and k: "t = writerTicketPath base k" by auto
  have "0 \<le> k" "k \<le> max_uint64" "\<forall>name n. ticket base (files s) name n \<longrightarrow> n < k"
    using inv_client(3) [OF inv, of c] by (simp_all add: pc)
  then show ?thesis using intent_sequence_path [of k base] k by auto
qed

lemma give_up_ticket: "ticket_of (pcs (give_up c s) d) = Some t \<Longrightarrow> ticket_of (pcs s d) = Some t"
  by (cases "pcs s c") (auto simp: give_up_def client_simps split: if_splits purpose.splits option.splits)

lemma step_ticket:
  assumes inv: "lock_inv base s" and "lock_step base s s'" "ticket_of (pcs s' d) = Some t" "ticket_of (pcs s d) \<noteq> Some t"
  shows "\<exists>k. intent_sequence base t = Some k \<and> (\<forall>name n. ticket base (files s) name n \<longrightarrow> n < k)"
  using assms(2)
proof (cases rule: lock_step.cases)
  case (advance admitted c)
  from advance obtain fs' pc' where go: "advance_pc base admitted c (pcs s c) (files s) = Some (fs', pc')"
    and s': "s' = \<lparr>files = fs', pcs = (pcs s)(c := pc')\<rparr>" by (auto elim: advance_elim)
  have "d = c" using assms(3,4) s' by (auto split: if_splits)
  then show ?thesis using advance_ticket [OF inv go] assms(3,4) s' by simp
next
  case (torn_write c n k)
  from give_up_ticket [OF assms(3) [unfolded torn_write(1)]] show ?thesis using assms(4) by simp
next
  case (give_up c)
  then show ?thesis using assms(3,4) give_up_ticket by blast
qed (use assms(3,4) in \<open>auto simp: Acquire_direct_def crash_def client_simps split: if_splits\<close>)

text \<open>A reader is let in only when no ticket is locked.\<close>

lemma step_reader:
  assumes inv: "lock_inv base s" and "lock_step base s s'" "pcs s' d = Held Shared None" "pcs s d \<noteq> Held Shared None"
  shows "\<not> ticket base (files s) name n"
  using assms(2)
proof (cases rule: lock_step.cases)
  case (advance admitted c)
  from advance obtain fs' pc' where go: "advance_pc base admitted c (pcs s c) (files s) = Some (fs', pc')"
    and s': "s' = \<lparr>files = fs', pcs = (pcs s)(c := pc')\<rparr>" by (auto elim: advance_elim)
  have d: "d = c" using assms(3,4) s' by (auto split: if_splits)
  then have "\<exists>todo live. pcs s c = Rescans todo live"
    using go assms(3) s'
    by (cases "pcs s c" rule: pc.exhaust)
      (auto simp: advance_pc_def after_scan_def enter_def create_ticket_def Let_def
        split: list.splits purpose.splits option.splits if_splits prod.splits)
  then show ?thesis using inv_client(3) [OF inv, of c] by auto
next
  case (give_up c)
  then show ?thesis using assms(3,4)
    by (cases "pcs s c") (auto simp: give_up_def split: if_splits purpose.splits option.splits)
next
  case (torn_write c n k)
  then show ?thesis using assms(3,4) by (auto simp: give_up_def split: if_splits)
qed (use assms(3,4) in \<open>auto simp: Acquire_direct_def crash_def split: if_splits\<close>)

text \<open>While a writer keeps its ticket, tickets up to its own only disappear, and readers only leave.\<close>

definition waits :: "string \<Rightarrow> client \<Rightarrow> string \<Rightarrow> lock_system \<Rightarrow> lock_system \<Rightarrow> bool" where
  "waits base c t = (\<lambda>x y. lock_step base x y \<and> ticket_of (pcs y c) = Some t)\<^sup>*\<^sup>*"

lemma waits_keeps:
  assumes run: "waits base c t s s'" and inv: "lock_inv base s" and own: "ticket_of (pcs s c) = Some t"
    and n: "intent_sequence base t = Some n"
  shows "lock_inv base s' \<and> ticket_of (pcs s' c) = Some t \<and>
    (\<forall>d. pcs s' d = Held Shared None \<longrightarrow> pcs s d = Held Shared None) \<and>
    (\<forall>d u k. ticket_of (pcs s' d) = Some u \<longrightarrow> intent_sequence base u = Some k \<longrightarrow> k \<le> n \<longrightarrow> ticket_of (pcs s d) = Some u)"
  using run unfolding waits_def
proof (induction rule: rtranclp_induct)
  case base
  then show ?case using inv own by blast
next
  case (step x y)
  then have x: "lock_inv base x" "ticket_of (pcs x c) = Some t" by auto
  have locked: "ticket base (files x) t n" using own_ticket_locked [OF x] n by (simp add: ticket_def)
  have step': "lock_step base x y" using step.hyps by blast
  have "pcs s d = Held Shared None" if "pcs y d = Held Shared None" for d
    using step_reader [OF x(1) step' that] locked step.IH by blast
  moreover have "ticket_of (pcs s d) = Some u" if "ticket_of (pcs y d) = Some u" "intent_sequence base u = Some k" "k \<le> n" for d u k
    using step_ticket [OF x(1) step' that(1)] locked that step.IH by fastforce
  ultimately show ?case using inv_lock_step [OF x(1) step'] step.hyps(2) by blast
qed

lemma writer_alone:
  assumes inv: "lock_inv base s" and "pcs s d = Held Exclusive u" "pcs s e = Held m v"
  shows "d = e"
proof -
  note h = inv_client(1) [OF inv]
  have w: "writer (files s) = Some d" using h [of d] assms(2) by (simp add: holdings_def client_simps)
  with inv_client(4) [OF inv] have r: "readers (files s) = []" by simp
  show ?thesis using h [of e] assms(3) w r by (cases m) (auto simp: holdings_def client_simps)
qed

lemma held_first:
  assumes inv: "lock_inv base s" and "pcs s d = Held m (Some u)"
  shows "first_ticket base (files s) u"
  using inv_client(3) [OF inv, of d] assms(2) by simp

text \<open>C36. Writers are served in the order of their tickets, and readers let them pass. Whatever readers, writers,
  crashes and failures do: while a writer keeps its ticket, from before it asks for the lock, no reader is let in
  that did not hold the lock already; another writer with a ticket gets the lock only when it held that ticket
  already and it is smaller; and whoever holds the lock for writing holds it alone.\<close>

theorem waiting_writer_is_not_overtaken:
  assumes "(lock_step base)\<^sup>*\<^sup>* (lock_start dir counter) s" "ticket_of (pcs s c) = Some t" "waits base c t s s'"
  shows "(\<forall>d. pcs s' d = Held Shared None \<longrightarrow> pcs s d = Held Shared None) \<and>
    (\<forall>d u. d \<noteq> c \<longrightarrow> pcs s' d = Held Exclusive (Some u) \<longrightarrow>
       ticket_of (pcs s d) = Some u \<and> the (intent_sequence base u) < the (intent_sequence base t)) \<and>
    (\<forall>d e u m v. pcs s' d = Held Exclusive u \<longrightarrow> pcs s' e = Held m v \<longrightarrow> d = e)"
proof -
  have inv: "lock_inv base s" by (rule wi.reachable_inv [OF assms(1)])
  obtain n where n: "intent_sequence base t = Some n" "t = writerTicketPath base n"
    using own_ticket_number [OF inv assms(2)] by metis
  note kept = waits_keeps [OF assms(3) inv assms(2) n(1)]
  then have inv': "lock_inv base s'" and own': "ticket_of (pcs s' c) = Some t" by blast+
  have "ticket_of (pcs s d) = Some u \<and> the (intent_sequence base u) < the (intent_sequence base t)"
    if d: "d \<noteq> c" "pcs s' d = Held Exclusive (Some u)" for d u
  proof -
    have u: "ticket_of (pcs s' d) = Some u" using d(2) by (simp add: client_simps)
    obtain k where k: "intent_sequence base u = Some k" "u = writerTicketPath base k"
      using own_ticket_number [OF inv' u] by metis
    have "ticket base (files s') t n" using own_ticket_locked [OF inv' own'] n(1) by (simp add: ticket_def)
    then have "k \<le> n" using held_first [OF inv' d(2)] k(1) by (auto simp: first_ticket_def)
    moreover have "k \<noteq> n" using own_ticket_locked [OF inv' own'] own_ticket_locked [OF inv' u] d(1) k(2) n(2) by auto
    ultimately show ?thesis using kept u k(1) n(1) by auto
  qed
  then show ?thesis using kept writer_alone [OF inv'] by blast
qed

section \<open>The first writer gets in\<close>

text \<open>A client that runs alone, admitted by the process-local gate.\<close>

definition solo :: "string \<Rightarrow> client \<Rightarrow> lock_system \<Rightarrow> lock_system \<Rightarrow> bool" where
  "solo base c = (\<lambda>x y. advance base True c x = Some y)\<^sup>*\<^sup>*"

lemma solo_refl: "solo base c s s"
  by (simp add: solo_def)

lemma solo_trans: "solo base c s s' \<Longrightarrow> solo base c s' s'' \<Longrightarrow> solo base c s s''"
  unfolding solo_def by (rule rtranclp_trans)

lemma solo_step: "advance_pc base True c (pcs s c) (files s) = Some (fs', pc') \<Longrightarrow> solo base c s \<lparr>files = fs', pcs = (pcs s)(c := pc')\<rparr>"
  unfolding solo_def by (rule r_into_rtranclp) (simp add: advance_def)

lemma solo_inv: "solo base c s s' \<Longrightarrow> lock_inv base s \<Longrightarrow> lock_inv base s'"
  unfolding solo_def by (induction rule: rtranclp_induct) (auto intro: inv_advance)

lemma solo_steps: "solo base c s s' \<Longrightarrow> (lock_step base)\<^sup>*\<^sup>* s s'"
  unfolding solo_def by (rule rtranclp_mono [THEN predicate2D]) (auto intro: lock_step.advance)

lemma clean_entry_live:
  assumes "clean_entry base own name (fs, live) = (fs', live')" "\<forall>i \<in> set live. ticket base fs (fst i) (snd i)"
    and "\<And>t. own = Some t \<Longrightarrow> locked_by fs t \<noteq> None"
  shows "\<forall>i \<in> set live'. ticket base fs (fst i) (snd i)"
  using assms unfolding clean_entry_def by (auto simp: ticket_def split: option.splits if_splits)

lemma solo_scan:
  assumes "lock_inv base s" "pcs s c = Scans p todo live" "\<forall>i \<in> set live. ticket base (files s) (fst i) (snd i)"
  shows "\<exists>s' live'. solo base c s s' \<and> pcs s' c = Scans p [] live' \<and> (\<forall>i \<in> set live'. ticket base (files s') (fst i) (snd i)) \<and>
    readers (files s') = readers (files s) \<and> writer (files s') = writer (files s) \<and> ticket base (files s') = ticket base (files s)"
  using assms
proof (induction todo arbitrary: s live)
  case Nil
  then show ?case using solo_refl by blast
next
  case (Cons name names)
  obtain fs' live' where clean: "clean_entry base (own_ticket p) name (files s, live) = (fs', live')" by fastforce
  note f = clean_entry_files [OF clean]
  let ?s = "\<lparr>files = fs', pcs = (pcs s)(c := Scans p names live')\<rparr>"
  have go: "solo base c s ?s" by (rule solo_step) (simp add: advance_pc_def Cons.prems(2) clean)
  have t: "ticket base fs' = ticket base (files s)" by (rule same_tickets) (use f in simp)
  have "locked_by (files s) u \<noteq> None" if "own_ticket p = Some u" for u
    using own_ticket_locked [OF Cons.prems(1), of c u] that by (simp add: Cons.prems(2) ticket_of_def)
  then have "\<forall>i \<in> set live'. ticket base (files s) (fst i) (snd i)"
    by (rule clean_entry_live [OF clean Cons.prems(3)])
  with t have "\<forall>i \<in> set live'. ticket base (files ?s) (fst i) (snd i)" by simp
  from Cons.IH [OF solo_inv [OF go Cons.prems(1)] _ this] obtain s' live'' where
    "solo base c ?s s'" "pcs s' c = Scans p [] live''" "\<forall>i \<in> set live''. ticket base (files s') (fst i) (snd i)"
    "readers (files s') = readers fs'" "writer (files s') = writer fs'" "ticket base (files s') = ticket base fs'"
    by (auto simp del: split_paired_All)
  then show ?case using solo_trans [OF go] f t by metis
qed

lemma first_in_scan:
  assumes inv: "lock_inv base s" and pc: "pcs s c = Scans (ForWriter t) [] live"
    and live: "\<forall>i \<in> set live. ticket base (files s) (fst i) (snd i)" and first: "first_ticket base (files s) t"
  shows "live \<noteq> [] \<and> fst (hd (sorted_intents live)) = t"
proof
  have own: "ticket_of (pcs s c) = Some t" by (simp add: pc client_simps)
  obtain n where n: "t = writerTicketPath base n" "intent_sequence base t = Some n" "ticket base (files s) t n"
    by (rule own_ticket_number [OF inv own])
  have "(t, n) \<in> set live" using inv_client(3) [OF inv, of c] n(3) by (simp add: pc)
  then show ne: "live \<noteq> []" by auto
  obtain u k where u: "hd (sorted_intents live) = (u, k)" by fastforce
  obtain k' where k': "(u, k') \<in> set live" "\<forall>(j, m) \<in> set live. k' \<le> m"
    using sorted_first [OF ne, of u] u by auto
  have uk: "ticket base (files s) u k'" using live k'(1) by fastforce
  have "k' \<le> n" using k'(2) \<open>(t, n) \<in> set live\<close> by auto
  moreover have "n \<le> k'" using first n(2) uk by (auto simp: first_ticket_def)
  moreover obtain d where "ticket_of (pcs s d) = Some u" using ticket_holder [OF inv uk] by blast
  then obtain m where "u = writerTicketPath base m" "intent_sequence base u = Some m" by (rule own_ticket_number [OF inv])
  ultimately have "u = t" using uk n(1) by (auto simp: ticket_def)
  with u show "fst (hd (sorted_intents live)) = t" by simp
qed

lemma solo_entry:
  assumes inv: "lock_inv base s" and pc: "pcs s c = Scans (ForWriter t) [] live"
    and entry: "live \<noteq> [] \<and> fst (hd (sorted_intents live)) = t" and free: "readers (files s) = []" "writer (files s) = None"
  shows "\<exists>s'. solo base c s s' \<and> pcs s' c = Held Exclusive (Some t) \<and> coordinator (files s') = None"
proof -
  define s3 where "s3 = \<lparr>files = files s, pcs = (pcs s)(c := Enters Exclusive (Some t))\<rparr>"
  have go3: "solo base c s s3" unfolding s3_def
    by (rule solo_step) (use entry in \<open>simp add: advance_pc_def pc after_scan_def\<close>)
  define s4 where "s4 = \<lparr>files = (files s)\<lparr>writer := Some c\<rparr>, pcs = (pcs s3)(c := Settles t)\<rparr>"
  have go4: "solo base c s3 s4" unfolding s4_def
    by (rule solo_step) (simp add: advance_pc_def s3_def enter_def tryAcquireFileLock_def free)
  define s5 where "s5 = \<lparr>files = close_coordinator c (files s4), pcs = (pcs s4)(c := Held Exclusive (Some t))\<rparr>"
  have go5: "solo base c s4 s5" unfolding s5_def by (rule solo_step) (simp add: advance_pc_def s4_def)
  have run: "solo base c s s5" by (intro solo_trans [OF go3] solo_trans [OF go4] go5)
  have "coordinator (files s) = Some c" using inv_client(1) [OF inv, of c] pc by (simp add: holdings_def client_simps)
  then have "coordinator (files s5) = None" by (simp add: s5_def s4_def close_coordinator_def)
  with run show ?thesis by (intro exI [of _ s5]) (simp add: s5_def)
qed

lemma first_ticketI:
  assumes inv: "lock_inv base s" and n: "intent_sequence base t = Some n"
    and "\<And>d u. ticket_of (pcs s d) = Some u \<Longrightarrow> n \<le> the (intent_sequence base u)"
  shows "first_ticket base (files s) t"
  unfolding first_ticket_def
proof (intro exI [of _ n] conjI allI impI)
  show "n \<le> m" if t: "ticket base (files s) u m" for u m
    using ticket_holder [OF inv t] assms(3) t by (force simp: ticket_def)
qed (rule n)

text \<open>C37. Crashed writers do not stand in the way. A writer whose ticket is the smallest that is still locked, when
  nobody holds the lock or the coordinator, gets the lock by steps of its own alone (\<open>solo\<close> does not bound how many):
  whatever ticket files clients that died have left, and whatever the counter holds.\<close>

theorem first_writer_gets_in:
  assumes "(lock_step base)\<^sup>*\<^sup>* (lock_start dir counter) s" "pcs s c = Wants (ForWriter t)"
    and "\<And>d u. ticket_of (pcs s d) = Some u \<Longrightarrow> the (intent_sequence base t) \<le> the (intent_sequence base u)"
    and "coordinator (files s) = None" "readers (files s) = []" "writer (files s) = None"
  shows "\<exists>s'. solo base c s s' \<and> pcs s' c = Held Exclusive (Some t) \<and> coordinator (files s') = None"
proof -
  have inv: "lock_inv base s" by (rule wi.reachable_inv [OF assms(1)])
  obtain n where n: "intent_sequence base t = Some n"
    using own_ticket_number [OF inv, of c t] assms(2) by (auto simp: client_simps)
  have first: "first_ticket base (files s) t" by (rule first_ticketI [OF inv n]) (use assms(3) n in simp)
  define s1 where "s1 = \<lparr>files = (files s)\<lparr>coordinator := Some c\<rparr>, pcs = (pcs s)(c := Scans (ForWriter t) (map fst (directory (files s))) [])\<rparr>"
  have go1: "solo base c s s1" unfolding s1_def
    by (rule solo_step) (simp add: advance_pc_def assms(2,4) acquireCoordinator_def)
  have inv1: "lock_inv base s1" by (rule solo_inv [OF go1 inv])
  obtain s2 live where s2: "solo base c s1 s2" "pcs s2 c = Scans (ForWriter t) [] live"
      "\<forall>i \<in> set live. ticket base (files s2) (fst i) (snd i)" "readers (files s2) = []" "writer (files s2) = None"
      "ticket base (files s2) = ticket base (files s)"
    using solo_scan [OF inv1, of c "ForWriter t"] assms(5,6) by (auto simp: s1_def)
  have inv2: "lock_inv base s2" by (rule solo_inv [OF s2(1) inv1])
  have first2: "first_ticket base (files s2) t" using first s2(6) by (simp add: first_ticket_def)
  note entry = first_in_scan [OF inv2 s2(2,3) first2]
  from solo_entry [OF inv2 s2(2) entry s2(4,5)] obtain s3 where
    "solo base c s2 s3" "pcs s3 c = Held Exclusive (Some t)" "coordinator (files s3) = None" by blast
  then show ?thesis using solo_trans [OF go1 solo_trans [OF s2(1)]] by blast
qed

section \<open>A run\<close>

text \<open>\<open>drive\<close> lets clients go on one call at a time, in the order of a list.\<close>

fun drive :: "string \<Rightarrow> client list \<Rightarrow> lock_system \<Rightarrow> lock_system option" where
  "drive base [] s = Some s"
| "drive base (c # cs) s = Option.bind (advance base True c s) (drive base cs)"

lemma drive_steps: "drive base cs s = Some s' \<Longrightarrow> (lock_step base)\<^sup>*\<^sup>* s s'"
proof (induction cs arbitrary: s)
  case (Cons c cs)
  then obtain x where "advance base True c s = Some x" "drive base cs x = Some s'" by (auto simp: bind_eq_Some_conv)
  then show ?case using Cons.IH lock_step.advance by (blast intro: converse_rtranclp_into_rtranclp)
qed simp

lemma advance_others: "advance base admitted c s = Some s' \<Longrightarrow> d \<noteq> c \<Longrightarrow> pcs s' d = pcs s d"
  by (auto elim!: advance_elim)

lemma drive_waits:
  "drive base cs s = Some s' \<Longrightarrow> c \<notin> set cs \<Longrightarrow> ticket_of (pcs s c) = Some t \<Longrightarrow> waits base c t s s'"
proof (induction cs arbitrary: s)
  case Nil
  then show ?case by (simp add: waits_def)
next
  case (Cons d cs)
  then obtain x where x: "advance base True d s = Some x" "drive base cs x = Some s'" by (auto simp: bind_eq_Some_conv)
  have same: "pcs x c = pcs s c" using advance_others [OF x(1)] Cons.prems(2) by simp
  with Cons have "waits base c t x s'" using x(2) by simp
  moreover have "lock_step base s x" using x(1) by (rule lock_step.advance)
  ultimately show ?case
    unfolding waits_def using same Cons.prems(3) by (intro converse_rtranclp_into_rtranclp [of _ s x]) simp_all
qed

lemma drive_others: "drive base cs s = Some s' \<Longrightarrow> d \<notin> set cs \<Longrightarrow> pcs s' d = pcs s d"
proof (induction cs arbitrary: s)
  case (Cons c cs)
  then show ?case using advance_others by (fastforce simp: bind_eq_Some_conv)
qed simp

text \<open>Two clients take tickets.\<close>

definition two_callers :: lock_system where
  "two_callers = (lock_start [] '''')\<lparr>pcs := ((\<lambda>_. Outside)(0 := Wants ForTicket))(1 := Wants ForTicket)\<rparr>"

definition take_tickets :: "client list" where
  "take_tickets = replicate 5 0 @ replicate 6 1"

definition two_writers :: lock_system where
  "two_writers = the (drive ''l'' take_tickets two_callers)"

lemma two_callers_reachable: "(lock_step base)\<^sup>*\<^sup>* (lock_start [] '''') two_callers"
proof -
  let ?a = "lock_start [] ''''" and ?b = "(lock_start [] '''')\<lparr>pcs := (\<lambda>_. Outside)(0 := Wants ForTicket)\<rparr>"
  have "lock_step base ?a ?b" using lock_step.call [of ?a 0 ForTicket base] by (simp add: lock_start_def)
  moreover have "lock_step base ?b two_callers"
    using lock_step.call [of ?b 1 ForTicket base] by (simp add: lock_start_def two_callers_def)
  ultimately show ?thesis by (meson rtranclp.rtrancl_into_rtrancl rtranclp.rtrancl_refl)
qed

lemma tickets_taken:
  "drive ''l'' take_tickets two_callers \<noteq> None \<and>
   pcs two_writers 0 = Wants (ForWriter (writerTicketPath ''l'' 1)) \<and> pcs two_writers 1 = Wants (ForWriter (writerTicketPath ''l'' 2))"
  by code_simp

lemma first_goes_on:
  "(case drive ''l'' (replicate 6 0) two_writers of
      Some s \<Rightarrow> pcs s 0 = Held Exclusive (Some (writerTicketPath ''l'' 1)) \<and> pcs s 1 = pcs two_writers 1 | None \<Rightarrow> False)"
  by code_simp


lemma two_writers_reachable: "(lock_step ''l'')\<^sup>*\<^sup>* (lock_start [] '''') two_writers"
proof -
  have "drive ''l'' take_tickets two_callers = Some two_writers" using tickets_taken by (auto simp: two_writers_def)
  from rtranclp_trans [OF two_callers_reachable drive_steps [OF this]] show ?thesis .
qed

theorem waiting_writer_is_not_overtaken_witness:
  "\<exists>s. waits ''l'' 1 (writerTicketPath ''l'' 2) two_writers s \<and>
     ticket_of (pcs two_writers 0) = Some (writerTicketPath ''l'' 1) \<and> (\<forall>d. pcs s d = Held Shared None \<longrightarrow> pcs two_writers d = Held Shared None)"
proof -
  obtain s where s: "drive ''l'' (replicate 6 0) two_writers = Some s" "pcs s 0 = Held Exclusive (Some (writerTicketPath ''l'' 1))"
    using first_goes_on by (auto split: option.splits)
  have own: "ticket_of (pcs two_writers 1) = Some (writerTicketPath ''l'' 2)" using tickets_taken by (simp add: client_simps)
  have run: "waits ''l'' 1 (writerTicketPath ''l'' 2) two_writers s" by (rule drive_waits [OF s(1) _ own]) simp
  from waiting_writer_is_not_overtaken [OF two_writers_reachable own run] s(2) run show ?thesis
    by (intro exI [of _ s]) simp
qed

text \<open>The first of the two dies; the second is now the first.\<close>

lemma after_crash:
  "pcs (crash 0 two_writers) 0 = Outside \<and> pcs (crash 0 two_writers) 1 = Wants (ForWriter (writerTicketPath ''l'' 2)) \<and>
   coordinator (files (crash 0 two_writers)) = None \<and> readers (files (crash 0 two_writers)) = [] \<and>
   writer (files (crash 0 two_writers)) = None \<and> length (directory (files (crash 0 two_writers))) = 2"
  by code_simp

theorem first_writer_gets_in_witness:
  "\<exists>s. solo ''l'' 1 (crash 0 two_writers) s \<and> pcs s 1 = Held Exclusive (Some (writerTicketPath ''l'' 2))"
proof -
  let ?s = "crash 0 two_writers"
  have reach: "(lock_step ''l'')\<^sup>*\<^sup>* (lock_start [] '''') ?s"
    by (rule rtranclp.rtrancl_into_rtrancl [OF two_writers_reachable lock_step.crash])
  have other: "pcs ?s d = Outside" if "d \<notin> {0, 1}" for d
  proof -
    have "drive ''l'' take_tickets two_callers = Some two_writers" using tickets_taken by (auto simp: two_writers_def)
    from drive_others [OF this, of d] that show ?thesis
      by (simp add: crash_def take_tickets_def two_callers_def lock_start_def)
  qed
  have least: "the (intent_sequence ''l'' (writerTicketPath ''l'' 2)) \<le> the (intent_sequence ''l'' u)"
    if "ticket_of (pcs ?s d) = Some u" for d u
  proof -
    have "d = 1" using that other [of d] after_crash by (cases "d = 0 \<or> d = 1") (auto simp: client_simps)
    then show ?thesis using that after_crash by (simp add: client_simps)
  qed
  have "\<exists>s'. solo ''l'' 1 ?s s' \<and> pcs s' 1 = Held Exclusive (Some (writerTicketPath ''l'' 2)) \<and> coordinator (files s') = None"
    by (rule first_writer_gets_in [OF reach _ least]) (use after_crash in simp_all)
  then show ?thesis by blast
qed

end
