(* ===== verification/Embedding.thy ===== *)
theory Embedding
  imports ChunkIdentity
begin

text \<open>
  Embedding profiles and stored vectors (\<open>profile.go\<close> and \<open>vector.go\<close> of
  \<open>internal/embedding\<close>, \<open>Profile\<close> of \<open>internal/semanticbuild/embed.go\<close>). A 32 bit float is its
  bits: storing and loading vectors never looks at their value.
\<close>

section \<open>Profiles\<close>

definition profileIDVersion :: string where "profileIDVersion = ''embedding-profile-v1''"
definition RepresentationDenseF32 :: string where "RepresentationDenseF32 = ''dense_f32''"
definition NormalizationL2 :: string where "NormalizationL2 = ''l2''"
definition NormalizationNone :: string where "NormalizationNone = ''none''"

record profile =
  pf_Provider :: string
  pf_Model :: string
  pf_ProjectionVersion :: string
  pf_ChunkerVersion :: string
  pf_Representation :: string
  pf_Normalization :: string
  pf_Dimensions :: int

record provider_info =
  info_Provider :: string
  info_Model :: string
  info_Dimensions :: int

definition profile_normalized :: "profile \<Rightarrow> profile" where
  "profile_normalized p =
     \<lparr>pf_Provider = TrimSpace (pf_Provider p), pf_Model = TrimSpace (pf_Model p),
      pf_ProjectionVersion = TrimSpace (pf_ProjectionVersion p), pf_ChunkerVersion = TrimSpace (pf_ChunkerVersion p),
      pf_Representation = TrimSpace (pf_Representation p), pf_Normalization = TrimSpace (pf_Normalization p),
      pf_Dimensions = pf_Dimensions p\<rparr>"

datatype profile_error = ProviderRequired | ModelRequired | ProjectionVersionRequired | ChunkerVersionRequired
  | UnsupportedRepresentation string | UnsupportedNormalization string | DimensionsNotPositive

definition profile_validate :: "profile \<Rightarrow> profile_error option" where
  "profile_validate p = (let p = profile_normalized p in
     if pf_Provider p = [] then Some ProviderRequired
     else if pf_Model p = [] then Some ModelRequired
     else if pf_ProjectionVersion p = [] then Some ProjectionVersionRequired
     else if pf_ChunkerVersion p = [] then Some ChunkerVersionRequired
     else if pf_Representation p \<noteq> RepresentationDenseF32 then Some (UnsupportedRepresentation (pf_Representation p))
     else if pf_Normalization p \<noteq> NormalizationL2 \<and> pf_Normalization p \<noteq> NormalizationNone
     then Some (UnsupportedNormalization (pf_Normalization p))
     else if pf_Dimensions p \<le> 0 then Some DimensionsNotPositive else None)"

definition writeProfileField :: "string \<Rightarrow> string \<Rightarrow> string" where
  "writeProfileField value h = h @ lengthPrefix (length value) @ value"

definition profile_fields :: "profile \<Rightarrow> string list" where
  "profile_fields p = [profileIDVersion, pf_Provider p, pf_Model p, pf_ProjectionVersion p, pf_ChunkerVersion p,
     pf_Representation p, pf_Normalization p, dec_digits (pf_Dimensions p)]"

definition profile_ID :: "profile \<Rightarrow> profile_error + string" where
  "profile_ID p = (let p = profile_normalized p in
     case profile_validate p of Some e \<Rightarrow> Inl e
     | None \<Rightarrow> Inr (profileIDVersion @ '':'' @ sha256_hex 32 (fold writeProfileField (profile_fields p) [])))"

text \<open>\<open>semanticbuild.Profile(info)\<close>\<close>

definition provider_profile :: "provider_info \<Rightarrow> profile" where
  "provider_profile info =
     \<lparr>pf_Provider = info_Provider info, pf_Model = info_Model info, pf_ProjectionVersion = ProjectionVersion,
      pf_ChunkerVersion = Version, pf_Representation = RepresentationDenseF32, pf_Normalization = NormalizationL2,
      pf_Dimensions = info_Dimensions info\<rparr>"

section \<open>Vectors\<close>

definition PutUint32 :: "32 word \<Rightarrow> string" where
  "PutUint32 w = map (\<lambda>i. char_of (unat w div 256 ^ i mod 256)) [0, 1, 2, 3]"

definition Uint32 :: "string \<Rightarrow> 32 word" where
  "Uint32 s = of_nat (foldr (\<lambda>c n. of_char c + 256 * n) s (0 :: nat))"

definition EncodeDenseF32 :: "32 word list \<Rightarrow> string" where
  "EncodeDenseF32 vector = concat (map PutUint32 vector)"

datatype vector_error = VectorDimensionsNotPositive | VectorCapacityExceeded | VectorLengthMismatch

definition DecodeDenseF32 :: "string \<Rightarrow> int \<Rightarrow> vector_error + 32 word list" where
  "DecodeDenseF32 encoded dimensions =
     (if dimensions \<le> 0 then Inl VectorDimensionsNotPositive
      else if (2 ^ 63 - 1) div 4 < dimensions then Inl VectorCapacityExceeded
      else if int (length encoded) \<noteq> dimensions * 4 then Inl VectorLengthMismatch
      else Inr (map Uint32 (blocks_of 4 encoded)))"

lemma length_PutUint32 [simp]: "length (PutUint32 w) = 4"
  by (simp add: PutUint32_def)

lemma length_EncodeDenseF32 [simp]: "length (EncodeDenseF32 v) = 4 * length v"
  by (induction v) (simp_all add: EncodeDenseF32_def)

lemma digits4:
  fixes n :: nat
  assumes "n < 2 ^ 32"
  shows "n mod 256 + 256 * (n div 256 mod 256 + 256 * (n div 65536 mod 256 + 256 * (n div 16777216 mod 256))) = n"
proof -
  have "n div 16777216 mod 256 = n div 16777216" using assms by simp
  moreover have "n div 65536 mod 256 + 256 * (n div 65536 div 256) = n div 65536"
    "n div 256 mod 256 + 256 * (n div 256 div 256) = n div 256" by (simp_all only: mod_mult_div_eq)
  ultimately show ?thesis by (simp add: div_mult2_eq [symmetric])
qed

lemma Uint32_PutUint32 [simp]: "Uint32 (PutUint32 w) = w"
proof -
  have "unat w < 2 ^ 32" using unsigned_less [of w] by simp
  note n = digits4 [OF this]
  have "Uint32 (PutUint32 w) = of_nat (unat w mod 256 + 256 * (unat w div 256 mod 256 +
      256 * (unat w div 65536 mod 256 + 256 * (unat w div 16777216 mod 256))))"
    by (simp only: Uint32_def PutUint32_def list.map foldr.simps comp_def id_apply of_char_of power_0 div_by_1) simp
  also have "\<dots> = w" unfolding n by simp
  finally show ?thesis .
qed

lemma bytes4:
  fixes a b c d :: nat
  assumes "a < 256" "b < 256" "c < 256" "d < 256"
  shows "a + 256 * (b + 256 * (c + 256 * d)) < 2 ^ 32"
  using assms by simp

lemma byte_mod: "a < 256 \<Longrightarrow> (a + 256 * m) mod 256 = a" for a m :: nat by simp

lemma byte_div: "a < 256 \<Longrightarrow> (a + 256 * m) div 256 = m" for a m :: nat by simp

lemma PutUint32_Uint32:
  assumes "length s = 4"
  shows "PutUint32 (Uint32 s) = s"
proof -
  obtain a b c d where s: "s = [a, b, c, d]"
    using assms by (auto simp: numeral_eq_Suc length_Suc_conv)
  define n :: nat where "n = of_char a + 256 * (of_char b + 256 * (of_char c + 256 * of_char d))"
  have lt: "(of_char x :: nat) < 256" for x by simp
  have n: "n < 2 ^ 32" unfolding n_def by (rule bytes4 [OF lt lt lt lt])
  then have "unat (of_nat n :: 32 word) = n" by (simp add: unat_of_nat)
  moreover have "Uint32 s = of_nat n" by (simp add: Uint32_def s n_def)
  ultimately have "PutUint32 (Uint32 s) = map (\<lambda>i. char_of (n div 256 ^ i mod 256)) [0, 1, 2, 3]"
    by (simp add: PutUint32_def)
  moreover have "map (\<lambda>i. char_of (n div 256 ^ i mod 256)) [0, 1, 2, 3] = s"
  proof -
    have 0: "n mod 256 = of_char a" unfolding n_def by (rule byte_mod [OF lt])
    have 1: "n div 256 = of_char b + 256 * (of_char c + 256 * of_char d)" unfolding n_def by (rule byte_div [OF lt])
    have 2: "n div 65536 = of_char c + 256 * of_char d"
    proof -
      have "n div 65536 = n div 256 div 256" by (simp add: div_mult2_eq [symmetric])
      then show ?thesis unfolding 1 by (simp only: byte_div [OF lt])
    qed
    have 3: "n div 16777216 = of_char d"
    proof -
      have "n div 16777216 = n div 65536 div 256" by (simp add: div_mult2_eq [symmetric])
      then show ?thesis unfolding 2 by (simp only: byte_div [OF lt])
    qed
    have char: "char_of k = x" if "k mod 256 = of_char x" for k :: nat and x
      using char_of_mod_256 [of k] by (simp add: that del: char_of_mod_256)
    show ?thesis
      using char [OF 0] char [OF byte_mod [OF lt [of b]]] char [OF byte_mod [OF lt [of c]]] 1 2 3
      by (simp add: s del: distrib_left_numeral)
  qed
  ultimately show ?thesis by simp
qed

lemma blocks_of_concat:
  "0 < k \<Longrightarrow> list_all (\<lambda>b. length b = k) bs \<Longrightarrow> blocks_of k (concat bs) = bs"
proof (induction bs)
  case Nil
  then show ?case by (simp add: blocks_of.simps)
next
  case (Cons b bs)
  then show ?case by (subst concat.simps, subst blocks_of.simps) auto
qed

lemma blocks_of_exact: "length xs = k * n \<Longrightarrow> 0 < k \<Longrightarrow> list_all (\<lambda>b. length b = k) (blocks_of k xs) \<and> length (blocks_of k xs) = n"
proof (induction k xs arbitrary: n rule: blocks_of.induct)
  case (1 k xs)
  show ?case
  proof (cases "xs = []")
    case True
    then show ?thesis using 1(2,3) by (simp add: blocks_of.simps)
  next
    case False
    then obtain m where n: "n = Suc m" using 1(2) by (cases n) auto
    have "list_all (\<lambda>b. length b = k) (blocks_of k (drop k xs)) \<and> length (blocks_of k (drop k xs)) = m"
      using False 1(2,3) by (intro 1(1)) (auto simp: n)
    then show ?thesis using False 1(2,3) n by (subst (1 2) blocks_of.simps) simp
  qed
qed

text \<open>Stored vectors survive: loading the stored bytes of a vector gives the vector back, bit for bit, and every byte
  string that loads is the stored form of what was loaded, with the declared number of values; all other
  byte strings and dimensions are refused.\<close>

theorem vectors_survive_storage:
  "DecodeDenseF32 encoded dimensions = Inr vector \<longleftrightarrow>
    encoded = EncodeDenseF32 vector \<and> int (length vector) = dimensions \<and> vector \<noteq> [] \<and> dimensions \<le> (2 ^ 63 - 1) div 4"
  (is "?load \<longleftrightarrow> ?stored")
proof
  assume load: ?load
  then have d: "0 < dimensions" "dimensions \<le> (2 ^ 63 - 1) div 4" "int (length encoded) = dimensions * 4"
    and v: "vector = map Uint32 (blocks_of 4 encoded)"
    by (auto simp: DecodeDenseF32_def split: if_splits)
  have len: "length encoded = 4 * nat dimensions" using d(1,3) by linarith
  note blocks = blocks_of_exact [OF len]
  have "map (PutUint32 \<circ> Uint32) (blocks_of 4 encoded) = blocks_of 4 encoded"
    using blocks by (intro map_idI) (auto simp: list_all_iff PutUint32_Uint32)
  then have "EncodeDenseF32 vector = encoded"
    using concat_blocks [of 4 encoded] by (simp add: EncodeDenseF32_def v)
  moreover have "int (length vector) = dimensions" using blocks d(1) by (simp add: v)
  ultimately show ?stored using d by auto
next
  assume stored: ?stored
  then have "0 < dimensions" by auto
  moreover have "blocks_of 4 (EncodeDenseF32 vector) = map PutUint32 vector"
    unfolding EncodeDenseF32_def by (rule blocks_of_concat) (simp_all add: list_all_iff)
  then have "map Uint32 (blocks_of 4 encoded) = vector" using stored by (simp add: comp_def)
  ultimately show ?load using stored by (auto simp: DecodeDenseF32_def)
qed

section \<open>Profile identities\<close>

lemma profile_bytes: "fold writeProfileField vs [] = identity_bytes vs"
proof -
  have "fold writeProfileField vs h = h @ identity_bytes vs" for h
    by (induction vs arbitrary: h) (simp_all add: identity_bytes_def writeProfileField_def)
  then show ?thesis by simp
qed

definition read_digits :: "string \<Rightarrow> int" where
  "read_digits s = foldl (\<lambda>n c. 10 * n + (of_char c - 48)) 0 s"

lemma read_dec_digits: "0 \<le> n \<Longrightarrow> read_digits (dec_digits n) = n"
proof (induction n rule: dec_digits.induct)
  case (1 n)
  show ?case
  proof (cases "n < 10")
    case True
    then show ?thesis using 1(2) by (subst dec_digits.simps) (simp add: read_digits_def)
  next
    case False
    moreover have "(48 + n mod 10) mod 256 = 48 + n mod 10" by (intro mod_pos_pos_trivial) auto
    ultimately show ?thesis
      using 1 by (subst dec_digits.simps) (simp add: read_digits_def)
  qed
qed

lemma dec_digits_inject: "0 \<le> m \<Longrightarrow> 0 \<le> n \<Longrightarrow> dec_digits m = dec_digits n \<longleftrightarrow> m = n"
  by (metis read_dec_digits)

definition profile_bounded :: "profile \<Rightarrow> bool" where
  "profile_bounded p \<longleftrightarrow> encodable (profile_fields (profile_normalized p))"

text \<open>Two profiles with the same bytes under the hash are the same up to white space.\<close>

lemma profile_bytes_inject:
  assumes "profile_bounded p" "profile_bounded q" "profile_validate p = None" "profile_validate q = None"
    and "fold writeProfileField (profile_fields (profile_normalized p)) [] =
      fold writeProfileField (profile_fields (profile_normalized q)) []"
  shows "profile_normalized p = profile_normalized q"
proof -
  have "profile_fields (profile_normalized p) = profile_fields (profile_normalized q)"
    using assms by (simp add: profile_bytes profile_bounded_def identity_bytes_inject)
  moreover have "0 < pf_Dimensions p" "0 < pf_Dimensions q"
    using assms(3,4) by (auto simp: profile_validate_def profile_normalized_def Let_def split: if_splits)
  ultimately show ?thesis
    by (auto simp: profile_fields_def profile_normalized_def dec_digits_inject)
qed

end
