(* ===== verification/IndexStore.thy ===== *)
theory IndexStore
  imports Embedding TextOrder GoStrings
begin

text \<open>
  The tables of embeddings and of index generations (\<open>retrieval_embeddings.go\<close>,
  \<open>retrieval_embedding_profiles.go\<close>, \<open>retrieval_index_segments.go\<close> of \<open>internal/store\<close>).

  An embedding is stored per chunk and profile; each batch that changes something gets the next revision of
  its profile. An index generation is a set of immutable segments, whose members are chunks at a revision and a vector
  hash. A ready embedding that no member of the active generation describes is in the exact tail (L0); a member that no
  ready embedding matches is a tombstone. Both are counted in the row of the profile, which every operation
  keeps by its own difference; \<open>countRetrievalGenerationCountersTx\<close> counts them from the tables.

  A transaction that fails changes nothing, so that an operation is an error or a new state. Texts of errors, the
  columns \<open>last_error\<close> and \<open>updated_at\<close> are left out.
\<close>

unbundle bit_operations_syntax

section \<open>Tables\<close>

record stored_chunk =
  sc_ChunkID :: string
  sc_ParentKind :: string
  sc_ParentSourceKey :: string
  sc_ProjectionVersion :: string
  sc_ChunkerVersion :: string
  sc_ChunkTextHash :: string
  sc_Text :: string

record embedding_row =
  em_ChunkID :: string
  em_ProfileID :: string
  em_Provider :: string
  em_Model :: string
  em_Dimensions :: int
  em_Representation :: string
  em_Normalization :: string
  em_VectorBytes :: string
  em_ChunkTextHash :: string
  em_Status :: string
  em_AttemptCount :: int
  em_LastError :: string
  em_NextAttemptAt :: gotime
  em_EmbeddedAt :: gotime

record stored_embedding =
  se_Provider :: string
  se_Model :: string
  se_Dimensions :: int
  se_Representation :: string
  se_Normalization :: string
  se_VectorBytes :: string
  se_VectorHash :: string
  se_ChunkTextHash :: string
  se_Status :: string
  se_AttemptCount :: int
  se_NextAttemptAt :: string
  se_EmbeddedAt :: string
  se_Revision :: int

record stored_profile =
  sp_Profile :: profile
  sp_LatestRevision :: int
  sp_PurgeEpoch :: int
  sp_ActiveGenerationID :: string
  sp_ActiveSnapshotRevision :: int
  sp_ActiveIndexedCount :: int
  sp_L0ReadyCount :: int
  sp_ActiveTombstoneCount :: int

record index_segment =
  is_SegmentHash :: string
  is_ProfileID :: string
  is_Backend :: string
  is_BackendVersion :: string
  is_DistanceMetric :: string
  is_RelativeCachePath :: string
  is_Dimensions :: int
  is_IndexedChunkCount :: int
  is_MembershipHash :: string
  is_PayloadHash :: string
  is_ManifestHash :: string

record segment_member =
  sm_SegmentHash :: string
  sm_Ordinal :: nat
  sm_ChunkID :: string
  sm_Revision :: int
  sm_VectorHash :: string

text \<open>\<open>db_generations\<close> holds the profile of a generation, \<open>db_segmentsOf\<close> the table
  \<open>retrieval_generation_segments\<close>.\<close>

record index_db =
  db_chunks :: "stored_chunk list"
  db_currentParents :: "(string \<times> string) list"
  db_embeddings :: "(string \<times> string, stored_embedding) gomap"
  db_profiles :: "(string, stored_profile) gomap"
  db_generations :: "(string, string) gomap"
  db_segmentsOf :: "(string \<times> string) list"
  db_segments :: "(string, index_segment) gomap"
  db_members :: "segment_member list"
  db_purgeEpoch :: int

definition RetrievalEmbeddingPending :: string where "RetrievalEmbeddingPending = ''pending''"
definition RetrievalEmbeddingReady :: string where "RetrievalEmbeddingReady = ''ready''"
definition RetrievalEmbeddingBlocked :: string where "RetrievalEmbeddingBlocked = ''blocked''"
definition RetrievalEmbeddingError :: string where "RetrievalEmbeddingError = ''error''"
definition maxRetrievalEmbeddingBatchSize :: nat where "maxRetrievalEmbeddingBatchSize = 5000"

lemmas embedding_statuses = RetrievalEmbeddingPending_def RetrievalEmbeddingReady_def RetrievalEmbeddingBlocked_def
  RetrievalEmbeddingError_def

definition formatOptionalTime :: "gotime \<Rightarrow> string" where
  "formatOptionalTime t = (if t_isZero t then [] else rfc3339 (t_utc t))"

definition retrievalVectorHash :: "string \<Rightarrow> string" where
  "retrievalVectorHash bytes = sha256_hex 32 bytes"

definition find_chunk :: "index_db \<Rightarrow> string \<Rightarrow> stored_chunk option" where
  "find_chunk db chunk = find (\<lambda>c. sc_ChunkID c = chunk) (db_chunks db)"

definition parent_current :: "index_db \<Rightarrow> stored_chunk \<Rightarrow> bool" where
  "parent_current db c \<longleftrightarrow> (sc_ParentKind c, sc_ParentSourceKey c) \<in> set (db_currentParents db)"

section \<open>What an index generation covers\<close>

text \<open>The join of the segments of a generation with their members.\<close>

definition generation_members :: "index_db \<Rightarrow> string \<Rightarrow> segment_member list" where
  "generation_members db generation =
     concat (map (\<lambda>(_, h). filter (\<lambda>m. sm_SegmentHash m = h) (db_members db)) (filter (\<lambda>(g, _). g = generation) (db_segmentsOf db)))"

definition describes :: "segment_member \<Rightarrow> string \<Rightarrow> stored_embedding \<Rightarrow> bool" where
  "describes m chunk e \<longleftrightarrow> sm_ChunkID m = chunk \<and> sm_Revision m = se_Revision e \<and> sm_VectorHash m = se_VectorHash e"

definition in_generation :: "index_db \<Rightarrow> string \<Rightarrow> string \<Rightarrow> stored_embedding \<Rightarrow> bool" where
  "in_generation db generation chunk e \<longleftrightarrow> list_ex (\<lambda>m. describes m chunk e) (generation_members db generation)"

definition retrievalEmbeddingHasActiveMembershipTx :: "index_db \<Rightarrow> string \<Rightarrow> string \<Rightarrow> stored_embedding \<Rightarrow> bool" where
  "retrievalEmbeddingHasActiveMembershipTx db generation chunk e \<longleftrightarrow>
     generation \<noteq> [] \<and> se_Status e = RetrievalEmbeddingReady \<and> in_generation db generation chunk e"

definition ready_outside :: "index_db \<Rightarrow> string \<Rightarrow> string \<Rightarrow> ((string \<times> string) \<times> stored_embedding) list" where
  "ready_outside db profileID generation = filter (\<lambda>((chunk, p), e). p = profileID \<and> se_Status e = RetrievalEmbeddingReady \<and>
     \<not> in_generation db generation chunk e) (db_embeddings db)"

definition member_usable :: "index_db \<Rightarrow> string \<Rightarrow> segment_member \<Rightarrow> bool" where
  "member_usable db profileID m \<longleftrightarrow> (case gm_get (db_embeddings db) (sm_ChunkID m, profileID) of
     Some e \<Rightarrow> se_Status e = RetrievalEmbeddingReady \<and> describes m (sm_ChunkID m) e | None \<Rightarrow> False)"

definition countRetrievalGenerationCountersTx :: "index_db \<Rightarrow> string \<Rightarrow> string \<Rightarrow> int \<times> int" where
  "countRetrievalGenerationCountersTx db profileID generation =
     (int (length (ready_outside db profileID generation)),
      int (length (filter (\<lambda>m. \<not> member_usable db profileID m) (generation_members db generation))))"

section \<open>Writing embeddings\<close>

datatype store_error = InvalidBatch | EpochChanged | ProfileMismatch | ChunkMissing string | CorruptEmbedding string
  | ProvenanceMismatch string | AggregateDrift string | ProfileNotFound string | NoLongerCorrupt string | ActivationStale
  | InvalidCompletion | MemberMismatch string | SegmentConflict string | IndexedCountMismatch | DuplicateMembership

text \<open>\<open>unit_norm\<close> says whether the Euclidean norm of a vector is 1 within the tolerance, which is floating point arithmetic; infinite
  values and values that are no numbers have all bits of the exponent set.\<close>

definition finite_f32 :: "32 word \<Rightarrow> bool" where
  "finite_f32 w \<longleftrightarrow> drop_bit 23 w AND 0xFF \<noteq> 0xFF"

definition ValidateDenseF32 :: "(32 word list \<Rightarrow> bool) \<Rightarrow> 32 word list \<Rightarrow> int \<Rightarrow> string \<Rightarrow> bool" where
  "ValidateDenseF32 unit_norm vector dimensions normalization \<longleftrightarrow> 0 < dimensions \<and> int (length vector) = dimensions \<and> list_all finite_f32 vector \<and>
     (normalization = NormalizationNone \<or> normalization = NormalizationL2 \<and> unit_norm vector)"

definition ValidateEncodedVector :: "(32 word list \<Rightarrow> bool) \<Rightarrow> string \<Rightarrow> int \<Rightarrow> string \<Rightarrow> string \<Rightarrow> bool" where
  "ValidateEncodedVector unit_norm encoded dimensions representation normalization \<longleftrightarrow>
     representation = RepresentationDenseF32 \<and>
     (case DecodeDenseF32 encoded dimensions of Inl _ \<Rightarrow> False | Inr vector \<Rightarrow> ValidateDenseF32 unit_norm vector dimensions normalization)"

definition validRetrievalEmbeddingStatus :: "string \<Rightarrow> bool" where
  "validRetrievalEmbeddingStatus status \<longleftrightarrow>
     status \<in> {RetrievalEmbeddingPending, RetrievalEmbeddingReady, RetrievalEmbeddingBlocked, RetrievalEmbeddingError}"

fun validate_rows :: "(32 word list \<Rightarrow> bool) \<Rightarrow> profile \<Rightarrow> string \<Rightarrow> string list \<Rightarrow> embedding_row list \<Rightarrow>
    store_error + embedding_row list" where
  "validate_rows unit_norm profile profileID seen [] = Inr []"
| "validate_rows unit_norm profile profileID seen (row # rows) =
     (if TrimSpace (em_ChunkID row) = [] \<or> TrimSpace (em_ProfileID row) = [] then Inl InvalidBatch
      else if em_ProfileID row \<noteq> profileID then Inl InvalidBatch
      else if em_ChunkID row \<in> set seen then Inl InvalidBatch
      else if em_Provider row \<noteq> pf_Provider profile \<or> em_Model row \<noteq> pf_Model profile \<or> em_Dimensions row \<noteq> pf_Dimensions profile \<or>
        em_Representation row \<noteq> pf_Representation profile \<or> em_Normalization row \<noteq> pf_Normalization profile then Inl InvalidBatch
      else let row = (if em_Status row = [] then row\<lparr>em_Status := RetrievalEmbeddingPending\<rparr> else row) in
        if \<not> validRetrievalEmbeddingStatus (em_Status row) then Inl InvalidBatch
        else if em_Status row = RetrievalEmbeddingReady \<and>
          \<not> ValidateEncodedVector unit_norm (em_VectorBytes row) (em_Dimensions row) (em_Representation row) (em_Normalization row)
        then Inl (CorruptEmbedding (em_ChunkID row))
        else (case validate_rows unit_norm profile profileID (em_ChunkID row # seen) rows of
            Inl e \<Rightarrow> Inl e | Inr rs \<Rightarrow> Inr (row # rs)))"

definition validateRetrievalEmbeddingBatch :: "(32 word list \<Rightarrow> bool) \<Rightarrow> profile \<Rightarrow> string \<Rightarrow> embedding_row list \<Rightarrow>
    store_error + embedding_row list" where
  "validateRetrievalEmbeddingBatch unit_norm profile profileID input =
     (if profile_validate profile \<noteq> None then Inl InvalidBatch
      else if input = [] \<or> maxRetrievalEmbeddingBatchSize < length input then Inl InvalidBatch
      else validate_rows unit_norm profile profileID [] input)"

text \<open>The row of the profile, made when it is missing.\<close>

definition ensureRetrievalEmbeddingProfileTx :: "index_db \<Rightarrow> string \<Rightarrow> int \<Rightarrow> profile \<Rightarrow> store_error + stored_profile" where
  "ensureRetrievalEmbeddingProfileTx db profileID purgeEpoch profile =
     (let row = (case gm_get (db_profiles db) profileID of Some row \<Rightarrow> row
        | None \<Rightarrow> \<lparr>sp_Profile = profile, sp_LatestRevision = 0, sp_PurgeEpoch = purgeEpoch, sp_ActiveGenerationID = [],
            sp_ActiveSnapshotRevision = 0, sp_ActiveIndexedCount = 0, sp_L0ReadyCount = 0, sp_ActiveTombstoneCount = 0\<rparr>) in
      if sp_PurgeEpoch row \<noteq> purgeEpoch then Inl EpochChanged
      else if sp_Profile row \<noteq> profile then Inl ProfileMismatch
      else if hasPrefix profileID (profileIDVersion @ '':'') \<and> (case profile_ID profile of Inr i \<Rightarrow> i \<noteq> profileID | Inl _ \<Rightarrow> False)
      then Inl ProfileMismatch
      else Inr row)"

fun check_chunks :: "index_db \<Rightarrow> profile \<Rightarrow> embedding_row list \<Rightarrow> store_error option" where
  "check_chunks db profile [] = None"
| "check_chunks db profile (row # rows) =
     (case find_chunk db (em_ChunkID row) of
        None \<Rightarrow> Some (ChunkMissing (em_ChunkID row))
      | Some c \<Rightarrow>
          if em_ChunkTextHash row \<noteq> sc_ChunkTextHash c then Some (CorruptEmbedding (em_ChunkID row))
          else if sc_ProjectionVersion c \<noteq> pf_ProjectionVersion profile \<or> sc_ChunkerVersion c \<noteq> pf_ChunkerVersion profile
          then Some (ProvenanceMismatch (em_ChunkID row))
          else check_chunks db profile rows)"

definition retrievalEmbeddingMembershipEqual :: "stored_embedding \<Rightarrow> embedding_row \<Rightarrow> bool" where
  "retrievalEmbeddingMembershipEqual old next \<longleftrightarrow>
     se_Provider old = em_Provider next \<and> se_Model old = em_Model next \<and> se_Dimensions old = em_Dimensions next \<and>
     se_Representation old = em_Representation next \<and> se_Normalization old = em_Normalization next \<and>
     se_VectorBytes old = em_VectorBytes next \<and> se_ChunkTextHash old = em_ChunkTextHash next \<and> se_Status old = em_Status next"

definition membership_changed :: "index_db \<Rightarrow> string \<Rightarrow> embedding_row \<Rightarrow> bool" where
  "membership_changed db profileID row = (case gm_get (db_embeddings db) (em_ChunkID row, profileID) of
     None \<Rightarrow> True | Some old \<Rightarrow> \<not> retrievalEmbeddingMembershipEqual old row)"

text \<open>What a row adds to the two counters.\<close>

definition row_deltas :: "index_db \<Rightarrow> string \<Rightarrow> string \<Rightarrow> embedding_row \<Rightarrow> int \<times> int" where
  "row_deltas db profileID generation row =
     (if \<not> membership_changed db profileID row then (0, 0)
      else let old = gm_get (db_embeddings db) (em_ChunkID row, profileID);
          oldReady = (case old of Some e \<Rightarrow> se_Status e = RetrievalEmbeddingReady | None \<Rightarrow> False);
          oldActiveMember = (oldReady \<and> retrievalEmbeddingHasActiveMembershipTx db generation (em_ChunkID row) (the old))
        in ((if oldReady \<and> \<not> oldActiveMember then - 1 else 0) + (if em_Status row = RetrievalEmbeddingReady then 1 else 0),
            if oldActiveMember then 1 else 0))"

definition stored_row :: "int \<Rightarrow> embedding_row \<Rightarrow> stored_embedding" where
  "stored_row revision row =
     \<lparr>se_Provider = em_Provider row, se_Model = em_Model row, se_Dimensions = em_Dimensions row,
      se_Representation = em_Representation row, se_Normalization = em_Normalization row, se_VectorBytes = em_VectorBytes row,
      se_VectorHash = retrievalVectorHash (em_VectorBytes row), se_ChunkTextHash = em_ChunkTextHash row, se_Status = em_Status row,
      se_AttemptCount = em_AttemptCount row, se_NextAttemptAt = formatOptionalTime (em_NextAttemptAt row),
      se_EmbeddedAt = formatOptionalTime (em_EmbeddedAt row), se_Revision = revision\<rparr>"

definition put_row :: "index_db \<Rightarrow> string \<Rightarrow> int \<Rightarrow> embedding_row \<Rightarrow> (string \<times> string, stored_embedding) gomap \<Rightarrow>
    (string \<times> string, stored_embedding) gomap" where
  "put_row db profileID revision row table =
     (let rowRevision = (if membership_changed db profileID row then revision
        else se_Revision (the (gm_get (db_embeddings db) (em_ChunkID row, profileID))))
      in gm_put (em_ChunkID row, profileID) (stored_row rowRevision row) table)"

definition PutRetrievalEmbeddingBatch :: "(32 word list \<Rightarrow> bool) \<Rightarrow> profile \<Rightarrow> embedding_row list \<Rightarrow> int \<Rightarrow> index_db \<Rightarrow>
    store_error + int \<times> index_db" where
  "PutRetrievalEmbeddingBatch unit_norm profile input expectedPurgeEpoch db =
     (case profile_ID profile of Inl _ \<Rightarrow> Inl InvalidBatch | Inr profileID \<Rightarrow>
     (case validateRetrievalEmbeddingBatch unit_norm profile profileID input of Inl e \<Rightarrow> Inl e | Inr rows \<Rightarrow>
      if db_purgeEpoch db \<noteq> expectedPurgeEpoch then Inl EpochChanged
      else (case ensureRetrievalEmbeddingProfileTx db profileID (db_purgeEpoch db) profile of Inl e \<Rightarrow> Inl e | Inr profileRow \<Rightarrow>
     (case check_chunks db profile rows of Some e \<Rightarrow> Inl e | None \<Rightarrow>
      let deltas = map (row_deltas db profileID (sp_ActiveGenerationID profileRow)) rows;
          l0Delta = sum_list (map fst deltas); tombstoneDelta = sum_list (map snd deltas);
          changed = list_ex (membership_changed db profileID) rows;
          revision = (if changed then sp_LatestRevision profileRow + 1 else sp_LatestRevision profileRow);
          table = fold (put_row db profileID revision) rows (db_embeddings db);
          profileRow' = (if changed then profileRow\<lparr>sp_LatestRevision := revision, sp_L0ReadyCount := sp_L0ReadyCount profileRow + l0Delta,
              sp_ActiveTombstoneCount := sp_ActiveTombstoneCount profileRow + tombstoneDelta\<rparr> else profileRow)
      in if sp_L0ReadyCount profileRow + l0Delta < 0 then Inl (AggregateDrift profileID)
         else Inr (revision, db\<lparr>db_embeddings := table, db_profiles := gm_put profileID profileRow' (db_profiles db)\<rparr>)))))"

section \<open>Chunks that need an embedding\<close>

text \<open>\<open>retrievalEmbeddingDueSQL\<close>: there is no embedding, or it is of another text, or pending, or failed and due again.\<close>

definition embedding_due :: "index_db \<Rightarrow> string \<Rightarrow> string \<Rightarrow> stored_chunk \<Rightarrow> bool" where
  "embedding_due db profileID now c \<longleftrightarrow> (case gm_get (db_embeddings db) (sc_ChunkID c, profileID) of
     None \<Rightarrow> True
   | Some e \<Rightarrow> se_ChunkTextHash e \<noteq> sc_ChunkTextHash c \<or> se_Status e = RetrievalEmbeddingPending \<or>
       se_Status e = RetrievalEmbeddingError \<and> (se_NextAttemptAt e = [] \<or> text_le (se_NextAttemptAt e) now))"

definition rejectMismatchedRetrievalChunks :: "index_db \<Rightarrow> profile \<Rightarrow> bool" where
  "rejectMismatchedRetrievalChunks db profile \<longleftrightarrow> list_ex (\<lambda>c. parent_current db c \<and>
     (sc_ProjectionVersion c \<noteq> pf_ProjectionVersion profile \<or> sc_ChunkerVersion c \<noteq> pf_ChunkerVersion profile)) (db_chunks db)"

definition due_chunks :: "index_db \<Rightarrow> string \<Rightarrow> profile \<Rightarrow> string \<Rightarrow> stored_chunk list" where
  "due_chunks db profileID profile now = filter (\<lambda>c. parent_current db c \<and> embedding_due db profileID now c \<and>
     sc_ProjectionVersion c = pf_ProjectionVersion profile \<and> sc_ChunkerVersion c = pf_ChunkerVersion profile) (db_chunks db)"

text \<open>The chunks come with the attempts of their embedding.\<close>

definition ListChunksNeedingEmbeddingForProfileAt :: "index_db \<Rightarrow> profile \<Rightarrow> string \<Rightarrow> int \<Rightarrow> gotime \<Rightarrow>
    store_error + (stored_chunk \<times> int) list" where
  "ListChunksNeedingEmbeddingForProfileAt db profile afterChunkID limit now =
     (case profile_ID profile of Inl _ \<Rightarrow> Inl InvalidBatch | Inr profileID \<Rightarrow>
      if rejectMismatchedRetrievalChunks db profile then Inl ProfileMismatch
      else let rows = sort_key sc_ChunkID (filter (\<lambda>c. afterChunkID < sc_ChunkID c) (due_chunks db profileID profile (rfc3339 (t_utc now))));
          rows = (if 0 < limit then take (nat limit) rows else rows)
        in Inr (map (\<lambda>c. (c, case gm_get (db_embeddings db) (sc_ChunkID c, profileID) of None \<Rightarrow> 0 | Some e \<Rightarrow> se_AttemptCount e)) rows))"

definition CountChunksNeedingEmbeddingForProfileAt :: "index_db \<Rightarrow> profile \<Rightarrow> gotime \<Rightarrow> store_error + int" where
  "CountChunksNeedingEmbeddingForProfileAt db profile now =
     (case profile_ID profile of Inl _ \<Rightarrow> Inl InvalidBatch | Inr profileID \<Rightarrow>
      if rejectMismatchedRetrievalChunks db profile then Inl ProfileMismatch
      else Inr (int (length (due_chunks db profileID profile (rfc3339 (t_utc now))))))"

section \<open>Corrupt embeddings\<close>

definition corrupt :: "(32 word list \<Rightarrow> bool) \<Rightarrow> stored_embedding \<Rightarrow> string \<Rightarrow> bool" where
  "corrupt unit_norm e currentChunkTextHash \<longleftrightarrow>
     TrimSpace (se_Provider e) = [] \<or> TrimSpace (se_Model e) = [] \<or> se_Dimensions e \<le> 0 \<or>
     se_ChunkTextHash e \<noteq> currentChunkTextHash \<or>
     \<not> ValidateEncodedVector unit_norm (se_VectorBytes e) (se_Dimensions e) (se_Representation e) (se_Normalization e) \<or>
     retrievalVectorHash (se_VectorBytes e) \<noteq> se_VectorHash e"

text \<open>The reason of the diagnostic must not be blank; the store finds its own.\<close>

definition BlockCorruptRetrievalEmbedding :: "(32 word list \<Rightarrow> bool) \<Rightarrow> string \<Rightarrow> string \<Rightarrow> string \<Rightarrow> index_db \<Rightarrow>
    store_error + index_db" where
  "BlockCorruptRetrievalEmbedding unit_norm chunk profileID reason db =
     (let chunk = TrimSpace chunk; profileID = TrimSpace profileID in
      if chunk = [] \<or> profileID = [] \<or> TrimSpace reason = [] then Inl InvalidBatch
      else (case (gm_get (db_embeddings db) (chunk, profileID), find_chunk db chunk) of
        (Some e, Some c) \<Rightarrow>
          if se_Status e \<noteq> RetrievalEmbeddingReady then Inl (NoLongerCorrupt chunk)
          else if \<not> corrupt unit_norm e (sc_ChunkTextHash c) then Inl (NoLongerCorrupt chunk)
          else let profile = \<lparr>pf_Provider = se_Provider e, pf_Model = se_Model e, pf_ProjectionVersion = sc_ProjectionVersion c,
              pf_ChunkerVersion = sc_ChunkerVersion c, pf_Representation = se_Representation e, pf_Normalization = se_Normalization e,
              pf_Dimensions = se_Dimensions e\<rparr> in
            (case ensureRetrievalEmbeddingProfileTx db profileID (db_purgeEpoch db) profile of Inl err \<Rightarrow> Inl err | Inr row \<Rightarrow>
              let revision = sp_LatestRevision row + 1;
                  activeMember = retrievalEmbeddingHasActiveMembershipTx db (sp_ActiveGenerationID row) chunk e;
                  l0Delta = (if activeMember then 0 else - 1); tombstoneDelta = (if activeMember then 1 else 0)
              in if sp_L0ReadyCount row + l0Delta < 0 then Inl (AggregateDrift profileID)
                 else Inr (db\<lparr>db_embeddings := gm_put (chunk, profileID) (e\<lparr>se_Status := RetrievalEmbeddingBlocked,
                     se_NextAttemptAt := [], se_Revision := revision\<rparr>) (db_embeddings db),
                   db_profiles := gm_put profileID (row\<lparr>sp_LatestRevision := revision, sp_L0ReadyCount := sp_L0ReadyCount row + l0Delta,
                     sp_ActiveTombstoneCount := sp_ActiveTombstoneCount row + tombstoneDelta\<rparr>) (db_profiles db)\<rparr>))
      | _ \<Rightarrow> Inl (NoLongerCorrupt chunk)))"

text \<open>The trigger \<open>trg_retrieval_embeddings_account_delete\<close>, which runs before an embedding is deleted.\<close>

definition account_delete :: "string \<Rightarrow> string \<Rightarrow> index_db \<Rightarrow> store_error + index_db" where
  "account_delete chunk profileID db =
     (case gm_get (db_embeddings db) (chunk, profileID) of None \<Rightarrow> Inr db | Some e \<Rightarrow>
     (case gm_get (db_profiles db) profileID of None \<Rightarrow> Inl (AggregateDrift profileID) | Some row \<Rightarrow>
      let ready = (se_Status e = RetrievalEmbeddingReady); inside = in_generation db (sp_ActiveGenerationID row) chunk e
      in if ready \<and> \<not> inside \<and> sp_L0ReadyCount row \<le> 0 then Inl (AggregateDrift profileID)
         else Inr (db\<lparr>db_embeddings := gm_del (chunk, profileID) (db_embeddings db),
           db_profiles := gm_put profileID (row\<lparr>sp_L0ReadyCount := sp_L0ReadyCount row - (if ready \<and> \<not> inside then 1 else 0),
             sp_ActiveTombstoneCount := sp_ActiveTombstoneCount row + (if ready \<and> inside then 1 else 0)\<rparr>) (db_profiles db)\<rparr>)))"

section \<open>Generations\<close>

text \<open>The exact tail in the order of revisions, without chunks of parents that wait for a new projection.\<close>

definition flush_rows :: "index_db \<Rightarrow> string \<Rightarrow> string \<Rightarrow> ((string \<times> string) \<times> stored_embedding) list" where
  "flush_rows db profileID generation = sort_key (\<lambda>(_, e). se_Revision e) (sort_key (\<lambda>((chunk, _), _). chunk)
     (filter (\<lambda>((chunk, _), _). case find_chunk db chunk of Some c \<Rightarrow> parent_current db c | None \<Rightarrow> False)
        (ready_outside db profileID generation)))"

definition segment_target :: int where "segment_target = 5000"
definition segment_hard_limit :: int where "segment_hard_limit = 10000"

record flush_window =
  fw_Profile :: stored_profile
  fw_Rows :: "(string \<times> stored_embedding) list"
  fw_SnapshotRevision :: int

definition NextRetrievalFlushWindow :: "(32 word list \<Rightarrow> bool) \<Rightarrow> index_db \<Rightarrow> string \<Rightarrow> int \<Rightarrow> store_error + flush_window" where
  "NextRetrievalFlushWindow unit_norm db profileID limit =
     (let profileID = TrimSpace profileID in
      if profileID = [] \<or> limit \<le> 0 \<or> segment_hard_limit < limit then Inl InvalidCompletion
      else (case gm_get (db_profiles db) profileID of None \<Rightarrow> Inl (ProfileNotFound profileID) | Some row \<Rightarrow>
        let limit = min limit segment_target;
            rows = map (\<lambda>((chunk, _), e). (chunk, e)) (take (nat limit) (flush_rows db profileID (sp_ActiveGenerationID row)))
        in (case find (\<lambda>(chunk, e). corrupt unit_norm e (case find_chunk db chunk of Some c \<Rightarrow> sc_ChunkTextHash c | None \<Rightarrow> [])) rows of
             Some (chunk, _) \<Rightarrow> Inl (CorruptEmbedding chunk)
           | None \<Rightarrow> Inr \<lparr>fw_Profile = row, fw_Rows = rows,
               fw_SnapshotRevision = (if rows = [] then 0 else se_Revision (snd (last rows)))\<rparr>)))"

datatype activation_mode = AdvanceSnapshot | RewriteSnapshot | NoMode

record index_generation =
  ig_GenerationID :: string
  ig_ProfileID :: string
  ig_Backend :: string
  ig_BackendVersion :: string
  ig_Dimensions :: int
  ig_DistanceMetric :: string
  ig_IndexedChunkCount :: int
  ig_SourceManifestHash :: string
  ig_Completed :: bool
  ig_Active :: bool

record completion_input =
  cg_Generation :: index_generation
  cg_Segments :: "index_segment list"
  cg_Members :: "segment_member list"
  cg_SnapshotRevision :: int
  cg_ExpectedPurgeEpoch :: int
  cg_ExpectedActiveSnapshotRevision :: int
  cg_ExpectedActiveGenerationID :: string
  cg_ActivationMode :: activation_mode

definition segment_valid :: "index_generation \<Rightarrow> index_segment \<Rightarrow> bool" where
  "segment_valid g s \<longleftrightarrow> TrimSpace (is_SegmentHash s) \<noteq> [] \<and> is_ProfileID s = ig_ProfileID g \<and> is_Dimensions s = ig_Dimensions g \<and>
     0 < is_IndexedChunkCount s \<and> TrimSpace (is_RelativeCachePath s) \<noteq> [] \<and> TrimSpace (is_MembershipHash s) \<noteq> [] \<and>
     TrimSpace (is_PayloadHash s) \<noteq> [] \<and> TrimSpace (is_ManifestHash s) \<noteq> []"

definition member_valid :: "index_segment list \<Rightarrow> segment_member \<Rightarrow> bool" where
  "member_valid segments m \<longleftrightarrow> sm_SegmentHash m \<in> is_SegmentHash ` set segments \<and> TrimSpace (sm_ChunkID m) \<noteq> [] \<and>
     TrimSpace (sm_VectorHash m) \<noteq> [] \<and> 0 < sm_Revision m"

definition maximum_revision :: "segment_member list \<Rightarrow> int" where
  "maximum_revision members = foldl (\<lambda>n m. if n < sm_Revision m then sm_Revision m else n) 0 members"

definition validateGenerationCompletionInput :: "completion_input \<Rightarrow> bool" where
  "validateGenerationCompletionInput input \<longleftrightarrow>
     (let g = cg_Generation input; segments = cg_Segments input; members = cg_Members input; mode = cg_ActivationMode input;
          snapshot = cg_SnapshotRevision input in
      TrimSpace (ig_GenerationID g) \<noteq> [] \<and> TrimSpace (ig_ProfileID g) \<noteq> [] \<and> ig_Completed g \<and> \<not> ig_Active g \<and>
      0 < ig_Dimensions g \<and> TrimSpace (ig_Backend g) \<noteq> [] \<and> TrimSpace (ig_BackendVersion g) \<noteq> [] \<and>
      TrimSpace (ig_DistanceMetric g) \<noteq> [] \<and> TrimSpace (ig_SourceManifestHash g) \<noteq> [] \<and>
      segments \<noteq> [] \<and> 0 < snapshot \<and> (members = [] \<longrightarrow> mode = RewriteSnapshot) \<and>
      (case mode of AdvanceSnapshot \<Rightarrow> cg_ExpectedActiveSnapshotRevision input < snapshot
        | RewriteSnapshot \<Rightarrow> snapshot = cg_ExpectedActiveSnapshotRevision input | NoMode \<Rightarrow> False) \<and>
      list_all (segment_valid g) segments \<and> distinct (map is_SegmentHash segments) \<and>
      list_all (member_valid segments) members \<and>
      distinct (map (\<lambda>m. (sm_SegmentHash m, sm_Ordinal m)) members) \<and> distinct (map (\<lambda>m. (sm_SegmentHash m, sm_ChunkID m)) members) \<and>
      (mode = AdvanceSnapshot \<longrightarrow> maximum_revision members = snapshot) \<and>
      (mode = RewriteSnapshot \<longrightarrow> maximum_revision members \<le> snapshot))"

text \<open>A new member must match a ready embedding of a current parent.\<close>

definition member_matches :: "index_db \<Rightarrow> string \<Rightarrow> segment_member \<Rightarrow> bool" where
  "member_matches db profileID m \<longleftrightarrow> member_usable db profileID m \<and>
     (case find_chunk db (sm_ChunkID m) of Some c \<Rightarrow> parent_current db c | None \<Rightarrow> False)"

text \<open>Segments and members are immutable: what is stored under their key must be the same.\<close>

fun insert_segments :: "index_segment list \<Rightarrow> (string, index_segment) gomap \<Rightarrow> store_error + (string, index_segment) gomap" where
  "insert_segments [] table = Inr table"
| "insert_segments (s # ss) table = (case gm_get table (is_SegmentHash s) of
     None \<Rightarrow> insert_segments ss (gm_put (is_SegmentHash s) s table)
   | Some stored \<Rightarrow> if stored \<noteq> s then Inl (SegmentConflict (is_SegmentHash s)) else insert_segments ss table)"

definition insert_member :: "segment_member \<Rightarrow> segment_member list \<Rightarrow> segment_member list" where
  "insert_member m table =
     (if list_ex (\<lambda>x. sm_SegmentHash x = sm_SegmentHash m \<and> (sm_Ordinal x = sm_Ordinal m \<or> sm_ChunkID x = sm_ChunkID m)) table
      then table else table @ [m])"

definition proveRetrievalSegmentMembersTx :: "segment_member list \<Rightarrow> string \<Rightarrow> segment_member list \<Rightarrow> bool" where
  "proveRetrievalSegmentMembersTx table segmentHash expected \<longleftrightarrow>
     (let stored = filter (\<lambda>m. sm_SegmentHash m = segmentHash) table in
      list_all (\<lambda>m. find (\<lambda>x. sm_Ordinal x = sm_Ordinal m) expected = Some m) stored \<and> length stored = length expected)"

definition segment_size :: "segment_member list \<Rightarrow> string \<Rightarrow> int" where
  "segment_size table segmentHash = int (length (filter (\<lambda>m. sm_SegmentHash m = segmentHash) table))"

definition proveNoDuplicateUsableGenerationMembersTx :: "index_db \<Rightarrow> string \<Rightarrow> string \<Rightarrow> bool" where
  "proveNoDuplicateUsableGenerationMembersTx db generation profileID \<longleftrightarrow>
     distinct (map (\<lambda>m. (sm_ChunkID m, sm_Revision m, sm_VectorHash m))
       (filter (member_usable db profileID) (generation_members db generation)))"

definition activate_root :: "completion_input \<Rightarrow> stored_profile \<Rightarrow> index_db \<Rightarrow> index_db" where
  "activate_root input row db =
     (let g = cg_Generation input; counters = countRetrievalGenerationCountersTx db (ig_ProfileID g) (ig_GenerationID g)
      in db\<lparr>db_profiles := gm_put (ig_ProfileID g) (row\<lparr>sp_ActiveGenerationID := ig_GenerationID g,
           sp_ActiveSnapshotRevision := cg_SnapshotRevision input, sp_ActiveIndexedCount := ig_IndexedChunkCount g,
           sp_L0ReadyCount := fst counters, sp_ActiveTombstoneCount := snd counters\<rparr>) (db_profiles db)\<rparr>)"

definition completion_stale :: "completion_input \<Rightarrow> stored_profile \<Rightarrow> index_db \<Rightarrow> bool" where
  "completion_stale input row db \<longleftrightarrow> sp_ActiveGenerationID row \<noteq> cg_ExpectedActiveGenerationID input \<or>
     sp_PurgeEpoch row \<noteq> cg_ExpectedPurgeEpoch input \<or> db_purgeEpoch db \<noteq> cg_ExpectedPurgeEpoch input \<or>
     sp_ActiveSnapshotRevision row \<noteq> cg_ExpectedActiveSnapshotRevision input"

text \<open>The tables with the new generation.\<close>

definition with_generation :: "completion_input \<Rightarrow> (string, index_segment) gomap \<Rightarrow> index_db \<Rightarrow> index_db" where
  "with_generation input segments db = (let g = cg_Generation input in
     db\<lparr>db_generations := gm_put (ig_GenerationID g) (ig_ProfileID g) (db_generations db), db_segments := segments,
       db_members := fold insert_member (cg_Members input) (db_members db),
       db_segmentsOf := db_segmentsOf db @ map (\<lambda>s. (ig_GenerationID g, is_SegmentHash s)) (cg_Segments input)\<rparr>)"

definition CompleteRetrievalIndexGeneration :: "completion_input \<Rightarrow> index_db \<Rightarrow> store_error + index_db" where
  "CompleteRetrievalIndexGeneration input db =
     (let g = cg_Generation input; profileID = ig_ProfileID g in
      if \<not> validateGenerationCompletionInput input then Inl InvalidCompletion
      else (case gm_get (db_profiles db) profileID of None \<Rightarrow> Inl (ProfileNotFound profileID) | Some row \<Rightarrow>
        if completion_stale input row db then Inl ActivationStale
        else if \<not> list_all (member_matches db profileID) (cg_Members input) then Inl (MemberMismatch profileID)
        else if gm_get (db_generations db) (ig_GenerationID g) \<noteq> None then Inl InvalidCompletion
        else (case insert_segments (cg_Segments input) (db_segments db) of Inl e \<Rightarrow> Inl e | Inr segments \<Rightarrow>
          let db' = with_generation input segments db; table = db_members db' in
          if \<not> list_all (\<lambda>s. let ms = filter (\<lambda>m. sm_SegmentHash m = is_SegmentHash s) (cg_Members input) in
                 ms = [] \<or> proveRetrievalSegmentMembersTx table (is_SegmentHash s) ms) (cg_Segments input)
          then Inl (SegmentConflict (ig_GenerationID g))
          else if \<not> list_all (\<lambda>s. segment_size table (is_SegmentHash s) = is_IndexedChunkCount s) (cg_Segments input) \<or>
             sum_list (map (\<lambda>s. segment_size table (is_SegmentHash s)) (cg_Segments input)) \<noteq> ig_IndexedChunkCount g
          then Inl IndexedCountMismatch
          else if \<not> proveNoDuplicateUsableGenerationMembersTx db' (ig_GenerationID g) profileID then Inl DuplicateMembership
          else Inr (activate_root input row db'))))"

text \<open>\<open>markRetrievalProfileGenerationsStaleTx\<close>: the profile goes without a root, and all ready embeddings are in the tail.\<close>

definition markRetrievalProfileGenerationsStaleTx :: "string \<Rightarrow> index_db \<Rightarrow> index_db" where
  "markRetrievalProfileGenerationsStaleTx profileID db = (case gm_get (db_profiles db) profileID of None \<Rightarrow> db | Some row \<Rightarrow>
     db\<lparr>db_profiles := gm_put profileID (row\<lparr>sp_ActiveGenerationID := [], sp_ActiveSnapshotRevision := 0, sp_ActiveIndexedCount := 0,
       sp_L0ReadyCount := int (length (filter (\<lambda>((_, p), e). p = profileID \<and> se_Status e = RetrievalEmbeddingReady) (db_embeddings db))),
       sp_ActiveTombstoneCount := 0\<rparr>) (db_profiles db)\<rparr>)"

end
