(* ===== verification/EmbedBatch.thy ===== *)
theory EmbedBatch
  imports IndexStore
begin

text \<open>
  The embedding stage of \<open>internal/semanticbuild/embed.go\<close> over the tables of \<open>IndexStore\<close>.

  A batch of due chunks is sent to the provider. A batch the provider blocks is halved until the chunk to
  blame is alone; a retryable failure is retried after a growing delay, and the third in a row stores the batch as failed
  and opens the circuit. \<open>RunEmbed\<close> takes batches until the limit is spent or no chunk is due.

  What the provider, the context and SQL do around one call of the provider is a turn (\<open>embed_turn\<close>); a run consumes a
  list of turns, and an exhausted list means that it still runs. No other process writes embeddings or chunks meanwhile: the
  caller holds the semantic locks.
\<close>

section \<open>What happens around a call of the provider\<close>

datatype failure_kind = FailureRetryable | FailureBlocked | FailureFatalConfig

record embed_response =
  rs_Vectors :: "32 word list list"
  rs_Provider :: string
  rs_Model :: string
  rs_Dimensions :: int

text \<open>\<open>ProviderFails None\<close> is an error that is no \<open>embedding.Failure\<close>.\<close>

datatype embed_outcome = ProviderAnswers embed_response | ProviderFails "failure_kind option"

text \<open>
  \<open>et_Ctx\<close>: the context is done after the call, \<open>et_CtxCause\<close>: the error wraps the one of the context;
  \<open>et_Sleep\<close>: the delay is interrupted; \<open>et_Put\<close>: the transaction that stores the rows fails in SQL;
  \<open>et_Entry\<close>: the context is done when the next batch begins.
\<close>

record embed_turn =
  et_Outcome :: embed_outcome
  et_Ctx :: bool
  et_CtxCause :: bool
  et_Sleep :: bool
  et_Put :: bool
  et_Entry :: bool

datatype embed_error = EmbedInput | EmbedCanceled | EmbedProvider "failure_kind option" | EmbedFatal | EmbedStore store_error | EmbedSQL
  | EmbedSleep | EmbedCallback | EmbedCircuit | EmbedCircuitAnd embed_error | StillRunning

record embed_execution =
  ex_Info :: provider_info
  ex_Profile :: profile
  ex_ProfileID :: string
  ex_PurgeEpoch :: int
  ex_Now :: gotime
  ex_Cooldown :: duration
  ex_InitialBackoff :: duration
  ex_MaxBackoff :: duration

record embed_progress =
  ep_Interrupted :: bool
  ep_Scanned :: int
  ep_Generated :: int
  ep_Blocked :: int
  ep_Failed :: int
  ep_Remaining :: int
  ep_SnapshotCount :: int

record embed_state =
  es_db :: index_db
  es_turns :: "embed_turn list"
  es_entry :: bool
  es_attempts :: "string \<Rightarrow> int"
  es_progress :: embed_progress
  es_failures :: int
  es_slept :: "duration list"

definition MaxConsecutiveProviderFailures :: int where "MaxConsecutiveProviderFailures = 3"
definition MaxEmbeddingBatch :: int where "MaxEmbeddingBatch = 5000"
definition DefaultRetryInitialBackoff :: duration where "DefaultRetryInitialBackoff = 1000000000"
definition DefaultRetryMaxBackoff :: duration where "DefaultRetryMaxBackoff = 30 * 1000000000"
definition defaultRetryCooldown :: duration where "defaultRetryCooldown = 15 * 60 * 1000000000"

definition no_progress :: embed_progress where
  "no_progress = \<lparr>ep_Interrupted = False, ep_Scanned = 0, ep_Generated = 0, ep_Blocked = 0, ep_Failed = 0, ep_Remaining = 0, ep_SnapshotCount = 0\<rparr>"

section \<open>Storing a batch\<close>

definition info_valid :: "provider_info \<Rightarrow> bool" where
  "info_valid i \<longleftrightarrow> TrimSpace (info_Provider i) \<noteq> [] \<and> TrimSpace (info_Model i) \<noteq> [] \<and> 0 < info_Dimensions i"

definition ValidateRequest :: "string list \<Rightarrow> bool" where
  "ValidateRequest texts \<longleftrightarrow> texts \<noteq> [] \<and> list_all (\<lambda>t. TrimSpace t \<noteq> []) texts"

definition ValidateResponse :: "(32 word list \<Rightarrow> bool) \<Rightarrow> provider_info \<Rightarrow> string list \<Rightarrow> embed_response \<Rightarrow> bool" where
  "ValidateResponse unit_norm expected texts r \<longleftrightarrow> ValidateRequest texts \<and> info_valid expected \<and>
     info_valid \<lparr>info_Provider = rs_Provider r, info_Model = rs_Model r, info_Dimensions = rs_Dimensions r\<rparr> \<and>
     rs_Provider r = info_Provider expected \<and> rs_Model r = info_Model expected \<and> rs_Dimensions r = info_Dimensions expected \<and>
     length (rs_Vectors r) = length texts \<and>
     list_all (\<lambda>v. ValidateDenseF32 unit_norm v (rs_Dimensions r) NormalizationNone) (rs_Vectors r)"

text \<open>The text of a failure is left out.\<close>

definition embeddingRow :: "stored_chunk \<Rightarrow> embed_execution \<Rightarrow> string \<Rightarrow> int \<Rightarrow> string \<Rightarrow> embedding_row" where
  "embeddingRow candidate ex status attempts vector =
     \<lparr>em_ChunkID = sc_ChunkID candidate, em_ProfileID = ex_ProfileID ex, em_Provider = info_Provider (ex_Info ex),
      em_Model = info_Model (ex_Info ex), em_Dimensions = info_Dimensions (ex_Info ex), em_Representation = RepresentationDenseF32,
      em_Normalization = NormalizationL2, em_VectorBytes = vector, em_ChunkTextHash = sc_ChunkTextHash candidate, em_Status = status,
      em_AttemptCount = attempts, em_LastError = [], em_NextAttemptAt = zero_time, em_EmbeddedAt = zero_time\<rparr>"

definition ready_embedding :: "embed_execution \<Rightarrow> (string \<Rightarrow> int) \<Rightarrow> stored_chunk \<Rightarrow> 32 word list \<Rightarrow> embedding_row" where
  "ready_embedding ex attempts candidate vector =
     (embeddingRow candidate ex RetrievalEmbeddingReady (attempts (sc_ChunkID candidate)) (EncodeDenseF32 vector))\<lparr>em_EmbeddedAt := ex_Now ex\<rparr>"

definition failed_embedding :: "embed_execution \<Rightarrow> (string \<Rightarrow> int) \<Rightarrow> string \<Rightarrow> stored_chunk \<Rightarrow> embedding_row" where
  "failed_embedding ex attempts status candidate =
     (let row = embeddingRow candidate ex status (attempts (sc_ChunkID candidate)) []
      in if status = RetrievalEmbeddingError then row\<lparr>em_NextAttemptAt := t_add (ex_Now ex) (ex_Cooldown ex)\<rparr> else row)"

definition put_rows :: "(32 word list \<Rightarrow> bool) \<Rightarrow> embed_execution \<Rightarrow> bool \<Rightarrow> embedding_row list \<Rightarrow> embed_state \<Rightarrow> (int \<times> embed_error option) \<times> embed_state" where
  "put_rows unit_norm ex sqlFails rows s =
     (if sqlFails then ((0, Some EmbedSQL), s)
      else (case PutRetrievalEmbeddingBatch unit_norm (ex_Profile ex) rows (ex_PurgeEpoch ex) (es_db s) of
        Inl e \<Rightarrow> ((0, Some (EmbedStore e)), s) | Inr (revision, db) \<Rightarrow> ((revision, None), s\<lparr>es_db := db\<rparr>)))"

definition count_ready :: "int \<Rightarrow> embed_progress \<Rightarrow> embed_progress" where
  "count_ready n p = p\<lparr>ep_Scanned := ep_Scanned p + n, ep_Generated := ep_Generated p + n\<rparr>"

definition count_failed :: "string \<Rightarrow> int \<Rightarrow> embed_progress \<Rightarrow> embed_progress" where
  "count_failed status n p = (let p = p\<lparr>ep_Scanned := ep_Scanned p + n\<rparr> in
     if status = RetrievalEmbeddingBlocked then p\<lparr>ep_Blocked := ep_Blocked p + n\<rparr> else p\<lparr>ep_Failed := ep_Failed p + n\<rparr>)"

definition persistReadyEmbedBatch :: "(32 word list \<Rightarrow> bool) \<Rightarrow> embed_execution \<Rightarrow> bool \<Rightarrow> stored_chunk list \<Rightarrow> embed_response \<Rightarrow> embed_state \<Rightarrow>
    (int \<times> embed_error option) \<times> embed_state" where
  "persistReadyEmbedBatch unit_norm ex sqlFails batch response s =
     (if \<not> ValidateResponse unit_norm (ex_Info ex) (map sc_Text batch) response then ((0, Some EmbedFatal), s)
      else if \<not> list_all (\<lambda>v. ValidateDenseF32 unit_norm v (info_Dimensions (ex_Info ex)) NormalizationL2) (rs_Vectors response)
      then ((0, Some EmbedFatal), s)
      else (case put_rows unit_norm ex sqlFails (map2 (ready_embedding ex (es_attempts s)) batch (rs_Vectors response)) s of
        ((_, Some e), s) \<Rightarrow> ((0, Some e), s)
      | ((revision, None), s) \<Rightarrow> ((revision, None), s\<lparr>es_progress := count_ready (int (length batch)) (es_progress s)\<rparr>)))"

definition persistFailedEmbedBatch :: "(32 word list \<Rightarrow> bool) \<Rightarrow> embed_execution \<Rightarrow> bool \<Rightarrow> stored_chunk list \<Rightarrow> string \<Rightarrow> embed_state \<Rightarrow>
    (int \<times> embed_error option) \<times> embed_state" where
  "persistFailedEmbedBatch unit_norm ex sqlFails batch status s =
     (case put_rows unit_norm ex sqlFails (map (failed_embedding ex (es_attempts s) status) batch) s of
        ((_, Some e), s) \<Rightarrow> ((0, Some e), s)
      | ((revision, None), s) \<Rightarrow> ((revision, None), s\<lparr>es_progress := count_failed status (int (length batch)) (es_progress s)\<rparr>))"

section \<open>A batch\<close>

text \<open>\<open>embedRetryDelay\<close>; a delay doubles while it cannot pass the maximum.\<close>

fun double_delay :: "duration \<Rightarrow> nat \<Rightarrow> duration \<Rightarrow> duration" where
  "double_delay maximum 0 delay = min delay maximum"
| "double_delay maximum (Suc n) delay =
     (if maximum \<le> delay \<or> maximum - delay < delay then maximum else double_delay maximum n (delay * 2))"

definition embedRetryDelay :: "duration \<Rightarrow> duration \<Rightarrow> int \<Rightarrow> duration" where
  "embedRetryDelay initial maximum consecutiveFailures = double_delay maximum (nat (consecutiveFailures - 1)) (min initial maximum)"

definition next_turn :: "stored_chunk list \<Rightarrow> embed_turn \<Rightarrow> embed_state \<Rightarrow> embed_state" where
  "next_turn batch t s = s\<lparr>es_turns := tl (es_turns s), es_entry := et_Entry t,
     es_attempts := (\<lambda>c. if c \<in> sc_ChunkID ` set batch then es_attempts s c + 1 else es_attempts s c)\<rparr>"

text \<open>The context is done, but the provider failed for a reason of its own.\<close>

definition independent_failure :: "embed_turn \<Rightarrow> bool" where
  "independent_failure t \<longleftrightarrow> et_Ctx t \<and> \<not> et_CtxCause t"

text \<open>
  \<open>processEmbedBatch\<close> polls the context and then makes its calls; its loop, and the recursion over the halves of a
  blocked batch, are \<open>embed_loop\<close>.
\<close>

function embed_loop :: "(32 word list \<Rightarrow> bool) \<Rightarrow> embed_execution \<Rightarrow> stored_chunk list \<Rightarrow> embed_state \<Rightarrow> (int \<times> embed_error option) \<times> embed_state" where
  "embed_loop unit_norm ex batch s0 = (case es_turns s0 of [] \<Rightarrow> ((0, Some StillRunning), s0) | t # _ \<Rightarrow>
     let s = next_turn batch t s0 in
     (case et_Outcome t of
       ProviderAnswers response \<Rightarrow> persistReadyEmbedBatch unit_norm ex (et_Put t) batch response (s\<lparr>es_failures := 0\<rparr>)
     | ProviderFails kind \<Rightarrow>
         if independent_failure t then ((0, Some (EmbedProvider kind)), s)
         else if kind \<noteq> Some FailureRetryable \<and> kind \<noteq> Some FailureBlocked then ((0, Some (EmbedProvider kind)), s)
         else if kind = Some FailureBlocked \<and> 1 < length batch then
           (let s = s\<lparr>es_failures := 0\<rparr>; middle = length batch div 2 in
            case (if es_entry s then ((0, Some EmbedCanceled), s) else embed_loop unit_norm ex (take middle batch) s) of
              ((revision, Some e), s) \<Rightarrow> ((revision, Some e), s)
            | ((revision, None), s) \<Rightarrow>
                (case (if es_entry s then ((0, Some EmbedCanceled), s) else embed_loop unit_norm ex (drop middle batch) s) of
                   ((nextRevision, err), s) \<Rightarrow> ((if 0 < nextRevision then nextRevision else revision, err), s)))
         else if kind = Some FailureRetryable then
           (let s = s\<lparr>es_failures := es_failures s + 1\<rparr> in
            if es_failures s < MaxConsecutiveProviderFailures then
              (let s = s\<lparr>es_slept := es_slept s @ [embedRetryDelay (ex_InitialBackoff ex) (ex_MaxBackoff ex) (es_failures s)]\<rparr> in
               if et_Sleep t then ((0, Some EmbedSleep), s) else embed_loop unit_norm ex batch s)
            else (case persistFailedEmbedBatch unit_norm ex (et_Put t) batch RetrievalEmbeddingError s of
                ((_, Some e), s) \<Rightarrow> ((0, Some e), s)
              | ((revision, None), s) \<Rightarrow> ((revision, if MaxConsecutiveProviderFailures \<le> es_failures s then Some EmbedCircuit else None), s)))
         else persistFailedEmbedBatch unit_norm ex (et_Put t) batch RetrievalEmbeddingBlocked (s\<lparr>es_failures := 0\<rparr>)))"
  by pat_completeness auto

termination embed_loop
  by (relation "measures [\<lambda>(_, _, batch, _). length batch, \<lambda>(_, _, _, s). nat (MaxConsecutiveProviderFailures - es_failures s)]")
    (auto simp: MaxConsecutiveProviderFailures_def next_turn_def)

declare embed_loop.simps [simp del]

definition processEmbedBatch :: "(32 word list \<Rightarrow> bool) \<Rightarrow> embed_execution \<Rightarrow> stored_chunk list \<Rightarrow> embed_state \<Rightarrow> (int \<times> embed_error option) \<times> embed_state" where
  "processEmbedBatch unit_norm ex batch s =
     (if es_entry s then ((0, Some EmbedCanceled), s) else embed_loop unit_norm ex batch s)"


section \<open>One unit of work\<close>

record embed_batch_options =
  bo_BatchSize :: int
  bo_RetryCooldown :: duration
  bo_RetryInitialBackoff :: duration
  bo_RetryMaxBackoff :: duration
  bo_Now :: gotime

text \<open>
  Around the turns of a batch: the polls of the context at the start (\<open>bc_Ctx\<close>) and when the candidates are known (\<open>bc_Entry\<close>), the
  queries that fail in SQL (\<open>bc_Epoch\<close>, \<open>bc_List\<close>, \<open>bc_Profile\<close>, \<open>bc_After\<close>), and whether \<open>BeforeProvider\<close> refuses.
\<close>

record batch_calls =
  bc_Ctx :: bool
  bc_Epoch :: bool
  bc_List :: bool
  bc_Profile :: bool
  bc_Before :: bool
  bc_Entry :: bool
  bc_Turns :: "embed_turn list"
  bc_After :: bool

record embed_batch_result =
  br_Progress :: embed_progress
  br_Revision :: int
  br_HasMore :: bool

definition or_default :: "duration \<Rightarrow> duration \<Rightarrow> duration" where
  "or_default d preset = (if d = 0 then preset else d)"

definition prepareEmbedBatch :: "provider_info \<Rightarrow> embed_batch_options \<Rightarrow> batch_calls \<Rightarrow> index_db \<Rightarrow> embed_error + embed_execution" where
  "prepareEmbedBatch info opts calls db =
     (if bo_BatchSize opts \<le> 0 \<or> MaxEmbeddingBatch < bo_BatchSize opts \<or> bo_RetryCooldown opts < 0 \<or> bo_RetryInitialBackoff opts < 0 \<or>
        bo_RetryMaxBackoff opts < 0 \<or> DefaultRetryMaxBackoff < bo_RetryMaxBackoff opts then Inl EmbedInput
      else if bc_Ctx calls then Inl EmbedCanceled
      else (case profile_ID (provider_profile info) of Inl _ \<Rightarrow> Inl EmbedFatal | Inr profileID \<Rightarrow>
        if bc_Epoch calls then Inl EmbedSQL
        else Inr \<lparr>ex_Info = info, ex_Profile = provider_profile info, ex_ProfileID = profileID, ex_PurgeEpoch = db_purgeEpoch db,
          ex_Now = t_utc (bo_Now opts), ex_Cooldown = or_default (bo_RetryCooldown opts) defaultRetryCooldown,
          ex_InitialBackoff = or_default (bo_RetryInitialBackoff opts) DefaultRetryInitialBackoff,
          ex_MaxBackoff = or_default (bo_RetryMaxBackoff opts) DefaultRetryMaxBackoff\<rparr>))"

definition listEmbedCandidates :: "bool \<Rightarrow> index_db \<Rightarrow> profile \<Rightarrow> int \<Rightarrow> gotime \<Rightarrow> embed_error + (stored_chunk \<times> int) list" where
  "listEmbedCandidates sqlFails db profile limit now =
     (if sqlFails then Inl EmbedSQL
      else (case ListChunksNeedingEmbeddingForProfileAt db profile [] limit now of Inl e \<Rightarrow> Inl (EmbedStore e)
        | Inr candidates \<Rightarrow> Inr (take (nat limit) candidates)))"

definition currentEmbedRevision :: "bool \<Rightarrow> index_db \<Rightarrow> string \<Rightarrow> embed_error + int" where
  "currentEmbedRevision sqlFails db profileID =
     (if sqlFails then Inl EmbedSQL
      else Inr (case gm_get (db_profiles db) (TrimSpace profileID) of None \<Rightarrow> 0 | Some row \<Rightarrow> sp_LatestRevision row))"

definition batch_state :: "index_db \<Rightarrow> batch_calls \<Rightarrow> (stored_chunk \<times> int) list \<Rightarrow> embed_state" where
  "batch_state db calls candidates = \<lparr>es_db = db, es_turns = bc_Turns calls, es_entry = bc_Entry calls,
     es_attempts = (\<lambda>c. case find (\<lambda>(k, _). sc_ChunkID k = c) (rev candidates) of Some (_, n) \<Rightarrow> n | None \<Rightarrow> 0),
     es_progress = no_progress, es_failures = 0, es_slept = []\<rparr>"

definition RunEmbedBatch :: "(32 word list \<Rightarrow> bool) \<Rightarrow> provider_info \<Rightarrow> embed_batch_options \<Rightarrow> batch_calls \<Rightarrow> index_db \<Rightarrow>
    (embed_batch_result \<times> embed_error option) \<times> index_db" where
  "RunEmbedBatch unit_norm info opts calls db =
     (let result = \<lparr>br_Progress = no_progress, br_Revision = 0, br_HasMore = False\<rparr> in
      case prepareEmbedBatch info opts calls db of Inl e \<Rightarrow> ((result, Some e), db) | Inr ex \<Rightarrow>
      (case listEmbedCandidates (bc_List calls) db (ex_Profile ex) (bo_BatchSize opts) (ex_Now ex) of Inl e \<Rightarrow> ((result, Some e), db)
      | Inr candidates \<Rightarrow>
        if candidates = [] then
          (case currentEmbedRevision (bc_Profile calls) db (ex_ProfileID ex) of Inl e \<Rightarrow> ((result, Some e), db)
           | Inr revision \<Rightarrow> ((result\<lparr>br_Revision := revision\<rparr>, None), db))
        else if bc_Before calls then ((result, Some EmbedCallback), db)
        else (case processEmbedBatch unit_norm ex (map fst candidates) (batch_state db calls candidates) of ((revision, err), s) \<Rightarrow>
          let result = result\<lparr>br_Revision := revision, br_Progress := es_progress s\<rparr> in
          if err \<noteq> None \<and> err \<noteq> Some EmbedCircuit then ((result, err), es_db s)
          else (case listEmbedCandidates (bc_After calls) (es_db s) (ex_Profile ex) 1 (ex_Now ex) of
              Inl e \<Rightarrow> ((result, Some (if err \<noteq> None then EmbedCircuitAnd e else e)), es_db s)
            | Inr remaining \<Rightarrow>
                ((result\<lparr>br_HasMore := remaining \<noteq> [],
                   br_Progress := (if remaining \<noteq> [] then (es_progress s)\<lparr>ep_Remaining := 1\<rparr> else es_progress s)\<rparr>, err), es_db s)))))"

section \<open>The command\<close>

record embed_options =
  eo_Limit :: int
  eo_BatchSize :: int
  eo_RetryCooldown :: duration
  eo_UntilIdle :: bool
  eo_MaxDuration :: duration
  eo_Now :: gotime

text \<open>
  A round of the loop: the poll of the context (\<open>rd_Ctx\<close>), whether the own deadline of the command has passed (\<open>rd_Deadline\<close>), the
  batch, whether the callback refuses the snapshot, and whether the own deadline explains an error of the batch.
\<close>

record embed_round =
  rd_Ctx :: bool
  rd_Deadline :: bool
  rd_Calls :: batch_calls
  rd_Callback :: bool
  rd_Interrupted :: bool

definition finishEmbedInterrupted :: "embed_progress \<Rightarrow> embed_progress" where
  "finishEmbedInterrupted p = p\<lparr>ep_Interrupted := True\<rparr>"

definition mergeEmbedProgress :: "embed_progress \<Rightarrow> embed_progress \<Rightarrow> embed_progress" where
  "mergeEmbedProgress target delta = target\<lparr>ep_Scanned := ep_Scanned target + ep_Scanned delta,
     ep_Generated := ep_Generated target + ep_Generated delta, ep_Blocked := ep_Blocked target + ep_Blocked delta,
     ep_Failed := ep_Failed target + ep_Failed delta\<rparr>"

definition round_options :: "embed_options \<Rightarrow> int \<Rightarrow> embed_batch_options" where
  "round_options opts remainingLimit =
     \<lparr>bo_BatchSize = min (eo_BatchSize opts) (min remainingLimit MaxEmbeddingBatch),
      bo_RetryCooldown = (if eo_RetryCooldown opts \<le> 0 then defaultRetryCooldown else eo_RetryCooldown opts),
      bo_RetryInitialBackoff = 0, bo_RetryMaxBackoff = 0, bo_Now = t_utc (eo_Now opts)\<rparr>"

fun embed_rounds :: "(32 word list \<Rightarrow> bool) \<Rightarrow> provider_info \<Rightarrow> embed_options \<Rightarrow> int \<Rightarrow> int \<Rightarrow> embed_progress \<Rightarrow> index_db \<Rightarrow> embed_round list \<Rightarrow>
    ((embed_progress \<times> embed_error option) \<times> index_db) option" where
  "embed_rounds unit_norm info opts due remainingLimit progress db [] = None"
| "embed_rounds unit_norm info opts due remainingLimit progress db (r # rs) =
     (if rd_Ctx r then Some ((progress, Some EmbedCanceled), db)
      else if 0 < eo_MaxDuration opts \<and> rd_Deadline r then Some ((finishEmbedInterrupted progress, None), db)
      else (case RunEmbedBatch unit_norm info (round_options opts remainingLimit) (rd_Calls r) db of ((result, err), db) \<Rightarrow>
        let merged = mergeEmbedProgress progress (br_Progress result);
            progress = merged\<lparr>ep_Remaining := max (due - ep_Scanned merged) 0\<rparr>;
            remainingLimit = remainingLimit - ep_Scanned (br_Progress result);
            recorded = (0 < ep_Scanned (br_Progress result));
            progress = (if recorded then progress\<lparr>ep_SnapshotCount := ep_SnapshotCount progress + 1\<rparr> else progress)
        in if err = Some StillRunning then None
           else if recorded \<and> rd_Callback r then Some ((progress, Some EmbedCallback), db)
           else if err \<noteq> None then
             Some ((if 0 < eo_MaxDuration opts \<and> rd_Interrupted r then (finishEmbedInterrupted progress, None) else (progress, err)), db)
           else if \<not> eo_UntilIdle opts \<and> remainingLimit = 0 then Some ((progress, None), db)
           else if \<not> br_HasMore result then Some ((progress\<lparr>ep_Remaining := 0\<rparr>, None), db)
           else embed_rounds unit_norm info opts due (if eo_UntilIdle opts then eo_Limit opts else remainingLimit) progress db rs))"

text \<open>\<open>start\<close>: the context is done at the start, the count fails in SQL, and the own deadline explains that.\<close>

definition RunEmbed :: "(32 word list \<Rightarrow> bool) \<Rightarrow> provider_info \<Rightarrow> embed_options \<Rightarrow> bool \<times> bool \<times> bool \<Rightarrow> index_db \<Rightarrow> embed_round list \<Rightarrow>
    ((embed_progress \<times> embed_error option) \<times> index_db) option" where
  "RunEmbed unit_norm info opts start db rounds = (case start of (ctxDone, countFails, interrupted) \<Rightarrow>
     if eo_Limit opts \<le> 0 \<or> eo_BatchSize opts \<le> 0 \<or> eo_MaxDuration opts < 0 then Some ((no_progress, Some EmbedInput), db)
     else if ctxDone then Some ((no_progress, Some EmbedCanceled), db)
     else (case profile_ID (provider_profile info) of Inl _ \<Rightarrow> Some ((no_progress, Some EmbedFatal), db) | Inr _ \<Rightarrow>
       if countFails then Some (if 0 < eo_MaxDuration opts \<and> interrupted then ((finishEmbedInterrupted no_progress, None), db)
         else ((no_progress, Some EmbedSQL), db))
       else (case CountChunksNeedingEmbeddingForProfileAt db (provider_profile info) (t_utc (eo_Now opts)) of
           Inl e \<Rightarrow> Some ((no_progress, Some (EmbedStore e)), db)
         | Inr due \<Rightarrow> embed_rounds unit_norm info opts due (eo_Limit opts) (no_progress\<lparr>ep_Remaining := due\<rparr>) db rounds)))"

end
