(* ===== verification/IndexStoreProps.thy ===== *)
theory IndexStoreProps
  imports IndexStore
begin

text \<open>
  The counters of a profile never drift from the tables, a ready embedding is in the exact tail or in the
  active generation once, and a flush moves its window from one to the other.
\<close>

section \<open>Counting rows of a table\<close>

text \<open>A row of the tail, and a member some ready embedding matches, for the members of a generation.\<close>

definition tail_row :: "segment_member list \<Rightarrow> string \<Rightarrow> (string \<times> string) \<times> stored_embedding \<Rightarrow> bool" where
  "tail_row ms p = (\<lambda>((c, q), e). q = p \<and> se_Status e = RetrievalEmbeddingReady \<and> \<not> list_ex (\<lambda>m. describes m c e) ms)"

definition live_member :: "(string \<times> string, stored_embedding) gomap \<Rightarrow> string \<Rightarrow> segment_member \<Rightarrow> bool" where
  "live_member T p m \<longleftrightarrow> (case gm_get T (sm_ChunkID m, p) of
     Some e \<Rightarrow> se_Status e = RetrievalEmbeddingReady \<and> describes m (sm_ChunkID m) e | None \<Rightarrow> False)"

definition tail_count :: "segment_member list \<Rightarrow> string \<Rightarrow> (string \<times> string, stored_embedding) gomap \<Rightarrow> int" where
  "tail_count ms p T = int (length (filter (tail_row ms p) T))"

definition tomb_count :: "segment_member list \<Rightarrow> string \<Rightarrow> (string \<times> string, stored_embedding) gomap \<Rightarrow> int" where
  "tomb_count ms p T = int (length (filter (\<lambda>m. \<not> live_member T p m) ms))"

lemma ready_outside_tail: "ready_outside db p g = filter (tail_row (generation_members db g) p) (db_embeddings db)"
  unfolding ready_outside_def tail_row_def in_generation_def by (rule arg_cong [of _ _ "\<lambda>P. filter P _"]) (simp add: fun_eq_iff)

lemma member_usable_live: "member_usable db p = live_member (db_embeddings db) p"
  by (simp add: member_usable_def live_member_def fun_eq_iff)

lemma counters_eq:
  "countRetrievalGenerationCountersTx db p g =
     (tail_count (generation_members db g) p (db_embeddings db), tomb_count (generation_members db g) p (db_embeddings db))"
  by (simp add: countRetrievalGenerationCountersTx_def tail_count_def tomb_count_def ready_outside_tail member_usable_live)

definition holds_at :: "(('k \<times> 'v) \<Rightarrow> bool) \<Rightarrow> ('k, 'v) gomap \<Rightarrow> 'k \<Rightarrow> int" where
  "holds_at P T k = (case gm_get T k of Some v \<Rightarrow> if P (k, v) then 1 else 0 | None \<Rightarrow> 0)"

lemma filter_length_put:
  "gm_ok T \<Longrightarrow> int (length (filter P (gm_put k v T))) = int (length (filter P T)) - holds_at P T k + (if P (k, v) then 1 else 0)"
proof (induction T)
  case Nil
  then show ?case by (simp add: gm_put_def holds_at_def gm_get_def)
next
  case (Cons x T)
  obtain j w where x: "x = (j, w)" by fastforce
  have ok: "gm_ok T" "j \<notin> fst ` set T" using Cons.prems by (auto simp: gm_ok_def x)
  show ?case
  proof (cases "j = k")
    case True
    then show ?thesis by (simp add: gm_put_def x holds_at_def gm_get_def)
  next
    case False
    then have "gm_put k v (x # T) = x # gm_put k v T" "holds_at P (x # T) k = holds_at P T k"
      by (simp_all add: gm_put_def x holds_at_def gm_get_def)
    then show ?thesis using Cons.IH [OF ok(1)] by simp
  qed
qed

lemma filter_length_del:
  "gm_ok T \<Longrightarrow> int (length (filter P (gm_del k T))) = int (length (filter P T)) - holds_at P T k"
proof (induction T)
  case Nil
  then show ?case by (simp add: gm_del_def holds_at_def gm_get_def)
next
  case (Cons x T)
  obtain j w where x: "x = (j, w)" by fastforce
  have ok: "gm_ok T" "j \<notin> fst ` set T" using Cons.prems by (auto simp: gm_ok_def x)
  show ?case
  proof (cases "j = k")
    case True
    have "gm_get T k = None" using ok(2) True by (simp add: gm_get_None_iff)
    then have "holds_at P T k = 0" by (simp add: holds_at_def)
    with Cons.IH [OF ok(1)] True show ?thesis by (simp add: gm_del_def x holds_at_def gm_get_def)
  next
    case False
    then have "gm_del k (x # T) = x # gm_del k T" "holds_at P (x # T) k = holds_at P T k"
      by (simp_all add: gm_del_def x holds_at_def gm_get_def)
    then show ?thesis using Cons.IH [OF ok(1)] by simp
  qed
qed

section \<open>One embedding changes\<close>

text \<open>How many members describe a ready embedding.\<close>

definition described :: "segment_member list \<Rightarrow> string \<Rightarrow> stored_embedding option \<Rightarrow> int" where
  "described ms c e = (case e of None \<Rightarrow> 0 | Some e \<Rightarrow>
     if se_Status e = RetrievalEmbeddingReady then int (length (filter (\<lambda>m. describes m c e) ms)) else 0)"

lemma live_at_other: "gm_get T' (sm_ChunkID m, p) = gm_get T (sm_ChunkID m, p) \<Longrightarrow> live_member T' p m = live_member T p m"
  by (simp add: live_member_def)

lemma tomb_count_at:
  assumes "\<And>k. k \<noteq> (c, p) \<Longrightarrow> gm_get T' k = gm_get T k"
  shows "tomb_count ms p T' = tomb_count ms p T + described ms c (gm_get T (c, p)) - described ms c (gm_get T' (c, p))"
proof -
  have at: "live_member U p m \<longleftrightarrow> (case gm_get U (c, p) of Some e \<Rightarrow> se_Status e = RetrievalEmbeddingReady \<and> describes m c e | None \<Rightarrow> False)"
    if "sm_ChunkID m = c" for U m using that by (auto simp: live_member_def split: option.splits)
  have other: "live_member T' p m = live_member T p m" if "sm_ChunkID m \<noteq> c" for m
    using assms that by (intro live_at_other) simp
  have dead: "\<not> describes m c e" if "sm_ChunkID m \<noteq> c" for m e using that by (simp add: describes_def)
  show ?thesis unfolding tomb_count_def
  proof (induction ms)
    case Nil
    then show ?case by (simp add: described_def split: option.splits)
  next
    case (Cons m ms)
    have one: "described (m # ms) c x = described ms c x +
        (if (case x of Some e \<Rightarrow> se_Status e = RetrievalEmbeddingReady \<and> describes m c e | None \<Rightarrow> False) then 1 else 0)" for x
      by (simp add: described_def split: option.splits)
    show ?case
    proof (cases "sm_ChunkID m = c")
      case True
      then show ?thesis using Cons.IH by (simp add: one at)
    next
      case False
      then show ?thesis using Cons.IH other dead by (simp add: one split: option.splits)
    qed
  qed
qed

lemma tomb_count_same: "(\<And>c. gm_get T' (c, p) = gm_get T (c, p)) \<Longrightarrow> tomb_count ms p T' = tomb_count ms p T"
  by (simp add: tomb_count_def live_member_def)

lemma distinct_map_narrower: "distinct (map f (filter P xs)) \<Longrightarrow> distinct (map f (filter (\<lambda>x. P x \<and> Q x) xs))"
  using distinct_map_filter [of f "filter P xs" Q] by (simp add: conj_commute)

definition unique_members :: "segment_member list \<Rightarrow> string \<Rightarrow> (string \<times> string, stored_embedding) gomap \<Rightarrow> bool" where
  "unique_members ms p T \<longleftrightarrow> distinct (map (\<lambda>m. (sm_ChunkID m, sm_Revision m, sm_VectorHash m)) (filter (live_member T p) ms))"

lemma distinct_single: "distinct xs \<Longrightarrow> set xs \<subseteq> {a} \<Longrightarrow> length xs \<le> 1"
  by (cases xs; cases "tl xs") auto

lemma unique_described:
  assumes "unique_members ms p T" "gm_get T (c, p) = Some e" "se_Status e = RetrievalEmbeddingReady"
  shows "described ms c (Some e) = (if list_ex (\<lambda>m. describes m c e) ms then 1 else 0)"
proof -
  let ?f = "\<lambda>m. (sm_ChunkID m, sm_Revision m, sm_VectorHash m)"
  let ?D = "filter (\<lambda>m. describes m c e) ms"
  have sub: "describes m c e \<Longrightarrow> live_member T p m" for m using assms(2,3) by (auto simp: live_member_def describes_def)
  then have D: "?D = filter (\<lambda>m. live_member T p m \<and> describes m c e) ms" by (auto intro: filter_cong)
  have "distinct (map ?f ?D)" unfolding D
    by (rule distinct_map_narrower) (use assms(1) in \<open>simp add: unique_members_def\<close>)
  moreover have "set (map ?f ?D) \<subseteq> {(c, se_Revision e, se_VectorHash e)}" by (auto simp: describes_def)
  ultimately have "length (map ?f ?D) \<le> 1" by (rule distinct_single)
  then have "length ?D \<le> 1" by simp
  moreover have "?D \<noteq> [] \<longleftrightarrow> list_ex (\<lambda>m. describes m c e) ms" by (auto simp: filter_empty_conv list_ex_iff)
  ultimately show ?thesis using assms(3) by (cases ?D) (auto simp: described_def)
qed

lemma unique_subset:
  assumes "unique_members ms p T" "\<And>m. m \<in> set ms \<Longrightarrow> live_member T' p m \<Longrightarrow> live_member T p m"
  shows "unique_members ms p T'"
proof -
  have narrow: "filter (live_member T' p) ms = filter (\<lambda>m. live_member T p m \<and> live_member T' p m) ms"
    using assms(2) by (auto intro: filter_cong)
  show ?thesis unfolding unique_members_def narrow
    by (rule distinct_map_narrower) (use assms(1) in \<open>simp add: unique_members_def\<close>)
qed

lemma filter_length_card: "gm_ok T \<Longrightarrow> length (filter P T) = card {k. \<exists>v. gm_get T k = Some v \<and> P (k, v)}"
proof -
  assume ok: "gm_ok T"
  have "distinct (map fst (filter P T))" using ok by (simp add: gm_ok_def distinct_map_filter)
  from distinct_card [OF this] have "length (filter P T) = card (fst ` set (filter P T))" by simp
  also have "fst ` set (filter P T) = {k. \<exists>v. gm_get T k = Some v \<and> P (k, v)}"
    using gm_get_Some_iff [OF ok] by force
  finally show ?thesis .
qed

lemma tail_count_same:
  assumes "gm_ok T" "gm_ok T'" "\<And>c. gm_get T' (c, q) = gm_get T (c, q)"
  shows "tail_count ms q T' = tail_count ms q T"
proof -
  have "{k. \<exists>v. gm_get T' k = Some v \<and> tail_row ms q (k, v)} = {k. \<exists>v. gm_get T k = Some v \<and> tail_row ms q (k, v)}"
    using assms(3) by (auto simp: tail_row_def)
  then show ?thesis by (simp add: tail_count_def filter_length_card [OF assms(1)] filter_length_card [OF assms(2)])
qed

section \<open>The invariant\<close>

definition root_ok :: "index_db \<Rightarrow> string \<Rightarrow> stored_profile \<Rightarrow> bool" where
  "root_ok db p row \<longleftrightarrow>
     (sp_ActiveGenerationID row \<noteq> [] \<longrightarrow> gm_get (db_generations db) (sp_ActiveGenerationID row) \<noteq> None) \<and>
     (\<forall>h. (sp_ActiveGenerationID row, h) \<in> set (db_segmentsOf db) \<longrightarrow> (\<exists>s. gm_get (db_segments db) h = Some s \<and> is_ProfileID s = p)) \<and>
     unique_members (generation_members db (sp_ActiveGenerationID row)) p (db_embeddings db) \<and>
     sp_L0ReadyCount row = tail_count (generation_members db (sp_ActiveGenerationID row)) p (db_embeddings db) \<and>
     sp_ActiveTombstoneCount row = tomb_count (generation_members db (sp_ActiveGenerationID row)) p (db_embeddings db)"

definition embeddings_ok :: "index_db \<Rightarrow> bool" where
  "embeddings_ok db \<longleftrightarrow> gm_ok (db_embeddings db) \<and>
     (\<forall>c p e. gm_get (db_embeddings db) (c, p) = Some e \<longrightarrow> se_VectorHash e = retrievalVectorHash (se_VectorBytes e) \<and>
        (\<exists>row. gm_get (db_profiles db) p = Some row \<and> se_Revision e \<le> sp_LatestRevision row))"

definition members_ok :: "index_db \<Rightarrow> bool" where
  "members_ok db \<longleftrightarrow> (\<forall>m \<in> set (db_members db). \<exists>s row. gm_get (db_segments db) (sm_SegmentHash m) = Some s \<and>
     gm_get (db_profiles db) (is_ProfileID s) = Some row \<and> sm_Revision m \<le> sp_LatestRevision row)"

definition store_inv :: "index_db \<Rightarrow> bool" where
  "store_inv db \<longleftrightarrow> embeddings_ok db \<and> members_ok db \<and>
     (\<forall>g h. (g, h) \<in> set (db_segmentsOf db) \<longrightarrow> g \<noteq> [] \<and> gm_get (db_generations db) g \<noteq> None) \<and>
     (\<forall>p row. gm_get (db_profiles db) p = Some row \<longrightarrow> root_ok db p row)"

lemma store_invD:
  assumes "store_inv db"
  shows "gm_ok (db_embeddings db)"
    and "gm_get (db_embeddings db) (c, p) = Some e \<Longrightarrow> se_VectorHash e = retrievalVectorHash (se_VectorBytes e)"
    and "gm_get (db_embeddings db) (c, p) = Some e \<Longrightarrow> \<exists>row. gm_get (db_profiles db) p = Some row \<and> se_Revision e \<le> sp_LatestRevision row"
    and "gm_get (db_profiles db) p = Some row \<Longrightarrow> root_ok db p row"
  using assms unfolding store_inv_def embeddings_ok_def by blast+

lemma generation_members_iff:
  "m \<in> set (generation_members db g) \<longleftrightarrow> m \<in> set (db_members db) \<and> (g, sm_SegmentHash m) \<in> set (db_segmentsOf db)"
  by (auto simp: generation_members_def)

lemma no_generation: "store_inv db \<Longrightarrow> generation_members db [] = []"
proof -
  assume "store_inv db"
  then have "m \<notin> set (generation_members db [])" for m unfolding store_inv_def generation_members_iff by blast
  then show ?thesis by (cases "generation_members db []") auto
qed

lemma member_revision:
  assumes inv: "store_inv db" and row: "gm_get (db_profiles db) p = Some row"
    and m: "m \<in> set (generation_members db (sp_ActiveGenerationID row))"
  shows "sm_Revision m \<le> sp_LatestRevision row"
proof -
  from m have "m \<in> set (db_members db)" "(sp_ActiveGenerationID row, sm_SegmentHash m) \<in> set (db_segmentsOf db)"
    by (simp_all add: generation_members_iff)
  then obtain s r where s: "gm_get (db_segments db) (sm_SegmentHash m) = Some s" "is_ProfileID s = p"
      "gm_get (db_profiles db) (is_ProfileID s) = Some r" "sm_Revision m \<le> sp_LatestRevision r"
    using inv store_invD(4) [OF inv row] unfolding store_inv_def members_ok_def root_ok_def by fastforce
  with row show ?thesis by simp
qed

text \<open>Embeddings of one profile change, and its row with them.\<close>

definition with_tables :: "index_db \<Rightarrow> string \<Rightarrow> (string \<times> string, stored_embedding) gomap \<Rightarrow> stored_profile \<Rightarrow> index_db" where
  "with_tables db p T row = db\<lparr>db_embeddings := T, db_profiles := gm_put p row (db_profiles db)\<rparr>"

lemma generation_members_with [simp]:
  "generation_members (db\<lparr>db_embeddings := T\<rparr>) = generation_members db"
  "generation_members (db\<lparr>db_profiles := R\<rparr>) = generation_members db"
  "generation_members (with_tables db p T row) = generation_members db"
  by (simp_all add: generation_members_def with_tables_def fun_eq_iff)

lemma inv_with_tables:
  assumes inv: "store_inv db" and row: "gm_get (db_profiles db) p = Some row"
    and same: "sp_ActiveGenerationID row' = sp_ActiveGenerationID row" and later: "sp_LatestRevision row \<le> sp_LatestRevision row'"
    and T: "gm_ok T" "\<And>c q. q \<noteq> p \<Longrightarrow> gm_get T (c, q) = gm_get (db_embeddings db) (c, q)"
      "\<And>c e. gm_get T (c, p) = Some e \<Longrightarrow> se_VectorHash e = retrievalVectorHash (se_VectorBytes e) \<and> se_Revision e \<le> sp_LatestRevision row'"
    and counts: "unique_members (generation_members db (sp_ActiveGenerationID row)) p T"
      "sp_L0ReadyCount row' = tail_count (generation_members db (sp_ActiveGenerationID row)) p T"
      "sp_ActiveTombstoneCount row' = tomb_count (generation_members db (sp_ActiveGenerationID row)) p T"
  shows "store_inv (with_tables db p T row')"
proof -
  let ?db = "with_tables db p T row'"
  have get: "gm_get (db_profiles ?db) q = (if q = p then Some row' else gm_get (db_profiles db) q)" for q
    by (simp add: with_tables_def)
  have embs: "embeddings_ok ?db" unfolding embeddings_ok_def
  proof (intro conjI allI impI)
    show "gm_ok (db_embeddings ?db)" using T(1) by (simp add: with_tables_def)
    fix c q e assume e: "gm_get (db_embeddings ?db) (c, q) = Some e"
    then have e': "gm_get T (c, q) = Some e" by (simp add: with_tables_def)
    show "se_VectorHash e = retrievalVectorHash (se_VectorBytes e)"
      using e' T(2,3) store_invD(2) [OF inv] by (cases "q = p") auto
    show "\<exists>row. gm_get (db_profiles ?db) q = Some row \<and> se_Revision e \<le> sp_LatestRevision row"
      using e' T(2,3) store_invD(3) [OF inv] by (cases "q = p") (auto simp: get)
  qed
  have mems: "members_ok ?db"
    unfolding members_ok_def
  proof
    fix m assume "m \<in> set (db_members ?db)"
    then obtain s r where "gm_get (db_segments db) (sm_SegmentHash m) = Some s" "gm_get (db_profiles db) (is_ProfileID s) = Some r"
        "sm_Revision m \<le> sp_LatestRevision r"
      using inv by (auto simp: store_inv_def members_ok_def with_tables_def)
    then show "\<exists>s row. gm_get (db_segments ?db) (sm_SegmentHash m) = Some s \<and> gm_get (db_profiles ?db) (is_ProfileID s) = Some row \<and>
        sm_Revision m \<le> sp_LatestRevision row"
      using row later by (cases "is_ProfileID s = p") (auto simp: get with_tables_def)
  qed
  have "root_ok ?db q r" if r: "gm_get (db_profiles ?db) q = Some r" for q r
  proof (cases "q = p")
    case True
    then show ?thesis using r counts same store_invD(4) [OF inv row] by (auto simp: get root_ok_def) (auto simp: with_tables_def)
  next
    case False
    then have old: "root_ok db q r" using r store_invD(4) [OF inv] by (simp add: get)
    have tail: "tail_count ms q T = tail_count ms q (db_embeddings db)" for ms
      by (rule tail_count_same [OF store_invD(1) [OF inv] T(1)]) (use T(2) False in simp)
    have tomb: "tomb_count ms q T = tomb_count ms q (db_embeddings db)" for ms
      by (rule tomb_count_same) (use T(2) False in simp)
    have "live_member T q = live_member (db_embeddings db) q"
      using T(2) False by (simp add: live_member_def fun_eq_iff)
    then show ?thesis using old tail tomb unfolding root_ok_def unique_members_def by (simp add: with_tables_def generation_members_def)
  qed
  then show ?thesis using embs mems inv unfolding store_inv_def by (auto simp: with_tables_def)
qed

section \<open>Batches of embeddings\<close>

text \<open>The table after one row of a batch, against the table \<open>T0\<close> the batch started from.\<close>

definition row_revision :: "index_db \<Rightarrow> string \<Rightarrow> int \<Rightarrow> embedding_row \<Rightarrow> int" where
  "row_revision db p revision row = (if membership_changed db p row then revision
     else se_Revision (the (gm_get (db_embeddings db) (em_ChunkID row, p))))"

lemma put_row_eq: "put_row db p revision row T = gm_put (em_ChunkID row, p) (stored_row (row_revision db p revision row) row) T"
  by (simp add: put_row_def row_revision_def Let_def)

lemma unchanged_row:
  assumes inv: "store_inv db" and "\<not> membership_changed db p row"
  obtains e where "gm_get (db_embeddings db) (em_ChunkID row, p) = Some e" "se_Status (stored_row (row_revision db p revision row) row) = se_Status e"
    "\<And>m. describes m (em_ChunkID row) (stored_row (row_revision db p revision row) row) = describes m (em_ChunkID row) e"
proof -
  obtain e where e: "gm_get (db_embeddings db) (em_ChunkID row, p) = Some e" "retrievalEmbeddingMembershipEqual e row"
    using assms(2) by (auto simp: membership_changed_def split: option.splits)
  moreover have "se_VectorHash e = retrievalVectorHash (em_VectorBytes row)"
    using store_invD(2) [OF inv e(1)] e(2) by (simp add: retrievalEmbeddingMembershipEqual_def)
  ultimately show ?thesis using assms(2)
    by (intro that [of e]) (simp_all add: stored_row_def row_revision_def describes_def retrievalEmbeddingMembershipEqual_def)
qed

lemma changed_row:
  assumes "membership_changed db p row" "\<forall>m \<in> set ms. sm_Revision m < revision" "m \<in> set ms"
  shows "\<not> describes m c (stored_row (row_revision db p revision row) row)"
  using assms by (auto simp: stored_row_def row_revision_def describes_def)

lemma row_deltas_tail:
  assumes inv: "store_inv db" and row: "gm_get (db_profiles db) p = Some prow" and g: "g = sp_ActiveGenerationID prow"
    and fresh: "\<forall>m \<in> set (generation_members db g). sm_Revision m < revision"
  shows "fst (row_deltas db p g r) = (if tail_row (generation_members db g) p ((em_ChunkID r, p), stored_row (row_revision db p revision r) r) then 1 else 0)
      - holds_at (tail_row (generation_members db g) p) (db_embeddings db) (em_ChunkID r, p)"
proof (cases "membership_changed db p r")
  case True
  have new: "tail_row (generation_members db g) p ((em_ChunkID r, p), stored_row (row_revision db p revision r) r) \<longleftrightarrow>
      em_Status r = RetrievalEmbeddingReady"
    using changed_row [OF True fresh] by (auto simp: tail_row_def list_ex_iff) (auto simp: stored_row_def)
  show ?thesis
  proof (cases "gm_get (db_embeddings db) (em_ChunkID r, p)")
    case None
    then show ?thesis using True by (simp only: new) (simp add: row_deltas_def holds_at_def)
  next
    case (Some e)
    then show ?thesis using True no_generation [OF inv]
      by (simp only: new; cases "g = []")
        (auto simp: row_deltas_def holds_at_def tail_row_def retrievalEmbeddingHasActiveMembershipTx_def in_generation_def Let_def)
  qed
next
  case False
  from unchanged_row [OF inv this, of revision] obtain e where e: "gm_get (db_embeddings db) (em_ChunkID r, p) = Some e"
    "se_Status (stored_row (row_revision db p revision r) r) = se_Status e"
    "\<And>m. describes m (em_ChunkID r) (stored_row (row_revision db p revision r) r) = describes m (em_ChunkID r) e" by metis
  then show ?thesis using False by (simp add: row_deltas_def holds_at_def tail_row_def)
qed

lemma row_deltas_tomb:
  assumes inv: "store_inv db" and row: "gm_get (db_profiles db) p = Some prow" and g: "g = sp_ActiveGenerationID prow"
    and fresh: "\<forall>m \<in> set (generation_members db g). sm_Revision m < revision"
  shows "snd (row_deltas db p g r) = described (generation_members db g) (em_ChunkID r) (gm_get (db_embeddings db) (em_ChunkID r, p))
      - described (generation_members db g) (em_ChunkID r) (Some (stored_row (row_revision db p revision r) r))"
proof (cases "membership_changed db p r")
  case True
  have uniq: "unique_members (generation_members db g) p (db_embeddings db)"
    using store_invD(4) [OF inv row] by (simp add: root_ok_def g)
  have new: "described (generation_members db g) (em_ChunkID r) (Some (stored_row (row_revision db p revision r) r)) = 0"
    using changed_row [OF True fresh] by (simp add: described_def filter_empty_conv)
  show ?thesis
  proof (cases "gm_get (db_embeddings db) (em_ChunkID r, p)")
    case None
    then show ?thesis using True new by (simp add: row_deltas_def described_def)
  next
    case (Some e)
    show ?thesis
    proof (cases "se_Status e = RetrievalEmbeddingReady")
      case ready: True
      then show ?thesis using True new Some unique_described [OF uniq Some ready] no_generation [OF inv]
        by (auto simp: row_deltas_def retrievalEmbeddingHasActiveMembershipTx_def in_generation_def)
    next
      case False
      have "described (generation_members db g) (em_ChunkID r) (Some e) = 0" using False by (simp add: described_def)
      then show ?thesis using True new Some False by (simp add: row_deltas_def)
    qed
  qed
next
  case False
  from unchanged_row [OF inv this, of revision] obtain e where e: "gm_get (db_embeddings db) (em_ChunkID r, p) = Some e"
    "se_Status (stored_row (row_revision db p revision r) r) = se_Status e"
    "\<And>m. describes m (em_ChunkID r) (stored_row (row_revision db p revision r) r) = describes m (em_ChunkID r) e" by metis
  then show ?thesis using False by (simp add: row_deltas_def described_def)
qed

lemma put_rows_miss:
  "q \<noteq> p \<or> c \<notin> em_ChunkID ` set rows \<Longrightarrow> gm_get (fold (put_row db p revision) rows T) (c, q) = gm_get T (c, q)"
proof (induction rows arbitrary: T)
  case (Cons r rows)
  then have "gm_get (put_row db p revision r T) (c, q) = gm_get T (c, q)" by (auto simp: put_row_eq)
  with Cons show ?case by auto
qed simp

lemma put_rows_hit:
  "distinct (map em_ChunkID rows) \<Longrightarrow> r \<in> set rows \<Longrightarrow>
     gm_get (fold (put_row db p revision) rows T) (em_ChunkID r, p) = Some (stored_row (row_revision db p revision r) r)"
proof (induction rows arbitrary: T)
  case (Cons x rows)
  show ?case
  proof (cases "r = x")
    case True
    then have "em_ChunkID r \<notin> em_ChunkID ` set rows" using Cons.prems by auto
    then have "gm_get (fold (put_row db p revision) (x # rows) T) (em_ChunkID r, p) = gm_get (put_row db p revision x T) (em_ChunkID r, p)"
      using put_rows_miss [of p p "em_ChunkID r" rows db revision "put_row db p revision x T"] by simp
    also have "\<dots> = Some (stored_row (row_revision db p revision r) r)" by (simp add: put_row_eq True)
    finally show ?thesis .
  next
    case False
    then show ?thesis using Cons by auto
  qed
qed simp

lemma put_rows_ok: "gm_ok T \<Longrightarrow> gm_ok (fold (put_row db p revision) rows T)"
  by (induction rows arbitrary: T) (simp_all add: put_row_eq)

lemma put_rows_counts:
  assumes inv: "store_inv db" and row: "gm_get (db_profiles db) p = Some prow" and g: "g = sp_ActiveGenerationID prow"
    and fresh: "\<forall>m \<in> set (generation_members db g). sm_Revision m < revision"
    and T: "gm_ok T" "distinct (map em_ChunkID rows)" "\<And>r. r \<in> set rows \<Longrightarrow> gm_get T (em_ChunkID r, p) = gm_get (db_embeddings db) (em_ChunkID r, p)"
  shows "tail_count (generation_members db g) p (fold (put_row db p revision) rows T) =
      tail_count (generation_members db g) p T + sum_list (map fst (map (row_deltas db p g) rows)) \<and>
    tomb_count (generation_members db g) p (fold (put_row db p revision) rows T) =
      tomb_count (generation_members db g) p T + sum_list (map snd (map (row_deltas db p g) rows))"
  using T
proof (induction rows arbitrary: T)
  case Nil
  then show ?case by simp
next
  case (Cons r rows)
  let ?ms = "generation_members db g" and ?T = "put_row db p revision r T"
  have old: "gm_get T (em_ChunkID r, p) = gm_get (db_embeddings db) (em_ChunkID r, p)" using Cons.prems(3) by simp
  have tail: "tail_count ?ms p ?T = tail_count ?ms p T + fst (row_deltas db p g r)"
    unfolding tail_count_def put_row_eq filter_length_put [OF Cons.prems(1)] row_deltas_tail [OF inv row g fresh]
    using old by (simp add: holds_at_def)
  have "tomb_count ?ms p ?T = tomb_count ?ms p T + described ?ms (em_ChunkID r) (gm_get T (em_ChunkID r, p))
      - described ?ms (em_ChunkID r) (gm_get ?T (em_ChunkID r, p))"
    by (rule tomb_count_at) (simp add: put_row_eq)
  then have tomb: "tomb_count ?ms p ?T = tomb_count ?ms p T + snd (row_deltas db p g r)"
    unfolding row_deltas_tomb [OF inv row g fresh] using old by (simp add: put_row_eq)
  have "gm_get ?T (em_ChunkID x, p) = gm_get (db_embeddings db) (em_ChunkID x, p)" if "x \<in> set rows" for x
  proof -
    have "em_ChunkID x \<in> em_ChunkID ` set rows" using that by simp
    then have "em_ChunkID x \<noteq> em_ChunkID r" using Cons.prems(2) by (metis distinct.simps(2) list.set_map list.simps(9))
    then show ?thesis using Cons.prems(3) [of x] that by (simp add: put_row_eq)
  qed
  from Cons.IH [OF _ _ this] tail tomb Cons.prems show ?case by (simp add: put_row_eq)
qed

lemma put_rows_live:
  assumes inv: "store_inv db" and fresh: "\<forall>m \<in> set ms. sm_Revision m < revision" and rows: "distinct (map em_ChunkID rows)"
    and m: "m \<in> set ms" "live_member (fold (put_row db p revision) rows (db_embeddings db)) p m"
  shows "live_member (db_embeddings db) p m"
proof (cases "sm_ChunkID m \<in> em_ChunkID ` set rows")
  case False
  then show ?thesis using m(2) put_rows_miss [of p p "sm_ChunkID m" rows db revision] by (simp add: live_member_def)
next
  case True
  then obtain r where r: "r \<in> set rows" "sm_ChunkID m = em_ChunkID r" by auto
  note hit = put_rows_hit [OF rows r(1), of db p revision "db_embeddings db"]
  have live: "se_Status (stored_row (row_revision db p revision r) r) = RetrievalEmbeddingReady"
    "describes m (em_ChunkID r) (stored_row (row_revision db p revision r) r)"
    using m(2) hit r(2) by (auto simp: live_member_def)
  show ?thesis
  proof (cases "membership_changed db p r")
    case True
    then show ?thesis using changed_row [OF True fresh m(1)] live(2) by blast
  next
    case False
    from unchanged_row [OF inv False, of revision] obtain e where e: "gm_get (db_embeddings db) (em_ChunkID r, p) = Some e"
      "se_Status (stored_row (row_revision db p revision r) r) = se_Status e"
      "\<And>m. describes m (em_ChunkID r) (stored_row (row_revision db p revision r) r) = describes m (em_ChunkID r) e" by metis
    then show ?thesis using live r(2) by (simp add: live_member_def)
  qed
qed

lemma inv_put_rows:
  assumes inv: "store_inv db" and row: "gm_get (db_profiles db) p = Some prow" and rows: "distinct (map em_ChunkID rows)"
  defines "changed \<equiv> list_ex (membership_changed db p) rows"
  defines "revision \<equiv> if changed then sp_LatestRevision prow + 1 else sp_LatestRevision prow"
  defines "deltas \<equiv> map (row_deltas db p (sp_ActiveGenerationID prow)) rows"
  shows "store_inv (with_tables db p (fold (put_row db p revision) rows (db_embeddings db))
    (if changed then prow\<lparr>sp_LatestRevision := revision, sp_L0ReadyCount := sp_L0ReadyCount prow + sum_list (map fst deltas),
       sp_ActiveTombstoneCount := sp_ActiveTombstoneCount prow + sum_list (map snd deltas)\<rparr> else prow))"
    and "0 \<le> sp_L0ReadyCount prow + sum_list (map fst deltas)"
proof -
  let ?g = "sp_ActiveGenerationID prow" and ?T = "fold (put_row db p revision) rows (db_embeddings db)"
  let ?ms = "generation_members db ?g"
  define next_rev where "next_rev = sp_LatestRevision prow + 1"
  have fresh: "\<forall>m \<in> set ?ms. sm_Revision m < next_rev" using member_revision [OF inv row] by (fastforce simp: next_rev_def)
  have same: "row_revision db p revision r = row_revision db p next_rev r" if "r \<in> set rows" for r
    using that by (auto simp: row_revision_def revision_def next_rev_def changed_def list_ex_iff)
  have "fold (put_row db p revision) rows T = fold (put_row db p next_rev) rows T" for T
    by (rule fold_cong) (simp_all add: put_row_eq same fun_eq_iff)
  then have T: "?T = fold (put_row db p next_rev) rows (db_embeddings db)" by simp
  note counts = put_rows_counts [OF inv row refl fresh store_invD(1) [OF inv] rows refl]
  have root: "root_ok db p prow" by (rule store_invD(4) [OF inv row])
  have unchanged: "sum_list (map fst deltas) = 0 \<and> sum_list (map snd deltas) = 0" if "\<not> changed"
  proof -
    have "deltas = map (\<lambda>_. (0, 0)) rows" unfolding deltas_def
      by (rule map_cong) (use that in \<open>auto simp: changed_def row_deltas_def list_ex_iff\<close>)
    then show ?thesis by (simp add: map_replicate_const sum_list_replicate)
  qed
  have uniq: "unique_members ?ms p ?T" unfolding T
    by (rule unique_subset [of _ _ "db_embeddings db"]) (use root put_rows_live [OF inv fresh rows] in \<open>auto simp: root_ok_def\<close>)
  have tail: "tail_count ?ms p ?T = sp_L0ReadyCount prow + sum_list (map fst deltas)"
    using counts root by (simp add: T root_ok_def deltas_def)
  have tomb: "tomb_count ?ms p ?T = sp_ActiveTombstoneCount prow + sum_list (map snd deltas)"
    using counts root by (simp add: T root_ok_def deltas_def)
  show "0 \<le> sp_L0ReadyCount prow + sum_list (map fst deltas)" using tail by (simp add: tail_count_def flip: tail)
  have stored: "se_VectorHash e = retrievalVectorHash (se_VectorBytes e) \<and> se_Revision e \<le> revision" if "gm_get ?T (c, p) = Some e" for c e
  proof (cases "c \<in> em_ChunkID ` set rows")
    case True
    then obtain r where r: "r \<in> set rows" "c = em_ChunkID r" by auto
    have "e = stored_row (row_revision db p revision r) r"
      using put_rows_hit [OF rows r(1), of db p revision "db_embeddings db"] that r(2) by simp
    moreover have "row_revision db p revision r \<le> revision"
    proof (cases "membership_changed db p r")
      case False
      then obtain old where old: "gm_get (db_embeddings db) (em_ChunkID r, p) = Some old"
        by (auto simp: membership_changed_def split: option.splits)
      then show ?thesis using store_invD(3) [OF inv old] row False by (auto simp: row_revision_def revision_def)
    qed (simp add: row_revision_def)
    ultimately show ?thesis by (simp add: stored_row_def)
  next
    case False
    then have "gm_get (db_embeddings db) (c, p) = Some e" using that put_rows_miss [of p p c rows db revision] by simp
    from store_invD(2,3) [OF inv this] row show ?thesis by (auto simp: revision_def)
  qed
  show "store_inv (with_tables db p ?T (if changed then prow\<lparr>sp_LatestRevision := revision,
      sp_L0ReadyCount := sp_L0ReadyCount prow + sum_list (map fst deltas),
      sp_ActiveTombstoneCount := sp_ActiveTombstoneCount prow + sum_list (map snd deltas)\<rparr> else prow))"
  proof (rule inv_with_tables [OF inv row])
    show "gm_ok ?T" by (rule put_rows_ok [OF store_invD(1) [OF inv]])
    show "gm_get ?T (c, q) = gm_get (db_embeddings db) (c, q)" if "q \<noteq> p" for c q using that by (simp add: put_rows_miss)
  qed (use uniq tail tomb stored unchanged in \<open>auto simp: revision_def split: if_splits\<close>)
qed

lemma validate_rows_distinct:
  "validate_rows unit_norm profile p seen input = Inr rows \<Longrightarrow> distinct (map em_ChunkID rows) \<and> set (map em_ChunkID rows) \<inter> set seen = {}"
proof (induction input arbitrary: seen rows)
  case (Cons r input)
  then obtain rs r' where rs: "rows = r' # rs" "em_ChunkID r' = em_ChunkID r" "em_ChunkID r \<notin> set seen"
      "validate_rows unit_norm profile p (em_ChunkID r' # seen) input = Inr rs"
    by (auto simp: Let_def split: if_splits sum.splits)
  from Cons.IH [OF rs(4)] rs(1,2,3) show ?case by auto
qed simp

lemma batch_distinct: "validateRetrievalEmbeddingBatch unit_norm profile p input = Inr rows \<Longrightarrow> distinct (map em_ChunkID rows)"
  using validate_rows_distinct by (fastforce simp: validateRetrievalEmbeddingBatch_def split: if_splits)

text \<open>A profile without a row has no embeddings and no segments.\<close>

definition fresh_row :: "profile \<Rightarrow> int \<Rightarrow> stored_profile" where
  "fresh_row profile epoch = \<lparr>sp_Profile = profile, sp_LatestRevision = 0, sp_PurgeEpoch = epoch, sp_ActiveGenerationID = [],
     sp_ActiveSnapshotRevision = 0, sp_ActiveIndexedCount = 0, sp_L0ReadyCount = 0, sp_ActiveTombstoneCount = 0\<rparr>"

lemma inv_new_profile:
  assumes inv: "store_inv db" and none: "gm_get (db_profiles db) p = None"
  shows "store_inv (db\<lparr>db_profiles := gm_put p (fresh_row profile epoch) (db_profiles db)\<rparr>)"
proof -
  have no: "gm_get (db_embeddings db) (c, p) = None" for c using store_invD(3) [OF inv, of c p] none by (cases "gm_get (db_embeddings db) (c, p)") auto
  then have "tail_row [] p x = False" if "x \<in> set (db_embeddings db)" for x
  proof -
    obtain c q e where x: "x = ((c, q), e)" by (metis prod.exhaust)
    have "gm_get (db_embeddings db) (c, q) = Some e" using that gm_get_Some_iff [OF store_invD(1) [OF inv]] by (simp add: x)
    then show ?thesis using no [of c] by (auto simp: x tail_row_def)
  qed
  then have "tail_count [] p (db_embeddings db) = 0" by (simp add: tail_count_def)
  then have root: "root_ok (db\<lparr>db_profiles := R\<rparr>) p (fresh_row profile epoch)" for R
    using inv no_generation [OF inv] by (auto simp: root_ok_def fresh_row_def unique_members_def tomb_count_def store_inv_def)
  have old: "root_ok (db\<lparr>db_profiles := R\<rparr>) q row = root_ok db q row" for R q row by (simp add: root_ok_def)
  show ?thesis using inv root none unfolding store_inv_def embeddings_ok_def members_ok_def
    by (auto simp: old) (metis option.distinct(1))+
qed

definition put_ready :: "index_db \<Rightarrow> string \<Rightarrow> profile \<Rightarrow> int \<Rightarrow> index_db" where
  "put_ready db p profile epoch = (case gm_get (db_profiles db) p of Some _ \<Rightarrow> db
     | None \<Rightarrow> db\<lparr>db_profiles := gm_put p (fresh_row profile epoch) (db_profiles db)\<rparr>)"

lemma put_ready_facts:
  assumes inv: "store_inv db" and row: "ensureRetrievalEmbeddingProfileTx db p epoch profile = Inr row"
  shows "store_inv (put_ready db p profile epoch)" "gm_get (db_profiles (put_ready db p profile epoch)) p = Some row"
    "row_deltas (put_ready db p profile epoch) = row_deltas db" "membership_changed (put_ready db p profile epoch) = membership_changed db"
    "put_row (put_ready db p profile epoch) = put_row db" "db_embeddings (put_ready db p profile epoch) = db_embeddings db"
    "with_tables (put_ready db p profile epoch) p T r = with_tables db p T r"
proof -
  show "store_inv (put_ready db p profile epoch)" using inv inv_new_profile [OF inv] by (simp add: put_ready_def split: option.splits)
  show "gm_get (db_profiles (put_ready db p profile epoch)) p = Some row"
    using row by (auto simp: put_ready_def ensureRetrievalEmbeddingProfileTx_def fresh_row_def Let_def split: option.splits if_splits)
  have c: "membership_changed (put_ready db p profile epoch) = membership_changed db"
    by (simp add: put_ready_def membership_changed_def fun_eq_iff split: option.splits)
  show "membership_changed (put_ready db p profile epoch) = membership_changed db" by (rule c)
  have m: "retrievalEmbeddingHasActiveMembershipTx (put_ready db p profile epoch) = retrievalEmbeddingHasActiveMembershipTx db"
    by (simp add: put_ready_def retrievalEmbeddingHasActiveMembershipTx_def in_generation_def fun_eq_iff split: option.splits)
  show e: "db_embeddings (put_ready db p profile epoch) = db_embeddings db" by (simp add: put_ready_def split: option.splits)
  show "row_deltas (put_ready db p profile epoch) = row_deltas db" by (simp add: row_deltas_def c m e fun_eq_iff)
  show "put_row (put_ready db p profile epoch) = put_row db" by (simp add: put_row_def c e fun_eq_iff)
  have "gm_put p r (gm_put p (fresh_row profile epoch) (db_profiles db)) = gm_put p r (db_profiles db)"
    if "gm_get (db_profiles db) p = None"
    using that unfolding gm_put_def gm_get_def by (induction "db_profiles db" arbitrary: db) (auto split: if_splits)
  then show "with_tables (put_ready db p profile epoch) p T r = with_tables db p T r"
    by (auto simp: put_ready_def with_tables_def split: option.splits)
qed

lemma put_keeps_inv:
  assumes inv: "store_inv db" and put: "PutRetrievalEmbeddingBatch unit_norm profile input epoch db = Inr (revision, db')"
  shows "store_inv db'"
proof -
  obtain p rows row where p: "validateRetrievalEmbeddingBatch unit_norm profile p input = Inr rows"
      "ensureRetrievalEmbeddingProfileTx db p (db_purgeEpoch db) profile = Inr row"
    and db': "db' = with_tables db p (fold (put_row db p revision) rows (db_embeddings db))
      (if list_ex (membership_changed db p) rows then row\<lparr>sp_LatestRevision := revision,
        sp_L0ReadyCount := sp_L0ReadyCount row + sum_list (map fst (map (row_deltas db p (sp_ActiveGenerationID row)) rows)),
        sp_ActiveTombstoneCount := sp_ActiveTombstoneCount row + sum_list (map snd (map (row_deltas db p (sp_ActiveGenerationID row)) rows))\<rparr>
       else row)"
    and rev: "revision = (if list_ex (membership_changed db p) rows then sp_LatestRevision row + 1 else sp_LatestRevision row)"
    using put by (auto simp: PutRetrievalEmbeddingBatch_def with_tables_def Let_def split: sum.splits if_splits option.splits)
  note f = put_ready_facts [OF inv p(2)]
  show ?thesis using inv_put_rows(1) [OF f(1,2) batch_distinct [OF p(1)]] unfolding f(3-7) db' rev by simp
qed

lemma validate_rows_drift: "validate_rows unit_norm profile p seen input \<noteq> Inl (AggregateDrift q)"
  by (induction input arbitrary: seen) (auto simp: Let_def split: sum.splits)

lemma check_chunks_drift: "check_chunks db profile rows \<noteq> Some (AggregateDrift q)"
  by (induction rows) (auto split: option.splits)

lemma drift_free:
  "validateRetrievalEmbeddingBatch unit_norm profile p input \<noteq> Inl (AggregateDrift q)"
  "ensureRetrievalEmbeddingProfileTx db p epoch profile \<noteq> Inl (AggregateDrift q)"
  "check_chunks db profile rows \<noteq> Some (AggregateDrift q)"
  by (auto simp: validateRetrievalEmbeddingBatch_def validate_rows_drift check_chunks_drift ensureRetrievalEmbeddingProfileTx_def Let_def)

lemma put_never_drifts:
  assumes inv: "store_inv db"
  shows "PutRetrievalEmbeddingBatch unit_norm profile input epoch db \<noteq> Inl (AggregateDrift p)"
proof
  assume "PutRetrievalEmbeddingBatch unit_norm profile input epoch db = Inl (AggregateDrift p)"
  then obtain q rows row where q: "validateRetrievalEmbeddingBatch unit_norm profile q input = Inr rows"
      "ensureRetrievalEmbeddingProfileTx db q (db_purgeEpoch db) profile = Inr row"
    and drift: "sp_L0ReadyCount row + sum_list (map fst (map (row_deltas db q (sp_ActiveGenerationID row)) rows)) < 0"
    by (auto simp: PutRetrievalEmbeddingBatch_def Let_def drift_free split: sum.splits if_splits option.splits)
  note f = put_ready_facts [OF inv q(2)]
  show False using inv_put_rows(2) [OF f(1,2) batch_distinct [OF q(1)]] drift unfolding f(3-7) by simp
qed

section \<open>A corrupt embedding, a deleted embedding\<close>

text \<open>An embedding that was ready is not any more.\<close>

lemma inv_unready:
  assumes inv: "store_inv db" and row: "gm_get (db_profiles db) p = Some row"
    and e: "gm_get (db_embeddings db) (c, p) = Some e" and same: "sp_ActiveGenerationID row' = sp_ActiveGenerationID row"
      "sp_LatestRevision row \<le> sp_LatestRevision row'"
    and T: "gm_ok T" "\<And>k. k \<noteq> (c, p) \<Longrightarrow> gm_get T k = gm_get (db_embeddings db) k"
      "\<And>e'. gm_get T (c, p) = Some e' \<Longrightarrow> se_Status e' \<noteq> RetrievalEmbeddingReady \<and>
         se_VectorHash e' = retrievalVectorHash (se_VectorBytes e') \<and> se_Revision e' \<le> sp_LatestRevision row'"
      "tail_count (generation_members db (sp_ActiveGenerationID row)) p T =
         tail_count (generation_members db (sp_ActiveGenerationID row)) p (db_embeddings db)
           - holds_at (tail_row (generation_members db (sp_ActiveGenerationID row)) p) (db_embeddings db) (c, p)"
    and inside: "inside = in_generation db (sp_ActiveGenerationID row) c e" and ready: "ready = (se_Status e = RetrievalEmbeddingReady)"
    and counts: "sp_L0ReadyCount row' = sp_L0ReadyCount row - (if ready \<and> \<not> inside then 1 else 0)"
      "sp_ActiveTombstoneCount row' = sp_ActiveTombstoneCount row + (if ready \<and> inside then 1 else 0)"
  shows "store_inv (with_tables db p T row')" "ready \<and> \<not> inside \<Longrightarrow> 0 < sp_L0ReadyCount row"
proof -
  let ?ms = "generation_members db (sp_ActiveGenerationID row)"
  have root: "root_ok db p row" by (rule store_invD(4) [OF inv row])
  then have uniq: "unique_members ?ms p (db_embeddings db)" by (simp add: root_ok_def)
  have at: "holds_at (tail_row ?ms p) (db_embeddings db) (c, p) = (if ready \<and> \<not> inside then 1 else 0)"
    by (simp add: holds_at_def e tail_row_def ready inside in_generation_def)
  have old: "described ?ms c (Some e) = (if ready \<and> inside then 1 else 0)"
    using unique_described [OF uniq e] by (auto simp: ready inside in_generation_def described_def)
  have new: "described ?ms c (gm_get T (c, p)) = 0" using T(3) by (cases "gm_get T (c, p)") (auto simp: described_def)
  have tomb: "tomb_count ?ms p T = sp_ActiveTombstoneCount row'"
    using tomb_count_at [of c p T "db_embeddings db" ?ms] T(2) e old new root counts(2) by (simp add: root_ok_def)
  have tail: "tail_count ?ms p T = sp_L0ReadyCount row'" using T(4) at root counts(1) by (simp add: root_ok_def)
  have dead: "\<not> live_member T p m" if "sm_ChunkID m = c" for m
    using T(3) that by (auto simp: live_member_def split: option.splits)
  have "live_member (db_embeddings db) p m" if "live_member T p m" for m
    using that dead [of m] T(2) [of "(sm_ChunkID m, p)"] by (cases "sm_ChunkID m = c") (auto simp: live_member_def)
  then have uniq': "unique_members ?ms p T" by (rule unique_subset [OF uniq])
  show "store_inv (with_tables db p T row')"
  proof (rule inv_with_tables [OF inv row same T(1)])
    show "gm_get T (d, q) = gm_get (db_embeddings db) (d, q)" if "q \<noteq> p" for d q using T(2) that by simp
    show "se_VectorHash x = retrievalVectorHash (se_VectorBytes x) \<and> se_Revision x \<le> sp_LatestRevision row'"
      if "gm_get T (d, p) = Some x" for d x
    proof (cases "d = c")
      case False
      then have "gm_get (db_embeddings db) (d, p) = Some x" using T(2) that by simp
      from store_invD(2,3) [OF inv this] row same(2) show ?thesis by auto
    qed (use T(3) that in simp)
  qed (use uniq' tail tomb in simp_all)
  have "0 \<le> tail_count ?ms p T" by (simp add: tail_count_def)
  then show "0 < sp_L0ReadyCount row" if "ready \<and> \<not> inside" using tail counts(1) that by simp
qed

lemma active_inside:
  "store_inv db \<Longrightarrow> se_Status e = RetrievalEmbeddingReady \<Longrightarrow> retrievalEmbeddingHasActiveMembershipTx db g c e = in_generation db g c e"
  using no_generation [of db] by (auto simp: retrievalEmbeddingHasActiveMembershipTx_def in_generation_def)

lemma ensure_existing:
  "gm_get (db_profiles db) p = Some row \<Longrightarrow> ensureRetrievalEmbeddingProfileTx db p epoch profile = Inr row' \<Longrightarrow> row' = row"
  by (auto simp: ensureRetrievalEmbeddingProfileTx_def Let_def split: if_splits)

lemma block_keeps_inv:
  assumes inv: "store_inv db" and block: "BlockCorruptRetrievalEmbedding unit_norm chunk profileID reason db = Inr db'"
  shows "store_inv db'"
proof -
  let ?c = "TrimSpace chunk" and ?p = "TrimSpace profileID"
  obtain e ck profile row where e: "gm_get (db_embeddings db) (?c, ?p) = Some e" "se_Status e = RetrievalEmbeddingReady"
      and row: "ensureRetrievalEmbeddingProfileTx db ?p (db_purgeEpoch db) profile = Inr row"
      and db': "db' = with_tables db ?p (gm_put (?c, ?p) (e\<lparr>se_Status := RetrievalEmbeddingBlocked, se_NextAttemptAt := [],
          se_Revision := sp_LatestRevision row + 1\<rparr>) (db_embeddings db))
        (row\<lparr>sp_LatestRevision := sp_LatestRevision row + 1,
           sp_L0ReadyCount := sp_L0ReadyCount row + (if retrievalEmbeddingHasActiveMembershipTx db (sp_ActiveGenerationID row) ?c e then 0 else - 1),
           sp_ActiveTombstoneCount := sp_ActiveTombstoneCount row +
             (if retrievalEmbeddingHasActiveMembershipTx db (sp_ActiveGenerationID row) ?c e then 1 else 0)\<rparr>)"
    using block by (auto simp: BlockCorruptRetrievalEmbedding_def with_tables_def Let_def split: if_splits option.splits sum.splits)
  obtain row0 where row0: "gm_get (db_profiles db) ?p = Some row0" using store_invD(3) [OF inv e(1)] by auto
  have prow: "gm_get (db_profiles db) ?p = Some row" using ensure_existing [OF row0 row] row0 by simp
  have hash: "se_VectorHash e = retrievalVectorHash (se_VectorBytes e)" by (rule store_invD(2) [OF inv e(1)])
  note act = active_inside [OF inv e(2), of "sp_ActiveGenerationID row" ?c]
  show ?thesis unfolding db' act
  proof (rule inv_unready(1) [OF inv prow e(1) _ _ _ _ _ _ refl refl])
    show "gm_ok (gm_put (?c, ?p) (e\<lparr>se_Status := RetrievalEmbeddingBlocked, se_NextAttemptAt := [], se_Revision := sp_LatestRevision row + 1\<rparr>)
        (db_embeddings db))" using store_invD(1) [OF inv] by simp
  qed (use e(2) hash store_invD(1) [OF inv] in
      \<open>simp_all add: embedding_statuses tail_count_def filter_length_put tail_row_def\<close>)
qed

lemma delete_keeps_inv:
  assumes inv: "store_inv db" and delete: "account_delete chunk p db = Inr db'"
  shows "store_inv db'"
proof (cases "gm_get (db_embeddings db) (chunk, p)")
  case None
  then show ?thesis using delete inv by (simp add: account_delete_def)
next
  case (Some e)
  then obtain row where row: "gm_get (db_profiles db) p = Some row"
    and db': "db' = with_tables db p (gm_del (chunk, p) (db_embeddings db))
      (row\<lparr>sp_L0ReadyCount := sp_L0ReadyCount row - (if se_Status e = RetrievalEmbeddingReady \<and>
          \<not> in_generation db (sp_ActiveGenerationID row) chunk e then 1 else 0),
         sp_ActiveTombstoneCount := sp_ActiveTombstoneCount row + (if se_Status e = RetrievalEmbeddingReady \<and>
          in_generation db (sp_ActiveGenerationID row) chunk e then 1 else 0)\<rparr>)"
    using delete by (auto simp: account_delete_def with_tables_def Let_def split: option.splits if_splits)
  show ?thesis unfolding db'
    by (rule inv_unready(1) [OF inv row Some _ _ _ _ _ _ refl refl])
      (use store_invD(1) [OF inv] in \<open>simp_all add: tail_count_def filter_length_del\<close>)
qed

end
