(* ===== verification/EmbedBatchProps.thy ===== *)
theory EmbedBatchProps
  imports EmbedBatch IndexStoreProps
begin

text \<open>
  A batch stores every chunk it was given as ready or blocked, or stops at an error after a prefix of it; it
  makes few calls, and the command ends with no chunk due.
\<close>

section \<open>What a transaction of rows does\<close>

definition stores :: "embed_execution \<Rightarrow> stored_chunk list \<Rightarrow> string set \<Rightarrow> index_db \<Rightarrow> index_db \<Rightarrow> bool" where
  "stores ex chunks statuses db db' \<longleftrightarrow>
     db_chunks db' = db_chunks db \<and> db_currentParents db' = db_currentParents db \<and> db_purgeEpoch db' = db_purgeEpoch db \<and>
     (\<forall>c q. q \<noteq> ex_ProfileID ex \<or> c \<notin> sc_ChunkID ` set chunks \<longrightarrow> gm_get (db_embeddings db') (c, q) = gm_get (db_embeddings db) (c, q)) \<and>
     (\<forall>k \<in> set chunks. \<exists>e. gm_get (db_embeddings db') (sc_ChunkID k, ex_ProfileID ex) = Some e \<and>
        se_ChunkTextHash e = sc_ChunkTextHash k \<and> se_Status e \<in> statuses)"

lemma stores_none [simp]: "stores ex [] S db db"
  by (simp add: stores_def)

lemma stores_append:
  assumes "stores ex xs S db mid" "stores ex ys S mid db'" "sc_ChunkID ` set xs \<inter> sc_ChunkID ` set ys = {}"
  shows "stores ex (xs @ ys) S db db'"
proof -
  have "gm_get (db_embeddings db') (sc_ChunkID k, ex_ProfileID ex) = gm_get (db_embeddings mid) (sc_ChunkID k, ex_ProfileID ex)"
    if "k \<in> set xs" for k using that assms(2,3) unfolding stores_def by blast
  then show ?thesis using assms(1,2) unfolding stores_def by (auto simp: image_Un)
qed

lemma validate_rows_same:
  "validate_rows unit_norm profile p seen input = Inr rows \<Longrightarrow> \<forall>r \<in> set input. em_Status r \<noteq> [] \<Longrightarrow> rows = input"
  by (induction input arbitrary: seen rows) (auto simp: Let_def split: if_splits sum.splits)

lemma put_stores:
  assumes put: "PutRetrievalEmbeddingBatch unit_norm profile rows epoch db = Inr (revision, db')"
    and id: "profile_ID profile = Inr p" and status: "\<forall>r \<in> set rows. em_Status r \<noteq> []"
  shows "db_chunks db' = db_chunks db" "db_currentParents db' = db_currentParents db" "db_purgeEpoch db' = db_purgeEpoch db"
    and "q \<noteq> p \<or> c \<notin> em_ChunkID ` set rows \<Longrightarrow> gm_get (db_embeddings db') (c, q) = gm_get (db_embeddings db) (c, q)"
    and "r \<in> set rows \<Longrightarrow> \<exists>v. gm_get (db_embeddings db') (em_ChunkID r, p) = Some (stored_row v r)"
proof -
  obtain rows' where rows': "validateRetrievalEmbeddingBatch unit_norm profile p rows = Inr rows'"
    using put id by (auto simp: PutRetrievalEmbeddingBatch_def split: sum.splits)
  then have same: "rows' = rows" using validate_rows_same status by (fastforce simp: validateRetrievalEmbeddingBatch_def split: if_splits)
  have table: "db_embeddings db' = fold (put_row db p revision) rows (db_embeddings db)"
    and rest: "db_chunks db' = db_chunks db" "db_currentParents db' = db_currentParents db" "db_purgeEpoch db' = db_purgeEpoch db"
    using put id rows' unfolding same by (auto simp: PutRetrievalEmbeddingBatch_def Let_def split: sum.splits if_splits option.splits)
  show "db_chunks db' = db_chunks db" "db_currentParents db' = db_currentParents db" "db_purgeEpoch db' = db_purgeEpoch db" by (rule rest)+
  show "gm_get (db_embeddings db') (c, q) = gm_get (db_embeddings db) (c, q)" if "q \<noteq> p \<or> c \<notin> em_ChunkID ` set rows"
    unfolding table by (rule put_rows_miss [OF that])
  show "\<exists>v. gm_get (db_embeddings db') (em_ChunkID r, p) = Some (stored_row v r)" if "r \<in> set rows"
    unfolding table using put_rows_hit [OF batch_distinct [OF rows', unfolded same] that] by blast
qed

text \<open>The rows of a batch, chunk by chunk.\<close>

definition rows_for :: "stored_chunk list \<Rightarrow> string \<Rightarrow> embedding_row list \<Rightarrow> bool" where
  "rows_for batch status rows \<longleftrightarrow> map em_ChunkID rows = map sc_ChunkID batch \<and> map em_ChunkTextHash rows = map sc_ChunkTextHash batch \<and>
     (\<forall>r \<in> set rows. em_Status r = status)"

lemma put_rows_stores:
  assumes put: "put_rows unit_norm ex f rows s = ((revision, None), s')" and id: "profile_ID (ex_Profile ex) = Inr (ex_ProfileID ex)"
    and rows: "rows_for batch status rows" "status \<noteq> []"
  shows "stores ex batch {status} (es_db s) (es_db s')" "s' = s\<lparr>es_db := es_db s'\<rparr>"
proof -
  obtain db' where p: "PutRetrievalEmbeddingBatch unit_norm (ex_Profile ex) rows (ex_PurgeEpoch ex) (es_db s) = Inr (revision, db')" "s' = s\<lparr>es_db := db'\<rparr>"
    using put by (auto simp: put_rows_def split: if_splits sum.splits)
  have st: "\<forall>r \<in> set rows. em_Status r \<noteq> []" using rows by (simp add: rows_for_def)
  note f = put_stores [OF p(1) id st]
  have ids: "em_ChunkID ` set rows = sc_ChunkID ` set batch" using rows(1) unfolding rows_for_def by (metis list.set_map)
  have "\<exists>e. gm_get (db_embeddings db') (sc_ChunkID k, ex_ProfileID ex) = Some e \<and> se_ChunkTextHash e = sc_ChunkTextHash k \<and> se_Status e \<in> {status}"
    if k: "k \<in> set batch" for k
  proof -
    obtain i where i: "i < length batch" "batch ! i = k" using k by (auto simp: in_set_conv_nth)
    have len: "length rows = length batch" using rows(1) unfolding rows_for_def by (metis length_map)
    then have "em_ChunkID (rows ! i) = sc_ChunkID k" "em_ChunkTextHash (rows ! i) = sc_ChunkTextHash k" "rows ! i \<in> set rows"
      using i rows(1) unfolding rows_for_def by (metis nth_map, metis nth_map, simp)
    then show ?thesis using f(5) [of "rows ! i"] rows(1) by (auto simp: stored_row_def rows_for_def)
  qed
  then show "stores ex batch {status} (es_db s) (es_db s')" using f ids p(2) unfolding stores_def by simp
  show "s' = s\<lparr>es_db := es_db s'\<rparr>" using p(2) by simp
qed

lemma stores_weaken: "stores ex xs S db db' \<Longrightarrow> S \<subseteq> S' \<Longrightarrow> stores ex xs S' db db'"
  unfolding stores_def by blast

lemma ready_stores:
  assumes "persistReadyEmbedBatch unit_norm ex f batch response s = ((revision, None), s')" "profile_ID (ex_Profile ex) = Inr (ex_ProfileID ex)"
  shows "stores ex batch {RetrievalEmbeddingReady} (es_db s) (es_db s')"
    "s' = s\<lparr>es_db := es_db s', es_progress := count_ready (int (length batch)) (es_progress s)\<rparr>"
proof -
  let ?rows = "map2 (ready_embedding ex (es_attempts s)) batch (rs_Vectors response)"
  obtain s1 where put: "put_rows unit_norm ex f ?rows s = ((revision, None), s1)"
      and s': "s' = s1\<lparr>es_progress := count_ready (int (length batch)) (es_progress s1)\<rparr>"
      and len: "length (rs_Vectors response) = length batch"
    using assms(1) by (auto simp: persistReadyEmbedBatch_def ValidateResponse_def split: if_splits prod.splits option.splits)
  have "map em_ChunkID ?rows = map sc_ChunkID batch" "map em_ChunkTextHash ?rows = map sc_ChunkTextHash batch"
    using len by (simp_all add: list_eq_iff_nth_eq ready_embedding_def embeddingRow_def)
  moreover have "\<forall>r \<in> set ?rows. em_Status r = RetrievalEmbeddingReady" by (auto simp: ready_embedding_def embeddingRow_def)
  ultimately have rows: "rows_for batch RetrievalEmbeddingReady ?rows" by (simp add: rows_for_def)
  note f = put_rows_stores [OF put assms(2) rows]
  show "stores ex batch {RetrievalEmbeddingReady} (es_db s) (es_db s')" using f(1) s' by (simp add: embedding_statuses)
  have "s1 = s\<lparr>es_db := es_db s1\<rparr>" by (rule f(2)) (simp add: embedding_statuses)
  then show "s' = s\<lparr>es_db := es_db s', es_progress := count_ready (int (length batch)) (es_progress s)\<rparr>" using s'
    by (metis (no_types, lifting) embed_state.select_convs(5) embed_state.surjective embed_state.update_convs(1) embed_state.update_convs(5))
qed


lemma failed_stores:
  assumes "persistFailedEmbedBatch unit_norm ex f batch status s = ((revision, None), s')" "profile_ID (ex_Profile ex) = Inr (ex_ProfileID ex)"
    and status: "status \<noteq> []"
  shows "stores ex batch {status} (es_db s) (es_db s')"
    "s' = s\<lparr>es_db := es_db s', es_progress := count_failed status (int (length batch)) (es_progress s)\<rparr>"
proof -
  let ?rows = "map (failed_embedding ex (es_attempts s) status) batch"
  obtain s1 where put: "put_rows unit_norm ex f ?rows s = ((revision, None), s1)"
      and s': "s' = s1\<lparr>es_progress := count_failed status (int (length batch)) (es_progress s1)\<rparr>"
    using assms(1) by (auto simp: persistFailedEmbedBatch_def split: prod.splits option.splits)
  have rows: "rows_for batch status ?rows" by (simp add: rows_for_def failed_embedding_def embeddingRow_def Let_def)
  note f = put_rows_stores [OF put assms(2) rows status]
  show "stores ex batch {status} (es_db s) (es_db s')" using f(1) s' by simp
  show "s' = s\<lparr>es_db := es_db s', es_progress := count_failed status (int (length batch)) (es_progress s)\<rparr>" using s' f(2)
    by (metis (no_types, lifting) embed_state.select_convs(5) embed_state.surjective embed_state.update_convs(1) embed_state.update_convs(5))
qed

definition plain_error :: "embed_error \<Rightarrow> bool" where
  "plain_error e \<longleftrightarrow> e \<noteq> EmbedCircuit \<and> e \<noteq> StillRunning \<and> (\<forall>x. e \<noteq> EmbedCircuitAnd x)"

lemma put_rows_error: "put_rows unit_norm ex f rows s = ((revision, Some e), s') \<Longrightarrow> s' = s \<and> plain_error e"
  by (auto simp: put_rows_def plain_error_def split: if_splits sum.splits)

lemma persist_error:
  "persistReadyEmbedBatch unit_norm ex f batch response s = ((revision, Some e), s') \<Longrightarrow> s' = s \<and> plain_error e"
  "persistFailedEmbedBatch unit_norm ex f batch status s = ((revision, Some e), s') \<Longrightarrow> s' = s \<and> plain_error e"
  by (auto simp: persistReadyEmbedBatch_def persistFailedEmbedBatch_def plain_error_def dest: put_rows_error [unfolded plain_error_def] split: if_splits prod.splits option.splits)

section \<open>A batch accounts for its chunks\<close>

text \<open>\<open>good\<close> was stored as ready or blocked; \<open>bad\<close>, not empty exactly when the circuit opened, as failed; \<open>rest\<close> was not reached.\<close>

definition accounts :: "embed_execution \<Rightarrow> stored_chunk list \<Rightarrow> embed_state \<Rightarrow> embed_error option \<Rightarrow> embed_state \<Rightarrow> bool" where
  "accounts ex batch s err s' \<longleftrightarrow> (\<exists>good bad rest mid. batch = good @ bad @ rest \<and>
     stores ex good {RetrievalEmbeddingReady, RetrievalEmbeddingBlocked} (es_db s) mid \<and>
     stores ex bad {RetrievalEmbeddingError} mid (es_db s') \<and>
     (err = None \<longrightarrow> bad = [] \<and> rest = []) \<and> (bad \<noteq> [] \<longleftrightarrow> err = Some EmbedCircuit) \<and>
     ep_Scanned (es_progress s') = ep_Scanned (es_progress s) + int (length good) + int (length bad) \<and>
     ep_Generated (es_progress s') + ep_Blocked (es_progress s') =
       ep_Generated (es_progress s) + ep_Blocked (es_progress s) + int (length good) \<and>
     ep_Failed (es_progress s') = ep_Failed (es_progress s) + int (length bad))"

lemma accounts_stop:
  "es_db s' = es_db s \<Longrightarrow> es_progress s' = es_progress s \<Longrightarrow> e \<noteq> EmbedCircuit \<Longrightarrow> accounts ex batch s (Some e) s'"
  unfolding accounts_def
  by (intro exI [of _ "[]"] exI [of _ "[]"] exI [of _ batch] exI [of _ "es_db s"]) simp

lemma accounts_done:
  assumes "stores ex batch {status} (es_db s) (es_db s')" "status = RetrievalEmbeddingReady \<or> status = RetrievalEmbeddingBlocked"
    and "es_progress s' = (if status = RetrievalEmbeddingReady then count_ready (int (length batch)) (es_progress s)
      else count_failed status (int (length batch)) (es_progress s))"
  shows "accounts ex batch s None s'"
proof -
  have "stores ex batch {RetrievalEmbeddingReady, RetrievalEmbeddingBlocked} (es_db s) (es_db s')"
    by (rule stores_weaken [OF assms(1)]) (use assms(2) in auto)
  moreover have "RetrievalEmbeddingBlocked \<noteq> RetrievalEmbeddingReady" by (simp add: embedding_statuses)
  ultimately show ?thesis using assms(2,3) unfolding accounts_def
    by (intro exI [of _ batch] exI [of _ "[]"] exI [of _ "[]"] exI [of _ "es_db s'"])
      (auto simp: count_ready_def count_failed_def Let_def)
qed

lemma accounts_open:
  assumes "stores ex batch {RetrievalEmbeddingError} (es_db s) (es_db s')" "batch \<noteq> []"
    and "es_progress s' = count_failed RetrievalEmbeddingError (int (length batch)) (es_progress s)"
  shows "accounts ex batch s (Some EmbedCircuit) s'"
  unfolding accounts_def
  by (intro exI [of _ "[]"] exI [of _ batch] exI [of _ "[]"] exI [of _ "es_db s"])
    (use assms in \<open>auto simp: count_failed_def embedding_statuses\<close>)

lemma accounts_halves:
  assumes "accounts ex xs s None mid" "accounts ex ys mid err s'" "distinct (map sc_ChunkID (xs @ ys))"
  shows "accounts ex (xs @ ys) s err s'"
proof -
  obtain good bad rest db where r: "ys = good @ bad @ rest"
      "stores ex good {RetrievalEmbeddingReady, RetrievalEmbeddingBlocked} (es_db mid) db" "stores ex bad {RetrievalEmbeddingError} db (es_db s')"
    and e: "err = None \<longrightarrow> bad = [] \<and> rest = []" "bad \<noteq> [] \<longleftrightarrow> err = Some EmbedCircuit"
    and n: "ep_Scanned (es_progress s') = ep_Scanned (es_progress mid) + int (length good) + int (length bad)"
      "ep_Generated (es_progress s') + ep_Blocked (es_progress s') = ep_Generated (es_progress mid) + ep_Blocked (es_progress mid) + int (length good)"
      "ep_Failed (es_progress s') = ep_Failed (es_progress mid) + int (length bad)"
    using assms(2) unfolding accounts_def by blast
  have l: "stores ex xs {RetrievalEmbeddingReady, RetrievalEmbeddingBlocked} (es_db s) (es_db mid)"
      "ep_Scanned (es_progress mid) = ep_Scanned (es_progress s) + int (length xs)"
      "ep_Generated (es_progress mid) + ep_Blocked (es_progress mid) = ep_Generated (es_progress s) + ep_Blocked (es_progress s) + int (length xs)"
      "ep_Failed (es_progress mid) = ep_Failed (es_progress s)"
    using assms(1) unfolding accounts_def stores_def by auto
  have "sc_ChunkID ` set xs \<inter> sc_ChunkID ` set good = {}" using assms(3) r(1) by auto
  from stores_append [OF l(1) r(2) this] show ?thesis unfolding accounts_def
    by (intro exI [of _ "xs @ good"] exI [of _ bad] exI [of _ rest] exI [of _ db]) (use r e n l in auto)
qed


lemma accounts_from: "es_db t = es_db s \<Longrightarrow> es_progress t = es_progress s \<Longrightarrow> accounts ex batch t err s' \<Longrightarrow> accounts ex batch s err s'"
  by (simp add: accounts_def)

text \<open>\<open>spends n\<close>: at most \<open>n\<close> calls of the provider are made.\<close>

definition spends :: "int \<Rightarrow> embed_state \<Rightarrow> embed_state \<Rightarrow> bool" where
  "spends n s s' \<longleftrightarrow> (\<exists>k. es_turns s' = drop k (es_turns s) \<and> int k \<le> n)"

lemma spends_same: "es_turns s' = es_turns s \<Longrightarrow> 0 \<le> n \<Longrightarrow> spends n s s'"
  unfolding spends_def by (intro exI [of _ 0]) simp

lemma spends_turn:
  assumes "es_turns t = tl (es_turns s)" "spends n t s'"
  shows "spends (n + 1) s s'"
proof -
  obtain k where "es_turns s' = drop k (es_turns t)" "int k \<le> n" using assms(2) by (auto simp: spends_def)
  then show ?thesis unfolding spends_def using assms(1) by (intro exI [of _ "Suc k"]) (simp add: drop_Suc)
qed

lemma spends_then: "spends m s t \<Longrightarrow> spends n t s' \<Longrightarrow> spends (m + n) s s'"
  unfolding spends_def by (elim exE conjE, rule_tac x = "k + ka" in exI) (simp add: add.commute)

lemma spends_mono: "spends m s s' \<Longrightarrow> m \<le> n \<Longrightarrow> spends n s s'"
  unfolding spends_def by auto

lemma persist_turns:
  "persistReadyEmbedBatch unit_norm ex f batch response s = (r, s') \<Longrightarrow> es_turns s' = es_turns s \<and> es_failures s' = es_failures s \<and> es_entry s' = es_entry s"
  "persistFailedEmbedBatch unit_norm ex f batch status s = (r, s') \<Longrightarrow> es_turns s' = es_turns s \<and> es_failures s' = es_failures s \<and> es_entry s' = es_entry s"
  by (auto simp: persistReadyEmbedBatch_def persistFailedEmbedBatch_def put_rows_def split: if_splits prod.splits option.splits sum.splits)

text \<open>What is shown of a batch: what it stored, how many calls it made, and when it may still be running.\<close>

definition sound_batch :: "embed_execution \<Rightarrow> stored_chunk list \<Rightarrow> embed_state \<Rightarrow> embed_error option \<Rightarrow> embed_state \<Rightarrow> bool" where
  "sound_batch ex batch s err s' \<longleftrightarrow> accounts ex batch s err s' \<and> spends (6 * int (length batch) - 3 - es_failures s) s s' \<and>
     (err = None \<longrightarrow> es_failures s' = 0) \<and>
     (err = Some StillRunning \<longrightarrow> int (length (es_turns s)) < 6 * int (length batch) - 3 - es_failures s) \<and>
     (\<forall>x. err \<noteq> Some (EmbedCircuitAnd x))"

lemma sound_first:
  assumes "sound_batch ex batch t err s'" "es_turns t = tl (es_turns s)" "es_db t = es_db s" "es_progress t = es_progress s"
    "es_failures t = es_failures s + 1"
  shows "sound_batch ex batch s err s'"
proof -
  have "spends (6 * int (length batch) - 3 - es_failures t) t s'" using assms(1) by (simp add: sound_batch_def)
  from spends_turn [OF assms(2) this] have "spends (6 * int (length batch) - 3 - es_failures t + 1) s s'" .
  then have "spends (6 * int (length batch) - 3 - es_failures s) s s'" by (rule spends_mono) (simp add: assms(5))
  moreover have "err = Some StillRunning \<longrightarrow> int (length (es_turns s)) < 6 * int (length batch) - 3 - es_failures s"
    using assms(1,2,5) by (auto simp: sound_batch_def)
  ultimately show ?thesis using assms(1) accounts_from [OF assms(3,4)] by (simp add: sound_batch_def)
qed

lemma sound_now:
  assumes "accounts ex batch s err s'" "es_turns s' = tl (es_turns s)" "err = None \<Longrightarrow> es_failures s' = 0"
    "err = None \<or> err = Some EmbedCircuit \<or> (\<exists>e. err = Some e \<and> plain_error e)" "es_failures s \<le> 2" "batch \<noteq> []"
  shows "sound_batch ex batch s err s'"
proof -
  have "0 < length batch" using assms(6) by simp
  then have "1 \<le> 6 * int (length batch) - 3 - es_failures s" using assms(5) by linarith
  moreover have "spends 1 s s'" using assms(2) unfolding spends_def by (intro exI [of _ 1]) (simp add: drop_Suc)
  ultimately show ?thesis using assms spends_mono by (auto simp: sound_batch_def plain_error_def)
qed


lemma next_turn_fields [simp]:
  "es_turns (next_turn batch t s) = tl (es_turns s)" "es_db (next_turn batch t s) = es_db s" "es_progress (next_turn batch t s) = es_progress s"
  "es_failures (next_turn batch t s) = es_failures s" "es_entry (next_turn batch t s) = et_Entry t"
  by (simp_all add: next_turn_def)

lemma sound_stop:
  assumes "es_db s' = es_db s" "es_progress s' = es_progress s" "es_turns s' = tl (es_turns s)" "plain_error e"
    "es_failures s \<le> 2" "batch \<noteq> []"
  shows "sound_batch ex batch s (Some e) s'"
  by (rule sound_now) (use assms in \<open>auto simp: plain_error_def intro: accounts_stop\<close>)

lemma sound_ready:
  assumes id: "profile_ID (ex_Profile ex) = Inr (ex_ProfileID ex)"
    and run: "persistReadyEmbedBatch unit_norm ex f batch response (t\<lparr>es_failures := 0\<rparr>) = ((revision, err), s')"
    and t: "es_turns t = tl (es_turns s)" "es_db t = es_db s" "es_progress t = es_progress s" and s: "es_failures s \<le> 2" "batch \<noteq> []"
  shows "sound_batch ex batch s err s'"
proof (cases err)
  case None
  note run' = run [unfolded None]
  have "accounts ex batch s None s'"
  proof (rule accounts_from [of "t\<lparr>es_failures := 0\<rparr>"])
    show "accounts ex batch (t\<lparr>es_failures := 0\<rparr>) None s'"
      using ready_stores(1) [OF run' id] arg_cong [OF ready_stores(2) [OF run' id], of es_progress]
      by (intro accounts_done [of _ _ RetrievalEmbeddingReady]) simp_all
  qed (simp_all add: t)
  then show ?thesis using persist_turns(1) [OF run] t s None by (intro sound_now) simp_all
next
  case (Some e)
  from persist_error(1) [OF run [unfolded Some]] show ?thesis unfolding Some using t s by (intro sound_stop) simp_all
qed

lemma sound_blocked:
  assumes id: "profile_ID (ex_Profile ex) = Inr (ex_ProfileID ex)"
    and run: "persistFailedEmbedBatch unit_norm ex f batch RetrievalEmbeddingBlocked (t\<lparr>es_failures := 0\<rparr>) = ((revision, err), s')"
    and t: "es_turns t = tl (es_turns s)" "es_db t = es_db s" "es_progress t = es_progress s" and s: "es_failures s \<le> 2" "batch \<noteq> []"
  shows "sound_batch ex batch s err s'"
proof (cases err)
  case None
  note run' = run [unfolded None]
  have b: "RetrievalEmbeddingBlocked \<noteq> []" "RetrievalEmbeddingBlocked \<noteq> RetrievalEmbeddingReady" by (simp_all add: embedding_statuses)
  have "accounts ex batch s None s'"
  proof (rule accounts_from [of "t\<lparr>es_failures := 0\<rparr>"])
    show "accounts ex batch (t\<lparr>es_failures := 0\<rparr>) None s'"
      using failed_stores(1) [OF run' id b(1)] arg_cong [OF failed_stores(2) [OF run' id b(1)], of es_progress] b(2)
      by (intro accounts_done [of _ _ RetrievalEmbeddingBlocked]) simp_all
  qed (simp_all add: t)
  then show ?thesis using persist_turns(2) [OF run] t s None by (intro sound_now) simp_all
next
  case (Some e)
  from persist_error(2) [OF run [unfolded Some]] show ?thesis unfolding Some using t s by (intro sound_stop) simp_all
qed

lemma sound_open:
  assumes id: "profile_ID (ex_Profile ex) = Inr (ex_ProfileID ex)"
    and run: "persistFailedEmbedBatch unit_norm ex f batch RetrievalEmbeddingError t = ((revision, err), s')"
    and t: "es_turns t = tl (es_turns s)" "es_db t = es_db s" "es_progress t = es_progress s" and s: "es_failures s \<le> 2" "batch \<noteq> []"
  shows "sound_batch ex batch s (case err of None \<Rightarrow> Some EmbedCircuit | Some e \<Rightarrow> Some e) s'"
proof (cases err)
  case None
  note run' = run [unfolded None]
  have e: "RetrievalEmbeddingError \<noteq> []" by (simp add: embedding_statuses)
  have "accounts ex batch s (Some EmbedCircuit) s'"
  proof (rule accounts_from [OF t(2,3)])
    show "accounts ex batch t (Some EmbedCircuit) s'"
      using failed_stores(1) [OF run' id e] arg_cong [OF failed_stores(2) [OF run' id e], of es_progress] s(2)
      by (intro accounts_open) simp_all
  qed
  then show ?thesis using persist_turns(2) [OF run] t s None by (auto intro: sound_now)
next
  case (Some e)
  from persist_error(2) [OF run [unfolded Some]] show ?thesis unfolding Some using t s by (simp add: sound_stop)
qed


lemma sound_halves:
  assumes left: "sound_batch ex xs u None s1" and right: "sound_batch ex ys s1 err s'"
    and t: "es_turns u = tl (es_turns s)" "es_db u = es_db s" "es_progress u = es_progress s" "es_failures u = 0"
    and s: "es_failures s \<le> 2" "distinct (map sc_ChunkID (xs @ ys))"
  shows "sound_batch ex (xs @ ys) s err s'"
proof -
  have f: "es_failures s1 = 0" using left by (simp add: sound_batch_def)
  have "accounts ex (xs @ ys) u err s'"
    using accounts_halves [of ex xs u s1 ys err s'] left right s(2) by (simp add: sound_batch_def)
  then have acc: "accounts ex (xs @ ys) s err s'" by (rule accounts_from [OF t(2,3)])
  have "spends (6 * int (length xs) - 3) u s1" "spends (6 * int (length ys) - 3) s1 s'"
    using left right t(4) f by (simp_all add: sound_batch_def)
  then have "spends (6 * int (length xs) - 3 + (6 * int (length ys) - 3)) u s'" by (rule spends_then)
  from spends_turn [OF t(1) this] have "spends (6 * int (length (xs @ ys)) - 3 - es_failures s) s s'"
    by (rule spends_mono) (use s(1) in simp)
  moreover have "int (length (es_turns s)) < 6 * int (length (xs @ ys)) - 3 - es_failures s" if "err = Some StillRunning"
  proof -
    obtain k where k: "es_turns s1 = drop k (es_turns u)" "int k \<le> 6 * int (length xs) - 3"
      using left t(4) by (auto simp: sound_batch_def spends_def)
    have "int (length (es_turns s1)) < 6 * int (length ys) - 3" using right that f by (simp add: sound_batch_def)
    moreover have "length (es_turns s) \<le> length (es_turns u) + 1" "length (es_turns u) \<le> length (es_turns s1) + k"
      using t(1) k(1) by simp_all
    moreover have "int (length (xs @ ys)) = int (length xs) + int (length ys)" by simp
    ultimately show ?thesis using k(2) s(1) by linarith
  qed
  ultimately show ?thesis using acc right by (simp add: sound_batch_def)
qed

lemma sound_left:
  assumes left: "sound_batch ex xs u (Some e) s'"
    and t: "es_turns u = tl (es_turns s)" "es_db u = es_db s" "es_progress u = es_progress s" "es_failures u = 0"
    and s: "es_failures s \<le> 2" "ys \<noteq> []"
  shows "sound_batch ex (xs @ ys) s (Some e) s'"
proof -
  have "accounts ex xs u (Some e) s'" using left by (simp add: sound_batch_def)
  then obtain good bad rest mid where "xs = good @ bad @ rest"
      "stores ex good {RetrievalEmbeddingReady, RetrievalEmbeddingBlocked} (es_db u) mid" "stores ex bad {RetrievalEmbeddingError} mid (es_db s')"
      "bad \<noteq> [] \<longleftrightarrow> Some e = Some EmbedCircuit" "ep_Scanned (es_progress s') = ep_Scanned (es_progress u) + int (length good) + int (length bad)"
      "ep_Generated (es_progress s') + ep_Blocked (es_progress s') = ep_Generated (es_progress u) + ep_Blocked (es_progress u) + int (length good)"
      "ep_Failed (es_progress s') = ep_Failed (es_progress u) + int (length bad)"
    unfolding accounts_def by blast
  then have acc: "accounts ex (xs @ ys) s (Some e) s'" using t(2,3) unfolding accounts_def
    by (intro exI [of _ good] exI [of _ bad] exI [of _ "rest @ ys"] exI [of _ mid]) auto
  have "spends (6 * int (length xs) - 3) u s'" using left t(4) by (simp add: sound_batch_def)
  from spends_turn [OF t(1) this] have "spends (6 * int (length (xs @ ys)) - 3 - es_failures s) s s'"
    by (rule spends_mono) (use s in \<open>cases ys; simp\<close>)
  moreover have "int (length (es_turns s)) < 6 * int (length (xs @ ys)) - 3 - es_failures s" if "e = StillRunning"
  proof -
    have "int (length (es_turns u)) < 6 * int (length xs) - 3" using left t(4) that by (simp add: sound_batch_def)
    moreover have "length (es_turns s) \<le> length (es_turns u) + 1" "1 \<le> length ys" using t(1) s(2) by (simp_all add: Suc_le_eq)
    moreover have "int (length (xs @ ys)) = int (length xs) + int (length ys)" by simp
    ultimately show ?thesis using s(1) by linarith
  qed
  ultimately show ?thesis using acc left by (simp add: sound_batch_def)
qed

text \<open>The equations of the loop, one for each way a turn can go.\<close>

lemma loop_running: "es_turns s = [] \<Longrightarrow> embed_loop unit_norm ex batch s = ((0, Some StillRunning), s)"
  by (subst embed_loop.simps) simp

lemma loop_answer:
  "es_turns s = t # ts \<Longrightarrow> et_Outcome t = ProviderAnswers response \<Longrightarrow>
   embed_loop unit_norm ex batch s = persistReadyEmbedBatch unit_norm ex (et_Put t) batch response ((next_turn batch t s)\<lparr>es_failures := 0\<rparr>)"
  by (subst embed_loop.simps) (simp add: Let_def)

lemma loop_stop:
  "es_turns s = t # ts \<Longrightarrow> et_Outcome t = ProviderFails kind \<Longrightarrow>
   independent_failure t \<or> kind \<noteq> Some FailureRetryable \<and> kind \<noteq> Some FailureBlocked \<Longrightarrow>
   embed_loop unit_norm ex batch s = ((0, Some (EmbedProvider kind)), next_turn batch t s)"
  by (subst embed_loop.simps) (auto simp: Let_def)

lemma loop_alone:
  assumes "es_turns s = t # ts" "et_Outcome t = ProviderFails (Some FailureBlocked)" "\<not> independent_failure t" "\<not> 1 < length batch"
  shows "embed_loop unit_norm ex batch s =
    persistFailedEmbedBatch unit_norm ex (et_Put t) batch RetrievalEmbeddingBlocked ((next_turn batch t s)\<lparr>es_failures := 0\<rparr>)"
  using assms by (subst embed_loop.simps) (simp add: Let_def)

lemma loop_halves:
  assumes "es_turns s = t # ts" "et_Outcome t = ProviderFails (Some FailureBlocked)" "\<not> independent_failure t" "1 < length batch"
  shows "embed_loop unit_norm ex batch s =
    (case processEmbedBatch unit_norm ex (take (length batch div 2) batch) ((next_turn batch t s)\<lparr>es_failures := 0\<rparr>) of
       ((revision, Some e), s) \<Rightarrow> ((revision, Some e), s)
     | ((revision, None), s) \<Rightarrow> (case processEmbedBatch unit_norm ex (drop (length batch div 2) batch) s of
         ((nextRevision, err), s) \<Rightarrow> ((if 0 < nextRevision then nextRevision else revision, err), s)))"
  using assms by (subst embed_loop.simps) (simp add: Let_def processEmbedBatch_def)

definition after_failure :: "embed_execution \<Rightarrow> stored_chunk list \<Rightarrow> embed_turn \<Rightarrow> embed_state \<Rightarrow> embed_state" where
  "after_failure ex batch t s = (let s = (next_turn batch t s)\<lparr>es_failures := es_failures s + 1\<rparr>
     in s\<lparr>es_slept := es_slept s @ [embedRetryDelay (ex_InitialBackoff ex) (ex_MaxBackoff ex) (es_failures s)]\<rparr>)"

lemma loop_again:
  assumes "es_turns s = t # ts" "et_Outcome t = ProviderFails (Some FailureRetryable)" "\<not> independent_failure t"
    "es_failures s + 1 < MaxConsecutiveProviderFailures"
  shows "embed_loop unit_norm ex batch s =
    (if et_Sleep t then ((0, Some EmbedSleep), after_failure ex batch t s) else embed_loop unit_norm ex batch (after_failure ex batch t s))"
  using assms by (subst (1) embed_loop.simps) (simp add: Let_def after_failure_def)

lemma loop_open:
  assumes "es_turns s = t # ts" "et_Outcome t = ProviderFails (Some FailureRetryable)" "\<not> independent_failure t"
    "\<not> es_failures s + 1 < MaxConsecutiveProviderFailures"
  shows "embed_loop unit_norm ex batch s =
    (case persistFailedEmbedBatch unit_norm ex (et_Put t) batch RetrievalEmbeddingError ((next_turn batch t s)\<lparr>es_failures := es_failures s + 1\<rparr>) of
       ((_, Some e), s) \<Rightarrow> ((0, Some e), s) | ((revision, None), s) \<Rightarrow> ((revision, Some EmbedCircuit), s))"
  using assms
  by (subst embed_loop.simps) (auto simp: Let_def persistFailedEmbedBatch_def put_rows_def split: sum.splits)

text \<open>The poll before a batch.\<close>

lemma sound_poll:
  assumes "processEmbedBatch unit_norm ex batch s = ((revision, err), s')" "batch \<noteq> []" "es_failures s \<le> 2"
    and "embed_loop unit_norm ex batch s = ((revision, err), s') \<Longrightarrow> sound_batch ex batch s err s'"
  shows "sound_batch ex batch s err s'"
proof (cases "es_entry s")
  case True
  then have "err = Some EmbedCanceled" "s' = s" using assms(1) by (auto simp: processEmbedBatch_def)
  moreover have "es_failures s \<le> 6 * int (length batch) - 3" using assms(2,3) by (cases batch) auto
  ultimately show ?thesis by (auto simp: sound_batch_def intro!: accounts_stop spends_same)
qed (use assms in \<open>simp add: processEmbedBatch_def\<close>)

lemma sound_split:
  assumes turn: "es_turns s = t # ts" "et_Outcome t = ProviderFails (Some FailureBlocked)" "\<not> independent_failure t" "1 < length batch"
    and run: "embed_loop unit_norm ex batch s = ((revision, err), s')" and few: "es_failures s \<le> 2" and ids: "distinct (map sc_ChunkID batch)"
    and smaller: "\<And>part u r e u'. length part < length batch \<Longrightarrow> part \<noteq> [] \<Longrightarrow> distinct (map sc_ChunkID part) \<Longrightarrow> es_failures u = 0 \<Longrightarrow>
      processEmbedBatch unit_norm ex part u = ((r, e), u') \<Longrightarrow> sound_batch ex part u e u'"
  shows "sound_batch ex batch s err s'"
proof -
  let ?v = "(next_turn batch t s)\<lparr>es_failures := 0\<rparr>" and ?xs = "take (length batch div 2) batch" and ?ys = "drop (length batch div 2) batch"
  have v: "es_turns ?v = tl (es_turns s)" "es_db ?v = es_db s" "es_progress ?v = es_progress s" "es_failures ?v = 0" by simp_all
  have parts: "?xs \<noteq> []" "?ys \<noteq> []" "batch = ?xs @ ?ys" "length ?xs < length batch" "length ?ys < length batch"
    using turn(4) by (auto simp: take_eq_Nil)
  have halves: "distinct (map sc_ChunkID ?xs)" "distinct (map sc_ChunkID ?ys)"
    using ids by (simp_all add: take_map [symmetric] drop_map [symmetric])
  obtain r1 e1 s1 where l: "processEmbedBatch unit_norm ex ?xs ?v = ((r1, e1), s1)" by (metis prod.exhaust)
  have left: "sound_batch ex ?xs ?v e1 s1" by (rule smaller [OF parts(4,1) halves(1) v(4) l])
  show ?thesis
  proof (cases e1)
    case (Some e)
    then have "err = Some e" "s' = s1" using run l by (simp_all add: loop_halves [OF turn])
    then show ?thesis using sound_left [OF left [unfolded Some] v few parts(2)] parts(3) by simp
  next
    case None
    have f: "es_failures s1 = 0" using left None by (simp add: sound_batch_def)
    obtain r2 e2 s2 where r: "processEmbedBatch unit_norm ex ?ys s1 = ((r2, e2), s2)" by (metis prod.exhaust)
    have "sound_batch ex ?ys s1 e2 s2" by (rule smaller [OF parts(5,2) halves(2) f r])
    moreover have "err = e2" "s' = s2" using run l r None by (simp_all add: loop_halves [OF turn])
    ultimately show ?thesis using sound_halves [OF left [unfolded None] _ v few, of ?ys] ids
      unfolding parts(3) [symmetric] by blast
  qed
qed

lemma embed_loop_sound:
  assumes id: "profile_ID (ex_Profile ex) = Inr (ex_ProfileID ex)"
  shows "embed_loop unit_norm ex batch s = ((revision, err), s') \<Longrightarrow> distinct (map sc_ChunkID batch) \<Longrightarrow> batch \<noteq> [] \<Longrightarrow>
    0 \<le> es_failures s \<Longrightarrow> es_failures s \<le> 2 \<Longrightarrow> sound_batch ex batch s err s'"
proof (induction "4 * length batch + nat (3 - es_failures s)" arbitrary: batch s revision err s' rule: less_induct)
  case less
  note run = less.prems(1) and few = less.prems(5,3)
  have nonneg: "es_failures s \<le> 6 * int (length batch) - 3" using few by (cases batch) auto
  show ?case
  proof (cases "es_turns s")
    case Nil
    moreover have "es_failures s < 6 * int (length batch) - 3" using few by (cases batch) auto
    ultimately show ?thesis using run nonneg by (auto simp: loop_running sound_batch_def intro!: accounts_stop spends_same)
  next
    case (Cons t ts)
    have u: "es_turns (next_turn batch t s) = tl (es_turns s)" "es_db (next_turn batch t s) = es_db s"
      "es_progress (next_turn batch t s) = es_progress s" by simp_all
    consider (answer) response where "et_Outcome t = ProviderAnswers response"
      | (stop) kind where "et_Outcome t = ProviderFails kind" "independent_failure t \<or> kind \<noteq> Some FailureRetryable \<and> kind \<noteq> Some FailureBlocked"
      | (alone) "et_Outcome t = ProviderFails (Some FailureBlocked)" "\<not> independent_failure t" "\<not> 1 < length batch"
      | (halves) "et_Outcome t = ProviderFails (Some FailureBlocked)" "\<not> independent_failure t" "1 < length batch"
      | (again) "et_Outcome t = ProviderFails (Some FailureRetryable)" "\<not> independent_failure t" "es_failures s + 1 < MaxConsecutiveProviderFailures"
      | (opens) "et_Outcome t = ProviderFails (Some FailureRetryable)" "\<not> independent_failure t" "\<not> es_failures s + 1 < MaxConsecutiveProviderFailures"
      by (cases "et_Outcome t") blast+
    then show ?thesis
    proof cases
      case answer
      then show ?thesis using sound_ready [OF id _ u few] run by (simp add: loop_answer [OF Cons])
    next
      case stop
      then show ?thesis using run few by (auto simp: loop_stop [OF Cons stop] plain_error_def intro!: sound_stop)
    next
      case alone
      then show ?thesis using sound_blocked [OF id _ u few] run by (simp add: loop_alone [OF Cons])
    next
      case halves
      have "sound_batch ex part v e v'" if part: "length part < length batch" "part \<noteq> []" "distinct (map sc_ChunkID part)" "es_failures v = 0"
        "processEmbedBatch unit_norm ex part v = ((r, e), v')" for part v r e v'
        by (rule sound_poll [OF part(5,2)]) (use part less.hyps [of part v] in simp_all)
      then show ?thesis by (rule sound_split [OF Cons halves run few(1) less.prems(2)])
    next
      case again
      let ?v = "after_failure ex batch t s"
      have v: "es_turns ?v = tl (es_turns s)" "es_db ?v = es_db s" "es_progress ?v = es_progress s" "es_failures ?v = es_failures s + 1"
        by (simp_all add: after_failure_def Let_def)
      show ?thesis
      proof (cases "et_Sleep t")
        case True
        then show ?thesis using run few v by (auto simp: loop_again [OF Cons again] plain_error_def intro!: sound_stop)
      next
        case False
        then have "embed_loop unit_norm ex batch ?v = ((revision, err), s')" using run by (simp add: loop_again [OF Cons again])
        then have "sound_batch ex batch ?v err s'"
          by (rule less.hyps [rotated]) (use again(3) less.prems v(4) in \<open>simp_all add: MaxConsecutiveProviderFailures_def\<close>)
        then show ?thesis by (rule sound_first) (use v in simp_all)
      qed
    next
      case opens
      let ?v = "(next_turn batch t s)\<lparr>es_failures := es_failures s + 1\<rparr>"
      obtain r e s1 where p: "persistFailedEmbedBatch unit_norm ex (et_Put t) batch RetrievalEmbeddingError ?v = ((r, e), s1)"
        by (metis prod.exhaust)
      have "sound_batch ex batch s (case e of None \<Rightarrow> Some EmbedCircuit | Some e \<Rightarrow> Some e) s1"
        by (rule sound_open [OF id p]) (use few in simp_all)
      then show ?thesis using run p by (simp add: loop_open [OF Cons opens] split: option.splits)
    qed
  qed
qed

end
