(* ===== verification/IndexStoreSteps.thy ===== *)
theory IndexStoreSteps
  imports IndexStoreProps
begin

text \<open>
  A new root and a profile without one keep the invariant of \<open>IndexStoreProps\<close>; then every history of the
  operations does, whatever happens to the chunks, the parents and the purge epoch in between.
\<close>

section \<open>Segments and members of a new generation\<close>

lemma insert_segments_keeps:
  "insert_segments ss T = Inr T' \<Longrightarrow> gm_get T h = Some s \<Longrightarrow> gm_get T' h = Some s"
proof (induction ss arbitrary: T)
  case (Cons x ss)
  show ?case
  proof (cases "gm_get T (is_SegmentHash x)")
    case None
    then have "h \<noteq> is_SegmentHash x" using Cons.prems(2) by auto
    then show ?thesis using Cons None by simp
  qed (use Cons in \<open>auto split: if_splits\<close>)
qed simp

lemma insert_segments_gets:
  "insert_segments ss T = Inr T' \<Longrightarrow> s \<in> set ss \<Longrightarrow> gm_get T' (is_SegmentHash s) = Some s"
proof (induction ss arbitrary: T)
  case (Cons x ss)
  show ?case
  proof (cases "s = x")
    case True
    have "\<exists>U. insert_segments ss U = Inr T' \<and> gm_get U (is_SegmentHash x) = Some x"
    proof (cases "gm_get T (is_SegmentHash x)")
      case None
      then show ?thesis using Cons.prems(1) by (intro exI [of _ "gm_put (is_SegmentHash x) x T"]) simp
    qed (use Cons.prems(1) in \<open>auto split: if_splits\<close>)
    then show ?thesis using insert_segments_keeps True by blast
  next
    case False
    then show ?thesis using Cons by (auto split: option.splits if_splits)
  qed
qed simp

lemma insert_members_set: "set (fold insert_member ms T) \<subseteq> set T \<union> set ms" "set T \<subseteq> set (fold insert_member ms T)"
proof -
  show "set (fold insert_member ms T) \<subseteq> set T \<union> set ms"
  proof (induction ms arbitrary: T)
    case (Cons m ms)
    show ?case using Cons [of "insert_member m T"] by (auto simp: insert_member_def split: if_splits)
  qed simp
  show "set T \<subseteq> set (fold insert_member ms T)"
  proof (induction ms arbitrary: T)
    case (Cons m ms)
    show ?case using Cons [of "insert_member m T"] by (auto simp: insert_member_def split: if_splits)
  qed simp
qed

lemma insert_members_elsewhere:
  "(\<And>m. m \<in> set ms \<Longrightarrow> sm_SegmentHash m \<noteq> h) \<Longrightarrow>
   filter (\<lambda>m. sm_SegmentHash m = h) (fold insert_member ms T) = filter (\<lambda>m. sm_SegmentHash m = h) T"
  by (induction ms arbitrary: T) (simp_all add: insert_member_def)

section \<open>The tables with a new generation\<close>

lemma completed:
  assumes "CompleteRetrievalIndexGeneration input db = Inr db'"
  obtains row segments where "validateGenerationCompletionInput input"
    "gm_get (db_profiles db) (ig_ProfileID (cg_Generation input)) = Some row" "\<not> completion_stale input row db"
    "list_all (member_matches db (ig_ProfileID (cg_Generation input))) (cg_Members input)"
    "gm_get (db_generations db) (ig_GenerationID (cg_Generation input)) = None"
    "insert_segments (cg_Segments input) (db_segments db) = Inr segments"
    "proveNoDuplicateUsableGenerationMembersTx (with_generation input segments db) (ig_GenerationID (cg_Generation input))
       (ig_ProfileID (cg_Generation input))"
    "db' = activate_root input row (with_generation input segments db)"
  using assms unfolding CompleteRetrievalIndexGeneration_def Let_def by (auto split: if_splits option.splits sum.splits)

lemma trim_nothing: "TrimSpace [] = []"
proof -
  have none: "find (\<lambda>e. e = []) spaces = None" unfolding find_None_iff using space_ends(1) by blast
  have "trimLeftSpace [] = []" by (subst trimLeftSpace.simps) (simp add: none)
  moreover have "trimRightSpace [] = []" by (subst trimRightSpace.simps) (simp add: none)
  ultimately
  show ?thesis by (simp add: TrimSpace_def)
qed

lemma completion_valid:
  assumes "validateGenerationCompletionInput input"
  shows "ig_GenerationID (cg_Generation input) \<noteq> []"
    and "s \<in> set (cg_Segments input) \<Longrightarrow> is_ProfileID s = ig_ProfileID (cg_Generation input)"
    and "m \<in> set (cg_Members input) \<Longrightarrow> \<exists>s \<in> set (cg_Segments input). is_SegmentHash s = sm_SegmentHash m"
proof -
  have "TrimSpace (ig_GenerationID (cg_Generation input)) \<noteq> []" and segments: "list_all (segment_valid (cg_Generation input)) (cg_Segments input)"
      and members: "list_all (member_valid (cg_Segments input)) (cg_Members input)"
    using assms unfolding validateGenerationCompletionInput_def Let_def by blast+
  then show "ig_GenerationID (cg_Generation input) \<noteq> []" using trim_nothing by metis
  show "is_ProfileID s = ig_ProfileID (cg_Generation input)" if "s \<in> set (cg_Segments input)"
    using segments that by (simp add: list_all_iff segment_valid_def)
  show "\<exists>s \<in> set (cg_Segments input). is_SegmentHash s = sm_SegmentHash m" if "m \<in> set (cg_Members input)"
    using members that unfolding list_all_iff member_valid_def by (metis imageE)
qed

lemma generation_members_alt:
  "generation_members db g = concat (map (\<lambda>h. filter (\<lambda>m. sm_SegmentHash m = h) (db_members db))
     (map snd (filter (\<lambda>x. fst x = g) (db_segmentsOf db))))"
  by (simp add: generation_members_def case_prod_beta' o_def)

lemma other_generation:
  assumes "validateGenerationCompletionInput input" "g \<noteq> ig_GenerationID (cg_Generation input)"
    and "\<And>h s. (g, h) \<in> set (db_segmentsOf db) \<Longrightarrow> s \<in> set (cg_Segments input) \<Longrightarrow> is_SegmentHash s \<noteq> h"
  shows "generation_members (with_generation input segments db) g = generation_members db g"
proof -
  have same: "filter (\<lambda>x. fst x = g) (db_segmentsOf (with_generation input segments db)) = filter (\<lambda>x. fst x = g) (db_segmentsOf db)"
    using assms(2) by (simp add: with_generation_def Let_def filter_map o_def filter_empty_conv)
  have "sm_SegmentHash m \<noteq> h" if "(g, h) \<in> set (db_segmentsOf db)" "m \<in> set (cg_Members input)" for h m
    using completion_valid(3) [OF assms(1) that(2)] assms(3) [OF that(1)] by auto
  then have "filter (\<lambda>m. sm_SegmentHash m = h) (db_members (with_generation input segments db)) = filter (\<lambda>m. sm_SegmentHash m = h) (db_members db)"
    if "(g, h) \<in> set (db_segmentsOf db)" for h
    using that by (simp add: with_generation_def Let_def insert_members_elsewhere)
  then show ?thesis unfolding generation_members_alt same
    by (intro arg_cong [of _ _ concat] map_cong refl) auto
qed

lemma activate_root_fields [simp]:
  "db_embeddings (activate_root input row db) = db_embeddings db" "db_segments (activate_root input row db) = db_segments db"
  "db_members (activate_root input row db) = db_members db" "db_segmentsOf (activate_root input row db) = db_segmentsOf db"
  "db_generations (activate_root input row db) = db_generations db"
  "generation_members (activate_root input row db) = generation_members db"
  by (simp_all add: activate_root_def Let_def generation_members_def fun_eq_iff)

lemma with_generation_fields [simp]:
  "db_embeddings (with_generation input segments db) = db_embeddings db" "db_segments (with_generation input segments db) = segments"
  "db_profiles (with_generation input segments db) = db_profiles db"
  by (simp_all add: with_generation_def Let_def)


lemma new_root_ok:
  assumes "store_inv db" and valid: "validateGenerationCompletionInput input"
    and row: "gm_get (db_profiles db) (ig_ProfileID (cg_Generation input)) = Some row"
    and fresh: "gm_get (db_generations db) (ig_GenerationID (cg_Generation input)) = None"
    and segments: "insert_segments (cg_Segments input) (db_segments db) = Inr segments"
    and unique: "proveNoDuplicateUsableGenerationMembersTx (with_generation input segments db) (ig_GenerationID (cg_Generation input))
       (ig_ProfileID (cg_Generation input))"
    and r: "gm_get (db_profiles (activate_root input row (with_generation input segments db))) (ig_ProfileID (cg_Generation input)) = Some r"
  shows "root_ok (activate_root input row (with_generation input segments db)) (ig_ProfileID (cg_Generation input)) r"
proof -
  let ?g = "ig_GenerationID (cg_Generation input)" and ?p = "ig_ProfileID (cg_Generation input)"
  let ?w = "with_generation input segments db"
  have r': "sp_ActiveGenerationID r = ?g" "(sp_L0ReadyCount r, sp_ActiveTombstoneCount r) = countRetrievalGenerationCountersTx ?w ?p ?g"
    using r by (auto simp: activate_root_def Let_def)
  have "(?g, h) \<notin> set (db_segmentsOf db)" for h using assms(1) fresh unfolding store_inv_def by blast
  then have hash: "\<exists>s \<in> set (cg_Segments input). h = is_SegmentHash s" if "(?g, h) \<in> set (db_segmentsOf ?w)" for h
    using that by (auto simp: with_generation_def Let_def)
  have "\<exists>s. gm_get segments h = Some s \<and> is_ProfileID s = ?p" if "(?g, h) \<in> set (db_segmentsOf ?w)" for h
    using hash [OF that] insert_segments_gets [OF segments] completion_valid(2) [OF valid] by blast
  moreover have "gm_get (db_generations ?w) ?g \<noteq> None" by (simp add: with_generation_def Let_def)
  moreover have "unique_members (generation_members ?w ?g) ?p (db_embeddings db)"
    using unique by (simp add: unique_members_def proveNoDuplicateUsableGenerationMembersTx_def member_usable_live)
  ultimately show ?thesis using r' by (simp add: root_ok_def counters_eq)
qed


lemma latest_kept:
  assumes r: "gm_get (db_profiles db) q = Some r" and row: "gm_get (db_profiles db) (ig_ProfileID (cg_Generation input)) = Some row"
  shows "\<exists>r'. gm_get (db_profiles (activate_root input row (with_generation input segments db))) q = Some r' \<and>
    sp_LatestRevision r' = sp_LatestRevision r"
  using r row by (cases "q = ig_ProfileID (cg_Generation input)") (auto simp: activate_root_def Let_def)

lemma complete_keeps_inv:
  assumes inv: "store_inv db" and complete: "CompleteRetrievalIndexGeneration input db = Inr db'"
  shows "store_inv db'"
proof -
  let ?p = "ig_ProfileID (cg_Generation input)" and ?g = "ig_GenerationID (cg_Generation input)"
  from completed [OF complete] obtain row segments where valid: "validateGenerationCompletionInput input"
    and row: "gm_get (db_profiles db) ?p = Some row" and matches: "list_all (member_matches db ?p) (cg_Members input)"
    and fresh: "gm_get (db_generations db) ?g = None" and segments: "insert_segments (cg_Segments input) (db_segments db) = Inr segments"
    and unique: "proveNoDuplicateUsableGenerationMembersTx (with_generation input segments db) ?g ?p"
    and db': "db' = activate_root input row (with_generation input segments db)" by metis
  have embs: "embeddings_ok db'"
    unfolding embeddings_ok_def
  proof (intro conjI allI impI)
    show "gm_ok (db_embeddings db')" using store_invD(1) [OF inv] by (simp add: db')
    fix c q e assume "gm_get (db_embeddings db') (c, q) = Some e"
    then have e: "gm_get (db_embeddings db) (c, q) = Some e" by (simp add: db')
    show "se_VectorHash e = retrievalVectorHash (se_VectorBytes e)" by (rule store_invD(2) [OF inv e])
    show "\<exists>row. gm_get (db_profiles db') q = Some row \<and> se_Revision e \<le> sp_LatestRevision row"
      using store_invD(3) [OF inv e] latest_kept [OF _ row, of q] unfolding db' by metis
  qed
  have mems: "members_ok db'"
    unfolding members_ok_def
  proof
    fix m assume m: "m \<in> set (db_members db')"
    have "\<exists>s r. gm_get segments (sm_SegmentHash m) = Some s \<and> gm_get (db_profiles db) (is_ProfileID s) = Some r \<and> sm_Revision m \<le> sp_LatestRevision r"
    proof (cases "m \<in> set (db_members db)")
      case True
      then show ?thesis using inv insert_segments_keeps [OF segments] unfolding store_inv_def members_ok_def by metis
    next
      case False
      then have new: "m \<in> set (cg_Members input)" using m insert_members_set(1) [of "cg_Members input" "db_members db"]
        by (auto simp: db' with_generation_def Let_def)
      then have "member_usable db ?p m" using matches by (simp add: list_all_iff member_matches_def)
      then obtain e where e: "gm_get (db_embeddings db) (sm_ChunkID m, ?p) = Some e" "sm_Revision m = se_Revision e"
        by (auto simp: member_usable_def describes_def split: option.splits)
      obtain s where "s \<in> set (cg_Segments input)" "is_SegmentHash s = sm_SegmentHash m" using completion_valid(3) [OF valid new] by blast
      then have "gm_get segments (sm_SegmentHash m) = Some s" "is_ProfileID s = ?p"
        using insert_segments_gets [OF segments] completion_valid(2) [OF valid] by metis+
      then show ?thesis using store_invD(3) [OF inv e(1)] e(2) by metis
    qed
    then show "\<exists>s r. gm_get (db_segments db') (sm_SegmentHash m) = Some s \<and> gm_get (db_profiles db') (is_ProfileID s) = Some r \<and>
        sm_Revision m \<le> sp_LatestRevision r"
      using latest_kept [OF _ row] unfolding db' by (metis activate_root_fields(2) with_generation_fields(2))
  qed
  have "root_ok db' q r" if r: "gm_get (db_profiles db') q = Some r" for q r
  proof (cases "q = ?p")
    case True
    then show ?thesis using new_root_ok [OF inv valid row fresh segments unique] r unfolding db' by simp
  next
    case False
    then have r': "gm_get (db_profiles db) q = Some r" using r by (simp add: db' activate_root_def Let_def)
    have old: "root_ok db q r" by (rule store_invD(4) [OF inv r'])
    have other: "sp_ActiveGenerationID r \<noteq> ?g" using old fresh completion_valid(1) [OF valid] by (auto simp: root_ok_def)
    have "is_SegmentHash s \<noteq> h" if "(sp_ActiveGenerationID r, h) \<in> set (db_segmentsOf db)" "s \<in> set (cg_Segments input)" for h s
    proof
      note segment = that
      assume "is_SegmentHash s = h"
      then have "gm_get segments h = Some s" using insert_segments_gets [OF segments that(2)] by simp
      moreover obtain s' where "gm_get (db_segments db) h = Some s'" "is_ProfileID s' = q"
        using old segment(1) unfolding root_ok_def by blast
      then have "gm_get segments h = Some s'" "is_ProfileID s' = q" using insert_segments_keeps [OF segments] by simp_all
      ultimately show False using completion_valid(2) [OF valid that(2)] False by simp
    qed
    then have same: "generation_members (with_generation input segments db) (sp_ActiveGenerationID r) = generation_members db (sp_ActiveGenerationID r)"
      by (rule other_generation [OF valid other])
    have "(sp_ActiveGenerationID r, h) \<in> set (db_segmentsOf db') \<longleftrightarrow> (sp_ActiveGenerationID r, h) \<in> set (db_segmentsOf db)" for h
      using other by (auto simp: db' with_generation_def Let_def)
    then show ?thesis using old same other insert_segments_keeps [OF segments]
      by (auto simp: root_ok_def db') (auto simp: with_generation_def Let_def)
  qed
  moreover have "g \<noteq> [] \<and> gm_get (db_generations db') g \<noteq> None" if "(g, h) \<in> set (db_segmentsOf db')" for g h
  proof -
    have "(g, h) \<in> set (db_segmentsOf db) \<or> g = ?g" using that by (auto simp: db' with_generation_def Let_def)
    then show ?thesis using inv completion_valid(1) [OF valid] unfolding store_inv_def by (auto simp: db' with_generation_def Let_def)
  qed
  ultimately show ?thesis using embs mems unfolding store_inv_def by blast
qed


section \<open>A profile without a root\<close>

lemma stale_keeps_inv:
  assumes inv: "store_inv db"
  shows "store_inv (markRetrievalProfileGenerationsStaleTx p db)"
proof (cases "gm_get (db_profiles db) p")
  case None
  then show ?thesis using inv by (simp add: markRetrievalProfileGenerationsStaleTx_def)
next
  case (Some row)
  let ?row = "row\<lparr>sp_ActiveGenerationID := [], sp_ActiveSnapshotRevision := 0, sp_ActiveIndexedCount := 0,
    sp_L0ReadyCount := tail_count [] p (db_embeddings db), sp_ActiveTombstoneCount := 0\<rparr>"
  have "tail_row [] p = (\<lambda>((_, q), e). q = p \<and> se_Status e = RetrievalEmbeddingReady)" by (auto simp: tail_row_def fun_eq_iff)
  then have db': "markRetrievalProfileGenerationsStaleTx p db = db\<lparr>db_profiles := gm_put p ?row (db_profiles db)\<rparr>"
    using Some by (simp add: markRetrievalProfileGenerationsStaleTx_def tail_count_def)
  let ?db = "db\<lparr>db_profiles := gm_put p ?row (db_profiles db)\<rparr>"
  have kept: "\<exists>r'. gm_get (db_profiles ?db) q = Some r' \<and> sp_LatestRevision r' = sp_LatestRevision r"
    if "gm_get (db_profiles db) q = Some r" for q r using that Some by (cases "q = p") auto
  have "root_ok ?db p ?row"
    using inv no_generation [OF inv] unfolding store_inv_def by (auto simp: root_ok_def unique_members_def tomb_count_def)
  moreover have "root_ok ?db q r" if "q \<noteq> p" "gm_get (db_profiles db) q = Some r" for q r
    using store_invD(4) [OF inv that(2)] by (simp add: root_ok_def)
  ultimately have "\<forall>q r. gm_get (db_profiles ?db) q = Some r \<longrightarrow> root_ok ?db q r" by auto
  moreover have "embeddings_ok ?db"
    unfolding embeddings_ok_def
  proof (intro conjI allI impI)
    fix c q e assume "gm_get (db_embeddings ?db) (c, q) = Some e"
    then have e: "gm_get (db_embeddings db) (c, q) = Some e" by simp
    show "se_VectorHash e = retrievalVectorHash (se_VectorBytes e)" by (rule store_invD(2) [OF inv e])
    obtain r where r: "gm_get (db_profiles db) q = Some r" "se_Revision e \<le> sp_LatestRevision r" using store_invD(3) [OF inv e] by blast
    from kept [OF r(1)] r(2) show "\<exists>row. gm_get (db_profiles ?db) q = Some row \<and> se_Revision e \<le> sp_LatestRevision row" by fastforce
  qed (use store_invD(1) [OF inv] in simp)
  moreover have "members_ok ?db"
    unfolding members_ok_def
  proof
    fix m assume "m \<in> set (db_members ?db)"
    then obtain s r where "gm_get (db_segments db) (sm_SegmentHash m) = Some s" "gm_get (db_profiles db) (is_ProfileID s) = Some r"
        "sm_Revision m \<le> sp_LatestRevision r"
      using inv by (auto simp: store_inv_def members_ok_def)
    moreover from kept [OF this(2)] obtain r' where "gm_get (db_profiles ?db) (is_ProfileID s) = Some r'"
        "sp_LatestRevision r' = sp_LatestRevision r" by blast
    ultimately show "\<exists>s r. gm_get (db_segments ?db) (sm_SegmentHash m) = Some s \<and> gm_get (db_profiles ?db) (is_ProfileID s) = Some r \<and>
        sm_Revision m \<le> sp_LatestRevision r"
      by (intro exI [of _ s] exI [of _ r']) simp
  qed
  ultimately show ?thesis using inv unfolding db' store_inv_def by simp
qed


section \<open>Histories\<close>

text \<open>Chunks and parents are written by the projection, the purge epoch by a purge.\<close>

definition empty_index :: index_db where
  "empty_index = \<lparr>db_chunks = [], db_currentParents = [], db_embeddings = [], db_profiles = [], db_generations = [],
     db_segmentsOf = [], db_segments = [], db_members = [], db_purgeEpoch = 0\<rparr>"

inductive index_step :: "(32 word list \<Rightarrow> bool) \<Rightarrow> index_db \<Rightarrow> index_db \<Rightarrow> bool" for unit_norm where
  "PutRetrievalEmbeddingBatch unit_norm profile rows epoch db = Inr (revision, db') \<Longrightarrow> index_step unit_norm db db'"
| "BlockCorruptRetrievalEmbedding unit_norm chunk profileID reason db = Inr db' \<Longrightarrow> index_step unit_norm db db'"
| "account_delete chunk profileID db = Inr db' \<Longrightarrow> index_step unit_norm db db'"
| "CompleteRetrievalIndexGeneration input db = Inr db' \<Longrightarrow> index_step unit_norm db db'"
| "index_step unit_norm db (markRetrievalProfileGenerationsStaleTx profileID db)"
| "index_step unit_norm db (db\<lparr>db_chunks := chunks, db_currentParents := parents, db_purgeEpoch := epoch\<rparr>)"

inductive_cases index_step_cases: "index_step unit_norm db db'"

lemma outside_keeps_inv:
  assumes inv: "store_inv db"
  shows "store_inv (db\<lparr>db_chunks := chunks, db_currentParents := parents, db_purgeEpoch := epoch\<rparr>)"
proof -
  let ?db = "db\<lparr>db_chunks := chunks, db_currentParents := parents, db_purgeEpoch := epoch\<rparr>"
  have "generation_members ?db = generation_members db" by (simp add: generation_members_def fun_eq_iff)
  then have "root_ok ?db = root_ok db" by (simp add: root_ok_def fun_eq_iff)
  then show ?thesis using inv by (simp add: store_inv_def embeddings_ok_def members_ok_def)
qed

lemma index_step_keeps: "store_inv db \<Longrightarrow> index_step unit_norm db db' \<Longrightarrow> store_inv db'"
  by (erule index_step_cases) (auto intro: put_keeps_inv block_keeps_inv delete_keeps_inv complete_keeps_inv stale_keeps_inv outside_keeps_inv)

lemma empty_index_inv: "store_inv empty_index"
  by (simp add: empty_index_def store_inv_def embeddings_ok_def members_ok_def)

interpretation ix: invariant_system empty_index "index_step unit_norm" store_inv for unit_norm
  by unfold_locales (auto intro: empty_index_inv index_step_keeps)


section \<open>Every ready embedding counts once\<close>

lemma ready_once:
  assumes ok: "gm_ok T" and unique: "unique_members ms p T"
  shows "int (length (filter (\<lambda>((_, q), e). q = p \<and> se_Status e = RetrievalEmbeddingReady) T)) =
    tail_count ms p T + int (length (filter (live_member T p) ms))"
proof -
  let ?ready = "\<lambda>((_, q), e). q = p \<and> se_Status e = RetrievalEmbeddingReady"
  let ?R = "{k. \<exists>e. gm_get T k = Some e \<and> ?ready (k, e)}" and ?B = "{k. \<exists>e. gm_get T k = Some e \<and> tail_row ms p (k, e)}"
  let ?L = "filter (live_member T p) ms"
  have "?R \<subseteq> fst ` set T" using gm_get_Some_iff [OF ok] by force
  then have fin: "finite ?R" by (rule finite_subset) simp
  have "inj_on sm_ChunkID (set ?L)" "distinct ?L"
  proof -
    have u: "inj_on (\<lambda>m. (sm_ChunkID m, sm_Revision m, sm_VectorHash m)) (set ?L)" "distinct ?L"
      using unique by (simp_all add: unique_members_def distinct_map)
    show "inj_on sm_ChunkID (set ?L)"
    proof (rule inj_onI)
      fix m m' assume m: "m \<in> set ?L" "m' \<in> set ?L" "sm_ChunkID m = sm_ChunkID m'"
      then have "(sm_ChunkID m, sm_Revision m, sm_VectorHash m) = (sm_ChunkID m', sm_Revision m', sm_VectorHash m')"
        by (auto simp: live_member_def describes_def split: option.splits)
      then show "m = m'" using inj_onD [OF u(1)] m by blast
    qed
    show "distinct ?L" by (rule u(2))
  qed
  then have "length ?L = card (sm_ChunkID ` set ?L)" by (metis card_image distinct_card)
  also have "\<dots> = card ((\<lambda>c. (c, p)) ` sm_ChunkID ` set ?L)" by (rule card_image [symmetric]) (simp add: inj_on_def)
  also have "(\<lambda>c. (c, p)) ` sm_ChunkID ` set ?L = ?R - ?B"
  proof (intro set_eqI iffI)
    fix k assume "k \<in> (\<lambda>c. (c, p)) ` sm_ChunkID ` set ?L"
    then show "k \<in> ?R - ?B"
      by (auto simp: live_member_def tail_row_def list_ex_iff split: option.splits)
  next
    fix k assume "k \<in> ?R - ?B"
    then obtain c e m where "k = (c, p)" "gm_get T (c, p) = Some e" "se_Status e = RetrievalEmbeddingReady" "m \<in> set ms" "describes m c e"
      by (auto simp: tail_row_def list_ex_iff)
    then show "k \<in> (\<lambda>c. (c, p)) ` sm_ChunkID ` set ?L"
      by (intro image_eqI [of _ _ c] image_eqI [of _ _ m]) (auto simp: live_member_def describes_def)
  qed
  finally have live: "length ?L = card (?R - ?B)" .
  have "?B \<subseteq> ?R" by (auto simp: tail_row_def)
  then have "card ?R = card ?B + card (?R - ?B)" using card_mono [OF fin] finite_subset [OF _ fin] by (simp add: card_Diff_subset)
  then show ?thesis unfolding tail_count_def filter_length_card [OF ok] live by simp
qed

lemma live_and_dead: "int (length (filter (live_member T p) ms)) = int (length ms) - tomb_count ms p T"
  using sum_length_filter_compl [of "live_member T p" ms] by (simp add: tomb_count_def)

lemma unready_counted:
  assumes inv: "store_inv db" and row: "gm_get (db_profiles db) p = Some row" and e: "gm_get (db_embeddings db) (c, p) = Some e"
    and ready: "se_Status e = RetrievalEmbeddingReady" and outside: "\<not> in_generation db (sp_ActiveGenerationID row) c e"
  shows "0 < sp_L0ReadyCount row"
proof -
  have "((c, p), e) \<in> set (filter (tail_row (generation_members db (sp_ActiveGenerationID row)) p) (db_embeddings db))"
    using e ready outside gm_get_SomeD by (fastforce simp: tail_row_def in_generation_def)
  then have "filter (tail_row (generation_members db (sp_ActiveGenerationID row)) p) (db_embeddings db) \<noteq> []"
    by (metis empty_iff list.set(1))
  then show ?thesis using store_invD(4) [OF inv row] by (simp add: root_ok_def tail_count_def)
qed

lemma block_never_drifts:
  assumes inv: "store_inv db"
  shows "BlockCorruptRetrievalEmbedding unit_norm chunk profileID reason db \<noteq> Inl (AggregateDrift q)"
proof
  let ?c = "TrimSpace chunk" and ?p = "TrimSpace profileID"
  assume "BlockCorruptRetrievalEmbedding unit_norm chunk profileID reason db = Inl (AggregateDrift q)"
  then obtain e profile row where e: "gm_get (db_embeddings db) (?c, ?p) = Some e" "se_Status e = RetrievalEmbeddingReady"
      and row: "ensureRetrievalEmbeddingProfileTx db ?p (db_purgeEpoch db) profile = Inr row"
      and drift: "sp_L0ReadyCount row + (if retrievalEmbeddingHasActiveMembershipTx db (sp_ActiveGenerationID row) ?c e then 0 else - 1) < 0"
    by (auto simp: BlockCorruptRetrievalEmbedding_def Let_def drift_free split: if_splits option.splits sum.splits)
  obtain row0 where row0: "gm_get (db_profiles db) ?p = Some row0" using store_invD(3) [OF inv e(1)] by auto
  have prow: "gm_get (db_profiles db) ?p = Some row" using ensure_existing [OF row0 row] row0 by simp
  have "0 \<le> sp_L0ReadyCount row" using store_invD(4) [OF inv prow] by (simp add: root_ok_def tail_count_def)
  moreover have "\<not> in_generation db (sp_ActiveGenerationID row) ?c e \<Longrightarrow> 0 < sp_L0ReadyCount row"
    by (rule unready_counted [OF inv prow e])
  ultimately show False using drift by (auto simp: active_inside [OF inv e(2)] split: if_splits)
qed

lemma delete_never_drifts:
  assumes inv: "store_inv db"
  shows "account_delete chunk p db \<noteq> Inl (AggregateDrift q)"
proof
  assume "account_delete chunk p db = Inl (AggregateDrift q)"
  then obtain e where e: "gm_get (db_embeddings db) (chunk, p) = Some e" by (auto simp: account_delete_def split: option.splits)
  then obtain row where row: "gm_get (db_profiles db) p = Some row" using store_invD(3) [OF inv] by blast
  have "se_Status e = RetrievalEmbeddingReady \<Longrightarrow> \<not> in_generation db (sp_ActiveGenerationID row) chunk e \<Longrightarrow> 0 < sp_L0ReadyCount row"
    by (rule unready_counted [OF inv row e])
  then show False using e row \<open>account_delete chunk p db = _\<close> by (auto simp: account_delete_def Let_def split: if_splits)
qed


section \<open>The counters never drift\<close>

text \<open>C15. In every history of the index tables, whatever the projection and purges do in between, the two counters of a
  profile are what \<open>countRetrievalGenerationCountersTx\<close> counts from the tables for its active generation; every
  ready embedding is in the exact tail or described by one member of the active generation, never by two; and no write
  of embeddings, no transition of a corrupt embedding and no deletion finds an aggregate that has drifted.\<close>

theorem index_counters_never_drift:
  assumes reach: "(index_step unit_norm)\<^sup>*\<^sup>* empty_index db"
    and row: "gm_get (db_profiles db) p = Some row"
  shows "countRetrievalGenerationCountersTx db p (sp_ActiveGenerationID row) = (sp_L0ReadyCount row, sp_ActiveTombstoneCount row) \<and>
    int (length (filter (\<lambda>((_, q), e). q = p \<and> se_Status e = RetrievalEmbeddingReady) (db_embeddings db))) =
      sp_L0ReadyCount row + (int (length (generation_members db (sp_ActiveGenerationID row))) - sp_ActiveTombstoneCount row) \<and>
    proveNoDuplicateUsableGenerationMembersTx db (sp_ActiveGenerationID row) p \<and>
    PutRetrievalEmbeddingBatch unit_norm' profile rows epoch db \<noteq> Inl (AggregateDrift q) \<and>
    BlockCorruptRetrievalEmbedding unit_norm' chunk q' reason db \<noteq> Inl (AggregateDrift q) \<and>
    account_delete chunk q' db \<noteq> Inl (AggregateDrift q)"
proof -
  have inv: "store_inv db" by (rule ix.reachable_inv [OF reach])
  have root: "root_ok db p row" by (rule store_invD(4) [OF inv row])
  then have unique: "unique_members (generation_members db (sp_ActiveGenerationID row)) p (db_embeddings db)" by (simp add: root_ok_def)
  show ?thesis
    using root ready_once [OF store_invD(1) [OF inv] unique] put_never_drifts [OF inv] block_never_drifts [OF inv] delete_never_drifts [OF inv]
    by (simp add: counters_eq root_ok_def live_and_dead proveNoDuplicateUsableGenerationMembersTx_def member_usable_live unique_members_def)
qed


text \<open>A vector is embedded, flushed to a first root, and embedded anew.\<close>

definition shown_profile :: profile where
  "shown_profile = \<lparr>pf_Provider = ''ollama'', pf_Model = ''m'', pf_ProjectionVersion = ''p1'', pf_ChunkerVersion = ''c3'',
     pf_Representation = RepresentationDenseF32, pf_Normalization = NormalizationNone, pf_Dimensions = 1\<rparr>"

definition shown_id :: string where
  "shown_id = (case profile_ID shown_profile of Inr i \<Rightarrow> i | Inl _ \<Rightarrow> [])"

definition shown_row :: "string \<Rightarrow> embedding_row" where
  "shown_row v = \<lparr>em_ChunkID = ''k'', em_ProfileID = shown_id, em_Provider = ''ollama'', em_Model = ''m'', em_Dimensions = 1,
     em_Representation = RepresentationDenseF32, em_Normalization = NormalizationNone, em_VectorBytes = v, em_ChunkTextHash = ''h'',
     em_Status = RetrievalEmbeddingReady, em_AttemptCount = 1, em_LastError = [], em_NextAttemptAt = zero_time, em_EmbeddedAt = zero_time\<rparr>"

definition shown_start :: index_db where
  "shown_start = empty_index\<lparr>db_chunks := [\<lparr>sc_ChunkID = ''k'', sc_ParentKind = ''item'', sc_ParentSourceKey = ''s'',
     sc_ProjectionVersion = ''p1'', sc_ChunkerVersion = ''c3'', sc_ChunkTextHash = ''h'', sc_Text = ''t''\<rparr>],
     db_currentParents := [(''item'', ''s'')], db_purgeEpoch := 0\<rparr>"

definition shown_counts :: "int \<Rightarrow> string \<Rightarrow> int \<Rightarrow> int \<Rightarrow> int \<Rightarrow> int \<Rightarrow> stored_profile" where
  "shown_counts revision generation snapshot indexed l0 tombstones = \<lparr>sp_Profile = shown_profile, sp_LatestRevision = revision,
     sp_PurgeEpoch = 0, sp_ActiveGenerationID = generation, sp_ActiveSnapshotRevision = snapshot, sp_ActiveIndexedCount = indexed,
     sp_L0ReadyCount = l0, sp_ActiveTombstoneCount = tombstones\<rparr>"

definition shown_first :: index_db where
  "shown_first = shown_start\<lparr>db_embeddings := [((''k'', shown_id), stored_row 1 (shown_row ''abcd''))],
     db_profiles := [(shown_id, shown_counts 1 [] 0 0 1 0)]\<rparr>"

definition shown_segment :: index_segment where
  "shown_segment = \<lparr>is_SegmentHash = ''s1'', is_ProfileID = shown_id, is_Backend = ''b'', is_BackendVersion = ''1'', is_DistanceMetric = ''cos'',
     is_RelativeCachePath = ''r'', is_Dimensions = 1, is_IndexedChunkCount = 1, is_MembershipHash = ''m'', is_PayloadHash = ''p'', is_ManifestHash = ''n''\<rparr>"

definition shown_member :: segment_member where
  "shown_member = \<lparr>sm_SegmentHash = ''s1'', sm_Ordinal = 0, sm_ChunkID = ''k'', sm_Revision = 1, sm_VectorHash = retrievalVectorHash ''abcd''\<rparr>"

definition shown_completion :: completion_input where
  "shown_completion = \<lparr>cg_Generation = \<lparr>ig_GenerationID = ''g1'', ig_ProfileID = shown_id, ig_Backend = ''b'', ig_BackendVersion = ''1'',
       ig_Dimensions = 1, ig_DistanceMetric = ''cos'', ig_IndexedChunkCount = 1, ig_SourceManifestHash = ''n'', ig_Completed = True, ig_Active = False\<rparr>,
     cg_Segments = [shown_segment], cg_Members = [shown_member], cg_SnapshotRevision = 1, cg_ExpectedPurgeEpoch = 0,
     cg_ExpectedActiveSnapshotRevision = 0, cg_ExpectedActiveGenerationID = [], cg_ActivationMode = AdvanceSnapshot\<rparr>"

definition shown_flushed :: index_db where
  "shown_flushed = shown_first\<lparr>db_generations := [(''g1'', shown_id)], db_segments := [(''s1'', shown_segment)],
     db_members := [shown_member], db_segmentsOf := [(''g1'', ''s1'')], db_profiles := [(shown_id, shown_counts 1 ''g1'' 1 1 0 0)]\<rparr>"

definition shown_again :: index_db where
  "shown_again = shown_flushed\<lparr>db_embeddings := [((''k'', shown_id), stored_row 2 (shown_row ''abce''))],
     db_profiles := [(shown_id, shown_counts 2 ''g1'' 1 1 1 1)]\<rparr>"

lemma shown_texts: "TrimSpace ''ollama'' = ''ollama''" "TrimSpace ''m'' = ''m''" "TrimSpace ''p1'' = ''p1''" "TrimSpace ''c3'' = ''c3''"
  "TrimSpace ''dense_f32'' = ''dense_f32''" "TrimSpace ''none'' = ''none''" "TrimSpace ''k'' = ''k''" "TrimSpace ''g1'' = ''g1''"
  "TrimSpace ''b'' = ''b''" "TrimSpace ''1'' = ''1''" "TrimSpace ''cos'' = ''cos''" "TrimSpace ''n'' = ''n''" "TrimSpace ''s1'' = ''s1''"
  "TrimSpace ''r'' = ''r''" "TrimSpace ''p'' = ''p''"
  by (simp_all add: TrimSpace_visible visible_def)

lemma hex_visible: "is_hex_char c \<Longrightarrow> visible c"
  by (auto simp: is_hex_char_def visible_def Let_def)

lemma hex_ends: "visible (last (sha256_hex 32 s))" "visible (hd (sha256_hex 32 s))" "sha256_hex 32 s \<noteq> []"
proof -
  have "length (sha256_hex 32 s) = 64" using sha256_hex_shape(1) [of 32 s] by simp
  then show "sha256_hex 32 s \<noteq> []" by auto
  then have "last (sha256_hex 32 s) \<in> set (sha256_hex 32 s)" "hd (sha256_hex 32 s) \<in> set (sha256_hex 32 s)" by simp_all
  then show "visible (last (sha256_hex 32 s))" "visible (hd (sha256_hex 32 s))" using sha256_hex_shape(2) hex_visible by blast+
qed

lemma shown_valid: "profile_validate shown_profile = None" "profile_normalized shown_profile = shown_profile"
  by (simp_all add: profile_validate_def profile_normalized_def shown_profile_def shown_texts RepresentationDenseF32_def NormalizationNone_def Let_def)

lemma shown_ID: "profile_ID shown_profile = Inr shown_id" "TrimSpace shown_id \<noteq> []"
proof -
  show "profile_ID shown_profile = Inr shown_id" by (simp add: shown_id_def profile_ID_def shown_valid Let_def)
  obtain h where h: "shown_id = ''embedding-profile-v1:'' @ sha256_hex 32 h"
    by (simp add: shown_id_def profile_ID_def shown_valid Let_def profileIDVersion_def)
  have "TrimSpace shown_id = shown_id" unfolding h using hex_ends [of h] by (intro TrimSpace_visible) (simp_all add: visible_def)
  then show "TrimSpace shown_id \<noteq> []" by (simp add: h)
qed

lemma shown_hash: "TrimSpace (retrievalVectorHash v) \<noteq> []"
proof -
  have "TrimSpace (retrievalVectorHash v) = retrievalVectorHash v" unfolding retrievalVectorHash_def by (rule TrimSpace_visible) (rule hex_ends)+
  then show ?thesis using hex_ends by (simp add: retrievalVectorHash_def)
qed


lemmas shown_defs = shown_start_def shown_counts_def shown_first_def shown_segment_def shown_member_def
  shown_completion_def shown_flushed_def shown_again_def empty_index_def

lemma shown_fields: "em_ChunkID (shown_row v) = ''k''" "em_ChunkTextHash (shown_row v) = ''h''" "em_Status (shown_row v) = RetrievalEmbeddingReady"
  "em_VectorBytes (shown_row v) = v" "pf_ProjectionVersion shown_profile = ''p1''" "pf_ChunkerVersion shown_profile = ''c3''"
  by (simp_all add: shown_row_def shown_profile_def)

lemma shown_vector:
  assumes "v \<in> {''abcd'', ''abce''}"
  shows "ValidateEncodedVector (\<lambda>_. True) v 1 RepresentationDenseF32 NormalizationNone"
proof -
  have "blocks_of 4 v = [v]" using assms by (subst blocks_of.simps) (auto simp: blocks_of.simps [of 4 "[]"])
  moreover have "finite_f32 (Uint32 ''abcd'')" "finite_f32 (Uint32 ''abce'')" by (simp_all add: finite_f32_def Uint32_def)
  ultimately show ?thesis using assms by (auto simp: ValidateEncodedVector_def DecodeDenseF32_def ValidateDenseF32_def)
qed

lemma shown_batch:
  assumes "v \<in> {''abcd'', ''abce''}"
  shows "validateRetrievalEmbeddingBatch (\<lambda>_. True) shown_profile shown_id [shown_row v] = Inr [shown_row v]"
  using shown_vector [OF assms] shown_ID(2) shown_valid(1) [unfolded shown_profile_def]
  by (simp add: validateRetrievalEmbeddingBatch_def shown_valid maxRetrievalEmbeddingBatchSize_def shown_row_def shown_profile_def
      shown_texts validRetrievalEmbeddingStatus_def embedding_statuses)

lemma shown_put:
  "PutRetrievalEmbeddingBatch (\<lambda>_. True) shown_profile [shown_row ''abcd''] 0 shown_start = Inr (1, shown_first)"
  using shown_ID
  by (simp add: PutRetrievalEmbeddingBatch_def shown_batch ensureRetrievalEmbeddingProfileTx_def Let_def find_chunk_def membership_changed_def
      row_deltas_def put_row_def shown_defs shown_fields gm_put_def gm_get_def)


lemma shown_complete: "CompleteRetrievalIndexGeneration shown_completion shown_first = Inr shown_flushed"
proof -
  have valid: "validateGenerationCompletionInput shown_completion"
    using shown_ID(2) shown_hash
    by (simp add: validateGenerationCompletionInput_def segment_valid_def member_valid_def maximum_revision_def shown_completion_def
        shown_segment_def shown_member_def shown_texts)
  have matches: "member_matches shown_first shown_id shown_member"
    by (simp add: member_matches_def member_usable_def describes_def find_chunk_def parent_current_def stored_row_def shown_defs
        shown_fields gm_get_def)
  show ?thesis
    unfolding CompleteRetrievalIndexGeneration_def using valid matches
    by (simp add: Let_def completion_stale_def activate_root_def with_generation_def insert_member_def
      proveRetrievalSegmentMembersTx_def segment_size_def proveNoDuplicateUsableGenerationMembersTx_def member_usable_def
      generation_members_def countRetrievalGenerationCountersTx_def ready_outside_def in_generation_def describes_def stored_row_def
      shown_defs shown_fields gm_get_def gm_put_def)
qed

lemma shown_put_again:
  "PutRetrievalEmbeddingBatch (\<lambda>_. True) shown_profile [shown_row ''abce''] 0 shown_flushed = Inr (2, shown_again)"
  using shown_ID
  by (simp add: PutRetrievalEmbeddingBatch_def shown_batch ensureRetrievalEmbeddingProfileTx_def Let_def find_chunk_def membership_changed_def
      retrievalEmbeddingMembershipEqual_def retrievalEmbeddingHasActiveMembershipTx_def in_generation_def generation_members_def describes_def
      stored_row_def row_deltas_def put_row_def shown_defs shown_fields gm_put_def gm_get_def)

lemma shown_reachable: "(index_step (\<lambda>_. True))\<^sup>*\<^sup>* empty_index shown_again"
proof -
  let ?step = "index_step (\<lambda>_. True)"
  have "?step empty_index shown_start" unfolding shown_start_def by (rule index_step.intros)
  moreover have "?step shown_start shown_first" by (rule index_step.intros(1) [OF shown_put])
  moreover have "?step shown_first shown_flushed" by (rule index_step.intros(4) [OF shown_complete])
  moreover have "?step shown_flushed shown_again" by (rule index_step.intros(1) [OF shown_put_again])
  ultimately show ?thesis by (meson converse_rtranclp_into_rtranclp rtranclp.rtrancl_refl)
qed

theorem index_counters_never_drift_witness:
  "(index_step (\<lambda>_. True))\<^sup>*\<^sup>* empty_index shown_again \<and> gm_get (db_profiles shown_again) shown_id = Some (shown_counts 2 ''g1'' 1 1 1 1) \<and>
   countRetrievalGenerationCountersTx shown_again shown_id ''g1'' = (1, 1)"
proof -
  have row: "gm_get (db_profiles shown_again) shown_id = Some (shown_counts 2 ''g1'' 1 1 1 1)" by (simp add: shown_again_def gm_get_def)
  show ?thesis using index_counters_never_drift [OF shown_reachable row] shown_reachable row by (simp add: shown_counts_def)
qed

end
