(* ===== verification/EmbedRunProps.thy ===== *)
theory EmbedRunProps
  imports EmbedBatchProps IndexStoreSteps
begin

text \<open>
  The properties of a unit of embedding work and of the command: each candidate is accounted for, and the command ends
  with no chunk due.
\<close>

section \<open>Chunks that are due\<close>

definition chunk_keys :: "index_db \<Rightarrow> bool" where
  "chunk_keys db \<longleftrightarrow> distinct (map sc_ChunkID (db_chunks db)) \<and> (\<forall>c \<in> set (db_chunks db). sc_ChunkID c \<noteq> [])"

definition due_now :: "index_db \<Rightarrow> provider_info \<Rightarrow> string \<Rightarrow> gotime \<Rightarrow> stored_chunk list" where
  "due_now db info profileID now = due_chunks db profileID (provider_profile info) (rfc3339 (t_utc now))"

lemma candidates_due:
  assumes "listEmbedCandidates f db (provider_profile info) limit now = Inr candidates" "profile_ID (provider_profile info) = Inr p"
    and "0 < limit" "chunk_keys db"
  shows "map fst candidates = take (nat limit) (sort_key sc_ChunkID (due_now db info p now))"
    "\<not> rejectMismatchedRetrievalChunks db (provider_profile info)" "\<not> f"
proof -
  have all: "filter (\<lambda>c. [] < sc_ChunkID c) (due_now db info p now) = due_now db info p now"
    using assms(4) by (intro filter_True) (auto simp: due_now_def due_chunks_def chunk_keys_def neq_Nil_conv)
  show "map fst candidates = take (nat limit) (sort_key sc_ChunkID (due_now db info p now))"
    using assms(1-3) all by (auto simp: listEmbedCandidates_def ListChunksNeedingEmbeddingForProfileAt_def due_now_def take_map o_def Let_def
      split: if_splits sum.splits)
  show "\<not> rejectMismatchedRetrievalChunks db (provider_profile info)" "\<not> f"
    using assms(1,2) by (auto simp: listEmbedCandidates_def ListChunksNeedingEmbeddingForProfileAt_def split: if_splits sum.splits)
qed

lemma sort_nil: "sort_key f xs = [] \<longleftrightarrow> xs = []"
  by (metis set_empty set_sort)

lemma due_subset: "set (due_now db info p now) \<subseteq> set (db_chunks db)"
  by (auto simp: due_now_def due_chunks_def)

lemma due_distinct: "chunk_keys db \<Longrightarrow> distinct (map sc_ChunkID (due_now db info p now))"
  by (auto simp: due_now_def due_chunks_def chunk_keys_def distinct_map_filter)

lemma settled_not_due:
  assumes "gm_get (db_embeddings db) (sc_ChunkID c, p) = Some e" "se_ChunkTextHash e = sc_ChunkTextHash c"
    "se_Status e \<in> {RetrievalEmbeddingReady, RetrievalEmbeddingBlocked}"
  shows "\<not> embedding_due db p now c"
  using assms by (auto simp: embedding_due_def embedding_statuses)

lemma due_after:
  assumes st: "stores ex xs {RetrievalEmbeddingReady, RetrievalEmbeddingBlocked} db db'" and p: "ex_ProfileID ex = p" and keys: "chunk_keys db"
    and sub: "set xs \<subseteq> set (db_chunks db)"
  shows "due_now db' info p now = filter (\<lambda>c. c \<notin> set xs) (due_now db info p now)"
proof -
  have chunks: "db_chunks db' = db_chunks db" "parent_current db' = parent_current db" using st by (simp_all add: stores_def parent_current_def fun_eq_iff)
  have same: "embedding_due db' p n c \<longleftrightarrow> embedding_due db p n c \<and> c \<notin> set xs" if c: "c \<in> set (db_chunks db)" for c n
  proof (cases "c \<in> set xs")
    case True
    then obtain e where "gm_get (db_embeddings db') (sc_ChunkID c, p) = Some e" "se_ChunkTextHash e = sc_ChunkTextHash c"
        "se_Status e \<in> {RetrievalEmbeddingReady, RetrievalEmbeddingBlocked}" using st p unfolding stores_def by blast
    then show ?thesis using True settled_not_due by blast
  next
    case False
    have "inj_on sc_ChunkID (set (db_chunks db))" using keys by (simp add: chunk_keys_def distinct_map)
    then have "sc_ChunkID c \<notin> sc_ChunkID ` set xs" using False c sub by (auto dest: inj_onD)
    then have "gm_get (db_embeddings db') (sc_ChunkID c, p) = gm_get (db_embeddings db) (sc_ChunkID c, p)" using st unfolding stores_def by blast
    then show ?thesis using False by (simp add: embedding_due_def)
  qed
  show ?thesis unfolding due_now_def due_chunks_def chunks filter_filter
    by (rule filter_cong [OF refl]) (auto simp: same)
qed

lemma due_shrinks:
  assumes "chunk_keys db" "distinct (map sc_ChunkID xs)" "set xs \<subseteq> set (due_now db info p now)"
  shows "length (filter (\<lambda>c. c \<notin> set xs) (due_now db info p now)) + length xs = length (due_now db info p now)"
proof -
  have d: "distinct (due_now db info p now)" "distinct xs" using due_distinct [OF assms(1)] assms(2) by (simp_all add: distinct_map)
  have "set (filter (\<lambda>c. c \<in> set xs) (due_now db info p now)) = set xs" using assms(3) by auto
  then have "length (filter (\<lambda>c. c \<in> set xs) (due_now db info p now)) = length xs" using d by (metis distinct_card distinct_filter)
  then show ?thesis using sum_length_filter_compl [of "\<lambda>c. c \<in> set xs" "due_now db info p now"] by simp
qed


section \<open>A unit of work\<close>

lemma accounts_all:
  assumes "accounts ex batch s None s'"
  shows "stores ex batch {RetrievalEmbeddingReady, RetrievalEmbeddingBlocked} (es_db s) (es_db s')"
    "ep_Scanned (es_progress s') = ep_Scanned (es_progress s) + int (length batch)"
    "ep_Generated (es_progress s') + ep_Blocked (es_progress s') = ep_Generated (es_progress s) + ep_Blocked (es_progress s) + int (length batch)"
    "ep_Failed (es_progress s') = ep_Failed (es_progress s)"
proof -
  obtain mid where mid: "stores ex batch {RetrievalEmbeddingReady, RetrievalEmbeddingBlocked} (es_db s) mid" "stores ex [] {RetrievalEmbeddingError} mid (es_db s')"
    and n: "ep_Scanned (es_progress s') = ep_Scanned (es_progress s) + int (length batch)"
      "ep_Generated (es_progress s') + ep_Blocked (es_progress s') = ep_Generated (es_progress s) + ep_Blocked (es_progress s) + int (length batch)"
      "ep_Failed (es_progress s') = ep_Failed (es_progress s)"
    using assms unfolding accounts_def by auto
  have "stores ex [] {RetrievalEmbeddingReady, RetrievalEmbeddingBlocked} mid (es_db s')" using mid(2) by (simp add: stores_def)
  from stores_append [OF mid(1) this] show "stores ex batch {RetrievalEmbeddingReady, RetrievalEmbeddingBlocked} (es_db s) (es_db s')" by simp
qed (use assms in \<open>auto simp: accounts_def\<close>)

lemma prepared:
  assumes "prepareEmbedBatch info opts calls db = Inr ex"
  shows "ex_Profile ex = provider_profile info" "profile_ID (ex_Profile ex) = Inr (ex_ProfileID ex)" "ex_Now ex = t_utc (bo_Now opts)" "0 < bo_BatchSize opts"
  using assms by (auto simp: prepareEmbedBatch_def split: if_splits sum.splits)

lemma started_batch:
  assumes prep: "prepareEmbedBatch info opts calls db = Inr ex" and keys: "chunk_keys db"
    and list: "listEmbedCandidates (bc_List calls) db (ex_Profile ex) (bo_BatchSize opts) (ex_Now ex) = Inr candidates" and some: "candidates \<noteq> []"
    and run: "processEmbedBatch unit_norm ex (map fst candidates) (batch_state db calls candidates) = ((revision, err), s)"
  shows "sound_batch ex (map fst candidates) (batch_state db calls candidates) err s"
    and "distinct (map sc_ChunkID (map fst candidates))" "set (map fst candidates) \<subseteq> set (due_now db info (ex_ProfileID ex) (ex_Now ex))"
proof -
  note p = prepared [OF prep]
  note c = candidates_due(1) [OF list [unfolded p(1)] p(2) [unfolded p(1)] p(4) keys]
  show ids: "distinct (map sc_ChunkID (map fst candidates))"
    unfolding c take_map [symmetric] using due_distinct [OF keys] by (intro distinct_take) (metis distinct_map distinct_sort set_sort)
  show "set (map fst candidates) \<subseteq> set (due_now db info (ex_ProfileID ex) (ex_Now ex))"
    unfolding c by (metis set_sort set_take_subset)
  have few: "es_failures (batch_state db calls candidates) = 0" by (simp add: batch_state_def)
  show "sound_batch ex (map fst candidates) (batch_state db calls candidates) err s"
    by (rule sound_poll [OF run]) (use embed_loop_sound [OF p(2) _ ids] some few in simp_all)
qed

text \<open>C16. A unit of embedding work accounts for each chunk it took, in their order: those it embedded or found to be
  blocked are stored as such with the hash of the text they have; when three retryable failures in a row open the
  circuit, the part of the batch at fault is stored as failed, and exactly then; the chunks after it, and all other embeddings,
  chunks and parents are as they were. The progress counts just these. For \<open>n\<close> chunks it never makes more than
  \<open>6 n - 3\<close> calls of the provider, however the provider blocks and fails: that many turns are always enough.\<close>

theorem embed_batch_accounts_for_every_chunk:
  assumes keys: "chunk_keys db" and prep: "prepareEmbedBatch info opts calls db = Inr ex"
    and list: "listEmbedCandidates (bc_List calls) db (ex_Profile ex) (bo_BatchSize opts) (ex_Now ex) = Inr candidates"
    and run: "RunEmbedBatch unit_norm info opts calls db = ((result, err), db')"
  shows "(\<exists>good bad rest mid. map fst candidates = good @ bad @ rest \<and>
      stores ex good {RetrievalEmbeddingReady, RetrievalEmbeddingBlocked} db mid \<and> stores ex bad {RetrievalEmbeddingError} mid db' \<and>
      (err = None \<longrightarrow> bad = [] \<and> rest = []) \<and> (bad \<noteq> [] \<longleftrightarrow> err = Some EmbedCircuit \<or> (\<exists>e. err = Some (EmbedCircuitAnd e))) \<and>
      ep_Scanned (br_Progress result) = int (length good) + int (length bad) \<and>
      ep_Generated (br_Progress result) + ep_Blocked (br_Progress result) = int (length good) \<and>
      ep_Failed (br_Progress result) = int (length bad)) \<and>
    (6 * length candidates \<le> length (bc_Turns calls) + 3 \<longrightarrow> err \<noteq> Some StillRunning)"
proof (cases "candidates = [] \<or> bc_Before calls")
  case True
  then have "db' = db" "br_Progress result = no_progress" "err = None \<longrightarrow> candidates = []" "err \<noteq> Some EmbedCircuit" "err \<noteq> Some (EmbedCircuitAnd e)"
    "err \<noteq> Some StillRunning" for e
    using run prep list by (auto simp: RunEmbedBatch_def currentEmbedRevision_def Let_def split: if_splits)
  then show ?thesis
    by - (rule conjI, rule exI [of _ "[]"], rule exI [of _ "[]"], rule exI [of _ "map fst candidates"], rule exI [of _ db],
      auto simp: no_progress_def)
next
  case False
  obtain revision e s where go: "processEmbedBatch unit_norm ex (map fst candidates) (batch_state db calls candidates) = ((revision, e), s)"
    by (metis prod.exhaust)
  have some: "candidates \<noteq> []" using False by simp
  from started_batch(1) [OF prep keys list some go] obtain good bad rest mid where b: "map fst candidates = good @ bad @ rest"
      "stores ex good {RetrievalEmbeddingReady, RetrievalEmbeddingBlocked} db mid" "stores ex bad {RetrievalEmbeddingError} mid (es_db s)"
      "e = None \<longrightarrow> bad = [] \<and> rest = []" "bad \<noteq> [] \<longleftrightarrow> e = Some EmbedCircuit" "ep_Scanned (es_progress s) = int (length good) + int (length bad)"
      "ep_Generated (es_progress s) + ep_Blocked (es_progress s) = int (length good)" "ep_Failed (es_progress s) = int (length bad)"
      "\<forall>x. e \<noteq> Some (EmbedCircuitAnd x)"
    and running: "e = Some StillRunning \<longrightarrow> int (length (bc_Turns calls)) < 6 * int (length candidates) - 3"
    unfolding sound_batch_def accounts_def by (auto simp: batch_state_def no_progress_def)
  have enough: "e \<noteq> Some StillRunning" if "6 * length candidates \<le> length (bc_Turns calls) + 3"
    using running that by auto
  show ?thesis
  proof (cases "e \<noteq> None \<and> e \<noteq> Some EmbedCircuit")
    case True
    then have r: "err = e" "db' = es_db s" "br_Progress result = es_progress s"
      using run prep list False go by (auto simp: RunEmbedBatch_def Let_def)
    have "bad \<noteq> [] \<longleftrightarrow> err = Some EmbedCircuit \<or> (\<exists>x. err = Some (EmbedCircuitAnd x))" "err \<noteq> None"
      using b(5,9) True r(1) by auto
    then show ?thesis using b(1-3,6-8) r(2,3) enough
      by - (rule conjI, rule exI [of _ good], rule exI [of _ bad], rule exI [of _ rest], rule exI [of _ mid], auto simp: r(1))
  next
    case stored: False
    have r: "db' = es_db s" "ep_Scanned (br_Progress result) = ep_Scanned (es_progress s)"
        "ep_Generated (br_Progress result) = ep_Generated (es_progress s)" "ep_Blocked (br_Progress result) = ep_Blocked (es_progress s)"
        "ep_Failed (br_Progress result) = ep_Failed (es_progress s)" "err = None \<Longrightarrow> e = None" "err \<noteq> Some StillRunning"
        "e = Some EmbedCircuit \<longleftrightarrow> err = Some EmbedCircuit \<or> (\<exists>x. err = Some (EmbedCircuitAnd x))"
      using run prep list False go stored by (auto simp: RunEmbedBatch_def listEmbedCandidates_def Let_def split: if_splits sum.splits)
    have "bad \<noteq> [] \<longleftrightarrow> err = Some EmbedCircuit \<or> (\<exists>x. err = Some (EmbedCircuitAnd x))" using b(5) r(8) by simp
    moreover have "err = None \<longrightarrow> bad = [] \<and> rest = []" using b(4) r(6) by blast
    ultimately show ?thesis using b(1-3,6-8) r(1-5,7)
      by - (rule conjI, rule exI [of _ good], rule exI [of _ bad], rule exI [of _ rest], rule exI [of _ mid], simp_all)
  qed
qed


section \<open>The command\<close>

text \<open>A unit without an error.\<close>

lemma batch_settles:
  assumes keys: "chunk_keys db" and id: "profile_ID (provider_profile info) = Inr p" and now: "bo_Now opts = t_utc now"
    and run: "RunEmbedBatch unit_norm info opts calls db = ((result, None), db')"
  obtains xs where "due_now db' info p now = filter (\<lambda>c. c \<notin> set xs) (due_now db info p now)" "distinct (map sc_ChunkID xs)"
    "set xs \<subseteq> set (due_now db info p now)" "ep_Scanned (br_Progress result) = int (length xs)"
    "ep_Generated (br_Progress result) + ep_Blocked (br_Progress result) = int (length xs)" "ep_Failed (br_Progress result) = 0"
    "br_HasMore result \<longleftrightarrow> due_now db' info p now \<noteq> []" "br_HasMore result \<Longrightarrow> xs \<noteq> []" "chunk_keys db'"
    "rejectMismatchedRetrievalChunks db' = rejectMismatchedRetrievalChunks db"
proof -
  obtain ex candidates where prep: "prepareEmbedBatch info opts calls db = Inr ex"
      and list: "listEmbedCandidates (bc_List calls) db (ex_Profile ex) (bo_BatchSize opts) (ex_Now ex) = Inr candidates"
    using run by (auto simp: RunEmbedBatch_def Let_def split: sum.splits)
  note q = prepared [OF prep]
  have pid: "ex_ProfileID ex = p" using q(1,2) id by simp
  have due: "due_now db info p (ex_Now ex) = due_now db info p now" for db using q(3) now by (simp add: due_now_def)
  note cand = candidates_due(1) [OF list [unfolded q(1)] id q(4) keys, unfolded due]
  show ?thesis
  proof (cases "candidates = []")
    case True
    then have none: "due_now db info p now = []" using cand q(4) by (auto simp: take_eq_Nil sort_nil)
    have "db' = db" "br_Progress result = no_progress" "\<not> br_HasMore result"
      using run prep list True by (auto simp: RunEmbedBatch_def Let_def split: sum.splits)
    then show ?thesis using none keys by (intro that [of "[]"]) (simp_all add: no_progress_def)
  next
    case False
    obtain revision e s where go: "processEmbedBatch unit_norm ex (map fst candidates) (batch_state db calls candidates) = ((revision, e), s)"
      by (metis prod.exhaust)
    obtain remaining where r: "e = None" "db' = es_db s" "listEmbedCandidates (bc_After calls) db' (ex_Profile ex) 1 (ex_Now ex) = Inr remaining"
        "br_HasMore result \<longleftrightarrow> remaining \<noteq> []" "ep_Scanned (br_Progress result) = ep_Scanned (es_progress s)"
        "ep_Generated (br_Progress result) = ep_Generated (es_progress s)" "ep_Blocked (br_Progress result) = ep_Blocked (es_progress s)"
        "ep_Failed (br_Progress result) = ep_Failed (es_progress s)"
      using run prep list False go by (auto simp: RunEmbedBatch_def Let_def split: if_splits sum.splits)
    let ?xs = "map fst candidates"
    note b = started_batch [OF prep keys list False go]
    have acc: "stores ex ?xs {RetrievalEmbeddingReady, RetrievalEmbeddingBlocked} db db'" "ep_Scanned (es_progress s) = int (length ?xs)"
        "ep_Generated (es_progress s) + ep_Blocked (es_progress s) = int (length ?xs)" "ep_Failed (es_progress s) = 0"
      using b(1) r(1,2) accounts_all [of ex ?xs "batch_state db calls candidates" s]
      by (simp_all add: sound_batch_def batch_state_def no_progress_def)
    have sub: "set ?xs \<subseteq> set (due_now db info p now)" using b(3) pid due by simp
    have left: "due_now db' info p now = filter (\<lambda>c. c \<notin> set ?xs) (due_now db info p now)"
      by (rule due_after [OF acc(1) pid keys]) (use sub due_subset in blast)
    have same: "db_chunks db' = db_chunks db" "db_currentParents db' = db_currentParents db" using acc(1) by (simp_all add: stores_def)
    have keys': "chunk_keys db'" using keys same by (simp add: chunk_keys_def)
    note rest = candidates_due(1) [OF r(3) [unfolded q(1)] id _ keys', unfolded due]
    have more: "br_HasMore result \<longleftrightarrow> due_now db' info p now \<noteq> []"
      using rest r(4) by (auto simp: take_eq_Nil sort_nil)
    have "rejectMismatchedRetrievalChunks db' = rejectMismatchedRetrievalChunks db"
      using same by (simp add: rejectMismatchedRetrievalChunks_def parent_current_def fun_eq_iff)
    then show ?thesis using left b(2) sub acc(2-4) r(5-8) more keys' False by (intro that [of ?xs]) simp_all
  qed
qed

lemma rounds_settle:
  assumes id: "profile_ID (provider_profile info) = Inr p" and idle: "eo_UntilIdle opts" and now: "eo_Now opts = now"
  shows "embed_rounds unit_norm info opts due limit progress db rounds = Some ((final, None), db') \<Longrightarrow> \<not> ep_Interrupted final \<Longrightarrow> chunk_keys db \<Longrightarrow>
    due_now db' info p now = [] \<and> ep_Scanned final = ep_Scanned progress + int (length (due_now db info p now)) \<and>
    ep_Generated final + ep_Blocked final = ep_Generated progress + ep_Blocked progress + int (length (due_now db info p now)) \<and>
    ep_Failed final = ep_Failed progress \<and> ep_Remaining final = 0 \<and>
    rejectMismatchedRetrievalChunks db' = rejectMismatchedRetrievalChunks db"
proof (induction rounds arbitrary: limit progress db)
  case (Cons r rounds)
  obtain result err db1 where run: "RunEmbedBatch unit_norm info (round_options opts limit) (rd_Calls r) db = ((result, err), db1)"
    by (metis prod.exhaust)
  have calm: "\<not> (0 < eo_MaxDuration opts \<and> rd_Deadline r)" "err = None" "\<not> rd_Ctx r"
    using Cons.prems(1,2) run by (auto simp: finishEmbedInterrupted_def Let_def split: if_splits)
  have opts: "bo_Now (round_options opts limit) = t_utc now" by (simp add: round_options_def now)
  obtain xs where xs: "due_now db1 info p now = filter (\<lambda>c. c \<notin> set xs) (due_now db info p now)" "distinct (map sc_ChunkID xs)"
      "set xs \<subseteq> set (due_now db info p now)" "ep_Scanned (br_Progress result) = int (length xs)"
      "ep_Generated (br_Progress result) + ep_Blocked (br_Progress result) = int (length xs)" "ep_Failed (br_Progress result) = 0"
      "br_HasMore result \<longleftrightarrow> due_now db1 info p now \<noteq> []" "chunk_keys db1" "rejectMismatchedRetrievalChunks db1 = rejectMismatchedRetrievalChunks db"
    using batch_settles [OF Cons.prems(3) id opts run [unfolded calm(2)]] by metis
  have count: "length (due_now db1 info p now) + length xs = length (due_now db info p now)"
    unfolding xs(1) by (rule due_shrinks [OF Cons.prems(3) xs(2,3)])
  let ?merged = "mergeEmbedProgress progress (br_Progress result)"
  let ?step = "?merged\<lparr>ep_Remaining := max (due - ep_Scanned ?merged) 0\<rparr>"
  let ?next = "if 0 < ep_Scanned (br_Progress result) then ?step\<lparr>ep_SnapshotCount := ep_SnapshotCount ?step + 1\<rparr> else ?step"
  have fields: "ep_Scanned ?next = ep_Scanned progress + int (length xs)"
      "ep_Generated ?next + ep_Blocked ?next = ep_Generated progress + ep_Blocked progress + int (length xs)" "ep_Failed ?next = ep_Failed progress"
    using xs(4-6) by (simp_all add: mergeEmbedProgress_def)
  have go: "(if \<not> br_HasMore result then Some ((?next\<lparr>ep_Remaining := 0\<rparr>, None), db1)
      else embed_rounds unit_norm info opts due (eo_Limit opts) ?next db1 rounds) = Some ((final, None), db')"
    using Cons.prems(1) run calm idle by (simp add: Let_def split: if_splits)
  show ?case
  proof (cases "br_HasMore result")
    case True
    then show ?thesis using Cons.IH [of "eo_Limit opts" ?next db1] go Cons.prems(2) xs(8,9) fields count by simp
  next
    case False
    then have "final = ?next\<lparr>ep_Remaining := 0\<rparr>" "db' = db1" using go by auto
    moreover have "due_now db1 info p now = []" using False xs(7) by simp
    ultimately show ?thesis using fields count xs(9) by simp
  qed
qed simp


lemma batch_returns:
  assumes keys: "chunk_keys db" and turns: "6 * nat (bo_BatchSize opts) \<le> length (bc_Turns calls) + 3"
    and run: "RunEmbedBatch unit_norm info opts calls db = ((result, err), db')"
  shows "err \<noteq> Some StillRunning"
proof
  assume still: "err = Some StillRunning"
  then obtain ex candidates where prep: "prepareEmbedBatch info opts calls db = Inr ex"
      and list: "listEmbedCandidates (bc_List calls) db (ex_Profile ex) (bo_BatchSize opts) (ex_Now ex) = Inr candidates" and some: "candidates \<noteq> []"
    using run by (auto simp: RunEmbedBatch_def prepareEmbedBatch_def listEmbedCandidates_def currentEmbedRevision_def Let_def split: if_splits sum.splits)
  obtain revision e s where go: "processEmbedBatch unit_norm ex (map fst candidates) (batch_state db calls candidates) = ((revision, e), s)"
    by (metis prod.exhaust)
  have "e = Some StillRunning"
    using run still prep list some go by (auto simp: RunEmbedBatch_def listEmbedCandidates_def Let_def split: if_splits sum.splits)
  then have k: "int (length (bc_Turns calls)) < 6 * int (length candidates) - 3"
    using started_batch(1) [OF prep keys list some go] by (simp add: sound_batch_def batch_state_def)
  have "length candidates \<le> nat (bo_BatchSize opts)"
    using list by (auto simp: listEmbedCandidates_def split: if_splits sum.splits)
  then show False using k turns by simp
qed

lemma rounds_return:
  assumes id: "profile_ID (provider_profile info) = Inr p"
  shows "chunk_keys db \<Longrightarrow> length (due_now db info p (eo_Now opts)) < length rounds \<Longrightarrow>
    \<forall>r \<in> set rounds. 6 * nat (eo_BatchSize opts) \<le> length (bc_Turns (rd_Calls r)) + 3 \<Longrightarrow>
    embed_rounds unit_norm info opts due limit progress db rounds \<noteq> None"
proof (induction rounds arbitrary: limit progress db)
  case (Cons r rounds)
  obtain result err db1 where run: "RunEmbedBatch unit_norm info (round_options opts limit) (rd_Calls r) db = ((result, err), db1)"
    by (metis prod.exhaust)
  have "nat (bo_BatchSize (round_options opts limit)) \<le> nat (eo_BatchSize opts)" by (simp add: round_options_def)
  then have "6 * nat (bo_BatchSize (round_options opts limit)) \<le> length (bc_Turns (rd_Calls r)) + 3" using Cons.prems(3) by fastforce
  note returns = batch_returns [OF Cons.prems(1) this run]
  show ?case
  proof (cases "err = None \<and> br_HasMore result")
    case True
    have opts: "bo_Now (round_options opts limit) = t_utc (eo_Now opts)" by (simp add: round_options_def)
    obtain xs where xs: "due_now db1 info p (eo_Now opts) = filter (\<lambda>c. c \<notin> set xs) (due_now db info p (eo_Now opts))"
        "distinct (map sc_ChunkID xs)" "set xs \<subseteq> set (due_now db info p (eo_Now opts))" "xs \<noteq> []" "chunk_keys db1"
      using batch_settles [OF Cons.prems(1) id opts] run True by metis
    have "length (due_now db1 info p (eo_Now opts)) + length xs = length (due_now db info p (eo_Now opts))"
      unfolding xs(1) by (rule due_shrinks [OF Cons.prems(1) xs(2,3)])
    moreover have "0 < length xs" using xs(4) by simp
    ultimately have "length (due_now db1 info p (eo_Now opts)) < length rounds" using Cons.prems(2)
      by (simp del: length_greater_0_conv)
    then have "embed_rounds unit_norm info opts due l q db1 rounds \<noteq> None" for l q
      using Cons.IH [OF xs(5)] Cons.prems(3) by simp
    then show ?thesis using run returns by (simp add: Let_def)
  next
    case False
    then show ?thesis using run returns by (auto simp: Let_def)
  qed
qed simp

text \<open>C17. An embedding command that runs until idle settles: when it returns without an error and was not interrupted, no
  chunk is due any more, it has gone through exactly the chunks that were due when it began, each once, embedding it or
  finding it blocked, and it says so. And it does return, whatever its provider, context and callbacks do: one round more than there
  are due chunks is enough, with \<open>6 n - 3\<close> turns for batches of \<open>n\<close> chunks.\<close>

theorem run_embed_settles:
  assumes keys: "chunk_keys db"
  shows "(eo_UntilIdle opts \<and> RunEmbed unit_norm info opts start db rounds = Some ((progress, None), db') \<and> \<not> ep_Interrupted progress \<longrightarrow>
      CountChunksNeedingEmbeddingForProfileAt db' (provider_profile info) (t_utc (eo_Now opts)) = Inr 0 \<and>
      CountChunksNeedingEmbeddingForProfileAt db (provider_profile info) (t_utc (eo_Now opts)) = Inr (ep_Scanned progress) \<and>
      ep_Generated progress + ep_Blocked progress = ep_Scanned progress \<and> ep_Failed progress = 0 \<and> ep_Remaining progress = 0) \<and>
    (CountChunksNeedingEmbeddingForProfileAt db (provider_profile info) (t_utc (eo_Now opts)) = Inr due \<and> due < int (length rounds) \<and>
      (\<forall>r \<in> set rounds. 6 * nat (eo_BatchSize opts) \<le> length (bc_Turns (rd_Calls r)) + 3) \<longrightarrow>
      RunEmbed unit_norm info opts start db rounds \<noteq> None)" (is "(?ends \<longrightarrow> ?settled) \<and> (?enough \<longrightarrow> ?returns)")
proof -
  have count: "CountChunksNeedingEmbeddingForProfileAt db (provider_profile info) (t_utc (eo_Now opts)) =
      (if rejectMismatchedRetrievalChunks db (provider_profile info) then Inl ProfileMismatch else Inr (int (length (due_now db info p (eo_Now opts)))))"
    if "profile_ID (provider_profile info) = Inr p" for db p using that by (simp add: CountChunksNeedingEmbeddingForProfileAt_def due_now_def)
  have "?settled" if ends: ?ends
  proof -
    note idle = conjunct1 [OF ends] and run = conjunct1 [OF conjunct2 [OF ends]] conjunct2 [OF conjunct2 [OF ends]]
    obtain p where id: "profile_ID (provider_profile info) = Inr p"
      using run by (auto simp: RunEmbed_def split: if_splits sum.splits prod.splits)
    obtain due where go: "embed_rounds unit_norm info opts due (eo_Limit opts) (no_progress\<lparr>ep_Remaining := due\<rparr>) db rounds = Some ((progress, None), db')"
        and fine: "\<not> rejectMismatchedRetrievalChunks db (provider_profile info)"
      using run id count [OF id, of db] by (auto simp: RunEmbed_def finishEmbedInterrupted_def split: if_splits sum.splits prod.splits)
    from rounds_settle [OF id idle refl go run(2) keys] fine show ?settled by (simp add: count [OF id] no_progress_def)
  qed
  moreover have ?returns if enough: ?enough
  proof (cases "profile_ID (provider_profile info)")
    case (Inr p)
    then have "length (due_now db info p (eo_Now opts)) < length rounds" using enough count [OF Inr, of db] by (auto split: if_splits)
    then show ?thesis using rounds_return [OF Inr keys _ conjunct2 [OF conjunct2 [OF enough]]] enough Inr by (auto simp: RunEmbed_def split: prod.splits)
  qed (simp add: RunEmbed_def split: prod.split)
  ultimately show ?thesis by blast
qed


section \<open>A chunk that needs two calls\<close>

definition run_info :: provider_info where
  "run_info = \<lparr>info_Provider = ''ollama'', info_Model = ''m'', info_Dimensions = 1\<rparr>"

definition run_id :: string where
  "run_id = (case profile_ID (provider_profile run_info) of Inr i \<Rightarrow> i | Inl _ \<Rightarrow> [])"

definition run_chunk :: stored_chunk where
  "run_chunk = \<lparr>sc_ChunkID = ''k'', sc_ParentKind = ''item'', sc_ParentSourceKey = ''s'', sc_ProjectionVersion = ProjectionVersion,
     sc_ChunkerVersion = Version, sc_ChunkTextHash = ''h'', sc_Text = ''t''\<rparr>"

definition run_start :: index_db where
  "run_start = empty_index\<lparr>db_chunks := [run_chunk], db_currentParents := [(''item'', ''s'')]\<rparr>"

definition run_turns :: "embed_turn list" where
  "run_turns = [\<lparr>et_Outcome = ProviderFails (Some FailureRetryable), et_Ctx = False, et_CtxCause = False, et_Sleep = False, et_Put = False, et_Entry = False\<rparr>,
     \<lparr>et_Outcome = ProviderAnswers \<lparr>rs_Vectors = [[0x3F800000]], rs_Provider = ''ollama'', rs_Model = ''m'', rs_Dimensions = 1\<rparr>,
       et_Ctx = False, et_CtxCause = False, et_Sleep = False, et_Put = False, et_Entry = False\<rparr>] @
     replicate 2 \<lparr>et_Outcome = ProviderFails None, et_Ctx = False, et_CtxCause = False, et_Sleep = False, et_Put = False, et_Entry = False\<rparr>"

definition run_calls :: batch_calls where
  "run_calls = \<lparr>bc_Ctx = False, bc_Epoch = False, bc_List = False, bc_Profile = False, bc_Before = False, bc_Entry = False,
     bc_Turns = run_turns, bc_After = False\<rparr>"

definition run_batch :: embed_batch_options where
  "run_batch = \<lparr>bo_BatchSize = 1, bo_RetryCooldown = defaultRetryCooldown, bo_RetryInitialBackoff = 0, bo_RetryMaxBackoff = 0, bo_Now = zero_time\<rparr>"

definition run_execution :: embed_execution where
  "run_execution = \<lparr>ex_Info = run_info, ex_Profile = provider_profile run_info, ex_ProfileID = run_id, ex_PurgeEpoch = 0, ex_Now = zero_time,
     ex_Cooldown = defaultRetryCooldown, ex_InitialBackoff = DefaultRetryInitialBackoff, ex_MaxBackoff = DefaultRetryMaxBackoff\<rparr>"

definition run_row :: embedding_row where
  "run_row = ready_embedding run_execution (\<lambda>_. 2) run_chunk [0x3F800000]"

definition run_end :: index_db where
  "run_end = run_start\<lparr>db_embeddings := [((''k'', run_id), stored_row 1 run_row)], db_profiles := [(run_id,
     \<lparr>sp_Profile = provider_profile run_info, sp_LatestRevision = 1, sp_PurgeEpoch = 0, sp_ActiveGenerationID = [], sp_ActiveSnapshotRevision = 0,
      sp_ActiveIndexedCount = 0, sp_L0ReadyCount = 1, sp_ActiveTombstoneCount = 0\<rparr>)]\<rparr>"

definition run_progress :: embed_progress where
  "run_progress = \<lparr>ep_Interrupted = False, ep_Scanned = 1, ep_Generated = 1, ep_Blocked = 0, ep_Failed = 0, ep_Remaining = 0, ep_SnapshotCount = 0\<rparr>"

lemma run_fields: "pf_Provider (provider_profile run_info) = ''ollama''" "pf_Model (provider_profile run_info) = ''m''"
  "pf_Dimensions (provider_profile run_info) = 1" "pf_Representation (provider_profile run_info) = RepresentationDenseF32"
  "pf_Normalization (provider_profile run_info) = NormalizationL2" "pf_ProjectionVersion (provider_profile run_info) = ProjectionVersion"
  "pf_ChunkerVersion (provider_profile run_info) = Version"
  by (simp_all add: provider_profile_def run_info_def)

lemma run_texts: "TrimSpace ProjectionVersion = ProjectionVersion" "TrimSpace Version = Version" "TrimSpace NormalizationL2 = NormalizationL2"
  "TrimSpace RepresentationDenseF32 = RepresentationDenseF32" "TrimSpace ''t'' = ''t''"
  unfolding ProjectionVersion_def Version_def NormalizationL2_def RepresentationDenseF32_def
  by (rule TrimSpace_visible; simp add: visible_def)+

lemma run_versions: "ProjectionVersion \<noteq> []" "Version \<noteq> []"
  by (simp_all add: ProjectionVersion_def Version_def)

lemma run_valid: "profile_validate (provider_profile run_info) = None" "profile_normalized (provider_profile run_info) = provider_profile run_info"
proof -
  show "profile_normalized (provider_profile run_info) = provider_profile run_info"
    by (simp add: profile_normalized_def run_fields shown_texts run_texts)
  then show "profile_validate (provider_profile run_info) = None" by (simp add: profile_validate_def run_fields run_versions)
qed

lemma run_ID: "profile_ID (provider_profile run_info) = Inr run_id" "TrimSpace run_id \<noteq> []"
proof -
  show "profile_ID (provider_profile run_info) = Inr run_id" by (simp add: run_id_def profile_ID_def run_valid Let_def)
  obtain h where h: "run_id = ''embedding-profile-v1:'' @ sha256_hex 32 h"
    by (simp add: run_id_def profile_ID_def run_valid Let_def profileIDVersion_def)
  have "TrimSpace run_id = run_id" unfolding h using hex_ends [of h] by (intro TrimSpace_visible) (simp_all add: visible_def)
  then show "TrimSpace run_id \<noteq> []" by (simp add: h)
qed

lemma run_row_fields: "em_ChunkID run_row = ''k''" "em_ProfileID run_row = run_id" "em_Provider run_row = ''ollama''" "em_Model run_row = ''m''"
  "em_Dimensions run_row = 1" "em_Representation run_row = RepresentationDenseF32" "em_Normalization run_row = NormalizationL2"
  "em_VectorBytes run_row = EncodeDenseF32 [0x3F800000]" "em_ChunkTextHash run_row = ''h''" "em_Status run_row = RetrievalEmbeddingReady"
  by (simp_all add: run_row_def ready_embedding_def embeddingRow_def run_execution_def run_info_def run_chunk_def)

lemma run_finite: "finite_f32 0x3F800000" by (simp add: finite_f32_def)

lemma run_vector: "ValidateEncodedVector (\<lambda>_. True) (EncodeDenseF32 [0x3F800000]) 1 RepresentationDenseF32 NormalizationL2"
proof -
  have "DecodeDenseF32 (EncodeDenseF32 [0x3F800000]) 1 = Inr [0x3F800000]" unfolding vectors_survive_storage by simp
  then show ?thesis by (simp add: ValidateEncodedVector_def ValidateDenseF32_def run_finite)
qed

lemma run_put: "PutRetrievalEmbeddingBatch (\<lambda>_. True) (provider_profile run_info) [run_row] 0 run_start = Inr (1, run_end)"
proof -
  have "validateRetrievalEmbeddingBatch (\<lambda>_. True) (provider_profile run_info) run_id [run_row] = Inr [run_row]"
    using run_ID(2) run_vector
    by (simp add: validateRetrievalEmbeddingBatch_def run_valid maxRetrievalEmbeddingBatchSize_def run_row_fields run_fields shown_texts
        validRetrievalEmbeddingStatus_def embedding_statuses)
  then show ?thesis using run_ID(1)
    by (simp add: PutRetrievalEmbeddingBatch_def ensureRetrievalEmbeddingProfileTx_def Let_def find_chunk_def membership_changed_def
        row_deltas_def put_row_def run_row_fields run_fields run_start_def run_end_def run_chunk_def empty_index_def gm_put_def gm_get_def)
qed


lemma run_keys: "chunk_keys run_start"
  by (simp add: chunk_keys_def run_start_def run_chunk_def empty_index_def)

lemma run_prepared: "prepareEmbedBatch run_info run_batch run_calls run_start = Inr run_execution"
  using run_ID(1) by (simp add: prepareEmbedBatch_def run_batch_def run_calls_def run_execution_def MaxEmbeddingBatch_def DefaultRetryMaxBackoff_def
      or_default_def defaultRetryCooldown_def run_start_def empty_index_def time_simps)

lemma run_due: "due_chunks run_start run_id (provider_profile run_info) now = [run_chunk]" "due_chunks run_end run_id (provider_profile run_info) now = []"
  by (simp_all add: due_chunks_def parent_current_def embedding_due_def run_start_def run_end_def run_chunk_def empty_index_def gm_get_def
      run_fields run_row_fields stored_row_def embedding_statuses)

lemma run_matched: "\<not> rejectMismatchedRetrievalChunks run_start (provider_profile run_info)" "\<not> rejectMismatchedRetrievalChunks run_end (provider_profile run_info)"
  by (simp_all add: rejectMismatchedRetrievalChunks_def run_start_def run_end_def run_chunk_def empty_index_def run_fields)

lemma run_listed: "listEmbedCandidates False run_start (provider_profile run_info) 1 zero_time = Inr [(run_chunk, 0)]"
  "listEmbedCandidates False run_end (provider_profile run_info) 1 zero_time = Inr []"
  using run_ID(1) by (simp_all add: listEmbedCandidates_def ListChunksNeedingEmbeddingForProfileAt_def run_due run_matched Let_def)
    (simp add: run_start_def run_chunk_def empty_index_def gm_get_def)

lemma run_processed:
  "\<exists>s. processEmbedBatch (\<lambda>_. True) run_execution [run_chunk] (batch_state run_start run_calls [(run_chunk, 0)]) = ((1, None), s) \<and>
     es_db s = run_end \<and> es_progress s = run_progress"
proof -
  let ?s0 = "batch_state run_start run_calls [(run_chunk, 0)]"
  let ?t1 = "hd run_turns" and ?t2 = "hd (tl run_turns)"
  let ?s1 = "after_failure run_execution [run_chunk] ?t1 ?s0"
  let ?s2 = "(next_turn [run_chunk] ?t2 ?s1)\<lparr>es_failures := 0\<rparr>"
  have turns: "es_turns ?s0 = ?t1 # tl run_turns" "es_turns ?s1 = ?t2 # tl (tl run_turns)"
    by (simp_all add: batch_state_def run_calls_def run_turns_def after_failure_def Let_def)
  have "embed_loop (\<lambda>_. True) run_execution [run_chunk] ?s0 = embed_loop (\<lambda>_. True) run_execution [run_chunk] ?s1"
    using loop_again [OF turns(1)] by (simp add: run_turns_def independent_failure_def batch_state_def MaxConsecutiveProviderFailures_def)
  also have "\<dots> = persistReadyEmbedBatch (\<lambda>_. True) run_execution False [run_chunk]
      \<lparr>rs_Vectors = [[0x3F800000]], rs_Provider = ''ollama'', rs_Model = ''m'', rs_Dimensions = 1\<rparr> ?s2"
    using loop_answer [OF turns(2)] by (simp add: run_turns_def)
  finally have loop: "embed_loop (\<lambda>_. True) run_execution [run_chunk] ?s0 = persistReadyEmbedBatch (\<lambda>_. True) run_execution False [run_chunk]
      \<lparr>rs_Vectors = [[0x3F800000]], rs_Provider = ''ollama'', rs_Model = ''m'', rs_Dimensions = 1\<rparr> ?s2" .
  have row: "map2 (ready_embedding run_execution (es_attempts ?s2)) [run_chunk] [[0x3F800000]] = [run_row]"
    by (simp add: run_row_def ready_embedding_def embeddingRow_def next_turn_def after_failure_def batch_state_def Let_def)
  have db: "es_db ?s2 = run_start" "es_progress ?s2 = no_progress" by (simp_all add: after_failure_def batch_state_def Let_def)
  have ok: "ValidateResponse (\<lambda>_. True) run_info [''t''] \<lparr>rs_Vectors = [[0x3F800000]], rs_Provider = ''ollama'', rs_Model = ''m'', rs_Dimensions = 1\<rparr>"
    by (simp add: ValidateResponse_def ValidateRequest_def info_valid_def run_info_def shown_texts run_texts ValidateDenseF32_def run_finite)
  have vector: "ValidateDenseF32 (\<lambda>_. True) [0x3F800000] 1 NormalizationL2" by (simp add: ValidateDenseF32_def run_finite)
  have texts: "map sc_Text [run_chunk] = [''t'']" "ex_Info run_execution = run_info" "info_Dimensions run_info = 1"
    "ex_Profile run_execution = provider_profile run_info" "ex_PurgeEpoch run_execution = 0"
    by (simp_all add: run_chunk_def run_execution_def run_info_def)
  have put: "put_rows (\<lambda>_. True) run_execution False [run_row] ?s2 = ((1, None), ?s2\<lparr>es_db := run_end\<rparr>)"
    unfolding put_rows_def texts db run_put by simp
  have "persistReadyEmbedBatch (\<lambda>_. True) run_execution False [run_chunk]
      \<lparr>rs_Vectors = [[0x3F800000]], rs_Provider = ''ollama'', rs_Model = ''m'', rs_Dimensions = 1\<rparr> ?s2 =
      ((1, None), ?s2\<lparr>es_db := run_end, es_progress := count_ready 1 no_progress\<rparr>)"
    unfolding persistReadyEmbedBatch_def texts embed_response.select_convs row put using ok vector db(2) by simp
  moreover have "\<not> es_entry ?s0" by (simp add: batch_state_def run_calls_def)
  ultimately show ?thesis using loop
    by (simp add: processEmbedBatch_def count_ready_def no_progress_def run_progress_def)
qed


lemma run_batch_result:
  "RunEmbedBatch (\<lambda>_. True) run_info run_batch run_calls run_start =
     ((\<lparr>br_Progress = run_progress, br_Revision = 1, br_HasMore = False\<rparr>, None), run_end)"
proof -
  obtain s where s: "processEmbedBatch (\<lambda>_. True) run_execution [run_chunk] (batch_state run_start run_calls [(run_chunk, 0)]) = ((1, None), s)"
      "es_db s = run_end" "es_progress s = run_progress" using run_processed by blast
  have ex: "ex_Profile run_execution = provider_profile run_info" "ex_Now run_execution = zero_time" by (simp_all add: run_execution_def)
  have calls: "bc_List run_calls = False" "bc_Before run_calls = False" "bc_After run_calls = False" "bo_BatchSize run_batch = 1"
    by (simp_all add: run_calls_def run_batch_def)
  show ?thesis unfolding RunEmbedBatch_def run_prepared ex calls sum.case run_listed Let_def using s by (simp add: run_listed)
qed

theorem embed_batch_accounts_for_every_chunk_witness:
  "\<exists>good bad rest mid. [run_chunk] = good @ bad @ rest \<and> bad = [] \<and> rest = [] \<and>
     stores run_execution good {RetrievalEmbeddingReady, RetrievalEmbeddingBlocked} run_start mid \<and>
     stores run_execution bad {RetrievalEmbeddingError} mid run_end \<and> ep_Scanned run_progress = int (length good) + int (length bad)"
proof -
  have "listEmbedCandidates (bc_List run_calls) run_start (ex_Profile run_execution) (bo_BatchSize run_batch) (ex_Now run_execution) = Inr [(run_chunk, 0)]"
    using run_listed(1) by (simp add: run_calls_def run_execution_def run_batch_def)
  from embed_batch_accounts_for_every_chunk [OF run_keys run_prepared this run_batch_result] obtain good bad rest mid
    where "[run_chunk] = good @ bad @ rest" "bad = []" "rest = []"
      "stores run_execution good {RetrievalEmbeddingReady, RetrievalEmbeddingBlocked} run_start mid"
      "stores run_execution bad {RetrievalEmbeddingError} mid run_end" "ep_Scanned run_progress = int (length good) + int (length bad)"
    by auto
  then show ?thesis by - (rule exI [of _ good], rule exI [of _ bad], rule exI [of _ rest], rule exI [of _ mid], simp)
qed

definition run_options :: embed_options where
  "run_options = \<lparr>eo_Limit = 1, eo_BatchSize = 1, eo_RetryCooldown = 0, eo_UntilIdle = True, eo_MaxDuration = 0, eo_Now = zero_time\<rparr>"

definition run_round :: embed_round where
  "run_round = \<lparr>rd_Ctx = False, rd_Deadline = False, rd_Calls = run_calls, rd_Callback = False, rd_Interrupted = False\<rparr>"

lemma run_result:
  "RunEmbed (\<lambda>_. True) run_info run_options (False, False, False) run_start [run_round, run_round] =
     Some ((run_progress\<lparr>ep_SnapshotCount := 1\<rparr>, None), run_end)"
proof -
  have opts: "round_options run_options 1 = run_batch"
    by (simp add: round_options_def run_options_def run_batch_def MaxEmbeddingBatch_def time_simps)
  have "eo_Limit run_options = 1" by (simp add: run_options_def)
  then show ?thesis using run_ID(1) run_batch_result opts
    by (simp add: RunEmbed_def CountChunksNeedingEmbeddingForProfileAt_def run_matched run_due Let_def run_round_def mergeEmbedProgress_def
        no_progress_def run_progress_def) (simp add: run_options_def)
qed

theorem run_embed_settles_witness:
  "RunEmbed (\<lambda>_. True) run_info run_options (False, False, False) run_start [run_round, run_round] \<noteq> None \<and>
   CountChunksNeedingEmbeddingForProfileAt run_end (provider_profile run_info) zero_time = Inr 0"
proof -
  have utc: "t_utc zero_time = zero_time" by (simp add: time_simps)
  have "CountChunksNeedingEmbeddingForProfileAt run_start (provider_profile run_info) (t_utc (eo_Now run_options)) = Inr 1"
    using run_ID(1) by (simp add: CountChunksNeedingEmbeddingForProfileAt_def run_matched run_due)
  moreover have "6 * nat (eo_BatchSize run_options) \<le> length (bc_Turns (rd_Calls run_round)) + 3"
    by (simp add: run_options_def run_round_def run_calls_def run_turns_def)
  moreover have "eo_UntilIdle run_options" "\<not> ep_Interrupted (run_progress\<lparr>ep_SnapshotCount := 1\<rparr>)" "eo_Now run_options = zero_time"
    by (simp_all add: run_options_def run_progress_def)
  ultimately show ?thesis
    using run_embed_settles [OF run_keys, of run_options "\<lambda>_. True" run_info "(False, False, False)" "[run_round, run_round]"
      "run_progress\<lparr>ep_SnapshotCount := 1\<rparr>" run_end 1] run_result by (simp add: utc)
qed

end
