(* ===== verification/RefreshPipeline.thy ===== *)
theory RefreshPipeline
  imports RefreshRunner SemanticReadiness Embedding
begin

text \<open>
  The stage executor of semantic refreshes (\<open>internal/semanticrefresh/pipeline.go\<close>, with
  \<open>pipeline_progress.go\<close> and \<open>locked_pipeline.go\<close>): one bounded unit of one stage. What the
  store, the builders of \<open>internal/semanticbuild\<close>, the native backend, the locks and the progress callback
  answer during one \<open>Execute\<close> is the record \<open>pipeline_calls\<close>; the executor itself is a function
  of the run, of these answers and of its tracker. A builder that reports progress or calls back gives the list of
  its calls, and its result may depend on what they returned.
\<close>

section \<open>Stage work\<close>

record stage_work =
  sw_Current :: int
  sw_Total :: int
  sw_TotalKnown :: bool
  sw_Pass :: int

definition no_work :: stage_work where
  "no_work = \<lparr>sw_Current = 0, sw_Total = 0, sw_TotalKnown = False, sw_Pass = 0\<rparr>"

definition stage_work_validate :: "stage_work \<Rightarrow> go_error option" where
  "stage_work_validate w =
     (if sw_Current w < 0 \<or> sw_Total w < 0 \<or> sw_Pass w < 0
      then Some (OtherErr ''semantic stage work values must not be negative'')
      else if sw_TotalKnown w \<and> sw_Total w < sw_Current w
      then Some (OtherErr ''semantic stage work total must not be below current'') else None)"

record tracker =
  tr_runID :: string
  tr_stage :: string
  tr_initialized :: bool
  tr_committed :: stage_work

definition new_tracker :: tracker where
  "new_tracker = \<lparr>tr_runID = [], tr_stage = [], tr_initialized = False, tr_committed = no_work\<rparr>"

definition tracker_begin :: "loaded_run \<Rightarrow> int \<Rightarrow> bool \<Rightarrow> tracker \<Rightarrow> tracker \<times> (go_error + stage_work)" where
  "tracker_begin run remaining totalKnown t =
     (if remaining < 0 then (t, Inl (OtherErr ''semantic stage remaining work must not be negative''))
      else
        let t = (if tr_runID t \<noteq> RunID run \<or> tr_stage t \<noteq> Stage run
          then \<lparr>tr_runID = RunID run, tr_stage = Stage run, tr_initialized = False, tr_committed = no_work\<rparr> else t)
        in if \<not> tr_initialized t then
             let work = no_work\<lparr>sw_Total := remaining, sw_TotalKnown := totalKnown\<rparr>
             in (t\<lparr>tr_initialized := True, tr_committed := work\<rparr>, Inr work)
           else if totalKnown then
             let work = tr_committed t
             in if int64_max - sw_Current work < remaining
                then (t, Inl (OtherErr ''semantic stage work total overflow''))
                else
                  let candidate = sw_Current work + remaining;
                      work = work\<lparr>sw_Total := (if \<not> sw_TotalKnown work \<or> sw_Total work < candidate then candidate else sw_Total work),
                        sw_TotalKnown := True\<rparr>
                  in (t\<lparr>tr_committed := work\<rparr>, Inr work)
           else (t, Inr (tr_committed t)))"

definition tracker_commit :: "loaded_run \<Rightarrow> stage_work \<Rightarrow> tracker \<Rightarrow> tracker \<times> go_error option" where
  "tracker_commit run work t = (case stage_work_validate work of
     Some e \<Rightarrow> (t, Some e)
   | None \<Rightarrow>
       if tr_runID t \<noteq> RunID run \<or> tr_stage t \<noteq> Stage run \<or> \<not> tr_initialized t
       then (t, Some (OtherErr ''semantic stage progress tracker changed before commit''))
       else (t\<lparr>tr_committed := work\<rparr>, None))"

definition advanceStageWork :: "stage_work \<Rightarrow> int \<Rightarrow> int \<Rightarrow> bool \<Rightarrow> go_error + stage_work" where
  "advanceStageWork base current whole wholeKnown =
     (if current < 0 \<or> whole < 0 then Inl (OtherErr ''semantic operation work must not be negative'')
      else if int64_max - sw_Current base < current then Inl (OtherErr ''semantic stage current work overflow'')
      else if wholeKnown \<and> int64_max - sw_Current base < whole then Inl (OtherErr ''semantic stage total work overflow'')
      else
        let work = base\<lparr>sw_Current := sw_Current base + current\<rparr>;
            candidate = sw_Current base + whole;
            work = (if wholeKnown then work\<lparr>sw_Total := (if \<not> sw_TotalKnown work \<or> sw_Total work < candidate then candidate else sw_Total work),
              sw_TotalKnown := True\<rparr> else work);
            work = (if sw_TotalKnown work \<and> sw_Total work < sw_Current work then work\<lparr>sw_Total := sw_Current work\<rparr> else work)
        in case stage_work_validate work of Some e \<Rightarrow> Inl e | None \<Rightarrow> Inr work)"

section \<open>What is answered during one execution\<close>

text \<open>Of the results of the builders and of the store, the records hold the fields the executor reads.\<close>

definition RetrievalSegmentTarget :: int where "RetrievalSegmentTarget = 5000"
definition RetrievalSegmentHardLimit :: int where "RetrievalSegmentHardLimit = 10000"
definition MaxEmbeddingBatchSize :: int where "MaxEmbeddingBatchSize = 5000"
definition USearchVersion :: string where "USearchVersion = ''2.26.0''"
definition DefaultProjectionBatch :: int where "DefaultProjectionBatch = 100"
definition DefaultEmbeddingBatch :: int where "DefaultEmbeddingBatch = 16"
definition maxProjectionBatch :: int where "maxProjectionBatch = 5000"
definition maxVerifyBatch :: int where "maxVerifyBatch = 5000"

record pipeline_config =
  cfg_Profile :: profile
  cfg_ProfileID :: string
  cfg_CacheDir :: string
  cfg_ExactMaxChunks :: int
  cfg_ProjectionBatch :: int
  cfg_EmbeddingBatch :: int
  cfg_SegmentTarget :: int
  cfg_SegmentHardLimit :: int

text \<open>The options: of the provider only its profile matters here, of the native backend that it is there.\<close>

record pipeline_options =
  opt_Profile :: profile
  opt_Provider :: "provider_info option"
  opt_Native :: bool
  opt_CacheDir :: string
  opt_ExactMaxChunks :: int
  opt_ProjectionBatch :: int
  opt_EmbeddingBatch :: int

definition default_batch :: "int \<Rightarrow> int \<Rightarrow> int" where
  "default_batch n given = (if given = 0 then n else given)"

definition NewPipeline :: "bool \<Rightarrow> pipeline_options \<Rightarrow> go_error + pipeline_config" where
  "NewPipeline hasStore opts =
     (if \<not> hasStore then Inl (OtherErr ''semantic refresh pipeline store is required'')
      else case opt_Provider opts of None \<Rightarrow> Inl (OtherErr ''semantic refresh embedding provider is required'')
      | Some info \<Rightarrow>
      if \<not> opt_Native opts then Inl (OtherErr ''semantic refresh native lifecycle is required'')
      else if TrimSpace (opt_CacheDir opts) = [] then Inl (OtherErr ''semantic refresh cache directory is required'')
      else case profile_validate (opt_Profile opts) of Some e \<Rightarrow> Inl (OtherErr ''semantic refresh profile is invalid'')
      | None \<Rightarrow>
      if provider_profile info \<noteq> opt_Profile opts
      then Inl (OtherErr ''semantic refresh provider does not match requested profile'')
      else case profile_ID (opt_Profile opts) of Inl e \<Rightarrow> Inl (OtherErr ''semantic refresh profile ID'')
      | Inr profileID \<Rightarrow>
      let projection = default_batch DefaultProjectionBatch (opt_ProjectionBatch opts);
          embedding = default_batch DefaultEmbeddingBatch (opt_EmbeddingBatch opts) in
      if projection < 1 \<or> maxProjectionBatch < projection
      then Inl (OtherErr ''semantic refresh projection batch is out of range'')
      else if embedding < 1 \<or> MaxEmbeddingBatchSize < embedding
      then Inl (OtherErr ''semantic refresh embedding batch is out of range'')
      else Inr \<lparr>cfg_Profile = opt_Profile opts, cfg_ProfileID = profileID, cfg_CacheDir = opt_CacheDir opts,
        cfg_ExactMaxChunks = EffectiveExactMaxChunks (opt_ExactMaxChunks opts), cfg_ProjectionBatch = projection,
        cfg_EmbeddingBatch = embedding, cfg_SegmentTarget = RetrievalSegmentTarget,
        cfg_SegmentHardLimit = RetrievalSegmentHardLimit\<rparr>)"

record projection_page =
  pp_Current :: int
  pp_Generated :: int
  pp_Scanned :: int
  pp_HasCheckpoint :: bool
  pp_HasMore :: bool
  pp_Remaining :: int

record embed_result =
  er_Revision :: int
  er_Generated :: int
  er_Scanned :: int
  er_HasMore :: bool

record flush_result =
  fr_Flushed :: int
  fr_Indexed :: int
  fr_GenerationID :: string
  fr_SnapshotRevision :: int

record compaction_result =
  cr_None :: bool
  cr_GenerationID :: string
  cr_StreamedLiveMembers :: int

record verify_page =
  vp_Scanned :: int
  vp_Resume :: string
  vp_HasMore :: bool

record profile_row =
  pr_L0ReadyCount :: int
  pr_ActiveGenerationID :: string
  pr_ActiveSnapshotRevision :: int
  pr_PurgeEpoch :: int

record dangling_root =
  dr_ProfileID :: string
  dr_PurgeEpoch :: int
  dr_Dimensions :: int
  dr_BackendVersion :: string
  dr_GenerationID :: string
  dr_DescriptorSHA256 :: string
  dr_SnapshotRevision :: int
  dr_IndexedChunkCount :: int

record root_expectation =
  rx_CacheDir :: string
  rx_DatabaseID :: string
  rx_ProfileID :: string
  rx_GenerationID :: string
  rx_DescriptorSHA256 :: string
  rx_SnapshotRevision :: int
  rx_PurgeEpoch :: int
  rx_Dimensions :: int
  rx_BackendVersion :: string

text \<open>The taking of the generation lock: the context before and after, whether the maintenance lock is
  held, the error of the acquisition and that of the release.\<close>

record lock_events =
  lk_ctx :: "go_error option"
  lk_maintenance :: bool
  lk_acquire :: "go_error option"
  lk_ctxAfter :: "go_error option"
  lk_close :: "go_error option"

record before_provider =
  bp_selected :: int
  bp_profile :: "go_error + profile_row"
  bp_lock :: lock_events
  bp_flush :: "flush_result \<times> go_error option"

text \<open>\<open>pc_operations\<close> are the calls a builder makes to its progress callback, and its result
  depends on what they return.\<close>

record pipeline_calls =
  pc_ctx :: "go_error option"
  pc_publish :: "(stage_work list \<Rightarrow> stage_work \<Rightarrow> go_error option) option"
  pc_countDirty :: "int \<Rightarrow> go_error + int"
  pc_projection :: "int \<Rightarrow> int \<Rightarrow> int \<Rightarrow> projection_page \<times> go_error option"
  pc_countPending :: "profile \<Rightarrow> go_error + int"
  pc_beforeProvider :: "before_provider list"
  pc_embed :: "int \<Rightarrow> go_error option list \<Rightarrow> embed_result \<times> go_error option"
  pc_profile :: "string \<Rightarrow> go_error + profile_row"
  pc_operations :: "(int \<times> int) list"
  pc_flush :: "int \<Rightarrow> go_error option list \<Rightarrow> flush_result \<times> go_error option"
  pc_dangling :: "string \<Rightarrow> go_error + dangling_root option"
  pc_databaseID :: "go_error + string"
  pc_verifyRoot :: "root_expectation \<Rightarrow> go_error option"
  pc_reactivate :: "dangling_root \<Rightarrow> go_error option"
  pc_compact :: "go_error option list \<Rightarrow> compaction_result \<times> go_error option"
  pc_vectorsAfter :: "string \<Rightarrow> string \<Rightarrow> go_error + int"
  pc_verify :: "int \<Rightarrow> string \<Rightarrow> go_error option list \<Rightarrow> verify_page \<times> go_error option"
  pc_snapshot :: "profile \<Rightarrow> int \<Rightarrow> go_error + snapshot"
  pc_purgeEpoch :: "go_error + int"
  pc_revision :: "go_error + int"

section \<open>Checkpoints\<close>

definition HasPrefix :: "string \<Rightarrow> string \<Rightarrow> bool" where
  "HasPrefix s p \<longleftrightarrow> take (length p) s = p"

definition TrimPrefix :: "string \<Rightarrow> string \<Rightarrow> string" where
  "TrimPrefix s p = (if HasPrefix s p then drop (length p) s else s)"

definition projectionCheckpoint :: "int \<Rightarrow> string" where
  "projectionCheckpoint watermark = ''projection:watermark='' @ dec_digits (max watermark 0)"

definition embeddingCheckpoint :: "int \<Rightarrow> string" where
  "embeddingCheckpoint revision = ''embedding:revision='' @ dec_digits (max revision 0)"

definition flushCheckpoint :: "int \<Rightarrow> string" where
  "flushCheckpoint revision = ''flush:snapshot='' @ dec_digits (max revision 0)"

definition compactionCheckpoint :: "string \<Rightarrow> string" where
  "compactionCheckpoint generationID = (let generationID = boundedProtocolField generationID generationIDLimit in
     if generationID = [] then ''compaction:generation'' else ''compaction:generation='' @ generationID)"

definition verifyCheckpointPrefix :: string where
  "verifyCheckpointPrefix = ''verify:after=''"

definition verifyCheckpoint :: "string \<Rightarrow> string" where
  "verifyCheckpoint resume = (if resume = [] then ''verify:after'' else verifyCheckpointPrefix @ resume)"

definition checkedVerifyCheckpoint :: "string \<Rightarrow> go_error + string" where
  "checkedVerifyCheckpoint resume =
     (let resume = boundedProtocolField resume (errorCheckpointLimit - length verifyCheckpointPrefix) in
      if resume = [] then Inl (OtherErr ''semantic verify resume cursor is not a bounded protocol value'')
      else Inr (verifyCheckpoint resume))"

definition parseVerifyCheckpoint :: "string \<Rightarrow> go_error + string" where
  "parseVerifyCheckpoint checkpoint =
     (if checkpoint = [] \<or> checkpoint = ''verify:after'' then Inr []
      else if \<not> HasPrefix checkpoint verifyCheckpointPrefix then
        if HasPrefix checkpoint ''compaction:generation='' \<or> checkpoint = ''compaction:generation'' then Inr []
        else Inl (OtherErr ''semantic verify checkpoint is invalid'')
      else (case checkedVerifyCheckpoint (TrimPrefix checkpoint verifyCheckpointPrefix) of
          Inl e \<Rightarrow> Inl e
        | Inr checked \<Rightarrow> Inr (TrimPrefix checked verifyCheckpointPrefix)))"

definition readinessCheckpoint :: "string \<Rightarrow> string" where
  "readinessCheckpoint state = (let state = boundedProtocolField state errorReadinessLimit in
     if state = [] then ''readiness:state'' else ''readiness:state='' @ state)"

section \<open>Outcomes, counters and errors\<close>

definition nextPipelineOutcome :: "loaded_run \<Rightarrow> string \<Rightarrow> stage_outcome" where
  "nextPipelineOutcome run stage =
     \<lparr>out_NextStage = stage, out_Checkpoint = boundedProtocolField (Checkpoint run) errorCheckpointLimit,
      out_EmbeddingRevision = EmbeddingRevision run, out_Counters = Counters run,
      out_CurrentGenerationID = boundedProtocolField (CurrentGenerationID run) generationIDLimit,
      out_Readiness = boundedProtocolField (ReadinessState run) errorReadinessLimit, out_Debt = no_debt,
      out_Complete = False, out_SuccessorWatermark = None\<rparr>"

definition addPipelineCounter :: "int \<Rightarrow> int \<Rightarrow> go_error + int" where
  "addPipelineCounter counter delta =
     (if delta < 0 then Inl (OtherErr ''semantic refresh counter delta must not be negative'')
      else if counter < 0 \<or> int64_max - counter < delta then Inl (OtherErr ''semantic refresh counter overflow'')
      else Inr (counter + delta))"

definition nonnegativeCount :: "int \<Rightarrow> int" where
  "nonnegativeCount value = max value 0"

fun saturatingCountSum :: "int \<Rightarrow> int list \<Rightarrow> int" where
  "saturatingCountSum sofar [] = sofar"
| "saturatingCountSum sofar (value # values') =
     (if value \<le> 0 then saturatingCountSum sofar values'
      else if int64_max - sofar < value then int64_max
      else saturatingCountSum (sofar + value) values')"

definition pipelineDebt :: "snapshot \<Rightarrow> debt" where
  "pipelineDebt s =
     \<lparr>DirtyParents = nonnegativeCount (sn_DirtyParents s), PendingEmbeddings = nonnegativeCount (sn_PendingEmbeddings s),
      DueRetries = nonnegativeCount (sn_DueRetries s), ScheduledRetries = nonnegativeCount (sn_ScheduledRetries s),
      BlockedEmbeddings = nonnegativeCount (sn_BlockedEmbeddings s), FailedEmbeddings = nonnegativeCount (sn_ErrorEmbeddings s),
      Indexed = nonnegativeCount (sn_ActiveIndexedCount s), L0Ready = nonnegativeCount (sn_L0ReadyCount s),
      Tombstones = nonnegativeCount (sn_ActiveTombstones s),
      Segments = saturatingCountSum 0 [sn_BuildingGenerations s, sn_StaleGenerations s, sn_ErrorGenerations s]\<rparr>"

text \<open>\<open>errors.As\<close> with a \<open>semanticLockFailure\<close>.\<close>

fun as_lock :: "go_error \<Rightarrow> bool" and any_lock :: "go_error list \<Rightarrow> bool" where
  "as_lock (LockErr e) = True"
| "as_lock (WrapErr e) = as_lock e"
| "as_lock (Joined es) = any_lock es"
| "as_lock (RefreshErr r None) = False"
| "as_lock (RefreshErr r (Some e)) = as_lock e"
| "as_lock StaleErr = False"
| "as_lock CanceledErr = False"
| "as_lock (NamedErr m) = False"
| "as_lock (OtherErr m) = False"
| "any_lock [] = False"
| "any_lock (e # es) = (as_lock e \<or> any_lock es)"

definition pipelineStageError :: "string \<Rightarrow> loaded_run \<Rightarrow> stage_outcome \<Rightarrow> go_error \<Rightarrow> go_error" where
  "pipelineStageError code run outcome cause =
     NewError (if as_lock cause then ErrorLockUnavailable else code)
       (run\<lparr>Checkpoint := boundedProtocolField (out_Checkpoint outcome) errorCheckpointLimit,
          ReadinessState := boundedProtocolField (out_Readiness outcome) errorReadinessLimit\<rparr>)
       (out_Readiness outcome) (out_Debt outcome) (Some cause)"

definition ProfileNotFound :: go_error where
  "ProfileNotFound = NamedErr ''retrieval embedding profile not found''"

definition EmbedCircuitOpen :: go_error where
  "EmbedCircuitOpen = NamedErr ''embedding circuit open''"

definition DanglingRoot :: go_error where
  "DanglingRoot = NamedErr ''dangling semantic root verification failed''"

text \<open>\<open>errors.Join(err, e)\<close>\<close>

definition join_with :: "go_error option \<Rightarrow> go_error \<Rightarrow> go_error option" where
  "join_with err e = join_errors [err, Some e]"

section \<open>Executions\<close>

record exec_state =
  xs_outcome :: stage_outcome
  xs_tracker :: tracker
  xs_published :: "stage_work list"

text \<open>\<open>Inl\<close> returns the outcome as it is, with that error.\<close>

type_synonym 'a exec = "exec_state \<Rightarrow> (go_error option + 'a) \<times> exec_state"

definition x_ret :: "'a \<Rightarrow> 'a exec" where
  "x_ret x s = (Inr x, s)"

definition x_then :: "'a exec \<Rightarrow> ('a \<Rightarrow> 'b exec) \<Rightarrow> 'b exec" where
  "x_then m f s = (case m s of (Inl e, s) \<Rightarrow> (Inl e, s) | (Inr x, s) \<Rightarrow> f x s)"

definition x_done :: "'a exec" where
  "x_done s = (Inl None, s)"

definition x_outcome :: "(stage_outcome \<Rightarrow> stage_outcome) \<Rightarrow> unit exec" where
  "x_outcome f s = (Inr (), s\<lparr>xs_outcome := f (xs_outcome s)\<rparr>)"

definition x_fail :: "string \<Rightarrow> loaded_run \<Rightarrow> go_error \<Rightarrow> 'a exec" where
  "x_fail code run e s = (Inl (Some (pipelineStageError code run (xs_outcome s) e)), s)"

text \<open>\<open>if err != nil { return outcome, pipelineStageError(...) }\<close>\<close>

definition x_try :: "string \<Rightarrow> loaded_run \<Rightarrow> go_error + 'a \<Rightarrow> 'a exec" where
  "x_try code run r = (case r of Inl e \<Rightarrow> x_fail code run e | Inr x \<Rightarrow> x_ret x)"

definition x_check :: "string \<Rightarrow> loaded_run \<Rightarrow> go_error option \<Rightarrow> unit exec" where
  "x_check code run e = (case e of Some e \<Rightarrow> x_fail code run e | None \<Rightarrow> x_ret ())"

definition publish_now :: "pipeline_calls \<Rightarrow> stage_work \<Rightarrow> exec_state \<Rightarrow> go_error option \<times> exec_state" where
  "publish_now calls work s = (case pc_publish calls of
     None \<Rightarrow> (None, s)
   | Some publish \<Rightarrow> (publish (xs_published s) work, s\<lparr>xs_published := xs_published s @ [work]\<rparr>))"

definition publishStageWork :: "pipeline_calls \<Rightarrow> string \<Rightarrow> loaded_run \<Rightarrow> stage_work \<Rightarrow> unit exec" where
  "publishStageWork calls code run work s = (case publish_now calls work s of (e, s) \<Rightarrow> x_check code run e s)"

definition x_begin :: "pipeline_calls \<Rightarrow> string \<Rightarrow> loaded_run \<Rightarrow> int \<Rightarrow> bool \<Rightarrow> stage_work exec" where
  "x_begin calls code run remaining totalKnown s =
     (case tracker_begin run remaining totalKnown (xs_tracker s) of (t, r) \<Rightarrow>
        x_then (x_try code run r) (\<lambda>base. x_then (publishStageWork calls code run base) (\<lambda>_. x_ret base)) (s\<lparr>xs_tracker := t\<rparr>))"

definition x_commit :: "pipeline_calls \<Rightarrow> string \<Rightarrow> loaded_run \<Rightarrow> stage_work \<Rightarrow> unit exec" where
  "x_commit calls code run work s =
     (case tracker_commit run work (xs_tracker s) of (t, e) \<Rightarrow>
        x_then (x_check code run e) (\<lambda>_. publishStageWork calls code run work) (s\<lparr>xs_tracker := t\<rparr>))"

text \<open>The progress calls of a builder: each advances the work from \<open>base\<close> and publishes it.\<close>

fun progress_calls ::
  "pipeline_calls \<Rightarrow> (int \<Rightarrow> int \<Rightarrow> go_error + stage_work) \<Rightarrow> (int \<times> int) list \<Rightarrow> stage_work \<Rightarrow> exec_state \<Rightarrow>
   (go_error option list \<times> stage_work) \<times> exec_state" where
  "progress_calls calls advance [] latest s = (([], latest), s)"
| "progress_calls calls advance ((current, whole) # ops) latest s =
     (case advance current whole of
        Inl e \<Rightarrow> (case progress_calls calls advance ops latest s of ((es, w), s) \<Rightarrow> ((Some e # es, w), s))
      | Inr work \<Rightarrow>
          (case publish_now calls work s of (e, s) \<Rightarrow>
            (case progress_calls calls advance ops work s of ((es, w), s) \<Rightarrow> ((e # es, w), s))))"

definition x_progress ::
  "pipeline_calls \<Rightarrow> (int \<Rightarrow> int \<Rightarrow> go_error + stage_work) \<Rightarrow> stage_work \<Rightarrow> (go_error option list \<times> stage_work) exec" where
  "x_progress calls advance base s = (case progress_calls calls advance (pc_operations calls) base s of (r, s) \<Rightarrow> (Inr r, s))"

text \<open>\<open>addPipelineCounter(&outcome.Counters.X, delta)\<close>, its error joined to \<open>err\<close>.\<close>

definition add_counter ::
  "(refresh_counters \<Rightarrow> int) \<Rightarrow> (int \<Rightarrow> refresh_counters \<Rightarrow> refresh_counters) \<Rightarrow> int \<Rightarrow> stage_outcome \<Rightarrow>
   go_error + stage_outcome" where
  "add_counter field set_field delta outcome = (case addPipelineCounter (field (out_Counters outcome)) delta of
     Inl e \<Rightarrow> Inl e
   | Inr n \<Rightarrow> Inr (outcome\<lparr>out_Counters := set_field n (out_Counters outcome)\<rparr>))"

definition set_projected :: "int \<Rightarrow> refresh_counters \<Rightarrow> refresh_counters" where
  "set_projected n c = c\<lparr>ProjectedParents := n\<rparr>"
definition set_embedded :: "int \<Rightarrow> refresh_counters \<Rightarrow> refresh_counters" where
  "set_embedded n c = c\<lparr>EmbeddedChunks := n\<rparr>"
definition set_flushed :: "int \<Rightarrow> refresh_counters \<Rightarrow> refresh_counters" where
  "set_flushed n c = c\<lparr>FlushedVectors := n\<rparr>"
definition set_compacted :: "int \<Rightarrow> refresh_counters \<Rightarrow> refresh_counters" where
  "set_compacted n c = c\<lparr>CompactedVectors := n\<rparr>"
definition set_verified :: "int \<Rightarrow> refresh_counters \<Rightarrow> refresh_counters" where
  "set_verified n c = c\<lparr>VerifiedVectors := n\<rparr>"

definition x_counter ::
  "(refresh_counters \<Rightarrow> int) \<Rightarrow> (int \<Rightarrow> refresh_counters \<Rightarrow> refresh_counters) \<Rightarrow> go_error option \<Rightarrow> int \<Rightarrow>
   go_error option exec" where
  "x_counter field set_field err delta s = (case add_counter field set_field delta (xs_outcome s) of
     Inl e \<Rightarrow> (Inr (join_with err e), s)
   | Inr outcome \<Rightarrow> (Inr err, s\<lparr>xs_outcome := outcome\<rparr>))"

section \<open>Projection\<close>

definition executeProjection :: "pipeline_config \<Rightarrow> pipeline_calls \<Rightarrow> loaded_run \<Rightarrow> unit exec" where
  "executeProjection cfg calls run =
     x_then (x_outcome (\<lambda>_. (nextPipelineOutcome run SemanticRefreshProjection)
       \<lparr>out_Checkpoint := projectionCheckpoint (ProjectionWatermark run)\<rparr>)) (\<lambda>_.
     x_then (x_try ErrorProjection run (pc_countDirty calls (ProjectionWatermark run))) (\<lambda>remaining.
     x_then (x_begin calls ErrorProjection run remaining True) (\<lambda>base.
     case pc_projection calls (ProjectionWatermark run) (PurgeEpoch run) (cfg_ProjectionBatch cfg) of (page, err) \<Rightarrow>
     x_then (if pp_Current page < 0 \<or> pp_Generated page < 0
         then x_ret (join_with err (OtherErr ''semantic projection returned a negative committed count''))
         else if int64_max - pp_Current page < pp_Generated page
         then x_ret (join_with err (OtherErr ''semantic projection committed count overflow''))
         else x_counter ProjectedParents set_projected err (pp_Current page + pp_Generated page)) (\<lambda>err.
     x_then (x_check ErrorProjection run err) (\<lambda>_.
     x_then (x_try ErrorProjection run (advanceStageWork base (pp_Scanned page) 0 False)) (\<lambda>work.
     x_then (x_commit calls ErrorProjection run work) (\<lambda>_.
     x_then (if pp_Scanned page = 0 \<and> \<not> pp_HasCheckpoint page \<and> \<not> pp_HasMore page \<and> pp_Remaining page = 0
         then x_outcome (\<lambda>o'. o'\<lparr>out_NextStage := SemanticRefreshEmbedding,
           out_Checkpoint := embeddingCheckpoint (EmbeddingRevision run)\<rparr>)
         else x_ret ()) (\<lambda>_. x_done))))))))"

definition x_apply :: "string \<Rightarrow> loaded_run \<Rightarrow> (stage_outcome \<Rightarrow> go_error + stage_outcome) \<Rightarrow> unit exec" where
  "x_apply code run f s = (case f (xs_outcome s) of
     Inl e \<Rightarrow> x_fail code run e s
   | Inr outcome \<Rightarrow> (Inr (), s\<lparr>xs_outcome := outcome\<rparr>))"

section \<open>Embedding\<close>

definition applyFlushCount :: "stage_outcome \<Rightarrow> flush_result \<Rightarrow> int \<Rightarrow> go_error + stage_outcome" where
  "applyFlushCount outcome result target =
     (if fr_Flushed result \<noteq> target then Inl (OtherErr ''semantic flush committed delta must equal the target'')
      else if fr_Indexed result < fr_Flushed result
      then Inl (OtherErr ''semantic flush total membership is below its committed delta'')
      else if fr_GenerationID result = [] \<or> \<not> validGenerationID (fr_GenerationID result)
      then Inl (OtherErr ''semantic flush generation ID is invalid'')
      else if fr_SnapshotRevision result \<le> 0
      then Inl (OtherErr ''semantic flush snapshot revision must be positive'')
      else add_counter FlushedVectors set_flushed (fr_Flushed result) outcome)"

definition flushed_generation :: "flush_result \<Rightarrow> (int \<Rightarrow> string) \<Rightarrow> stage_outcome \<Rightarrow> stage_outcome" where
  "flushed_generation result checkpoint outcome =
     (let outcome = (if fr_GenerationID result \<noteq> [] then outcome\<lparr>out_CurrentGenerationID := fr_GenerationID result\<rparr> else outcome)
      in if 0 < fr_SnapshotRevision result
         then outcome\<lparr>out_EmbeddingRevision := fr_SnapshotRevision result, out_Checkpoint := checkpoint (fr_SnapshotRevision result)\<rparr>
         else outcome)"

definition refreshLockCause :: "go_error option \<Rightarrow> go_error \<Rightarrow> go_error" where
  "refreshLockCause ctxErr err = (case ctxErr of Some e \<Rightarrow> e | None \<Rightarrow> LockErr err)"

definition withRefreshGenerationExclusive :: "lock_events \<Rightarrow> go_error option \<Rightarrow> go_error option" where
  "withRefreshGenerationExclusive lk work =
     (if lk_ctx lk \<noteq> None then lk_ctx lk
      else if \<not> lk_maintenance lk
      then Some (LockErr (OtherErr ''semantic generation publication requires exclusive maintenance''))
      else case lk_acquire lk of Some err \<Rightarrow> Some (refreshLockCause (lk_ctxAfter lk) err)
      | None \<Rightarrow> (case lk_close lk of None \<Rightarrow> work | Some closeErr \<Rightarrow> join_errors [work, Some (LockErr closeErr)]))"

text \<open>\<open>beforeProvider\<close>: a batch may only be embedded when the vectors that are not yet in a
  generation leave room for it; else one segment is flushed first.\<close>

definition beforeProvider :: "pipeline_config \<Rightarrow> before_provider \<Rightarrow> stage_outcome \<Rightarrow> go_error option \<times> stage_outcome" where
  "beforeProvider cfg bp outcome =
     (if bp_selected bp < 0 \<or> cfg_EmbeddingBatch cfg < bp_selected bp
      then (Some (OtherErr ''semantic embedding selected count is outside the bounded batch''), outcome)
      else
        let continue_with = (\<lambda>l0Ready.
          if l0Ready < 0 then (Some (OtherErr ''semantic embedding profile has a negative L0 count''), outcome)
          else if l0Ready \<le> cfg_SegmentHardLimit cfg - bp_selected bp then (None, outcome)
          else case withRefreshGenerationExclusive (bp_lock bp) (snd (bp_flush bp)) of
            Some e \<Rightarrow> (Some e, outcome)
          | None \<Rightarrow> (case applyFlushCount outcome (fst (bp_flush bp)) (cfg_SegmentTarget cfg) of
              Inl e \<Rightarrow> (Some e, outcome)
            | Inr outcome \<Rightarrow> (None, flushed_generation (fst (bp_flush bp)) embeddingCheckpoint outcome)))
        in case bp_profile bp of
          Inl e \<Rightarrow> if error_is ProfileNotFound e then continue_with 0 else (Some e, outcome)
        | Inr row \<Rightarrow> continue_with (pr_L0ReadyCount row))"

fun before_provider_calls :: "pipeline_config \<Rightarrow> before_provider list \<Rightarrow> stage_outcome \<Rightarrow> go_error option list \<times> stage_outcome" where
  "before_provider_calls cfg [] outcome = ([], outcome)"
| "before_provider_calls cfg (bp # bps) outcome =
     (case beforeProvider cfg bp outcome of (e, outcome) \<Rightarrow>
       (case before_provider_calls cfg bps outcome of (es, outcome) \<Rightarrow> (e # es, outcome)))"

definition x_before_provider :: "pipeline_config \<Rightarrow> pipeline_calls \<Rightarrow> go_error option list exec" where
  "x_before_provider cfg calls s = (case before_provider_calls cfg (pc_beforeProvider calls) (xs_outcome s) of
     (es, outcome) \<Rightarrow> (Inr es, s\<lparr>xs_outcome := outcome\<rparr>))"

definition executeEmbedding :: "pipeline_config \<Rightarrow> pipeline_calls \<Rightarrow> loaded_run \<Rightarrow> unit exec" where
  "executeEmbedding cfg calls run =
     x_then (x_outcome (\<lambda>_. (nextPipelineOutcome run SemanticRefreshEmbedding)
       \<lparr>out_Checkpoint := embeddingCheckpoint (EmbeddingRevision run)\<rparr>)) (\<lambda>_.
     x_then (x_try ErrorEmbedding run (pc_countPending calls (cfg_Profile cfg))) (\<lambda>remaining.
     x_then (x_begin calls ErrorEmbedding run remaining True) (\<lambda>base.
     x_then (x_before_provider cfg calls) (\<lambda>called.
     case pc_embed calls (cfg_EmbeddingBatch cfg) called of (result, err) \<Rightarrow>
     x_then (if er_Revision result < 0
         then x_ret (join_with err (OtherErr ''semantic embedding returned a negative revision''))
         else x_then (x_outcome (\<lambda>outcome. if 0 < er_Revision result
             then outcome\<lparr>out_EmbeddingRevision := er_Revision result, out_Checkpoint := embeddingCheckpoint (er_Revision result)\<rparr>
             else outcome)) (\<lambda>_. x_ret err)) (\<lambda>err.
     x_then (if er_Generated result < 0
         then x_ret (join_with err (OtherErr ''semantic embedding returned a negative generated count''))
         else x_counter EmbeddedChunks set_embedded err (er_Generated result)) (\<lambda>err.
     x_then (x_outcome (\<lambda>outcome. if \<not> er_HasMore result \<and> err = None
         then outcome\<lparr>out_NextStage := SemanticRefreshFlush, out_Checkpoint := flushCheckpoint (out_EmbeddingRevision outcome)\<rparr>
         else outcome)) (\<lambda>_.
     x_then (x_check (if err \<noteq> None \<and> error_is EmbedCircuitOpen (the err) then ErrorEmbeddingCircuit else ErrorEmbedding) run err) (\<lambda>_.
     x_then (x_try ErrorEmbedding run (advanceStageWork base (er_Scanned result) 0 False)) (\<lambda>work.
     x_then (x_commit calls ErrorEmbedding run work) (\<lambda>_. x_done))))))))))"

section \<open>Flush\<close>

definition planned_flush :: "int \<Rightarrow> int \<Rightarrow> int" where
  "planned_flush l0Ready target = (if l0Ready \<le> target then 0 else (l0Ready - 1) div target * target)"

text \<open>The work after a builder: at least what its result says, whatever its progress calls were.\<close>

definition settled_work :: "stage_work \<Rightarrow> stage_work \<Rightarrow> int \<Rightarrow> int \<Rightarrow> bool \<Rightarrow> go_error + stage_work" where
  "settled_work base latest done_count whole wholeKnown =
     (if sw_Current latest < int64_add (sw_Current base) done_count then advanceStageWork base done_count whole wholeKnown
      else Inr latest)"

definition executeFlush :: "pipeline_config \<Rightarrow> pipeline_calls \<Rightarrow> loaded_run \<Rightarrow> unit exec" where
  "executeFlush cfg calls run =
     (let to_compaction = (\<lambda>outcome. outcome\<lparr>out_NextStage := SemanticRefreshCompaction,
            out_Checkpoint := compactionCheckpoint (CurrentGenerationID run)\<rparr>);
          target = cfg_SegmentTarget cfg in
     x_then (x_outcome (\<lambda>_. (nextPipelineOutcome run SemanticRefreshFlush)
       \<lparr>out_Checkpoint := flushCheckpoint (EmbeddingRevision run)\<rparr>)) (\<lambda>_.
     case pc_profile calls (cfg_ProfileID cfg) of
       Inl e \<Rightarrow> if error_is ProfileNotFound e
         then x_then (x_begin calls ErrorFlush run 0 True) (\<lambda>_. x_then (x_outcome to_compaction) (\<lambda>_. x_done))
         else x_fail ErrorFlush run e
     | Inr row \<Rightarrow>
     if pr_L0ReadyCount row < 0 then x_fail ErrorFlush run (OtherErr ''semantic embedding profile has a negative L0 count'')
     else
     x_then (x_begin calls ErrorFlush run (planned_flush (pr_L0ReadyCount row) target) True) (\<lambda>base.
     if pr_L0ReadyCount row \<le> target then x_then (x_outcome to_compaction) (\<lambda>_. x_done)
     else
     x_then (x_progress calls (\<lambda>current whole. advanceStageWork base current whole True) base) (\<lambda>(called, latest).
     case pc_flush calls target called of (result, err) \<Rightarrow>
     x_then (x_check ErrorFlush run err) (\<lambda>_.
     x_then (x_apply ErrorFlush run (\<lambda>outcome. applyFlushCount outcome result target)) (\<lambda>_.
     x_then (x_outcome (flushed_generation result flushCheckpoint)) (\<lambda>_.
     x_then (x_try ErrorFlush run (settled_work base latest (fr_Flushed result) (fr_Flushed result) True)) (\<lambda>latest.
     x_then (x_commit calls ErrorFlush run latest) (\<lambda>_. x_done)))))))))"

section \<open>Compaction\<close>

definition RootExpectation :: "pipeline_config \<Rightarrow> string \<Rightarrow> dangling_root \<Rightarrow> root_expectation" where
  "RootExpectation cfg databaseID root =
     \<lparr>rx_CacheDir = cfg_CacheDir cfg, rx_DatabaseID = databaseID, rx_ProfileID = dr_ProfileID root,
      rx_GenerationID = dr_GenerationID root, rx_DescriptorSHA256 = dr_DescriptorSHA256 root,
      rx_SnapshotRevision = dr_SnapshotRevision root, rx_PurgeEpoch = dr_PurgeEpoch root,
      rx_Dimensions = dr_Dimensions root, rx_BackendVersion = dr_BackendVersion root\<rparr>"

definition recoverDanglingGeneration :: "pipeline_config \<Rightarrow> pipeline_calls \<Rightarrow> loaded_run \<Rightarrow> go_error option" where
  "recoverDanglingGeneration cfg calls run = (case pc_dangling calls (cfg_ProfileID cfg) of
     Inl err \<Rightarrow> Some err
   | Inr None \<Rightarrow> None
   | Inr (Some candidate) \<Rightarrow>
       if dr_ProfileID candidate \<noteq> cfg_ProfileID cfg \<or> dr_PurgeEpoch candidate \<noteq> PurgeEpoch run \<or>
          dr_Dimensions candidate \<noteq> pf_Dimensions (cfg_Profile cfg) \<or> dr_BackendVersion candidate \<noteq> USearchVersion
       then Some (OtherErr ''dangling semantic root does not match the active refresh run'')
       else case pc_databaseID calls of Inl err \<Rightarrow> Some err
       | Inr databaseID \<Rightarrow> (case pc_verifyRoot calls (RootExpectation cfg databaseID candidate) of
           Some err \<Rightarrow> join_errors [Some DanglingRoot, Some (WrapErr err)]
         | None \<Rightarrow> (case pc_reactivate calls candidate of
             Some err \<Rightarrow> Some (WrapErr err)
           | None \<Rightarrow> None)))"

definition whole_work :: "stage_work \<Rightarrow> stage_work" where
  "whole_work w = w\<lparr>sw_Total := sw_Current w, sw_TotalKnown := True\<rparr>"

definition with_pass :: "int \<Rightarrow> go_error + stage_work \<Rightarrow> go_error + stage_work" where
  "with_pass pass r = (case r of Inl e \<Rightarrow> Inl e | Inr work \<Rightarrow> Inr (work\<lparr>sw_Pass := pass\<rparr>))"

definition settled_pass :: "stage_work \<Rightarrow> stage_work \<Rightarrow> int \<Rightarrow> int \<Rightarrow> go_error + stage_work" where
  "settled_pass base latest pass streamed =
     (if sw_Current latest < int64_add (sw_Current base) streamed then with_pass pass (advanceStageWork base streamed streamed True)
      else Inr latest)"

definition executeCompaction :: "pipeline_config \<Rightarrow> pipeline_calls \<Rightarrow> loaded_run \<Rightarrow> unit exec" where
  "executeCompaction cfg calls run =
     (let to_verify = (\<lambda>outcome. outcome\<lparr>out_NextStage := SemanticRefreshVerify, out_Checkpoint := verifyCheckpoint []\<rparr>) in
     x_then (x_outcome (\<lambda>_. (nextPipelineOutcome run SemanticRefreshCompaction)
       \<lparr>out_Checkpoint := compactionCheckpoint (CurrentGenerationID run)\<rparr>)) (\<lambda>_.
     x_then (x_begin calls ErrorCompaction run 0 False) (\<lambda>base.
     case pc_profile calls (cfg_ProfileID cfg) of
       Inl e \<Rightarrow> if error_is ProfileNotFound e
         then x_then (x_commit calls ErrorCompaction run (whole_work base)) (\<lambda>_. x_then (x_outcome to_verify) (\<lambda>_. x_done))
         else x_fail ErrorCompaction run e
     | Inr _ \<Rightarrow>
     case recoverDanglingGeneration cfg calls run of
       Some e \<Rightarrow> x_fail (if error_is DanglingRoot e then ErrorNativeRoot else ErrorCompaction) run e
     | None \<Rightarrow>
     let pass = int64_add (sw_Pass base) 1 in
     x_then (x_progress calls (\<lambda>current whole. with_pass pass (advanceStageWork base current whole True)) base) (\<lambda>(called, latest).
     case pc_compact calls called of (result, err) \<Rightarrow>
     x_then (x_check ErrorCompaction run err) (\<lambda>_.
     if cr_None result
     then x_then (x_commit calls ErrorCompaction run (whole_work base)) (\<lambda>_. x_then (x_outcome to_verify) (\<lambda>_. x_done))
     else if cr_GenerationID result = []
     then x_fail ErrorCompaction run (OtherErr ''semantic compaction completed without a replacement generation'')
     else if cr_StreamedLiveMembers result < 0
     then x_fail ErrorCompaction run (OtherErr ''semantic compaction returned a negative live-vector count'')
     else
     x_then (x_outcome (\<lambda>outcome. outcome\<lparr>out_CurrentGenerationID := cr_GenerationID result,
       out_Checkpoint := compactionCheckpoint (cr_GenerationID result)\<rparr>)) (\<lambda>_.
     x_then (x_apply ErrorCompaction run (add_counter CompactedVectors set_compacted (cr_StreamedLiveMembers result))) (\<lambda>_.
     x_then (x_try ErrorCompaction run (settled_pass base latest pass (cr_StreamedLiveMembers result))) (\<lambda>latest.
     x_then (x_commit calls ErrorCompaction run latest) (\<lambda>_. x_done)))))))))"

section \<open>Verification\<close>

definition snapshot_proves :: "snapshot \<Rightarrow> profile_row \<Rightarrow> bool" where
  "snapshot_proves s row \<longleftrightarrow> \<not> (sn_ActiveGenerationID s \<noteq> pr_ActiveGenerationID row \<or> \<not> sn_ActiveGenerationValid s \<or>
     TrimSpace (sn_ActiveGenerationRootDescriptorSHA256 s) = [] \<or> sn_ActiveSnapshotRevision s \<noteq> pr_ActiveSnapshotRevision row \<or>
     sn_ProfilePurgeEpoch s \<noteq> pr_PurgeEpoch row)"

definition active_root :: "pipeline_config \<Rightarrow> snapshot \<Rightarrow> int \<Rightarrow> string \<Rightarrow> root_expectation" where
  "active_root cfg s purgeEpoch databaseID =
     \<lparr>rx_CacheDir = cfg_CacheDir cfg, rx_DatabaseID = databaseID, rx_ProfileID = cfg_ProfileID cfg,
      rx_GenerationID = sn_ActiveGenerationID s, rx_DescriptorSHA256 = sn_ActiveGenerationRootDescriptorSHA256 s,
      rx_SnapshotRevision = sn_ActiveSnapshotRevision s, rx_PurgeEpoch = purgeEpoch,
      rx_Dimensions = pf_Dimensions (cfg_Profile cfg), rx_BackendVersion = USearchVersion\<rparr>"

definition verifyActiveRoot :: "pipeline_config \<Rightarrow> pipeline_calls \<Rightarrow> loaded_run \<Rightarrow> profile_row \<Rightarrow> go_error option" where
  "verifyActiveRoot cfg calls run row =
     (case pc_snapshot calls (cfg_Profile cfg) (cfg_ExactMaxChunks cfg) of Inl err \<Rightarrow> Some err
      | Inr s \<Rightarrow>
      if \<not> snapshot_proves s row
      then Some (OtherErr ''active semantic root is not proven by the authoritative readiness snapshot'')
      else case pc_purgeEpoch calls of Inl err \<Rightarrow> Some err
      | Inr purgeEpoch \<Rightarrow>
      if purgeEpoch \<noteq> pr_PurgeEpoch row \<or> purgeEpoch \<noteq> sn_GlobalPurgeEpoch s \<or> purgeEpoch \<noteq> sn_ProfilePurgeEpoch s \<or>
         purgeEpoch \<noteq> PurgeEpoch run
      then Some (OtherErr ''active semantic root purge epoch changed'')
      else case pc_databaseID calls of Inl err \<Rightarrow> Some err
      | Inr databaseID \<Rightarrow>
      if TrimSpace databaseID = [] then Some (OtherErr ''active semantic root database ID is empty'')
      else pc_verifyRoot calls (active_root cfg s purgeEpoch databaseID))"

definition executeVerify :: "pipeline_config \<Rightarrow> pipeline_calls \<Rightarrow> loaded_run \<Rightarrow> unit exec" where
  "executeVerify cfg calls run =
     (let to_readiness = (\<lambda>generationID outcome. outcome\<lparr>out_CurrentGenerationID := generationID,
            out_NextStage := SemanticRefreshReadiness, out_Checkpoint := readinessCheckpoint []\<rparr>) in
     x_then (x_outcome (\<lambda>_. nextPipelineOutcome run SemanticRefreshVerify)) (\<lambda>_.
     x_then (x_try ErrorVerify run (parseVerifyCheckpoint (Checkpoint run))) (\<lambda>resume.
     x_then (x_outcome (\<lambda>outcome. outcome\<lparr>out_Checkpoint := verifyCheckpoint resume\<rparr>)) (\<lambda>_.
     x_then (x_try ErrorVerify run (pc_vectorsAfter calls (cfg_ProfileID cfg) resume)) (\<lambda>remaining.
     x_then (x_begin calls ErrorVerify run remaining True) (\<lambda>base.
     x_then (x_progress calls (\<lambda>scanned _. advanceStageWork base scanned 0 False) base) (\<lambda>(called, latest).
     case pc_verify calls maxVerifyBatch resume called of (page, err) \<Rightarrow>
     x_then (if vp_Scanned page < 0 then x_ret (join_with err (OtherErr ''semantic verify returned a negative scanned count''))
         else x_counter VerifiedVectors set_verified err (vp_Scanned page)) (\<lambda>err.
     x_then (if vp_Resume page = [] then x_ret err
         else case checkedVerifyCheckpoint (vp_Resume page) of
           Inl e \<Rightarrow> x_ret (join_with err e)
         | Inr checkpoint \<Rightarrow> x_then (x_outcome (\<lambda>outcome. outcome\<lparr>out_Checkpoint := checkpoint\<rparr>)) (\<lambda>_. x_ret err)) (\<lambda>err.
     x_then (x_check ErrorVerify run err) (\<lambda>_.
     x_then (x_try ErrorVerify run (settled_work base latest (vp_Scanned page) 0 False)) (\<lambda>latest.
     x_then (x_commit calls ErrorVerify run latest) (\<lambda>_.
     if vp_HasMore page then
       (if vp_Resume page = [] then x_fail ErrorVerify run (OtherErr ''semantic verify has more work without a resume cursor'')
        else x_done)
     else case pc_profile calls (cfg_ProfileID cfg) of
       Inl e \<Rightarrow> if error_is ProfileNotFound e then x_then (x_outcome (to_readiness [])) (\<lambda>_. x_done) else x_fail ErrorVerify run e
     | Inr row \<Rightarrow>
       if pr_ActiveGenerationID row \<noteq> [] then
         (case verifyActiveRoot cfg calls run row of
            Some e \<Rightarrow> x_fail ErrorNativeRoot run e
          | None \<Rightarrow> x_then (x_outcome (to_readiness (pr_ActiveGenerationID row))) (\<lambda>_. x_done))
       else x_then (x_outcome (to_readiness [])) (\<lambda>_. x_done)))))))))))))"

section \<open>Readiness\<close>

definition executeReadiness :: "pipeline_config \<Rightarrow> pipeline_calls \<Rightarrow> loaded_run \<Rightarrow> unit exec" where
  "executeReadiness cfg calls run =
     x_then (x_outcome (\<lambda>_. nextPipelineOutcome run SemanticRefreshReadiness)) (\<lambda>_.
     x_then (x_begin calls ErrorReadiness run 1 True) (\<lambda>base.
     x_then (x_try ErrorReadiness run (pc_snapshot calls (cfg_Profile cfg) (cfg_ExactMaxChunks cfg))) (\<lambda>s.
     x_then (x_try ErrorReadiness run (advanceStageWork base 1 1 True)) (\<lambda>work.
     x_then (x_commit calls ErrorReadiness run work) (\<lambda>_.
     x_then (x_outcome (\<lambda>outcome. outcome\<lparr>out_Debt := pipelineDebt s\<rparr>)) (\<lambda>_.
     if sn_ActiveGenerationID s \<noteq> CurrentGenerationID run
     then x_then (x_outcome (\<lambda>outcome. outcome\<lparr>out_NextStage := SemanticRefreshCompaction, out_CurrentGenerationID := [],
         out_Checkpoint := compactionCheckpoint [], out_Readiness := []\<rparr>)) (\<lambda>_. x_done)
     else
     let s = s\<lparr>sn_Configured := True, sn_Enabled := True\<rparr>;
         readiness = boundedProtocolField (dec_State (Evaluate s)) errorReadinessLimit in
     x_then (x_outcome (\<lambda>outcome. outcome\<lparr>out_Readiness := readiness, out_Checkpoint := readinessCheckpoint readiness\<rparr>)) (\<lambda>_.
     x_then (x_try ErrorReadiness run (pc_revision calls)) (\<lambda>revision.
     if revision < ProjectionWatermark run
     then x_fail ErrorReadiness run (OtherErr ''semantic projection revision predates the run watermark'')
     else if ProjectionWatermark run < revision
     then x_then (x_outcome (\<lambda>outcome. outcome\<lparr>out_SuccessorWatermark := Some revision, out_Complete := True\<rparr>)) (\<lambda>_. x_done)
     else if dec_State (Evaluate s) \<noteq> StateReady \<or> cfg_SegmentTarget cfg < sn_L0ReadyCount s
     then x_fail ErrorReadiness run (OtherErr ''semantic readiness gates are not satisfied'')
     else x_then (x_outcome (\<lambda>outcome. outcome\<lparr>out_Complete := True\<rparr>)) (\<lambda>_. x_done)))))))))"

section \<open>Execute\<close>

definition validateEffectiveSegmentBoundaries :: "pipeline_config \<Rightarrow> go_error option" where
  "validateEffectiveSegmentBoundaries cfg =
     (if cfg_SegmentTarget cfg < 1 \<or> RetrievalSegmentTarget < cfg_SegmentTarget cfg
      then Some (OtherErr ''semantic refresh effective segment target is out of range'')
      else if cfg_SegmentHardLimit cfg < cfg_SegmentTarget cfg \<or> RetrievalSegmentHardLimit < cfg_SegmentHardLimit cfg
      then Some (OtherErr ''semantic refresh effective segment hard limit is out of range'')
      else if cfg_SegmentTarget cfg < cfg_EmbeddingBatch cfg
      then Some (OtherErr ''semantic refresh embedding batch must not exceed effective segment target'')
      else None)"

definition x_return :: "go_error \<Rightarrow> unit exec" where
  "x_return e s = (Inl (Some e), s\<lparr>xs_outcome := zero_outcome\<rparr>)"

definition execute_stage :: "pipeline_config \<Rightarrow> pipeline_calls \<Rightarrow> loaded_run \<Rightarrow> unit exec" where
  "execute_stage cfg calls run =
     (if Stage run = SemanticRefreshProjection then executeProjection cfg calls run
      else if Stage run = SemanticRefreshEmbedding then executeEmbedding cfg calls run
      else if Stage run = SemanticRefreshFlush then executeFlush cfg calls run
      else if Stage run = SemanticRefreshCompaction then executeCompaction cfg calls run
      else if Stage run = SemanticRefreshVerify then executeVerify cfg calls run
      else if Stage run = SemanticRefreshReadiness then executeReadiness cfg calls run
      else x_return (NewError ErrorRunConflict run (ReadinessState run) no_debt
        (Some (OtherErr ''semantic refresh run has invalid stage''))))"

definition execute_pipeline :: "pipeline_config \<Rightarrow> pipeline_calls \<Rightarrow> loaded_run \<Rightarrow> unit exec" where
  "execute_pipeline cfg calls run =
     (case pc_ctx calls of Some e \<Rightarrow> x_return e
      | None \<Rightarrow> (case validateEffectiveSegmentBoundaries cfg of Some e \<Rightarrow> x_return e
      | None \<Rightarrow>
        if ProfileID run \<noteq> [] \<and> ProfileID run \<noteq> cfg_ProfileID cfg
        then x_return (NewError ErrorRunConflict run (ReadinessState run) no_debt
          (Some (OtherErr ''semantic refresh run profile does not match pipeline profile'')))
        else execute_stage cfg calls run))"

text \<open>The outcome and the error of \<open>Execute\<close>, and the state after it: the tracker of the pipeline, and
  what was published.\<close>

definition Execute :: "pipeline_config \<Rightarrow> pipeline_calls \<Rightarrow> tracker \<Rightarrow> loaded_run \<Rightarrow> (stage_outcome \<times> go_error option) \<times> exec_state" where
  "Execute cfg calls t run =
     (case execute_pipeline cfg calls run \<lparr>xs_outcome = zero_outcome, xs_tracker = t, xs_published = []\<rparr> of
        (Inl err, s) \<Rightarrow> ((xs_outcome s, err), s)
      | (Inr _, s) \<Rightarrow> ((xs_outcome s, None), s))"

section \<open>Execution under the semantic locks\<close>

record locked_calls =
  lp_ctx :: "go_error option"
  lp_maintenance :: "go_error option"
  lp_ctxAfterMaintenance :: "go_error option"
  lp_generation :: "go_error option"
  lp_ctxAfterGeneration :: "go_error option"
  lp_generationClose :: "go_error option"
  lp_maintenanceClose :: "go_error option"

definition refreshStagePublishesGeneration :: "string \<Rightarrow> bool" where
  "refreshStagePublishesGeneration stage \<longleftrightarrow> stage = SemanticRefreshFlush \<or> stage = SemanticRefreshCompaction"

definition refreshLockError :: "go_error option \<Rightarrow> loaded_run \<Rightarrow> go_error \<Rightarrow> go_error" where
  "refreshLockError ctxErr run err =
     (let cause = refreshLockCause ctxErr err in
      if error_is CanceledErr cause then cause
      else NewError ErrorLockUnavailable run (ReadinessState run) no_debt (Some cause))"

text \<open>The deferred release of a lease: its error is reported over the result.\<close>

definition close_lease :: "loaded_run \<Rightarrow> go_error option \<Rightarrow> stage_outcome \<times> go_error option \<Rightarrow> stage_outcome \<times> go_error option" where
  "close_lease run closeErr result = (case closeErr of None \<Rightarrow> result
     | Some e \<Rightarrow> (fst result, Some (NewError ErrorLockUnavailable run (ReadinessState run) (out_Debt (fst result))
         (join_errors [snd result, Some e]))))"

definition LockedExecute ::
  "pipeline_config \<Rightarrow> locked_calls \<Rightarrow> pipeline_calls \<Rightarrow> tracker \<Rightarrow> loaded_run \<Rightarrow> (stage_outcome \<times> go_error option) \<times> tracker" where
  "LockedExecute cfg locks calls t run =
     (case lp_ctx locks of Some e \<Rightarrow> ((zero_outcome, Some e), t)
      | None \<Rightarrow> (case lp_maintenance locks of
        Some e \<Rightarrow> ((zero_outcome, Some (refreshLockError (lp_ctxAfterMaintenance locks) run e)), t)
      | None \<Rightarrow>
        if \<not> refreshStagePublishesGeneration (Stage run) then
          (case Execute cfg calls t run of (result, s) \<Rightarrow>
            (close_lease run (lp_maintenanceClose locks) result, xs_tracker s))
        else (case lp_generation locks of
          Some e \<Rightarrow> (close_lease run (lp_maintenanceClose locks)
            (zero_outcome, Some (refreshLockError (lp_ctxAfterGeneration locks) run e)), t)
        | None \<Rightarrow> (case Execute cfg calls t run of (result, s) \<Rightarrow>
            (close_lease run (lp_maintenanceClose locks) (close_lease run (lp_generationClose locks) result), xs_tracker s)))))"

end
