(* ===== verification/RefreshPipelineProps.thy ===== *)
theory RefreshPipelineProps
  imports RefreshPipeline RefreshOutcomes
begin

text \<open>
  What the stage executor promises: the stages it moves between, that the ledger accepts its outcomes, that the
  work it publishes is sound, that a verification resumes where it stopped, and, with the runner, that a
  refresh completes only on the root that was verified in the turn before.
\<close>

section \<open>Reasoning about executions\<close>

text \<open>\<open>R\<close> holds where \<open>m\<close> returns from the stage, and \<open>Q\<close> where it goes on.\<close>

definition wp :: "'a exec \<Rightarrow> (go_error option \<Rightarrow> exec_state \<Rightarrow> bool) \<Rightarrow> ('a \<Rightarrow> exec_state \<Rightarrow> bool) \<Rightarrow> exec_state \<Rightarrow> bool" where
  "wp m R Q s = (case m s of (Inl e, s') \<Rightarrow> R e s' | (Inr x, s') \<Rightarrow> Q x s')"

named_theorems wp_intros

lemma wp_then [wp_intros]: "wp m R (\<lambda>x. wp (f x) R Q) s \<Longrightarrow> wp (x_then m f) R Q s"
  by (auto simp: wp_def x_then_def split: prod.splits sum.splits)

lemma wp_ret [wp_intros]: "Q x s \<Longrightarrow> wp (x_ret x) R Q s"
  by (simp add: wp_def x_ret_def)

lemma wp_done [wp_intros]: "R None s \<Longrightarrow> wp x_done R Q s"
  by (simp add: wp_def x_done_def)

lemma wp_return [wp_intros]: "R (Some e) (s\<lparr>xs_outcome := zero_outcome\<rparr>) \<Longrightarrow> wp (x_return e) R Q s"
  by (simp add: wp_def x_return_def)

lemma wp_outcome [wp_intros]: "Q () (s\<lparr>xs_outcome := f (xs_outcome s)\<rparr>) \<Longrightarrow> wp (x_outcome f) R Q s"
  by (simp add: wp_def x_outcome_def)

text \<open>In the rules with \<open>rest\<close>, a failed call returns an error whatever it is.\<close>

lemma wp_fail [wp_intros]: "(\<And>e. R (Some e) s) \<Longrightarrow> wp (x_fail code run e) R Q s"
  by (simp add: wp_def x_fail_def)

lemma wp_try [wp_intros]: "(\<And>e. R (Some e) s) \<Longrightarrow> (\<And>x. r = Inr x \<Longrightarrow> Q x s) \<Longrightarrow> wp (x_try code run r) R Q s"
  by (auto simp: wp_def x_try_def x_fail_def x_ret_def split: sum.splits)

lemma wp_check [wp_intros]: "(\<And>e. R (Some e) s) \<Longrightarrow> (e = None \<Longrightarrow> Q () s) \<Longrightarrow> wp (x_check code run e) R Q s"
  by (auto simp: wp_def x_check_def x_fail_def x_ret_def split: option.splits)

lemma wp_apply [wp_intros]:
  "(\<And>e. R (Some e) s) \<Longrightarrow> (\<And>outcome. f (xs_outcome s) = Inr outcome \<Longrightarrow> Q () (s\<lparr>xs_outcome := outcome\<rparr>)) \<Longrightarrow>
    wp (x_apply code run f) R Q s"
  by (auto simp: wp_def x_apply_def x_fail_def split: sum.splits)

lemma wp_counter [wp_intros]:
  "(\<And>e. Q (join_with err e) s) \<Longrightarrow>
    (\<And>outcome. add_counter field set_field delta (xs_outcome s) = Inr outcome \<Longrightarrow> Q err (s\<lparr>xs_outcome := outcome\<rparr>)) \<Longrightarrow>
    wp (x_counter field set_field err delta) R Q s"
  by (auto simp: wp_def x_counter_def split: sum.splits)

lemma wp_before_provider [wp_intros]:
  "(\<And>es outcome. before_provider_calls cfg (pc_beforeProvider calls) (xs_outcome s) = (es, outcome) \<Longrightarrow>
      Q es (s\<lparr>xs_outcome := outcome\<rparr>)) \<Longrightarrow> wp (x_before_provider cfg calls) R Q s"
  by (auto simp: wp_def x_before_provider_def split: prod.splits)

text \<open>Publishing, the tracker and the progress calls of builders leave the outcome alone.\<close>

lemma publish_now_outcome: "publish_now calls work s = (e, s') \<Longrightarrow> xs_outcome s' = xs_outcome s"
  by (auto simp: publish_now_def split: option.splits)

lemma publish_outcome: "publishStageWork calls code run work s = (r, s') \<Longrightarrow> xs_outcome s' = xs_outcome s \<and> r \<noteq> Inl None"
  by (auto simp: publishStageWork_def x_check_def x_fail_def x_ret_def dest: publish_now_outcome split: prod.splits option.splits)

lemma begin_outcome: "x_begin calls code run n known s = (r, s') \<Longrightarrow> xs_outcome s' = xs_outcome s \<and> r \<noteq> Inl None"
  by (auto simp: x_begin_def x_then_def x_try_def x_fail_def x_ret_def dest!: publish_outcome split: prod.splits sum.splits)

lemma commit_outcome: "x_commit calls code run work s = (r, s') \<Longrightarrow> xs_outcome s' = xs_outcome s \<and> r \<noteq> Inl None"
  by (auto simp: x_commit_def x_then_def x_check_def x_fail_def x_ret_def dest!: publish_outcome split: prod.splits sum.splits option.splits)

lemma progress_calls_outcome:
  "xs_outcome (snd (progress_calls calls advance ops latest s)) = xs_outcome s"
proof (induction ops arbitrary: latest s)
  case (Cons op ops)
  obtain current whole where op: "op = (current, whole)" by fastforce
  show ?case
  proof (cases "advance current whole")
    case (Inl e)
    then show ?thesis using Cons.IH [of latest s] by (auto simp: op split: prod.splits)
  next
    case (Inr work)
    obtain e s1 where s1: "publish_now calls work s = (e, s1)" by fastforce
    show ?thesis using Cons.IH [of work s1] publish_now_outcome [OF s1] by (auto simp: op Inr s1 split: prod.splits)
  qed
qed simp

lemma wp_unchanged:
  assumes "m s = (r, s')" "xs_outcome s' = xs_outcome s \<and> r \<noteq> Inl None"
    and "\<And>e t. xs_outcome t = xs_outcome s \<Longrightarrow> R (Some e) t" "\<And>x t. xs_outcome t = xs_outcome s \<Longrightarrow> Q x t"
  shows "wp m R Q s"
  using assms by (cases r) (auto simp: wp_def)

lemma wp_begin [wp_intros]:
  assumes "\<And>e t. xs_outcome t = xs_outcome s \<Longrightarrow> R (Some e) t" "\<And>x t. xs_outcome t = xs_outcome s \<Longrightarrow> Q x t"
  shows "wp (x_begin calls code run n known) R Q s"
proof -
  obtain r s' where r: "x_begin calls code run n known s = (r, s')" by fastforce
  show ?thesis by (rule wp_unchanged [where m = "x_begin calls code run n known", OF r begin_outcome [OF r]]) (use assms in auto)
qed

lemma wp_commit [wp_intros]:
  assumes "\<And>e t. xs_outcome t = xs_outcome s \<Longrightarrow> R (Some e) t" "\<And>x t. xs_outcome t = xs_outcome s \<Longrightarrow> Q x t"
  shows "wp (x_commit calls code run work) R Q s"
proof -
  obtain r s' where r: "x_commit calls code run work s = (r, s')" by fastforce
  show ?thesis by (rule wp_unchanged [where m = "x_commit calls code run work", OF r commit_outcome [OF r]]) (use assms in auto)
qed

lemma wp_progress [wp_intros]:
  assumes "\<And>x t. xs_outcome t = xs_outcome s \<Longrightarrow> Q x t"
  shows "wp (x_progress calls advance base) R Q s"
proof -
  obtain r s' where r: "progress_calls calls advance (pc_operations calls) base s = (r, s')" by fastforce
  then have "xs_outcome s' = xs_outcome s" using progress_calls_outcome [of calls advance "pc_operations calls" base s] by simp
  then show ?thesis using assms r by (simp add: wp_def x_progress_def)
qed

text \<open>Case distinctions in the middle of a stage.\<close>

lemma wp_if [wp_intros]: "(b \<Longrightarrow> wp m R Q s) \<Longrightarrow> (\<not> b \<Longrightarrow> wp n R Q s) \<Longrightarrow> wp (if b then m else n) R Q s"
  by simp

lemma wp_sum [wp_intros]:
  "(\<And>a. r = Inl a \<Longrightarrow> wp (f a) R Q s) \<Longrightarrow> (\<And>b. r = Inr b \<Longrightarrow> wp (g b) R Q s) \<Longrightarrow>
    wp (case r of Inl a \<Rightarrow> f a | Inr b \<Rightarrow> g b) R Q s"
  by (cases r) auto

lemma wp_option [wp_intros]:
  "(r = None \<Longrightarrow> wp m R Q s) \<Longrightarrow> (\<And>b. r = Some b \<Longrightarrow> wp (g b) R Q s) \<Longrightarrow> wp (case r of None \<Rightarrow> m | Some b \<Rightarrow> g b) R Q s"
  by (cases r) auto

lemma wp_prod [wp_intros]:
  "(\<And>a b. r = (a, b) \<Longrightarrow> wp (f a b) R Q s) \<Longrightarrow> wp (case r of (a, b) \<Rightarrow> f a b) R Q s"
  by (cases r) auto

lemma wp_let [wp_intros]: "(\<And>x. x = t \<Longrightarrow> wp (f x) R Q s) \<Longrightarrow> wp (let x = t in f x) R Q s"
  by simp

section \<open>The moves of a stage\<close>

definition next_stages :: "string \<Rightarrow> string list" where
  "next_stages stage =
     (if stage = SemanticRefreshProjection then [SemanticRefreshEmbedding]
      else if stage = SemanticRefreshEmbedding then [SemanticRefreshFlush]
      else if stage = SemanticRefreshFlush then [SemanticRefreshCompaction]
      else if stage = SemanticRefreshCompaction then [SemanticRefreshVerify]
      else if stage = SemanticRefreshVerify then [SemanticRefreshReadiness]
      else if stage = SemanticRefreshReadiness then [SemanticRefreshCompaction] else [])"

definition counters_grow :: "refresh_counters \<Rightarrow> refresh_counters \<Rightarrow> bool" where
  "counters_grow c c' \<longleftrightarrow> ProjectedParents c \<le> ProjectedParents c' \<and> EmbeddedChunks c \<le> EmbeddedChunks c' \<and>
     FlushedVectors c \<le> FlushedVectors c' \<and> CompactedVectors c \<le> CompactedVectors c' \<and>
     VerifiedVectors c \<le> VerifiedVectors c' \<and> SuccessorRuns c' = SuccessorRuns c"

definition moves :: "loaded_run \<Rightarrow> stage_outcome \<Rightarrow> bool" where
  "moves run outcome \<longleftrightarrow> out_NextStage outcome \<in> set (Stage run # next_stages (Stage run)) \<and>
     counters_grow (Counters run) (out_Counters outcome) \<and> 0 \<le> out_EmbeddingRevision outcome \<and>
     (out_Complete outcome \<longrightarrow> Stage run = SemanticRefreshReadiness \<and> out_NextStage outcome = SemanticRefreshReadiness) \<and>
     (out_SuccessorWatermark outcome \<noteq> None \<longrightarrow>
       out_Complete outcome \<and> ProjectionWatermark run < the (out_SuccessorWatermark outcome))"

definition sound_run :: "loaded_run \<Rightarrow> bool" where
  "sound_run run \<longleftrightarrow> 0 \<le> EmbeddingRevision run \<and> validSemanticRefreshCounters (Counters run)"

lemma counters_grow_refl [simp]: "counters_grow c c"
  by (simp add: counters_grow_def)

lemma add_counter_result:
  "add_counter field set_field delta outcome = Inr outcome' \<Longrightarrow>
    \<exists>n. field (out_Counters outcome) \<le> n \<and> outcome' = outcome\<lparr>out_Counters := set_field n (out_Counters outcome)\<rparr>"
  by (auto simp: add_counter_def addPipelineCounter_def not_less split: sum.splits if_splits
      intro!: exI [of _ "field (out_Counters outcome) + delta"])

definition counter_field :: "(refresh_counters \<Rightarrow> int) \<Rightarrow> (int \<Rightarrow> refresh_counters \<Rightarrow> refresh_counters) \<Rightarrow> bool" where
  "counter_field field set_field \<longleftrightarrow>
     (\<forall>c c' n. counters_grow c c' \<longrightarrow> field c' \<le> n \<longrightarrow> counters_grow c (set_field n c'))"

lemma counter_fields [simp]:
  "counter_field ProjectedParents set_projected" "counter_field EmbeddedChunks set_embedded"
  "counter_field FlushedVectors set_flushed" "counter_field CompactedVectors set_compacted"
  "counter_field VerifiedVectors set_verified"
  by (auto simp: counter_field_def counters_grow_def set_projected_def set_embedded_def set_flushed_def
      set_compacted_def set_verified_def)

lemma add_counter_moves:
  assumes "moves run outcome" "add_counter field set_field delta outcome = Inr outcome'" "counter_field field set_field"
  shows "moves run outcome'"
  using add_counter_result [OF assms(2)] assms(1,3) by (auto simp: moves_def counter_field_def)

text \<open>Every stage keeps the moves, once its outcome is set up, and leaves it open until it is complete.\<close>

definition moving :: "loaded_run \<Rightarrow> stage_outcome \<Rightarrow> bool" where
  "moving run outcome \<longleftrightarrow> moves run outcome \<and> \<not> out_Complete outcome"

lemma moving_update:
  "moving run outcome \<Longrightarrow> moving run (outcome\<lparr>out_Checkpoint := c\<rparr>)"
  "moving run outcome \<Longrightarrow> moving run (outcome\<lparr>out_CurrentGenerationID := g\<rparr>)"
  "moving run outcome \<Longrightarrow> moving run (outcome\<lparr>out_Debt := d\<rparr>)"
  "moving run outcome \<Longrightarrow> moving run (outcome\<lparr>out_Readiness := g\<rparr>)"
  "moving run outcome \<Longrightarrow> 0 \<le> n \<Longrightarrow> moving run (outcome\<lparr>out_EmbeddingRevision := n\<rparr>)"
  "moving run outcome \<Longrightarrow> stage \<in> set (next_stages (Stage run)) \<Longrightarrow> moving run (outcome\<lparr>out_NextStage := stage\<rparr>)"
  by (auto simp: moving_def moves_def)

lemma moving_initial: "sound_run run \<Longrightarrow> moving run (nextPipelineOutcome run (Stage run))"
  by (simp add: moving_def moves_def nextPipelineOutcome_def sound_run_def)

lemma add_counter_moving:
  "add_counter field set_field delta outcome = Inr outcome' \<Longrightarrow> counter_field field set_field \<Longrightarrow> moving run outcome \<Longrightarrow>
    moving run outcome'"
  using add_counter_moves add_counter_result by (fastforce simp: moving_def)

lemma applyFlushCount_moving:
  "applyFlushCount outcome result target = Inr outcome' \<Longrightarrow> moving run outcome \<Longrightarrow> moving run outcome'"
  by (auto simp: applyFlushCount_def elim: add_counter_moving split: if_splits)

lemma flushed_generation_moving: "moving run outcome \<Longrightarrow> moving run (flushed_generation result checkpoint outcome)"
  by (auto simp: flushed_generation_def Let_def intro!: moving_update)

lemma before_provider_moving:
  "before_provider_calls cfg bps outcome = (es, outcome') \<Longrightarrow> moving run outcome \<Longrightarrow> moving run outcome'"
proof (induction cfg bps outcome arbitrary: es outcome' rule: before_provider_calls.induct)
  case (2 cfg bp bps outcome)
  obtain e o1 where o1: "beforeProvider cfg bp outcome = (e, o1)" by fastforce
  then have "moving run o1"
    using 2(3) applyFlushCount_moving flushed_generation_moving
    by (auto simp: beforeProvider_def Let_def split: if_splits option.splits sum.splits)
  then show ?case using 2 o1 by (auto split: prod.splits)
qed simp

lemmas moving_intros = moving_update flushed_generation_moving
lemmas moving_elims = add_counter_moving applyFlushCount_moving before_provider_moving

lemma stage_distinct [simp]:
  "SemanticRefreshProjection \<noteq> SemanticRefreshEmbedding" "SemanticRefreshProjection \<noteq> SemanticRefreshFlush"
  "SemanticRefreshProjection \<noteq> SemanticRefreshCompaction" "SemanticRefreshProjection \<noteq> SemanticRefreshVerify"
  "SemanticRefreshProjection \<noteq> SemanticRefreshReadiness" "SemanticRefreshEmbedding \<noteq> SemanticRefreshFlush"
  "SemanticRefreshEmbedding \<noteq> SemanticRefreshCompaction" "SemanticRefreshEmbedding \<noteq> SemanticRefreshVerify"
  "SemanticRefreshEmbedding \<noteq> SemanticRefreshReadiness" "SemanticRefreshFlush \<noteq> SemanticRefreshCompaction"
  "SemanticRefreshFlush \<noteq> SemanticRefreshVerify" "SemanticRefreshFlush \<noteq> SemanticRefreshReadiness"
  "SemanticRefreshCompaction \<noteq> SemanticRefreshVerify" "SemanticRefreshCompaction \<noteq> SemanticRefreshReadiness"
  "SemanticRefreshVerify \<noteq> SemanticRefreshReadiness"
  by (simp_all add: run_stage_defs)

lemmas stage_distinct' [simp] = stage_distinct [symmetric]

lemma projection_moves:
  assumes "sound_run run" "Stage run = SemanticRefreshProjection"
  shows "wp (executeProjection cfg calls run) (\<lambda>_ t. moving run (xs_outcome t)) (\<lambda>_ t. moving run (xs_outcome t)) s"
  using moving_initial [OF assms(1)] unfolding executeProjection_def
  by (intro wp_intros) (auto simp: assms(2) next_stages_def intro!: moving_intros elim!: moving_elims)

lemma embedding_moves:
  assumes "sound_run run" "Stage run = SemanticRefreshEmbedding"
  shows "wp (executeEmbedding cfg calls run) (\<lambda>_ t. moving run (xs_outcome t)) (\<lambda>_ t. moving run (xs_outcome t)) s"
  using moving_initial [OF assms(1)] unfolding executeEmbedding_def
  by (intro wp_intros) (auto simp: assms(2) next_stages_def intro!: moving_intros elim!: moving_elims)

lemma flush_moves:
  assumes "sound_run run" "Stage run = SemanticRefreshFlush"
  shows "wp (executeFlush cfg calls run) (\<lambda>_ t. moving run (xs_outcome t)) (\<lambda>_ t. moving run (xs_outcome t)) s"
  using moving_initial [OF assms(1)] unfolding executeFlush_def
  by (intro wp_intros) (auto simp: assms(2) next_stages_def intro!: moving_intros elim!: moving_elims)

lemma compaction_moves:
  assumes "sound_run run" "Stage run = SemanticRefreshCompaction"
  shows "wp (executeCompaction cfg calls run) (\<lambda>_ t. moving run (xs_outcome t)) (\<lambda>_ t. moving run (xs_outcome t)) s"
  using moving_initial [OF assms(1)] unfolding executeCompaction_def
  by (intro wp_intros) (auto simp: assms(2) next_stages_def intro!: moving_intros elim!: moving_elims)

lemma verify_moves:
  assumes "sound_run run" "Stage run = SemanticRefreshVerify"
  shows "wp (executeVerify cfg calls run) (\<lambda>_ t. moving run (xs_outcome t)) (\<lambda>_ t. moving run (xs_outcome t)) s"
  using moving_initial [OF assms(1)] unfolding executeVerify_def
  by (intro wp_intros) (auto simp: assms(2) next_stages_def intro!: moving_intros elim!: moving_elims)

lemma initial_next: "out_NextStage (nextPipelineOutcome run stage) = stage"
  by (simp add: nextPipelineOutcome_def)

lemma initial_open: "\<not> out_Complete (nextPipelineOutcome run stage)"
  by (simp add: nextPipelineOutcome_def)

lemma readiness_moves:
  assumes "sound_run run" "Stage run = SemanticRefreshReadiness"
  shows "wp (executeReadiness cfg calls run) (\<lambda>_ t. moves run (xs_outcome t)) (\<lambda>_ t. moves run (xs_outcome t)) s"
proof -
  have open_: "moving run outcome \<Longrightarrow> moves run outcome" for outcome by (simp add: moving_def)
  have stays: "moving run outcome \<Longrightarrow> out_NextStage outcome = Stage run \<Longrightarrow> moves run (outcome\<lparr>out_Complete := True\<rparr>)"
    "moving run outcome \<Longrightarrow> out_NextStage outcome = Stage run \<Longrightarrow> ProjectionWatermark run < w \<Longrightarrow>
      moves run (outcome\<lparr>out_SuccessorWatermark := Some w, out_Complete := True\<rparr>)" for outcome w
    using assms(2) by (auto simp: moving_def moves_def)
  show ?thesis
    using moving_initial [OF assms(1)] unfolding executeReadiness_def
    by (intro wp_intros) (auto simp: assms(2) next_stages_def initial_next intro!: stays(2) moving_intros intro: stays(1) open_)
qed

lemma execute_moves:
  assumes "sound_run run"
  shows "wp (execute_pipeline cfg calls run) (\<lambda>e t. moves run (xs_outcome t) \<or> xs_outcome t = zero_outcome \<and> e \<noteq> None)
    (\<lambda>_ t. moves run (xs_outcome t)) s"
proof -
  have mono: "wp m R Q s \<Longrightarrow> (\<And>e t. R e t \<Longrightarrow> R' e t) \<Longrightarrow> (\<And>x t. Q x t \<Longrightarrow> Q' x t) \<Longrightarrow> wp m R' Q' s"
    for m :: "unit exec" and R R' Q Q' s by (auto simp: wp_def split: prod.splits sum.splits)
  have stage: "wp (execute_stage cfg calls run) (\<lambda>e t. moves run (xs_outcome t) \<or> xs_outcome t = zero_outcome \<and> e \<noteq> None)
    (\<lambda>_ t. moves run (xs_outcome t)) s"
    unfolding execute_stage_def
    by (intro wp_if; (rule wp_return, simp)?;
      (erule mono [OF projection_moves [OF assms]] mono [OF embedding_moves [OF assms]] mono [OF flush_moves [OF assms]]
        mono [OF compaction_moves [OF assms]] mono [OF verify_moves [OF assms]] mono [OF readiness_moves [OF assms]];
       simp add: moving_def)?)
  show ?thesis unfolding execute_pipeline_def by (intro wp_option wp_if wp_return stage) simp_all
qed

lemma Execute_moves:
  assumes "sound_run run" "Execute cfg calls t run = ((outcome, e), s)"
  shows "moves run outcome \<or> outcome = zero_outcome \<and> e \<noteq> None"
  using execute_moves [OF assms(1), of cfg calls "\<lparr>xs_outcome = zero_outcome, xs_tracker = t, xs_published = []\<rparr>"] assms(2)
  by (auto simp: wp_def Execute_def split: prod.splits sum.splits)

lemma close_lease_result [simp]:
  "fst (close_lease run ce result) = fst result"
  "snd (close_lease run ce result) = None \<longleftrightarrow> snd result = None \<and> ce = None"
  "(\<exists>x. snd (close_lease run ce result) = Some x) \<longleftrightarrow> snd result \<noteq> None \<or> ce \<noteq> None"
  by (auto simp: close_lease_def split: option.splits)

lemma LockedExecute_moves:
  assumes "sound_run run" "LockedExecute cfg locks calls t run = ((outcome, e), t')"
  shows "moves run outcome \<or> outcome = zero_outcome \<and> e \<noteq> None"
proof -
  obtain o1 e1 s1 where x: "Execute cfg calls t run = ((o1, e1), s1)" by (metis prod.exhaust)
  obtain result where r: "LockedExecute cfg locks calls t run = (result, t')" "outcome = fst result" "e = snd result"
    using assms(2) by force
  show ?thesis
    using r Execute_moves [OF assms(1) x] x
    by (auto simp: LockedExecute_def split: option.splits if_splits)
qed

lemma LockedExecute_fine:
  assumes "LockedExecute cfg locks calls t run = ((outcome, None), t')"
  shows "\<exists>s. Execute cfg calls t run = ((outcome, None), s)"
proof -
  obtain o1 e1 s1 where x: "Execute cfg calls t run = ((o1, e1), s1)" by (metis prod.exhaust)
  obtain result where r: "LockedExecute cfg locks calls t run = (result, t')" "outcome = fst result" "None = snd result"
    using assms by force
  show ?thesis
    using r x by (auto simp: LockedExecute_def eq_commute [of None] split: option.splits if_splits)
qed

text \<open>C10. The outcomes of the executor fit the ledger: whatever the store, the builders, the backend and the locks
  answer, the executor returns no outcome with an error, or an outcome that stays at the stage of the run or moves to
  the one after it (from readiness back to compaction), that lowers no counter, that completes only at
  the readiness stage, and that names a successor only with a larger watermark; and the row updated with it,
  as the runner updates it, passes every check of the table.\<close>

theorem executor_outcomes_fit_the_ledger:
  assumes "row_check r" "recorded_as r run" "LockedExecute cfg locks calls t run = ((outcome, e), t')"
  shows "outcome = zero_outcome \<and> e \<noteq> None \<or> moves run outcome \<and>
    row_check (updated_row (outcomeUpdate now run (fst (sanitizeStageOutcomeGeneration run outcome))
      SemanticRefreshRunRunning [] []) stamp r)"
proof -
  have "sound_run run" using assms(1,2) by (simp add: sound_run_def row_check_def recorded_as_def)
  note m = LockedExecute_moves [OF this assms(3)]
  moreover have "row_check (updated_row (outcomeUpdate now run (fst (sanitizeStageOutcomeGeneration run outcome))
      SemanticRefreshRunRunning [] []) stamp r)" if "moves run outcome"
  proof -
    let ?o = "fst (sanitizeStageOutcomeGeneration run outcome)"
    have same: "out_NextStage ?o = out_NextStage outcome" "out_Counters ?o = out_Counters outcome"
      "out_EmbeddingRevision ?o = out_EmbeddingRevision outcome"
      by (simp_all add: sanitizeStageOutcomeGeneration_def)
    have stage: "out_NextStage outcome \<in> set run_stages"
      using that assms(1,2) by (auto simp: moves_def next_stages_def row_check_def recorded_as_def run_stages_def split: if_splits)
    then have "out_NextStage outcome \<noteq> []" by (auto simp: run_stages_def run_stage_defs)
    moreover have "validSemanticRefreshCounters (out_Counters outcome)" "0 \<le> out_EmbeddingRevision outcome"
      using that assms(1,2)
      by (auto simp: moves_def counters_grow_def row_check_def recorded_as_def validSemanticRefreshCounters_def)
    moreover have "length (boundedDiagnostic x errorCheckpointLimit) \<le> 256" "length (boundedDiagnostic x errorMessageLimit) \<le> 512"
      "length (boundedProtocolField x errorCodeLimit) \<le> 64" "length (boundedProtocolField x errorReadinessLimit) \<le> 64" for x
      using length_diagnostic [of x] length_protocol [of x] unfolding limit_defs by blast+
    ultimately show ?thesis
      using assms(1) stage
      by (simp add: row_check_def updated_row_def outcomeUpdate_def same resumable_states_def)
  qed
  ultimately show ?thesis by blast
qed

section \<open>The verification cursor\<close>

lemma verify_prefix_text: "protocol_text verifyCheckpointPrefix"
  by (simp add: protocol_text_def verifyCheckpointPrefix_def protocol_rune_def in_bytes_def)

lemma length_verify_prefix: "length verifyCheckpointPrefix = 13"
  by (simp add: verifyCheckpointPrefix_def)

text \<open>A verification resumes where it stopped: a cursor of protocol characters that fits is accepted as a checkpoint, the
  checkpoint is stored as it is, and the next verification reads the same cursor back from the stored run.\<close>

theorem verify_resumes_at_its_cursor:
  assumes "protocol_text resume" "resume \<noteq> []" "length resume \<le> errorCheckpointLimit - 13"
  shows "\<exists>checkpoint. checkedVerifyCheckpoint resume = Inr checkpoint \<and>
    up_Checkpoint (outcomeUpdate now run (outcome\<lparr>out_Checkpoint := checkpoint\<rparr>) state code message) = checkpoint \<and>
    parseVerifyCheckpoint checkpoint = Inr resume"
proof -
  have field: "boundedProtocolField resume (errorCheckpointLimit - length verifyCheckpointPrefix) = resume"
    using assms(1,3) by (simp add: protocol_field_kept length_verify_prefix)
  let ?c = "verifyCheckpointPrefix @ resume"
  have checked: "checkedVerifyCheckpoint resume = Inr ?c"
    unfolding checkedVerifyCheckpoint_def field using assms(2) by (simp add: verifyCheckpoint_def)
  have ascii: "protocol_text ?c"
    using verify_prefix_text assms(1) by (simp add: protocol_text_def)
  have "length ?c \<le> errorCheckpointLimit" using assms(3) by (simp add: length_verify_prefix errorCheckpointLimit_def)
  note kept = protocol_diagnostic_kept [OF ascii this]
  have "?c \<noteq> ''verify:after''" "?c \<noteq> []" by (simp_all add: verifyCheckpointPrefix_def)
  then have "parseVerifyCheckpoint ?c = Inr resume"
    using checked by (simp add: parseVerifyCheckpoint_def HasPrefix_def TrimPrefix_def)
  then show ?thesis using checked kept by (simp add: outcomeUpdate_def)
qed

section \<open>What a completed refresh rests on\<close>

text \<open>In this turn, the native backend accepted the root that the store's snapshot proves to be the active one of this
  generation, for the purge epoch of the run.\<close>

definition root_verified :: "pipeline_config \<Rightarrow> pipeline_calls \<Rightarrow> loaded_run \<Rightarrow> string \<Rightarrow> bool" where
  "root_verified cfg calls run generationID \<longleftrightarrow>
     (case (pc_snapshot calls (cfg_Profile cfg) (cfg_ExactMaxChunks cfg), pc_databaseID calls) of
        (Inr s, Inr databaseID) \<Rightarrow> sn_ActiveGenerationID s = generationID \<and> sn_ActiveGenerationValid s \<and>
          sn_GlobalPurgeEpoch s = PurgeEpoch run \<and> sn_ProfilePurgeEpoch s = PurgeEpoch run \<and>
          pc_purgeEpoch calls = Inr (PurgeEpoch run) \<and>
          pc_verifyRoot calls (active_root cfg s (PurgeEpoch run) databaseID) = None
      | _ \<Rightarrow> False)"

text \<open>In this turn, the snapshot is ready, its active generation is the one of the run, and no work came after the
  run's watermark.\<close>

definition ready_at :: "pipeline_config \<Rightarrow> pipeline_calls \<Rightarrow> loaded_run \<Rightarrow> bool" where
  "ready_at cfg calls run \<longleftrightarrow>
     (case pc_snapshot calls (cfg_Profile cfg) (cfg_ExactMaxChunks cfg) of
        Inl e \<Rightarrow> False
      | Inr s \<Rightarrow> sn_ActiveGenerationID s = CurrentGenerationID run \<and>
          dec_State (Evaluate (s\<lparr>sn_Configured := True, sn_Enabled := True\<rparr>)) = StateReady \<and>
          sn_L0ReadyCount s \<le> cfg_SegmentTarget cfg \<and> pc_revision calls = Inr (ProjectionWatermark run))"

lemma add_counter_next: "add_counter field set_field n outcome = Inr outcome' \<Longrightarrow> out_NextStage outcome' = out_NextStage outcome"
  by (auto dest: add_counter_result)

lemma verifyActiveRoot_fine:
  "verifyActiveRoot cfg calls run row = None \<Longrightarrow> root_verified cfg calls run (pr_ActiveGenerationID row)"
  by (auto simp: verifyActiveRoot_def root_verified_def snapshot_proves_def split: sum.splits if_splits)

lemma verify_rests_on:
  "wp (executeVerify cfg calls run)
     (\<lambda>e t. e = None \<and> out_NextStage (xs_outcome t) = SemanticRefreshReadiness \<longrightarrow>
       out_CurrentGenerationID (xs_outcome t) = [] \<or> root_verified cfg calls run (out_CurrentGenerationID (xs_outcome t)))
     (\<lambda>_ t. False) s"
  unfolding executeVerify_def
  by (intro wp_intros) (auto simp: initial_next dest!: verifyActiveRoot_fine dest: add_counter_next)

lemma readiness_rests_on:
  "wp (executeReadiness cfg calls run)
     (\<lambda>e t. e = None \<longrightarrow> (if out_Complete (xs_outcome t) then out_SuccessorWatermark (xs_outcome t) = None \<longrightarrow> ready_at cfg calls run
        else out_NextStage (xs_outcome t) = SemanticRefreshCompaction))
     (\<lambda>_ t. False) s"
  unfolding executeReadiness_def
  by (intro wp_intros) (auto simp: ready_at_def initial_open)

lemma Execute_stage:
  assumes "Execute cfg calls t run = ((outcome, None), s)" "Stage run \<in> set run_stages"
    and "\<And>s. wp (execute_stage cfg calls run) R (\<lambda>_ t. False) s"
  shows "R None s \<and> xs_outcome s = outcome"
proof -
  let ?s = "\<lparr>xs_outcome = zero_outcome, xs_tracker = t, xs_published = []\<rparr>"
  have "execute_pipeline cfg calls run ?s = execute_stage cfg calls run ?s"
    using assms(1) by (auto simp: Execute_def execute_pipeline_def x_return_def split: option.splits if_splits)
  then show ?thesis using assms(1) assms(3) [of ?s] by (auto simp: Execute_def wp_def split: prod.splits sum.splits)
qed

lemma verify_turn:
  assumes "LockedExecute cfg locks calls t run = ((outcome, None), t')" "Stage run = SemanticRefreshVerify"
    and "out_NextStage outcome = SemanticRefreshReadiness"
  shows "out_CurrentGenerationID outcome = [] \<or> root_verified cfg calls run (out_CurrentGenerationID outcome)"
proof -
  obtain s where x: "Execute cfg calls t run = ((outcome, None), s)" using LockedExecute_fine [OF assms(1)] by blast
  have "execute_stage cfg calls run = executeVerify cfg calls run" using assms(2) by (simp add: execute_stage_def)
  from Execute_stage [OF x, unfolded this, OF _ verify_rests_on] show ?thesis
    using assms(2,3) by (auto simp: run_stages_def)
qed

lemma readiness_turn:
  assumes "LockedExecute cfg locks calls t run = ((outcome, None), t')" "Stage run = SemanticRefreshReadiness"
  shows "if out_Complete outcome then out_SuccessorWatermark outcome = None \<longrightarrow> ready_at cfg calls run
    else out_NextStage outcome = SemanticRefreshCompaction"
proof -
  obtain s where x: "Execute cfg calls t run = ((outcome, None), s)" using LockedExecute_fine [OF assms(1)] by blast
  have "execute_stage cfg calls run = executeReadiness cfg calls run" using assms(2) by (simp add: execute_stage_def)
  from Execute_stage [OF x, unfolded this, OF _ readiness_rests_on] show ?thesis
    using assms(2) by (auto simp: run_stages_def split: if_splits)
qed

lemma recorded_sound:
  "schema_ok t \<and> recorded_in t run \<Longrightarrow> sound_run run \<and> Stage run \<in> set run_stages"
  by (auto simp: recorded_in_def recorded_as_def schema_ok_def list_all_iff row_check_def sound_run_def)

text \<open>A turn whose outcome and error are those of the locked executor.\<close>

definition turn_of :: "pipeline_config \<Rightarrow> locked_calls \<times> pipeline_calls \<times> tracker \<Rightarrow> loaded_run \<times> stage_event \<times> 'l \<Rightarrow> bool" where
  "turn_of cfg answers turn = (case (answers, turn) of ((locks, calls, t), (run, ev, _)) \<Rightarrow>
     (ev_outcome ev, ev_error ev) = fst (LockedExecute cfg locks calls t run))"

text \<open>C8. A refresh completes only on the root it verified: when a run completes without a successor and its last turn is not
  the first one since it was started or resumed, then in that turn the snapshot of the store was ready, its
  active generation was the one the run holds, and no work came after the run's watermark; and the turn
  before was a verification that either found no active generation or had the native backend accept the root of exactly
  that generation, as the store's snapshot describes it, for the purge epoch of the run. Nothing is
  assumed of what the store, the builders, the backend, the locks, the ledger or the context answer.\<close>

theorem refresh_completes_on_the_verified_root:
  assumes "schema_ok (lw_table w)" "recorded_in (lw_table w) run"
    and "stage_trace (store_ledger env) req newID evs run d c w = trace" "Suc i < length trace"
    and "list_all2 (turn_of cfg) answers trace"
    and "trace ! i = (before, evb, wb)" "answers ! i = (locksb, callsb, tb)"
    and "trace ! Suc i = (final, ev, w')" "answers ! Suc i = (locks, calls, t)"
    and "ev_error ev = None" "out_Complete (ev_outcome ev)" "out_SuccessorWatermark (ev_outcome ev) = None"
  shows "ready_at cfg calls final \<and> Stage before = SemanticRefreshVerify \<and> PurgeEpoch before = PurgeEpoch final \<and>
    (CurrentGenerationID final = [] \<or> root_verified cfg callsb before (CurrentGenerationID final))"
proof -
  have step: "checkpointed before evb final"
    using st.trace_checkpointed [OF assms(1) st.recorded_known [OF assms(2)] follows_refl assms(3,4)] assms(6,8) by simp
  have sound: "sound_run r \<and> Stage r \<in> set run_stages" if "trace ! j = (r, x, l)" "j < length trace" for r j x l
    using st.trace_recorded [OF assms(1,2,3) that(2,1)] by (rule recorded_sound)
  have turns: "turn_of cfg (answers ! j) (trace ! j)" if "j < length trace" for j
    using assms(5) that by (simp add: list_all2_conv_all_nth)
  obtain tf where last: "LockedExecute cfg locks calls t final = ((ev_outcome ev, None), tf)"
    using turns [OF assms(4)] assms(8,9,10) by (cases "LockedExecute cfg locks calls t final") (auto simp: turn_of_def)
  obtain tv where prev: "LockedExecute cfg locksb callsb tb before = ((ev_outcome evb, None), tv)"
    using turns [of i] assms(4,6,7) step
    by (cases "LockedExecute cfg locksb callsb tb before") (auto simp: turn_of_def checkpointed_def)
  have final: "Stage final = SemanticRefreshReadiness"
    using LockedExecute_moves [OF _ last] sound [OF assms(8,4)] assms(11) by (auto simp: moves_def)
  have m: "moves before (ev_outcome evb)" and stage: "Stage before \<in> set run_stages"
    using LockedExecute_moves [OF _ prev] sound [OF assms(6)] assms(4) by auto
  then have "out_NextStage (ev_outcome evb) \<noteq> []"
    by (auto simp: moves_def next_stages_def run_stages_def run_stage_defs split: if_splits)
  then have next_stage: "out_NextStage (ev_outcome evb) = SemanticRefreshReadiness"
    using step final by (simp add: checkpointed_def)
  have "Stage before \<noteq> SemanticRefreshReadiness"
    using readiness_turn [OF prev] next_stage step by (auto simp: checkpointed_def)
  then have before: "Stage before = SemanticRefreshVerify"
    using m next_stage by (auto simp: moves_def next_stages_def split: if_splits)
  have "ready_at cfg calls final" using readiness_turn [OF last final] assms(11,12) by simp
  moreover have "CurrentGenerationID final = [] \<or> root_verified cfg callsb before (CurrentGenerationID final)"
    using verify_turn [OF prev before next_stage] step by (simp add: checkpointed_def)
  moreover have "PurgeEpoch before = PurgeEpoch final" using step by (simp add: checkpointed_def follows_def same_work_def)
  ultimately show ?thesis using before by blast
qed

section \<open>An example\<close>

definition example_config :: pipeline_config where
  "example_config = \<lparr>cfg_Profile = \<lparr>pf_Provider = ''o'', pf_Model = ''m'', pf_ProjectionVersion = ProjectionVersion,
       pf_ChunkerVersion = Version, pf_Representation = RepresentationDenseF32, pf_Normalization = NormalizationL2,
       pf_Dimensions = 4\<rparr>, cfg_ProfileID = ''p'', cfg_CacheDir = ''c'', cfg_ExactMaxChunks = 25000, cfg_ProjectionBatch = 100,
     cfg_EmbeddingBatch = 16, cfg_SegmentTarget = 5000, cfg_SegmentHardLimit = 10000\<rparr>"

definition example_snapshot :: snapshot where
  "example_snapshot = ready_snapshot\<lparr>sn_ActiveGenerationID := ''g'', sn_ActiveGenerationValid := True,
     sn_ActiveSnapshotRevision := 5, sn_ActiveGenerationRootDescriptorSHA256 := ''d''\<rparr>"

definition example_calls :: pipeline_calls where
  "example_calls = \<lparr>pc_ctx = None, pc_publish = None, pc_countDirty = (\<lambda>_. Inr 0),
     pc_projection = (\<lambda>_ _ _. (\<lparr>pp_Current = 0, pp_Generated = 0, pp_Scanned = 0, pp_HasCheckpoint = False, pp_HasMore = False,
       pp_Remaining = 0\<rparr>, None)),
     pc_countPending = (\<lambda>_. Inr 0), pc_beforeProvider = [],
     pc_embed = (\<lambda>_ _. (\<lparr>er_Revision = 5, er_Generated = 0, er_Scanned = 0, er_HasMore = False\<rparr>, None)),
     pc_profile = (\<lambda>_. Inr \<lparr>pr_L0ReadyCount = 5, pr_ActiveGenerationID = ''g'', pr_ActiveSnapshotRevision = 5, pr_PurgeEpoch = 0\<rparr>),
     pc_operations = [(5, 0)],
     pc_flush = (\<lambda>_ _. (\<lparr>fr_Flushed = 0, fr_Indexed = 0, fr_GenerationID = [], fr_SnapshotRevision = 0\<rparr>, None)),
     pc_dangling = (\<lambda>_. Inr None), pc_databaseID = Inr ''b'', pc_verifyRoot = (\<lambda>_. None), pc_reactivate = (\<lambda>_. None),
     pc_compact = (\<lambda>_. (\<lparr>cr_None = True, cr_GenerationID = [], cr_StreamedLiveMembers = 0\<rparr>, None)),
     pc_vectorsAfter = (\<lambda>_ _. Inr 5), pc_verify = (\<lambda>_ _ _. (\<lparr>vp_Scanned = 5, vp_Resume = [], vp_HasMore = False\<rparr>, None)),
     pc_snapshot = (\<lambda>_ _. Inr example_snapshot), pc_purgeEpoch = Inr 0, pc_revision = Inr 7\<rparr>"

definition free_locks :: locked_calls where
  "free_locks = \<lparr>lp_ctx = None, lp_maintenance = None, lp_ctxAfterMaintenance = None, lp_generation = None,
     lp_ctxAfterGeneration = None, lp_generationClose = None, lp_maintenanceClose = None\<rparr>"

definition verify_run :: loaded_run where
  "verify_run = example_started\<lparr>Stage := SemanticRefreshVerify\<rparr>"

definition verify_row :: stored_run where
  "verify_row = example_row\<lparr>Stage := SemanticRefreshVerify\<rparr>"

definition verified_outcome :: stage_outcome where
  "verified_outcome = zero_outcome\<lparr>out_NextStage := SemanticRefreshReadiness, out_Checkpoint := ''readiness:state'',
     out_Counters := zero_counters\<lparr>VerifiedVectors := 5\<rparr>, out_CurrentGenerationID := ''g''\<rparr>"

definition verified_run :: loaded_run where
  "verified_run = example_started\<lparr>Stage := SemanticRefreshReadiness, Checkpoint := ''readiness:state'', Version := 2,
     Counters := zero_counters\<lparr>VerifiedVectors := 5\<rparr>, CurrentGenerationID := ''g''\<rparr>"

definition ready_outcome :: stage_outcome where
  "ready_outcome = verified_outcome\<lparr>out_Checkpoint := ''readiness:state=ready'', out_Readiness := ''ready'',
     out_Debt := pipelineDebt example_snapshot, out_Complete := True\<rparr>"

lemma example_texts:
  "boundedProtocolField ''g'' generationIDLimit = ''g''" "boundedProtocolField ''ready'' errorReadinessLimit = ''ready''"
  "boundedProtocolField ''readiness:state'' errorCheckpointLimit = ''readiness:state''"
  "boundedDiagnostic ''readiness:state'' errorCheckpointLimit = ''readiness:state''" "TrimSpace ''d'' = ''d''" "TrimSpace ''b'' = ''b''"
  by (simp_all add: protocol_field_kept protocol_diagnostic_kept protocol_text_def protocol_rune_def in_bytes_def limit_defs
      TrimSpace_visible visible_def)

lemma example_evaluated: "dec_State (Evaluate (example_snapshot\<lparr>sn_Configured := True, sn_Enabled := True\<rparr>)) = ''ready''"
  by (simp add: Evaluate_def example_snapshot_def ready_snapshot_def profile_inconsistent_def ratioAtMost_def ratioAtLeast_def
      int64_mul_def int64_add_def projectionComplete_def embeddingsComplete_def coverageReady_def evaluate_complete_def
      CatchUpL0Limit_def ReadyL0Target_def Let_def StateReady_def)

lemmas executor_defs = LockedExecute_def Execute_def execute_pipeline_def execute_stage_def validateEffectiveSegmentBoundaries_def
  x_then_def x_ret_def x_done_def x_outcome_def x_try_def x_check_def x_begin_def x_commit_def x_progress_def x_counter_def
  publishStageWork_def publish_now_def close_lease_def free_locks_def refreshStagePublishesGeneration_def
  tracker_begin_def tracker_commit_def stage_work_validate_def new_tracker_def no_work_def advanceStageWork_def
  add_counter_def addPipelineCounter_def int64_max_def

lemmas segment_defs = RetrievalSegmentTarget_def RetrievalSegmentHardLimit_def

lemma example_snapshot_fields:
  "sn_ActiveGenerationID example_snapshot = ''g''" "sn_ActiveGenerationValid example_snapshot"
  "sn_ActiveSnapshotRevision example_snapshot = 5" "sn_ActiveGenerationRootDescriptorSHA256 example_snapshot = ''d''"
  "sn_ProfilePurgeEpoch example_snapshot = 0" "sn_GlobalPurgeEpoch example_snapshot = 0" "sn_L0ReadyCount example_snapshot = 5"
  by (simp_all add: example_snapshot_def ready_snapshot_def)

lemma verify_example: "fst (LockedExecute example_config free_locks example_calls new_tracker verify_run) = (verified_outcome, None)"
  by (simp add: executor_defs executeVerify_def example_config_def example_calls_def segment_defs verify_run_def
      nextPipelineOutcome_def parseVerifyCheckpoint_def settled_work_def int64_add_def set_verified_def verifyActiveRoot_def
      snapshot_proves_def example_snapshot_fields example_texts readinessCheckpoint_def verified_outcome_def zero_outcome_def
      zero_counters_def Let_def)

lemma ready_example: "fst (LockedExecute example_config free_locks example_calls new_tracker verified_run) = (ready_outcome, None)"
  by (simp add: executor_defs executeReadiness_def example_config_def example_calls_def segment_defs verified_run_def
      nextPipelineOutcome_def example_snapshot_fields example_texts example_evaluated readinessCheckpoint_def StateReady_def
      ready_outcome_def verified_outcome_def zero_outcome_def zero_counters_def Let_def)

definition verified_row :: stored_run where
  "verified_row = updated_row (outcomeUpdate example_now verify_run verified_outcome SemanticRefreshRunRunning [] [])
     (refresh_stamp example_now) verify_row"

lemma verified_loaded: "loaded verified_row = verified_run"
  by (simp add: verified_row_def verified_run_def verify_run_def verify_row_def loaded_def updated_row_def outcomeUpdate_def
      verified_outcome_def zero_outcome_def example_texts example_started_def example_row_def new_row_def example_input_def
      run_stage_defs)

lemma example_verify_trace:
  "\<exists>w'. stage_trace (store_ledger calm_env) example_request (Inr example_id) [quiet_turn verified_outcome, quiet_turn ready_outcome]
      verify_run no_debt None (fresh_world [verify_row]) =
    [(verify_run, quiet_turn verified_outcome, fresh_world [verify_row]), (verified_run, quiet_turn ready_outcome, w')]"
proof -
  have o: "verified_outcome \<noteq> zero_outcome" "validGenerationID (out_CurrentGenerationID verified_outcome)" "\<not> out_Complete verified_outcome"
    "\<not> successor_too_low verified_outcome r" for r
    by (simp_all add: verified_outcome_def zero_outcome_def run_stage_defs validGenerationID_def example_texts generationIDLimit_def
        successor_too_low_def protocol_field_kept protocol_text_def protocol_rune_def in_bytes_def)
  have "row_check verified_row"
    using example_row_simps
    by (simp add: verified_row_def verify_row_def verify_run_def verified_outcome_def example_update_defs example_texts limit_defs)
  moreover have "resumable verify_row" "RunID verify_row = RunID verify_run" "refresh_run.Version verify_row = refresh_run.Version verify_run"
    "CreatedAt verify_row = refresh_stamp example_now"
    by (simp_all add: verify_row_def verify_run_def resumable_def resumable_states_def)
  ultimately have "stage_step (store_ledger calm_env) example_request (Inr example_id) (quiet_turn verified_outcome) verify_run
      no_debt None (fresh_world [verify_row]) =
    (Inr (verified_run, out_Debt verified_outcome), None, one_row verified_row 1)"
    using calm_turn [of verified_outcome verify_row verify_run "Inr example_id" no_debt 0] o verified_loaded
    by (simp add: fresh_world_def flip: verified_row_def)
  then show ?thesis by (simp split: prod.splits sum.splits)
qed

lemma verify_row_schema: "schema_ok [verify_row]" "recorded_in [verify_row] verify_run"
proof -
  have "row_check verify_row"
    using example_row_simps(12) unfolding row_check_def by (simp add: verify_row_def run_stages_def)
  then show "schema_ok [verify_row]" by (rule one_row_schema)
  show "recorded_in [verify_row] verify_run"
    by (simp add: recorded_in_def recorded_as_def verify_row_def verify_run_def example_row_def new_row_def example_input_def
        example_started_def)
qed

theorem refresh_completes_on_the_verified_root_witness:
  "ready_at example_config example_calls verified_run \<and> root_verified example_config example_calls verify_run ''g''"
proof -
  obtain w' where tr: "stage_trace (store_ledger calm_env) example_request (Inr example_id)
      [quiet_turn verified_outcome, quiet_turn ready_outcome] verify_run no_debt None (fresh_world [verify_row]) =
    [(verify_run, quiet_turn verified_outcome, fresh_world [verify_row]), (verified_run, quiet_turn ready_outcome, w')]"
    using example_verify_trace by blast
  have turns: "list_all2 (turn_of example_config) [(free_locks, example_calls, new_tracker), (free_locks, example_calls, new_tracker)]
    [(verify_run, quiet_turn verified_outcome, fresh_world [verify_row]), (verified_run, quiet_turn ready_outcome, w')]"
    by (simp add: turn_of_def verify_example ready_example)
  have last: "out_Complete ready_outcome" "out_SuccessorWatermark ready_outcome = None" and gen: "CurrentGenerationID verified_run = ''g''"
    by (simp_all add: ready_outcome_def verified_outcome_def zero_outcome_def verified_run_def)
  have "ready_at example_config example_calls verified_run \<and> Stage verify_run = SemanticRefreshVerify \<and>
      PurgeEpoch verify_run = PurgeEpoch verified_run \<and>
      (CurrentGenerationID verified_run = [] \<or> root_verified example_config example_calls verify_run (CurrentGenerationID verified_run))"
    by (rule refresh_completes_on_the_verified_root [OF _ _ tr _ turns, where i = 0 and evb = "quiet_turn verified_outcome"
        and wb = "fresh_world [verify_row]" and locksb = free_locks and tb = new_tracker and ev = "quiet_turn ready_outcome"
        and w' = w' and locks = free_locks and t = new_tracker])
      (simp_all add: last verify_row_schema fresh_world_def)
  then show ?thesis by (simp add: gen)
qed

theorem executor_outcomes_fit_the_ledger_witness:
  "row_check (updated_row (outcomeUpdate example_now verify_run verified_outcome SemanticRefreshRunRunning [] []) [] verify_row)"
proof -
  obtain t' where x: "LockedExecute example_config free_locks example_calls new_tracker verify_run = ((verified_outcome, None), t')"
    using verify_example by (metis prod.collapse)
  have "row_check verify_row" using verify_row_schema(1) by (simp add: schema_ok_def)
  moreover have "recorded_as verify_row verify_run" using verify_row_schema(2) by (simp add: recorded_in_def)
  moreover have "fst (sanitizeStageOutcomeGeneration verify_run verified_outcome) = verified_outcome"
    by (simp add: sanitizeStageOutcomeGeneration_def verified_outcome_def validGenerationID_def example_texts generationIDLimit_def
        protocol_field_kept protocol_text_def protocol_rune_def in_bytes_def)
  ultimately show ?thesis using executor_outcomes_fit_the_ledger [OF _ _ x, of verify_row example_now "[]"] by simp
qed

theorem verify_resumes_at_its_cursor_witness:
  "checkedVerifyCheckpoint ''chunk:7'' = Inr ''verify:after=chunk:7'' \<and> parseVerifyCheckpoint ''verify:after=chunk:7'' = Inr ''chunk:7''"
proof -
  have "protocol_text ''chunk:7''" by (simp add: protocol_text_def protocol_rune_def in_bytes_def)
  moreover from this have "checkedVerifyCheckpoint ''chunk:7'' = Inr ''verify:after=chunk:7''"
    by (simp add: checkedVerifyCheckpoint_def verifyCheckpoint_def verifyCheckpointPrefix_def errorCheckpointLimit_def
        protocol_field_kept)
  ultimately show ?thesis
    using verify_resumes_at_its_cursor [of "''chunk:7''" example_now example_started zero_outcome "[]" "[]" "[]"]
    by (simp add: errorCheckpointLimit_def)
qed

end
