(* ===== verification/RefreshProgress.thy ===== *)
theory RefreshProgress
  imports RefreshPipelineProps
begin

text \<open>
  The progress that the stage executor publishes (\<open>pipeline_progress.go\<close> and its callers in
  \<open>pipeline.go\<close> of \<open>internal/semanticrefresh\<close>): it is always valid, and within a stage it never falls
  behind the work that was committed before.
\<close>

section \<open>Good work\<close>

definition start_current :: "loaded_run \<Rightarrow> tracker \<Rightarrow> int" where
  "start_current run t =
     (if tr_runID t = RunID run \<and> tr_stage t = Stage run \<and> tr_initialized t then sw_Current (tr_committed t) else 0)"

definition good_work :: "int \<Rightarrow> stage_work \<Rightarrow> bool" where
  "good_work c0 w \<longleftrightarrow> stage_work_validate w = None \<and> c0 \<le> sw_Current w"

definition good_base :: "int \<Rightarrow> stage_work \<Rightarrow> bool" where
  "good_base c0 w \<longleftrightarrow> good_work c0 w \<and> sw_Pass w < int64_max"

definition good_state :: "int \<Rightarrow> exec_state \<Rightarrow> bool" where
  "good_state c0 s \<longleftrightarrow> good_work c0 (tr_committed (xs_tracker s)) \<and> list_all (good_work c0) (xs_published s)"

lemma good_state_outcome [simp]: "good_state c0 (s\<lparr>xs_outcome := x\<rparr>) = good_state c0 s"
  by (simp add: good_state_def)

lemma advance_good: "advanceStageWork base current whole known = Inr w \<Longrightarrow> good_work c0 base \<Longrightarrow> good_work c0 w"
  by (auto simp: advanceStageWork_def good_work_def Let_def split: if_splits option.splits)

lemma base_good: "good_base c0 w \<Longrightarrow> good_work c0 w"
  by (simp add: good_base_def)

lemma settled_good:
  "settled_work base latest n whole known = Inr w \<Longrightarrow> good_work c0 base \<Longrightarrow> good_work c0 latest \<Longrightarrow> good_work c0 w"
  by (auto simp: settled_work_def dest: advance_good split: if_splits)

lemma with_pass_good:
  "with_pass (int64_add (sw_Pass base) 1) r = Inr w \<Longrightarrow> good_base c0 base \<Longrightarrow> (\<And>w. r = Inr w \<Longrightarrow> good_work c0 w) \<Longrightarrow> good_work c0 w"
  by (auto simp: with_pass_def good_work_def good_base_def stage_work_validate_def int64_add_exact is_int64_def int64_min_def
      int64_max_def split: sum.splits if_splits)

lemma settled_pass_good:
  "settled_pass base latest (int64_add (sw_Pass base) 1) n = Inr w \<Longrightarrow> good_base c0 base \<Longrightarrow> good_work c0 latest \<Longrightarrow> good_work c0 w"
  by (auto simp: settled_pass_def elim!: with_pass_good dest: advance_good base_good split: if_splits)

lemma whole_work_good: "good_base c0 base \<Longrightarrow> good_work c0 (whole_work base)"
  by (auto simp: whole_work_def good_base_def good_work_def stage_work_validate_def split: if_splits)

section \<open>Publishing keeps it good\<close>

lemma publish_now_good: "publish_now calls work s = (e, s') \<Longrightarrow> good_state c0 s \<Longrightarrow> good_work c0 work \<Longrightarrow> good_state c0 s'"
  by (auto simp: publish_now_def good_state_def split: option.splits)

lemma publish_good:
  "publishStageWork calls code run work s = (r, s') \<Longrightarrow> good_state c0 s \<Longrightarrow> good_work c0 work \<Longrightarrow> good_state c0 s' \<and> r \<noteq> Inl None"
  by (auto simp: publishStageWork_def x_check_def x_fail_def x_ret_def dest: publish_now_good split: prod.splits option.splits)

lemma begin_good:
  assumes "tracker_begin run n known t = (t', r)" "c0 = start_current run t" "stage_work_validate (tr_committed t) = None"
    and "sw_Pass (tr_committed t) < int64_max"
  shows "good_work c0 (tr_committed t') \<and> (\<forall>base. r = Inr base \<longrightarrow> good_base c0 base)"
proof (cases "n < 0")
  case True
  have "good_work c0 (tr_committed t)"
    using assms(2,3) by (auto simp: start_current_def good_work_def stage_work_validate_def split: if_splits)
  then show ?thesis using assms(1) True by (auto simp: tracker_begin_def)
next
  case n: False
  define u where "u = (if tr_runID t \<noteq> RunID run \<or> tr_stage t \<noteq> Stage run
    then \<lparr>tr_runID = RunID run, tr_stage = Stage run, tr_initialized = False, tr_committed = no_work\<rparr> else t)"
  note called = assms(1) [unfolded tracker_begin_def, folded u_def]
  show ?thesis
  proof (cases "tr_initialized u")
    case False
    then have "c0 = 0" using assms(2) by (auto simp: u_def start_current_def split: if_splits)
    then have "good_base c0 (no_work\<lparr>sw_Total := n, sw_TotalKnown := known\<rparr>)"
      using n by (simp add: good_base_def good_work_def stage_work_validate_def no_work_def int64_max_def)
    then show ?thesis using called n False by (auto simp: Let_def good_base_def)
  next
    case True
    then have u: "u = t" and c0: "c0 = sw_Current (tr_committed t)"
      using assms(2) by (auto simp: u_def start_current_def split: if_splits)
    have good: "good_base c0 (tr_committed t)" using assms(3,4) c0 by (simp add: good_base_def good_work_def)
    have "good_base c0 (tr_committed t\<lparr>sw_Total := total', sw_TotalKnown := True\<rparr>)"
      if "sw_Current (tr_committed t) \<le> total'" for total'
      using good that by (auto simp: good_base_def good_work_def stage_work_validate_def split: if_splits)
    moreover have "sw_Current (tr_committed t) \<le> sw_Total (tr_committed t)" if "sw_TotalKnown (tr_committed t)"
      using assms(3) that by (auto simp: stage_work_validate_def split: if_splits)
    moreover have "good_base c0 (tr_committed t\<lparr>sw_TotalKnown := True\<rparr>)" if "sw_TotalKnown (tr_committed t)"
      using good that by (simp add: good_base_def good_work_def stage_work_validate_def split: if_splits)
    ultimately show ?thesis
      using called n True good unfolding u
      by (cases known) (auto simp: Let_def good_base_def split: if_splits)
  qed
qed

lemma wp_work_begin:
  assumes "good_state c0 s" "c0 = start_current run (xs_tracker s)" "sw_Pass (tr_committed (xs_tracker s)) < int64_max"
    and "\<And>e t. good_state c0 t \<Longrightarrow> R (Some e) t" "\<And>base t. good_state c0 t \<Longrightarrow> good_base c0 base \<Longrightarrow> Q base t"
  shows "wp (x_begin calls code run n known) R Q s"
proof -
  obtain t r where t: "tracker_begin run n known (xs_tracker s) = (t, r)" by fastforce
  have v: "stage_work_validate (tr_committed (xs_tracker s)) = None" using assms(1) by (simp add: good_state_def good_work_def)
  note b = begin_good [OF t assms(2) v assms(3)]
  have g: "good_state c0 (s\<lparr>xs_tracker := t\<rparr>)" using assms(1) b by (simp add: good_state_def)
  show ?thesis
  proof (cases r)
    case (Inl e)
    then show ?thesis using assms(4) [OF g] t by (simp add: wp_def x_begin_def x_then_def x_try_def x_fail_def)
  next
    case (Inr base)
    obtain p s' where p: "publishStageWork calls code run base (s\<lparr>xs_tracker := t\<rparr>) = (p, s')" by fastforce
    then have "good_state c0 s' \<and> p \<noteq> Inl None" using publish_good [OF p g] b Inr by (simp add: good_base_def)
    then show ?thesis
      using assms(4,5) b Inr t p by (cases p) (auto simp: wp_def x_begin_def x_then_def x_try_def x_ret_def)
  qed
qed

lemma wp_work_commit:
  assumes "good_state c0 s" "good_work c0 work"
    and "\<And>e t. good_state c0 t \<Longrightarrow> R (Some e) t" "\<And>t. good_state c0 t \<Longrightarrow> Q () t"
  shows "wp (x_commit calls code run work) R Q s"
proof -
  obtain t e where t: "tracker_commit run work (xs_tracker s) = (t, e)" by fastforce
  then have g: "good_state c0 (s\<lparr>xs_tracker := t\<rparr>)"
    using assms(1,2) by (auto simp: tracker_commit_def good_state_def split: option.splits if_splits)
  show ?thesis
  proof (cases e)
    case (Some x)
    then show ?thesis using assms(3) [OF g] t by (simp add: wp_def x_commit_def x_then_def x_check_def x_fail_def)
  next
    case None
    obtain p s' where p: "publishStageWork calls code run work (s\<lparr>xs_tracker := t\<rparr>) = (p, s')" by fastforce
    then have "good_state c0 s' \<and> p \<noteq> Inl None" using publish_good [OF p g assms(2)] by simp
    then show ?thesis
      using assms(3,4) None t p by (cases p) (auto simp: wp_def x_commit_def x_then_def x_check_def x_ret_def)
  qed
qed

lemma progress_calls_good:
  assumes "good_state c0 s" "good_work c0 latest" "\<And>c w work. advance c w = Inr work \<Longrightarrow> good_work c0 work"
  shows "good_state c0 (snd (progress_calls calls advance ops latest s)) \<and>
    good_work c0 (snd (fst (progress_calls calls advance ops latest s)))"
  using assms(1,2)
proof (induction ops arbitrary: latest s)
  case (Cons op ops)
  obtain current whole where op: "op = (current, whole)" by fastforce
  show ?case
  proof (cases "advance current whole")
    case (Inl e)
    then show ?thesis using Cons.IH [OF Cons.prems] by (auto simp: op split: prod.splits)
  next
    case (Inr work)
    obtain e s1 where s1: "publish_now calls work s = (e, s1)" by fastforce
    show ?thesis
      using Cons.IH [OF publish_now_good [OF s1 Cons.prems(1) assms(3) [OF Inr]] assms(3) [OF Inr]]
      by (auto simp: op Inr s1 split: prod.splits)
  qed
qed simp

lemma wp_work_progress:
  assumes "good_state c0 s" "good_work c0 base" "\<And>c w work. advance c w = Inr work \<Longrightarrow> good_work c0 work"
    and "\<And>called latest t. good_state c0 t \<Longrightarrow> good_work c0 latest \<Longrightarrow> Q (called, latest) t"
  shows "wp (x_progress calls advance base) R Q s"
proof -
  obtain called latest s' where r: "progress_calls calls advance (pc_operations calls) base s = ((called, latest), s')"
    by (metis prod.exhaust)
  then show ?thesis
    using progress_calls_good [OF assms(1,2), of advance calls "pc_operations calls"] assms(3,4)
    by (simp add: wp_def x_progress_def)
qed

lemmas wp_work = wp_then wp_ret wp_done wp_return wp_outcome wp_fail wp_try wp_check wp_apply wp_counter wp_before_provider
  wp_if wp_sum wp_option wp_prod wp_let wp_work_begin wp_work_commit wp_work_progress

lemma advance_pass_good:
  "with_pass (int64_add (sw_Pass base) 1) (advanceStageWork base n whole known) = Inr w \<Longrightarrow> good_base c0 base \<Longrightarrow> good_work c0 w"
  by (erule with_pass_good) (auto dest: advance_good base_good)

lemmas work_dests = base_good advance_good settled_good settled_pass_good advance_pass_good whole_work_good

lemma projection_work:
  assumes "good_state c0 s" "c0 = start_current run (xs_tracker s)" "sw_Pass (tr_committed (xs_tracker s)) < int64_max"
  shows "wp (executeProjection cfg calls run) (\<lambda>_. good_state c0) (\<lambda>_. good_state c0) s"
  using assms unfolding executeProjection_def by (intro wp_work) (auto dest: work_dests)

lemma embedding_work:
  assumes "good_state c0 s" "c0 = start_current run (xs_tracker s)" "sw_Pass (tr_committed (xs_tracker s)) < int64_max"
  shows "wp (executeEmbedding cfg calls run) (\<lambda>_. good_state c0) (\<lambda>_. good_state c0) s"
  using assms unfolding executeEmbedding_def by (intro wp_work) (auto dest: work_dests)

lemma flush_work:
  assumes "good_state c0 s" "c0 = start_current run (xs_tracker s)" "sw_Pass (tr_committed (xs_tracker s)) < int64_max"
  shows "wp (executeFlush cfg calls run) (\<lambda>_. good_state c0) (\<lambda>_. good_state c0) s"
  using assms unfolding executeFlush_def by (intro wp_work) (auto dest: work_dests)

lemma compaction_work:
  assumes "good_state c0 s" "c0 = start_current run (xs_tracker s)" "sw_Pass (tr_committed (xs_tracker s)) < int64_max"
  shows "wp (executeCompaction cfg calls run) (\<lambda>_. good_state c0) (\<lambda>_. good_state c0) s"
  using assms unfolding executeCompaction_def by (intro wp_work) (auto dest: work_dests)

lemma verify_work:
  assumes "good_state c0 s" "c0 = start_current run (xs_tracker s)" "sw_Pass (tr_committed (xs_tracker s)) < int64_max"
  shows "wp (executeVerify cfg calls run) (\<lambda>_. good_state c0) (\<lambda>_. good_state c0) s"
  using assms unfolding executeVerify_def by (intro wp_work) (auto dest: work_dests)

lemma readiness_work:
  assumes "good_state c0 s" "c0 = start_current run (xs_tracker s)" "sw_Pass (tr_committed (xs_tracker s)) < int64_max"
  shows "wp (executeReadiness cfg calls run) (\<lambda>_. good_state c0) (\<lambda>_. good_state c0) s"
  using assms unfolding executeReadiness_def by (intro wp_work) (auto dest: work_dests)

lemma execute_work:
  assumes "good_state c0 s" "c0 = start_current run (xs_tracker s)" "sw_Pass (tr_committed (xs_tracker s)) < int64_max"
  shows "wp (execute_pipeline cfg calls run) (\<lambda>_. good_state c0) (\<lambda>_. good_state c0) s"
  unfolding execute_pipeline_def execute_stage_def
  by (intro wp_option wp_if wp_return projection_work embedding_work flush_work compaction_work verify_work readiness_work)
    (use assms in simp_all)

text \<open>C13. Published progress is sound: if the committed work of the tracker is valid, then every work that one execution
  publishes, also from the progress calls of a builder with any numbers, is valid (nothing negative, and a known
  total that is not below the current value), and never below the work already committed to the same stage of the
  same run; and so is the work that is committed after it. No sum overflows.\<close>

theorem published_work_is_sound:
  assumes "stage_work_validate (tr_committed t) = None" "sw_Pass (tr_committed t) < int64_max"
    and "Execute cfg calls t run = (result, s)"
  shows "list_all (\<lambda>w. stage_work_validate w = None \<and> start_current run t \<le> sw_Current w)
    (tr_committed (xs_tracker s) # xs_published s)"
proof -
  let ?s = "\<lparr>xs_outcome = zero_outcome, xs_tracker = t, xs_published = []\<rparr>"
  let ?c = "start_current run t"
  have "?c \<le> sw_Current (tr_committed t)"
    using assms(1) by (auto simp: start_current_def stage_work_validate_def split: if_splits)
  then have "good_state ?c ?s" using assms(1) by (simp add: good_state_def good_work_def)
  from execute_work [OF this, of run cfg calls] assms(2,3) have "good_state ?c s"
    by (auto simp: wp_def Execute_def split: prod.splits sum.splits)
  then show ?thesis by (auto simp: good_state_def good_work_def list_all_iff)
qed

theorem published_work_is_sound_witness:
  "list_all (\<lambda>w. stage_work_validate w = None)
    (xs_published (snd (Execute example_config (example_calls\<lparr>pc_publish := Some (\<lambda>_ _. None)\<rparr>) new_tracker verify_run)))"
proof -
  obtain result s where x: "Execute example_config (example_calls\<lparr>pc_publish := Some (\<lambda>_ _. None)\<rparr>) new_tracker verify_run = (result, s)"
    by fastforce
  have "stage_work_validate (tr_committed new_tracker) = None" "sw_Pass (tr_committed new_tracker) < int64_max"
    by (simp_all add: new_tracker_def no_work_def stage_work_validate_def int64_max_def)
  from published_work_is_sound [OF this x] show ?thesis by (simp add: x list_all_iff)
qed

end
