(* ===== verification/Spec2Isabelle.thy ===== *)
theory Spec2Isabelle
  imports GateRegistry LinkWorker RuntimeCacheProps NotifyDelivery ChunkProjection ChunkProject RefreshRepair RefreshOutcomes
    SemanticReadiness CompactionPlan WriterIntentProps EmbedRunProps RefreshProgress
begin

text \<open>
  dbrain keeps a personal knowledge base in SQLite and searches it by meaning. This library models the
  parts of \<open>src/internal\<close> whose correctness does not show in one run of the program: they are used by
  several goroutines or processes at once, survive crashes and restarts, or must agree with each other on identities,
  limits and texts. The definitions follow the Go code function by function and keep its names; the
  lemmas and theorems say what each part promises to the others.

  \<^bold>\<open>How the parts interact.\<close>
  A link that is saved goes into the capture queue and is processed by the worker, which retries and gives up.
  Saved items become parents; the chunk planner splits a parent into windows, and the streaming
  planner delivers its chunks to the store, to be resumed from a cursor. A semantic refresh brings the index up to
  date: the runner drives a run of the durable ledger through six stages, the pipeline executes one
  bounded unit of a stage under the semantic locks (projection uses the chunk planner, embedding stores
  vectors under a profile, flush and compaction build segments, verification proves the root that is active, readiness
  decides whether search may use it). The root cache serves that root to searches. The lock gate is the in-process half of
  every file lock, the tickets of writers the other. The notification manager turns the outcomes of scheduled syncs into incidents and
  delivers them to providers.

  \<^bold>\<open>Theories.\<close>
  Shared vocabulary of Go and SQLite:
  \<^item> \<open>Prelude\<close>: results as sums, Go maps as association lists behind the locale \<open>go_map\<close>, byte strings,
    and the locale \<open>invariant_system\<close> of step relations with an invariant.
  \<^item> \<open>GoTime\<close>, \<open>GoStrings\<close>, \<open>GoContext\<close>, \<open>Sha256\<close>: what the code uses of the packages \<open>time\<close>, \<open>strings\<close>,
    \<open>context\<close> (a context is the number of polls it still survives) and \<open>crypto/sha256\<close>.
  \<^item> \<open>TextOrder\<close>: timestamps as text, and when their order in SQL is the order of the instants.

  Locks (\<open>runlock\<close>):
  \<^item> \<open>LocalGate\<close>: the FIFO readers-writer gate (\<open>tryAcquire\<close>, \<open>acquire\<close>, \<open>release\<close>, \<open>grantWaiters\<close>).
  \<^item> \<open>GateRegistry\<close>: one gate per lock path, counted by its references.
  \<^item> \<open>WriterIntent\<close>, \<open>WriterIntentProps\<close>: the lock of a file among processes: the coordinator, the tickets of waiting
    writers, readers that look for tickets, and every crash in between.

  Link capture (\<open>store/link_capture_queue.go\<close>, \<open>linkcapture/worker.go\<close>):
  \<^item> \<open>LinkQueue\<close>: the table and its statements, with other connections between them.
  \<^item> \<open>LinkWorker\<close>: \<open>RunOnce\<close>, the backoff, \<open>Start\<close> and \<open>Shutdown\<close>.

  Chunks (\<open>retrievalchunk\<close>):
  \<^item> \<open>ChunkText\<close>, \<open>ChunkIdentity\<close>, \<open>ChunkProject\<close>: runes, the data and its identities, parents from items and documents.
  \<^item> \<open>ChunkPlan\<close>, \<open>ChunkStream\<close>: the boundary planner and the streaming planner with its checks,
    preflight, prepared plans and cursors.
  \<^item> \<open>ChunkWindows\<close>, \<open>ChunkSession\<close>, \<open>ChunkPreflight\<close>, \<open>ChunkExamples\<close>, \<open>ChunkProps\<close>, \<open>ChunkResume\<close>, \<open>ChunkStreamProps\<close>,
    \<open>ChunkProjection\<close>: their closed forms and properties, each theory on the one before.

  Semantic refresh (\<open>semanticrefresh\<close>, \<open>store/semantic_refresh_runs.go\<close>, \<open>semanticreadiness\<close>, \<open>embedding\<close>,
  \<open>semanticbuild/compaction_plan.go\<close>):
  \<^item> \<open>RefreshStamp\<close>, \<open>RefreshText\<close>: the fixed-width timestamps and the bounded texts of a run.
  \<^item> \<open>RefreshLedger\<close>, \<open>RefreshLedgerProps\<close>, \<open>RefreshRepair\<close>: the table of runs, its transactions, and the repair of version 26.
  \<^item> \<open>RefreshRunner\<close>, \<open>RefreshStore\<close>, \<open>RefreshRunnerProps\<close>, \<open>RefreshOutcomes\<close>: \<open>Run\<close> and \<open>runOneLedgerRun\<close>; the locale
    \<open>run_ledger_laws\<close> of the ledger a runner needs, interpreted on the store among other processes; what a refresh leaves behind.
  \<^item> \<open>SemanticReadiness\<close>: \<open>Evaluate\<close> and the estimate of dirty parents.
  \<^item> \<open>Embedding\<close>: profiles, their identities, vectors as bytes.
  \<^item> \<open>CompactionPlan\<close>: which segments are rewritten or merged.
  \<^item> \<open>IndexStore\<close>, \<open>IndexStoreProps\<close>, \<open>IndexStoreSteps\<close>: the tables of embeddings, segments and generations
    (\<open>store/retrieval_embeddings.go\<close>, \<open>store/retrieval_index_segments.go\<close>), the counters each operation keeps by
    differences, and the invariant that they are what the tables count.
  \<^item> \<open>EmbedBatch\<close>, \<open>EmbedBatchProps\<close>, \<open>EmbedRunProps\<close>: the embedding of due chunks over those tables
    (\<open>semanticbuild/embed.go\<close>): halving of blocked batches, retries, the circuit, and the command that runs until idle.
  \<^item> \<open>RefreshPipeline\<close>, \<open>RefreshPipelineProps\<close>, \<open>RefreshProgress\<close>: \<open>Execute\<close> with its six stages, the progress
    tracker, and the lock wrapper; weakest-precondition rules for the executor, and its properties alone and under the runner.

  Root cache (\<open>semanticruntime/cache.go\<close>): \<open>RuntimeCache\<close>, \<open>RuntimeCacheInv\<close>, \<open>RuntimeCacheProps\<close>.

  Notifications (\<open>notify\<close>): \<open>NotifyCatalog\<close>, \<open>NotifyMessage\<close>, \<open>NotifyDerive\<close>, \<open>NotifyEvents\<close> (the failure catalog and
  canonical messages), \<open>NotifyState\<close>, \<open>NotifyInv\<close>, \<open>NotifyObserve\<close>, \<open>NotifyProps\<close>, \<open>NotifyTotal\<close> (the incident state
  machine), \<open>NotifyManager\<close>, \<open>NotifyDelivery\<close> (the state file and the delivery loop).

  \<^bold>\<open>How state and errors are modelled.\<close>
  A struct is a record with its fields, a pointer is a number into a heap where sharing matters. A section under a mutex, a SQL
  statement or a transaction is one function on the state, and a step relation or a list of the actions of other processes
  interleaves them with everything else: \<open>gate_step\<close>, \<open>registry_step\<close>, \<open>cache_step\<close>, \<open>ledger_step\<close>, \<open>lock_step\<close>, \<open>index_step\<close>, the interference
  lists of \<open>EnqueueLinkCapture\<close> and the environment of \<open>store_ledger\<close>. A Go error is an \<open>Inl\<close>, with the
  wrapped causes (\<open>go_error\<close>) where the code looks through them. Callbacks, providers, clocks, the file system, the native backend
  and the builders of segments are arguments: a theorem that assumes nothing of them holds whatever they answer.
  Integers are unbounded where the code checks their range, and wrap at 64 bits where it does not
  (\<open>int64_add\<close>, \<open>int64_mul\<close>); hashes are computed on 32 bit words, and the options of the chunk planner are 64 bit words. A run-time
  panic is an outcome of its own (\<open>Panicked\<close>, \<open>Panics\<close>) where an index can be out of range. A write of the notification file
  ends in one of three ways (\<open>writeOutcome\<close>): an error may leave the old file or the new one.

  \<^bold>\<open>Loops and fuel.\<close>
  The loop that fills gaps of a plan is an option and is shown to end for every text, in its cuts or in a panic; context polls are counted, not
  timed. A run of the runner, a delivery loop and a cache run consume a list of what happens in each turn: an
  exhausted list is \<open>None\<close> (still running), and \<open>refresh_returns\<close>, \<open>run_embed_settles\<close>, \<open>delivery_round_ends\<close>, \<open>worker_drains_queue\<close> and
  \<open>planning_returns_under_any_context\<close> state how many turns are enough. No theorem needs a bound on fuel of its own.

  \<^bold>\<open>What the lemma groups show.\<close>
  The invariant of each step relation is proved once per step and lifted by the locale \<open>invariant_system\<close>
  (\<open>lg\<close>, \<open>gr\<close>, \<open>rc\<close>, \<open>rl\<close>, \<open>ix\<close> and others). The rules \<open>runs_intros\<close> relate a computation that polls a context to its pure reference; the
  rules of \<open>triple\<close> take the runner apart under the laws of a ledger, and \<open>wp_intros\<close> the executor under
  whatever it calls. \<open>queue_inv\<close>, \<open>schema_ok\<close>, \<open>good\<close> and \<open>session_wf\<close> are the well-formedness of the durable
  data, each kept by every operation.

  \<^bold>\<open>Not modelled.\<close>
  The web and MCP servers, the importers and API clients of the connectors, media download and transcription, and the installer are network
  and process glue. The other queries of the store are SQL without a protocol of their own, and the
  snapshot of readiness is read by such a query. The other builders of \<open>semanticbuild\<close> and the native index
  (\<open>semanticindex\<close>, \<open>semanticsegment\<close>) produce files through a C library; the executor is proved against any
  behaviour of theirs. Of the lock files of \<open>runlock\<close> their text,
  the canonical paths and the Windows calls are left out. The workers and the ticker of the
  progress emitter are goroutines whose errors reach the runner as events. Norms of vectors and ranking scores are
  floating point. The texts of most errors and all log lines and metrics are left out: no decision depends on them.
\<close>

end
